(* ===== verification/Prelude.thy ===== *)
theory Prelude
  imports Main "HOL-Library.Word" "HOL-Library.Monad_Syntax"
begin

text \<open>
  The vocabulary shared by every component: machine words of the 32-bit kernel, the option monad
  in which a call that never returns is \<open>None\<close>, slices of byte lists, and the
  little-endian encoding of 32-bit fields.

  A C function is translated into a function returning \<open>Some\<close> of its result and new state.
  \<open>None\<close> stands for a call that does not return: a failed \<open>Assert\<close> or
  \<open>Panic\<close> (both end in \<open>_halt\<close>), a dereference of \<open>NULL\<close> or of an
  out-of-range array slot, or a loop that never ends. Error codes such as \<open>-1\<close> or
  \<open>NULL\<close> are ordinary results and stay values.
\<close>

unbundle bit_operations_syntax

type_synonym u8 = "8 word"
type_synonym u32 = "32 word"

named_theorems layout "sizes and offsets of the C structures"
named_theorems frame "what an operation leaves unchanged"

section \<open>Assertions\<close>

definition Assert :: "bool \<Rightarrow> unit option" where
  "Assert b = (if b then Some () else None)"

lemma Assert_simps [simp]:
  "Assert True = Some ()" "Assert False = None"
  "Assert b = Some u \<longleftrightarrow> b" "Assert b = None \<longleftrightarrow> \<not> b"
  by (auto simp: Assert_def)

lemma Assert_bind [simp]: "Option.bind (Assert b) f = (if b then f () else None)"
  by (simp add: Assert_def)

section \<open>Slices of lists\<close>

definition bytes_at :: "nat \<Rightarrow> nat \<Rightarrow> 'a list \<Rightarrow> 'a list" where
  "bytes_at off n xs = take n (drop off xs)"

definition put_at :: "nat \<Rightarrow> 'a list \<Rightarrow> 'a list \<Rightarrow> 'a list" where
  "put_at off ys xs = take off xs @ ys @ drop (off + length ys) xs"

lemma length_bytes_at [simp]: "length (bytes_at off n xs) = min n (length xs - off)"
  by (simp add: bytes_at_def)

lemma length_put_at [simp]:
  "off + length ys \<le> length xs \<Longrightarrow> length (put_at off ys xs) = length xs"
  by (simp add: put_at_def)

lemma nth_bytes_at: "i < n \<Longrightarrow> off + i < length xs \<Longrightarrow> bytes_at off n xs ! i = xs ! (off + i)"
  by (simp add: bytes_at_def)

lemma nth_put_at:
  assumes "off + length ys \<le> length xs" and "i < length xs"
  shows "put_at off ys xs ! i =
    (if off \<le> i \<and> i < off + length ys then ys ! (i - off) else xs ! i)"
  using assms by (auto simp: put_at_def nth_append min_def)

lemma bytes_at_put_same:
  "off + length ys \<le> length xs \<Longrightarrow> bytes_at off (length ys) (put_at off ys xs) = ys"
  by (simp add: bytes_at_def put_at_def)

lemma bytes_at_put_disjoint:
  assumes "off + length ys \<le> length xs" and "a + n \<le> off \<or> off + length ys \<le> a"
  shows "bytes_at a n (put_at off ys xs) = bytes_at a n xs"
proof (rule nth_equalityI)
  show "length (bytes_at a n (put_at off ys xs)) = length (bytes_at a n xs)"
    using assms(1) by simp
next
  fix i assume "i < length (bytes_at a n (put_at off ys xs))"
  then have i: "i < n" "a + i < length xs" using assms(1) by auto
  then show "bytes_at a n (put_at off ys xs) ! i = bytes_at a n xs ! i"
    using assms by (auto simp: nth_bytes_at nth_put_at)
qed

lemma bytes_at_all [simp]: "length xs \<le> n \<Longrightarrow> bytes_at 0 n xs = xs"
  by (simp add: bytes_at_def)

lemma bytes_at_append [simp]: "n \<le> length xs \<Longrightarrow> bytes_at 0 n (xs @ ys) = take n xs"
  by (simp add: bytes_at_def)

section \<open>Little-endian 32-bit fields\<close>

definition le32 :: "u32 \<Rightarrow> u8 list" where
  "le32 w = [ucast w, ucast (drop_bit 8 w), ucast (drop_bit 16 w), ucast (drop_bit 24 w)]"

definition un_le32 :: "u8 list \<Rightarrow> u32" where
  "un_le32 bs = ucast (bs ! 0) OR push_bit 8 (ucast (bs ! 1)) OR
     push_bit 16 (ucast (bs ! 2)) OR push_bit 24 (ucast (bs ! 3))"

lemma length_le32 [simp]: "length (le32 w) = 4"
  by (simp add: le32_def)

lemma un_le32_le32 [simp]: "un_le32 (le32 w) = w"
proof (rule bit_word_eqI)
  fix n assume n: "n < LENGTH(32)"
  show "bit (un_le32 (le32 w)) n = bit w n"
  proof -
    consider "n < 8" | "8 \<le> n" "n < 16" | "16 \<le> n" "n < 24" | "24 \<le> n" by linarith
    then show ?thesis
      using n by cases (auto simp: un_le32_def le32_def bit_simps)
  qed
qed

section \<open>Characters and bytes\<close>

text \<open>A C string is a \<open>string\<close> in the model; on a disk or in memory its characters are
  bytes.\<close>

definition byte_of :: "char \<Rightarrow> u8" where
  "byte_of c = word_of_nat (of_char c)"

definition char_of_byte :: "u8 \<Rightarrow> char" where
  "char_of_byte b = char_of (unat b)"

lemma of_char_lt_256: "(of_char c :: nat) < 256"
  by (cases c) (simp add: of_char_def split: bool.splits)

lemma char_of_byte_of [simp]: "char_of_byte (byte_of c) = c"
  by (simp add: char_of_byte_def byte_of_def unat_of_nat of_char_lt_256 take_bit_eq_mod)

lemma byte_of_eq_iff [simp]: "byte_of c = byte_of d \<longleftrightarrow> c = d"
  by (metis char_of_byte_of)

lemma byte_of_char_of_byte [simp]: "byte_of (char_of_byte b) = b"
proof -
  have "unat b < 256" using unsigned_less [of b] by simp
  then show ?thesis by (simp add: char_of_byte_def byte_of_def)
qed

end
