(* ===== verification/KMem.thy ===== *)
theory KMem
  imports Prelude
begin

text \<open>
  The 32-bit physical memory of the machine: a byte for every address, words stored
  little-endian. Addresses are machine words, so pointer arithmetic wraps as it does on the
  processor. \<open>in_range a n x\<close> says that address \<open>x\<close> is one of the
  \<open>n\<close> bytes from \<open>a\<close>.
\<close>

type_synonym mem = "u32 \<Rightarrow> u8"

definition in_range :: "u32 \<Rightarrow> nat \<Rightarrow> u32 \<Rightarrow> bool" where
  "in_range a n x \<longleftrightarrow> unat (x - a) < n"

definition ld32 :: "mem \<Rightarrow> u32 \<Rightarrow> u32" where
  "ld32 m a = un_le32 [m a, m (a + 1), m (a + 2), m (a + 3)]"

definition st32 :: "mem \<Rightarrow> u32 \<Rightarrow> u32 \<Rightarrow> mem" where
  "st32 m a w = m(a := le32 w ! 0, a + 1 := le32 w ! 1, a + 2 := le32 w ! 2, a + 3 := le32 w ! 3)"

lemma word_add_numeral_neq:
  fixes a :: u32
  shows "a \<noteq> a + 1" "a \<noteq> a + 2" "a \<noteq> a + 3" "a + 1 \<noteq> a" "a + 2 \<noteq> a" "a + 3 \<noteq> a"
    "a + 1 \<noteq> a + 2" "a + 1 \<noteq> a + 3" "a + 2 \<noteq> a + 3"
    "a + 2 \<noteq> a + 1" "a + 3 \<noteq> a + 1" "a + 3 \<noteq> a + 2"
  by auto

lemma ld32_st32_same [simp]: "ld32 (st32 m a w) a = w"
proof -
  have "ld32 (st32 m a w) a = un_le32 [le32 w ! 0, le32 w ! 1, le32 w ! 2, le32 w ! 3]"
    by (simp add: ld32_def st32_def word_add_numeral_neq)
  also have "[le32 w ! 0, le32 w ! 1, le32 w ! 2, le32 w ! 3] = le32 w"
    by (simp add: le32_def)
  finally show ?thesis by simp
qed

lemma unat_lt_2p32: "unat (x :: u32) < 2 ^ 32"
  using unsigned_less [of x] by simp

lemma unat_of_nat32: "k < 2 ^ 32 \<Longrightarrow> unat (of_nat k :: u32) = k"
  by (simp add: unat_of_nat take_bit_eq_mod)

lemma unat_sub_eq:
  assumes "k < 2 ^ 32"
  shows "unat (x - a :: u32) = k \<longleftrightarrow> x = a + of_nat k"
proof
  assume "unat (x - a) = k"
  then have "of_nat (unat (x - a)) = (of_nat k :: u32)" by simp
  then show "x = a + of_nat k" by (simp add: algebra_simps)
next
  assume "x = a + of_nat k"
  then show "unat (x - a) = k" using assms by (simp add: unat_of_nat take_bit_eq_mod)
qed

lemma in_range_cases_4:
  "in_range a 4 x \<longleftrightarrow> x = a \<or> x = a + 1 \<or> x = a + 2 \<or> x = a + 3"
proof -
  have "unat (x - a) < 4 \<longleftrightarrow> unat (x - a) \<in> {0, 1, 2, 3}" by auto
  then show ?thesis
    using unat_sub_eq [of 0 x a] unat_sub_eq [of 1 x a] unat_sub_eq [of 2 x a]
      unat_sub_eq [of 3 x a] unfolding in_range_def by simp
qed

lemma st32_outside: "\<not> in_range a 4 x \<Longrightarrow> st32 m a w x = m x"
  by (simp add: st32_def in_range_cases_4)

lemma in_range_iff:
  assumes "unat a + n \<le> 2 ^ 32"
  shows "in_range a n x \<longleftrightarrow> unat a \<le> unat x \<and> unat x < unat a + n"
proof -
  have "unat x < 2 ^ 32" "unat a < 2 ^ 32"
    using unsigned_less [of x] unsigned_less [of a] by simp_all
  then show ?thesis
    using assms unfolding in_range_def by (auto simp: unat_sub_if')
qed

lemma ld32_cong:
  assumes "\<And>x. in_range a 4 x \<Longrightarrow> m x = m' x"
  shows "ld32 m a = ld32 m' a"
  using assms by (simp add: ld32_def in_range_cases_4)

definition apart :: "u32 \<Rightarrow> nat \<Rightarrow> u32 \<Rightarrow> nat \<Rightarrow> bool" where
  "apart a n b k \<longleftrightarrow> unat a + n \<le> 2 ^ 32 \<and> unat b + k \<le> 2 ^ 32 \<and>
     (unat a + n \<le> unat b \<or> unat b + k \<le> unat a)"

lemma apart_not_in_range: "apart a n b k \<Longrightarrow> in_range b k x \<Longrightarrow> \<not> in_range a n x"
  by (auto simp: apart_def in_range_iff)

lemma ld32_st32_apart: "apart a 4 b 4 \<Longrightarrow> ld32 (st32 m a w) b = ld32 m b"
  by (rule ld32_cong) (auto simp: st32_outside dest: apart_not_in_range)

lemma ld32_outside:
  assumes "\<And>x. \<not> in_range a n x \<Longrightarrow> m' x = m x" and "apart a n b 4"
  shows "ld32 m' b = ld32 m b"
  using assms by (intro ld32_cong) (auto dest: apart_not_in_range)

lemma unat_add_of_nat:
  "unat (a :: u32) + k < 2 ^ 32 \<Longrightarrow> unat (a + of_nat k) = unat a + k"
  by (simp add: unat_word_ariths unat_of_nat take_bit_eq_mod)

lemma unat_add_1: "unat (a :: u32) + 1 < 2 ^ 32 \<Longrightarrow> unat (a + 1) = unat a + 1"
  using unat_add_of_nat [of a 1] by simp

lemma in_range_0 [simp]: "\<not> in_range a 0 x"
  by (simp add: in_range_def)

lemma in_range_self [simp]: "0 < n \<Longrightarrow> in_range a n a"
  by (simp add: in_range_def)

lemma in_range_Suc:
  assumes "Suc k \<le> 2 ^ 32"
  shows "in_range a (Suc k) x \<longleftrightarrow> x = a \<or> in_range (a + 1) k x"
proof (cases "x = a")
  case True then show ?thesis by (simp add: in_range_def)
next
  case False
  then have "x - a \<noteq> 0" by simp
  then have "unat (x - a - 1) = unat (x - a) - 1" "unat (x - a) \<noteq> 0"
    by (simp_all add: unat_minus_one unat_eq_0)
  then show ?thesis
    using False unfolding in_range_def by (auto simp: algebra_simps diff_diff_eq)
qed

text \<open>Copying \<open>n\<close> bytes from \<open>s\<close> to \<open>d\<close> as one update, all of the source
  read first.\<close>

definition blit :: "mem \<Rightarrow> u32 \<Rightarrow> u32 \<Rightarrow> nat \<Rightarrow> mem" where
  "blit m d s n = (\<lambda>x. if in_range d n x then m (s + (x - d)) else m x)"

lemma blit_0 [simp]: "blit m d s 0 = m"
  by (simp add: blit_def)

definition no_wrap :: "u32 \<Rightarrow> nat \<Rightarrow> bool" where
  "no_wrap a n \<longleftrightarrow> unat a + n \<le> 2 ^ 32"

end
