(* ===== verification/Klib.thy ===== *)
theory Klib
  imports KMem
begin

text \<open>
  The string and memory routines of the kernel's C library (\<open>klib/src/string.c\<close>), on the
  byte memory. A \<open>char *\<close> is an address; a \<open>NUL\<close>-terminated string at an address
  is described by \<open>cstr\<close>. The scans for a terminator are \<open>partial_function\<close>s:
  they return only if they meet one. Each routine is shown to compute the operation on
  character lists that the rest of the development uses for it.
\<close>

section \<open>The routines\<close>

partial_function (option) strlen_loop :: "mem \<Rightarrow> u32 \<Rightarrow> u32 \<Rightarrow> u32 option" where
  "strlen_loop m s sc = (if m sc \<noteq> 0 then strlen_loop m s (sc + 1) else Some (sc - s))"

definition strlen :: "mem \<Rightarrow> u32 \<Rightarrow> u32 option" where
  "strlen m s = strlen_loop m s s"

partial_function (option) strcpy_loop :: "mem \<Rightarrow> u32 \<Rightarrow> u32 \<Rightarrow> mem option" where
  "strcpy_loop m sc su =
     (if m su \<noteq> 0 then strcpy_loop (m(sc := m su)) (sc + 1) (su + 1) else Some (m(sc := m su)))"

text \<open>The pointer \<open>strcpy\<close> and the others return is their first argument, so the model
  returns the memory only.\<close>

definition strcpy :: "mem \<Rightarrow> u32 \<Rightarrow> u32 \<Rightarrow> mem option" where
  "strcpy m dst src = strcpy_loop m dst src"

fun memset_loop :: "mem \<Rightarrow> u32 \<Rightarrow> u8 \<Rightarrow> nat \<Rightarrow> mem" where
  "memset_loop m t c 0 = m"
| "memset_loop m t c (Suc k) = memset_loop (m(t := c)) (t + 1) c k"

text \<open>The copying loop of \<open>strncpy\<close>; the counter is \<open>n - i\<close>. It stops on the
  terminator before \<open>i\<close> is increased, so the padding loop still has that slot to
  fill.\<close>

fun strncpy_copy :: "mem \<Rightarrow> u32 \<Rightarrow> u32 \<Rightarrow> nat \<Rightarrow> mem \<times> u32 \<times> nat" where
  "strncpy_copy m sc su 0 = (m, sc, 0)"
| "strncpy_copy m sc su (Suc k) =
     (if m su \<noteq> 0 then strncpy_copy (m(sc := m su)) (sc + 1) (su + 1) k
      else (m(sc := m su), sc + 1, Suc k))"

definition strncpy :: "mem \<Rightarrow> u32 \<Rightarrow> u32 \<Rightarrow> u32 \<Rightarrow> mem" where
  "strncpy m dst src n =
     (if n = 0 then m(dst := 0)
      else (case strncpy_copy m dst src (unat n) of (m1, sc, r) \<Rightarrow> memset_loop m1 sc 0 r))"

partial_function (option) strchr_loop :: "mem \<Rightarrow> u8 \<Rightarrow> u32 \<Rightarrow> u32 option" where
  "strchr_loop m c ts = (if m ts \<noteq> 0 \<and> m ts \<noteq> c then strchr_loop m c (ts + 1) else Some ts)"

definition strchr :: "mem \<Rightarrow> u32 \<Rightarrow> u8 \<Rightarrow> u32 option" where
  "strchr m s c = do { ts \<leftarrow> strchr_loop m c s; Some (if m ts \<noteq> c then 0 else ts) }"

partial_function (option) strrchr_loop :: "mem \<Rightarrow> u32 \<Rightarrow> u8 \<Rightarrow> u32 \<Rightarrow> u32 option" where
  "strrchr_loop m s c ts = (if s \<le> ts \<and> m ts \<noteq> c then strrchr_loop m s c (ts - 1) else Some ts)"

definition strrchr :: "mem \<Rightarrow> u32 \<Rightarrow> u8 \<Rightarrow> u32 option" where
  "strrchr m s c = do {
     len \<leftarrow> strlen m s;
     ts \<leftarrow> strrchr_loop m s c (s + len - 1);
     Some (if m ts \<noteq> c then 0 else ts) }"

definition substr :: "mem \<Rightarrow> u32 \<Rightarrow> u32 \<Rightarrow> u32 \<Rightarrow> u32 \<Rightarrow> mem" where
  "substr m dst src from count = strncpy m dst (src + from) count"

partial_function (option) strcat_end :: "mem \<Rightarrow> u32 \<Rightarrow> u32 option" where
  "strcat_end m s = (if m s \<noteq> 0 then strcat_end m (s + 1) else Some s)"

definition strcat :: "mem \<Rightarrow> u32 \<Rightarrow> u32 \<Rightarrow> mem option" where
  "strcat m dst src = do { s \<leftarrow> strcat_end m dst; strcpy_loop m s src }"

text \<open>\<open>char\<close> is signed on the target, so the difference is that of signed bytes.\<close>

partial_function (option) strcmp :: "mem \<Rightarrow> u32 \<Rightarrow> u32 \<Rightarrow> int option" where
  "strcmp m s1 s2 =
     (if m s1 \<noteq> 0 \<and> m s2 \<noteq> 0 then
        if m s1 \<noteq> m s2 then Some (sint (m s1) - sint (m s2)) else strcmp m (s1 + 1) (s2 + 1)
      else Some (sint (m s1) - sint (m s2)))"

text \<open>In \<open>strncmp_loop\<close> the last argument is \<open>n - i\<close>.\<close>

fun strncmp_loop :: "mem \<Rightarrow> u32 \<Rightarrow> u32 \<Rightarrow> nat \<Rightarrow> int" where
  "strncmp_loop m s1 s2 0 = 0"
| "strncmp_loop m s1 s2 (Suc k) =
     (if m s1 \<noteq> 0 \<and> m s2 \<noteq> 0 then
        if m s1 \<noteq> m s2 then sint (m s1) - sint (m s2) else strncmp_loop m (s1 + 1) (s2 + 1) k
      else sint (m s1) - sint (m s2))"

definition strncmp :: "mem \<Rightarrow> u32 \<Rightarrow> u32 \<Rightarrow> u32 \<Rightarrow> int" where
  "strncmp m s1 s2 n = strncmp_loop m s1 s2 (unat n)"

definition streq :: "mem \<Rightarrow> u32 \<Rightarrow> u32 \<Rightarrow> bool option" where
  "streq m s1 s2 = map_option (\<lambda>r. r = 0) (strcmp m s1 s2)"

definition strneq :: "mem \<Rightarrow> u32 \<Rightarrow> u32 \<Rightarrow> u32 \<Rightarrow> bool" where
  "strneq m s1 s2 n \<longleftrightarrow> strncmp m s1 s2 n = 0"

definition memset :: "mem \<Rightarrow> u32 \<Rightarrow> u32 \<Rightarrow> u32 \<Rightarrow> mem" where
  "memset m v c n = memset_loop m v (ucast c) (unat n)"

fun memcpy_loop :: "mem \<Rightarrow> u32 \<Rightarrow> u32 \<Rightarrow> nat \<Rightarrow> mem" where
  "memcpy_loop m t i 0 = m"
| "memcpy_loop m t i (Suc k) = memcpy_loop (m(t := m i)) (t + 1) (i + 1) k"

definition memcpy :: "mem \<Rightarrow> u32 \<Rightarrow> u32 \<Rightarrow> u32 \<Rightarrow> mem" where
  "memcpy m dst src n = memcpy_loop m dst src (unat n)"

partial_function (option) memmove_back :: "mem \<Rightarrow> u32 \<Rightarrow> u32 \<Rightarrow> u32 \<Rightarrow> mem option" where
  "memmove_back m p q src =
     (if src \<le> q then memmove_back (m(p := m q)) (p - 1) (q - 1) src else Some m)"

definition memmove :: "mem \<Rightarrow> u32 \<Rightarrow> u32 \<Rightarrow> u32 \<Rightarrow> mem option" where
  "memmove m dst src n =
     (if src < dst \<and> dst < src + n then memmove_back m (dst + n - 1) (src + n - 1) src
      else Some (memcpy m dst src n))"

text \<open>The loop advances \<open>s1\<close> and \<open>s2\<close>, but reads through \<open>_s1\<close> and
  \<open>_s2\<close>, which stay where they are.\<close>

fun memcmp_loop :: "mem \<Rightarrow> u32 \<Rightarrow> u32 \<Rightarrow> nat \<Rightarrow> int" where
  "memcmp_loop m s1 s2 0 = 0"
| "memcmp_loop m s1 s2 (Suc k) =
     (if m s1 < m s2 then -1 else if m s2 < m s1 then 1 else memcmp_loop m s1 s2 k)"

definition memcmp :: "mem \<Rightarrow> u32 \<Rightarrow> u32 \<Rightarrow> u32 \<Rightarrow> int" where
  "memcmp m s1 s2 n = memcmp_loop m s1 s2 (unat n)"

section \<open>Strings in memory\<close>

fun cstr :: "mem \<Rightarrow> u32 \<Rightarrow> string \<Rightarrow> bool" where
  "cstr m p [] \<longleftrightarrow> m p = 0"
| "cstr m p (c # cs) \<longleftrightarrow> c \<noteq> CHR 0x00 \<and> m p = byte_of c \<and> cstr m (p + 1) cs"

lemma byte_of_eq_0 [simp]: "byte_of c = 0 \<longleftrightarrow> c = CHR 0x00"
proof -
  have "byte_of (CHR 0x00) = 0" by (simp add: byte_of_def of_char_def)
  then show ?thesis by (metis byte_of_eq_iff)
qed

lemma strlen_loop_cstr:
  "cstr m sc t \<Longrightarrow> strlen_loop m s sc = Some (sc + of_nat (length t) - s)"
  by (induction t arbitrary: sc) (simp_all add: strlen_loop.simps algebra_simps)

lemma strlen_cstr: "cstr m p s \<Longrightarrow> strlen m p = Some (of_nat (length s))"
  by (simp add: strlen_def strlen_loop_cstr)

lemma sint_byte_diff:
  "sint (a :: u8) - sint b = 0 \<longleftrightarrow> a = b" "sint (a :: u8) = sint b \<longleftrightarrow> a = b"
  "sint (a :: u8) = 0 \<longleftrightarrow> a = 0"
  by (metis eq_iff_diff_eq_0 signed_word_eqI, metis signed_word_eqI, metis signed_word_eqI signed_0)

lemma strcmp_cstr:
  "cstr m p s \<Longrightarrow> cstr m q t \<Longrightarrow> \<exists>r. strcmp m p q = Some r \<and> (r = 0 \<longleftrightarrow> s = t)"
proof (induction s arbitrary: p q t)
  case Nil
  then show ?case
    by (cases t) (auto simp: strcmp.simps sint_byte_diff)
next
  case (Cons c cs)
  then show ?case
    by (cases t) (auto simp: strcmp.simps sint_byte_diff)
qed

lemma streq_cstr: "cstr m p s \<Longrightarrow> cstr m q t \<Longrightarrow> streq m p q = Some (s = t)"
  using strcmp_cstr [of m p s q t] by (auto simp: streq_def)

lemma strncmp_loop_cstr:
  "cstr m p s \<Longrightarrow> cstr m q t \<Longrightarrow> strncmp_loop m p q k = 0 \<longleftrightarrow> take k s = take k t"
proof (induction k arbitrary: p q s t)
  case 0 then show ?case by simp
next
  case (Suc k)
  then show ?case by (cases s; cases t) (auto simp: sint_byte_diff)
qed

lemma strneq_cstr:
  "cstr m p s \<Longrightarrow> cstr m q t \<Longrightarrow> strneq m p q n \<longleftrightarrow> take (unat n) s = take (unat n) t"
  by (simp add: strneq_def strncmp_def strncmp_loop_cstr)

lemma memset_loop_eq:
  "k \<le> 2 ^ 32 \<Longrightarrow> memset_loop m t c k = (\<lambda>x. if in_range t k x then c else m x)"
proof (induction k arbitrary: m t)
  case 0 then show ?case by simp
next
  case (Suc k)
  then show ?case by (auto simp: in_range_Suc fun_eq_iff)
qed

lemma blit_step:
  assumes "Suc k \<le> 2 ^ 32" and "\<And>j. j < k \<Longrightarrow> s + of_nat (Suc j) \<noteq> d"
  shows "blit (m(d := m s)) (d + 1) (s + 1) k = blit m d s (Suc k)"
proof (rule ext)
  fix x
  show "blit (m(d := m s)) (d + 1) (s + 1) k x = blit m d s (Suc k) x"
  proof (cases "in_range (d + 1) k x")
    case True
    define j where "j = unat (x - (d + 1))"
    have j: "j < k" using True by (simp add: j_def in_range_def)
    have "s + (x - d) = s + of_nat (Suc j)" by (simp add: j_def)
    then have "s + (x - d) \<noteq> d" using assms(2) [OF j] by metis
    then show ?thesis using True assms(1) by (simp add: blit_def in_range_Suc algebra_simps)
  next
    case False
    then show ?thesis using assms(1) by (simp add: blit_def in_range_Suc)
  qed
qed

definition fwd_safe :: "u32 \<Rightarrow> u32 \<Rightarrow> nat \<Rightarrow> bool" where
  "fwd_safe d s n \<longleftrightarrow> no_wrap d n \<and> no_wrap s n \<and> (unat d \<le> unat s \<or> unat s + n \<le> unat d)"

lemma fwd_safe_neq: "fwd_safe d s (Suc k) \<Longrightarrow> j < k \<Longrightarrow> s + of_nat (Suc j) \<noteq> d"
  using unat_add_of_nat [of s "Suc j"] by (auto simp: fwd_safe_def no_wrap_def)

lemma fwd_safe_Suc: "fwd_safe d s (Suc (Suc k)) \<Longrightarrow> fwd_safe (d + 1) (s + 1) (Suc k)"
  by (auto simp: fwd_safe_def no_wrap_def unat_add_1)

lemma memcpy_loop_blit: "fwd_safe d s k \<Longrightarrow> memcpy_loop m d s k = blit m d s k"
proof (induction k arbitrary: m d s)
  case 0 then show ?case by simp
next
  case (Suc k)
  have IH: "memcpy_loop (m(d := m s)) (d + 1) (s + 1) k = blit (m(d := m s)) (d + 1) (s + 1) k"
  proof (cases k)
    case (Suc j)
    then show ?thesis using Suc.prems by (intro Suc.IH) (simp add: fwd_safe_Suc)
  qed simp
  have "Suc k \<le> 2 ^ 32" using Suc.prems by (simp add: fwd_safe_def no_wrap_def)
  then show ?case
    using blit_step [of k s d m] fwd_safe_neq [OF Suc.prems] by (simp add: IH)
qed

lemma memmove_back_blit:
  assumes "unat s < unat d" "0 < unat s" "no_wrap s n" "no_wrap d n" "k \<le> n"
  shows "memmove_back m (d + of_nat k - 1) (s + of_nat k - 1) s = Some (blit m d s k)"
  using assms
proof (induction k arbitrary: m)
  case 0
  have "s \<noteq> 0" using 0 by auto
  then have "\<not> s \<le> s - 1" using 0 by (simp add: word_le_nat_alt unat_minus_one)
  then show ?case by (simp add: memmove_back.simps)
next
  case (Suc k)
  have a: "unat (s + of_nat k) = unat s + k" "unat (d + of_nat k) = unat d + k"
    using Suc.prems by (simp_all add: unat_add_of_nat no_wrap_def)
  have st: "memmove_back m (d + of_nat (Suc k) - 1) (s + of_nat (Suc k) - 1) s =
      memmove_back (m(d + of_nat k := m (s + of_nat k))) (d + of_nat k - 1) (s + of_nat k - 1) s"
    using a by (subst memmove_back.simps) (simp add: word_le_nat_alt)
  have "blit (m(d + of_nat k := m (s + of_nat k))) d s k = blit m d s (Suc k)"
  proof (rule ext)
    fix x
    show "blit (m(d + of_nat k := m (s + of_nat k))) d s k x = blit m d s (Suc k) x"
    proof (cases "in_range d k x")
      case True
      define j where "j = unat (x - d)"
      have j: "j < k" "x - d = of_nat j" using True by (simp_all add: j_def in_range_def)
      have "unat (s + of_nat j) = unat s + j"
        using j Suc.prems by (simp add: unat_add_of_nat no_wrap_def)
      then have "s + of_nat j \<noteq> d + of_nat k" using a Suc.prems j by auto
      then show ?thesis using True j by (simp add: blit_def in_range_def)
    next
      case False
      have "x = d + of_nat k \<longleftrightarrow> unat (x - d) = k"
        using unat_sub_eq [of k x d] Suc.prems by (auto simp: no_wrap_def)
      then show ?thesis using False by (auto simp: blit_def in_range_def less_Suc_eq)
    qed
  qed
  moreover have "memmove_back (m(d + of_nat k := m (s + of_nat k))) (d + of_nat k - 1)
      (s + of_nat k - 1) s = Some (blit (m(d + of_nat k := m (s + of_nat k))) d s k)"
    using Suc.prems by (intro Suc.IH) auto
  ultimately show ?case by (simp only: st)
qed

lemma in_range_sub: "in_range (a + 1) k x \<Longrightarrow> Suc k \<le> 2 ^ 32 \<Longrightarrow> in_range a (Suc k) x"
  by (simp add: in_range_Suc)

lemma cstr_cong:
  "cstr m p s \<Longrightarrow> Suc (length s) \<le> 2 ^ 32 \<Longrightarrow>
   (\<And>x. in_range p (Suc (length s)) x \<Longrightarrow> m' x = m x) \<Longrightarrow> cstr m' p s"
proof (induction s arbitrary: p)
  case Nil then show ?case by (simp add: in_range_def)
next
  case (Cons c cs)
  have "cstr m' (p + 1) cs"
    using Cons.prems by (intro Cons.IH) (auto simp: in_range_Suc)
  then show ?case using Cons.prems by (simp add: in_range_Suc)
qed

lemma apart_fwd_safe: "apart d n s n \<Longrightarrow> fwd_safe d s n"
  by (auto simp: apart_def fwd_safe_def no_wrap_def)

lemma apart_Suc: "apart d (Suc (Suc n)) s (Suc (Suc n)) \<Longrightarrow> apart (d + 1) (Suc n) (s + 1) (Suc n)"
  by (auto simp: apart_def unat_add_1)

lemma strcpy_loop_blit:
  "cstr m su s \<Longrightarrow> apart sc (Suc (length s)) su (Suc (length s)) \<Longrightarrow>
   strcpy_loop m sc su = Some (blit m sc su (Suc (length s)))"
proof (induction s arbitrary: m sc su)
  case Nil
  then show ?case using blit_step [of 0 su sc m] by (simp add: strcpy_loop.simps)
next
  case (Cons c cs)
  let ?n = "Suc (length cs)"
  have ap: "apart (sc + 1) ?n (su + 1) ?n" using Cons.prems(2) by (simp add: apart_Suc)
  have n: "Suc ?n \<le> 2 ^ 32" using Cons.prems(2) by (simp add: apart_def)
  have "cstr (m(sc := m su)) (su + 1) cs"
  proof (rule cstr_cong)
    show "cstr m (su + 1) cs" using Cons.prems(1) by simp
    show "Suc (length cs) \<le> 2 ^ 32" using n by simp
    fix x assume "in_range (su + 1) (Suc (length cs)) x"
    then have "in_range su (Suc ?n) x" using n by (simp add: in_range_Suc)
    then have "\<not> in_range sc (Suc ?n) x" using Cons.prems(2) by (auto dest: apart_not_in_range)
    then have "x \<noteq> sc" by (auto simp: in_range_def)
    then show "(m(sc := m su)) x = m x" by simp
  qed
  then have "strcpy_loop (m(sc := m su)) (sc + 1) (su + 1) =
      Some (blit (m(sc := m su)) (sc + 1) (su + 1) ?n)"
    by (rule Cons.IH [OF _ ap])
  moreover have "strcpy_loop m sc su = strcpy_loop (m(sc := m su)) (sc + 1) (su + 1)"
    using Cons.prems(1) by (subst strcpy_loop.simps) simp
  moreover have "blit (m(sc := m su)) (sc + 1) (su + 1) ?n = blit m sc su (Suc ?n)"
    using Cons.prems(2) n by (intro blit_step fwd_safe_neq [OF apart_fwd_safe]) auto
  ultimately show ?case by simp
qed

lemma cstr_blit:
  "cstr m su s \<Longrightarrow> Suc (length s) \<le> 2 ^ 32 \<Longrightarrow> Suc (length s) \<le> n \<Longrightarrow> cstr (blit m sc su n) sc s"
proof -
  assume s: "cstr m su s" "Suc (length s) \<le> 2 ^ 32" "Suc (length s) \<le> n"
  have "cstr m' (sc + of_nat i) t" if "cstr m (su + of_nat i) t" "i + length t < n"
    "i + length t < 2 ^ 32" "\<And>j. j < n \<Longrightarrow> j < 2 ^ 32 \<Longrightarrow> m' (sc + of_nat j) = m (su + of_nat j)" for m' t i
    using that
  proof (induction t arbitrary: i)
    case Nil then show ?case by simp
  next
    case (Cons c cs)
    have "cstr m' (sc + of_nat (Suc i)) cs"
      using Cons.prems by (intro Cons.IH) (auto simp: algebra_simps)
    then show ?case using Cons.prems by (simp add: algebra_simps)
  qed
  from this [of 0 s "blit m sc su n"] s show ?thesis
    by (simp add: blit_def in_range_def unat_of_nat take_bit_eq_mod)
qed

theorem strcpy_correct:
  assumes "cstr m src s" and "apart dst (Suc (length s)) src (Suc (length s))"
  shows "\<exists>m'. strcpy m dst src = Some m' \<and> cstr m' dst s \<and> cstr m' src s \<and>
    (\<forall>x. \<not> in_range dst (Suc (length s)) x \<longrightarrow> m' x = m x)"
proof -
  let ?m = "blit m dst src (Suc (length s))"
  have n: "Suc (length s) \<le> 2 ^ 32" using assms(2) by (simp add: apart_def)
  have "cstr ?m src s"
    using assms n by (intro cstr_cong [OF assms(1)]) (auto simp: blit_def dest: apart_not_in_range)
  then show ?thesis
    using assms n by (simp add: strcpy_def strcpy_loop_blit cstr_blit) (simp add: blit_def)
qed

text \<open>\<open>memmove\<close> copies \<open>n\<close> bytes correctly whatever the overlap of the two
  areas, in both directions of the copy, and changes nothing outside the destination.\<close>
lemma memmove_correct:
  assumes "no_wrap src (unat n)" "no_wrap dst (unat n)" "src \<noteq> 0"
  shows "memmove m dst src n = Some (blit m dst src (unat n))"
proof (cases "src < dst \<and> dst < src + n")
  case True
  have "memmove_back m (dst + of_nat (unat n) - 1) (src + of_nat (unat n) - 1) src =
      Some (blit m dst src (unat n))"
    using True assms by (intro memmove_back_blit) (auto simp: word_less_nat_alt unat_gt_0)
  then show ?thesis using True by (simp add: memmove_def)
next
  case False
  have "unat (src + n) = unat src + unat n \<or> unat src + unat n = 2 ^ 32"
    using assms(1) unat_add_of_nat [of src "unat n"] by (auto simp: no_wrap_def)
  then have "fwd_safe dst src (unat n)"
    using False assms by (auto simp: fwd_safe_def word_less_nat_alt no_wrap_def)
  then show ?thesis using False by (auto simp: memmove_def memcpy_def memcpy_loop_blit)
qed

lemma memmove_correct_witness:
  "memmove (\<lambda>x. ucast x) 0x2004 0x2000 16 = Some (blit (\<lambda>x. ucast x) 0x2004 0x2000 16)"
  using memmove_correct [of "0x2000" 16 "0x2004" "\<lambda>x. ucast x"] by (simp add: no_wrap_def)

section \<open>Searching and bounded copies\<close>

fun str_index :: "char \<Rightarrow> string \<Rightarrow> nat option" where
  "str_index c [] = None"
| "str_index c (x # xs) = (if x = c then Some 0 else map_option Suc (str_index c xs))"

fun str_rindex :: "char \<Rightarrow> string \<Rightarrow> nat option" where
  "str_rindex c [] = None"
| "str_rindex c (x # xs) =
     (case str_rindex c xs of Some i \<Rightarrow> Some (Suc i) | None \<Rightarrow> if x = c then Some 0 else None)"

lemma str_rindex_snoc:
  "str_rindex c (xs @ [y]) = (if y = c then Some (length xs) else str_rindex c xs)"
  by (induction xs) (auto split: option.splits)

lemma str_index_None: "str_index c s = None \<longleftrightarrow> c \<notin> set s"
  by (induction s) auto

lemma str_rindex_None: "str_rindex c s = None \<longleftrightarrow> c \<notin> set s"
proof (induction s)
  case (Cons x xs)
  then show ?case by (cases "str_rindex c xs") auto
qed simp

lemma str_index_SomeD: "str_index c s = Some i \<Longrightarrow> i < length s \<and> s ! i = c \<and> c \<notin> set (take i s)"
  by (induction s arbitrary: i) (auto split: if_splits)

lemma str_rindex_SomeD:
  "str_rindex c s = Some i \<Longrightarrow> i < length s \<and> s ! i = c \<and> c \<notin> set (drop (Suc i) s)"
  by (induction s arbitrary: i) (auto simp: str_rindex_None split: option.splits if_splits)

lemma cstr_nth: "cstr m p s \<Longrightarrow> i < length s \<Longrightarrow> m (p + of_nat i) = byte_of (s ! i) \<and> s ! i \<noteq> CHR 0x00"
proof (induction s arbitrary: p i)
  case (Cons c cs)
  then show ?case
    using Cons.IH [of "p + 1" "i - 1"] by (cases i) (auto simp: algebra_simps)
qed simp

lemma cstr_end: "cstr m p s \<Longrightarrow> m (p + of_nat (length s)) = 0"
  by (induction s arbitrary: p) (auto simp: add.assoc [symmetric])

lemma cstr_drop: "cstr m p s \<Longrightarrow> i \<le> length s \<Longrightarrow> cstr m (p + of_nat i) (drop i s)"
proof (induction s arbitrary: p i)
  case (Cons c cs)
  then show ?case
    using Cons.IH [of "p + 1" "i - 1"] by (cases i) (auto simp: algebra_simps)
qed simp

lemma cstrI:
  "m (p + of_nat (length s)) = 0 \<Longrightarrow>
   (\<And>i. i < length s \<Longrightarrow> m (p + of_nat i) = byte_of (s ! i) \<and> s ! i \<noteq> CHR 0x00) \<Longrightarrow> cstr m p s"
proof (induction s arbitrary: p)
  case (Cons c cs)
  have "cstr m (p + 1) cs"
    using Cons.prems(1) Cons.prems(2) [of "Suc _"]
    by (intro Cons.IH) (auto simp: algebra_simps)
  then show ?case using Cons.prems(2) [of 0] by simp
qed simp

lemma strchr_loop_cstr:
  "cstr m p s \<Longrightarrow> strchr_loop m (byte_of c) p =
     Some (p + of_nat (case str_index c s of None \<Rightarrow> length s | Some i \<Rightarrow> i))"
  by (induction s arbitrary: p) (auto simp: strchr_loop.simps algebra_simps split: option.splits)

lemma strchr_cstr:
  assumes "cstr m p s" "c \<noteq> CHR 0x00"
  shows "strchr m p (byte_of c) =
    Some (case str_index c s of None \<Rightarrow> 0 | Some i \<Rightarrow> p + of_nat i)"
  using assms cstr_end [OF assms(1)] cstr_nth [OF assms(1)] str_index_SomeD [of c s]
  by (auto simp: strchr_def strchr_loop_cstr split: option.splits)

lemma strrchr_loop_cstr:
  assumes "cstr m p s" "no_wrap p (Suc (length s))" "p \<noteq> 0" "k \<le> length s"
  shows "strrchr_loop m p (byte_of c) (p + of_nat k - 1) =
    Some (case str_rindex c (take k s) of None \<Rightarrow> p - 1 | Some i \<Rightarrow> p + of_nat i)"
  using assms(4)
proof (induction k)
  case 0
  have "unat (p - 1) = unat p - 1" "0 < unat p" using assms(3) by (simp_all add: unat_minus_one unat_gt_0)
  then have "\<not> p \<le> p - 1" by (simp add: word_le_nat_alt)
  then show ?case by (simp add: strrchr_loop.simps)
next
  case (Suc k)
  have le: "p \<le> p + of_nat k"
    using assms(2) Suc.prems by (simp add: word_le_nat_alt unat_add_of_nat no_wrap_def)
  have tk: "take (Suc k) s = take k s @ [s ! k]" using Suc.prems by (simp add: take_Suc_conv_app_nth)
  have nth: "m (p + of_nat k) = byte_of (s ! k)" using cstr_nth [OF assms(1)] Suc.prems by simp
  show ?case
    using Suc le nth by (subst strrchr_loop.simps) (auto simp: tk str_rindex_snoc)
qed

theorem strrchr_cstr:
  assumes "cstr m p s" "no_wrap p (Suc (length s))" "p \<noteq> 0" "m (p - 1) \<noteq> byte_of c"
  shows "strrchr m p (byte_of c) =
    Some (case str_rindex c s of None \<Rightarrow> 0 | Some i \<Rightarrow> p + of_nat i)"
proof -
  have "m (p + of_nat i) = byte_of c" if "str_rindex c s = Some i" for i
    using that cstr_nth [OF assms(1), of i] str_rindex_SomeD by auto
  then show ?thesis
    using strrchr_loop_cstr [OF assms(1-3) order_refl, of c] assms
    by (auto simp: strrchr_def strlen_cstr split: option.splits)
qed

theorem strrchr_underrun:
  assumes "cstr m p s" "no_wrap p (Suc (length s))" "p \<noteq> 0" "c \<notin> set s" "m (p - 1) = byte_of c"
  shows "strrchr m p (byte_of c) = Some (p - 1)"
proof -
  have "str_rindex c s = None" using assms(4) by (simp add: str_rindex_None)
  then show ?thesis
    using strrchr_loop_cstr [OF assms(1-3) order_refl, of c] assms
    by (simp add: strrchr_def strlen_cstr)
qed

lemma strncpy_copy_full:
  assumes "cstr m su s" "k \<le> length s" "apart sc (Suc k) su (Suc (length s))"
  shows "strncpy_copy m sc su k = (blit m sc su k, sc + of_nat k, 0)"
  using assms
proof (induction k arbitrary: m sc su s)
  case 0 then show ?case by simp
next
  case (Suc k)
  then obtain c cs where s: "s = c # cs" by (cases s) auto
  let ?m = "m(sc := m su)"
  have ap: "apart (sc + 1) (Suc k) (su + 1) (Suc (length cs))"
    using Suc.prems(3) s by (auto simp: apart_def unat_add_1)
  have n: "Suc k \<le> 2 ^ 32" "Suc (length cs) < 2 ^ 32" using Suc.prems(3) s by (auto simp: apart_def)
  have "cstr ?m (su + 1) cs"
  proof (rule cstr_cong)
    fix x assume "in_range (su + 1) (Suc (length cs)) x"
    then have "in_range su (Suc (length s)) x" using n s by (simp add: in_range_Suc)
    then have "\<not> in_range sc (Suc (Suc k)) x" using Suc.prems(3) by (auto dest: apart_not_in_range)
    then show "?m x = m x" by (auto simp: in_range_def)
  qed (use Suc.prems s n in auto)
  then have "strncpy_copy ?m (sc + 1) (su + 1) k = (blit ?m (sc + 1) (su + 1) k, sc + 1 + of_nat k, 0)"
    by (rule Suc.IH [OF _ _ ap]) (use Suc.prems(2) s in simp)
  moreover have "blit ?m (sc + 1) (su + 1) k = blit m sc su (Suc k)"
  proof (rule blit_step [OF n(1)])
    fix j assume "j < k"
    then have "in_range su (Suc (length s)) (su + of_nat (Suc j))"
      using Suc.prems n unat_of_nat32 [of "Suc j"] by (auto simp: in_range_def)
    then have "\<not> in_range sc (Suc (Suc k)) (su + of_nat (Suc j))"
      by (rule apart_not_in_range [OF Suc.prems(3)])
    then show "su + of_nat (Suc j) \<noteq> sc" by (metis in_range_self zero_less_Suc)
  qed
  moreover have "m su \<noteq> 0" using Suc.prems s by simp
  ultimately show ?case by (simp add: algebra_simps fun_upd_def)
qed


text \<open>\<open>substr\<close> makes the destination the C string of the \<open>count\<close> characters of the source
  from index \<open>from\<close>, provided the byte behind the destination is already zero (the function
  does not write it).\<close>
lemma substr_correct:
  assumes "cstr m src s" "unat from + unat count \<le> length s" "count \<noteq> 0"
    and "apart dst (Suc (unat count)) src (Suc (length s))" "m (dst + count) = 0"
  shows "cstr (substr m dst src from count) dst (take (unat count) (drop (unat from) s))"
proof -
  let ?k = "unat count" and ?t = "drop (unat from) s"
  have t: "cstr m (src + from) ?t"
    using cstr_drop [OF assms(1), of "unat from"] assms(2) by simp
  have "unat (src + from) = unat src + unat from"
    using unat_add_of_nat [of src "unat from"] assms(2,4) by (auto simp: apart_def)
  then have ap: "apart dst (Suc ?k) (src + from) (Suc (length ?t))"
    using assms(2,4) by (auto simp: apart_def)
  have "strncpy_copy m dst (src + from) ?k = (blit m dst (src + from) ?k, dst + count, 0)"
    using strncpy_copy_full [OF t _ ap] assms(2) by simp
  then have e: "substr m dst src from count = blit m dst (src + from) ?k"
    using assms(3) by (simp add: substr_def strncpy_def)
  show ?thesis unfolding e
  proof (rule cstrI)
    show "blit m dst (src + from) ?k (dst + of_nat (length (take ?k ?t))) = 0"
      using assms(2,5) by (simp add: blit_def in_range_def)
    fix i assume "i < length (take ?k ?t)"
    then have i: "i < ?k" "i < length ?t" "i < 2 ^ 32" using assms(4) by (auto simp: apart_def)
    then have "in_range dst ?k (dst + of_nat i)"
      by (simp add: in_range_def unat_of_nat take_bit_eq_mod)
    then show "blit m dst (src + from) ?k (dst + of_nat i) = byte_of (take ?k ?t ! i) \<and>
        take ?k ?t ! i \<noteq> CHR 0x00"
      using cstr_nth [OF t i(2)] i by (simp add: blit_def)
  qed
qed

lemma substr_correct_witness:
  "cstr (substr ((\<lambda>_. 0)(256 := 97, 257 := 98, 258 := 99)) 512 256 1 2) 512 ''bc''"
proof -
  have "cstr ((\<lambda>_. 0)(256 := 97, 257 := 98, 258 := 99)) 256 ''abc''"
    by (simp add: byte_of_def)
  from substr_correct [OF this, of 1 2 512] show ?thesis by (simp add: apart_def)
qed

lemma strncpy_copy_short:
  "cstr m su s \<Longrightarrow> length s < k \<Longrightarrow> apart sc (Suc k) su (Suc (length s)) \<Longrightarrow>
   \<exists>m'. strncpy_copy m sc su k = (m', sc + of_nat (Suc (length s)), k - length s)"
proof (induction s arbitrary: m sc su k)
  case Nil
  then show ?case by (cases k) auto
next
  case (Cons c cs)
  then obtain k' where k: "k = Suc k'" by (cases k) auto
  let ?m = "m(sc := m su)"
  have ap: "apart (sc + 1) (Suc k') (su + 1) (Suc (length cs))"
    using Cons.prems k by (auto simp: apart_def unat_add_1)
  have n: "Suc (Suc (length cs)) \<le> 2 ^ 32" using Cons.prems by (auto simp: apart_def)
  have "cstr ?m (su + 1) cs"
  proof (rule cstr_cong)
    fix x assume "in_range (su + 1) (Suc (length cs)) x"
    then have "in_range su (Suc (Suc (length cs))) x" using n by (simp add: in_range_Suc)
    then have "\<not> in_range sc (Suc k) x" using Cons.prems(3) by (auto dest: apart_not_in_range)
    then show "?m x = m x" by (auto simp: in_range_def)
  qed (use Cons.prems n in auto)
  then have "\<exists>m'. strncpy_copy ?m (sc + 1) (su + 1) k' =
      (m', sc + 1 + of_nat (Suc (length cs)), k' - length cs)"
    by (rule Cons.IH [OF _ _ ap]) (use Cons.prems(2) k in simp)
  then show ?case using Cons.prems(1) k by (auto simp: algebra_simps)
qed

text \<open>For a source shorter than \<open>n\<close>, \<open>strncpy\<close> writes one byte too many: the byte behind the
  \<open>n\<close> bytes of the destination is set to zero.\<close>
lemma strncpy_overrun:
  assumes "cstr m src s" "length s < unat n" "apart dst (Suc (unat n)) src (Suc (length s))"
  shows "strncpy m dst src n (dst + n) = 0"
proof -
  obtain m' where *: "strncpy_copy m dst src (unat n) =
      (m', dst + of_nat (Suc (length s)), unat n - length s)"
    using strncpy_copy_short [OF assms] by blast
  have n: "unat n < 2 ^ 32" using assms(3) by (simp add: apart_def)
  have l: "unat (of_nat (Suc (length s)) :: u32) = Suc (length s)"
    using assms(2) n by (subst unat_of_nat) (simp add: take_bit_eq_mod)
  then have "of_nat (Suc (length s)) \<le> n"
    unfolding word_le_nat_alt using assms(2) by simp
  then have "unat (n - of_nat (Suc (length s))) = unat n - Suc (length s)"
    using l by (simp add: unat_sub)
  then have "in_range (dst + of_nat (Suc (length s))) (unat n - length s) (dst + n)"
    using assms(2) n by (simp add: in_range_def)
  moreover have "n \<noteq> 0" using assms(2) by auto
  ultimately show ?thesis
    using n by (simp add: strncpy_def * memset_loop_eq)
qed

lemma strncpy_overrun_witness:
  "strncpy ((\<lambda>_. 7)(256 := 97, 257 := 0)) 512 256 4 (512 + 4) = 0"
proof -
  have "cstr ((\<lambda>_. 7)(256 := 97, 257 := 0)) 256 ''a''"
    by (simp add: byte_of_def)
  from strncpy_overrun [OF this, of 4 512] show ?thesis by (simp add: apart_def)
qed

lemma memcmp_loop_first: "memcmp_loop m a b (Suc k) = (if m a < m b then -1 else if m b < m a then 1 else 0)"
  by (induction k) auto

text \<open>\<open>memcmp\<close> compares the first byte of the two areas \<open>n\<close> times: the pointers are never
  advanced, so areas that differ only behind the first byte compare as equal.\<close>
lemma memcmp_first_byte_only:
  "memcmp m s1 s2 n =
     (if n = 0 \<or> m s1 = m s2 then 0 else if m s1 < m s2 then -1 else 1)"
proof (cases "unat n")
  case 0
  then show ?thesis by (simp add: memcmp_def unat_eq_0)
next
  case (Suc k)
  moreover from this have "n \<noteq> 0" by auto
  ultimately show ?thesis
    unfolding memcmp_def by (simp add: memcmp_loop_first del: memcmp_loop.simps)
qed

lemma memset_eq: "memset m v c n = (\<lambda>x. if in_range v (unat n) x then ucast c else m x)"
  using unat_lt_2p32 [of n] by (simp add: memset_def memset_loop_eq)

end
