(* ===== verification/KString.thy ===== *)
theory KString
  imports Klib
begin

text \<open>
  The kernel's string helpers (\<open>string.c\<close>), byte buffers (\<open>buffer.c\<close>) and path
  functions (\<open>path.c\<close>). From here on a C string is the list of its characters up to the
  terminating NUL: the theory \<open>Klib\<close> shows what the calls on byte memory make of such strings
  (\<open>strlen_cstr\<close>, \<open>strcpy_correct\<close>, \<open>strchr_cstr\<close>,
  \<open>strrchr_cstr\<close>, \<open>substr_correct\<close>). A fresh string from \<open>pmm->alloc\<close> is its
  value; allocation is taken to succeed, and its memory is zeroed. The byte before such a block
  is the high byte of \<open>block_magic\<close>, so the read of \<open>strrchr\<close> before the start
  of its argument never matches a slash.
\<close>

section \<open>string.c\<close>

definition string_create_copy :: "string \<Rightarrow> string" where
  "string_create_copy src = src"

text \<open>\<open>res\<close> is 64 bits wide; the first component is the return code.\<close>

fun atoi_loop :: "string \<Rightarrow> 64 word \<Rightarrow> 64 word \<Rightarrow> int \<times> 64 word" where
  "atoi_loop [] res f = (0, res * f)"
| "atoi_loop (c # s) res f =
     (if c = CHR ''-'' then atoi_loop s res (-1)
      else if 48 \<le> (of_char c :: nat) \<and> (of_char c :: nat) \<le> 57
      then atoi_loop s (res * 10 + of_nat (of_char c) - 48) f
      else (-1, res))"

definition atoi :: "string \<Rightarrow> int \<times> 64 word" where
  "atoi s = atoi_loop s 0 1"

section \<open>buffer.c\<close>

record buffer =
  content :: "char list"
  buf_cap :: nat
  buf_size :: nat
  buf_pos :: nat

definition buffer_init :: "nat \<Rightarrow> buffer" where
  "buffer_init cap = \<lparr>content = replicate cap (CHR 0x00), buf_cap = cap, buf_size = 0, buf_pos = 0\<rparr>"

definition buffer_isempty :: "buffer \<Rightarrow> bool" where
  "buffer_isempty buf = (buf_size buf \<le> buf_pos buf)"

text \<open>\<open>content\<close> is an array of plain \<open>char\<close>, which is signed on the target:
  \<open>buffer_peek\<close> returns the sign-extended byte, \<open>buffer_next\<close> goes through
  \<open>uint8_t\<close>.\<close>

definition char_int :: "char \<Rightarrow> int" where
  "char_int c = sint (byte_of c)"

definition buffer_peek :: "buffer \<Rightarrow> int option" where
  "buffer_peek buf = (if buffer_isempty buf then Some (-1)
     else do { Assert (buf_pos buf < length (content buf)); Some (char_int (content buf ! buf_pos buf)) })"

definition buffer_next :: "buffer \<Rightarrow> (int \<times> buffer) option" where
  "buffer_next buf = (if buffer_isempty buf then Some (-1, buf)
     else do {
       Assert (buf_pos buf < length (content buf));
       Some (of_char (content buf ! buf_pos buf), buf\<lparr>buf_pos := buf_pos buf + 1\<rparr>) })"

definition buffer_push :: "buffer \<Rightarrow> char \<Rightarrow> (int \<times> buffer) option" where
  "buffer_push buf c = (if buf_size buf = buf_cap buf then Some (-1, buf)
     else do {
       Assert (buf_size buf < length (content buf));
       Some (char_int c, buf\<lparr>content := (content buf)[buf_size buf := c],
         buf_size := buf_size buf + 1\<rparr>) })"

section \<open>path.c\<close>

definition path_join :: "string \<Rightarrow> string \<Rightarrow> string" where
  "path_join base child =
     (if base = [] then base
      else if child = [] then child
      else if last base = CHR ''/''
      then (if hd child = CHR ''/'' then base @ tl child else base @ child)
      else (if hd child = CHR ''/'' then base @ child else base @ ''/'' @ child))"

text \<open>On the empty path \<open>buf[len - 1]\<close> lies before the buffer.\<close>

definition path_get_directory :: "string \<Rightarrow> string option" where
  "path_get_directory path = do {
     Assert (path \<noteq> []);
     let len = length path;
     let rp = (if last path = CHR ''/'' then str_rindex (CHR ''/'') (butlast path)
       else str_rindex (CHR ''/'') path);
     let ind = (case rp of None \<Rightarrow> len | Some i \<Rightarrow> i + 1);
     Some (take ind path) }"

definition path_get_name :: "string \<Rightarrow> string option" where
  "path_get_name path = do {
     Assert (path \<noteq> []);
     let buf = (if last path = CHR ''/'' then butlast path else path);
     Some (case str_rindex (CHR ''/'') buf of
         None \<Rightarrow> string_create_copy []
       | Some i \<Rightarrow> string_create_copy (drop (i + 1) buf)) }"

text \<open>The result and the new \<open>*ptr\<close>; \<open>None\<close> is \<open>NULL\<close> in both.\<close>

definition path_next_name :: "string \<Rightarrow> string option \<times> string option" where
  "path_next_name path =
     (let cur = (case path of c # cs \<Rightarrow> (if c = CHR ''/'' then cs else path) | [] \<Rightarrow> path)
      in if length cur = 0 then (None, None)
         else case str_index (CHR ''/'') cur of
             None \<Rightarrow> (Some cur, None)
           | Some tlen \<Rightarrow> (Some (take tlen cur), Some (drop tlen cur)))"

section \<open>What they compute\<close>

lemma split_at_rindex:
  "str_rindex c s = Some i \<Longrightarrow> s = take i s @ c # drop (i + 1) s \<and> c \<notin> set (drop (i + 1) s)"
  by (metis str_rindex_SomeD id_take_nth_drop Suc_eq_plus1)

text \<open>Directory and name split a path: for a path with a slash before its last character, the
  directory ends in a slash, the name has none, and the two together give back the path (without
  its trailing slash).\<close>
lemma path_split:
  assumes "CHR ''/'' \<in> set (if last p = CHR ''/'' then butlast p else p)"
  shows "\<exists>d n. path_get_directory p = Some d \<and> path_get_name p = Some n \<and>
    d @ n = (if last p = CHR ''/'' then butlast p else p) \<and> d \<noteq> [] \<and> last d = CHR ''/'' \<and>
    CHR ''/'' \<notin> set n"
proof -
  let ?b = "if last p = CHR ''/'' then butlast p else p"
  obtain i where i: "str_rindex (CHR ''/'') ?b = Some i"
    using assms str_rindex_None [of "CHR ''/''" ?b] by (cases "str_rindex (CHR ''/'') ?b") auto
  note sp = split_at_rindex [OF i]
  have "i < length ?b" using str_rindex_SomeD [OF i] by simp
  then have ib: "take (i + 1) p = take (i + 1) ?b"
    by (auto simp: take_butlast)
  have tk: "take (i + 1) ?b = take i ?b @ [CHR ''/'']"
    using \<open>i < length ?b\<close> str_rindex_SomeD [OF i] by (simp add: take_Suc_conv_app_nth)
  have "p \<noteq> []" using assms by auto
  then have "path_get_directory p = Some (take i ?b @ [CHR ''/''])"
    using i ib tk by (auto simp: path_get_directory_def Let_def split: if_splits)
  moreover have "path_get_name p = Some (drop (i + 1) ?b)"
    using \<open>p \<noteq> []\<close> i by (simp add: path_get_name_def Let_def string_create_copy_def)
  ultimately show ?thesis using sp by auto
qed

lemma path_split_witness:
  "\<exists>d n. path_get_directory ''/mnt/a.txt'' = Some d \<and> path_get_name ''/mnt/a.txt'' = Some n \<and>
     d @ n = ''/mnt/a.txt''"
  using path_split [of "''/mnt/a.txt''"] by auto

text \<open>The names that repeated calls of \<open>path_next_name\<close> deliver.\<close>

fun components :: "string \<Rightarrow> string list" where
  "components [] = [[]]"
| "components (c # s) = (if c = CHR ''/'' then [] # components s
     else (c # hd (components s)) # tl (components s))"

lemma components_neq [simp]: "components s \<noteq> []"
  by (cases s) auto

lemma components_no_slash: "CHR ''/'' \<notin> set s \<Longrightarrow> components s = [s]"
  by (induction s) auto

lemma components_split:
  "CHR ''/'' \<notin> set s \<Longrightarrow> components (s @ CHR ''/'' # t) = s # components t"
  by (induction s) auto

lemma path_next_name_slash:
  "path_next_name (CHR ''/'' # s) =
     (if s = [] then (None, None)
      else if tl (components s) = [] then (Some (hd (components s)), None)
      else (Some (hd (components s)), Some (drop (length (hd (components s))) s)))"
proof (cases "str_index (CHR ''/'') s")
  case None
  then show ?thesis
    using components_no_slash [of s] str_index_None [of "CHR ''/''" s]
    by (simp add: path_next_name_def None)
next
  case (Some i)
  note d = str_index_SomeD [OF Some]
  have s: "s = take i s @ CHR ''/'' # drop (Suc i) s"
    using d id_take_nth_drop [of i s] by auto
  have "components s = take i s # components (drop (Suc i) s)"
    by (subst s, rule components_split) (use d in auto)
  then show ?thesis using d Some by (auto simp: path_next_name_def)
qed

lemma path_next_name_shorter:
  "path_next_name p = (Some n, Some q) \<Longrightarrow> length q < length p"
  by (auto simp: path_next_name_def Let_def neq_Nil_conv
      split: list.splits if_splits option.splits)

end
