(* ===== verification/Ramdisk.thy ===== *)
theory Ramdisk
  imports KMem
begin

text \<open>
  The RAM disk driver (\<open>devices/ramdisk/ramdisk.c\<close>). The area \<open>[rd->start, rd->end)\<close>
  is kept as a memory whose addresses are offsets from \<open>rd->start\<close>, in 32-bit arithmetic.
  Neither operation looks at \<open>rd->end\<close>: like the code, the model reads and writes any
  offset.
\<close>

definition mem_read :: "mem \<Rightarrow> u32 \<Rightarrow> nat \<Rightarrow> u8 list" where
  "mem_read m a n = map (\<lambda>i. m (a + of_nat i)) [0..<n]"

definition mem_write :: "mem \<Rightarrow> u32 \<Rightarrow> u8 list \<Rightarrow> mem" where
  "mem_write m a bs = (\<lambda>x. if in_range a (length bs) x then bs ! unat (x - a) else m x)"

record rd =
  rd_data :: mem
  rd_len :: u32

text \<open>The returned \<open>ssize_t\<close> is the count.\<close>

definition rd_read :: "rd \<Rightarrow> u32 \<Rightarrow> u32 \<Rightarrow> u8 list \<times> u32" where
  "rd_read d offset count = (mem_read (rd_data d) offset (unat count), count)"

definition rd_write :: "rd \<Rightarrow> u32 \<Rightarrow> u8 list \<Rightarrow> rd \<times> u32" where
  "rd_write d offset bs = (d\<lparr>rd_data := mem_write (rd_data d) offset bs\<rparr>, of_nat (length bs))"

text \<open>A fresh disk is a zeroed block of \<open>RD_SIZE\<close> bytes; disk 1 is the image linked into the
  kernel, a parameter.\<close>

definition rd_init :: "rd \<Rightarrow> nat \<Rightarrow> rd" where
  "rd_init initrd dev_id =
     (if dev_id = 1 then initrd else \<lparr>rd_data = (\<lambda>_. 0), rd_len = 4 * 2 ^ 20\<rparr>)"

lemma length_mem_read [simp]: "length (mem_read m a n) = n"
  by (simp add: mem_read_def)

lemma nth_mem_read [simp]: "i < n \<Longrightarrow> mem_read m a n ! i = m (a + of_nat i)"
  by (simp add: mem_read_def)

lemma mem_read_write_same:
  assumes "length bs < 2 ^ 32"
  shows "mem_read (mem_write m a bs) a (length bs) = bs"
  by (rule nth_equalityI) (use assms in \<open>auto simp: mem_write_def in_range_def unat_of_nat32\<close>)

lemma mem_read_cong:
  assumes "\<And>x. in_range a n x \<Longrightarrow> m x = m' x" "n \<le> 2 ^ 32"
  shows "mem_read m a n = mem_read m' a n"
  by (rule nth_equalityI) (use assms in \<open>auto simp: in_range_def unat_of_nat32\<close>)

lemma mem_read_write_apart:
  assumes "apart a (length bs) b n"
  shows "mem_read (mem_write m a bs) b n = mem_read m b n"
proof (rule mem_read_cong)
  fix x assume "in_range b n x"
  then have "\<not> in_range a (length bs) x" by (rule apart_not_in_range [OF assms])
  then show "mem_write m a bs x = m x" by (simp add: mem_write_def)
qed (use assms in \<open>simp add: apart_def\<close>)

lemma mem_write_read_idem: "n < 2 ^ 32 \<Longrightarrow> mem_write m a (mem_read m a n) = m"
  by (rule ext) (simp add: mem_write_def in_range_def)

lemma bytes_at_mem_read:
  "off + k \<le> n \<Longrightarrow> bytes_at off k (mem_read m a n) = mem_read m (a + of_nat off) k"
  by (rule nth_equalityI) (auto simp: nth_bytes_at algebra_simps)

lemma mem_read_put:
  assumes "off + length ys \<le> length xs" "length xs < 2 ^ 32"
  shows "mem_write m a (put_at off ys xs) = mem_write (mem_write m a xs) (a + of_nat off) ys"
proof
  fix x
  have o: "off < 2 ^ 32" "unat (of_nat off :: u32) = off" using assms unat_of_nat32 [of off] by auto
  show "mem_write m a (put_at off ys xs) x = mem_write (mem_write m a xs) (a + of_nat off) ys x"
  proof (cases "in_range a (length xs) x")
    case True
    then have u: "unat (x - a) < length xs" by (simp add: in_range_def)
    show ?thesis
    proof (cases "off \<le> unat (x - a)")
      case True
      then have "(of_nat off :: u32) \<le> x - a" using o by (simp add: word_le_nat_alt)
      then have "unat (x - a - of_nat off) = unat (x - a) - off" using o by (simp add: unat_sub)
      then have e: "unat (x - (a + of_nat off)) = unat (x - a) - off" by (simp add: diff_diff_eq)
      show ?thesis
        using True u assms by (auto simp: mem_write_def in_range_def nth_put_at e)
    next
      case False
      have "\<not> in_range (a + of_nat off) (length ys) x"
      proof
        assume "in_range (a + of_nat off) (length ys) x"
        then have k: "unat (x - (a + of_nat off)) < length ys" by (simp add: in_range_def)
        let ?k = "unat (x - (a + of_nat off))"
        have "x - a = of_nat (off + ?k)" by (simp add: algebra_simps)
        then have "unat (x - a) = off + ?k"
          using k assms unat_of_nat32 [of "off + ?k"] by simp
        then show False using False by simp
      qed
      then show ?thesis using False u assms by (simp add: mem_write_def in_range_def nth_put_at)
    qed
  next
    case out: False
    have "\<not> in_range (a + of_nat off) (length ys) x"
    proof
      assume "in_range (a + of_nat off) (length ys) x"
      then have k: "unat (x - (a + of_nat off)) < length ys" by (simp add: in_range_def)
      let ?k = "unat (x - (a + of_nat off))"
      have "x - a = of_nat (off + ?k)" by (simp add: algebra_simps)
      then have "unat (x - a) = off + ?k"
        using k assms unat_of_nat32 [of "off + ?k"] by simp
      then show False using out k assms by (simp add: in_range_def)
    qed
    then show ?thesis using out assms by (simp add: mem_write_def)
  qed
qed

end
