(* ===== verification/Spin.thy ===== *)
theory Spin
  imports Prelude
begin

text \<open>
  Interrupt nesting and spin locks of \<open>kmt.c\<close>, as executed by one processor between two
  steps of the others. The record \<open>hw\<close> holds what the processor and the table
  \<open>cpu_cli\<close> know; every kernel state extends it, so the operations apply to all of them.
  A lock that another processor holds makes \<open>spin_lock\<close> spin: with nobody else moving it
  does not return, so the sequential model gives \<open>None\<close>. The interleaved model is in the
  theory \<open>SpinSys\<close>.
\<close>

record cli =
  cli_count :: int
  cli_hasIF :: int

record hw =
  cur_cpu :: nat
  n_cpu :: nat
  intr_on :: "nat \<Rightarrow> bool"
  cpu_cli :: "nat \<Rightarrow> cli"

record spinlock =
  sl_name :: string
  sl_locked :: int
  sl_cpu :: int

section \<open>Interrupts\<close>

definition intr_read :: "'a hw_scheme \<Rightarrow> int" where
  "intr_read s = (if intr_on s (cur_cpu s) then 1 else 0)"

definition intr_write :: "int \<Rightarrow> 'a hw_scheme \<Rightarrow> 'a hw_scheme" where
  "intr_write enable s = s\<lparr>intr_on := (intr_on s)(cur_cpu s := enable \<noteq> 0)\<rparr>"

definition my_cli :: "'a hw_scheme \<Rightarrow> cli" where
  "my_cli s = cpu_cli s (cur_cpu s)"

definition set_my_cli :: "cli \<Rightarrow> 'a hw_scheme \<Rightarrow> 'a hw_scheme" where
  "set_my_cli c s = s\<lparr>cpu_cli := (cpu_cli s)(cur_cpu s := c)\<rparr>"

definition pushcli :: "'a hw_scheme \<Rightarrow> 'a hw_scheme option" where
  "pushcli s = do {
     let oldIF = intr_read s;
     let s = intr_write 0 s;
     s \<leftarrow> (if cli_count (my_cli s) = 0
        then do {
          Assert (cli_hasIF (my_cli s) = 0);
          Some (set_my_cli (my_cli s\<lparr>cli_hasIF := oldIF\<rparr>) s) }
        else Some s);
     Some (set_my_cli (my_cli s\<lparr>cli_count := cli_count (my_cli s) + 1\<rparr>) s) }"

definition popcli :: "'a hw_scheme \<Rightarrow> 'a hw_scheme option" where
  "popcli s = do {
     Assert (intr_read s = 0);
     let s = set_my_cli (my_cli s\<lparr>cli_count := cli_count (my_cli s) - 1\<rparr>) s;
     Assert (\<not> cli_count (my_cli s) < 0);
     Some (if cli_count (my_cli s) = 0 \<and> cli_hasIF (my_cli s) \<noteq> 0
       then intr_write 1 (set_my_cli (my_cli s\<lparr>cli_hasIF := 0\<rparr>) s) else s) }"

section \<open>Spin locks\<close>

definition is_holding_spin :: "spinlock \<Rightarrow> 'a hw_scheme \<Rightarrow> (bool \<times> 'a hw_scheme) option" where
  "is_holding_spin lk s = do {
     s \<leftarrow> pushcli s;
     let r = (sl_locked lk \<noteq> 0 \<and> sl_cpu lk = int (cur_cpu s));
     s \<leftarrow> popcli s;
     Some (r, s) }"

definition spin_init :: "string \<Rightarrow> spinlock" where
  "spin_init name = \<lparr>sl_name = name, sl_locked = 0, sl_cpu = -1\<rparr>"

text \<open>\<open>while (_atomic_xchg(&lk->locked, 1) != 0);\<close> ends at once on a free lock and,
  while no other processor stores to the lock, never on a taken one.\<close>

definition spin_acquire :: "spinlock \<Rightarrow> spinlock option" where
  "spin_acquire lk = (if sl_locked lk = 0 then Some (lk\<lparr>sl_locked := 1\<rparr>) else None)"

definition spin_lock :: "spinlock \<Rightarrow> 'a hw_scheme \<Rightarrow> (spinlock \<times> 'a hw_scheme) option" where
  "spin_lock lk s = do {
     s \<leftarrow> pushcli s;
     (holding, s) \<leftarrow> is_holding_spin lk s;
     Assert (\<not> holding);
     lk \<leftarrow> spin_acquire lk;
     Some (lk\<lparr>sl_cpu := int (cur_cpu s)\<rparr>, s) }"

definition spin_unlock :: "spinlock \<Rightarrow> 'a hw_scheme \<Rightarrow> (spinlock \<times> 'a hw_scheme) option" where
  "spin_unlock lk s = do {
     (holding, s) \<leftarrow> is_holding_spin lk s;
     Assert holding;
     let lk = lk\<lparr>sl_cpu := -1, sl_locked := 0\<rparr>;
     s \<leftarrow> popcli s;
     Some (lk, s) }"

section \<open>Bracketing\<close>

text \<open>The invariant of the nesting table for the running processor: the counter is not negative,
  a saved flag is only kept while the counter is positive, and interrupts are off inside.\<close>

definition cli_ok :: "'a hw_scheme \<Rightarrow> bool" where
  "cli_ok s \<longleftrightarrow> 0 \<le> cli_count (my_cli s) \<and> cli_hasIF (my_cli s) \<in> {0, 1} \<and>
     (cli_count (my_cli s) = 0 \<longrightarrow> cli_hasIF (my_cli s) = 0) \<and>
     (0 < cli_count (my_cli s) \<longrightarrow> \<not> intr_on s (cur_cpu s))"

definition pushed :: "'a hw_scheme \<Rightarrow> 'a hw_scheme" where
  "pushed s = s\<lparr>intr_on := (intr_on s)(cur_cpu s := False),
     cpu_cli := (cpu_cli s)(cur_cpu s :=
       \<lparr>cli_count = cli_count (my_cli s) + 1,
        cli_hasIF = (if cli_count (my_cli s) = 0 then intr_read s else cli_hasIF (my_cli s))\<rparr>)\<rparr>"

lemmas hw_defs = intr_read_def intr_write_def my_cli_def set_my_cli_def

lemma pushed_sel [simp]:
  "cur_cpu (pushed s) = cur_cpu s" "n_cpu (pushed s) = n_cpu s" "hw.more (pushed s) = hw.more s"
  "intr_on (pushed s) (cur_cpu s) = False"
  by (simp_all add: pushed_def)

lemma pushcli_eq: "cli_ok s \<Longrightarrow> pushcli s = Some (pushed s)"
  by (cases "my_cli s") (auto simp: pushcli_def pushed_def cli_ok_def hw_defs Let_def)

lemma cli_ok_pushed: "cli_ok s \<Longrightarrow> cli_ok (pushed s)"
  by (auto simp: cli_ok_def pushed_def hw_defs)

lemma popcli_pushed: "cli_ok s \<Longrightarrow> popcli (pushed s) = Some s"
proof -
  assume ok: "cli_ok s"
  let ?c = "cur_cpu s"
  have "cpu_cli s ?c = \<lparr>cli_count = cli_count (cpu_cli s ?c), cli_hasIF = cli_hasIF (cpu_cli s ?c)\<rparr>"
    by simp
  then show ?thesis
    using ok
    by (cases s) (auto simp: popcli_def pushed_def cli_ok_def hw_defs Let_def fun_upd_idem_iff)
qed

definition lock_free :: "spinlock \<Rightarrow> bool" where
  "lock_free lk \<longleftrightarrow> sl_locked lk = 0 \<and> sl_cpu lk = -1"

definition taken :: "nat \<Rightarrow> spinlock \<Rightarrow> spinlock" where
  "taken c lk = lk\<lparr>sl_locked := 1, sl_cpu := int c\<rparr>"

lemma lock_free_init: "lock_free (spin_init name)"
  by (simp add: lock_free_def spin_init_def)

lemma lock_free_released: "lock_free lk \<Longrightarrow> (taken c lk)\<lparr>sl_cpu := -1, sl_locked := 0\<rparr> = lk"
  by (cases lk) (simp add: lock_free_def taken_def)

text \<open>\<open>inside s s'\<close>: the processor state of \<open>s'\<close> is that of \<open>s\<close> one
  level of \<open>pushcli\<close> deeper. The two may extend \<open>hw\<close> differently.\<close>

definition inside :: "'a hw_scheme \<Rightarrow> 'b hw_scheme \<Rightarrow> bool" where
  "inside s s' \<longleftrightarrow> cur_cpu s' = cur_cpu s \<and> intr_on s' = intr_on (pushed s) \<and>
     cpu_cli s' = cpu_cli (pushed s)"

lemma inside_pushed [simp]: "inside s (pushed s)"
  by (simp add: inside_def)

lemma inside_cli_ok: "inside s s' \<Longrightarrow> cli_ok s \<Longrightarrow> cli_ok s'"
  using cli_ok_pushed [of s] by (simp add: inside_def cli_ok_def hw_defs)

lemma popcli_inside:
  assumes "inside s s'" "cli_ok s"
  shows "popcli s' = Some (s'\<lparr>intr_on := intr_on s, cpu_cli := cpu_cli s\<rparr>)"
  using assms by (cases s)
    (auto simp: popcli_def pushed_def inside_def cli_ok_def hw_defs Let_def fun_upd_idem_iff)

lemma is_holding_spin_eq:
  "cli_ok s \<Longrightarrow> is_holding_spin lk s = Some (sl_locked lk \<noteq> 0 \<and> sl_cpu lk = int (cur_cpu s), s)"
  by (simp add: is_holding_spin_def pushcli_eq popcli_pushed Let_def)

lemma spin_lock_free:
  "cli_ok s \<Longrightarrow> lock_free lk \<Longrightarrow> spin_lock lk s = Some (taken (cur_cpu s) lk, pushed s)"
  by (simp add: spin_lock_def pushcli_eq is_holding_spin_eq cli_ok_pushed lock_free_def
      spin_acquire_def taken_def)

lemma spin_unlock_inside:
  "inside s s' \<Longrightarrow> cli_ok s \<Longrightarrow> lock_free lk \<Longrightarrow>
   spin_unlock (taken (cur_cpu s) lk) s' =
     Some (lk, s'\<lparr>intr_on := intr_on s, cpu_cli := cpu_cli s\<rparr>)"
  using inside_cli_ok [of s s'] lock_free_released [of lk "cur_cpu s"]
  by (simp add: spin_unlock_def is_holding_spin_eq popcli_inside inside_def Let_def)
    (simp add: taken_def)

text \<open>A lock taken twice by one processor and a lock released by another are refused.\<close>

lemma spin_lock_recursive:
  "cli_ok s \<Longrightarrow> sl_locked lk \<noteq> 0 \<Longrightarrow> spin_lock lk s = None"
  by (auto simp: spin_lock_def pushcli_eq is_holding_spin_eq cli_ok_pushed spin_acquire_def)

lemma spin_unlock_not_held:
  "cli_ok s \<Longrightarrow> sl_cpu lk \<noteq> int (cur_cpu s) \<Longrightarrow> spin_unlock lk s = None"
  by (simp add: spin_unlock_def is_holding_spin_eq)

section \<open>Locks that are fields of the kernel state\<close>

definition lock_on where
  "lock_on get upd s = do { (lk, s') \<leftarrow> spin_lock (get s) s; Some (upd (\<lambda>_. lk) s') }"

definition unlock_on where
  "unlock_on get upd s = do { (lk, s') \<leftarrow> spin_unlock (get s) s; Some (upd (\<lambda>_. lk) s') }"

text \<open>What the bracketing lemmas need of such a field: it can be read back, and it is not one
  of the processor's own fields.\<close>

locale lock_field =
  fixes get :: "'a hw_scheme \<Rightarrow> spinlock"
    and upd :: "(spinlock \<Rightarrow> spinlock) \<Rightarrow> 'a hw_scheme \<Rightarrow> 'a hw_scheme"
  assumes get_upd: "get (upd f s) = f (get s)"
    and upd_same: "upd (\<lambda>_. get s) s = s"
    and upd_upd: "upd f (upd g s) = upd (\<lambda>x. f (g x)) s"
    and hw_upd: "cur_cpu (upd f s) = cur_cpu s" "intr_on (upd f s) = intr_on s"
      "cpu_cli (upd f s) = cpu_cli s"
    and get_hw: "get (s\<lparr>intr_on := i, cpu_cli := c\<rparr>) = get s"
    and upd_hw: "upd f (s\<lparr>intr_on := i, cpu_cli := c\<rparr>) = (upd f s)\<lparr>intr_on := i, cpu_cli := c\<rparr>"
begin

definition entered :: "'a hw_scheme \<Rightarrow> 'a hw_scheme" where
  "entered s = upd (taken (cur_cpu s)) (pushed s)"

lemma get_pushed: "get (pushed s) = get s"
  by (simp add: pushed_def get_hw)

lemma lock_on_free:
  "cli_ok s \<Longrightarrow> lock_free (get s) \<Longrightarrow> lock_on get upd s = Some (entered s)"
proof -
  assume "cli_ok s" "lock_free (get s)"
  moreover have "upd (\<lambda>_. taken (cur_cpu s) (get s)) (pushed s) = upd (taken (cur_cpu s)) (pushed s)"
    using upd_upd [of "taken (cur_cpu s)" "\<lambda>_. get (pushed s)" "pushed s"]
      upd_same [of "pushed s"]
    by (simp add: get_pushed)
  ultimately show ?thesis by (simp add: lock_on_def spin_lock_free entered_def)
qed

lemma inside_entered: "inside s (entered s)"
  by (simp add: entered_def inside_def hw_upd)

lemma get_entered: "get (entered s) = taken (cur_cpu s) (get s)"
  by (simp add: entered_def get_upd get_pushed)

lemma unlock_on_inside:
  assumes "cli_ok s" "lock_free (get s)" "inside s s'" "get s' = taken (cur_cpu s) (get s)"
  shows "unlock_on get upd s' = Some ((upd (\<lambda>_. get s) s')\<lparr>intr_on := intr_on s, cpu_cli := cpu_cli s\<rparr>)"
  using assms by (simp add: unlock_on_def spin_unlock_inside upd_hw)

lemma bracket:
  "cli_ok s \<Longrightarrow> lock_free (get s) \<Longrightarrow>
   Option.bind (lock_on get upd s) (unlock_on get upd) = Some s"
proof -
  assume a: "cli_ok s" "lock_free (get s)"
  have p: "(pushed s)\<lparr>intr_on := intr_on s, cpu_cli := cpu_cli s\<rparr> = s" by (simp add: pushed_def)
  have "unlock_on get upd (entered s) =
      Some ((upd (\<lambda>_. get s) (entered s))\<lparr>intr_on := intr_on s, cpu_cli := cpu_cli s\<rparr>)"
    using a inside_entered get_entered by (rule unlock_on_inside)
  also have "(upd (\<lambda>_. get s) (entered s))\<lparr>intr_on := intr_on s, cpu_cli := cpu_cli s\<rparr> =
      upd (\<lambda>_. get s) s"
    unfolding entered_def upd_upd upd_hw [symmetric] p ..
  finally show ?thesis using a by (simp add: lock_on_free upd_same)
qed

end

end
