(* ===== verification/VfsTypes.thy ===== *)
theory VfsTypes
  imports Prelude
begin

text \<open>
  The objects shared by the file systems and the VFS layer (\<open>kernel/include/common.h\<close>,
  \<open>kernel/include/fs.h\<close>): access flags, inodes, open files and directory listings. The
  type parameter is what a file system keeps behind \<open>inode->ptr\<close>.
\<close>

text \<open>\<open>enum access_flag\<close>; the calls take an \<open>int\<close>.\<close>

definition DIR_EXIST :: int where "DIR_EXIST = 0"
definition FILE_EXIST :: int where "FILE_EXIST = 1"
definition FILE_READ :: int where "FILE_READ = 2"
definition FILE_WRITE :: int where "FILE_WRITE = 3"
definition FILE_APPEND :: int where "FILE_APPEND = 4"

lemmas flag_defs = DIR_EXIST_def FILE_EXIST_def FILE_READ_def FILE_WRITE_def FILE_APPEND_def

record 'p vnode =
  vn_refcnt :: int
  vn_ptr :: "'p option"
  vn_path :: string

text \<open>\<open>offset\<close> is 64 bits wide and never comes near the bound.\<close>

record 'p ofile =
  f_refcnt :: int
  f_flags :: int
  f_inode :: "'p vnode"
  f_offset :: nat

datatype item_type = ITEM_DIR | ITEM_FILE | ITEM_LINK

type_synonym fslist = "(string \<times> item_type) list"

end
