(* ===== verification/Blkfs.thy ===== *)
theory Blkfs
  imports KString Ramdisk Spin VfsTypes
begin

text \<open>
  The block file system (\<open>vfs/blkfs.c\<close>) on a RAM disk. The disk is an array of blocks of
  1032 bytes: a header (magic, FREE or USING) and 1024 bytes of data. The first blocks hold the
  inode table (51 inodes of 20 bytes per block), the others the contents of files or the 42
  entries of a directory. Everything on the disk stays bytes in the model.

  The record \<open>blkfs\<close> is \<open>blkfs_info\<close> with its device and lock. Temporaries from
  \<open>pmm->alloc\<close> are values (allocation is taken to succeed), \<open>NULL\<close> is \<open>None\<close>, and
  an index of \<open>-1\<close> from the searches in a directory block is \<open>None\<close> too.
\<close>

section \<open>Blocks\<close>

record blkfs = hw +
  dev :: rd
  full_size :: u32
  block_size :: u32
  block_data_size :: u32
  inode_block_num :: u32
  inode_per_block :: u32
  child_per_dir :: u32
  total_block_num :: u32
  fs_lock :: spinlock

definition BLOCK_DATA_SIZE :: u32 where "BLOCK_DATA_SIZE = 1024"
definition MAGIC :: u32 where "MAGIC = 54987631"
definition INODE_NAME_LEN :: nat where "INODE_NAME_LEN = 16"

definition t_FREE :: u32 where "t_FREE = 0"
definition t_USING :: u32 where "t_USING = 1"

record blkfs_block =
  bk_magic :: u32
  bk_type :: u32

text \<open>\<open>sizeof(blkfs_block)\<close>, \<open>sizeof(blkfs_inode)\<close>, \<open>sizeof(dir_entry)\<close>.\<close>

definition sizeof_block :: u32 where "sizeof_block = 8"
definition sizeof_inode :: u32 where "sizeof_inode = 20"
definition sizeof_dirent :: u32 where "sizeof_dirent = 24"

definition block_read :: "u32 \<Rightarrow> u32 \<Rightarrow> u32 \<Rightarrow> 'a blkfs_scheme \<Rightarrow> u8 list option" where
  "block_read count block_id offset fs = do {
     Assert (block_id < total_block_num fs);
     Assert (offset + count \<le> block_size fs);
     if count = 0 then Some []
     else do {
       let pos = block_id * block_size fs + offset;
       let (buf, readed) = rd_read (dev fs) pos count;
       Assert (readed = count);
       Some buf } }"

definition block_write :: "u8 list \<Rightarrow> u32 \<Rightarrow> u32 \<Rightarrow> u32 \<Rightarrow> 'a blkfs_scheme \<Rightarrow> 'a blkfs_scheme option" where
  "block_write buf count block_id offset fs = do {
     Assert (block_id < total_block_num fs);
     Assert (offset + count \<le> block_size fs);
     if count = 0 then Some fs
     else do {
       let pos = block_id * block_size fs + offset;
       let (d, writen) = rd_write (dev fs) pos (take (unat count) buf);
       Assert (writen = count);
       Some (fs\<lparr>dev := d\<rparr>) } }"

definition block_of_bytes :: "u8 list \<Rightarrow> blkfs_block" where
  "block_of_bytes bs = \<lparr>bk_magic = un_le32 (bytes_at 0 4 bs), bk_type = un_le32 (bytes_at 4 4 bs)\<rparr>"

definition bytes_of_block :: "blkfs_block \<Rightarrow> u8 list" where
  "bytes_of_block b = le32 (bk_magic b) @ le32 (bk_type b)"

text \<open>0 if the block carries the magic number.\<close>

definition block_check :: "u32 \<Rightarrow> 'a blkfs_scheme \<Rightarrow> int option" where
  "block_check block_id fs = do {
     Assert (block_id < total_block_num fs);
     buf \<leftarrow> block_read sizeof_block block_id 0 fs;
     Some (if bk_magic (block_of_bytes buf) = MAGIC then 0 else 1) }"

definition block_getinfo :: "u32 \<Rightarrow> 'a blkfs_scheme \<Rightarrow> blkfs_block option" where
  "block_getinfo block_id fs = do {
     Assert (block_id < total_block_num fs);
     buf \<leftarrow> block_read sizeof_block block_id 0 fs;
     let blk = block_of_bytes buf;
     Assert (bk_magic blk = MAGIC);
     Some blk }"

definition block_setinfo :: "blkfs_block \<Rightarrow> u32 \<Rightarrow> 'a blkfs_scheme \<Rightarrow> 'a blkfs_scheme option" where
  "block_setinfo blk block_id fs = do {
     Assert (block_id < total_block_num fs);
     Assert (bk_magic blk = MAGIC);
     block_write (bytes_of_block blk) sizeof_block block_id 0 fs }"

text \<open>Both data functions return \<open>count\<close>; the reader also fills the buffer.\<close>

definition block_readdata :: "u32 \<Rightarrow> u32 \<Rightarrow> u32 \<Rightarrow> 'a blkfs_scheme \<Rightarrow> (u8 list \<times> u32) option" where
  "block_readdata count block_id offset fs = do {
     Assert (block_id < total_block_num fs);
     Assert (offset + count \<le> block_data_size fs);
     buf \<leftarrow> block_read count block_id (sizeof_block + offset) fs;
     Some (buf, count) }"

definition block_writedata ::
  "u8 list \<Rightarrow> u32 \<Rightarrow> u32 \<Rightarrow> u32 \<Rightarrow> 'a blkfs_scheme \<Rightarrow> (u32 \<times> 'a blkfs_scheme) option" where
  "block_writedata buf count block_id offset fs = do {
     Assert (block_id < total_block_num fs);
     Assert (offset + count \<le> block_data_size fs);
     fs \<leftarrow> block_write buf count block_id (offset + sizeof_block) fs;
     Some (count, fs) }"

definition block_init :: "u32 \<Rightarrow> 'a blkfs_scheme \<Rightarrow> 'a blkfs_scheme option" where
  "block_init block_id fs = do {
     Assert (block_id < total_block_num fs);
     block_setinfo \<lparr>bk_magic = MAGIC, bk_type = t_FREE\<rparr> block_id fs }"

text \<open>\<open>-1\<close> when every data block is in use.\<close>

fun block_alloc_loop :: "nat list \<Rightarrow> 'a blkfs_scheme \<Rightarrow> (u32 \<times> 'a blkfs_scheme) option" where
  "block_alloc_loop [] fs = Some (-1, fs)"
| "block_alloc_loop (i # is) fs = do {
     blk \<leftarrow> block_getinfo (of_nat i) fs;
     if bk_type blk = t_FREE
     then do {
       fs \<leftarrow> block_setinfo (blk\<lparr>bk_type := t_USING\<rparr>) (of_nat i) fs;
       Some (of_nat i, fs) }
     else block_alloc_loop is fs }"

definition block_alloc :: "'a blkfs_scheme \<Rightarrow> (u32 \<times> 'a blkfs_scheme) option" where
  "block_alloc fs = block_alloc_loop [unat (inode_block_num fs)..<unat (total_block_num fs)] fs"

definition block_free :: "u32 \<Rightarrow> 'a blkfs_scheme \<Rightarrow> 'a blkfs_scheme option" where
  "block_free block_id fs = do {
     blk \<leftarrow> block_getinfo block_id fs;
     Assert (bk_type blk = t_USING);
     block_setinfo (blk\<lparr>bk_type := t_FREE\<rparr>) block_id fs }"

section \<open>Inodes\<close>

text \<open>\<open>enum blkfs_inode_type\<close>; the fields are \<open>int\<close> except for
  \<open>size\<close>, \<open>-1\<close> being the word with all bits set.\<close>

definition it_EMPTY :: u32 where "it_EMPTY = 0"
definition it_FILE :: u32 where "it_FILE = 1"
definition it_DIR :: u32 where "it_DIR = 2"
definition it_LINK :: u32 where "it_LINK = 3"

record blkfs_inode =
  in_type :: u32
  in_id :: u32
  in_block_id :: u32
  in_refcnt :: u32
  in_size :: u32

definition inode_type_at :: "u8 list \<Rightarrow> nat \<Rightarrow> u32" where
  "inode_type_at items tid = un_le32 (bytes_at (20 * tid) 4 items)"

definition inode_at :: "u8 list \<Rightarrow> nat \<Rightarrow> blkfs_inode" where
  "inode_at items tid = \<lparr>in_type = inode_type_at items tid,
     in_id = un_le32 (bytes_at (20 * tid + 4) 4 items),
     in_block_id = un_le32 (bytes_at (20 * tid + 8) 4 items),
     in_refcnt = un_le32 (bytes_at (20 * tid + 12) 4 items),
     in_size = un_le32 (bytes_at (20 * tid + 16) 4 items)\<rparr>"

definition bytes_of_inode :: "blkfs_inode \<Rightarrow> u8 list" where
  "bytes_of_inode n = le32 (in_type n) @ le32 (in_id n) @ le32 (in_block_id n) @
     le32 (in_refcnt n) @ le32 (in_size n)"

definition put_inode :: "nat \<Rightarrow> blkfs_inode \<Rightarrow> u8 list \<Rightarrow> u8 list" where
  "put_inode tid n items = put_at (20 * tid) (bytes_of_inode n) items"

definition put_inode_type :: "nat \<Rightarrow> u32 \<Rightarrow> u8 list \<Rightarrow> u8 list" where
  "put_inode_type tid t items = put_at (20 * tid) (le32 t) items"

text \<open>Every access to the items of a block reads or writes the whole data area.\<close>

definition read_items :: "u32 \<Rightarrow> 'a blkfs_scheme \<Rightarrow> u8 list option" where
  "read_items blkid fs = do {
     (items, n) \<leftarrow> block_readdata (block_data_size fs) blkid 0 fs;
     Assert (n = block_data_size fs);
     Some items }"

definition write_items :: "u8 list \<Rightarrow> u32 \<Rightarrow> 'a blkfs_scheme \<Rightarrow> 'a blkfs_scheme option" where
  "write_items items blkid fs = do {
     (n, fs) \<leftarrow> block_writedata items (block_data_size fs) blkid 0 fs;
     Assert (n = block_data_size fs);
     Some fs }"

definition inode_get :: "u32 \<Rightarrow> 'a blkfs_scheme \<Rightarrow> blkfs_inode option option" where
  "inode_get nid fs = do {
     let blkid = nid div inode_per_block fs;
     let tid = unat (nid mod inode_per_block fs);
     items \<leftarrow> read_items blkid fs;
     Some (if inode_type_at items tid = it_EMPTY then None else Some (inode_at items tid)) }"

definition inode_set :: "u32 \<Rightarrow> blkfs_inode \<Rightarrow> 'a blkfs_scheme \<Rightarrow> 'a blkfs_scheme option" where
  "inode_set nid data fs = do {
     let blkid = nid div inode_per_block fs;
     let tid = unat (nid mod inode_per_block fs);
     items \<leftarrow> read_items blkid fs;
     write_items (put_inode tid data items) blkid fs }"

definition inode_block_init :: "u32 \<Rightarrow> 'a blkfs_scheme \<Rightarrow> 'a blkfs_scheme option" where
  "inode_block_init block_id fs = do {
     entries \<leftarrow> read_items block_id fs;
     write_items (fold (\<lambda>i e. put_inode_type i it_EMPTY e) [0..<unat (inode_per_block fs)] entries)
       block_id fs }"

definition put_dirent_type :: "nat \<Rightarrow> u32 \<Rightarrow> u8 list \<Rightarrow> u8 list" where
  "put_dirent_type i t items = put_at (24 * i) (le32 t) items"

definition dir_block_init :: "u32 \<Rightarrow> 'a blkfs_scheme \<Rightarrow> 'a blkfs_scheme option" where
  "dir_block_init block_id fs = do {
     entries \<leftarrow> read_items block_id fs;
     write_items (fold (\<lambda>i e. put_dirent_type i t_FREE e) [0..<unat (child_per_dir fs)] entries)
       block_id fs }"

fun find_empty :: "u8 list \<Rightarrow> nat list \<Rightarrow> nat option" where
  "find_empty items [] = None"
| "find_empty items (i # is) =
     (if inode_type_at items i = it_EMPTY then Some i else find_empty items is)"

fun inode_alloc_loop :: "u32 \<Rightarrow> nat list \<Rightarrow> 'a blkfs_scheme \<Rightarrow> (u32 \<times> 'a blkfs_scheme) option" where
  "inode_alloc_loop type [] fs = Some (-1, fs)"
| "inode_alloc_loop type (bk # bks) fs = do {
     items \<leftarrow> read_items (of_nat bk) fs;
     case find_empty items [0..<unat (inode_per_block fs)] of
       None \<Rightarrow> inode_alloc_loop type bks fs
     | Some i \<Rightarrow> do {
         let res = of_nat bk * inode_per_block fs + of_nat i;
         (b, fs) \<leftarrow> block_alloc fs;
         let item = \<lparr>in_type = type, in_id = res, in_block_id = b, in_refcnt = 0, in_size = 0\<rparr>;
         fs \<leftarrow> (if b \<noteq> -1 \<and> type = it_DIR then dir_block_init b fs else Some fs);
         fs \<leftarrow> write_items (put_inode i item items) (of_nat bk) fs;
         Some (res, fs) } }"

definition inode_alloc :: "u32 \<Rightarrow> 'a blkfs_scheme \<Rightarrow> (u32 \<times> 'a blkfs_scheme) option" where
  "inode_alloc type fs = inode_alloc_loop type [0..<unat (inode_block_num fs)] fs"

definition inode_bfree :: "u32 \<Rightarrow> 'a blkfs_scheme \<Rightarrow> 'a blkfs_scheme option" where
  "inode_bfree nid fs = do {
     let blkid = nid div inode_per_block fs;
     let tid = unat (nid mod inode_per_block fs);
     items \<leftarrow> read_items blkid fs;
     Assert (inode_type_at items tid \<noteq> it_EMPTY);
     let items = put_inode_type tid it_EMPTY items;
     fs \<leftarrow> (if in_block_id (inode_at items tid) \<noteq> -1
        then block_free (in_block_id (inode_at items tid)) fs else Some fs);
     write_items items blkid fs }"

section \<open>Directories\<close>

definition dirent_type :: "u8 list \<Rightarrow> nat \<Rightarrow> u32" where
  "dirent_type items i = un_le32 (bytes_at (24 * i) 4 items)"

text \<open>\<open>items[i].name\<close> as the string functions read it: up to the first NUL.\<close>

definition dirent_name :: "u8 list \<Rightarrow> nat \<Rightarrow> string" where
  "dirent_name items i = map char_of_byte (takeWhile (\<lambda>b. b \<noteq> 0) (drop (24 * i + 4) items))"

definition dirent_inode :: "u8 list \<Rightarrow> nat \<Rightarrow> u32" where
  "dirent_inode items i = un_le32 (bytes_at (24 * i + 20) 4 items)"

definition put_dirent :: "nat \<Rightarrow> string \<Rightarrow> u32 \<Rightarrow> u8 list \<Rightarrow> u8 list" where
  "put_dirent i name inode_id items =
     put_at (24 * i + 20) (le32 inode_id)
       (put_dirent_type i t_USING (put_at (24 * i + 4) (map byte_of name @ [0]) items))"

fun find_name_loop :: "u8 list \<Rightarrow> string \<Rightarrow> nat list \<Rightarrow> nat option" where
  "find_name_loop items name [] = None"
| "find_name_loop items name (i # is) =
     (if dirent_type items i = t_FREE then find_name_loop items name is
      else if name = dirent_name items i then Some i
      else find_name_loop items name is)"

definition direntry_find_name :: "u8 list \<Rightarrow> string \<Rightarrow> 'a blkfs_scheme \<Rightarrow> nat option" where
  "direntry_find_name items name fs = find_name_loop items name [0..<unat (child_per_dir fs)]"

fun find_free_loop :: "u8 list \<Rightarrow> nat list \<Rightarrow> nat option" where
  "find_free_loop items [] = None"
| "find_free_loop items (i # is) =
     (if dirent_type items i = t_FREE then Some i else find_free_loop items is)"

definition direntry_find_free :: "u8 list \<Rightarrow> 'a blkfs_scheme \<Rightarrow> nat option" where
  "direntry_find_free items fs = find_free_loop items [0..<unat (child_per_dir fs)]"

text \<open>The list grows at its head; the \<open>inode_get\<close> of an entry whose inode is gone returns
  \<open>NULL\<close>, which the loop dereferences.\<close>

fun list_dir_loop :: "u8 list \<Rightarrow> nat list \<Rightarrow> fslist \<Rightarrow> 'a blkfs_scheme \<Rightarrow> fslist option" where
  "list_dir_loop items [] lst fs = Some lst"
| "list_dir_loop items (i # is) lst fs =
     (if dirent_type items i = t_FREE then list_dir_loop items is lst fs
      else do {
        r \<leftarrow> inode_get (dirent_inode items i) fs;
        node \<leftarrow> r;
        let ty = (if in_type node = it_DIR then ITEM_DIR
          else if in_type node = it_FILE then ITEM_FILE else ITEM_LINK);
        list_dir_loop items is ((string_create_copy (dirent_name items i), ty) # lst) fs })"

definition list_dir :: "blkfs_inode \<Rightarrow> 'a blkfs_scheme \<Rightarrow> fslist option" where
  "list_dir dir fs = do {
     Assert (in_type dir = it_DIR);
     items \<leftarrow> read_items (in_block_id dir) fs;
     list_dir_loop items [0..<unat (child_per_dir fs)] [] fs }"

definition find_filedir :: "blkfs_inode \<Rightarrow> string \<Rightarrow> 'a blkfs_scheme \<Rightarrow> blkfs_inode option option" where
  "find_filedir dir name fs = do {
     Assert (in_type dir = it_DIR);
     items \<leftarrow> read_items (in_block_id dir) fs;
     case direntry_find_name items name fs of
       None \<Rightarrow> Some None
     | Some ind \<Rightarrow> inode_get (dirent_inode items ind) fs }"

definition get_filedir :: "blkfs_inode \<Rightarrow> string \<Rightarrow> 'a blkfs_scheme \<Rightarrow> u32 option" where
  "get_filedir dir name fs = do {
     Assert (in_type dir = it_DIR);
     Assert (length name < INODE_NAME_LEN - 1);
     items \<leftarrow> read_items (in_block_id dir) fs;
     Some (case direntry_find_name items name fs of
       None \<Rightarrow> -1
     | Some ind \<Rightarrow> dirent_inode items ind) }"

definition create_filedir ::
  "blkfs_inode \<Rightarrow> u32 \<Rightarrow> u32 \<Rightarrow> string \<Rightarrow> 'a blkfs_scheme \<Rightarrow> (u32 \<times> 'a blkfs_scheme) option" where
  "create_filedir dir type link_id name fs = do {
     Assert (in_type dir = it_DIR);
     Assert (length name < INODE_NAME_LEN - 1);
     items \<leftarrow> read_items (in_block_id dir) fs;
     case direntry_find_name items name fs of
       Some _ \<Rightarrow> Some (-1, fs)
     | None \<Rightarrow>
         (case direntry_find_free items fs of
           None \<Rightarrow> Some (-1, fs)
         | Some ind \<Rightarrow> do {
             (res, fs) \<leftarrow> (if type = it_LINK then Some (link_id, fs) else inode_alloc type fs);
             r \<leftarrow> inode_get res fs;
             node \<leftarrow> r;
             let node = node\<lparr>in_refcnt := in_refcnt node + 1\<rparr>;
             fs \<leftarrow> inode_set (in_id node) node fs;
             fs \<leftarrow> write_items (put_dirent ind name res items) (in_block_id dir) fs;
             Some (res, fs) }) }"

definition delete_filedir :: "blkfs_inode \<Rightarrow> string \<Rightarrow> 'a blkfs_scheme \<Rightarrow> 'a blkfs_scheme option" where
  "delete_filedir dir name fs = do {
     Assert (in_type dir = it_DIR);
     items \<leftarrow> read_items (in_block_id dir) fs;
     case direntry_find_name items name fs of
       None \<Rightarrow> Some fs
     | Some ind \<Rightarrow> do {
         r \<leftarrow> inode_get (dirent_inode items ind) fs;
         node \<leftarrow> r;
         let node = node\<lparr>in_refcnt := in_refcnt node - 1\<rparr>;
         fs \<leftarrow> (if in_refcnt node = 0 then inode_bfree (in_id node) fs
            else inode_set (in_id node) node fs);
         write_items (put_dirent_type ind t_FREE items) (in_block_id dir) fs } }"

definition get_root_inode :: "'a blkfs_scheme \<Rightarrow> blkfs_inode option option" where
  "get_root_inode fs = inode_get 0 fs"

text \<open>The walk along a path: \<open>bnode\<close> is the inode reached, \<open>cur\<close> the rest.\<close>

partial_function (option) path_walk ::
  "blkfs_inode \<Rightarrow> string \<Rightarrow> 'a blkfs_scheme \<Rightarrow> blkfs_inode option option" where
  "path_walk bnode cur fs =
     (case path_next_name cur of
       (None, _) \<Rightarrow> Some (Some bnode)
     | (Some name, nxt) \<Rightarrow> do {
         chi_id \<leftarrow> get_filedir bnode name fs;
         if chi_id = -1 then Some None
         else do {
           r \<leftarrow> inode_get chi_id fs;
           chi \<leftarrow> r;
           (case nxt of
             None \<Rightarrow> Some (Some chi)
           | Some q \<Rightarrow> path_walk chi q fs) } })"

definition get_path_inode :: "string \<Rightarrow> 'a blkfs_scheme \<Rightarrow> blkfs_inode option option" where
  "get_path_inode path finfo = do {
     r \<leftarrow> get_root_inode finfo;
     bnode \<leftarrow> r;
     path_walk bnode path finfo }"

section \<open>Open files\<close>

type_synonym bfile = "blkfs_inode ofile"

definition inode_access :: "bfile \<Rightarrow> int \<Rightarrow> int" where
  "inode_access f flags =
     (case vn_ptr (f_inode f) of
       None \<Rightarrow> -1
     | Some node \<Rightarrow>
         (if flags = DIR_EXIST then (if in_type node = it_DIR then 0 else -1)
          else if flags \<in> {FILE_EXIST, FILE_READ, FILE_WRITE, FILE_APPEND}
          then (if in_type node = it_FILE then 0 else -1)
          else -1))"

definition inode_create :: "bfile \<Rightarrow> 'a blkfs_scheme \<Rightarrow> (int \<times> bfile \<times> 'a blkfs_scheme) option" where
  "inode_create f fs = do {
     parent_dir \<leftarrow> path_get_directory (vn_path (f_inode f));
     filename \<leftarrow> path_get_name (vn_path (f_inode f));
     if filename = [] then Some (-1, f, fs)
     else do {
       par \<leftarrow> get_path_inode parent_dir fs;
       case par of
         None \<Rightarrow> Some (-1, f, fs)
       | Some par \<Rightarrow> do {
           (nid, fs) \<leftarrow> create_filedir par it_FILE (-1) filename fs;
           if nid = -1 then Some (-1, f, fs)
           else do {
             r \<leftarrow> inode_get nid fs;
             node \<leftarrow> r;
             Some (0, f\<lparr>f_inode := (f_inode f)\<lparr>vn_ptr := Some node\<rparr>\<rparr>, fs) } } } }"

definition inode_open :: "bfile \<Rightarrow> int \<Rightarrow> 'a blkfs_scheme \<Rightarrow> (int \<times> bfile \<times> 'a blkfs_scheme) option" where
  "inode_open f flags fs = do {
     (res, f, fs) \<leftarrow>
       (if vn_ptr (f_inode f) = None \<and> (flags = FILE_WRITE \<or> flags = FILE_APPEND)
        then inode_create f fs else Some (0, f, fs));
     if res = -1 \<or> inode_access f flags = -1 then Some (-1, f, fs)
     else if flags = DIR_EXIST then Some (-1, f, fs)
     else if flags = FILE_READ \<or> flags = FILE_WRITE
     then Some (res, f\<lparr>f_flags := flags, f_offset := 0\<rparr>, fs)
     else if flags = FILE_APPEND
     then do {
       node \<leftarrow> vn_ptr (f_inode f);
       Some (res, f\<lparr>f_flags := FILE_WRITE, f_offset := unat (in_size node)\<rparr>, fs) }
     else Some (res, f, fs) }"

definition inode_close :: "bfile \<Rightarrow> int" where
  "inode_close f = (if vn_ptr (f_inode f) = None then -1 else 0)"

text \<open>The result is the count (or \<open>-1\<close>) and the bytes stored into the caller's
  buffer.\<close>

definition inode_read :: "bfile \<Rightarrow> u32 \<Rightarrow> 'a blkfs_scheme \<Rightarrow> (u32 \<times> u8 list \<times> bfile) option" where
  "inode_read f sz fs =
     (if f_flags f \<noteq> FILE_READ then Some (-1, [], f)
      else case vn_ptr (f_inode f) of
        None \<Rightarrow> Some (-1, [], f)
      | Some node \<Rightarrow> do {
          Assert (f_offset f \<le> unat (in_size node));
          Assert (in_block_id node \<noteq> -1);
          let rem = in_size node - of_nat (f_offset f);
          let count = (if rem < sz then rem else sz);
          (buf, readed) \<leftarrow> block_readdata count (in_block_id node) (of_nat (f_offset f)) fs;
          Some (readed, buf, f\<lparr>f_offset := f_offset f + unat readed\<rparr>) })"

definition inode_write :: "bfile \<Rightarrow> u8 list \<Rightarrow> u32 \<Rightarrow> 'a blkfs_scheme \<Rightarrow> (u32 \<times> bfile \<times> 'a blkfs_scheme) option" where
  "inode_write f buf sz fs =
     (if f_flags f \<noteq> FILE_WRITE then Some (-1, f, fs)
      else case vn_ptr (f_inode f) of
        None \<Rightarrow> Some (-1, f, fs)
      | Some node \<Rightarrow> do {
          Assert (in_block_id node \<noteq> -1);
          let rem = block_data_size fs - of_nat (f_offset f);
          let count = (if rem < sz then rem else sz);
          (writen, fs) \<leftarrow> block_writedata buf count (in_block_id node) (of_nat (f_offset f)) fs;
          let f = f\<lparr>f_offset := f_offset f + unat writen\<rparr>;
          if unat (in_size node) < f_offset f
          then do {
            let node = node\<lparr>in_size := of_nat (f_offset f)\<rparr>;
            fs \<leftarrow> inode_set (in_id node) node fs;
            Some (writen, f\<lparr>f_inode := (f_inode f)\<lparr>vn_ptr := Some node\<rparr>\<rparr>, fs) }
          else Some (writen, f, fs) })"

text \<open>\<open>off_t\<close> is a signed 32-bit integer, but the comparison with the unsigned size is
  unsigned.\<close>

definition inode_lseek :: "bfile \<Rightarrow> u32 \<Rightarrow> u32 \<times> bfile" where
  "inode_lseek f offset =
     (if f_flags f \<noteq> FILE_READ \<and> f_flags f \<noteq> FILE_WRITE then (-1, f)
      else case vn_ptr (f_inode f) of
        None \<Rightarrow> (-1, f)
      | Some node \<Rightarrow>
          (let offset = (if in_size node < offset then in_size node else offset)
           in (offset, f\<lparr>f_offset := unat offset\<rparr>)))"

section \<open>File system operations\<close>

definition mkdir_body :: "string \<Rightarrow> 'a blkfs_scheme \<Rightarrow> (int \<times> 'a blkfs_scheme) option" where
  "mkdir_body name fs = do {
     parent_dir \<leftarrow> path_get_directory name;
     dirname \<leftarrow> path_get_name name;
     node \<leftarrow> get_path_inode parent_dir fs;
     if dirname = [] then Some (-1, fs)
     else case node of
       None \<Rightarrow> Some (-1, fs)
     | Some node \<Rightarrow>
         (if in_type node = it_DIR
          then do {
            (nid, fs) \<leftarrow> create_filedir node it_DIR (-1) dirname fs;
            Some (if nid = -1 then -1 else 0, fs) }
          else Some (-1, fs)) }"

definition fs_mkdir :: "string \<Rightarrow> 'a blkfs_scheme \<Rightarrow> (int \<times> 'a blkfs_scheme) option" where
  "fs_mkdir name fs = do {
     fs \<leftarrow> lock_on fs_lock fs_lock_update fs;
     (res, fs) \<leftarrow> mkdir_body name fs;
     fs \<leftarrow> unlock_on fs_lock fs_lock_update fs;
     Some (res, fs) }"

definition rm_body :: "string \<Rightarrow> 'a blkfs_scheme \<Rightarrow> (int \<times> 'a blkfs_scheme) option" where
  "rm_body name fs = do {
     parent_dir \<leftarrow> path_get_directory name;
     dirname \<leftarrow> path_get_name name;
     node \<leftarrow> get_path_inode parent_dir fs;
     if dirname = [] then Some (-1, fs)
     else case node of
       None \<Rightarrow> Some (-1, fs)
     | Some node \<Rightarrow>
         (if in_type node = it_DIR
          then do { fs \<leftarrow> delete_filedir node dirname fs; Some (0, fs) }
          else Some (-1, fs)) }"

definition fs_rm :: "string \<Rightarrow> 'a blkfs_scheme \<Rightarrow> (int \<times> 'a blkfs_scheme) option" where
  "fs_rm name fs = do {
     fs \<leftarrow> lock_on fs_lock fs_lock_update fs;
     (res, fs) \<leftarrow> rm_body name fs;
     fs \<leftarrow> unlock_on fs_lock fs_lock_update fs;
     Some (res, fs) }"

definition link_body :: "string \<Rightarrow> string \<Rightarrow> 'a blkfs_scheme \<Rightarrow> (int \<times> 'a blkfs_scheme) option" where
  "link_body oldpath newpath fs = do {
     old \<leftarrow> get_path_inode oldpath fs;
     case old of
       None \<Rightarrow> Some (-1, fs)
     | Some old \<Rightarrow> do {
         dir \<leftarrow> path_get_directory newpath;
         name \<leftarrow> path_get_name newpath;
         newdir \<leftarrow> get_path_inode dir fs;
         case newdir of
           None \<Rightarrow> Some (-1, fs)
         | Some newdir \<Rightarrow> do {
             (nid, fs) \<leftarrow> create_filedir newdir it_LINK (in_id old) name fs;
             Some (if nid = -1 then -1 else 0, fs) } } }"

definition fs_link :: "string \<Rightarrow> string \<Rightarrow> 'a blkfs_scheme \<Rightarrow> (int \<times> 'a blkfs_scheme) option" where
  "fs_link oldpath newpath fs = do {
     fs \<leftarrow> lock_on fs_lock fs_lock_update fs;
     (res, fs) \<leftarrow> link_body oldpath newpath fs;
     fs \<leftarrow> unlock_on fs_lock fs_lock_update fs;
     Some (res, fs) }"

text \<open>An unknown path gives the empty list (\<open>NULL\<close>).\<close>

definition fs_readdir :: "string \<Rightarrow> 'a blkfs_scheme \<Rightarrow> (fslist \<times> 'a blkfs_scheme) option" where
  "fs_readdir path fs = do {
     fs \<leftarrow> lock_on fs_lock fs_lock_update fs;
     node \<leftarrow> get_path_inode path fs;
     res \<leftarrow> (case node of None \<Rightarrow> Some [] | Some node \<Rightarrow> list_dir node fs);
     fs \<leftarrow> unlock_on fs_lock fs_lock_update fs;
     Some (res, fs) }"

definition fs_geometry :: "rd \<Rightarrow> 'a blkfs_scheme \<Rightarrow> 'a blkfs_scheme option" where
  "fs_geometry d fs = do {
     let fs = fs\<lparr>dev := d, full_size := rd_len d\<rparr>;
     Assert (0 < full_size fs);
     let fs = fs\<lparr>block_size := sizeof_block + BLOCK_DATA_SIZE, block_data_size := BLOCK_DATA_SIZE\<rparr>;
     let fs = fs\<lparr>total_block_num := full_size fs div block_size fs\<rparr>;
     let inode_size = total_block_num fs * sizeof_inode;
     let fs = fs\<lparr>inode_block_num := inode_size div BLOCK_DATA_SIZE +
         (if inode_size mod BLOCK_DATA_SIZE = 0 then 0 else 1),
       inode_per_block := BLOCK_DATA_SIZE div sizeof_inode,
       child_per_dir := BLOCK_DATA_SIZE div sizeof_dirent\<rparr>;
     Assert (inode_block_num fs < total_block_num fs);
     Some fs }"

fun check_blocks :: "nat list \<Rightarrow> 'a blkfs_scheme \<Rightarrow> unit option" where
  "check_blocks [] fs = Some ()"
| "check_blocks (i # is) fs = do {
     r \<leftarrow> block_check (of_nat i) fs;
     Assert (r = 0);
     check_blocks is fs }"

fun init_blocks :: "nat list \<Rightarrow> 'a blkfs_scheme \<Rightarrow> 'a blkfs_scheme option" where
  "init_blocks [] fs = Some fs"
| "init_blocks (i # is) fs = do { fs \<leftarrow> block_init (of_nat i) fs; init_blocks is fs }"

fun init_inode_blocks :: "nat list \<Rightarrow> 'a blkfs_scheme \<Rightarrow> 'a blkfs_scheme option" where
  "init_inode_blocks [] fs = Some fs"
| "init_inode_blocks (i # is) fs = do {
     blk \<leftarrow> block_getinfo (of_nat i) fs;
     fs \<leftarrow> block_setinfo (blk\<lparr>bk_type := t_USING\<rparr>) (of_nat i) fs;
     fs \<leftarrow> inode_block_init (of_nat i) fs;
     init_inode_blocks is fs }"

definition fs_format :: "'a blkfs_scheme \<Rightarrow> 'a blkfs_scheme option" where
  "fs_format fs = do {
     fs \<leftarrow> init_blocks [0..<unat (total_block_num fs)] fs;
     fs \<leftarrow> init_inode_blocks [0..<unat (inode_block_num fs)] fs;
     (rootdir, fs) \<leftarrow> inode_alloc it_DIR fs;
     Assert (rootdir = 0);
     r \<leftarrow> get_root_inode fs;
     root \<leftarrow> r;
     let root = root\<lparr>in_refcnt := in_refcnt root + 1\<rparr>;
     fs \<leftarrow> inode_set (in_id root) root fs;
     Assert (in_block_id root = inode_block_num fs);
     dir_block_init (in_block_id root) fs }"

definition fs_init :: "string \<Rightarrow> rd \<Rightarrow> 'a blkfs_scheme \<Rightarrow> 'a blkfs_scheme option" where
  "fs_init name d fs = do {
     let fs = fs\<lparr>fs_lock := spin_init name\<rparr>;
     fs \<leftarrow> lock_on fs_lock fs_lock_update fs;
     fs \<leftarrow> fs_geometry d fs;
     c \<leftarrow> block_check 0 fs;
     fs \<leftarrow> (if c = 0
        then do { check_blocks [0..<unat (total_block_num fs)] fs; Some fs }
        else fs_format fs);
     unlock_on fs_lock fs_lock_update fs }"

definition fs_lookup ::
  "string \<Rightarrow> int \<Rightarrow> 'a blkfs_scheme \<Rightarrow> (blkfs_inode vnode \<times> 'a blkfs_scheme) option" where
  "fs_lookup path flags fs = do {
     Assert (path \<noteq> [] \<and> hd path = CHR ''/'');
     fs \<leftarrow> lock_on fs_lock fs_lock_update fs;
     bnode \<leftarrow> get_path_inode path fs;
     let node = \<lparr>vn_refcnt = 0, vn_ptr = bnode, vn_path = path\<rparr>;
     fs \<leftarrow> unlock_on fs_lock fs_lock_update fs;
     Some (node, fs) }"

text \<open>The branch for a \<open>NULL\<close> inode returns without releasing the lock.\<close>

definition fs_close :: "blkfs_inode vnode option \<Rightarrow> 'a blkfs_scheme \<Rightarrow> (int \<times> 'a blkfs_scheme) option" where
  "fs_close node fs = do {
     fs \<leftarrow> lock_on fs_lock fs_lock_update fs;
     case node of
       None \<Rightarrow> Some (-1, fs)
     | Some _ \<Rightarrow> do {
         fs \<leftarrow> unlock_on fs_lock fs_lock_update fs;
         Some (0, fs) } }"

interpretation fs_lk: lock_field fs_lock fs_lock_update
  by unfold_locales auto

end
