(* ===== verification/BlkStore.thy ===== *)
theory BlkStore
  imports Blkfs
begin

text \<open>
  The disk of a block file system as an array of blocks: each block has a header and 1024 bytes
  of data, and the operations of \<open>Blkfs\<close> on a well-formed geometry are reads and
  updates of that array. The laws are collected in the locale \<open>block_store\<close>; the layers
  above (inode table, directories) use them and not the address arithmetic.
\<close>

section \<open>Geometry\<close>

definition geom :: "'a blkfs_scheme \<Rightarrow> bool" where
  "geom fs \<longleftrightarrow> block_size fs = 1032 \<and> block_data_size fs = 1024 \<and> inode_per_block fs = 51 \<and>
     child_per_dir fs = 42 \<and> unat (total_block_num fs) * 1032 < 2 ^ 32 \<and>
     inode_block_num fs < total_block_num fs"

definition blk_hdr :: "'a blkfs_scheme \<Rightarrow> u32 \<Rightarrow> blkfs_block" where
  "blk_hdr fs b = block_of_bytes (mem_read (rd_data (dev fs)) (b * 1032) 8)"

definition blk_data :: "'a blkfs_scheme \<Rightarrow> u32 \<Rightarrow> u8 list" where
  "blk_data fs b = mem_read (rd_data (dev fs)) (b * 1032 + 8) 1024"

definition set_hdr :: "u32 \<Rightarrow> blkfs_block \<Rightarrow> 'a blkfs_scheme \<Rightarrow> 'a blkfs_scheme" where
  "set_hdr b h fs = fs\<lparr>dev := (dev fs)\<lparr>rd_data :=
     mem_write (rd_data (dev fs)) (b * 1032) (bytes_of_block h)\<rparr>\<rparr>"

definition set_data :: "u32 \<Rightarrow> u8 list \<Rightarrow> 'a blkfs_scheme \<Rightarrow> 'a blkfs_scheme" where
  "set_data b xs fs = fs\<lparr>dev := (dev fs)\<lparr>rd_data :=
     mem_write (rd_data (dev fs)) (b * 1032 + 8) xs\<rparr>\<rparr>"

text \<open>What the layers above use: reading back and independence.\<close>

locale block_store =
  fixes ok :: "'s \<Rightarrow> bool"
    and valid :: "'s \<Rightarrow> 'b \<Rightarrow> bool"
    and hdr :: "'s \<Rightarrow> 'b \<Rightarrow> 'h"
    and data :: "'s \<Rightarrow> 'b \<Rightarrow> 'd list"
    and set_h :: "'b \<Rightarrow> 'h \<Rightarrow> 's \<Rightarrow> 's"
    and set_d :: "'b \<Rightarrow> 'd list \<Rightarrow> 's \<Rightarrow> 's"
    and sz :: nat
  assumes hdr_set_h: "ok s \<Longrightarrow> valid s b \<Longrightarrow> valid s c \<Longrightarrow> hdr (set_h b h s) c = (if b = c then h else hdr s c)"
    and hdr_set_d: "ok s \<Longrightarrow> valid s b \<Longrightarrow> valid s c \<Longrightarrow> length xs = sz \<Longrightarrow> hdr (set_d b xs s) c = hdr s c"
    and data_set_h: "ok s \<Longrightarrow> valid s b \<Longrightarrow> valid s c \<Longrightarrow> data (set_h b h s) c = data s c"
    and data_set_d: "ok s \<Longrightarrow> valid s b \<Longrightarrow> valid s c \<Longrightarrow> length xs = sz \<Longrightarrow>
       data (set_d b xs s) c = (if b = c then xs else data s c)"
    and ok_set_h: "ok (set_h b h s) = ok s"
    and ok_set_d: "ok (set_d b xs s) = ok s"
    and valid_set_h: "valid (set_h b h s) c = valid s c"
    and valid_set_d: "valid (set_d b xs s) c = valid s c"
begin

text \<open>Two updates of different blocks commute, as far as reads can tell.\<close>

lemma data_commute:
  assumes "ok s" "valid s b" "valid s c" "valid s d" "length xs = sz" "length ys = sz" "b \<noteq> c"
  shows "data (set_d b xs (set_d c ys s)) d = data (set_d c ys (set_d b xs s)) d"
  using assms by (auto simp: data_set_d ok_set_d valid_set_d)

lemma data_last_wins:
  assumes "ok s" "valid s b" "valid s c" "length xs = sz" "length ys = sz"
  shows "data (set_d b xs (set_d b ys s)) c = data (set_d b xs s) c"
  using assms by (simp add: data_set_d ok_set_d valid_set_d)

lemma hdr_last_wins:
  assumes "ok s" "valid s b" "valid s c"
  shows "hdr (set_h b h (set_h b h' s)) c = hdr (set_h b h s) c"
  using assms by (simp add: hdr_set_h ok_set_h valid_set_h)

lemma restore_hdr:
  assumes "ok s" "valid s b" "valid s c"
  shows "hdr (set_h b (hdr s b) (set_h b h s)) c = hdr s c"
  using assms by (simp add: hdr_set_h ok_set_h valid_set_h)

end

definition blk_valid :: "'a blkfs_scheme \<Rightarrow> u32 \<Rightarrow> bool" where
  "blk_valid fs b \<longleftrightarrow> b < total_block_num fs"

lemma unat_block_pos:
  assumes "geom fs" "blk_valid fs b" "k < 1032"
  shows "unat (b * 1032 + of_nat k) = unat b * 1032 + k" "unat b * 1032 + 1032 < 2 ^ 32 + 1"
proof -
  have "unat b < unat (total_block_num fs)" using assms(2) by (simp add: blk_valid_def word_less_nat_alt)
  then have "(unat b + 1) * 1032 \<le> unat (total_block_num fs) * 1032" by (intro mult_le_mono1) simp
  then have l: "unat b * 1032 + 1032 < 2 ^ 32" using assms(1) by (simp add: geom_def)
  then show "unat b * 1032 + 1032 < 2 ^ 32 + 1" by simp
  have "unat (b * 1032) = unat b * 1032" using l by (simp add: unat_word_ariths)
  then show "unat (b * 1032 + of_nat k) = unat b * 1032 + k"
    using l assms(3) unat_add_of_nat [of "b * 1032" k] by simp
qed

lemma block_apart:
  assumes "geom fs" "blk_valid fs b" "blk_valid fs c" "j + n \<le> 1032" "k + i \<le> 1032" "j < 1032" "k < 1032"
    and "b \<noteq> c \<or> j + n \<le> k \<or> k + i \<le> j"
  shows "apart (b * 1032 + of_nat j) n (c * 1032 + of_nat k) i"
proof -
  have u: "unat (b * 1032 + of_nat j) = unat b * 1032 + j" "unat (c * 1032 + of_nat k) = unat c * 1032 + k"
    "unat b * 1032 + 1032 < 2 ^ 32 + 1" "unat c * 1032 + 1032 < 2 ^ 32 + 1"
    using unat_block_pos [OF assms(1,2,6)] unat_block_pos [OF assms(1,3,7)] by auto
  have "unat b < unat c \<or> unat c < unat b \<or> b = c"
    using word_unat_eq_iff [of b c] by linarith
  moreover have "unat b < unat c \<Longrightarrow> unat b * 1032 + 1032 \<le> unat c * 1032"
    using mult_le_mono1 [of "unat b + 1" "unat c" 1032] by simp
  moreover have "unat c < unat b \<Longrightarrow> unat c * 1032 + 1032 \<le> unat b * 1032"
    using mult_le_mono1 [of "unat c + 1" "unat b" 1032] by simp
  ultimately show ?thesis using u assms(4-8) unfolding apart_def by auto
qed

lemma block_of_bytes_of [simp]: "block_of_bytes (bytes_of_block h) = h"
  by (cases h) (simp add: block_of_bytes_def bytes_of_block_def bytes_at_def)

lemma length_bytes_of_block [simp]: "length (bytes_of_block h) = 8"
  by (simp add: bytes_of_block_def)

lemma length_blk_data [simp]: "length (blk_data fs b) = 1024"
  by (simp add: blk_data_def)

lemma geom_upd [simp]: "geom (set_hdr b h fs) = geom fs" "geom (set_data b xs fs) = geom fs"
  "blk_valid (set_hdr b h fs) c = blk_valid fs c" "blk_valid (set_data b xs fs) c = blk_valid fs c"
  by (simp_all add: geom_def set_hdr_def set_data_def blk_valid_def)

lemma blk_hdr_set_hdr [simp]:
  assumes "geom fs" "blk_valid fs b" "blk_valid fs c"
  shows "blk_hdr (set_hdr b h fs) c = (if b = c then h else blk_hdr fs c)"
proof (cases "b = c")
  case True
  then show ?thesis
    using mem_read_write_same [of "bytes_of_block h"] by (simp add: blk_hdr_def set_hdr_def)
next
  case False
  then have "apart (b * 1032) 8 (c * 1032) 8" using block_apart [OF assms, of 0 8 0 8] by simp
  then show ?thesis
    using False mem_read_write_apart [of "b * 1032" "bytes_of_block h" "c * 1032" 8]
    by (simp add: blk_hdr_def set_hdr_def)
qed

lemma blk_hdr_set_data [simp]:
  assumes "geom fs" "blk_valid fs b" "blk_valid fs c" "length xs = 1024"
  shows "blk_hdr (set_data b xs fs) c = blk_hdr fs c"
proof -
  have "apart (b * 1032 + 8) 1024 (c * 1032) 8"
    using block_apart [OF assms(1-3), of 8 1024 0 8] by simp
  then show ?thesis
    using mem_read_write_apart [of "b * 1032 + 8" xs "c * 1032" 8] assms(4)
    by (simp add: blk_hdr_def set_data_def)
qed

lemma blk_data_set_hdr [simp]:
  assumes "geom fs" "blk_valid fs b" "blk_valid fs c"
  shows "blk_data (set_hdr b h fs) c = blk_data fs c"
proof -
  have "apart (b * 1032) 8 (c * 1032 + 8) 1024"
    using block_apart [OF assms, of 0 8 8 1024] by simp
  then show ?thesis
    using mem_read_write_apart [of "b * 1032" "bytes_of_block h" "c * 1032 + 8" 1024]
    by (simp add: blk_data_def set_hdr_def)
qed

lemma blk_data_set_data [simp]:
  assumes "geom fs" "blk_valid fs b" "blk_valid fs c" "length xs = 1024"
  shows "blk_data (set_data b xs fs) c = (if b = c then xs else blk_data fs c)"
proof (cases "b = c")
  case True
  then show ?thesis
    using mem_read_write_same [of xs] assms(4) by (simp add: blk_data_def set_data_def)
next
  case False
  then have "apart (b * 1032 + 8) 1024 (c * 1032 + 8) 1024"
    using block_apart [OF assms(1-3), of 8 1024 8 1024] by simp
  then show ?thesis
    using False mem_read_write_apart [of "b * 1032 + 8" xs "c * 1032 + 8" 1024] assms(4)
    by (simp add: blk_data_def set_data_def)
qed

interpretation bstore: block_store geom blk_valid blk_hdr blk_data set_hdr set_data 1024
  by unfold_locales auto

section \<open>The operations on blocks\<close>

lemma read_items_eq: "geom fs \<Longrightarrow> blk_valid fs b \<Longrightarrow> read_items b fs = Some (blk_data fs b)"
  by (simp add: read_items_def block_readdata_def block_read_def rd_read_def geom_def blk_valid_def
      sizeof_block_def blk_data_def Let_def)

lemma write_items_eq:
  "geom fs \<Longrightarrow> blk_valid fs b \<Longrightarrow> length xs = 1024 \<Longrightarrow> write_items xs b fs = Some (set_data b xs fs)"
  by (simp add: write_items_def block_writedata_def block_write_def rd_write_def geom_def blk_valid_def
      sizeof_block_def set_data_def Let_def)

lemma block_getinfo_eq:
  "geom fs \<Longrightarrow> blk_valid fs b \<Longrightarrow>
   block_getinfo b fs = (if bk_magic (blk_hdr fs b) = MAGIC then Some (blk_hdr fs b) else None)"
  by (simp add: block_getinfo_def block_read_def rd_read_def geom_def blk_valid_def
      sizeof_block_def blk_hdr_def Let_def)

lemma block_setinfo_eq:
  "geom fs \<Longrightarrow> blk_valid fs b \<Longrightarrow> bk_magic h = MAGIC \<Longrightarrow> block_setinfo h b fs = Some (set_hdr b h fs)"
  by (simp add: block_setinfo_def block_write_def rd_write_def geom_def blk_valid_def
      sizeof_block_def set_hdr_def Let_def)

lemma block_check_eq:
  "geom fs \<Longrightarrow> blk_valid fs b \<Longrightarrow>
   block_check b fs = Some (if bk_magic (blk_hdr fs b) = MAGIC then 0 else 1)"
  by (simp add: block_check_def block_read_def rd_read_def geom_def blk_valid_def
      sizeof_block_def blk_hdr_def Let_def)


lemma bytes_at_put_sub:
  "off + length ys \<le> length xs \<Longrightarrow> j + k \<le> length ys \<Longrightarrow>
   bytes_at (off + j) k (put_at off ys xs) = bytes_at j k ys"
  by (rule nth_equalityI) (auto simp: nth_bytes_at nth_put_at)

section \<open>The inode table\<close>

lemma length_bytes_of_inode [simp]: "length (bytes_of_inode n) = 20"
  by (simp add: bytes_of_inode_def)

lemma length_put_inode [simp]:
  "t < 51 \<Longrightarrow> length items = 1024 \<Longrightarrow> length (put_inode t n items) = 1024"
  by (simp add: put_inode_def)

lemma length_put_inode_type [simp]:
  "t < 51 \<Longrightarrow> length items = 1024 \<Longrightarrow> length (put_inode_type t ty items) = 1024"
  by (simp add: put_inode_type_def)

lemma inode_at_put:
  assumes "t < 51" "u < 51" "length items = 1024"
  shows "inode_at (put_inode t n items) u = (if t = u then n else inode_at items u)"
proof (cases "t = u")
  case True
  have sub: "bytes_at (20 * u + j) 4 (put_inode u n items) = bytes_at j 4 (bytes_of_inode n)"
    if "j \<le> 16" for j
    unfolding put_inode_def by (rule bytes_at_put_sub) (use that assms in auto)
  show ?thesis
    using True sub [of 0] sub [of 4] sub [of 8] sub [of 12] sub [of 16]
    by (cases n) (simp add: inode_at_def inode_type_at_def bytes_of_inode_def bytes_at_def)
next
  case False
  have "bytes_at (20 * u + j) 4 (put_inode t n items) = bytes_at (20 * u + j) 4 items"
    if "j \<le> 16" for j
    unfolding put_inode_def by (rule bytes_at_put_disjoint) (use that assms False in auto)
  from this [of 0] this [of 4] this [of 8] this [of 12] this [of 16] False show ?thesis
    by (simp add: inode_at_def inode_type_at_def)
qed

lemma inode_at_put_type:
  assumes "t < 51" "u < 51" "length items = 1024"
  shows "inode_at (put_inode_type t ty items) u =
    (if t = u then (inode_at items u)\<lparr>in_type := ty\<rparr> else inode_at items u)"
proof (cases "t = u")
  case True
  have "bytes_at (20 * u) 4 (put_inode_type u ty items) = le32 ty"
    using bytes_at_put_same [of "20 * u" "le32 ty" items] assms by (simp add: put_inode_type_def)
  moreover have "bytes_at (20 * u + j) 4 (put_inode_type u ty items) = bytes_at (20 * u + j) 4 items"
    if "4 \<le> j" "j \<le> 16" for j
    unfolding put_inode_type_def by (rule bytes_at_put_disjoint) (use that assms in auto)
  ultimately show ?thesis using True by (simp add: inode_at_def inode_type_at_def)
next
  case False
  have "bytes_at (20 * u + j) 4 (put_inode_type t ty items) = bytes_at (20 * u + j) 4 items"
    if "j \<le> 16" for j
    unfolding put_inode_type_def by (rule bytes_at_put_disjoint) (use that assms False in auto)
  from this [of 0] this [of 4] this [of 8] this [of 12] this [of 16] False show ?thesis
    by (simp add: inode_at_def inode_type_at_def)
qed

lemma inode_type_at_eq: "inode_type_at items t = in_type (inode_at items t)"
  by (simp add: inode_at_def)

definition ino_valid :: "'a blkfs_scheme \<Rightarrow> u32 \<Rightarrow> bool" where
  "ino_valid fs k \<longleftrightarrow> k div 51 < inode_block_num fs"

definition ino :: "'a blkfs_scheme \<Rightarrow> u32 \<Rightarrow> blkfs_inode" where
  "ino fs k = inode_at (blk_data fs (k div 51)) (unat (k mod 51))"

definition set_ino :: "u32 \<Rightarrow> blkfs_inode \<Rightarrow> 'a blkfs_scheme \<Rightarrow> 'a blkfs_scheme" where
  "set_ino k n fs = set_data (k div 51) (put_inode (unat (k mod 51)) n (blk_data fs (k div 51))) fs"

lemma tid_less: "unat (k mod 51 :: u32) < 51"
  using word_mod_less_divisor [of 51 k] by (simp add: word_less_nat_alt)

lemma ino_eq_iff: "k = (l :: u32) \<longleftrightarrow> k div 51 = l div 51 \<and> unat (k mod 51) = unat (l mod 51)"
  by (metis word_mod_div_equality word_unat_eq_iff)

lemma ino_blk_valid: "geom fs \<Longrightarrow> ino_valid fs k \<Longrightarrow> blk_valid fs (k div 51)"
  by (auto simp: geom_def ino_valid_def blk_valid_def intro: less_trans)

lemma ino_set_ino [simp]:
  assumes "geom fs" "ino_valid fs k" "ino_valid fs l"
  shows "ino (set_ino k n fs) l = (if k = l then n else ino fs l)"
  using assms by (auto simp: ino_def set_ino_def ino_blk_valid inode_at_put tid_less ino_eq_iff [of k l])

lemma set_ino_sel [simp]:
  "geom (set_ino k n fs) = geom fs" "blk_valid (set_ino k n fs) = blk_valid fs"
  "ino_valid (set_ino k n fs) = ino_valid fs"
  "inode_block_num (set_ino k n fs) = inode_block_num fs"
  "total_block_num (set_ino k n fs) = total_block_num fs"
  "child_per_dir (set_ino k n fs) = child_per_dir fs"
  by (auto simp: set_ino_def set_data_def geom_def blk_valid_def ino_valid_def fun_eq_iff)

lemma set_data_sel [simp]:
  "ino_valid (set_data b xs fs) = ino_valid fs"
  "inode_block_num (set_data b xs fs) = inode_block_num fs"
  "total_block_num (set_data b xs fs) = total_block_num fs"
  "child_per_dir (set_data b xs fs) = child_per_dir fs"
  by (auto simp: set_data_def ino_valid_def fun_eq_iff)

lemma set_hdr_sel [simp]:
  "ino_valid (set_hdr b h fs) = ino_valid fs"
  "inode_block_num (set_hdr b h fs) = inode_block_num fs"
  "total_block_num (set_hdr b h fs) = total_block_num fs"
  "child_per_dir (set_hdr b h fs) = child_per_dir fs"
  by (auto simp: set_hdr_def ino_valid_def fun_eq_iff)

text \<open>A block that holds no inodes.\<close>

definition data_blk :: "'a blkfs_scheme \<Rightarrow> u32 \<Rightarrow> bool" where
  "data_blk fs b \<longleftrightarrow> inode_block_num fs \<le> b \<and> b < total_block_num fs"

lemma data_blk_valid [intro, simp]: "data_blk fs b \<Longrightarrow> blk_valid fs b"
  by (simp add: data_blk_def blk_valid_def)

lemma data_blk_not_ino: "data_blk fs b \<Longrightarrow> ino_valid fs k \<Longrightarrow> b \<noteq> k div 51"
  by (auto simp: data_blk_def ino_valid_def)

lemma data_blk_sel [simp]:
  "data_blk (set_ino k n fs) = data_blk fs" "data_blk (set_data b xs fs) = data_blk fs"
  "data_blk (set_hdr b h fs) = data_blk fs"
  by (auto simp: data_blk_def fun_eq_iff)

lemma ino_set_data [simp]:
  "geom fs \<Longrightarrow> data_blk fs b \<Longrightarrow> ino_valid fs k \<Longrightarrow> length xs = 1024 \<Longrightarrow> ino (set_data b xs fs) k = ino fs k"
  using data_blk_not_ino [of fs b k] by (auto simp: ino_def ino_blk_valid)

lemma ino_set_hdr [simp]:
  "geom fs \<Longrightarrow> blk_valid fs b \<Longrightarrow> ino_valid fs k \<Longrightarrow> ino (set_hdr b h fs) k = ino fs k"
  by (simp add: ino_def ino_blk_valid)

lemma data_set_ino [simp]:
  "geom fs \<Longrightarrow> data_blk fs b \<Longrightarrow> ino_valid fs k \<Longrightarrow> blk_data (set_ino k n fs) b = blk_data fs b"
  using data_blk_not_ino [of fs b k] by (auto simp: set_ino_def ino_blk_valid tid_less data_blk_valid)

lemma hdr_set_ino [simp]:
  "geom fs \<Longrightarrow> ino_valid fs k \<Longrightarrow> blk_valid fs b \<Longrightarrow> blk_hdr (set_ino k n fs) b = blk_hdr fs b"
  by (simp add: set_ino_def ino_blk_valid tid_less)

lemma geom_51: "geom fs \<Longrightarrow> inode_per_block fs = 51"
  by (simp add: geom_def)

lemma inode_get_eq:
  "geom fs \<Longrightarrow> ino_valid fs k \<Longrightarrow>
   inode_get k fs = Some (if in_type (ino fs k) = it_EMPTY then None else Some (ino fs k))"
  by (simp add: inode_get_def geom_51 read_items_eq ino_blk_valid ino_def inode_type_at_eq Let_def)

lemma inode_set_eq:
  "geom fs \<Longrightarrow> ino_valid fs k \<Longrightarrow> inode_set k n fs = Some (set_ino k n fs)"
  by (simp add: inode_set_def geom_51 read_items_eq write_items_eq ino_blk_valid set_ino_def tid_less Let_def)

section \<open>Allocating blocks\<close>

definition hdrs_ok :: "'a blkfs_scheme \<Rightarrow> bool" where
  "hdrs_ok fs \<longleftrightarrow> (\<forall>b. blk_valid fs b \<longrightarrow> bk_magic (blk_hdr fs b) = MAGIC)"

definition blk_free :: "'a blkfs_scheme \<Rightarrow> u32 \<Rightarrow> bool" where
  "blk_free fs b \<longleftrightarrow> bk_type (blk_hdr fs b) = t_FREE"

definition mark :: "u32 \<Rightarrow> u32 \<Rightarrow> 'a blkfs_scheme \<Rightarrow> 'a blkfs_scheme" where
  "mark t b fs = set_hdr b ((blk_hdr fs b)\<lparr>bk_type := t\<rparr>) fs"

definition first_free :: "'a blkfs_scheme \<Rightarrow> nat option" where
  "first_free fs = find (\<lambda>i. blk_free fs (of_nat i))
     [unat (inode_block_num fs)..<unat (total_block_num fs)]"

lemma of_nat_valid: "i < unat (total_block_num fs) \<Longrightarrow> blk_valid fs (of_nat i)"
  using unat_lt_2p32 [of "total_block_num fs"] unat_of_nat32 [of i]
  by (simp add: blk_valid_def word_less_nat_alt)

lemma block_alloc_loop_eq:
  assumes "geom fs" "hdrs_ok fs" "\<And>i. i \<in> set is \<Longrightarrow> blk_valid fs (of_nat i)"
  shows "block_alloc_loop is fs =
    Some (case find (\<lambda>i. blk_free fs (of_nat i)) is of
        None \<Rightarrow> (-1, fs) | Some i \<Rightarrow> (of_nat i, mark t_USING (of_nat i) fs))"
  using assms(3)
proof (induction "is")
  case (Cons i "is")
  then have v: "blk_valid fs (of_nat i)" by simp
  then have "bk_magic (blk_hdr fs (of_nat i)) = MAGIC" using assms(2) by (simp add: hdrs_ok_def)
  then show ?case
    using Cons v assms(1) by (simp add: block_getinfo_eq block_setinfo_eq blk_free_def mark_def)
qed simp

lemma block_alloc_eq:
  assumes "geom fs" "hdrs_ok fs"
  shows "block_alloc fs = Some (case first_free fs of
      None \<Rightarrow> (-1, fs) | Some i \<Rightarrow> (of_nat i, mark t_USING (of_nat i) fs))"
  unfolding block_alloc_def first_free_def
  by (rule block_alloc_loop_eq [OF assms]) (auto intro: of_nat_valid)

lemma block_free_eq:
  assumes "geom fs" "hdrs_ok fs" "blk_valid fs b" "bk_type (blk_hdr fs b) = t_USING"
  shows "block_free b fs = Some (mark t_FREE b fs)"
  using assms by (simp add: block_free_def block_getinfo_eq block_setinfo_eq mark_def hdrs_ok_def)


section \<open>Allocating inodes\<close>

lemma find_app: "find P (xs @ ys) = (case find P xs of None \<Rightarrow> find P ys | Some x \<Rightarrow> Some x)"
  by (induction xs) auto

lemma find_mapped: "find P (map f xs) = map_option f (find (\<lambda>x. P (f x)) xs)"
  by (induction xs) auto

lemma find_SomeD: "find P xs = Some x \<Longrightarrow> x \<in> set xs \<and> P x"
  by (auto simp: find_Some_iff)

lemma find_cong_set: "(\<And>x. x \<in> set xs \<Longrightarrow> P x = Q x) \<Longrightarrow> find P xs = find Q xs"
  by (induction xs) auto

lemma find_empty_eq: "find_empty items is = find (\<lambda>i. in_type (inode_at items i) = it_EMPTY) is"
  by (induction "is") (auto simp: inode_type_at_eq)

text \<open>What formatting a directory block does: every entry is free, nothing else changes.\<close>

definition clear_dir :: "u8 list \<Rightarrow> u8 list" where
  "clear_dir items = fold (\<lambda>i e. put_dirent_type i t_FREE e) [0..<42] items"

lemma length_put_dirent_type [simp]:
  "i < 42 \<Longrightarrow> length items = 1024 \<Longrightarrow> length (put_dirent_type i t items) = 1024"
  by (simp add: put_dirent_type_def)

lemma dirent_type_put_type:
  assumes "i < 42" "j < 42" "length items = 1024"
  shows "dirent_type (put_dirent_type i t items) j = (if i = j then t else dirent_type items j)"
proof (cases "i = j")
  case True
  then show ?thesis
    using bytes_at_put_same [of "24 * j" "le32 t" items] assms
    by (simp add: dirent_type_def put_dirent_type_def)
next
  case False
  then have "bytes_at (24 * j) 4 (put_at (24 * i) (le32 t) items) = bytes_at (24 * j) 4 items"
    by (intro bytes_at_put_disjoint) (use assms in auto)
  then show ?thesis using False by (simp add: dirent_type_def put_dirent_type_def)
qed

lemma clear_loop:
  assumes "\<And>i. i \<in> set is \<Longrightarrow> i < 42" "length items = 1024"
  shows "length (fold (\<lambda>i e. put_dirent_type i t_FREE e) is items) = 1024 \<and>
    (\<forall>j<42. dirent_type (fold (\<lambda>i e. put_dirent_type i t_FREE e) is items) j =
      (if j \<in> set is then t_FREE else dirent_type items j))"
  using assms by (induction "is" arbitrary: items) (auto simp: dirent_type_put_type)

lemma length_clear_dir [simp]: "length items = 1024 \<Longrightarrow> length (clear_dir items) = 1024"
  using clear_loop [of "[0..<42]" items] by (simp add: clear_dir_def)

lemma dirent_type_clear [simp]: "length items = 1024 \<Longrightarrow> j < 42 \<Longrightarrow> dirent_type (clear_dir items) j = t_FREE"
  using clear_loop [of "[0..<42]" items] by (simp add: clear_dir_def)

lemma dir_block_init_eq:
  "geom fs \<Longrightarrow> blk_valid fs b \<Longrightarrow> dir_block_init b fs = Some (set_data b (clear_dir (blk_data fs b)) fs)"
proof -
  assume a: "geom fs" "blk_valid fs b"
  then have "child_per_dir fs = 42" by (simp add: geom_def)
  then show ?thesis
    using a length_clear_dir [of "blk_data fs b"]
    by (simp add: dir_block_init_def read_items_eq clear_dir_def write_items_eq del: upt_conv_Cons)
qed

definition first_ino :: "'a blkfs_scheme \<Rightarrow> nat option" where
  "first_ino fs = find (\<lambda>k. in_type (ino fs (of_nat k)) = it_EMPTY) [0..<51 * unat (inode_block_num fs)]"

definition alloc_blk :: "'a blkfs_scheme \<Rightarrow> u32 \<times> 'a blkfs_scheme" where
  "alloc_blk fs = (case first_free fs of
     None \<Rightarrow> (-1, fs) | Some i \<Rightarrow> (of_nat i, mark t_USING (of_nat i) fs))"

definition alloc_ino :: "u32 \<Rightarrow> u32 \<Rightarrow> 'a blkfs_scheme \<Rightarrow> 'a blkfs_scheme" where
  "alloc_ino ty k fs = (let (b, fs1) = alloc_blk fs;
      fs2 = (if b \<noteq> -1 \<and> ty = it_DIR then set_data b (clear_dir (blk_data fs1 b)) fs1 else fs1)
    in set_ino k \<lparr>in_type = ty, in_id = k, in_block_id = b, in_refcnt = 0, in_size = 0\<rparr> fs2)"

lemma mark_sel [simp]:
  "geom (mark t b fs) = geom fs" "blk_valid (mark t b fs) = blk_valid fs"
  "ino_valid (mark t b fs) = ino_valid fs" "data_blk (mark t b fs) = data_blk fs"
  "inode_block_num (mark t b fs) = inode_block_num fs"
  "total_block_num (mark t b fs) = total_block_num fs"
  by (simp_all add: mark_def fun_eq_iff)

lemma blk_data_mark [simp]:
  "geom fs \<Longrightarrow> blk_valid fs b \<Longrightarrow> blk_valid fs c \<Longrightarrow> blk_data (mark t b fs) c = blk_data fs c"
  by (simp add: mark_def)

lemma ino_mark [simp]:
  "geom fs \<Longrightarrow> blk_valid fs b \<Longrightarrow> ino_valid fs k \<Longrightarrow> ino (mark t b fs) k = ino fs k"
  by (simp add: mark_def)

lemma first_free_data:
  "geom fs \<Longrightarrow> first_free fs = Some i \<Longrightarrow> data_blk fs (of_nat i) \<and> blk_free fs (of_nat i) \<and>
     (of_nat i :: u32) \<noteq> -1"
proof -
  assume g: "geom fs" and "first_free fs = Some i"
  then have i: "unat (inode_block_num fs) \<le> i" "i < unat (total_block_num fs)" "blk_free fs (of_nat i)"
    using find_SomeD [of _ _ i] by (fastforce simp: first_free_def)+
  have "unat (total_block_num fs) < 2 ^ 31" using g by (simp add: geom_def)
  then have u: "unat (of_nat i :: u32) = i" "i < 2 ^ 31" using i unat_of_nat32 [of i] by auto
  moreover have "unat (- 1 :: u32) = 2 ^ 32 - 1" by (simp add: unsigned_minus_1_eq_mask mask_eq_exp_minus_1)
  ultimately have "(of_nat i :: u32) \<noteq> -1" by (intro notI) simp
  then show ?thesis using i u by (simp add: data_blk_def word_le_nat_alt word_less_nat_alt)
qed

lemma ino_num_bound: "geom fs \<Longrightarrow> 51 * unat (inode_block_num fs) < 2 ^ 32"
proof -
  assume "geom fs"
  then have "unat (inode_block_num fs) < unat (total_block_num fs)"
    "unat (total_block_num fs) * 1032 < 2 ^ 32"
    by (simp_all add: geom_def word_less_nat_alt)
  then show ?thesis by simp
qed

lemma nat_ino:
  assumes "geom fs" "k < 51 * unat (inode_block_num fs)"
  shows "(of_nat k :: u32) div 51 = of_nat (k div 51)" "unat ((of_nat k :: u32) mod 51) = k mod 51"
    "ino_valid fs (of_nat k)"
proof -
  have k: "unat (of_nat k :: u32) = k" using ino_num_bound [OF assms(1)] assms(2) unat_of_nat32 [of k] by simp
  then have d: "unat ((of_nat k :: u32) div 51) = k div 51" by (simp add: unat_div)
  then show "(of_nat k :: u32) div 51 = of_nat (k div 51)" 
    using word_unat_eq_iff [of "of_nat k div 51" "of_nat (k div 51)"] d
      unat_of_nat32 [of "k div 51"] unat_lt_2p32 [of "of_nat k"] k div_le_dividend [of k 51]
    by (metis le_less_trans)
  show "unat ((of_nat k :: u32) mod 51) = k mod 51" using k by (simp add: unat_mod)
  show "ino_valid fs (of_nat k)" using d assms(2) by (simp add: ino_valid_def word_less_nat_alt) 
qed

lemma inode_alloc_loop_eq:
  assumes "geom fs" "hdrs_ok fs" "\<And>bk. bk \<in> set bks \<Longrightarrow> bk < unat (inode_block_num fs)"
  shows "inode_alloc_loop ty bks fs =
    Some (case find (\<lambda>k. in_type (ino fs (of_nat k)) = it_EMPTY)
          (concat (map (\<lambda>bk. map (\<lambda>i. bk * 51 + i) [0..<51]) bks)) of
        None \<Rightarrow> (-1, fs) | Some k \<Rightarrow> (of_nat k, alloc_ino ty (of_nat k) fs))"
  using assms(3)
proof (induction bks)
  case Nil then show ?case by simp
next
  case (Cons bk bks)
  have bk: "bk < unat (inode_block_num fs)" using Cons.prems by simp
  have v: "blk_valid fs (of_nat bk)" using ino_blk_valid [OF assms(1) nat_ino(3) [OF assms(1)], of "bk * 51"]
      nat_ino(1) [OF assms(1), of "bk * 51"] bk by simp
  have at: "ino fs (of_nat (bk * 51 + i)) = inode_at (blk_data fs (of_nat bk)) i" if "i < 51" for i
    using nat_ino [OF assms(1), of "bk * 51 + i"] bk that by (simp add: ino_def del: of_nat_add of_nat_mult)
  have f: "find (\<lambda>k. in_type (ino fs (of_nat k)) = it_EMPTY) (map (\<lambda>i. bk * 51 + i) [0..<51]) =
      map_option (\<lambda>i. bk * 51 + i) (find_empty (blk_data fs (of_nat bk)) [0..<51])"
    unfolding find_mapped find_empty_eq
    by (intro arg_cong [where f = "map_option _"] find_cong_set) (simp add: at del: of_nat_add of_nat_mult)
  show ?case
  proof (cases "find_empty (blk_data fs (of_nat bk)) [0..<51]")
    case None
    then show ?thesis
      using Cons f v assms(1)
      by (simp add: read_items_eq geom_51 find_app del: upt_conv_Cons upt_rec_numeral)
  next
    case (Some i)
    then have i: "i < 51" using find_SomeD [of _ "[0..<51]" i] by (simp add: find_empty_eq del: upt_conv_Cons upt_rec_numeral)
    let ?k = "of_nat (bk * 51 + i) :: u32"
    have k: "?k div 51 = of_nat bk" "unat (?k mod 51) = i" "ino_valid fs ?k"
      using nat_ino [OF assms(1), of "bk * 51 + i"] bk i by (simp_all del: of_nat_add of_nat_mult)
    have kk: "of_nat bk * 51 + of_nat i = ?k" by simp
    show ?thesis
    proof (cases "first_free fs")
      case None
      then show ?thesis
        using Some f v assms(1,2) k i
        by (simp add: read_items_eq geom_51 find_app block_alloc_eq alloc_ino_def alloc_blk_def
            set_ino_def write_items_eq kk Let_def del: upt_conv_Cons upt_rec_numeral of_nat_add of_nat_mult)
    next
      case (Some b)
      note b = first_free_data [OF assms(1) Some]
      have ne: "of_nat b \<noteq> (of_nat bk :: u32)" using data_blk_not_ino [of fs "of_nat b" ?k] b k by simp
      show ?thesis
        using \<open>find_empty _ _ = Some i\<close> Some f v assms(1,2) k i b ne
        by (simp add: read_items_eq geom_51 find_app block_alloc_eq alloc_ino_def alloc_blk_def
            set_ino_def write_items_eq kk Let_def dir_block_init_eq
            del: upt_conv_Cons upt_rec_numeral of_nat_add of_nat_mult)
    qed
  qed
qed

lemma concat_upt: "concat (map (\<lambda>bk. map (\<lambda>i. bk * 51 + i) [0..<51]) [0..<n]) = [0..<51 * n]"
proof (induction n)
  case (Suc n)
  have "map (\<lambda>i. n * 51 + i) [0..<51] = [51 * n..<51 * Suc n]"
    using map_add_upt [of "51 * n" 51] by (simp add: algebra_simps del: upt_conv_Cons upt_rec_numeral)
  then show ?case
    using Suc upt_add_eq_append [of 0 "51 * n" 51]
    by (simp add: algebra_simps del: upt_conv_Cons upt_rec_numeral)
qed simp

lemma inode_alloc_eq:
  assumes "geom fs" "hdrs_ok fs"
  shows "inode_alloc ty fs = Some (case first_ino fs of
      None \<Rightarrow> (-1, fs) | Some k \<Rightarrow> (of_nat k, alloc_ino ty (of_nat k) fs))"
  unfolding inode_alloc_def first_ino_def
  using inode_alloc_loop_eq [OF assms, of "[0..<unat (inode_block_num fs)]" ty]
  by (simp add: concat_upt del: upt_conv_Cons upt_rec_numeral)

end
