(* ===== verification/BlkDir.thy ===== *)
theory BlkDir
  imports BlkStore
begin

text \<open>
  Directories of the block file system: a directory block stands for a finite map from names to
  inode numbers (\<open>dmap\<close>), and creating, deleting and looking up entries are update, removal
  and application of that map. Also the contents of files, the walk along a path, and the bracket
  of every operation by the file system's lock.
\<close>


section \<open>Directory blocks as maps\<close>

definition used :: "u8 list \<Rightarrow> nat \<Rightarrow> bool" where
  "used items j \<longleftrightarrow> dirent_type items j \<noteq> t_FREE"

definition terminated :: "u8 list \<Rightarrow> nat \<Rightarrow> bool" where
  "terminated items j \<longleftrightarrow> 0 \<in> set (bytes_at (24 * j + 4) 16 items)"

definition dir_slot :: "u8 list \<Rightarrow> string \<Rightarrow> nat option" where
  "dir_slot items name = find (\<lambda>j. used items j \<and> dirent_name items j = name) [0..<42]"

text \<open>The map from names to inode numbers that a directory block stands for.\<close>

definition dmap :: "u8 list \<Rightarrow> string \<rightharpoonup> u32" where
  "dmap items name = map_option (dirent_inode items) (dir_slot items name)"

text \<open>Names end within their 16 bytes, and no name occurs twice.\<close>

definition dir_ok :: "u8 list \<Rightarrow> bool" where
  "dir_ok items \<longleftrightarrow> length items = 1024 \<and>
     (\<forall>j<42. used items j \<longrightarrow> terminated items j) \<and>
     (\<forall>i<42. \<forall>j<42. used items i \<and> used items j \<and> dirent_name items i = dirent_name items j \<longrightarrow> i = j)"

definition c_string :: "string \<Rightarrow> bool" where
  "c_string s \<longleftrightarrow> CHR 0x00 \<notin> set s"

lemma direntry_find_name_eq: "geom fs \<Longrightarrow> direntry_find_name items name fs = dir_slot items name"
proof -
  have "find_name_loop items name is = find (\<lambda>j. used items j \<and> dirent_name items j = name) is" for "is"
    by (induction "is") (auto simp: used_def)
  then show "geom fs \<Longrightarrow> ?thesis" by (simp add: direntry_find_name_def dir_slot_def geom_def)
qed

definition free_slot :: "u8 list \<Rightarrow> nat option" where
  "free_slot items = find (\<lambda>j. \<not> used items j) [0..<42]"

lemma direntry_find_free_eq: "geom fs \<Longrightarrow> direntry_find_free items fs = free_slot items"
proof -
  have "find_free_loop items is = find (\<lambda>j. \<not> used items j) is" for "is"
    by (induction "is") (auto simp: used_def)
  then show "geom fs \<Longrightarrow> ?thesis" by (simp add: direntry_find_free_def free_slot_def geom_def)
qed

lemma dir_slot_SomeD: "dir_slot items name = Some j \<Longrightarrow> j < 42 \<and> used items j \<and> dirent_name items j = name"
  unfolding dir_slot_def by (drule find_SomeD) simp

lemma free_slot_SomeD: "free_slot items = Some j \<Longrightarrow> j < 42 \<and> \<not> used items j"
  unfolding free_slot_def by (drule find_SomeD) simp

lemma dirent_name_split:
  assumes "length items = 1024" "j < 42"
  shows "drop (24 * j + 4) items = bytes_at (24 * j + 4) 16 items @ drop (24 * j + 20) items"
  using append_take_drop_id [of 16 "drop (24 * j + 4) items"]
  by (simp add: bytes_at_def drop_drop add.commute)

lemma dirent_name_cong:
  assumes "length items = 1024" "length items' = 1024" "j < 42" "terminated items j"
    and "bytes_at (24 * j + 4) 16 items' = bytes_at (24 * j + 4) 16 items"
  shows "dirent_name items' j = dirent_name items j"
proof -
  have "takeWhile (\<lambda>b. b \<noteq> 0) (drop (24 * j + 4) items') = takeWhile (\<lambda>b. b \<noteq> 0) (drop (24 * j + 4) items)"
    unfolding dirent_name_split [OF assms(1,3)] dirent_name_split [OF assms(2,3)] assms(5)
    using assms(4) takeWhile_append1 [of 0 "bytes_at (24 * j + 4) 16 items" "\<lambda>b. b \<noteq> 0"]
    by (simp add: terminated_def)
  then show ?thesis by (simp add: dirent_name_def)
qed

text \<open>Writing at entry \<open>i\<close> keeps every byte of the other entries.\<close>

lemma put_type_bytes:
  "i < 42 \<Longrightarrow> j < 42 \<Longrightarrow> length items = 1024 \<Longrightarrow> i \<noteq> j \<or> 4 \<le> off \<Longrightarrow> off + n \<le> 24 \<Longrightarrow>
   bytes_at (24 * j + off) n (put_dirent_type i t items) = bytes_at (24 * j + off) n items"
  unfolding put_dirent_type_def
  by (rule bytes_at_put_disjoint) (use nat_neq_iff [of i j] in auto)

lemma length_put_dirent [simp]:
  "i < 42 \<Longrightarrow> length items = 1024 \<Longrightarrow> length name < 16 \<Longrightarrow> length (put_dirent i name k items) = 1024"
  by (simp add: put_dirent_def put_dirent_type_def)

lemma put_dirent_other:
  assumes "i < 42" "j < 42" "i \<noteq> j" "length items = 1024" "length name < 16" "off + n \<le> 24"
  shows "bytes_at (24 * j + off) n (put_dirent i name k items) = bytes_at (24 * j + off) n items"
proof -
  have e: "24 * i + 20 + 4 \<le> 24 * j + off \<or> 24 * j + off + n \<le> 24 * i" using assms by auto
  have "bytes_at (24 * j + off) n (put_dirent i name k items) =
      bytes_at (24 * j + off) n (put_dirent_type i t_USING (put_at (24 * i + 4) (map byte_of name @ [0]) items))"
    unfolding put_dirent_def by (rule bytes_at_put_disjoint) (use assms e in \<open>auto simp: put_dirent_type_def\<close>)
  also have "\<dots> = bytes_at (24 * j + off) n (put_at (24 * i + 4) (map byte_of name @ [0]) items)"
    by (rule put_type_bytes) (use assms in auto)
  also have "\<dots> = bytes_at (24 * j + off) n items"
    by (rule bytes_at_put_disjoint) (use assms e in auto)
  finally show ?thesis .
qed

lemma put_dirent_same:
  assumes "i < 42" "length items = 1024" "length name < 16" "c_string name"
  shows "dirent_type (put_dirent i name k items) i = t_USING"
    "dirent_name (put_dirent i name k items) i = name"
    "dirent_inode (put_dirent i name k items) i = k" "terminated (put_dirent i name k items) i"
proof -
  let ?s = "map byte_of name @ [0 :: u8]"
  let ?p1 = "put_at (24 * i + 4) ?s items"
  let ?p2 = "put_dirent_type i t_USING ?p1"
  let ?p3 = "put_dirent i name k items"
  have l: "length ?p1 = 1024" "length ?p2 = 1024" using assms by (auto simp: put_dirent_type_def)
  have p3: "?p3 = put_at (24 * i + 20) (le32 k) ?p2" by (simp add: put_dirent_def)
  have "bytes_at (24 * i) 4 ?p3 = bytes_at (24 * i) 4 ?p2"
    unfolding p3 by (rule bytes_at_put_disjoint) (use l assms in auto)
  then show "dirent_type ?p3 i = t_USING"
    using dirent_type_put_type [OF assms(1) assms(1) l(1), of t_USING] by (simp add: dirent_type_def)
  show "dirent_inode ?p3 i = k"
    using bytes_at_put_same [of "24 * i + 20" "le32 k" ?p2] l assms(1) by (simp add: dirent_inode_def p3)
  have "bytes_at (24 * i + 4) (length ?s) ?p3 = bytes_at (24 * i + 4) (length ?s) ?p2"
    unfolding p3 by (rule bytes_at_put_disjoint) (use l assms in auto)
  also have "\<dots> = bytes_at (24 * i + 4) (length ?s) ?p1"
    by (rule put_type_bytes) (use l assms in auto)
  also have "\<dots> = ?s" by (rule bytes_at_put_same) (use assms in auto)
  finally have s: "bytes_at (24 * i + 4) (length ?s) ?p3 = ?s" .
  have d: "drop (24 * i + 4) ?p3 = ?s @ drop (24 * i + 4 + length ?s) ?p3"
    using append_take_drop_id [of "length ?s" "drop (24 * i + 4) ?p3"] s
    by (simp add: bytes_at_def add.commute drop_drop del: append_take_drop_id)
  have nz: "byte_of c \<noteq> 0" if "c \<in> set name" for c
    using that assms(4) by (auto simp: c_string_def)
  have "x \<noteq> 0" if "x \<in> set (map byte_of name)" for x
    using that nz by (auto simp del: byte_of_eq_0)
  then have "takeWhile (\<lambda>b. b \<noteq> 0) (?s @ xs) = map byte_of name" for xs
    using takeWhile_append2 [of "map byte_of name" "\<lambda>b. b \<noteq> 0" "[0] @ xs"]
    by (simp only: append_assoc) simp
  then show "dirent_name ?p3 i = name"
    unfolding dirent_name_def d by (simp add: o_def)
  have "bytes_at (24 * i + 4) 16 ?p3 = take 16 (?s @ drop (24 * i + 4 + length ?s) ?p3)"
    by (simp only: bytes_at_def d)
  then show "terminated ?p3 i" using assms(3) by (simp add: terminated_def take_Cons')
qed

lemma put_dirent_diff:
  assumes "i < 42" "j < 42" "i \<noteq> j" "length items = 1024" "length name < 16"
  shows "used (put_dirent i name k items) j = used items j"
    "terminated (put_dirent i name k items) j = terminated items j"
    "dirent_inode (put_dirent i name k items) j = dirent_inode items j"
    "terminated items j \<Longrightarrow> dirent_name (put_dirent i name k items) j = dirent_name items j"
proof -
  note o = put_dirent_other [OF assms]
  show "used (put_dirent i name k items) j = used items j"
    using o [of 0 4] by (simp add: used_def dirent_type_def)
  show "terminated (put_dirent i name k items) j = terminated items j"
    using o [of 4 16] by (simp add: terminated_def)
  show "dirent_inode (put_dirent i name k items) j = dirent_inode items j"
    using o [of 20 4] by (simp add: dirent_inode_def)
  show "terminated items j \<Longrightarrow> dirent_name (put_dirent i name k items) j = dirent_name items j"
    using o [of 4 16] assms by (intro dirent_name_cong) auto
qed

lemma find_single: "i \<in> set xs \<Longrightarrow> (\<And>j. j \<in> set xs \<Longrightarrow> P j \<longleftrightarrow> j = i) \<Longrightarrow> find P xs = Some i"
  by (induction xs) auto

lemma dir_insert:
  assumes ok: "dir_ok items" and i: "i < 42" "\<not> used items i"
    and n: "length name < 16" "c_string name" "dmap items name = None"
  shows "dir_ok (put_dirent i name k items)"
    and "dmap (put_dirent i name k items) = (dmap items)(name \<mapsto> k)"
proof -
  let ?p = "put_dirent i name k items"
  have l: "length items = 1024" and t: "\<And>j. j < 42 \<Longrightarrow> used items j \<Longrightarrow> terminated items j"
    using ok by (auto simp: dir_ok_def)
  note same = put_dirent_same [OF i(1) l n(1,2), of k]
  note diff = put_dirent_diff [OF i(1) _ _ l n(1), of _ k]
  have absent: "dirent_name items j \<noteq> name" if "j < 42" "used items j" for j
    using n(3) that by (auto simp: dmap_def dir_slot_def find_None_iff)
  have u: "used ?p i" using same by (simp add: used_def t_USING_def t_FREE_def)
  have nm: "dirent_name ?p j = dirent_name items j" if "j < 42" "j \<noteq> i" "used items j" for j
    using diff(4) [of j] that t by auto
  show "dir_ok ?p"
  proof -
    have "terminated ?p j" if "j < 42" "used ?p j" for j
      using that same diff(1,2) [of j] t by (cases "j = i") auto
    moreover have "a = b" if "a < 42" "b < 42" "used ?p a" "used ?p b" "dirent_name ?p a = dirent_name ?p b" for a b
      using that same diff(1) [of a] diff(1) [of b] nm absent ok
      by (cases "a = i"; cases "b = i") (auto simp: dir_ok_def)
    ultimately show ?thesis using l n(1) i(1) by (simp add: dir_ok_def)
  qed
  show "dmap ?p = (dmap items)(name \<mapsto> k)"
  proof
    fix x
    show "dmap ?p x = ((dmap items)(name \<mapsto> k)) x"
    proof (cases "x = name")
      case True
      have "dir_slot ?p name = Some i"
        unfolding dir_slot_def
      proof (rule find_single)
        fix j assume "j \<in> set [0..<42]"
        then show "(used ?p j \<and> dirent_name ?p j = name) = (j = i)"
          using u same(2) diff(1) [of j] nm [of j] absent [of j] by (cases "j = i") auto
      qed (use i in simp)
      then show ?thesis using True same(3) by (simp add: dmap_def)
    next
      case False
      have "dir_slot ?p x = dir_slot items x"
        unfolding dir_slot_def
      proof (rule find_cong_set)
        fix j assume "j \<in> set [0..<42]"
        then show "(used ?p j \<and> dirent_name ?p j = x) = (used items j \<and> dirent_name items j = x)"
          using False same(2) i(2) diff(1) [of j] nm [of j] by (cases "j = i") auto
      qed
      moreover have "dirent_inode ?p j = dirent_inode items j" if "dir_slot items x = Some j" for j
        using dir_slot_SomeD [OF that] i(2) diff(3) [of j] by (cases "j = i") auto
      ultimately show ?thesis using False by (cases "dir_slot items x") (auto simp: dmap_def)
    qed
  qed
qed

lemma dir_delete:
  assumes ok: "dir_ok items" and i: "dir_slot items name = Some i"
  shows "dir_ok (put_dirent_type i t_FREE items)"
    and "dmap (put_dirent_type i t_FREE items) = (dmap items)(name := None)"
proof -
  let ?p = "put_dirent_type i t_FREE items"
  have l: "length items = 1024" and t: "\<And>j. j < 42 \<Longrightarrow> used items j \<Longrightarrow> terminated items j"
    and d: "\<And>a b. a < 42 \<Longrightarrow> b < 42 \<Longrightarrow> used items a \<Longrightarrow> used items b \<Longrightarrow>
      dirent_name items a = dirent_name items b \<Longrightarrow> a = b"
    using ok by (auto simp: dir_ok_def)
  note s = dir_slot_SomeD [OF i]
  have u: "used ?p j = (j \<noteq> i \<and> used items j)" if "j < 42" for j
    using dirent_type_put_type [of i j items t_FREE] s l that by (auto simp: used_def)
  have tm: "terminated ?p j = terminated items j" "dirent_inode ?p j = dirent_inode items j" if "j < 42" for j
    using put_type_bytes [of i j items 4 16] put_type_bytes [of i j items 20 4] s l that
    by (auto simp: terminated_def dirent_inode_def)
  have nm: "dirent_name ?p j = dirent_name items j" if "j < 42" "used items j" for j
    using put_type_bytes [of i j items 4 16] s l that t by (intro dirent_name_cong) auto
  show "dir_ok ?p"
    unfolding dir_ok_def using u tm nm t d s l by auto
  show "dmap ?p = (dmap items)(name := None)"
  proof
    fix x
    show "dmap ?p x = ((dmap items)(name := None)) x"
    proof (cases "x = name")
      case True
      have "dir_slot ?p name = None"
        unfolding dir_slot_def find_None_iff using u nm d s by auto
      then show ?thesis using True by (simp add: dmap_def)
    next
      case False
      have "dir_slot ?p x = dir_slot items x"
        unfolding dir_slot_def by (rule find_cong_set) (use False u nm s in auto)
      then show ?thesis
        using False tm(2) dir_slot_SomeD [of items x] by (cases "dir_slot items x") (auto simp: dmap_def)
    qed
  qed
qed

lemma dmap_clear [simp]: "length items = 1024 \<Longrightarrow> dmap (clear_dir items) = Map.empty"
  by (rule ext) (auto simp: dmap_def dir_slot_def find_None_iff used_def)

lemma dir_ok_clear [simp]: "length items = 1024 \<Longrightarrow> dir_ok (clear_dir items)"
  by (auto simp: dir_ok_def used_def)


section \<open>Creating and deleting entries\<close>

definition fs_ok :: "'a blkfs_scheme \<Rightarrow> bool" where
  "fs_ok fs \<longleftrightarrow> geom fs \<and> hdrs_ok fs"

lemma fs_ok_upd [simp]:
  "fs_ok fs \<Longrightarrow> blk_valid fs b \<Longrightarrow> length xs = 1024 \<Longrightarrow> fs_ok (set_data b xs fs)"
  "fs_ok fs \<Longrightarrow> ino_valid fs k \<Longrightarrow> fs_ok (set_ino k n fs)"
  "fs_ok fs \<Longrightarrow> blk_valid fs b \<Longrightarrow> fs_ok (mark t b fs)"
  by (auto simp: fs_ok_def hdrs_ok_def mark_def)

lemma first_ino_SomeD:
  "geom fs \<Longrightarrow> first_ino fs = Some k \<Longrightarrow> ino_valid fs (of_nat k) \<and> in_type (ino fs (of_nat k)) = it_EMPTY"
  unfolding first_ino_def using nat_ino(3) by (fastforce dest: find_SomeD)

lemma alloc_ino_eq:
  assumes "first_free fs = Some i" "geom fs"
  shows "alloc_ino ty k fs = set_ino k \<lparr>in_type = ty, in_id = k, in_block_id = of_nat i, in_refcnt = 0, in_size = 0\<rparr>
     (if ty = it_DIR then set_data (of_nat i) (clear_dir (blk_data fs (of_nat i))) (mark t_USING (of_nat i) fs)
      else mark t_USING (of_nat i) fs)"
  using first_free_data [OF assms(2,1)] assms by (simp add: alloc_ino_def alloc_blk_def)

text \<open>The directory entry that a directory's block holds for a name.\<close>

definition entry :: "'a blkfs_scheme \<Rightarrow> blkfs_inode \<Rightarrow> string \<rightharpoonup> u32" where
  "entry fs dir = dmap (blk_data fs (in_block_id dir))"

text \<open>An inode that is a directory with a well-formed block in use.\<close>

definition is_dir :: "'a blkfs_scheme \<Rightarrow> blkfs_inode \<Rightarrow> bool" where
  "is_dir fs dir \<longleftrightarrow> in_type dir = it_DIR \<and> data_blk fs (in_block_id dir) \<and>
     \<not> blk_free fs (in_block_id dir) \<and> dir_ok (blk_data fs (in_block_id dir))"

definition dir_full :: "'a blkfs_scheme \<Rightarrow> blkfs_inode \<Rightarrow> bool" where
  "dir_full fs dir \<longleftrightarrow> free_slot (blk_data fs (in_block_id dir)) = None"

lemma get_filedir_eq:
  assumes "fs_ok fs" "is_dir fs dir" "length name < 15"
  shows "get_filedir dir name fs = Some (case entry fs dir name of None \<Rightarrow> -1 | Some k \<Rightarrow> k)"
  using assms
  by (auto simp: get_filedir_def fs_ok_def is_dir_def INODE_NAME_LEN_def read_items_eq
      direntry_find_name_eq entry_def dmap_def split: option.splits)

lemma create_filedir_exists:
  assumes "fs_ok fs" "is_dir fs dir" "length name < 15" "entry fs dir name \<noteq> None \<or> dir_full fs dir"
  shows "create_filedir dir ty l name fs = Some (-1, fs)"
  using assms
  by (auto simp: create_filedir_def fs_ok_def is_dir_def INODE_NAME_LEN_def read_items_eq
      direntry_find_name_eq direntry_find_free_eq entry_def dmap_def dir_full_def split: option.splits)

lemma create_filedir_new:
  assumes ok: "fs_ok fs" and dir: "is_dir fs dir"
    and n: "length name < 15" "c_string name" "entry fs dir name = None" "\<not> dir_full fs dir"
    and ty: "ty \<noteq> it_LINK" "ty \<noteq> it_EMPTY" and k: "first_ino fs = Some k" and i: "first_free fs = Some i"
  shows "\<exists>fs'. create_filedir dir ty l name fs = Some (of_nat k, fs') \<and> fs_ok fs' \<and> is_dir fs' dir \<and>
     entry fs' dir = (entry fs dir)(name \<mapsto> of_nat k) \<and>
     ino fs' (of_nat k) = \<lparr>in_type = ty, in_id = of_nat k, in_block_id = of_nat i, in_refcnt = 1, in_size = 0\<rparr> \<and>
     (\<forall>m. ino_valid fs m \<and> m \<noteq> of_nat k \<longrightarrow> ino fs' m = ino fs m) \<and>
     (\<forall>c. data_blk fs c \<and> c \<noteq> in_block_id dir \<and> c \<noteq> of_nat i \<longrightarrow> blk_data fs' c = blk_data fs c) \<and>
     (\<forall>c. blk_valid fs c \<longrightarrow> blk_hdr fs' c =
        (if c = of_nat i then (blk_hdr fs c)\<lparr>bk_type := t_USING\<rparr> else blk_hdr fs c)) \<and>
     (ty = it_DIR \<longrightarrow> is_dir fs' (ino fs' (of_nat k)) \<and> entry fs' (ino fs' (of_nat k)) = Map.empty)"
proof -
  let ?b = "in_block_id dir" and ?k = "of_nat k :: u32" and ?i = "of_nat i :: u32"
  let ?items = "blk_data fs ?b"
  have g: "geom fs" "hdrs_ok fs" using ok by (auto simp: fs_ok_def)
  note kk = first_ino_SomeD [OF g(1) k] and ii = first_free_data [OF g(1) i]
  have b: "data_blk fs ?b" "dir_ok ?items" "in_type dir = it_DIR" "\<not> blk_free fs ?b" using dir by (auto simp: is_dir_def)
  have bi: "?b \<noteq> ?i" using b ii by auto
  obtain ind where ind: "free_slot ?items = Some ind" using n(4) by (auto simp: dir_full_def)
  note inD = free_slot_SomeD [OF ind]
  have sl: "dir_slot ?items name = None" using n(3) by (simp add: entry_def dmap_def)
  let ?node = "\<lambda>r. \<lparr>in_type = ty, in_id = ?k, in_block_id = ?i, in_refcnt = r, in_size = 0\<rparr>"
  define fs1 where "fs1 = (if ty = it_DIR
      then set_data ?i (clear_dir (blk_data fs ?i)) (mark t_USING ?i fs) else mark t_USING ?i fs)"
  have fs1: "geom fs1" "fs_ok fs1" "ino_valid fs1 = ino_valid fs" "data_blk fs1 = data_blk fs"
    "blk_valid fs1 = blk_valid fs"
    using g ok ii by (auto simp: fs1_def fun_eq_iff)
  have ino1: "ino fs1 m = ino fs m" if "ino_valid fs m" for m
    using that g ii by (simp add: fs1_def)
  have data1: "blk_data fs1 c = (if c = ?i \<and> ty = it_DIR then clear_dir (blk_data fs ?i) else blk_data fs c)"
    if "data_blk fs c" for c
    using that g ii by (auto simp: fs1_def)
  have hdr1: "blk_hdr fs1 c = (if c = ?i then (blk_hdr fs c)\<lparr>bk_type := t_USING\<rparr> else blk_hdr fs c)"
    if "blk_valid fs c" for c
    using that g ii by (auto simp: fs1_def mark_def)
  have al: "alloc_ino ty ?k fs = set_ino ?k (?node 0) fs1"
    unfolding fs1_def by (rule alloc_ino_eq [OF i g(1)])
  define fs2 where "fs2 = set_ino ?k (?node 1) (set_ino ?k (?node 0) fs1)"
  have fs2: "geom fs2" "fs_ok fs2" "ino_valid fs2 = ino_valid fs" "data_blk fs2 = data_blk fs"
    "blk_valid fs2 = blk_valid fs"
    using fs1 kk by (auto simp: fs2_def fun_eq_iff)
  have ino2: "ino fs2 m = (if m = ?k then ?node 1 else ino fs m)" if "ino_valid fs m" for m
    using that fs1 kk ino1 by (auto simp: fs2_def)
  have data2: "blk_data fs2 c = blk_data fs1 c" if "data_blk fs c" for c
    using that fs1 kk by (simp add: fs2_def)
  have hdr2: "blk_hdr fs2 c = blk_hdr fs1 c" if "blk_valid fs c" for c
    using that fs1 kk by (simp add: fs2_def)
  let ?new = "put_dirent ind name ?k ?items"
  let ?fs' = "set_data ?b ?new fs2"
  have len: "length ?new = 1024" using inD n(1) by simp
  have run: "create_filedir dir ty l name fs = Some (?k, ?fs')"
    using b n(1) g ind sl k kk ty fs1 fs2(1,5) len
    by (simp add: create_filedir_def INODE_NAME_LEN_def read_items_eq direntry_find_name_eq
        direntry_find_free_eq inode_alloc_eq al inode_get_eq inode_set_eq
        write_items_eq fs2_def [symmetric] Let_def)
  have bd: "blk_data ?fs' ?b = ?new" using fs2 b len by simp
  have "fs_ok ?fs'" using fs2 b len by simp
  moreover have hd: "blk_hdr ?fs' c = (if c = ?i then (blk_hdr fs c)\<lparr>bk_type := t_USING\<rparr> else blk_hdr fs c)"
    if "blk_valid fs c" for c
    using that fs2 b len hdr1 hdr2 by simp
  moreover have dirs: "dir_ok (blk_data ?fs' ?b)" "dmap (blk_data ?fs' ?b) = (dmap ?items)(name \<mapsto> ?k)"
    using dir_insert [OF b(2) conjunct1 [OF inD] conjunct2 [OF inD] _ n(2), of ?k] n(1,3) bd by (auto simp: entry_def)
  moreover have "is_dir ?fs' dir"
    using dirs(1) b fs2 hd [of ?b] bi by (auto simp: is_dir_def blk_free_def)
  moreover have ik: "ino ?fs' ?k = ?node 1" using fs2 b kk len ino2 by simp
  moreover have "ino ?fs' m = ino fs m" if "ino_valid fs m" "m \<noteq> ?k" for m
    using that fs2 b len ino2 by simp
  moreover have "blk_data ?fs' c = blk_data fs c" if "data_blk fs c" "c \<noteq> ?b" "c \<noteq> ?i" for c
    using that fs2 b len data1 data2 by simp
  moreover have "blk_data ?fs' ?i = clear_dir (blk_data fs ?i)" if "ty = it_DIR"
    using that fs2 b len bi ii data1 data2 by simp
  moreover have "\<not> blk_free ?fs' ?i" using hd [of ?i] ii by (auto simp: blk_free_def t_USING_def t_FREE_def)
  moreover have "data_blk ?fs' ?i" "entry ?fs' dir = (entry fs dir)(name \<mapsto> ?k)"
    using ii fs2 dirs(2) by (simp_all add: entry_def)
  moreover have "is_dir ?fs' (?node 1) \<and> entry ?fs' (?node 1) = Map.empty" if "ty = it_DIR"
    using that calculation by (simp add: is_dir_def entry_def)
  ultimately show ?thesis
    using run by (intro exI [of _ ?fs']) (simp del: set_data_sel data_blk_sel)
qed

lemma inode_bfree_eq:
  assumes "fs_ok fs" "ino_valid fs k" "in_type (ino fs k) \<noteq> it_EMPTY"
    and "data_blk fs (in_block_id (ino fs k))" "\<not> blk_free fs (in_block_id (ino fs k))"
    and "bk_type (blk_hdr fs (in_block_id (ino fs k))) = t_USING" "in_block_id (ino fs k) \<noteq> -1"
  shows "inode_bfree k fs =
     Some (set_data (k div 51) (put_inode_type (unat (k mod 51)) it_EMPTY (blk_data fs (k div 51)))
       (mark t_FREE (in_block_id (ino fs k)) fs))"
proof -
  have g: "geom fs" "hdrs_ok fs" using assms(1) by (auto simp: fs_ok_def)
  have b: "in_block_id (inode_at (put_inode_type (unat (k mod 51)) it_EMPTY (blk_data fs (k div 51))) (unat (k mod 51))) =
      in_block_id (ino fs k)"
    by (simp add: inode_at_put_type tid_less ino_def)
  show ?thesis
    using assms g b
    by (simp add: inode_bfree_def geom_51 read_items_eq ino_blk_valid inode_type_at_eq
        ino_def [symmetric] block_free_eq write_items_eq tid_less Let_def)
qed


definition kill_ino :: "u32 \<Rightarrow> 'a blkfs_scheme \<Rightarrow> 'a blkfs_scheme" where
  "kill_ino k fs = set_data (k div 51)
     (put_inode_type (unat (k mod 51)) it_EMPTY (blk_data fs (k div 51))) fs"

lemma kill_ino_sel [simp]:
  "geom (kill_ino k fs) = geom fs" "blk_valid (kill_ino k fs) = blk_valid fs"
  "ino_valid (kill_ino k fs) = ino_valid fs" "data_blk (kill_ino k fs) = data_blk fs"
  by (simp_all add: kill_ino_def fun_eq_iff)

lemma kill_ino_read [simp]:
  assumes "geom fs" "ino_valid fs k"
  shows "ino_valid fs l \<Longrightarrow> ino (kill_ino k fs) l =
      (if k = l then (ino fs l)\<lparr>in_type := it_EMPTY\<rparr> else ino fs l)"
    and "data_blk fs b \<Longrightarrow> blk_data (kill_ino k fs) b = blk_data fs b"
    and "blk_valid fs b \<Longrightarrow> blk_hdr (kill_ino k fs) b = blk_hdr fs b"
  using assms data_blk_not_ino [of fs b k]
  by (auto simp: kill_ino_def ino_def ino_blk_valid inode_at_put_type tid_less ino_eq_iff [of k l])

lemma fs_ok_kill [simp]: "fs_ok fs \<Longrightarrow> ino_valid fs k \<Longrightarrow> fs_ok (kill_ino k fs)"
  by (simp add: fs_ok_def hdrs_ok_def)

text \<open>An inode whose block is in use.\<close>

definition has_block :: "'a blkfs_scheme \<Rightarrow> blkfs_inode \<Rightarrow> bool" where
  "has_block fs n \<longleftrightarrow> data_blk fs (in_block_id n) \<and> in_block_id n \<noteq> -1 \<and>
     bk_type (blk_hdr fs (in_block_id n)) = t_USING"

lemma inode_bfree_kill:
  assumes "fs_ok fs" "ino_valid fs k" "in_type (ino fs k) \<noteq> it_EMPTY" "has_block fs (ino fs k)"
  shows "inode_bfree k fs = Some (kill_ino k (mark t_FREE (in_block_id (ino fs k)) fs))"
proof -
  have g: "geom fs" using assms(1) by (simp add: fs_ok_def)
  have "inode_bfree k fs =
     Some (set_data (k div 51) (put_inode_type (unat (k mod 51)) it_EMPTY (blk_data fs (k div 51)))
       (mark t_FREE (in_block_id (ino fs k)) fs))"
    by (rule inode_bfree_eq) (use assms in \<open>auto simp: has_block_def blk_free_def t_USING_def t_FREE_def\<close>)
  moreover have "blk_data (mark t_FREE (in_block_id (ino fs k)) fs) (k div 51) = blk_data fs (k div 51)"
    using assms(2,4) g by (simp add: has_block_def ino_blk_valid)
  ultimately show ?thesis by (simp add: kill_ino_def)
qed

lemma delete_filedir_absent:
  assumes "fs_ok fs" "is_dir fs dir" "entry fs dir name = None"
  shows "delete_filedir dir name fs = Some fs"
  using assms
  by (simp add: delete_filedir_def fs_ok_def is_dir_def read_items_eq direntry_find_name_eq
      entry_def dmap_def)

lemma delete_filedir_entry:
  assumes ok: "fs_ok fs" and dir: "is_dir fs dir" and e: "entry fs dir name = Some k"
    and k: "ino_valid fs k" "in_type (ino fs k) \<noteq> it_EMPTY" "in_id (ino fs k) = k"
    and blk: "has_block fs (ino fs k)" "in_block_id (ino fs k) \<noteq> in_block_id dir"
  shows "\<exists>fs'. delete_filedir dir name fs = Some fs' \<and> fs_ok fs' \<and> is_dir fs' dir \<and>
     entry fs' dir = (entry fs dir)(name := None) \<and>
     (if in_refcnt (ino fs k) = 1
      then in_type (ino fs' k) = it_EMPTY \<and> blk_free fs' (in_block_id (ino fs k))
      else ino fs' k = (ino fs k)\<lparr>in_refcnt := in_refcnt (ino fs k) - 1\<rparr> \<and>
        blk_hdr fs' (in_block_id (ino fs k)) = blk_hdr fs (in_block_id (ino fs k))) \<and>
     (\<forall>m. ino_valid fs m \<and> m \<noteq> k \<longrightarrow> ino fs' m = ino fs m) \<and>
     (\<forall>c. data_blk fs c \<and> c \<noteq> in_block_id dir \<longrightarrow> blk_data fs' c = blk_data fs c)"
proof -
  let ?b = "in_block_id dir" and ?n = "ino fs k"
  let ?items = "blk_data fs ?b"
  have g: "geom fs" "hdrs_ok fs" using ok by (auto simp: fs_ok_def)
  have b: "data_blk fs ?b" "dir_ok ?items" "in_type dir = it_DIR" "\<not> blk_free fs ?b"
    using dir by (auto simp: is_dir_def)
  obtain ind where ind: "dir_slot ?items name = Some ind" "dirent_inode ?items ind = k"
    using e by (auto simp: entry_def dmap_def)
  note inD = dir_slot_SomeD [OF ind(1)]
  note del = dir_delete [OF b(2) ind(1)]
  let ?items' = "put_dirent_type ind t_FREE ?items"
  have len: "length ?items' = 1024" using inD by simp
  have hb: "data_blk fs (in_block_id ?n)" using blk by (simp add: has_block_def)
  let ?fs1 = "if in_refcnt ?n = 1 then kill_ino k (mark t_FREE (in_block_id ?n) fs)
      else set_ino k (?n\<lparr>in_refcnt := in_refcnt ?n - 1\<rparr>) fs"
  let ?fs' = "set_data ?b ?items' ?fs1"
  have fs1: "geom ?fs1" "fs_ok ?fs1" "ino_valid ?fs1 = ino_valid fs" "data_blk ?fs1 = data_blk fs"
    "blk_valid ?fs1 = blk_valid fs"
    using g ok k hb by (auto simp: fun_eq_iff)
  have run: "delete_filedir dir name fs = Some ?fs'"
    using b g ind k hb len inode_bfree_kill [OF ok k(1,2) blk(1)]
    by (simp add: delete_filedir_def read_items_eq direntry_find_name_eq inode_get_eq inode_set_eq
        write_items_eq Let_def)
  have bd: "blk_data ?fs' ?b = ?items'" using fs1 b len by simp
  have "fs_ok ?fs'" using fs1 b len by simp
  moreover have hdr: "blk_hdr ?fs' ?b = blk_hdr fs ?b"
    using fs1 b len g k hb blk(2) by (auto simp: mark_def)
  then have "is_dir ?fs' dir" using b bd del(1) fs1 by (simp add: is_dir_def blk_free_def)
  moreover have "entry ?fs' dir = (entry fs dir)(name := None)" using bd del(2) by (simp add: entry_def)
  moreover have "if in_refcnt ?n = 1
      then in_type (ino ?fs' k) = it_EMPTY \<and> blk_free ?fs' (in_block_id ?n)
      else ino ?fs' k = ?n\<lparr>in_refcnt := in_refcnt ?n - 1\<rparr> \<and>
        blk_hdr ?fs' (in_block_id ?n) = blk_hdr fs (in_block_id ?n)"
    using fs1 b len g k hb by (simp add: blk_free_def mark_def)
  moreover have "ino ?fs' m = ino fs m" if "ino_valid fs m" "m \<noteq> k" for m
    using that fs1 b len g k hb by simp
  moreover have "blk_data ?fs' c = blk_data fs c" if "data_blk fs c" "c \<noteq> ?b" for c
    using that fs1 b len g k hb by simp
  ultimately show ?thesis using run by blast
qed

section \<open>Contents of files\<close>

lemma block_readdata_eq:
  "geom fs \<Longrightarrow> blk_valid fs b \<Longrightarrow> unat off + unat n \<le> 1024 \<Longrightarrow>
   block_readdata n b off fs = Some (bytes_at (unat off) (unat n) (blk_data fs b), n)"
proof -
  assume a: "geom fs" "blk_valid fs b" "unat off + unat n \<le> 1024"
  have s: "unat (off + n) = unat off + unat n" using a(3) unat_add_of_nat [of off "unat n"] by simp
  have s8: "unat (8 + off) = 8 + unat off" using a(3) unat_add_of_nat [of off 8] by (simp add: add.commute)
  have s3: "unat (8 + off + n) = 8 + unat off + unat n"
    using s8 a(3) unat_add_of_nat [of "8 + off" "unat n"] by simp
  have le: "off + n \<le> 1024" "8 + off + n \<le> 1032" using s s3 a(3) by (simp_all add: word_le_nat_alt)
  show ?thesis
  proof (cases "n = 0")
    case True
    then show ?thesis using a le
      by (simp add: block_readdata_def block_read_def geom_def blk_valid_def sizeof_block_def bytes_at_def)
  next
    case False
    have "bytes_at (unat off) (unat n) (blk_data fs b) =
        mem_read (rd_data (dev fs)) (b * 1032 + 8 + of_nat (unat off)) (unat n)"
      unfolding blk_data_def by (rule bytes_at_mem_read) (use a(3) in simp)
    then show ?thesis using a le False
      by (simp add: block_readdata_def block_read_def rd_read_def geom_def blk_valid_def sizeof_block_def
          Let_def add.assoc)
  qed
qed

lemma block_writedata_eq:
  assumes "geom fs" "blk_valid fs b" "unat off + unat n \<le> 1024" "unat n \<le> length buf"
  shows "block_writedata buf n b off fs =
    Some (n, set_data b (put_at (unat off) (take (unat n) buf) (blk_data fs b)) fs)"
proof -
  have s: "unat (off + n) = unat off + unat n" using assms(3) unat_add_of_nat [of off "unat n"] by simp
  have s8: "unat (off + 8) = unat off + 8" using assms(3) unat_add_of_nat [of off 8] by simp
  have s3: "unat (off + 8 + n) = 8 + unat off + unat n"
    using s8 assms(3) unat_add_of_nat [of "off + 8" "unat n"] by simp
  have le: "off + n \<le> 1024" "off + 8 + n \<le> 1032" using s s3 assms(3) by (simp_all add: word_le_nat_alt)
  have ln: "length (take (unat n) buf) = unat n" using assms(4) by simp
  let ?m = "rd_data (dev fs)"
  have "mem_write ?m (b * 1032 + 8) (put_at (unat off) (take (unat n) buf) (blk_data fs b)) =
      mem_write (mem_write ?m (b * 1032 + 8) (blk_data fs b)) (b * 1032 + 8 + of_nat (unat off)) (take (unat n) buf)"
    by (rule mem_read_put) (use assms(3) ln in auto)
  also have "mem_write ?m (b * 1032 + 8) (blk_data fs b) = ?m"
    unfolding blk_data_def by (rule mem_write_read_idem) simp
  finally have w: "mem_write ?m (b * 1032 + 8) (put_at (unat off) (take (unat n) buf) (blk_data fs b)) =
      mem_write ?m (b * 1032 + (off + 8)) (take (unat n) buf)"
    by (simp add: algebra_simps)
  show ?thesis
  proof (cases "n = 0")
    case True
    have "put_at (unat off) (take (unat n) buf) (blk_data fs b) = blk_data fs b"
      using True by (simp add: put_at_def)
    then have "set_data b (put_at (unat off) (take (unat n) buf) (blk_data fs b)) fs = fs"
      using mem_write_read_idem [of 1024 ?m "b * 1032 + 8"] by (simp add: set_data_def blk_data_def)
    then show ?thesis using True assms le
      by (simp add: block_writedata_def block_write_def geom_def blk_valid_def sizeof_block_def)
  next
    case False
    then show ?thesis using assms le ln w
      by (simp add: block_writedata_def block_write_def rd_write_def geom_def blk_valid_def
          sizeof_block_def set_data_def Let_def)
  qed
qed


definition write_count :: "bfile \<Rightarrow> u32 \<Rightarrow> nat" where
  "write_count f n = min (unat n) (1024 - f_offset f)"

lemma inode_write_eq:
  assumes ok: "fs_ok fs" and f: "f_flags f = FILE_WRITE" "vn_ptr (f_inode f) = Some node" "f_offset f \<le> 1024"
    and node: "data_blk fs (in_block_id node)" "in_block_id node \<noteq> -1" "ino_valid fs (in_id node)"
    and n: "unat n \<le> length buf"
  defines "c \<equiv> write_count f n"
  defines "fs1 \<equiv> set_data (in_block_id node)
      (put_at (f_offset f) (take c buf) (blk_data fs (in_block_id node))) fs"
  shows "inode_write f buf n fs = Some (of_nat c,
    (if unat (in_size node) < f_offset f + c
     then (f\<lparr>f_offset := f_offset f + c, f_inode := (f_inode f)\<lparr>vn_ptr := Some (node\<lparr>in_size := of_nat (f_offset f + c)\<rparr>)\<rparr>\<rparr>,
        set_ino (in_id node) (node\<lparr>in_size := of_nat (f_offset f + c)\<rparr>) fs1)
     else (f\<lparr>f_offset := f_offset f + c\<rparr>, fs1)))"
proof -
  have g: "geom fs" using ok by (simp add: fs_ok_def)
  have o: "unat (of_nat (f_offset f) :: u32) = f_offset f"
    using f(3) by (intro unat_of_nat32) simp
  have "(of_nat (f_offset f) :: u32) \<le> 1024" using o f(3) by (simp add: word_le_nat_alt)
  then have r: "unat (1024 - of_nat (f_offset f) :: u32) = 1024 - f_offset f" using o by (simp add: unat_sub)
  have ds: "block_data_size fs = 1024" using g by (simp add: geom_def)
  have cc: "c \<le> 1024" "f_offset f + c \<le> 1024" "c \<le> unat n" using f(3) by (auto simp: c_def write_count_def)
  have uc: "unat (of_nat c :: u32) = c" using cc by (intro unat_of_nat32) simp
  have count: "(if 1024 - of_nat (f_offset f) < n then 1024 - of_nat (f_offset f) else n) = of_nat c"
    using uc unfolding c_def write_count_def
    by (auto simp: word_unat_eq_iff r word_less_nat_alt min_def split: if_splits)
  have w: "block_writedata buf (of_nat c) (in_block_id node) (of_nat (f_offset f)) fs = Some (of_nat c, fs1)"
    using block_writedata_eq [of fs "in_block_id node" "of_nat (f_offset f)" "of_nat c" buf] g node(1) o uc cc n
    by (simp add: fs1_def)
  have "geom fs1" "ino_valid fs1 (in_id node)" using g node(3) by (simp_all add: fs1_def)
  then show ?thesis
    using f(1,2) node(2) count w uc ds
    by (simp add: inode_write_def Let_def inode_set_eq)
qed

lemma inode_read_eq:
  fixes n :: u32
  assumes ok: "fs_ok fs" and f: "f_flags f = FILE_READ" "vn_ptr (f_inode f) = Some node"
    and node: "data_blk fs (in_block_id node)" "in_block_id node \<noteq> -1"
    and sz: "f_offset f \<le> unat (in_size node)" "unat (in_size node) \<le> 1024"
  defines "c \<equiv> min (unat n) (unat (in_size node) - f_offset f)"
  shows "inode_read f n fs = Some (of_nat c,
    bytes_at (f_offset f) c (blk_data fs (in_block_id node)), f\<lparr>f_offset := f_offset f + c\<rparr>)"
proof -
  have g: "geom fs" using ok by (simp add: fs_ok_def)
  have o: "unat (of_nat (f_offset f) :: u32) = f_offset f" using sz by (intro unat_of_nat32) simp
  have "(of_nat (f_offset f) :: u32) \<le> in_size node" using o sz by (simp add: word_le_nat_alt)
  then have r: "unat (in_size node - of_nat (f_offset f) :: u32) = unat (in_size node) - f_offset f"
    using o by (simp add: unat_sub)
  have cc: "c \<le> 1024" "f_offset f + c \<le> 1024" using sz by (auto simp: c_def)
  have uc: "unat (of_nat c :: u32) = c" using cc by (intro unat_of_nat32) simp
  have count: "(if in_size node - of_nat (f_offset f) < n then in_size node - of_nat (f_offset f) else n) = of_nat c"
    using uc unfolding c_def
    by (auto simp: word_unat_eq_iff r word_less_nat_alt min_def split: if_splits)
  have "block_readdata (of_nat c) (in_block_id node) (of_nat (f_offset f)) fs =
      Some (bytes_at (f_offset f) c (blk_data fs (in_block_id node)), of_nat c)"
    using block_readdata_eq [of fs "in_block_id node" "of_nat (f_offset f)" "of_nat c"] g node(1) o uc cc by simp
  then show ?thesis using f node(2) sz(1) count uc by (simp add: inode_read_def Let_def)
qed

section \<open>Paths\<close>

text \<open>The absolute path of a list of names.\<close>

definition path_of :: "string list \<Rightarrow> string" where
  "path_of ns = concat (map (\<lambda>n. CHR ''/'' # n) ns)"

definition plain :: "string \<Rightarrow> bool" where
  "plain n \<longleftrightarrow> n \<noteq> [] \<and> CHR ''/'' \<notin> set n"

lemma path_next_name_path_of:
  assumes "plain n"
  shows "path_next_name (path_of (n # ns)) = (Some n, if ns = [] then None else Some (path_of ns))"
proof (cases ns)
  case Nil
  have "components n = [n]" using assms by (simp add: plain_def components_no_slash)
  then show ?thesis
    using Nil assms by (simp add: path_of_def path_next_name_slash plain_def)
next
  case (Cons m ms)
  let ?r = "m @ path_of ms"
  have p: "path_of ns = CHR ''/'' # ?r" "path_of (n # ns) = CHR ''/'' # (n @ CHR ''/'' # ?r)"
    using Cons by (simp_all add: path_of_def)
  have "components (n @ CHR ''/'' # ?r) = n # components ?r"
    using assms by (intro components_split) (simp add: plain_def)
  then show ?thesis
    unfolding p using Cons assms by (simp add: path_next_name_slash plain_def)
qed

text \<open>The tree walk a path stands for, and the conditions under which the code can make it:
  every inode passed through is a directory.\<close>

fun follow :: "'a blkfs_scheme \<Rightarrow> blkfs_inode \<Rightarrow> string list \<Rightarrow> blkfs_inode option" where
  "follow fs dir [] = Some dir"
| "follow fs dir (n # ns) = (case entry fs dir n of None \<Rightarrow> None | Some k \<Rightarrow> follow fs (ino fs k) ns)"

fun walkable :: "'a blkfs_scheme \<Rightarrow> blkfs_inode \<Rightarrow> string list \<Rightarrow> bool" where
  "walkable fs dir [] = True"
| "walkable fs dir (n # ns) = (is_dir fs dir \<and> plain n \<and> length n < 15 \<and>
     (case entry fs dir n of None \<Rightarrow> True
      | Some k \<Rightarrow> k \<noteq> -1 \<and> ino_valid fs k \<and> in_type (ino fs k) \<noteq> it_EMPTY \<and> walkable fs (ino fs k) ns))"

lemma path_walk_follow:
  assumes "fs_ok fs"
  shows "walkable fs dir ns \<Longrightarrow> path_walk dir (path_of ns) fs = Some (follow fs dir ns)"
proof (induction ns arbitrary: dir)
  case Nil
  then show ?case by (subst path_walk.simps) (simp add: path_of_def path_next_name_def)
next
  case (Cons n ns)
  have g: "geom fs" using assms by (simp add: fs_ok_def)
  have d: "is_dir fs dir" "plain n" "length n < 15" using Cons.prems by auto
  note gf = get_filedir_eq [OF assms d(1,3)]
  show ?case
  proof (cases "entry fs dir n")
    case None
    then show ?thesis
      using gf by (subst path_walk.simps) (simp add: path_next_name_path_of [OF d(2)])
  next
    case (Some k)
    then have k: "k \<noteq> -1" "ino_valid fs k" "in_type (ino fs k) \<noteq> it_EMPTY" "walkable fs (ino fs k) ns"
      using Cons.prems by auto
    have "path_walk dir (path_of (n # ns)) fs =
        (if ns = [] then Some (Some (ino fs k)) else path_walk (ino fs k) (path_of ns) fs)"
      using gf Some k g by (subst path_walk.simps) (simp add: path_next_name_path_of [OF d(2)] inode_get_eq)
    then show ?thesis using Cons.IH [OF k(4)] Some by auto
  qed
qed

text \<open>A path that goes through a regular file stops the kernel.\<close>

lemma path_walk_through_file:
  assumes "plain n" "in_type dir \<noteq> it_DIR"
  shows "path_walk dir (path_of (n # ns)) fs = None"
  using assms by (subst path_walk.simps) (simp add: path_next_name_path_of get_filedir_def)

lemma get_path_inode_eq:
  assumes "fs_ok fs" "0 < inode_block_num fs" "in_type (ino fs 0) \<noteq> it_EMPTY" "walkable fs (ino fs 0) ns"
  shows "get_path_inode (path_of ns) fs = Some (follow fs (ino fs 0) ns)"
proof -
  have "ino_valid fs 0" "geom fs" using assms by (simp_all add: ino_valid_def fs_ok_def)
  then show ?thesis
    using path_walk_follow [OF assms(1,4)] assms(3)
    by (simp add: get_path_inode_def get_root_inode_def inode_get_eq)
qed


section \<open>Operations only touch the disk\<close>

definition only_dev :: "'a blkfs_scheme \<Rightarrow> 'a blkfs_scheme \<Rightarrow> bool" where
  "only_dev fs fs' \<longleftrightarrow> fs' = fs\<lparr>dev := dev fs'\<rparr>"

lemma only_dev_refl [simp]: "only_dev fs fs"
  by (simp add: only_dev_def)

lemma only_dev_upd [simp]: "only_dev fs (fs\<lparr>dev := d\<rparr>)"
  by (simp add: only_dev_def)

lemma only_dev_trans: "only_dev a b \<Longrightarrow> only_dev b c \<Longrightarrow> only_dev a c"
proof -
  assume a: "only_dev a b" "only_dev b c"
  then have "c = b\<lparr>dev := dev c\<rparr>" "b = a\<lparr>dev := dev b\<rparr>" by (simp_all add: only_dev_def)
  then have "c = a\<lparr>dev := dev b\<rparr>\<lparr>dev := dev c\<rparr>" by metis
  then show ?thesis unfolding only_dev_def by simp
qed

lemma only_dev_block_write: "block_write buf n b off fs = Some fs' \<Longrightarrow> only_dev fs fs'"
  by (auto simp: block_write_def Let_def split: prod.splits if_splits)

lemma only_dev_setinfo: "block_setinfo h b fs = Some fs' \<Longrightarrow> only_dev fs fs'"
  by (auto simp: block_setinfo_def split: if_splits dest: only_dev_block_write)

lemma only_dev_write_items: "write_items xs b fs = Some fs' \<Longrightarrow> only_dev fs fs'"
  by (auto simp: write_items_def block_writedata_def bind_eq_Some_conv split: if_splits
      dest: only_dev_block_write)

lemma only_dev_block_alloc: "block_alloc fs = Some (r, fs') \<Longrightarrow> only_dev fs fs'"
proof -
  have "block_alloc_loop is fs = Some (r, fs') \<Longrightarrow> only_dev fs fs'" for "is"
    by (induction "is") (auto simp: bind_eq_Some_conv split: if_splits dest: only_dev_setinfo)
  then show "block_alloc fs = Some (r, fs') \<Longrightarrow> ?thesis" by (simp add: block_alloc_def)
qed

lemma only_dev_block_free: "block_free b fs = Some fs' \<Longrightarrow> only_dev fs fs'"
  by (auto simp: block_free_def bind_eq_Some_conv split: if_splits dest: only_dev_setinfo)

lemma only_dev_inode_set: "inode_set k n fs = Some fs' \<Longrightarrow> only_dev fs fs'"
  by (auto simp: inode_set_def Let_def bind_eq_Some_conv dest: only_dev_write_items)

lemma only_dev_dir_init: "dir_block_init b fs = Some fs' \<Longrightarrow> only_dev fs fs'"
  by (auto simp: dir_block_init_def bind_eq_Some_conv dest: only_dev_write_items)

lemma only_dev_inode_alloc: "inode_alloc ty fs = Some (r, fs') \<Longrightarrow> only_dev fs fs'"
proof -
  have "inode_alloc_loop ty bks fs = Some (r, fs') \<Longrightarrow> only_dev fs fs'" for bks
  proof (induction bks)
    case (Cons bk bks)
    from Cons.prems Cons.IH show ?case
      by (auto simp: bind_eq_Some_conv Let_def split: if_splits option.splits
          dest!: only_dev_block_alloc only_dev_dir_init only_dev_write_items)
        (blast intro: only_dev_trans)+
  qed simp
  then show "inode_alloc ty fs = Some (r, fs') \<Longrightarrow> ?thesis" by (simp add: inode_alloc_def)
qed

lemma only_dev_bfree: "inode_bfree k fs = Some fs' \<Longrightarrow> only_dev fs fs'"
  by (auto simp: inode_bfree_def bind_eq_Some_conv Let_def split: if_splits
      dest!: only_dev_block_free only_dev_write_items)
      (blast intro: only_dev_trans)+

lemma only_dev_create: "create_filedir d ty l n fs = Some (r, fs') \<Longrightarrow> only_dev fs fs'"
  by (auto simp: create_filedir_def bind_eq_Some_conv Let_def split: if_splits option.splits
      dest!: only_dev_inode_alloc only_dev_inode_set only_dev_write_items)
      (blast intro: only_dev_trans)+

lemma only_dev_delete: "delete_filedir d n fs = Some fs' \<Longrightarrow> only_dev fs fs'"
  by (auto simp: delete_filedir_def bind_eq_Some_conv Let_def split: if_splits option.splits
      dest!: only_dev_bfree only_dev_inode_set only_dev_write_items)
      (blast intro: only_dev_trans)+

lemma only_dev_mkdir: "mkdir_body n fs = Some (r, fs') \<Longrightarrow> only_dev fs fs'"
  by (auto simp: mkdir_body_def bind_eq_Some_conv split: if_splits option.splits dest!: only_dev_create)

lemma only_dev_rm: "rm_body n fs = Some (r, fs') \<Longrightarrow> only_dev fs fs'"
  by (auto simp: rm_body_def bind_eq_Some_conv split: if_splits option.splits dest: only_dev_delete)

lemma only_dev_link: "link_body p q fs = Some (r, fs') \<Longrightarrow> only_dev fs fs'"
  by (auto simp: link_body_def bind_eq_Some_conv split: if_splits option.splits dest!: only_dev_create)

section \<open>Under the lock\<close>

text \<open>Inside the critical section everything on the disk looks as before.\<close>

lemma in_lock [simp]:
  "dev (fs_lk.entered fs) = dev fs" "geom (fs_lk.entered fs) = geom fs"
  "blk_valid (fs_lk.entered fs) = blk_valid fs" "ino_valid (fs_lk.entered fs) = ino_valid fs"
  "data_blk (fs_lk.entered fs) = data_blk fs" "inode_block_num (fs_lk.entered fs) = inode_block_num fs"
  "blk_data (fs_lk.entered fs) = blk_data fs" "blk_hdr (fs_lk.entered fs) = blk_hdr fs"
  "total_block_num (fs_lk.entered fs) = total_block_num fs"
  by (auto simp: fs_lk.entered_def pushed_def geom_def blk_valid_def ino_valid_def data_blk_def
      blk_data_def blk_hdr_def fun_eq_iff)

lemma in_lock_derived [simp]:
  "fs_ok (fs_lk.entered fs) = fs_ok fs" "ino (fs_lk.entered fs) = ino fs"
  "is_dir (fs_lk.entered fs) = is_dir fs" "entry (fs_lk.entered fs) = entry fs"
  "dir_full (fs_lk.entered fs) = dir_full fs" "first_ino (fs_lk.entered fs) = first_ino fs"
  "first_free (fs_lk.entered fs) = first_free fs" "has_block (fs_lk.entered fs) = has_block fs"
  "blk_free (fs_lk.entered fs) = blk_free fs"
  by (auto simp: fs_ok_def hdrs_ok_def ino_def is_dir_def entry_def dir_full_def first_ino_def
      first_free_def has_block_def blk_free_def fun_eq_iff)

lemma in_lock_follow [simp]: "follow (fs_lk.entered fs) dir ns = follow fs dir ns"
  by (induction ns arbitrary: dir) (auto split: option.splits)

lemma in_lock_walkable [simp]: "walkable (fs_lk.entered fs) dir ns = walkable fs dir ns"
  by (induction ns arbitrary: dir) (auto split: option.splits)

lemma entered_dev: "(fs_lk.entered fs)\<lparr>dev := d\<rparr> = fs_lk.entered (fs\<lparr>dev := d\<rparr>)"
  by (simp add: fs_lk.entered_def pushed_def hw_defs)

definition fs_idle :: "'a blkfs_scheme \<Rightarrow> bool" where
  "fs_idle fs \<longleftrightarrow> cli_ok fs \<and> lock_free (fs_lock fs)"

lemma fs_idle_upd [simp]: "fs_idle (fs\<lparr>dev := d\<rparr>) = fs_idle (fs :: 'a blkfs_scheme)"
  by (simp add: fs_idle_def cli_ok_def hw_defs)

lemma fs_lock_entered: "fs_idle fs \<Longrightarrow> lock_on fs_lock fs_lock_update fs = Some (fs_lk.entered fs)"
  by (simp add: fs_idle_def fs_lk.lock_on_free)

lemma fs_unlock_entered: "fs_idle fs \<Longrightarrow> unlock_on fs_lock fs_lock_update (fs_lk.entered fs) = Some fs"
  using fs_lk.bracket [of fs] by (simp add: fs_idle_def fs_lk.lock_on_free)

text \<open>A body that only touches the disk runs between \<open>spin_lock\<close> and
  \<open>spin_unlock\<close> as it would without them.\<close>

lemma fs_locked:
  assumes "fs_idle fs" "body (fs_lk.entered fs) = Some (r, fs1)" "only_dev (fs_lk.entered fs) fs1"
  shows "\<exists>fs'. fs1 = fs_lk.entered fs' \<and> fs_idle fs' \<and> only_dev fs fs' \<and>
    do { s \<leftarrow> lock_on fs_lock fs_lock_update fs; (r, s) \<leftarrow> body s;
         s \<leftarrow> unlock_on fs_lock fs_lock_update s; Some (r, s) } = Some (r, fs')"
proof -
  define fs' where "fs' = fs\<lparr>dev := dev fs1\<rparr>"
  have e: "fs1 = fs_lk.entered fs'" using assms(3) by (simp add: only_dev_def entered_dev fs'_def)
  have "fs_idle fs'" "only_dev fs fs'" using assms(1) by (simp_all add: fs'_def)
  then show ?thesis
    using assms(1,2) by (intro exI [of _ fs']) (simp add: fs_lock_entered fs_unlock_entered e)
qed

lemmas fs_mkdir_locked = fs_locked [where body = "mkdir_body n" for n, folded fs_mkdir_def]
lemmas fs_rm_locked = fs_locked [where body = "rm_body n" for n, folded fs_rm_def]
lemmas fs_link_locked = fs_locked [where body = "link_body p q" for p q, folded fs_link_def]

section \<open>Directory part and last name\<close>

lemma path_of_snoc: "path_of (ns @ [n]) = path_of ns @ CHR ''/'' # n"
  by (simp add: path_of_def)

lemma str_rindex_last: "CHR ''/'' \<notin> set n \<Longrightarrow> str_rindex (CHR ''/'') (p @ CHR ''/'' # n) = Some (length p)"
proof (induction n rule: rev_induct)
  case Nil then show ?case using str_rindex_snoc [of "CHR ''/''" p "CHR ''/''"] by simp
next
  case (snoc c n)
  then show ?case using str_rindex_snoc [of "CHR ''/''" "p @ CHR ''/'' # n" c] by auto
qed

lemma path_parts:
  assumes "plain n"
  shows "path_get_directory (path_of (ns @ [n])) = Some (path_of ns @ ''/'')"
    and "path_get_name (path_of (ns @ [n])) = Some n"
proof -
  have l: "last (path_of (ns @ [n])) \<noteq> CHR ''/''"
    using assms by (auto simp: path_of_snoc plain_def dest: last_in_set)
  have "path_of (ns @ [n]) \<noteq> []" by (simp add: path_of_snoc)
  moreover have "str_rindex (CHR ''/'') (path_of (ns @ [n])) = Some (length (path_of ns))"
    using assms str_rindex_last [of n "path_of ns"] by (simp add: path_of_snoc plain_def)
  ultimately show "path_get_directory (path_of (ns @ [n])) = Some (path_of ns @ ''/'')"
    "path_get_name (path_of (ns @ [n])) = Some n"
    using l by (simp_all add: path_get_directory_def path_get_name_def string_create_copy_def
        path_of_snoc Let_def)
qed

lemma path_next_name_dir:
  "plain n \<Longrightarrow> path_next_name (path_of (n # ns) @ ''/'') = (Some n, Some (path_of ns @ ''/''))"
proof -
  assume p: "plain n"
  obtain r where r: "path_of ns @ ''/'' = CHR ''/'' # r"
    by (cases ns) (auto simp: path_of_def)
  then have e: "path_of (n # ns) @ ''/'' = CHR ''/'' # (n @ CHR ''/'' # r)" by (simp add: path_of_def)
  have "components (n @ CHR ''/'' # r) = n # components r"
    using p by (intro components_split) (simp add: plain_def)
  then show ?thesis unfolding e r using p by (simp add: path_next_name_slash plain_def)
qed

lemma path_walk_dir:
  assumes "fs_ok fs"
  shows "walkable fs dir ns \<Longrightarrow> path_walk dir (path_of ns @ ''/'') fs = Some (follow fs dir ns)"
proof (induction ns arbitrary: dir)
  case Nil
  then show ?case by (subst path_walk.simps) (simp add: path_of_def path_next_name_def)
next
  case (Cons n ns)
  have g: "geom fs" using assms by (simp add: fs_ok_def)
  have d: "is_dir fs dir" "plain n" "length n < 15" using Cons.prems by auto
  note gf = get_filedir_eq [OF assms d(1,3)]
  show ?case
  proof (cases "entry fs dir n")
    case None
    then show ?thesis
      using gf by (subst path_walk.simps) (simp add: path_next_name_dir [OF d(2)])
  next
    case (Some k)
    then have k: "k \<noteq> -1" "ino_valid fs k" "in_type (ino fs k) \<noteq> it_EMPTY" "walkable fs (ino fs k) ns"
      using Cons.prems by auto
    have "path_walk dir (path_of (n # ns) @ ''/'') fs = path_walk (ino fs k) (path_of ns @ ''/'') fs"
      using gf Some k g by (subst path_walk.simps) (simp add: path_next_name_dir [OF d(2)] inode_get_eq)
    then show ?thesis using Cons.IH [OF k(4)] Some by auto
  qed
qed

definition root_ok :: "'a blkfs_scheme \<Rightarrow> bool" where
  "root_ok fs \<longleftrightarrow> 0 < inode_block_num fs \<and> in_type (ino fs 0) \<noteq> it_EMPTY"

lemma get_path_dir_eq:
  assumes "fs_ok fs" "root_ok fs" "walkable fs (ino fs 0) ns"
  shows "get_path_inode (path_of ns @ ''/'') fs = Some (follow fs (ino fs 0) ns)"
proof -
  have "ino_valid fs 0" "geom fs" using assms by (simp_all add: ino_valid_def fs_ok_def root_ok_def)
  then show ?thesis
    using path_walk_dir [OF assms(1,3)] assms(2)
    by (simp add: get_path_inode_def get_root_inode_def inode_get_eq root_ok_def)
qed

end
