(* ===== verification/BlkFormat.thy ===== *)
theory BlkFormat
  imports BlkDir
begin

text \<open>
  Formatting a disk (\<open>fs_init\<close>) and the properties of the block file system as a whole.
\<close>


section \<open>Formatting a disk\<close>

lemma geometry_ok:
  assumes "2064 \<le> rd_len d"
  shows "\<exists>fs'. fs_geometry d fs = Some fs' \<and> geom fs' \<and> dev fs' = d \<and> 0 < inode_block_num fs' \<and>
    total_block_num fs' = rd_len d div 1032 \<and>
    unat (inode_block_num fs') \<le> unat (rd_len d div 1032) * 20 div 1024 + 1 \<and> fs_lock fs' = fs_lock fs \<and>
    cur_cpu fs' = cur_cpu fs \<and> intr_on fs' = intr_on fs \<and> cpu_cli fs' = cpu_cli fs"
proof -
  let ?T = "rd_len d div 1032"
  have T: "unat ?T = unat (rd_len d) div 1032" by (simp add: unat_div)
  have len: "2064 \<le> unat (rd_len d)" "unat (rd_len d) < 2 ^ 32"
    using assms unat_lt_2p32 [of "rd_len d"] by (simp_all add: word_le_nat_alt)
  then have T2: "2 \<le> unat ?T" "unat ?T * 1032 < 2 ^ 32"
    unfolding T using div_times_less_eq_dividend [of "unat (rd_len d)" 1032] by auto
  have isz: "unat (?T * 20) = unat ?T * 20" using T2 by (simp add: unat_word_ariths)
  have q: "unat (?T * 20 div 1024) = unat ?T * 20 div 1024" by (simp add: unat_div isz)
  let ?n = "?T * 20 div 1024 + (if ?T * 20 mod 1024 = 0 then 0 else 1)"
  have m: "?T * 20 mod 1024 = 0 \<longleftrightarrow> unat ?T * 20 mod 1024 = 0"
    by (simp add: unat_eq_0 [symmetric] unat_mod isz)
  have n: "unat ?n = unat ?T * 20 div 1024 + (if unat ?T * 20 mod 1024 = 0 then 0 else 1)"
    using q m T2 unat_add_1 [of "?T * 20 div 1024"] by auto
  have "0 < unat ?n" "unat ?n < unat ?T"
    using n T2 by (auto split: if_splits)
  then have lt: "0 < ?n" "?n < ?T" by (simp_all add: word_less_nat_alt)
  have "0 < rd_len d" using len by (simp add: word_less_nat_alt)
  then show ?thesis
    using lt T2 n by (simp add: fs_geometry_def Let_def geom_def sizeof_block_def BLOCK_DATA_SIZE_def
        sizeof_inode_def sizeof_dirent_def)
qed

definition fresh_hdr :: blkfs_block where
  "fresh_hdr = \<lparr>bk_magic = MAGIC, bk_type = t_FREE\<rparr>"

lemma init_blocks_eq:
  assumes "geom fs" "\<And>i. i \<in> set is \<Longrightarrow> i < unat (total_block_num fs)"
  shows "\<exists>fs'. init_blocks is fs = Some fs' \<and> geom fs' \<and> only_dev fs fs' \<and>
    (\<forall>b. blk_valid fs b \<longrightarrow> blk_hdr fs' b = (if unat b \<in> set is then fresh_hdr else blk_hdr fs b))"
  using assms
proof (induction "is" arbitrary: fs)
  case Nil then show ?case by simp
next
  case (Cons i "is")
  let ?w = "of_nat i :: u32"
  have v: "blk_valid fs ?w" using Cons.prems by (intro of_nat_valid) simp
  then have s: "block_init ?w fs = Some (set_hdr ?w fresh_hdr fs)"
    using Cons.prems(1) by (simp add: block_init_def block_setinfo_eq blk_valid_def fresh_hdr_def)
  have u: "unat b = i \<longleftrightarrow> b = ?w" for b
    using Cons.prems(2) [of i] unat_lt_2p32 [of "total_block_num fs"] unat_of_nat32 [of i] by auto
  obtain fs' where f: "init_blocks is (set_hdr ?w fresh_hdr fs) = Some fs'" "geom fs'"
    "only_dev (set_hdr ?w fresh_hdr fs) fs'"
    "\<forall>b. blk_valid fs b \<longrightarrow> blk_hdr fs' b =
       (if unat b \<in> set is then fresh_hdr else blk_hdr (set_hdr ?w fresh_hdr fs) b)"
    using Cons.IH [of "set_hdr ?w fresh_hdr fs"] Cons.prems by auto
  have "only_dev fs (set_hdr ?w fresh_hdr fs)" by (simp add: set_hdr_def)
  then have "only_dev fs fs'" using f(3) by (rule only_dev_trans)
  then show ?case using f s v u Cons.prems(1) by auto
qed

definition clear_items :: "u8 list \<Rightarrow> u8 list" where
  "clear_items items = fold (\<lambda>i e. put_inode_type i it_EMPTY e) [0..<51] items"

lemma clear_items_loop:
  assumes "\<And>i. i \<in> set is \<Longrightarrow> i < 51" "length items = 1024"
  shows "length (fold (\<lambda>i e. put_inode_type i it_EMPTY e) is items) = 1024 \<and>
    (\<forall>j<51. in_type (inode_at (fold (\<lambda>i e. put_inode_type i it_EMPTY e) is items) j) =
      (if j \<in> set is then it_EMPTY else in_type (inode_at items j)))"
  using assms by (induction "is" arbitrary: items) (auto simp: inode_at_put_type)

lemma length_clear_items [simp]: "length items = 1024 \<Longrightarrow> length (clear_items items) = 1024"
  using clear_items_loop [of "[0..<51]" items] by (simp add: clear_items_def)

lemma inode_type_clear [simp]:
  "length items = 1024 \<Longrightarrow> j < 51 \<Longrightarrow> in_type (inode_at (clear_items items) j) = it_EMPTY"
  using clear_items_loop [of "[0..<51]" items] by (simp add: clear_items_def)

lemma inode_block_init_eq:
  "geom fs \<Longrightarrow> blk_valid fs b \<Longrightarrow> inode_block_init b fs = Some (set_data b (clear_items (blk_data fs b)) fs)"
proof -
  assume a: "geom fs" "blk_valid fs b"
  then have "inode_per_block fs = 51" by (simp add: geom_def)
  then show ?thesis
    using a length_clear_items [of "blk_data fs b"]
    by (simp add: inode_block_init_def read_items_eq clear_items_def write_items_eq del: upt_conv_Cons)
qed

lemma init_inode_blocks_eq:
  assumes "geom fs" "hdrs_ok fs" "\<And>i. i \<in> set is \<Longrightarrow> i < unat (total_block_num fs)"
  shows "\<exists>fs'. init_inode_blocks is fs = Some fs' \<and> geom fs' \<and> hdrs_ok fs' \<and> only_dev fs fs' \<and>
    (\<forall>b. blk_valid fs b \<longrightarrow> bk_type (blk_hdr fs' b) =
       (if unat b \<in> set is then t_USING else bk_type (blk_hdr fs b))) \<and>
    (\<forall>b. blk_valid fs b \<longrightarrow> unat b \<notin> set is \<longrightarrow> blk_data fs' b = blk_data fs b) \<and>
    (\<forall>b. blk_valid fs b \<longrightarrow> unat b \<in> set is \<longrightarrow> (\<forall>j<51. in_type (inode_at (blk_data fs' b) j) = it_EMPTY))"
  using assms
proof (induction "is" arbitrary: fs)
  case Nil then show ?case by simp
next
  case (Cons i "is")
  let ?w = "of_nat i :: u32"
  let ?f1 = "mark t_USING ?w fs"
  let ?f2 = "set_data ?w (clear_items (blk_data ?f1 ?w)) ?f1"
  have v: "blk_valid fs ?w" using Cons.prems by (intro of_nat_valid) simp
  have mg: "bk_magic (blk_hdr fs ?w) = MAGIC" using Cons.prems(2) v by (simp add: hdrs_ok_def)
  have u: "unat b = i \<longleftrightarrow> b = ?w" for b
    using Cons.prems(3) [of i] unat_lt_2p32 [of "total_block_num fs"] unat_of_nat32 [of i] by auto
  have run: "init_inode_blocks (i # is) fs = init_inode_blocks is ?f2"
    using v mg Cons.prems(1)
    by (simp add: block_getinfo_eq block_setinfo_eq inode_block_init_eq mark_def [symmetric])
  have h2: "hdrs_ok ?f2" using Cons.prems v by (auto simp: hdrs_ok_def mark_def)
  have ty2: "bk_type (blk_hdr ?f2 b) = (if b = ?w then t_USING else bk_type (blk_hdr fs b))"
    if "blk_valid fs b" for b using that v Cons.prems(1) by (simp add: mark_def)
  have d2: "blk_data ?f2 b = (if b = ?w then clear_items (blk_data fs ?w) else blk_data fs b)"
    if "blk_valid fs b" for b using that v Cons.prems(1) by simp
  have "\<exists>fs'. init_inode_blocks is ?f2 = Some fs' \<and> geom fs' \<and> hdrs_ok fs' \<and> only_dev ?f2 fs' \<and>
    (\<forall>b. blk_valid ?f2 b \<longrightarrow> bk_type (blk_hdr fs' b) =
       (if unat b \<in> set is then t_USING else bk_type (blk_hdr ?f2 b))) \<and>
    (\<forall>b. blk_valid ?f2 b \<longrightarrow> unat b \<notin> set is \<longrightarrow> blk_data fs' b = blk_data ?f2 b) \<and>
    (\<forall>b. blk_valid ?f2 b \<longrightarrow> unat b \<in> set is \<longrightarrow> (\<forall>j<51. in_type (inode_at (blk_data fs' b) j) = it_EMPTY))"
    by (rule Cons.IH) (use Cons.prems h2 in auto)
  then obtain fs' where f: "init_inode_blocks is ?f2 = Some fs'" "geom fs'" "hdrs_ok fs'" "only_dev ?f2 fs'"
    "\<forall>b. blk_valid fs b \<longrightarrow> bk_type (blk_hdr fs' b) =
       (if unat b \<in> set is then t_USING else bk_type (blk_hdr ?f2 b))"
    "\<forall>b. blk_valid fs b \<longrightarrow> unat b \<notin> set is \<longrightarrow> blk_data fs' b = blk_data ?f2 b"
    "\<forall>b. blk_valid fs b \<longrightarrow> unat b \<in> set is \<longrightarrow> (\<forall>j<51. in_type (inode_at (blk_data fs' b) j) = it_EMPTY)"
    by auto
  have od: "only_dev fs fs'"
    using f(4) by (rule only_dev_trans [rotated]) (simp add: mark_def set_hdr_def set_data_def)
  have data: "blk_data fs' b = (if b = ?w then clear_items (blk_data fs ?w) else blk_data fs b)"
    if "blk_valid fs b" "unat b \<notin> set is" for b using that f(6) d2 by simp
  have empty: "in_type (inode_at (blk_data fs' b) j) = it_EMPTY"
    if "blk_valid fs b" "unat b = i \<or> unat b \<in> set is" "j < 51" for b j
    using that f(7) data [of b] u by (cases "unat b \<in> set is") auto
  show ?case
    unfolding run using f(1-3,5) od ty2 u data empty by (intro exI [of _ fs']) auto
qed

lemma find_first: "P a \<Longrightarrow> a < n \<Longrightarrow> find P [a..<n] = Some a"
  by (simp add: upt_conv_Cons)

lemma only_dev_sel:
  assumes "only_dev fs fs'"
  shows "inode_block_num fs' = inode_block_num fs" "total_block_num fs' = total_block_num fs"
    "blk_valid fs' = blk_valid fs" "ino_valid fs' = ino_valid fs" "data_blk fs' = data_blk fs"
proof -
  obtain d where "fs' = fs\<lparr>dev := d\<rparr>" using assms unfolding only_dev_def by metis
  then show "inode_block_num fs' = inode_block_num fs" "total_block_num fs' = total_block_num fs"
    "blk_valid fs' = blk_valid fs" "ino_valid fs' = ino_valid fs" "data_blk fs' = data_blk fs"
    by (auto simp: blk_valid_def ino_valid_def data_blk_def fun_eq_iff)
qed

text \<open>A freshly formatted file system: an empty root directory and nothing else.\<close>

definition fresh_fs :: "'a blkfs_scheme \<Rightarrow> bool" where
  "fresh_fs fs \<longleftrightarrow> fs_ok fs \<and> root_ok fs \<and> is_dir fs (ino fs 0) \<and> entry fs (ino fs 0) = Map.empty \<and>
     in_refcnt (ino fs 0) = 1 \<and>
     (\<forall>k. ino_valid fs k \<and> k \<noteq> 0 \<longrightarrow> in_type (ino fs k) = it_EMPTY) \<and>
     (\<forall>b. data_blk fs b \<and> b \<noteq> in_block_id (ino fs 0) \<longrightarrow> blk_free fs b)"

lemma fs_format_ok:
  assumes g: "geom fs" and ib: "0 < inode_block_num fs"
  shows "\<exists>fs'. fs_format fs = Some fs' \<and> only_dev fs fs' \<and> fresh_fs fs'"
proof -
  let ?ib = "inode_block_num fs" and ?T = "total_block_num fs"
  obtain f1 where f1: "init_blocks [0..<unat ?T] fs = Some f1" "geom f1" "only_dev fs f1"
    "\<And>b. blk_valid fs b \<Longrightarrow> blk_hdr f1 b = fresh_hdr"
    using init_blocks_eq [OF g, of "[0..<unat ?T]"] by (auto simp: blk_valid_def word_less_nat_alt)
  note s1 = only_dev_sel [OF f1(3)]
  have h1: "hdrs_ok f1" using f1(4) s1 by (simp add: hdrs_ok_def fresh_hdr_def)
  have lt: "unat ?ib < unat ?T" using g by (simp add: geom_def word_less_nat_alt)
  obtain f2 where f2: "init_inode_blocks [0..<unat ?ib] f1 = Some f2" "geom f2" "hdrs_ok f2" "only_dev f1 f2"
    "\<And>b. blk_valid fs b \<Longrightarrow> bk_type (blk_hdr f2 b) = (if b < ?ib then t_USING else t_FREE)"
    "\<And>b j. blk_valid fs b \<Longrightarrow> b < ?ib \<Longrightarrow> j < 51 \<Longrightarrow> in_type (inode_at (blk_data f2 b) j) = it_EMPTY"
    using init_inode_blocks_eq [OF f1(2) h1, of "[0..<unat ?ib]"] lt s1 f1(4)
    by (auto simp: fresh_hdr_def word_less_nat_alt)
  note s2 = only_dev_sel [OF f2(4)]
  have e2: "in_type (ino f2 k) = it_EMPTY" if "ino_valid fs k" for k
    using f2(6) [of "k div 51"] that g by (auto simp: ino_def ino_valid_def tid_less geom_def blk_valid_def intro: less_trans)
  have v0: "ino_valid fs 0" "ino_valid f2 0" using ib s1 s2 by (simp_all add: ino_valid_def)
  have fi: "first_ino f2 = Some 0"
    unfolding first_ino_def using e2 [OF v0(1)] ib s1 s2 by (intro find_first) (auto simp: word_less_nat_alt)
  have db: "data_blk fs ?ib" "blk_valid fs ?ib" using g by (auto simp: data_blk_def geom_def blk_valid_def)
  have ff: "first_free f2 = Some (unat ?ib)"
    unfolding first_free_def s2 s1 using f2(5) [OF db(2)] lt
    by (intro find_first) (simp_all add: blk_free_def)
  let ?n = "\<lambda>r. \<lparr>in_type = it_DIR, in_id = 0, in_block_id = ?ib, in_refcnt = r, in_size = 0\<rparr>"
  let ?m = "mark t_USING ?ib f2"
  let ?f3 = "set_ino 0 (?n 0) (set_data ?ib (clear_dir (blk_data f2 ?ib)) ?m)"
  let ?f4 = "set_ino 0 (?n 1) ?f3"
  let ?f5 = "set_data ?ib (clear_dir (blk_data ?f4 ?ib)) ?f4"
  have db2: "data_blk f2 ?ib" "blk_valid f2 ?ib" using db s1 s2 by auto
  have al: "inode_alloc it_DIR f2 = Some (0, ?f3)"
    using inode_alloc_eq [OF f2(2,3), of it_DIR] fi alloc_ino_eq [OF ff f2(2)] db2 f2(2) by simp
  have i3: "ino ?f3 0 = ?n 0" using f2(2) v0 db2 by simp
  have run: "fs_format fs = Some ?f5"
    using f1(1) f2(1) al i3 f2(2) v0 db2 s1 s2
    by (simp add: fs_format_def get_root_inode_def inode_get_eq inode_set_eq dir_block_init_eq
        it_DIR_def it_EMPTY_def Let_def)
  have od: "only_dev fs ?f5"
  proof (rule only_dev_trans [OF only_dev_trans [OF f1(3) f2(4)]])
    show "only_dev f2 ?f5" by (simp add: mark_def set_hdr_def set_data_def set_ino_def)
  qed
  have ok: "fs_ok ?f5" using f2(2,3) v0 db2 by (simp add: fs_ok_def [of f2])
  have i5: "ino ?f5 k = (if k = 0 then ?n 1 else ino f2 k)" if "ino_valid f2 k" for k
    using that f2(2) v0 db2 by simp
  have d5: "blk_data ?f5 ?ib = clear_dir (blk_data ?f4 ?ib)" using f2(2) v0 db2 by simp
  have h5: "bk_type (blk_hdr ?f5 b) = (if b < ?ib \<or> b = ?ib then t_USING else t_FREE)" if "blk_valid f2 b" for b
    using that f2(2,5) v0 db2 s1 s2 by (simp add: mark_def)
  have "fresh_fs ?f5"
    using ok i5 [OF v0(2)] ib s1 s2 db2 d5 h5 i5 e2
    by (auto simp: fresh_fs_def root_ok_def is_dir_def entry_def blk_free_def data_blk_def it_DIR_def
        it_EMPTY_def t_FREE_def t_USING_def blk_valid_def)
  then show ?thesis using run od by blast
qed


section \<open>Correctness of the file system\<close>

lemma in_lock_root [simp]: "root_ok (fs_lk.entered fs) = root_ok fs" "fresh_fs (fs_lk.entered fs) = fresh_fs fs"
  by (simp_all add: root_ok_def fresh_fs_def)

text \<open>A zeroed disk of \<open>RD_SIZE\<close> bytes and the record before \<open>init\<close>.\<close>

definition zero_rd :: rd where
  "zero_rd = \<lparr>rd_data = (\<lambda>_. 0), rd_len = 4194304\<rparr>"

definition blank_fs :: blkfs where
  "blank_fs = \<lparr>cur_cpu = 0, n_cpu = 1, intr_on = (\<lambda>_. True),
     cpu_cli = (\<lambda>_. \<lparr>cli_count = 0, cli_hasIF = 0\<rparr>), dev = zero_rd, full_size = 0, block_size = 0,
     block_data_size = 0, inode_block_num = 0, inode_per_block = 0, child_per_dir = 0,
     total_block_num = 0, fs_lock = spin_init ''''\<rparr>"

lemma blank_fs_cli [simp]: "cli_ok blank_fs"
  by (simp add: cli_ok_def blank_fs_def hw_defs)

lemma lock_fresh:
  "cli_ok fs \<Longrightarrow> fs_idle (fs\<lparr>fs_lock := spin_init name\<rparr>)"
  by (simp add: fs_idle_def cli_ok_def hw_defs lock_free_init)

lemma fs_geometry_locked:
  assumes "fs_geometry d fs = Some fs1"
  shows "fs_geometry d (fs_lk.entered fs) = Some (fs_lk.entered fs1)"
  using assms
  by (auto simp: fs_geometry_def Let_def fs_lk.entered_def pushed_def hw_defs split: if_splits)

lemma fs_init_run:
  assumes c: "cli_ok fs" and len: "2064 \<le> rd_len d"
  shows "\<exists>g. geom g \<and> dev g = d \<and> fs_idle g \<and> 0 < inode_block_num g \<and>
    total_block_num g = rd_len d div 1032 \<and>
    unat (inode_block_num g) \<le> unat (rd_len d div 1032) * 20 div 1024 + 1 \<and>
    fs_init name d fs = do {
      r \<leftarrow> block_check 0 g;
      s \<leftarrow> (if r = 0 then do { check_blocks [0..<unat (total_block_num g)] (fs_lk.entered g);
               Some (fs_lk.entered g) }
         else fs_format (fs_lk.entered g));
      unlock_on fs_lock fs_lock_update s }"
proof -
  let ?f0 = "fs\<lparr>fs_lock := spin_init name\<rparr>"
  note i0 = lock_fresh [OF c, of name]
  obtain g where g: "fs_geometry d ?f0 = Some g" "geom g" "dev g = d" "0 < inode_block_num g"
    "total_block_num g = rd_len d div 1032"
    "unat (inode_block_num g) \<le> unat (rd_len d div 1032) * 20 div 1024 + 1" "fs_lock g = fs_lock ?f0" "cur_cpu g = cur_cpu ?f0"
    "intr_on g = intr_on ?f0" "cpu_cli g = cpu_cli ?f0"
    using geometry_ok [OF len, of ?f0] by blast
  have "fs_idle g" using i0 g by (simp add: fs_idle_def cli_ok_def hw_defs)
  moreover have "blk_valid g 0" using g(2,4) by (auto simp: blk_valid_def geom_def intro: less_trans)
  then have "block_check 0 (fs_lk.entered g) = block_check 0 g" using g(2) by (simp add: block_check_eq)
  ultimately show ?thesis
    using g fs_lock_entered [OF i0] fs_geometry_locked [OF g(1)]
    by (intro exI [of _ g]) (simp add: fs_init_def Let_def cong: if_cong)
qed

lemma fs_init_fresh:
  assumes "cli_ok fs" "2064 \<le> rd_len d"
    and "bk_magic (block_of_bytes (mem_read (rd_data d) 0 8)) \<noteq> MAGIC"
  shows "\<exists>fs'. fs_init name d fs = Some fs' \<and> fresh_fs fs' \<and> fs_idle fs' \<and>
    total_block_num fs' = rd_len d div 1032 \<and>
    unat (inode_block_num fs') \<le> unat (rd_len d div 1032) * 20 div 1024 + 1"
proof -
  obtain g where g: "geom g" "dev g = d" "fs_idle g" "0 < inode_block_num g"
    "total_block_num g = rd_len d div 1032"
    "unat (inode_block_num g) \<le> unat (rd_len d div 1032) * 20 div 1024 + 1"
    "fs_init name d fs = do {
      r \<leftarrow> block_check 0 g;
      s \<leftarrow> (if r = 0 then do { check_blocks [0..<unat (total_block_num g)] (fs_lk.entered g);
               Some (fs_lk.entered g) }
         else fs_format (fs_lk.entered g));
      unlock_on fs_lock fs_lock_update s }"
    using fs_init_run [OF assms(1,2)] by blast
  have "blk_valid g 0" using g(1,4) by (auto simp: blk_valid_def geom_def intro: less_trans)
  then have b0: "block_check 0 g = Some 1"
    using g(1,2) assms(3) by (simp add: block_check_eq blk_hdr_def)
  obtain f where f: "fs_format (fs_lk.entered g) = Some f" "only_dev (fs_lk.entered g) f" "fresh_fs f"
    using fs_format_ok [of "fs_lk.entered g"] g by auto
  then obtain d' where d': "f = fs_lk.entered (g\<lparr>dev := d'\<rparr>)"
    unfolding only_dev_def entered_dev by blast
  have "unlock_on fs_lock fs_lock_update f = Some (g\<lparr>dev := d'\<rparr>)"
    unfolding d' by (rule fs_unlock_entered) (simp add: g)
  then show ?thesis
    using g f b0 d' by simp
qed

text \<open>C8: On a disk of at least two blocks whose first block does not carry the magic number,
  \<open>fs_init\<close> creates a file system: every block header is valid, the root directory is empty
  and referenced once, every other inode is free, every data block but the root's is free, and
  the lock is released.\<close>
theorem fs_init_formats:
  assumes "cli_ok fs" "2064 \<le> rd_len d"
    and "bk_magic (block_of_bytes (mem_read (rd_data d) 0 8)) \<noteq> MAGIC"
  shows "\<exists>fs'. fs_init name d fs = Some fs' \<and> fresh_fs fs' \<and> fs_idle fs' \<and>
    total_block_num fs' = rd_len d div 1032"
  using fs_init_fresh [OF assms, of name] by blast

lemma zero_rd_magic: "bk_magic (block_of_bytes (mem_read (rd_data zero_rd) 0 8)) \<noteq> MAGIC"
proof -
  have "un_le32 [0, 0, 0, 0 :: u8] = 0" by (simp add: un_le32_def)
  then show ?thesis
    by (simp add: block_of_bytes_def zero_rd_def mem_read_def bytes_at_def MAGIC_def upt_rec_numeral upt_conv_Cons)
qed

theorem fs_init_formats_witness:
  "\<exists>fs'. fs_init ''blkfs'' zero_rd blank_fs = Some fs' \<and> fresh_fs fs'"
proof -
  have "2064 \<le> rd_len zero_rd" by (simp add: zero_rd_def)
  then show ?thesis
    using fs_init_formats [OF blank_fs_cli _ zero_rd_magic, of "''blkfs''"] by auto
qed

lemma check_blocks_ok:
  assumes "geom fs" "hdrs_ok fs" "\<And>i. i \<in> set is \<Longrightarrow> blk_valid fs (of_nat i)"
  shows "check_blocks is fs = Some ()"
  using assms(3) by (induction "is") (use assms(1,2) in \<open>auto simp: block_check_eq hdrs_ok_def\<close>)

text \<open>Mounting a disk that already carries a file system (every block has the magic number)
  changes not one byte of it.\<close>
lemma fs_init_keeps_disk:
  assumes "cli_ok fs" "2064 \<le> rd_len d"
    and "\<And>b. b < rd_len d div 1032 \<Longrightarrow>
      bk_magic (block_of_bytes (mem_read (rd_data d) (b * 1032) 8)) = MAGIC"
  shows "\<exists>fs'. fs_init name d fs = Some fs' \<and> dev fs' = d \<and> fs_ok fs' \<and> fs_idle fs'"
proof -
  obtain g where g: "geom g" "dev g = d" "fs_idle g" "0 < inode_block_num g"
    "total_block_num g = rd_len d div 1032"
    "fs_init name d fs = do {
      r \<leftarrow> block_check 0 g;
      s \<leftarrow> (if r = 0 then do { check_blocks [0..<unat (total_block_num g)] (fs_lk.entered g);
               Some (fs_lk.entered g) }
         else fs_format (fs_lk.entered g));
      unlock_on fs_lock fs_lock_update s }"
    using fs_init_run [OF assms(1,2), of name] by blast
  have h: "hdrs_ok g" using assms(3) g(2,5) by (simp add: hdrs_ok_def blk_hdr_def blk_valid_def)
  have "blk_valid g 0" using g(1,4) by (auto simp: blk_valid_def geom_def intro: less_trans)
  then have "block_check 0 g = Some 0" using g(1) h by (simp add: block_check_eq hdrs_ok_def)
  moreover have "check_blocks [0..<unat (total_block_num g)] (fs_lk.entered g) = Some ()"
    by (rule check_blocks_ok) (use g h in \<open>auto simp: hdrs_ok_def intro: of_nat_valid\<close>)
  ultimately show ?thesis using g h fs_unlock_entered [OF g(3)] by (simp add: fs_ok_def)
qed

definition magic_rd :: rd where
  "magic_rd = \<lparr>rd_data = mem_write (mem_write (\<lambda>_. 0) 0 (bytes_of_block fresh_hdr)) 1032 (bytes_of_block fresh_hdr),
     rd_len = 2064\<rparr>"

lemma fs_init_keeps_disk_witness:
  "\<exists>fs'. fs_init ''blkfs'' magic_rd blank_fs = Some fs' \<and> dev fs' = magic_rd"
proof -
  have l: "rd_len magic_rd = 2064" by (simp add: magic_rd_def)
  have r0: "mem_read (rd_data magic_rd) 0 8 = bytes_of_block fresh_hdr"
    using mem_read_write_apart [of 1032 "bytes_of_block fresh_hdr" 0 8 "mem_write (\<lambda>_. 0) 0 (bytes_of_block fresh_hdr)"]
      mem_read_write_same [of "bytes_of_block fresh_hdr" "\<lambda>_. 0" 0]
    by (simp add: magic_rd_def apart_def)
  have r1: "mem_read (rd_data magic_rd) 1032 8 = bytes_of_block fresh_hdr"
    using mem_read_write_same [of "bytes_of_block fresh_hdr" "mem_write (\<lambda>_. 0) 0 (bytes_of_block fresh_hdr)" 1032]
    by (simp add: magic_rd_def)
  have "bk_magic (block_of_bytes (mem_read (rd_data magic_rd) (b * 1032) 8)) = MAGIC"
    if "b < rd_len magic_rd div 1032" for b
  proof -
    have "unat b < 2" using that l by (simp add: word_less_nat_alt)
    then have "b = 0 \<or> b = 1" by (auto simp: word_unat_eq_iff)
    then show ?thesis using r0 r1 by (auto simp: fresh_hdr_def)
  qed
  then show ?thesis using fs_init_keeps_disk [OF blank_fs_cli, of magic_rd "''blkfs''"] l by auto
qed


lemma first_ino_not_m1:
  assumes "geom fs" "first_ino fs = Some k"
  shows "(of_nat k :: u32) \<noteq> -1"
proof -
  have "k < 51 * unat (inode_block_num fs)" using find_SomeD [of _ _ k] assms(2) by (fastforce simp: first_ino_def)
  then have k: "k < 2 ^ 32 - 1" using ino_num_bound [OF assms(1)] by simp
  then have "unat (of_nat k :: u32) = k" by (intro unat_of_nat32) simp
  moreover have "unat (- 1 :: u32) = 2 ^ 32 - 1" by (simp add: unsigned_minus_1_eq_mask mask_eq_exp_minus_1)
  ultimately show ?thesis using k by (intro notI) simp
qed

text \<open>C5: \<open>fs_mkdir\<close> of a new name in an existing directory with room succeeds: the name is
  added to that directory and to no other block, it leads to a new empty directory referenced
  once, in the first free inode and the first free block; every other inode is unchanged, every
  other block keeps its contents, and the lock is released.\<close>
theorem mkdir_creates:
  assumes ok: "fs_ok fs" "fs_idle fs" "root_ok fs"
    and path: "walkable fs (ino fs 0) ns" "follow fs (ino fs 0) ns = Some dir" "is_dir fs dir"
    and n: "plain n" "length n < 15" "c_string n" "entry fs dir n = None" "\<not> dir_full fs dir"
    and free: "first_ino fs = Some k" "first_free fs = Some i"
  shows "\<exists>fs'. fs_mkdir (path_of (ns @ [n])) fs = Some (0, fs') \<and> fs_ok fs' \<and> fs_idle fs' \<and>
     is_dir fs' dir \<and> entry fs' dir = (entry fs dir)(n \<mapsto> of_nat k) \<and>
     ino fs' (of_nat k) = \<lparr>in_type = it_DIR, in_id = of_nat k, in_block_id = of_nat i, in_refcnt = 1, in_size = 0\<rparr> \<and>
     is_dir fs' (ino fs' (of_nat k)) \<and> entry fs' (ino fs' (of_nat k)) = Map.empty \<and>
     (\<forall>m. ino_valid fs m \<and> m \<noteq> of_nat k \<longrightarrow> ino fs' m = ino fs m) \<and>
     (\<forall>c. data_blk fs c \<and> c \<noteq> in_block_id dir \<and> c \<noteq> of_nat i \<longrightarrow> blk_data fs' c = blk_data fs c)"
proof -
  let ?e = "fs_lk.entered fs"
  have g: "geom fs" using ok(1) by (simp add: fs_ok_def)
  obtain f where f: "create_filedir dir it_DIR (-1) n ?e = Some (of_nat k, f)" "fs_ok f" "is_dir f dir"
    "entry f dir = (entry fs dir)(n \<mapsto> of_nat k)"
    "ino f (of_nat k) = \<lparr>in_type = it_DIR, in_id = of_nat k, in_block_id = of_nat i, in_refcnt = 1, in_size = 0\<rparr>"
    "\<forall>m. ino_valid fs m \<and> m \<noteq> of_nat k \<longrightarrow> ino f m = ino fs m"
    "\<forall>c. data_blk fs c \<and> c \<noteq> in_block_id dir \<and> c \<noteq> of_nat i \<longrightarrow> blk_data f c = blk_data fs c"
    "is_dir f (ino f (of_nat k)) \<and> entry f (ino f (of_nat k)) = Map.empty"
    using create_filedir_new [of ?e dir n it_DIR k i "-1"] ok path(3) n free
    by (auto simp: it_DIR_def it_LINK_def it_EMPTY_def)
  have "get_path_inode (path_of ns @ ''/'') ?e = Some (Some dir)"
    using get_path_dir_eq [of ?e ns] ok path by simp
  then have "mkdir_body (path_of (ns @ [n])) ?e = Some (0, f)"
    using path_parts [OF n(1), of ns] n(1) path(3) f(1) first_ino_not_m1 [OF g free(1)]
    by (simp add: mkdir_body_def plain_def is_dir_def)
  from fs_mkdir_locked [OF ok(2) this only_dev_mkdir [OF this]] obtain fs' where
    "f = fs_lk.entered fs'" "fs_idle fs'" "fs_mkdir (path_of (ns @ [n])) fs = Some (0, fs')" by blast
  then show ?thesis using f by (intro exI [of _ fs']) simp
qed

lemma fresh_room:
  assumes "fresh_fs fs" "unat (inode_block_num fs) + 2 \<le> unat (total_block_num fs)"
  shows "first_ino fs = Some 1" "\<exists>i. first_free fs = Some i" "\<not> dir_full fs (ino fs 0)"
proof -
  have g: "geom fs" using assms(1) by (simp add: fresh_fs_def fs_ok_def)
  have r: "root_ok fs" "is_dir fs (ino fs 0)" "entry fs (ino fs 0) = Map.empty"
    "\<And>k. ino_valid fs k \<Longrightarrow> k \<noteq> 0 \<Longrightarrow> in_type (ino fs k) = it_EMPTY"
    "\<And>b. data_blk fs b \<Longrightarrow> b \<noteq> in_block_id (ino fs 0) \<Longrightarrow> blk_free fs b"
    using assms(1) by (auto simp: fresh_fs_def)
  have ib: "0 < unat (inode_block_num fs)" using r(1) by (simp add: root_ok_def word_less_nat_alt)
  have v1: "ino_valid fs 1" using nat_ino(3) [OF g, of 1] ib by simp
  have "[0..<51 * unat (inode_block_num fs)] = 0 # [1..<51 * unat (inode_block_num fs)]"
    using ib by (subst upt_conv_Cons) auto
  moreover have "find (\<lambda>k. in_type (ino fs (of_nat k)) = it_EMPTY) [1..<51 * unat (inode_block_num fs)] = Some 1"
    using r(4) [OF v1] ib by (intro find_first) auto
  ultimately show "first_ino fs = Some 1" using r(1) by (simp add: first_ino_def root_ok_def)
  let ?n = "unat (inode_block_num fs)"
  have "blk_free fs (of_nat ?n) \<or> blk_free fs (of_nat (?n + 1))"
  proof (rule ccontr)
    assume nf: "\<not> ?thesis"
    have lt: "?n + 1 < 2 ^ 32" using assms(2) unat_lt_2p32 [of "total_block_num fs"] by linarith
    have u: "unat (of_nat ?n :: u32) = ?n" "unat (of_nat (?n + 1) :: u32) = ?n + 1"
      using lt by (intro unat_of_nat32; simp)+
    then have "data_blk fs (of_nat ?n)" "data_blk fs (of_nat (?n + 1))"
      using assms(2) by (simp_all add: data_blk_def word_le_nat_alt word_less_nat_alt del: of_nat_Suc of_nat_add)
    with nf r(5) have "of_nat ?n = (of_nat (?n + 1) :: u32)" by metis
    then have "unat (of_nat ?n :: u32) = unat (of_nat (?n + 1) :: u32)" by (rule arg_cong)
    then show False unfolding u by simp
  qed
  then obtain x where "x = ?n \<or> x = ?n + 1" "blk_free fs (of_nat x)" by blast
  then have "x \<in> set [?n..<unat (total_block_num fs)]" "blk_free fs (of_nat x)" using assms(2) by auto
  then have "first_free fs \<noteq> None" by (metis (mono_tags, lifting) first_free_def find_None_iff)
  then show "\<exists>i. first_free fs = Some i" by auto
  have "\<not> used (blk_data fs (in_block_id (ino fs 0))) 0"
  proof
    assume u: "used (blk_data fs (in_block_id (ino fs 0))) 0"
    have "dir_slot (blk_data fs (in_block_id (ino fs 0))) (dirent_name (blk_data fs (in_block_id (ino fs 0))) 0) \<noteq> None"
      using u by (auto simp: dir_slot_def find_None_iff)
    then show False using r(3) by (auto simp: entry_def dmap_def fun_eq_iff)
  qed
  then show "\<not> dir_full fs (ino fs 0)" by (auto simp: dir_full_def free_slot_def find_None_iff intro: exI [of _ 0])
qed

text \<open>The state the witnesses start from: a zeroed disk after \<open>init\<close>.\<close>

lemma fresh_exists:
  "\<exists>fs i. fs_init ''blkfs'' zero_rd blank_fs = Some fs \<and> fresh_fs fs \<and> fs_idle fs \<and>
     first_ino fs = Some 1 \<and> first_free fs = Some i \<and> \<not> dir_full fs (ino fs 0)"
proof -
  have l: "rd_len zero_rd div 1032 = 4064" by (simp add: zero_rd_def)
  obtain fs where fs: "fs_init ''blkfs'' zero_rd blank_fs = Some fs" "fresh_fs fs" "fs_idle fs"
    "total_block_num fs = 4064" "unat (inode_block_num fs) \<le> 80"
    using fs_init_fresh [OF blank_fs_cli _ zero_rd_magic, of "''blkfs''"] l by (auto simp: zero_rd_def)
  then show ?thesis using fresh_room [OF fs(2)] by auto
qed


lemma fresh_dir: "fresh_fs fs \<Longrightarrow> fs_ok fs \<and> root_ok fs \<and> is_dir fs (ino fs 0) \<and> entry fs (ino fs 0) = Map.empty"
  by (simp add: fresh_fs_def)

theorem mkdir_creates_witness:
  "\<exists>fs fs'. fs_init ''blkfs'' zero_rd blank_fs = Some fs \<and> fs_mkdir ''/a'' fs = Some (0, fs') \<and>
     entry fs' (ino fs 0) = [''a'' \<mapsto> 1]"
proof -
  obtain fs i where fs: "fs_init ''blkfs'' zero_rd blank_fs = Some fs" "fresh_fs fs" "fs_idle fs"
    "first_ino fs = Some 1" "first_free fs = Some i" "\<not> dir_full fs (ino fs 0)"
    using fresh_exists by blast
  have "\<exists>fs'. fs_mkdir (path_of ([] @ [''a''])) fs = Some (0, fs') \<and> entry fs' (ino fs 0) = [''a'' \<mapsto> 1]"
    using mkdir_creates [of fs "[]" "ino fs 0" "''a''" 1 i] fs fresh_dir [OF fs(2)]
    by (auto simp: plain_def c_string_def)
  then show ?thesis using fs(1) by (auto simp: path_of_def)
qed

text \<open>A name that exists, or a full directory, makes \<open>fs_mkdir\<close> return \<open>-1\<close>
  without changing anything.\<close>
lemma mkdir_refuses:
  assumes ok: "fs_ok fs" "fs_idle fs" "root_ok fs"
    and path: "walkable fs (ino fs 0) ns" "follow fs (ino fs 0) ns = Some dir" "is_dir fs dir"
    and n: "plain n" "length n < 15" "entry fs dir n \<noteq> None \<or> dir_full fs dir"
  shows "fs_mkdir (path_of (ns @ [n])) fs = Some (-1, fs)"
proof -
  let ?e = "fs_lk.entered fs"
  have "get_path_inode (path_of ns @ ''/'') ?e = Some (Some dir)"
    using get_path_dir_eq [of ?e ns] ok path by simp
  moreover have "create_filedir dir it_DIR (-1) n ?e = Some (-1, ?e)"
    using ok path(3) n by (intro create_filedir_exists) auto
  ultimately have "mkdir_body (path_of (ns @ [n])) ?e = Some (-1, ?e)"
    using path_parts [OF n(1), of ns] n(1) path(3) by (simp add: mkdir_body_def plain_def is_dir_def)
  then show ?thesis
    using fs_lock_entered [OF ok(2)] fs_unlock_entered [OF ok(2)] by (simp add: fs_mkdir_def)
qed

lemma mkdir_refuses_witness:
  "\<exists>fs fs'. fs_init ''blkfs'' zero_rd blank_fs = Some fs \<and> fs_mkdir ''/a'' fs = Some (0, fs') \<and>
     fs_mkdir ''/a'' fs' = Some (-1, fs')"
proof -
  obtain fs i where fs: "fs_init ''blkfs'' zero_rd blank_fs = Some fs" "fresh_fs fs" "fs_idle fs"
    "first_ino fs = Some 1" "first_free fs = Some i" "\<not> dir_full fs (ino fs 0)"
    using fresh_exists by blast
  let ?e = "fs_lk.entered fs" and ?p = "path_of ([] @ [''a''])"
  have g: "geom fs" "fs_ok fs" "root_ok fs" "is_dir fs (ino fs 0)" "entry fs (ino fs 0) = Map.empty"
    using fresh_dir [OF fs(2)] by (auto simp: fs_ok_def)
  obtain f where f: "create_filedir (ino fs 0) it_DIR (-1) ''a'' ?e = Some (1, f)" "fs_ok f"
    "is_dir f (ino fs 0)" "entry f (ino fs 0) = [''a'' \<mapsto> 1]" "ino f 0 = ino fs 0"
    using create_filedir_new [of ?e "ino fs 0" "''a''" it_DIR 1 i "-1"] g fs
    by (fastforce simp: it_DIR_def it_LINK_def it_EMPTY_def c_string_def ino_valid_def root_ok_def)
  have b: "mkdir_body ?p ?e = Some (0, f)"
    using path_parts [of "''a''" "[]"] get_path_dir_eq [of ?e "[]"] g f(1)
    by (simp add: mkdir_body_def plain_def is_dir_def)
  from fs_mkdir_locked [OF fs(3) this only_dev_mkdir [OF this]] obtain fs' where
    fs': "f = fs_lk.entered fs'" "fs_idle fs'" "fs_mkdir ?p fs = Some (0, fs')" "only_dev fs fs'" by blast
  have "root_ok fs'" using fs' f(5) g(3) only_dev_sel [OF fs'(4)] by (simp add: root_ok_def)
  then have "fs_mkdir ?p fs' = Some (-1, fs')"
    using f fs' by (intro mkdir_refuses [where dir = "ino fs 0"]) (auto simp: plain_def)
  then show ?thesis using fs(1) fs'(3) by (auto simp: path_of_def)
qed

text \<open>C13: \<open>fs_rm\<close> removes the name: afterwards the directory maps it to nothing and every
  other name as before; the inode loses one reference, and with the last one the inode becomes
  empty and its block free; every other inode and every other data block is unchanged.\<close>
theorem rm_removes:
  assumes ok: "fs_ok fs" "fs_idle fs" "root_ok fs"
    and path: "walkable fs (ino fs 0) ns" "follow fs (ino fs 0) ns = Some dir" "is_dir fs dir"
    and n: "plain n" "entry fs dir n = Some k"
    and k: "ino_valid fs k" "in_type (ino fs k) \<noteq> it_EMPTY" "in_id (ino fs k) = k"
    and blk: "has_block fs (ino fs k)" "in_block_id (ino fs k) \<noteq> in_block_id dir"
  shows "\<exists>fs'. fs_rm (path_of (ns @ [n])) fs = Some (0, fs') \<and> fs_ok fs' \<and> fs_idle fs' \<and>
     is_dir fs' dir \<and> entry fs' dir = (entry fs dir)(n := None) \<and>
     (if in_refcnt (ino fs k) = 1
      then in_type (ino fs' k) = it_EMPTY \<and> blk_free fs' (in_block_id (ino fs k))
      else ino fs' k = (ino fs k)\<lparr>in_refcnt := in_refcnt (ino fs k) - 1\<rparr>) \<and>
     (\<forall>m. ino_valid fs m \<and> m \<noteq> k \<longrightarrow> ino fs' m = ino fs m) \<and>
     (\<forall>c. data_blk fs c \<and> c \<noteq> in_block_id dir \<longrightarrow> blk_data fs' c = blk_data fs c)"
proof -
  let ?e = "fs_lk.entered fs"
  obtain f where f: "delete_filedir dir n ?e = Some f" "fs_ok f" "is_dir f dir"
    "entry f dir = (entry fs dir)(n := None)"
    "if in_refcnt (ino fs k) = 1
      then in_type (ino f k) = it_EMPTY \<and> blk_free f (in_block_id (ino fs k))
      else ino f k = (ino fs k)\<lparr>in_refcnt := in_refcnt (ino fs k) - 1\<rparr> \<and>
        blk_hdr f (in_block_id (ino fs k)) = blk_hdr fs (in_block_id (ino fs k))"
    "\<forall>m. ino_valid fs m \<and> m \<noteq> k \<longrightarrow> ino f m = ino fs m"
    "\<forall>c. data_blk fs c \<and> c \<noteq> in_block_id dir \<longrightarrow> blk_data f c = blk_data fs c"
    using delete_filedir_entry [of ?e dir n k] ok path(3) n(2) k blk by (auto cong: if_cong)
  have "get_path_inode (path_of ns @ ''/'') ?e = Some (Some dir)"
    using get_path_dir_eq [of ?e ns] ok path by simp
  then have "rm_body (path_of (ns @ [n])) ?e = Some (0, f)"
    using path_parts [OF n(1), of ns] n(1) path(3) f(1)
    by (simp add: rm_body_def plain_def is_dir_def)
  from fs_rm_locked [OF ok(2) this only_dev_rm [OF this]] obtain fs' where
    "f = fs_lk.entered fs'" "fs_idle fs'" "fs_rm (path_of (ns @ [n])) fs = Some (0, fs')" by blast
  then show ?thesis using f by (intro exI [of _ fs']) (auto split: if_splits)
qed

theorem rm_removes_witness:
  "\<exists>fs f fs'. fs_init ''blkfs'' zero_rd blank_fs = Some fs \<and> fs_mkdir ''/a'' fs = Some (0, f) \<and>
     fs_rm ''/a'' f = Some (0, fs') \<and> entry fs' (ino fs 0) = Map.empty"
proof -
  obtain fs i where fs: "fs_init ''blkfs'' zero_rd blank_fs = Some fs" "fresh_fs fs" "fs_idle fs"
    "first_ino fs = Some 1" "first_free fs = Some i" "\<not> dir_full fs (ino fs 0)"
    using fresh_exists by blast
  let ?e = "fs_lk.entered fs" and ?p = "path_of ([] @ [''a''])"
  have g: "geom fs" "fs_ok fs" "root_ok fs" "is_dir fs (ino fs 0)" "entry fs (ino fs 0) = Map.empty"
    using fresh_dir [OF fs(2)] by (auto simp: fs_ok_def)
  note ii = first_free_data [OF g(1) fs(5)]
  obtain f where f: "create_filedir (ino fs 0) it_DIR (-1) ''a'' ?e = Some (1, f)" "fs_ok f"
    "is_dir f (ino fs 0)" "entry f (ino fs 0) = [''a'' \<mapsto> 1]" "ino f 0 = ino fs 0"
    "ino f 1 = \<lparr>in_type = it_DIR, in_id = 1, in_block_id = of_nat i, in_refcnt = 1, in_size = 0\<rparr>"
    "bk_type (blk_hdr f (of_nat i)) = t_USING"
    using create_filedir_new [of ?e "ino fs 0" "''a''" it_DIR 1 i "-1"] g fs ii
    by (fastforce simp: it_DIR_def it_LINK_def it_EMPTY_def c_string_def ino_valid_def root_ok_def)
  have b: "mkdir_body ?p ?e = Some (0, f)"
    using path_parts [of "''a''" "[]"] get_path_dir_eq [of ?e "[]"] g f(1)
    by (simp add: mkdir_body_def plain_def is_dir_def)
  from fs_mkdir_locked [OF fs(3) this only_dev_mkdir [OF this]] obtain fs' where
    fs': "f = fs_lk.entered fs'" "fs_idle fs'" "fs_mkdir ?p fs = Some (0, fs')" "only_dev fs fs'" by blast
  note sel = only_dev_sel [OF fs'(4)]
  have "root_ok fs'" using fs' f(5) g(3) sel by (simp add: root_ok_def)
  moreover have "of_nat i \<noteq> in_block_id (ino fs 0)" using ii g(4) by (auto simp: is_dir_def)
  moreover have "ino_valid fs 1" using first_ino_SomeD [OF g(1) fs(4)] by simp
  ultimately have "\<exists>fs''. fs_rm ?p fs' = Some (0, fs'') \<and> entry fs'' (ino fs 0) = Map.empty"
    using rm_removes [of fs' "[]" "ino fs 0" "''a''" 1] f fs' sel ii
    by (auto simp: plain_def has_block_def it_DIR_def it_EMPTY_def)
  then show ?thesis using fs(1) fs'(3) by (auto simp: path_of_def)
qed


text \<open>C22: Path resolution is the walk over the directory tree that the path names: looking up
  \<open>/n1/.../nk\<close> gives the inode reached from the root through the entries \<open>n1\<close>, ...,
  \<open>nk\<close>, or \<open>NULL\<close> when one of them is missing, and always returns.\<close>
theorem path_resolution:
  assumes "fs_ok fs" "root_ok fs" "walkable fs (ino fs 0) ns"
  shows "get_path_inode (path_of ns) fs = Some (follow fs (ino fs 0) ns)"
  using get_path_inode_eq [of fs ns] assms by (simp add: root_ok_def)

theorem path_resolution_witness:
  "\<exists>fs. fs_init ''blkfs'' zero_rd blank_fs = Some fs \<and> get_path_inode ''/x/y'' fs = Some None"
proof -
  obtain fs where fs: "fs_init ''blkfs'' zero_rd blank_fs = Some fs" "fresh_fs fs"
    using fresh_exists by blast
  have "get_path_inode (path_of [''x'', ''y'']) fs = Some None"
    using path_resolution [of fs "[''x'', ''y'']"] fresh_dir [OF fs(2)] by (simp add: plain_def)
  then show ?thesis using fs(1) by (auto simp: path_of_def)
qed

text \<open>A path that uses a regular file as a directory does not fail with an error code: the
  assertion in \<open>get_filedir\<close> stops the kernel, while the file system is locked.\<close>
lemma path_through_file_stops:
  assumes "fs_ok fs" "root_ok fs" "is_dir fs (ino fs 0)" "plain f" "length f < 15" "plain n"
    and "entry fs (ino fs 0) f = Some k" "k \<noteq> -1" "ino_valid fs k" "in_type (ino fs k) = it_FILE"
  shows "get_path_inode (path_of [f, n]) fs = None"
proof -
  have v: "ino_valid fs 0" "geom fs" using assms(1,2) by (simp_all add: ino_valid_def fs_ok_def root_ok_def)
  have "get_filedir (ino fs 0) f fs = Some k"
    using get_filedir_eq [OF assms(1,3,5)] assms(7) by simp
  then have "path_walk (ino fs 0) (path_of [f, n]) fs = path_walk (ino fs k) (path_of [n]) fs"
    using assms(8-10) v
    by (subst path_walk.simps) (simp add: path_next_name_path_of [OF assms(4)] inode_get_eq it_FILE_def it_EMPTY_def)
  also have "\<dots> = None"
    by (rule path_walk_through_file) (use assms in \<open>auto simp: it_FILE_def it_DIR_def\<close>)
  finally show ?thesis
    using assms(2) v by (simp add: get_path_inode_def get_root_inode_def inode_get_eq root_ok_def)
qed

lemma path_through_file_stops_witness:
  "\<exists>(fs :: blkfs) f k. create_filedir (ino fs 0) it_FILE (-1) ''a'' fs = Some (k, f) \<and>
     get_path_inode ''/a/b'' f = None"
proof -
  obtain fs :: blkfs and i where fs: "fresh_fs fs" "first_ino fs = Some 1" "first_free fs = Some i" "\<not> dir_full fs (ino fs 0)"
    using fresh_exists by auto
  have g: "geom fs" "fs_ok fs" "root_ok fs" "is_dir fs (ino fs 0)" "entry fs (ino fs 0) = Map.empty"
    using fresh_dir [OF fs(1)] by (auto simp: fs_ok_def)
  obtain f where f: "create_filedir (ino fs 0) it_FILE (-1) ''a'' fs = Some (1, f)" "fs_ok f"
    "is_dir f (ino fs 0)" "entry f (ino fs 0) = [''a'' \<mapsto> 1]" "ino f 0 = ino fs 0" "in_type (ino f 1) = it_FILE"
    using create_filedir_new [of fs "ino fs 0" "''a''" it_FILE 1 i "-1"] g fs
    by (fastforce simp: it_FILE_def it_LINK_def it_EMPTY_def c_string_def ino_valid_def root_ok_def)
  note sel = only_dev_sel [OF only_dev_create [OF f(1)]]
  have "ino_valid fs 1" using first_ino_SomeD [OF g(1) fs(2)] by simp
  then have "get_path_inode (path_of [''a'', ''b'']) f = None"
    using f g sel by (intro path_through_file_stops [where k = 1]) (auto simp: root_ok_def plain_def)
  then show ?thesis using f(1) by (auto simp: path_of_def)
qed

text \<open>C17: What \<open>write\<close> stores, \<open>read\<close> gives back: a write at the file's offset stores
  as many bytes as fit into the file's block, advances the offset by that many, and a later read
  of that many bytes from the same offset returns exactly them; no other block changes.\<close>
theorem write_read:
  assumes ok: "fs_ok fs" and f: "f_flags f = FILE_WRITE" "vn_ptr (f_inode f) = Some node" "f_offset f \<le> 1024"
    and node: "data_blk fs (in_block_id node)" "in_block_id node \<noteq> -1" "ino_valid fs (in_id node)"
      "unat (in_size node) \<le> 1024"
    and n: "unat n \<le> length buf"
  shows "\<exists>f' fs'. inode_write f buf n fs = Some (of_nat (write_count f n), f', fs') \<and> fs_ok fs' \<and>
     f_offset f' = f_offset f + write_count f n \<and>
     (\<exists>g. inode_read (f'\<lparr>f_flags := FILE_READ, f_offset := f_offset f\<rparr>) (of_nat (write_count f n)) fs' =
        Some (of_nat (write_count f n), take (write_count f n) buf, g)) \<and>
     (\<forall>b. data_blk fs b \<and> b \<noteq> in_block_id node \<longrightarrow> blk_data fs' b = blk_data fs b)"
proof -
  let ?c = "write_count f n" and ?b = "in_block_id node" and ?off = "f_offset f"
  let ?xs = "put_at ?off (take ?c buf) (blk_data fs ?b)"
  let ?fs1 = "set_data ?b ?xs fs"
  have c: "?off + ?c \<le> 1024" "?c \<le> length buf" using f(3) n by (auto simp: write_count_def)
  have g: "geom fs" using ok by (simp add: fs_ok_def)
  have len: "length ?xs = 1024" using c by simp
  have sub: "bytes_at ?off ?c ?xs = take ?c buf"
    using bytes_at_put_same [of ?off "take ?c buf" "blk_data fs ?b"] c by simp
  note w = inode_write_eq [OF ok f node(1,2,3) n]
  have ok1: "fs_ok ?fs1" using ok node(1) len by simp
  have uc: "unat (of_nat (write_count f n) :: u32) = ?c" "unat (of_nat (?off + ?c) :: u32) = ?off + ?c"
    using c by (intro unat_of_nat32; simp)+
  show ?thesis
  proof (cases "unat (in_size node) < ?off + ?c")
    case True
    let ?node = "node\<lparr>in_size := of_nat (?off + ?c)\<rparr>"
    let ?f' = "f\<lparr>f_offset := ?off + ?c, f_inode := (f_inode f)\<lparr>vn_ptr := Some ?node\<rparr>\<rparr>"
    let ?fs' = "set_ino (in_id node) ?node ?fs1"
    have "blk_data ?fs' ?b = ?xs" using g node len by simp
    moreover have ok': "fs_ok ?fs'" using ok1 node(3) by simp
    moreover have "inode_read (?f'\<lparr>f_flags := FILE_READ, f_offset := ?off\<rparr>) (of_nat ?c) ?fs' =
        Some (of_nat ?c, take ?c buf, ?f'\<lparr>f_flags := FILE_READ, f_offset := ?off + ?c\<rparr>)"
      using inode_read_eq [OF ok', of "?f'\<lparr>f_flags := FILE_READ, f_offset := ?off\<rparr>" ?node "of_nat ?c"]
        node c uc sub calculation(1) by simp
    moreover have "\<forall>b. data_blk fs b \<and> b \<noteq> ?b \<longrightarrow> blk_data ?fs' b = blk_data fs b"
      using g node len by auto
    moreover have "inode_write f buf n fs = Some (of_nat ?c, ?f', ?fs')" using w True by simp
    ultimately show ?thesis by (intro exI [of _ ?f'] exI [of _ ?fs']) auto
  next
    case False
    let ?f' = "f\<lparr>f_offset := ?off + ?c\<rparr>"
    have "inode_read (?f'\<lparr>f_flags := FILE_READ, f_offset := ?off\<rparr>) (of_nat ?c) ?fs1 =
        Some (of_nat ?c, take ?c buf, ?f'\<lparr>f_flags := FILE_READ, f_offset := ?off + ?c\<rparr>)"
      using inode_read_eq [OF ok1, of "?f'\<lparr>f_flags := FILE_READ, f_offset := ?off\<rparr>" node "of_nat ?c"]
        node c uc sub False f(2) g len by simp
    moreover have "\<forall>b. data_blk fs b \<and> b \<noteq> ?b \<longrightarrow> blk_data ?fs1 b = blk_data fs b"
      using g node len by auto
    moreover have "inode_write f buf n fs = Some (of_nat ?c, ?f', ?fs1)" using w False by simp
    ultimately show ?thesis using ok1 by (intro exI [of _ ?f'] exI [of _ ?fs1]) auto
  qed
qed

definition demo_file :: "'a blkfs_scheme \<Rightarrow> bfile" where
  "demo_file fs = \<lparr>f_refcnt = 1, f_flags = FILE_WRITE,
     f_inode = \<lparr>vn_refcnt = 1, vn_ptr = Some ((ino fs 1)\<lparr>in_size := 0\<rparr>), vn_path = ''/a''\<rparr>, f_offset = 1020\<rparr>"

theorem write_read_witness:
  "\<exists>(fs :: blkfs) f r. create_filedir (ino fs 0) it_FILE (-1) ''a'' fs = Some (1, f) \<and>
     inode_write (demo_file f) [1, 2, 3, 4, 5, 6] 6 f = Some (4, r)"
proof -
  obtain fs :: blkfs and i where fs: "fresh_fs fs" "first_ino fs = Some 1" "first_free fs = Some i" "\<not> dir_full fs (ino fs 0)"
    using fresh_exists by auto
  have g: "geom fs" "fs_ok fs" "root_ok fs" "is_dir fs (ino fs 0)" "entry fs (ino fs 0) = Map.empty"
    using fresh_dir [OF fs(1)] by (auto simp: fs_ok_def)
  note ii = first_free_data [OF g(1) fs(3)]
  obtain f where f: "create_filedir (ino fs 0) it_FILE (-1) ''a'' fs = Some (1, f)" "fs_ok f"
    "ino f 1 = \<lparr>in_type = it_FILE, in_id = 1, in_block_id = of_nat i, in_refcnt = 1, in_size = 0\<rparr>"
    using create_filedir_new [of fs "ino fs 0" "''a''" it_FILE 1 i "-1"] g fs
    by (fastforce simp: it_FILE_def it_LINK_def it_EMPTY_def c_string_def)
  note sel = only_dev_sel [OF only_dev_create [OF f(1)]]
  have "ino_valid fs 1" using first_ino_SomeD [OF g(1) fs(2)] by simp
  moreover have "write_count (demo_file f) 6 = 4" by (simp add: write_count_def demo_file_def)
  ultimately have "\<exists>r. inode_write (demo_file f) [1, 2, 3, 4, 5, 6] 6 f = Some (4, r)"
    using write_read [OF f(2), of "demo_file f" "(ino f 1)\<lparr>in_size := 0\<rparr>" 6 "[1, 2, 3, 4, 5, 6]"] f(3) sel ii
    by (auto simp: demo_file_def)
  then show ?thesis using f(1) by blast
qed

text \<open>\<open>lseek\<close> on an open file never leaves the file: every offset beyond the size, and
  every negative one (the comparison is unsigned), moves to the end of the file.\<close>
lemma lseek_clamps:
  assumes "f_flags f = FILE_READ \<or> f_flags f = FILE_WRITE" "vn_ptr (f_inode f) = Some node"
  shows "inode_lseek f offset = (min offset (in_size node), f\<lparr>f_offset := unat (min offset (in_size node))\<rparr>) \<and>
     (unat (in_size node) < 2 ^ 31 \<and> sint offset < 0 \<longrightarrow> fst (inode_lseek f offset) = in_size node)"
proof -
  have eq: "inode_lseek f offset = (min offset (in_size node), f\<lparr>f_offset := unat (min offset (in_size node))\<rparr>)"
    using assms by (auto simp: inode_lseek_def min_def Let_def)
  have "in_size node \<le> offset" if "unat (in_size node) < 2 ^ 31" "sint offset < 0"
  proof (rule ccontr)
    assume "\<not> in_size node \<le> offset"
    then have "unat offset < unat (in_size node)" by (simp add: word_le_nat_alt)
    then have "unat offset < 2147483648" using that(1) by simp
    then have "uint offset < 2147483648" by (simp only: unat_eq_nat_uint nat_less_iff uint_ge_0)
    moreover have "- 2147483648 \<le> uint offset" by (rule order_trans [of _ 0]) simp_all
    ultimately have "signed_take_bit 31 (uint offset) = uint offset"
      by (intro signed_take_bit_int_eq_self) simp_all
    then show False using that(2) by (simp add: sint_uint)
  qed
  then show ?thesis using eq by (auto simp: min_def)
qed

definition demo_reader :: bfile where
  "demo_reader = \<lparr>f_refcnt = 1, f_flags = FILE_READ, f_inode = \<lparr>vn_refcnt = 1, vn_ptr = Some
       \<lparr>in_type = it_FILE, in_id = 1, in_block_id = 9, in_refcnt = 1, in_size = 100\<rparr>, vn_path = ''/a''\<rparr>,
     f_offset = 0\<rparr>"

lemma lseek_clamps_witness:
  "inode_lseek demo_reader (-1) = (100, demo_reader\<lparr>f_offset := 100\<rparr>)"
proof -
  have "\<not> (-1 :: u32) \<le> 100"
    by (simp add: word_le_nat_alt unsigned_minus_1_eq_mask mask_eq_exp_minus_1)
  then show ?thesis using lseek_clamps [of demo_reader
      "\<lparr>in_type = it_FILE, in_id = 1, in_block_id = 9, in_refcnt = 1, in_size = 100\<rparr>" "-1"]
    by (simp add: demo_reader_def min_def)
qed

text \<open>\<open>fs_close\<close> of a \<open>NULL\<close> inode returns \<open>-1\<close> with the lock still held and
  interrupts off: every later operation on the file system then fails to return.\<close>
lemma close_null_keeps_lock:
  assumes "fs_idle fs"
  shows "\<exists>fs'. fs_close None fs = Some (-1, fs') \<and> sl_locked (fs_lock fs') = 1 \<and>
     \<not> intr_on fs' (cur_cpu fs') \<and>
     fs_mkdir p fs' = None \<and> fs_rm p fs' = None \<and> fs_link p q fs' = None \<and> fs_readdir p fs' = None"
proof -
  let ?e = "fs_lk.entered fs"
  have t: "fs_lock ?e = taken (cur_cpu fs) (fs_lock fs)" by (rule fs_lk.get_entered)
  have c: "cli_ok ?e" by (rule inside_cli_ok [OF fs_lk.inside_entered]) (use assms in \<open>simp add: fs_idle_def\<close>)
  have "lock_on fs_lock fs_lock_update ?e = None"
    using spin_lock_recursive [OF c, of "fs_lock ?e"] t by (simp add: lock_on_def taken_def)
  moreover have "intr_on ?e (cur_cpu ?e) = False"
    using fs_lk.inside_entered [of fs] by (simp add: inside_def pushed_def)
  ultimately show ?thesis
    using fs_lock_entered [OF assms] t
    by (simp add: fs_close_def fs_mkdir_def fs_rm_def fs_link_def fs_readdir_def taken_def)
qed

lemma close_null_keeps_lock_witness:
  "\<exists>fs'. fs_close None blank_fs = Some (-1, fs') \<and> fs_mkdir ''/a'' fs' = None"
  using close_null_keeps_lock [of blank_fs "''/a''" "''/b''"]
  by (auto simp: fs_idle_def blank_fs_def spin_init_def lock_free_def cli_ok_def hw_defs)

end
