(* ===== verification/Pmm.thy ===== *)
theory Pmm
  imports Klib Spin
begin

text \<open>
  The physical memory allocator (\<open>pmm.c\<close>): a first-fit free list threaded through the heap,
  \<open>[pm_start, pm_end)\<close>. A free node and an allocated block both start with a header of three
  words (12 bytes on the 32-bit target): \<open>magic\<close>, \<open>size\<close> and \<open>next\<close> for a
  node, \<open>magic\<close>, \<open>size\<close> and \<open>data\<close> for a block. The model keeps the
  headers as bytes of the memory, with the pointer arithmetic of the code on 32-bit words.
\<close>

section \<open>State and headers\<close>

record pmm = hw +
  mem :: mem
  pm_start :: u32
  pm_end :: u32
  pm_head :: u32
  pmm_lock :: spinlock

definition node_magic :: u32 where "node_magic = 12345678"
definition block_magic :: u32 where "block_magic = 31579846"

text \<open>\<open>sizeof(node) = sizeof(block)\<close>; \<open>init\<close> asserts that they agree.\<close>

definition node_size :: u32 where "node_size = 12"

definition nd_magic :: "mem \<Rightarrow> u32 \<Rightarrow> u32" where "nd_magic m nd = ld32 m nd"
definition nd_size :: "mem \<Rightarrow> u32 \<Rightarrow> u32" where "nd_size m nd = ld32 m (nd + 4)"
definition nd_next :: "mem \<Rightarrow> u32 \<Rightarrow> u32" where "nd_next m nd = ld32 m (nd + 8)"

definition node_init :: "mem \<Rightarrow> u32 \<Rightarrow> u32 \<Rightarrow> mem" where
  "node_init m nd sz = st32 (st32 (st32 m nd node_magic) (nd + 8) 0) (nd + 4) sz"

text \<open>The first component is the node pointer the function returns.\<close>

definition node_split :: "mem \<Rightarrow> u32 \<Rightarrow> u32 \<Rightarrow> (u32 \<times> mem) option" where
  "node_split m nd first_size = do {
     Assert (nd \<noteq> 0);
     if nd_size m nd < first_size + node_size then Some (0, m)
     else do {
       let full_size = nd_size m nd;
       let nxt = nd_next m nd;
       let new_node = nd + node_size + first_size;
       let m = node_init m new_node (full_size - first_size - node_size);
       let m = st32 m (nd + 8) new_node;
       let m = st32 m (nd + 4) first_size;
       let m = st32 m (new_node + 8) nxt;
       Some (nd, m) } }"

definition node_combine :: "mem \<Rightarrow> u32 \<Rightarrow> (u32 \<times> mem) option" where
  "node_combine m nd = do {
     Assert (nd \<noteq> 0);
     if nd + node_size + nd_size m nd \<noteq> nd_next m nd then Some (0, m)
     else do {
       Assert (nd_next m nd \<noteq> 0);
       let m = st32 m (nd + 4) (nd_size m nd + nd_size m (nd_next m nd) + node_size);
       let m = st32 m (nd + 8) (nd_next m (nd_next m nd));
       Some (nd, m) } }"

text \<open>Returns the node found (0 for \<open>NULL\<close>) and the value left in \<open>*last\<close>.\<close>

partial_function (option) find_size_loop :: "mem \<Rightarrow> u32 \<Rightarrow> u32 \<Rightarrow> u32 \<Rightarrow> (u32 \<times> u32) option" where
  "find_size_loop m sz cur lst =
     (if cur = 0 then Some (0, lst)
      else if sz \<le> nd_size m cur then Some (cur, lst)
      else find_size_loop m sz (nd_next m cur) cur)"

definition node_find_size :: "'a pmm_scheme \<Rightarrow> u32 \<Rightarrow> (u32 \<times> u32) option" where
  "node_find_size s sz = find_size_loop (mem s) sz (pm_head s) 0"

partial_function (option) find_position_loop :: "mem \<Rightarrow> u32 \<Rightarrow> u32 \<Rightarrow> u32 \<Rightarrow> u32 option" where
  "find_position_loop m pos cur ans =
     (if cur = 0 then Some ans
      else find_position_loop m pos (nd_next m cur) (if cur \<le> pos then cur else ans))"

definition node_find_position :: "'a pmm_scheme \<Rightarrow> u32 \<Rightarrow> u32 option" where
  "node_find_position s pos = find_position_loop (mem s) pos (pm_head s) 0"

definition block_init :: "mem \<Rightarrow> u32 \<Rightarrow> u32 \<Rightarrow> mem" where
  "block_init m bk sz = st32 (st32 (st32 m bk block_magic) (bk + 4) sz) (bk + 8) block_magic"

definition block_clear :: "mem \<Rightarrow> u32 \<Rightarrow> mem" where
  "block_clear m bk = memset m (bk + node_size) 0 (nd_size m bk)"

section \<open>The module's operations\<close>

text \<open>\<open>_heap\<close> is the area the machine hands over.\<close>

definition pmm_init :: "u32 \<Rightarrow> u32 \<Rightarrow> 'a pmm_scheme \<Rightarrow> 'a pmm_scheme" where
  "pmm_init heap_start heap_end s =
     s\<lparr>pm_start := heap_start, pm_end := heap_end, pm_head := heap_start,
       mem := node_init (mem s) heap_start (heap_end - heap_start - node_size),
       pmm_lock := spin_init ''pmm-spinlock''\<rparr>"

definition alloc_body :: "u32 \<Rightarrow> 'a pmm_scheme \<Rightarrow> (u32 \<times> 'a pmm_scheme) option" where
  "alloc_body sz s = do {
     (nd, lst) \<leftarrow> node_find_size s (sz + node_size);
     if nd = 0 then Some (0, s)
     else do {
       Assert (nd_magic (mem s) nd = node_magic);
       (r, m) \<leftarrow> node_split (mem s) nd sz;
       Assert (r \<noteq> 0);
       s \<leftarrow> (if nd = pm_head s
          then do { Assert (lst = 0); Some (s\<lparr>mem := m, pm_head := nd_next m nd\<rparr>) }
          else do { Assert (lst \<noteq> 0); Some (s\<lparr>mem := st32 m (lst + 8) (nd_next m nd)\<rparr>) });
       let m = block_init (mem s) nd sz;
       let m = block_clear m nd;
       Some (nd + node_size, s\<lparr>mem := m\<rparr>) } }"

definition pmm_alloc :: "u32 \<Rightarrow> 'a pmm_scheme \<Rightarrow> (u32 \<times> 'a pmm_scheme) option" where
  "pmm_alloc sz s = do {
     s \<leftarrow> lock_on pmm_lock pmm_lock_update s;
     (res, s) \<leftarrow> alloc_body sz s;
     s \<leftarrow> unlock_on pmm_lock pmm_lock_update s;
     Some (res, s) }"

definition free_body :: "u32 \<Rightarrow> 'a pmm_scheme \<Rightarrow> 'a pmm_scheme option" where
  "free_body ptr s = do {
     let bk = ptr - node_size;
     Assert (nd_magic (mem s) bk = block_magic);
     let s = s\<lparr>mem := node_init (mem s) bk (nd_size (mem s) bk)\<rparr>;
     tnd \<leftarrow> node_find_position s bk;
     if tnd = 0 then do {
       let m = st32 (mem s) (bk + 8) (pm_head s);
       (_, m) \<leftarrow> node_combine m bk;
       Some (s\<lparr>pm_head := bk, mem := m\<rparr>) }
     else do {
       let m = st32 (mem s) (bk + 8) (nd_next (mem s) tnd);
       let m = st32 m (tnd + 8) bk;
       (cmnd, m) \<leftarrow> node_combine m tnd;
       (_, m) \<leftarrow> (if cmnd = 0 then node_combine m bk else node_combine m tnd);
       Some (s\<lparr>mem := m\<rparr>) } }"

definition pmm_free :: "u32 \<Rightarrow> 'a pmm_scheme \<Rightarrow> 'a pmm_scheme option" where
  "pmm_free ptr s =
     (if ptr = 0 then Some s
      else do {
        s \<leftarrow> lock_on pmm_lock pmm_lock_update s;
        s \<leftarrow> free_body ptr s;
        unlock_on pmm_lock pmm_lock_update s })"

interpretation pmm_lk: lock_field pmm_lock pmm_lock_update
  by unfold_locales auto


section \<open>The heap as a list of segments\<close>

text \<open>A segment is \<open>(used, address of its header, size)\<close>.\<close>

type_synonym seg = "bool \<times> nat \<times> nat"

fun tiling :: "nat \<Rightarrow> nat \<Rightarrow> seg list \<Rightarrow> bool" where
  "tiling lo hi [] = (lo = hi)"
| "tiling lo hi ((u, a, n) # ss) = (a = lo \<and> tiling (lo + 12 + n) hi ss)"

fun coalesced :: "seg list \<Rightarrow> bool" where
  "coalesced ((u, a, n) # (v, b, k) # ss) = ((u \<or> v) \<and> coalesced ((v, b, k) # ss))"
| "coalesced ss = True"

definition frees :: "seg list \<Rightarrow> nat list" where
  "frees ss = map (\<lambda>(u, a, n). a) (filter (\<lambda>(u, a, n). \<not> u) ss)"

fun seg_ok :: "mem \<Rightarrow> seg \<Rightarrow> bool" where
  "seg_ok m (u, a, n) \<longleftrightarrow> nd_magic m (of_nat a) = (if u then block_magic else node_magic) \<and>
     nd_size m (of_nat a) = of_nat n"

text \<open>The free list from \<open>p\<close> up to \<open>q\<close> visits exactly the nodes at \<open>as\<close>.\<close>

fun lseg :: "mem \<Rightarrow> u32 \<Rightarrow> nat list \<Rightarrow> u32 \<Rightarrow> bool" where
  "lseg m p [] q = (p = q)"
| "lseg m p (a # as) q = (p = of_nat a \<and> lseg m (nd_next m (of_nat a)) as q)"

definition lay :: "mem \<Rightarrow> u32 \<Rightarrow> nat \<Rightarrow> nat \<Rightarrow> seg list \<Rightarrow> bool" where
  "lay m h lo hi ss \<longleftrightarrow> 0 < lo \<and> hi < 2 ^ 32 \<and> tiling lo hi ss \<and> list_all (seg_ok m) ss \<and>
     lseg m h (frees ss) 0"

definition heap_ok :: "'a pmm_scheme \<Rightarrow> seg list \<Rightarrow> bool" where
  "heap_ok s ss \<longleftrightarrow> lay (mem s) (pm_head s) (unat (pm_start s)) (unat (pm_end s)) ss \<and> coalesced ss"

lemma frees_simps [simp]:
  "frees [] = []" "frees ((u, a, n) # ss) = (if u then frees ss else a # frees ss)"
  "frees (xs @ ys) = frees xs @ frees ys"
  by (simp_all add: frees_def)

lemma lseg_append [simp]: "lseg m p (as @ bs) q \<longleftrightarrow> (\<exists>r. lseg m p as r \<and> lseg m r bs q)"
  by (induction as arbitrary: p) auto

lemma tiling_append [simp]:
  "tiling lo hi (xs @ ys) \<longleftrightarrow> (\<exists>mid. tiling lo mid xs \<and> tiling mid hi ys)"
  by (induction lo hi xs rule: tiling.induct) auto

lemma tiling_le: "tiling lo hi ss \<Longrightarrow> lo \<le> hi"
  by (induction lo hi ss rule: tiling.induct) auto

lemma tiling_in:
  "tiling lo hi ss \<Longrightarrow> (u, a, n) \<in> set ss \<Longrightarrow> lo \<le> a \<and> a + 12 + n \<le> hi"
  by (induction lo hi ss rule: tiling.induct) (auto dest: tiling_le)

lemma frees_set: "a \<in> set (frees ss) \<longleftrightarrow> (\<exists>n. (False, a, n) \<in> set ss)"
  by (force simp: frees_def image_iff)

lemma tiling_frees: "tiling lo hi ss \<Longrightarrow> a \<in> set (frees ss) \<Longrightarrow> lo \<le> a \<and> a + 12 \<le> hi"
  using tiling_in by (fastforce simp: frees_set)

section \<open>Headers do not overlap\<close>

definition sep :: "nat \<Rightarrow> nat \<Rightarrow> bool" where
  "sep a b \<longleftrightarrow> a + 12 < 2 ^ 32 \<and> b + 12 < 2 ^ 32 \<and> (a + 12 \<le> b \<or> b + 12 \<le> a)"

lemma ld32_st32_hdr:
  assumes "sep a b" "i + 4 \<le> 12" "j + 4 \<le> 12"
  shows "ld32 (st32 m (of_nat a + of_nat i) w) (of_nat b + of_nat j) = ld32 m (of_nat b + of_nat j)"
proof (rule ld32_st32_apart)
  have "unat (of_nat a + of_nat i :: u32) = a + i" "unat (of_nat b + of_nat j :: u32) = b + j"
    using assms unat_of_nat32 [of "a + i"] unat_of_nat32 [of "b + j"] by (auto simp: sep_def)
  then show "apart (of_nat a + of_nat i) 4 (of_nat b + of_nat j) 4"
    using assms by (auto simp: apart_def sep_def)
qed

lemma ld32_st32_fld:
  assumes "a + 12 < 2 ^ 32" "i + 4 \<le> 12" "j + 4 \<le> 12" "i + 4 \<le> j \<or> j + 4 \<le> i"
  shows "ld32 (st32 m (of_nat a + of_nat i) w) (of_nat a + of_nat j) = ld32 m (of_nat a + of_nat j)"
proof (rule ld32_st32_apart)
  have "unat (of_nat a + of_nat i :: u32) = a + i" "unat (of_nat a + of_nat j :: u32) = a + j"
    using assms unat_of_nat32 [of "a + i"] unat_of_nat32 [of "a + j"] by auto
  then show "apart (of_nat a + of_nat i) 4 (of_nat a + of_nat j) 4"
    using assms by (auto simp: apart_def)
qed

lemmas nd_defs = nd_magic_def nd_size_def nd_next_def

lemma hdr_other [simp]:
  assumes "sep a b"
  shows "nd_magic (st32 m (of_nat a) w) (of_nat b) = nd_magic m (of_nat b)"
    "nd_magic (st32 m (of_nat a + 4) w) (of_nat b) = nd_magic m (of_nat b)"
    "nd_magic (st32 m (of_nat a + 8) w) (of_nat b) = nd_magic m (of_nat b)"
    "nd_size (st32 m (of_nat a) w) (of_nat b) = nd_size m (of_nat b)"
    "nd_size (st32 m (of_nat a + 4) w) (of_nat b) = nd_size m (of_nat b)"
    "nd_size (st32 m (of_nat a + 8) w) (of_nat b) = nd_size m (of_nat b)"
    "nd_next (st32 m (of_nat a) w) (of_nat b) = nd_next m (of_nat b)"
    "nd_next (st32 m (of_nat a + 4) w) (of_nat b) = nd_next m (of_nat b)"
    "nd_next (st32 m (of_nat a + 8) w) (of_nat b) = nd_next m (of_nat b)"
  using ld32_st32_hdr [OF assms, of 0 0 m w] ld32_st32_hdr [OF assms, of 4 0 m w]
    ld32_st32_hdr [OF assms, of 8 0 m w] ld32_st32_hdr [OF assms, of 0 4 m w]
    ld32_st32_hdr [OF assms, of 4 4 m w] ld32_st32_hdr [OF assms, of 8 4 m w]
    ld32_st32_hdr [OF assms, of 0 8 m w] ld32_st32_hdr [OF assms, of 4 8 m w]
    ld32_st32_hdr [OF assms, of 8 8 m w]
  by (simp_all add: nd_defs)

lemma hdr_same [simp]:
  assumes "a + 12 < 2 ^ 32"
  shows "nd_magic (st32 m (of_nat a) w) (of_nat a) = w"
    "nd_magic (st32 m (of_nat a + 4) w) (of_nat a) = nd_magic m (of_nat a)"
    "nd_magic (st32 m (of_nat a + 8) w) (of_nat a) = nd_magic m (of_nat a)"
    "nd_size (st32 m (of_nat a) w) (of_nat a) = nd_size m (of_nat a)"
    "nd_size (st32 m (of_nat a + 4) w) (of_nat a) = w"
    "nd_size (st32 m (of_nat a + 8) w) (of_nat a) = nd_size m (of_nat a)"
    "nd_next (st32 m (of_nat a) w) (of_nat a) = nd_next m (of_nat a)"
    "nd_next (st32 m (of_nat a + 4) w) (of_nat a) = nd_next m (of_nat a)"
    "nd_next (st32 m (of_nat a + 8) w) (of_nat a) = w"
  using ld32_st32_fld [OF assms, of 4 0 m w] ld32_st32_fld [OF assms, of 8 0 m w]
    ld32_st32_fld [OF assms, of 0 4 m w] ld32_st32_fld [OF assms, of 8 4 m w]
    ld32_st32_fld [OF assms, of 0 8 m w] ld32_st32_fld [OF assms, of 4 8 m w]
  by (simp_all add: nd_defs)

text \<open>An update confined to the header of \<open>a\<close> and to bytes outside every header keeps
  the other segments.\<close>

definition same_hdr :: "mem \<Rightarrow> mem \<Rightarrow> nat \<Rightarrow> bool" where
  "same_hdr m m' b \<longleftrightarrow> nd_magic m' (of_nat b) = nd_magic m (of_nat b) \<and>
     nd_size m' (of_nat b) = nd_size m (of_nat b) \<and> nd_next m' (of_nat b) = nd_next m (of_nat b)"

lemma seg_ok_same: "same_hdr m m' a \<Longrightarrow> seg_ok m' (u, a, n) = seg_ok m (u, a, n)"
  by (simp add: same_hdr_def)

lemma list_all_seg_ok_same:
  "(\<And>u a n. (u, a, n) \<in> set ss \<Longrightarrow> same_hdr m m' a) \<Longrightarrow> list_all (seg_ok m') ss = list_all (seg_ok m) ss"
proof -
  assume "\<And>u a n. (u, a, n) \<in> set ss \<Longrightarrow> same_hdr m m' a"
  then have "\<forall>x \<in> set ss. seg_ok m' x = seg_ok m x" by (auto simp: same_hdr_def)
  then show ?thesis by (simp add: list_all_iff)
qed

lemma lseg_same: "(\<And>a. a \<in> set as \<Longrightarrow> nd_next m' (of_nat a) = nd_next m (of_nat a)) \<Longrightarrow>
    lseg m' p as q = lseg m p as q"
  by (induction as arbitrary: p) auto

lemma same_hdr_frees:
  "(\<And>u a n. (u, a, n) \<in> set ss \<Longrightarrow> same_hdr m m' a) \<Longrightarrow> lseg m' p (frees ss) q = lseg m p (frees ss) q"
  by (rule lseg_same) (fastforce simp: frees_set same_hdr_def)

lemma tiling_sep_left:
  "tiling lo a pre \<Longrightarrow> (u, b, k) \<in> set pre \<Longrightarrow> a + 12 < 2 ^ 32 \<Longrightarrow> sep a b"
  using tiling_in by (fastforce simp: sep_def)

lemma tiling_sep_right:
  "tiling c hi post \<Longrightarrow> a + 12 \<le> c \<Longrightarrow> (u, b, k) \<in> set post \<Longrightarrow> hi < 2 ^ 32 \<Longrightarrow> sep a b"
  using tiling_in [of c hi post u b k] by (auto simp: sep_def)


lemma lay_mid:
  "lay m h lo hi (pre @ (u, a, n) # post) \<longleftrightarrow>
     0 < lo \<and> hi < 2 ^ 32 \<and> tiling lo a pre \<and> tiling (a + 12 + n) hi post \<and>
     list_all (seg_ok m) pre \<and> seg_ok m (u, a, n) \<and> list_all (seg_ok m) post \<and>
     (\<exists>r. lseg m h (frees pre) r \<and> (if u then lseg m r (frees post) 0
        else r = of_nat a \<and> lseg m (nd_next m (of_nat a)) (frees post) 0))"
  by (auto simp: lay_def)

lemma lay_bounds:
  assumes "lay m h lo hi (pre @ (u, a, n) # post)"
  shows "0 < a" "a + 12 + n \<le> hi" "hi < 2 ^ 32" "(of_nat a :: u32) \<noteq> 0" "unat (of_nat a :: u32) = a"
    "unat (of_nat n :: u32) = n"
proof -
  show "0 < a" "a + 12 + n \<le> hi" "hi < 2 ^ 32"
    using assms tiling_le by (fastforce simp: lay_mid)+
  moreover from this show "unat (of_nat a :: u32) = a" "unat (of_nat n :: u32) = n"
    using unat_of_nat32 [of a] unat_of_nat32 [of n] by auto
  ultimately show "(of_nat a :: u32) \<noteq> 0" by (metis unat_0 less_irrefl)
qed

lemma lay_sep:
  assumes "lay m h lo hi (pre @ (u, a, n) # post)"
  shows "(v, b, k) \<in> set pre \<Longrightarrow> sep a b" "(v, b, k) \<in> set post \<Longrightarrow> sep a b"
  using assms tiling_sep_left [of lo a pre v b k] tiling_sep_right [of "a + 12 + n" hi post a v b k]
    tiling_le [of "a + 12 + n" hi post]
  by (auto simp: lay_mid)

text \<open>Replacing the middle segment, with a memory that keeps the other headers.\<close>

lemma lay_replace:
  assumes "lay m h lo hi (pre @ (u, a, n) # post)"
    and "\<And>v b k. (v, b, k) \<in> set (pre @ post) \<Longrightarrow> same_hdr m m' b"
    and "seg_ok m' (u, a, n')" "tiling (a + 12 + n') hi post'" "list_all (seg_ok m') post'"
    and "if u then lseg m' (if frees post = [] then 0 else of_nat (hd (frees post))) (frees post') 0
       else lseg m' (nd_next m' (of_nat a)) (frees post') 0"
  shows "lay m' h lo hi (pre @ (u, a, n') # post')"
proof -
  have r: "lseg m r (frees post) 0 \<Longrightarrow> r = (if frees post = [] then 0 else of_nat (hd (frees post)))" for r
    by (cases "frees post") auto
  have "list_all (seg_ok m') pre = list_all (seg_ok m) pre"
    by (rule list_all_seg_ok_same) (use assms(2) in auto)
  moreover have "lseg m' h (frees pre) r = lseg m h (frees pre) r" for r
    by (rule same_hdr_frees) (use assms(2) in auto)
  ultimately show ?thesis
    using assms(1,3-6) r unfolding lay_mid by (auto split: if_splits)
qed

lemma sep_same_hdr:
  assumes "sep a b"
  shows "same_hdr m (st32 m (of_nat a) w) b" "same_hdr m (st32 m (of_nat a + 4) w) b"
    "same_hdr m (st32 m (of_nat a + 8) w) b"
  using assms by (simp_all add: same_hdr_def)

lemma same_hdr_trans: "same_hdr m m' b \<Longrightarrow> same_hdr m' m'' b \<Longrightarrow> same_hdr m m'' b"
  by (simp add: same_hdr_def)

lemma st32_hdr [simp]:
  assumes "\<not> in_range a 12 x"
  shows "st32 m a w x = m x" "st32 m (a + 4) w x = m x" "st32 m (a + 8) w x = m x"
proof -
  have "in_range a 4 x \<or> in_range (a + 4) 4 x \<or> in_range (a + 8) 4 x \<Longrightarrow> in_range a 12 x"
    by (auto simp: in_range_cases_4) (auto simp: in_range_def)
  then show "st32 m a w x = m x" "st32 m (a + 4) w x = m x" "st32 m (a + 8) w x = m x"
    using assms st32_outside by blast+
qed

text \<open>Memory changed in the headers at \<open>as\<close> only.\<close>

definition hdr_only :: "nat set \<Rightarrow> mem \<Rightarrow> mem \<Rightarrow> bool" where
  "hdr_only as m m' \<longleftrightarrow> (\<forall>x. (\<forall>a\<in>as. \<not> in_range (of_nat a) 12 x) \<longrightarrow> m' x = m x)"

lemma hdr_only_trans: "hdr_only as m m' \<Longrightarrow> hdr_only bs m' m'' \<Longrightarrow> hdr_only (as \<union> bs) m m''"
  by (simp add: hdr_only_def)

lemma combine_absorb:
  assumes "lay m h lo hi (pre @ (False, a, n) # (False, b, k) # post)"
  shows "\<exists>m'. node_combine m (of_nat a) = Some (of_nat a, m') \<and>
     lay m' h lo hi (pre @ (False, a, n + 12 + k) # post) \<and> hdr_only {a} m m'"
proof -
  let ?a = "of_nat a :: u32"
  note l = assms
  have b: "b = a + 12 + n" using l by (simp add: lay_mid)
  have bb: "0 < a" "a + 12 + n \<le> hi" "hi < 2 ^ 32" "?a \<noteq> 0" using lay_bounds [OF l] by auto
  have l': "lay m h lo hi ((pre @ [(False, a, n)]) @ (False, b, k) # post)" using l by simp
  have b0: "(of_nat b :: u32) \<noteq> 0" "b + 12 + k \<le> hi" using lay_bounds [OF l'] by auto
  have f: "nd_size m ?a = of_nat n" "nd_size m (of_nat b) = of_nat k" "nd_next m ?a = of_nat b"
    "nd_magic m ?a = node_magic" "tiling (a + 12 + (n + 12 + k)) hi post" "list_all (seg_ok m) post"
    "lseg m (nd_next m (of_nat b)) (frees post) 0"
    using l b by (auto simp: lay_mid algebra_simps)
  let ?m1 = "st32 m (?a + 4) (of_nat n + of_nat k + 12)"
  let ?m2 = "st32 ?m1 (?a + 8) (nd_next ?m1 (of_nat b))"
  have sab: "sep a b" using b bb b0 by (simp add: sep_def)
  have c: "node_combine m ?a = Some (?a, ?m2)"
    using f bb b b0 sab by (simp add: node_combine_def node_size_def hdr_same Let_def algebra_simps)
  have other: "same_hdr m ?m2 c" if "sep a c" for c
    using that by (simp add: same_hdr_def)
  have post: "same_hdr m ?m2 c" if "(v, c, j) \<in> set post" for v c j
    using that lay_sep(2) [OF l, of v c j] by (intro other) auto
  have "lay ?m2 h lo hi (pre @ (False, a, n + 12 + k) # post)"
  proof (rule lay_replace [OF l])
    show "same_hdr m ?m2 c" if "(v, c, j) \<in> set (pre @ (False, b, k) # post)" for v c j
      using that lay_sep [OF l, of v c j] by (intro other) auto
    show "seg_ok ?m2 (False, a, n + 12 + k)" using f bb by (simp add: algebra_simps)
    show "tiling (a + 12 + (n + 12 + k)) hi post" by (rule f)
    show "list_all (seg_ok ?m2) post" using f list_all_seg_ok_same [OF post] by simp
    have "nd_next ?m2 ?a = nd_next m (of_nat b)" using bb sab by simp
    then show "if False then lseg ?m2 (if frees ((False, b, k) # post) = [] then 0
          else of_nat (hd (frees ((False, b, k) # post)))) (frees post) 0
        else lseg ?m2 (nd_next ?m2 ?a) (frees post) 0"
      using f same_hdr_frees [OF post] by simp
  qed
  moreover have "hdr_only {a} m ?m2" by (auto simp: hdr_only_def)
  ultimately show ?thesis using c by blast
qed

lemma combine_not:
  assumes "lay m h lo hi (pre @ (False, a, n) # post)"
    and "\<And>b k post'. post \<noteq> (False, b, k) # post'"
  shows "node_combine m (of_nat a) = Some (0, m)"
proof -
  have bb: "0 < a" "a + 12 + n \<le> hi" "hi < 2 ^ 32" "(of_nat a :: u32) \<noteq> 0"
    using lay_bounds [OF assms(1)] by auto
  have f: "nd_size m (of_nat a) = of_nat n" "tiling (a + 12 + n) hi post"
    "lseg m (nd_next m (of_nat a)) (frees post) 0"
    using assms(1) by (auto simp: lay_mid)
  have u: "unat (of_nat (a + 12 + n) :: u32) = a + 12 + n"
    using bb by (intro unat_of_nat32) auto
  have "nd_next m (of_nat a) \<noteq> of_nat (a + 12 + n)"
  proof (cases "frees post")
    case Nil
    then show ?thesis using f u bb by auto
  next
    case (Cons c cs)
    obtain v b k post' where p: "post = (v, b, k) # post'" using Cons by (cases post) auto
    then have "v" using assms(2) by (cases v) auto
    then have "c \<in> set (frees post')" using Cons p by auto
    moreover have "tiling (a + 12 + n + 12 + k) hi post'" using f(2) p by (simp add: algebra_simps)
    ultimately have "a + 12 + n < c" "c + 12 \<le> hi" using tiling_frees by fastforce+
    then show ?thesis
      using f(3) Cons u bb unat_of_nat32 [of c] by auto
  qed
  then show ?thesis using bb f by (simp add: node_combine_def node_size_def algebra_simps)
qed


section \<open>Releasing a block\<close>

text \<open>The new free segment absorbs the free segment behind it and is absorbed by the one
  before it.\<close>

fun absorb :: "nat \<Rightarrow> nat \<Rightarrow> seg list \<Rightarrow> seg list" where
  "absorb a n ((False, b, k) # ss) = (False, a, n + 12 + k) # ss"
| "absorb a n ss = (False, a, n) # ss"

fun release :: "seg list \<Rightarrow> nat \<Rightarrow> nat \<Rightarrow> seg list \<Rightarrow> seg list" where
  "release [] a n post = absorb a n post"
| "release [(False, t, j)] a n post = absorb t (j + 12 + n) post"
| "release ((True, x) # pre) a n post = (True, x) # release pre a n post"
| "release ((False, x) # y # pre) a n post = (False, x) # release (y # pre) a n post"

lemma release_Cons2: "release (x # y # pre) a n post = x # release (y # pre) a n post"
  by (cases x; cases "fst x") auto

lemma release_used: "frees p2 = [] \<Longrightarrow> p2 \<noteq> [] \<Longrightarrow> release p2 a n post = p2 @ absorb a n post"
proof (induction p2)
  case (Cons x p2) then show ?case
    by (cases x; cases p2) (auto split: if_splits)
qed simp

lemma release_used_append: "p2 \<noteq> [] \<Longrightarrow> release (p1 @ p2) a n post = p1 @ release p2 a n post"
proof (induction p1)
  case (Cons x p1)
  then obtain y ys where "p1 @ p2 = y # ys" by (cases "p1 @ p2") auto
  then show ?case using Cons by (simp add: release_Cons2)
qed simp

lemma absorb_cases:
  "(\<exists>b k ss. post = (False, b, k) # ss \<and> absorb a n post = (False, a, n + 12 + k) # ss) \<or>
   (\<forall>b k ss. post \<noteq> (False, b, k) # ss) \<and> absorb a n post = (False, a, n) # post"
  by (cases "(a, n, post)" rule: absorb.cases) auto

lemma coalesced_append:
  "coalesced (xs @ (u, a, n) # ys) \<longleftrightarrow> coalesced (xs @ [(u, a, n)]) \<and> coalesced ((u, a, n) # ys)"
proof (induction xs)
  case (Cons x xs) then show ?case by (cases x; cases xs) auto
qed simp

lemma coalesced_any: "coalesced ((u, a, n) # ys) \<Longrightarrow> coalesced ((u, b, k) # ys)"
  by (cases ys) auto

lemma coalesced_tl: "coalesced (x # ys) \<Longrightarrow> coalesced ys"
  by (cases x; cases ys) auto

lemma coalesced_used_hd [simp]: "coalesced ((True, b) # ss) = coalesced ss"
  by (cases b; cases ss) auto

lemma coalesced_last_any: "coalesced (xs @ [(u, a, n)]) \<Longrightarrow> coalesced (xs @ [(u, b, k)])"
proof (induction xs)
  case (Cons x xs) then show ?case by (cases x; cases xs) auto
qed simp

lemma coalesced_snoc_used: "coalesced (xs @ [y]) \<Longrightarrow> coalesced (xs @ [(True, b)])"
proof (induction xs)
  case Nil then show ?case by (cases b) simp
next
  case (Cons x xs) then show ?case by (cases x; cases y; cases b; cases xs) auto
qed

lemma coalesced_use:
  assumes "coalesced (pre @ (False, a, k) # post)"
  shows "coalesced (pre @ (True, a, n) # (False, b, j) # post)"
proof -
  have c: "coalesced (pre @ [(False, a, k)])" "coalesced ((False, a, k) # post)"
    using assms coalesced_append [of pre False a k post] by blast+
  have "coalesced (pre @ [(True, a, n)])" by (rule coalesced_snoc_used [OF c(1)])
  moreover have "coalesced ((False, b, j) # post)" by (rule coalesced_any [OF c(2)])
  ultimately show ?thesis
    by (subst coalesced_append) simp
qed

lemma coalesced_absorb: "coalesced ((True, b, k) # post) \<Longrightarrow> coalesced (absorb a n post)"
proof -
  assume c: "coalesced ((True, b, k) # post)"
  from absorb_cases [of post a n] show ?thesis
  proof (elim disjE exE conjE)
    fix b' k' ss assume "post = (False, b', k') # ss" "absorb a n post = (False, a, n + 12 + k') # ss"
    then show ?thesis using coalesced_any coalesced_tl [OF c] by simp
  next
    assume *: "\<forall>b k ss. post \<noteq> (False, b, k) # ss" "absorb a n post = (False, a, n) # post"
    then show ?thesis using coalesced_tl [OF c] by (cases post) auto
  qed
qed

lemma absorb_hd: "\<exists>k ss. absorb a n post = (False, a, k) # ss"
  using absorb_cases [of post a n] by auto

lemma coalesced_release:
  "coalesced (pre @ (True, b, k) # post) \<Longrightarrow> coalesced (release pre a n post)"
proof (induction pre a n post rule: release.induct)
  case (1 a n post) then show ?case by (simp add: coalesced_absorb)
next
  case (2 t j a n post) then show ?case by (auto intro: coalesced_absorb)
next
  case (3 x pre a n post)
  then show ?case by simp
next
  case (4 x y ys a n post)
  obtain u t j where y: "y = (u, t, j)" by (cases y)
  have "coalesced (release (y # ys) a n post)"
    using 4 coalesced_tl by fastforce
  moreover have "\<exists>j' ss. release (y # ys) a n post = (u, t, j') # ss"
    using y absorb_hd by (cases u; cases ys) auto
  ultimately show ?case using 4(2) y by (cases x) auto
qed

lemma find_position_0 [simp]: "find_position_loop m pos 0 ans = Some ans"
  by (subst find_position_loop.simps) simp

lemma find_position_step: "cur \<noteq> 0 \<Longrightarrow> find_position_loop m pos cur ans =
    find_position_loop m pos (nd_next m cur) (if cur \<le> pos then cur else ans)"
  by (subst find_position_loop.simps) simp

lemma of_nat_neq_0: "0 < c \<Longrightarrow> c < 2 ^ 32 \<Longrightarrow> (of_nat c :: u32) \<noteq> 0"
  by (metis less_irrefl unat_0 unat_of_nat32)

lemma of_nat_le: "c < 2 ^ 32 \<Longrightarrow> d < 2 ^ 32 \<Longrightarrow> (of_nat c :: u32) \<le> of_nat d \<longleftrightarrow> c \<le> d"
  by (simp add: word_le_nat_alt unat_of_nat32)

lemma find_position_left:
  "lseg m p as r \<Longrightarrow> (\<And>c. c \<in> set as \<Longrightarrow> 0 < c \<and> c \<le> pos) \<Longrightarrow> pos < 2 ^ 32 \<Longrightarrow>
   find_position_loop m (of_nat pos) p ans =
     find_position_loop m (of_nat pos) r (if as = [] then ans else of_nat (last as))"
proof (induction as arbitrary: p ans)
  case Nil then show ?case by simp
next
  case (Cons c cs)
  have c: "0 < c" "c \<le> pos" "c < 2 ^ 32" using Cons.prems(2) [of c] Cons.prems(3) by auto
  have "find_position_loop m (of_nat pos) p ans =
      find_position_loop m (of_nat pos) (nd_next m (of_nat c)) (of_nat c)"
    using Cons.prems(1) c of_nat_neq_0 [of c] of_nat_le [of c pos] Cons.prems(3)
    by (simp add: find_position_step)
  also have "\<dots> = find_position_loop m (of_nat pos) r (if cs = [] then of_nat c else of_nat (last cs))"
    by (rule Cons.IH) (use Cons.prems in auto)
  finally show ?case by simp
qed

lemma find_position_right:
  "lseg m p as 0 \<Longrightarrow> (\<And>c. c \<in> set as \<Longrightarrow> pos < c \<and> c < 2 ^ 32) \<Longrightarrow>
   find_position_loop m (of_nat pos) p ans = Some ans"
proof (induction as arbitrary: p)
  case Nil then show ?case by simp
next
  case (Cons c cs)
  have c: "pos < c" "c < 2 ^ 32" using Cons.prems(2) [of c] by auto
  have "find_position_loop m (of_nat pos) p ans =
      find_position_loop m (of_nat pos) (nd_next m (of_nat c)) ans"
    using Cons.prems(1) c of_nat_neq_0 [of c] of_nat_le [of c pos]
    by (simp add: find_position_step)
  also have "\<dots> = Some ans"
    by (rule Cons.IH) (use Cons.prems in auto)
  finally show ?case by simp
qed

lemma find_position_frees:
  assumes "lay m h lo hi (pre @ (True, a, n) # post)"
  shows "find_position_loop m (of_nat a) h 0 =
    Some (if frees pre = [] then 0 else of_nat (last (frees pre)))"
proof -
  obtain r where r: "lseg m h (frees pre) r" "lseg m r (frees post) 0" "tiling lo a pre" "0 < lo"
    "tiling (a + 12 + n) hi post" "hi < 2 ^ 32"
    using assms by (auto simp: lay_mid)
  have "a < 2 ^ 32" using lay_bounds [OF assms] by auto
  moreover have "0 < c \<and> c \<le> a" if "c \<in> set (frees pre)" for c
    using tiling_frees [OF r(3) that] r(4) by auto
  moreover have "a < c \<and> c < 2 ^ 32" if "c \<in> set (frees post)" for c
    using tiling_frees [OF r(5) that] r(6) by auto
  ultimately show ?thesis
    using find_position_left [OF r(1)] find_position_right [OF r(2)] by simp
qed

lemma frees_lastD:
  "frees pre \<noteq> [] \<Longrightarrow> \<exists>p1 j p2. pre = p1 @ (False, last (frees pre), j) # p2 \<and> frees p2 = []"
proof (induction pre rule: rev_induct)
  case (snoc x xs)
  obtain u a n where x: "x = (u, a, n)" by (cases x)
  show ?case
  proof (cases u)
    case True
    then have f: "frees (xs @ [x]) = frees xs" using x by simp
    with snoc obtain p1 j p2 where "xs = p1 @ (False, last (frees xs), j) # p2" "frees p2 = []"
      by auto
    then have "xs @ [x] = p1 @ (False, last (frees (xs @ [x])), j) # (p2 @ [x]) \<and> frees (p2 @ [x]) = []"
      using True x f by simp
    then show ?thesis by blast
  next
    case False
    then have "xs @ [x] = xs @ (False, last (frees (xs @ [x])), n) # [] \<and> frees [] = []"
      using x by simp
    then show ?thesis by blast
  qed
qed simp


definition headers :: "seg list \<Rightarrow> nat set" where
  "headers ss = (\<lambda>(u, a, n). a) ` set ss"

lemma headers_simps [simp]:
  "headers [] = {}" "headers ((u, a, n) # ss) = insert a (headers ss)"
  "headers (xs @ ys) = headers xs \<union> headers ys"
  by (simp_all add: headers_def image_Un)

text \<open>The bytes of the allocated blocks of \<open>ss\<close> keep their values.\<close>

definition untouched :: "seg list \<Rightarrow> mem \<Rightarrow> mem \<Rightarrow> bool" where
  "untouched ss m m' \<longleftrightarrow>
     (\<forall>b k x. (True, b, k) \<in> set ss \<longrightarrow> in_range (of_nat b + 12) k x \<longrightarrow> m' x = m x)"

lemma tiling_two:
  "tiling lo hi ss \<Longrightarrow> (u, a, n) \<in> set ss \<Longrightarrow> (v, b, k) \<in> set ss \<Longrightarrow>
   a + 12 + n \<le> b \<or> b + 12 + k \<le> a \<or> (u, a, n) = (v, b, k)"
proof (induction lo hi ss rule: tiling.induct)
  case (2 lo hi w c j ss)
  then show ?case
    using tiling_in [of "lo + 12 + j" hi ss u a n] tiling_in [of "lo + 12 + j" hi ss v b k] by auto
qed simp

lemma in_data_iff:
  assumes "b + 12 + k < 2 ^ 32"
  shows "in_range (of_nat b + 12) k x \<longleftrightarrow> b + 12 \<le> unat x \<and> unat x < b + 12 + k"
    and "in_range (of_nat b) 12 x \<longleftrightarrow> b \<le> unat x \<and> unat x < b + 12"
proof -
  have "unat (of_nat b :: u32) = b" "unat (of_nat b + 12 :: u32) = b + 12"
    using assms unat_of_nat32 [of b] unat_of_nat32 [of "b + 12"] by auto
  then show "in_range (of_nat b + 12) k x \<longleftrightarrow> b + 12 \<le> unat x \<and> unat x < b + 12 + k"
    "in_range (of_nat b) 12 x \<longleftrightarrow> b \<le> unat x \<and> unat x < b + 12"
    using assms by (simp_all add: in_range_iff)
qed

lemma hdr_only_untouched:
  assumes "hdr_only as m m'" "as \<subseteq> headers ss" "tiling lo hi ss" "hi < 2 ^ 32"
  shows "untouched ss m m'"
  unfolding untouched_def
proof (intro allI impI)
  fix b k x assume b: "(True, b, k) \<in> set ss" "in_range (of_nat b + 12) k x"
  have "\<not> in_range (of_nat a) 12 x" if "a \<in> as" for a
  proof -
    have "a \<in> headers ss" using that assms(2) by auto
    then obtain u n where a: "(u, a, n) \<in> set ss" by (auto simp: headers_def)
    have "a + 12 + n \<le> hi" "b + 12 + k \<le> hi"
      using tiling_in [OF assms(3) a] tiling_in [OF assms(3) b(1)] by auto
    then show ?thesis
      using tiling_two [OF assms(3) a b(1)] b(2) assms(4) in_data_iff(1) [of b k x]
        in_data_iff(2) [of a n x] by auto
  qed
  then show "m' x = m x" using assms(1) by (simp add: hdr_only_def)
qed

text \<open>The block becomes a node between its neighbours in the free list.\<close>

lemma free_link_head:
  assumes l: "lay m h lo hi (pre @ (True, a, n) # post)" and "frees pre = []"
  shows "lay (st32 (node_init m (of_nat a) (of_nat n)) (of_nat a + 8) h) (of_nat a) lo hi
     (pre @ (False, a, n) # post)"
proof -
  let ?m = "st32 (node_init m (of_nat a) (of_nat n)) (of_nat a + 8) h"
  have a: "a + 12 < 2 ^ 32" using lay_bounds [OF l] by simp
  have other: "same_hdr m ?m b" if "sep a b" for b
    using that by (simp add: same_hdr_def node_init_def)
  have "same_hdr m ?m b" if "(v, b, k) \<in> set pre" for v b k
    using lay_sep(1) [OF l that] by (rule other)
  then have 1: "list_all (seg_ok ?m) pre = list_all (seg_ok m) pre"
    by (rule list_all_seg_ok_same)
  have "same_hdr m ?m b" if "(v, b, k) \<in> set post" for v b k
    using lay_sep(2) [OF l that] by (rule other)
  then have "list_all (seg_ok ?m) post = list_all (seg_ok m) post"
    "lseg ?m p (frees post) 0 = lseg m p (frees post) 0" for p
    by (auto intro!: list_all_seg_ok_same same_hdr_frees)
  then show ?thesis
    using l assms(2) 1 a unfolding lay_mid by (simp add: node_init_def)
qed

lemma free_link_after:
  assumes l: "lay m h lo hi (pre @ (True, a, n) # post)"
    and pre: "pre = p1 @ (False, t, j) # p2" "frees p2 = []"
  shows "lay (st32 (st32 (node_init m (of_nat a) (of_nat n)) (of_nat a + 8)
      (nd_next m (of_nat t))) (of_nat t + 8) (of_nat a)) h lo hi (pre @ (False, a, n) # post)"
proof -
  let ?m1 = "st32 (node_init m (of_nat a) (of_nat n)) (of_nat a + 8) (nd_next m (of_nat t))"
  let ?m = "st32 ?m1 (of_nat t + 8) (of_nat a)"
  have a: "a + 12 < 2 ^ 32" using lay_bounds [OF l] by simp
  have l': "lay m h lo hi (p1 @ (False, t, j) # (p2 @ (True, a, n) # post))" using l pre by simp
  have t: "t + 12 < 2 ^ 32" using lay_bounds [OF l'] by simp
  have sta: "sep t a" using lay_sep(2) [OF l', of True a n] by simp
  then have sat: "sep a t" by (auto simp: sep_def)
  have other: "same_hdr m ?m b" if "sep a b" "sep t b" for b
    using that by (simp add: same_hdr_def node_init_def)
  have p1: "same_hdr m ?m b" if "(v, b, k) \<in> set p1" for v b k
    using that lay_sep(1) [OF l, of v b k] lay_sep(1) [OF l', of v b k] pre by (intro other) auto
  have p2: "same_hdr m ?m b" if "(v, b, k) \<in> set p2" for v b k
    using that lay_sep(1) [OF l, of v b k] lay_sep(2) [OF l', of v b k] pre by (intro other) auto
  have post: "same_hdr m ?m b" if "(v, b, k) \<in> set post" for v b k
    using that lay_sep(2) [OF l, of v b k] lay_sep(2) [OF l', of v b k] by (intro other) auto
  have s: "list_all (seg_ok ?m) p1 = list_all (seg_ok m) p1"
      "list_all (seg_ok ?m) p2 = list_all (seg_ok m) p2"
      "list_all (seg_ok ?m) post = list_all (seg_ok m) post"
    using p1 p2 post by (auto intro!: list_all_seg_ok_same)
  have f: "lseg ?m p (frees p1) q = lseg m p (frees p1) q"
      "lseg ?m p (frees post) q = lseg m p (frees post) q" for p q
    using p1 post by (auto intro!: same_hdr_frees)
  have "seg_ok ?m (False, t, j)" "nd_next ?m (of_nat t) = of_nat a"
    "nd_next ?m (of_nat a) = nd_next m (of_nat t)" "seg_ok ?m (False, a, n)"
    using l pre t a sta sat by (simp_all add: node_init_def lay_mid)
  then show ?thesis
    using l pre s f unfolding lay_mid by simp
qed

lemma node_init_hdr: "hdr_only {a} m (node_init m (of_nat a) w)"
  by (simp add: hdr_only_def node_init_def)

lemma combine_absorb_post:
  assumes "lay m h lo hi (pre @ (False, a, n) # post)"
  shows "\<exists>r m'. node_combine m (of_nat a) = Some (r, m') \<and>
     lay m' h lo hi (pre @ absorb a n post) \<and> hdr_only {a} m m'"
proof -
  from absorb_cases [of post a n] show ?thesis
  proof (elim disjE exE conjE)
    fix b k ss assume "post = (False, b, k) # ss" "absorb a n post = (False, a, n + 12 + k) # ss"
    then show ?thesis using combine_absorb assms by fastforce
  next
    assume "\<forall>b k ss. post \<noteq> (False, b, k) # ss" "absorb a n post = (False, a, n) # post"
    then show ?thesis using combine_not [OF assms] assms by (auto simp: hdr_only_def)
  qed
qed


lemma release_split:
  assumes "frees p2 = []"
  shows "release (p1 @ (False, t, j) # p2) a n post =
     (if p2 = [] then p1 @ absorb t (j + 12 + n) post else p1 @ (False, t, j) # p2 @ absorb a n post)"
proof (cases "p2 = []")
  case True then show ?thesis by (simp add: release_used_append)
next
  case False
  have "release (p1 @ [(False, t, j)] @ p2) a n post = p1 @ [(False, t, j)] @ release p2 a n post"
    using release_used_append [OF False, of "p1 @ [(False, t, j)]"] by simp
  then show ?thesis using False release_used [OF assms False] by simp
qed

lemma free_body_ok:
  assumes ok: "heap_ok s (pre @ (True, a, n) # post)"
  shows "\<exists>m h. free_body (of_nat a + 12) s = Some (s\<lparr>mem := m, pm_head := h\<rparr>) \<and>
     heap_ok (s\<lparr>mem := m, pm_head := h\<rparr>) (release pre a n post) \<and>
     untouched (pre @ post) (mem s) m"
proof -
  let ?a = "of_nat a :: u32" and ?m0 = "mem s" and ?lo = "unat (pm_start s)" and ?hi = "unat (pm_end s)"
  let ?ni = "node_init ?m0 ?a (of_nat n)"
  have l: "lay ?m0 (pm_head s) ?lo ?hi (pre @ (True, a, n) # post)"
    and co: "coalesced (release pre a n post)"
    using ok coalesced_release by (auto simp: heap_ok_def)
  have bb: "a + 12 + n \<le> ?hi" "?hi < 2 ^ 32" "?a \<noteq> 0" using lay_bounds [OF l] by auto
  have hd: "nd_magic ?m0 ?a = block_magic" "nd_size ?m0 ?a = of_nat n" using l by (auto simp: lay_mid)
  have fp: "find_position_loop ?ni ?a (pm_head s) 0 =
      Some (if frees pre = [] then 0 else of_nat (last (frees pre)))"
  proof -
    have o: "same_hdr ?m0 ?ni b" if "sep a b" for b
      using that by (simp add: same_hdr_def node_init_def)
    have pr: "lseg ?ni p (frees pre) q = lseg ?m0 p (frees pre) q" for p q
      by (rule same_hdr_frees) (use lay_sep(1) [OF l] o in blast)
    have po: "lseg ?ni p (frees post) q = lseg ?m0 p (frees post) q" for p q
      by (rule same_hdr_frees) (use lay_sep(2) [OF l] o in blast)
    obtain r where r: "lseg ?m0 (pm_head s) (frees pre) r" "lseg ?m0 r (frees post) 0"
      using l by (auto simp: lay_mid)
    have t: "tiling ?lo a pre" "tiling (a + 12 + n) ?hi post" "0 < ?lo" using l by (auto simp: lay_mid)
    have 1: "0 < c \<and> c \<le> a" if "c \<in> set (frees pre)" for c
      using tiling_frees [OF t(1) that] t(3) by auto
    have 2: "a < c \<and> c < 2 ^ 32" if "c \<in> set (frees post)" for c
      using tiling_frees [OF t(2) that] bb by auto
    have "find_position_loop ?ni ?a (pm_head s) 0 =
        find_position_loop ?ni ?a r (if frees pre = [] then 0 else of_nat (last (frees pre)))"
      by (rule find_position_left) (use r pr 1 bb in auto)
    also have "\<dots> = Some (if frees pre = [] then 0 else of_nat (last (frees pre)))"
      by (rule find_position_right [of _ _ "frees post"]) (use r po 2 in auto)
    finally show ?thesis .
  qed
  show ?thesis
  proof (cases "frees pre = []")
    case True
    let ?m1 = "st32 ?ni (?a + 8) (pm_head s)"
    have l1: "lay ?m1 ?a ?lo ?hi (pre @ (False, a, n) # post)"
      using free_link_head [OF l True] .
    obtain r m2 where c: "node_combine ?m1 ?a = Some (r, m2)"
      "lay m2 ?a ?lo ?hi (pre @ absorb a n post)" "hdr_only {a} ?m1 m2"
      using combine_absorb_post [OF l1] by blast
    have rel: "release pre a n post = pre @ absorb a n post"
      using release_used [OF True] by (cases "pre = []") auto
    have "hdr_only {a} ?m0 ?m1" by (simp add: hdr_only_def node_init_def)
    from hdr_only_trans [OF this c(3)] have "untouched (pre @ (True, a, n) # post) ?m0 m2"
      using l by (intro hdr_only_untouched) (auto simp: lay_def)
    then have "untouched (pre @ post) ?m0 m2" by (auto simp: untouched_def)
    moreover have "free_body (?a + 12) s = Some (s\<lparr>mem := m2, pm_head := ?a\<rparr>)"
      using hd fp True c(1) by (simp add: free_body_def node_size_def node_find_position_def Let_def)
    ultimately show ?thesis
      using c(2) co rel by (fastforce simp: heap_ok_def)
  next
    case False
    define t where "t = last (frees pre)"
    obtain p1 j p2 where pre: "pre = p1 @ (False, t, j) # p2" "frees p2 = []"
      using frees_lastD [OF False] unfolding t_def by blast
    let ?t = "of_nat t :: u32"
    let ?m1 = "st32 (st32 ?ni (?a + 8) (nd_next ?ni ?t)) (?t + 8) ?a"
    have l0: "lay ?m0 (pm_head s) ?lo ?hi (p1 @ (False, t, j) # (p2 @ (True, a, n) # post))"
      using l pre by simp
    have t0: "?t \<noteq> 0" using lay_bounds [OF l0] by simp
    have "sep a t" using lay_sep(1) [OF l, of False t j] pre by simp
    then have "nd_next ?ni ?t = nd_next ?m0 ?t" by (simp add: node_init_def)
    then have l1: "lay ?m1 (pm_head s) ?lo ?hi (pre @ (False, a, n) # post)"
      using free_link_after [OF l pre] by simp
    have h1: "hdr_only {a, t} ?m0 ?m1" by (simp add: hdr_only_def node_init_def)
    have "\<exists>r m2 r' m3. node_combine ?m1 ?t = Some (r, m2) \<and>
        (if r = 0 then node_combine m2 ?a else node_combine m2 ?t) = Some (r', m3) \<and>
        lay m3 (pm_head s) ?lo ?hi (release pre a n post) \<and> hdr_only {a, t} ?m1 m3"
    proof (cases "p2 = []")
      case True
      have "lay ?m1 (pm_head s) ?lo ?hi (p1 @ (False, t, j) # (False, a, n) # post)"
        using l1 pre True by simp
      then obtain m2 where m2: "node_combine ?m1 ?t = Some (?t, m2)"
        "lay m2 (pm_head s) ?lo ?hi (p1 @ (False, t, j + 12 + n) # post)" "hdr_only {t} ?m1 m2"
        using combine_absorb by blast
      obtain r m3 where m3: "node_combine m2 ?t = Some (r, m3)"
        "lay m3 (pm_head s) ?lo ?hi (p1 @ absorb t (j + 12 + n) post)" "hdr_only {t} m2 m3"
        using combine_absorb_post [OF m2(2)] by blast
      have "hdr_only {a, t} ?m1 m3" using m2(3) m3(3) by (simp add: hdr_only_def)
      then show ?thesis
        using m2(1) m3(1,2) t0 release_split [OF pre(2), of p1 t j a n post] pre(1) True by auto
    next
      case False
      have "lay ?m1 (pm_head s) ?lo ?hi (p1 @ (False, t, j) # (p2 @ (False, a, n) # post))"
        using l1 pre by simp
      then have m2: "node_combine ?m1 ?t = Some (0, ?m1)"
        by (rule combine_not) (use False pre(2) in \<open>cases p2; auto\<close>)
      obtain r m3 where m3: "node_combine ?m1 ?a = Some (r, m3)"
        "lay m3 (pm_head s) ?lo ?hi (pre @ absorb a n post)" "hdr_only {a} ?m1 m3"
        using combine_absorb_post [OF l1] by blast
      have "hdr_only {a, t} ?m1 m3" using m3(3) by (simp add: hdr_only_def)
      then show ?thesis
        using m2 m3(1,2) release_split [OF pre(2), of p1 t j a n post] pre(1) False by auto
    qed
    then obtain r m2 r' m3 where c: "node_combine ?m1 ?t = Some (r, m2)"
        "(if r = 0 then node_combine m2 ?a else node_combine m2 ?t) = Some (r', m3)"
        "lay m3 (pm_head s) ?lo ?hi (release pre a n post)" "hdr_only {a, t} ?m1 m3" by blast
    from hdr_only_trans [OF h1 c(4)] have "untouched (pre @ (True, a, n) # post) ?m0 m3"
      using l pre by (intro hdr_only_untouched) (auto simp: lay_def)
    then have "untouched (pre @ post) ?m0 m3" by (auto simp: untouched_def)
    moreover have "free_body (?a + 12) s = Some (s\<lparr>mem := m3\<rparr>)"
      using hd fp False c(1,2) t0
      by (simp add: free_body_def node_size_def node_find_position_def Let_def t_def [symmetric])
    ultimately show ?thesis
      using c(3) co by (intro exI [of _ m3] exI [of _ "pm_head s"]) (simp add: heap_ok_def)
  qed
qed


section \<open>Allocating a block\<close>

lemma find_size_0 [simp]: "find_size_loop m sz 0 lst = Some (0, lst)"
  by (subst find_size_loop.simps) simp

lemma find_size_step: "cur \<noteq> 0 \<Longrightarrow> find_size_loop m sz cur lst =
    (if sz \<le> nd_size m cur then Some (cur, lst) else find_size_loop m sz (nd_next m cur) cur)"
  by (subst find_size_loop.simps) simp

lemma find_size_skip:
  "lseg m p as r \<Longrightarrow> (\<And>c. c \<in> set as \<Longrightarrow> 0 < c \<and> c < 2 ^ 32 \<and> \<not> sz \<le> nd_size m (of_nat c)) \<Longrightarrow>
   find_size_loop m sz p lst = find_size_loop m sz r (if as = [] then lst else of_nat (last as))"
proof (induction as arbitrary: p lst)
  case Nil then show ?case by simp
next
  case (Cons c cs)
  have c: "(of_nat c :: u32) \<noteq> 0" "\<not> sz \<le> nd_size m (of_nat c)"
    using Cons.prems(2) [of c] of_nat_neq_0 by auto
  have "find_size_loop m sz p lst = find_size_loop m sz (nd_next m (of_nat c)) (of_nat c)"
    using Cons.prems(1) c by (simp add: find_size_step)
  also have "\<dots> = find_size_loop m sz r (if cs = [] then of_nat c else of_nat (last cs))"
    by (rule Cons.IH) (use Cons.prems in auto)
  finally show ?case by simp
qed

text \<open>No free segment of \<open>ss\<close> has room for \<open>k\<close> bytes.\<close>

definition too_small :: "nat \<Rightarrow> seg list \<Rightarrow> bool" where
  "too_small k ss \<longleftrightarrow> (\<forall>a n. (False, a, n) \<in> set ss \<longrightarrow> n < k)"

lemma too_small_frees:
  assumes "too_small k ss" "tiling lo hi ss" "0 < lo" "hi < 2 ^ 32" "list_all (seg_ok m) ss"
    "k < 2 ^ 32" "c \<in> set (frees ss)"
  shows "0 < c \<and> c < 2 ^ 32 \<and> \<not> of_nat k \<le> nd_size m (of_nat c)"
proof -
  obtain n where n: "(False, c, n) \<in> set ss" using assms(7) by (auto simp: frees_set)
  then have "lo \<le> c" "c + 12 + n \<le> hi" "n < k" "nd_size m (of_nat c) = of_nat n"
    using tiling_in [OF assms(2) n] assms(1,5) by (auto simp: too_small_def list_all_iff)
  then show ?thesis using assms(3,4,6) of_nat_le [of k n] by auto
qed

lemma alloc_body_none:
  assumes "heap_ok s ss" "too_small (unat sz + 12) ss" "unat sz + 12 < 2 ^ 32"
  shows "alloc_body sz s = Some (0, s)"
proof -
  have l: "tiling (unat (pm_start s)) (unat (pm_end s)) ss" "0 < unat (pm_start s)"
    "unat (pm_end s) < 2 ^ 32" "list_all (seg_ok (mem s)) ss" "lseg (mem s) (pm_head s) (frees ss) 0"
    using assms(1) by (auto simp: heap_ok_def lay_def)
  have k: "of_nat (unat sz + 12) = sz + 12" by simp
  have "find_size_loop (mem s) (sz + 12) (pm_head s) 0 =
      find_size_loop (mem s) (sz + 12) 0 (if frees ss = [] then 0 else of_nat (last (frees ss)))"
    unfolding k [symmetric]
    by (rule find_size_skip [OF l(5)]) (rule too_small_frees [OF assms(2) l(1-4) assms(3)])
  then show ?thesis by (simp add: alloc_body_def node_find_size_def node_size_def)
qed

lemma memset_hdr: "hdr_only {a} m m' \<Longrightarrow> \<not> in_range (of_nat a) 12 x \<Longrightarrow> m' x = m x"
  by (simp add: hdr_only_def)

text \<open>A memory that differs only in the data of the block at \<open>a\<close> has the same headers.\<close>

lemma data_same_hdr:
  assumes "\<And>x. \<not> in_range (of_nat a + 12) n x \<Longrightarrow> m' x = m x"
    and "a + 12 + n < 2 ^ 32" "b + 12 < 2 ^ 32" "a + 12 + n \<le> b \<or> b + 12 \<le> a + 12"
  shows "same_hdr m m' b"
proof -
  have u: "unat (of_nat a + 12 :: u32) = a + 12" "unat (of_nat b :: u32) = b"
    "unat (of_nat b + 4 :: u32) = b + 4" "unat (of_nat b + 8 :: u32) = b + 8"
    using assms(2,3) unat_of_nat32 [of "a + 12"] unat_of_nat32 [of b] unat_of_nat32 [of "b + 4"]
      unat_of_nat32 [of "b + 8"] by auto
  have "apart (of_nat a + 12) n (of_nat b) 4" "apart (of_nat a + 12) n (of_nat b + 4) 4"
    "apart (of_nat a + 12) n (of_nat b + 8) 4"
    using u assms(2-4) by (auto simp: apart_def)
  then show ?thesis
    using ld32_outside [where m = m and m' = m' and a = "of_nat a + 12" and n = n] assms(1)
    by (simp add: same_hdr_def nd_defs)
qed


lemma split_lay:
  assumes l: "lay m h lo hi (pre @ (False, a, k) # post)" and k: "unat sz + 12 \<le> k"
  shows "\<exists>m'. node_split m (of_nat a) sz = Some (of_nat a, m') \<and>
     nd_next m' (of_nat a) = of_nat (a + 12 + unat sz) \<and>
     lay m' h lo hi (pre @ (False, a, unat sz) # (False, a + 12 + unat sz, k - 12 - unat sz) # post) \<and>
     hdr_only {a, a + 12 + unat sz} m m'"
proof -
  let ?a = "of_nat a :: u32" and ?b = "a + 12 + unat sz" and ?j = "k - 12 - unat sz"
  let ?wb = "of_nat ?b :: u32"
  have bb: "0 < a" "a + 12 + k \<le> hi" "hi < 2 ^ 32" "?a \<noteq> 0" "unat (of_nat k :: u32) = k"
    using lay_bounds [OF l] by auto
  have f: "nd_size m ?a = of_nat k" "nd_magic m ?a = node_magic" "tiling (a + 12 + k) hi post"
    "list_all (seg_ok m) post" "lseg m (nd_next m ?a) (frees post) 0"
    using l by (auto simp: lay_mid)
  have sab: "sep a ?b" "sep ?b a" using bb k by (auto simp: sep_def)
  have b12: "?b + 12 < 2 ^ 32" "a + 12 < 2 ^ 32" using bb k by auto
  have wb: "?wb = ?a + node_size + sz" by (simp add: node_size_def)
  have wj: "of_nat k - sz - node_size = of_nat ?j" using k by (simp add: node_size_def of_nat_diff)
  let ?m1 = "node_init m ?wb (of_nat ?j)"
  let ?m2 = "st32 (st32 ?m1 (?a + 8) ?wb) (?a + 4) sz"
  let ?m3 = "st32 ?m2 (?wb + 8) (nd_next m ?a)"
  have "\<not> nd_size m ?a < sz + node_size"
  proof -
    have "unat (sz + node_size) = unat sz + 12"
      using k bb unat_add_of_nat [of sz 12] by (simp add: node_size_def)
    then show ?thesis using f bb k by (simp add: word_less_nat_alt)
  qed
  then have c: "node_split m ?a sz = Some (?a, ?m3)"
    using bb f wb wj unfolding node_split_def by (simp add: Let_def)
  have other: "same_hdr m ?m3 c" if "sep a c" "sep ?b c" for c
    using that unfolding same_hdr_def node_init_def by (simp del: of_nat_add)
  have pre: "same_hdr m ?m3 c" if "(v, c, i) \<in> set pre" for v c i
  proof (rule other)
    show "sep a c" using lay_sep(1) [OF l that] .
    have "c + 12 + i \<le> a" using l that tiling_in by (fastforce simp: lay_mid)
    then show "sep ?b c" using b12 by (simp add: sep_def)
  qed
  have post: "same_hdr m ?m3 c" if "(v, c, i) \<in> set post" for v c i
  proof (rule other)
    show "sep a c" using lay_sep(2) [OF l that] .
    have "a + 12 + k \<le> c" "c + 12 + i \<le> hi" using tiling_in [OF f(3) that] by auto
    then show "sep ?b c" using b12 bb k by (simp add: sep_def)
  qed
  have n: "nd_next ?m3 ?a = ?wb" "nd_next ?m3 ?wb = nd_next m ?a"
    "seg_ok ?m3 (False, a, unat sz)" "seg_ok ?m3 (False, ?b, ?j)"
    using sab b12 f(2) by (simp_all add: node_init_def del: of_nat_add)
  have "lay ?m3 h lo hi (pre @ (False, a, unat sz) # (False, ?b, ?j) # post)"
  proof (rule lay_replace [OF l])
    show "same_hdr m ?m3 c" if "(v, c, i) \<in> set (pre @ post)" for v c i
      using that pre post by auto
    show "tiling (a + 12 + unat sz) hi ((False, ?b, ?j) # post)"
      using f(3) k by (simp add: algebra_simps)
    show "list_all (seg_ok ?m3) ((False, ?b, ?j) # post)"
      using n(4) f(4) list_all_seg_ok_same [OF post] by (simp del: seg_ok.simps of_nat_add)
    show "if False then lseg ?m3 (if frees post = [] then 0 else of_nat (hd (frees post)))
          (frees ((False, ?b, ?j) # post)) 0
        else lseg ?m3 (nd_next ?m3 ?a) (frees ((False, ?b, ?j) # post)) 0"
      using n(1,2) f(5) same_hdr_frees [OF post] by (simp del: of_nat_add)
  qed (rule n)
  moreover have "hdr_only {a, ?b} m ?m3"
    unfolding hdr_only_def node_init_def by (simp del: of_nat_add)
  ultimately show ?thesis using c n(1) by blast
qed

text \<open>The node leaves the free list and becomes a block.\<close>

lemma take_head:
  assumes l: "lay m h lo hi (pre @ (False, a, n) # post)" and "frees pre = []"
  shows "lay (block_init m (of_nat a) (of_nat n)) (nd_next m (of_nat a)) lo hi
     (pre @ (True, a, n) # post)"
proof -
  let ?m = "block_init m (of_nat a) (of_nat n)"
  have a: "a + 12 < 2 ^ 32" using lay_bounds [OF l] by simp
  have other: "same_hdr m ?m b" if "sep a b" for b
    using that by (simp add: same_hdr_def block_init_def)
  have "same_hdr m ?m b" if "(v, b, k) \<in> set pre" for v b k
    using lay_sep(1) [OF l that] by (rule other)
  then have 1: "list_all (seg_ok ?m) pre = list_all (seg_ok m) pre"
    by (rule list_all_seg_ok_same)
  have "same_hdr m ?m b" if "(v, b, k) \<in> set post" for v b k
    using lay_sep(2) [OF l that] by (rule other)
  then have "list_all (seg_ok ?m) post = list_all (seg_ok m) post"
    "lseg ?m p (frees post) 0 = lseg m p (frees post) 0" for p
    by (auto intro!: list_all_seg_ok_same same_hdr_frees)
  then show ?thesis
    using l assms(2) 1 a unfolding lay_mid by (simp add: block_init_def)
qed

lemma take_after:
  assumes l: "lay m h lo hi (pre @ (False, a, n) # post)"
    and pre: "pre = p1 @ (False, t, j) # p2" "frees p2 = []"
  shows "lay (block_init (st32 m (of_nat t + 8) (nd_next m (of_nat a))) (of_nat a) (of_nat n)) h lo hi
     (pre @ (True, a, n) # post)"
proof -
  let ?m = "block_init (st32 m (of_nat t + 8) (nd_next m (of_nat a))) (of_nat a) (of_nat n)"
  have a: "a + 12 < 2 ^ 32" using lay_bounds [OF l] by simp
  have l': "lay m h lo hi (p1 @ (False, t, j) # (p2 @ (False, a, n) # post))" using l pre by simp
  have t: "t + 12 < 2 ^ 32" using lay_bounds [OF l'] by simp
  have sta: "sep t a" using lay_sep(2) [OF l', of False a n] by simp
  then have sat: "sep a t" by (auto simp: sep_def)
  have other: "same_hdr m ?m b" if "sep a b" "sep t b" for b
    using that by (simp add: same_hdr_def block_init_def)
  have p1: "same_hdr m ?m b" if "(v, b, k) \<in> set p1" for v b k
    using that lay_sep(1) [OF l, of v b k] lay_sep(1) [OF l', of v b k] pre by (intro other) auto
  have p2: "same_hdr m ?m b" if "(v, b, k) \<in> set p2" for v b k
    using that lay_sep(1) [OF l, of v b k] lay_sep(2) [OF l', of v b k] pre by (intro other) auto
  have post: "same_hdr m ?m b" if "(v, b, k) \<in> set post" for v b k
    using that lay_sep(2) [OF l, of v b k] lay_sep(2) [OF l', of v b k] by (intro other) auto
  have s: "list_all (seg_ok ?m) p1 = list_all (seg_ok m) p1"
      "list_all (seg_ok ?m) p2 = list_all (seg_ok m) p2"
      "list_all (seg_ok ?m) post = list_all (seg_ok m) post"
    using p1 p2 post by (auto intro!: list_all_seg_ok_same)
  have f: "lseg ?m p (frees p1) q = lseg m p (frees p1) q"
      "lseg ?m p (frees post) q = lseg m p (frees post) q" for p q
    using p1 post by (auto intro!: same_hdr_frees)
  have "seg_ok ?m (False, t, j)" "nd_next ?m (of_nat t) = nd_next m (of_nat a)"
    "seg_ok ?m (True, a, n)"
    using l pre t a sta sat by (simp_all add: block_init_def lay_mid)
  then show ?thesis
    using l pre s f unfolding lay_mid by simp
qed

lemma clear_lay:
  assumes l: "lay m h lo hi (pre @ (True, a, n) # post)"
  shows "lay (block_clear m (of_nat a)) h lo hi (pre @ (True, a, n) # post)"
    and "block_clear m (of_nat a) = (\<lambda>x. if in_range (of_nat a + 12) n x then 0 else m x)"
proof -
  let ?m = "block_clear m (of_nat a)"
  have bb: "a + 12 + n \<le> hi" "hi < 2 ^ 32" "unat (of_nat n :: u32) = n" using lay_bounds [OF l] by auto
  have f: "nd_size m (of_nat a) = of_nat n" "tiling lo a pre" "tiling (a + 12 + n) hi post"
    using l by (auto simp: lay_mid)
  show eq: "?m = (\<lambda>x. if in_range (of_nat a + 12) n x then 0 else m x)"
    using f bb by (intro ext) (simp add: block_clear_def memset_eq node_size_def)
  have same: "same_hdr m ?m b" if "b + 12 < 2 ^ 32" "a + 12 + n \<le> b \<or> b + 12 \<le> a + 12" for b
    by (rule data_same_hdr [where a = a and n = n]) (use that bb in \<open>simp_all add: eq\<close>)
  have "same_hdr m ?m b" if "(v, b, k) \<in> set pre" for v b k
    using tiling_in [OF f(2) that] bb by (intro same) auto
  moreover have "same_hdr m ?m b" if "(v, b, k) \<in> set post" for v b k
    using tiling_in [OF f(3) that] bb by (intro same) auto
  moreover have "same_hdr m ?m a" using bb by (intro same) auto
  ultimately have *: "same_hdr m ?m b" if "(v, b, k) \<in> set (pre @ (True, a, n) # post)" for v b k
    using that by auto
  have "list_all (seg_ok ?m) (pre @ (True, a, n) # post) = list_all (seg_ok m) (pre @ (True, a, n) # post)"
    by (rule list_all_seg_ok_same) (rule *)
  moreover have "lseg ?m h (frees (pre @ (True, a, n) # post)) 0 = lseg m h (frees (pre @ (True, a, n) # post)) 0"
    by (rule same_hdr_frees) (rule *)
  ultimately show "lay ?m h lo hi (pre @ (True, a, n) # post)"
    using l unfolding lay_def by (simp only:)
qed


lemma untouched_trans:
  "untouched ss m m' \<Longrightarrow> untouched ss m' m'' \<Longrightarrow> untouched ss m m''"
  by (simp add: untouched_def)

lemma too_small_find:
  assumes l: "lay m h lo hi (pre @ (False, a, k) # post)" and "too_small c pre" "c \<le> k"
  shows "find_size_loop m (of_nat c) h 0 =
    Some (of_nat a, if frees pre = [] then 0 else of_nat (last (frees pre)))"
proof -
  have bb: "0 < a" "a + 12 + k \<le> hi" "hi < 2 ^ 32" "(of_nat a :: u32) \<noteq> 0"
    using lay_bounds [OF l] by auto
  have f: "tiling lo a pre" "0 < lo" "list_all (seg_ok m) pre" "lseg m h (frees pre) (of_nat a)"
    "nd_size m (of_nat a) = of_nat k"
    using l by (auto simp: lay_mid)
  have ab: "a < 2 ^ 32" "c < 2 ^ 32" "k < 2 ^ 32" using bb assms(3) by auto
  have "find_size_loop m (of_nat c) h 0 =
      find_size_loop m (of_nat c) (of_nat a) (if frees pre = [] then 0 else of_nat (last (frees pre)))"
    by (rule find_size_skip [OF f(4)]) (rule too_small_frees [OF assms(2) f(1,2) ab(1) f(3) ab(2)])
  then show ?thesis using bb f(5) ab assms(3) of_nat_le [of c k] by (simp add: find_size_step)
qed

lemma alloc_body_some:
  assumes ok: "heap_ok s (pre @ (False, a, k) # post)"
    and room: "too_small (unat sz + 12) pre" "unat sz + 12 \<le> k"
  shows "\<exists>m h. alloc_body sz s = Some (of_nat a + 12, s\<lparr>mem := m, pm_head := h\<rparr>) \<and>
     heap_ok (s\<lparr>mem := m, pm_head := h\<rparr>)
       (pre @ (True, a, unat sz) # (False, a + 12 + unat sz, k - 12 - unat sz) # post) \<and>
     untouched (pre @ post) (mem s) m \<and>
     (\<forall>x. in_range (of_nat a + 12) (unat sz) x \<longrightarrow> m x = 0)"
proof -
  let ?a = "of_nat a :: u32" and ?lo = "unat (pm_start s)" and ?hi = "unat (pm_end s)"
  let ?b = "a + 12 + unat sz" and ?j = "k - 12 - unat sz"
  let ?mid = "\<lambda>u. pre @ (u, a, unat sz) # (False, ?b, ?j) # post"
  have l: "lay (mem s) (pm_head s) ?lo ?hi (pre @ (False, a, k) # post)"
    and co: "coalesced (pre @ (False, a, k) # post)"
    using ok by (auto simp: heap_ok_def)
  have bb: "0 < a" "a + 12 + k \<le> ?hi" "?hi < 2 ^ 32" "?a \<noteq> 0" using lay_bounds [OF l] by auto
  obtain m1 where m1: "node_split (mem s) ?a sz = Some (?a, m1)"
    "nd_next m1 ?a = of_nat ?b" "lay m1 (pm_head s) ?lo ?hi (?mid False)"
    "hdr_only {a, ?b} (mem s) m1"
    using split_lay [OF l room(2)] by blast
  have co': "coalesced (?mid True)"
    using coalesced_use [OF co] by simp
  have "\<exists>m2 h. (if ?a = pm_head s
       then do { Assert ((if frees pre = [] then 0 else of_nat (last (frees pre)) :: u32) = 0);
                 Some (s\<lparr>mem := m1, pm_head := nd_next m1 ?a\<rparr>) }
       else do { Assert ((if frees pre = [] then 0 else of_nat (last (frees pre)) :: u32) \<noteq> 0);
                 Some (s\<lparr>mem := st32 m1 ((if frees pre = [] then 0 else of_nat (last (frees pre))) + 8)
                   (nd_next m1 ?a)\<rparr>) }) = Some (s\<lparr>mem := m2, pm_head := h\<rparr>) \<and>
     lay (block_init m2 ?a sz) h ?lo ?hi (?mid True) \<and>
     hdr_only (insert a (headers pre)) m1 (block_init m2 ?a sz)"
  proof (cases "frees pre = []")
    case True
    then have h: "pm_head s = ?a" using l by (auto simp: lay_mid)
    show ?thesis
      using True h take_head [OF m1(3) True]
      by (intro exI [of _ m1] exI [of _ "nd_next m1 ?a"]) (simp add: hdr_only_def block_init_def)
  next
    case False
    define t where "t = last (frees pre)"
    obtain p1 j p2 where pre: "pre = p1 @ (False, t, j) # p2" "frees p2 = []"
      using frees_lastD [OF False] unfolding t_def by blast
    have til: "tiling ?lo a pre" "0 < ?lo" "lseg (mem s) (pm_head s) (frees pre) ?a"
      using l by (auto simp: lay_mid)
    have t: "(of_nat t :: u32) \<noteq> 0"
      using pre til tiling_in [OF til(1), of False t j] bb by (intro of_nat_neq_0) auto
    obtain c where c: "pm_head s = of_nat c" "c \<in> set (frees pre)"
      using til(3) False by (cases "frees pre") auto
    then have "c + 12 \<le> a" using tiling_frees [OF til(1)] by blast
    then have h: "?a \<noteq> pm_head s"
      using c bb unat_of_nat32 [of a] unat_of_nat32 [of c] by auto
    have "hdr_only (insert a (headers pre)) m1
        (block_init (st32 m1 (of_nat t + 8) (nd_next m1 ?a)) ?a sz)"
      using pre by (simp add: hdr_only_def block_init_def)
    then show ?thesis
      using False h t take_after [OF m1(3) pre]
      by (intro exI [of _ "st32 m1 (of_nat t + 8) (nd_next m1 ?a)"] exI [of _ "pm_head s"])
        (simp add: t_def)
  qed
  then obtain m2 h where m2: "(if ?a = pm_head s
       then do { Assert ((if frees pre = [] then 0 else of_nat (last (frees pre)) :: u32) = 0);
                 Some (s\<lparr>mem := m1, pm_head := nd_next m1 ?a\<rparr>) }
       else do { Assert ((if frees pre = [] then 0 else of_nat (last (frees pre)) :: u32) \<noteq> 0);
                 Some (s\<lparr>mem := st32 m1 ((if frees pre = [] then 0 else of_nat (last (frees pre))) + 8)
                   (nd_next m1 ?a)\<rparr>) }) = Some (s\<lparr>mem := m2, pm_head := h\<rparr>)"
     "lay (block_init m2 ?a sz) h ?lo ?hi (?mid True)"
     "hdr_only (insert a (headers pre)) m1 (block_init m2 ?a sz)"
    by blast
  let ?m3 = "block_init m2 ?a sz" and ?m4 = "block_clear (block_init m2 ?a sz) ?a"
  note cl = clear_lay [OF m2(2)]
  have find: "node_find_size s (sz + node_size) =
      Some (?a, if frees pre = [] then 0 else of_nat (last (frees pre)))"
    using too_small_find [OF l room] by (simp add: node_find_size_def node_size_def)
  have magic: "nd_magic (mem s) ?a = node_magic" using l by (simp add: lay_mid)
  have run: "alloc_body sz s = Some (?a + 12, s\<lparr>mem := ?m4, pm_head := h\<rparr>)"
    unfolding alloc_body_def find by (simp add: bb magic m1(1) m2(1) node_size_def Let_def)
  have "hdr_only (insert a (insert ?b (headers pre))) (mem s) ?m3"
    using hdr_only_trans [OF m1(4) m2(3)] by (simp add: hdr_only_def)
  moreover have "insert a (insert ?b (headers pre)) \<subseteq> headers (?mid True)"
    by auto
  ultimately have "untouched (?mid True) (mem s) ?m3"
    using m2(2) by (auto simp: lay_def intro: hdr_only_untouched)
  then have u3: "untouched (pre @ post) (mem s) ?m3" by (auto simp: untouched_def)
  have "untouched (pre @ post) ?m3 ?m4"
    unfolding untouched_def
  proof (intro allI impI)
    fix b n x assume b: "(True, b, n) \<in> set (pre @ post)" "in_range (of_nat b + 12) n x"
    have til: "tiling ?lo ?hi (?mid True)" using m2(2) by (simp add: lay_def)
    have bin: "(True, b, n) \<in> set (?mid True)" using b(1) by auto
    have "b \<noteq> a" using b(1) l tiling_in by (fastforce simp: lay_mid)
    moreover have "b + 12 + n \<le> ?hi" using tiling_in [OF til bin] by simp
    ultimately have "\<not> in_range (?a + 12) (unat sz) x"
      using tiling_two [OF til bin, of True a "unat sz"] b(2) bb room(2)
        in_data_iff(1) [of b n x] in_data_iff(1) [of a "unat sz" x] by auto
    then show "?m4 x = ?m3 x" using cl(2) by simp
  qed
  with u3 have "untouched (pre @ post) (mem s) ?m4" by (rule untouched_trans)
  moreover have "heap_ok (s\<lparr>mem := ?m4, pm_head := h\<rparr>) (?mid True)"
    using cl(1) co' by (simp add: heap_ok_def)
  moreover have "\<forall>x. in_range (?a + 12) (unat sz) x \<longrightarrow> ?m4 x = 0" using cl(2) by simp
  ultimately show ?thesis using run by blast
qed


section \<open>The locked operations\<close>

definition pmm_ok :: "'a pmm_scheme \<Rightarrow> seg list \<Rightarrow> bool" where
  "pmm_ok s ss \<longleftrightarrow> heap_ok s ss \<and> cli_ok s \<and> lock_free (pmm_lock s)"

lemma entered_sel [simp]:
  "mem (pmm_lk.entered s) = mem s" "pm_head (pmm_lk.entered s) = pm_head s"
  "pm_start (pmm_lk.entered s) = pm_start s" "pm_end (pmm_lk.entered s) = pm_end s"
  by (simp_all add: pmm_lk.entered_def pushed_def)

lemma entered_upd:
  "(pmm_lk.entered s)\<lparr>mem := m, pm_head := h\<rparr> = pmm_lk.entered (s\<lparr>mem := m, pm_head := h\<rparr>)"
  by (simp add: pmm_lk.entered_def pushed_def hw_defs)

lemma pmm_ok_entered: "heap_ok (pmm_lk.entered s) ss = heap_ok s ss"
  by (simp add: heap_ok_def)

lemma cli_ok_upd [simp]: "cli_ok (s\<lparr>mem := m, pm_head := h\<rparr>) = cli_ok (s :: 'a pmm_scheme)"
  by (simp add: cli_ok_def hw_defs)

lemma pmm_unlock:
  assumes "cli_ok s" "lock_free (pmm_lock s)"
  shows "unlock_on pmm_lock pmm_lock_update (pmm_lk.entered (s\<lparr>mem := m, pm_head := h\<rparr>)) =
    Some (s\<lparr>mem := m, pm_head := h\<rparr>)"
proof -
  have "Option.bind (lock_on pmm_lock pmm_lock_update (s\<lparr>mem := m, pm_head := h\<rparr>))
      (unlock_on pmm_lock pmm_lock_update) = Some (s\<lparr>mem := m, pm_head := h\<rparr>)"
    by (rule pmm_lk.bracket) (use assms in simp_all)
  moreover have "lock_on pmm_lock pmm_lock_update (s\<lparr>mem := m, pm_head := h\<rparr>) =
      Some (pmm_lk.entered (s\<lparr>mem := m, pm_head := h\<rparr>))"
    by (rule pmm_lk.lock_on_free) (use assms in simp_all)
  ultimately show ?thesis by simp
qed

lemma pmm_lock_entered:
  "pmm_ok s ss \<Longrightarrow> lock_on pmm_lock pmm_lock_update s = Some (pmm_lk.entered s)"
  by (auto simp: pmm_ok_def intro: pmm_lk.lock_on_free)

lemma pmm_alloc_some:
  assumes ok: "pmm_ok s (pre @ (False, a, k) # post)"
    and room: "too_small (unat sz + 12) pre" "unat sz + 12 \<le> k"
  shows "\<exists>m h. pmm_alloc sz s = Some (of_nat a + 12, s\<lparr>mem := m, pm_head := h\<rparr>) \<and>
     pmm_ok (s\<lparr>mem := m, pm_head := h\<rparr>)
       (pre @ (True, a, unat sz) # (False, a + 12 + unat sz, k - 12 - unat sz) # post) \<and>
     untouched (pre @ post) (mem s) m \<and>
     (\<forall>x. in_range (of_nat a + 12) (unat sz) x \<longrightarrow> m x = 0)"
proof -
  have h: "heap_ok (pmm_lk.entered s) (pre @ (False, a, k) # post)"
    and c: "cli_ok s" "lock_free (pmm_lock s)"
    using ok by (simp_all add: pmm_ok_def pmm_ok_entered)
  from alloc_body_some [OF h room] obtain m h where
    b: "alloc_body sz (pmm_lk.entered s) = Some (of_nat a + 12, pmm_lk.entered (s\<lparr>mem := m, pm_head := h\<rparr>))"
    "heap_ok (s\<lparr>mem := m, pm_head := h\<rparr>)
       (pre @ (True, a, unat sz) # (False, a + 12 + unat sz, k - 12 - unat sz) # post)"
    "untouched (pre @ post) (mem s) m" "\<forall>x. in_range (of_nat a + 12) (unat sz) x \<longrightarrow> m x = 0"
    by (auto simp: entered_upd pmm_ok_entered)
  have "pmm_alloc sz s = Some (of_nat a + 12, s\<lparr>mem := m, pm_head := h\<rparr>)"
    by (simp add: pmm_alloc_def pmm_lock_entered [OF ok] b(1) pmm_unlock [OF c])
  then show ?thesis using b c by (intro exI [of _ m] exI [of _ h]) (simp add: pmm_ok_def)
qed

lemma pmm_alloc_none:
  assumes ok: "pmm_ok s ss" and "too_small (unat sz + 12) ss" "unat sz + 12 < 2 ^ 32"
  shows "pmm_alloc sz s = Some (0, s)"
proof -
  have "alloc_body sz (pmm_lk.entered s) = Some (0, pmm_lk.entered s)"
    using ok assms(2,3) by (intro alloc_body_none) (simp_all add: pmm_ok_def pmm_ok_entered)
  moreover have "unlock_on pmm_lock pmm_lock_update (pmm_lk.entered s) = Some s"
    using pmm_unlock [where s = s and m = "mem s" and h = "pm_head s"] ok by (simp add: pmm_ok_def)
  ultimately show ?thesis by (simp add: pmm_alloc_def pmm_lock_entered [OF ok])
qed

lemma pmm_free_some:
  assumes ok: "pmm_ok s (pre @ (True, a, n) # post)"
  shows "\<exists>m h. pmm_free (of_nat a + 12) s = Some (s\<lparr>mem := m, pm_head := h\<rparr>) \<and>
     pmm_ok (s\<lparr>mem := m, pm_head := h\<rparr>) (release pre a n post) \<and> untouched (pre @ post) (mem s) m"
proof -
  have h: "heap_ok (pmm_lk.entered s) (pre @ (True, a, n) # post)"
    and c: "cli_ok s" "lock_free (pmm_lock s)"
    using ok by (simp_all add: pmm_ok_def pmm_ok_entered)
  from free_body_ok [OF h] obtain m h where
    b: "free_body (of_nat a + 12) (pmm_lk.entered s) = Some (pmm_lk.entered (s\<lparr>mem := m, pm_head := h\<rparr>))"
    "heap_ok (s\<lparr>mem := m, pm_head := h\<rparr>) (release pre a n post)"
    "untouched (pre @ post) (mem s) m"
    by (auto simp: entered_upd pmm_ok_entered)
  have "a + 12 < 2 ^ 32" "0 < a"
    using lay_bounds [of "mem s" "pm_head s" "unat (pm_start s)" "unat (pm_end s)" pre True a n post] ok
    by (auto simp: pmm_ok_def heap_ok_def)
  then have "(of_nat (a + 12) :: u32) \<noteq> 0" by (intro of_nat_neq_0) auto
  then have "(of_nat a + 12 :: u32) \<noteq> 0" by simp
  then have "pmm_free (of_nat a + 12) s = Some (s\<lparr>mem := m, pm_head := h\<rparr>)"
    by (simp add: pmm_free_def pmm_lock_entered [OF ok] b(1) pmm_unlock [OF c])
  then show ?thesis using b c by (intro exI [of _ m] exI [of _ h]) (simp add: pmm_ok_def)
qed

lemma too_small_or_fit:
  "too_small k ss \<or> (\<exists>pre a n post. ss = pre @ (False, a, n) # post \<and> too_small k pre \<and> k \<le> n)"
proof (induction ss)
  case Nil then show ?case by (simp add: too_small_def)
next
  case (Cons x ss)
  obtain u a n where x: "x = (u, a, n)" by (cases x)
  show ?case
  proof (cases "\<not> u \<and> k \<le> n")
    case True
    then have "x # ss = [] @ (False, a, n) # ss \<and> too_small k [] \<and> k \<le> n"
      using x by (simp add: too_small_def)
    then show ?thesis by blast
  next
    case False
    have step: "too_small k xs \<Longrightarrow> too_small k (x # xs)" for xs
      using False x by (auto simp: too_small_def)
    from Cons show ?thesis
    proof (elim disjE exE conjE)
      fix pre b m post assume "ss = pre @ (False, b, m) # post" "too_small k pre" "k \<le> m"
      then have "x # ss = (x # pre) @ (False, b, m) # post \<and> too_small k (x # pre) \<and> k \<le> m"
        using step by simp
      then show ?thesis by blast
    qed (use step in blast)
  qed
qed

lemma release_after_split:
  assumes "coalesced (pre @ (False, a, k) # post)" "unat sz + 12 \<le> k"
  shows "release pre a (unat sz) ((False, b, k - 12 - unat sz) # post) = pre @ (False, a, k) # post"
proof -
  have k: "unat sz + 12 + (k - 12 - unat sz) = k" using assms(2) by simp
  have "release pre a (unat sz) ((False, b, k - 12 - unat sz) # post) =
      pre @ absorb a (unat sz) ((False, b, k - 12 - unat sz) # post)"
    using assms(1)
  proof (induction pre a "unat sz" "(False, b, k - 12 - unat sz) # post" rule: release.induct)
    case (4 x y ys a) then show ?case using coalesced_tl [of "(False, x)"] by simp
  qed auto
  then show ?thesis using k by simp
qed

section \<open>Correctness of the allocator\<close>

definition pmm_blank :: pmm where
  "pmm_blank = \<lparr>cur_cpu = 0, n_cpu = 1, intr_on = (\<lambda>_. True),
     cpu_cli = (\<lambda>_. \<lparr>cli_count = 0, cli_hasIF = 0\<rparr>), mem = (\<lambda>_. 255),
     pm_start = 0, pm_end = 0, pm_head = 0, pmm_lock = spin_init ''''\<rparr>"

lemma pmm_blank_cli [simp]: "cli_ok pmm_blank"
  by (simp add: cli_ok_def pmm_blank_def hw_defs)

lemma pmm_init_heap:
  assumes "0 < st" "unat st + 12 \<le> unat en" "cli_ok s"
  shows "pmm_ok (pmm_init st en s) [(False, unat st, unat en - unat st - 12)]"
proof -
  have en: "unat st + 12 < 2 ^ 32" "unat en < 2 ^ 32" using assms(2) unat_lt_2p32 [of en] by auto
  have w: "en - st - node_size = of_nat (unat en - unat st - 12)"
    using assms(2) by (simp add: node_size_def of_nat_diff)
  have "0 < unat st" using assms(1) by (simp add: unat_gt_0 word_neq_0_conv)
  then have "heap_ok (pmm_init st en s) [(False, unat st, unat en - unat st - 12)]"
    using en assms(2) hdr_same [OF en(1)] w
    by (simp add: heap_ok_def lay_def pmm_init_def node_init_def)
  then show ?thesis using assms(3) by (simp add: pmm_ok_def pmm_init_def cli_ok_def hw_defs lock_free_init)
qed


text \<open>C1: Allocation is first fit. When the first free segment with room for the request and one
  more header lies at \<open>a\<close>, \<open>pmm->alloc\<close> returns the address behind the header at \<open>a\<close>, the heap
  is tiled by the same segments with that one split in two, the returned bytes are all zero, no
  byte of another allocated block changes, and the lock and the interrupt state are as before.\<close>
theorem alloc_first_fit:
  assumes "pmm_ok s (pre @ (False, a, k) # post)"
    and "too_small (unat sz + 12) pre" "unat sz + 12 \<le> k"
  shows "\<exists>m h. pmm_alloc sz s = Some (of_nat a + 12, s\<lparr>mem := m, pm_head := h\<rparr>) \<and>
     pmm_ok (s\<lparr>mem := m, pm_head := h\<rparr>)
       (pre @ (True, a, unat sz) # (False, a + 12 + unat sz, k - 12 - unat sz) # post) \<and>
     untouched (pre @ post) (mem s) m \<and>
     (\<forall>x. in_range (of_nat a + 12) (unat sz) x \<longrightarrow> m x = 0)"
  using assms by (rule pmm_alloc_some)

theorem alloc_first_fit_witness:
  "\<exists>m h. pmm_alloc 64 (pmm_init 0x100000 0x200000 pmm_blank) =
     Some (0x10000C, (pmm_init 0x100000 0x200000 pmm_blank)\<lparr>mem := m, pm_head := h\<rparr>)"
proof -
  have "pmm_ok (pmm_init 0x100000 0x200000 pmm_blank) ([] @ (False, 1048576, 1048564) # [])"
    using pmm_init_heap [of "0x100000" "0x200000" pmm_blank] by simp
  from alloc_first_fit [OF this, of 64] show ?thesis by (auto simp: too_small_def)
qed

text \<open>Exhaustion is reported, not silent: when no free segment has room for the request and
  one more header, \<open>pmm->alloc\<close> returns \<open>NULL\<close> and changes nothing.\<close>
lemma alloc_exhausted:
  assumes "pmm_ok s ss" "too_small (unat sz + 12) ss" "unat sz + 12 < 2 ^ 32"
  shows "pmm_alloc sz s = Some (0, s)"
  using assms by (rule pmm_alloc_none)

lemma alloc_exhausted_witness:
  "pmm_alloc 1024 (pmm_init 0x1000 0x1020 pmm_blank) = Some (0, pmm_init 0x1000 0x1020 pmm_blank)"
proof (rule alloc_exhausted)
  show "pmm_ok (pmm_init 0x1000 0x1020 pmm_blank) [(False, 4096, 20)]"
    using pmm_init_heap [of "0x1000" "0x1020" pmm_blank] by simp
qed (simp_all add: too_small_def)

text \<open>C2: Releasing an allocated block always succeeds: the segment becomes free and merges with a
  free segment behind it and with one before it, so that no two free segments are adjacent
  again; no byte of another allocated block changes.\<close>
theorem free_merges:
  assumes "pmm_ok s (pre @ (True, a, n) # post)"
  shows "\<exists>m h. pmm_free (of_nat a + 12) s = Some (s\<lparr>mem := m, pm_head := h\<rparr>) \<and>
     pmm_ok (s\<lparr>mem := m, pm_head := h\<rparr>) (release pre a n post) \<and> untouched (pre @ post) (mem s) m"
  using assms by (rule pmm_free_some)

text \<open>C4: \<open>alloc\<close> followed by \<open>free\<close> of its result gives back exactly the segments
  there were before: nothing leaks and nothing fragments.\<close>
theorem alloc_free_restores:
  assumes "pmm_ok s (pre @ (False, a, k) # post)"
    and "too_small (unat sz + 12) pre" "unat sz + 12 \<le> k"
  shows "\<exists>p s1 s2. pmm_alloc sz s = Some (p, s1) \<and> p \<noteq> 0 \<and> pmm_free p s1 = Some s2 \<and>
     pmm_ok s2 (pre @ (False, a, k) # post) \<and> untouched (pre @ post) (mem s) (mem s2)"
proof -
  obtain m h where a: "pmm_alloc sz s = Some (of_nat a + 12, s\<lparr>mem := m, pm_head := h\<rparr>)"
    "pmm_ok (s\<lparr>mem := m, pm_head := h\<rparr>)
       (pre @ (True, a, unat sz) # (False, a + 12 + unat sz, k - 12 - unat sz) # post)"
    "untouched (pre @ post) (mem s) m"
    using pmm_alloc_some [OF assms] by blast
  let ?s1 = "s\<lparr>mem := m, pm_head := h\<rparr>"
  obtain m' h' where f: "pmm_free (of_nat a + 12) ?s1 = Some (?s1\<lparr>mem := m', pm_head := h'\<rparr>)"
    "pmm_ok (?s1\<lparr>mem := m', pm_head := h'\<rparr>)
       (release pre a (unat sz) ((False, a + 12 + unat sz, k - 12 - unat sz) # post))"
    "untouched (pre @ (False, a + 12 + unat sz, k - 12 - unat sz) # post) m m'"
    using pmm_free_some [OF a(2)] by auto
  have "a + 12 < 2 ^ 32"
    using lay_bounds [of "mem s" "pm_head s" "unat (pm_start s)" "unat (pm_end s)" pre False a k post] assms
    by (auto simp: pmm_ok_def heap_ok_def)
  then have "(of_nat (a + 12) :: u32) \<noteq> 0" by (intro of_nat_neq_0) auto
  then have p: "(of_nat a + 12 :: u32) \<noteq> 0" by simp
  have "coalesced (pre @ (False, a, k) # post)" using assms(1) by (simp add: pmm_ok_def heap_ok_def)
  then have r: "release pre a (unat sz) ((False, a + 12 + unat sz, k - 12 - unat sz) # post) =
      pre @ (False, a, k) # post"
    by (rule release_after_split) (rule assms(3))
  have "untouched (pre @ post) (mem s) m'" using a(3) f(3) by (auto simp: untouched_def)
  then show ?thesis using a(1) f p r by fastforce
qed

theorem alloc_free_restores_witness:
  "\<exists>p s1 s2. pmm_alloc 64 (pmm_init 0x100000 0x200000 pmm_blank) = Some (p, s1) \<and> p \<noteq> 0 \<and>
     pmm_free p s1 = Some s2 \<and> pmm_ok s2 [(False, 1048576, 1048564)]"
proof -
  have "pmm_ok (pmm_init 0x100000 0x200000 pmm_blank) ([] @ (False, 1048576, 1048564) # [])"
    using pmm_init_heap [of "0x100000" "0x200000" pmm_blank] by simp
  from alloc_free_restores [OF this, of 64] show ?thesis by (auto simp: too_small_def)
qed

theorem free_merges_witness:
  "\<exists>m h s m' h'. pmm_alloc 64 (pmm_init 0x100000 0x200000 pmm_blank) = Some (0x10000C, s) \<and>
     pmm_free 0x10000C s = Some (s\<lparr>mem := m', pm_head := h'\<rparr>) \<and> m = mem s \<and> h = pm_head s \<and>
     pmm_ok (s\<lparr>mem := m', pm_head := h'\<rparr>) [(False, 1048576, 1048564)]"
proof -
  have "pmm_ok (pmm_init 0x100000 0x200000 pmm_blank) ([] @ (False, 1048576, 1048564) # [])"
    using pmm_init_heap [of "0x100000" "0x200000" pmm_blank] by simp
  from pmm_alloc_some [OF this, of 64] obtain m h where
    a: "pmm_alloc 64 (pmm_init 0x100000 0x200000 pmm_blank) =
       Some (0x10000C, (pmm_init 0x100000 0x200000 pmm_blank)\<lparr>mem := m, pm_head := h\<rparr>)"
    "pmm_ok ((pmm_init 0x100000 0x200000 pmm_blank)\<lparr>mem := m, pm_head := h\<rparr>)
       ([] @ (True, 1048576, 64) # [(False, 1048652, 1048488)])"
    by (auto simp: too_small_def)
  from free_merges [OF a(2)] a(1) show ?thesis by auto
qed

text \<open>The request plus the header is computed in 32 bits and wraps: on a heap of one free
  segment of at least four bytes a request for 4294967288 bytes succeeds, and clears all but
  eight bytes of the address space.\<close>
lemma alloc_wraps:
  assumes "pmm_ok s [(False, a, k)]" "4 \<le> k"
  shows "\<exists>s'. alloc_body 0xFFFFFFF8 s = Some (of_nat a + 12, s') \<and>
     (\<forall>x. in_range (of_nat a + 12) 0xFFFFFFF8 x \<longrightarrow> mem s' x = 0)"
proof -
  let ?a = "of_nat a :: u32"
  have l: "lay (mem s) (pm_head s) (unat (pm_start s)) (unat (pm_end s)) ([] @ (False, a, k) # [])"
    using assms by (simp add: pmm_ok_def heap_ok_def)
  have bb: "?a \<noteq> 0" "unat (of_nat k :: u32) = k" "a + 12 < 2 ^ 32" using lay_bounds [OF l] by auto
  have f: "pm_head s = ?a" "nd_magic (mem s) ?a = node_magic" "nd_size (mem s) ?a = of_nat k"
    using l by (auto simp: lay_def)
  have k: "\<not> of_nat k < (4 :: u32)" "(4 :: u32) \<le> of_nat k"
    using assms(2) bb(2) by (simp_all add: word_less_nat_alt word_le_nat_alt)
  have e: "0xFFFFFFF8 + node_size = (4 :: u32)" by (simp add: node_size_def)
  have find: "node_find_size s (0xFFFFFFF8 + node_size) = Some (?a, 0)"
    unfolding e using f bb k by (simp add: node_find_size_def find_size_step)
  obtain m1 where split: "node_split (mem s) ?a 0xFFFFFFF8 = Some (?a, m1)"
    using f bb k by (simp add: node_split_def e Let_def)
  let ?m = "block_init m1 ?a 0xFFFFFFF8"
  have "nd_size ?m ?a = 0xFFFFFFF8" using bb by (simp add: block_init_def)
  then have "block_clear ?m ?a = (\<lambda>x. if in_range (?a + 12) 0xFFFFFFF8 x then 0 else ?m x)"
    by (intro ext) (simp add: block_clear_def memset_eq node_size_def)
  moreover have "alloc_body 0xFFFFFFF8 s =
      Some (?a + 12, s\<lparr>pm_head := nd_next m1 ?a, mem := block_clear ?m ?a\<rparr>)"
    unfolding alloc_body_def find using f bb split by (simp add: node_size_def Let_def)
  ultimately show ?thesis by simp
qed

lemma alloc_wraps_witness:
  "\<exists>s'. alloc_body 0xFFFFFFF8 (pmm_init 0x1000 0x1020 pmm_blank) = Some (0x100C, s')"
proof -
  have "pmm_ok (pmm_init 0x1000 0x1020 pmm_blank) [(False, 4096, 20)]"
    using pmm_init_heap [of "0x1000" "0x1020" pmm_blank] by simp
  from alloc_wraps [OF this] show ?thesis by auto
qed

end
