(* ===== verification/PmmUse.thy ===== *)
theory PmmUse
  imports Pmm
begin

text \<open>
  The allocator as the rest of the kernel uses it: an allocation with room somewhere in the heap,
  whatever the free list looks like, and writes into a block that is held.
\<close>

text \<open>Allocation with room somewhere: the block is new, the others stay, and what is left of the
  room is still free.\<close>

lemma pmm_alloc_room:
  assumes ok: "pmm_ok s ss" and room: "(False, a, k) \<in> set ss" "unat sz + 12 \<le> k"
  shows "\<exists>b m h ss'. pmm_alloc sz s = Some (of_nat b + 12, s\<lparr>mem := m, pm_head := h\<rparr>) \<and>
     pmm_ok (s\<lparr>mem := m, pm_head := h\<rparr>) ss' \<and> (of_nat b + 12 :: u32) \<noteq> 0 \<and>
     (True, b, unat sz) \<in> set ss' \<and> (\<forall>c n. (True, c, n) \<in> set ss \<longrightarrow> (True, c, n) \<in> set ss' \<and>
        (of_nat c + 12 :: u32) \<noteq> of_nat b + 12) \<and>
     untouched ss (mem s) m \<and>
     (\<exists>c j. (False, c, j) \<in> set ss' \<and> k \<le> j + 12 + unat sz)"
proof -
  have "\<not> too_small (unat sz + 12) ss" using room by (auto simp: too_small_def not_less)
  then obtain pre b n post where ss: "ss = pre @ (False, b, n) # post" "too_small (unat sz + 12) pre" "unat sz + 12 \<le> n"
    using too_small_or_fit by blast
  have ok': "pmm_ok s (pre @ (False, b, n) # post)" using ok ss by simp
  obtain m h where m: "pmm_alloc sz s = Some (of_nat b + 12, s\<lparr>mem := m, pm_head := h\<rparr>)"
    "pmm_ok (s\<lparr>mem := m, pm_head := h\<rparr>) (pre @ (True, b, unat sz) # (False, b + 12 + unat sz, n - 12 - unat sz) # post)"
    "untouched (pre @ post) (mem s) m"
    using pmm_alloc_some [OF ok' ss(2,3)] by blast
  let ?ss' = "pre @ (True, b, unat sz) # (False, b + 12 + unat sz, n - 12 - unat sz) # post"
  have l: "lay (mem s) (pm_head s) (unat (pm_start s)) (unat (pm_end s)) (pre @ (False, b, n) # post)"
    using ok' by (simp add: pmm_ok_def heap_ok_def)
  note bb = lay_bounds [OF l]
  have til: "tiling (unat (pm_start s)) (unat (pm_end s)) ss" using l ss(1) by (simp add: lay_def)
  have u12: "unat (of_nat c + 12 :: u32) = c + 12" if "c + 12 < 2 ^ 32" for c
    using that unat_of_nat32 [of "c + 12"] by simp
  have ub: "unat (of_nat b + 12 :: u32) = b + 12" by (rule u12) (use bb in linarith)
  have nz: "(of_nat b + 12 :: u32) \<noteq> 0"
  proof
    assume "(of_nat b + 12 :: u32) = 0"
    then show False using ub by simp
  qed
  have other: "(True, c, j) \<in> set ?ss' \<and> (of_nat c + 12 :: u32) \<noteq> of_nat b + 12" if c: "(True, c, j) \<in> set ss" for c j
  proof -
    have "c + 12 + j \<le> unat (pm_end s)" using tiling_in [OF til c] by simp
    then have "c + 12 < 2 ^ 32" using bb by linarith
    moreover have "c \<noteq> b" using tiling_two [OF til c, of False b n] ss(1) by auto
    ultimately have "(of_nat c + 12 :: u32) \<noteq> of_nat b + 12" using u12 [of c] ub by auto
    then show ?thesis using c ss(1) by auto
  qed
  have "untouched ss (mem s) m" using m(3) ss(1) by (auto simp: untouched_def)
  moreover have "\<exists>c j. (False, c, j) \<in> set ?ss' \<and> k \<le> j + 12 + unat sz"
  proof (cases "(a, k) = (b, n)")
    case True
    then show ?thesis using ss(3) by (intro exI [of _ "b + 12 + unat sz"] exI [of _ "n - 12 - unat sz"]) auto
  next
    case False
    then have "(False, a, k) \<in> set ?ss'" using room(1) ss(1) by auto
    then show ?thesis by (intro exI [of _ a] exI [of _ k]) auto
  qed
  ultimately show ?thesis
    using m(1,2) nz other by (intro exI [of _ b] exI [of _ m] exI [of _ h] exI [of _ ?ss']) auto
qed

text \<open>Writing into the data of an allocated block keeps the heap.\<close>

lemma data_write_ok:
  assumes ok: "pmm_ok s ss" and b: "(True, b, n) \<in> set ss"
    and m: "\<And>x. \<not> in_range (of_nat b + 12) n x \<Longrightarrow> m' x = mem s x"
  shows "pmm_ok (s\<lparr>mem := m'\<rparr>) ss"
proof -
  have l: "tiling (unat (pm_start s)) (unat (pm_end s)) ss" "unat (pm_end s) < 2 ^ 32"
    using ok by (simp_all add: pmm_ok_def heap_ok_def lay_def)
  have same: "same_hdr (mem s) m' c" if c: "(u, c, j) \<in> set ss" for u c j
  proof (rule data_same_hdr [OF m])
    show "b + 12 + n < 2 ^ 32" "c + 12 < 2 ^ 32"
      using tiling_in [OF l(1) b] tiling_in [OF l(1) c] l(2) by auto
    show "b + 12 + n \<le> c \<or> c + 12 \<le> b + 12" using tiling_two [OF l(1) b c] by auto
  qed
  have "list_all (seg_ok m') ss = list_all (seg_ok (mem s)) ss"
    by (rule list_all_seg_ok_same) (rule same)
  moreover have "lseg m' (pm_head s) (frees ss) 0 = lseg (mem s) (pm_head s) (frees ss) 0"
    by (rule same_hdr_frees) (rule same)
  ultimately show ?thesis using ok by (simp add: pmm_ok_def heap_ok_def lay_def cli_ok_def hw_defs)
qed

lemma unat_shift:
  assumes "in_range (a + of_nat off) n x" "off + n < 2 ^ 32"
  shows "unat (x - a) = off + unat (x - (a + of_nat off))"
proof -
  let ?k = "unat (x - (a + of_nat off))"
  have k: "?k < n" using assms(1) by (simp add: in_range_def)
  have "x - a = of_nat (off + ?k)" by (simp add: algebra_simps)
  then show ?thesis using k assms(2) unat_of_nat32 [of "off + ?k"] by simp
qed

lemma in_range_shift:
  "in_range (a + of_nat off) n x \<Longrightarrow> off + n \<le> k \<Longrightarrow> k < 2 ^ 32 \<Longrightarrow> in_range a k x"
  using unat_shift [of a off n x] by (auto simp: in_range_def)

end
