(* ===== verification/Os.thy ===== *)
theory Os
  imports PmmUse
begin

text \<open>
  Interrupt dispatch (\<open>os.c\<close>): the list of handlers, ordered by their sequence number, and
  \<open>trap\<close>, which the machine layer calls for every interrupt, exception and \<open>_yield\<close>.
  The nodes of the list are its elements; a pointer into it is a position. A function pointer is
  the name of the function it points to, and what calling it does is the argument \<open>call\<close> of
  \<open>trap\<close>: the handlers belong to other components.
\<close>

datatype event = EVENT_NULL | EVENT_ERROR | EVENT_IRQ_TIMER | EVENT_IRQ_IODEV | EVENT_PAGEFAULT
  | EVENT_YIELD | EVENT_SYSCALL

record irq_ev =
  ev_event :: event
  ev_cause :: u32
  ev_ref :: u32

datatype handler = H_context_save | H_context_switch | H_input_notify

record irq_handler =
  ih_seq :: int
  ih_event :: event
  ih_handler :: handler

record os_t = pmm +
  irq_head :: "irq_handler list"
  trap_lock :: spinlock

interpretation trap_lk: lock_field trap_lock trap_lock_update
  by unfold_locales auto

section \<open>Registration\<close>

text \<open>\<open>sizeof(irq_handler)\<close>: four words.\<close>

definition irq_handler_size :: u32 where "irq_handler_size = 16"

fun find_seq_loop :: "int \<Rightarrow> irq_handler list \<Rightarrow> nat \<Rightarrow> nat option \<Rightarrow> nat option" where
  "find_seq_loop seq [] cur ans = ans"
| "find_seq_loop seq (h # hs) cur ans =
     find_seq_loop seq hs (cur + 1) (if ih_seq h \<le> seq then Some cur else ans)"

definition find_handler_seq :: "int \<Rightarrow> 'a os_t_scheme \<Rightarrow> nat option" where
  "find_handler_seq seq s = find_seq_loop seq (irq_head s) 0 None"

text \<open>The code stores through the pointer it got without a test, so a \<open>NULL\<close> is undefined.\<close>

definition on_irq :: "int \<Rightarrow> event \<Rightarrow> handler \<Rightarrow> 'a os_t_scheme \<Rightarrow> 'a os_t_scheme option" where
  "on_irq seq ev h s = do {
     (p, s) \<leftarrow> pmm_alloc irq_handler_size s;
     Assert (p \<noteq> 0);
     let ih = \<lparr>ih_seq = seq, ih_event = ev, ih_handler = h\<rparr>;
     Some (case find_handler_seq seq s of
         None \<Rightarrow> s\<lparr>irq_head := ih # irq_head s\<rparr>
       | Some i \<Rightarrow> s\<lparr>irq_head := take (i + 1) (irq_head s) @ ih # drop (i + 1) (irq_head s)\<rparr>) }"

section \<open>Dispatch\<close>

fun trap_loop where
  "trap_loop call ev ctx [] ret s = Some (ret, s)"
| "trap_loop call ev ctx (cur # hs) ret s =
     (if ih_event cur = EVENT_NULL \<or> ih_event cur = ev_event ev
      then do {
        (next, s) \<leftarrow> call (ih_handler cur) ev ctx s;
        trap_loop call ev ctx hs (case next of None \<Rightarrow> ret | Some c \<Rightarrow> c) s }
      else trap_loop call ev ctx hs ret s)"

definition os_trap ::
  "(handler \<Rightarrow> irq_ev \<Rightarrow> 'c \<Rightarrow> 'a os_t_scheme \<Rightarrow> ('c option \<times> 'a os_t_scheme) option) \<Rightarrow>
   irq_ev \<Rightarrow> 'c \<Rightarrow> 'a os_t_scheme \<Rightarrow> ('c \<times> 'a os_t_scheme) option" where
  "os_trap call ev ctx s = do {
     s \<leftarrow> lock_on trap_lock trap_lock_update s;
     (ret, s) \<leftarrow> trap_loop call ev ctx (irq_head s) ctx s;
     s \<leftarrow> unlock_on trap_lock trap_lock_update s;
     Some (ret, s) }"

section \<open>Handlers run in the order of their sequence numbers\<close>

text \<open>The position of a new handler in an ordered list: behind those of the same number.\<close>

fun seq_insert :: "irq_handler \<Rightarrow> irq_handler list \<Rightarrow> irq_handler list" where
  "seq_insert h [] = [h]"
| "seq_insert h (g # gs) = (if ih_seq g \<le> ih_seq h then g # seq_insert h gs else h # g # gs)"

lemma find_seq_ans: "find_seq_loop seq hs cur (Some a) =
    (case find_seq_loop seq hs cur None of None \<Rightarrow> Some a | Some i \<Rightarrow> Some i)"
proof (induction hs arbitrary: cur a)
  case (Cons h hs)
  show ?case
    using Cons.IH [of "cur + 1" cur] Cons.IH [of "cur + 1" a]
    by (cases "find_seq_loop seq hs (cur + 1) None") simp_all
qed simp

lemma find_seq_shift: "find_seq_loop seq hs (Suc cur) None = map_option Suc (find_seq_loop seq hs cur None)"
proof (induction hs arbitrary: cur)
  case (Cons h hs)
  show ?case
    using Cons.IH [of "Suc cur"] by (simp add: find_seq_ans split: option.split)
qed simp

lemma find_seq_Cons:
  "find_seq_loop seq (g # gs) 0 None =
     (case find_seq_loop seq gs 0 None of
        None \<Rightarrow> (if ih_seq g \<le> seq then Some 0 else None) | Some i \<Rightarrow> Some (Suc i))"
  using find_seq_shift [of seq gs 0] by (simp add: find_seq_ans split: option.split)

lemma find_seq_none: "\<forall>h\<in>set hs. seq < ih_seq h \<Longrightarrow> find_seq_loop seq hs 0 None = None"
proof (induction hs)
  case (Cons h hs)
  then show ?case by (simp add: find_seq_Cons del: find_seq_loop.simps(2))
qed simp

lemma find_seq_insert:
  "sorted (map ih_seq hs) \<Longrightarrow>
   (case find_seq_loop (ih_seq h) hs 0 None of None \<Rightarrow> h # hs
    | Some i \<Rightarrow> take (Suc i) hs @ h # drop (Suc i) hs) = seq_insert h hs"
proof (induction hs)
  case (Cons g gs)
  have ih: "(case find_seq_loop (ih_seq h) gs 0 None of None \<Rightarrow> h # gs
      | Some i \<Rightarrow> take (Suc i) gs @ h # drop (Suc i) gs) = seq_insert h gs"
    using Cons by simp
  show ?case
  proof (cases "ih_seq g \<le> ih_seq h")
    case False
    then have "find_seq_loop (ih_seq h) gs 0 None = None"
      using Cons.prems by (intro find_seq_none) auto
    then show ?thesis using False by (simp add: find_seq_Cons del: find_seq_loop.simps(2))
  next
    case True
    then show ?thesis using ih
      by (cases "find_seq_loop (ih_seq h) gs 0 None")
        (simp_all add: find_seq_Cons del: find_seq_loop.simps(2))
  qed
qed simp

lemma set_seq_insert [simp]: "set (seq_insert h hs) = insert h (set hs)"
  by (induction hs) auto

lemma sorted_seq_insert: "sorted (map ih_seq hs) \<Longrightarrow> sorted (map ih_seq (seq_insert h hs))"
  by (induction hs) auto

lemma seq_insert_stable:
  "sorted (map ih_seq hs) \<Longrightarrow> filter (\<lambda>g. ih_seq g = k) (seq_insert h hs) =
     filter (\<lambda>g. ih_seq g = k) hs @ (if ih_seq h = k then [h] else [])"
proof (induction hs)
  case (Cons g gs)
  have "filter (\<lambda>g. ih_seq g = k) gs = []" if "\<not> ih_seq g \<le> ih_seq h" "ih_seq h = k"
    using Cons.prems that by (auto simp: filter_empty_conv)
  then show ?case using Cons by auto
qed simp

lemma on_irq_run:
  assumes p: "pmm_alloc irq_handler_size s = Some (p, s\<lparr>mem := m, pm_head := f\<rparr>)" "p \<noteq> 0"
    and "sorted (map ih_seq (irq_head s))"
  shows "on_irq seq ev h s = Some (s\<lparr>mem := m, pm_head := f,
     irq_head := seq_insert \<lparr>ih_seq = seq, ih_event = ev, ih_handler = h\<rparr> (irq_head s)\<rparr>)"
  using find_seq_insert [OF assms(3), of "\<lparr>ih_seq = seq, ih_event = ev, ih_handler = h\<rparr>"] p
  by (cases "find_seq_loop seq (irq_head s) 0 None")
    (simp_all add: on_irq_def find_handler_seq_def)

lemma heap_of_os [simp]:
  "pmm_ok (s\<lparr>irq_head := hs\<rparr>) ss = pmm_ok (s :: 'a os_t_scheme) ss"
  by (simp add: pmm_ok_def heap_ok_def cli_ok_def hw_defs)

text \<open>Registering a handler keeps the dispatch order: the list stays ordered by sequence
  number, the new handler comes behind all handlers of its own number (so handlers of one number
  run in the order of their registration), no other handler is lost, moved or added, and the heap
  is in order.\<close>
lemma on_irq_ordered:
  assumes "pmm_ok s ss" "(False, a, k) \<in> set ss" "28 \<le> k" "sorted (map ih_seq (irq_head s))"
  shows "\<exists>s' ss'. on_irq seq ev h s = Some s' \<and> pmm_ok s' ss' \<and> sorted (map ih_seq (irq_head s')) \<and>
     set (irq_head s') = insert \<lparr>ih_seq = seq, ih_event = ev, ih_handler = h\<rparr> (set (irq_head s)) \<and>
     (\<forall>q. filter (\<lambda>g. ih_seq g = q) (irq_head s') = filter (\<lambda>g. ih_seq g = q) (irq_head s) @
        (if q = seq then [\<lparr>ih_seq = seq, ih_event = ev, ih_handler = h\<rparr>] else []))"
proof -
  have "unat irq_handler_size + 12 \<le> k" using assms(3) by (simp add: irq_handler_size_def)
  then obtain p m f ss' where p: "pmm_alloc irq_handler_size s = Some (p, s\<lparr>mem := m, pm_head := f\<rparr>)"
    "p \<noteq> 0" "pmm_ok (s\<lparr>mem := m, pm_head := f\<rparr>) ss'"
    using pmm_alloc_room [OF assms(1,2)] by metis
  let ?h = "\<lparr>ih_seq = seq, ih_event = ev, ih_handler = h\<rparr>"
  have "on_irq seq ev h s = Some (s\<lparr>mem := m, pm_head := f, irq_head := seq_insert ?h (irq_head s)\<rparr>)"
    using p(1,2) assms(4) by (rule on_irq_run)
  moreover have "pmm_ok (s\<lparr>mem := m, pm_head := f, irq_head := seq_insert ?h (irq_head s)\<rparr>) ss'"
    using p(3) by simp
  ultimately show ?thesis
    using sorted_seq_insert [OF assms(4), of ?h] seq_insert_stable [OF assms(4), of _ ?h]
    by (auto intro!: exI [of _ ss'])
qed

definition os_blank :: os_t where
  "os_blank = pmm_init 0x100000 0x200000
     \<lparr>cur_cpu = 0, n_cpu = 2, intr_on = (\<lambda>_. True),
      cpu_cli = (\<lambda>_. \<lparr>cli_count = 0, cli_hasIF = 0\<rparr>), mem = (\<lambda>_. 0),
      pm_start = 0, pm_end = 0, pm_head = 0, pmm_lock = spin_init '''', irq_head = [],
      trap_lock = spin_init ''''\<rparr>"

lemma os_blank_ok: "pmm_ok os_blank [(False, 1048576, 1048564)]"
  unfolding os_blank_def
  by (rule pmm_init_heap [of "0x100000" "0x200000", simplified]) (simp add: cli_ok_def hw_defs)

lemma on_irq_ordered_witness:
  "\<exists>s'. on_irq (-10000) EVENT_NULL H_context_save os_blank = Some s' \<and>
     set (irq_head s') = {\<lparr>ih_seq = -10000, ih_event = EVENT_NULL, ih_handler = H_context_save\<rparr>}"
proof -
  have "irq_head os_blank = []" by (simp add: os_blank_def pmm_init_def)
  then show ?thesis
    using on_irq_ordered [OF os_blank_ok, of 1048576 1048564 "-10000" EVENT_NULL H_context_save] by auto
qed

end
