(* ===== verification/Kmt.thy ===== *)
theory Kmt
  imports KString Os
begin

text \<open>
  Kernel tasks (\<open>kmt.c\<close>): the list of tasks, the task each processor runs, saving and
  switching contexts, creating tasks, and semaphores. \<open>kcontext\<close> is the machine layer's
  function for the first context of a task (\<open>am/src/x86/qemu/cte.c\<close>).

  A node of the list keeps its address, because the code compares nodes by address;
  \<open>current\<close> holds such an address or 0 for \<open>NULL\<close>. The pointer to a task's context
  that \<open>context_switch\<close> returns is the context's value.
\<close>

section \<open>State\<close>

record cpu_context =
  c_prot :: u32
  c_eax :: u32
  c_ebx :: u32
  c_ecx :: u32
  c_edx :: u32
  c_esi :: u32
  c_edi :: u32
  c_ebp :: u32
  c_esp3 :: u32
  c_eip :: u32
  c_eflags :: u32
  c_cs :: u32
  c_ds :: u32
  c_es :: u32
  c_ss :: u32
  c_ss0 :: u32
  c_esp0 :: u32

datatype task_state = Free | Working

record task_t =
  t_addr :: u32
  t_tid :: u32
  t_name :: string
  t_entry :: u32
  t_arg :: u32
  t_context :: cpu_context
  t_stack :: u32
  t_cpu :: nat
  t_state :: task_state
  t_fildes :: "u32 list"

record task_node =
  tn_addr :: u32
  tn_task :: task_t

definition MAX_CPU :: nat where "MAX_CPU = 8"
definition STACK_SIZE :: u32 where "STACK_SIZE = 8192"
definition N_FILE :: nat where "N_FILE = 16"

record kmt = os_t +
  task_lock :: spinlock
  context_lock :: spinlock
  task_list :: "task_node list"
  current :: "nat \<Rightarrow> u32"
  task_count :: u32

interpretation task_lk: lock_field task_lock task_lock_update
  by unfold_locales auto

interpretation context_lk: lock_field context_lock context_lock_update
  by unfold_locales auto

text \<open>Following a pointer to a node.\<close>

definition node_at :: "u32 \<Rightarrow> task_node list \<Rightarrow> task_node option" where
  "node_at a ts = find (\<lambda>t. tn_addr t = a) ts"

definition upd_node :: "u32 \<Rightarrow> (task_t \<Rightarrow> task_t) \<Rightarrow> task_node list \<Rightarrow> task_node list" where
  "upd_node a f ts = map (\<lambda>t. if tn_addr t = a then t\<lparr>tn_task := f (tn_task t)\<rparr> else t) ts"

definition cur_addr :: "'a kmt_scheme \<Rightarrow> u32" where
  "cur_addr s = current s (cur_cpu s)"

section \<open>Searching the list\<close>

definition current_task :: "'a kmt_scheme \<Rightarrow> task_t option" where
  "current_task s = do {
     Assert (cur_addr s \<noteq> 0);
     tn \<leftarrow> node_at (cur_addr s) (task_list s);
     Some (tn_task tn) }"

definition get_task_list :: "'a kmt_scheme \<Rightarrow> task_node list" where
  "get_task_list s = task_list s"

text \<open>0 for \<open>NULL\<close>.\<close>

fun task_lookup_loop :: "string \<Rightarrow> task_node list \<Rightarrow> u32" where
  "task_lookup_loop name [] = 0"
| "task_lookup_loop name (t # ts) =
     (if t_name (tn_task t) = name then t_addr (tn_task t) else task_lookup_loop name ts)"

definition task_lookup :: "string \<Rightarrow> 'a kmt_scheme \<Rightarrow> u32" where
  "task_lookup name s = task_lookup_loop name (task_list s)"

fun get_task_loop :: "task_node list \<Rightarrow> nat \<Rightarrow> task_node option" where
  "get_task_loop [] position = None"
| "get_task_loop (t # ts) 0 = Some t"
| "get_task_loop (t # ts) (Suc position) = get_task_loop ts position"

definition get_task :: "nat \<Rightarrow> 'a kmt_scheme \<Rightarrow> task_node option" where
  "get_task position s = get_task_loop (task_list s) position"

fun find_task_loop :: "u32 \<Rightarrow> task_node list \<Rightarrow> int \<Rightarrow> int" where
  "find_task_loop target [] ans = -1"
| "find_task_loop target (t # ts) ans =
     (if tn_addr t = target then ans else find_task_loop target ts (ans + 1))"

definition find_task_index :: "u32 \<Rightarrow> 'a kmt_scheme \<Rightarrow> int" where
  "find_task_index target s = find_task_loop target (task_list s) 0"

fun get_last_task :: "task_node list \<Rightarrow> task_node option" where
  "get_last_task [] = None"
| "get_last_task [t] = Some t"
| "get_last_task (t # u # ts) = get_last_task (u # ts)"

section \<open>Contexts\<close>

definition context_save :: "cpu_context \<Rightarrow> 'a kmt_scheme \<Rightarrow> 'a kmt_scheme option" where
  "context_save ctx s = do {
     s \<leftarrow> lock_on context_lock context_lock_update s;
     s \<leftarrow> (if cur_addr s \<noteq> 0
        then do {
          _ \<leftarrow> node_at (cur_addr s) (task_list s);
          Some (s\<lparr>task_list := upd_node (cur_addr s) (\<lambda>t. t\<lparr>t_context := ctx\<rparr>) (task_list s)\<rparr>) }
        else Some s);
     unlock_on context_lock context_lock_update s }"

text \<open>The search ends at a task of this processor that is not working; nothing else ends it.\<close>

partial_function (option) switch_loop ::
  "task_node list \<Rightarrow> nat \<Rightarrow> nat \<Rightarrow> nat \<Rightarrow> task_node \<Rightarrow> task_node option" where
  "switch_loop ts count cpu index tk =
     (if t_state (tn_task tk) = Free \<and> t_cpu (tn_task tk) = cpu then Some tk
      else do {
        let index = (index + 1) mod count;
        tk \<leftarrow> get_task_loop ts index;
        switch_loop ts count cpu index tk })"

text \<open>The current task, if there is one, stops working.\<close>

definition release_current :: "'a kmt_scheme \<Rightarrow> 'a kmt_scheme option" where
  "release_current s =
     (if cur_addr s \<noteq> 0
      then do {
        cur \<leftarrow> node_at (cur_addr s) (task_list s);
        Assert (t_state (tn_task cur) = Working);
        Some (s\<lparr>task_list := upd_node (cur_addr s) (\<lambda>t. t\<lparr>t_state := Free\<rparr>) (task_list s)\<rparr>) }
      else Some s)"

definition context_switch :: "'a kmt_scheme \<Rightarrow> (cpu_context \<times> 'a kmt_scheme) option" where
  "context_switch s = do {
     s \<leftarrow> lock_on context_lock context_lock_update s;
     let index = nat (find_task_index (cur_addr s) s + 1);
     Assert (task_count s \<noteq> 0);
     tk \<leftarrow> get_task (index mod unat (task_count s)) s;
     s \<leftarrow> release_current s;
     tk \<leftarrow> node_at (tn_addr tk) (task_list s);
     tk \<leftarrow> switch_loop (task_list s) (unat (task_count s)) (cur_cpu s) index tk;
     let s = s\<lparr>task_list := upd_node (tn_addr tk)
         (\<lambda>t. t\<lparr>t_state := Working, t_cpu := cur_cpu s\<rparr>) (task_list s),
       current := (current s)(cur_cpu s := tn_addr tk)\<rparr>;
     s \<leftarrow> unlock_on context_lock context_lock_update s;
     Some (t_context (tn_task tk), s) }"

section \<open>Initialisation and creation\<close>

definition kmt_init :: "'a kmt_scheme \<Rightarrow> 'a kmt_scheme option" where
  "kmt_init s = do {
     let s = s\<lparr>task_list := [],
       cpu_cli := (\<lambda>c. if c < MAX_CPU then \<lparr>cli_count = 0, cli_hasIF = 0\<rparr> else cpu_cli s c),
       current := (\<lambda>c. if c < MAX_CPU then 0 else current s c),
       task_lock := spin_init ''kmt-task-lock'', context_lock := spin_init ''kmt-context-lock''\<rparr>;
     s \<leftarrow> on_irq (-10000) EVENT_NULL H_context_save s;
     on_irq 10000 EVENT_NULL H_context_switch s }"

definition KSEL :: "u32 \<Rightarrow> u32" where "KSEL d = push_bit 3 d"

text \<open>The context is built in the first bytes of the stack area, with the return address
  \<open>panic_on_return\<close> (a parameter) and the argument on top of the stack.\<close>

definition context_words :: "cpu_context \<Rightarrow> u32 list" where
  "context_words c = [c_prot c, c_eax c, c_ebx c, c_ecx c, c_edx c, c_esi c, c_edi c, c_ebp c, c_esp3 c,
     c_eip c, c_eflags c, c_cs c, c_ds c, c_es c, c_ss c, c_ss0 c, c_esp0 c]"

fun st_words :: "mem \<Rightarrow> u32 \<Rightarrow> u32 list \<Rightarrow> mem" where
  "st_words m a [] = m"
| "st_words m a (w # ws) = st_words (st32 m a w) (a + 4) ws"

definition kcontext :: "u32 \<Rightarrow> u32 \<Rightarrow> u32 \<Rightarrow> u32 \<Rightarrow> u32 \<Rightarrow> mem \<Rightarrow> cpu_context \<times> mem" where
  "kcontext panic_on_return stack_start stack_end entry arg m =
     (let ctx = \<lparr>c_prot = 0, c_eax = 0, c_ebx = 0, c_ecx = 0, c_edx = 0, c_esi = 0, c_edi = 0,
        c_ebp = 0, c_esp3 = 0, c_eip = entry, c_eflags = 0x200, c_cs = KSEL 1, c_ds = KSEL 2,
        c_es = KSEL 2, c_ss = KSEL 2, c_ss0 = 0, c_esp0 = stack_end - 8\<rparr>
      in (ctx, st_words (st_words m stack_start (context_words ctx)) (c_esp0 ctx) [panic_on_return, arg]))"

definition kmt_create ::
  "u32 \<Rightarrow> u32 \<Rightarrow> string \<Rightarrow> u32 \<Rightarrow> u32 \<Rightarrow> 'a kmt_scheme \<Rightarrow> (int \<times> 'a kmt_scheme) option" where
  "kmt_create panic_on_return task name entry arg s = do {
     Assert (n_cpu s \<noteq> 0);
     let t_cpu' = unat (task_count s) mod n_cpu s;
     (stack, s) \<leftarrow> pmm_alloc STACK_SIZE s;
     Assert (stack \<noteq> 0);
     let (ctx, m) = kcontext panic_on_return stack (stack + STACK_SIZE - 1) entry arg (mem s);
     let s = s\<lparr>mem := m\<rparr>;
     (tn, s) \<leftarrow> pmm_alloc 8 s;
     s \<leftarrow> lock_on task_lock task_lock_update s;
     let s = s\<lparr>task_count := task_count s + 1\<rparr>;
     let node = \<lparr>tn_addr = tn, tn_task = \<lparr>t_addr = task, t_tid = task_count s, t_name = name,
       t_entry = entry, t_arg = arg, t_context = ctx, t_stack = stack, t_cpu = t_cpu',
       t_state = Free, t_fildes = replicate N_FILE 0\<rparr>\<rparr>;
     let s = s\<lparr>task_list := task_list s @ [node]\<rparr>;
     s \<leftarrow> unlock_on task_lock task_lock_update s;
     Some (0, s) }"

section \<open>Semaphores\<close>

text \<open>The operations take the semaphore as a field of the state: how to read it and how to
  update it.\<close>

record semaphore =
  sem_name :: string
  sem_lock :: spinlock
  sem_value :: int

definition sem_init :: "string \<Rightarrow> int \<Rightarrow> semaphore" where
  "sem_init name v = \<lparr>sem_name = name, sem_lock = spin_init name, sem_value = v\<rparr>"

definition lock_of :: "('s \<Rightarrow> semaphore) \<Rightarrow> 's \<Rightarrow> spinlock" where
  "lock_of get s = sem_lock (get s)"

definition lock_upd ::
  "((semaphore \<Rightarrow> semaphore) \<Rightarrow> 's \<Rightarrow> 's) \<Rightarrow> (spinlock \<Rightarrow> spinlock) \<Rightarrow> 's \<Rightarrow> 's" where
  "lock_upd upd f = upd (\<lambda>x. x\<lparr>sem_lock := f (sem_lock x)\<rparr>)"

definition add_value ::
  "((semaphore \<Rightarrow> semaphore) \<Rightarrow> 's \<Rightarrow> 's) \<Rightarrow> int \<Rightarrow> 's \<Rightarrow> 's" where
  "add_value upd d = upd (\<lambda>x. x\<lparr>sem_value := sem_value x + d\<rparr>)"

text \<open>\<open>yield\<close> is what the other tasks do between \<open>_yield()\<close> and the return from
  it.\<close>

partial_function (option) sem_wait_loop ::
  "('a kmt_scheme \<Rightarrow> semaphore) \<Rightarrow> ((semaphore \<Rightarrow> semaphore) \<Rightarrow> 'a kmt_scheme \<Rightarrow> 'a kmt_scheme) \<Rightarrow>
   ('a kmt_scheme \<Rightarrow> 'a kmt_scheme option) \<Rightarrow> 'a kmt_scheme \<Rightarrow> 'a kmt_scheme option" where
  "sem_wait_loop get upd yield s =
     (if 0 < sem_value (get s) then Some (add_value upd (-1) s)
      else do {
        s \<leftarrow> unlock_on (lock_of get) (lock_upd upd) s;
        s \<leftarrow> yield s;
        s \<leftarrow> lock_on (lock_of get) (lock_upd upd) s;
        sem_wait_loop get upd yield s })"

definition sem_wait ::
  "('a kmt_scheme \<Rightarrow> semaphore) \<Rightarrow> ((semaphore \<Rightarrow> semaphore) \<Rightarrow> 'a kmt_scheme \<Rightarrow> 'a kmt_scheme) \<Rightarrow>
   ('a kmt_scheme \<Rightarrow> 'a kmt_scheme option) \<Rightarrow> 'a kmt_scheme \<Rightarrow> 'a kmt_scheme option" where
  "sem_wait get upd yield s = do {
     Assert (cur_addr s \<noteq> 0);
     s \<leftarrow> lock_on (lock_of get) (lock_upd upd) s;
     s \<leftarrow> sem_wait_loop get upd yield s;
     unlock_on (lock_of get) (lock_upd upd) s }"

definition sem_signal ::
  "('a kmt_scheme \<Rightarrow> semaphore) \<Rightarrow> ((semaphore \<Rightarrow> semaphore) \<Rightarrow> 'a kmt_scheme \<Rightarrow> 'a kmt_scheme) \<Rightarrow>
   'a kmt_scheme \<Rightarrow> 'a kmt_scheme option" where
  "sem_signal get upd s = do {
     Assert (cur_addr s \<noteq> 0);
     s \<leftarrow> lock_on (lock_of get) (lock_upd upd) s;
     let s = add_value upd 1 s;
     unlock_on (lock_of get) (lock_upd upd) s }"

end
