(* ===== verification/Sched.thy ===== *)
theory Sched
  imports Kmt
begin

text \<open>
  Correctness of \<open>kmt.c\<close>: scheduling is round robin over the task list and always finds a
  task, each processor has at most one working task and \<open>current\<close> names it, a saved context is
  the one resumed, a created task is appended and inert until it is scheduled, and semaphores
  count.
\<close>

section \<open>The task list\<close>

definition tasks_ok :: "'a kmt_scheme \<Rightarrow> bool" where
  "tasks_ok s \<longleftrightarrow> distinct (map tn_addr (task_list s)) \<and> 0 \<notin> tn_addr ` set (task_list s) \<and>
     unat (task_count s) = length (task_list s)"

text \<open>The scheduler's invariant: \<open>current\<close> names working tasks bound to their processor, and
  every working task is the current one of its processor.\<close>

definition sched_ok :: "'a kmt_scheme \<Rightarrow> bool" where
  "sched_ok s \<longleftrightarrow> tasks_ok s \<and>
     (\<forall>c. current s c \<noteq> 0 \<longrightarrow> (\<exists>t\<in>set (task_list s). tn_addr t = current s c \<and>
        t_state (tn_task t) = Working \<and> t_cpu (tn_task t) = c)) \<and>
     (\<forall>t\<in>set (task_list s). t_state (tn_task t) = Working \<longrightarrow>
        current s (t_cpu (tn_task t)) = tn_addr t)"

definition runnable :: "'a kmt_scheme \<Rightarrow> task_node \<Rightarrow> bool" where
  "runnable s t \<longleftrightarrow> t_cpu (tn_task t) = cur_cpu s \<and>
     (t_state (tn_task t) = Free \<or> tn_addr t = cur_addr s)"

lemma get_task_nth: "get_task_loop ts i = (if i < length ts then Some (ts ! i) else None)"
  by (induction ts i rule: get_task_loop.induct) auto

lemma find_task_nth:
  "distinct (map tn_addr ts) \<Longrightarrow> i < length ts \<Longrightarrow> find_task_loop (tn_addr (ts ! i)) ts k = k + int i"
proof (induction ts arbitrary: i k)
  case (Cons t ts)
  then show ?case by (cases i) (fastforce simp: image_iff dest: nth_mem)+
qed simp

lemma find_task_absent: "a \<notin> tn_addr ` set ts \<Longrightarrow> find_task_loop a ts k = -1"
  by (induction ts arbitrary: k) auto

lemma node_at_nth:
  "distinct (map tn_addr ts) \<Longrightarrow> t \<in> set ts \<Longrightarrow> node_at (tn_addr t) ts = Some t"
  unfolding node_at_def
proof (induction ts)
  case (Cons u ts)
  then show ?case by (cases "tn_addr u = tn_addr t") (auto simp: image_iff)
qed simp

lemma map_addr_upd [simp]: "map tn_addr (upd_node a f ts) = map tn_addr ts"
  by (simp add: upd_node_def)

lemma length_upd [simp]: "length (upd_node a f ts) = length ts"
  by (simp add: upd_node_def)

lemma nth_upd: "i < length ts \<Longrightarrow> upd_node a f ts ! i =
    (if tn_addr (ts ! i) = a then (ts ! i)\<lparr>tn_task := f (tn_task (ts ! i))\<rparr> else ts ! i)"
  by (simp add: upd_node_def)

lemma get_last_task_last: "ts \<noteq> [] \<Longrightarrow> get_last_task ts = Some (last ts)"
  by (induction ts rule: get_last_task.induct) auto

text \<open>Where the search of \<open>context_switch\<close> starts: behind the current task, or at the head.\<close>

definition start :: "'a kmt_scheme \<Rightarrow> nat" where
  "start s = nat (find_task_index (cur_addr s) s + 1)"

lemma start_current:
  assumes "tasks_ok s" "i < length (task_list s)" "tn_addr (task_list s ! i) = cur_addr s"
  shows "start s = i + 1"
  using find_task_nth [of "task_list s" i 0] assms
  by (simp add: start_def find_task_index_def tasks_ok_def)

lemma start_none: "tasks_ok s \<Longrightarrow> cur_addr s = 0 \<Longrightarrow> start s = 0"
  using find_task_absent [of 0 "task_list s" 0] by (simp add: start_def find_task_index_def tasks_ok_def)

section \<open>The search\<close>

lemma switch_loop_finds:
  assumes "0 < length ts"
  shows "(\<And>j. j < k \<Longrightarrow> \<not> (t_state (tn_task (ts ! ((i + j) mod length ts))) = Free \<and>
        t_cpu (tn_task (ts ! ((i + j) mod length ts))) = c)) \<Longrightarrow>
    t_state (tn_task (ts ! ((i + k) mod length ts))) = Free \<Longrightarrow>
    t_cpu (tn_task (ts ! ((i + k) mod length ts))) = c \<Longrightarrow>
    switch_loop ts (length ts) c i (ts ! (i mod length ts)) = Some (ts ! ((i + k) mod length ts))"
proof (induction k arbitrary: i)
  case 0
  then show ?case by (subst switch_loop.simps) simp
next
  case (Suc k)
  let ?n = "length ts" and ?i = "(i + 1) mod length ts"
  have m: "(?i + j) mod ?n = (i + Suc j) mod ?n" for j
    by (simp add: mod_add_left_eq)
  have "switch_loop ts ?n c ?i (ts ! (?i mod ?n)) = Some (ts ! ((?i + k) mod ?n))"
    by (rule Suc.IH) (use Suc.prems(1) [of "Suc j" for j] Suc.prems(2,3) m in \<open>simp_all\<close>)
  moreover have "switch_loop ts ?n c i (ts ! (i mod ?n)) = switch_loop ts ?n c ?i (ts ! ?i)"
    using Suc.prems(1) [of 0] assms
    by (subst switch_loop.simps) (auto simp: get_task_nth Let_def)
  ultimately show ?case using m by simp
qed

lemma first_index:
  assumes "P k" shows "\<exists>k'\<le>k. P k' \<and> (\<forall>j<k'. \<not> P (j :: nat))"
  using assms
proof (induction k rule: less_induct)
  case (less k)
  show ?case
  proof (cases "\<exists>j<k. P j")
    case True
    then obtain j where "j < k" "P j" by blast
    then show ?thesis using less.IH [of j] by (meson less_imp_le order_trans)
  qed (use less.prems in blast)
qed

lemma cyclic_reach: "(i :: nat) < n \<Longrightarrow> \<exists>k<n. (st + k) mod n = i"
proof (intro exI conjI)
  assume i: "i < n"
  show "(i + n - st mod n) mod n < n" using i by simp
  have "(st + (i + n - st mod n) mod n) mod n = (st mod n + (i + n - st mod n)) mod n"
    by (metis mod_add_eq mod_mod_trivial mod_add_left_eq mod_add_right_eq)
  also have "st mod n + (i + n - st mod n) = i + n" using mod_less_divisor [of n st] i by linarith
  also have "(i + n) mod n = i" using i by simp
  finally show "(st + (i + n - st mod n) mod n) mod n = i" .
qed

definition kmt_idle :: "'a kmt_scheme \<Rightarrow> bool" where
  "kmt_idle s \<longleftrightarrow> cli_ok s \<and> lock_free (context_lock s) \<and> lock_free (task_lock s)"

lemma ctx_entered_sel [simp]:
  "task_list (context_lk.entered s) = task_list s" "current (context_lk.entered s) = current s"
  "task_count (context_lk.entered s) = task_count s" "cur_cpu (context_lk.entered s) = cur_cpu s"
  by (simp_all add: context_lk.entered_def pushed_def)

lemma ctx_entered_cur [simp]: "cur_addr (context_lk.entered s) = cur_addr s"
  by (simp add: cur_addr_def)

lemma ctx_entered_upd:
  "(context_lk.entered s)\<lparr>current := c\<rparr> = context_lk.entered (s\<lparr>current := c\<rparr>)"
  "(context_lk.entered s)\<lparr>task_list := ts\<rparr> = context_lk.entered (s\<lparr>task_list := ts\<rparr>)"
  by (simp_all add: context_lk.entered_def pushed_def hw_defs)

lemma cli_ok_kmt [simp]:
  "cli_ok (s\<lparr>task_list := ts, current := c\<rparr>) = cli_ok (s :: 'a kmt_scheme)"
  "cli_ok (s\<lparr>task_list := ts\<rparr>) = cli_ok s"
  by (simp_all add: cli_ok_def hw_defs)

lemma ctx_lock_on: "kmt_idle s \<Longrightarrow> lock_on context_lock context_lock_update s = Some (context_lk.entered s)"
  by (simp add: kmt_idle_def context_lk.lock_on_free)

lemma ctx_unlock: "kmt_idle s \<Longrightarrow> unlock_on context_lock context_lock_update (context_lk.entered s) = Some s"
  using context_lk.bracket [of s] by (simp add: kmt_idle_def context_lk.lock_on_free)

text \<open>The list after a switch to the task at address \<open>a\<close>.\<close>

definition switched :: "u32 \<Rightarrow> 'a kmt_scheme \<Rightarrow> task_node list" where
  "switched a s = map (\<lambda>t. if tn_addr t = a then t\<lparr>tn_task := (tn_task t)\<lparr>t_state := Working, t_cpu := cur_cpu s\<rparr>\<rparr>
     else if tn_addr t = cur_addr s then t\<lparr>tn_task := (tn_task t)\<lparr>t_state := Free\<rparr>\<rparr> else t) (task_list s)"

lemma upd_upd: "upd_node a (\<lambda>t. t\<lparr>t_state := Working, t_cpu := c\<rparr>) (upd_node b (\<lambda>t. t\<lparr>t_state := Free\<rparr>) ts) =
   map (\<lambda>t. if tn_addr t = a then t\<lparr>tn_task := (tn_task t)\<lparr>t_state := Working, t_cpu := c\<rparr>\<rparr>
     else if tn_addr t = b then t\<lparr>tn_task := (tn_task t)\<lparr>t_state := Free\<rparr>\<rparr> else t) ts"
  by (simp add: upd_node_def)

lemma upd_absent: "b \<notin> tn_addr ` set ts \<Longrightarrow> upd_node b f ts = ts"
  by (induction ts) (auto simp: upd_node_def)

lemma context_switch_run:
  assumes idle: "kmt_idle s" and ok: "tasks_ok s"
    and cur: "cur_addr s \<noteq> 0 \<Longrightarrow> \<exists>t\<in>set (task_list s). tn_addr t = cur_addr s \<and> t_state (tn_task t) = Working"
    and r: "t \<in> set (task_list s)" "runnable s t"
  shows "\<exists>k t. k < length (task_list s) \<and> t = task_list s ! ((start s + k) mod length (task_list s)) \<and>
     runnable s t \<and> (\<forall>j<k. \<not> runnable s (task_list s ! ((start s + j) mod length (task_list s)))) \<and>
     context_switch s = Some (t_context (tn_task t),
       s\<lparr>task_list := switched (tn_addr t) s, current := (current s)(cur_cpu s := tn_addr t)\<rparr>)"
proof -
  let ?ts = "task_list s" and ?n = "length (task_list s)" and ?c = "cur_cpu s"
  let ?fr = "upd_node (cur_addr s) (\<lambda>t. t\<lparr>t_state := Free\<rparr>) ?ts"
  have d: "distinct (map tn_addr ?ts)" "0 \<notin> tn_addr ` set ?ts" "unat (task_count s) = ?n"
    using ok by (auto simp: tasks_ok_def)
  have n0: "0 < ?n" using r(1) by auto
  have tc: "task_count s \<noteq> 0" using d(3) n0 by auto
  let ?P = "\<lambda>k. runnable s (?ts ! ((start s + k) mod ?n))"
  obtain i where "i < ?n" "?ts ! i = t" using r(1) by (auto simp: in_set_conv_nth)
  then obtain k0 where k0: "k0 < ?n" "?P k0" using cyclic_reach [of i ?n "start s"] r(2) by auto
  obtain k where k: "k \<le> k0" "?P k" "\<And>j. j < k \<Longrightarrow> \<not> ?P j" using first_index [of ?P k0] k0 by auto
  let ?t = "?ts ! ((start s + k) mod ?n)"
  have idx: "(start s + j) mod ?n < ?n" for j using n0 by simp
  have fr_eq: "(if cur_addr s \<noteq> 0 then ?fr else ?ts) = ?fr"
    using upd_absent [of 0 ?ts] d(2) by auto
  have fr_nth: "t_state (tn_task (?fr ! m)) = Free \<and> t_cpu (tn_task (?fr ! m)) = ?c \<longleftrightarrow> runnable s (?ts ! m)"
    if "m < ?n" for m
    using that by (auto simp: nth_upd runnable_def)
  have loop: "switch_loop ?fr ?n ?c (start s) (?fr ! (start s mod ?n)) = Some (?fr ! ((start s + k) mod ?n))"
  proof -
    have "switch_loop ?fr (length ?fr) ?c (start s) (?fr ! (start s mod length ?fr)) =
        Some (?fr ! ((start s + k) mod length ?fr))"
      by (rule switch_loop_finds) (use n0 k(2,3) fr_nth [OF idx] in auto)
    then show ?thesis by simp
  qed
  have addr: "tn_addr (?fr ! m) = tn_addr (?ts ! m)" if "m < ?n" for m using that by (simp add: nth_upd)
  have ctx: "t_context (tn_task (?fr ! m)) = t_context (tn_task (?ts ! m))" if "m < ?n" for m
    using that by (simp add: nth_upd)
  have first: "get_task_loop ?ts (start s mod ?n) = Some (?ts ! (start s mod ?n))"
    using n0 by (simp add: get_task_nth)
  have re: "node_at (tn_addr (?ts ! (start s mod ?n))) ?fr = Some (?fr ! (start s mod ?n))"
    using node_at_nth [of ?fr "?fr ! (start s mod ?n)"] d(1) addr [of "start s mod ?n"] n0 by simp
  have cur': "cur_addr s \<noteq> 0 \<Longrightarrow> \<exists>u. node_at (cur_addr s) ?ts = Some u \<and> t_state (tn_task u) = Working"
    using cur node_at_nth [OF d(1)] by metis
  have step: "release_current (context_lk.entered s) = Some (context_lk.entered (s\<lparr>task_list := ?fr\<rparr>))"
    using cur' fr_eq by (auto simp: release_current_def ctx_entered_upd)
  have sw: "upd_node (tn_addr ?t) (\<lambda>t. t\<lparr>t_state := Working, t_cpu := ?c\<rparr>) ?fr = switched (tn_addr ?t) s"
    by (simp add: upd_upd switched_def)
  define s' where "s' = s\<lparr>task_list := switched (tn_addr ?t) s, current := (current s)(?c := tn_addr ?t)\<rparr>"
  have idle': "kmt_idle s'" using idle by (simp add: kmt_idle_def s'_def)
  have st: "nat (find_task_index (cur_addr s) (context_lk.entered s) + 1) = start s"
    by (simp add: start_def find_task_index_def)
  have "context_switch s = Some (t_context (tn_task ?t), s')"
    using ctx_lock_on [OF idle] tc first re loop step sw addr [OF idx] ctx [OF idx] d(3) ctx_unlock [OF idle']
    by (simp add: context_switch_def st Let_def get_task_def ctx_entered_upd s'_def [symmetric])
  then show ?thesis using k k0(1) unfolding s'_def by (intro exI [of _ k] exI [of _ ?t]) auto
qed


lemma sched_current:
  assumes "sched_ok s" "cur_addr s \<noteq> 0"
  shows "\<exists>t\<in>set (task_list s). tn_addr t = cur_addr s \<and> t_state (tn_task t) = Working \<and> runnable s t"
  using assms by (fastforce simp: sched_ok_def cur_addr_def runnable_def)

lemma addr_inj: "tasks_ok s \<Longrightarrow> t \<in> set (task_list s) \<Longrightarrow> u \<in> set (task_list s) \<Longrightarrow> tn_addr t = tn_addr u \<Longrightarrow> t = u"
  unfolding tasks_ok_def by (metis distinct_map inj_onD)

lemma sched_ok_switched:
  assumes ok: "sched_ok s" and t: "t \<in> set (task_list s)" "runnable s t"
  shows "sched_ok (s\<lparr>task_list := switched (tn_addr t) s, current := (current s)(cur_cpu s := tn_addr t)\<rparr>)"
proof -
  let ?s' = "s\<lparr>task_list := switched (tn_addr t) s, current := (current s)(cur_cpu s := tn_addr t)\<rparr>"
  have tk: "tasks_ok s" using ok by (simp add: sched_ok_def)
  have addrs: "map tn_addr (switched (tn_addr t) s) = map tn_addr (task_list s)"
    by (simp add: switched_def)
  then have "tn_addr ` set (switched (tn_addr t) s) = tn_addr ` set (task_list s)"
    by (metis list.set_map)
  moreover have "length (switched (tn_addr t) s) = length (task_list s)" by (simp add: switched_def)
  ultimately have "tasks_ok ?s'" using tk addrs by (simp add: tasks_ok_def)
  moreover have "\<exists>u\<in>set (task_list ?s'). tn_addr u = current ?s' c \<and> t_state (tn_task u) = Working \<and>
      t_cpu (tn_task u) = c" if c: "current ?s' c \<noteq> 0" for c
  proof (cases "c = cur_cpu s")
    case True
    have "t\<lparr>tn_task := (tn_task t)\<lparr>t_state := Working, t_cpu := cur_cpu s\<rparr>\<rparr> \<in> set (switched (tn_addr t) s)"
      using t(1) by (force simp: switched_def image_iff)
    then show ?thesis using True by (intro bexI) auto
  next
    case False
    then obtain u where u: "u \<in> set (task_list s)" "tn_addr u = current s c"
      "t_state (tn_task u) = Working" "t_cpu (tn_task u) = c"
      using ok c by (auto simp: sched_ok_def)
    have "tn_addr u \<noteq> tn_addr t"
      using addr_inj [OF tk u(1) t(1)] t(2) u(4) False by (auto simp: runnable_def)
    moreover have "tn_addr u \<noteq> cur_addr s"
    proof
      assume a: "tn_addr u = cur_addr s"
      then have "current s (cur_cpu s) \<noteq> 0" using c u(2) False by (simp add: cur_addr_def)
      then obtain w where "w \<in> set (task_list s)" "tn_addr w = cur_addr s" "t_cpu (tn_task w) = cur_cpu s"
        using ok unfolding sched_ok_def cur_addr_def by blast
      then show False using addr_inj [OF tk u(1), of w] a u(4) False by auto
    qed
    ultimately have "u \<in> set (switched (tn_addr t) s)"
      using u(1) by (force simp: switched_def image_iff)
    then show ?thesis using u False by (intro bexI [of _ u]) auto
  qed
  moreover have "current ?s' (t_cpu (tn_task v)) = tn_addr v"
    if v: "v \<in> set (task_list ?s')" "t_state (tn_task v) = Working" for v
  proof -
    obtain u where u: "u \<in> set (task_list s)"
      "v = (if tn_addr u = tn_addr t then u\<lparr>tn_task := (tn_task u)\<lparr>t_state := Working, t_cpu := cur_cpu s\<rparr>\<rparr>
         else if tn_addr u = cur_addr s then u\<lparr>tn_task := (tn_task u)\<lparr>t_state := Free\<rparr>\<rparr> else u)"
      using v(1) by (auto simp: switched_def)
    show ?thesis
    proof (cases "tn_addr u = tn_addr t")
      case True then show ?thesis using u(2) by simp
    next
      case False
      then have "v = u" "tn_addr u \<noteq> cur_addr s" using u v(2) by (auto split: if_splits)
      then have "current s (t_cpu (tn_task u)) = tn_addr u" "t_cpu (tn_task u) \<noteq> cur_cpu s"
        using ok u(1) v(2) by (auto simp: sched_ok_def cur_addr_def)
      then show ?thesis using \<open>v = u\<close> by simp
    qed
  qed
  ultimately show ?thesis by (simp add: sched_ok_def)
qed

section \<open>Correctness of scheduling\<close>

lemma switch_next:
  assumes "kmt_idle s" "sched_ok s" "cur_addr s \<noteq> 0"
  shows "\<exists>i k t. i < length (task_list s) \<and> tn_addr (task_list s ! i) = cur_addr s \<and>
     k < length (task_list s) \<and> t = task_list s ! ((i + 1 + k) mod length (task_list s)) \<and> runnable s t \<and>
     (\<forall>j<k. \<not> runnable s (task_list s ! ((i + 1 + j) mod length (task_list s)))) \<and>
     context_switch s = Some (t_context (tn_task t),
       s\<lparr>task_list := switched (tn_addr t) s, current := (current s)(cur_cpu s := tn_addr t)\<rparr>) \<and>
     sched_ok (s\<lparr>task_list := switched (tn_addr t) s, current := (current s)(cur_cpu s := tn_addr t)\<rparr>)"
proof -
  have tk: "tasks_ok s" using assms(2) by (simp add: sched_ok_def)
  obtain c where c: "c \<in> set (task_list s)" "tn_addr c = cur_addr s" "t_state (tn_task c) = Working" "runnable s c"
    using sched_current [OF assms(2,3)] by blast
  then obtain i where i: "i < length (task_list s)" "task_list s ! i = c" by (auto simp: in_set_conv_nth)
  have st: "start s = i + 1" using start_current [OF tk i(1)] i(2) c(2) by simp
  obtain k t where k: "k < length (task_list s)" "t = task_list s ! ((start s + k) mod length (task_list s))"
    "runnable s t" "\<forall>j<k. \<not> runnable s (task_list s ! ((start s + j) mod length (task_list s)))"
    "context_switch s = Some (t_context (tn_task t),
       s\<lparr>task_list := switched (tn_addr t) s, current := (current s)(cur_cpu s := tn_addr t)\<rparr>)"
    using context_switch_run [OF assms(1) tk _ c(1,4)] c by blast
  have "(start s + k) mod length (task_list s) < length (task_list s)" using i(1) by (intro mod_less_divisor) auto
  then have "t \<in> set (task_list s)" using k(2) by simp
  note ok' = sched_ok_switched [OF assms(2) this k(3)]
  show ?thesis
    using k(1-5) ok' i c(2) unfolding st by (intro exI [of _ i] exI [of _ k] exI [of _ t]) auto
qed

text \<open>C25: \<open>context_switch\<close> is round robin and always finds a task: when the processor runs a
  task, the switch goes to the first task behind it in the cyclic list that is bound to this
  processor and not working elsewhere (the current task itself, if there is no other); that task
  becomes the working one and \<open>current\<close>, the previous one is released, no other task changes,
  its context is returned, and the scheduler's invariant (one working task per processor, named by
  \<open>current\<close>) holds again.\<close>
theorem switch_round_robin:
  assumes "kmt_idle s" "sched_ok s" "cur_addr s \<noteq> 0"
  shows "\<exists>i k t. i < length (task_list s) \<and> tn_addr (task_list s ! i) = cur_addr s \<and>
     k < length (task_list s) \<and> t = task_list s ! ((i + 1 + k) mod length (task_list s)) \<and> runnable s t \<and>
     (\<forall>j<k. \<not> runnable s (task_list s ! ((i + 1 + j) mod length (task_list s)))) \<and>
     context_switch s = Some (t_context (tn_task t),
       s\<lparr>task_list := switched (tn_addr t) s, current := (current s)(cur_cpu s := tn_addr t)\<rparr>) \<and>
     sched_ok (s\<lparr>task_list := switched (tn_addr t) s, current := (current s)(cur_cpu s := tn_addr t)\<rparr>)"
  by (rule switch_next [OF assms])

definition zero_context :: cpu_context where
  "zero_context = \<lparr>c_prot = 0, c_eax = 0, c_ebx = 0, c_ecx = 0, c_edx = 0, c_esi = 0, c_edi = 0,
     c_ebp = 0, c_esp3 = 0, c_eip = 0, c_eflags = 0, c_cs = 0, c_ds = 0, c_es = 0, c_ss = 0,
     c_ss0 = 0, c_esp0 = 0\<rparr>"

definition demo_node :: "u32 \<Rightarrow> string \<Rightarrow> nat \<Rightarrow> task_state \<Rightarrow> task_node" where
  "demo_node a name c st = \<lparr>tn_addr = a, tn_task = \<lparr>t_addr = a + 100, t_tid = a, t_name = name,
     t_entry = 0, t_arg = 0, t_context = zero_context\<lparr>c_eip := a\<rparr>, t_stack = 0, t_cpu = c, t_state = st,
     t_fildes = replicate N_FILE 0\<rparr>\<rparr>"

text \<open>Two processors; processor 0 runs the first task, and the third one waits for it.\<close>

definition demo_kmt :: kmt where
  "demo_kmt = \<lparr>cur_cpu = 0, n_cpu = 2, intr_on = (\<lambda>_. True),
     cpu_cli = (\<lambda>_. \<lparr>cli_count = 0, cli_hasIF = 0\<rparr>), mem = (\<lambda>_. 0),
     pm_start = 0, pm_end = 0, pm_head = 0, pmm_lock = spin_init '''', irq_head = [], trap_lock = spin_init '''', task_lock = spin_init '''',
     context_lock = spin_init '''', task_list = [demo_node 1 ''idle-1'' 0 Working,
       demo_node 2 ''idle-2'' 1 Free, demo_node 3 ''shell-1'' 0 Free],
     current = (\<lambda>c. if c = 0 then 1 else 0), task_count = 3\<rparr>"

lemma demo_idle [simp]: "kmt_idle demo_kmt"
  by (simp add: kmt_idle_def demo_kmt_def cli_ok_def hw_defs lock_free_init)

lemma demo_sched [simp]: "sched_ok demo_kmt" "cur_addr demo_kmt = 1"
  by (auto simp: sched_ok_def tasks_ok_def demo_kmt_def demo_node_def cur_addr_def)

theorem switch_round_robin_witness:
  "\<exists>t s'. context_switch demo_kmt = Some (t_context (tn_task t), s') \<and> sched_ok s' \<and>
     t \<in> set (task_list demo_kmt)"
proof -
  obtain i k t where "i < length (task_list demo_kmt)"
    "t = task_list demo_kmt ! ((i + 1 + k) mod length (task_list demo_kmt))"
    "context_switch demo_kmt = Some (t_context (tn_task t), demo_kmt\<lparr>task_list := switched (tn_addr t) demo_kmt,
        current := (current demo_kmt)(cur_cpu demo_kmt := tn_addr t)\<rparr>)"
    "sched_ok (demo_kmt\<lparr>task_list := switched (tn_addr t) demo_kmt,
        current := (current demo_kmt)(cur_cpu demo_kmt := tn_addr t)\<rparr>)"
    using switch_round_robin [OF demo_idle demo_sched(1)] demo_sched(2) by auto
  moreover have "0 < length (task_list demo_kmt)" by (simp add: demo_kmt_def)
  then have "(i + 1 + k) mod length (task_list demo_kmt) < length (task_list demo_kmt)"
    by (rule mod_less_divisor)
  ultimately show ?thesis by (metis nth_mem)
qed

lemma context_save_run:
  assumes "kmt_idle s" "sched_ok s" "cur_addr s \<noteq> 0"
  shows "context_save ctx s = Some (s\<lparr>task_list := upd_node (cur_addr s) (\<lambda>t. t\<lparr>t_context := ctx\<rparr>) (task_list s)\<rparr>)"
    and "kmt_idle (s\<lparr>task_list := upd_node (cur_addr s) (\<lambda>t. t\<lparr>t_context := ctx\<rparr>) (task_list s)\<rparr>)"
    and "sched_ok (s\<lparr>task_list := upd_node (cur_addr s) (\<lambda>t. t\<lparr>t_context := ctx\<rparr>) (task_list s)\<rparr>)"
proof -
  let ?f = "\<lambda>t :: task_t. t\<lparr>t_context := ctx\<rparr>"
  let ?s' = "s\<lparr>task_list := upd_node (cur_addr s) ?f (task_list s)\<rparr>"
  have tk: "tasks_ok s" using assms(2) by (simp add: sched_ok_def)
  obtain c where c: "c \<in> set (task_list s)" "tn_addr c = cur_addr s"
    using sched_current [OF assms(2,3)] by blast
  have n: "node_at (cur_addr s) (task_list s) = Some c"
    using node_at_nth [of "task_list s" c] tk c by (simp add: tasks_ok_def)
  have idle': "kmt_idle ?s'" using assms(1) by (simp add: kmt_idle_def)
  have run: "context_save ctx s = Some ?s'"
    using ctx_lock_on [OF assms(1)] ctx_unlock [OF idle'] assms(3) n
    by (simp add: context_save_def ctx_entered_upd)
  have mem: "v \<in> set (task_list ?s') \<longleftrightarrow> (\<exists>u\<in>set (task_list s).
      v = (if tn_addr u = cur_addr s then u\<lparr>tn_task := ?f (tn_task u)\<rparr> else u))" for v
    by (auto simp: upd_node_def)
  have im: "tn_addr ` set (upd_node (cur_addr s) ?f (task_list s)) = tn_addr ` set (task_list s)"
    by (metis list.set_map map_addr_upd)
  have "sched_ok ?s'"
    unfolding sched_ok_def
  proof (intro conjI allI impI ballI)
    show "tasks_ok ?s'" using tk im by (simp add: tasks_ok_def)
    fix d assume "current ?s' d \<noteq> 0"
    then obtain u where "u \<in> set (task_list s)" "tn_addr u = current s d"
      "t_state (tn_task u) = Working" "t_cpu (tn_task u) = d"
      using assms(2) by (auto simp: sched_ok_def)
    then show "\<exists>t\<in>set (task_list ?s'). tn_addr t = current ?s' d \<and>
        t_state (tn_task t) = Working \<and> t_cpu (tn_task t) = d"
      unfolding Bex_def mem by fastforce
  next
    fix t assume "t \<in> set (task_list ?s')" "t_state (tn_task t) = Working"
    then show "current ?s' (t_cpu (tn_task t)) = tn_addr t"
      using assms(2) unfolding mem by (auto simp: sched_ok_def split: if_splits)
  qed
  then show "sched_ok ?s'" .
  show "context_save ctx s = Some ?s'" "kmt_idle ?s'" using run idle' by simp_all
qed

text \<open>What \<open>context_save\<close> stores in the current task is what a later switch back to that
  task resumes; no other task is touched.\<close>
lemma save_resume:
  assumes "kmt_idle s" "sched_ok s" "cur_addr s \<noteq> 0"
  shows "\<exists>s'. context_save ctx s = Some s' \<and> kmt_idle s' \<and> sched_ok s' \<and>
     (\<forall>t\<in>set (task_list s'). tn_addr t = cur_addr s \<longrightarrow> t_context (tn_task t) = ctx) \<and>
     (\<forall>t\<in>set (task_list s). tn_addr t \<noteq> cur_addr s \<longrightarrow> t \<in> set (task_list s'))"
proof -
  let ?s' = "s\<lparr>task_list := upd_node (cur_addr s) (\<lambda>t. t\<lparr>t_context := ctx\<rparr>) (task_list s)\<rparr>"
  have "u \<in> set (task_list ?s')" if "u \<in> set (task_list s)" "tn_addr u \<noteq> cur_addr s" for u
    using that by (force simp: upd_node_def)
  moreover have "t_context (tn_task u) = ctx" if "u \<in> set (task_list ?s')" "tn_addr u = cur_addr s" for u
    using that by (auto simp: upd_node_def split: if_splits)
  ultimately show ?thesis using context_save_run [OF assms] by blast
qed

lemma save_resume_witness:
  "\<exists>s'. context_save zero_context demo_kmt = Some s' \<and> sched_ok s'"
  using save_resume [OF demo_idle demo_sched(1), of zero_context] demo_sched(2) by auto


section \<open>Creating a task\<close>

lemma st_words_outside:
  "\<not> in_range a (4 * length ws) x \<Longrightarrow> 4 * length ws < 2 ^ 32 \<Longrightarrow> st_words m a ws x = m x"
proof (induction ws arbitrary: m a)
  case (Cons w ws)
  have "\<not> in_range (a + 4) (4 * length ws) x"
    using Cons.prems in_range_shift [of a 4 "4 * length ws" x "4 * length (w # ws)"] by auto
  moreover have "\<not> in_range a 4 x" using Cons.prems(1) by (auto simp: in_range_def)
  ultimately show ?case using Cons.IH [of "a + 4"] Cons.prems(2) by (simp add: st32_outside)
qed simp

lemma kcontext_stack:
  "kcontext por st (st + STACK_SIZE - 1) entry arg m = (ctx, m') \<Longrightarrow>
   (\<forall>x. \<not> in_range st 8192 x \<longrightarrow> m' x = m x) \<and> c_eip ctx = entry \<and> c_eflags ctx = 0x200 \<and>
   c_esp0 ctx = st + 8183 \<and> ld32 m' (c_esp0 ctx) = por \<and> ld32 m' (c_esp0 ctx + 4) = arg"
proof -
  assume k: "kcontext por st (st + STACK_SIZE - 1) entry arg m = (ctx, m')"
  have e: "st + STACK_SIZE - 1 - 8 = st + 8183" by (simp add: STACK_SIZE_def)
  have c: "c_esp0 ctx = st + 8183" "c_eip ctx = entry" "c_eflags ctx = 0x200"
    and m': "m' = st_words (st_words m st (context_words ctx)) (st + 8183) [por, arg]"
    using k e by (auto simp: kcontext_def Let_def)
  have len: "length (context_words ctx) = 17" by (simp add: context_words_def)
  have "m' x = m x" if "\<not> in_range st 8192 x" for x
  proof -
    have "\<not> in_range (st + 8183) 8 x" using in_range_shift [of st 8183 8 x 8192] that by auto
    moreover have "\<not> in_range st 68 x" using that by (auto simp: in_range_def)
    ultimately show ?thesis
      using st_words_outside [of "st + 8183" "[por, arg]" x] st_words_outside [of st "context_words ctx" x] len
      unfolding m' by simp
  qed
  moreover have "ld32 m' (st + 8183 + 4) = arg" unfolding m' by simp
  moreover have "ld32 m' (st + 8183) = por"
  proof -
    have "ld32 (st32 m2 (a + 4) w) a = ld32 m2 a" for m2 a w
    proof (rule ld32_cong, rule st32_outside)
      fix x assume "in_range a 4 x"
      then show "\<not> in_range (a + 4) 4 x" using unat_shift [of a 4 4 x] by (auto simp: in_range_def)
    qed
    from this [of _ "st + 8183"] show ?thesis unfolding m' st_words.simps by (simp only: ld32_st32_same)
  qed
  ultimately show ?thesis using c by simp
qed


text \<open>The nodes of the list live in allocated blocks of the heap.\<close>

definition nodes_alloc :: "'a kmt_scheme \<Rightarrow> seg list \<Rightarrow> bool" where
  "nodes_alloc s ss \<longleftrightarrow> (\<forall>t\<in>set (task_list s). \<exists>b n. (True, b, n) \<in> set ss \<and> tn_addr t = of_nat b + 12)"

lemma tasks_count_bound:
  assumes "tasks_ok s" shows "length (task_list s) < 2 ^ 32"
proof -
  have d: "distinct ((0 :: u32) # map tn_addr (task_list s))" using assms by (auto simp: tasks_ok_def)
  then have "length ((0 :: u32) # map tn_addr (task_list s)) = card (set ((0 :: u32) # map tn_addr (task_list s)))"
    by (metis distinct_card)
  also have "\<dots> \<le> card (UNIV :: u32 set)" by (rule card_mono) simp_all
  finally show ?thesis by (simp add: card_word)
qed

lemma sched_ok_append:
  assumes ok: "sched_ok s" and fresh: "tn_addr t \<noteq> 0" "tn_addr t \<notin> tn_addr ` set (task_list s)"
    and free: "t_state (tn_task t) = Free"
    and s': "task_list s' = task_list s @ [t]" "current s' = current s" "task_count s' = task_count s + 1"
  shows "sched_ok s'"
proof -
  have tk: "tasks_ok s" using ok by (simp add: sched_ok_def)
  have "distinct ((0 :: u32) # map tn_addr (task_list s @ [t]))" using fresh tk by (auto simp: tasks_ok_def)
  then have "length ((0 :: u32) # map tn_addr (task_list s @ [t])) =
      card (set ((0 :: u32) # map tn_addr (task_list s @ [t])))"
    by (metis distinct_card)
  also have "\<dots> \<le> card (UNIV :: u32 set)" by (rule card_mono) simp_all
  finally have "length (task_list s) + 1 < 2 ^ 32" by (simp add: card_word)
  then have "unat (task_count s + 1) = length (task_list s) + 1"
    using tk unat_add_1 [of "task_count s"] by (simp add: tasks_ok_def)
  then have "tasks_ok s'" using tk fresh s' by (auto simp: tasks_ok_def)
  moreover have "\<exists>u\<in>set (task_list s'). tn_addr u = current s' c \<and> t_state (tn_task u) = Working \<and>
      t_cpu (tn_task u) = c" if "current s' c \<noteq> 0" for c
  proof -
    have "current s c \<noteq> 0" using that s'(2) by simp
    then show ?thesis using ok s'(1,2) unfolding sched_ok_def by auto
  qed
  moreover have "current s' (t_cpu (tn_task u)) = tn_addr u"
    if "u \<in> set (task_list s')" "t_state (tn_task u) = Working" for u
    using that ok s'(1,2) free by (auto simp: sched_ok_def)
  ultimately show ?thesis by (simp add: sched_ok_def)
qed

lemma task_lk_entered [simp]:
  "task_list (task_lk.entered s) = task_list s" "task_count (task_lk.entered s) = task_count s"
  by (simp_all add: task_lk.entered_def pushed_def)

lemma task_lk_upd:
  "(task_lk.entered s)\<lparr>task_count := n\<rparr> = task_lk.entered (s\<lparr>task_count := n\<rparr>)"
  "(task_lk.entered s)\<lparr>task_list := ts\<rparr> = task_lk.entered (s\<lparr>task_list := ts\<rparr>)"
  by (simp_all add: task_lk.entered_def pushed_def hw_defs)

lemma task_lk_bracket:
  "kmt_idle s \<Longrightarrow> lock_on task_lock task_lock_update s = Some (task_lk.entered s)"
  "kmt_idle s \<Longrightarrow> unlock_on task_lock task_lock_update (task_lk.entered s) = Some s"
  using task_lk.bracket [of s] by (simp_all add: kmt_idle_def task_lk.lock_on_free)

lemma pmm_ok_tasks [simp]:
  "pmm_ok (s\<lparr>task_count := n, task_list := ts\<rparr>) ss = pmm_ok (s :: 'a kmt_scheme) ss"
  by (simp add: pmm_ok_def heap_ok_def cli_ok_def hw_defs)

lemma kmt_idle_more [simp]:
  "kmt_idle (s\<lparr>mem := m, pm_head := h\<rparr>) = kmt_idle (s :: 'a kmt_scheme)"
  "kmt_idle (s\<lparr>mem := m\<rparr>) = kmt_idle s"
  "kmt_idle (s\<lparr>task_count := n\<rparr>) = kmt_idle s"
  "kmt_idle (s\<lparr>task_list := ts\<rparr>) = kmt_idle s"
  by (simp_all add: kmt_idle_def cli_ok_def hw_defs)

text \<open>The steps of \<open>kmt_create\<close> after its two allocations.\<close>

lemma kmt_create_run:
  assumes idle: "kmt_idle s" and n: "n_cpu s \<noteq> 0"
    and a1: "pmm_alloc STACK_SIZE s = Some (st, s\<lparr>mem := m1, pm_head := h1\<rparr>)" "st \<noteq> 0"
    and k: "kcontext por st (st + STACK_SIZE - 1) entry arg m1 = (ctx, m2)"
    and a2: "pmm_alloc 8 (s\<lparr>mem := m2, pm_head := h1\<rparr>) = Some (tn, s\<lparr>mem := m3, pm_head := h3\<rparr>)"
  shows "kmt_create por task name entry arg s = Some (0, s\<lparr>mem := m3, pm_head := h3,
     task_count := task_count s + 1, task_list := task_list s @
       [\<lparr>tn_addr = tn, tn_task = \<lparr>t_addr = task, t_tid = task_count s + 1, t_name = name,
          t_entry = entry, t_arg = arg, t_context = ctx, t_stack = st,
          t_cpu = unat (task_count s) mod n_cpu s, t_state = Free, t_fildes = replicate N_FILE 0\<rparr>\<rparr>]\<rparr>)"
proof -
  have i: "kmt_idle (s\<lparr>mem := m3, pm_head := h3\<rparr>)" using idle by simp
  have e: "s\<lparr>pm_head := h1, mem := m2\<rparr> = s\<lparr>mem := m2, pm_head := h1\<rparr>" by simp
  have "pmm_alloc 8 (s\<lparr>pm_head := h1, mem := m2\<rparr>) = Some (tn, s\<lparr>mem := m3, pm_head := h3\<rparr>)"
    unfolding e by (rule a2)
  then show ?thesis
    using n a1 k task_lk_bracket(1) [OF i] idle
    by (simp add: kmt_create_def Let_def task_lk_upd task_lk_bracket(2))
qed

lemma create_run:
  assumes idle: "kmt_idle s" and sched: "sched_ok s" and heap: "pmm_ok s ss" and al: "nodes_alloc s ss"
    and n: "n_cpu s \<noteq> 0" and room: "(False, a, k) \<in> set ss" "8224 \<le> k"
  shows "\<exists>s' t ss'. kmt_create por task name entry arg s = Some (0, s') \<and>
     task_list s' = task_list s @ [t] \<and> current s' = current s \<and>
     t_tid (tn_task t) = task_count s + 1 \<and> t_name (tn_task t) = name \<and>
     t_cpu (tn_task t) = unat (task_count s) mod n_cpu s \<and> t_state (tn_task t) = Free \<and>
     t_fildes (tn_task t) = replicate N_FILE 0 \<and>
     c_eip (t_context (tn_task t)) = entry \<and> c_eflags (t_context (tn_task t)) = 0x200 \<and>
     ld32 (mem s') (c_esp0 (t_context (tn_task t))) = por \<and>
     ld32 (mem s') (c_esp0 (t_context (tn_task t)) + 4) = arg \<and>
     kmt_idle s' \<and> sched_ok s' \<and> pmm_ok s' ss' \<and> nodes_alloc s' ss' \<and>
     s' = s\<lparr>mem := mem s', pm_head := pm_head s', task_count := task_count s + 1,
       task_list := task_list s @ [t]\<rparr> \<and>
     (\<exists>b j. (False, b, j) \<in> set ss' \<and> k \<le> j + 8224)"
proof -
  have sz: "unat STACK_SIZE = 8192" by (simp add: STACK_SIZE_def)
  obtain b m1 h1 ss1 where b: "pmm_alloc STACK_SIZE s = Some (of_nat b + 12, s\<lparr>mem := m1, pm_head := h1\<rparr>)"
    "pmm_ok (s\<lparr>mem := m1, pm_head := h1\<rparr>) ss1" "(of_nat b + 12 :: u32) \<noteq> 0" "(True, b, 8192) \<in> set ss1"
    "\<And>c n. (True, c, n) \<in> set ss \<Longrightarrow> (True, c, n) \<in> set ss1"
    "\<exists>c j. (False, c, j) \<in> set ss1 \<and> k \<le> j + 12 + 8192"
    using pmm_alloc_room [OF heap room(1), of STACK_SIZE, unfolded sz] room(2) by (clarsimp, blast)
  let ?st = "of_nat b + 12 :: u32"
  obtain ctx m2 where k: "kcontext por ?st (?st + STACK_SIZE - 1) entry arg m1 = (ctx, m2)" by fastforce
  note ks = kcontext_stack [OF k]
  have e: "s\<lparr>mem := m1, pm_head := h1, mem := m2\<rparr> = s\<lparr>mem := m2, pm_head := h1\<rparr>" by simp
  have "pmm_ok (s\<lparr>mem := m1, pm_head := h1, mem := m2\<rparr>) ss1"
    by (rule data_write_ok [OF b(2,4)]) (use ks in simp)
  then have ok2: "pmm_ok (s\<lparr>mem := m2, pm_head := h1\<rparr>) ss1" unfolding e .
  obtain c j where c: "(False, c, j) \<in> set ss1" "k \<le> j + 8204" using b(6) by auto
  have j: "unat (8 :: u32) + 12 \<le> j" using c(2) room(2) by simp
  have r: "s\<lparr>mem := m2, pm_head := h1, mem := m, pm_head := h\<rparr> = s\<lparr>mem := m, pm_head := h\<rparr>" for m h by simp
  have u: "unat (8 :: u32) = 8" "mem (s\<lparr>mem := m2, pm_head := h1\<rparr>) = m2" by simp_all
  obtain d m3 h3 ss3 where d: "pmm_alloc 8 (s\<lparr>mem := m2, pm_head := h1\<rparr>) =
      Some (of_nat d + 12, s\<lparr>mem := m3, pm_head := h3\<rparr>)" "pmm_ok (s\<lparr>mem := m3, pm_head := h3\<rparr>) ss3"
    "(of_nat d + 12 :: u32) \<noteq> 0" "(True, d, 8) \<in> set ss3"
    "\<And>c n. (True, c, n) \<in> set ss1 \<Longrightarrow> (True, c, n) \<in> set ss3 \<and> (of_nat c + 12 :: u32) \<noteq> of_nat d + 12"
    "untouched ss1 m2 m3" "\<exists>b i. (False, b, i) \<in> set ss3 \<and> j \<le> i + 12 + 8"
    using pmm_alloc_room [OF ok2 c(1) j, unfolded r u] by blast
  let ?t = "\<lparr>tn_addr = of_nat d + 12, tn_task = \<lparr>t_addr = task, t_tid = task_count s + 1, t_name = name,
      t_entry = entry, t_arg = arg, t_context = ctx, t_stack = ?st,
      t_cpu = unat (task_count s) mod n_cpu s, t_state = Free, t_fildes = replicate N_FILE 0\<rparr>\<rparr>"
  let ?s' = "s\<lparr>mem := m3, pm_head := h3, task_count := task_count s + 1, task_list := task_list s @ [?t]\<rparr>"
  note run = kmt_create_run [OF idle n b(1,3) k d(1), of task name]
  have stack: "ld32 m3 x = ld32 m2 x" if "\<And>y. in_range x 4 y \<Longrightarrow> in_range ?st 8192 y" for x
    by (rule ld32_cong) (use that d(6) b(4) in \<open>auto simp: untouched_def\<close>)
  have esp: "c_esp0 ctx = ?st + 8183" "c_esp0 ctx + 4 = ?st + 8187" using ks by simp_all
  have s1: "ld32 m3 (?st + 8183) = ld32 m2 (?st + 8183)"
    by (rule stack) (use in_range_shift [of ?st 8183 4 _ 8192] in auto)
  have s2: "ld32 m3 (?st + 8187) = ld32 m2 (?st + 8187)"
    by (rule stack) (use in_range_shift [of ?st 8187 4 _ 8192] in auto)
  have k12: "ld32 m2 (c_esp0 ctx) = por" "ld32 m2 (c_esp0 ctx + 4) = arg" using ks by blast+
  have args: "ld32 m3 (c_esp0 ctx) = por" using k12(1) s1 unfolding esp(1) by simp
  have args2: "ld32 m3 (c_esp0 ctx + 4) = arg" using k12(2) s2 unfolding esp(2) by simp
  have fresh: "tn_addr u \<noteq> of_nat d + 12" if "u \<in> set (task_list s)" for u
    using al that b(5) d(5) unfolding nodes_alloc_def by metis
  have "sched_ok ?s'"
    by (rule sched_ok_append [OF sched, of ?t]) (use d(3) fresh in \<open>auto dest: sym\<close>)
  moreover have "nodes_alloc ?s' ss3"
    unfolding nodes_alloc_def
  proof
    fix u assume "u \<in> set (task_list ?s')"
    then consider "u \<in> set (task_list s)" | "u = ?t" by auto
    then show "\<exists>b n. (True, b, n) \<in> set ss3 \<and> tn_addr u = of_nat b + 12"
    proof cases
      case 1
      then show ?thesis using al b(5) d(5) unfolding nodes_alloc_def by metis
    next
      case 2
      then show ?thesis using d(4) by (intro exI [of _ d] exI [of _ 8]) simp
    qed
  qed
  moreover have "kmt_idle ?s'" using idle by simp
  moreover have "pmm_ok ?s' ss3" using d(2) by simp
  moreover obtain b' i where "(False, b', i) \<in> set ss3" "k \<le> i + 8224" using d(7) c(2) by auto
  moreover have "?s' = s\<lparr>mem := mem ?s', pm_head := pm_head ?s', task_count := task_count s + 1,
       task_list := task_list s @ [?t]\<rparr>" by simp
  ultimately show ?thesis
    using run args args2 ks by (intro exI [of _ ?s'] exI [of _ ?t] exI [of _ ss3]) auto
qed

text \<open>C29: Creating a task succeeds whenever the heap has a free block of 8224 bytes (the stack,
  the node and their headers): it returns 0 and appends exactly one task, which gets the next number, a
  processor by its position, starts at its entry with interrupts enabled and with its argument and
  the return address \<open>panic_on_return\<close> on its stack; no processor runs it yet, every other task
  keeps its node, and the scheduler, the heap and the locks are again in order.\<close>
theorem create_appends:
  assumes idle: "kmt_idle s" and sched: "sched_ok s" and heap: "pmm_ok s ss" and al: "nodes_alloc s ss"
    and n: "n_cpu s \<noteq> 0" and room: "(False, a, k) \<in> set ss" "8224 \<le> k"
  shows "\<exists>s' t ss'. kmt_create por task name entry arg s = Some (0, s') \<and>
     task_list s' = task_list s @ [t] \<and> current s' = current s \<and>
     t_tid (tn_task t) = task_count s + 1 \<and> t_name (tn_task t) = name \<and>
     t_cpu (tn_task t) = unat (task_count s) mod n_cpu s \<and> t_state (tn_task t) = Free \<and>
     t_fildes (tn_task t) = replicate N_FILE 0 \<and>
     c_eip (t_context (tn_task t)) = entry \<and> c_eflags (t_context (tn_task t)) = 0x200 \<and>
     ld32 (mem s') (c_esp0 (t_context (tn_task t))) = por \<and>
     ld32 (mem s') (c_esp0 (t_context (tn_task t)) + 4) = arg \<and>
     kmt_idle s' \<and> sched_ok s' \<and> pmm_ok s' ss' \<and> nodes_alloc s' ss'"
  using create_run [OF assms, of por task name entry arg] by blast

text \<open>The system before \<open>kmt->create\<close> is called for the first time: two processors and a
  heap of one free block.\<close>

definition boot_kmt :: kmt where
  "boot_kmt = pmm_init 0x100000 0x200000 (demo_kmt\<lparr>task_count := 0, task_list := [], current := (\<lambda>_. 0)\<rparr>)"

lemma boot_kmt_sel:
  "cur_cpu boot_kmt = 0" "n_cpu boot_kmt = 2" "task_count boot_kmt = 0" "task_list boot_kmt = []"
  "current boot_kmt c = 0" "cpu_cli boot_kmt c = \<lparr>cli_count = 0, cli_hasIF = 0\<rparr>" "irq_head boot_kmt = []"
  "context_lock boot_kmt = spin_init ''''" "task_lock boot_kmt = spin_init ''''"
  by (simp_all add: boot_kmt_def pmm_init_def demo_kmt_def)

lemma boot_kmt_ok: "pmm_ok boot_kmt [(False, 1048576, 1048564)]"
  unfolding boot_kmt_def
  by (rule pmm_init_heap [of "0x100000" "0x200000", simplified]) (simp add: demo_kmt_def cli_ok_def hw_defs)

theorem create_appends_witness:
  "\<exists>s' t. kmt_create 0x7000 500 ''idle-1'' 0x8000 7 boot_kmt = Some (0, s') \<and> task_list s' = [t] \<and>
     t_tid (tn_task t) = 1 \<and> t_cpu (tn_task t) = 0 \<and> ld32 (mem s') (c_esp0 (t_context (tn_task t)) + 4) = 7"
proof -
  have "kmt_idle boot_kmt" by (simp add: kmt_idle_def lock_free_init boot_kmt_sel cli_ok_def hw_defs)
  moreover have "sched_ok boot_kmt" by (simp add: sched_ok_def tasks_ok_def boot_kmt_sel)
  moreover have "nodes_alloc boot_kmt [(False, 1048576, 1048564)]" by (simp add: nodes_alloc_def boot_kmt_sel)
  moreover have "n_cpu boot_kmt \<noteq> 0" by (simp add: boot_kmt_sel)
  moreover have "(False, 1048576, 1048564) \<in> set [(False, 1048576 :: nat, 1048564 :: nat)]" by simp
  moreover have "8224 \<le> (1048564 :: nat)" by simp
  ultimately show ?thesis
    using create_appends [OF _ _ boot_kmt_ok, of 1048576 1048564 "0x7000" 500 "''idle-1''" "0x8000" 7]
      boot_kmt_sel by auto
qed

section \<open>Semaphores\<close>

text \<open>A semaphore that is a field of the kernel state.\<close>

locale sem_field =
  fixes get :: "'a kmt_scheme \<Rightarrow> semaphore"
    and upd :: "(semaphore \<Rightarrow> semaphore) \<Rightarrow> 'a kmt_scheme \<Rightarrow> 'a kmt_scheme"
  assumes sem_get_upd: "get (upd f s) = f (get s)"
    and sem_upd_same: "upd (\<lambda>x. x) s = s"
    and sem_upd_upd: "upd f (upd g s) = upd (\<lambda>x. f (g x)) s"
    and sem_upd_const: "upd (\<lambda>_. f (get s)) s = upd f s"
    and sem_hw_upd: "cur_cpu (upd f s) = cur_cpu s" "intr_on (upd f s) = intr_on s"
      "cpu_cli (upd f s) = cpu_cli s" "current (upd f s) = current s"
    and sem_get_hw: "get (s\<lparr>intr_on := i, cpu_cli := c\<rparr>) = get s"
    and sem_upd_hw: "upd f (s\<lparr>intr_on := i, cpu_cli := c\<rparr>) = (upd f s)\<lparr>intr_on := i, cpu_cli := c\<rparr>"

sublocale sem_field \<subseteq> lk: lock_field "lock_of get" "lock_upd upd"
proof
  fix f g s i c
  show "lock_of get (lock_upd upd f s) = f (lock_of get s)"
    by (simp add: lock_of_def lock_upd_def sem_get_upd)
  show "lock_upd upd (\<lambda>_. lock_of get s) s = s"
    using sem_upd_const [of "\<lambda>x. x\<lparr>sem_lock := sem_lock x\<rparr>" s]
      sem_upd_const [of "\<lambda>x. x\<lparr>sem_lock := lock_of get s\<rparr>" s] sem_upd_same
    by (simp add: lock_of_def lock_upd_def)
  show "lock_upd upd f (lock_upd upd g s) = lock_upd upd (\<lambda>x. f (g x)) s"
    by (simp add: lock_upd_def sem_upd_upd)
  show "cur_cpu (lock_upd upd f s) = cur_cpu s" "intr_on (lock_upd upd f s) = intr_on s"
    "cpu_cli (lock_upd upd f s) = cpu_cli s"
    by (simp_all add: lock_upd_def sem_hw_upd)
  show "lock_of get (s\<lparr>intr_on := i, cpu_cli := c\<rparr>) = lock_of get s"
    by (simp add: lock_of_def sem_get_hw)
  show "lock_upd upd f (s\<lparr>intr_on := i, cpu_cli := c\<rparr>) = (lock_upd upd f s)\<lparr>intr_on := i, cpu_cli := c\<rparr>"
    by (simp add: lock_upd_def sem_upd_hw)
qed

text \<open>No processor is inside the semaphore, and a task is running.\<close>

definition sem_idle :: "('a kmt_scheme \<Rightarrow> semaphore) \<Rightarrow> 'a kmt_scheme \<Rightarrow> bool" where
  "sem_idle get s \<longleftrightarrow> cli_ok s \<and> lock_free (lock_of get s) \<and> cur_addr s \<noteq> 0"

text \<open>\<open>yields get y n s s'\<close>: the states at the tests of the loop of \<open>sem_wait\<close>, of which the
  last is the first with a positive value.\<close>

fun yields :: "('a kmt_scheme \<Rightarrow> semaphore) \<Rightarrow> ('a kmt_scheme \<Rightarrow> 'a kmt_scheme option) \<Rightarrow> nat \<Rightarrow>
    'a kmt_scheme \<Rightarrow> 'a kmt_scheme \<Rightarrow> bool" where
  "yields get y 0 s s' \<longleftrightarrow> s' = s \<and> sem_idle get s \<and> 0 < sem_value (get s)"
| "yields get y (Suc n) s s' \<longleftrightarrow> sem_idle get s \<and> sem_value (get s) \<le> 0 \<and>
     (\<exists>s1. y s = Some s1 \<and> yields get y n s1 s')"

context sem_field
begin

lemma entered_value: "sem_value (get (lk.entered s)) = sem_value (get s)"
  by (simp add: lk.entered_def pushed_def lock_upd_def sem_get_upd sem_get_hw)

lemma add_entered: "add_value upd d (lk.entered s) = lk.entered (add_value upd d s)"
proof -
  have e: "(\<lambda>x :: semaphore. x\<lparr>sem_lock := f (sem_lock x), sem_value := sem_value x + d\<rparr>) =
      (\<lambda>x. x\<lparr>sem_value := sem_value x + d, sem_lock := f (sem_lock x)\<rparr>)" for f
    by (rule ext) simp
  show ?thesis
    by (simp add: lk.entered_def pushed_def hw_defs lock_upd_def add_value_def sem_hw_upd sem_upd_upd
        sem_upd_hw e)
qed

lemma add_idle: "sem_idle get (add_value upd d s) = sem_idle get s"
  by (simp add: sem_idle_def cli_ok_def hw_defs cur_addr_def add_value_def lock_of_def sem_hw_upd sem_get_upd)

lemma add_zero: "add_value upd d (add_value upd e s) = add_value upd (d + e) s" "add_value upd 0 s = s"
  by (simp_all add: add_value_def sem_upd_upd sem_upd_same algebra_simps)

lemma value_add: "sem_value (get (add_value upd d s)) = sem_value (get s) + d"
  by (simp add: add_value_def sem_get_upd)

lemma enter: "sem_idle get s \<Longrightarrow> lock_on (lock_of get) (lock_upd upd) s = Some (lk.entered s)"
  by (simp add: sem_idle_def lk.lock_on_free)

lemma leave: "sem_idle get s \<Longrightarrow> unlock_on (lock_of get) (lock_upd upd) (lk.entered s) = Some s"
  using lk.bracket [of s] by (simp add: sem_idle_def lk.lock_on_free)

lemma loop_yields:
  "yields get y n s s' \<Longrightarrow> sem_idle get s' \<and> 0 < sem_value (get s') \<and> sem_idle get s \<and>
     sem_wait_loop get upd y (lk.entered s) = Some (lk.entered (add_value upd (-1) s'))"
proof (induction n arbitrary: s)
  case 0
  then show ?case by (subst sem_wait_loop.simps) (auto simp: add_entered entered_value)
next
  case (Suc n)
  then obtain s1 where s1: "y s = Some s1" "yields get y n s1 s'" "sem_idle get s" "sem_value (get s) \<le> 0" by auto
  note ih = Suc.IH [OF s1(2)]
  have "sem_wait_loop get upd y (lk.entered s) = sem_wait_loop get upd y (lk.entered s1)"
    by (subst sem_wait_loop.simps) (use s1 ih in \<open>simp add: leave enter entered_value\<close>)
  then show ?case using ih s1(3) by simp
qed

lemma wait_returns:
  assumes "yields get y n s s'"
  shows "sem_wait get upd y s = Some (add_value upd (-1) s')"
    and "0 \<le> sem_value (get (add_value upd (-1) s'))" and "sem_idle get (add_value upd (-1) s')"
proof -
  note l = loop_yields [OF assms]
  have "cur_addr s \<noteq> 0" using l by (simp add: sem_idle_def)
  then show "sem_wait get upd y s = Some (add_value upd (-1) s')"
    using l by (simp add: sem_wait_def enter leave add_idle)
  show "0 \<le> sem_value (get (add_value upd (-1) s'))" "sem_idle get (add_value upd (-1) s')"
    using l by (simp_all add: value_add add_idle)
qed

lemma signal_run: "sem_idle get s \<Longrightarrow> sem_signal get upd s = Some (add_value upd 1 s)"
  by (simp add: sem_signal_def enter add_entered leave add_idle) (simp add: sem_idle_def)

lemma signal_wait:
  assumes "sem_idle get s" "0 \<le> sem_value (get s)"
  shows "Option.bind (sem_signal get upd s) (sem_wait get upd y) = Some s"
proof -
  have "yields get y 0 (add_value upd 1 s) (add_value upd 1 s)" using assms by (simp add: value_add add_idle)
  from wait_returns(1) [OF this] show ?thesis by (simp add: signal_run [OF assms(1)] add_zero)
qed

end

record semst = kmt +
  sem :: semaphore

interpretation the_sem: sem_field sem sem_update
  by unfold_locales simp_all

text \<open>\<open>sem_wait\<close> returns as soon as the semaphore is positive: when the other tasks make it
  positive after \<open>n\<close> yields, the call returns in exactly that state with the value decremented
  (so never negative) and its lock released; with a positive value at the start it does not yield.\<close>
lemma sem_wait_returns:
  assumes "yields sem y n s s'"
  shows "sem_wait sem sem_update y s = Some (add_value sem_update (-1) s') \<and>
     sem_value (sem (add_value sem_update (-1) s')) = sem_value (sem s') - 1 \<and> 0 < sem_value (sem s') \<and>
     sem_idle sem (add_value sem_update (-1) s')"
  using the_sem.wait_returns [OF assms] by (simp add: the_sem.value_add)

definition demo_sem :: "int \<Rightarrow> semst" where
  "demo_sem v = \<lparr>cur_cpu = 0, n_cpu = 2, intr_on = (\<lambda>_. True),
     cpu_cli = (\<lambda>_. \<lparr>cli_count = 0, cli_hasIF = 0\<rparr>), mem = (\<lambda>_. 0),
     pm_start = 0, pm_end = 0, pm_head = 0, pmm_lock = spin_init '''', irq_head = [],
     trap_lock = spin_init '''', task_lock = spin_init '''',
     context_lock = spin_init '''', task_list = [demo_node 1 ''a'' 0 Working],
     current = (\<lambda>c. if c = 0 then 1 else 0), task_count = 1, sem = sem_init ''s'' v\<rparr>"

lemma demo_sem_idle [simp]: "sem_idle sem (demo_sem v)" "sem_value (sem (demo_sem v)) = v"
  by (simp_all add: sem_idle_def lock_of_def demo_sem_def cli_ok_def hw_defs cur_addr_def sem_init_def lock_free_init)

lemma demo_sem_add [simp]: "add_value sem_update d (demo_sem v) = demo_sem (v + d)"
  by (simp add: add_value_def demo_sem_def sem_init_def)

text \<open>A consumer that waits while a producer signals during its first yield.\<close>

lemma sem_wait_returns_witness: "sem_wait sem sem_update (sem_signal sem sem_update) (demo_sem 0) = Some (demo_sem 0)"
proof -
  have "yields sem (sem_signal sem sem_update) 1 (demo_sem 0) (demo_sem 1)" by (simp add: the_sem.signal_run)
  then show ?thesis using sem_wait_returns by fastforce
qed

text \<open>\<open>sem_signal\<close> adds one and releases the lock, and a wait after it takes exactly that
  unit back without yielding: the two leave the state as it was.\<close>
lemma sem_signal_wait:
  assumes "sem_idle sem s" "0 \<le> sem_value (sem s)"
  shows "sem_signal sem sem_update s = Some (s\<lparr>sem := (sem s)\<lparr>sem_value := sem_value (sem s) + 1\<rparr>\<rparr>) \<and>
     Option.bind (sem_signal sem sem_update s) (sem_wait sem sem_update y) = Some s"
  using the_sem.signal_run [OF assms(1)] the_sem.signal_wait [OF assms]
  by (simp add: add_value_def)

lemma sem_signal_wait_witness:
  "sem_signal sem sem_update (demo_sem 2) = Some (demo_sem 3) \<and>
   Option.bind (sem_signal sem sem_update (demo_sem 2)) (sem_wait sem sem_update Some) = Some (demo_sem 2)"
  using sem_signal_wait [of "demo_sem 2" Some] by (auto simp: the_sem.signal_run)

end
