(* ===== verification/Ring.thy ===== *)
theory Ring
  imports Prelude
begin

text \<open>
  Ring buffers, as the keyboard device and the terminals use them: an array of \<open>n\<close> slots,
  the index \<open>f\<close> of the oldest element and the index \<open>r\<close> of the next free slot. One
  slot stays empty, so equal indices mean an empty buffer.
\<close>

definition ring_count :: "nat \<Rightarrow> nat \<Rightarrow> nat \<Rightarrow> nat" where
  "ring_count n f r = (r + n - f) mod n"

definition ring :: "nat \<Rightarrow> 'a list \<Rightarrow> nat \<Rightarrow> nat \<Rightarrow> 'a list" where
  "ring n xs f r = map (\<lambda>k. xs ! ((f + k) mod n)) [0..<ring_count n f r]"

lemma length_ring [simp]: "length (ring n xs f r) = ring_count n f r"
  by (simp add: ring_def)

lemma mod_slot: "i < n + n \<Longrightarrow> i mod n = (if i < n then i else i - n)" for i n :: nat
  by (simp add: le_mod_geq)

lemma ring_count_cases:
  "f < n \<Longrightarrow> r < n \<Longrightarrow> ring_count n f r = (if f \<le> r then r - f else r + n - f)"
  by (simp add: ring_count_def mod_slot)

lemma ring_count_less: "f < n \<Longrightarrow> r < n \<Longrightarrow> ring_count n f r < n"
  by (cases "f \<le> r") (simp_all add: ring_count_cases)

lemma ring_empty: "f < n \<Longrightarrow> r < n \<Longrightarrow> ring n xs f r = [] \<longleftrightarrow> f = r"
  by (auto simp: ring_def ring_count_cases split: if_splits)

lemma ring_rear: "f < n \<Longrightarrow> r < n \<Longrightarrow> (f + ring_count n f r) mod n = r"
  by (simp add: ring_count_cases mod_slot)

lemma ring_slot_neq: "f < n \<Longrightarrow> r < n \<Longrightarrow> k < ring_count n f r \<Longrightarrow> (f + k) mod n \<noteq> r"
  by (cases "f \<le> r"; cases "f + k < n"; simp add: ring_count_cases mod_slot)

lemma ring_cong:
  "(\<And>k. k < ring_count n f r \<Longrightarrow> xs ! ((f + k) mod n) = ys ! ((f + k) mod n)) \<Longrightarrow> ring n xs f r = ring n ys f r"
  by (simp add: ring_def)

text \<open>Storing into the free slot at the rear changes nothing, until the rear moves past it.\<close>

lemma ring_free_slot: "f < n \<Longrightarrow> r < n \<Longrightarrow> ring n (xs[r := v]) f r = ring n xs f r"
  by (rule ring_cong) (metis ring_slot_neq nth_list_update_neq)

lemma ring_count_Suc:
  assumes "f < n" "r < n" "ring_count n f r < n - 1"
  shows "(r + 1) mod n \<noteq> f" and "ring_count n f ((r + 1) mod n) = ring_count n f r + 1"
proof -
  consider "r + 1 < n" | "r + 1 = n" using assms(2) by linarith
  then show "(r + 1) mod n \<noteq> f" "ring_count n f ((r + 1) mod n) = ring_count n f r + 1"
    using assms by (cases; auto simp: ring_count_cases split: if_splits)+
qed

lemma ring_push:
  assumes "f < n" "r < n" "length xs = n" "ring_count n f r < n - 1"
  shows "ring n (xs[r := v]) f ((r + 1) mod n) = ring n xs f r @ [v]"
proof -
  have "map (\<lambda>k. xs[r := v] ! ((f + k) mod n)) [0..<ring_count n f r] = ring n xs f r"
    using ring_free_slot [OF assms(1,2), of xs v] by (simp add: ring_def)
  then show ?thesis
    using ring_count_Suc(2) [OF assms(1,2,4)] ring_rear [OF assms(1,2)] assms(2,3)
    by (simp add: ring_def)
qed

lemma ring_pop:
  assumes "f < n" "r < n" "ring n xs f r = e # q"
  shows "f \<noteq> r" and "xs ! f = e" and "ring n xs ((f + 1) mod n) r = q"
proof -
  have c: "ring_count n f r = Suc (length q)" using assms(3) length_ring [of n xs f r] by simp
  show ne: "f \<noteq> r" using assms ring_empty [of f n r xs] by auto
  have q: "e # q = map (\<lambda>k. xs ! ((f + k) mod n)) (0 # map Suc [0..<length q])"
    using assms(3) c by (simp add: ring_def map_Suc_upt upt_rec [of 0 "Suc (length q)"] del: upt_Suc)
  then show "xs ! f = e" using assms(1) by simp
  consider "f + 1 < n" | "f + 1 = n" using assms(1) by linarith
  then have "ring_count n ((f + 1) mod n) r = length q"
    using c assms(1,2) by (cases; auto simp: ring_count_cases split: if_splits)
  moreover have "((f + 1) mod n + k) mod n = (f + Suc k) mod n" for k
    by (simp add: mod_add_left_eq)
  ultimately show "ring n xs ((f + 1) mod n) r = q"
    using q by (simp add: ring_def comp_def)
qed

text \<open>Taking the newest element back.\<close>

lemma ring_unpush:
  assumes "f < n" "r < n" "ring n xs f r = q @ [e]"
  shows "xs ! ((r + n - 1) mod n) = e" and "ring n xs f ((r + n - 1) mod n) = q"
proof -
  have c: "ring_count n f r = Suc (length q)" using assms(3) length_ring [of n xs f r] by simp
  then have "q @ [e] = map (\<lambda>k. xs ! ((f + k) mod n)) [0..<length q] @ [xs ! ((f + length q) mod n)]"
    using assms(3) by (simp add: ring_def)
  then have q: "q = map (\<lambda>k. xs ! ((f + k) mod n)) [0..<length q]" "e = xs ! ((f + length q) mod n)"
    by simp_all
  have p: "(r + n - 1) mod n = (if r = 0 then n - 1 else r - 1)" using assms(2) by (simp add: mod_slot)
  have m: "f \<noteq> r" "length q = (if f < r then r - f - 1 else r + n - f - 1)"
    using c assms(1,2) by (auto simp: ring_count_cases split: if_splits)
  have "(f + length q) mod n = (if r = 0 then n - 1 else r - 1)"
    using m assms(1,2) by (cases "f < r"; cases "r = 0"; simp add: mod_slot)
  moreover have "ring_count n f (if r = 0 then n - 1 else r - 1) = length q"
    using m assms(1,2) by (cases "f < r"; cases "r = 0"; simp add: ring_count_cases)
  ultimately have "(f + length q) mod n = (r + n - 1) mod n" "ring_count n f ((r + n - 1) mod n) = length q"
    unfolding p by blast+
  then show "xs ! ((r + n - 1) mod n) = e" "ring n xs f ((r + n - 1) mod n) = q"
    using q by (simp_all add: ring_def)
qed

end
