(* ===== verification/Input.thy ===== *)
theory Input
  imports Sched Ring
begin

text \<open>
  The keyboard device (\<open>devices/input/input.c\<close>, \<open>keymaps.c\<close>): translating key codes to
  input events, and the ring buffer of events between the keyboard task and the readers.
  The arrays \<open>events\<close>, \<open>keymap\<close> and \<open>keymap_shift\<close> are lists; an index outside of
  them is undefined.
\<close>

section \<open>Key codes and key maps\<close>

text \<open>The keys in the order of \<open>amdev.h\<close>; \<open>_KEY_NONE\<close> is 0.\<close>

definition KEYS :: "string list" where
  "KEYS = [''ESCAPE'', ''F1'', ''F2'', ''F3'', ''F4'', ''F5'', ''F6'', ''F7'', ''F8'', ''F9'',
     ''F10'', ''F11'', ''F12'', ''GRAVE'', ''1'', ''2'', ''3'', ''4'', ''5'', ''6'', ''7'',
     ''8'', ''9'', ''0'', ''MINUS'', ''EQUALS'', ''BACKSPACE'', ''TAB'', ''Q'', ''W'', ''E'',
     ''R'', ''T'', ''Y'', ''U'', ''I'', ''O'', ''P'', ''LEFTBRACKET'', ''RIGHTBRACKET'',
     ''BACKSLASH'', ''CAPSLOCK'', ''A'', ''S'', ''D'', ''F'', ''G'', ''H'', ''J'', ''K'',
     ''L'', ''SEMICOLON'', ''APOSTROPHE'', ''RETURN'', ''LSHIFT'', ''Z'', ''X'', ''C'', ''V'',
     ''B'', ''N'', ''M'', ''COMMA'', ''PERIOD'', ''SLASH'', ''RSHIFT'', ''LCTRL'',
     ''APPLICATION'', ''LALT'', ''SPACE'', ''RALT'', ''RCTRL'', ''UP'', ''DOWN'', ''LEFT'',
     ''RIGHT'', ''INSERT'', ''DELETE'', ''HOME'', ''END'', ''PAGEUP'', ''PAGEDOWN'']"

definition keymap_init :: "(string \<times> char) list" where
  "keymap_init = [(''0'', CHR ''0''), (''1'', CHR ''1''), (''2'', CHR ''2''), (''3'', CHR ''3''),
     (''4'', CHR ''4''), (''5'', CHR ''5''), (''6'', CHR ''6''), (''7'', CHR ''7''),
     (''8'', CHR ''8''), (''9'', CHR ''9''), (''GRAVE'', CHR 0x60), (''MINUS'', CHR ''-''),
     (''EQUALS'', CHR ''=''), (''LEFTBRACKET'', CHR ''[''), (''RIGHTBRACKET'', CHR '']''),
     (''BACKSLASH'', CHR 0x5C), (''SEMICOLON'', CHR '';''), (''APOSTROPHE'', CHR 0x27),
     (''RETURN'', CHR 0x0A), (''COMMA'', CHR '',''), (''PERIOD'', CHR ''.''),
     (''SLASH'', CHR ''/''), (''SPACE'', CHR '' ''), (''BACKSPACE'', CHR 0x08),
     (''A'', CHR ''a''), (''B'', CHR ''b''), (''C'', CHR ''c''), (''D'', CHR ''d''),
     (''E'', CHR ''e''), (''F'', CHR ''f''), (''G'', CHR ''g''), (''H'', CHR ''h''),
     (''I'', CHR ''i''), (''J'', CHR ''j''), (''K'', CHR ''k''), (''L'', CHR ''l''),
     (''M'', CHR ''m''), (''N'', CHR ''n''), (''O'', CHR ''o''), (''P'', CHR ''p''),
     (''Q'', CHR ''q''), (''R'', CHR ''r''), (''S'', CHR ''s''), (''T'', CHR ''t''),
     (''U'', CHR ''u''), (''V'', CHR ''v''), (''W'', CHR ''w''), (''X'', CHR ''x''),
     (''Y'', CHR ''y''), (''Z'', CHR ''z'')]"

definition keymap_shift_init :: "(string \<times> char) list" where
  "keymap_shift_init = [(''0'', CHR '')''), (''1'', CHR ''!''), (''2'', CHR ''@''), (''3'', CHR ''#''),
     (''4'', CHR ''$''), (''5'', CHR ''%''), (''6'', CHR ''^''), (''7'', CHR ''&''),
     (''8'', CHR ''*''), (''9'', CHR ''(''), (''GRAVE'', CHR ''~''), (''MINUS'', CHR ''_''),
     (''EQUALS'', CHR ''+''), (''LEFTBRACKET'', CHR ''{''), (''RIGHTBRACKET'', CHR ''}''),
     (''BACKSLASH'', CHR ''|''), (''SEMICOLON'', CHR '':''), (''APOSTROPHE'', CHR 0x22),
     (''COMMA'', CHR ''<''), (''PERIOD'', CHR ''>''), (''SLASH'', CHR ''?''),
     (''SPACE'', CHR '' ''), (''BACKSPACE'', CHR 0x08), (''A'', CHR ''A''), (''B'', CHR ''B''),
     (''C'', CHR ''C''), (''D'', CHR ''D''), (''E'', CHR ''E''), (''F'', CHR ''F''),
     (''G'', CHR ''G''), (''H'', CHR ''H''), (''I'', CHR ''I''), (''J'', CHR ''J''),
     (''K'', CHR ''K''), (''L'', CHR ''L''), (''M'', CHR ''M''), (''N'', CHR ''N''),
     (''O'', CHR ''O''), (''P'', CHR ''P''), (''Q'', CHR ''Q''), (''R'', CHR ''R''),
     (''S'', CHR ''S''), (''T'', CHR ''T''), (''U'', CHR ''U''), (''V'', CHR ''V''),
     (''W'', CHR ''W''), (''X'', CHR ''X''), (''Y'', CHR ''Y''), (''Z'', CHR ''Z'')]"

fun key_index :: "string \<Rightarrow> string list \<Rightarrow> nat" where
  "key_index k [] = 0"
| "key_index k (x # xs) = (if x = k then 0 else Suc (key_index k xs))"

definition KEY :: "string \<Rightarrow> nat" where
  "KEY k = 1 + key_index k KEYS"

definition char_table :: "(string \<times> char) list \<Rightarrow> char list" where
  "char_table init = fold (\<lambda>(k, c) t. t[KEY k := c]) init (replicate 256 (CHR 0x00))"

definition keymap :: "char list" where "keymap = char_table keymap_init"
definition keymap_shift :: "char list" where "keymap_shift = char_table keymap_shift_init"

section \<open>State\<close>

definition NEVENTS :: nat where "NEVENTS = 128"

record input_event =
  ie_ctrl :: int
  ie_alt :: int
  ie_data :: int

record input_st = kmt +
  in_lock :: spinlock
  event_sem :: semaphore
  sem_kbdirq :: semaphore
  in_events :: "input_event list"
  in_front :: nat
  in_rear :: nat
  capslock :: int
  shift_down :: "int \<times> int"
  ctrl_down :: "int \<times> int"
  alt_down :: "int \<times> int"

interpretation in_lk: lock_field in_lock in_lock_update
  by unfold_locales auto

interpretation ev_sem: sem_field event_sem event_sem_update
  by unfold_locales simp_all

interpretation kbd_sem: sem_field sem_kbdirq sem_kbdirq_update
  by unfold_locales simp_all

section \<open>Operations\<close>

text \<open>The fields are bit fields of 1, 1 and 16 bits.\<close>

definition input_event :: "int \<Rightarrow> int \<Rightarrow> int \<Rightarrow> input_event" where
  "input_event ctrl alt data = \<lparr>ie_ctrl = ctrl mod 2, ie_alt = alt mod 2, ie_data = data mod 65536\<rparr>"

definition push_event :: "input_event \<Rightarrow> 'a input_st_scheme \<Rightarrow> 'a input_st_scheme option" where
  "push_event ev s = do {
     s \<leftarrow> lock_on in_lock in_lock_update s;
     Assert (in_rear s < length (in_events s));
     let s = s\<lparr>in_events := (in_events s)[in_rear s := ev]\<rparr>;
     let s = s\<lparr>in_rear := (in_rear s + 1) mod NEVENTS\<rparr>;
     Assert (in_rear s \<noteq> in_front s);
     s \<leftarrow> unlock_on in_lock in_lock_update s;
     sem_signal event_sem event_sem_update s }"

definition pop_event ::
  "('a input_st_scheme \<Rightarrow> 'a input_st_scheme option) \<Rightarrow> 'a input_st_scheme \<Rightarrow>
   (input_event \<times> 'a input_st_scheme) option" where
  "pop_event yield s = do {
     s \<leftarrow> sem_wait event_sem event_sem_update yield s;
     s \<leftarrow> lock_on in_lock in_lock_update s;
     Assert (in_rear s \<noteq> in_front s);
     let idx = in_front s;
     let s = s\<lparr>in_front := (in_front s + 1) mod NEVENTS\<rparr>;
     Assert (idx < length (in_events s));
     let ret = in_events s ! idx;
     s \<leftarrow> unlock_on in_lock in_lock_update s;
     Some (ret, s) }"

definition key_char :: "char list \<Rightarrow> nat \<Rightarrow> int option" where
  "key_char tab key = (if key < length tab then Some (char_int (tab ! key)) else None)"

definition is_down :: "int \<times> int \<Rightarrow> int" where
  "is_down p = (if fst p \<noteq> 0 \<or> snd p \<noteq> 0 then 1 else 0)"

text \<open>The character that a plain key contributes, and the event it becomes.\<close>

definition key_press :: "nat \<Rightarrow> 'a input_st_scheme \<Rightarrow> 'a input_st_scheme option" where
  "key_press key s = do {
     ch \<leftarrow> key_char keymap key;
     if ch = 0 then Some s
     else do {
       let shift = is_down (shift_down s);
       let ctrl = is_down (ctrl_down s);
       let alt = is_down (alt_down s);
       if ctrl \<noteq> 0 \<or> alt \<noteq> 0 then push_event (input_event ctrl alt ch) s
       else do {
         let shift = (if 97 \<le> ch \<and> ch \<le> 122 then xor shift (capslock s) else shift);
         if shift \<noteq> 0 then do {
           sh \<leftarrow> key_char keymap_shift key;
           push_event (input_event 0 0 sh) s }
         else push_event (input_event 0 0 ch) s } } }"

definition input_keydown :: "u32 \<Rightarrow> 'a input_st_scheme \<Rightarrow> 'a input_st_scheme option" where
  "input_keydown code s = do {
     let key = unat (and code (not 0x8000));
     if and code 0x8000 \<noteq> 0 then
       (if key = KEY ''CAPSLOCK'' then Some (s\<lparr>capslock := xor (capslock s) 1\<rparr>)
        else if key = KEY ''LCTRL'' then Some (s\<lparr>ctrl_down := (1, snd (ctrl_down s))\<rparr>)
        else if key = KEY ''RCTRL'' then Some (s\<lparr>ctrl_down := (fst (ctrl_down s), 1)\<rparr>)
        else if key = KEY ''LALT'' then Some (s\<lparr>alt_down := (1, snd (alt_down s))\<rparr>)
        else if key = KEY ''RALT'' then Some (s\<lparr>alt_down := (fst (alt_down s), 1)\<rparr>)
        else if key = KEY ''LSHIFT'' then Some (s\<lparr>shift_down := (1, snd (shift_down s))\<rparr>)
        else if key = KEY ''RSHIFT'' then Some (s\<lparr>shift_down := (fst (shift_down s), 1)\<rparr>)
        else key_press key s)
     else
       (if unat code = KEY ''LCTRL'' then Some (s\<lparr>ctrl_down := (0, snd (ctrl_down s))\<rparr>)
        else if unat code = KEY ''RCTRL'' then Some (s\<lparr>ctrl_down := (fst (ctrl_down s), 0)\<rparr>)
        else if unat code = KEY ''LALT'' then Some (s\<lparr>alt_down := (0, snd (alt_down s))\<rparr>)
        else if unat code = KEY ''RALT'' then Some (s\<lparr>alt_down := (fst (alt_down s), 0)\<rparr>)
        else if unat code = KEY ''LSHIFT'' then Some (s\<lparr>shift_down := (0, snd (shift_down s))\<rparr>)
        else if unat code = KEY ''RSHIFT'' then Some (s\<lparr>shift_down := (fst (shift_down s), 0)\<rparr>)
        else Some s) }"

definition input_notify ::
  "irq_ev \<Rightarrow> cpu_context \<Rightarrow> 'a input_st_scheme \<Rightarrow> (cpu_context option \<times> 'a input_st_scheme) option" where
  "input_notify ev ctx s = do {
     s \<leftarrow> sem_signal sem_kbdirq sem_kbdirq_update s;
     Some (None, s) }"

text \<open>The inner loop of \<open>input_task\<close>: the codes that \<open>read_key\<close> delivers before the
  next 0.\<close>

fun input_codes :: "u32 list \<Rightarrow> 'a input_st_scheme \<Rightarrow> 'a input_st_scheme option" where
  "input_codes [] s = Some s"
| "input_codes (code # codes) s =
     (if code = 0 then Some s else do { s \<leftarrow> input_keydown code s; input_codes codes s })"

text \<open>\<open>sizeof(struct input_event)\<close> is 4; the array is zeroed memory.\<close>

definition input_init :: "'a input_st_scheme \<Rightarrow> (int \<times> 'a input_st_scheme) option" where
  "input_init s = do {
     (p, s) \<leftarrow> pmm_alloc (4 * of_nat NEVENTS) s;
     Assert (p \<noteq> 0);
     let s = s\<lparr>in_events := replicate NEVENTS (input_event 0 0 0), in_front := 0, in_rear := 0,
       in_lock := spin_init ''/dev/input lock'', event_sem := sem_init ''events in queue'' 0,
       sem_kbdirq := sem_init ''keyboard-interrupt'' 0\<rparr>;
     s \<leftarrow> on_irq 0 EVENT_IRQ_IODEV H_input_notify s;
     Some (0, s) }"

text \<open>\<open>None\<close> in the result: nothing is copied, and 0 returned.\<close>

definition input_read ::
  "('a input_st_scheme \<Rightarrow> 'a input_st_scheme option) \<Rightarrow> nat \<Rightarrow> 'a input_st_scheme \<Rightarrow>
   ((int \<times> input_event option) \<times> 'a input_st_scheme) option" where
  "input_read yield count s = do {
     (ev, s) \<leftarrow> pop_event yield s;
     Some ((if 4 \<le> count then (4, Some ev) else (0, None)), s) }"

definition input_write :: "nat \<Rightarrow> 'a input_st_scheme \<Rightarrow> int \<times> 'a input_st_scheme" where
  "input_write count s = (0, s)"


section \<open>The event queue\<close>

text \<open>The events between \<open>front\<close> and \<open>rear\<close>, wrapping around.\<close>

definition queued :: "'a input_st_scheme \<Rightarrow> input_event list" where
  "queued s = ring NEVENTS (in_events s) (in_front s) (in_rear s)"

definition input_ok :: "'a input_st_scheme \<Rightarrow> bool" where
  "input_ok s \<longleftrightarrow> length (in_events s) = NEVENTS \<and> in_front s < NEVENTS \<and> in_rear s < NEVENTS \<and>
     lock_free (in_lock s) \<and> sem_idle event_sem s \<and>
     sem_value (event_sem s) = int (length (queued s))"

lemma in_entered_sel [simp]:
  "in_events (in_lk.entered s) = in_events s" "in_front (in_lk.entered s) = in_front s"
  "in_rear (in_lk.entered s) = in_rear s" "event_sem (in_lk.entered s) = event_sem s"
  by (simp_all add: in_lk.entered_def pushed_def)

lemma in_entered_upd:
  "(in_lk.entered s)\<lparr>in_events := e\<rparr> = in_lk.entered (s\<lparr>in_events := e\<rparr>)"
  "(in_lk.entered s)\<lparr>in_front := k\<rparr> = in_lk.entered (s\<lparr>in_front := k\<rparr>)"
  "(in_lk.entered s)\<lparr>in_rear := k\<rparr> = in_lk.entered (s\<lparr>in_rear := k\<rparr>)"
  by (simp_all add: in_lk.entered_def pushed_def hw_defs)

lemma in_lock_bracket:
  assumes "cli_ok s" "lock_free (in_lock s)"
  shows "lock_on in_lock in_lock_update s = Some (in_lk.entered s)"
    and "unlock_on in_lock in_lock_update (in_lk.entered s) = Some s"
  using in_lk.bracket [OF assms] assms by (simp_all add: in_lk.lock_on_free)

lemma sem_idle_in [simp]:
  "sem_idle event_sem (s\<lparr>in_events := e, in_rear := k\<rparr>) = sem_idle event_sem (s :: 'a input_st_scheme)"
  "sem_idle event_sem (s\<lparr>in_front := k\<rparr>) = sem_idle event_sem s"
  by (simp_all add: sem_idle_def lock_of_def cli_ok_def hw_defs cur_addr_def)

lemma add_value_sel [simp]:
  "in_events (add_value event_sem_update d s) = in_events s"
  "in_front (add_value event_sem_update d s) = in_front s"
  "in_rear (add_value event_sem_update d s) = in_rear s"
  "in_lock (add_value event_sem_update d s) = in_lock s"
  by (simp_all add: add_value_def)

lemma queued_add [simp]: "queued (add_value event_sem_update d s) = queued s"
  by (simp add: queued_def)

text \<open>The modifier keys.\<close>

definition modifiers :: "'a input_st_scheme \<Rightarrow> int \<times> (int \<times> int) \<times> (int \<times> int) \<times> (int \<times> int)" where
  "modifiers s = (capslock s, shift_down s, ctrl_down s, alt_down s)"

lemma modifiers_add [simp]: "modifiers (add_value event_sem_update d s) = modifiers s"
  by (simp add: modifiers_def add_value_def)

lemma push_run:
  assumes ok: "input_ok s" and room: "length (queued s) < NEVENTS - 1"
  shows "\<exists>s'. push_event ev s = Some s' \<and> input_ok s' \<and> queued s' = queued s @ [ev] \<and> modifiers s' = modifiers s"
proof -
  let ?s = "s\<lparr>in_events := (in_events s)[in_rear s := ev], in_rear := (in_rear s + 1) mod NEVENTS\<rparr>"
  let ?s' = "add_value event_sem_update 1 ?s"
  have o: "length (in_events s) = NEVENTS" "in_front s < NEVENTS" "in_rear s < NEVENTS"
    "lock_free (in_lock s)" "sem_idle event_sem s" "sem_value (event_sem s) = int (length (queued s))"
    using ok by (simp_all add: input_ok_def)
  have room: "ring_count NEVENTS (in_front s) (in_rear s) < NEVENTS - 1" using room by (simp add: queued_def)
  have q: "queued ?s = queued s @ [ev]" using ring_push [OF o(2,3,1) room] by (simp add: queued_def)
  note c = ring_count_Suc [OF o(2,3) room]
  have cli: "cli_ok s" "cli_ok ?s" using o(5) by (simp_all add: sem_idle_def cli_ok_def hw_defs)
  have si: "sem_idle event_sem ?s" using o(5) by simp
  have "push_event ev s = Some ?s'"
    using in_lock_bracket(1) [OF cli(1) o(4)] in_lock_bracket(2) [OF cli(2)] o(1,3,4) c(1)
      ev_sem.signal_run [OF si]
    by (simp add: push_event_def in_entered_upd Let_def)
  moreover have "queued ?s' = queued s @ [ev]" using q by simp
  moreover have "modifiers ?s' = modifiers s" by (simp only: modifiers_add) (simp add: modifiers_def)
  moreover have "input_ok ?s'"
    using o si q unfolding input_ok_def
    by (simp add: ev_sem.add_idle ev_sem.value_add NEVENTS_def)
  ultimately show ?thesis by blast
qed

lemma pop_run:
  assumes ok: "input_ok s" and q: "queued s = e # q"
  shows "\<exists>s'. pop_event y s = Some (e, s') \<and> input_ok s' \<and> queued s' = q"
proof -
  let ?s1 = "add_value event_sem_update (-1) s"
  let ?s' = "?s1\<lparr>in_front := (in_front s + 1) mod NEVENTS\<rparr>"
  have o: "length (in_events s) = NEVENTS" "in_front s < NEVENTS" "in_rear s < NEVENTS"
    "lock_free (in_lock s)" "sem_idle event_sem s" "sem_value (event_sem s) = int (length (queued s))"
    using ok by (simp_all add: input_ok_def)
  have "yields event_sem y 0 s s" using o(5,6) q by simp
  note w = ev_sem.wait_returns [OF this]
  have cli: "cli_ok ?s1" "cli_ok ?s'" using w(3) by (simp_all add: sem_idle_def cli_ok_def hw_defs)
  have p: "in_rear ?s1 \<noteq> in_front ?s1" "in_events ?s1 ! in_front ?s1 = e" "queued ?s' = q"
    using ring_pop [OF o(2,3), of "in_events s" e q] q by (simp_all add: queued_def)
  have "pop_event y s = Some (e, ?s')"
    using w(1) in_lock_bracket(1) [OF cli(1)] in_lock_bracket(2) [OF cli(2)] o(1,2,4) p
    by (simp add: pop_event_def in_entered_upd Let_def)
  moreover have "input_ok ?s'"
    using o w(3) p(3) q unfolding input_ok_def
    by (simp add: ev_sem.value_add NEVENTS_def)
  ultimately show ?thesis using p(3) by blast
qed


text \<open>The events form a queue of at most 127: in a state in order, pushing an event with
  room left appends it and pops the oldest one first, both leave the locks free and the counting
  semaphore equal to the number of queued events.\<close>
lemma input_fifo:
  assumes "input_ok s"
  shows "(length (queued s) < NEVENTS - 1 \<longrightarrow>
       (\<exists>s'. push_event ev s = Some s' \<and> input_ok s' \<and> queued s' = queued s @ [ev])) \<and>
     (\<forall>e q. queued s = e # q \<longrightarrow> (\<exists>s'. pop_event y s = Some (e, s') \<and> input_ok s' \<and> queued s' = q))"
  using push_run [OF assms] pop_run [OF assms] by blast

definition demo_input :: input_st where
  "demo_input = kmt.extend (kmt.truncate demo_kmt)
     (input_st.fields (spin_init '''') (sem_init ''events'' 0) (sem_init ''irq'' 0)
        (replicate NEVENTS (input_event 0 0 0)) 127 127 0 (0, 0) (0, 0) (0, 0))"

lemma demo_input_sel:
  "in_events demo_input = replicate NEVENTS (input_event 0 0 0)" "in_front demo_input = 127"
  "in_rear demo_input = 127" "in_lock demo_input = spin_init ''''" "event_sem demo_input = sem_init ''events'' 0"
  "cur_cpu demo_input = 0" "current demo_input = current demo_kmt" "cpu_cli demo_input = cpu_cli demo_kmt"
  "intr_on demo_input = intr_on demo_kmt" "shift_down demo_input = (0, 0)" "ctrl_down demo_input = (0, 0)"
  "alt_down demo_input = (0, 0)" "capslock demo_input = 0"
  by (simp_all add: demo_input_def kmt.defs input_st.defs demo_kmt_def)

lemma demo_input_ok: "input_ok demo_input"
  by (simp add: input_ok_def demo_input_sel queued_def ring_count_def NEVENTS_def sem_idle_def
      lock_of_def sem_init_def lock_free_init cli_ok_def hw_defs cur_addr_def demo_kmt_def)

lemma demo_input_empty: "queued demo_input = []"
  by (simp add: queued_def ring_def ring_count_def demo_input_sel NEVENTS_def)

lemma input_fifo_witness:
  "\<exists>s1 s2. push_event (input_event 0 0 97) demo_input = Some s1 \<and> queued s1 = [input_event 0 0 97] \<and>
     pop_event Some s1 = Some (input_event 0 0 97, s2) \<and> queued s2 = []"
proof -
  have "length (queued demo_input) < NEVENTS - 1" by (simp add: demo_input_empty NEVENTS_def)
  then obtain s1 where s1: "push_event (input_event 0 0 97) demo_input = Some s1" "input_ok s1"
    "queued s1 = [input_event 0 0 97]"
    using input_fifo [OF demo_input_ok] demo_input_empty by fastforce
  then obtain s2 where "pop_event Some s1 = Some (input_event 0 0 97, s2)" "queued s2 = []"
    using input_fifo [OF s1(2)] by metis
  then show ?thesis using s1 by blast
qed

section \<open>From key codes to characters\<close>

lemma key_index_less: "k \<in> set xs \<Longrightarrow> key_index k xs < length xs"
  by (induction xs) auto

lemma key_index_inj: "k \<in> set xs \<Longrightarrow> key_index k xs = key_index j xs \<Longrightarrow> j = k"
  by (induction xs) (auto split: if_splits)

lemma length_KEYS: "length KEYS = 82"
  by (simp add: KEYS_def)

lemma KEY_inj: "k \<in> set KEYS \<Longrightarrow> KEY k = KEY j \<longleftrightarrow> j = k"
  using key_index_inj [of k KEYS j] by (auto simp: KEY_def)

lemma KEY_less: "k \<in> set KEYS \<Longrightarrow> KEY k < 256"
  using key_index_less [of k KEYS] by (simp add: KEY_def length_KEYS)

lemma length_table_fold: "length (fold (\<lambda>(k, c) t. t[KEY k := c]) init t) = length t"
  by (induction init arbitrary: t) (auto simp: case_prod_beta)

lemma table_fold:
  "k \<in> set KEYS \<Longrightarrow> length t = 256 \<Longrightarrow>
   fold (\<lambda>(k, c) t. t[KEY k := c]) init t ! KEY k =
     (case map_of (rev init) k of None \<Rightarrow> t ! KEY k | Some c \<Rightarrow> c)"
proof (induction init arbitrary: t)
  case (Cons p init)
  have "(case map_of (rev init) k of None \<Rightarrow> t[KEY (fst p) := snd p] ! KEY k | Some c \<Rightarrow> c) =
      (case map_of (rev (p # init)) k of None \<Rightarrow> t ! KEY k | Some c \<Rightarrow> c)"
    using KEY_inj [OF Cons.prems(1), of "fst p"] KEY_less [OF Cons.prems(1)] Cons.prems(2)
    by (cases p) (auto split: option.split simp: map_add_def)
  then show ?case using Cons by (simp add: case_prod_beta)
qed simp

lemma key_char_table:
  assumes "k \<in> set KEYS"
  shows "key_char (char_table init) (KEY k) =
     Some (case map_of (rev init) k of None \<Rightarrow> 0 | Some c \<Rightarrow> char_int c)"
  using table_fold [OF assms, of "replicate 256 (CHR 0x00)" init] KEY_less [OF assms]
  by (auto simp: key_char_def char_table_def length_table_fold char_int_def byte_of_def split: option.split)

definition letters :: string where "letters = ''ABCDEFGHIJKLMNOPQRSTUVWXYZ''"

lemma letters_in_KEYS: "list_all (\<lambda>c. [c] \<in> set KEYS) letters"
  by (simp add: letters_def KEYS_def)

lemma letter_maps:
  "list_all (\<lambda>c. map_option char_int (map_of (rev keymap_init) [c]) = Some (char_int c + 32) \<and>
     map_of (rev keymap_shift_init) [c] = Some c \<and> 65 \<le> char_int c \<and> char_int c \<le> 90) letters"
  by code_simp

lemma letter_char:
  assumes "c \<in> set letters"
  shows "key_char keymap (KEY [c]) = Some (char_int c + 32)" "key_char keymap_shift (KEY [c]) = Some (char_int c)"
    "65 \<le> char_int c" "char_int c \<le> 90" "[c] \<in> set KEYS"
proof -
  show k: "[c] \<in> set KEYS" using letters_in_KEYS assms by (simp add: list_all_iff)
  have m: "map_option char_int (map_of (rev keymap_init) [c]) = Some (char_int c + 32)"
    "map_of (rev keymap_shift_init) [c] = Some c" "65 \<le> char_int c" "char_int c \<le> 90"
    using letter_maps assms unfolding list_all_iff by blast+
  then show "key_char keymap (KEY [c]) = Some (char_int c + 32)" "key_char keymap_shift (KEY [c]) = Some (char_int c)"
    "65 \<le> char_int c" "char_int c \<le> 90"
    using key_char_table [OF k] by (auto simp: keymap_def keymap_shift_def)
qed

lemma key_code_table:
  "list_all (\<lambda>n. and (0x8000 + of_nat n) 0x8000 \<noteq> (0 :: u32) \<and>
     unat (and (0x8000 + of_nat n) (not 0x8000) :: u32) = n) [0..<256]"
  by code_simp

lemma key_code:
  assumes "k \<in> set KEYS"
  shows "and (0x8000 + of_nat (KEY k)) 0x8000 \<noteq> (0 :: u32)"
    and "unat (and (0x8000 + of_nat (KEY k)) (not 0x8000) :: u32) = KEY k"
  using key_code_table KEY_less [OF assms] unfolding list_all_iff by auto

text \<open>A letter key pressed without Ctrl and Alt queues exactly one event, the small letter, or
  the capital if exactly one of Shift and Caps Lock is in force.\<close>
lemma letter_key:
  assumes ok: "input_ok s" "length (queued s) < NEVENTS - 1" and c: "c \<in> set letters"
    and plain: "is_down (ctrl_down s) = 0" "is_down (alt_down s) = 0" "capslock s \<in> {0, 1}"
  shows "\<exists>s'. input_keydown (0x8000 + of_nat (KEY [c])) s = Some s' \<and> input_ok s' \<and>
     queued s' = queued s @ [\<lparr>ie_ctrl = 0, ie_alt = 0,
       ie_data = (if (is_down (shift_down s) = 1) \<noteq> (capslock s = 1) then char_int c else char_int c + 32)\<rparr>] \<and>
     modifiers s' = modifiers s"
proof -
  note l = letter_char [OF c]
  have ne: "KEY [c] \<noteq> KEY k" if "k \<noteq> [c]" for k using KEY_inj [OF l(5), of k] that by simp
  have press: "input_keydown (0x8000 + of_nat (KEY [c])) s = key_press (KEY [c]) s"
    using key_code [OF l(5)] ne by (simp add: input_keydown_def)
  let ?up = "(is_down (shift_down s) = 1) \<noteq> (capslock s = 1)"
  have sh: "xor (is_down (shift_down s)) (capslock s) = (if ?up then 1 else 0)"
    using plain(3) by (auto simp: is_down_def)
  have "key_press (KEY [c]) s = push_event (input_event 0 0 (if ?up then char_int c else char_int c + 32)) s"
    using plain(1,2) l sh by (simp add: key_press_def Let_def)
  moreover have "input_event 0 0 (if ?up then char_int c else char_int c + 32) =
      \<lparr>ie_ctrl = 0, ie_alt = 0, ie_data = (if ?up then char_int c else char_int c + 32)\<rparr>"
    using l(3,4) by (simp add: input_event_def)
  ultimately show ?thesis using press push_run [OF ok] by metis
qed

lemma letter_key_witness:
  "\<exists>s'. input_keydown (0x8000 + of_nat (KEY ''Q'')) demo_input = Some s' \<and>
     queued s' = [\<lparr>ie_ctrl = 0, ie_alt = 0, ie_data = 113\<rparr>]"
proof -
  have "char_int (CHR ''Q'') = 81" by code_simp
  moreover have "CHR ''Q'' \<in> set letters" by (simp add: letters_def)
  moreover have "length (queued demo_input) < NEVENTS - 1" by (simp add: demo_input_empty NEVENTS_def)
  ultimately show ?thesis
    using letter_key [OF demo_input_ok, of "CHR ''Q''"] by (auto simp: demo_input_sel demo_input_empty is_down_def)
qed

end
