(* ===== verification/Boot.thy ===== *)
theory Boot
  imports Input
begin

text \<open>
  The kernel as a whole: what \<open>trap\<close> does once the handlers of \<open>kmt.c\<close> and
  \<open>input.c\<close> are registered, and \<open>os->init\<close>. The initialisations of the devices and of
  the file systems are arguments; the code addresses of \<open>idle\<close>, \<open>shell_task\<close> and
  \<open>panic_on_return\<close> are arguments too.
\<close>

section \<open>Definitions\<close>

definition kernel_call ::
  "handler \<Rightarrow> irq_ev \<Rightarrow> cpu_context \<Rightarrow> 'a input_st_scheme \<Rightarrow> (cpu_context option \<times> 'a input_st_scheme) option" where
  "kernel_call h ev ctx s = (case h of
       H_context_save \<Rightarrow> do { s \<leftarrow> context_save ctx s; Some (None, s) }
     | H_context_switch \<Rightarrow> do { (c, s) \<leftarrow> context_switch s; Some (Some c, s) }
     | H_input_notify \<Rightarrow> input_notify ev ctx s)"

definition task_size :: u32 where "task_size = 160"

text \<open>\<open>kmt->create(pmm->alloc(sizeof(task_t)), name, entry, arg)\<close> for a list of tasks. The
  code fills in the task without testing the pointer.\<close>

fun create_tasks ::
  "u32 \<Rightarrow> (string \<times> u32 \<times> u32) list \<Rightarrow> 'a kmt_scheme \<Rightarrow> 'a kmt_scheme option" where
  "create_tasks por [] s = Some s"
| "create_tasks por ((name, entry, arg) # ts) s = do {
     (p, s) \<leftarrow> pmm_alloc task_size s;
     Assert (p \<noteq> 0);
     (_, s) \<leftarrow> kmt_create por p name entry arg s;
     create_tasks por ts s }"

definition boot_tasks :: "u32 \<Rightarrow> u32 \<Rightarrow> (string \<times> u32 \<times> u32) list" where
  "boot_tasks idle shell =
     [(''idle-1'', idle, 0), (''idle-2'', idle, 0), (''idle-3'', idle, 0), (''idle-4'', idle, 0),
      (''idle-5'', idle, 0), (''idle-6'', idle, 0), (''idle-7'', idle, 0), (''idle-8'', idle, 0),
      (''shell-1'', shell, 1), (''shell-2'', shell, 2), (''shell-3'', shell, 3), (''shell-4'', shell, 4)]"

definition os_init ::
  "('a kmt_scheme \<Rightarrow> 'a kmt_scheme option) \<Rightarrow> ('a kmt_scheme \<Rightarrow> 'a kmt_scheme option) \<Rightarrow>
   u32 \<Rightarrow> u32 \<Rightarrow> u32 \<Rightarrow> u32 \<Rightarrow> u32 \<Rightarrow> 'a kmt_scheme \<Rightarrow> 'a kmt_scheme option" where
  "os_init dev_init vfs_init heap_start heap_end por idle shell s = do {
     let s = s\<lparr>irq_head := []\<rparr>;
     let s = pmm_init heap_start heap_end s;
     s \<leftarrow> kmt_init s;
     s \<leftarrow> dev_init s;
     s \<leftarrow> vfs_init s;
     let s = s\<lparr>trap_lock := spin_init ''os-trap-lock''\<rparr>;
     create_tasks por (boot_tasks idle shell) s }"

section \<open>A trap switches tasks\<close>

definition save_handler :: irq_handler where
  "save_handler = \<lparr>ih_seq = -10000, ih_event = EVENT_NULL, ih_handler = H_context_save\<rparr>"
definition notify_handler :: irq_handler where
  "notify_handler = \<lparr>ih_seq = 0, ih_event = EVENT_IRQ_IODEV, ih_handler = H_input_notify\<rparr>"
definition switch_handler :: irq_handler where
  "switch_handler = \<lparr>ih_seq = 10000, ih_event = EVENT_NULL, ih_handler = H_context_switch\<rparr>"

lemmas handler_defs = save_handler_def notify_handler_def switch_handler_def

lemma trap_entered_sel [simp]:
  "task_list (trap_lk.entered s) = task_list s" "current (trap_lk.entered s) = current s"
  "task_count (trap_lk.entered s) = task_count s" "cur_cpu (trap_lk.entered s) = cur_cpu s"
  "irq_head (trap_lk.entered s) = irq_head s" "cur_addr (trap_lk.entered s) = cur_addr s"
  "context_lock (trap_lk.entered s) = context_lock s" "task_lock (trap_lk.entered s) = task_lock s"
  for s :: "'a kmt_scheme"
  by (simp_all add: trap_lk.entered_def pushed_def cur_addr_def)

lemma trap_entered_upd:
  "(trap_lk.entered s)\<lparr>current := c\<rparr> = trap_lk.entered (s\<lparr>current := c\<rparr>)"
  "(trap_lk.entered s)\<lparr>task_list := ts\<rparr> = trap_lk.entered (s\<lparr>task_list := ts\<rparr>)"
  for s :: "'a kmt_scheme"
  by (simp_all add: trap_lk.entered_def pushed_def hw_defs)

lemma trap_entered_idle: "kmt_idle s \<Longrightarrow> kmt_idle (trap_lk.entered s)"
  using inside_cli_ok [OF trap_lk.inside_entered [of s]] by (simp add: kmt_idle_def)

lemma trap_entered_sched: "sched_ok (trap_lk.entered s) = sched_ok s" for s :: "'a kmt_scheme"
  by (simp add: sched_ok_def tasks_ok_def)

lemma trap_enter:
  "cli_ok s \<Longrightarrow> lock_free (trap_lock s) \<Longrightarrow> lock_on trap_lock trap_lock_update s = Some (trap_lk.entered s)"
  "cli_ok s \<Longrightarrow> lock_free (trap_lock s) \<Longrightarrow> unlock_on trap_lock trap_lock_update (trap_lk.entered s) = Some s"
  using trap_lk.bracket [of s] by (simp_all add: trap_lk.lock_on_free)

definition saved :: "cpu_context \<Rightarrow> 'a kmt_scheme \<Rightarrow> 'a kmt_scheme" where
  "saved ctx s = s\<lparr>task_list := upd_node (cur_addr s) (\<lambda>t. t\<lparr>t_context := ctx\<rparr>) (task_list s)\<rparr>"

lemma saved_sel [simp]:
  "current (saved ctx s) = current s" "cur_cpu (saved ctx s) = cur_cpu s" "cur_addr (saved ctx s) = cur_addr s"
  "trap_lock (saved ctx s) = trap_lock s"
  by (simp_all add: saved_def cur_addr_def)


definition noted :: "irq_ev \<Rightarrow> 'a input_st_scheme \<Rightarrow> 'a input_st_scheme" where
  "noted ev s = (if ev_event ev = EVENT_IRQ_IODEV then add_value sem_kbdirq_update 1 s else s)"

lemma saved_hw [simp]: "cpu_cli (saved ctx s) = cpu_cli s" "intr_on (saved ctx s) = intr_on s"
  "context_lock (saved ctx s) = context_lock s" "task_lock (saved ctx s) = task_lock s"
  by (simp_all add: saved_def)

lemma noted_sel [simp]:
  "cpu_cli (noted ev s) = cpu_cli s" "intr_on (noted ev s) = intr_on s"
  "task_list (noted ev s) = task_list s" "current (noted ev s) = current s" "cur_cpu (noted ev s) = cur_cpu s"
  "task_count (noted ev s) = task_count s" "cur_addr (noted ev s) = cur_addr s"
  "trap_lock (noted ev s) = trap_lock s" "irq_head (noted ev s) = irq_head s"
  "cli_ok (noted ev s) = cli_ok s" "context_lock (noted ev s) = context_lock s" "task_lock (noted ev s) = task_lock s"
  by (simp_all add: noted_def add_value_def cur_addr_def cli_ok_def hw_defs)

lemma noted_ok: "kmt_idle (noted ev s) = kmt_idle s" "sched_ok (noted ev s) = sched_ok s"
  by (simp_all add: kmt_idle_def sched_ok_def tasks_ok_def)

lemma noted_entered: "noted ev (trap_lk.entered s) = trap_lk.entered (noted ev s)"
  by (simp add: noted_def trap_lk.entered_def pushed_def hw_defs add_value_def)

lemma kbd_entered: "sem_kbdirq (trap_lk.entered s) = sem_kbdirq s"
  by (simp add: trap_lk.entered_def pushed_def)

lemma saved_entered: "saved ctx (trap_lk.entered s) = trap_lk.entered (saved ctx s)"
  by (simp add: saved_def trap_entered_upd)

lemma kbd_saved: "sem_kbdirq (saved ctx s) = sem_kbdirq s"
  by (simp add: saved_def)

lemma notify_run:
  assumes "sem_idle sem_kbdirq s"
  shows "input_notify ev ctx s = Some (None, add_value sem_kbdirq_update 1 s)"
  using kbd_sem.signal_run [OF assms] by (simp add: input_notify_def)

lemma switched_entered: "switched a (trap_lk.entered s) = switched a s"
  by (simp add: switched_def)

lemma map_switched: "map (\<lambda>t. t_context (tn_task t)) (switched a s) = map (\<lambda>t. t_context (tn_task t)) (task_list s)"
  by (simp add: switched_def)

lemma switched_member:
  "u \<in> set (switched a s) \<Longrightarrow> \<exists>v\<in>set (task_list s). tn_addr v = tn_addr u \<and> t_context (tn_task v) = t_context (tn_task u)"
  by (auto simp: switched_def)

lemma trap_run:
  assumes idle: "kmt_idle s" and sched: "sched_ok s" and cur: "cur_addr s \<noteq> 0"
    and tl: "lock_free (trap_lock s)" and kb: "lock_free (lock_of sem_kbdirq s)"
    and ih: "irq_head s = [save_handler, notify_handler, switch_handler]"
  shows "\<exists>t. t \<in> set (task_list (saved ctx s)) \<and> runnable (saved ctx s) t \<and>
     os_trap kernel_call ev ctx s = Some (t_context (tn_task t), (noted ev (saved ctx s))
       \<lparr>task_list := switched (tn_addr t) (saved ctx s), current := (current s)(cur_cpu s := tn_addr t)\<rparr>) \<and>
     sched_ok ((noted ev (saved ctx s))
       \<lparr>task_list := switched (tn_addr t) (saved ctx s), current := (current s)(cur_cpu s := tn_addr t)\<rparr>)"
proof -
  let ?T = "trap_lk.entered"
  let ?s2 = "noted ev (saved ctx s)"
  have cli: "cli_ok s" using idle by (simp add: kmt_idle_def)
  have iT: "kmt_idle (?T s)" "sched_ok (?T s)" "cur_addr (?T s) \<noteq> 0"
    using trap_entered_idle [OF idle] trap_entered_sched [of s] sched cur by simp_all
  note sv = context_save_run [OF iT, of ctx, folded saved_def]
  have s1: "context_save ctx (?T s) = Some (?T (saved ctx s))" using sv(1) by (simp add: saved_entered)
  have "sem_idle sem_kbdirq (?T (saved ctx s))"
    using sv(2) kb cur by (simp add: sem_idle_def kmt_idle_def saved_entered lock_of_def kbd_entered kbd_saved)
  note si = notify_run [OF this]
  have n1: "ev_event ev = EVENT_IRQ_IODEV \<Longrightarrow>
      input_notify ev ctx (?T (saved ctx s)) = Some (None, ?T ?s2)"
    using si [of ev ctx] noted_entered [of ev "saved ctx s"] by (simp add: noted_def)
  have n2: "ev_event ev \<noteq> EVENT_IRQ_IODEV \<Longrightarrow> ?T ?s2 = ?T (saved ctx s)" by (simp add: noted_def)
  have i2: "kmt_idle (?T ?s2)" "sched_ok (?T ?s2)" "cur_addr (?T ?s2) \<noteq> 0"
    using sv(2,3) cur by (simp_all add: saved_entered noted_ok flip: noted_entered)
  obtain i k t where t: "t = task_list (?T ?s2) ! ((i + 1 + k) mod length (task_list (?T ?s2)))"
    "i < length (task_list (?T ?s2))" "runnable (?T ?s2) t"
    "context_switch (?T ?s2) = Some (t_context (tn_task t), (?T ?s2)\<lparr>task_list := switched (tn_addr t) (?T ?s2),
        current := (current (?T ?s2))(cur_cpu (?T ?s2) := tn_addr t)\<rparr>)"
    "sched_ok ((?T ?s2)\<lparr>task_list := switched (tn_addr t) (?T ?s2),
        current := (current (?T ?s2))(cur_cpu (?T ?s2) := tn_addr t)\<rparr>)"
    using switch_next [OF i2] by blast
  let ?s3 = "?s2\<lparr>task_list := switched (tn_addr t) (saved ctx s), current := (current s)(cur_cpu s := tn_addr t)\<rparr>"
  have sw: "switched (tn_addr t) (?T ?s2) = switched (tn_addr t) (saved ctx s)"
    by (simp add: switched_entered) (simp add: switched_def)
  have c: "context_switch (?T ?s2) = Some (t_context (tn_task t), ?T ?s3)"
    using t(4) by (simp add: sw trap_entered_upd)
  have "cli_ok ?s3" "lock_free (trap_lock ?s3)" using cli tl by (simp_all add: cli_ok_def hw_defs)
  then have un: "unlock_on trap_lock trap_lock_update (?T ?s3) = Some ?s3" by (rule trap_enter(2))
  have "os_trap kernel_call ev ctx s = Some (t_context (tn_task t), ?s3)"
    using trap_enter(1) [OF cli tl] s1 n1 n2 c un
    by (cases "ev_event ev = EVENT_IRQ_IODEV")
      (simp_all add: os_trap_def ih kernel_call_def handler_defs)
  moreover have "sched_ok ?s3" using t(5) by (simp add: sw trap_entered_upd trap_entered_sched)
  moreover have "t \<in> set (task_list (saved ctx s))"
    using t(1,2) nth_mem [of "(i + 1 + k) mod length (task_list (?T ?s2))" "task_list (?T ?s2)"]
      mod_less_divisor [of "length (task_list (?T ?s2))" "i + 1 + k"] by fastforce
  moreover have "runnable (saved ctx s) t" using t(3) by (simp add: runnable_def)
  ultimately show ?thesis by blast
qed

lemma switched_keeps: "u \<in> set (task_list s) \<Longrightarrow>
   \<exists>v\<in>set (switched a s). tn_addr v = tn_addr u \<and> t_context (tn_task v) = t_context (tn_task u)"
proof -
  assume u: "u \<in> set (task_list s)"
  define f :: "task_node \<Rightarrow> task_node" where "f w = (if tn_addr w = a
      then w\<lparr>tn_task := (tn_task w)\<lparr>t_state := Working, t_cpu := cur_cpu s\<rparr>\<rparr>
      else if tn_addr w = cur_addr s then w\<lparr>tn_task := (tn_task w)\<lparr>t_state := Free\<rparr>\<rparr> else w)" for w
  have "f u \<in> set (switched a s)" using u by (simp add: switched_def f_def)
  moreover have "tn_addr (f u) = tn_addr u" "t_context (tn_task (f u)) = t_context (tn_task u)"
    by (simp_all add: f_def)
  ultimately show ?thesis by blast
qed

lemma switched_new: "t \<in> set (task_list s) \<Longrightarrow> \<exists>v\<in>set (switched (tn_addr t) s). tn_addr v = tn_addr t \<and>
   t_state (tn_task v) = Working \<and> t_cpu (tn_task v) = cur_cpu s \<and> t_context (tn_task v) = t_context (tn_task t)"
  by (intro bexI [of _ "t\<lparr>tn_task := (tn_task t)\<lparr>t_state := Working, t_cpu := cur_cpu s\<rparr>\<rparr>"]) (simp_all add: switched_def)

text \<open>C6: Every interrupt, exception and yield switches tasks: with the handlers of the kernel
  registered, \<open>trap\<close> stores the interrupted context in the task that was running, counts a
  keyboard interrupt (and nothing else) for the keyboard task, makes a task of this processor the
  working one, and returns exactly that task's stored context; the contexts of all other tasks are
  untouched, and the locks and the scheduler's invariant are in order again.\<close>
theorem trap_switches:
  assumes idle: "kmt_idle s" and sched: "sched_ok s" and cur: "cur_addr s \<noteq> 0"
    and tl: "lock_free (trap_lock s)" and kb: "lock_free (lock_of sem_kbdirq s)"
    and ih: "irq_head s = [save_handler, notify_handler, switch_handler]"
  shows "\<exists>c s'. os_trap kernel_call ev ctx s = Some (c, s') \<and>
     sched_ok s' \<and> kmt_idle s' \<and> lock_free (trap_lock s') \<and>
     (\<exists>t\<in>set (task_list s'). tn_addr t = cur_addr s' \<and> t_state (tn_task t) = Working \<and>
        t_cpu (tn_task t) = cur_cpu s \<and> t_context (tn_task t) = c) \<and>
     (\<exists>t\<in>set (task_list s'). tn_addr t = cur_addr s \<and> t_context (tn_task t) = ctx) \<and>
     (\<forall>t\<in>set (task_list s). tn_addr t \<noteq> cur_addr s \<longrightarrow>
        (\<exists>u\<in>set (task_list s'). tn_addr u = tn_addr t \<and> t_context (tn_task u) = t_context (tn_task t))) \<and>
     map tn_addr (task_list s') = map tn_addr (task_list s) \<and>
     sem_value (sem_kbdirq s') = sem_value (sem_kbdirq s) + (if ev_event ev = EVENT_IRQ_IODEV then 1 else 0)"
proof -
  obtain t where t: "t \<in> set (task_list (saved ctx s))" "runnable (saved ctx s) t"
    "os_trap kernel_call ev ctx s = Some (t_context (tn_task t), (noted ev (saved ctx s))
       \<lparr>task_list := switched (tn_addr t) (saved ctx s), current := (current s)(cur_cpu s := tn_addr t)\<rparr>)"
    "sched_ok ((noted ev (saved ctx s))
       \<lparr>task_list := switched (tn_addr t) (saved ctx s), current := (current s)(cur_cpu s := tn_addr t)\<rparr>)"
    using trap_run [OF assms] by blast
  let ?s' = "(noted ev (saved ctx s))
       \<lparr>task_list := switched (tn_addr t) (saved ctx s), current := (current s)(cur_cpu s := tn_addr t)\<rparr>"
  have cs: "u \<in> set (task_list (saved ctx s)) \<Longrightarrow>
      \<exists>v\<in>set (task_list ?s'). tn_addr v = tn_addr u \<and> t_context (tn_task v) = t_context (tn_task u)" for u
    using switched_keeps [of u "saved ctx s" "tn_addr t"] by simp
  have new: "\<exists>v\<in>set (task_list ?s'). tn_addr v = cur_addr ?s' \<and> t_state (tn_task v) = Working \<and>
        t_cpu (tn_task v) = cur_cpu s \<and> t_context (tn_task v) = t_context (tn_task t)"
    using switched_new [OF t(1)] by (simp add: cur_addr_def)
  obtain u where "u \<in> set (task_list s)" "tn_addr u = cur_addr s" using sched_current [OF sched cur] by blast
  then have "u\<lparr>tn_task := (tn_task u)\<lparr>t_context := ctx\<rparr>\<rparr> \<in> set (task_list (saved ctx s))"
    by (simp add: saved_def upd_node_def)
  from cs [OF this] \<open>tn_addr u = cur_addr s\<close>
  have old: "\<exists>v\<in>set (task_list ?s'). tn_addr v = cur_addr s \<and> t_context (tn_task v) = ctx" by simp
  have other: "\<exists>v\<in>set (task_list ?s'). tn_addr v = tn_addr u \<and> t_context (tn_task v) = t_context (tn_task u)"
    if "u \<in> set (task_list s)" "tn_addr u \<noteq> cur_addr s" for u
  proof (rule cs)
    show "u \<in> set (task_list (saved ctx s))"
      using that by (simp add: saved_def upd_node_def)
  qed
  have "map tn_addr (task_list ?s') = map tn_addr (task_list s)"
    by (simp add: switched_def saved_def upd_node_def)
  moreover have "kmt_idle ?s'"
    using idle by (simp add: kmt_idle_def cli_ok_def hw_defs)
  moreover have "lock_free (trap_lock ?s')" using tl by simp
  moreover have "sem_value (sem_kbdirq ?s') = sem_value (sem_kbdirq s) + (if ev_event ev = EVENT_IRQ_IODEV then 1 else 0)"
    by (simp add: noted_def add_value_def saved_def)
  ultimately show ?thesis using t(3,4) new old other by (intro exI [of _ "t_context (tn_task t)"] exI [of _ ?s']) blast
qed

definition demo_kernel :: input_st where
  "demo_kernel = demo_input\<lparr>irq_head := [save_handler, notify_handler, switch_handler],
     task_list := task_list demo_kmt, task_count := 3\<rparr>"

theorem trap_switches_witness:
  "\<exists>c s'. os_trap kernel_call \<lparr>ev_event = EVENT_IRQ_IODEV, ev_cause = 0, ev_ref = 0\<rparr> zero_context demo_kernel = Some (c, s') \<and>
     sched_ok s' \<and> sem_value (sem_kbdirq s') = 1"
proof -
  have sel: "cur_cpu demo_kernel = 0" "current demo_kernel = current demo_kmt" "cpu_cli demo_kernel = cpu_cli demo_kmt"
    "intr_on demo_kernel = intr_on demo_kmt" "task_list demo_kernel = task_list demo_kmt" "task_count demo_kernel = 3"
    "sem_kbdirq demo_kernel = sem_init ''irq'' 0" "trap_lock demo_kernel = spin_init ''''"
    "context_lock demo_kernel = spin_init ''''" "task_lock demo_kernel = spin_init ''''"
    "irq_head demo_kernel = [save_handler, notify_handler, switch_handler]"
    by (simp_all add: demo_kernel_def demo_input_def kmt.defs input_st.defs demo_kmt_def)
  have "kmt_idle demo_kernel" using demo_idle sel by (simp add: kmt_idle_def cli_ok_def hw_defs lock_free_init demo_kmt_def)
  moreover have "sched_ok demo_kernel" using demo_sched sel by (simp add: sched_ok_def tasks_ok_def demo_kmt_def)
  moreover have "cur_addr demo_kernel \<noteq> 0" using sel by (simp add: cur_addr_def demo_kmt_def)
  moreover have "lock_free (trap_lock demo_kernel)" "lock_free (lock_of sem_kbdirq demo_kernel)"
    using sel by (simp_all add: lock_free_init lock_of_def sem_init_def)
  ultimately show ?thesis
    using trap_switches [of demo_kernel "\<lparr>ev_event = EVENT_IRQ_IODEV, ev_cause = 0, ev_ref = 0\<rparr>" zero_context] sel
    by (fastforce simp: sem_init_def)
qed


section \<open>Booting\<close>

text \<open>The kernel between two steps of its initialisation, with a free block of \<open>k\<close> bytes.\<close>

definition ready :: "'a kmt_scheme \<Rightarrow> seg list \<Rightarrow> nat \<Rightarrow> bool" where
  "ready s ss k \<longleftrightarrow> kmt_idle s \<and> sched_ok s \<and> pmm_ok s ss \<and> nodes_alloc s ss \<and>
     (\<exists>a j. (False, a, j) \<in> set ss \<and> k \<le> j)"

text \<open>A part of the initialisation that takes at most \<open>n\<close> bytes from the heap, starts no task
  and removes none.\<close>

definition boots :: "('a kmt_scheme \<Rightarrow> 'a kmt_scheme option) \<Rightarrow> nat \<Rightarrow> bool" where
  "boots f n \<longleftrightarrow> (\<forall>s ss k. ready s ss (n + k) \<longrightarrow>
     (\<exists>s' ss' ts. f s = Some s' \<and> ready s' ss' k \<and> n_cpu s' = n_cpu s \<and> current s' = current s \<and>
        task_list s' = task_list s @ ts))"

lemma ready_le: "ready s ss k \<Longrightarrow> j \<le> k \<Longrightarrow> ready s ss j"
  unfolding ready_def by (meson le_trans)

lemma pmm_more [simp]:
  "pmm_ok (s\<lparr>trap_lock := l\<rparr>) ss = pmm_ok (s :: 'a kmt_scheme) ss"
  by (simp add: pmm_ok_def heap_ok_def cli_ok_def hw_defs)

lemma ready_trap_lock [simp]: "ready (s\<lparr>trap_lock := l\<rparr>) ss k = ready s ss k"
  by (simp add: ready_def kmt_idle_def sched_ok_def tasks_ok_def nodes_alloc_def cli_ok_def hw_defs)

lemma ready_alloc:
  assumes "ready s ss (unat sz + 12 + k)"
  shows "\<exists>p m h ss'. pmm_alloc sz s = Some (p, s\<lparr>mem := m, pm_head := h\<rparr>) \<and> p \<noteq> 0 \<and>
     ready (s\<lparr>mem := m, pm_head := h\<rparr>) ss' k"
proof -
  obtain a j where r: "kmt_idle s" "sched_ok s" "pmm_ok s ss" "nodes_alloc s ss" "(False, a, j) \<in> set ss"
    "unat sz + 12 + k \<le> j" using assms by (auto simp: ready_def)
  have le: "unat sz + 12 \<le> j" using r(6) by simp
  obtain b m h ss' where b: "pmm_alloc sz s = Some (of_nat b + 12, s\<lparr>mem := m, pm_head := h\<rparr>)"
     "pmm_ok (s\<lparr>mem := m, pm_head := h\<rparr>) ss'" "(of_nat b + 12 :: u32) \<noteq> 0"
     "\<forall>c n. (True, c, n) \<in> set ss \<longrightarrow> (True, c, n) \<in> set ss' \<and> (of_nat c + 12 :: u32) \<noteq> of_nat b + 12"
     "\<exists>c i. (False, c, i) \<in> set ss' \<and> j \<le> i + 12 + unat sz"
    using pmm_alloc_room [OF r(3,5) le] by blast
  obtain c i where c: "(False, c, i) \<in> set ss'" "j \<le> i + 12 + unat sz" using b(5) by blast
  have ki: "k \<le> i" using c(2) r(6) by simp
  have "nodes_alloc (s\<lparr>mem := m, pm_head := h\<rparr>) ss'"
    using r(4) b(4) unfolding nodes_alloc_def by (simp del: split_paired_Ex) blast
  moreover have "sched_ok (s\<lparr>mem := m, pm_head := h\<rparr>)"
    using r(2) by (simp add: sched_ok_def tasks_ok_def)
  ultimately show ?thesis using b(1-3) c(1) ki r(1) unfolding ready_def
    by (intro exI [of _ "of_nat b + 12"] exI [of _ m] exI [of _ h] exI [of _ ss']) auto
qed

definition made :: "'a kmt_scheme \<Rightarrow> nat \<Rightarrow> string \<times> u32 \<times> u32 \<Rightarrow> task_node \<Rightarrow> bool" where
  "made s i x t \<longleftrightarrow> t_name (tn_task t) = fst x \<and> c_eip (t_context (tn_task t)) = fst (snd x) \<and>
     t_cpu (tn_task t) = (length (task_list s) + i) mod n_cpu s \<and> t_state (tn_task t) = Free"

lemma create_ready:
  assumes "ready s ss (8396 + k)" "n_cpu s \<noteq> 0"
  shows "\<exists>s' ss' t. create_tasks por [x] s = Some s' \<and> ready s' ss' k \<and> n_cpu s' = n_cpu s \<and>
     current s' = current s \<and> task_list s' = task_list s @ [t] \<and> made s 0 x t"
proof -
  obtain name entry arg where x: "x = (name, entry, arg)" by (cases x)
  have "ready s ss (unat task_size + 12 + (8224 + k))" using assms(1) by (simp add: task_size_def)
  then obtain p m h ss1 where p: "pmm_alloc task_size s = Some (p, s\<lparr>mem := m, pm_head := h\<rparr>)" "p \<noteq> 0"
    "ready (s\<lparr>mem := m, pm_head := h\<rparr>) ss1 (8224 + k)" using ready_alloc by blast
  let ?s = "s\<lparr>mem := m, pm_head := h\<rparr>"
  obtain a j where r: "kmt_idle ?s" "sched_ok ?s" "pmm_ok ?s ss1" "nodes_alloc ?s ss1" "(False, a, j) \<in> set ss1"
    "8224 + k \<le> j" using p(3) by (auto simp: ready_def)
  have n: "n_cpu ?s \<noteq> 0" using assms(2) by simp
  have j: "8224 \<le> j" using r(6) by simp
  obtain s' t ss' where c: "kmt_create por p name entry arg ?s = Some (0, s')" "task_list s' = task_list ?s @ [t]"
     "current s' = current ?s" "t_name (tn_task t) = name" "t_cpu (tn_task t) = unat (task_count ?s) mod n_cpu ?s"
     "t_state (tn_task t) = Free" "c_eip (t_context (tn_task t)) = entry"
     "kmt_idle s'" "sched_ok s'" "pmm_ok s' ss'" "nodes_alloc s' ss'"
     "s' = ?s\<lparr>mem := mem s', pm_head := pm_head s', task_count := task_count ?s + 1, task_list := task_list ?s @ [t]\<rparr>"
     "\<exists>b i. (False, b, i) \<in> set ss' \<and> j \<le> i + 8224"
    using create_run [OF r(1-4) n r(5) j, of por p name entry arg] by blast
  have cnt: "unat (task_count s) = length (task_list s)" using r(2) by (simp add: sched_ok_def tasks_ok_def)
  obtain b i where b: "(False, b, i) \<in> set ss'" "j \<le> i + 8224" using c(13) by blast
  have "k \<le> i" using b(2) r(6) by simp
  then have "ready s' ss' k" using c(8-11) b(1) unfolding ready_def by blast
  moreover have "n_cpu s' = n_cpu s" by (subst c(12)) simp
  moreover have "made s 0 x t" using c(4-7) cnt by (simp add: made_def x)
  ultimately show ?thesis using p(1,2) c(1-3) by (intro exI [of _ s'] exI [of _ ss'] exI [of _ t]) (simp add: x)
qed

lemma create_tasks_Cons:
  "create_tasks por [x] s = Some s1 \<Longrightarrow> create_tasks por (x # xs) s = create_tasks por xs s1"
  by (cases x) (auto simp: bind_eq_Some_conv split: if_splits)

lemma create_tasks_ready:
  "ready s ss (length xs * 8396 + k) \<Longrightarrow> n_cpu s \<noteq> 0 \<Longrightarrow>
   \<exists>s' ss' ts. create_tasks por xs s = Some s' \<and> ready s' ss' k \<and> n_cpu s' = n_cpu s \<and>
     current s' = current s \<and> task_list s' = task_list s @ ts \<and> length ts = length xs \<and>
     (\<forall>i<length xs. made s i (xs ! i) (ts ! i))"
proof (induction xs arbitrary: s ss)
  case Nil
  then show ?case by (intro exI [of _ s] exI [of _ ss] exI [of _ "[]"]) simp
next
  case (Cons x xs)
  have "ready s ss (8396 + (length xs * 8396 + k))" using Cons.prems(1) by (simp add: algebra_simps)
  then obtain s1 ss1 t where t: "create_tasks por [x] s = Some s1" "ready s1 ss1 (length xs * 8396 + k)"
    "n_cpu s1 = n_cpu s" "current s1 = current s" "task_list s1 = task_list s @ [t]" "made s 0 x t"
    using create_ready [OF _ Cons.prems(2)] by blast
  have n1: "n_cpu s1 \<noteq> 0" using t(3) Cons.prems(2) by simp
  obtain s' ss' ts where r: "create_tasks por xs s1 = Some s'" "ready s' ss' k" "n_cpu s' = n_cpu s1"
     "current s' = current s1" "task_list s' = task_list s1 @ ts" "length ts = length xs"
     "\<forall>i<length xs. made s1 i (xs ! i) (ts ! i)"
    using Cons.IH [OF t(2) n1] by blast
  have "made s i ((x # xs) ! i) ((t # ts) ! i)" if "i < length (x # xs)" for i
    using that t(3,5,6) r(7) by (cases i) (auto simp: made_def)
  then show ?case
    using create_tasks_Cons [OF t(1)] t r
    by (intro exI [of _ s'] exI [of _ ss'] exI [of _ "t # ts"]) simp
qed

lemma ready_on_irq:
  assumes "ready s ss (28 + k)" "sorted (map ih_seq (irq_head s))"
  shows "\<exists>s' ss'. on_irq seq ev h s = Some s' \<and> ready s' ss' k \<and> n_cpu s' = n_cpu s \<and>
     current s' = current s \<and> task_list s' = task_list s \<and> trap_lock s' = trap_lock s \<and>
     irq_head s' = seq_insert \<lparr>ih_seq = seq, ih_event = ev, ih_handler = h\<rparr> (irq_head s)"
proof -
  have "ready s ss (unat irq_handler_size + 12 + k)" using assms(1) by (simp add: irq_handler_size_def)
  then obtain p m f ss' where p: "pmm_alloc irq_handler_size s = Some (p, s\<lparr>mem := m, pm_head := f\<rparr>)" "p \<noteq> 0"
    "ready (s\<lparr>mem := m, pm_head := f\<rparr>) ss' k" using ready_alloc by blast
  let ?h = "\<lparr>ih_seq = seq, ih_event = ev, ih_handler = h\<rparr>"
  let ?s = "s\<lparr>mem := m, pm_head := f, irq_head := seq_insert ?h (irq_head s)\<rparr>"
  have "ready ?s ss' k"
    using p(3) by (simp add: ready_def kmt_idle_def sched_ok_def tasks_ok_def nodes_alloc_def cli_ok_def hw_defs)
  then show ?thesis using on_irq_run [OF p(1,2) assms(2), of seq ev h]
    by (intro exI [of _ ?s] exI [of _ ss']) simp
qed

lemma kmt_init_ready:
  assumes heap: "pmm_ok s [(False, a, 56 + k)]" and n: "cur_cpu s < MAX_CPU" "irq_head s = []"
    and z: "task_count s = 0" "\<forall>c. current s c = 0"
  shows "\<exists>s' ss'. kmt_init s = Some s' \<and> ready s' ss' k \<and> n_cpu s' = n_cpu s \<and> (\<forall>c. current s' c = 0) \<and>
     task_list s' = [] \<and> irq_head s' = [save_handler, switch_handler]"
proof -
  let ?c = "\<lambda>c. if c < MAX_CPU then \<lparr>cli_count = 0, cli_hasIF = 0\<rparr> else cpu_cli s c"
  let ?cur = "\<lambda>c. if c < MAX_CPU then 0 else current s c"
  let ?s = "s\<lparr>task_list := [], cpu_cli := ?c, current := ?cur,
      task_lock := spin_init ''kmt-task-lock'', context_lock := spin_init ''kmt-context-lock''\<rparr>"
  have cli: "cli_ok ?s" using n(1) by (simp add: cli_ok_def hw_defs)
  then have "pmm_ok ?s [(False, a, 56 + k)]" using heap by (simp add: pmm_ok_def heap_ok_def)
  then have "ready ?s [(False, a, 56 + k)] (28 + (28 + k))"
    using cli z by (simp add: ready_def kmt_idle_def lock_free_init sched_ok_def tasks_ok_def nodes_alloc_def)
  from ready_on_irq [OF this, of "-10000" EVENT_NULL H_context_save] n(2)
  obtain s1 ss1 where s1: "on_irq (-10000) EVENT_NULL H_context_save ?s = Some s1" "ready s1 ss1 (28 + k)"
    "n_cpu s1 = n_cpu s" "current s1 = ?cur" "task_list s1 = []" "irq_head s1 = [save_handler]"
    by (auto simp: save_handler_def)
  from ready_on_irq [OF s1(2), of 10000 EVENT_NULL H_context_switch] s1(6)
  obtain s2 ss2 where "on_irq 10000 EVENT_NULL H_context_switch s1 = Some s2" "ready s2 ss2 k"
    "n_cpu s2 = n_cpu s1" "current s2 = current s1" "task_list s2 = task_list s1"
    "irq_head s2 = [save_handler, switch_handler]"
    by (auto simp: handler_defs)
  then show ?thesis using s1 z by (intro exI [of _ s2] exI [of _ ss2]) (simp add: kmt_init_def)
qed

lemma made_boot_tasks:
  assumes "length ts = length (boot_tasks idle shell)" "\<forall>i<length (boot_tasks idle shell). made s i (boot_tasks idle shell ! i) (ts ! i)"
  shows "map (\<lambda>t. t_name (tn_task t)) ts = map fst (boot_tasks idle shell)"
    "map (\<lambda>t. c_eip (t_context (tn_task t))) ts = replicate 8 idle @ replicate 4 shell"
proof -
  show "map (\<lambda>t. t_name (tn_task t)) ts = map fst (boot_tasks idle shell)"
    using assms by (intro nth_equalityI) (auto simp: made_def)
  have "map (\<lambda>t. c_eip (t_context (tn_task t))) ts = map (fst \<circ> snd) (boot_tasks idle shell)"
    using assms by (intro nth_equalityI) (auto simp: made_def)
  also have "\<dots> = replicate 8 idle @ replicate 4 shell"
    by (simp add: boot_tasks_def numeral_eq_Suc)
  finally show "map (\<lambda>t. c_eip (t_context (tn_task t))) ts = replicate 8 idle @ replicate 4 shell" .
qed


lemma boots_nothing: "boots Some 0"
  unfolding boots_def
proof (intro allI impI)
  fix s :: "'a kmt_scheme" and ss k
  assume "ready s ss (0 + k)"
  then show "\<exists>s' ss' ts. Some s = Some s' \<and> ready s' ss' k \<and> n_cpu s' = n_cpu s \<and> current s' = current s \<and>
        task_list s' = task_list s @ ts"
    by (intro exI [of _ s] exI [of _ ss] exI [of _ "[]"]) simp
qed


end
