(* ===== verification/Devices.thy ===== *)
theory Devices
  imports Input Ramdisk KString
begin

text \<open>
  The data of \<open>include/devices.h\<close> and the device table of \<open>devices/dev.c\<close>. A device is
  known by its driver and its number: \<open>dev->ptr\<close> of a terminal is the entry \<open>dev->id\<close> of
  the field \<open>ttys\<close>, of a RAM disk that of \<open>rds\<close>, of the frame buffer and the keyboard the
  fields of the state itself. What the frame buffer driver sends to the video controller is recorded
  in \<open>fb_out\<close>.
\<close>

section \<open>Devices\<close>

datatype devops = Rd_ops | Input_ops | Fb_ops | Tty_ops

record device_t =
  d_name :: string
  d_id :: nat
  d_ops :: devops

section \<open>Frame buffer\<close>

definition TEXTURE_W :: nat where "TEXTURE_W = 8"
definition TEXTURE_H :: nat where "TEXTURE_H = 8"
definition SPRITE_BRK :: nat where "SPRITE_BRK = 0x1000000"

record display_info =
  di_width :: u32
  di_height :: u32
  di_num_displays :: u32
  di_current :: u32
  di_num_textures :: u32
  di_num_sprites :: u32

text \<open>The fields of a sprite have 16, 16, 16, 4 and 12 bits.\<close>

record sprite =
  sp_texture :: nat
  sp_x :: nat
  sp_y :: nat
  sp_display :: nat
  sp_z :: nat

definition sprite :: "nat \<Rightarrow> nat \<Rightarrow> nat \<Rightarrow> nat \<Rightarrow> nat \<Rightarrow> sprite" where
  "sprite tx x y z display = \<lparr>sp_texture = tx mod 65536, sp_x = x mod 65536, sp_y = y mod 65536,
     sp_display = display mod 16, sp_z = z mod 4096\<rparr>"

record fbctl =
  ctl_x :: nat
  ctl_y :: nat
  ctl_w :: nat
  ctl_h :: nat
  ctl_pixels :: "u8 list"

section \<open>Terminals\<close>

record character =
  ch_metadata :: u32
  ch_ch :: char

record tty_queue =
  q_buf :: "char list"
  q_end :: nat
  q_front :: nat
  q_rear :: nat

record tty_t =
  t_lock :: semaphore
  t_cooked :: semaphore
  t_display :: nat
  t_lines :: nat
  t_columns :: nat
  t_size :: nat
  t_buf :: "character list"
  t_end :: nat
  t_cursor :: nat
  t_queue :: tty_queue
  t_dirty :: "nat list"

section \<open>The state of the devices\<close>

record dev_st = input_st +
  devices :: "device_t option list"
  rds :: "nat \<Rightarrow> rd"
  fb_info :: display_info
  fb_textures :: "u8 list"
  fb_sem :: semaphore
  fb_out :: "fbctl list"
  ttys :: "nat \<Rightarrow> tty_t"

text \<open>The search stops at an empty slot of the table, where the code follows \<open>NULL\<close>; the inner
  \<open>None\<close> is the result \<open>NULL\<close>.\<close>

fun dev_lookup :: "string \<Rightarrow> device_t option list \<Rightarrow> device_t option option" where
  "dev_lookup name [] = Some None"
| "dev_lookup name (None # ds) = None"
| "dev_lookup name (Some d # ds) = (if d_name d = name then Some (Some d) else dev_lookup name ds)"

end
