(* ===== verification/Video.thy ===== *)
theory Video
  imports Devices
begin

text \<open>
  The frame buffer driver (\<open>devices/video/video.c\<close>). The textures are kept as bytes, 256 for
  each. The data of a write is one of the three structures that the offset selects; data of another
  kind is undefined. The font \<open>TERM_FONT\<close> and the size of the screen are arguments. The array
  \<open>fb->sprites\<close> is allocated and never used.
\<close>

definition NTEXTURE :: nat where "NTEXTURE = 16384"
definition NSPRITE :: nat where "NSPRITE = 16384"

text \<open>The pixels of one texture: the upper or the lower half of a glyph of 16 rows.\<close>

definition texture_fill :: "bool \<Rightarrow> u8 list \<Rightarrow> u32 \<Rightarrow> u32 \<Rightarrow> u32 list" where
  "texture_fill half bits fg bg = concat (map (\<lambda>y. map (\<lambda>x.
      let bitmask = (if half then bits ! (y + TEXTURE_H) else bits ! y)
      in if drop_bit (7 - x) bitmask AND 1 \<noteq> 0 then fg else bg) [0..<TEXTURE_W]) [0..<TEXTURE_H])"

definition put_texture :: "nat \<Rightarrow> u32 list \<Rightarrow> u8 list \<Rightarrow> u8 list" where
  "put_texture i px txs = put_at (256 * i) (concat (map le32 px)) txs"

definition font_load :: "u8 list \<Rightarrow> u8 list \<Rightarrow> u8 list" where
  "font_load font txs = fold (\<lambda>ch txs.
     put_texture (ch * 2 + 2) (texture_fill True (drop (16 * ch) font) 0xffffff 0)
      (put_texture (ch * 2 + 1) (texture_fill False (drop (16 * ch) font) 0xffffff 0) txs)) [0..<256] txs"

definition fb_init :: "u8 list \<Rightarrow> u32 \<Rightarrow> u32 \<Rightarrow> device_t \<Rightarrow> 'a dev_st_scheme \<Rightarrow> (int \<times> 'a dev_st_scheme) option" where
  "fb_init font width height dev s = do {
     (info, s) \<leftarrow> pmm_alloc 24 s;
     (textures, s) \<leftarrow> pmm_alloc (of_nat (256 * NTEXTURE)) s;
     (sprites, s) \<leftarrow> pmm_alloc (of_nat (8 * NSPRITE)) s;
     Assert (info \<noteq> 0);
     let s = s\<lparr>fb_info := \<lparr>di_width = width, di_height = height, di_num_displays = 8, di_current = 0,
       di_num_textures = of_nat NTEXTURE, di_num_sprites = of_nat NSPRITE\<rparr>\<rparr>;
     let s = s\<lparr>fb_sem := sem_init (d_name dev) 1\<rparr>;
     Assert (textures \<noteq> 0);
     let s = s\<lparr>fb_textures := font_load font (replicate (256 * NTEXTURE) 0)\<rparr>;
     Some (0, s) }"

definition fb_read :: "nat \<Rightarrow> nat \<Rightarrow> 'a dev_st_scheme \<Rightarrow> int \<times> display_info option" where
  "fb_read offset count s =
     (if offset \<noteq> 0 then (0, None)
      else if count \<noteq> 24 then (0, None)
      else (0, Some (fb_info s)))"

datatype fb_data = Fb_info display_info | Fb_bytes "u8 list" | Fb_sprites "sprite list"

text \<open>\<open>sizeof\<close> of the data is the count of the call.\<close>

fun fb_count :: "fb_data \<Rightarrow> nat" where
  "fb_count (Fb_info i) = 24"
| "fb_count (Fb_bytes bs) = length bs"
| "fb_count (Fb_sprites sps) = 8 * length sps"

fun draw_sprites :: "sprite list \<Rightarrow> 'a dev_st_scheme \<Rightarrow> 'a dev_st_scheme option" where
  "draw_sprites [] s = Some s"
| "draw_sprites (sp # sps) s =
     (if 0 < sp_texture sp \<and> of_nat (sp_display sp) = di_current (fb_info s)
      then do {
        Assert (sp_texture sp < NTEXTURE);
        draw_sprites sps (s\<lparr>fb_out := fb_out s @ [\<lparr>ctl_x = sp_x sp, ctl_y = sp_y sp, ctl_w = TEXTURE_W,
          ctl_h = TEXTURE_H, ctl_pixels = bytes_at (256 * sp_texture sp) 256 (fb_textures s)\<rparr>]\<rparr>) }
      else draw_sprites sps s)"

definition fb_store :: "nat \<Rightarrow> fb_data \<Rightarrow> 'a dev_st_scheme \<Rightarrow> 'a dev_st_scheme option" where
  "fb_store offset data s =
     (if offset = 0 then
        (case data of Fb_info info \<Rightarrow>
            Some (if di_current (fb_info s) \<noteq> di_current info
              then s\<lparr>fb_info := (fb_info s)\<lparr>di_current := di_current info\<rparr>\<rparr> else s)
          | _ \<Rightarrow> None)
      else if offset < SPRITE_BRK then
        (case data of Fb_bytes bs \<Rightarrow> do {
            Assert (offset + length bs \<le> length (fb_textures s));
            Some (s\<lparr>fb_textures := put_at offset bs (fb_textures s)\<rparr>) }
          | _ \<Rightarrow> None)
      else (case data of Fb_sprites sps \<Rightarrow> draw_sprites sps s | _ \<Rightarrow> None))"

definition fb_write ::
  "('a dev_st_scheme \<Rightarrow> 'a dev_st_scheme option) \<Rightarrow> nat \<Rightarrow> fb_data \<Rightarrow> 'a dev_st_scheme \<Rightarrow>
   (int \<times> 'a dev_st_scheme) option" where
  "fb_write yield offset data s = do {
     s \<leftarrow> sem_wait fb_sem fb_sem_update yield s;
     s \<leftarrow> fb_store offset data s;
     s \<leftarrow> sem_signal fb_sem fb_sem_update s;
     Some (int (fb_count data), s) }"

interpretation fb_lk: sem_field fb_sem fb_sem_update
  by unfold_locales simp_all

end
