(* ===== verification/Tty.thy ===== *)
theory Tty
  imports Video
begin

text \<open>
  The terminals (\<open>devices/tty/tty.c\<close>): the line discipline between the keyboard and the readers,
  the screen of characters with its cursor, and the task that feeds the terminals. Pointers into
  \<open>tty->buf\<close> and \<open>q->buf\<close> are indices; an access outside of the array is undefined.
\<close>

definition TTY_COOK_BUF_SZ :: nat where "TTY_COOK_BUF_SZ = 1024"

definition NUL :: char where "NUL = CHR 0x00"

definition tty_char_ctrlD :: char where "tty_char_ctrlD = CHR 0x03"

definition tty_defaultch :: character where
  "tty_defaultch = \<lparr>ch_metadata = 0, ch_ch = NUL\<rparr>"

section \<open>The queue of cooked characters\<close>

definition tty_enqueue :: "char \<Rightarrow> tty_queue \<Rightarrow> tty_queue option" where
  "tty_enqueue ch q = do {
     Assert (q_rear q < length (q_buf q));
     let q = q\<lparr>q_buf := (q_buf q)[q_rear q := ch], q_rear := q_rear q + 1\<rparr>;
     let q = (if q_rear q = q_end q then q\<lparr>q_rear := 0\<rparr> else q);
     Assert (q_rear q \<noteq> q_front q);
     Assert (q_rear q < length (q_buf q));
     Some (q\<lparr>q_buf := (q_buf q)[q_rear q := NUL]\<rparr>) }"

definition tty_pop_back :: "tty_queue \<Rightarrow> (int \<times> tty_queue) option" where
  "tty_pop_back q =
     (if q_front q \<noteq> q_end q
      then do {
        let pos = (if q_rear q = 0 then q_end q else q_rear q);
        Assert (0 < pos \<and> pos - 1 < length (q_buf q));
        if q_buf q ! (pos - 1) \<noteq> NUL
        then Some (0, q\<lparr>q_rear := pos - 1, q_buf := (q_buf q)[pos - 1 := NUL]\<rparr>)
        else Some (1, q) }
      else Some (1, q))"

section \<open>The screen\<close>

definition tty_upd_scrollup :: "tty_t \<Rightarrow> tty_t option" where
  "tty_upd_scrollup t = do {
     let move_sz = t_columns t * (t_lines t - 1);
     Assert (t_columns t + move_sz \<le> length (t_buf t) \<and> t_columns t + move_sz \<le> length (t_dirty t));
     let t = t\<lparr>t_buf := put_at 0 (bytes_at (t_columns t) move_sz (t_buf t)) (t_buf t)\<rparr>;
     let t = t\<lparr>t_dirty := put_at 0 (bytes_at (t_columns t) move_sz (t_dirty t)) (t_dirty t)\<rparr>;
     Assert (t_columns t \<le> t_cursor t);
     let t = t\<lparr>t_cursor := t_cursor t - t_columns t\<rparr>;
     Assert (t_cursor t + t_columns t \<le> length (t_buf t));
     Some (t\<lparr>t_buf := put_at (t_cursor t) (replicate (t_columns t) tty_defaultch) (t_buf t)\<rparr>) }"

definition tty_upd_cr :: "tty_t \<Rightarrow> tty_t option" where
  "tty_upd_cr t = do {
     Assert (t_columns t \<noteq> 0);
     let x = t_cursor t mod t_columns t;
     Some (t\<lparr>t_cursor := t_cursor t - x\<rparr>) }"

definition tty_upd_lf :: "tty_t \<Rightarrow> tty_t" where
  "tty_upd_lf t = t\<lparr>t_cursor := t_cursor t + t_columns t\<rparr>"

definition set_ch :: "nat \<Rightarrow> char \<Rightarrow> tty_t \<Rightarrow> tty_t option" where
  "set_ch i ch t = do {
     Assert (i < length (t_buf t));
     Some (t\<lparr>t_buf := (t_buf t)[i := (t_buf t ! i)\<lparr>ch_ch := ch\<rparr>]\<rparr>) }"

definition tty_upd_backsp :: "tty_t \<Rightarrow> tty_t option" where
  "tty_upd_backsp t =
     (if 0 < t_cursor t
      then do {
        let t = t\<lparr>t_cursor := t_cursor t - 1\<rparr>;
        set_ch (t_cursor t) NUL t }
      else Some t)"

definition tty_upd_putc :: "char \<Rightarrow> tty_t \<Rightarrow> tty_t option" where
  "tty_upd_putc ch t = do {
     t \<leftarrow> set_ch (t_cursor t) ch t;
     Some (t\<lparr>t_cursor := t_cursor t + 1\<rparr>) }"

text \<open>A pointer before the buffer would give a negative index.\<close>

definition tty_mark :: "int \<Rightarrow> tty_t \<Rightarrow> tty_t option" where
  "tty_mark ch t = do {
     Assert (0 \<le> ch \<and> ch < int (length (t_dirty t)));
     Some (t\<lparr>t_dirty := (t_dirty t)[nat ch := 1]\<rparr>) }"

fun tty_mark_list :: "int list \<Rightarrow> tty_t \<Rightarrow> tty_t option" where
  "tty_mark_list [] t = Some t"
| "tty_mark_list (c # cs) t = do { t \<leftarrow> tty_mark c t; tty_mark_list cs t }"

definition tty_mark_line :: "int \<Rightarrow> tty_t \<Rightarrow> tty_t option" where
  "tty_mark_line ch t = do {
     Assert (t_columns t \<noteq> 0);
     let x = ch mod int (t_columns t);
     tty_mark_list (map (\<lambda>i. ch - x + int i) [0..<t_columns t]) t }"

definition tty_mark_all :: "tty_t \<Rightarrow> tty_t option" where
  "tty_mark_all t = tty_mark_list (map int [0..<t_size t]) t"

definition tty_putc :: "char \<Rightarrow> tty_t \<Rightarrow> tty_t option" where
  "tty_putc ch t =
     (if ch = CHR 0x0D then do {
        t \<leftarrow> tty_upd_cr t;
        tty_mark_line (int (t_cursor t)) t }
      else if ch = CHR 0x08 then do {
        t \<leftarrow> tty_upd_backsp t;
        t \<leftarrow> tty_mark (int (t_cursor t)) t;
        tty_mark (int (t_cursor t) + 1) t }
      else if ch = CHR 0x0A then do {
        t \<leftarrow> tty_upd_cr t;
        let t = tty_upd_lf t;
        if t_cursor t = t_end t then do {
          t \<leftarrow> tty_upd_scrollup t;
          tty_mark_all t }
        else do {
          t \<leftarrow> tty_mark_line (int (t_cursor t) - int (t_columns t)) t;
          tty_mark_line (int (t_cursor t)) t } }
      else do {
        t \<leftarrow> tty_upd_putc ch t;
        if t_cursor t = t_end t then do {
          t \<leftarrow> tty_upd_scrollup t;
          tty_mark_all t }
        else do {
          t \<leftarrow> tty_mark (int (t_cursor t) - 1) t;
          tty_mark (int (t_cursor t)) t } })"

fun tty_putcs :: "char list \<Rightarrow> tty_t \<Rightarrow> tty_t option" where
  "tty_putcs [] t = Some t"
| "tty_putcs (c # cs) t = do { t \<leftarrow> tty_putc c t; tty_putcs cs t }"

section \<open>The operations of the device\<close>

text \<open>\<open>i\<close> is the number of the terminal.\<close>

definition upd_tty :: "nat \<Rightarrow> (tty_t \<Rightarrow> tty_t) \<Rightarrow> 'a dev_st_scheme \<Rightarrow> 'a dev_st_scheme" where
  "upd_tty i f s = s\<lparr>ttys := (ttys s)(i := f (ttys s i))\<rparr>"

definition tty_lock :: "nat \<Rightarrow> 'a dev_st_scheme \<Rightarrow> semaphore" where
  "tty_lock i s = t_lock (ttys s i)"
definition tty_lock_upd :: "nat \<Rightarrow> (semaphore \<Rightarrow> semaphore) \<Rightarrow> 'a dev_st_scheme \<Rightarrow> 'a dev_st_scheme" where
  "tty_lock_upd i f = upd_tty i (t_lock_update f)"
definition tty_cooked :: "nat \<Rightarrow> 'a dev_st_scheme \<Rightarrow> semaphore" where
  "tty_cooked i s = t_cooked (ttys s i)"
definition tty_cooked_upd :: "nat \<Rightarrow> (semaphore \<Rightarrow> semaphore) \<Rightarrow> 'a dev_st_scheme \<Rightarrow> 'a dev_st_scheme" where
  "tty_cooked_upd i f = upd_tty i (t_cooked_update f)"

definition set_queue :: "nat \<Rightarrow> tty_queue \<Rightarrow> 'a dev_st_scheme \<Rightarrow> 'a dev_st_scheme" where
  "set_queue i q = upd_tty i (\<lambda>t. t\<lparr>t_queue := q\<rparr>)"

definition tty_cook ::
  "('a dev_st_scheme \<Rightarrow> 'a dev_st_scheme option) \<Rightarrow> nat \<Rightarrow> char \<Rightarrow> 'a dev_st_scheme \<Rightarrow>
   (int \<times> 'a dev_st_scheme) option" where
  "tty_cook yield i ch s = do {
     s \<leftarrow> sem_wait (tty_lock i) (tty_lock_upd i) yield s;
     let q = t_queue (ttys s i);
     (ret, s) \<leftarrow> (if ch = CHR 0x0A then do {
          q \<leftarrow> tty_enqueue ch q;
          q \<leftarrow> tty_enqueue NUL q;
          s \<leftarrow> sem_signal (tty_cooked i) (tty_cooked_upd i) (set_queue i q s);
          Some (0, s) }
        else if ch = CHR 0x08 then do {
          (ret, q) \<leftarrow> tty_pop_back q;
          Some (ret, set_queue i q s) }
        else do {
          q \<leftarrow> tty_enqueue ch q;
          Some (0, set_queue i q s) });
     s \<leftarrow> sem_signal (tty_lock i) (tty_lock_upd i) s;
     Some (ret, s) }"

text \<open>The cell \<open>k\<close> is at column \<open>x\<close> of line \<open>y\<close>.\<close>

fun render_loop ::
  "('a dev_st_scheme \<Rightarrow> 'a dev_st_scheme option) \<Rightarrow> nat \<Rightarrow> nat \<Rightarrow> (nat \<times> nat) list \<Rightarrow>
   'a dev_st_scheme \<Rightarrow> 'a dev_st_scheme option" where
  "render_loop yield i k [] s = Some s"
| "render_loop yield i k ((y, x) # ps) s = do {
     let t = ttys s i;
     Assert (k < length (t_dirty t) \<and> k < length (t_buf t));
     s \<leftarrow> (if t_dirty t ! k \<noteq> 0
        then do {
          let draw = (if k = t_cursor t then 0xdb else of_char (ch_ch (t_buf t ! k)));
          (_, s) \<leftarrow> fb_write yield SPRITE_BRK
            (Fb_sprites [sprite (draw * 2 + 1) (x * 8) (y * 16) 0 (t_display t),
               sprite (draw * 2 + 2) (x * 8) (y * 16 + 8) 0 (t_display t)]) s;
          Some s }
        else Some s);
     render_loop yield i (k + 1) ps s }"

definition tty_render ::
  "('a dev_st_scheme \<Rightarrow> 'a dev_st_scheme option) \<Rightarrow> nat \<Rightarrow> 'a dev_st_scheme \<Rightarrow> 'a dev_st_scheme option" where
  "tty_render yield i s = do {
     s \<leftarrow> sem_wait (tty_lock i) (tty_lock_upd i) yield s;
     let t = ttys s i;
     s \<leftarrow> render_loop yield i 0 (concat (map (\<lambda>y. map (Pair y) [0..<t_columns t]) [0..<t_lines t])) s;
     sem_signal (tty_lock i) (tty_lock_upd i) s }"

definition tty_init :: "device_t \<Rightarrow> 'a dev_st_scheme \<Rightarrow> (int \<times> 'a dev_st_scheme) option" where
  "tty_init dev s = do {
     fbdev \<leftarrow> dev_lookup ''fb'' (devices s);
     Assert (fbdev \<noteq> None);
     let lns = unat (di_height (fb_info s)) div 16;
     let columns = unat (di_width (fb_info s)) div 8;
     let size = columns * lns;
     (buf, s) \<leftarrow> pmm_alloc (of_nat (size * 8)) s;
     (dirty, s) \<leftarrow> pmm_alloc (of_nat size) s;
     Assert (buf \<noteq> 0 \<and> dirty \<noteq> 0);
     (qbuf, s) \<leftarrow> pmm_alloc (of_nat TTY_COOK_BUF_SZ) s;
     Assert (qbuf \<noteq> 0);
     Some (0, s\<lparr>ttys := (ttys s)(d_id dev :=
       \<lparr>t_lock = sem_init (d_name dev) 1, t_cooked = sem_init ''tty cooked lines'' 0,
        t_display = d_id dev - 1, t_lines = lns, t_columns = columns, t_size = size,
        t_buf = replicate size tty_defaultch, t_end = size, t_cursor = 0,
        t_queue = \<lparr>q_buf = replicate TTY_COOK_BUF_SZ NUL, q_end = TTY_COOK_BUF_SZ, q_front = 0, q_rear = 0\<rparr>,
        t_dirty = replicate size 1\<rparr>)\<rparr>) }"

text \<open>The loop of \<open>tty_read\<close> ends at the first \<open>NUL\<close>; the characters that fit are in the
  reader's buffer.\<close>

partial_function (option) tty_read_loop ::
  "nat \<Rightarrow> tty_queue \<Rightarrow> char list \<Rightarrow> nat \<Rightarrow> (char list \<times> nat \<times> tty_queue) option" where
  "tty_read_loop count q out nread = do {
     Assert (q_front q < length (q_buf q));
     let ch = q_buf q ! q_front q;
     let out = (if nread < count \<and> ch \<noteq> NUL then out @ [ch] else out);
     let q = q\<lparr>q_front := q_front q + 1\<rparr>;
     let q = (if q_front q = q_end q then q\<lparr>q_front := 0\<rparr> else q);
     if ch = NUL then Some (out, nread, q)
     else tty_read_loop count q out (nread + 1) }"

definition tty_read ::
  "('a dev_st_scheme \<Rightarrow> 'a dev_st_scheme option) \<Rightarrow> nat \<Rightarrow> nat \<Rightarrow> 'a dev_st_scheme \<Rightarrow>
   ((int \<times> char list) \<times> 'a dev_st_scheme) option" where
  "tty_read yield i count s = do {
     s \<leftarrow> sem_wait (tty_cooked i) (tty_cooked_upd i) yield s;
     s \<leftarrow> sem_wait (tty_lock i) (tty_lock_upd i) yield s;
     (out, nread, q) \<leftarrow> tty_read_loop count (t_queue (ttys s i)) [] 0;
     s \<leftarrow> sem_signal (tty_lock i) (tty_lock_upd i) (set_queue i q s);
     Some ((int nread, out), s) }"

definition tty_write ::
  "('a dev_st_scheme \<Rightarrow> 'a dev_st_scheme option) \<Rightarrow> nat \<Rightarrow> char list \<Rightarrow> 'a dev_st_scheme \<Rightarrow>
   (int \<times> 'a dev_st_scheme) option" where
  "tty_write yield i cs s = do {
     s \<leftarrow> sem_wait (tty_lock i) (tty_lock_upd i) yield s;
     t \<leftarrow> tty_putcs cs (ttys s i);
     s \<leftarrow> sem_signal (tty_lock i) (tty_lock_upd i) (upd_tty i (\<lambda>_. t) s);
     s \<leftarrow> tty_render yield i s;
     Some (int (length cs), s) }"

section \<open>The terminal task\<close>

text \<open>One round of the loop: an input event goes to the terminal \<open>cur\<close>, or selects another one.
  The messages of \<open>printf\<close> are left out.\<close>

definition tty_named :: "string \<Rightarrow> 'a dev_st_scheme \<Rightarrow> device_t option" where
  "tty_named name s = Option.bind (dev_lookup name (devices s)) (\<lambda>d. d)"

definition tty_switch ::
  "('a dev_st_scheme \<Rightarrow> 'a dev_st_scheme option) \<Rightarrow> int \<Rightarrow> device_t \<Rightarrow> 'a dev_st_scheme \<Rightarrow>
   (device_t \<times> 'a dev_st_scheme) option" where
  "tty_switch yield data cur s = do {
     nxt \<leftarrow> (if data = 49 then tty_named ''tty1'' s else if data = 50 then tty_named ''tty2'' s
       else if data = 51 then tty_named ''tty3'' s else if data = 52 then tty_named ''tty4'' s
       else Some cur);
     if nxt \<noteq> cur then do {
       t \<leftarrow> tty_mark_all (ttys s (d_id nxt));
       let s = upd_tty (d_id nxt) (\<lambda>_. t) s;
       (_, s) \<leftarrow> fb_write yield 0 (Fb_info \<lparr>di_width = 0, di_height = 0, di_num_displays = 0,
         di_current = of_nat (t_display t), di_num_textures = 0, di_num_sprites = 0\<rparr>) s;
       (_, s) \<leftarrow> tty_write yield (d_id nxt) [] s;
       Some (nxt, s) }
     else Some (cur, s) }"

definition tty_event ::
  "('a dev_st_scheme \<Rightarrow> 'a dev_st_scheme option) \<Rightarrow> input_event \<Rightarrow> device_t \<Rightarrow> 'a dev_st_scheme \<Rightarrow>
   (device_t \<times> 'a dev_st_scheme) option" where
  "tty_event yield ev cur s = do {
     let data = (char_of (ie_data ev mod 256) :: char);
     (cur, s) \<leftarrow> (if ie_alt ev \<noteq> 0 then tty_switch yield (ie_data ev) cur s else Some (cur, s));
     s \<leftarrow> (if ie_ctrl ev \<noteq> 0 \<and> ie_data ev = 100
        then do { (_, s) \<leftarrow> tty_cook yield (d_id cur) tty_char_ctrlD s; Some s }
        else Some s);
     if ie_ctrl ev = 0 \<and> ie_alt ev = 0 then do {
       (r, s) \<leftarrow> tty_cook yield (d_id cur) data s;
       s \<leftarrow> (if r = 0 then do { (_, s) \<leftarrow> tty_write yield (d_id cur) [data] s; Some s } else Some s);
       Some (cur, s) }
     else Some (cur, s) }"

definition tty_task_round ::
  "('a dev_st_scheme \<Rightarrow> 'a dev_st_scheme option) \<Rightarrow> device_t \<Rightarrow> 'a dev_st_scheme \<Rightarrow>
   (device_t \<times> 'a dev_st_scheme) option" where
  "tty_task_round yield cur s = do {
     ((nread, ev), s) \<leftarrow> input_read yield 4 s;
     Assert (0 < nread);
     ev \<leftarrow> ev;
     tty_event yield ev cur s }"

definition tty_task_start ::
  "('a dev_st_scheme \<Rightarrow> 'a dev_st_scheme option) \<Rightarrow> 'a dev_st_scheme \<Rightarrow> (device_t \<times> 'a dev_st_scheme) option" where
  "tty_task_start yield s = do {
     _ \<leftarrow> tty_named ''input'' s;
     cur \<leftarrow> tty_named ''tty1'' s;
     s \<leftarrow> tty_render yield (d_id cur) s;
     Some (cur, s) }"

end
