(* ===== verification/TtyQueue.thy ===== *)
theory TtyQueue
  imports Tty
begin

text \<open>
  The line discipline of the terminals: what the readers see of the characters that were typed. The
  abstract state is the list of finished lines and the line that is being edited.
\<close>

section \<open>The abstract line discipline\<close>

type_synonym edited = "char list list \<times> char list"

fun edit :: "char \<Rightarrow> edited \<Rightarrow> edited" where
  "edit c (ls, p) =
     (if c = CHR 0x0A then (ls @ [p], []) else if c = CHR 0x08 then (ls, butlast p) else (ls, p @ [c]))"

text \<open>How the lines lie in the ring buffer: each finished one ends in a newline and a
  \<open>NUL\<close>.\<close>

definition flat :: "edited \<Rightarrow> char list" where
  "flat e = concat (map (\<lambda>l. l @ [CHR 0x0A, NUL]) (fst e)) @ snd e"

definition lines_ok :: "edited \<Rightarrow> bool" where
  "lines_ok e \<longleftrightarrow> (\<forall>l\<in>set (fst e). NUL \<notin> set l) \<and> NUL \<notin> set (snd e)"

definition q_list :: "tty_queue \<Rightarrow> char list" where
  "q_list q = ring (q_end q) (q_buf q) (q_front q) (q_rear q)"

text \<open>The slot before the edited line holds a \<open>NUL\<close>: this is where deleting stops.\<close>

definition q_ok :: "tty_queue \<Rightarrow> bool" where
  "q_ok q \<longleftrightarrow> 1 < q_end q \<and> length (q_buf q) = q_end q \<and> q_front q < q_end q \<and> q_rear q < q_end q"

definition queue_rep :: "tty_queue \<Rightarrow> edited \<Rightarrow> bool" where
  "queue_rep q e \<longleftrightarrow> q_ok q \<and> q_list q = flat e \<and> lines_ok e \<and>
     q_buf q ! ((q_rear q + q_end q - 1 - length (snd e)) mod q_end q) = NUL"

lemma q_list_len: "length (q_list q) = ring_count (q_end q) (q_front q) (q_rear q)"
  by (simp add: q_list_def)

lemma rep_length: "queue_rep q e \<Longrightarrow> length (flat e) < q_end q"
  using ring_count_less [of "q_front q" "q_end q" "q_rear q"] q_list_len [of q]
  by (simp add: queue_rep_def q_ok_def)

lemma len_snd: "length (snd e) \<le> length (flat e)"
  by (simp add: flat_def)

definition next_slot :: "tty_queue \<Rightarrow> nat" where
  "next_slot q = (q_rear q + 1) mod q_end q"

lemma enqueue_run:
  assumes ok: "q_ok q" and room: "length (q_list q) < q_end q - 1"
  shows "\<exists>q'. tty_enqueue c q = Some q' \<and> q_ok q' \<and> q_list q' = q_list q @ [c] \<and>
     q_end q' = q_end q \<and> q_rear q' = next_slot q \<and> q_buf q' = (q_buf q)[q_rear q := c, next_slot q := NUL]"
proof -
  let ?n = "q_end q" and ?r' = "next_slot q"
  have o: "1 < ?n" "length (q_buf q) = ?n" "q_front q < ?n" "q_rear q < ?n" using ok by (simp_all add: q_ok_def)
  have room': "ring_count ?n (q_front q) (q_rear q) < ?n - 1" using room by (simp add: q_list_len)
  have r: "?r' = (if q_rear q + 1 = ?n then 0 else q_rear q + 1)" using o by (simp add: next_slot_def)
  have r': "?r' \<noteq> q_front q" "?r' < ?n" using ring_count_Suc(1) [OF o(3,4) room'] o by (simp_all add: next_slot_def)
  let ?q = "q\<lparr>q_buf := (q_buf q)[q_rear q := c, ?r' := NUL], q_rear := ?r'\<rparr>"
  have "tty_enqueue c q = Some ?q"
    using o r r' by (cases q) (auto simp: tty_enqueue_def Let_def)
  moreover have "q_list ?q = q_list q @ [c]"
    using ring_push [OF o(3,4,2) room', of c, folded next_slot_def]
      ring_free_slot [OF o(3) r'(2), of "(q_buf q)[q_rear q := c]" NUL]
    by (simp add: q_list_def)
  moreover have "q_ok ?q" using o r' by (simp add: q_ok_def)
  ultimately show ?thesis by (intro exI [of _ ?q]) simp
qed

lemma next_less: "q_ok q \<Longrightarrow> next_slot q < q_end q"
  by (simp add: next_slot_def q_ok_def)

lemma sub_slot:
  "k < n \<Longrightarrow> r < n \<Longrightarrow> (r + n - 1 - k) mod n = (if k < r then r - 1 - k else r + n - 1 - k)" for n :: nat
proof (cases "k < r")
  case True
  assume a: "k < n" "r < n"
  have "r + n - 1 - k = (r - 1 - k) + n" using True a by linarith
  then have "(r + n - 1 - k) mod n = (r - 1 - k) mod n" by simp
  also have "\<dots> = r - 1 - k" using a by (intro mod_less) linarith
  finally show ?thesis using True by simp
next
  case False
  assume "k < n" "r < n"
  then show ?thesis using False by simp
qed

lemma back_slot:
  fixes n :: nat
  assumes "k + 1 < n" "r < n"
  shows "((r + 1) mod n + n - 1 - (k + 1)) mod n = (r + n - 1 - k) mod n"
    and "(r + n - 1 - k) mod n \<noteq> r"
    and "((r + n - 1) mod n + n - 1 - k) mod n = (r + n - 1 - (k + 1)) mod n"
proof -
  have m: "(r + 1) mod n = (if r + 1 < n then r + 1 else 0)" "(r + n - 1) mod n = (if 0 < r then r - 1 else n - 1)"
    using assms sub_slot [of 0 n r] by (auto simp: mod_Suc)
  show "((r + 1) mod n + n - 1 - (k + 1)) mod n = (r + n - 1 - k) mod n"
    using sub_slot [of "k + 1" n "(r + 1) mod n"] sub_slot [of k n r] assms unfolding m by (auto split: if_splits)
  show "(r + n - 1 - k) mod n \<noteq> r"
    using sub_slot [of k n r] assms by (auto split: if_splits)
  show "((r + n - 1) mod n + n - 1 - k) mod n = (r + n - 1 - (k + 1)) mod n"
    using sub_slot [of k n "(r + n - 1) mod n"] sub_slot [of "k + 1" n r] assms unfolding m by (auto split: if_splits)
qed

lemma back_next: "r < n \<Longrightarrow> 1 < n \<Longrightarrow> ((r + 1) mod n + n - 1) mod n = r" for n :: nat
  by (cases "r + 1 < n") (auto simp: mod_slot)

lemma rep_enqueue:
  assumes rep: "queue_rep q (ls, p)" and room: "length (flat (ls, p)) < q_end q - 1" and c: "c \<noteq> NUL"
  shows "\<exists>q'. tty_enqueue c q = Some q' \<and> queue_rep q' (ls, p @ [c]) \<and> q_end q' = q_end q"
proof -
  have o: "q_ok q" "q_list q = flat (ls, p)" "lines_ok (ls, p)"
    "q_buf q ! ((q_rear q + q_end q - 1 - length p) mod q_end q) = NUL"
    "1 < q_end q" "length (q_buf q) = q_end q" "q_rear q < q_end q"
    using rep by (simp_all add: queue_rep_def q_ok_def)
  have room': "length (q_list q) < q_end q - 1" "length p + 1 < q_end q"
    using room o(2) len_snd [of "(ls, p)"] by simp_all
  obtain q' where q': "tty_enqueue c q = Some q'" "q_ok q'" "q_list q' = q_list q @ [c]" "q_end q' = q_end q"
    "q_rear q' = next_slot q" "q_buf q' = (q_buf q)[q_rear q := c, next_slot q := NUL]"
    using enqueue_run [OF o(1) room'(1), of c] by blast
  let ?k = "(q_rear q + q_end q - 1 - length p) mod q_end q"
  have "?k \<noteq> q_rear q" "?k < q_end q" using back_slot(2) [OF room'(2) o(7)] o(5) by simp_all
  then have "(q_buf q)[q_rear q := c, next_slot q := NUL] ! ?k = NUL"
    using o(4,6,7) next_less [OF o(1)] by (simp add: nth_list_update)
  then have "queue_rep q' (ls, p @ [c])"
    using q' o c back_slot(1) [OF room'(2) o(7)]
    by (simp add: queue_rep_def flat_def lines_ok_def next_slot_def)
  then show ?thesis using q' by blast
qed

lemma rep_newline:
  assumes rep: "queue_rep q (ls, p)" and room: "length (flat (ls, p)) + 1 < q_end q - 1"
  shows "\<exists>q1 q'. tty_enqueue (CHR 0x0A) q = Some q1 \<and> tty_enqueue NUL q1 = Some q' \<and>
     queue_rep q' (ls @ [p], []) \<and> q_end q' = q_end q"
proof -
  obtain q1 where q1: "tty_enqueue (CHR 0x0A) q = Some q1" "queue_rep q1 (ls, p @ [CHR 0x0A])" "q_end q1 = q_end q"
    using rep_enqueue [OF rep, of "CHR 0x0A"] room by (auto simp: NUL_def)
  have o: "q_ok q1" "q_list q1 = flat (ls, p @ [CHR 0x0A])" "1 < q_end q1" "length (q_buf q1) = q_end q1"
    "q_rear q1 < q_end q1" "lines_ok (ls, p @ [CHR 0x0A])" using q1(2) by (simp_all add: queue_rep_def q_ok_def)
  have room1: "length (q_list q1) < q_end q1 - 1" using o(2) room q1(3) by (simp add: flat_def)
  obtain q' where q': "tty_enqueue NUL q1 = Some q'" "q_ok q'" "q_list q' = q_list q1 @ [NUL]" "q_end q' = q_end q1"
    "q_rear q' = next_slot q1" "q_buf q' = (q_buf q1)[q_rear q1 := NUL, next_slot q1 := NUL]"
    using enqueue_run [OF o(1) room1, of NUL] by blast
  have "(q_rear q' + q_end q' - 1) mod q_end q' = q_rear q1"
    using back_next [OF o(5,3)] q'(4,5) by (simp add: next_slot_def)
  then have "queue_rep q' (ls @ [p], [])"
    using q' o next_less [OF o(1)] by (simp add: queue_rep_def flat_def lines_ok_def nth_list_update)
  then show ?thesis using q1 q' by auto
qed

lemma rep_pop_back:
  assumes rep: "queue_rep q (ls, p)"
  shows "\<exists>q'. tty_pop_back q = Some (if p = [] then 1 else 0, q') \<and> queue_rep q' (ls, butlast p) \<and> q_end q' = q_end q"
proof -
  have o: "q_ok q" "q_list q = flat (ls, p)" "lines_ok (ls, p)"
    "q_buf q ! ((q_rear q + q_end q - 1 - length p) mod q_end q) = NUL"
    "1 < q_end q" "length (q_buf q) = q_end q" "q_front q < q_end q" "q_rear q < q_end q"
    using rep by (simp_all add: queue_rep_def q_ok_def)
  let ?r = "(q_rear q + q_end q - 1) mod q_end q"
  have pos: "(if q_rear q = 0 then q_end q else q_rear q) - 1 = ?r"
    using sub_slot [of 0 "q_end q" "q_rear q"] o(5,8) by auto
  have pos2: "?r < q_end q" using o(5) by simp
  show ?thesis
  proof (cases p rule: rev_cases)
    case Nil
    then have "tty_pop_back q = Some (1, q)" using o pos by (simp add: tty_pop_back_def Let_def)
    then show ?thesis using rep Nil by simp
  next
    case (snoc p' c)
    have "q_list q = flat (ls, p') @ [c]" using o(2) snoc by (simp add: flat_def)
    then have l: "ring (q_end q) (q_buf q) (q_front q) (q_rear q) = flat (ls, p') @ [c]"
      unfolding q_list_def by simp
    note u = ring_unpush [OF o(7,8) l]
    have c: "c \<noteq> NUL" using o(3) snoc by (auto simp: lines_ok_def)
    let ?q = "q\<lparr>q_rear := ?r, q_buf := (q_buf q)[?r := NUL]\<rparr>"
    have "tty_pop_back q = Some (0, ?q)"
      using u(1) c o pos by (auto simp: tty_pop_back_def Let_def)
    moreover have "q_list ?q = flat (ls, p')"
      using u(2) ring_free_slot [OF o(7) pos2, of "q_buf q" NUL] by (simp add: q_list_def)
    moreover have "length p' + 1 < q_end q"
      using rep_length [OF rep] len_snd [of "(ls, p)"] snoc by simp
    then have "(?r + q_end q - 1 - length p') mod q_end q = (q_rear q + q_end q - 1 - length p) mod q_end q"
      using back_slot(3) [OF _ o(8), of "length p'"] snoc by simp
    ultimately have "queue_rep ?q (ls, p')"
      using o snoc pos2 by (simp add: queue_rep_def q_ok_def lines_ok_def nth_list_update)
    then show ?thesis using \<open>tty_pop_back q = Some (0, ?q)\<close> snoc by auto
  qed
qed

section \<open>Reading\<close>

lemma read_loop_line:
  "q_ok q \<Longrightarrow> q_list q = l @ NUL # rest \<Longrightarrow> NUL \<notin> set l \<Longrightarrow>
   \<exists>q'. tty_read_loop count q out nread = Some (out @ take (count - nread) l, nread + length l, q') \<and>
     q_ok q' \<and> q_list q' = rest \<and> q_buf q' = q_buf q \<and> q_rear q' = q_rear q \<and> q_end q' = q_end q"
proof (induction l arbitrary: q out nread)
  case Nil
  have o: "1 < q_end q" "length (q_buf q) = q_end q" "q_front q < q_end q" "q_rear q < q_end q"
    using Nil(1) by (simp_all add: q_ok_def)
  note p = ring_pop [OF o(3,4), of "q_buf q" NUL rest, folded q_list_def, OF Nil(2) [simplified]]
  let ?q = "q\<lparr>q_front := (q_front q + 1) mod q_end q\<rparr>"
  have "tty_read_loop count q out nread = Some (out, nread, ?q)"
    by (subst tty_read_loop.simps) (use p o in \<open>auto simp: Let_def\<close>)
  moreover have "q_ok ?q" "q_list ?q = rest" using o p by (simp_all add: q_ok_def q_list_def)
  ultimately show ?case by (intro exI [of _ ?q]) simp
next
  case (Cons c l)
  have o: "1 < q_end q" "length (q_buf q) = q_end q" "q_front q < q_end q" "q_rear q < q_end q"
    using Cons.prems(1) by (simp_all add: q_ok_def)
  note p = ring_pop [OF o(3,4), of "q_buf q" c "l @ NUL # rest", folded q_list_def, OF Cons.prems(2) [simplified]]
  let ?q = "q\<lparr>q_front := (q_front q + 1) mod q_end q\<rparr>"
  let ?out = "if nread < count then out @ [c] else out"
  have "c \<noteq> NUL" using Cons.prems(3) by auto
  then have step: "tty_read_loop count q out nread = tty_read_loop count ?q ?out (nread + 1)"
    by (subst tty_read_loop.simps) (use p o in \<open>auto simp: Let_def\<close>)
  have "q_ok ?q" "q_list ?q = l @ NUL # rest" "NUL \<notin> set l"
    using o p Cons.prems(3) by (simp_all add: q_ok_def q_list_def)
  from Cons.IH [OF this, of ?out "nread + 1"] show ?case
    unfolding step by (auto simp: take_Cons' Suc_diff_Suc split: nat.split)
qed

lemma rep_read:
  assumes rep: "queue_rep q (l # ls, p)"
  shows "\<exists>q'. tty_read_loop count q [] 0 = Some (take count (l @ [CHR 0x0A]), length l + 1, q') \<and>
     queue_rep q' (ls, p) \<and> q_end q' = q_end q"
proof -
  have "q_ok q" "q_list q = (l @ [CHR 0x0A]) @ NUL # flat (ls, p)" "NUL \<notin> set (l @ [CHR 0x0A])"
    using rep by (simp_all add: queue_rep_def flat_def lines_ok_def NUL_def)
  from read_loop_line [OF this, of count "[]" 0] show ?thesis
    using rep by (auto simp: queue_rep_def lines_ok_def)
qed

end
