(* ===== verification/TtyScreen.thy ===== *)
theory TtyScreen
  imports Tty
begin

text \<open>
  The screen of a terminal: every character written keeps the cursor and all accesses inside the
  screen, everything whose drawing changed is marked dirty, and plain text ends up before the cursor.
\<close>

definition screen_ok :: "tty_t \<Rightarrow> bool" where
  "screen_ok t \<longleftrightarrow> 0 < t_columns t \<and> 0 < t_lines t \<and> 1 < t_size t \<and> t_size t = t_columns t * t_lines t \<and>
     t_end t = t_size t \<and> length (t_buf t) = t_size t \<and> length (t_dirty t) = t_size t \<and> t_cursor t < t_size t"

text \<open>What \<open>tty_render\<close> draws in a cell.\<close>

definition drawn :: "tty_t \<Rightarrow> nat \<Rightarrow> nat" where
  "drawn t k = (if k = t_cursor t then 0xdb else of_char (ch_ch (t_buf t ! k)))"

text \<open>\<open>t'\<close> is \<open>t\<close> after some output, with all changes marked.\<close>

definition marked :: "tty_t \<Rightarrow> tty_t \<Rightarrow> bool" where
  "marked t t' \<longleftrightarrow> (\<forall>k<t_size t. t_dirty t' ! k = 1 \<or> t_dirty t' ! k = t_dirty t ! k \<and> drawn t' k = drawn t k)"

text \<open>The fields that no output changes.\<close>

definition same_tty :: "tty_t \<Rightarrow> tty_t \<Rightarrow> bool" where
  "same_tty t t' \<longleftrightarrow> t_columns t' = t_columns t \<and> t_lines t' = t_lines t \<and> t_size t' = t_size t \<and>
     t_end t' = t_end t \<and> t_queue t' = t_queue t \<and> t_lock t' = t_lock t \<and> t_cooked t' = t_cooked t \<and>
     t_display t' = t_display t"

definition before :: "tty_t \<Rightarrow> char list" where
  "before t = take (t_cursor t) (map ch_ch (t_buf t))"

definition plain :: "char \<Rightarrow> bool" where
  "plain c \<longleftrightarrow> c \<noteq> CHR 0x0D \<and> c \<noteq> CHR 0x08 \<and> c \<noteq> CHR 0x0A"

lemma mark_list_run:
  "(\<forall>c\<in>set cs. 0 \<le> c \<and> c < int (length (t_dirty t))) \<Longrightarrow>
   \<exists>d. tty_mark_list cs t = Some (t\<lparr>t_dirty := d\<rparr>) \<and> length d = length (t_dirty t) \<and>
     (\<forall>k<length d. d ! k = (if int k \<in> set cs then 1 else t_dirty t ! k))"
proof (induction cs arbitrary: t)
  case Nil
  then show ?case by (intro exI [of _ "t_dirty t"]) simp
next
  case (Cons c cs)
  let ?t = "t\<lparr>t_dirty := (t_dirty t)[nat c := 1]\<rparr>"
  have "\<forall>c\<in>set cs. 0 \<le> c \<and> c < int (length (t_dirty ?t))" using Cons.prems by simp
  from Cons.IH [OF this] obtain d where d: "tty_mark_list cs ?t = Some (?t\<lparr>t_dirty := d\<rparr>)"
    "length d = length (t_dirty t)" "\<forall>k<length d. d ! k = (if int k \<in> set cs then 1 else t_dirty ?t ! k)" by auto
  have "\<forall>k<length d. d ! k = (if int k \<in> set (c # cs) then 1 else t_dirty t ! k)"
    using d(2,3) Cons.prems by (auto simp: nth_list_update)
  then show ?case using d Cons.prems by (intro exI [of _ d]) (simp add: tty_mark_def)
qed

lemma mark_run:
  "i < length (t_dirty t) \<Longrightarrow> tty_mark (int i) t = Some (t\<lparr>t_dirty := (t_dirty t)[i := 1]\<rparr>)"
  by (simp add: tty_mark_def)

lemma line_cells:
  assumes "0 < n" "i < n * (m :: nat)"
  shows "i - i mod n + n \<le> n * m" "\<And>j. j < n \<Longrightarrow> i - i mod n + j < n * m"
proof -
  have "i div n < m" using assms by (simp add: less_mult_imp_div_less mult.commute)
  then have "n * (i div n) + n \<le> n * m" using mult_le_mono2 [of "Suc (i div n)" m n] by simp
  then show "i - i mod n + n \<le> n * m" by (simp add: minus_mod_eq_mult_div)
  then show "\<And>j. j < n \<Longrightarrow> i - i mod n + j < n * m" by linarith
qed

lemma mark_line_run:
  assumes "0 < t_columns t" "length (t_dirty t) = t_columns t * m" "i < length (t_dirty t)"
  shows "\<exists>d. tty_mark_line (int i) t = Some (t\<lparr>t_dirty := d\<rparr>) \<and> length d = length (t_dirty t) \<and>
     (\<forall>k<length d. d ! k = (if k div t_columns t = i div t_columns t then 1 else t_dirty t ! k))"
proof -
  let ?n = "t_columns t"
  let ?cs = "map (\<lambda>j. int i - int i mod int ?n + int j) [0..<?n]"
  have "int i - int i mod int ?n = int (i - i mod ?n)" by (simp add: of_nat_mod of_nat_diff)
  then have e: "?cs = map int (map (\<lambda>j. i - i mod ?n + j) [0..<?n])"
    unfolding map_map comp_def of_nat_add by (rule arg_cong)
  have "\<forall>c\<in>set ?cs. 0 \<le> c \<and> c < int (length (t_dirty t))"
  proof
    fix c assume "c \<in> set ?cs"
    then obtain j where "j < ?n" "c = int (i - i mod ?n + j)" unfolding e by auto
    then show "0 \<le> c \<and> c < int (length (t_dirty t))"
      using line_cells(2) [OF assms(1), of i m j] assms(2,3) by (metis of_nat_0_le_iff of_nat_less_iff)
  qed
  from mark_list_run [OF this] obtain d where d: "tty_mark_list ?cs t = Some (t\<lparr>t_dirty := d\<rparr>)"
    "length d = length (t_dirty t)" "\<forall>k<length d. d ! k = (if int k \<in> set ?cs then 1 else t_dirty t ! k)" by blast
  have "int k \<in> set ?cs \<longleftrightarrow> k div ?n = i div ?n" for k
  proof -
    have "int k \<in> set ?cs \<longleftrightarrow> (\<exists>j<?n. k = ?n * (i div ?n) + j)"
      unfolding e by (auto simp: minus_mod_eq_mult_div simp del: of_nat_add)
    also have "\<dots> \<longleftrightarrow> k div ?n = i div ?n"
    proof
      assume "k div ?n = i div ?n"
      then have "k = ?n * (i div ?n) + k mod ?n" by (metis mult_div_mod_eq)
      then show "\<exists>j<?n. k = ?n * (i div ?n) + j" using assms(1) by (metis mod_less_divisor)
    qed (use assms(1) in auto)
    finally show ?thesis .
  qed
  then show ?thesis using d assms(1) by (intro exI [of _ d]) (simp add: tty_mark_line_def Let_def)
qed

lemma mark_all_run:
  assumes "length (t_dirty t) = t_size t"
  shows "tty_mark_all t = Some (t\<lparr>t_dirty := replicate (t_size t) 1\<rparr>)"
proof -
  have "\<forall>c\<in>set (map int [0..<t_size t]). 0 \<le> c \<and> c < int (length (t_dirty t))" using assms by auto
  from mark_list_run [OF this] obtain d where d: "tty_mark_list (map int [0..<t_size t]) t = Some (t\<lparr>t_dirty := d\<rparr>)"
    "length d = length (t_dirty t)" "\<forall>k<length d. d ! k = (if int k \<in> set (map int [0..<t_size t]) then 1 else t_dirty t ! k)"
    by blast
  have "d = replicate (t_size t) 1" using d(2,3) assms by (intro nth_equalityI) auto
  then show ?thesis using d(1) by (simp add: tty_mark_all_def)
qed

text \<open>The screen moves up by a line; \<open>c\<close> is the cursor behind the last cell.\<close>

lemma put_scroll:
  assumes "n + m = length xs"
  shows "put_at 0 (bytes_at n m xs) xs = drop n xs @ drop m xs"
    and "put_at m (replicate n x) (drop n xs @ drop m xs) = drop n xs @ replicate n x"
proof -
  have "length xs - n = m" using assms by simp
  then show "put_at 0 (bytes_at n m xs) xs = drop n xs @ drop m xs" by (simp add: put_at_def bytes_at_def)
  show "put_at m (replicate n x) (drop n xs @ drop m xs) = drop n xs @ replicate n x"
    using assms by (simp add: put_at_def)
qed

lemma scroll_run:
  assumes "0 < t_columns t" "0 < t_lines t" "t_size t = t_columns t * t_lines t" "length (t_buf t) = t_size t"
    "length (t_dirty t) = t_size t" "t_cursor t = t_size t"
  shows "\<exists>d. Option.bind (tty_upd_scrollup t) tty_mark_all = Some (t\<lparr>
     t_cursor := t_size t - t_columns t,
     t_buf := drop (t_columns t) (t_buf t) @ replicate (t_columns t) tty_defaultch, t_dirty := replicate (t_size t) 1\<rparr>)"
proof -
  let ?n = "t_columns t" and ?m = "t_columns t * (t_lines t - 1)"
  have m: "?n + ?m = t_size t" using assms(2,3) by (cases "t_lines t") simp_all
  have e: "t_size t - ?n = ?m" using m by simp
  show ?thesis
    using assms m e put_scroll(1) [of ?n ?m "t_buf t"] put_scroll(2) [of ?n ?m "t_buf t" tty_defaultch] put_scroll(1) [of ?n ?m "t_dirty t"]
    by (simp add: tty_upd_scrollup_def Let_def mark_all_run)
qed


section \<open>One character\<close>

lemma drawn_upd [simp]:
  "drawn (t\<lparr>t_dirty := d\<rparr>) = drawn t"
  by (rule ext) (simp add: drawn_def)

text \<open>The line of the cell that the cursor leaves and of the one it reaches.\<close>

lemma scrolled_ok:
  assumes ok: "screen_ok t" and c: "t_cursor t1 = t_size t" and same: "same_tty t t1"
    and len: "length (t_buf t1) = t_size t" "length (t_dirty t1) = t_size t"
  shows "\<exists>t'. Option.bind (tty_upd_scrollup t1) tty_mark_all = Some t' \<and> screen_ok t' \<and> same_tty t t' \<and>
     marked t t' \<and> t_cursor t' = t_size t - t_columns t \<and>
     before t' = drop (t_columns t) (map ch_ch (t_buf t1))"
proof -
  have o: "0 < t_columns t" "0 < t_lines t" "1 < t_size t" "t_size t = t_columns t * t_lines t" "t_end t = t_size t"
    using ok by (simp_all add: screen_ok_def)
  let ?t = "t1\<lparr>t_cursor := t_size t1 - t_columns t1,
     t_buf := drop (t_columns t1) (t_buf t1) @ replicate (t_columns t1) tty_defaultch,
     t_dirty := replicate (t_size t1) 1\<rparr>"
  have s: "t_columns t1 = t_columns t" "t_lines t1 = t_lines t" "t_size t1 = t_size t" "t_end t1 = t_end t"
    using same by (simp_all add: same_tty_def)
  have "Option.bind (tty_upd_scrollup t1) tty_mark_all = Some ?t"
    using scroll_run [of t1] o s c len by auto
  moreover have le: "t_columns t \<le> t_size t" using o(2,4) by simp
  then have "screen_ok ?t" using o s len by (simp add: screen_ok_def)
  moreover have "same_tty t ?t" using same by (simp add: same_tty_def)
  moreover have "marked t ?t" using s by (simp add: marked_def)
  moreover have "before ?t = drop (t_columns t) (map ch_ch (t_buf t1))"
    using s len by (simp add: before_def drop_map)
  ultimately show ?thesis using s by (intro exI [of _ ?t]) simp
qed

lemma putc_plain:
  assumes ok: "screen_ok t" and ch: "plain ch"
  shows "\<exists>t'. tty_putc ch t = Some t' \<and> screen_ok t' \<and> same_tty t t' \<and> marked t t' \<and>
     (before t' = before t @ [ch] \<or>
      before t' = drop (t_columns t) (before t @ [ch]) \<and> t_cursor t' = t_size t - t_columns t)"
proof -
  let ?c = "t_cursor t"
  have o: "?c < t_size t" "length (t_buf t) = t_size t" "length (t_dirty t) = t_size t" "t_end t = t_size t"
    using ok by (simp_all add: screen_ok_def)
  let ?buf = "(t_buf t)[?c := (t_buf t ! ?c)\<lparr>ch_ch := ch\<rparr>]"
  let ?t1 = "t\<lparr>t_buf := ?buf, t_cursor := ?c + 1\<rparr>"
  have p: "tty_upd_putc ch t = Some ?t1" using o by (simp add: tty_upd_putc_def set_ch_def)
  have nc: "ch \<noteq> CHR 0x0D" "ch \<noteq> CHR 0x08" "ch \<noteq> CHR 0x0A" using ch by (simp_all add: plain_def)
  have b: "take (?c + 1) (map ch_ch ?buf) = before t @ [ch]"
    using o by (simp add: before_def map_update take_Suc_conv_app_nth)
  show ?thesis
  proof (cases "?c + 1 = t_size t")
    case True
    have "same_tty t ?t1" by (simp add: same_tty_def)
    from scrolled_ok [OF ok _ this] True o obtain t' where
      t': "Option.bind (tty_upd_scrollup ?t1) tty_mark_all = Some t'" "screen_ok t'" "same_tty t t'" "marked t t'"
        "t_cursor t' = t_size t - t_columns t" "before t' = drop (t_columns t) (map ch_ch ?buf)" by auto
    have "tty_putc ch t = Some t'" using t'(1) p nc True o(4) by (simp add: tty_putc_def)
    moreover have "map ch_ch ?buf = before t @ [ch]" using b True o(2) by simp
    ultimately show ?thesis using t' by auto
  next
    case False
    let ?t2 = "?t1\<lparr>t_dirty := (t_dirty t)[?c := 1, ?c + 1 := 1]\<rparr>"
    have c: "?c + 1 < t_size t" using False o(1) by simp
    have "tty_mark (int (?c + 1) - 1) ?t1 = Some (?t1\<lparr>t_dirty := (t_dirty t)[?c := 1]\<rparr>)"
      using mark_run [of ?c ?t1] o by simp
    moreover have "tty_mark (int (?c + 1)) (?t1\<lparr>t_dirty := (t_dirty t)[?c := 1]\<rparr>) = Some ?t2"
      using mark_run [of "?c + 1" "?t1\<lparr>t_dirty := (t_dirty t)[?c := 1]\<rparr>"] o c by simp
    ultimately have "tty_putc ch t = Some ?t2"
      using p nc False o(4) by (simp add: tty_putc_def del: of_nat_Suc of_nat_add)
    moreover have "screen_ok ?t2" using ok c by (simp add: screen_ok_def)
    moreover have "same_tty t ?t2" by (simp add: same_tty_def)
    moreover have "marked t ?t2" using o by (auto simp: marked_def drawn_def nth_list_update)
    moreover have "before ?t2 = before t @ [ch]" using b by (simp add: before_def)
    ultimately show ?thesis by blast
  qed
qed

text \<open>The first cell of the cursor's line.\<close>

definition line_start :: "tty_t \<Rightarrow> nat" where
  "line_start t = t_cursor t - t_cursor t mod t_columns t"

lemma line_start:
  assumes "screen_ok t"
  shows "line_start t div t_columns t = t_cursor t div t_columns t" "line_start t < t_size t"
    "line_start t + t_columns t \<le> t_size t"
    "line_start t + t_columns t \<noteq> t_size t \<Longrightarrow> line_start t + t_columns t < t_size t"
proof -
  have o: "t_cursor t < t_size t" "0 < t_columns t" "t_size t = t_columns t * t_lines t"
    using assms by (simp_all add: screen_ok_def)
  show "line_start t div t_columns t = t_cursor t div t_columns t"
    using o(2) by (simp add: line_start_def minus_mod_eq_mult_div)
  show "line_start t < t_size t" using o(1) by (simp add: line_start_def less_imp_diff_less)
  show le: "line_start t + t_columns t \<le> t_size t"
    using line_cells(1) [of "t_columns t" "t_cursor t" "t_lines t"] o by (simp add: line_start_def)
  then show "line_start t + t_columns t \<noteq> t_size t \<Longrightarrow> line_start t + t_columns t < t_size t" by linarith
qed

lemma mark_line_at:
  assumes ok: "screen_ok t" and t1: "t_columns t1 = t_columns t" "length (t_dirty t1) = t_size t" and i: "i < t_size t"
  shows "\<exists>d. tty_mark_line (int i) t1 = Some (t1\<lparr>t_dirty := d\<rparr>) \<and> length d = t_size t \<and>
     (\<forall>k<t_size t. d ! k = (if k div t_columns t = i div t_columns t then 1 else t_dirty t1 ! k))"
proof -
  have "0 < t_columns t1" "length (t_dirty t1) = t_columns t1 * t_lines t" "i < length (t_dirty t1)"
    using assms by (simp_all add: screen_ok_def)
  from mark_line_run [OF this] t1 show ?thesis by fastforce
qed

lemma putc_cr:
  assumes ok: "screen_ok t"
  shows "\<exists>t'. tty_putc (CHR 0x0D) t = Some t' \<and> screen_ok t' \<and> same_tty t t' \<and> marked t t'"
proof -
  let ?t1 = "t\<lparr>t_cursor := line_start t\<rparr>"
  note l = line_start [OF ok]
  have o: "0 < t_columns t" "length (t_dirty t) = t_size t" using ok by (simp_all add: screen_ok_def)
  obtain d where d: "tty_mark_line (int (line_start t)) ?t1 = Some (?t1\<lparr>t_dirty := d\<rparr>)" "length d = t_size t"
    "\<forall>k<t_size t. d ! k = (if k div t_columns t = line_start t div t_columns t then 1 else t_dirty t ! k)"
    using mark_line_at [OF ok, of ?t1 "line_start t"] o l(2) by auto
  let ?t = "?t1\<lparr>t_dirty := d\<rparr>"
  have "tty_upd_cr t = Some ?t1" using o(1) by (simp add: tty_upd_cr_def line_start_def)
  then have "tty_putc (CHR 0x0D) t = Some ?t" using d(1) by (simp add: tty_putc_def)
  moreover have "screen_ok ?t" "same_tty t ?t" using ok d(2) l(2) by (simp_all add: screen_ok_def same_tty_def)
  moreover have "marked t ?t" using d(3) l(1) by (auto simp: marked_def drawn_def)
  ultimately show ?thesis by blast
qed

lemma putc_newline:
  assumes ok: "screen_ok t"
  shows "\<exists>t'. tty_putc (CHR 0x0A) t = Some t' \<and> screen_ok t' \<and> same_tty t t' \<and> marked t t'"
proof -
  let ?n = "t_columns t" and ?c = "line_start t + t_columns t"
  let ?t1 = "t\<lparr>t_cursor := ?c\<rparr>"
  note l = line_start [OF ok]
  have o: "0 < ?n" "length (t_dirty t) = t_size t" "length (t_buf t) = t_size t" "t_end t = t_size t"
    using ok by (simp_all add: screen_ok_def)
  have p: "tty_upd_cr t = Some (t\<lparr>t_cursor := line_start t\<rparr>)" "tty_upd_lf (t\<lparr>t_cursor := line_start t\<rparr>) = ?t1"
    using o(1) by (simp_all add: tty_upd_cr_def tty_upd_lf_def line_start_def)
  show ?thesis
  proof (cases "?c = t_size t")
    case True
    have "same_tty t ?t1" by (simp add: same_tty_def)
    from scrolled_ok [OF ok _ this] True o obtain t' where
      t': "Option.bind (tty_upd_scrollup ?t1) tty_mark_all = Some t'" "screen_ok t'" "same_tty t t'" "marked t t'" by auto
    have "tty_putc (CHR 0x0A) t = Some t'" using t'(1) p True o(4) by (simp add: tty_putc_def)
    then show ?thesis using t' by blast
  next
    case False
    then have c: "?c < t_size t" by (rule l(4))
    obtain d where d: "tty_mark_line (int (line_start t)) ?t1 = Some (?t1\<lparr>t_dirty := d\<rparr>)" "length d = t_size t"
      "\<forall>k<t_size t. d ! k = (if k div ?n = line_start t div ?n then 1 else t_dirty t ! k)"
      using mark_line_at [OF ok, of ?t1 "line_start t"] o l(2) by auto
    obtain e where e: "tty_mark_line (int ?c) (?t1\<lparr>t_dirty := d\<rparr>) = Some (?t1\<lparr>t_dirty := e\<rparr>)" "length e = t_size t"
      "\<forall>k<t_size t. e ! k = (if k div ?n = ?c div ?n then 1 else d ! k)"
      using mark_line_at [OF ok, of "?t1\<lparr>t_dirty := d\<rparr>" ?c] d(2) c by auto
    let ?t = "?t1\<lparr>t_dirty := e\<rparr>"
    have m: "tty_mark_line (int ?c - int ?n) ?t1 = Some (?t1\<lparr>t_dirty := d\<rparr>)" using d(1) by simp
    have "tty_putc (CHR 0x0A) t = Some ?t"
      using m e(1) p False o(4) by (simp add: tty_putc_def Let_def del: of_nat_add)
    moreover have "screen_ok ?t" "same_tty t ?t" using ok e(2) c by (simp_all add: screen_ok_def same_tty_def)
    moreover have "marked t ?t" using e(3) d(3) l(1) by (auto simp: marked_def drawn_def)
    ultimately show ?thesis by blast
  qed
qed

text \<open>The backspace without the marks.\<close>

lemma backsp_run:
  assumes ok: "screen_ok t"
  shows "tty_upd_backsp t = Some (t\<lparr>t_cursor := t_cursor t - 1, t_buf := (if t_cursor t = 0 then t_buf t
     else (t_buf t)[t_cursor t - 1 := (t_buf t ! (t_cursor t - 1))\<lparr>ch_ch := NUL\<rparr>])\<rparr>)"
  using ok by (auto simp: tty_upd_backsp_def set_ch_def Let_def screen_ok_def)

lemma putc_backsp:
  assumes ok: "screen_ok t"
  shows "\<exists>t'. tty_putc (CHR 0x08) t = Some t' \<and> screen_ok t' \<and> same_tty t t' \<and> marked t t'"
proof -
  have o: "t_cursor t < t_size t" "length (t_dirty t) = t_size t" "length (t_buf t) = t_size t" "1 < t_size t"
    using ok by (simp_all add: screen_ok_def)
  define b where "b = (if t_cursor t = 0 then t_buf t
     else (t_buf t)[t_cursor t - 1 := (t_buf t ! (t_cursor t - 1))\<lparr>ch_ch := NUL\<rparr>])"
  have b: "length b = t_size t" "\<And>k. k \<noteq> t_cursor t - 1 \<Longrightarrow> b ! k = t_buf t ! k" using o by (simp_all add: b_def)
  let ?c = "t_cursor t - 1"
  let ?t1 = "t\<lparr>t_cursor := ?c, t_buf := b\<rparr>"
  let ?t = "?t1\<lparr>t_dirty := (t_dirty t)[?c := 1, ?c + 1 := 1]\<rparr>"
  have c: "?c + 1 < t_size t" using o by linarith
  have m: "tty_mark (int ?c) ?t1 = Some (?t1\<lparr>t_dirty := (t_dirty t)[?c := 1]\<rparr>)"
    "tty_mark (int (?c + 1)) (?t1\<lparr>t_dirty := (t_dirty t)[?c := 1]\<rparr>) = Some ?t"
    using mark_run [of ?c ?t1] mark_run [of "?c + 1" "?t1\<lparr>t_dirty := (t_dirty t)[?c := 1]\<rparr>"] c o by simp_all
  have "tty_upd_backsp t = Some ?t1" using backsp_run [OF ok] unfolding b_def by simp
  then have "tty_putc (CHR 0x08) t = Some ?t"
    using m by (simp add: tty_putc_def add.commute)
  moreover have "screen_ok ?t" "same_tty t ?t" using ok b(1) c by (simp_all add: screen_ok_def same_tty_def)
  moreover have "marked t ?t"
    unfolding marked_def
  proof (intro allI impI)
    fix k assume k: "k < t_size t"
    show "t_dirty ?t ! k = 1 \<or> t_dirty ?t ! k = t_dirty t ! k \<and> drawn ?t k = drawn t k"
    proof (cases "k = ?c \<or> k = ?c + 1")
      case True
      then show ?thesis using k o(2) by (auto simp: nth_list_update)
    next
      case False
      then have "k \<noteq> t_cursor t" by linarith
      then show ?thesis using False b(2) by (simp add: drawn_def)
    qed
  qed
  ultimately show ?thesis by blast
qed

section \<open>Text\<close>

lemma putc_ok: "screen_ok t \<Longrightarrow> \<exists>t'. tty_putc ch t = Some t' \<and> screen_ok t' \<and> same_tty t t' \<and> marked t t'"
  using putc_plain [of t ch] putc_cr [of t] putc_newline [of t] putc_backsp [of t]
  by (cases "plain ch") (auto simp: plain_def)

lemma marked_trans: "marked t u \<Longrightarrow> marked u v \<Longrightarrow> t_size u = t_size t \<Longrightarrow> marked t v"
  unfolding marked_def by metis

lemma same_trans: "same_tty t u \<Longrightarrow> same_tty u v \<Longrightarrow> same_tty t v"
  by (simp add: same_tty_def)

lemma putcs_ok:
  "screen_ok t \<Longrightarrow> \<exists>t'. tty_putcs cs t = Some t' \<and> screen_ok t' \<and> same_tty t t' \<and> marked t t'"
proof (induction cs arbitrary: t)
  case Nil
  then show ?case by (simp add: same_tty_def marked_def)
next
  case (Cons c cs)
  obtain u where u: "tty_putc c t = Some u" "screen_ok u" "same_tty t u" "marked t u"
    using putc_ok [OF Cons.prems] by blast
  obtain v where "tty_putcs cs u = Some v" "screen_ok v" "same_tty u v" "marked u v" using Cons.IH [OF u(2)] by blast
  then show ?case using u marked_trans [of t u v] same_trans [of t u v] by (auto simp: same_tty_def)
qed

lemma putcs_append: "tty_putcs (xs @ ys) t = Option.bind (tty_putcs xs t) (tty_putcs ys)"
  by (induction xs arbitrary: t) (auto split: option.split bind_splits)

lemma putcs_plain:
  "screen_ok t \<Longrightarrow> \<forall>c\<in>set cs. plain c \<Longrightarrow> length cs \<le> t_size t - t_columns t \<Longrightarrow> tty_putcs cs t = Some t' \<Longrightarrow>
   \<exists>xs. before t' = xs @ cs"
proof (induction cs arbitrary: t' rule: rev_induct)
  case Nil
  then show ?case by simp
next
  case (snoc c cs)
  obtain u where u: "tty_putcs cs t = Some u" "screen_ok u" "same_tty t u" using putcs_ok [OF snoc.prems(1)] by blast
  obtain xs where xs: "before u = xs @ cs" using snoc u(1) by auto
  have "tty_putc c u = Some t'" using snoc.prems(4) u(1) by (simp add: putcs_append split: bind_splits)
  then have t': "before t' = before u @ [c] \<or>
      before t' = drop (t_columns u) (before u @ [c]) \<and> t_cursor t' = t_size u - t_columns u" "screen_ok t'"
    using putc_plain [OF u(2), of c] snoc.prems(2) by auto
  show ?case
  proof (cases "before t' = before u @ [c]")
    case True
    then show ?thesis using xs by simp
  next
    case False
    then have b: "before t' = drop (t_columns u) (xs @ cs @ [c])" "t_cursor t' = t_size t - t_columns t"
      using t'(1) xs u(3) by (auto simp: same_tty_def)
    have "length (before t') = t_cursor t'" using t'(2) by (simp add: before_def screen_ok_def)
    then have "length (cs @ [c]) \<le> length (drop (t_columns u) (xs @ cs @ [c]))" using b snoc.prems(3) by simp
    then have "t_columns u \<le> length xs" by simp
    then show ?thesis using b(1) by simp
  qed
qed

end
