(* ===== verification/TtyProps.thy ===== *)
theory TtyProps
  imports TtyQueue TtyScreen
begin

text \<open>
  The terminals as devices: the line discipline between the keyboard and the readers, and what a
  write shows on the screen.
\<close>

section \<open>The semaphores of a terminal\<close>

lemmas tty_sem_defs = tty_lock_def tty_lock_upd_def tty_cooked_def tty_cooked_upd_def upd_tty_def

lemma tty_t_upd:
  "t_lock_update (\<lambda>x. x) t = t" "t_cooked_update (\<lambda>x. x) t = t"
  "t\<lparr>t_lock := f (t_lock t)\<rparr> = t_lock_update f t" "t\<lparr>t_cooked := f (t_cooked t)\<rparr> = t_cooked_update f t"
  by (cases t, simp)+

interpretation tty_lk: sem_field "tty_lock i" "tty_lock_upd i" for i
  by unfold_locales (simp_all add: tty_sem_defs tty_t_upd comp_def)

interpretation cooked: sem_field "tty_cooked i" "tty_cooked_upd i" for i
  by unfold_locales (simp_all add: tty_sem_defs tty_t_upd comp_def)

text \<open>Nobody uses the terminal, and its lock is available.\<close>

definition tty_ready :: "nat \<Rightarrow> 'a dev_st_scheme \<Rightarrow> bool" where
  "tty_ready i s \<longleftrightarrow> sem_idle (tty_lock i) s \<and> 0 < sem_value (tty_lock i s) \<and> lock_free (lock_of (tty_cooked i) s)"

lemma ready_cooked: "tty_ready i s \<Longrightarrow> sem_idle (tty_cooked i) s"
  by (simp add: tty_ready_def sem_idle_def)

lemma wait_lock:
  "sem_idle (tty_lock i) s \<Longrightarrow> 0 < sem_value (tty_lock i s) \<Longrightarrow>
   sem_wait (tty_lock i) (tty_lock_upd i) y s = Some (add_value (tty_lock_upd i) (-1) s)"
  using tty_lk.wait_returns(1) [of i y 0 s s] by simp

lemma tty_upd_sel [simp]:
  "current (upd_tty i f s) = current s" "cur_cpu (upd_tty i f s) = cur_cpu s" "intr_on (upd_tty i f s) = intr_on s"
  "cpu_cli (upd_tty i f s) = cpu_cli s" "ttys (upd_tty i f s) i = f (ttys s i)" "fb_sem (upd_tty i f s) = fb_sem s"
  "fb_info (upd_tty i f s) = fb_info s" "fb_out (upd_tty i f s) = fb_out s" "fb_textures (upd_tty i f s) = fb_textures s"
  "upd_tty i f (upd_tty i g s) = upd_tty i (\<lambda>t. f (g t)) s"
  by (simp_all add: upd_tty_def)

lemma add_tty:
  "add_value (tty_lock_upd i) d s = upd_tty i (\<lambda>t. t\<lparr>t_lock := (t_lock t)\<lparr>sem_value := sem_value (t_lock t) + d\<rparr>\<rparr>) s"
  "add_value (tty_cooked_upd i) d s = upd_tty i (\<lambda>t. t\<lparr>t_cooked := (t_cooked t)\<lparr>sem_value := sem_value (t_cooked t) + d\<rparr>\<rparr>) s"
  unfolding add_value_def tty_lock_upd_def tty_cooked_upd_def upd_tty_def
  by (rule arg_cong [where f = "\<lambda>t. s\<lparr>ttys := (ttys s)(i := t)\<rparr>"], cases "ttys s i", simp)+

lemma upd_tty_cong: "f (ttys s i) = g (ttys s i) \<Longrightarrow> upd_tty i f s = upd_tty i g s"
  by (simp add: upd_tty_def)

lemma upd_tty_same: "f (ttys s i) = ttys s i \<Longrightarrow> upd_tty i f s = s"
  by (simp add: upd_tty_def)

lemma tty_idle_upd:
  "t_lock (f (ttys s i)) = t_lock (ttys s i) \<Longrightarrow> sem_idle (tty_lock i) (upd_tty i f s) = sem_idle (tty_lock i) s"
  "t_cooked (f (ttys s i)) = t_cooked (ttys s i) \<Longrightarrow> sem_idle (tty_cooked i) (upd_tty i f s) = sem_idle (tty_cooked i) s"
  by (simp_all add: sem_idle_def cli_ok_def hw_defs cur_addr_def lock_of_def tty_lock_def tty_cooked_def)

text \<open>What an operation does between taking and returning the lock.\<close>

lemma signal_lock:
  assumes "sem_idle (tty_lock i) s" and G: "\<And>t x. G (t\<lparr>t_lock := x\<rparr>) = (G t)\<lparr>t_lock := x\<rparr>"
    and L: "\<And>t. t_lock (G t) = t_lock t"
  shows "sem_signal (tty_lock i) (tty_lock_upd i) (upd_tty i G (add_value (tty_lock_upd i) (-1) s)) = Some (upd_tty i G s)"
proof -
  let ?s1 = "add_value (tty_lock_upd i) (-1) s"
  have "sem_idle (tty_lock i) (upd_tty i G ?s1)"
    using assms(1) tty_idle_upd(1) [of G ?s1 i] by (simp add: L tty_lk.add_idle)
  then have "sem_signal (tty_lock i) (tty_lock_upd i) (upd_tty i G ?s1) = Some (add_value (tty_lock_upd i) 1 (upd_tty i G ?s1))"
    by (rule tty_lk.signal_run)
  also have "add_value (tty_lock_upd i) 1 (upd_tty i G ?s1) = upd_tty i G s"
    unfolding add_tty tty_upd_sel by (rule upd_tty_cong) (simp add: G L flip: G)
  finally show ?thesis .
qed

definition add_cooked :: "int \<Rightarrow> tty_t \<Rightarrow> tty_t" where
  "add_cooked d t = t\<lparr>t_cooked := (t_cooked t)\<lparr>sem_value := sem_value (t_cooked t) + d\<rparr>\<rparr>"

lemma signal_cooked:
  assumes "tty_ready i s"
  shows "sem_signal (tty_cooked i) (tty_cooked_upd i) (set_queue i q (add_value (tty_lock_upd i) (-1) s)) =
     Some (upd_tty i (\<lambda>t. add_cooked 1 (t\<lparr>t_queue := q\<rparr>)) (add_value (tty_lock_upd i) (-1) s))"
proof -
  let ?s = "set_queue i q (add_value (tty_lock_upd i) (-1) s)"
  have "sem_idle (tty_cooked i) (add_value (tty_lock_upd i) (-1) s)"
    using ready_cooked [OF assms] by (simp add: add_tty tty_idle_upd(2))
  then have "sem_idle (tty_cooked i) ?s"
    by (simp add: set_queue_def tty_idle_upd(2))
  then have "sem_signal (tty_cooked i) (tty_cooked_upd i) ?s = Some (add_value (tty_cooked_upd i) 1 ?s)"
    by (rule cooked.signal_run)
  then show ?thesis by (simp add: add_tty(2) set_queue_def add_cooked_def)
qed

section \<open>The line discipline\<close>

text \<open>The state of terminal \<open>i\<close>: its queue holds the finished lines and the edited one, and the
  semaphore \<open>cooked\<close> counts the finished lines.\<close>

definition tty_inv :: "nat \<Rightarrow> edited \<Rightarrow> 'a dev_st_scheme \<Rightarrow> bool" where
  "tty_inv i e s \<longleftrightarrow> tty_ready i s \<and> queue_rep (t_queue (ttys s i)) e \<and> q_end (t_queue (ttys s i)) = TTY_COOK_BUF_SZ \<and>
     sem_value (t_cooked (ttys s i)) = int (length (fst e))"

lemma ready_upd:
  "t_lock (f (ttys s i)) = t_lock (ttys s i) \<Longrightarrow> sem_lock (t_cooked (f (ttys s i))) = sem_lock (t_cooked (ttys s i)) \<Longrightarrow>
   tty_ready i (upd_tty i f s) = tty_ready i s"
  by (simp add: tty_ready_def tty_idle_upd tty_lock_def lock_of_def tty_cooked_def)

lemma inv_upd:
  assumes "tty_inv i e s" "queue_rep q e'" "q_end q = TTY_COOK_BUF_SZ" "length (fst e') = nat (int (length (fst e)) + d)"
    "0 \<le> int (length (fst e)) + d"
  shows "tty_inv i e' (upd_tty i (\<lambda>t. add_cooked d (t\<lparr>t_queue := q\<rparr>)) s)"
  using assms by (simp add: tty_inv_def ready_upd add_cooked_def)

lemma add_cooked_0: "upd_tty i (\<lambda>t. add_cooked 0 (t\<lparr>t_queue := q\<rparr>)) s = set_queue i q s"
  unfolding set_queue_def by (rule upd_tty_cong) (simp add: add_cooked_def)

lemma cook_run:
  assumes inv: "tty_inv i (ls, p) s" and ch: "ch \<noteq> NUL" and room: "length (flat (ls, p)) + 2 < TTY_COOK_BUF_SZ"
  shows "\<exists>s'. tty_cook y i ch s = Some (if ch = CHR 0x08 \<and> p = [] then 1 else 0, s') \<and> tty_inv i (edit ch (ls, p)) s'"
proof -
  let ?q = "t_queue (ttys s i)" and ?s1 = "add_value (tty_lock_upd i) (-1) s"
  have r: "tty_ready i s" "queue_rep ?q (ls, p)" "q_end ?q = TTY_COOK_BUF_SZ" using inv by (simp_all add: tty_inv_def)
  have w: "sem_wait (tty_lock i) (tty_lock_upd i) y s = Some ?s1"
    using r(1) by (intro wait_lock) (simp_all add: tty_ready_def)
  have q1: "t_queue (ttys ?s1 i) = ?q" by (simp add: add_tty)
  have li: "sem_idle (tty_lock i) s" using r(1) by (simp add: tty_ready_def)
  have set_q: "sem_signal (tty_lock i) (tty_lock_upd i) (set_queue i q ?s1) = Some (set_queue i q s)" for q
    unfolding set_queue_def by (rule signal_lock [OF li]) simp_all
  consider "ch = CHR 0x0A" | "ch = CHR 0x08" | "ch \<noteq> CHR 0x0A" "ch \<noteq> CHR 0x08" by blast
  then show ?thesis
  proof cases
    case 1
    obtain qa q' where q': "tty_enqueue (CHR 0x0A) ?q = Some qa" "tty_enqueue NUL qa = Some q'"
      "queue_rep q' (ls @ [p], [])" "q_end q' = q_end ?q"
      using rep_newline [OF r(2)] room r(3) less_diff_conv by fastforce
    have "sem_signal (tty_lock i) (tty_lock_upd i) (upd_tty i (\<lambda>t. add_cooked 1 (t\<lparr>t_queue := q'\<rparr>)) ?s1) =
        Some (upd_tty i (\<lambda>t. add_cooked 1 (t\<lparr>t_queue := q'\<rparr>)) s)"
      by (rule signal_lock [OF li]) (simp_all add: add_cooked_def)
    then have "tty_cook y i ch s = Some (0, upd_tty i (\<lambda>t. add_cooked 1 (t\<lparr>t_queue := q'\<rparr>)) s)"
      using 1 w q1 q' signal_cooked [OF r(1)] by (simp add: tty_cook_def Let_def)
    moreover have "tty_inv i (edit ch (ls, p)) (upd_tty i (\<lambda>t. add_cooked 1 (t\<lparr>t_queue := q'\<rparr>)) s)"
      using inv_upd [OF inv q'(3), of 1] q'(4) r(3) 1 by simp
    ultimately show ?thesis using 1 by simp
  next
    case 2
    obtain q' where q': "tty_pop_back ?q = Some (if p = [] then 1 else 0, q')" "queue_rep q' (ls, butlast p)" "q_end q' = q_end ?q"
      using rep_pop_back [OF r(2)] by blast
    have "tty_cook y i ch s = Some (if p = [] then 1 else 0, set_queue i q' s)"
      using 2 w q1 q'(1) set_q by (simp add: tty_cook_def Let_def)
    moreover have "tty_inv i (edit ch (ls, p)) (set_queue i q' s)"
      using inv_upd [OF inv q'(2), of 0] q'(3) r(3) 2 by (simp add: add_cooked_0)
    ultimately show ?thesis using 2 by simp
  next
    case 3
    obtain q' where q': "tty_enqueue ch ?q = Some q'" "queue_rep q' (ls, p @ [ch])" "q_end q' = q_end ?q"
      using rep_enqueue [OF r(2) _ ch] room r(3) less_diff_conv by fastforce
    have "tty_cook y i ch s = Some (0, set_queue i q' s)"
      using 3 w q1 q'(1) set_q by (simp add: tty_cook_def Let_def)
    moreover have "tty_inv i (edit ch (ls, p)) (set_queue i q' s)"
      using inv_upd [OF inv q'(2), of 0] q'(3) r(3) 3 by (simp add: add_cooked_0)
    ultimately show ?thesis using 3 by simp
  qed
qed

lemma read_run:
  assumes inv: "tty_inv i (l # ls, p) s"
  shows "\<exists>s'. tty_read y i count s = Some ((int (length l) + 1, take count (l @ [CHR 0x0A])), s') \<and> tty_inv i (ls, p) s' \<and>
     (\<exists>f. s' = upd_tty i f s)"
proof -
  let ?q = "t_queue (ttys s i)"
  let ?s0 = "add_value (tty_cooked_upd i) (-1) s"
  let ?s1 = "add_value (tty_lock_upd i) (-1) ?s0"
  have r: "tty_ready i s" "queue_rep ?q (l # ls, p)" "q_end ?q = TTY_COOK_BUF_SZ" "0 < sem_value (t_cooked (ttys s i))"
    using inv by (simp_all add: tty_inv_def)
  have "yields (tty_cooked i) y 0 s s" using ready_cooked [OF r(1)] r(4) by (simp add: tty_cooked_def)
  then have w: "sem_wait (tty_cooked i) (tty_cooked_upd i) y s = Some ?s0" by (rule cooked.wait_returns(1))
  have r0: "tty_ready i ?s0" using r(1) by (simp add: add_tty(2) ready_upd)
  then have li: "sem_idle (tty_lock i) ?s0" by (simp add: tty_ready_def)
  have w1: "sem_wait (tty_lock i) (tty_lock_upd i) y ?s0 = Some ?s1"
    using r0 by (intro wait_lock) (simp_all add: tty_ready_def)
  have q1: "t_queue (ttys ?s1 i) = ?q" by (simp add: add_tty)
  obtain q' where q': "tty_read_loop count ?q [] 0 = Some (take count (l @ [CHR 0x0A]), length l + 1, q')"
    "queue_rep q' (ls, p)" "q_end q' = q_end ?q"
    using rep_read [OF r(2)] by blast
  have "sem_signal (tty_lock i) (tty_lock_upd i) (set_queue i q' ?s1) = Some (set_queue i q' ?s0)"
    unfolding set_queue_def by (rule signal_lock [OF li]) simp_all
  then have "tty_read y i count s = Some ((int (length l) + 1, take count (l @ [CHR 0x0A])), set_queue i q' ?s0)"
    using w w1 q1 q'(1) by (simp add: tty_read_def)
  moreover have "set_queue i q' ?s0 = upd_tty i (\<lambda>t. add_cooked (-1) (t\<lparr>t_queue := q'\<rparr>)) s"
    unfolding add_tty(2) set_queue_def tty_upd_sel by (rule upd_tty_cong) (simp add: add_cooked_def)
  moreover have "tty_inv i (ls, p) (upd_tty i (\<lambda>t. add_cooked (-1) (t\<lparr>t_queue := q'\<rparr>)) s)"
    using inv_upd [OF inv q'(2), of "-1"] q'(3) r(3) by simp
  ultimately show ?thesis by auto
qed

text \<open>C14: The line discipline: whatever was typed so far, with room left in the queue every typed
  character edits the line as the keyboard promises (newline finishes it, backspace deletes the newest
  character and is refused on an empty line, anything else is appended), the number of finished lines is
  the value of the semaphore that readers wait for, and a read takes the oldest finished line with its
  newline, cut at the reader's count but always removed as a whole.\<close>
theorem tty_line_discipline:
  assumes "tty_inv i (ls, p) s"
  shows "(ch \<noteq> NUL \<and> length (flat (ls, p)) + 2 < TTY_COOK_BUF_SZ \<longrightarrow>
       (\<exists>s'. tty_cook y i ch s = Some (if ch = CHR 0x08 \<and> p = [] then 1 else 0, s') \<and> tty_inv i (edit ch (ls, p)) s')) \<and>
     (\<forall>l ls'. ls = l # ls' \<longrightarrow>
       (\<exists>s'. tty_read y i count s = Some ((int (length l) + 1, take count (l @ [CHR 0x0A])), s') \<and> tty_inv i (ls', p) s'))"
  using cook_run [OF assms] read_run [of i _ _ p s y count] assms by blast

section \<open>Drawing\<close>

text \<open>What the frame buffer sends for a sprite, which is nothing when its display is not shown.\<close>

definition sprite_out :: "'a dev_st_scheme \<Rightarrow> sprite \<Rightarrow> fbctl list" where
  "sprite_out s sp = (if of_nat (sp_display sp) = di_current (fb_info s)
     then [\<lparr>ctl_x = sp_x sp, ctl_y = sp_y sp, ctl_w = TEXTURE_W, ctl_h = TEXTURE_H,
        ctl_pixels = bytes_at (256 * sp_texture sp) 256 (fb_textures s)\<rparr>] else [])"

lemma draw_run:
  "\<forall>sp\<in>set sps. 0 < sp_texture sp \<and> sp_texture sp < NTEXTURE \<Longrightarrow>
   draw_sprites sps s = Some (s\<lparr>fb_out := fb_out s @ concat (map (sprite_out s) sps)\<rparr>)"
proof (induction sps arbitrary: s)
  case (Cons sp sps)
  have "sprite_out (s\<lparr>fb_out := f\<rparr>) = sprite_out s" for f by (rule ext) (simp add: sprite_out_def)
  then show ?case using Cons by (simp add: sprite_out_def [of s sp])
qed simp

text \<open>The two halves of the glyph of cell \<open>k\<close>.\<close>

definition halves :: "tty_t \<Rightarrow> nat \<Rightarrow> sprite list" where
  "halves t k =
     [sprite (drawn t k * 2 + 1) (k mod t_columns t * 8) (k div t_columns t * 16) 0 (t_display t),
      sprite (drawn t k * 2 + 2) (k mod t_columns t * 8) (k div t_columns t * 16 + 8) 0 (t_display t)]"

definition glyph :: "'a dev_st_scheme \<Rightarrow> tty_t \<Rightarrow> nat \<Rightarrow> fbctl list" where
  "glyph s t k = concat (map (sprite_out s) (halves t k))"

definition fb_ready :: "'a dev_st_scheme \<Rightarrow> bool" where
  "fb_ready s \<longleftrightarrow> sem_idle fb_sem s \<and> 0 < sem_value (fb_sem s)"

lemma drawn_less: "drawn t k < 256"
  by (simp add: drawn_def of_char_lt_256)

lemma fb_sel [simp]:
  "fb_info (add_value fb_sem_update d s) = fb_info s" "fb_textures (add_value fb_sem_update d s) = fb_textures s"
  "fb_out (add_value fb_sem_update d s) = fb_out s" "ttys (add_value fb_sem_update d s) = ttys s"
  "sem_idle fb_sem (s\<lparr>fb_out := f\<rparr>) = sem_idle fb_sem s"
  by (simp_all add: add_value_def sem_idle_def cli_ok_def hw_defs cur_addr_def lock_of_def)

lemma fb_write_run:
  assumes fb: "fb_ready s" and st: "fb_store off data (add_value fb_sem_update (-1) s) = Some ((add_value fb_sem_update (-1) s)\<lparr>fb_out := f\<rparr>)"
  shows "fb_write y off data s = Some (int (fb_count data), s\<lparr>fb_out := f\<rparr>)"
proof -
  let ?s1 = "add_value fb_sem_update (-1) s"
  have "yields fb_sem y 0 s s" using fb by (simp add: fb_ready_def)
  then have w: "sem_wait fb_sem fb_sem_update y s = Some ?s1" "sem_idle fb_sem ?s1"
    using fb_lk.wait_returns by blast+
  then have "sem_signal fb_sem fb_sem_update (?s1\<lparr>fb_out := f\<rparr>) = Some (add_value fb_sem_update 1 (?s1\<lparr>fb_out := f\<rparr>))"
    by (intro fb_lk.signal_run) simp
  moreover have "add_value fb_sem_update 1 (?s1\<lparr>fb_out := f\<rparr>) = s\<lparr>fb_out := f\<rparr>"
    by (cases "fb_sem s") (simp add: add_value_def)
  ultimately show ?thesis using w(1) st by (simp add: fb_write_def)
qed

lemma fb_store_sprites: "fb_store SPRITE_BRK (Fb_sprites sps) s = draw_sprites sps s"
  by (simp add: fb_store_def SPRITE_BRK_def)

lemma glyph_cong:
  assumes "fb_info s' = fb_info s" "fb_textures s' = fb_textures s"
  shows "glyph s' t k = glyph s t k"
proof -
  have "sprite_out s' = sprite_out s" using assms by (intro ext) (simp add: sprite_out_def)
  then show ?thesis by (simp add: glyph_def)
qed

lemma halves_ok: "\<forall>sp\<in>set (halves t k). 0 < sp_texture sp \<and> sp_texture sp < NTEXTURE"
proof -
  have "(drawn t k * 2 + 1) mod 65536 = drawn t k * 2 + 1" "(drawn t k * 2 + 2) mod 65536 = drawn t k * 2 + 2"
    using drawn_less [of t k] by (intro mod_less, linarith)+
  then show ?thesis
    using drawn_less [of t k] by (auto simp: halves_def sprite_def NTEXTURE_def)
qed

lemma glyph_write:
  assumes "fb_ready s"
  shows "fb_write y SPRITE_BRK (Fb_sprites (halves t k)) s = Some (16, s\<lparr>fb_out := fb_out s @ glyph s t k\<rparr>)"
proof -
  have "fb_store SPRITE_BRK (Fb_sprites (halves t k)) (add_value fb_sem_update (-1) s) =
      Some ((add_value fb_sem_update (-1) s)\<lparr>fb_out := fb_out s @ glyph s t k\<rparr>)"
    using draw_run [OF halves_ok, of t k "add_value fb_sem_update (-1) s"]
      glyph_cong [of "add_value fb_sem_update (-1) s" s t k]
    unfolding fb_store_sprites by (simp add: glyph_def)
  from fb_write_run [OF assms this] show ?thesis by (simp add: halves_def)
qed

definition redraw :: "'a dev_st_scheme \<Rightarrow> tty_t \<Rightarrow> fbctl list" where
  "redraw s t = concat (map (\<lambda>k. if t_dirty t ! k \<noteq> 0 then glyph s t k else []) [0..<t_size t])"

lemma cells: "concat (map (\<lambda>y. map (Pair y) [0..<n]) [0..<m]) = map (\<lambda>k. (k div n, k mod n)) [0..<n * m]"
proof (induction m)
  case (Suc m)
  have "[0..<n * Suc m] = [0..<n * m] @ map (\<lambda>x. n * m + x) [0..<n]"
    using upt_add_eq_append [of 0 "n * m" n] by (simp add: map_add_upt add.commute)
  then show ?case using Suc.IH by (auto simp: comp_def)
qed simp

lemma fb_ready_upd [simp]: "fb_ready (s\<lparr>fb_out := f\<rparr>) = fb_ready s" "fb_ready (upd_tty i g s) = fb_ready s"
  by (simp_all add: fb_ready_def sem_idle_def cli_ok_def hw_defs cur_addr_def lock_of_def)

lemma render_loop_run:
  assumes "length (t_buf t) = t_size t" "length (t_dirty t) = t_size t"
  shows "k \<le> t_size t \<Longrightarrow> ttys s i = t \<Longrightarrow> fb_ready s \<Longrightarrow>
   render_loop y i k (map (\<lambda>k. (k div t_columns t, k mod t_columns t)) [k..<t_size t]) s =
     Some (s\<lparr>fb_out := fb_out s @ concat (map (\<lambda>k. if t_dirty t ! k \<noteq> 0 then glyph s t k else []) [k..<t_size t])\<rparr>)"
proof (induction "t_size t - k" arbitrary: k s)
  case 0
  then show ?case by simp
next
  case (Suc j)
  then have k: "k < t_size t" "j = t_size t - Suc k" "Suc k \<le> t_size t" by linarith+
  have u: "[k..<t_size t] = k # [Suc k..<t_size t]" using k(1) by (rule upt_conv_Cons)
  note ih = Suc.hyps(1) [OF k(2,3)]
  show ?case
  proof (cases "t_dirty t ! k = 0")
    case True
    then show ?thesis using ih [OF Suc.prems(2,3)] Suc.prems(2) k(1) assms unfolding u by simp
  next
    case False
    let ?s = "s\<lparr>fb_out := fb_out s @ glyph s t k\<rparr>"
    have g: "glyph ?s t = glyph s t" by (intro ext glyph_cong) auto
    have w: "(if k = t_cursor t then 0xdb else of_char (ch_ch (t_buf t ! k))) = drawn t k" by (simp add: drawn_def)
    have "ttys ?s i = t" "fb_ready ?s" using Suc.prems by simp_all
    from ih [OF this, unfolded g] show ?thesis
      using glyph_write [OF Suc.prems(3), of y t k] False Suc.prems(2) k(1) assms w unfolding u
      by (simp add: halves_def)
  qed
qed

lemma same_screen:
  "screen_ok (t\<lparr>t_lock := l\<rparr>) = screen_ok t" "before (t\<lparr>t_lock := l\<rparr>) = before t"
  "marked (t\<lparr>t_lock := l\<rparr>) u = marked t u" "marked t (u\<lparr>t_lock := l\<rparr>) = marked t u"
  by (simp_all add: screen_ok_def before_def marked_def drawn_def)

lemma glyph_lock: "glyph s (t\<lparr>t_lock := l\<rparr>) = glyph s t"
  by (rule ext) (simp add: glyph_def halves_def drawn_def)

lemma redraw_lock: "redraw s (t\<lparr>t_lock := l\<rparr>) = redraw s t"
  unfolding redraw_def glyph_lock by simp

lemma redraw_cong:
  "fb_info s' = fb_info s \<Longrightarrow> fb_textures s' = fb_textures s \<Longrightarrow> redraw s' t = redraw s t"
proof -
  assume "fb_info s' = fb_info s" "fb_textures s' = fb_textures s"
  then have "glyph s' t = glyph s t" by (intro ext glyph_cong)
  then show ?thesis by (simp only: redraw_def)
qed

lemma render_run:
  assumes "tty_ready i s" "fb_ready s" "screen_ok (ttys s i)"
  shows "tty_render y i s = Some (s\<lparr>fb_out := fb_out s @ redraw s (ttys s i)\<rparr>)"
proof -
  let ?s1 = "add_value (tty_lock_upd i) (-1) s" and ?t = "ttys s i"
  have w: "sem_wait (tty_lock i) (tty_lock_upd i) y s = Some ?s1"
    using assms(1) by (intro wait_lock) (simp_all add: tty_ready_def)
  have t1: "t_columns (ttys ?s1 i) = t_columns ?t" "t_lines (ttys ?s1 i) = t_lines ?t" "t_size (ttys ?s1 i) = t_size ?t"
    "t_dirty (ttys ?s1 i) = t_dirty ?t" "t_buf (ttys ?s1 i) = t_buf ?t"
    by (simp_all add: add_tty)
  have g: "redraw ?s1 (ttys ?s1 i) = redraw s ?t" "fb_out ?s1 = fb_out s"
    unfolding add_tty tty_upd_sel redraw_lock by (auto intro: redraw_cong)
  have o: "t_size ?t = t_columns ?t * t_lines ?t" "length (t_buf ?t) = t_size ?t" "length (t_dirty ?t) = t_size ?t"
    using assms(3) by (simp_all add: screen_ok_def)
  have "fb_ready ?s1" using assms(2) by (simp add: add_tty)
  then have "render_loop y i 0 (concat (map (\<lambda>y. map (Pair y) [0..<t_columns ?t]) [0..<t_lines ?t])) ?s1 =
      Some (?s1\<lparr>fb_out := fb_out s @ redraw s ?t\<rparr>)"
    using render_loop_run [where t = "ttys ?s1 i" and k = 0 and s = ?s1 and i = i and y = y,
      folded redraw_def, unfolded t1 g, OF o(2,3) le0 refl]
    unfolding cells o(1) [symmetric] by simp
  moreover have "sem_signal (tty_lock i) (tty_lock_upd i) (?s1\<lparr>fb_out := f\<rparr>) = Some (s\<lparr>fb_out := f\<rparr>)" for f
  proof -
    have e: "?s1\<lparr>fb_out := f\<rparr> = upd_tty i (\<lambda>t. t) (add_value (tty_lock_upd i) (-1) (s\<lparr>fb_out := f\<rparr>))"
      by (simp add: add_tty) (simp add: upd_tty_def)
    have "sem_idle (tty_lock i) (s\<lparr>fb_out := f\<rparr>)"
      using assms(1) by (simp add: tty_ready_def sem_idle_def cli_ok_def hw_defs cur_addr_def lock_of_def tty_lock_def)
    from signal_lock [OF this, of "\<lambda>t. t"] show ?thesis unfolding e by (simp add: upd_tty_same)
  qed
  ultimately show ?thesis using w t1 by (simp add: tty_render_def Let_def)
qed

lemma write_run:
  assumes r: "tty_ready i s" "fb_ready s" "screen_ok (ttys s i)"
  shows "\<exists>t'. tty_write y i cs s = Some (int (length cs), (upd_tty i (\<lambda>_. t') s)\<lparr>fb_out := fb_out s @ redraw s t'\<rparr>) \<and>
     screen_ok t' \<and> same_tty (ttys s i) t' \<and> marked (ttys s i) t' \<and>
     ((\<forall>c\<in>set cs. plain c) \<and> length cs \<le> t_size t' - t_columns t' \<longrightarrow> (\<exists>xs. before t' = xs @ cs))"
proof -
  let ?s1 = "add_value (tty_lock_upd i) (-1) s" and ?t = "ttys s i"
  have w: "sem_wait (tty_lock i) (tty_lock_upd i) y s = Some ?s1"
    using r(1) by (intro wait_lock) (simp_all add: tty_ready_def)
  have t1: "ttys ?s1 i = ?t\<lparr>t_lock := (t_lock ?t)\<lparr>sem_value := sem_value (t_lock ?t) - 1\<rparr>\<rparr>" by (simp add: add_tty)
  then have ok1: "screen_ok (ttys ?s1 i)" using r(3) by (simp add: same_screen)
  from putcs_ok [OF ok1, of cs] obtain u where u: "tty_putcs cs (ttys ?s1 i) = Some u" "screen_ok u"
    "same_tty (ttys ?s1 i) u" "marked (ttys ?s1 i) u" by blast
  let ?t' = "u\<lparr>t_lock := t_lock ?t\<rparr>"
  have li: "sem_idle (tty_lock i) (upd_tty i (\<lambda>_. u) ?s1)"
    using r(1) tty_idle_upd(1) [of "\<lambda>_. u" ?s1 i] u(3) tty_lk.add_idle by (auto simp: tty_ready_def same_tty_def)
  have "sem_signal (tty_lock i) (tty_lock_upd i) (upd_tty i (\<lambda>_. u) ?s1) = Some (upd_tty i (\<lambda>_. ?t') s)"
    using tty_lk.signal_run [OF li] u(3) t1 by (simp add: add_tty same_tty_def)
  then have "tty_write y i cs s = Option.bind (tty_render y i (upd_tty i (\<lambda>_. ?t') s)) (\<lambda>s. Some (int (length cs), s))"
    using w u(1) by (simp add: tty_write_def)
  moreover have "tty_ready i (upd_tty i (\<lambda>_. ?t') s)"
    using r(1) u(3) t1 by (simp add: ready_upd same_tty_def)
  then have "tty_render y i (upd_tty i (\<lambda>_. ?t') s) = Some ((upd_tty i (\<lambda>_. ?t') s)\<lparr>fb_out := fb_out s @ redraw s ?t'\<rparr>)"
    using render_run [of i "upd_tty i (\<lambda>_. ?t') s" y] r(2) u(2)
      redraw_cong [of "upd_tty i (\<lambda>_. ?t') s" s ?t']
    by (simp add: same_screen)
  moreover have "same_tty ?t ?t'" using u(3) t1 by (simp add: same_tty_def)
  moreover have "marked ?t ?t'" "screen_ok ?t'" using u(2,4) t1 by (simp_all add: same_screen)
  moreover have "(\<forall>c\<in>set cs. plain c) \<and> length cs \<le> t_size ?t' - t_columns ?t' \<longrightarrow> (\<exists>xs. before ?t' = xs @ cs)"
    using putcs_plain [OF ok1 _ _ u(1)] u(3) by (simp add: same_screen same_tty_def)
  ultimately show ?thesis by (intro exI [of _ ?t']) simp
qed

text \<open>C27: A write to a terminal returns the number of characters and never leaves the screen, whatever
  the characters are and however often the screen scrolls: the cursor stays on it, every cell whose
  drawing changed is marked and all marked cells are sent to the frame buffer as the two halves of their
  glyphs (when the display of the terminal is shown), and plain text that leaves one line free stands
  right before the cursor afterwards.\<close>
theorem tty_write_draws:
  assumes "tty_ready i s" "fb_ready s" "screen_ok (ttys s i)"
  shows "\<exists>t'. tty_write y i cs s = Some (int (length cs), (upd_tty i (\<lambda>_. t') s)\<lparr>fb_out := fb_out s @ redraw s t'\<rparr>) \<and>
     screen_ok t' \<and> same_tty (ttys s i) t' \<and> marked (ttys s i) t' \<and>
     ((\<forall>c\<in>set cs. plain c) \<and> length cs \<le> t_size t' - t_columns t' \<longrightarrow> (\<exists>xs. before t' = xs @ cs))"
  using assms by (rule write_run)

section \<open>Witnesses\<close>

definition demo_tty :: tty_t where
  "demo_tty = \<lparr>t_lock = sem_init ''tty1'' 1, t_cooked = sem_init ''tty cooked lines'' 1, t_display = 0, t_lines = 2,
     t_columns = 3, t_size = 6, t_buf = replicate 6 tty_defaultch, t_end = 6, t_cursor = 4,
     t_queue = \<lparr>q_buf = (replicate 1024 NUL)[0 := CHR ''a'', 1 := CHR 0x0A], q_end = 1024, q_front = 0, q_rear = 3\<rparr>,
     t_dirty = replicate 6 0\<rparr>"

definition demo_dev :: dev_st where
  "demo_dev = input_st.extend (input_st.truncate demo_input)
     (dev_st.fields [] (\<lambda>_. \<lparr>rd_data = (\<lambda>_. 0), rd_len = 0\<rparr>)
       \<lparr>di_width = 24, di_height = 32, di_num_displays = 8, di_current = 0, di_num_textures = 0, di_num_sprites = 0\<rparr>
       [] (sem_init ''fb'' 1) [] (\<lambda>_. demo_tty))"

lemma demo_dev_sel:
  "ttys demo_dev i = demo_tty" "fb_sem demo_dev = sem_init ''fb'' 1" "cur_cpu demo_dev = 0"
  "current demo_dev = current demo_kmt" "cpu_cli demo_dev = cpu_cli demo_kmt" "intr_on demo_dev = intr_on demo_kmt"
  by (simp_all add: demo_dev_def dev_st.defs input_st.defs demo_input_def kmt.defs demo_kmt_def)

lemma demo_dev_idle:
  "lock_free (lock_of get demo_dev) \<Longrightarrow> sem_idle get demo_dev"
  by (simp add: sem_idle_def cli_ok_def hw_defs cur_addr_def demo_dev_sel demo_kmt_def)

lemma demo_dev_ready: "tty_ready 1 demo_dev" "fb_ready demo_dev" "screen_ok (ttys demo_dev 1)"
  by (simp_all add: tty_ready_def fb_ready_def screen_ok_def demo_dev_idle lock_of_def tty_lock_def tty_cooked_def
      demo_dev_sel demo_tty_def sem_init_def lock_free_init)

theorem tty_write_draws_witness:
  "\<exists>t' s'. tty_write Some 1 ''ok'' demo_dev = Some (2, s') \<and> ttys s' 1 = t' \<and> t_cursor t' < 6 \<and> (\<exists>xs. before t' = xs @ ''ok'')"
proof -
  obtain t' where t': "tty_write Some 1 ''ok'' demo_dev =
      Some (2, (upd_tty 1 (\<lambda>_. t') demo_dev)\<lparr>fb_out := fb_out demo_dev @ redraw demo_dev t'\<rparr>)"
    "screen_ok t'" "same_tty demo_tty t'" "\<exists>xs. before t' = xs @ ''ok''"
    using tty_write_draws [OF demo_dev_ready, of Some "''ok''"]
    by (auto simp: plain_def demo_dev_sel same_tty_def demo_tty_def)
  moreover have "t_cursor t' < 6" using t'(2,3) by (simp add: screen_ok_def same_tty_def demo_tty_def)
  ultimately show ?thesis by auto
qed

lemma demo_dev_inv: "tty_inv 1 ([''a''], []) demo_dev"
proof -
  let ?b = "(replicate 1024 NUL)[0 := CHR ''a'', Suc 0 := CHR 0x0A]"
  have "[0..<3] = [0, 1, 2 :: nat]" by code_simp
  then have "ring 1024 ?b 0 3 = map (\<lambda>k. ?b ! ((0 + k) mod 1024)) [0, 1, 2]"
    by (simp add: ring_def ring_count_def)
  also have "\<dots> = [CHR ''a'', CHR 0x0A, NUL]"
    by (simp only: list.map) (simp add: nth_list_update)
  finally have "ring 1024 ?b 0 3 = [CHR ''a'', CHR 0x0A, NUL]" .
  then show ?thesis
    using demo_dev_ready(1)
    by (simp add: tty_inv_def queue_rep_def q_ok_def q_list_def flat_def lines_ok_def demo_dev_sel demo_tty_def
        TTY_COOK_BUF_SZ_def sem_init_def NUL_def)
qed

theorem tty_line_discipline_witness:
  "\<exists>s1 s2. tty_cook Some 1 (CHR ''b'') demo_dev = Some (0, s1) \<and>
     tty_read Some 1 9 s1 = Some ((2, [CHR ''a'', CHR 0x0A]), s2) \<and> tty_inv 1 ([], ''b'') s2"
proof -
  have "CHR ''b'' \<noteq> NUL \<and> length (flat ([''a''], [])) + 2 < TTY_COOK_BUF_SZ"
    by (simp add: NUL_def flat_def TTY_COOK_BUF_SZ_def)
  then obtain s1 where s1: "tty_cook Some 1 (CHR ''b'') demo_dev = Some (0, s1)" "tty_inv 1 ([''a''], ''b'') s1"
    using tty_line_discipline [OF demo_dev_inv, of "CHR ''b''" Some 0] by auto
  then obtain s2 where "tty_read Some 1 9 s1 = Some ((2, [CHR ''a'', CHR 0x0A]), s2)" "tty_inv 1 ([], ''b'') s2"
    using tty_line_discipline [OF s1(2), of NUL Some 9] by auto
  then show ?thesis using s1(1) by blast
qed


end
