(* ===== verification/Dev.thy ===== *)
theory Dev
  imports Boot TtyProps
begin

text \<open>
  The device module (\<open>devices/dev.c\<close>): the table of devices, creating and initialising them, and
  the two tasks it starts. The image of the first RAM disk, the font, the size of the screen and the code
  addresses of the tasks are arguments.
\<close>

definition DEVICES :: "(string \<times> nat \<times> devops) list" where
  "DEVICES = [(''ramdisk0'', 1, Rd_ops), (''ramdisk1'', 2, Rd_ops), (''input'', 1, Input_ops), (''fb'', 1, Fb_ops),
     (''tty1'', 1, Tty_ops), (''tty2'', 2, Tty_ops), (''tty3'', 3, Tty_ops), (''tty4'', 4, Tty_ops)]"

text \<open>\<open>sizeof\<close> of the structures \<open>rd_t\<close>, \<open>input_t\<close>, \<open>fb_t\<close> and \<open>tty_t\<close>.\<close>

fun dev_size :: "devops \<Rightarrow> u32" where
  "dev_size Rd_ops = 8"
| "dev_size Input_ops = 72"
| "dev_size Fb_ops = 12"
| "dev_size Tty_ops = 92"

text \<open>The result of the first \<open>pmm->alloc\<close> is stored without a test; a terminal or keyboard that got
  \<open>NULL\<close> fails when it is initialised.\<close>

definition dev_create :: "u32 \<Rightarrow> string \<Rightarrow> nat \<Rightarrow> devops \<Rightarrow> 'a dev_st_scheme \<Rightarrow> (device_t \<times> 'a dev_st_scheme) option" where
  "dev_create sz dev_name dev_id dev_ops s = do {
     (data, s) \<leftarrow> pmm_alloc sz s;
     Assert (data \<noteq> 0);
     (dev, s) \<leftarrow> pmm_alloc 16 s;
     Assert (dev \<noteq> 0);
     Some (\<lparr>d_name = dev_name, d_id = dev_id, d_ops = dev_ops\<rparr>, s) }"

fun create_devices :: "nat \<Rightarrow> (string \<times> nat \<times> devops) list \<Rightarrow> 'a dev_st_scheme \<Rightarrow> 'a dev_st_scheme option" where
  "create_devices i [] s = Some s"
| "create_devices i ((name, dev_id, dev_ops) # ds) s = do {
     (dev, s) \<leftarrow> dev_create (dev_size dev_ops) name dev_id dev_ops s;
     create_devices (i + 1) ds (s\<lparr>devices := (devices s)[i := Some dev]\<rparr>) }"

text \<open>\<open>RD_SIZE\<close> bytes are allocated for every RAM disk but the first.\<close>

definition rd_init_dev :: "rd \<Rightarrow> device_t \<Rightarrow> 'a dev_st_scheme \<Rightarrow> (int \<times> 'a dev_st_scheme) option" where
  "rd_init_dev initrd dev s = do {
     s \<leftarrow> (if d_id dev = 1 then Some s else do { (p, s) \<leftarrow> pmm_alloc (4 * 2 ^ 20) s; Assert (p \<noteq> 0); Some s });
     Some (0, s\<lparr>rds := (rds s)(d_id dev := rd_init initrd (d_id dev))\<rparr>) }"

definition dev_start ::
  "rd \<Rightarrow> u8 list \<Rightarrow> u32 \<Rightarrow> u32 \<Rightarrow> device_t \<Rightarrow> 'a dev_st_scheme \<Rightarrow> (int \<times> 'a dev_st_scheme) option" where
  "dev_start initrd font width height dev s = (case d_ops dev of
       Rd_ops \<Rightarrow> rd_init_dev initrd dev s
     | Input_ops \<Rightarrow> input_init s
     | Fb_ops \<Rightarrow> fb_init font width height dev s
     | Tty_ops \<Rightarrow> tty_init dev s)"

fun init_devices ::
  "rd \<Rightarrow> u8 list \<Rightarrow> u32 \<Rightarrow> u32 \<Rightarrow> nat list \<Rightarrow> 'a dev_st_scheme \<Rightarrow> 'a dev_st_scheme option" where
  "init_devices initrd font width height [] s = Some s"
| "init_devices initrd font width height (i # is) s = do {
     Assert (i < length (devices s));
     dev \<leftarrow> devices s ! i;
     (_, s) \<leftarrow> dev_start initrd font width height dev s;
     init_devices initrd font width height is s }"

definition dev_init ::
  "rd \<Rightarrow> u8 list \<Rightarrow> u32 \<Rightarrow> u32 \<Rightarrow> u32 \<Rightarrow> u32 \<Rightarrow> u32 \<Rightarrow> 'a dev_st_scheme \<Rightarrow> 'a dev_st_scheme option" where
  "dev_init initrd font width height por input_task tty_task s = do {
     s \<leftarrow> create_devices 0 DEVICES s;
     s \<leftarrow> init_devices initrd font width height [0..<length DEVICES] s;
     create_tasks por [(''input-task'', input_task, 0), (''tty-task'', tty_task, 0)] s }"

end
