(* ===== verification/HeapApi.thy ===== *)
theory HeapApi
  imports PmmUse
begin

text \<open>
  The allocator as an interface. A client knows which blocks are held and that there is room for
  so many bytes; the laws say what \<open>alloc\<close> and \<open>free\<close> do to that. Segment lists are hidden:
  by \<open>tiling_unique\<close> the set of held blocks determines the whole tiling of the heap, so a client
  that gives back everything it took has restored the heap exactly.
\<close>

section \<open>The held blocks determine the tiling\<close>

definition used :: "seg list \<Rightarrow> (nat \<times> nat) set" where
  "used ss = {(a, n). (True, a, n) \<in> set ss}"

lemma used_simps [simp]:
  "used [] = {}" "used ((u, a, n) # ss) = (if u then insert (a, n) (used ss) else used ss)"
  "used (xs @ ys) = used xs \<union> used ys"
  by (auto simp: used_def)

lemma used_ge: "tiling lo hi ss \<Longrightarrow> (a, n) \<in> used ss \<Longrightarrow> lo \<le> a"
  using tiling_in [of lo hi ss True a n] by (simp add: used_def)

lemma tiling_unique_step:
  assumes "tiling lo hi ((False, lo, n) # ss)" "coalesced ((False, lo, n) # ss)"
    and "tiling lo hi ((False, lo, n') # ss')" "used ss = used ss'"
  shows "n' \<le> n"
proof (rule ccontr)
  assume "\<not> n' \<le> n"
  then have "lo + 12 + n < lo + 12 + n'" by simp
  moreover have "lo + 12 + n' \<le> hi" "tiling (lo + 12 + n) hi ss" "tiling (lo + 12 + n') hi ss'"
    using assms(1,3) tiling_le by auto
  ultimately obtain u k r where r: "ss = (u, lo + 12 + n, k) # r" by (cases ss) auto
  then have "u" using assms(2) by simp
  then have "(lo + 12 + n, k) \<in> used ss'" using r assms(4) by auto
  then show False using used_ge [OF \<open>tiling (lo + 12 + n') hi ss'\<close>] \<open>lo + 12 + n < lo + 12 + n'\<close> by fastforce
qed

lemma used_head:
  assumes "tiling lo hi ((u, lo, n) # ss)" "tiling lo hi ((v, lo, n') # ss')"
    "used ((u, lo, n) # ss) = used ((v, lo, n') # ss')" "u"
  shows "v \<and> n' = n \<and> used ss = used ss'"
proof -
  have t: "tiling (lo + 12 + n) hi ss" "tiling (lo + 12 + n') hi ss'" using assms(1,2) by auto
  have out: "(lo, n) \<notin> used ss" "(lo, n) \<notin> used ss'"
    using used_ge [OF t(1), of lo n] used_ge [OF t(2), of lo n] by auto
  have "(lo, n) \<in> used ((v, lo, n') # ss')" unfolding assms(3) [symmetric] using assms(4) by simp
  then have v: "v" "n' = n" using out(2) by (simp_all split: if_splits)
  note out
  then show ?thesis using v assms(3,4) by (auto simp: insert_ident)
qed

lemma tiling_unique:
  "tiling lo hi ss \<Longrightarrow> coalesced ss \<Longrightarrow> tiling lo hi ss' \<Longrightarrow> coalesced ss' \<Longrightarrow> used ss = used ss' \<Longrightarrow> ss = ss'"
proof (induction lo hi ss arbitrary: ss' rule: tiling.induct)
  case (1 lo hi)
  have "ss' = []"
  proof (cases ss')
    case (Cons x r)
    then obtain b where "tiling (lo + 12 + b) hi r" using "1.prems"(3) by (cases x) auto
    then show ?thesis using tiling_le [of "lo + 12 + b" hi r] "1.prems"(1) by simp
  qed
  then show ?case by simp
next
  case (2 lo hi u a n ss)
  then have a: "a = lo" "tiling (lo + 12 + n) hi ss" by simp_all
  obtain v n' r where ss': "ss' = (v, lo, n') # r"
    using "2.prems"(3) a(2) tiling_le [of "lo + 12 + n" hi ss] by (cases ss') auto
  have c: "coalesced ss" "coalesced r" using "2.prems"(2,4) ss' coalesced_tl by blast+
  have t: "tiling lo hi ((u, lo, n) # ss)" "tiling lo hi ((v, lo, n') # r)" using "2.prems"(1,3) ss' a(1) by simp_all
  have us: "used ((u, lo, n) # ss) = used ((v, lo, n') # r)" using "2.prems"(5) unfolding ss' a(1) .
  have cc: "coalesced ((u, lo, n) # ss)" "coalesced ((v, lo, n') # r)" using "2.prems"(2,4) unfolding ss' a(1) .
  have *: "v = u \<and> n' = n \<and> used ss = used r"
  proof (cases "u \<or> v")
    case True
    then show ?thesis
    proof
      assume u
      from used_head [OF t us this] show ?thesis using \<open>u\<close> by simp
    next
      assume v
      from used_head [OF t(2,1) us [symmetric] this] show ?thesis using \<open>v\<close> by simp
    qed
  next
    case False
    then have f: "u = False" "v = False" by simp_all
    have ur: "used ss = used r" using us f by simp
    have "n' \<le> n" by (rule tiling_unique_step [OF t(1) [unfolded f] _ t(2) [unfolded f] ur]) (use cc f in simp_all)
    moreover have "n \<le> n'" by (rule tiling_unique_step [OF t(2) [unfolded f] _ t(1) [unfolded f] ur [symmetric]]) (use cc f in simp_all)
    ultimately show ?thesis using f ur by simp
  qed
  have "tiling (lo + 12 + n) hi r" using t(2) * by simp
  then have "ss = r" using "2.IH" [of r] a(1,2) c * by simp
  then show ?case using ss' a(1) * by simp
qed

section \<open>The interface\<close>

locale heap_api =
  fixes held :: "'s \<Rightarrow> (u32 \<times> nat) set \<Rightarrow> nat \<Rightarrow> bool"
    and alloc :: "u32 \<Rightarrow> 's \<Rightarrow> (u32 \<times> 's) option"
    and dealloc :: "u32 \<Rightarrow> 's \<Rightarrow> 's option"
    and frame :: "'s \<Rightarrow> 's \<Rightarrow> bool"
  assumes alloc_ok: "held s U k \<Longrightarrow> unat sz + 12 \<le> k \<Longrightarrow>
      \<exists>p s'. alloc sz s = Some (p, s') \<and> p \<noteq> 0 \<and> p \<notin> fst ` U \<and>
        held s' (insert (p, unat sz) U) (k - 12 - unat sz) \<and> frame s s'"
    and dealloc_ok: "held s U k \<Longrightarrow> (p, n) \<in> U \<Longrightarrow>
      \<exists>s'. dealloc p s = Some s' \<and> held s' (U - {(p, n)}) k \<and> frame s s'"
    and held_again: "held s U k \<Longrightarrow> held s' U j \<Longrightarrow> frame s s' \<Longrightarrow> held s' U k"
    and frame_refl: "frame s s"
    and held_inj: "held s U k \<Longrightarrow> inj_on fst U"
    and frame_trans: "frame s s' \<Longrightarrow> frame s' s'' \<Longrightarrow> frame s s''"
begin

text \<open>Blocks taken one after the other are distinct and new.\<close>

fun takes :: "u32 list \<Rightarrow> 's \<Rightarrow> (u32 list \<times> 's) option" where
  "takes [] s = Some ([], s)"
| "takes (sz # szs) s = do {
     (p, s) \<leftarrow> alloc sz s;
     Assert (p \<noteq> 0);
     (ps, s) \<leftarrow> takes szs s;
     Some (p # ps, s) }"

fun gives :: "u32 list \<Rightarrow> 's \<Rightarrow> 's option" where
  "gives [] s = Some s"
| "gives (p # ps) s = do { s \<leftarrow> dealloc p s; gives ps s }"

definition blocks :: "u32 list \<Rightarrow> u32 list \<Rightarrow> (u32 \<times> nat) set" where
  "blocks ps szs = set (zip ps (map unat szs))"

definition need :: "u32 list \<Rightarrow> nat" where
  "need szs = sum_list (map (\<lambda>sz. unat sz + 12) szs)"

lemma takes_ok:
  assumes "held s U k" "need szs \<le> k"
  shows "\<exists>ps s'. takes szs s = Some (ps, s') \<and> length ps = length szs \<and> distinct ps \<and> 0 \<notin> set ps \<and>
     set ps \<inter> fst ` U = {} \<and> held s' (blocks ps szs \<union> U) (k - need szs) \<and> frame s s'"
  using assms
proof (induction szs arbitrary: s U k)
  case Nil
  then show ?case by (auto simp: need_def blocks_def frame_refl)
next
  case (Cons sz szs)
  then have "unat sz + 12 \<le> k" by (simp add: need_def)
  then obtain p s1 where p: "alloc sz s = Some (p, s1)" "p \<noteq> 0" "p \<notin> fst ` U"
    "held s1 (insert (p, unat sz) U) (k - 12 - unat sz)" "frame s s1"
    using alloc_ok [OF Cons.prems(1)] by blast
  note p
  moreover have "need szs \<le> k - 12 - unat sz" "k - 12 - unat sz - need szs = k - need (sz # szs)"
    using Cons.prems(2) by (auto simp: need_def)
  moreover obtain ps s2 where "takes szs s1 = Some (ps, s2)" "length ps = length szs" "distinct ps" "0 \<notin> set ps"
    "set ps \<inter> fst ` insert (p, unat sz) U = {}"
    "held s2 (blocks ps szs \<union> insert (p, unat sz) U) (k - 12 - unat sz - need szs)" "frame s1 s2"
    using Cons.IH [OF p(4) \<open>need szs \<le> _\<close>] by blast
  moreover have "frame s s2" by (rule frame_trans [OF p(5) \<open>frame s1 s2\<close>])
  moreover have "blocks (p # ps) (sz # szs) \<union> U = blocks ps szs \<union> insert (p, unat sz) U" by (simp add: blocks_def)
  ultimately show ?case by (intro exI [of _ "p # ps"] exI [of _ s2]) simp
qed

lemma gives_ok:
  assumes "held s U k" "distinct ps" "set ps \<subseteq> fst ` U"
  shows "\<exists>s'. gives ps s = Some s' \<and> held s' {(p, n) \<in> U. p \<notin> set ps} k \<and> frame s s'"
  using assms
proof (induction ps arbitrary: s U)
  case Nil
  then show ?case by (simp add: frame_refl)
next
  case (Cons p ps)
  then obtain n where n: "(p, n) \<in> U" by auto
  obtain s1 where s1: "dealloc p s = Some s1" "held s1 (U - {(p, n)}) k" "frame s s1"
    using dealloc_ok [OF Cons.prems(1) n] by blast
  have "set ps \<subseteq> fst ` (U - {(p, n)})"
  proof
    fix q assume q: "q \<in> set ps"
    then obtain m where "(q, m) \<in> U" using Cons.prems(3) by auto
    moreover have "q \<noteq> p" using q Cons.prems(2) by auto
    ultimately show "q \<in> fst ` (U - {(p, n)})" by force
  qed
  moreover have "distinct ps" using Cons.prems(2) by simp
  moreover have only: "m = n" if "(p, m) \<in> U" for m using inj_onD [OF held_inj [OF Cons.prems(1)], of "(p, m)" "(p, n)"] that n by simp
  ultimately obtain s2 where "gives ps s1 = Some s2" "held s2 {(q, m) \<in> U - {(p, n)}. q \<notin> set ps} k" "frame s1 s2"
    using Cons.IH [OF s1(2)] by blast
  moreover have "{(q, m) \<in> U - {(p, n)}. q \<notin> set ps} = {(q, m) \<in> U. q \<notin> set (p # ps)}"
    using only by auto
  ultimately show ?case using s1 by (auto intro: frame_trans)
qed

text \<open>Whoever gives back all that was taken, in whatever order, has restored the heap.\<close>

lemma takes_gives:
  assumes "held s U k" "held s1 (blocks ps szs \<union> U) j" "frame s s1"
    and "length ps = length szs" "distinct ps" "set ps \<inter> fst ` U = {}" "set qs = set ps" "distinct qs"
  shows "\<exists>s'. gives qs s1 = Some s' \<and> held s' U k \<and> frame s s'"
proof -
  have d: "fst ` blocks ps szs = set ps"
    using set_map [of fst "zip ps (map unat szs)"] assms(4) by (simp add: blocks_def)
  have "set qs \<subseteq> fst ` (blocks ps szs \<union> U)" using d assms(7) by auto
  then obtain s' where s': "gives qs s1 = Some s'" "held s' {(p, n) \<in> blocks ps szs \<union> U. p \<notin> set qs} j" "frame s1 s'"
    using gives_ok [OF assms(2,8)] by blast
  have "{(p, n) \<in> blocks ps szs \<union> U. p \<notin> set qs} = U"
    using d assms(6,7) by force
  then show ?thesis using s' held_again [OF assms(1), of s' j] frame_trans [OF assms(3)] by auto
qed

end

section \<open>The allocator provides it\<close>

definition ptr_of :: "nat \<times> nat \<Rightarrow> u32 \<times> nat" where
  "ptr_of = (\<lambda>(a, n). (of_nat a + 12, n))"

lemma ptr_of_inj:
  assumes "tiling lo hi ss" "hi < 2 ^ 32"
  shows "inj_on ptr_of (used ss)"
proof (rule inj_onI)
  fix x y assume x: "x \<in> used ss" and y: "y \<in> used ss" and e: "ptr_of x = ptr_of y"
  have lt: "fst z < 2 ^ 32" if "z \<in> used ss" for z
    using that tiling_in [OF assms(1), of True "fst z" "snd z"] assms(2) by (simp add: used_def case_prod_beta)
  have "(of_nat (fst x) :: u32) = of_nat (fst y)" "snd x = snd y" using e by (auto simp: ptr_of_def case_prod_beta)
  then have "fst x = fst y" using unat_of_nat32 [OF lt [OF x]] unat_of_nat32 [OF lt [OF y]] by metis
  then show "x = y" using \<open>snd x = snd y\<close> by (simp add: prod_eq_iff)
qed

definition held :: "'a pmm_scheme \<Rightarrow> (u32 \<times> nat) set \<Rightarrow> nat \<Rightarrow> bool" where
  "held s U k \<longleftrightarrow> (\<exists>ss. pmm_ok s ss \<and> U = ptr_of ` used ss \<and>
     (\<exists>a j. (False, a, j) \<in> set ss \<and> k \<le> j))"

definition heap_only :: "'a pmm_scheme \<Rightarrow> 'a pmm_scheme \<Rightarrow> bool" where
  "heap_only s s' \<longleftrightarrow> (\<exists>m h. s' = s\<lparr>mem := m, pm_head := h\<rparr>)"

lemma pmm_ok_tiling: "pmm_ok s ss \<Longrightarrow> tiling (unat (pm_start s)) (unat (pm_end s)) ss \<and> unat (pm_end s) < 2 ^ 32 \<and> coalesced ss"
  by (simp add: pmm_ok_def heap_ok_def lay_def)

text \<open>The area of the heap and the held blocks determine the room.\<close>

lemma held_area:
  assumes "held s U k" "held s' U j" and e: "pm_start s' = pm_start s \<and> pm_end s' = pm_end s"
  shows "held s' U k"
proof -
  obtain ss where ss: "pmm_ok s ss" "U = ptr_of ` used ss"
    "\<exists>a j. (False, a, j) \<in> set ss \<and> k \<le> j" using assms(1) by (auto simp: held_def)
  obtain ss' where ss': "pmm_ok s' ss'" "U = ptr_of ` used ss'"
    using assms(2) by (auto simp: held_def)
  note t = pmm_ok_tiling [OF ss(1)] and t' = pmm_ok_tiling [OF ss'(1), unfolded conjunct1 [OF e] conjunct2 [OF e]]
  have "used zs = (\<lambda>(p, n). (unat (p - 12), n)) ` ptr_of ` used zs" if "tiling lo hi zs" "hi < 2 ^ 32" for lo hi zs
  proof -
    have "(\<lambda>(p, n). (unat (p - 12), n)) (ptr_of x) = x" if "x \<in> used zs" for x
    proof -
      have "fst x < 2 ^ 32"
        using that tiling_in [OF \<open>tiling lo hi zs\<close>, of True "fst x" "snd x"] \<open>hi < 2 ^ 32\<close>
        by (simp add: used_def case_prod_beta)
      then show ?thesis by (simp add: ptr_of_def case_prod_beta unat_of_nat32)
    qed
    then show ?thesis by (simp add: image_image)
  qed
  from this [of _ _ ss] this [of _ _ ss'] have "used ss = used ss'" using t t' ss(2) ss'(2) by metis
  then have "ss = ss'" using t t' by (intro tiling_unique) auto
  then show ?thesis using ss(3) ss' by (auto simp: held_def)
qed

lemma held_again: "held s U k \<Longrightarrow> held s' U j \<Longrightarrow> heap_only s s' \<Longrightarrow> held s' U k"
  by (rule held_area [of s U k s' j]) (auto simp: heap_only_def)

lemma pmm_alloc_held:
  assumes "held s U k" "unat sz + 12 \<le> k"
  shows "\<exists>p s'. pmm_alloc sz s = Some (p, s') \<and> p \<noteq> 0 \<and> p \<notin> fst ` U \<and>
    held s' (insert (p, unat sz) U) (k - 12 - unat sz) \<and> heap_only s s'"
proof -
  obtain ss a j where ss: "pmm_ok s ss" "U = ptr_of ` used ss" "(False, a, j) \<in> set ss" "k \<le> j"
    using assms(1) by (auto simp: held_def)
  have "unat sz + 12 \<le> j" using assms(2) ss(4) by simp
  then obtain b where b: "\<exists>m h. pmm_alloc sz s = Some (of_nat b + 12, s\<lparr>mem := m, pm_head := h\<rparr>)"
    "(of_nat b + 12 :: u32) \<noteq> 0" "\<forall>c n. (True, c, n) \<in> set ss \<longrightarrow> (of_nat c + 12 :: u32) \<noteq> of_nat b + 12"
    using pmm_alloc_room [OF ss(1,3)] by blast
  have "\<not> too_small (unat sz + 12) ss" using ss(3) \<open>unat sz + 12 \<le> j\<close> by (auto simp: too_small_def not_less)
  then obtain pre c n post where c: "ss = pre @ (False, c, n) # post" "too_small (unat sz + 12) pre" "unat sz + 12 \<le> n"
    using too_small_or_fit by blast
  let ?ss = "pre @ (True, c, unat sz) # (False, c + 12 + unat sz, n - 12 - unat sz) # post"
  obtain m h where m: "pmm_alloc sz s = Some (of_nat c + 12, s\<lparr>mem := m, pm_head := h\<rparr>)"
    "pmm_ok (s\<lparr>mem := m, pm_head := h\<rparr>) ?ss"
    using pmm_alloc_some [OF ss(1) [unfolded c(1)] c(2,3)] by blast
  have p: "(of_nat c + 12 :: u32) = of_nat b + 12" using b(1) m(1) by auto
  have "insert (of_nat c + 12, unat sz) U = ptr_of ` used ?ss"
    unfolding ss(2) c(1) by (simp add: ptr_of_def)
  moreover have "\<exists>a' j'. (False, a', j') \<in> set ?ss \<and> k - 12 - unat sz \<le> j'"
  proof (cases "(a, j) = (c, n)")
    case True
    then show ?thesis using ss(4) by (intro exI [of _ "c + 12 + unat sz"] exI [of _ "n - 12 - unat sz"]) simp
  next
    case False
    then show ?thesis using ss(3,4) c(1) by (intro exI [of _ a] exI [of _ j]) auto
  qed
  ultimately have "held (s\<lparr>mem := m, pm_head := h\<rparr>) (insert (of_nat c + 12, unat sz) U) (k - 12 - unat sz)"
    using m(2) unfolding held_def by blast
  moreover have "of_nat c + 12 \<notin> fst ` U"
    using b(3) p unfolding ss(2) by (auto simp: ptr_of_def used_def)
  ultimately show ?thesis using m(1) b(2) p by (auto simp: heap_only_def)
qed

lemma absorb_used [simp]: "used (absorb a n ss) = used ss"
  using absorb_cases [of ss a n] by auto

lemma absorb_room: "(False, b, k) \<in> set ((False, a, n) # ss) \<Longrightarrow> \<exists>b' k'. (False, b', k') \<in> set (absorb a n ss) \<and> k \<le> k'"
  using absorb_cases [of ss a n]
proof (elim disjE exE conjE)
  fix b' k' r assume m: "(False, b, k) \<in> set ((False, a, n) # ss)"
    and e: "ss = (False, b', k') # r" "absorb a n ss = (False, a, n + 12 + k') # r"
  then consider "k \<le> n + 12 + k'" | "(False, b, k) \<in> set r" by auto
  then show ?thesis by cases (use e in auto)
qed auto

lemma release_used_eq [simp]: "used (release pre a n post) = used (pre @ post)"
  by (induction pre a n post rule: release.induct) auto

lemma release_room:
  "(False, b, k) \<in> set (pre @ post) \<Longrightarrow> \<exists>b' k'. (False, b', k') \<in> set (release pre a n post) \<and> k \<le> k'"
proof (induction pre a n post rule: release.induct)
  case (1 a n post) then show ?case using absorb_room [of b k a n post] by simp
next
  case (2 t j a n post)
  then consider "b = t" "k = j" | "(False, b, k) \<in> set post" by auto
  then show ?case
  proof cases
    case 1 then show ?thesis using absorb_room [of t "j + 12 + n" t "j + 12 + n" post] by fastforce
  next
    case 2 then show ?thesis using absorb_room [of b k t "j + 12 + n" post] by simp
  qed
next
  case (3 x pre a n post) then show ?case by fastforce
next
  case (4 x y pre a n post) then show ?case by fastforce
qed

lemma pmm_free_held:
  assumes "held s U k" "(p, n) \<in> U"
  shows "\<exists>s'. pmm_free p s = Some s' \<and> held s' (U - {(p, n)}) k \<and> heap_only s s'"
proof -
  obtain ss b j where ss: "pmm_ok s ss" "U = ptr_of ` used ss" "(False, b, j) \<in> set ss" "k \<le> j"
    using assms(1) by (auto simp: held_def)
  obtain a where a: "(True, a, n) \<in> set ss" "p = of_nat a + 12" using assms(2) ss(2) by (auto simp: ptr_of_def used_def)
  obtain pre post where pp: "ss = pre @ (True, a, n) # post" using a(1) by (meson split_list)
  obtain m h where m: "pmm_free p s = Some (s\<lparr>mem := m, pm_head := h\<rparr>)"
    "pmm_ok (s\<lparr>mem := m, pm_head := h\<rparr>) (release pre a n post)"
    using pmm_free_some [OF ss(1) [unfolded pp]] a(2) by blast
  note t = pmm_ok_tiling [OF ss(1)]
  have "(a, n) \<notin> used (pre @ post)"
  proof
    assume "(a, n) \<in> used (pre @ post)"
    then have "(True, a, n) \<in> set pre \<or> (True, a, n) \<in> set post" by (auto simp: used_def)
    moreover obtain mid where "tiling (unat (pm_start s)) a pre" "tiling (a + 12 + n) mid post"
      using t by (auto simp: pp)
    ultimately show False using tiling_in [of _ a pre True a n] tiling_in [of "a + 12 + n" _ post True a n] by fastforce
  qed
  then have "used ss - {(a, n)} = used (pre @ post)" by (auto simp: pp)
  moreover have "ptr_of ` (used ss - {(a, n)}) = U - {(p, n)}"
  proof -
    have i: "inj_on ptr_of (used ss)" using t by (intro ptr_of_inj [of "unat (pm_start s)" "unat (pm_end s)"]) simp_all
    have "(a, n) \<in> used ss" using a(1) by (simp add: used_def)
    then have "ptr_of ` (used ss - {(a, n)}) = ptr_of ` used ss - ptr_of ` {(a, n)}"
      by (intro inj_on_image_set_diff [OF i]) auto
    then show ?thesis using a(2) ss(2) by (simp add: ptr_of_def)
  qed
  moreover have "\<exists>b' j'. (False, b', j') \<in> set (release pre a n post) \<and> k \<le> j'"
    using release_room [of b j pre post a n] ss(3,4) pp by fastforce
  ultimately have "held (s\<lparr>mem := m, pm_head := h\<rparr>) (U - {(p, n)}) k" using m(2) unfolding held_def by (metis release_used_eq)
  then show ?thesis using m(1) by (auto simp: heap_only_def)
qed

lemma held_inj:
  assumes "held s U k"
  shows "inj_on fst U"
proof -
  obtain ss where ss: "pmm_ok s ss" "U = ptr_of ` used ss" using assms by (auto simp: held_def)
  note t = pmm_ok_tiling [OF ss(1)]
  have "x = y" if x: "x \<in> used ss" and y: "y \<in> used ss" and e: "fst (ptr_of x) = fst (ptr_of y)" for x y
  proof -
    have i: "(True, fst x, snd x) \<in> set ss" "(True, fst y, snd y) \<in> set ss" using x y by (auto simp: used_def)
    have "fst x < 2 ^ 32" "fst y < 2 ^ 32"
      using tiling_in [OF conjunct1 [OF t] i(1)] tiling_in [OF conjunct1 [OF t] i(2)] t by simp_all
    moreover have "(of_nat (fst x) :: u32) = of_nat (fst y)" using e by (simp add: ptr_of_def case_prod_beta)
    ultimately have "fst x = fst y" by (metis unat_of_nat32)
    then show ?thesis using tiling_two [OF conjunct1 [OF t] i] by (auto simp: prod_eq_iff)
  qed
  then show ?thesis unfolding ss(2) inj_on_def by blast
qed

lemma heap_only_refl: "heap_only s s"
  unfolding heap_only_def by (intro exI [of _ "mem s"] exI [of _ "pm_head s"]) simp

lemma heap_only_trans: "heap_only s s' \<Longrightarrow> heap_only s' s'' \<Longrightarrow> heap_only s s''"
proof -
  assume "heap_only s s'" "heap_only s' s''"
  then obtain m h m' h' where "s' = s\<lparr>mem := m, pm_head := h\<rparr>" "s'' = s'\<lparr>mem := m', pm_head := h'\<rparr>"
    by (auto simp: heap_only_def)
  then show ?thesis unfolding heap_only_def by (intro exI [of _ m'] exI [of _ h']) simp
qed

interpretation hp: heap_api held pmm_alloc pmm_free heap_only
  by unfold_locales
    (erule (1) pmm_alloc_held | erule (1) pmm_free_held | erule (2) held_again | rule heap_only_refl | erule held_inj | erule (1) heap_only_trans)+

end
