(* ===== verification/Vfs.thy ===== *)
theory Vfs
  imports Tty VfsTypes
begin

text \<open>
  The virtual file system (\<open>vfs.c\<close>): the mount list, the descriptors of a task and the
  calls, which find the file system for a path and hand over to its operations.

  A file system is its address; \<open>fsops\<close> and \<open>inodeops\<close> are the tables of
  function pointers of \<open>common.h\<close>, and \<open>fs_env\<close> tells which table an address or an
  inode has. An inode is a pointer of type \<open>'n\<close>, what it points at belongs to its file
  system. The objects behind the file pointers of the descriptors are in \<open>files\<close>. A path is
  \<open>None\<close> for \<open>NULL\<close>. The operations copy to and from the caller's buffer, which is a
  byte list here: a read gets the list and returns what it holds afterwards, and storing past its end
  is undefined.
\<close>

section \<open>Tables of operations\<close>

record 'n vfile =
  vf_refcnt :: int
  vf_flags :: int
  vf_inode :: 'n
  vf_offset :: nat

definition buf_store :: "u8 list \<Rightarrow> u8 list \<Rightarrow> u8 list option" where
  "buf_store bs buf = do { Assert (length bs \<le> length buf); Some (put_at 0 bs buf) }"

record ('n, 's) inodeops =
  op_access :: "'n vfile \<Rightarrow> int \<Rightarrow> 's \<Rightarrow> (int \<times> 's) option"
  op_open :: "'n vfile \<Rightarrow> int \<Rightarrow> 's \<Rightarrow> (int \<times> 'n vfile \<times> 's) option"
  op_close :: "'n vfile \<Rightarrow> 's \<Rightarrow> (int \<times> 'n vfile \<times> 's) option"
  op_read :: "'n vfile \<Rightarrow> u8 list \<Rightarrow> nat \<Rightarrow> 's \<Rightarrow> ((int \<times> u8 list) \<times> 'n vfile \<times> 's) option"
  op_write :: "'n vfile \<Rightarrow> u8 list \<Rightarrow> 's \<Rightarrow> (int \<times> 'n vfile \<times> 's) option"
  op_lseek :: "'n vfile \<Rightarrow> int \<Rightarrow> int \<Rightarrow> 's \<Rightarrow> (int \<times> 'n vfile \<times> 's) option"

record ('n, 's) fsops =
  fo_init :: "u32 \<Rightarrow> string \<Rightarrow> u32 \<Rightarrow> 's \<Rightarrow> 's option"
  fo_lookup :: "u32 \<Rightarrow> string \<Rightarrow> int \<Rightarrow> 's \<Rightarrow> ('n option \<times> 's) option"
  fo_close :: "u32 \<Rightarrow> 'n \<Rightarrow> 's \<Rightarrow> (int \<times> 's) option"
  fo_mkdir :: "u32 \<Rightarrow> string \<Rightarrow> 's \<Rightarrow> (int \<times> 's) option"
  fo_rm :: "u32 \<Rightarrow> string \<Rightarrow> 's \<Rightarrow> (int \<times> 's) option"
  fo_link :: "u32 \<Rightarrow> string \<Rightarrow> string \<Rightarrow> 's \<Rightarrow> (int \<times> 's) option"
  fo_readdir :: "u32 \<Rightarrow> string \<Rightarrow> 's \<Rightarrow> (fslist \<times> 's) option"

record ('n, 's) fs_env =
  fs_ops :: "u32 \<Rightarrow> ('n, 's) fsops"
  in_fs :: "'n \<Rightarrow> u32"
  in_ops :: "'n \<Rightarrow> ('n, 's) inodeops"

section \<open>State\<close>

record mount_node =
  mn_path :: string
  mn_fs :: u32

record 'n vfs_st = dev_st +
  mountlist :: "mount_node list"
  mount_list_lock :: spinlock
  filelist :: "u32 list"
  file_list_lock :: spinlock
  vfs_lock :: spinlock
  files :: "u32 \<Rightarrow> 'n vfile option"

interpretation mnt_lk: lock_field mount_list_lock mount_list_lock_update
  by unfold_locales auto

interpretation fl_lk: lock_field file_list_lock file_list_lock_update
  by unfold_locales auto

interpretation vfs_lk: lock_field vfs_lock vfs_lock_update
  by unfold_locales auto

section \<open>The mount list\<close>

text \<open>The node found, if any, and the one before it.\<close>

fun mount_find_loop :: "string \<Rightarrow> mount_node list \<Rightarrow> mount_node option \<Rightarrow> (mount_node \<times> mount_node option) option" where
  "mount_find_loop path [] prev = None"
| "mount_find_loop path (cur # ms) prev =
     (if path = mn_path cur then Some (cur, prev) else mount_find_loop path ms (Some cur))"

definition mount_list_find ::
  "string option \<Rightarrow> ('n, 'a) vfs_st_scheme \<Rightarrow>
   ((mount_node \<times> mount_node option) option \<times> ('n, 'a) vfs_st_scheme) option" where
  "mount_list_find path s = (case path of
       None \<Rightarrow> Some (None, s)
     | Some p \<Rightarrow> do {
         s \<leftarrow> lock_on mount_list_lock mount_list_lock_update s;
         let r = mount_find_loop p (mountlist s) None;
         s \<leftarrow> unlock_on mount_list_lock mount_list_lock_update s;
         Some (r, s) })"

text \<open>The names of the mount points directly below \<open>dir\<close>, the last mounted last.\<close>

fun mount_names :: "string \<Rightarrow> mount_node list \<Rightarrow> fslist \<Rightarrow> fslist option" where
  "mount_names dir [] acc = Some acc"
| "mount_names dir (cur # ms) acc = do {
     d \<leftarrow> path_get_directory (mn_path cur);
     acc \<leftarrow> (if dir = d then do {
         name \<leftarrow> path_get_name (mn_path cur);
         if length name = 0 then Some acc else Some ((name, ITEM_DIR) # acc) }
       else Some acc);
     mount_names dir ms acc }"

text \<open>For the empty path the code looks at the byte before it.\<close>

definition mount_list_readdir ::
  "string option \<Rightarrow> ('n, 'a) vfs_st_scheme \<Rightarrow> (fslist \<times> ('n, 'a) vfs_st_scheme) option" where
  "mount_list_readdir path s = do {
     p \<leftarrow> path;
     s \<leftarrow> lock_on mount_list_lock mount_list_lock_update s;
     Assert (p \<noteq> []);
     let target_dir = (if last p = CHR ''/'' then p else p @ ''/'');
     r \<leftarrow> mount_names target_dir (mountlist s) [];
     s \<leftarrow> unlock_on mount_list_lock mount_list_lock_update s;
     Some (r, s) }"

definition mount_list_append ::
  "string option \<Rightarrow> u32 \<Rightarrow> ('n, 'a) vfs_st_scheme \<Rightarrow> ('n, 'a) vfs_st_scheme option" where
  "mount_list_append path fs s = do {
     p \<leftarrow> path;
     Assert (fs \<noteq> 0);
     (cur, s) \<leftarrow> mount_list_find path s;
     Assert (cur = None);
     s \<leftarrow> lock_on mount_list_lock mount_list_lock_update s;
     let s = s\<lparr>mountlist := \<lparr>mn_path = p, mn_fs = fs\<rparr> # mountlist s\<rparr>;
     unlock_on mount_list_lock mount_list_lock_update s }"

text \<open>\<open>last->next = cur->next\<close>\<close>

fun unlink_after :: "mount_node \<Rightarrow> mount_node list \<Rightarrow> mount_node list" where
  "unlink_after prev [] = []"
| "unlink_after prev (m # ms) = (if m = prev then m # tl ms else m # unlink_after prev ms)"

definition mount_list_remove ::
  "string option \<Rightarrow> ('n, 'a) vfs_st_scheme \<Rightarrow> ('n, 'a) vfs_st_scheme option" where
  "mount_list_remove path s = (if path = None then Some s else do {
     (r, s) \<leftarrow> mount_list_find path s;
     case r of
       None \<Rightarrow> Some s
     | Some (cur, prev) \<Rightarrow> do {
         s \<leftarrow> lock_on mount_list_lock mount_list_lock_update s;
         s \<leftarrow> (case prev of
             None \<Rightarrow> do {
               Assert (mountlist s \<noteq> [] \<and> cur = hd (mountlist s));
               Some (s\<lparr>mountlist := tl (mountlist s)\<rparr>) }
           | Some m \<Rightarrow> Some (s\<lparr>mountlist := unlink_after m (mountlist s)\<rparr>));
         unlock_on mount_list_lock mount_list_lock_update s } })"

section \<open>The list of open files\<close>

definition file_list_append :: "u32 \<Rightarrow> ('n, 'a) vfs_st_scheme \<Rightarrow> ('n, 'a) vfs_st_scheme option" where
  "file_list_append f s = do {
     Assert (f \<noteq> 0);
     s \<leftarrow> lock_on file_list_lock file_list_lock_update s;
     let s = s\<lparr>filelist := f # filelist s\<rparr>;
     unlock_on file_list_lock file_list_lock_update s }"

definition file_list_remove :: "u32 \<Rightarrow> ('n, 'a) vfs_st_scheme \<Rightarrow> ('n, 'a) vfs_st_scheme option" where
  "file_list_remove f s =
     (if f = 0 \<or> f \<notin> set (filelist s) then Some s
      else do {
        s \<leftarrow> lock_on file_list_lock file_list_lock_update s;
        let s = s\<lparr>filelist := remove1 f (filelist s)\<rparr>;
        unlock_on file_list_lock file_list_lock_update s })"

section \<open>Descriptors\<close>

fun filde_loop :: "u32 \<Rightarrow> u32 list \<Rightarrow> int \<Rightarrow> int" where
  "filde_loop f [] i = -1"
| "filde_loop f (g # gs) i = (if g = f then i else filde_loop f gs (i + 1))"

definition find_filde_index :: "task_t \<Rightarrow> u32 \<Rightarrow> int" where
  "find_filde_index tk f = filde_loop f (take N_FILE (t_fildes tk)) 0"

text \<open>A descriptor outside of the array is undefined; 0 is \<open>NULL\<close>.\<close>

definition get_file :: "int \<Rightarrow> 'a kmt_scheme \<Rightarrow> u32 option" where
  "get_file fd s = do {
     tk \<leftarrow> current_task s;
     Assert (0 \<le> fd \<and> nat fd < length (t_fildes tk));
     Some (t_fildes tk ! nat fd) }"

definition set_filde :: "int \<Rightarrow> u32 \<Rightarrow> 'a kmt_scheme \<Rightarrow> 'a kmt_scheme option" where
  "set_filde fd f s = do {
     tk \<leftarrow> current_task s;
     Assert (0 \<le> fd \<and> nat fd < length (t_fildes tk));
     Some (s\<lparr>task_list := upd_node (cur_addr s)
       (\<lambda>t. t\<lparr>t_fildes := (t_fildes t)[nat fd := f]\<rparr>) (task_list s)\<rparr>) }"

section \<open>The file system for a path\<close>

text \<open>When no mount point matches, the code reads the byte before the path and drops it.\<close>

fun best_mount :: "string \<Rightarrow> mount_node list \<Rightarrow> int \<Rightarrow> mount_node option \<Rightarrow> int \<times> mount_node option" where
  "best_mount path [] best res = (best, res)"
| "best_mount path (cur # ms) best res =
     (let len = length (mn_path cur) in
      if take len path = mn_path cur \<and> int len > best then best_mount path ms (int len) (Some cur)
      else best_mount path ms best res)"

definition sub_path :: "string \<Rightarrow> nat \<Rightarrow> string option" where
  "sub_path path n =
     (case drop n path of
        [] \<Rightarrow> Some ''/''
      | c # cs \<Rightarrow> if c \<noteq> CHR ''/'' then do { Assert (0 < n); Some (drop (n - 1) path) } else Some (c # cs))"

definition get_mount_fs ::
  "string option \<Rightarrow> ('n, 'a) vfs_st_scheme \<Rightarrow>
   ((mount_node \<times> string) option \<times> ('n, 'a) vfs_st_scheme) option" where
  "get_mount_fs path s = do {
     p \<leftarrow> path;
     s \<leftarrow> lock_on mount_list_lock mount_list_lock_update s;
     let (best, res) = best_mount p (mountlist s) (-1) None;
     r \<leftarrow> (case res of
         None \<Rightarrow> Some None
       | Some mn \<Rightarrow> do { sub \<leftarrow> sub_path p (nat best); Some (Some (mn, sub)) });
     s \<leftarrow> unlock_on mount_list_lock mount_list_lock_update s;
     Some (r, s) }"

section \<open>Calls\<close>

abbreviation vlock :: "('n, 'a) vfs_st_scheme \<Rightarrow> ('n, 'a) vfs_st_scheme option" where
  "vlock \<equiv> lock_on vfs_lock vfs_lock_update"

abbreviation vunlock :: "('n, 'a) vfs_st_scheme \<Rightarrow> ('n, 'a) vfs_st_scheme option" where
  "vunlock \<equiv> unlock_on vfs_lock vfs_lock_update"

text \<open>A call of a file system, with \<open>vfs_lock\<close> released around it.\<close>

definition outside ::
  "(('n, 'a) vfs_st_scheme \<Rightarrow> ('r \<times> ('n, 'a) vfs_st_scheme) option) \<Rightarrow>
   ('n, 'a) vfs_st_scheme \<Rightarrow> ('r \<times> ('n, 'a) vfs_st_scheme) option" where
  "outside f s = do {
     s \<leftarrow> vunlock s;
     (r, s) \<leftarrow> f s;
     s \<leftarrow> vlock s;
     Some (r, s) }"

text \<open>\<open>sizeof(file)\<close>\<close>

definition file_size :: u32 where "file_size = 20"

definition new_file :: "'n \<Rightarrow> 'n vfile" where
  "new_file node = \<lparr>vf_refcnt = 0, vf_flags = 0, vf_inode = node, vf_offset = 0\<rparr>"

type_synonym ('n, 'a) env = "('n, ('n, 'a) vfs_st_scheme) fs_env"

definition vfs_access ::
  "('n, 'a) env \<Rightarrow> string option \<Rightarrow> int \<Rightarrow> ('n, 'a) vfs_st_scheme \<Rightarrow> (int \<times> ('n, 'a) vfs_st_scheme) option" where
  "vfs_access E path flags s = do {
     _ \<leftarrow> current_task s;
     s \<leftarrow> vlock s;
     (mn, s) \<leftarrow> get_mount_fs path s;
     case mn of
       None \<Rightarrow> do { s \<leftarrow> vunlock s; Some (-1, s) }
     | Some (mn, subpath) \<Rightarrow> do {
         Assert (mn_fs mn \<noteq> 0);
         (node, s) \<leftarrow> outside (fo_lookup (fs_ops E (mn_fs mn)) (mn_fs mn) subpath flags) s;
         case node of
           None \<Rightarrow> do { s \<leftarrow> vunlock s; Some (-1, s) }
         | Some node \<Rightarrow> do {
             let fs = in_fs E node;
             (tf, s) \<leftarrow> pmm_alloc file_size s;
             Assert (tf \<noteq> 0);
             (res, s) \<leftarrow> outside (\<lambda>s. do {
                 (res, s) \<leftarrow> op_access (in_ops E node) (new_file node) flags s;
                 (c, s) \<leftarrow> fo_close (fs_ops E fs) fs node s;
                 Assert (c = 0);
                 Some (res, s) }) s;
             s \<leftarrow> pmm_free tf s;
             s \<leftarrow> vunlock s;
             Some (res, s) } } }"

definition vfs_mount ::
  "string option \<Rightarrow> u32 \<Rightarrow> ('n, 'a) vfs_st_scheme \<Rightarrow> (int \<times> ('n, 'a) vfs_st_scheme) option" where
  "vfs_mount path fs s = do {
     Assert (fs \<noteq> 0);
     s \<leftarrow> vlock s;
     (cur, s) \<leftarrow> mount_list_find path s;
     (res, s) \<leftarrow> (if cur = None then do { s \<leftarrow> mount_list_append path fs s; Some (0, s) }
       else Some (-1, s));
     s \<leftarrow> vunlock s;
     Some (res, s) }"

definition vfs_unmount ::
  "string option \<Rightarrow> ('n, 'a) vfs_st_scheme \<Rightarrow> (int \<times> ('n, 'a) vfs_st_scheme) option" where
  "vfs_unmount path s = do {
     s \<leftarrow> vlock s;
     s \<leftarrow> mount_list_remove path s;
     s \<leftarrow> vunlock s;
     Some (0, s) }"

definition vfs_mkdir ::
  "('n, 'a) env \<Rightarrow> string option \<Rightarrow> ('n, 'a) vfs_st_scheme \<Rightarrow> (int \<times> ('n, 'a) vfs_st_scheme) option" where
  "vfs_mkdir E path s = do {
     _ \<leftarrow> current_task s;
     s \<leftarrow> vlock s;
     (mn, s) \<leftarrow> get_mount_fs path s;
     case mn of
       None \<Rightarrow> do { s \<leftarrow> vunlock s; Some (-1, s) }
     | Some (mn, subpath) \<Rightarrow> do {
         Assert (mn_fs mn \<noteq> 0);
         (res, s) \<leftarrow> outside (fo_mkdir (fs_ops E (mn_fs mn)) (mn_fs mn) subpath) s;
         s \<leftarrow> vunlock s;
         Some (res, s) } }"

definition vfs_rm ::
  "('n, 'a) env \<Rightarrow> string option \<Rightarrow> ('n, 'a) vfs_st_scheme \<Rightarrow> (int \<times> ('n, 'a) vfs_st_scheme) option" where
  "vfs_rm E path s = do {
     _ \<leftarrow> current_task s;
     s \<leftarrow> vlock s;
     (mn, s) \<leftarrow> get_mount_fs path s;
     case mn of
       None \<Rightarrow> do { s \<leftarrow> vunlock s; Some (-1, s) }
     | Some (mn, subpath) \<Rightarrow> do {
         Assert (mn_fs mn \<noteq> 0);
         (res, s) \<leftarrow> outside (fo_rm (fs_ops E (mn_fs mn)) (mn_fs mn) subpath) s;
         s \<leftarrow> vunlock s;
         Some (res, s) } }"

text \<open>Two mount nodes are the same when their paths are: the paths in the list are distinct. With
  different nodes the warning reads both of them, then the call returns with the lock held.\<close>

definition vfs_link ::
  "('n, 'a) env \<Rightarrow> string option \<Rightarrow> string option \<Rightarrow> ('n, 'a) vfs_st_scheme \<Rightarrow>
   (int \<times> ('n, 'a) vfs_st_scheme) option" where
  "vfs_link E oldpath newpath s = do {
     _ \<leftarrow> current_task s;
     s \<leftarrow> vlock s;
     (mn, s) \<leftarrow> get_mount_fs oldpath s;
     (tmn, s) \<leftarrow> get_mount_fs newpath s;
     if map_option fst mn \<noteq> map_option fst tmn
     then do { Assert (mn \<noteq> None \<and> tmn \<noteq> None); Some (-1, s) }
     else case (mn, tmn) of
       (Some (mn, old_sub), Some (_, new_sub)) \<Rightarrow> do {
         Assert (mn_fs mn \<noteq> 0);
         (res, s) \<leftarrow> outside (fo_link (fs_ops E (mn_fs mn)) (mn_fs mn) old_sub new_sub) s;
         s \<leftarrow> vunlock s;
         Some (res, s) }
     | _ \<Rightarrow> do { s \<leftarrow> vunlock s; Some (-1, s) } }"

text \<open>\<open>open\<close> after the inode is found.\<close>

definition open_node ::
  "('n, 'a) env \<Rightarrow> int \<Rightarrow> 'n \<Rightarrow> int \<Rightarrow> ('n, 'a) vfs_st_scheme \<Rightarrow> (int \<times> ('n, 'a) vfs_st_scheme) option" where
  "open_node E empty_fd node flags s = do {
     let fs = in_fs E node;
     (tf, s) \<leftarrow> pmm_alloc file_size s;
     Assert (tf \<noteq> 0);
     ((res, f), s) \<leftarrow> outside (\<lambda>s. do {
         (res, f, s) \<leftarrow> op_open (in_ops E node) (new_file node) flags s;
         Some ((res, f), s) }) s;
     let f = f\<lparr>vf_refcnt := 0\<rparr>;
     s \<leftarrow> (if res = 0 then do {
         let s = s\<lparr>files := (files s)(tf \<mapsto> f)\<rparr>;
         s \<leftarrow> file_list_append tf s;
         set_filde empty_fd tf s }
       else do {
         (c, s) \<leftarrow> outside (fo_close (fs_ops E fs) fs node) s;
         Assert (c = 0);
         pmm_free tf s });
     s \<leftarrow> vunlock s;
     Some (if res = 0 then empty_fd else -1, s) }"

definition vfs_open ::
  "('n, 'a) env \<Rightarrow> string option \<Rightarrow> int \<Rightarrow> ('n, 'a) vfs_st_scheme \<Rightarrow> (int \<times> ('n, 'a) vfs_st_scheme) option" where
  "vfs_open E path flags s = do {
     tk \<leftarrow> current_task s;
     s \<leftarrow> vlock s;
     let empty_fd = find_filde_index tk 0;
     if empty_fd = -1 then do { s \<leftarrow> vunlock s; Some (-1, s) }
     else do {
       (mn, s) \<leftarrow> get_mount_fs path s;
       case mn of
         None \<Rightarrow> do { s \<leftarrow> vunlock s; Some (-1, s) }
       | Some (mn, subpath) \<Rightarrow> do {
           Assert (mn_fs mn \<noteq> 0);
           (node, s) \<leftarrow> outside (fo_lookup (fs_ops E (mn_fs mn)) (mn_fs mn) subpath flags) s;
           case node of
             None \<Rightarrow> do { s \<leftarrow> vunlock s; Some (-1, s) }
           | Some node \<Rightarrow> open_node E empty_fd node flags s } } }"

text \<open>The calls on a descriptor: the file behind it is read, the operation of its inode runs on
  it, and what that changed in the file is stored back.\<close>

definition on_file ::
  "('n vfile \<Rightarrow> ('n, 'a) vfs_st_scheme \<Rightarrow> ('r \<times> 'n vfile \<times> ('n, 'a) vfs_st_scheme) option) \<Rightarrow> u32 \<Rightarrow>
   ('n, 'a) vfs_st_scheme \<Rightarrow> ('r \<times> ('n, 'a) vfs_st_scheme) option" where
  "on_file f tf s = do {
     v \<leftarrow> files s tf;
     (r, v, s) \<leftarrow> f v s;
     Some (r, s\<lparr>files := (files s)(tf \<mapsto> v)\<rparr>) }"

definition fd_call ::
  "('n vfile \<Rightarrow> ('n, 'a) vfs_st_scheme \<Rightarrow> ('r \<times> 'n vfile \<times> ('n, 'a) vfs_st_scheme) option) \<Rightarrow> int \<Rightarrow>
   ('n, 'a) vfs_st_scheme \<Rightarrow> ('r \<times> ('n, 'a) vfs_st_scheme) option" where
  "fd_call f fd s = do {
     _ \<leftarrow> current_task s;
     s \<leftarrow> vlock s;
     tf \<leftarrow> get_file fd s;
     Assert (tf \<noteq> 0);
     (r, s) \<leftarrow> outside (on_file f tf) s;
     s \<leftarrow> vunlock s;
     Some (r, s) }"

definition vfs_read ::
  "('n, 'a) env \<Rightarrow> int \<Rightarrow> u8 list \<Rightarrow> nat \<Rightarrow> ('n, 'a) vfs_st_scheme \<Rightarrow>
   ((int \<times> u8 list) \<times> ('n, 'a) vfs_st_scheme) option" where
  "vfs_read E fd buf nbyte = fd_call (\<lambda>f. op_read (in_ops E (vf_inode f)) f buf nbyte) fd"

definition vfs_write ::
  "('n, 'a) env \<Rightarrow> int \<Rightarrow> u8 list \<Rightarrow> ('n, 'a) vfs_st_scheme \<Rightarrow> (int \<times> ('n, 'a) vfs_st_scheme) option" where
  "vfs_write E fd buf = fd_call (\<lambda>f. op_write (in_ops E (vf_inode f)) f buf) fd"

definition vfs_lseek ::
  "('n, 'a) env \<Rightarrow> int \<Rightarrow> int \<Rightarrow> int \<Rightarrow> ('n, 'a) vfs_st_scheme \<Rightarrow> (int \<times> ('n, 'a) vfs_st_scheme) option" where
  "vfs_lseek E fd off whence = fd_call (\<lambda>f. op_lseek (in_ops E (vf_inode f)) f off whence) fd"

definition vfs_readdir ::
  "('n, 'a) env \<Rightarrow> string option \<Rightarrow> ('n, 'a) vfs_st_scheme \<Rightarrow> (fslist \<times> ('n, 'a) vfs_st_scheme) option" where
  "vfs_readdir E path s = do {
     _ \<leftarrow> current_task s;
     s \<leftarrow> vlock s;
     (res, s) \<leftarrow> mount_list_readdir path s;
     (mn, s) \<leftarrow> get_mount_fs path s;
     case mn of
       None \<Rightarrow> do { s \<leftarrow> vunlock s; Some (res, s) }
     | Some (mn, subpath) \<Rightarrow> do {
         Assert (mn_fs mn \<noteq> 0);
         (subfs, s) \<leftarrow> outside (fo_readdir (fs_ops E (mn_fs mn)) (mn_fs mn) subpath) s;
         s \<leftarrow> vunlock s;
         Some (res @ subfs, s) } }"

text \<open>The file itself is never given back to the allocator.\<close>

definition vfs_close ::
  "('n, 'a) env \<Rightarrow> int \<Rightarrow> ('n, 'a) vfs_st_scheme \<Rightarrow> (int \<times> ('n, 'a) vfs_st_scheme) option" where
  "vfs_close E fd s = do {
     _ \<leftarrow> current_task s;
     s \<leftarrow> vlock s;
     tf \<leftarrow> get_file fd s;
     Assert (tf \<noteq> 0);
     v \<leftarrow> files s tf;
     let fs = in_fs E (vf_inode v);
     (res, s) \<leftarrow> outside (on_file (op_close (in_ops E (vf_inode v))) tf) s;
     s \<leftarrow> (if res = 0 then do {
         v \<leftarrow> files s tf;
         (c, s) \<leftarrow> outside (fo_close (fs_ops E fs) fs (vf_inode v)) s;
         Assert (c = 0);
         s \<leftarrow> file_list_remove tf s;
         set_filde fd 0 s }
       else Some s);
     s \<leftarrow> vunlock s;
     Some (res, s) }"

section \<open>Initialisation\<close>

text \<open>A file that exists only while its text is written.\<close>

definition initrd_write ::
  "('n, 'a) env \<Rightarrow> u32 \<Rightarrow> string \<Rightarrow> u8 list \<Rightarrow> ('n, 'a) vfs_st_scheme \<Rightarrow> ('n, 'a) vfs_st_scheme option" where
  "initrd_write E fs path buf s = do {
     (node, s) \<leftarrow> fo_lookup (fs_ops E fs) fs path FILE_WRITE s;
     node \<leftarrow> node;
     (p, s) \<leftarrow> pmm_alloc file_size s;
     Assert (p \<noteq> 0);
     (r, f, s) \<leftarrow> op_open (in_ops E node) (new_file node) FILE_WRITE s;
     Assert (r = 0);
     (r, f, s) \<leftarrow> op_write (in_ops E node) f buf s;
     Assert (r = int (length buf));
     (r, f, s) \<leftarrow> op_close (in_ops E node) f s;
     Assert (r = 0);
     (r, s) \<leftarrow> fo_close (fs_ops E fs) fs node s;
     Assert (r = 0);
     pmm_free p s }"

fun mkdirs :: "('n, 'a) env \<Rightarrow> u32 \<Rightarrow> string list \<Rightarrow> ('n, 'a) vfs_st_scheme \<Rightarrow> ('n, 'a) vfs_st_scheme option" where
  "mkdirs E fs [] s = Some s"
| "mkdirs E fs (p # ps) s = do {
     (r, s) \<leftarrow> fo_mkdir (fs_ops E fs) fs p s;
     Assert (r = 0);
     mkdirs E fs ps s }"

fun initrd_writes ::
  "('n, 'a) env \<Rightarrow> u32 \<Rightarrow> (string \<times> u8 list) list \<Rightarrow> ('n, 'a) vfs_st_scheme \<Rightarrow> ('n, 'a) vfs_st_scheme option" where
  "initrd_writes E fs [] s = Some s"
| "initrd_writes E fs ((p, b) # ws) s = do { s \<leftarrow> initrd_write E fs p b s; initrd_writes E fs ws s }"

definition root_dirs :: "string list" where
  "root_dirs = [''/bin'', ''/tmp'', ''/etc'', ''/boot'', ''/opt'', ''/usr'', ''/sys'', ''/var'',
     ''/home'', ''/home/my'']"

definition hello_text :: string where "hello_text = ''Hello world!'' @ [CHR 0x0A]"

definition nl :: string where "nl = [CHR 0x0A]"

definition sh_text :: string where
  "sh_text = ''echo all_commands_(under_/bin/)'' @ nl @ ''ls /bin'' @ nl @ ''echo all_procs_(under_/proc/)'' @ nl @
     ''ls /proc'' @ nl @ ''echo all_devices_(under_/dev/)'' @ nl @ ''ls /dev''"

text \<open>What the functions that make a file system and \<open>dev_lookup\<close> return is in \<open>C\<close>;
  the commands of the shell come with the text of their code address.\<close>

record ('n, 'a) creates =
  mk_devfs :: "('n, 'a) vfs_st_scheme \<Rightarrow> (u32 \<times> ('n, 'a) vfs_st_scheme) option"
  mk_procfs :: "('n, 'a) vfs_st_scheme \<Rightarrow> (u32 \<times> ('n, 'a) vfs_st_scheme) option"
  mk_blkfs :: "('n, 'a) vfs_st_scheme \<Rightarrow> (u32 \<times> ('n, 'a) vfs_st_scheme) option"
  dev_find :: "string \<Rightarrow> ('n, 'a) vfs_st_scheme \<Rightarrow> u32"

definition make_fs ::
  "('n, 'a) env \<Rightarrow> (('n, 'a) vfs_st_scheme \<Rightarrow> (u32 \<times> ('n, 'a) vfs_st_scheme) option) \<Rightarrow> string \<Rightarrow> u32 \<Rightarrow>
   ('n, 'a) vfs_st_scheme \<Rightarrow> (u32 \<times> ('n, 'a) vfs_st_scheme) option" where
  "make_fs E create name dv s = do {
     (fs, s) \<leftarrow> create s;
     s \<leftarrow> fo_init (fs_ops E fs) fs name dv s;
     Some (fs, s) }"

definition vfs_init ::
  "('n, 'a) env \<Rightarrow> ('n, 'a) creates \<Rightarrow> (string \<times> string) list \<Rightarrow> ('n, 'a) vfs_st_scheme \<Rightarrow>
   ('n, 'a) vfs_st_scheme option" where
  "vfs_init E C cmds s = do {
     let s = s\<lparr>filelist := [], mountlist := [], vfs_lock := spin_init ''vfs-lock'',
       mount_list_lock := spin_init ''vfs-mount-list-lock'', file_list_lock := spin_init ''vfs-file-list-lock''\<rparr>;
     (devfs, s) \<leftarrow> make_fs E (mk_devfs C) [] 0 s;
     (_, s) \<leftarrow> vfs_mount (Some ''/dev'') devfs s;
     (procfs, s) \<leftarrow> make_fs E (mk_procfs C) [] 0 s;
     (_, s) \<leftarrow> vfs_mount (Some ''/proc'') procfs s;
     Assert (dev_find C ''ramdisk0'' s \<noteq> 0);
     (rootfs, s) \<leftarrow> make_fs E (mk_blkfs C) ''blkfs-ramdisk0'' (dev_find C ''ramdisk0'' s) s;
     s \<leftarrow> mkdirs E rootfs root_dirs s;
     s \<leftarrow> initrd_write E rootfs ''/home/my/hello.txt'' (map byte_of hello_text) s;
     s \<leftarrow> initrd_write E rootfs ''/home/my/stats.sh'' (map byte_of sh_text) s;
     s \<leftarrow> initrd_writes E rootfs (map (\<lambda>(h, a). (''/bin/'' @ h, map byte_of a)) cmds) s;
     (_, s) \<leftarrow> vfs_mount (Some ''/'') rootfs s;
     Assert (dev_find C ''ramdisk1'' s \<noteq> 0);
     (mntfs, s) \<leftarrow> make_fs E (mk_blkfs C) ''blkfs-ramdisk1'' (dev_find C ''ramdisk1'' s) s;
     (_, s) \<leftarrow> vfs_mount (Some ''/mnt'') mntfs s;
     Some s }"

end
