(* ===== verification/Kfs.thy ===== *)
theory Kfs
  imports HeapApi Vfs Blkfs
begin

text \<open>
  What the file systems of the kernel have in common: the structures \<open>filesystem\<close>,
  \<open>inode\<close> and \<open>inodeinfo\<close> of \<open>common.h\<close> and \<open>inode_free\<close> of
  \<open>vfs/fs.c\<close>. The blocks that a lookup takes from the heap keep their addresses; the
  path copied into one of them is kept as a value. \<open>inode->ptr\<close> is a \<open>void *\<close>: the
  datatype \<open>kptr\<close> has what the three file systems store there, and a cast to another kind
  is undefined.
\<close>

section \<open>Data\<close>

datatype kptr = Ptr_null | Ptr_dev device_t | Ptr_task u32 | Ptr_blk blkfs_inode

text \<open>Which table of operations \<open>fs->ops\<close> and \<open>inode->ops\<close> point to.\<close>

datatype fs_table = Devfs_ops | Procfs_ops | Blkfs_ops

record knode =
  kn_addr :: u32
  kn_fs :: u32
  kn_refcnt :: int
  kn_ptr :: kptr
  kn_ops :: u32
  kn_table :: fs_table
  kn_info :: u32
  kn_path :: u32
  kn_pathname :: string

record filesystem =
  fsys_name :: string
  fsys_type :: string
  fsys_ptr :: u32
  fsys_ops :: fs_table
  fsys_dev :: "device_t option"

datatype task_info_type = CPU_INFO | MEM_INFO | TASK_INFO

text \<open>The text behind \<open>content\<close> is in \<open>ti_text\<close>.\<close>

record task_info =
  ti_type :: task_info_type
  ti_hasOpened :: int
  ti_obj :: u32
  ti_content :: u32
  ti_text :: string
  ti_size :: nat

record kfs_st = "knode vfs_st" +
  filesystems :: "u32 \<Rightarrow> filesystem option"
  task_infos :: "u32 \<Rightarrow> task_info option"
  blks :: "u32 \<Rightarrow> blkfs option"

section \<open>Creating and freeing\<close>

text \<open>\<open>streq(fs->name, FS_NAME)\<close>\<close>

definition fs_named :: "string \<Rightarrow> u32 \<Rightarrow> 'a kfs_st_scheme \<Rightarrow> bool" where
  "fs_named name fs s = (case filesystems s fs of None \<Rightarrow> False | Some f \<Rightarrow> fsys_name f = name)"

definition new_filesystem :: "string \<Rightarrow> string \<Rightarrow> fs_table \<Rightarrow> 'a kfs_st_scheme \<Rightarrow> (u32 \<times> 'a kfs_st_scheme) option" where
  "new_filesystem name type tab s = do {
     (fs, s) \<leftarrow> pmm_alloc 20 s;
     (ops, s) \<leftarrow> pmm_alloc 28 s;
     Assert (ops \<noteq> 0);
     Assert (fs \<noteq> 0);
     Some (fs, s\<lparr>filesystems := (filesystems s)(fs \<mapsto>
       \<lparr>fsys_name = name, fsys_type = type, fsys_ptr = 0, fsys_ops = tab, fsys_dev = None\<rparr>)\<rparr>) }"

text \<open>The blocks of an inode, as every \<open>fs_lookup\<close> takes them.\<close>

definition new_inode :: "fs_table \<Rightarrow> u32 \<Rightarrow> string \<Rightarrow> 'a pmm_scheme \<Rightarrow> (knode \<times> 'a pmm_scheme) option" where
  "new_inode tab fs path s = do {
     (node, s) \<leftarrow> pmm_alloc 20 s;
     (ops, s) \<leftarrow> pmm_alloc 24 s;
     (info, s) \<leftarrow> pmm_alloc 4 s;
     Assert (ops \<noteq> 0);
     (ccpath, s) \<leftarrow> pmm_alloc (of_nat (length path) + 1) s;
     Assert (ccpath \<noteq> 0);
     Assert (info \<noteq> 0);
     Assert (node \<noteq> 0);
     Some (\<lparr>kn_addr = node, kn_fs = fs, kn_refcnt = 0, kn_ptr = Ptr_null, kn_ops = ops, kn_table = tab,
       kn_info = info, kn_path = ccpath, kn_pathname = path\<rparr>, s) }"

definition inode_free :: "knode \<Rightarrow> 'a pmm_scheme \<Rightarrow> 'a pmm_scheme option" where
  "inode_free node s =
     (if kn_addr node = 0 then Some s
      else do {
        s \<leftarrow> (if kn_ops node \<noteq> 0 then pmm_free (kn_ops node) s else Some s);
        s \<leftarrow> (if kn_info node \<noteq> 0
          then do {
            s \<leftarrow> (if kn_path node \<noteq> 0 then pmm_free (kn_path node) s else Some s);
            pmm_free (kn_info node) s }
          else Some s);
        pmm_free (kn_addr node) s })"

section \<open>What an inode holds\<close>

definition node_sizes :: "string \<Rightarrow> u32 list" where
  "node_sizes path = [20, 24, 4, of_nat (length path) + 1]"

definition node_ptrs :: "knode \<Rightarrow> u32 list" where
  "node_ptrs node = [kn_addr node, kn_ops node, kn_info node, kn_path node]"

definition node_blocks :: "knode \<Rightarrow> (u32 \<times> nat) set" where
  "node_blocks node = hp.blocks (node_ptrs node) (node_sizes (kn_pathname node))"

definition node_ok :: "knode \<Rightarrow> (u32 \<times> nat) set \<Rightarrow> bool" where
  "node_ok node U \<longleftrightarrow> distinct (node_ptrs node) \<and> 0 \<notin> set (node_ptrs node) \<and> set (node_ptrs node) \<inter> fst ` U = {}"

lemma new_inode_ok:
  assumes "held s U k" "hp.need (node_sizes path) \<le> k"
  shows "\<exists>node s'. new_inode tab fs path s = Some (node, s') \<and> node_ok node U \<and> kn_fs node = fs \<and> kn_table node = tab \<and>
     kn_ptr node = Ptr_null \<and> kn_pathname node = path \<and>
     held s' (node_blocks node \<union> U) (k - hp.need (node_sizes path)) \<and> heap_only s s'"
proof -
  obtain ps s' where t: "hp.takes (node_sizes path) s = Some (ps, s')" "length ps = 4" "distinct ps" "0 \<notin> set ps"
    "set ps \<inter> fst ` U = {}" "held s' (hp.blocks ps (node_sizes path) \<union> U) (k - hp.need (node_sizes path))" "heap_only s s'"
    using hp.takes_ok [OF assms] by (auto simp: node_sizes_def)
  then obtain a b c d where ps: "ps = [a, b, c, d]"
    by (auto simp: length_Suc_conv numeral_eq_Suc)
  then have "new_inode tab fs path s = Some (\<lparr>kn_addr = a, kn_fs = fs, kn_refcnt = 0, kn_ptr = Ptr_null, kn_ops = b,
       kn_table = tab, kn_info = c, kn_path = d, kn_pathname = path\<rparr>, s')"
    using t(1,4) by (auto simp: new_inode_def node_sizes_def split: bind_splits)
  then show ?thesis using t ps by (auto simp: node_ok_def node_ptrs_def node_blocks_def)
qed

lemma inode_free_ok:
  assumes "held s U k" "held s1 (node_blocks node \<union> U) j" "heap_only s s1" "node_ok node U"
  shows "\<exists>s'. inode_free node s1 = Some s' \<and> held s' U k \<and> heap_only s s'"
proof -
  have "\<exists>s'. hp.gives [kn_ops node, kn_path node, kn_info node, kn_addr node] s1 = Some s' \<and> held s' U k \<and> heap_only s s'"
    by (rule hp.takes_gives [OF assms(1) assms(2) [unfolded node_blocks_def] assms(3)])
      (use assms(4) in \<open>auto simp: node_ok_def node_ptrs_def node_sizes_def\<close>)
  then show ?thesis using assms(4)
    by (auto simp: inode_free_def node_ok_def node_ptrs_def split: bind_splits)
qed

end
