(* ===== verification/Devfs.thy ===== *)
theory Devfs
  imports Kfs
begin

text \<open>
  The device file system (\<open>vfs/devfs.c\<close>): every device of the table is a file below the root,
  whose reads and writes go to the operations of the device. The drivers of \<open>Video\<close>,
  \<open>Input\<close> and \<open>Tty\<close> work on structures and characters; here their data are the
  bytes that the caller's buffer holds.
\<close>

section \<open>The operations of a device, on bytes\<close>

text \<open>The bit fields of \<open>struct input_event\<close> from the low end: 1, 1 and 16 bits.\<close>

definition event_bytes :: "input_event \<Rightarrow> u8 list" where
  "event_bytes ev = le32 (of_int (ie_ctrl ev + 2 * ie_alt ev + 4 * ie_data ev))"

definition info_bytes :: "display_info \<Rightarrow> u8 list" where
  "info_bytes i = le32 (di_width i) @ le32 (di_height i) @ le32 (di_num_displays i) @ le32 (di_current i) @
     le32 (di_num_textures i) @ le32 (di_num_sprites i)"

definition info_of :: "u8 list \<Rightarrow> display_info" where
  "info_of bs = \<lparr>di_width = un_le32 (bytes_at 0 4 bs), di_height = un_le32 (bytes_at 4 4 bs),
     di_num_displays = un_le32 (bytes_at 8 4 bs), di_current = un_le32 (bytes_at 12 4 bs),
     di_num_textures = un_le32 (bytes_at 16 4 bs), di_num_sprites = un_le32 (bytes_at 20 4 bs)\<rparr>"

definition un_le16 :: "u8 list \<Rightarrow> nat" where
  "un_le16 bs = unat (bs ! 0) + 256 * unat (bs ! 1)"

definition sprite_of :: "u8 list \<Rightarrow> sprite" where
  "sprite_of bs = \<lparr>sp_texture = un_le16 bs, sp_x = un_le16 (drop 2 bs), sp_y = un_le16 (drop 4 bs),
     sp_display = un_le16 (drop 6 bs) mod 16, sp_z = un_le16 (drop 6 bs) div 16\<rparr>"

text \<open>What \<open>fb_write\<close> makes of its buffer; it reads a whole \<open>struct display_info\<close> and
  \<open>count / 8\<close> sprites.\<close>

definition fb_data_of :: "nat \<Rightarrow> u8 list \<Rightarrow> fb_data option" where
  "fb_data_of offset bs =
     (if offset = 0 then (if 24 \<le> length bs then Some (Fb_info (info_of bs)) else None)
      else if offset < SPRITE_BRK then Some (Fb_bytes bs)
      else Some (Fb_sprites (map (\<lambda>i. sprite_of (bytes_at (8 * i) 8 bs)) [0..<length bs div 8])))"

definition dev_read ::
  "('a dev_st_scheme \<Rightarrow> 'a dev_st_scheme option) \<Rightarrow> device_t \<Rightarrow> nat \<Rightarrow> nat \<Rightarrow> 'a dev_st_scheme \<Rightarrow>
   ((int \<times> u8 list) \<times> 'a dev_st_scheme) option" where
  "dev_read yield dv offset count s = (case d_ops dv of
       Rd_ops \<Rightarrow> (let (bs, n) = rd_read (rds s (d_id dv)) (of_nat offset) (of_nat count) in Some ((int (unat n), bs), s))
     | Input_ops \<Rightarrow> do {
         ((n, ev), s) \<leftarrow> input_read yield count s;
         Some ((n, case ev of None \<Rightarrow> [] | Some ev \<Rightarrow> event_bytes ev), s) }
     | Fb_ops \<Rightarrow>
         (let (n, i) = fb_read offset count s in Some ((n, case i of None \<Rightarrow> [] | Some i \<Rightarrow> info_bytes i), s))
     | Tty_ops \<Rightarrow> do {
         ((n, cs), s) \<leftarrow> tty_read yield (d_id dv) count s;
         Some ((n, map byte_of cs), s) })"

definition dev_write ::
  "('a dev_st_scheme \<Rightarrow> 'a dev_st_scheme option) \<Rightarrow> device_t \<Rightarrow> nat \<Rightarrow> u8 list \<Rightarrow> 'a dev_st_scheme \<Rightarrow>
   (int \<times> 'a dev_st_scheme) option" where
  "dev_write yield dv offset bs s = (case d_ops dv of
       Rd_ops \<Rightarrow>
         (let (d, n) = rd_write (rds s (d_id dv)) (of_nat offset) bs
          in Some (int (unat n), s\<lparr>rds := (rds s)(d_id dv := d)\<rparr>))
     | Input_ops \<Rightarrow> Some (input_write (length bs) s)
     | Fb_ops \<Rightarrow> do {
         data \<leftarrow> fb_data_of offset bs;
         (_, s) \<leftarrow> fb_write yield offset data s;
         Some (int (length bs), s) }
     | Tty_ops \<Rightarrow> tty_write yield (d_id dv) (map char_of_byte bs) s)"

section \<open>Operations of an inode\<close>

type_synonym kfile = "knode vfile"

definition devfs_isRoot :: "knode \<Rightarrow> bool" where
  "devfs_isRoot node = (kn_ptr node = Ptr_null)"

definition devfs_node :: "kfile \<Rightarrow> 'a kfs_st_scheme \<Rightarrow> bool" where
  "devfs_node f s = fs_named ''devfs'' (kn_fs (vf_inode f)) s"

text \<open>Asking for access already sets the flags of the file.\<close>

definition devfs_access :: "kfile \<Rightarrow> int \<Rightarrow> 'a kfs_st_scheme \<Rightarrow> (int \<times> kfile) option" where
  "devfs_access f flags s = do {
     Assert (devfs_node f s);
     if flags = DIR_EXIST then
       (if devfs_isRoot (vf_inode f) then Some (0, f\<lparr>vf_flags := flags\<rparr>) else Some (-1, f))
     else if flags \<in> {FILE_EXIST, FILE_READ, FILE_WRITE, FILE_APPEND} then
       (if \<not> devfs_isRoot (vf_inode f) then Some (0, f\<lparr>vf_flags := flags\<rparr>) else Some (-1, f))
     else Some (-1, f) }"

definition devfs_open :: "kfile \<Rightarrow> int \<Rightarrow> 'a kfs_st_scheme \<Rightarrow> (int \<times> kfile \<times> 'a kfs_st_scheme) option" where
  "devfs_open f flags s = do {
     (r, f) \<leftarrow> devfs_access f flags s;
     if r = -1 then Some (-1, f, s)
     else if flags = DIR_EXIST then Some (-1, f, s)
     else if flags = FILE_READ \<or> flags = FILE_WRITE then Some (0, f\<lparr>vf_offset := 0, vf_flags := flags\<rparr>, s)
     else if flags = FILE_APPEND then Some (0, f\<lparr>vf_offset := 0, vf_flags := FILE_WRITE\<rparr>, s)
     else Some (0, f, s) }"

definition devfs_close :: "kfile \<Rightarrow> 'a kfs_st_scheme \<Rightarrow> (int \<times> kfile \<times> 'a kfs_st_scheme) option" where
  "devfs_close f s = do { Assert (devfs_node f s); Some (0, f, s) }"

definition node_device :: "knode \<Rightarrow> device_t option" where
  "node_device node = (case kn_ptr node of Ptr_dev dv \<Rightarrow> Some dv | _ \<Rightarrow> None)"

definition devfs_read ::
  "('a kfs_st_scheme \<Rightarrow> 'a kfs_st_scheme option) \<Rightarrow> kfile \<Rightarrow> u8 list \<Rightarrow> nat \<Rightarrow> 'a kfs_st_scheme \<Rightarrow>
   ((int \<times> u8 list) \<times> kfile \<times> 'a kfs_st_scheme) option" where
  "devfs_read yield f buf count s = do {
     Assert (devfs_node f s);
     if vf_flags f \<noteq> FILE_READ then Some ((-1, buf), f, s)
     else do {
       dv \<leftarrow> node_device (vf_inode f);
       ((res, bs), s) \<leftarrow> dev_read yield dv (vf_offset f) count s;
       buf \<leftarrow> buf_store bs buf;
       Some ((res, buf), f\<lparr>vf_offset := vf_offset f + nat res\<rparr>, s) } }"

definition devfs_write ::
  "('a kfs_st_scheme \<Rightarrow> 'a kfs_st_scheme option) \<Rightarrow> kfile \<Rightarrow> u8 list \<Rightarrow> 'a kfs_st_scheme \<Rightarrow>
   (int \<times> kfile \<times> 'a kfs_st_scheme) option" where
  "devfs_write yield f bs s = do {
     Assert (devfs_node f s);
     if vf_flags f \<noteq> FILE_WRITE then Some (-1, f, s)
     else do {
       dv \<leftarrow> node_device (vf_inode f);
       (res, s) \<leftarrow> dev_write yield dv (vf_offset f) bs s;
       Some (res, f\<lparr>vf_offset := vf_offset f + nat res\<rparr>, s) } }"

text \<open>A negative offset becomes a large unsigned 64-bit number; the result is the offset again.\<close>

definition devfs_lseek :: "kfile \<Rightarrow> int \<Rightarrow> int \<Rightarrow> 'a kfs_st_scheme \<Rightarrow> (int \<times> kfile \<times> 'a kfs_st_scheme) option" where
  "devfs_lseek f offset whence s = do {
     Assert (devfs_node f s);
     if vf_flags f \<noteq> FILE_WRITE \<and> vf_flags f \<noteq> FILE_READ then Some (-1, f, s)
     else Some (offset, f\<lparr>vf_offset := nat (offset mod 2 ^ 64)\<rparr>, s) }"

definition devfs_inodeops :: "('a kfs_st_scheme \<Rightarrow> 'a kfs_st_scheme option) \<Rightarrow> (knode, 'a kfs_st_scheme) inodeops" where
  "devfs_inodeops yield = \<lparr>op_access = (\<lambda>f flags s. do { (r, _) \<leftarrow> devfs_access f flags s; Some (r, s) }),
     op_open = devfs_open, op_close = devfs_close, op_read = devfs_read yield, op_write = devfs_write yield,
     op_lseek = devfs_lseek\<rparr>"

section \<open>Operations of the file system\<close>

definition dev_names :: "string list" where
  "dev_names = [''ramdisk0'', ''ramdisk1'', ''input'', ''fb'', ''tty1'', ''tty2'', ''tty3'', ''tty4'']"

text \<open>\<open>mkdir\<close>, \<open>rm\<close> and \<open>link\<close> are not supported.\<close>

definition devfs_refuse :: "u32 \<Rightarrow> 'a kfs_st_scheme \<Rightarrow> (int \<times> 'a kfs_st_scheme) option" where
  "devfs_refuse fs s = do { Assert (fs_named ''devfs'' fs s); Some (-1, s) }"

text \<open>Every entry is put before the ones already there.\<close>

fun push_items :: "item_type \<Rightarrow> string list \<Rightarrow> fslist \<Rightarrow> fslist" where
  "push_items t [] lst = lst"
| "push_items t (n # ns) lst = push_items t ns ((string_create_copy n, t) # lst)"

definition devfs_readdir :: "u32 \<Rightarrow> string \<Rightarrow> 'a kfs_st_scheme \<Rightarrow> (fslist \<times> 'a kfs_st_scheme) option" where
  "devfs_readdir fs path s = do {
     Assert (fs_named ''devfs'' fs s);
     if path = ''/'' then Some (push_items ITEM_FILE dev_names [], s) else Some ([], s) }"

definition devfs_init :: "u32 \<Rightarrow> string \<Rightarrow> u32 \<Rightarrow> 'a kfs_st_scheme \<Rightarrow> 'a kfs_st_scheme option" where
  "devfs_init fs name dv s = do { Assert (fs_named ''devfs'' fs s); Some s }"

definition devfs_lookup :: "u32 \<Rightarrow> string \<Rightarrow> int \<Rightarrow> 'a kfs_st_scheme \<Rightarrow> (knode option \<times> 'a kfs_st_scheme) option" where
  "devfs_lookup fs path flags s = do {
     Assert (fs_named ''devfs'' fs s);
     Assert (path \<noteq> [] \<and> hd path = CHR ''/'');
     (node, s) \<leftarrow> new_inode Devfs_ops fs path s;
     if length path = 1 then Some (Some node, s)
     else do {
       dv \<leftarrow> dev_lookup (tl path) (devices s);
       case dv of
         None \<Rightarrow> do { s \<leftarrow> inode_free node s; Some (None, s) }
       | Some dv \<Rightarrow> Some (Some (node\<lparr>kn_ptr := Ptr_dev dv\<rparr>), s) } }"

definition devfs_fs_close :: "u32 \<Rightarrow> knode option \<Rightarrow> 'a kfs_st_scheme \<Rightarrow> (int \<times> 'a kfs_st_scheme) option" where
  "devfs_fs_close fs node s = do {
     Assert (fs_named ''devfs'' fs s);
     case node of
       None \<Rightarrow> Some (-1, s)
     | Some node \<Rightarrow> do { s \<leftarrow> inode_free node s; Some (0, s) } }"

definition devfs_fsops :: "(knode, 'a kfs_st_scheme) fsops" where
  "devfs_fsops = \<lparr>fo_init = devfs_init, fo_lookup = devfs_lookup, fo_close = (\<lambda>fs node. devfs_fs_close fs (Some node)),
     fo_mkdir = (\<lambda>fs _. devfs_refuse fs), fo_rm = (\<lambda>fs _. devfs_refuse fs), fo_link = (\<lambda>fs _ _. devfs_refuse fs),
     fo_readdir = devfs_readdir\<rparr>"

definition devfs_make :: "'a kfs_st_scheme \<Rightarrow> (u32 \<times> 'a kfs_st_scheme) option" where
  "devfs_make s = new_filesystem ''devfs'' ''rwfs-devfs'' Devfs_ops s"

end
