(* ===== verification/Kstdio.thy ===== *)
theory Kstdio
  imports KString
begin

text \<open>
  Formatted output of the C library (\<open>libs/klib/src/stdio.c\<close>). The variable arguments are a
  list; a \<open>double\<close> is represented by the integer that \<open>(int32_t)(var * 10000)\<close> yields. The
  part of the static buffer from \<open>cp\<close> to its last cell is a list, whose length is
  \<open>outWidth\<close>; a store before the buffer is undefined, and so is one behind the array
  \<open>out\<close>. A format that the code rejects ends in \<open>assert(0)\<close>.
\<close>

section \<open>Definitions\<close>

definition BUFFER_SIZE :: nat where "BUFFER_SIZE = 400"

definition presentation :: string where "presentation = ''0123456789abcdef''"

datatype varg = A_word u32 | A_str string | A_fix int

definition isdigit :: "char \<Rightarrow> bool" where
  "isdigit c \<longleftrightarrow> (48 :: nat) \<le> of_char c \<and> of_char c \<le> (57 :: nat)"

definition islower :: "char \<Rightarrow> bool" where
  "islower c \<longleftrightarrow> (97 :: nat) \<le> of_char c \<and> of_char c \<le> (122 :: nat)"

definition push :: "char \<Rightarrow> string \<Rightarrow> string option" where
  "push c st = (if length st < BUFFER_SIZE - 1 then Some (c # st) else None)"

text \<open>\<open>do { *(--cp) = presentation[var % b]; var /= b; } while (var)\<close>; the buffer bounds the
  loop.\<close>

function put_digits :: "nat \<Rightarrow> nat \<Rightarrow> string \<Rightarrow> string option" where
  "put_digits b v st =
     (if length st < BUFFER_SIZE - 1
      then (let st' = presentation ! (v mod b) # st in if v div b = 0 then Some st' else put_digits b (v div b) st')
      else None)"
  by pat_completeness auto
termination by (relation "measure (\<lambda>(b, v, st). BUFFER_SIZE - length st)") auto

fun push_all :: "string \<Rightarrow> string \<Rightarrow> string option" where
  "push_all [] st = Some st"
| "push_all (c # cs) st = do { st \<leftarrow> push c st; push_all cs st }"

text \<open>The four digits after the point.\<close>

fun put_fraction :: "nat \<Rightarrow> nat \<Rightarrow> string \<Rightarrow> (nat \<times> string) option" where
  "put_fraction 0 v st = Some (v, st)"
| "put_fraction (Suc i) v st = do {
     st \<leftarrow> push (presentation ! (v mod 10)) st;
     put_fraction i (v div 10) st }"

text \<open>Negating the least 32-bit integer gives it again, and the code then indexes
  \<open>presentation\<close> with a negative number.\<close>

definition magnitude :: "int \<Rightarrow> nat option" where
  "magnitude var = (if var = - (2 ^ 31) then None else Some (nat \<bar>var\<bar>))"

definition put_sign :: "int \<Rightarrow> string \<Rightarrow> string option" where
  "put_sign var st = (if var < 0 then push (CHR ''-'') st else Some st)"

definition convert :: "char \<Rightarrow> varg \<Rightarrow> string option" where
  "convert type a = (case a of
       A_word w \<Rightarrow>
         (if type = CHR ''d'' then do {
            v \<leftarrow> magnitude (sint w);
            st \<leftarrow> put_digits 10 v [];
            put_sign (sint w) st }
          else if type = CHR ''u'' then put_digits 10 (unat w) []
          else if type = CHR ''x'' then put_digits 16 (unat w) []
          else if type = CHR ''p'' then do {
            st \<leftarrow> put_digits 16 (unat w) [];
            st \<leftarrow> push (CHR ''x'') st;
            push (CHR ''0'') st }
          else if type = CHR ''c'' then push (char_of (unat w mod 256)) []
          else None)
     | A_fix i \<Rightarrow>
         (if type = CHR ''f'' then do {
            v \<leftarrow> magnitude i;
            (v, st) \<leftarrow> put_fraction 4 v [];
            st \<leftarrow> push (CHR ''.'') st;
            st \<leftarrow> put_digits 10 v st;
            put_sign i st }
          else None)
     | A_str s \<Rightarrow> (if type = CHR ''s'' then push_all (rev s) [] else None))"

function pad :: "char \<Rightarrow> nat \<Rightarrow> string \<Rightarrow> string option" where
  "pad pre mnWidth st =
     (if length st < mnWidth
      then if length st < BUFFER_SIZE - 1 then pad pre mnWidth (pre # st) else None
      else Some st)"
  by pat_completeness auto
termination by (relation "measure (\<lambda>(pre, mnWidth, st). BUFFER_SIZE - length st)") auto

text \<open>\<open>mnWidth\<close> is an \<open>int\<close>, whose overflow is undefined.\<close>

fun parse_width :: "string \<Rightarrow> nat \<Rightarrow> (nat \<times> string) option" where
  "parse_width [] w = Some (w, [])"
| "parse_width (c # fmt) w =
     (if isdigit c then do {
        let w = w * 10 + (of_char c - 48);
        Assert (w < 2 ^ 31);
        parse_width fmt w }
      else Some (w, c # fmt))"

text \<open>What follows the \<open>%\<close>: whether to fill with zeros, the width, the conversion, the rest.\<close>

definition directive :: "string \<Rightarrow> (bool \<times> nat \<times> char \<times> string) option" where
  "directive fmt = do {
     (pre, w, fmt) \<leftarrow> (if fmt \<noteq> [] \<and> isdigit (hd fmt)
        then if hd fmt = CHR ''0'' then do { (w, fmt) \<leftarrow> parse_width (tl fmt) 0; Some (True, w, fmt) } else None
        else Some (False, 0, fmt));
     Assert (fmt \<noteq> [] \<and> islower (hd fmt));
     Some (pre, w, hd fmt, tl fmt) }"

record outst =
  o_arr :: string
  o_pos :: nat
  o_ret :: nat

text \<open>Hitting the limit ends this loop with the position still at the last character.\<close>

fun emit :: "nat \<Rightarrow> string \<Rightarrow> outst \<Rightarrow> outst option" where
  "emit n [] os = Some os"
| "emit n (c # cs) os =
     (if c = CHR 0x00 then Some os
      else do {
        Assert (o_pos os < length (o_arr os));
        let os = os\<lparr>o_arr := (o_arr os)[o_pos os := c], o_ret := o_ret os + 1\<rparr>;
        if o_ret os = n then Some os else emit n cs (os\<lparr>o_pos := o_pos os + 1\<rparr>) })"

lemma parse_width_shorter: "parse_width fmt w = Some (w', fmt') \<Longrightarrow> length fmt' \<le> length fmt"
proof (induction fmt w rule: parse_width.induct)
  case (2 c fmt w)
  then show ?case by (cases "isdigit c") (auto simp: Let_def split: if_splits)
qed simp

lemma directive_shorter: "directive fmt = Some (pre, w, type, fmt') \<Longrightarrow> length fmt' < length fmt"
  using parse_width_shorter [of "tl fmt" 0]
  by (cases fmt) (auto simp: directive_def split: if_splits bind_splits prod.splits)

function vsn_loop :: "nat \<Rightarrow> string \<Rightarrow> varg list \<Rightarrow> outst \<Rightarrow> outst option" where
  "vsn_loop n [] ap os = Some os"
| "vsn_loop n (c # fmt) ap os =
     (if c = CHR ''%'' then
        (case directive fmt of
           None \<Rightarrow> None
         | Some (pre, mnWidth, type, fmt') \<Rightarrow>
             (case ap of
                [] \<Rightarrow> None
              | a # ap' \<Rightarrow> do {
                  st \<leftarrow> convert type a;
                  st \<leftarrow> (if pre then pad (CHR ''0'') mnWidth st else Some st);
                  os \<leftarrow> emit n st os;
                  vsn_loop n fmt' ap' os }))
      else do {
        Assert (o_pos os < length (o_arr os));
        let os = os\<lparr>o_arr := (o_arr os)[o_pos os := c], o_pos := o_pos os + 1, o_ret := o_ret os + 1\<rparr>;
        if o_ret os = n then Some os else vsn_loop n fmt ap os })"
  by pat_completeness auto
termination
  by (relation "measure (\<lambda>(n, fmt, ap, os). length fmt)") (auto dest: directive_shorter)

definition vsnprintf :: "string \<Rightarrow> nat \<Rightarrow> string \<Rightarrow> varg list \<Rightarrow> (nat \<times> string) option" where
  "vsnprintf out n fmt ap = do {
     os \<leftarrow> vsn_loop n fmt ap \<lparr>o_arr = out, o_pos = 0, o_ret = 0\<rparr>;
     Assert (o_pos os < length (o_arr os));
     Some (o_ret os, (o_arr os)[o_pos os := CHR 0x00]) }"

definition sprintf :: "string \<Rightarrow> string \<Rightarrow> varg list \<Rightarrow> (nat \<times> string) option" where
  "sprintf out fmt ap = vsnprintf out (2 ^ 32 - 1) fmt ap"

definition snprintf :: "string \<Rightarrow> nat \<Rightarrow> string \<Rightarrow> varg list \<Rightarrow> (nat \<times> string) option" where
  "snprintf out n fmt ap = vsnprintf out n fmt ap"

text \<open>The result, the new contents of the static buffer, and what \<open>_putc\<close> received.\<close>

definition printf :: "string \<Rightarrow> string \<Rightarrow> varg list \<Rightarrow> (nat \<times> string \<times> string) option" where
  "printf printf_buffer fmt ap = do {
     (ret, buf) \<leftarrow> vsnprintf printf_buffer (2 * BUFFER_SIZE) fmt ap;
     Some (ret, buf, takeWhile (\<lambda>c. c \<noteq> CHR 0x00) buf) }"

definition puts :: "string \<Rightarrow> string \<Rightarrow> (int \<times> string \<times> string) option" where
  "puts printf_buffer s = do {
     (ret, buf, sent) \<leftarrow> printf printf_buffer [CHR ''%'', CHR ''s'', CHR 0x0A] [A_str s];
     Some (0, buf, sent) }"

definition putchar :: "int \<Rightarrow> int \<times> string" where
  "putchar c = (c, [char_of (nat (c mod 256))])"

section \<open>The formatted text\<close>

text \<open>The digits of a number, and what each conversion stands for.\<close>

fun digits :: "nat \<Rightarrow> nat \<Rightarrow> string" where
  "digits b v = (if v < b \<or> b < 2 then [presentation ! (v mod b)] else digits b (v div b) @ [presentation ! (v mod b)])"

declare digits.simps [simp del] put_digits.simps [simp del] pad.simps [simp del]

definition fraction :: "nat \<Rightarrow> string" where
  "fraction v = map (\<lambda>k. presentation ! (v div 10 ^ k mod 10)) [3, 2, 1, 0]"

definition sign :: "int \<Rightarrow> string" where
  "sign v = (if v < 0 then ''-'' else [])"

definition field :: "char \<Rightarrow> varg \<Rightarrow> string option" where
  "field type a = (case a of
       A_word w \<Rightarrow>
         (if type = CHR ''d'' then map_option (\<lambda>v. sign (sint w) @ digits 10 v) (magnitude (sint w))
          else if type = CHR ''u'' then Some (digits 10 (unat w))
          else if type = CHR ''x'' then Some (digits 16 (unat w))
          else if type = CHR ''p'' then Some (''0x'' @ digits 16 (unat w))
          else if type = CHR ''c'' then Some [char_of (unat w mod 256)]
          else None)
     | A_fix i \<Rightarrow>
         (if type = CHR ''f''
          then map_option (\<lambda>v. sign i @ digits 10 (v div 10000) @ ''.'' @ fraction v) (magnitude i) else None)
     | A_str s \<Rightarrow> (if type = CHR ''s'' then Some s else None))"

definition zero_fill :: "bool \<Rightarrow> nat \<Rightarrow> string \<Rightarrow> string" where
  "zero_fill pre w f = (if pre then replicate (w - length f) (CHR ''0'') @ f else f)"

text \<open>\<open>None\<close>: the format is rejected, an argument is missing or of another kind, or a field does
  not fit into the static buffer.\<close>

function format :: "string \<Rightarrow> varg list \<Rightarrow> string option" where
  "format [] ap = Some []"
| "format (c # fmt) ap =
     (if c = CHR ''%'' then
        (case directive fmt of
           None \<Rightarrow> None
         | Some (pre, w, type, fmt') \<Rightarrow>
             (case ap of
                [] \<Rightarrow> None
              | a # ap' \<Rightarrow> do {
                  f \<leftarrow> field type a;
                  Assert (length (zero_fill pre w f) < BUFFER_SIZE);
                  rest \<leftarrow> format fmt' ap';
                  Some (zero_fill pre w f @ rest) }))
      else map_option ((#) c) (format fmt ap))"
  by pat_completeness auto
termination
  by (relation "measure (\<lambda>(fmt, ap). length fmt)") (auto dest: directive_shorter)

section \<open>Fields\<close>

lemma digits_not_empty [simp]: "digits b v \<noteq> []"
  by (subst digits.simps) simp

lemma put_digits_run:
  "1 < b \<Longrightarrow> length st + length (digits b v) < BUFFER_SIZE \<Longrightarrow> put_digits b v st = Some (digits b v @ st)"
proof (induction b v arbitrary: st rule: digits.induct)
  case (1 b v)
  show ?case
  proof (cases "v < b")
    case True
    then show ?thesis
      using 1(2,3) by (subst put_digits.simps, subst (asm) digits.simps, subst digits.simps) simp
  next
    case False
    then have d: "digits b v = digits b (v div b) @ [presentation ! (v mod b)]" using 1(2) by (subst digits.simps) simp
    have n: "v div b \<noteq> 0" using False 1(2) by (simp add: div_eq_0_iff)
    have "put_digits b (v div b) (presentation ! (v mod b) # st) = Some (digits b (v div b) @ presentation ! (v mod b) # st)"
      using 1 False d by simp
    moreover have "length st < BUFFER_SIZE - 1" using 1(3) d by simp
    ultimately show ?thesis using n d by (subst put_digits.simps) simp
  qed
qed

lemma push_all_run: "length st + length cs < BUFFER_SIZE \<Longrightarrow> push_all cs st = Some (rev cs @ st)"
  by (induction cs arbitrary: st) (auto simp: push_def)

lemma put_fraction_run:
  "length st + 4 < BUFFER_SIZE \<Longrightarrow> put_fraction 4 v st = Some (v div 10000, fraction v @ st)"
proof -
  have s: "(4 :: nat) = Suc (Suc (Suc (Suc 0)))" by simp
  have d: "v div 10 div 10 = v div 100" "v div 100 div 10 = v div 1000" "v div 1000 div 10 = v div 10000"
    by (simp_all add: div_mult2_eq [symmetric])
  assume "length st + 4 < BUFFER_SIZE"
  then show ?thesis unfolding s by (simp add: push_def fraction_def d)
qed

lemma pad_run:
  "w < BUFFER_SIZE \<Longrightarrow> pad c w st = Some (replicate (w - length st) c @ st)"
proof (induction c w st rule: pad.induct)
  case (1 c w st)
  show ?case
  proof (cases "length st < w")
    case True
    then have "replicate (w - length st) c @ st = replicate (w - length (c # st)) c @ c # st"
      by (metis (no_types) Suc_diff_Suc append.assoc append_Cons append_Nil length_Cons replicate_Suc replicate_append_same)
    then show ?thesis using 1 True by (subst pad.simps) simp
  qed (subst pad.simps, simp)
qed

lemma convert_run:
  assumes "field type a = Some f" "length f < BUFFER_SIZE"
  shows "convert type a = Some f"
proof (cases a)
  case (A_word w)
  then show ?thesis
    using assms by (auto simp: field_def convert_def put_digits_run push_def put_sign_def sign_def split: if_splits)
next
  case (A_str s)
  then show ?thesis using assms by (auto simp: field_def convert_def push_all_run split: if_splits)
next
  case (A_fix i)
  then obtain v where v: "magnitude i = Some v" "f = sign i @ digits 10 (v div 10000) @ ''.'' @ fraction v" "type = CHR ''f''"
    using assms(1) by (auto simp: field_def split: if_splits)
  have "length (fraction v) = 4" by (simp add: fraction_def)
  then show ?thesis
    using v assms(2) A_fix put_fraction_run [of "[]" v] put_digits_run [of 10 "CHR ''.'' # fraction v" "v div 10000"]
    by (auto simp: convert_def push_def put_sign_def sign_def split: if_splits)
qed

section \<open>The whole format\<close>

lemma put_at_put_at:
  "off + length xs + length ys \<le> length zs \<Longrightarrow> put_at (off + length xs) ys (put_at off xs zs) = put_at off (xs @ ys) zs"
  by (simp add: put_at_def) (simp add: algebra_simps)

lemma put_at_Nil [simp]: "put_at off [] zs = zs"
  by (simp add: put_at_def)

lemma put_at_Cons:
  "off < length zs \<Longrightarrow> put_at off (x # xs) zs = put_at (off + 1) xs (zs[off := x])"
  by (simp add: put_at_def upd_conv_take_nth_drop take_Suc_conv_app_nth) (simp add: algebra_simps)

definition written :: "string \<Rightarrow> outst \<Rightarrow> outst" where
  "written s os = \<lparr>o_arr = put_at (o_pos os) s (o_arr os), o_pos = o_pos os + length s, o_ret = o_ret os + length s\<rparr>"

lemma written_Nil [simp]: "written [] os = os"
  by (simp add: written_def put_at_def)

lemma written_Cons:
  "o_pos os < length (o_arr os) \<Longrightarrow>
   written (c # s) os = written s (os\<lparr>o_arr := (o_arr os)[o_pos os := c], o_ret := o_ret os + 1, o_pos := o_pos os + 1\<rparr>)"
  by (simp add: written_def put_at_Cons)

lemma written_append:
  "o_pos os + length (s @ t) \<le> length (o_arr os) \<Longrightarrow> written t (written s os) = written (s @ t) os"
  by (simp add: written_def put_at_put_at)

lemma emit_run:
  "CHR 0x00 \<notin> set cs \<Longrightarrow> o_ret os + length cs < n \<Longrightarrow> o_pos os + length cs \<le> length (o_arr os) \<Longrightarrow>
   emit n cs os = Some (written cs os)"
  by (induction cs arbitrary: os) (auto simp: written_Cons Let_def)

lemma loop_run:
  "format fmt ap = Some s \<Longrightarrow> CHR 0x00 \<notin> set s \<Longrightarrow> o_ret os + length s < n \<Longrightarrow>
   o_pos os + length s \<le> length (o_arr os) \<Longrightarrow> vsn_loop n fmt ap os = Some (written s os)"
proof (induction fmt ap arbitrary: os s rule: format.induct)
  case (2 c fmt ap)
  show ?case
  proof (cases "c = CHR ''%''")
    case True
    then obtain pre w type fmt' a ap' f rest where d: "directive fmt = Some (pre, w, type, fmt')" "ap = a # ap'"
      "field type a = Some f" "length (zero_fill pre w f) < BUFFER_SIZE" "format fmt' ap' = Some rest"
      "s = zero_fill pre w f @ rest"
      using "2.prems"(1) by (auto split: option.splits list.splits bind_splits if_splits)
    have "length f < BUFFER_SIZE" "pre \<Longrightarrow> w < BUFFER_SIZE" using d(4) by (auto simp: zero_fill_def split: if_splits)
    then have c: "convert type a = Some f" "(if pre then pad (CHR ''0'') w f else Some f) = Some (zero_fill pre w f)"
      using convert_run [OF d(3)] by (auto simp: pad_run zero_fill_def)
    have e: "emit n (zero_fill pre w f) os = Some (written (zero_fill pre w f) os)"
      using "2.prems"(2-4) d(6) by (intro emit_run) auto
    have "vsn_loop n fmt' ap' (written (zero_fill pre w f) os) = Some (written rest (written (zero_fill pre w f) os))"
      using "2.prems"(2-4) d(6)
      by (intro "2.IH"(1) [OF True d(1) refl refl refl d(2) d(3) _ d(5)]) (auto simp: written_def d(4))
    then show ?thesis
      using True d c e "2.prems"(4) by (simp add: written_append)
  next
    case False
    then obtain s' where s': "format fmt ap = Some s'" "s = c # s'" using "2.prems"(1) by auto
    let ?os = "os\<lparr>o_arr := (o_arr os)[o_pos os := c], o_pos := o_pos os + 1, o_ret := o_ret os + 1\<rparr>"
    have e: "os\<lparr>o_arr := (o_arr os)[o_pos os := c], o_ret := o_ret os + 1, o_pos := o_pos os + 1\<rparr> = ?os" by simp
    have "vsn_loop n fmt ap ?os = Some (written s' ?os)"
      using "2.prems"(2-4) s' False by (intro "2.IH"(2)) auto
    moreover have "written s' ?os = written s os"
      using written_Cons [of os c s', unfolded e] "2.prems"(4) s'(2) by simp
    ultimately show ?thesis using False "2.prems"(3,4) s'(2) by (simp add: Let_def)
  qed
qed simp

lemma vsnprintf_run:
  assumes "format fmt ap = Some s" "CHR 0x00 \<notin> set s" "length s < n" "length s < length out"
  shows "vsnprintf out n fmt ap = Some (length s, put_at 0 (s @ [CHR 0x00]) out)"
proof -
  have l: "vsn_loop n fmt ap \<lparr>o_arr = out, o_pos = 0, o_ret = 0\<rparr> = Some (written s \<lparr>o_arr = out, o_pos = 0, o_ret = 0\<rparr>)"
    using assms by (intro loop_run) auto
  have "(put_at 0 s out)[length s := CHR 0x00] = put_at 0 (s @ [CHR 0x00]) out"
    using assms(4) put_at_put_at [of 0 s "[CHR 0x00]" out]
    by (simp add: put_at_def list_update_append) (simp add: Cons_nth_drop_Suc [symmetric])
  then show ?thesis using l assms(4) by (simp add: vsnprintf_def written_def)
qed

text \<open>C18: \<open>vsnprintf\<close> computes the formatted text: when every directive has its argument, every
  field fits into the static buffer of 400 bytes, and the text contains no \<open>NUL\<close> and is shorter
  than both the limit and the array, the array starts with exactly the text that the format describes
  (decimal, hexadecimal, pointer, fixed-point, string and character fields with zero fill), ended by
  \<open>NUL\<close>, the rest of the array is untouched, and the result is the length.\<close>
theorem vsnprintf_format:
  assumes "format fmt ap = Some s" "CHR 0x00 \<notin> set s" "length s < n" "length s < length out"
  shows "vsnprintf out n fmt ap = Some (length s, put_at 0 (s @ [CHR 0x00]) out)"
  using assms by (rule vsnprintf_run)

theorem vsnprintf_format_witness:
  "vsnprintf (replicate 9 (CHR ''?'')) 9 ''n=%04x!'' [A_word 0x2a] = Some (7, ''n=002a!'' @ [CHR 0x00, CHR ''?''])"
proof -
  have "replicate 2 (CHR ''0'') = ''00''" by (simp add: numeral_2_eq_2)
  then have "format ''n=%04x!'' [A_word 0x2a] = Some ''n=002a!''"
    by (simp add: directive_def isdigit_def islower_def field_def digits.simps presentation_def zero_fill_def BUFFER_SIZE_def)
  from vsnprintf_format [OF this, of 9 "replicate 9 (CHR ''?'')"]
  have "vsnprintf (replicate 9 (CHR ''?'')) 9 ''n=%04x!'' [A_word 0x2a] =
      Some (7, put_at 0 (''n=002a!'' @ [CHR 0x00]) (replicate 9 (CHR ''?'')))" by simp
  moreover have "put_at 0 (''n=002a!'' @ [CHR 0x00]) (replicate 9 (CHR ''?'')) = ''n=002a!'' @ [CHR 0x00, CHR ''?'']"
    by code_simp
  ultimately show ?thesis by simp
qed

section \<open>The limit\<close>

lemma emit_limit:
  "CHR 0x00 \<notin> set xs \<Longrightarrow> c \<noteq> CHR 0x00 \<Longrightarrow> o_ret os + length xs + 1 = n \<Longrightarrow> o_pos os + length xs < length (o_arr os) \<Longrightarrow>
   emit n (xs @ [c]) os = Some ((written xs os)\<lparr>o_arr := put_at (o_pos os) (xs @ [c]) (o_arr os), o_ret := n\<rparr>)"
proof (induction xs arbitrary: os)
  case Nil
  then show ?case using put_at_Cons [of "o_pos os" "o_arr os" c "[]"] by simp
next
  case (Cons x xs)
  let ?os = "os\<lparr>o_arr := (o_arr os)[o_pos os := x], o_ret := o_ret os + 1, o_pos := o_pos os + 1\<rparr>"
  have "emit n (xs @ [c]) ?os = Some ((written xs ?os)\<lparr>o_arr := put_at (o_pos ?os) (xs @ [c]) (o_arr ?os), o_ret := n\<rparr>)"
    using Cons.prems by (intro Cons.IH) auto
  moreover have "x \<noteq> CHR 0x00" using Cons.prems(1) by auto
  ultimately show ?case using Cons.prems by (simp add: Let_def written_Cons put_at_Cons)
qed

lemma emit_beyond:
  "CHR 0x00 \<notin> set cs \<Longrightarrow> n \<le> o_ret os \<Longrightarrow> o_pos os + length cs \<le> length (o_arr os) \<Longrightarrow>
   emit n cs os = Some (written cs os)"
  by (induction cs arbitrary: os) (auto simp: written_Cons Let_def)

lemma directive_s: "directive (CHR ''s'' # fmt) = Some (False, 0, CHR ''s'', fmt)"
  by (simp add: directive_def isdigit_def islower_def)

text \<open>C40: The limit of \<open>snprintf\<close> does not bound what it stores: when one string field ends
  exactly at the limit and another field follows, the second overwrites the last character of the first
  and goes on past the limit, and so does the final \<open>NUL\<close>.\<close>
theorem snprintf_overruns:
  assumes "length (xs @ [c]) = n" "s \<noteq> []" "n < BUFFER_SIZE" "length s < BUFFER_SIZE" "CHR 0x00 \<notin> set (xs @ c # s)"
    and "n + length s \<le> length out"
  shows "snprintf out n ''%s%s'' [A_str (xs @ [c]), A_str s] =
     Some (n + length s, put_at 0 (xs @ s @ [CHR 0x00]) out)"
proof -
  let ?o = "\<lparr>o_arr = out, o_pos = 0, o_ret = 0\<rparr>"
  let ?o1 = "\<lparr>o_arr = put_at 0 (xs @ [c]) out, o_pos = length xs, o_ret = n\<rparr>"
  let ?a = "put_at (length xs) s (put_at 0 (xs @ [c]) out)"
  have n: "n = Suc (length xs)" using assms(1) by simp
  have a: "?a = put_at 0 (xs @ s) out"
    using assms(2,6) n by (cases s) (simp_all add: put_at_def add.commute)
  have st: "convert (CHR ''s'') (A_str t) = Some t" if "length t < BUFFER_SIZE" for t
    using that by (simp add: convert_def push_all_run)
  have "emit n (xs @ [c]) ?o = Some ?o1"
    using emit_limit [of xs c ?o n] assms(1,5,6) by (auto simp: written_def)
  moreover have "emit n s ?o1 = Some (written s ?o1)"
    using assms(1,2,5,6) by (intro emit_beyond) (auto simp: neq_Nil_conv)
  ultimately have "vsn_loop n ''%s%s'' [A_str (xs @ [c]), A_str s] ?o = Some (written s ?o1)"
    using st [of "xs @ [c]"] st [of s] assms(1,3,4) by (simp add: directive_s)
  moreover have "written s ?o1 = \<lparr>o_arr = put_at 0 (xs @ s) out, o_pos = length xs + length s, o_ret = n + length s\<rparr>"
    using a by (simp add: written_def)
  moreover have "(put_at 0 (xs @ s) out)[length xs + length s := CHR 0x00] = put_at 0 (xs @ s @ [CHR 0x00]) out"
    using assms(1,6) put_at_put_at [of 0 "xs @ s" "[CHR 0x00]" out]
      put_at_Cons [of "length xs + length s" "put_at 0 (xs @ s) out" "CHR 0x00" "[]"]
    by (simp add: put_at_def) (simp add: list_update_append Cons_nth_drop_Suc [symmetric])
  ultimately show ?thesis using assms(1,6) by (simp add: snprintf_def vsnprintf_def)
qed

theorem snprintf_overruns_witness:
  "snprintf (replicate 6 (CHR ''?'')) 2 ''%s%s'' [A_str ''ab'', A_str ''cd''] = Some (4, ''acd'' @ [CHR 0x00, CHR ''?'', CHR ''?''])"
proof -
  have "put_at 0 (''a'' @ ''cd'' @ [CHR 0x00]) (replicate 6 (CHR ''?'')) = ''acd'' @ [CHR 0x00, CHR ''?'', CHR ''?'']" by code_simp
  then show ?thesis
    using snprintf_overruns [of "''a''" "CHR ''b''" 2 "''cd''" "replicate 6 (CHR ''?'')"] by (simp add: BUFFER_SIZE_def)
qed

section \<open>Printing and reading numbers\<close>

lemma presentation_digit:
  assumes "d < 10"
  shows "(of_char (presentation ! d) :: nat) = 48 + d" "presentation ! d \<noteq> CHR ''-''"
proof -
  have "\<forall>d<10. (of_char (presentation ! d) :: nat) = 48 + d \<and> presentation ! d \<noteq> CHR ''-''" by code_simp
  then show "(of_char (presentation ! d) :: nat) = 48 + d" "presentation ! d \<noteq> CHR ''-''" using assms by blast+
qed

lemma digit_not_nul: "CHR 0x00 \<notin> set (digits 10 v)"
proof (induction v rule: less_induct)
  case (less v)
  have "presentation ! (v mod 10) \<noteq> CHR 0x00"
  proof
    assume "presentation ! (v mod 10) = CHR 0x00"
    then have "(of_char (presentation ! (v mod 10)) :: nat) = 0" by simp
    then show False using presentation_digit(1) [of "v mod 10"] by simp
  qed
  then show ?case using less [of "v div 10"] by (subst digits.simps) auto
qed

lemma atoi_digits:
  "atoi_loop (digits 10 v @ s) r f = atoi_loop s (r * 10 ^ length (digits 10 v) + of_nat v) f"
proof (induction v arbitrary: s rule: less_induct)
  case (less v)
  have d: "(of_char (presentation ! (v mod 10)) :: nat) = 48 + v mod 10" "presentation ! (v mod 10) \<noteq> CHR ''-''"
    using presentation_digit [of "v mod 10"] by simp_all
  have step: "atoi_loop (presentation ! (v mod 10) # s) x f = atoi_loop s (x * 10 + of_nat (v mod 10)) f" for x
  proof -
    have "v mod 10 \<le> 9" by linarith
    then show ?thesis using d by simp
  qed
  show ?case
  proof (cases "v < 10")
    case True
    then show ?thesis using step by (subst (1 2) digits.simps) simp
  next
    case False
    then have e: "digits 10 v = digits 10 (v div 10) @ [presentation ! (v mod 10)]" by (subst digits.simps) simp
    have "atoi_loop (digits 10 v @ s) r f =
        atoi_loop s ((r * 10 ^ length (digits 10 (v div 10)) + of_nat (v div 10)) * 10 + of_nat (v mod 10)) f"
      using less [of "v div 10" "presentation ! (v mod 10) # s"] False step e by simp
    moreover have "(of_nat (v div 10) :: 64 word) * 10 + of_nat (v mod 10) = of_nat v"
      by (metis div_mult_mod_eq of_nat_add of_nat_mult of_nat_numeral)
    then have "(r * 10 ^ length (digits 10 (v div 10)) + of_nat (v div 10)) * 10 + of_nat (v mod 10) =
        r * 10 ^ length (digits 10 v) + of_nat v"
      unfolding e by (simp add: distrib_right add.assoc mult.commute mult.left_commute)
    ultimately show ?thesis by simp
  qed
qed

lemma digits_length: "v < 10 ^ k \<Longrightarrow> 0 < k \<Longrightarrow> length (digits 10 v) \<le> k"
proof (induction k arbitrary: v)
  case (Suc k)
  show ?case
  proof (cases "v < 10")
    case False
    then have "v div 10 < 10 ^ k" "0 < k" using Suc.prems by (auto intro!: less_mult_imp_div_less gr0I simp: mult.commute)
    then show ?thesis using Suc.IH [of "v div 10"] False by (subst digits.simps) simp
  qed (subst digits.simps, simp)
qed simp


lemma takeWhile_nul: "c \<notin> set s \<Longrightarrow> takeWhile (\<lambda>x. x \<noteq> c) (s @ c # r) = s"
  by (induction s) auto

lemma atoi_decimal:
  assumes "magnitude i = Some v"
  shows "atoi (sign i @ digits 10 v) = (0, of_int i)"
proof -
  have v: "v = nat \<bar>i\<bar>" using assms by (simp add: magnitude_def split: if_splits)
  show ?thesis
  proof (cases "i < 0")
    case True
    then have "(of_nat v :: 64 word) = - of_int i" unfolding v by (simp add: of_nat_nat)
    then show ?thesis using True atoi_digits [of v "[]" 0 "-1"] by (simp add: atoi_def sign_def)
  next
    case False
    then have "(of_nat v :: 64 word) = of_int i" unfolding v by (simp add: of_nat_nat)
    then show ?thesis using False atoi_digits [of v "[]" 0 1] by (simp add: atoi_def sign_def)
  qed
qed

text \<open>Printing a number and reading it back: for every 32-bit integer but the least one,
  \<open>sprintf\<close> with \<open>%d\<close> into an array of at least 12 bytes writes a string that the kernel's
  \<open>atoi\<close> accepts and converts into the same number, sign-extended to 64 bits.\<close>
lemma sprintf_atoi:
  assumes "sint w \<noteq> - (2 ^ 31)" "12 \<le> length out"
  shows "\<exists>r out'. sprintf out ''%d'' [A_word w] = Some (r, out') \<and>
     atoi (takeWhile (\<lambda>c. c \<noteq> CHR 0x00) out') = (0, scast w)"
proof -
  obtain v where v: "magnitude (sint w) = Some v" "v = nat \<bar>sint w\<bar>" using assms(1) by (simp add: magnitude_def)
  let ?s = "sign (sint w) @ digits 10 v"
  have "v < 10 ^ 10" using v(2) sint_range_size [of w] by (auto simp: word_size nat_less_iff abs_if)
  then have l: "length ?s \<le> 11" using digits_length [of v 10] by (simp add: sign_def)
  have "format ''%d'' [A_word w] = Some ?s"
    using v(1) l by (simp add: directive_def isdigit_def islower_def field_def zero_fill_def BUFFER_SIZE_def)
  moreover have z: "CHR 0x00 \<notin> set ?s" using digit_not_nul by (simp add: sign_def)
  ultimately have "sprintf out ''%d'' [A_word w] = Some (length ?s, put_at 0 (?s @ [CHR 0x00]) out)"
    using l assms(2) unfolding sprintf_def by (intro vsnprintf_run) auto
  moreover have "takeWhile (\<lambda>c. c \<noteq> CHR 0x00) (put_at 0 (?s @ [CHR 0x00]) out) = ?s"
    using takeWhile_nul [OF z, of "drop (length ?s + 1) out"] by (simp add: put_at_def)
  moreover have "atoi ?s = (0, scast w)" using atoi_decimal [OF v(1)] by (simp only: of_int_sint)
  ultimately show ?thesis by (intro exI conjI) (assumption, simp only:)
qed

lemma sprintf_atoi_witness:
  "\<exists>r out'. sprintf (replicate 12 (CHR ''?'')) ''%d'' [A_word (- 305)] = Some (r, out') \<and>
     atoi (takeWhile (\<lambda>c. c \<noteq> CHR 0x00) out') = (0, - 305)"
  using sprintf_atoi [of "- 305" "replicate 12 (CHR ''?'')"] by simp


end
