(* ===== verification/Procfs.thy ===== *)
theory Procfs
  imports Devfs Kstdio
begin

text \<open>
  The process file system (\<open>vfs/procfs.c\<close>): read-only files whose text is made when they
  are opened. The structure \<open>task_info\<close> behind an inode is in \<open>task_infos\<close>; its memory
  comes zeroed from the allocator, so \<open>hasOpened\<close> is 0 in a fresh one even where
  \<open>fs_lookup\<close> does not set it.
\<close>

section \<open>Operations of an inode\<close>

definition procfs_isRoot :: "knode \<Rightarrow> bool" where
  "procfs_isRoot node = (kn_ptr node = Ptr_null)"

definition procfs_node :: "kfile \<Rightarrow> 'a kfs_st_scheme \<Rightarrow> bool" where
  "procfs_node f s = fs_named ''procfs'' (kn_fs (vf_inode f)) s"

definition procfs_access :: "kfile \<Rightarrow> int \<Rightarrow> 'a kfs_st_scheme \<Rightarrow> int option" where
  "procfs_access f flags s = do {
     Assert (procfs_node f s);
     Some (if flags = DIR_EXIST then (if procfs_isRoot (vf_inode f) then 0 else -1)
       else if flags = FILE_EXIST \<or> flags = FILE_READ then (if procfs_isRoot (vf_inode f) then -1 else 0)
       else -1) }"

definition node_info :: "knode \<Rightarrow> 'a kfs_st_scheme \<Rightarrow> (u32 \<times> task_info) option" where
  "node_info node s = (case kn_ptr node of
       Ptr_task p \<Rightarrow> do { tki \<leftarrow> task_infos s p; Some (p, tki) }
     | _ \<Rightarrow> None)"

definition set_info :: "u32 \<Rightarrow> task_info \<Rightarrow> 'a kfs_st_scheme \<Rightarrow> 'a kfs_st_scheme" where
  "set_info p tki s = s\<lparr>task_infos := (task_infos s)(p \<mapsto> tki)\<rparr>"

text \<open>Following a pointer to a task.\<close>

definition task_at :: "u32 \<Rightarrow> 'a kmt_scheme \<Rightarrow> task_t option" where
  "task_at p s = map_option tn_task (find (\<lambda>n. t_addr (tn_task n) = p) (task_list s))"

text \<open>\<open>sprintf\<close> into the 128 bytes of \<open>content\<close>, and \<open>strlen\<close> of the
  result.\<close>

definition proc_sprintf :: "string \<Rightarrow> varg list \<Rightarrow> string option" where
  "proc_sprintf fmt ap = do {
     (r, buf) \<leftarrow> sprintf (replicate 128 (CHR 0x00)) fmt ap;
     Some (takeWhile (\<lambda>c. c \<noteq> CHR 0x00) buf) }"

definition proc_text :: "task_info \<Rightarrow> 'a kfs_st_scheme \<Rightarrow> string option" where
  "proc_text tki s = (case ti_type tki of
       CPU_INFO \<Rightarrow> proc_sprintf (''Number of CPU: %d'' @ nl) [A_word (of_nat (n_cpu s))]
     | MEM_INFO \<Rightarrow> proc_sprintf (''Memory informention: demo.'' @ nl) []
     | TASK_INFO \<Rightarrow> do {
         Assert (ti_obj tki \<noteq> 0);
         tk \<leftarrow> task_at (ti_obj tki) s;
         proc_sprintf (''Tid: %d'' @ nl @ ''Name: %s'' @ nl @ ''CPU: %d'' @ nl)
           [A_word (t_tid tk), A_str (t_name tk), A_word (of_nat (t_cpu tk))] })"

definition procfs_open :: "kfile \<Rightarrow> int \<Rightarrow> 'a kfs_st_scheme \<Rightarrow> (int \<times> kfile \<times> 'a kfs_st_scheme) option" where
  "procfs_open f flags s = do {
     r \<leftarrow> procfs_access f flags s;
     if r = -1 then Some (-1, f, s)
     else if flags = DIR_EXIST then Some (-1, f, s)
     else do {
       (p, tki) \<leftarrow> node_info (vf_inode f) s;
       if ti_hasOpened tki = 1 then Some (-1, f, s)
       else do {
         (content, s) \<leftarrow> pmm_alloc 128 s;
         Assert (content \<noteq> 0);
         txt \<leftarrow> proc_text tki s;
         let s = set_info p (tki\<lparr>ti_content := content, ti_text := txt, ti_size := length txt, ti_hasOpened := 1\<rparr>) s;
         Some (0, f\<lparr>vf_offset := 0, vf_flags := flags\<rparr>, s) } } }"

definition procfs_close :: "kfile \<Rightarrow> 'a kfs_st_scheme \<Rightarrow> (int \<times> kfile \<times> 'a kfs_st_scheme) option" where
  "procfs_close f s = do {
     Assert (procfs_node f s);
     if procfs_isRoot (vf_inode f) then Some (0, f, s)
     else do {
       (p, tki) \<leftarrow> node_info (vf_inode f) s;
       if ti_hasOpened tki = 0 then Some (-1, f, s)
       else do {
         s \<leftarrow> pmm_free (ti_content tki) s;
         Some (0, f, set_info p (tki\<lparr>ti_content := 0, ti_text := [], ti_size := 0, ti_hasOpened := 0\<rparr>) s) } } }"

text \<open>\<open>strncpy\<close> of \<open>n\<close> characters stores no terminator behind them, and a single one
  for \<open>n = 0\<close>. The result is \<open>strlen\<close> of the caller's buffer, whatever that holds behind
  what was stored; without a NUL in it, \<open>strlen\<close> reads past its end.\<close>

definition procfs_read ::
  "kfile \<Rightarrow> u8 list \<Rightarrow> nat \<Rightarrow> 'a kfs_st_scheme \<Rightarrow> ((int \<times> u8 list) \<times> kfile \<times> 'a kfs_st_scheme) option" where
  "procfs_read f buf sz s = do {
     Assert (procfs_node f s);
     if vf_flags f \<noteq> FILE_READ then Some ((-1, buf), f, s)
     else do {
       (p, tki) \<leftarrow> node_info (vf_inode f) s;
       if ti_hasOpened tki = 0 then Some ((-1, buf), f, s)
       else do {
         Assert (vf_offset f \<le> ti_size tki);
         let rem = ti_size tki - vf_offset f;
         let n = (if sz < rem then sz else rem);
         buf \<leftarrow> buf_store (if n = 0 then [0] else map byte_of (take n (drop (vf_offset f) (ti_text tki)))) buf;
         Assert (0 \<in> set buf);
         let res = length (takeWhile (\<lambda>b. b \<noteq> 0) buf);
         Some ((int res, buf), f\<lparr>vf_offset := vf_offset f + res\<rparr>, s) } } }"

definition procfs_write :: "kfile \<Rightarrow> u8 list \<Rightarrow> 'a kfs_st_scheme \<Rightarrow> (int \<times> kfile \<times> 'a kfs_st_scheme) option" where
  "procfs_write f buf s = do { Assert (procfs_node f s); Some (-1, f, s) }"

text \<open>The comparison with the unsigned size takes a negative offset for a large one.\<close>

definition procfs_lseek :: "kfile \<Rightarrow> int \<Rightarrow> int \<Rightarrow> 'a kfs_st_scheme \<Rightarrow> (int \<times> kfile \<times> 'a kfs_st_scheme) option" where
  "procfs_lseek f offset whence s = do {
     Assert (procfs_node f s);
     if vf_flags f \<noteq> FILE_READ then Some (-1, f, s)
     else do {
       (p, tki) \<leftarrow> node_info (vf_inode f) s;
       if ti_hasOpened tki = 0 then Some (-1, f, s)
       else do {
         let off = (if ti_size tki < nat (offset mod 2 ^ 32) then ti_size tki else nat (offset mod 2 ^ 32));
         Some (int off, f\<lparr>vf_offset := off\<rparr>, s) } } }"

definition procfs_inodeops :: "(knode, 'a kfs_st_scheme) inodeops" where
  "procfs_inodeops = \<lparr>op_access = (\<lambda>f flags s. do { r \<leftarrow> procfs_access f flags s; Some (r, s) }),
     op_open = procfs_open, op_close = procfs_close, op_read = procfs_read, op_write = procfs_write,
     op_lseek = procfs_lseek\<rparr>"

section \<open>Operations of the file system\<close>

definition procfs_refuse :: "u32 \<Rightarrow> 'a kfs_st_scheme \<Rightarrow> (int \<times> 'a kfs_st_scheme) option" where
  "procfs_refuse fs s = do { Assert (fs_named ''procfs'' fs s); Some (-1, s) }"

definition procfs_readdir :: "u32 \<Rightarrow> string \<Rightarrow> 'a kfs_st_scheme \<Rightarrow> (fslist \<times> 'a kfs_st_scheme) option" where
  "procfs_readdir fs path s = do {
     Assert (fs_named ''procfs'' fs s);
     if path = ''/''
     then Some (push_items ITEM_FILE
       (map (\<lambda>n. t_name (tn_task n)) (get_task_list s) @ [''cpuinfo'', ''meminfo'']) [], s)
     else Some ([], s) }"

definition procfs_init :: "u32 \<Rightarrow> string \<Rightarrow> u32 \<Rightarrow> 'a kfs_st_scheme \<Rightarrow> 'a kfs_st_scheme option" where
  "procfs_init fs name dv s = do { Assert (fs_named ''procfs'' fs s); Some s }"

definition new_task_info :: "task_info_type \<Rightarrow> u32 \<Rightarrow> 'a kfs_st_scheme \<Rightarrow> (u32 \<times> 'a kfs_st_scheme) option" where
  "new_task_info type obj s = do {
     (tki, s) \<leftarrow> pmm_alloc 20 s;
     Assert (tki \<noteq> 0);
     Some (tki, set_info tki \<lparr>ti_type = type, ti_hasOpened = 0, ti_obj = obj, ti_content = 0, ti_text = [],
       ti_size = 0\<rparr> s) }"

definition procfs_lookup :: "u32 \<Rightarrow> string \<Rightarrow> int \<Rightarrow> 'a kfs_st_scheme \<Rightarrow> (knode option \<times> 'a kfs_st_scheme) option" where
  "procfs_lookup fs path flags s = do {
     Assert (fs_named ''procfs'' fs s);
     Assert (path \<noteq> [] \<and> hd path = CHR ''/'');
     (node, s) \<leftarrow> new_inode Procfs_ops fs path s;
     let tpath = tl path;
     if length path = 1 then Some (Some node, s)
     else if tpath = ''cpuinfo'' then do {
       (tki, s) \<leftarrow> new_task_info CPU_INFO 0 s;
       Some (Some (node\<lparr>kn_ptr := Ptr_task tki\<rparr>), s) }
     else if tpath = ''meminfo'' then do {
       (tki, s) \<leftarrow> new_task_info MEM_INFO 0 s;
       Some (Some (node\<lparr>kn_ptr := Ptr_task tki\<rparr>), s) }
     else do {
       let tk = task_lookup tpath s;
       if tk = 0 then do { s \<leftarrow> inode_free node s; Some (None, s) }
       else do {
         (tki, s) \<leftarrow> new_task_info TASK_INFO tk s;
         Some (Some (node\<lparr>kn_ptr := Ptr_task tki\<rparr>), s) } } }"

definition procfs_fs_close :: "u32 \<Rightarrow> knode option \<Rightarrow> 'a kfs_st_scheme \<Rightarrow> (int \<times> 'a kfs_st_scheme) option" where
  "procfs_fs_close fs node s = do {
     Assert (fs_named ''procfs'' fs s);
     case node of
       None \<Rightarrow> Some (-1, s)
     | Some node \<Rightarrow> do {
         s \<leftarrow> (if kn_ptr node \<noteq> Ptr_null
           then do {
             (p, tki) \<leftarrow> node_info node s;
             s \<leftarrow> (if ti_hasOpened tki \<noteq> 0 then pmm_free (ti_content tki) s else Some s);
             s \<leftarrow> pmm_free p s;
             Some (s\<lparr>task_infos := (task_infos s)(p := None)\<rparr>) }
           else Some s);
         s \<leftarrow> inode_free node s;
         Some (0, s) } }"

definition procfs_fsops :: "(knode, 'a kfs_st_scheme) fsops" where
  "procfs_fsops = \<lparr>fo_init = procfs_init, fo_lookup = procfs_lookup,
     fo_close = (\<lambda>fs node. procfs_fs_close fs (Some node)),
     fo_mkdir = (\<lambda>fs _. procfs_refuse fs), fo_rm = (\<lambda>fs _. procfs_refuse fs), fo_link = (\<lambda>fs _ _. procfs_refuse fs),
     fo_readdir = procfs_readdir\<rparr>"

definition procfs_make :: "'a kfs_st_scheme \<Rightarrow> (u32 \<times> 'a kfs_st_scheme) option" where
  "procfs_make s = new_filesystem ''procfs'' ''rdonlyfs-procfs'' Procfs_ops s"

end
