(* ===== verification/Kenv.thy ===== *)
theory Kenv
  imports Procfs
begin

text \<open>
  The file systems of the kernel behind the tables of function pointers that \<open>vfs.c\<close> calls:
  \<open>fs->ops\<close> selects the table of \<open>devfs.c\<close>, \<open>procfs.c\<close> or
  \<open>blkfs.c\<close>. An operation of \<open>Blkfs\<close> runs on the structure behind
  \<open>fs->ptr\<close> with the RAM disk behind \<open>fs->dev\<close> and the interrupt state of the kernel.
  The blocks of an inode are taken from the heap after \<open>blkfs_info\<close>'s lock is released,
  where the code still holds it; the copies of \<open>blkfs_inode\<close> are values, as in \<open>Blkfs\<close>.
\<close>

section \<open>The block file system on a device of the kernel\<close>

definition with_blk ::
  "(blkfs \<Rightarrow> ('r \<times> blkfs) option) \<Rightarrow> u32 \<Rightarrow> 'a kfs_st_scheme \<Rightarrow> ('r \<times> 'a kfs_st_scheme) option" where
  "with_blk f fs s = do {
     fsys \<leftarrow> filesystems s fs;
     d \<leftarrow> fsys_dev fsys;
     b \<leftarrow> blks s (fsys_ptr fsys);
     (r, b) \<leftarrow> f (b\<lparr>cur_cpu := cur_cpu s, n_cpu := n_cpu s, intr_on := intr_on s, cpu_cli := cpu_cli s,
       dev := rds s (d_id d)\<rparr>);
     Some (r, s\<lparr>intr_on := intr_on b, cpu_cli := cpu_cli b, rds := (rds s)(d_id d := dev b),
       blks := (blks s)(fsys_ptr fsys \<mapsto> b)\<rparr>) }"

definition blk_file :: "kfile \<Rightarrow> bfile" where
  "blk_file f = \<lparr>f_refcnt = vf_refcnt f, f_flags = vf_flags f,
     f_inode = \<lparr>vn_refcnt = kn_refcnt (vf_inode f),
       vn_ptr = (case kn_ptr (vf_inode f) of Ptr_blk b \<Rightarrow> Some b | _ \<Rightarrow> None), vn_path = kn_pathname (vf_inode f)\<rparr>,
     f_offset = vf_offset f\<rparr>"

definition blk_ptr :: "blkfs_inode option \<Rightarrow> kptr" where
  "blk_ptr p = (case p of None \<Rightarrow> Ptr_null | Some b \<Rightarrow> Ptr_blk b)"

definition of_blk_file :: "bfile \<Rightarrow> kfile \<Rightarrow> kfile" where
  "of_blk_file b f = f\<lparr>vf_flags := f_flags b, vf_offset := f_offset b,
     vf_inode := (vf_inode f)\<lparr>kn_ptr := blk_ptr (vn_ptr (f_inode b))\<rparr>\<rparr>"

definition blkfs_inodeops :: "(knode, 'a kfs_st_scheme) inodeops" where
  "blkfs_inodeops = \<lparr>
     op_access = (\<lambda>f flags s. Some (inode_access (blk_file f) flags, s)),
     op_open = (\<lambda>f flags s. do {
       ((r, b), s) \<leftarrow> with_blk (\<lambda>fs. do { (r, b, fs) \<leftarrow> inode_open (blk_file f) flags fs; Some ((r, b), fs) })
         (kn_fs (vf_inode f)) s;
       Some (r, of_blk_file b f, s) }),
     op_close = (\<lambda>f s. Some (inode_close (blk_file f), f, s)),
     op_read = (\<lambda>f buf count s. do {
       ((n, bs, b), s) \<leftarrow> with_blk (\<lambda>fs. do { r \<leftarrow> inode_read (blk_file f) (of_nat count) fs; Some (r, fs) })
         (kn_fs (vf_inode f)) s;
       buf \<leftarrow> buf_store bs buf;
       Some ((sint n, buf), of_blk_file b f, s) }),
     op_write = (\<lambda>f buf s. do {
       ((n, b), s) \<leftarrow> with_blk (\<lambda>fs. do {
           (n, b, fs) \<leftarrow> inode_write (blk_file f) buf (of_nat (length buf)) fs; Some ((n, b), fs) })
         (kn_fs (vf_inode f)) s;
       Some (sint n, of_blk_file b f, s) }),
     op_lseek = (\<lambda>f off whence s. do {
       let (n, b) = inode_lseek (blk_file f) (of_int off);
       Some (sint n, of_blk_file b f, s) })\<rparr>"

text \<open>\<open>fs->ptr\<close> is a fresh \<open>blkfs_info\<close>, which \<open>fs_init\<close> fills.\<close>

definition blank_blkfs :: blkfs where
  "blank_blkfs = \<lparr>cur_cpu = 0, n_cpu = 0, intr_on = (\<lambda>_. False), cpu_cli = (\<lambda>_. \<lparr>cli_count = 0, cli_hasIF = 0\<rparr>),
     dev = \<lparr>rd_data = (\<lambda>_. 0), rd_len = 0\<rparr>, full_size = 0, block_size = 0, block_data_size = 0, inode_block_num = 0,
     inode_per_block = 0, child_per_dir = 0, total_block_num = 0, fs_lock = spin_init ''''\<rparr>"

text \<open>The device is the entry \<open>dv - 1\<close> of the table of devices.\<close>

definition blkfs_fs_init :: "u32 \<Rightarrow> string \<Rightarrow> u32 \<Rightarrow> 'a kfs_st_scheme \<Rightarrow> 'a kfs_st_scheme option" where
  "blkfs_fs_init fs name dv s = do {
     fsys \<leftarrow> filesystems s fs;
     Assert (dv \<noteq> 0 \<and> unat dv \<le> length (devices s));
     d \<leftarrow> devices s ! (unat dv - 1);
     (p, s) \<leftarrow> pmm_alloc 44 s;
     Assert (p \<noteq> 0);
     let s = s\<lparr>filesystems := (filesystems s)(fs \<mapsto> fsys\<lparr>fsys_name := name, fsys_dev := Some d, fsys_ptr := p\<rparr>),
       blks := (blks s)(p \<mapsto> blank_blkfs)\<rparr>;
     (_, s) \<leftarrow> with_blk (\<lambda>b. do { b \<leftarrow> fs_init name (dev b) b; Some ((), b) }) fs s;
     Some s }"

definition blkfs_fs_lookup :: "u32 \<Rightarrow> string \<Rightarrow> int \<Rightarrow> 'a kfs_st_scheme \<Rightarrow> (knode option \<times> 'a kfs_st_scheme) option" where
  "blkfs_fs_lookup fs path flags s = do {
     (v, s) \<leftarrow> with_blk (fs_lookup path flags) fs s;
     (node, s) \<leftarrow> new_inode Blkfs_ops fs path s;
     Some (Some (node\<lparr>kn_ptr := blk_ptr (vn_ptr v)\<rparr>), s) }"

definition blkfs_fs_close :: "u32 \<Rightarrow> knode \<Rightarrow> 'a kfs_st_scheme \<Rightarrow> (int \<times> 'a kfs_st_scheme) option" where
  "blkfs_fs_close fs node s = do {
     s \<leftarrow> inode_free node s;
     with_blk (fs_close (Some \<lparr>vn_refcnt = 0, vn_ptr = None, vn_path = kn_pathname node\<rparr>)) fs s }"

definition blkfs_fsops :: "(knode, 'a kfs_st_scheme) fsops" where
  "blkfs_fsops = \<lparr>fo_init = blkfs_fs_init, fo_lookup = blkfs_fs_lookup, fo_close = blkfs_fs_close,
     fo_mkdir = (\<lambda>fs name. with_blk (fs_mkdir name) fs), fo_rm = (\<lambda>fs name. with_blk (fs_rm name) fs),
     fo_link = (\<lambda>fs old new. with_blk (fs_link old new) fs), fo_readdir = (\<lambda>fs path. with_blk (fs_readdir path) fs)\<rparr>"

definition blkfs_make :: "'a kfs_st_scheme \<Rightarrow> (u32 \<times> 'a kfs_st_scheme) option" where
  "blkfs_make s = new_filesystem ''blkfs'' ''rwfs-blkfs'' Blkfs_ops s"

section \<open>The tables\<close>

fun table_fsops :: "fs_table \<Rightarrow> (knode, 'a kfs_st_scheme) fsops" where
  "table_fsops Devfs_ops = devfs_fsops"
| "table_fsops Procfs_ops = procfs_fsops"
| "table_fsops Blkfs_ops = blkfs_fsops"

fun table_inodeops ::
  "('a kfs_st_scheme \<Rightarrow> 'a kfs_st_scheme option) \<Rightarrow> fs_table \<Rightarrow> (knode, 'a kfs_st_scheme) inodeops" where
  "table_inodeops yield Devfs_ops = devfs_inodeops yield"
| "table_inodeops yield Procfs_ops = procfs_inodeops"
| "table_inodeops yield Blkfs_ops = blkfs_inodeops"

definition via_fs ::
  "u32 \<Rightarrow> ((knode, 'a kfs_st_scheme) fsops \<Rightarrow> 'a kfs_st_scheme \<Rightarrow> 'r option) \<Rightarrow> 'a kfs_st_scheme \<Rightarrow> 'r option" where
  "via_fs fs f s = do { fsys \<leftarrow> filesystems s fs; f (table_fsops (fsys_ops fsys)) s }"

definition kernel_fsops :: "(knode, 'a kfs_st_scheme) fsops" where
  "kernel_fsops = \<lparr>
     fo_init = (\<lambda>fs name dv. via_fs fs (\<lambda>t. fo_init t fs name dv)),
     fo_lookup = (\<lambda>fs path flags. via_fs fs (\<lambda>t. fo_lookup t fs path flags)),
     fo_close = (\<lambda>fs node. via_fs fs (\<lambda>t. fo_close t fs node)),
     fo_mkdir = (\<lambda>fs path. via_fs fs (\<lambda>t. fo_mkdir t fs path)),
     fo_rm = (\<lambda>fs path. via_fs fs (\<lambda>t. fo_rm t fs path)),
     fo_link = (\<lambda>fs old new. via_fs fs (\<lambda>t. fo_link t fs old new)),
     fo_readdir = (\<lambda>fs path. via_fs fs (\<lambda>t. fo_readdir t fs path))\<rparr>"

definition kernel_env :: "('a kfs_st_scheme \<Rightarrow> 'a kfs_st_scheme option) \<Rightarrow> (knode, 'a kfs_st_scheme) fs_env" where
  "kernel_env yield = \<lparr>fs_ops = (\<lambda>_. kernel_fsops), in_fs = kn_fs,
     in_ops = (\<lambda>node. table_inodeops yield (kn_table node))\<rparr>"

text \<open>\<open>dev_lookup\<close> as \<open>vfs_init\<close> uses it: the number of the slot, counted from 1.\<close>

fun dev_slot :: "string \<Rightarrow> device_t option list \<Rightarrow> nat \<Rightarrow> nat" where
  "dev_slot name [] i = 0"
| "dev_slot name (None # ds) i = 0"
| "dev_slot name (Some d # ds) i = (if d_name d = name then i else dev_slot name ds (i + 1))"

definition kernel_creates :: "(knode, 'a kfs_st_ext) creates" where
  "kernel_creates = \<lparr>mk_devfs = devfs_make, mk_procfs = procfs_make, mk_blkfs = blkfs_make,
     dev_find = (\<lambda>name s. of_nat (dev_slot name (devices s) 1))\<rparr>"

end
