(* ===== verification/Io.thy ===== *)
theory Io
  imports Kenv
begin

text \<open>
  Buffered streams over the calls of \<open>vfs.c\<close> (\<open>io.c\<close>). A stream is the address of its
  structure; \<open>streams\<close> tells what is there, because a command may share the streams of its shell.
  The contents of the buffer are the characters of \<open>KString.buffer\<close>, the addresses of the blocks
  that hold them are kept to be given back. \<open>E\<close> is the table of the mounted file systems.
\<close>

section \<open>Streams\<close>

record filestream =
  fst_fd :: int
  fst_line_buf :: int
  fst_bufp :: u32
  fst_contentp :: u32
  fst_buf :: buffer

record io_st = kfs_st +
  streams :: "u32 \<Rightarrow> filestream option"

type_synonym 'a ienv = "(knode, 'a io_st_scheme) fs_env"

definition set_stream :: "u32 \<Rightarrow> filestream \<Rightarrow> 'a io_st_scheme \<Rightarrow> 'a io_st_scheme" where
  "set_stream p st s = s\<lparr>streams := (streams s)(p \<mapsto> st)\<rparr>"

text \<open>0 is \<open>NULL\<close>.\<close>

definition fsOpen :: "'a ienv \<Rightarrow> string \<Rightarrow> int \<Rightarrow> 'a io_st_scheme \<Rightarrow> (u32 \<times> 'a io_st_scheme) option" where
  "fsOpen E path flags s = do {
     (fd, s) \<leftarrow> vfs_open E (Some path) flags s;
     if fd = -1 then Some (0, s)
     else do {
       (res, s) \<leftarrow> pmm_alloc 12 s;
       Assert (res \<noteq> 0);
       (buf, s) \<leftarrow> pmm_alloc 16 s;
       Assert (buf \<noteq> 0);
       (content, s) \<leftarrow> pmm_alloc 256 s;
       Assert (content \<noteq> 0);
       Some (res, set_stream res \<lparr>fst_fd = fd, fst_line_buf = 0, fst_bufp = buf, fst_contentp = content,
         fst_buf = buffer_init 256\<rparr> s) } }"

text \<open>What is between the position and the size of the buffer goes to the file.\<close>

definition fsFlush :: "'a ienv \<Rightarrow> u32 \<Rightarrow> 'a io_st_scheme \<Rightarrow> 'a io_st_scheme option" where
  "fsFlush E p s = do {
     st \<leftarrow> streams s p;
     let buf = fst_buf st;
     if buffer_isempty buf then Some s
     else do {
       let count = buf_size buf - buf_pos buf;
       Assert (buf_size buf \<le> length (content buf));
       (wrd, s) \<leftarrow> vfs_write E (fst_fd st) (map byte_of (bytes_at (buf_pos buf) count (content buf))) s;
       Assert (int count = wrd);
       st \<leftarrow> streams s p;
       Some (set_stream p (st\<lparr>fst_buf := (fst_buf st)\<lparr>buf_pos := 0, buf_size := 0\<rparr>\<rparr>) s) } }"

text \<open>The structure of the stream itself is not given back.\<close>

definition fsClose :: "'a ienv \<Rightarrow> u32 \<Rightarrow> 'a io_st_scheme \<Rightarrow> 'a io_st_scheme option" where
  "fsClose E p s =
     (if p = 0 then Some s
      else do {
        s \<leftarrow> fsFlush E p s;
        st \<leftarrow> streams s p;
        s \<leftarrow> pmm_free (fst_contentp st) s;
        s \<leftarrow> pmm_free (fst_bufp st) s;
        (cres, s) \<leftarrow> vfs_close E (fst_fd st) s;
        Some s })"

text \<open>\<open>buf_size\<close> is unsigned: a failed read makes it 2 ^ 32 - 1.\<close>

definition continue_read :: "'a ienv \<Rightarrow> u32 \<Rightarrow> 'a io_st_scheme \<Rightarrow> (int \<times> 'a io_st_scheme) option" where
  "continue_read E p s = do {
     st \<leftarrow> streams s p;
     s \<leftarrow> (if buffer_isempty (fst_buf st)
       then do {
         ((n, bs), s) \<leftarrow> vfs_read E (fst_fd st) (map byte_of (content (fst_buf st))) (buf_cap (fst_buf st)) s;
         Some (set_stream p (st\<lparr>fst_buf := (fst_buf st)\<lparr>content := map char_of_byte bs, buf_pos := 0,
           buf_size := unat (of_int n :: u32)\<rparr>\<rparr>) s) }
       else Some s);
     st \<leftarrow> streams s p;
     Some (if buffer_isempty (fst_buf st) then -1 else 0, s) }"

definition fsGetChar :: "'a ienv \<Rightarrow> u32 \<Rightarrow> 'a io_st_scheme \<Rightarrow> (int \<times> 'a io_st_scheme) option" where
  "fsGetChar E p s = do {
     Assert (p \<noteq> 0);
     (r, s) \<leftarrow> continue_read E p s;
     if r = -1 then Some (-1, s)
     else do {
       st \<leftarrow> streams s p;
       (c, buf) \<leftarrow> buffer_next (fst_buf st);
       Some (c, set_stream p (st\<lparr>fst_buf := buf\<rparr>) s) } }"

text \<open>The counter is \<open>size - readed\<close>; \<open>i\<close> is the place of \<open>tbuf\<close> in the caller's
  buffer. The result has the last place and whether something was read.\<close>

fun getline_loop ::
  "'a ienv \<Rightarrow> u32 \<Rightarrow> nat \<Rightarrow> bool \<Rightarrow> string \<Rightarrow> nat \<Rightarrow> 'a io_st_scheme \<Rightarrow> ((bool \<times> string \<times> nat) \<times> 'a io_st_scheme) option" where
  "getline_loop E p 0 got buf i s = Some ((got, buf, i), s)"
| "getline_loop E p (Suc n) got buf i s = do {
     (nc, s) \<leftarrow> fsGetChar E p s;
     if nc = -1 then Some ((got, buf, i), s)
     else if nc = 10 then Some ((True, buf, i), s)
     else do {
       Assert (i < length buf);
       getline_loop E p n True (buf[i := char_of (nat nc)]) (i + 1) s } }"

text \<open>Whether the result is a pointer, and the caller's buffer.\<close>

definition fsGetLine ::
  "'a ienv \<Rightarrow> u32 \<Rightarrow> string \<Rightarrow> nat \<Rightarrow> 'a io_st_scheme \<Rightarrow> ((bool \<times> string) \<times> 'a io_st_scheme) option" where
  "fsGetLine E p buf sz s = do {
     Assert (p \<noteq> 0);
     ((got, buf, i), s) \<leftarrow> getline_loop E p sz False buf 0 s;
     Assert (i < length buf);
     Some ((got, buf[i := CHR 0x00]), s) }"

definition fsPutChar :: "'a ienv \<Rightarrow> u32 \<Rightarrow> char \<Rightarrow> 'a io_st_scheme \<Rightarrow> 'a io_st_scheme option" where
  "fsPutChar E p c s = do {
     Assert (p \<noteq> 0);
     st \<leftarrow> streams s p;
     (r, buf) \<leftarrow> buffer_push (fst_buf st) c;
     let s = set_stream p (st\<lparr>fst_buf := buf\<rparr>) s;
     if r = -1 then do {
       s \<leftarrow> fsFlush E p s;
       st \<leftarrow> streams s p;
       (r, buf) \<leftarrow> buffer_push (fst_buf st) c;
       Assert (r \<noteq> -1);
       Some (set_stream p (st\<lparr>fst_buf := buf\<rparr>) s) }
     else Some s }"

fun put_chars :: "'a ienv \<Rightarrow> u32 \<Rightarrow> string \<Rightarrow> 'a io_st_scheme \<Rightarrow> 'a io_st_scheme option" where
  "put_chars E p [] s = Some s"
| "put_chars E p (c # cs) s = do {
     s \<leftarrow> fsPutChar E p c s;
     st \<leftarrow> streams s p;
     s \<leftarrow> (if fst_line_buf st \<noteq> 0 \<and> c = CHR 0x0A then fsFlush E p s else Some s);
     put_chars E p cs s }"

definition fsPrintf ::
  "'a ienv \<Rightarrow> u32 \<Rightarrow> string \<Rightarrow> varg list \<Rightarrow> 'a io_st_scheme \<Rightarrow> (int \<times> 'a io_st_scheme) option" where
  "fsPrintf E p fmt ap s = do {
     Assert (p \<noteq> 0);
     (ret, bf) \<leftarrow> vsnprintf (replicate 128 (CHR 0x00)) 128 fmt ap;
     s \<leftarrow> put_chars E p (takeWhile (\<lambda>c. c \<noteq> CHR 0x00) bf) s;
     Some (int ret, s) }"

definition fsPutLine :: "'a ienv \<Rightarrow> u32 \<Rightarrow> string \<Rightarrow> 'a io_st_scheme \<Rightarrow> 'a io_st_scheme option" where
  "fsPutLine E p str s = do {
     Assert (p \<noteq> 0);
     (_, s) \<leftarrow> fsPrintf E p (''%s'' @ nl) [A_str str] s;
     Some s }"

end
