(* ===== verification/Shell.thy ===== *)
theory Shell
  imports Io
begin

text \<open>
  The shell (\<open>shell.c\<close>): a command line is split at blanks into a head, arguments and
  redirections; the head names a file below \<open>/bin\<close> whose text is the address of the handler
  that runs the command. A string in the heap is the address of its block and its characters. The
  \<open>shell_data\<close> that all handlers share is in the state; a \<open>command\<close> is passed on as a value.
  Which handler lies at an address is decided by the linker: \<open>code\<close>.
\<close>

section \<open>Data\<close>

record shell_data =
  sh_name :: string
  sh_stdin :: u32
  sh_stdout :: u32
  sh_cwd :: string

record shell_st = io_st +
  shell :: shell_data

type_synonym 'a senv = "(knode, 'a shell_st_scheme) fs_env"
type_synonym kstr = "u32 \<times> string"

record command =
  c_head :: "kstr option"
  c_args :: "kstr list"
  c_stdin_path :: "kstr option"
  c_stderr_path :: "kstr option"
  c_stdout_path :: "kstr option"
  c_stdin :: u32
  c_stdout :: u32
  c_stderr :: u32

datatype redirectio_type = R_NONE | R_STDIN | R_STDOUT | R_STDERR

datatype cmd_id = Cmd_hello | Cmd_pwd | Cmd_cd | Cmd_ls | Cmd_cat | Cmd_echo | Cmd_mkdir | Cmd_rm | Cmd_ln |
  Cmd_cp | Cmd_mv | Cmd_alias | Cmd_unalias | Cmd_sh

definition command_handlers :: "(string \<times> cmd_id) list" where
  "command_handlers = [(''hello'', Cmd_hello), (''pwd'', Cmd_pwd), (''cd'', Cmd_cd), (''ls'', Cmd_ls), (''cat'', Cmd_cat),
     (''echo'', Cmd_echo), (''mkdir'', Cmd_mkdir), (''rm'', Cmd_rm), (''ln'', Cmd_ln), (''cp'', Cmd_cp), (''mv'', Cmd_mv),
     (''alias'', Cmd_alias), (''unalias'', Cmd_unalias), (''sh'', Cmd_sh)]"

definition N_ARGS :: nat where "N_ARGS = 16"

section \<open>Strings in the heap\<close>

definition new_string :: "nat \<Rightarrow> string \<Rightarrow> 'a pmm_scheme \<Rightarrow> (kstr \<times> 'a pmm_scheme) option" where
  "new_string n t s = do {
     (p, s) \<leftarrow> pmm_alloc (of_nat n) s;
     Assert (p \<noteq> 0);
     Assert (length t < n);
     Some ((p, t), s) }"

definition copy_string :: "string \<Rightarrow> 'a pmm_scheme \<Rightarrow> (kstr \<times> 'a pmm_scheme) option" where
  "copy_string t = new_string (length t + 1) (string_create_copy t)"

definition join_path :: "string \<Rightarrow> string \<Rightarrow> 'a pmm_scheme \<Rightarrow> (kstr \<times> 'a pmm_scheme) option" where
  "join_path base child = new_string (length base + length child + 2) (path_join base child)"

definition directory_of :: "string \<Rightarrow> 'a pmm_scheme \<Rightarrow> (kstr \<times> 'a pmm_scheme) option" where
  "directory_of path s = do {
     (buf, s) \<leftarrow> copy_string path s;
     d \<leftarrow> path_get_directory path;
     (res, s) \<leftarrow> new_string (length path + 1) d s;
     s \<leftarrow> pmm_free (fst buf) s;
     Some (res, s) }"

definition path_expand :: "string \<Rightarrow> 'a shell_st_scheme \<Rightarrow> (kstr \<times> 'a shell_st_scheme) option" where
  "path_expand path s =
     (if path = ''.'' then copy_string (sh_cwd (shell s)) s
      else if path = ''..'' then directory_of (sh_cwd (shell s)) s
      else if take 1 path = ''/'' then copy_string path s
      else join_path (sh_cwd (shell s)) path s)"

section \<open>Parsing\<close>

text \<open>A non-empty item of the line. The block of an item that is no head or argument is not given back.\<close>

definition parse_item ::
  "kstr \<Rightarrow> redirectio_type \<Rightarrow> command \<Rightarrow> 'a shell_st_scheme \<Rightarrow> ((redirectio_type \<times> command) \<times> 'a shell_st_scheme) option" where
  "parse_item item lastRedirect cmd s =
     (if snd item = ''<'' then Some ((if lastRedirect \<noteq> R_NONE then lastRedirect else R_STDIN, cmd), s)
      else if snd item = ''>'' \<or> snd item = ''1>''
      then Some ((if lastRedirect \<noteq> R_NONE then lastRedirect else R_STDOUT, cmd), s)
      else if snd item = ''2>'' then Some ((if lastRedirect \<noteq> R_NONE then lastRedirect else R_STDERR, cmd), s)
      else if lastRedirect \<noteq> R_NONE then do {
        (p, s) \<leftarrow> path_expand (snd item) s;
        Some ((R_NONE, (case lastRedirect of
             R_STDIN \<Rightarrow> cmd\<lparr>c_stdin_path := Some p\<rparr>
           | R_STDERR \<Rightarrow> cmd\<lparr>c_stderr_path := Some p\<rparr>
           | _ \<Rightarrow> cmd\<lparr>c_stdout_path := Some p\<rparr>)), s) }
      else (case c_head cmd of
          None \<Rightarrow> Some ((lastRedirect, cmd\<lparr>c_head := Some item\<rparr>), s)
        | Some _ \<Rightarrow> do {
            Assert (length (c_args cmd) < N_ARGS);
            Some ((lastRedirect, cmd\<lparr>c_args := c_args cmd @ [item]\<rparr>), s) }))"

definition take_item ::
  "string \<Rightarrow> redirectio_type \<Rightarrow> command \<Rightarrow> 'a shell_st_scheme \<Rightarrow> ((redirectio_type \<times> command) \<times> 'a shell_st_scheme) option" where
  "take_item t lastRedirect cmd s = do {
     (item, s) \<leftarrow> new_string 32 t s;
     if t \<noteq> [] then parse_item item lastRedirect cmd s
     else do { s \<leftarrow> pmm_free (fst item) s; Some ((lastRedirect, cmd), s) } }"

function parse_loop ::
  "string \<Rightarrow> redirectio_type \<Rightarrow> command \<Rightarrow> 'a shell_st_scheme \<Rightarrow> ((redirectio_type \<times> command) \<times> 'a shell_st_scheme) option" where
  "parse_loop t lastRedirect cmd s = (case str_index (CHR '' '') t of
       None \<Rightarrow> take_item t lastRedirect cmd s
     | Some tlen \<Rightarrow> do {
         ((lastRedirect, cmd), s) \<leftarrow> take_item (take tlen t) lastRedirect cmd s;
         parse_loop (drop (tlen + 1) t) lastRedirect cmd s })"
  by pat_completeness auto
termination
  by (relation "measure (\<lambda>(t, _). length t)") (auto dest: str_index_SomeD)

declare parse_loop.simps [simp del]

definition no_command :: command where
  "no_command = \<lparr>c_head = None, c_args = [], c_stdin_path = None, c_stderr_path = None, c_stdout_path = None,
     c_stdin = 0, c_stdout = 0, c_stderr = 0\<rparr>"

text \<open>The \<open>NULL\<close> behind the last argument needs a place in \<open>args\<close> too.\<close>

definition command_parse :: "string \<Rightarrow> 'a shell_st_scheme \<Rightarrow> (command \<times> 'a shell_st_scheme) option" where
  "command_parse line s = do {
     ((_, cmd), s) \<leftarrow> parse_loop line R_NONE no_command s;
     Assert (length (c_args cmd) < N_ARGS);
     Some (cmd, s) }"

section \<open>The streams of a command\<close>

definition free_stream :: "u32 \<Rightarrow> 'a io_st_scheme \<Rightarrow> 'a io_st_scheme option" where
  "free_stream p s = do { s \<leftarrow> pmm_free p s; Some (s\<lparr>streams := (streams s)(p := None)\<rparr>) }"

fun free_strings :: "kstr list \<Rightarrow> 'a pmm_scheme \<Rightarrow> 'a pmm_scheme option" where
  "free_strings [] s = Some s"
| "free_strings (x # xs) s = do { s \<leftarrow> pmm_free (fst x) s; free_strings xs s }"

definition close_redirect :: "'a senv \<Rightarrow> kstr option \<Rightarrow> u32 \<Rightarrow> 'a shell_st_scheme \<Rightarrow> 'a shell_st_scheme option" where
  "close_redirect E path fs s = (case path of
       None \<Rightarrow> Some s
     | Some p \<Rightarrow> do {
         s \<leftarrow> pmm_free (fst p) s;
         s \<leftarrow> fsClose E fs s;
         free_stream fs s })"

definition command_free :: "'a senv \<Rightarrow> command \<Rightarrow> 'a shell_st_scheme \<Rightarrow> 'a shell_st_scheme option" where
  "command_free E cmd s = do {
     s \<leftarrow> free_strings (case c_head cmd of None \<Rightarrow> [] | Some h \<Rightarrow> [h]) s;
     s \<leftarrow> free_strings (c_args cmd) s;
     s \<leftarrow> close_redirect E (c_stderr_path cmd) (c_stderr cmd) s;
     s \<leftarrow> close_redirect E (c_stdout_path cmd) (c_stdout cmd) s;
     close_redirect E (c_stdin_path cmd) (c_stdin cmd) s }"

definition cant :: string where "cant = ''Can'' @ [CHR 0x27] @ ''t ''"

text \<open>One of the three streams: the shell's own, or the file of the redirection, if that opens.\<close>

definition open_redirect ::
  "'a senv \<Rightarrow> kstr option \<Rightarrow> int \<Rightarrow> u32 \<Rightarrow> 'a shell_st_scheme \<Rightarrow> (u32 option \<times> 'a shell_st_scheme) option" where
  "open_redirect E path flags own s = (case path of
       None \<Rightarrow> Some (Some own, s)
     | Some p \<Rightarrow> do {
         (fs, s) \<leftarrow> fsOpen E (snd p) flags s;
         if fs = 0 then do {
           (_, s) \<leftarrow> fsPrintf E (sh_stdout (shell s)) (cant @ ''open the file %s'' @ nl) [A_str (snd p)] s;
           Some (None, s) }
         else Some (Some fs, s) })"

definition command_openfs :: "'a senv \<Rightarrow> command \<Rightarrow> 'a shell_st_scheme \<Rightarrow> (int \<times> command \<times> 'a shell_st_scheme) option" where
  "command_openfs E cmd s = do {
     (i, s) \<leftarrow> open_redirect E (c_stdin_path cmd) FILE_READ (sh_stdin (shell s)) s;
     case i of None \<Rightarrow> Some (-1, cmd, s) | Some i \<Rightarrow> do {
       let cmd = cmd\<lparr>c_stdin := i\<rparr>;
       (out, s) \<leftarrow> open_redirect E (c_stdout_path cmd) FILE_WRITE (sh_stdout (shell s)) s;
       case out of None \<Rightarrow> Some (-1, cmd, s) | Some out \<Rightarrow> do {
         let cmd = cmd\<lparr>c_stdout := out\<rparr>;
         (err, s) \<leftarrow> open_redirect E (c_stderr_path cmd) FILE_WRITE (sh_stdout (shell s)) s;
         case err of None \<Rightarrow> Some (-1, cmd, s) | Some err \<Rightarrow> Some (0, cmd\<lparr>c_stderr := err\<rparr>, s) } } }"

section \<open>Commands\<close>

type_synonym 'a handler = "command \<Rightarrow> 'a shell_st_scheme \<Rightarrow> (int \<times> 'a shell_st_scheme) option"

text \<open>A message and an exit code.\<close>

definition put_exit :: "'a senv \<Rightarrow> u32 \<Rightarrow> string \<Rightarrow> int \<Rightarrow> 'a shell_st_scheme \<Rightarrow> (int \<times> 'a shell_st_scheme) option" where
  "put_exit E p msg r s = do { s \<leftarrow> fsPutLine E p msg s; Some (r, s) }"

definition cmd_hello :: "'a senv \<Rightarrow> 'a handler" where
  "cmd_hello E cmd s = put_exit E (c_stdout cmd) (''Hello world from StardustDL'' @ [CHR 0x27] @ ''s shell!'') 0 s"

definition cmd_pwd :: "'a senv \<Rightarrow> 'a handler" where
  "cmd_pwd E cmd s = put_exit E (c_stdout cmd) (sh_cwd (shell s)) 0 s"

definition cmd_cd :: "'a senv \<Rightarrow> 'a handler" where
  "cmd_cd E cmd s = (case c_args cmd of
       [arg] \<Rightarrow> do {
         (target_dir, s) \<leftarrow> path_expand (snd arg) s;
         (res, s) \<leftarrow> vfs_access E (Some (snd target_dir)) DIR_EXIST s;
         if res = 0 then do {
           Assert (length (snd target_dir) < 128);
           let s = s\<lparr>shell := (shell s)\<lparr>sh_cwd := snd target_dir\<rparr>\<rparr>;
           s \<leftarrow> pmm_free (fst target_dir) s;
           Some (0, s) }
         else do {
           (_, s) \<leftarrow> fsPrintf E (sh_stdout (shell s)) (cant @ ''access the directory %s'' @ nl) [A_str (snd target_dir)] s;
           s \<leftarrow> pmm_free (fst target_dir) s;
           Some (-1, s) } }
     | _ \<Rightarrow> put_exit E (c_stderr cmd) ''cd needs 1 argument.'' (-1) s)"

fun put_spaces :: "'a senv \<Rightarrow> u32 \<Rightarrow> nat \<Rightarrow> 'a shell_st_scheme \<Rightarrow> 'a shell_st_scheme option" where
  "put_spaces E p 0 s = Some s"
| "put_spaces E p (Suc n) s = do { s \<leftarrow> fsPutChar E p (CHR '' '') s; put_spaces E p n s }"

fun ls_tag :: "item_type \<Rightarrow> string" where
  "ls_tag ITEM_DIR = ''D  %s''"
| "ls_tag ITEM_FILE = ''F  %s''"
| "ls_tag ITEM_LINK = ''L  %s''"

fun ls_loop :: "'a senv \<Rightarrow> u32 \<Rightarrow> fslist \<Rightarrow> nat \<Rightarrow> 'a shell_st_scheme \<Rightarrow> (nat \<times> 'a shell_st_scheme) option" where
  "ls_loop E p [] cnt s = Some (cnt, s)"
| "ls_loop E p ((name, ty) # fl) cnt s = do {
     (_, s) \<leftarrow> fsPrintf E p (ls_tag ty) [A_str name] s;
     s \<leftarrow> put_spaces E p (20 - length name) s;
     s \<leftarrow> (if (cnt + 1) mod 2 = 0 then fsPutChar E p (CHR 0x0A) s else Some s);
     ls_loop E p fl (cnt + 1) s }"

definition list_directory :: "'a senv \<Rightarrow> command \<Rightarrow> string \<Rightarrow> 'a shell_st_scheme \<Rightarrow> (int \<times> 'a shell_st_scheme) option" where
  "list_directory E cmd filepath s = do {
     (res, s) \<leftarrow> vfs_access E (Some filepath) DIR_EXIST s;
     if res = 0 then do {
       (fl, s) \<leftarrow> vfs_readdir E (Some filepath) s;
       (cnt, s) \<leftarrow> ls_loop E (c_stdout cmd) fl 0 s;
       s \<leftarrow> (if cnt mod 2 = 1 then fsPutChar E (c_stdout cmd) (CHR 0x0A) s else Some s);
       Some (res, s) }
     else do {
       (_, s) \<leftarrow> fsPrintf E (c_stderr cmd) (cant @ ''access the directory %s'' @ nl) [A_str filepath] s;
       Some (res, s) } }"

definition cmd_ls :: "'a senv \<Rightarrow> 'a handler" where
  "cmd_ls E cmd s = (case c_args cmd of
       [] \<Rightarrow> list_directory E cmd (sh_cwd (shell s)) s
     | [arg] \<Rightarrow> do {
         (filepath, s) \<leftarrow> path_expand (snd arg) s;
         (res, s) \<leftarrow> list_directory E cmd (snd filepath) s;
         s \<leftarrow> pmm_free (fst filepath) s;
         Some (res, s) }
     | _ \<Rightarrow> put_exit E (c_stderr cmd) ''ls needs 0 or 1 argument.'' (-1) s)"

text \<open>\<open>fsPutChar\<close> takes a \<open>char\<close>.\<close>

partial_function (option) cat_loop ::
  "'a senv \<Rightarrow> u32 \<Rightarrow> u32 \<Rightarrow> int \<Rightarrow> int \<Rightarrow> 'a shell_st_scheme \<Rightarrow> 'a shell_st_scheme option" where
  "cat_loop E inp out endchar ch s =
     (if ch \<noteq> endchar then do {
        s \<leftarrow> fsPutChar E out (char_of (nat (ch mod 256))) s;
        (ch, s) \<leftarrow> fsGetChar E inp s;
        cat_loop E inp out endchar ch s }
      else Some s)"

definition cmd_cat :: "'a senv \<Rightarrow> 'a handler" where
  "cmd_cat E cmd s =
     (if c_args cmd \<noteq> [] then put_exit E (c_stderr cmd) ''cat needs 0 argument.'' (-1) s
      else do {
        (ch, s) \<leftarrow> fsGetChar E (c_stdin cmd) s;
        let endchar = (if sh_stdin (shell s) = c_stdin cmd then of_char tty_char_ctrlD else -1);
        s \<leftarrow> cat_loop E (c_stdin cmd) (c_stdout cmd) endchar ch s;
        s \<leftarrow> (if sh_stdin (shell s) = c_stdin cmd
          then do { (_, s) \<leftarrow> fsGetChar E (c_stdin cmd) s; Some s }
          else Some s);
        s \<leftarrow> fsFlush E (c_stdout cmd) s;
        Some (0, s) })"

definition cmd_echo :: "'a senv \<Rightarrow> 'a handler" where
  "cmd_echo E cmd s = (case c_args cmd of
       [arg] \<Rightarrow> put_exit E (c_stdout cmd) (snd arg) 0 s
     | _ \<Rightarrow> put_exit E (c_stderr cmd) ''echo needs 1 argument.'' (-1) s)"

text \<open>\<open>mkdir\<close> and \<open>rm\<close> on a path joined to the working directory.\<close>

definition cmd_mkdir :: "'a senv \<Rightarrow> 'a handler" where
  "cmd_mkdir E cmd s = (case c_args cmd of
       [arg] \<Rightarrow> do {
         (filepath, s) \<leftarrow> join_path (sh_cwd (shell s)) (snd arg) s;
         (res, s) \<leftarrow> vfs_mkdir E (Some (snd filepath)) s;
         s \<leftarrow> (if res \<noteq> 0 then do {
             (_, s) \<leftarrow> fsPrintf E (c_stderr cmd) (''mkdir %s failed.'' @ nl) [A_str (snd filepath)] s; Some s }
           else Some s);
         s \<leftarrow> pmm_free (fst filepath) s;
         Some (res, s) }
     | _ \<Rightarrow> put_exit E (c_stderr cmd) ''mkdir needs 1 argument.'' (-1) s)"

definition cmd_rm :: "'a senv \<Rightarrow> 'a handler" where
  "cmd_rm E cmd s = (case c_args cmd of
       [arg] \<Rightarrow> do {
         (filepath, s) \<leftarrow> join_path (sh_cwd (shell s)) (snd arg) s;
         (res, s) \<leftarrow> vfs_rm E (Some (snd filepath)) s;
         s \<leftarrow> (if res \<noteq> 0 then do {
             (_, s) \<leftarrow> fsPrintf E (c_stderr cmd) (''rm %s failed.'' @ nl) [A_str (snd filepath)] s; Some s }
           else Some s);
         s \<leftarrow> pmm_free (fst filepath) s;
         Some (res, s) }
     | _ \<Rightarrow> put_exit E (c_stderr cmd) ''rm needs 1 argument.'' (-1) s)"

definition cmd_ln :: "'a senv \<Rightarrow> 'a handler" where
  "cmd_ln E cmd s = (case c_args cmd of
       [arg, brg] \<Rightarrow> do {
         (old, s) \<leftarrow> path_expand (snd arg) s;
         (new, s) \<leftarrow> path_expand (snd brg) s;
         (res, s) \<leftarrow> vfs_link E (Some (snd old)) (Some (snd new)) s;
         s \<leftarrow> (if res \<noteq> 0 then do {
             (_, s) \<leftarrow> fsPrintf E (c_stderr cmd) (''ln %s %s failed.'' @ nl) [A_str (snd old), A_str (snd new)] s; Some s }
           else Some s);
         s \<leftarrow> pmm_free (fst old) s;
         s \<leftarrow> pmm_free (fst new) s;
         Some (res, s) }
     | _ \<Rightarrow> put_exit E (c_stderr cmd) ''ln needs 2 argument.'' (-1) s)"

section \<open>Commands that run commands\<close>

text \<open>\<open>run\<close> is \<open>parse_execute\<close>. The line is composed in a block of 128 bytes,
  next to a block for the command.\<close>

type_synonym 'a runner = "string \<Rightarrow> 'a shell_st_scheme \<Rightarrow> (int \<times> 'a shell_st_scheme) option"

definition line_blocks :: "'a pmm_scheme \<Rightarrow> ((u32 \<times> u32) \<times> 'a pmm_scheme) option" where
  "line_blocks s = do {
     (buf, s) \<leftarrow> pmm_alloc 128 s;
     Assert (buf \<noteq> 0);
     (subcmd, s) \<leftarrow> pmm_alloc 96 s;
     Assert (subcmd \<noteq> 0);
     Some ((buf, subcmd), s) }"

definition free_blocks :: "u32 \<times> u32 \<Rightarrow> 'a pmm_scheme \<Rightarrow> 'a pmm_scheme option" where
  "free_blocks b s = do { s \<leftarrow> pmm_free (snd b) s; pmm_free (fst b) s }"

definition run_line ::
  "'a runner \<Rightarrow> string \<Rightarrow> varg list \<Rightarrow> 'a shell_st_scheme \<Rightarrow> (int \<times> 'a shell_st_scheme) option" where
  "run_line run fmt ap s = do { line \<leftarrow> proc_sprintf fmt ap; run line s }"

definition cmd_cp :: "'a senv \<Rightarrow> 'a runner \<Rightarrow> 'a handler" where
  "cmd_cp E run cmd s = (case c_args cmd of
       [arg, brg] \<Rightarrow> do {
         (b, s) \<leftarrow> line_blocks s;
         (res, s) \<leftarrow> run_line run ''cat < %s > %s'' [A_str (snd arg), A_str (snd brg)] s;
         s \<leftarrow> free_blocks b s;
         Some (res, s) }
     | _ \<Rightarrow> put_exit E (c_stderr cmd) ''cp needs 2 argument.'' (-1) s)"

definition cmd_mv :: "'a senv \<Rightarrow> 'a runner \<Rightarrow> 'a handler" where
  "cmd_mv E run cmd s = (case c_args cmd of
       [arg, brg] \<Rightarrow> do {
         (b, s) \<leftarrow> line_blocks s;
         (res, s) \<leftarrow> run_line run ''ln %s %s'' [A_str (snd arg), A_str (snd brg)] s;
         (res, s) \<leftarrow> (if res = 0 then run_line run ''rm %s'' [A_str (snd arg)] s else Some (res, s));
         s \<leftarrow> free_blocks b s;
         Some (res, s) }
     | _ \<Rightarrow> put_exit E (c_stderr cmd) ''mv needs 2 argument.'' (-1) s)"

definition cmd_alias :: "'a senv \<Rightarrow> 'a runner \<Rightarrow> 'a handler" where
  "cmd_alias E run cmd s = (case c_args cmd of
       [arg, brg] \<Rightarrow> do {
         (b, s) \<leftarrow> line_blocks s;
         (res, s) \<leftarrow> run_line run ''ln /bin/%s /bin/%s'' [A_str (snd arg), A_str (snd brg)] s;
         s \<leftarrow> free_blocks b s;
         Some (res, s) }
     | _ \<Rightarrow> put_exit E (c_stderr cmd) ''alias needs 2 argument.'' (-1) s)"

definition cmd_unalias :: "'a senv \<Rightarrow> 'a runner \<Rightarrow> 'a handler" where
  "cmd_unalias E run cmd s = (case c_args cmd of
       [arg] \<Rightarrow> do {
         (b, s) \<leftarrow> line_blocks s;
         (res, s) \<leftarrow> run_line run ''rm /bin/%s'' [A_str (snd arg)] s;
         s \<leftarrow> free_blocks b s;
         Some (res, s) }
     | _ \<Rightarrow> put_exit E (c_stderr cmd) ''unalias needs 1 argument.'' (-1) s)"

text \<open>The C string at the start of a buffer.\<close>

definition text_of :: "string \<Rightarrow> string" where
  "text_of buf = takeWhile (\<lambda>c. c \<noteq> CHR 0x00) buf"

partial_function (option) sh_loop ::
  "'a senv \<Rightarrow> 'a runner \<Rightarrow> command \<Rightarrow> string \<Rightarrow> 'a shell_st_scheme \<Rightarrow> (int \<times> 'a shell_st_scheme) option" where
  "sh_loop E run cmd buf s = do {
     ((ok, buf), s) \<leftarrow> fsGetLine E (c_stdin cmd) buf 128 s;
     if \<not> ok then Some (0, s)
     else do {
       (tres, s) \<leftarrow> run (text_of buf) s;
       if tres \<noteq> 0 then do {
         (_, s) \<leftarrow> fsPrintf E (c_stderr cmd) ''sh: %s failed.'' [A_str (text_of buf)] s;
         Some (-1, s) }
       else sh_loop E run cmd buf s } }"

definition cmd_sh :: "'a senv \<Rightarrow> 'a runner \<Rightarrow> 'a handler" where
  "cmd_sh E run cmd s =
     (if c_args cmd \<noteq> [] then put_exit E (c_stderr cmd) ''sh needs 0 argument.'' (-1) s
      else do {
        (b, s) \<leftarrow> line_blocks s;
        (res, s) \<leftarrow> sh_loop E run cmd (replicate 128 (CHR 0x00)) s;
        s \<leftarrow> free_blocks b s;
        Some (res, s) })"

fun run_handler :: "cmd_id \<Rightarrow> 'a senv \<Rightarrow> 'a runner \<Rightarrow> 'a handler" where
  "run_handler Cmd_hello E run = cmd_hello E"
| "run_handler Cmd_pwd E run = cmd_pwd E"
| "run_handler Cmd_cd E run = cmd_cd E"
| "run_handler Cmd_ls E run = cmd_ls E"
| "run_handler Cmd_cat E run = cmd_cat E"
| "run_handler Cmd_echo E run = cmd_echo E"
| "run_handler Cmd_mkdir E run = cmd_mkdir E"
| "run_handler Cmd_rm E run = cmd_rm E"
| "run_handler Cmd_ln E run = cmd_ln E"
| "run_handler Cmd_cp E run = cmd_cp E run"
| "run_handler Cmd_mv E run = cmd_mv E run"
| "run_handler Cmd_alias E run = cmd_alias E run"
| "run_handler Cmd_unalias E run = cmd_unalias E run"
| "run_handler Cmd_sh E run = cmd_sh E run"

section \<open>Finding and running a command\<close>

text \<open>The handler's address, 0 if there is none. The buffer of the line is not given back.\<close>

definition find_handler :: "'a senv \<Rightarrow> string \<Rightarrow> 'a shell_st_scheme \<Rightarrow> (u32 \<times> 'a shell_st_scheme) option" where
  "find_handler E head s = do {
     (res, s) \<leftarrow> vfs_access E (Some head) FILE_EXIST s;
     ((res, filepath), s) \<leftarrow> (if res = -1 then do {
         (filepath, s) \<leftarrow> join_path ''/bin'' head s;
         (res, s) \<leftarrow> vfs_access E (Some (snd filepath)) FILE_EXIST s;
         Some ((res, filepath), s) }
       else do { (filepath, s) \<leftarrow> copy_string head s; Some ((res, filepath), s) });
     (handler, s) \<leftarrow> (if res \<noteq> -1 then do {
         (fs, s) \<leftarrow> fsOpen E (snd filepath) FILE_READ s;
         (buf, s) \<leftarrow> pmm_alloc 128 s;
         Assert (buf \<noteq> 0);
         ((ok, line), s) \<leftarrow> fsGetLine E fs (replicate 128 (CHR 0x00)) 128 s;
         Assert ok;
         s \<leftarrow> fsClose E fs s;
         let (r, hptr) = atoi (text_of line);
         if r = 0 then Some (ucast hptr, s)
         else do {
           (_, s) \<leftarrow> fsPrintf E (sh_stdout (shell s)) ''The file %s is not executable.'' [A_str (snd filepath)] s;
           Some (0, s) } }
       else Some (0, s));
     s \<leftarrow> pmm_free (fst filepath) s;
     Some (handler, s) }"

definition execute_command ::
  "'a senv \<Rightarrow> (u32 \<Rightarrow> cmd_id option) \<Rightarrow> 'a runner \<Rightarrow> kstr \<Rightarrow> command \<Rightarrow> 'a shell_st_scheme \<Rightarrow>
   (int \<times> command \<times> 'a shell_st_scheme) option" where
  "execute_command E code run head cmd s = do {
     (handler, s) \<leftarrow> find_handler E (snd head) s;
     if handler = 0 then do {
       (_, s) \<leftarrow> fsPrintf E (sh_stdout (shell s)) (''Unrecognizable command: %s with %d args'' @ nl)
         [A_str (snd head), A_word (of_nat (length (c_args cmd)))] s;
       Some (-1, cmd, s) }
     else do {
       (_, cmd, s) \<leftarrow> command_openfs E cmd s;
       if c_stdin cmd = 0 \<or> c_stdout cmd = 0 \<or> c_stderr cmd = 0 then do {
         s \<leftarrow> fsPutLine E (sh_stdout (shell s)) ''Unable to redirect I/O'' s;
         Some (-1, cmd, s) }
       else do {
         h \<leftarrow> code handler;
         (r, s) \<leftarrow> run_handler h E run cmd s;
         Some (r, cmd, s) } } }"

text \<open>The number bounds how deep commands run commands: \<open>None\<close> when the stack of calls is deeper.\<close>

fun parse_execute :: "nat \<Rightarrow> 'a senv \<Rightarrow> (u32 \<Rightarrow> cmd_id option) \<Rightarrow> 'a runner" where
  "parse_execute 0 E code line s = None"
| "parse_execute (Suc n) E code line s = do {
     (cmd, s) \<leftarrow> command_parse line s;
     case c_head cmd of
       None \<Rightarrow> Some (0, s)
     | Some head \<Rightarrow> do {
         (exitCode, cmd, s) \<leftarrow> execute_command E code (parse_execute n E code) head cmd s;
         s \<leftarrow> command_free E cmd s;
         s \<leftarrow> fsFlush E (sh_stdout (shell s)) s;
         Some (exitCode, s) } }"

section \<open>The task of a shell\<close>

definition shell_init :: "'a senv \<Rightarrow> u32 \<Rightarrow> 'a shell_st_scheme \<Rightarrow> 'a shell_st_scheme option" where
  "shell_init E tty_id s = do {
     (my, s) \<leftarrow> pmm_alloc 16 s;
     Assert (my \<noteq> 0);
     (cwd, s) \<leftarrow> pmm_alloc 16 s;
     Assert (cwd \<noteq> 0);
     (_, s) \<leftarrow> new_string 128 ''/'' s;
     name \<leftarrow> proc_sprintf ''tty-%d'' [A_word tty_id];
     (name, s) \<leftarrow> new_string 16 name s;
     tty \<leftarrow> proc_sprintf ''/dev/tty%d'' [A_word tty_id];
     (inp, s) \<leftarrow> fsOpen E tty FILE_READ s;
     (out, s) \<leftarrow> fsOpen E tty FILE_WRITE s;
     (cmd, s) \<leftarrow> pmm_alloc 96 s;
     Assert (cmd \<noteq> 0);
     Some (s\<lparr>shell := \<lparr>sh_name = snd name, sh_stdin = inp, sh_stdout = out, sh_cwd = ''/''\<rparr>\<rparr>) }"

text \<open>One round: the prompt, a line, its command. The buffer stays on the stack of the task.\<close>

definition shell_step ::
  "'a senv \<Rightarrow> (u32 \<Rightarrow> cmd_id option) \<Rightarrow> nat \<Rightarrow> string \<Rightarrow> 'a shell_st_scheme \<Rightarrow> ((int \<times> string) \<times> 'a shell_st_scheme) option" where
  "shell_step E code n buf s = do {
     (_, s) \<leftarrow> fsPrintf E (sh_stdout (shell s)) ''(%s) %s $ '' [A_str (sh_name (shell s)), A_str (sh_cwd (shell s))] s;
     s \<leftarrow> fsFlush E (sh_stdout (shell s)) s;
     ((ok, buf), s) \<leftarrow> fsGetLine E (sh_stdin (shell s)) buf 128 s;
     Assert ok;
     (exitCode, s) \<leftarrow> parse_execute n E code (text_of buf) s;
     Some ((exitCode, buf), s) }"

text \<open>The states at the prompt; the task never returns.\<close>

inductive shell_task :: "'a senv \<Rightarrow> (u32 \<Rightarrow> cmd_id option) \<Rightarrow> u32 \<Rightarrow> string \<Rightarrow> 'a shell_st_scheme \<Rightarrow> 'a shell_st_scheme \<Rightarrow> bool"
  for E code tty_id where
  start: "shell_init E tty_id s = Some s' \<Longrightarrow> length buf = 128 \<Longrightarrow> shell_task E code tty_id buf s s'"
| next_line: "shell_task E code tty_id buf s s' \<Longrightarrow> shell_step E code n buf s' = Some ((exitCode, buf'), s'') \<Longrightarrow>
     shell_task E code tty_id buf' s s''"

end
