(* ===== verification/IoProps.thy ===== *)
theory IoProps
  imports Io
begin

text \<open>
  Buffering is transparent. The locales state what a descriptor promises to a stream: a sink takes all
  bytes it is given, a source delivers what is left from the front. Inside them, the functions of
  \<open>io.c\<close> are shown to work on the plain sequence of bytes: those put so far, those not yet got.
\<close>

section \<open>The buffer of a stream\<close>

definition pending :: "buffer \<Rightarrow> u8 list" where
  "pending b = map byte_of (bytes_at (buf_pos b) (buf_size b - buf_pos b) (content b))"

definition buf_ok :: "buffer \<Rightarrow> bool" where
  "buf_ok b \<longleftrightarrow> length (content b) = 256 \<and> buf_cap b = 256 \<and> buf_pos b \<le> buf_size b \<and> buf_size b \<le> 256"

lemma pending_empty: "buf_ok b \<Longrightarrow> pending b = [] \<longleftrightarrow> buffer_isempty b"
  by (auto simp: pending_def buf_ok_def buffer_isempty_def bytes_at_def)

lemma length_pending: "buf_ok b \<Longrightarrow> length (pending b) = buf_size b - buf_pos b"
  by (auto simp: pending_def buf_ok_def)

lemma buf_ok_init [simp]: "buf_ok (buffer_init 256)" "pending (buffer_init 256) = []"
  by (simp_all add: buf_ok_def pending_def buffer_init_def bytes_at_def)

lemma buf_ok_reset [simp]: "buf_ok b \<Longrightarrow> buf_ok (b\<lparr>buf_pos := 0, buf_size := 0\<rparr>)"
  "pending (b\<lparr>buf_pos := 0, buf_size := 0\<rparr>) = []"
  by (simp_all add: buf_ok_def pending_def bytes_at_def)

text \<open>Pushing a character other than the one that reads as -1.\<close>

lemma char_int_eof: "char_int c = -1 \<longleftrightarrow> c = CHR 0xFF"
proof -
  have "byte_of c = byte_of (CHR 0xFF) \<longleftrightarrow> c = CHR 0xFF" by simp
  moreover have "byte_of (CHR 0xFF) = -1" by (simp add: byte_of_def)
  moreover have "sint (byte_of c) = -1 \<longleftrightarrow> byte_of c = -1"
    by (metis signed_minus_1 signed_word_eqI)
  ultimately show ?thesis by (simp add: char_int_def)
qed

lemma buffer_push_room:
  assumes "buf_ok b" "buf_size b < 256"
  shows "\<exists>b'. buffer_push b c = Some (char_int c, b') \<and> buf_ok b' \<and> pending b' = pending b @ [byte_of c] \<and>
     buf_pos b' = buf_pos b"
proof -
  let ?b = "b\<lparr>content := (content b)[buf_size b := c], buf_size := buf_size b + 1\<rparr>"
  have p: "buffer_push b c = Some (char_int c, ?b)" "buf_ok ?b"
    using assms by (simp_all add: buffer_push_def buf_ok_def)
  have "bytes_at (buf_pos b) (buf_size b + 1 - buf_pos b) ((content b)[buf_size b := c]) =
      bytes_at (buf_pos b) (buf_size b - buf_pos b) (content b) @ [c]"
    using assms by (intro nth_equalityI) (auto simp: buf_ok_def nth_bytes_at nth_append nth_list_update)
  then have "pending ?b = pending b @ [byte_of c]" by (simp add: pending_def)
  then show ?thesis using p by auto
qed

lemma buffer_push_full: "buf_ok b \<Longrightarrow> \<not> buf_size b < 256 \<Longrightarrow> buffer_push b c = Some (-1, b)"
  by (simp add: buffer_push_def buf_ok_def)

lemma buffer_next_pending:
  assumes "buf_ok b" "pending b = x # xs"
  shows "\<exists>b'. buffer_next b = Some (int (unat x), b') \<and> buf_ok b' \<and> pending b' = xs"
proof -
  have n: "buf_pos b < buf_size b" using assms pending_empty [OF assms(1)] by (simp add: buffer_isempty_def)
  have "bytes_at (buf_pos b) (buf_size b - buf_pos b) (content b) =
      (content b ! buf_pos b) # bytes_at (buf_pos b + 1) (buf_size b - (buf_pos b + 1)) (content b)"
    using n assms(1) by (simp add: bytes_at_def buf_ok_def Cons_nth_drop_Suc [symmetric] take_Cons' )
  then have e: "x = byte_of (content b ! buf_pos b)"
    "xs = map byte_of (bytes_at (buf_pos b + 1) (buf_size b - (buf_pos b + 1)) (content b))"
    using assms(2) by (simp_all add: pending_def)
  have "int (unat x) = int (of_char (content b ! buf_pos b))"
    unfolding e(1) byte_of_def using of_char_lt_256 [of "content b ! buf_pos b"]
    by (simp add: unat_of_nat take_bit_eq_mod)
  then have "int (unat x) = of_char (content b ! buf_pos b)" by (simp only: of_nat_of_char)
  then show ?thesis
    using n assms(1) e(2) by (simp add: buffer_next_def buffer_isempty_def buf_ok_def pending_def)
qed

lemma format_line: "length l < BUFFER_SIZE - 1 \<Longrightarrow> format (''%s'' @ nl) [A_str l] = Some (l @ nl)"
  by (simp add: nl_def directive_def isdigit_def islower_def zero_fill_def field_def)

section \<open>Lines\<close>

text \<open>Writing lines, and reading up to \<open>n\<close> of them, each into a zeroed buffer of 128 bytes as the shell has it.\<close>

fun put_lines :: "'a ienv \<Rightarrow> u32 \<Rightarrow> string list \<Rightarrow> 'a io_st_scheme \<Rightarrow> 'a io_st_scheme option" where
  "put_lines E p [] s = Some s"
| "put_lines E p (l # ls) s = do { s \<leftarrow> fsPutLine E p l s; put_lines E p ls s }"

fun get_lines :: "'a ienv \<Rightarrow> u32 \<Rightarrow> nat \<Rightarrow> 'a io_st_scheme \<Rightarrow> (string list \<times> 'a io_st_scheme) option" where
  "get_lines E p 0 s = Some ([], s)"
| "get_lines E p (Suc n) s = do {
     ((ok, buf), s) \<leftarrow> fsGetLine E p (replicate 128 (CHR 0x00)) 128 s;
     if ok then do {
       (ls, s) \<leftarrow> get_lines E p n s;
       Some (takeWhile (\<lambda>c. c \<noteq> CHR 0x00) buf # ls, s) }
     else Some ([], s) }"

definition line_bytes :: "string list \<Rightarrow> u8 list" where
  "line_bytes ls = map byte_of (concat (map (\<lambda>l. l @ nl) ls))"

lemma line_bytes_simps [simp]: "line_bytes [] = []" "line_bytes (l # ls) = map byte_of (l @ nl) @ line_bytes ls"
  by (simp_all add: line_bytes_def)

text \<open>What \<open>fsPutLine\<close> writes whole, and \<open>fsGetLine\<close> delivers whole.\<close>

definition text_line :: "string \<Rightarrow> bool" where
  "text_line l \<longleftrightarrow> CHR 0x00 \<notin> set l \<and> CHR 0x0A \<notin> set l \<and> CHR 0xFF \<notin> set l \<and> length l < 127"

text \<open>A stream as \<open>fsOpen\<close> makes it.\<close>

definition new_stream :: "u32 \<Rightarrow> int \<Rightarrow> 'a io_st_scheme \<Rightarrow> bool" where
  "new_stream p fd s \<longleftrightarrow> p \<noteq> 0 \<and> (\<exists>st. streams s p = Some st \<and> fst_fd st = fd \<and> fst_buf st = buffer_init 256)"

section \<open>Sinks\<close>

locale fd_sink =
  fixes E :: "'a ienv" and fd :: int and ready :: "'a io_st_scheme \<Rightarrow> u8 list \<Rightarrow> bool" and cap :: nat
  assumes write_ok: "ready s bs \<Longrightarrow> cs \<noteq> [] \<Longrightarrow> length bs + length cs \<le> cap \<Longrightarrow>
      \<exists>s'. vfs_write E fd cs s = Some (int (length cs), s') \<and> ready s' (bs @ cs) \<and> streams s' = streams s"
    and ready_streams: "ready (s\<lparr>streams := f\<rparr>) bs = ready s bs"
begin

definition put :: "u32 \<Rightarrow> u8 list \<Rightarrow> 'a io_st_scheme \<Rightarrow> bool" where
  "put p bs s \<longleftrightarrow> p \<noteq> 0 \<and> (\<exists>st b. streams s p = Some st \<and> fst_fd st = fd \<and> buf_ok (fst_buf st) \<and>
     buf_pos (fst_buf st) = 0 \<and> ready s b \<and> bs = b @ pending (fst_buf st))"

lemma flush_ok:
  assumes "put p bs s" "length bs \<le> cap"
  shows "\<exists>s' st. fsFlush E p s = Some s' \<and> put p bs s' \<and> ready s' bs \<and> (\<forall>q. q \<noteq> p \<longrightarrow> streams s' q = streams s q) \<and>
     streams s' p = Some st \<and> fst_fd st = fd \<and> buf_ok (fst_buf st) \<and> buf_size (fst_buf st) = 0 \<and> buf_pos (fst_buf st) = 0 \<and>
     map_option fst_line_buf (streams s p) = Some (fst_line_buf st)"
proof -
  obtain st b where st: "p \<noteq> 0" "streams s p = Some st" "fst_fd st = fd" "buf_ok (fst_buf st)" "ready s b"
    "bs = b @ pending (fst_buf st)" "buf_pos (fst_buf st) = 0" using assms(1) by (auto simp: put_def)
  show ?thesis
  proof (cases "buffer_isempty (fst_buf st)")
    case True
    then have "pending (fst_buf st) = []" using pending_empty [OF st(4)] by simp
    then show ?thesis using st assms(1) True by (simp add: fsFlush_def buffer_isempty_def buf_ok_def)
  next
    case False
    let ?cs = "pending (fst_buf st)"
    have ne: "?cs \<noteq> []" using False pending_empty [OF st(4)] by simp
    have cnt: "length ?cs = buf_size (fst_buf st) - buf_pos (fst_buf st)" by (rule length_pending [OF st(4)])
    obtain s1 where w: "vfs_write E fd ?cs s = Some (int (length ?cs), s1)" "ready s1 (b @ ?cs)" "streams s1 = streams s"
      using write_ok [OF st(5) ne] assms(2) st(6) by auto
    let ?st = "st\<lparr>fst_buf := (fst_buf st)\<lparr>buf_pos := 0, buf_size := 0\<rparr>\<rparr>"
    have "fsFlush E p s = Some (set_stream p ?st s1)"
      using False st(2-4) w(1,3) cnt by (simp add: fsFlush_def pending_def buf_ok_def Let_def)
    moreover have "ready (set_stream p ?st s1) bs" using w(2) st(6) by (simp add: set_stream_def ready_streams)
    ultimately show ?thesis using st w(3) by (auto simp: put_def set_stream_def)
  qed
qed

lemma put_char_ok:
  assumes "put p bs s" "length bs \<le> cap" "c \<noteq> CHR 0xFF"
  shows "\<exists>s'. fsPutChar E p c s = Some s' \<and> put p (bs @ [byte_of c]) s' \<and> (\<forall>q. q \<noteq> p \<longrightarrow> streams s' q = streams s q)"
proof -
  obtain st b where st: "p \<noteq> 0" "streams s p = Some st" "fst_fd st = fd" "buf_ok (fst_buf st)" "ready s b"
    "bs = b @ pending (fst_buf st)" "buf_pos (fst_buf st) = 0" using assms(1) by (auto simp: put_def)
  have nc: "char_int c \<noteq> -1" using assms(3) by (simp add: char_int_eof)
  show ?thesis
  proof (cases "buf_size (fst_buf st) < 256")
    case True
    then obtain b' where b': "buffer_push (fst_buf st) c = Some (char_int c, b')" "buf_ok b'"
      "pending b' = pending (fst_buf st) @ [byte_of c]" "buf_pos b' = 0" using buffer_push_room [OF st(4) True, of c] st(7) by auto
    then have "fsPutChar E p c s = Some (set_stream p (st\<lparr>fst_buf := b'\<rparr>) s)"
      using st(1,2) nc by (simp add: fsPutChar_def Let_def)
    moreover have "put p (bs @ [byte_of c]) (set_stream p (st\<lparr>fst_buf := b'\<rparr>) s)"
      using st b' by (auto simp: put_def set_stream_def ready_streams)
    ultimately show ?thesis by (auto simp: set_stream_def)
  next
    case False
    then have f: "buffer_push (fst_buf st) c = Some (-1, fst_buf st)" using buffer_push_full [OF st(4)] by simp
    have same: "set_stream p (st\<lparr>fst_buf := fst_buf st\<rparr>) s = s" using st(2) by (simp add: set_stream_def fun_upd_idem)
    obtain s1 st1 where f1: "fsFlush E p s = Some s1" "put p bs s1" "ready s1 bs" "\<forall>q. q \<noteq> p \<longrightarrow> streams s1 q = streams s q"
      "streams s1 p = Some st1" "fst_fd st1 = fd" "buf_ok (fst_buf st1)" "buf_size (fst_buf st1) = 0" "buf_pos (fst_buf st1) = 0"
      using flush_ok [OF assms(1,2)] by blast
    obtain b' where b': "buffer_push (fst_buf st1) c = Some (char_int c, b')" "buf_ok b'"
      "pending b' = pending (fst_buf st1) @ [byte_of c]" "buf_pos b' = 0"
      using buffer_push_room [OF f1(7), of c] f1(8,9) by auto
    have "pending (fst_buf st1) = []" using length_pending [OF f1(7)] f1(8) by simp
    then have "put p (bs @ [byte_of c]) (set_stream p (st1\<lparr>fst_buf := b'\<rparr>) s1)"
      using st(1) f1 b' by (auto simp: put_def set_stream_def ready_streams)
    moreover have "fsPutChar E p c s = Some (set_stream p (st1\<lparr>fst_buf := b'\<rparr>) s1)"
      using st(1,2) f same f1(1,5) b'(1) nc by (simp add: fsPutChar_def Let_def)
    ultimately show ?thesis using f1(4) by (auto simp: set_stream_def)
  qed
qed

lemma put_char_ff:
  assumes "put p bs s" "length bs < cap"
  shows "fsPutChar E p (CHR 0xFF) s = None"
proof -
  obtain st b where st: "p \<noteq> 0" "streams s p = Some st" "fst_fd st = fd" "buf_ok (fst_buf st)" "ready s b"
    "bs = b @ pending (fst_buf st)" "buf_pos (fst_buf st) = 0" using assms(1) by (auto simp: put_def)
  have ff: "char_int (CHR 0xFF) = -1" by (simp add: char_int_eof)
  obtain b' cs where b': "buffer_push (fst_buf st) (CHR 0xFF) = Some (-1, b')" "put p (bs @ cs) (set_stream p (st\<lparr>fst_buf := b'\<rparr>) s)"
    "length cs \<le> 1"
  proof (cases "buf_size (fst_buf st) < 256")
    case True
    then obtain b' where b': "buffer_push (fst_buf st) (CHR 0xFF) = Some (-1, b')" "buf_ok b'"
      "pending b' = pending (fst_buf st) @ [byte_of (CHR 0xFF)]" "buf_pos b' = 0"
      using buffer_push_room [OF st(4) True, of "CHR 0xFF"] st(7) ff by auto
    have "put p (bs @ [byte_of (CHR 0xFF)]) (set_stream p (st\<lparr>fst_buf := b'\<rparr>) s)"
      using st b' by (auto simp: put_def set_stream_def ready_streams)
    then show ?thesis using that b'(1) by simp
  next
    case False
    have "set_stream p (st\<lparr>fst_buf := fst_buf st\<rparr>) s = s" using st(2) by (simp add: set_stream_def fun_upd_idem)
    then show ?thesis using that [of "fst_buf st" "[]"] buffer_push_full [OF st(4) False] assms(1) by simp
  qed
  have "length (bs @ cs) \<le> cap" using assms(2) b'(3) by simp
  then obtain s1 st1 where f: "fsFlush E p (set_stream p (st\<lparr>fst_buf := b'\<rparr>) s) = Some s1" "streams s1 p = Some st1"
    "buf_ok (fst_buf st1)" "buf_size (fst_buf st1) = 0" using flush_ok [OF b'(2)] by blast
  obtain b2 where "buffer_push (fst_buf st1) (CHR 0xFF) = Some (-1, b2)"
    using buffer_push_room [OF f(3), of "CHR 0xFF"] f(4) ff by auto
  then show ?thesis using st(1,2) b'(1) f(1,2) by (simp add: fsPutChar_def Let_def)
qed

lemma put_nc:
  assumes "put p bs s"
  shows "p \<noteq> 0" "\<exists>st. streams s p = Some st"
  using assms by (auto simp: put_def)

lemma put_chars_ok:
  "put p bs s \<Longrightarrow> CHR 0xFF \<notin> set cs \<Longrightarrow> length bs + length cs \<le> cap \<Longrightarrow>
   \<exists>s'. put_chars E p cs s = Some s' \<and> put p (bs @ map byte_of cs) s' \<and> (\<forall>q. q \<noteq> p \<longrightarrow> streams s' q = streams s q)"
proof (induction cs arbitrary: bs s)
  case (Cons c cs)
  obtain s1 where s1: "fsPutChar E p c s = Some s1" "put p (bs @ [byte_of c]) s1" "\<forall>q. q \<noteq> p \<longrightarrow> streams s1 q = streams s q"
    using put_char_ok [OF Cons.prems(1), of c] Cons.prems(2,3) by auto
  obtain st where st: "streams s1 p = Some st" using put_nc [OF s1(2)] by blast
  obtain s2 where s2: "(if fst_line_buf st \<noteq> 0 \<and> c = CHR 0x0A then fsFlush E p s1 else Some s1) = Some s2"
    "put p (bs @ [byte_of c]) s2" "\<forall>q. q \<noteq> p \<longrightarrow> streams s2 q = streams s1 q"
    using flush_ok [OF s1(2)] s1(2) Cons.prems(3) by (cases "fst_line_buf st \<noteq> 0 \<and> c = CHR 0x0A") auto
  show ?case using Cons.IH [OF s2(2)] Cons.prems(2,3) s1 st s2 by auto
qed auto

lemma printf_ok:
  assumes "put p bs s" "format fmt ap = Some t" "CHR 0x00 \<notin> set t" "CHR 0xFF \<notin> set t" "length t < 128"
    "length bs + length t \<le> cap"
  shows "\<exists>s'. fsPrintf E p fmt ap s = Some (int (length t), s') \<and> put p (bs @ map byte_of t) s' \<and>
     (\<forall>q. q \<noteq> p \<longrightarrow> streams s' q = streams s q)"
proof -
  have v: "vsnprintf (replicate 128 (CHR 0x00)) 128 fmt ap = Some (length t, put_at 0 (t @ [CHR 0x00]) (replicate 128 (CHR 0x00)))"
    by (rule vsnprintf_run) (use assms in simp_all)
  have "takeWhile (\<lambda>c. c \<noteq> CHR 0x00) (put_at 0 (t @ [CHR 0x00]) (replicate 128 (CHR 0x00))) = t"
    using takeWhile_nul [OF assms(3)] by (simp add: put_at_def)
  then show ?thesis
    using put_chars_ok [OF assms(1,4,6)] put_nc [OF assms(1)] v by (auto simp: fsPrintf_def)
qed

lemma put_line_ok:
  assumes "put p bs s" "CHR 0x00 \<notin> set l" "CHR 0xFF \<notin> set l" "length l < 127" "length bs + length l < cap"
  shows "\<exists>s'. fsPutLine E p l s = Some s' \<and> put p (bs @ map byte_of (l @ nl)) s' \<and>
     (\<forall>q. q \<noteq> p \<longrightarrow> streams s' q = streams s q)"
proof -
  have "format (''%s'' @ nl) [A_str l] = Some (l @ nl)" by (rule format_line) (use assms(4) in \<open>simp add: BUFFER_SIZE_def\<close>)
  then show ?thesis
    using printf_ok [OF assms(1), of "''%s'' @ nl" "[A_str l]" "l @ nl"] assms(2-5) put_nc [OF assms(1)]
    by (auto simp: fsPutLine_def nl_def)
qed

lemma put_new: "new_stream p fd s \<Longrightarrow> ready s bs \<Longrightarrow> put p bs s"
  by (auto simp: new_stream_def put_def buffer_init_def pending_def bytes_at_def buf_ok_def)

lemma put_lines_ok:
  "put p bs s \<Longrightarrow> \<forall>l\<in>set ls. text_line l \<Longrightarrow> length bs + length (line_bytes ls) \<le> cap \<Longrightarrow>
   \<exists>s'. put_lines E p ls s = Some s' \<and> put p (bs @ line_bytes ls) s'"
proof (induction ls arbitrary: bs s)
  case (Cons l ls)
  obtain s1 where s1: "fsPutLine E p l s = Some s1" "put p (bs @ map byte_of (l @ nl)) s1"
    using put_line_ok [OF Cons.prems(1), of l] Cons.prems(2,3) by (auto simp: text_line_def nl_def)
  show ?case using Cons.IH [OF s1(2)] Cons.prems(2,3) s1(1) by (auto simp: nl_def)
qed simp

end

text \<open>A byte that is got, as a character.\<close>

lemma got_char: "char_of (unat (byte_of c)) = c" "int (unat (byte_of c)) = 10 \<longleftrightarrow> c = CHR 0x0A" "int (unat (byte_of c)) \<noteq> -1"
proof -
  show e: "char_of (unat (byte_of c)) = c" by (rule char_of_byte_of [unfolded char_of_byte_def])
  have "unat (byte_of (CHR 0x0A)) = 10" by (simp add: byte_of_def)
  moreover have "int (unat (byte_of c)) = 10 \<longleftrightarrow> unat (byte_of c) = 10" by linarith
  moreover have "char_of (10 :: nat) = CHR 0x0A" by code_simp
  ultimately show "int (unat (byte_of c)) = 10 \<longleftrightarrow> c = CHR 0x0A" using e by metis
  show "int (unat (byte_of c)) \<noteq> -1" by linarith
qed

section \<open>Sources\<close>

locale fd_source =
  fixes E :: "'a ienv" and fd :: int and holds :: "'a io_st_scheme \<Rightarrow> u8 list \<Rightarrow> bool"
  assumes read_ok: "holds s bs \<Longrightarrow> bs \<noteq> [] \<Longrightarrow> length buf = 256 \<Longrightarrow>
      \<exists>n s'. vfs_read E fd buf 256 s = Some ((int n, put_at 0 (take n bs) buf), s') \<and> 0 < n \<and> n \<le> 256 \<and>
        n \<le> length bs \<and> holds s' (drop n bs) \<and> streams s' = streams s"
    and holds_streams: "holds (s\<lparr>streams := f\<rparr>) bs = holds s bs"
begin

definition got :: "u32 \<Rightarrow> u8 list \<Rightarrow> 'a io_st_scheme \<Rightarrow> bool" where
  "got p bs s \<longleftrightarrow> p \<noteq> 0 \<and> (\<exists>st b. streams s p = Some st \<and> fst_fd st = fd \<and> buf_ok (fst_buf st) \<and>
     holds s b \<and> bs = pending (fst_buf st) @ b)"

lemma refill:
  assumes "got p bs s" "bs \<noteq> []"
  shows "\<exists>s' st. continue_read E p s = Some (0, s') \<and> got p bs s' \<and> streams s' p = Some st \<and>
     pending (fst_buf st) \<noteq> [] \<and> (\<forall>q. q \<noteq> p \<longrightarrow> streams s' q = streams s q)"
proof -
  obtain st b where st: "p \<noteq> 0" "streams s p = Some st" "fst_fd st = fd" "buf_ok (fst_buf st)" "holds s b"
    "bs = pending (fst_buf st) @ b" using assms(1) by (auto simp: got_def)
  show ?thesis
  proof (cases "buffer_isempty (fst_buf st)")
    case False
    then show ?thesis using st assms(1) pending_empty [OF st(4)] by (simp add: continue_read_def)
  next
    case True
    then have b: "b = bs" using pending_empty [OF st(4)] st(6) by simp
    let ?buf = "map byte_of (content (fst_buf st))"
    obtain n s1 where r: "vfs_read E fd ?buf 256 s = Some ((int n, put_at 0 (take n bs) ?buf), s1)" "0 < n" "n \<le> 256"
      "n \<le> length bs" "holds s1 (drop n bs)" "streams s1 = streams s"
      using read_ok [OF st(5), of ?buf] assms(2) b st(4) by (auto simp: buf_ok_def)
    let ?b = "(fst_buf st)\<lparr>content := map char_of_byte (put_at 0 (take n bs) ?buf), buf_pos := 0, buf_size := n\<rparr>"
    have n: "unat (of_int (int n) :: u32) = n" using r(3) by (simp add: unat_of_nat32)
    have ok: "buf_ok ?b" using st(4) r(3,4) by (simp add: buf_ok_def)
    have pe: "pending ?b = take n bs" using r(3,4) by (simp add: pending_def put_at_def bytes_at_def o_def)
    have ne: "\<not> buffer_isempty ?b" using r(2) by (simp add: buffer_isempty_def)
    let ?s = "set_stream p (st\<lparr>fst_buf := ?b\<rparr>) s1"
    have "continue_read E p s = Some (0, ?s)"
      using st(2-4) True r(1) n ne by (simp add: continue_read_def buf_ok_def set_stream_def)
    moreover have "got p bs ?s"
      using st(1,3) ok pe r(5) by (auto simp: got_def set_stream_def holds_streams)
    moreover have "pending ?b \<noteq> []" using pe r(2) assms(2) by simp
    ultimately show ?thesis using r(6) by (auto simp: set_stream_def)
  qed
qed

lemma get_char_ok:
  assumes "got p (x # bs) s"
  shows "\<exists>s'. fsGetChar E p s = Some (int (unat x), s') \<and> got p bs s' \<and> (\<forall>q. q \<noteq> p \<longrightarrow> streams s' q = streams s q)"
proof -
  obtain s1 st where r: "continue_read E p s = Some (0, s1)" "got p (x # bs) s1" "streams s1 p = Some st"
    "pending (fst_buf st) \<noteq> []" "\<forall>q. q \<noteq> p \<longrightarrow> streams s1 q = streams s q" using refill [OF assms] by auto
  then obtain b xs where st: "p \<noteq> 0" "fst_fd st = fd" "buf_ok (fst_buf st)" "holds s1 b"
    "pending (fst_buf st) = x # xs" "bs = xs @ b" by (auto simp: got_def neq_Nil_conv)
  obtain b' where b': "buffer_next (fst_buf st) = Some (int (unat x), b')" "buf_ok b'" "pending b' = xs"
    using buffer_next_pending [OF st(3,5)] by blast
  have "fsGetChar E p s = Some (int (unat x), set_stream p (st\<lparr>fst_buf := b'\<rparr>) s1)"
    using st(1) r(1,3) b'(1) by (simp add: fsGetChar_def)
  moreover have "got p bs (set_stream p (st\<lparr>fst_buf := b'\<rparr>) s1)"
    using st b' by (auto simp: got_def set_stream_def holds_streams)
  ultimately show ?thesis using r(5) by (auto simp: set_stream_def)
qed

lemma getline_line:
  assumes "got p (map byte_of l @ 10 # bs) s" "CHR 0x0A \<notin> set l" "length l < n" "i + length l < length buf"
  shows "\<exists>s'. getline_loop E p n g buf i s = Some ((True, put_at i l buf, i + length l), s') \<and> got p bs s' \<and>
     (\<forall>q. q \<noteq> p \<longrightarrow> streams s' q = streams s q)"
  using assms
proof (induction l arbitrary: n g buf i s)
  case Nil
  then obtain n' where n: "n = Suc n'" by (cases n) auto
  show ?case using get_char_ok [of p 10 bs s] Nil.prems n by auto
next
  case (Cons c l)
  then obtain n' where n: "n = Suc n'" by (cases n) auto
  obtain s1 where s1: "fsGetChar E p s = Some (int (unat (byte_of c)), s1)" "got p (map byte_of l @ 10 # bs) s1"
    "\<forall>q. q \<noteq> p \<longrightarrow> streams s1 q = streams s q"
    using get_char_ok [of p "byte_of c" "map byte_of l @ 10 # bs" s] Cons.prems(1) by auto
  obtain s2 where s2: "getline_loop E p n' True (buf[i := c]) (i + 1) s1 =
      Some ((True, put_at (i + 1) l (buf[i := c]), i + 1 + length l), s2)" "got p bs s2"
    "\<forall>q. q \<noteq> p \<longrightarrow> streams s2 q = streams s1 q"
    using Cons.IH [OF s1(2), of n' "i + 1" "buf[i := c]" True] Cons.prems n by auto
  have "put_at (i + 1) l (buf[i := c]) = put_at i (c # l) buf" using Cons.prems(4) by (simp add: put_at_Cons)
  then have "getline_loop E p n g buf i s = Some ((True, put_at i (c # l) buf, i + length (c # l)), s2)"
    using n s1(1) s2(1) Cons.prems(2,4) got_char [of c] by (auto simp del: of_nat_unat)
  then show ?case using s1(3) s2(2,3) by auto
qed

lemma get_line_ok:
  assumes "got p (map byte_of l @ 10 # bs) s" "CHR 0x0A \<notin> set l" "length l < n" "length l < length buf"
  shows "\<exists>s'. fsGetLine E p buf n s = Some ((True, put_at 0 (l @ [CHR 0x00]) buf), s') \<and> got p bs s' \<and>
     (\<forall>q. q \<noteq> p \<longrightarrow> streams s' q = streams s q)"
proof -
  have "(put_at 0 l buf)[length l := CHR 0x00] = put_at 0 (l @ [CHR 0x00]) buf"
    using assms(4) by (simp add: put_at_def list_update_append Cons_nth_drop_Suc [symmetric])
  moreover have "p \<noteq> 0" using assms(1) by (simp add: got_def)
  moreover note getline_line [OF assms(1,2,3), of 0 buf False]
  ultimately show ?thesis using assms(4) by (auto simp: fsGetLine_def)
qed

lemma got_new: "new_stream p fd s \<Longrightarrow> holds s bs \<Longrightarrow> got p bs s"
  by (auto simp: new_stream_def got_def buffer_init_def pending_def bytes_at_def buf_ok_def)

lemma get_lines_ok:
  "got p (line_bytes ls @ bs) s \<Longrightarrow> \<forall>l\<in>set ls. text_line l \<Longrightarrow>
   \<exists>s'. get_lines E p (length ls) s = Some (ls, s') \<and> got p bs s'"
proof (induction ls arbitrary: s)
  case (Cons l ls)
  have l: "CHR 0x00 \<notin> set l" "CHR 0x0A \<notin> set l" "length l < 127" using Cons.prems(2) by (simp_all add: text_line_def)
  have b: "byte_of (CHR 0x0A) = 10" by (simp add: byte_of_def)
  obtain s1 where s1: "fsGetLine E p (replicate 128 (CHR 0x00)) 128 s =
      Some ((True, put_at 0 (l @ [CHR 0x00]) (replicate 128 (CHR 0x00))), s1)" "got p (line_bytes ls @ bs) s1"
    using get_line_ok [of p l "line_bytes ls @ bs" s 128 "replicate 128 (CHR 0x00)"] Cons.prems(1) l b by (auto simp: nl_def)
  have "takeWhile (\<lambda>c. c \<noteq> CHR 0x00) (put_at 0 (l @ [CHR 0x00]) (replicate 128 (CHR 0x00))) = l"
    using takeWhile_nul [OF l(1)] by (simp add: put_at_def)
  then show ?case using Cons.IH [OF s1(2)] Cons.prems(2) s1(1) by auto
qed simp

end

text \<open>A source that ends: reading there returns 0.\<close>

locale fd_source_end = fd_source E fd holds
  for E :: "'a ienv" and fd :: int and holds :: "'a io_st_scheme \<Rightarrow> u8 list \<Rightarrow> bool" +
  assumes read_end: "holds s [] \<Longrightarrow> length buf = 256 \<Longrightarrow>
      \<exists>s'. vfs_read E fd buf 256 s = Some ((0, buf), s') \<and> holds s' [] \<and> streams s' = streams s"
begin

lemma end_char:
  assumes "got p [] s"
  shows "\<exists>s'. fsGetChar E p s = Some (-1, s') \<and> got p [] s' \<and> (\<forall>q. q \<noteq> p \<longrightarrow> streams s' q = streams s q)"
proof -
  obtain st where st: "p \<noteq> 0" "streams s p = Some st" "fst_fd st = fd" "buf_ok (fst_buf st)" "holds s []"
    "pending (fst_buf st) = []" using assms by (auto simp: got_def)
  have e: "buffer_isempty (fst_buf st)" using pending_empty [OF st(4)] st(6) by simp
  let ?buf = "map byte_of (content (fst_buf st))"
  have c: "map char_of_byte ?buf = content (fst_buf st)" by (simp add: o_def)
  obtain s1 where r: "vfs_read E fd ?buf 256 s = Some ((0, ?buf), s1)" "holds s1 []" "streams s1 = streams s"
    using read_end [OF st(5), of ?buf] st(4) by (auto simp: buf_ok_def)
  let ?s = "set_stream p (st\<lparr>fst_buf := (fst_buf st)\<lparr>buf_pos := 0, buf_size := 0\<rparr>\<rparr>) s1"
  have e2: "buffer_isempty ((fst_buf st)\<lparr>content := content (fst_buf st), buf_pos := 0, buf_size := 0\<rparr>)"
    by (simp add: buffer_isempty_def)
  have "fsGetChar E p s = Some (-1, ?s)"
    using st(1-4) e r(1) e2 c by (simp add: fsGetChar_def continue_read_def buf_ok_def set_stream_def)
  moreover have "got p [] ?s"
    using st(1,3,4) r(2) by (auto simp: got_def set_stream_def holds_streams)
  ultimately show ?thesis using r(3) by (auto simp: set_stream_def)
qed

lemma end_line:
  assumes "got p [] s" "buf \<noteq> []" "0 < n"
  shows "\<exists>s'. fsGetLine E p buf n s = Some ((False, buf[0 := CHR 0x00]), s') \<and> got p [] s'"
proof -
  obtain s1 where "fsGetChar E p s = Some (-1, s1)" "got p [] s1" using end_char [OF assms(1)] by blast
  moreover have "p \<noteq> 0" using assms(1) by (simp add: got_def)
  moreover obtain n' where "n = Suc n'" using assms(3) by (cases n) auto
  ultimately show ?thesis using assms(2) by (simp add: fsGetLine_def)
qed

end

end
