(* ===== verification/VfsProps.thy ===== *)
theory VfsProps
  imports Vfs TtyProps "HOL-Library.Sublist"
begin

text \<open>
  Correctness of \<open>vfs.c\<close>: the file system of a path is that of the longest mount point that is
  a prefix of it, \<open>open\<close> takes the lowest free descriptor and \<open>close\<close> gives it back, mounting
  and unmounting are inverse, and what \<open>link\<close> does across mount points.
\<close>

section \<open>Locks\<close>

definition vfs_idle :: "('n, 'a) vfs_st_scheme \<Rightarrow> bool" where
  "vfs_idle s \<longleftrightarrow> cli_ok s \<and> lock_free (vfs_lock s) \<and> lock_free (mount_list_lock s) \<and>
     lock_free (file_list_lock s)"

abbreviation V :: "('n, 'a) vfs_st_scheme \<Rightarrow> ('n, 'a) vfs_st_scheme" where
  "V \<equiv> vfs_lk.entered"

lemma V_sel [simp]:
  "mountlist (V s) = mountlist s" "filelist (V s) = filelist s" "files (V s) = files s"
  "task_list (V s) = task_list s" "current (V s) = current s" "cur_cpu (V s) = cur_cpu s"
  "cur_addr (V s) = cur_addr s" "mount_list_lock (V s) = mount_list_lock s"
  "file_list_lock (V s) = file_list_lock s" "current_task (V s) = current_task s"
  by (simp_all add: vfs_lk.entered_def pushed_def cur_addr_def current_task_def)

lemma V_cli: "cli_ok s \<Longrightarrow> cli_ok (V s)"
  by (rule inside_cli_ok [OF vfs_lk.inside_entered])

lemma V_upd:
  "(V s)\<lparr>mountlist := ms\<rparr> = V (s\<lparr>mountlist := ms\<rparr>)" "(V s)\<lparr>filelist := fl\<rparr> = V (s\<lparr>filelist := fl\<rparr>)"
  "(V s)\<lparr>files := fs\<rparr> = V (s\<lparr>files := fs\<rparr>)" "(V s)\<lparr>task_list := ts\<rparr> = V (s\<lparr>task_list := ts\<rparr>)"
  "(V s)\<lparr>mem := m, pm_head := h\<rparr> = V (s\<lparr>mem := m, pm_head := h\<rparr>)"
  by (simp_all add: vfs_lk.entered_def pushed_def hw_defs)

lemma vlock_idle: "vfs_idle s \<Longrightarrow> vlock s = Some (V s)"
  by (simp add: vfs_idle_def vfs_lk.lock_on_free)

lemma vunlock_V: "vfs_idle s \<Longrightarrow> vunlock (V s) = Some s"
  using vfs_lk.bracket [of s] by (simp add: vfs_idle_def vfs_lk.lock_on_free)

lemma outside_V:
  "vfs_idle s \<Longrightarrow> f s = Some (r, s') \<Longrightarrow> vfs_idle s' \<Longrightarrow> outside f (V s) = Some (r, V s')"
  by (simp add: outside_def vunlock_V vlock_idle)

lemma mnt_bracket:
  assumes "cli_ok s" "lock_free (mount_list_lock s)"
  shows "lock_on mount_list_lock mount_list_lock_update s = Some (mnt_lk.entered s)"
    and "unlock_on mount_list_lock mount_list_lock_update (mnt_lk.entered s) = Some s"
  using mnt_lk.bracket [OF assms] assms by (simp_all add: mnt_lk.lock_on_free)

lemma fl_bracket:
  assumes "cli_ok s" "lock_free (file_list_lock s)"
  shows "lock_on file_list_lock file_list_lock_update s = Some (fl_lk.entered s)"
    and "unlock_on file_list_lock file_list_lock_update (fl_lk.entered s) = Some s"
  using fl_lk.bracket [OF assms] assms by (simp_all add: fl_lk.lock_on_free)

lemma mnt_entered [simp]:
  "mountlist (mnt_lk.entered s) = mountlist s"
  "(mnt_lk.entered s)\<lparr>mountlist := ms\<rparr> = mnt_lk.entered (s\<lparr>mountlist := ms\<rparr>)"
  by (simp_all add: mnt_lk.entered_def pushed_def hw_defs)

lemma fl_entered [simp]:
  "filelist (fl_lk.entered s) = filelist s"
  "(fl_lk.entered s)\<lparr>filelist := fl\<rparr> = fl_lk.entered (s\<lparr>filelist := fl\<rparr>)"
  by (simp_all add: fl_lk.entered_def pushed_def hw_defs)

lemma idle_upd [simp]:
  "vfs_idle (s\<lparr>mountlist := ms\<rparr>) = vfs_idle s" "vfs_idle (s\<lparr>filelist := fl\<rparr>) = vfs_idle s"
  "vfs_idle (s\<lparr>files := f\<rparr>) = vfs_idle s" "vfs_idle (s\<lparr>task_list := ts\<rparr>) = vfs_idle s"
  "vfs_idle (s\<lparr>mem := m, pm_head := h\<rparr>) = vfs_idle s"
  by (simp_all add: vfs_idle_def cli_ok_def hw_defs)

section \<open>The file system for a path\<close>

text \<open>\<open>get_mount_fs\<close> without its lock.\<close>

definition find_mount :: "string \<Rightarrow> mount_node list \<Rightarrow> (mount_node \<times> string) option option" where
  "find_mount p ms = (case best_mount p ms (-1) None of
       (best, None) \<Rightarrow> Some None
     | (best, Some mn) \<Rightarrow> map_option (\<lambda>sub. Some (mn, sub)) (sub_path p (nat best)))"

lemma get_mount_eq:
  "cli_ok s \<Longrightarrow> lock_free (mount_list_lock s) \<Longrightarrow>
   get_mount_fs (Some p) s = map_option (\<lambda>r. (r, s)) (find_mount p (mountlist s))"
proof -
  assume "cli_ok s" "lock_free (mount_list_lock s)"
  moreover obtain best res where "best_mount p (mountlist s) (-1) None = (best, res)" by fastforce
  ultimately show ?thesis
    by (cases res; cases "sub_path p (nat best)") (simp_all add: get_mount_fs_def find_mount_def mnt_bracket)
qed

lemma get_mount_V:
  "vfs_idle s \<Longrightarrow> get_mount_fs (Some p) (V s) = map_option (\<lambda>r. (r, V s)) (find_mount p (mountlist s))"
  using get_mount_eq [of "V s" p] V_cli [of s] by (simp add: vfs_idle_def)

lemma best_mount_spec:
  "best_mount p ms b r = (b', r') \<Longrightarrow> (r = None \<and> b = -1) \<or> (\<exists>m. r = Some m \<and> b = int (length (mn_path m)) \<and> prefix (mn_path m) p) \<Longrightarrow>
   (r' = None \<and> b' = -1 \<or> (\<exists>m. r' = Some m \<and> b' = int (length (mn_path m)) \<and> prefix (mn_path m) p)) \<and>
   b \<le> b' \<and> (r' = r \<or> (\<exists>m\<in>set ms. r' = Some m)) \<and>
   (\<forall>m\<in>set ms. prefix (mn_path m) p \<longrightarrow> int (length (mn_path m)) \<le> b')"
proof (induction ms arbitrary: b r)
  case (Cons m ms)
  have pre: "take (length (mn_path m)) p = mn_path m \<longleftrightarrow> prefix (mn_path m) p"
    by (metis append_eq_conv_conj prefix_def)
  show ?case
  proof (cases "prefix (mn_path m) p \<and> b < int (length (mn_path m))")
    case True
    then have "best_mount p ms (int (length (mn_path m))) (Some m) = (b', r')"
      using Cons.prems(1) pre by (simp add: Let_def)
    from Cons.IH [OF this] True show ?thesis by auto
  next
    case False
    then have "best_mount p ms b r = (b', r')" using Cons.prems(1) pre by (auto simp: Let_def)
    from Cons.IH [OF this Cons.prems(2)] False show ?thesis by auto
  qed
qed simp

text \<open>The rest of the path, with the slash that belongs to the mount point when the rest has none of
  its own.\<close>

definition rest_of :: "string \<Rightarrow> string \<Rightarrow> string" where
  "rest_of mp p = (let r = drop (length mp) p in
     if r = [] then ''/'' else if hd r = CHR ''/'' then r else last mp # r)"

lemma sub_path_rest: "prefix mp p \<Longrightarrow> mp \<noteq> [] \<Longrightarrow> sub_path p (length mp) = Some (rest_of mp p)"
proof -
  assume "prefix mp p" "mp \<noteq> []"
  then obtain r where p: "p = mp @ r" by (auto simp: prefix_def)
  have "drop (length mp - 1) mp = [last mp]"
    using \<open>mp \<noteq> []\<close> by (cases mp rule: rev_cases) auto
  then show ?thesis using \<open>mp \<noteq> []\<close> by (cases r) (auto simp: p sub_path_def rest_of_def)
qed

text \<open>C26: A path belongs to the longest mount point that is a prefix of it, and the file system gets
  the rest of the path; without one, no file system is found. Nothing changes and the lock is
  free again. The prefix is one of characters, not of components: with only \<open>/dev\<close> mounted, the path
  \<open>/device\<close> goes to that file system, as the relative path \<open>vice\<close>.\<close>
theorem mount_longest_prefix:
  assumes "cli_ok s" "lock_free (mount_list_lock s)" "\<forall>m\<in>set (mountlist s). mn_path m \<noteq> []"
  shows "((\<forall>m\<in>set (mountlist s). \<not> prefix (mn_path m) p) \<longrightarrow> get_mount_fs (Some p) s = Some (None, s)) \<and>
     ((\<exists>m\<in>set (mountlist s). prefix (mn_path m) p) \<longrightarrow>
        (\<exists>mn\<in>set (mountlist s). prefix (mn_path mn) p \<and>
           (\<forall>m\<in>set (mountlist s). prefix (mn_path m) p \<longrightarrow> length (mn_path m) \<le> length (mn_path mn)) \<and>
           get_mount_fs (Some p) s = Some (Some (mn, rest_of (mn_path mn) p), s))) \<and>
     (\<forall>fs. mountlist s = [\<lparr>mn_path = ''/dev'', mn_fs = fs\<rparr>] \<longrightarrow>
        get_mount_fs (Some ''/device'') s = Some (Some (\<lparr>mn_path = ''/dev'', mn_fs = fs\<rparr>, ''vice''), s))"
proof (intro conjI impI allI)
  have eq: "get_mount_fs (Some q) s = map_option (\<lambda>r. (r, s)) (find_mount q (mountlist s))" for q
    by (rule get_mount_eq [OF assms(1,2)])
  obtain b r where br: "best_mount p (mountlist s) (-1) None = (b, r)" by fastforce
  note sp = best_mount_spec [OF br, simplified]
  show "get_mount_fs (Some p) s = Some (None, s)" if "\<forall>m\<in>set (mountlist s). \<not> prefix (mn_path m) p"
  proof -
    have "r = None" using sp that by blast
    then show ?thesis using br by (simp add: eq find_mount_def)
  qed
  show "\<exists>mn\<in>set (mountlist s). prefix (mn_path mn) p \<and>
           (\<forall>m\<in>set (mountlist s). prefix (mn_path m) p \<longrightarrow> length (mn_path m) \<le> length (mn_path mn)) \<and>
           get_mount_fs (Some p) s = Some (Some (mn, rest_of (mn_path mn) p), s)"
    if pre: "\<exists>m\<in>set (mountlist s). prefix (mn_path m) p"
  proof -
    obtain m where "m \<in> set (mountlist s)" "prefix (mn_path m) p" using pre by blast
    then have "b \<noteq> -1" using sp by fastforce
    then obtain mn where mn: "r = Some mn" "b = int (length (mn_path mn))" "prefix (mn_path mn) p"
      "mn \<in> set (mountlist s)" using sp by auto
    then have "get_mount_fs (Some p) s = Some (Some (mn, rest_of (mn_path mn) p), s)"
      using br sub_path_rest [OF mn(3)] assms(3) by (simp add: eq find_mount_def)
    then show ?thesis using mn sp by fastforce
  qed
  show "get_mount_fs (Some ''/device'') s = Some (Some (\<lparr>mn_path = ''/dev'', mn_fs = fs\<rparr>, ''vice''), s)"
    if "mountlist s = [\<lparr>mn_path = ''/dev'', mn_fs = fs\<rparr>]" for fs
    by (simp add: eq [of "''/device''"] that find_mount_def sub_path_def)
qed


section \<open>Mounting\<close>

lemma mount_find_absent: "p \<notin> mn_path ` set ms \<Longrightarrow> mount_find_loop p ms prev = None"
  by (induction ms arbitrary: prev) auto

lemma filter_absent: "p \<notin> mn_path ` set ms \<Longrightarrow> filter (\<lambda>m. mn_path m \<noteq> p) ms = ms"
  unfolding filter_id_conv by blast

lemma unlink_absent: "k \<notin> set ms \<Longrightarrow> unlink_after k ms = ms"
  by (induction ms) auto

lemma mount_list_find_eq:
  "cli_ok s \<Longrightarrow> lock_free (mount_list_lock s) \<Longrightarrow>
   mount_list_find (Some p) s = Some (mount_find_loop p (mountlist s) None, s)"
  by (simp add: mount_list_find_def mnt_bracket)

lemma find_unlink:
  "distinct (map mn_path (m0 # ms)) \<Longrightarrow> mn_path m0 \<noteq> p \<Longrightarrow>
   (mount_find_loop p ms (Some m0) = None \<and> p \<notin> mn_path ` set ms) \<or>
   (\<exists>cur m. mount_find_loop p ms (Some m0) = Some (cur, Some m) \<and>
      unlink_after m (m0 # ms) = filter (\<lambda>m. mn_path m \<noteq> p) (m0 # ms))"
proof (induction ms arbitrary: m0)
  case (Cons m ms)
  show ?case
  proof (cases "mn_path m = p")
    case True
    have "filter (\<lambda>m. mn_path m \<noteq> p) ms = ms"
      using Cons.prems(1) True by (intro filter_absent) simp
    then show ?thesis using True Cons.prems(2) by simp
  next
    case False
    from Cons.IH [of m] Cons.prems(1) False
    consider "mount_find_loop p ms (Some m) = None" "p \<notin> mn_path ` set ms"
      | cur k where "mount_find_loop p ms (Some m) = Some (cur, Some k)"
        "unlink_after k (m # ms) = filter (\<lambda>m. mn_path m \<noteq> p) (m # ms)" by auto
    then show ?thesis
    proof cases
      case 1
      then show ?thesis using False by auto
    next
      case 2
      have "k \<noteq> m0"
      proof
        assume "k = m0"
        then have "k \<notin> set (m # ms)" using Cons.prems(1) by auto
        then have "filter (\<lambda>m. mn_path m \<noteq> p) (m # ms) = m # ms"
          using 2(2) unlink_absent [of k "m # ms"] by metis
        then have "\<forall>x\<in>set (m # ms). mn_path x \<noteq> p" by (simp only: filter_id_conv)
        then have "mount_find_loop p ms (Some m) = None" by (intro mount_find_absent) auto
        then show False using 2(1) by simp
      qed
      then show ?thesis using 2 False Cons.prems(2) by auto
    qed
  qed
qed simp

lemma unmount_eq:
  assumes "vfs_idle s" "distinct (map mn_path (mountlist s))"
  shows "vfs_unmount (Some p) s = Some (0, s\<lparr>mountlist := filter (\<lambda>m. mn_path m \<noteq> p) (mountlist s)\<rparr>)"
proof -
  have m: "cli_ok (V s)" "lock_free (mount_list_lock (V s))" using assms(1) V_cli [of s] by (simp_all add: vfs_idle_def)
  have mb: "lock_on mount_list_lock mount_list_lock_update (V s) = Some (mnt_lk.entered (V s))"
    by (rule mnt_bracket(1) [OF m])
  have mu: "unlock_on mount_list_lock mount_list_lock_update (mnt_lk.entered (V (s\<lparr>mountlist := ms\<rparr>))) =
      Some (V (s\<lparr>mountlist := ms\<rparr>))" for ms
    by (rule mnt_bracket(2)) (use V_cli [of "s\<lparr>mountlist := ms\<rparr>"] assms(1) in \<open>simp_all add: vfs_idle_def cli_ok_def hw_defs\<close>)
  have fin: "vunlock (V (s\<lparr>mountlist := ms\<rparr>)) = Some (s\<lparr>mountlist := ms\<rparr>)" for ms
    by (rule vunlock_V) (use assms(1) in simp)
  have "mount_list_remove (Some p) (V s) = Some (V (s\<lparr>mountlist := filter (\<lambda>m. mn_path m \<noteq> p) (mountlist s)\<rparr>))"
  proof (cases "mountlist s")
    case Nil
    then have "V (s\<lparr>mountlist := []\<rparr>) = V s" by (cases s) simp
    then show ?thesis using Nil by (simp add: mount_list_remove_def mount_list_find_eq [OF m])
  next
    case (Cons m0 ms)
    show ?thesis
    proof (cases "mn_path m0 = p")
      case True
      have "filter (\<lambda>m. mn_path m \<noteq> p) ms = ms"
        using assms(2) True Cons by (intro filter_absent) simp
      then show ?thesis using True Cons
        by (simp add: mount_list_remove_def mount_list_find_eq [OF m] mb V_upd mu)
    next
      case False
      from find_unlink [OF _ False, of ms] assms(2) Cons
      consider "mount_find_loop p ms (Some m0) = None" "p \<notin> mn_path ` set ms"
        | cur k where "mount_find_loop p ms (Some m0) = Some (cur, Some k)"
          "unlink_after k (m0 # ms) = filter (\<lambda>m. mn_path m \<noteq> p) (m0 # ms)" by auto
      then show ?thesis
      proof cases
        case 1
        then have "filter (\<lambda>m. mn_path m \<noteq> p) (mountlist s) = mountlist s"
          using Cons False by (intro filter_absent) simp
        then have "s\<lparr>mountlist := filter (\<lambda>m. mn_path m \<noteq> p) (mountlist s)\<rparr> = s" by (cases s) simp
        then show ?thesis using 1 False Cons
          by (simp add: mount_list_remove_def mount_list_find_eq [OF m])
      next
        case 2
        then show ?thesis using False Cons
          by (simp add: mount_list_remove_def mount_list_find_eq [OF m] mb V_upd mu del: unlink_after.simps)
      qed
    qed
  qed
  then show ?thesis using fin by (simp add: vfs_unmount_def vlock_idle [OF assms(1)])
qed

lemma mount_eq:
  assumes "vfs_idle s" "fs \<noteq> 0"
  shows "vfs_mount (Some p) fs s =
     (if mount_find_loop p (mountlist s) None = None
      then Some (0, s\<lparr>mountlist := \<lparr>mn_path = p, mn_fs = fs\<rparr> # mountlist s\<rparr>) else Some (-1, s))"
proof -
  have m: "cli_ok (V s)" "lock_free (mount_list_lock (V s))" using assms(1) V_cli [of s] by (simp_all add: vfs_idle_def)
  have mu: "unlock_on mount_list_lock mount_list_lock_update (mnt_lk.entered (V (s\<lparr>mountlist := ms\<rparr>))) =
      Some (V (s\<lparr>mountlist := ms\<rparr>))" for ms
    by (rule mnt_bracket(2)) (use V_cli [of "s\<lparr>mountlist := ms\<rparr>"] assms(1) in \<open>simp_all add: vfs_idle_def cli_ok_def hw_defs\<close>)
  have fin: "vunlock (V (s\<lparr>mountlist := ms\<rparr>)) = Some (s\<lparr>mountlist := ms\<rparr>)" for ms
    by (rule vunlock_V) (use assms(1) in simp)
  show ?thesis
    using assms(2) fin vunlock_V [OF assms(1)]
    by (simp add: vfs_mount_def vlock_idle [OF assms(1)] mount_list_find_eq [OF m] mount_list_append_def
        mnt_bracket(1) [OF m] V_upd mu)
qed

text \<open>Mounting a file system at a new path adds exactly that mount point, and unmounting it
  restores the mount list; mounting at a path in use returns -1 and changes nothing; unmounting
  removes the mount point of that path and no other.\<close>
lemma mount_unmount:
  assumes "vfs_idle s" "fs \<noteq> 0" "distinct (map mn_path (mountlist s))"
  shows "(p \<notin> mn_path ` set (mountlist s) \<longrightarrow>
       vfs_mount (Some p) fs s = Some (0, s\<lparr>mountlist := \<lparr>mn_path = p, mn_fs = fs\<rparr> # mountlist s\<rparr>) \<and>
       Option.bind (vfs_mount (Some p) fs s) (\<lambda>(r, s). vfs_unmount (Some p) s) = Some (0, s)) \<and>
     (p \<in> mn_path ` set (mountlist s) \<longrightarrow> vfs_mount (Some p) fs s = Some (-1, s)) \<and>
     vfs_unmount (Some p) s = Some (0, s\<lparr>mountlist := filter (\<lambda>m. mn_path m \<noteq> p) (mountlist s)\<rparr>)"
proof (intro conjI impI)
  show un: "vfs_unmount (Some p) s = Some (0, s\<lparr>mountlist := filter (\<lambda>m. mn_path m \<noteq> p) (mountlist s)\<rparr>)"
    by (rule unmount_eq [OF assms(1,3)])
  show "vfs_mount (Some p) fs s = Some (-1, s)" if "p \<in> mn_path ` set (mountlist s)"
  proof -
    have "mount_find_loop p ms prev \<noteq> None" if "p \<in> mn_path ` set ms" for ms prev
      using that by (induction ms arbitrary: prev) auto
    then show ?thesis using that by (simp add: mount_eq [OF assms(1,2)])
  qed
  assume new: "p \<notin> mn_path ` set (mountlist s)"
  let ?s = "s\<lparr>mountlist := \<lparr>mn_path = p, mn_fs = fs\<rparr> # mountlist s\<rparr>"
  show r: "vfs_mount (Some p) fs s = Some (0, ?s)"
    by (simp add: mount_eq [OF assms(1,2)] mount_find_absent [OF new])
  have "filter (\<lambda>m. mn_path m \<noteq> p) (mountlist s) = mountlist s" using new by (rule filter_absent)
  moreover have "vfs_idle ?s" "distinct (map mn_path (mountlist ?s))" using assms(1,3) new by simp_all
  ultimately show "Option.bind (vfs_mount (Some p) fs s) (\<lambda>(r, s). vfs_unmount (Some p) s) = Some (0, s)"
    using unmount_eq [of ?s p] r by simp
qed


section \<open>Descriptors\<close>

text \<open>What a file system leaves alone: everything but its own state and the heap.\<close>

definition same_vfs :: "('n, 'a) vfs_st_scheme \<Rightarrow> ('n, 'a) vfs_st_scheme \<Rightarrow> bool" where
  "same_vfs s s' \<longleftrightarrow> cur_cpu s' = cur_cpu s \<and> intr_on s' = intr_on s \<and> cpu_cli s' = cpu_cli s \<and>
     current s' = current s \<and> task_list s' = task_list s \<and> mountlist s' = mountlist s \<and>
     filelist s' = filelist s \<and> files s' = files s \<and> vfs_lock s' = vfs_lock s \<and>
     mount_list_lock s' = mount_list_lock s \<and> file_list_lock s' = file_list_lock s"

lemma same_vfs_refl [simp]: "same_vfs s s"
  by (simp add: same_vfs_def)

lemma same_vfs_trans: "same_vfs s t \<Longrightarrow> same_vfs t u \<Longrightarrow> same_vfs s u"
  by (simp add: same_vfs_def)

lemma same_vfs_heap [simp]: "same_vfs s (s\<lparr>mem := m, pm_head := h\<rparr>)"
  by (simp add: same_vfs_def)

lemma same_vfs_idle: "same_vfs s s' \<Longrightarrow> vfs_idle s' = vfs_idle s"
  by (simp add: same_vfs_def vfs_idle_def cli_ok_def hw_defs)

lemma same_vfs_task: "same_vfs s s' \<Longrightarrow> current_task s' = current_task s \<and> cur_addr s' = cur_addr s"
  by (simp add: same_vfs_def current_task_def cur_addr_def)

text \<open>The files of the table are blocks of the heap.\<close>

definition files_alloc :: "('n, 'a) vfs_st_scheme \<Rightarrow> seg list \<Rightarrow> bool" where
  "files_alloc s ss \<longleftrightarrow> (\<forall>a. files s a \<noteq> None \<longrightarrow> (\<exists>b n. (True, b, n) \<in> set ss \<and> a = of_nat b + 12))"

lemma filde_loop_absent: "f \<notin> set gs \<Longrightarrow> filde_loop f gs i = -1"
  by (induction gs arbitrary: i) auto

lemma filde_loop_first:
  "k < length gs \<Longrightarrow> gs ! k = f \<Longrightarrow> (\<And>j. j < k \<Longrightarrow> gs ! j \<noteq> f) \<Longrightarrow> filde_loop f gs i = i + int k"
proof (induction gs arbitrary: k i)
  case (Cons g gs)
  show ?case
  proof (cases k)
    case 0 then show ?thesis using Cons.prems by simp
  next
    case (Suc k')
    have "g \<noteq> f" using Cons.prems(3) [of 0] Suc by simp
    moreover have "gs ! j \<noteq> f" if "j < k'" for j using Cons.prems(3) [of "Suc j"] Suc that by simp
    ultimately show ?thesis using Cons.IH [of k' "i + 1"] Cons.prems Suc by simp
  qed
qed simp

lemma node_at_upd: "node_at a (upd_node a f ts) = map_option (\<lambda>t. t\<lparr>tn_task := f (tn_task t)\<rparr>) (node_at a ts)"
  unfolding node_at_def upd_node_def by (induction ts) auto

lemma current_task_upd:
  "current_task (s\<lparr>task_list := upd_node (cur_addr s) f (task_list s)\<rparr>) = map_option f (current_task s)"
  unfolding current_task_def
  by (cases "node_at (cur_addr s) (task_list s)") (auto simp: node_at_upd cur_addr_def)

lemma current_task_more [simp]:
  "current_task (s\<lparr>files := f\<rparr>) = current_task (s :: ('n, 'a) vfs_st_scheme)"
  "current_task (s\<lparr>filelist := fl\<rparr>) = current_task s"
  "cur_addr (s\<lparr>files := f\<rparr>) = cur_addr s" "cur_addr (s\<lparr>filelist := fl\<rparr>) = cur_addr s"
  "cur_addr (s\<lparr>task_list := ts\<rparr>) = cur_addr s"
  by (simp_all add: current_task_def cur_addr_def)

lemma file_append_V:
  assumes "vfs_idle s" "f \<noteq> 0"
  shows "file_list_append f (V s) = Some (V (s\<lparr>filelist := f # filelist s\<rparr>))"
proof -
  have "cli_ok (V s)" "lock_free (file_list_lock (V s))"
    "cli_ok (V (s\<lparr>filelist := f # filelist s\<rparr>))" "lock_free (file_list_lock (V (s\<lparr>filelist := f # filelist s\<rparr>)))"
    using assms(1) V_cli [of s] V_cli [of "s\<lparr>filelist := f # filelist s\<rparr>"]
    by (simp_all add: vfs_idle_def cli_ok_def hw_defs)
  then show ?thesis using assms(2) by (simp add: file_list_append_def V_upd fl_bracket)
qed

lemma file_remove_V:
  assumes "vfs_idle s"
  shows "file_list_remove f (V s) = Some (V (if f = 0 then s else s\<lparr>filelist := remove1 f (filelist s)\<rparr>))"
proof -
  have c: "cli_ok (V s)" "lock_free (file_list_lock (V s))"
    "cli_ok (V (s\<lparr>filelist := remove1 f (filelist s)\<rparr>))"
    "lock_free (file_list_lock (V (s\<lparr>filelist := remove1 f (filelist s)\<rparr>)))"
    using assms V_cli [of s] V_cli [of "s\<lparr>filelist := remove1 f (filelist s)\<rparr>"]
    by (simp_all add: vfs_idle_def cli_ok_def hw_defs)
  show ?thesis
  proof (cases "f \<in> set (filelist s)")
    case True
    then show ?thesis using c by (simp add: file_list_remove_def V_upd fl_bracket)
  next
    case False
    then have "V (s\<lparr>filelist := remove1 f (filelist s)\<rparr>) = V s" by (cases s) (simp add: remove1_idem)
    then show ?thesis using False by (simp add: file_list_remove_def)
  qed
qed

lemma set_filde_V:
  assumes "current_task s = Some tk" "i < length (t_fildes tk)"
  shows "set_filde (int i) f (V s) = Some (V (s\<lparr>task_list := upd_node (cur_addr s)
     (\<lambda>t. t\<lparr>t_fildes := (t_fildes t)[i := f]\<rparr>) (task_list s)\<rparr>))"
  using assms by (simp add: set_filde_def V_upd)

lemma get_mount_at_V:
  "vfs_idle s \<Longrightarrow> get_mount_fs (Some p) s = Some (r, s) \<Longrightarrow> get_mount_fs (Some p) (V s) = Some (r, V s)"
  using get_mount_V [of s p] get_mount_eq [of s p] by (auto simp: vfs_idle_def)

text \<open>The second half of \<open>open\<close>.\<close>

lemma open_node_run:
  assumes idle: "vfs_idle s" and ct: "current_task s = Some tk" and i: "i < length (t_fildes tk)"
    and heap: "pmm_ok s ss" "(False, a, k) \<in> set ss" "32 \<le> k" "files_alloc s ss"
    and opn: "\<And>s2. same_vfs s s2 \<Longrightarrow> \<exists>f s3. op_open (in_ops E node) (new_file node) flags s2 = Some (0, f, s3) \<and>
       same_vfs s2 s3 \<and> vf_inode f = node"
  shows "\<exists>tf f s'. open_node E (int i) node flags (V s) = Some (int i, s') \<and> tf \<noteq> 0 \<and> files s tf = None \<and>
     files s' = (files s)(tf \<mapsto> f) \<and> vf_inode f = node \<and> vf_refcnt f = 0 \<and>
     current_task s' = Some (tk\<lparr>t_fildes := (t_fildes tk)[i := tf]\<rparr>) \<and>
     filelist s' = tf # filelist s \<and> mountlist s' = mountlist s \<and> vfs_idle s'"
proof -
  have "pmm_ok (V s) ss"
    using heap(1) V_cli [of s] by (simp add: pmm_ok_def heap_ok_def vfs_lk.entered_def pushed_def)
  moreover have "unat file_size + 12 \<le> k" using heap(3) by (simp add: file_size_def)
  ultimately obtain b m h where b: "pmm_alloc file_size (V s) = Some (of_nat b + 12, (V s)\<lparr>mem := m, pm_head := h\<rparr>)"
    "(of_nat b + 12 :: u32) \<noteq> 0" "\<And>c n. (True, c, n) \<in> set ss \<Longrightarrow> (of_nat c + 12 :: u32) \<noteq> of_nat b + 12"
    using pmm_alloc_room [OF _ heap(2), of "V s" file_size] by blast
  let ?tf = "of_nat b + 12 :: u32"
  let ?s2 = "s\<lparr>mem := m, pm_head := h\<rparr>"
  obtain f s3 where f: "op_open (in_ops E node) (new_file node) flags ?s2 = Some (0, f, s3)" "same_vfs ?s2 s3"
    "vf_inode f = node" using opn [of ?s2] by auto
  have same: "same_vfs s s3" using same_vfs_trans [OF same_vfs_heap f(2)] .
  have idle2: "vfs_idle ?s2" "vfs_idle s3" using idle same_vfs_idle [OF same] by simp_all
  have out: "outside (\<lambda>s. do { (res, f, s) \<leftarrow> op_open (in_ops E node) (new_file node) flags s; Some ((res, f), s) }) (V ?s2) =
      Some ((0, f), V s3)"
    by (rule outside_V [OF idle2(1) _ idle2(2)]) (simp add: f(1))
  let ?f = "f\<lparr>vf_refcnt := 0\<rparr>"
  let ?s4 = "s3\<lparr>files := (files s3)(?tf \<mapsto> ?f)\<rparr>"
  let ?s5 = "?s4\<lparr>filelist := ?tf # filelist ?s4\<rparr>"
  have ct5: "current_task ?s5 = Some tk" using ct same_vfs_task [OF same] by simp
  let ?s6 = "?s5\<lparr>task_list := upd_node (cur_addr ?s5) (\<lambda>t. t\<lparr>t_fildes := (t_fildes t)[i := ?tf]\<rparr>) (task_list ?s5)\<rparr>"
  have app: "file_list_append ?tf (V ?s4) = Some (V ?s5)" by (rule file_append_V) (use idle2 b(2) in simp_all)
  have set: "set_filde (int i) ?tf (V ?s5) = Some (V ?s6)" by (rule set_filde_V [OF ct5 i])
  have idle6: "vfs_idle ?s6" using idle2(2) by simp
  have "open_node E (int i) node flags (V s) = Some (int i, ?s6)"
    using b(1,2) out app set vunlock_V [OF idle6] by (simp add: open_node_def Let_def V_upd)
  moreover have "files s ?tf = None" using heap(4) b(3) unfolding files_alloc_def by metis
  moreover have "current_task ?s6 = Some (tk\<lparr>t_fildes := (t_fildes tk)[i := ?tf]\<rparr>)"
    using current_task_upd [of ?s5] ct5 by simp
  ultimately show ?thesis using b(2) f(3) idle6 same unfolding same_vfs_def
    by (intro exI [of _ ?tf] exI [of _ ?f] exI [of _ ?s6]) simp
qed


lemma open_run:
  assumes idle: "vfs_idle s" and ct: "current_task s = Some tk" and n: "length (t_fildes tk) = N_FILE"
    and i: "i < N_FILE" "t_fildes tk ! i = 0" "\<forall>j<i. t_fildes tk ! j \<noteq> 0"
    and mnt: "get_mount_fs (Some p) s = Some (Some (mn, sub), s)" "mn_fs mn \<noteq> 0"
    and look: "fo_lookup (fs_ops E (mn_fs mn)) (mn_fs mn) sub flags s = Some (Some node, s1)" "same_vfs s s1"
    and heap: "pmm_ok s1 ss" "(False, a, k) \<in> set ss" "32 \<le> k" "files_alloc s1 ss"
    and opn: "\<forall>s2. same_vfs s1 s2 \<longrightarrow> (\<exists>f s3. op_open (in_ops E node) (new_file node) flags s2 = Some (0, f, s3) \<and>
       same_vfs s2 s3 \<and> vf_inode f = node)"
  shows "\<exists>tf f s'. vfs_open E (Some p) flags s = Some (int i, s') \<and> tf \<noteq> 0 \<and> files s tf = None \<and>
     files s' = (files s)(tf \<mapsto> f) \<and> vf_inode f = node \<and> vf_refcnt f = 0 \<and>
     current_task s' = Some (tk\<lparr>t_fildes := (t_fildes tk)[i := tf]\<rparr>) \<and>
     filelist s' = tf # filelist s \<and> mountlist s' = mountlist s \<and> vfs_idle s'"
proof -
  have idle1: "vfs_idle s1" using idle same_vfs_idle [OF look(2)] by simp
  have ct1: "current_task s1 = Some tk" using ct same_vfs_task [OF look(2)] by simp
  have il: "i < length (t_fildes tk)" using i(1) n by simp
  obtain tf f s' where r: "open_node E (int i) node flags (V s1) = Some (int i, s')" "tf \<noteq> 0"
    "files s1 tf = None" "files s' = (files s1)(tf \<mapsto> f)" "vf_inode f = node" "vf_refcnt f = 0"
    "current_task s' = Some (tk\<lparr>t_fildes := (t_fildes tk)[i := tf]\<rparr>)"
    "filelist s' = tf # filelist s1" "mountlist s' = mountlist s1" "vfs_idle s'"
    using open_node_run [OF idle1 ct1 il heap, of E node flags] opn by blast
  have fd: "find_filde_index tk 0 = int i"
    using filde_loop_first [of i "t_fildes tk" 0 0] i il n by (simp add: find_filde_index_def)
  have out: "outside (fo_lookup (fs_ops E (mn_fs mn)) (mn_fs mn) sub flags) (V s) = Some (Some node, V s1)"
    using idle _ idle1 by (rule outside_V) (rule look(1))
  have "vfs_open E (Some p) flags s = Some (int i, s')"
    using ct fd r(1) mnt(2) get_mount_at_V [OF idle mnt(1)] out
    by (simp add: vfs_open_def vlock_idle [OF idle])
  then show ?thesis using r look(2) unfolding same_vfs_def
    by (intro exI [of _ tf] exI [of _ f] exI [of _ s']) simp
qed

lemma close_run:
  assumes idle: "vfs_idle s" and ct: "current_task s = Some tk" and fd: "i < length (t_fildes tk)" "t_fildes tk ! i = tf"
    and tf: "tf \<noteq> 0" "files s tf = Some v"
    and cls: "op_close (in_ops E (vf_inode v)) v s = Some (0, v', s1)" "same_vfs s s1" "vf_inode v' = vf_inode v"
    and fcl: "fo_close (fs_ops E (in_fs E (vf_inode v))) (in_fs E (vf_inode v)) (vf_inode v)
       (s1\<lparr>files := (files s1)(tf \<mapsto> v')\<rparr>) = Some (0, s2)" "same_vfs (s1\<lparr>files := (files s1)(tf \<mapsto> v')\<rparr>) s2"
  shows "\<exists>s'. vfs_close E (int i) s = Some (0, s') \<and>
     current_task s' = Some (tk\<lparr>t_fildes := (t_fildes tk)[i := 0]\<rparr>) \<and> filelist s' = remove1 tf (filelist s) \<and>
     mountlist s' = mountlist s \<and> vfs_idle s'"
proof -
  let ?f = "s1\<lparr>files := (files s1)(tf \<mapsto> v')\<rparr>"
  have idle1: "vfs_idle ?f" using idle same_vfs_idle [OF cls(2)] by simp
  have idle2: "vfs_idle s2" using idle1 same_vfs_idle [OF fcl(2)] by simp
  have ct2: "current_task s2 = Some tk"
    using ct same_vfs_task [OF cls(2)] same_vfs_task [OF fcl(2)] by simp
  let ?s3 = "s2\<lparr>filelist := remove1 tf (filelist s2)\<rparr>"
  let ?s4 = "?s3\<lparr>task_list := upd_node (cur_addr ?s3) (\<lambda>t. t\<lparr>t_fildes := (t_fildes t)[i := 0]\<rparr>) (task_list ?s3)\<rparr>"
  have o1: "outside (on_file (op_close (in_ops E (vf_inode v))) tf) (V s) = Some (0, V ?f)"
    by (rule outside_V [OF idle _ idle1]) (simp add: on_file_def tf cls)
  have o2: "outside (fo_close (fs_ops E (in_fs E (vf_inode v))) (in_fs E (vf_inode v)) (vf_inode v)) (V ?f) = Some (0, V s2)"
    using idle1 _ idle2 by (rule outside_V) (rule fcl(1))
  have o3: "file_list_remove tf (V s2) = Some (V ?s3)" using file_remove_V [OF idle2, of tf] tf(1) by simp
  have ct3: "current_task ?s3 = Some tk" using ct2 by simp
  have o4: "set_filde (int i) 0 (V ?s3) = Some (V ?s4)" by (rule set_filde_V [OF ct3 fd(1)])
  have idle4: "vfs_idle ?s4" using idle2 by simp
  have gf: "get_file (int i) (V s) = Some tf" using ct fd by (simp add: get_file_def)
  have "vfs_close E (int i) s = Some (0, ?s4)"
    using ct gf tf cls(3) o1 o2 o3 o4 vunlock_V [OF idle4]
    by (simp add: vfs_close_def vlock_idle [OF idle] Let_def)
  moreover have "current_task ?s4 = Some (tk\<lparr>t_fildes := (t_fildes tk)[i := 0]\<rparr>)"
    using current_task_upd [of ?s3] ct3 by simp
  ultimately show ?thesis using idle4 fcl(2) cls(2) unfolding same_vfs_def
    by (intro exI [of _ ?s4]) simp
qed



text \<open>Closing what \<open>open\<close> returned gives the descriptor back: after both calls the
  task's table, the list of open files and the mount list are as before and the locks are free.\<close>
lemma open_close:
  assumes idle: "vfs_idle s" and ct: "current_task s = Some tk" and n: "length (t_fildes tk) = N_FILE"
    and i: "i < N_FILE" "t_fildes tk ! i = 0" "\<forall>j<i. t_fildes tk ! j \<noteq> 0"
    and mnt: "get_mount_fs (Some p) s = Some (Some (mn, sub), s)" "mn_fs mn \<noteq> 0"
    and look: "fo_lookup (fs_ops E (mn_fs mn)) (mn_fs mn) sub flags s = Some (Some node, s1)" "same_vfs s s1"
    and heap: "pmm_ok s1 ss" "(False, a, k) \<in> set ss" "32 \<le> k" "files_alloc s1 ss"
    and opn: "\<forall>s2. same_vfs s1 s2 \<longrightarrow> (\<exists>f s3. op_open (in_ops E node) (new_file node) flags s2 = Some (0, f, s3) \<and>
       same_vfs s2 s3 \<and> vf_inode f = node)"
    and cls: "\<forall>f s2. vf_inode f = node \<and> vfs_idle s2 \<longrightarrow> (\<exists>f' s3. op_close (in_ops E node) f s2 = Some (0, f', s3) \<and>
       same_vfs s2 s3 \<and> vf_inode f' = node)"
    and fcl: "\<forall>s2. vfs_idle s2 \<longrightarrow> (\<exists>s3. fo_close (fs_ops E (in_fs E node)) (in_fs E node) node s2 = Some (0, s3) \<and>
       same_vfs s2 s3)"
  shows "\<exists>s' s''. vfs_open E (Some p) flags s = Some (int i, s') \<and> vfs_close E (int i) s' = Some (0, s'') \<and>
     current_task s'' = Some tk \<and> filelist s'' = filelist s \<and> mountlist s'' = mountlist s \<and> vfs_idle s''"
proof -
  obtain tf f s' where o: "vfs_open E (Some p) flags s = Some (int i, s')" "tf \<noteq> 0"
     "files s' = (files s)(tf \<mapsto> f)" "vf_inode f = node"
     "current_task s' = Some (tk\<lparr>t_fildes := (t_fildes tk)[i := tf]\<rparr>)"
     "filelist s' = tf # filelist s" "mountlist s' = mountlist s" "vfs_idle s'"
    using open_run [OF idle ct n i mnt look heap opn] by blast
  obtain f' s2 where c: "op_close (in_ops E (vf_inode f)) f s' = Some (0, f', s2)" "same_vfs s' s2" "vf_inode f' = vf_inode f"
    using cls o(4,8) by blast
  let ?s2 = "s2\<lparr>files := (files s2)(tf \<mapsto> f')\<rparr>"
  have "vfs_idle ?s2" using o(8) same_vfs_idle [OF c(2)] by simp
  then obtain s3 where fc: "fo_close (fs_ops E (in_fs E (vf_inode f))) (in_fs E (vf_inode f)) (vf_inode f) ?s2 = Some (0, s3)"
    "same_vfs ?s2 s3" using fcl o(4) by blast
  have il: "i < length (t_fildes (tk\<lparr>t_fildes := (t_fildes tk)[i := tf]\<rparr>))"
    "t_fildes (tk\<lparr>t_fildes := (t_fildes tk)[i := tf]\<rparr>) ! i = tf" using i(1) n by simp_all
  have ft: "files s' tf = Some f" using o(3) by simp
  obtain s'' where r: "vfs_close E (int i) s' = Some (0, s'')"
     "current_task s'' = Some (tk\<lparr>t_fildes := (t_fildes tk)[i := tf], t_fildes := (t_fildes (tk\<lparr>t_fildes := (t_fildes tk)[i := tf]\<rparr>))[i := 0]\<rparr>)"
     "filelist s'' = remove1 tf (filelist s')" "mountlist s'' = mountlist s'" "vfs_idle s''"
    using close_run [OF o(8,5) il o(2) ft c fc] by blast
  have "(t_fildes tk)[i := tf, i := 0] = t_fildes tk" using i(2) by (metis list_update_id list_update_overwrite)
  then have "current_task s'' = Some tk" using r(2) by simp
  then show ?thesis using o r by (intro exI [of _ s'] exI [of _ s'']) simp
qed

text \<open>\<open>link\<close> across mount points keeps the lock: it returns -1 as for any failed link, but
  returns without releasing \<open>vfs_lock\<close>, so the next call of the same processor that takes
  this lock stops the kernel.\<close>
lemma link_keeps_lock:
  assumes idle: "vfs_idle s" and ct: "current_task s \<noteq> None"
    and mnt: "get_mount_fs (Some p) s = Some (Some (m1, x), s)" "get_mount_fs (Some q) s = Some (Some (m2, y), s)" "m1 \<noteq> m2"
  shows "\<exists>s'. vfs_link E (Some p) (Some q) s = Some (-1, s') \<and> \<not> lock_free (vfs_lock s') \<and>
     vfs_open E r flags s' = None \<and> vfs_mkdir E r s' = None \<and> vfs_mount r fs s' = None \<and> vfs_unmount r s' = None"
proof -
  have l: "lock_free (vfs_lock s)" "cli_ok s" using idle by (simp_all add: vfs_idle_def)
  have t: "sl_locked (vfs_lock (V s)) \<noteq> 0"
    using vfs_lk.get_entered [of s] by (simp add: taken_def)
  then have "vlock (V s) = None"
    using spin_lock_recursive [OF V_cli [OF l(2)]] by (simp add: lock_on_def)
  moreover have "vfs_link E (Some p) (Some q) s = Some (-1, V s)"
    using ct get_mount_at_V [OF idle mnt(1)] get_mount_at_V [OF idle mnt(2)] mnt(3)
    by (auto simp: vfs_link_def vlock_idle [OF idle])
  moreover have "\<not> lock_free (vfs_lock (V s))" using t by (simp add: lock_free_def)
  ultimately show ?thesis
    by (intro exI [of _ "V s"]) (auto simp: vfs_open_def vfs_mkdir_def vfs_mount_def vfs_unmount_def
        split: option.split bind_splits)
qed

section \<open>Concrete instances\<close>

text \<open>A file system that finds every path and lets every operation succeed; an inode is the
  length of its path.\<close>

definition demo_env :: "(nat, unit) env" where
  "demo_env = \<lparr>fs_ops = (\<lambda>_. \<lparr>fo_init = (\<lambda>_ _ _ s. Some s), fo_lookup = (\<lambda>_ p _ s. Some (Some (length p), s)),
       fo_close = (\<lambda>_ _ s. Some (0, s)), fo_mkdir = (\<lambda>_ _ s. Some (0, s)), fo_rm = (\<lambda>_ _ s. Some (0, s)),
       fo_link = (\<lambda>_ _ _ s. Some (0, s)), fo_readdir = (\<lambda>_ _ s. Some ([], s))\<rparr>),
     in_fs = (\<lambda>_. 7),
     in_ops = (\<lambda>_. \<lparr>op_access = (\<lambda>_ _ s. Some (0, s)), op_open = (\<lambda>f _ s. Some (0, f, s)),
       op_close = (\<lambda>f s. Some (0, f, s)), op_read = (\<lambda>f b _ s. Some ((0, b), f, s)),
       op_write = (\<lambda>f b s. Some (int (length b), f, s)), op_lseek = (\<lambda>f _ _ s. Some (0, f, s))\<rparr>)\<rparr>"

definition demo_vfs :: "nat vfs_st" where
  "demo_vfs = pmm_init 0x100000 0x200000 (dev_st.extend (dev_st.truncate demo_dev)
     (vfs_st.fields [\<lparr>mn_path = ''/'', mn_fs = 9\<rparr>, \<lparr>mn_path = ''/dev'', mn_fs = 7\<rparr>] (spin_init '''') []
        (spin_init '''') (spin_init '''') (\<lambda>_. None)))"

lemma demo_vfs_sel:
  "mountlist demo_vfs = [\<lparr>mn_path = ''/'', mn_fs = 9\<rparr>, \<lparr>mn_path = ''/dev'', mn_fs = 7\<rparr>]"
  "mount_list_lock demo_vfs = spin_init ''''" "file_list_lock demo_vfs = spin_init ''''" "vfs_lock demo_vfs = spin_init ''''"
  "files demo_vfs = (\<lambda>_. None)" "filelist demo_vfs = []" "cur_cpu demo_vfs = 0" "cpu_cli demo_vfs = cpu_cli demo_kmt"
  "intr_on demo_vfs = intr_on demo_kmt" "task_list demo_vfs = task_list demo_kmt" "current demo_vfs = current demo_kmt"
  by (simp_all add: demo_vfs_def pmm_init_def kmt.defs input_st.defs dev_st.defs vfs_st.defs demo_kmt_def demo_dev_def demo_input_def)

lemma demo_vfs_idle: "vfs_idle demo_vfs"
  by (simp add: vfs_idle_def demo_vfs_sel lock_free_init cli_ok_def hw_defs demo_kmt_def)

lemma demo_vfs_heap: "pmm_ok demo_vfs [(False, 1048576, 1048564)]"
  unfolding demo_vfs_def
  by (rule pmm_init_heap [of "0x100000" "0x200000", simplified])
    (simp add: demo_kmt_def kmt.defs input_st.defs dev_st.defs demo_dev_def demo_input_def cli_ok_def hw_defs)

lemma demo_vfs_task: "current_task demo_vfs = Some (tn_task (demo_node 1 ''idle-1'' 0 Working))"
  by (simp add: current_task_def cur_addr_def demo_vfs_sel node_at_def demo_kmt_def demo_node_def)

lemma demo_vfs_mount: "get_mount_fs (Some ''/dev/tty1'') demo_vfs = Some (Some (\<lparr>mn_path = ''/dev'', mn_fs = 7\<rparr>, ''/tty1''), demo_vfs)"
  "get_mount_fs (Some ''/tmp'') demo_vfs = Some (Some (\<lparr>mn_path = ''/'', mn_fs = 9\<rparr>, ''/tmp''), demo_vfs)"
  using demo_vfs_idle by (simp_all add: get_mount_eq vfs_idle_def find_mount_def demo_vfs_sel sub_path_def)

theorem mount_longest_prefix_witness:
  "get_mount_fs (Some ''/tmp/x'') demo_vfs = Some (Some (\<lparr>mn_path = ''/'', mn_fs = 9\<rparr>, ''/tmp/x''), demo_vfs)"
proof -
  have "cli_ok demo_vfs" "lock_free (mount_list_lock demo_vfs)" "\<forall>m\<in>set (mountlist demo_vfs). mn_path m \<noteq> []"
    using demo_vfs_idle by (simp_all add: vfs_idle_def demo_vfs_sel)
  from mount_longest_prefix [OF this, of "''/tmp/x''"] show ?thesis by (simp add: demo_vfs_sel rest_of_def)
qed

lemma mount_unmount_witness:
  "Option.bind (vfs_mount (Some ''/mnt'') 5 demo_vfs) (\<lambda>(r, s). vfs_unmount (Some ''/mnt'') s) = Some (0, demo_vfs) \<and>
   vfs_mount (Some ''/dev'') 5 demo_vfs = Some (-1, demo_vfs)"
proof -
  have d: "distinct (map mn_path (mountlist demo_vfs))" by (simp add: demo_vfs_sel)
  show ?thesis
    using mount_unmount [OF demo_vfs_idle _ d, of 5 "''/mnt''"] mount_unmount [OF demo_vfs_idle _ d, of 5 "''/dev''"]
    by (auto simp: demo_vfs_sel)
qed

lemma demo_filde: "t_fildes (tn_task (demo_node 1 ''idle-1'' 0 Working)) = replicate N_FILE 0"
  by (simp add: demo_node_def)


lemma open_close_witness:
  "\<exists>s' s''. vfs_open demo_env (Some ''/dev/tty1'') FILE_READ demo_vfs = Some (0, s') \<and>
     vfs_close demo_env 0 s' = Some (0, s'') \<and> filelist s'' = []"
proof -
  have n: "length (t_fildes (tn_task (demo_node 1 ''idle-1'' 0 Working))) = N_FILE" by (simp add: demo_filde)
  have "files_alloc demo_vfs [(False, 1048576, 1048564)]" by (simp add: files_alloc_def demo_vfs_sel)
  moreover have "\<forall>s2. same_vfs demo_vfs s2 \<longrightarrow> (\<exists>f s3. op_open (in_ops demo_env 5) (new_file 5) FILE_READ s2 = Some (0, f, s3) \<and>
       same_vfs s2 s3 \<and> vf_inode f = 5)" by (simp add: demo_env_def new_file_def)
  moreover have "\<forall>f s2. vf_inode f = 5 \<and> vfs_idle s2 \<longrightarrow> (\<exists>f' s3. op_close (in_ops demo_env 5) f s2 = Some (0, f', s3) \<and>
       same_vfs s2 s3 \<and> vf_inode f' = 5)" by (simp add: demo_env_def)
  moreover have "\<forall>s2. vfs_idle s2 \<longrightarrow> (\<exists>s3. fo_close (fs_ops demo_env (in_fs demo_env 5)) (in_fs demo_env 5) 5 s2 = Some (0, s3) \<and>
       same_vfs s2 s3)" by (simp add: demo_env_def)
  ultimately show ?thesis
    using open_close [OF demo_vfs_idle demo_vfs_task n, of 0 "''/dev/tty1''" "\<lparr>mn_path = ''/dev'', mn_fs = 7\<rparr>" "''/tty1''"
        demo_env FILE_READ 5 demo_vfs "[(False, 1048576, 1048564)]" 1048576 1048564]
      demo_vfs_mount(1) demo_vfs_heap
    by (auto simp: demo_filde N_FILE_def demo_vfs_sel demo_env_def)
qed

lemma link_keeps_lock_witness:
  "\<exists>s'. vfs_link demo_env (Some ''/dev/tty1'') (Some ''/tmp'') demo_vfs = Some (-1, s') \<and>
     vfs_mkdir demo_env (Some ''/tmp/a'') s' = None"
  using link_keeps_lock [OF demo_vfs_idle _ demo_vfs_mount, of demo_env "Some ''/tmp/a''"] demo_vfs_task by fastforce

end
