(* ===== verification/FsApi.thy ===== *)
theory FsApi
  imports HeapApi VfsProps
begin

text \<open>
  The contract between the virtual file system and a mounted file system, as far as the heap is
  concerned: a lookup takes blocks for the inode, the inode owns them, and closing it gives them back.
  \<open>fs_api\<close> has what \<open>access\<close> needs; from it follows that the call leaves the heap as
  it was.
\<close>

section \<open>Memory that is not the heap's own\<close>

definition same_area :: "'a pmm_scheme \<Rightarrow> 'a pmm_scheme \<Rightarrow> bool" where
  "same_area s s' \<longleftrightarrow> pm_start s' = pm_start s \<and> pm_end s' = pm_end s"

lemma same_area_refl [simp]: "same_area s s"
  by (simp add: same_area_def)

lemma same_area_trans: "same_area s t \<Longrightarrow> same_area t u \<Longrightarrow> same_area s u"
  by (simp add: same_area_def)

lemma heap_only_area: "heap_only s s' \<Longrightarrow> same_area s s'"
  by (auto simp: heap_only_def same_area_def)

lemma heap_only_vfs: "heap_only s s' \<Longrightarrow> same_vfs s s'"
  by (auto simp: heap_only_def)

definition keeps :: "('n, 'a) vfs_st_scheme \<Rightarrow> ('n, 'a) vfs_st_scheme \<Rightarrow> bool" where
  "keeps s s' \<longleftrightarrow> same_vfs s s' \<and> same_area s s'"

lemma keeps_refl [simp]: "keeps s s"
  by (simp add: keeps_def)

lemma keeps_trans: "keeps s t \<Longrightarrow> keeps t u \<Longrightarrow> keeps s u"
  unfolding keeps_def using same_vfs_trans same_area_trans by blast

lemma heap_only_keeps: "heap_only s s' \<Longrightarrow> keeps s s'"
  by (simp add: keeps_def heap_only_area heap_only_vfs)

lemma keeps_idle: "keeps s s' \<Longrightarrow> vfs_idle s' = vfs_idle s"
  by (simp add: keeps_def same_vfs_idle)

text \<open>The allocator with \<open>vfs_lock\<close> held.\<close>

lemma held_V: "vfs_idle s \<Longrightarrow> held (V s) U k = held s U k"
  using V_cli [of s]
  by (auto simp: held_def pmm_ok_def heap_ok_def vfs_idle_def vfs_lk.entered_def pushed_def)

lemma heap_only_V: "heap_only (V s) x \<Longrightarrow> \<exists>s'. x = V s' \<and> heap_only s s'"
  unfolding heap_only_def V_upd by blast

lemma alloc_V:
  assumes "vfs_idle s" "held s U k" "unat sz + 12 \<le> k"
  shows "\<exists>p s'. pmm_alloc sz (V s) = Some (p, V s') \<and> p \<noteq> 0 \<and> p \<notin> fst ` U \<and>
    held s' (insert (p, unat sz) U) (k - 12 - unat sz) \<and> heap_only s s' \<and> vfs_idle s'"
proof -
  have "held (V s) U k" using assms(1,2) by (simp add: held_V)
  then obtain p x where p: "pmm_alloc sz (V s) = Some (p, x)" "p \<noteq> 0" "p \<notin> fst ` U"
    "held x (insert (p, unat sz) U) (k - 12 - unat sz)" "heap_only (V s) x"
    using hp.alloc_ok [OF _ assms(3)] by blast
  obtain s' where s': "x = V s'" "heap_only s s'" using heap_only_V [OF p(5)] by blast
  have "vfs_idle s'" using keeps_idle [OF heap_only_keeps [OF s'(2)]] assms(1) by simp
  then show ?thesis using p s' by (auto simp: held_V)
qed

lemma free_V:
  assumes "vfs_idle s" "held s U k" "(p, n) \<in> U"
  shows "\<exists>s'. pmm_free p (V s) = Some (V s') \<and> held s' (U - {(p, n)}) k \<and> heap_only s s' \<and> vfs_idle s'"
proof -
  have "held (V s) U k" using assms(1,2) by (simp add: held_V)
  then obtain x where x: "pmm_free p (V s) = Some x" "held x (U - {(p, n)}) k" "heap_only (V s) x"
    using hp.dealloc_ok [OF _ assms(3)] by blast
  obtain s' where s': "x = V s'" "heap_only s s'" using heap_only_V [OF x(3)] by blast
  have "vfs_idle s'" using keeps_idle [OF heap_only_keeps [OF s'(2)]] assms(1) by simp
  then show ?thesis using x s' by (auto simp: held_V)
qed

section \<open>The contract\<close>

locale fs_api =
  fixes E :: "('n, 'a) env" and fs :: u32
    and fs_ok :: "('n, 'a) vfs_st_scheme \<Rightarrow> bool"
    and live :: "'n \<Rightarrow> ('n, 'a) vfs_st_scheme \<Rightarrow> bool"
    and owns :: "'n \<Rightarrow> ('n, 'a) vfs_st_scheme \<Rightarrow> (u32 \<times> nat) set"
    and need :: "string \<Rightarrow> nat"
  assumes heap_stable: "heap_only s s' \<Longrightarrow> fs_ok s' = fs_ok s \<and> live node s' = live node s \<and> owns node s' = owns node s"
    and lookup_ok: "fs_ok s \<Longrightarrow> held s U k \<Longrightarrow> need sub \<le> k \<Longrightarrow> hd sub = CHR ''/'' \<Longrightarrow> sub \<noteq> [] \<Longrightarrow>
      \<exists>r s1. fo_lookup (fs_ops E fs) fs sub flags s = Some (r, s1) \<and> fs_ok s1 \<and> keeps s s1 \<and>
        (case r of None \<Rightarrow> held s1 U k
         | Some node \<Rightarrow> in_fs E node = fs \<and> live node s1 \<and> fst ` owns node s1 \<inter> fst ` U = {} \<and>
             held s1 (owns node s1 \<union> U) (k - need sub))"
    and access_ok: "fs_ok s \<Longrightarrow> live node s \<Longrightarrow> in_fs E node = fs \<Longrightarrow>
      \<exists>r. op_access (in_ops E node) (new_file node) flags s = Some (r, s)"
    and close_ok: "fs_ok s \<Longrightarrow> live node s \<Longrightarrow> in_fs E node = fs \<Longrightarrow> held s W j \<Longrightarrow> owns node s \<subseteq> W \<Longrightarrow>
      \<exists>s'. fo_close (fs_ops E fs) fs node s = Some (0, s') \<and> fs_ok s' \<and> keeps s s' \<and> held s' (W - owns node s) j"
begin

text \<open>What happens between the two halves of \<open>access\<close>: the temporary file is taken, the inode is
  asked and closed, the file is given back.\<close>

lemma access_body:
  assumes ok: "fs_ok s1" and idle: "vfs_idle s1" and node: "live node s1" "in_fs E node = fs"
    and held: "held s1 (owns node s1 \<union> U) k" "32 \<le> k" "fst ` owns node s1 \<inter> fst ` U = {}"
  shows "\<exists>r tf s2 s3 s4. pmm_alloc file_size (V s1) = Some (tf, V s2) \<and> tf \<noteq> 0 \<and> vfs_idle s2 \<and>
     op_access (in_ops E node) (new_file node) flags s2 = Some (r, s2) \<and>
     fo_close (fs_ops E fs) fs node s2 = Some (0, s3) \<and> vfs_idle s3 \<and> pmm_free tf (V s3) = Some (V s4) \<and>
     vfs_idle s4 \<and> fs_ok s4 \<and> keeps s1 s4 \<and> (\<exists>j. held s4 U j)"
proof -
  let ?W = "owns node s1 \<union> U"
  have sz: "unat file_size = 20" by (simp add: file_size_def)
  obtain tf s2 where tf: "pmm_alloc file_size (V s1) = Some (tf, V s2)" "tf \<noteq> 0" "tf \<notin> fst ` ?W"
    "held s2 (insert (tf, 20) ?W) (k - 32)" "heap_only s1 s2" "vfs_idle s2"
    using alloc_V [OF idle held(1), of file_size] held(2) by (auto simp: sz)
  have st: "fs_ok s2" "live node s2" "owns node s2 = owns node s1" using heap_stable [OF tf(5)] ok node by auto
  obtain r where r: "op_access (in_ops E node) (new_file node) flags s2 = Some (r, s2)"
    using access_ok [OF st(1,2) node(2)] by blast
  obtain s3 where s3: "fo_close (fs_ops E fs) fs node s2 = Some (0, s3)" "fs_ok s3" "keeps s2 s3"
    "held s3 (insert (tf, 20) ?W - owns node s1) (k - 32)"
    using close_ok [OF st(1,2) node(2) tf(4)] st(3) by auto
  have e: "insert (tf, 20) ?W - owns node s1 = insert (tf, 20) U"
    using tf(3) held(3) by force
  have i3: "vfs_idle s3" using keeps_idle [OF s3(3)] tf(6) by simp
  obtain s4 where s4: "pmm_free tf (V s3) = Some (V s4)" "held s4 (insert (tf, 20) U - {(tf, 20)}) (k - 32)"
    "heap_only s3 s4" "vfs_idle s4"
    using free_V [OF i3, of "insert (tf, 20) U" "k - 32" tf 20] s3(4) e by auto
  have "insert (tf, 20) U - {(tf, 20)} = U" using tf(3) by force
  moreover have "fs_ok s4" using heap_stable [OF s4(3)] s3(2) by simp
  moreover have "keeps s1 s4"
    using heap_only_keeps [OF tf(5)] s3(3) heap_only_keeps [OF s4(3)] keeps_trans by blast
  ultimately show ?thesis using tf(1,2,6) r s3(1) s4 i3 by metis
qed

lemma access_restores:
  assumes idle: "vfs_idle s" and ct: "current_task s \<noteq> None" and ok: "fs_ok s"
    and mnt: "get_mount_fs (Some p) s = Some (Some (mn, sub), s)" "mn_fs mn = fs" "sub \<noteq> []" "hd sub = CHR ''/''" "fs \<noteq> 0"
    and heap: "held s U k" "need sub + 32 \<le> k"
  shows "\<exists>r s'. vfs_access E (Some p) flags s = Some (r, s') \<and> fs_ok s' \<and> keeps s s' \<and> held s' U k"
proof -
  obtain r s1 where l: "fo_lookup (fs_ops E fs) fs sub flags s = Some (r, s1)" "fs_ok s1" "keeps s s1"
    "case r of None \<Rightarrow> held s1 U k
     | Some node \<Rightarrow> in_fs E node = fs \<and> live node s1 \<and> fst ` owns node s1 \<inter> fst ` U = {} \<and>
         held s1 (owns node s1 \<union> U) (k - need sub)"
    using lookup_ok [OF ok heap(1) _ mnt(4,3), of flags] add_leD1 [OF heap(2)] by blast
  have i1: "vfs_idle s1" using keeps_idle [OF l(3)] idle by simp
  have o: "outside (fo_lookup (fs_ops E fs) fs sub flags) (V s) = Some (r, V s1)"
    by (rule outside_V [where f = "fo_lookup (fs_ops E fs) fs sub flags", OF idle l(1) i1])
  obtain tk where "current_task s = Some tk" using ct by blast
  note pre = vlock_idle [OF idle] get_mount_at_V [OF idle mnt(1)] this mnt(2,5) o
  show ?thesis
  proof (cases r)
    case None
    then have "vfs_access E (Some p) flags s = Some (-1, s1)"
      using pre vunlock_V [OF i1] by (auto simp: vfs_access_def)
    then show ?thesis using l None by auto
  next
    case (Some node)
    then have n: "in_fs E node = fs" "live node s1" "fst ` owns node s1 \<inter> fst ` U = {}"
      "held s1 (owns node s1 \<union> U) (k - need sub)" using l(4) by auto
    have "32 \<le> k - need sub" using heap(2) by simp
    then obtain a tf s2 s3 s4 where b: "pmm_alloc file_size (V s1) = Some (tf, V s2)" "tf \<noteq> 0" "vfs_idle s2"
      "op_access (in_ops E node) (new_file node) flags s2 = Some (a, s2)"
      "fo_close (fs_ops E fs) fs node s2 = Some (0, s3)" "vfs_idle s3" "pmm_free tf (V s3) = Some (V s4)" "vfs_idle s4"
      "fs_ok s4" "keeps s1 s4" "\<exists>j. held s4 U j"
      using access_body [OF l(2) i1 n(2,1,4) _ n(3), of flags] by blast
    have k: "keeps s s4" using keeps_trans [OF l(3) b(10)] .
    then have "held s4 U k" using b(11) held_area [OF heap(1)] by (auto simp: keeps_def same_area_def)
    moreover have "outside (\<lambda>s. do {
        (res, s) \<leftarrow> op_access (in_ops E node) (new_file node) flags s;
        (c, s) \<leftarrow> fo_close (fs_ops E fs) fs node s;
        Assert (c = 0);
        Some (res, s) }) (V s2) = Some (a, V s3)"
      by (rule outside_V) (use b(3-6) in simp_all)
    ultimately have "vfs_access E (Some p) flags s = Some (a, s4)"
      using pre b(1,2,7) n(1) Some vunlock_V [OF b(8)] by (simp add: vfs_access_def Let_def)
    then show ?thesis using b(9) k \<open>held s4 U k\<close> by blast
  qed
qed

end

end
