(* ===== verification/KfsProps.thy ===== *)
theory KfsProps
  imports FsApi Kenv
begin

text \<open>
  The device and the process file system keep the contract \<open>fs_api\<close>: whatever a lookup takes
  from the heap is given back when its inode is closed.
\<close>

section \<open>The heap does not see the file systems\<close>

lemma held_kfs [simp]:
  "held (s\<lparr>task_infos := t\<rparr>) U k = held (s :: 'a kfs_st_scheme) U k"
  "held (s\<lparr>filesystems := f\<rparr>) U k = held s U k"
  by (simp_all add: held_def pmm_ok_def heap_ok_def cli_ok_def hw_defs)

lemma keeps_infos [simp]: "keeps (s :: 'a kfs_st_scheme) (s\<lparr>task_infos := t\<rparr>)"
  by (simp add: keeps_def same_vfs_def same_area_def)

lemma heap_only_kfs:
  "heap_only s s' \<Longrightarrow> filesystems s' = filesystems s \<and> task_infos s' = task_infos s \<and> devices s' = devices s \<and>
     task_list s' = task_list (s :: 'a kfs_st_scheme)"
  by (auto simp: heap_only_def)

definition mounted :: "fs_table \<Rightarrow> string \<Rightarrow> u32 \<Rightarrow> 'a kfs_st_scheme \<Rightarrow> bool" where
  "mounted tab name fs s \<longleftrightarrow>
     (\<exists>f. filesystems s fs = Some f \<and> fsys_name f = name \<and> fsys_ops f = tab)"

lemma mounted_named: "mounted tab name fs s \<Longrightarrow> fs_named name fs s"
  by (auto simp: mounted_def fs_named_def)

lemma mounted_heap: "heap_only s s' \<Longrightarrow> mounted tab name fs s' = mounted tab name fs (s :: 'a kfs_st_scheme)"
  by (simp add: mounted_def heap_only_kfs)

lemma kernel_env_sel [simp]:
  "in_fs (kernel_env yield) = kn_fs" "in_ops (kernel_env yield) node = table_inodeops yield (kn_table node)"
  "fs_ops (kernel_env yield) fs = kernel_fsops"
  by (simp_all add: kernel_env_def)

lemma kernel_lookup [simp]:
  "mounted tab name fs s \<Longrightarrow> fo_lookup kernel_fsops fs path flags s = fo_lookup (table_fsops tab) fs path flags s"
  "mounted tab name fs s \<Longrightarrow> fo_close kernel_fsops fs node s = fo_close (table_fsops tab) fs node s"
  by (auto simp: kernel_fsops_def via_fs_def mounted_def)

lemma node_blocks_ptr [simp]: "node_blocks (node\<lparr>kn_ptr := p\<rparr>) = node_blocks node"
  by (simp add: node_blocks_def node_ptrs_def)

lemma inode_free_ptr [simp]: "inode_free (node\<lparr>kn_ptr := p\<rparr>) s = inode_free node s"
  by (simp add: inode_free_def)

lemma node_blocks_fst: "fst ` node_blocks node = set (node_ptrs node)"
  by (auto simp: node_blocks_def hp.blocks_def node_ptrs_def node_sizes_def)

lemma not_node_block: "q \<notin> set (node_ptrs node) \<Longrightarrow> (q, n) \<notin> node_blocks node"
  using node_blocks_fst [of node] by force

lemma held_mono: "held s U k \<Longrightarrow> j \<le> k \<Longrightarrow> held s U j"
proof -
  assume "held s U k" "j \<le> k"
  then obtain ss a i where "pmm_ok s ss" "U = ptr_of ` used ss" "(False, a, i) \<in> set ss" "j \<le> i"
    by (auto simp: held_def)
  then show ?thesis unfolding held_def by (intro exI [of _ ss] conjI) auto
qed

section \<open>devfs\<close>

text \<open>The table of devices has no empty slot: the search is defined.\<close>

definition devs_ok :: "'a dev_st_scheme \<Rightarrow> bool" where
  "devs_ok s \<longleftrightarrow> None \<notin> set (devices s)"

lemma dev_lookup_defined: "None \<notin> set ds \<Longrightarrow> \<exists>r. dev_lookup name ds = Some r"
  by (induction name ds rule: dev_lookup.induct) auto

definition devfs_ok :: "u32 \<Rightarrow> 'a kfs_st_scheme \<Rightarrow> bool" where
  "devfs_ok fs s \<longleftrightarrow> mounted Devfs_ops ''devfs'' fs s \<and> devs_ok s"

definition devfs_live :: "u32 \<Rightarrow> knode \<Rightarrow> 'a kfs_st_scheme \<Rightarrow> bool" where
  "devfs_live fs node s \<longleftrightarrow> kn_table node = Devfs_ops \<and> kn_fs node = fs \<and> distinct (node_ptrs node) \<and> 0 \<notin> set (node_ptrs node)"


lemma devfs_lookup_run:
  assumes ok: "devfs_ok fs s" and held: "held s U k" "hp.need (node_sizes path) \<le> k" and p: "path \<noteq> []" "hd path = CHR ''/''"
  shows "\<exists>r s1. devfs_lookup fs path flags s = Some (r, s1) \<and> heap_only s s1 \<and>
     (case r of None \<Rightarrow> held s1 U k
      | Some node \<Rightarrow> devfs_live fs node s1 \<and> fst ` node_blocks node \<inter> fst ` U = {} \<and>
          held s1 (node_blocks node \<union> U) (k - hp.need (node_sizes path)))"
proof -
  obtain node s1 where n: "new_inode Devfs_ops fs path s = Some (node, s1)" "node_ok node U" "kn_fs node = fs"
    "kn_table node = Devfs_ops" "held s1 (node_blocks node \<union> U) (k - hp.need (node_sizes path))" "heap_only s s1"
    using new_inode_ok [OF held] by blast
  have nm: "fs_named ''devfs'' fs s" using ok mounted_named by (auto simp: devfs_ok_def)
  have d: "devfs_live fs (node\<lparr>kn_ptr := q\<rparr>) s1 \<and> fst ` node_blocks (node\<lparr>kn_ptr := q\<rparr>) \<inter> fst ` U = {}" for q
    using n by (auto simp: devfs_live_def node_ok_def node_ptrs_def node_blocks_fst)
  obtain r where r: "dev_lookup (tl path) (devices s1) = Some r"
    using dev_lookup_defined [of "devices s1" "tl path"] ok heap_only_kfs [OF n(6)] by (auto simp: devfs_ok_def devs_ok_def)
  consider "length path = 1" | "length path \<noteq> 1" "r = None" | dv where "length path \<noteq> 1" "r = Some dv" by blast
  then show ?thesis
  proof cases
    case 1
    then have "devfs_lookup fs path flags s = Some (Some node, s1)" using n nm p by (simp add: devfs_lookup_def)
    then show ?thesis using n d [of "kn_ptr node"] by simp
  next
    case 2
    obtain s2 where s2: "inode_free node s1 = Some s2" "held s2 U k" "heap_only s s2"
      using inode_free_ok [OF held(1) n(5,6,2)] by blast
    then have "devfs_lookup fs path flags s = Some (None, s2)" using n nm p r 2 by (simp add: devfs_lookup_def)
    then show ?thesis using s2 by simp
  next
    case 3
    then have "devfs_lookup fs path flags s = Some (Some (node\<lparr>kn_ptr := Ptr_dev dv\<rparr>), s1)"
      using n nm p r by (simp add: devfs_lookup_def)
    then show ?thesis using n d by simp
  qed
qed

lemma inode_free_held:
  assumes "held s W j" "node_blocks node \<subseteq> W" "distinct (node_ptrs node)" "0 \<notin> set (node_ptrs node)"
  shows "\<exists>s'. inode_free node s = Some s' \<and> held s' (W - node_blocks node) j \<and> heap_only s s'"
proof -
  let ?ps = "[kn_ops node, kn_path node, kn_info node, kn_addr node]"
  have s: "set ?ps = set (node_ptrs node)" "distinct ?ps" using assms(3) by (auto simp: node_ptrs_def)
  have i: "inj_on fst W" using assms(1) by (rule held_inj)
  have "set ?ps \<subseteq> fst ` W" using s(1) node_blocks_fst [of node] assms(2) by blast
  then obtain s' where s': "hp.gives ?ps s = Some s'" "held s' {(p, n) \<in> W. p \<notin> set ?ps} j" "heap_only s s'"
    using hp.gives_ok [OF assms(1) s(2)] by blast
  have "fst x \<in> set ?ps \<longleftrightarrow> x \<in> node_blocks node" if "x \<in> W" for x
  proof
    assume "fst x \<in> set ?ps"
    then have "fst x \<in> fst ` node_blocks node" unfolding s(1) node_blocks_fst .
    then obtain y where y: "y \<in> node_blocks node" "fst y = fst x" by (metis imageE)
    then have "y = x" using inj_onD [OF i] assms(2) that by blast
    then show "x \<in> node_blocks node" using y by simp
  qed (use s(1) node_blocks_fst [of node] in blast)
  moreover have "{(p, n) \<in> W. p \<notin> set ?ps} = {x \<in> W. fst x \<notin> set ?ps}" by auto
  ultimately have "{(p, n) \<in> W. p \<notin> set ?ps} = W - node_blocks node" by blast
  moreover have "inode_free node s = Some s'"
    using s'(1) assms(4) by (auto simp: inode_free_def node_ptrs_def split: bind_splits)
  ultimately show ?thesis using s'(2,3) by auto
qed

lemma devfs_close_run:
  assumes "devfs_ok fs s" "devfs_live fs node s" "held s W j" "node_blocks node \<subseteq> W"
  shows "\<exists>s'. devfs_fs_close fs (Some node) s = Some (0, s') \<and> held s' (W - node_blocks node) j \<and> heap_only s s'"
  using inode_free_held [OF assms(3,4)] assms(1,2) mounted_named
  by (fastforce simp: devfs_fs_close_def devfs_live_def devfs_ok_def)

lemma devfs_ok_heap: "heap_only s s' \<Longrightarrow> devfs_ok fs s' = devfs_ok fs (s :: 'a kfs_st_scheme)"
  by (simp add: devfs_ok_def mounted_heap devs_ok_def heap_only_kfs)

lemma devfs_access_run:
  "devfs_ok fs s \<Longrightarrow> devfs_live fs node s \<Longrightarrow> \<exists>r. op_access (devfs_inodeops yield) (new_file node) flags s = Some (r, s)"
  using mounted_named
  by (auto simp: devfs_inodeops_def devfs_access_def devfs_node_def devfs_ok_def devfs_live_def new_file_def)

interpretation dfs: fs_api "kernel_env yield" fs "devfs_ok fs" "devfs_live fs" "\<lambda>node _. node_blocks node"
  "\<lambda>path. hp.need (node_sizes path)" for yield fs
proof
  fix s s' :: "'a kfs_st_scheme" and node
  assume "heap_only s s'"
  then show "devfs_ok fs s' = devfs_ok fs s \<and> devfs_live fs node s' = devfs_live fs node s \<and> node_blocks node = node_blocks node"
    by (simp add: devfs_ok_heap devfs_live_def)
next
  fix s :: "'a kfs_st_scheme" and U k sub flags
  assume a: "devfs_ok fs s" "held s U k" "hp.need (node_sizes sub) \<le> k" "hd sub = CHR ''/''" "sub \<noteq> []"
  from devfs_lookup_run [OF a(1-3,5,4), of flags] obtain r s1 where r: "devfs_lookup fs sub flags s = Some (r, s1)"
    "heap_only s s1" "case r of None \<Rightarrow> held s1 U k
      | Some node \<Rightarrow> devfs_live fs node s1 \<and> fst ` node_blocks node \<inter> fst ` U = {} \<and>
          held s1 (node_blocks node \<union> U) (k - hp.need (node_sizes sub))" by blast
  moreover have "fo_lookup (fs_ops (kernel_env yield) fs) fs sub flags s = Some (r, s1)"
    using a(1) r(1) by (auto simp: devfs_ok_def devfs_fsops_def)
  ultimately show "\<exists>r s1. fo_lookup (fs_ops (kernel_env yield) fs) fs sub flags s = Some (r, s1) \<and> devfs_ok fs s1 \<and> keeps s s1 \<and>
       (case r of None \<Rightarrow> held s1 U k
        | Some node \<Rightarrow> in_fs (kernel_env yield) node = fs \<and> devfs_live fs node s1 \<and>
            fst ` node_blocks node \<inter> fst ` U = {} \<and> held s1 (node_blocks node \<union> U) (k - hp.need (node_sizes sub)))"
    using a(1) devfs_ok_heap [OF r(2)] heap_only_keeps [OF r(2)]
    by (auto simp: devfs_live_def split: option.splits)
next
  fix s :: "'a kfs_st_scheme" and node flags
  assume "devfs_ok fs s" "devfs_live fs node s"
  then show "\<exists>r. op_access (in_ops (kernel_env yield) node) (new_file node) flags s = Some (r, s)"
    using devfs_access_run [of fs s node yield flags] by (simp add: devfs_live_def)
next
  fix s :: "'a kfs_st_scheme" and node W j
  assume a: "devfs_ok fs s" "devfs_live fs node s" "held s W j" "node_blocks node \<subseteq> W"
  from devfs_close_run [OF this] obtain s' where
    s': "devfs_fs_close fs (Some node) s = Some (0, s')" "held s' (W - node_blocks node) j" "heap_only s s'" by blast
  moreover have "fo_close (fs_ops (kernel_env yield) fs) fs node s = Some (0, s')"
    using a(1) s'(1) by (auto simp: devfs_ok_def devfs_fsops_def)
  ultimately show "\<exists>s'. fo_close (fs_ops (kernel_env yield) fs) fs node s = Some (0, s') \<and> devfs_ok fs s' \<and> keeps s s' \<and>
      held s' (W - node_blocks node) j"
    using a(1) devfs_ok_heap [OF s'(3)] heap_only_keeps [OF s'(3)] by blast
qed

section \<open>procfs\<close>

definition info_blocks :: "u32 \<Rightarrow> task_info option \<Rightarrow> (u32 \<times> nat) set" where
  "info_blocks p i = (case i of None \<Rightarrow> {}
     | Some tki \<Rightarrow> insert (p, 20) (if ti_hasOpened tki = 0 then {} else {(ti_content tki, 128)}))"

definition procfs_owns :: "knode \<Rightarrow> 'a kfs_st_scheme \<Rightarrow> (u32 \<times> nat) set" where
  "procfs_owns node s = node_blocks node \<union> (case kn_ptr node of Ptr_task p \<Rightarrow> info_blocks p (task_infos s p) | _ \<Rightarrow> {})"

definition procfs_ok :: "u32 \<Rightarrow> 'a kfs_st_scheme \<Rightarrow> bool" where
  "procfs_ok fs s \<longleftrightarrow> mounted Procfs_ops ''procfs'' fs s"

text \<open>The blocks of the inode, of its \<open>task_info\<close> and of the text are different ones.\<close>

definition procfs_live :: "u32 \<Rightarrow> knode \<Rightarrow> 'a kfs_st_scheme \<Rightarrow> bool" where
  "procfs_live fs node s \<longleftrightarrow> kn_table node = Procfs_ops \<and> kn_fs node = fs \<and> distinct (node_ptrs node) \<and> 0 \<notin> set (node_ptrs node) \<and>
     (kn_ptr node = Ptr_null \<or> (\<exists>p tki. kn_ptr node = Ptr_task p \<and> task_infos s p = Some tki \<and> p \<noteq> 0 \<and>
        p \<notin> set (node_ptrs node) \<and> (ti_hasOpened tki = 0 \<or> ti_hasOpened tki = 1 \<and> ti_content tki \<noteq> p \<and> ti_content tki \<noteq> 0 \<and>
          ti_content tki \<notin> set (node_ptrs node))))"

lemma procfs_live_env: "procfs_live fs node s \<Longrightarrow> kn_fs node = fs \<and> kn_table node = Procfs_ops"
  by (simp add: procfs_live_def)

lemma procfs_heap:
  "heap_only s s' \<Longrightarrow> procfs_ok fs s' = procfs_ok fs s \<and> procfs_live fs node s' = procfs_live fs node s \<and>
     procfs_owns node s' = procfs_owns node (s :: 'a kfs_st_scheme)"
proof -
  assume h: "heap_only s s'"
  then have "task_infos s' = task_infos s" using heap_only_kfs by blast
  then show ?thesis using h by (simp add: procfs_ok_def mounted_heap procfs_live_def procfs_owns_def split: kptr.split)
qed

lemma new_task_info_run:
  assumes "held s U k" "32 \<le> k"
  shows "\<exists>p s1. new_task_info type obj s = Some (p, s1) \<and> p \<noteq> 0 \<and> p \<notin> fst ` U \<and> keeps s s1 \<and>
     held s1 (insert (p, 20) U) (k - 32) \<and> filesystems s1 = filesystems s \<and>
     task_infos s1 = (task_infos s)(p \<mapsto> \<lparr>ti_type = type, ti_hasOpened = 0, ti_obj = obj, ti_content = 0, ti_text = [], ti_size = 0\<rparr>)"
proof -
  have sz: "unat (20 :: u32) = 20" by simp
  obtain p s1 where p: "pmm_alloc 20 s = Some (p, s1)" "p \<noteq> 0" "p \<notin> fst ` U"
    "held s1 (insert (p, 20) U) (k - 32)" "heap_only s s1"
    using hp.alloc_ok [OF assms(1), of 20] assms(2) by auto
  then show ?thesis
    using heap_only_kfs [OF p(5)] keeps_trans [OF heap_only_keeps [OF p(5)] keeps_infos]
    by (auto simp: new_task_info_def set_info_def)
qed

definition procfs_need :: "string \<Rightarrow> nat" where
  "procfs_need path = hp.need (node_sizes path) + 32"

lemma procfs_lookup_run:
  assumes ok: "procfs_ok fs s" and held: "held s U k" "procfs_need path \<le> k" and p: "path \<noteq> []" "hd path = CHR ''/''"
  shows "\<exists>r s1. procfs_lookup fs path flags s = Some (r, s1) \<and> procfs_ok fs s1 \<and> keeps s s1 \<and>
     (case r of None \<Rightarrow> held s1 U k
      | Some node \<Rightarrow> procfs_live fs node s1 \<and> fst ` procfs_owns node s1 \<inter> fst ` U = {} \<and>
          held s1 (procfs_owns node s1 \<union> U) (k - procfs_need path))"
proof -
  let ?n = "hp.need (node_sizes path)"
  have le: "?n \<le> k" "32 \<le> k - ?n" using held(2) by (simp_all add: procfs_need_def)
  obtain node s1 where n: "new_inode Procfs_ops fs path s = Some (node, s1)" "node_ok node U" "kn_fs node = fs"
    "kn_table node = Procfs_ops" "kn_ptr node = Ptr_null" "held s1 (node_blocks node \<union> U) (k - ?n)" "heap_only s s1"
    using new_inode_ok [OF held(1) le(1)] by blast
  have nm: "fs_named ''procfs'' fs s" using ok mounted_named by (auto simp: procfs_ok_def)
  have np: "distinct (node_ptrs node)" "0 \<notin> set (node_ptrs node)" "set (node_ptrs node) \<inter> fst ` U = {}"
    using n(2) by (simp_all add: node_ok_def)
  have found: "\<exists>s2 p. new_task_info type obj s1 = Some (p, s2) \<and> procfs_ok fs s2 \<and> keeps s s2 \<and>
      procfs_live fs (node\<lparr>kn_ptr := Ptr_task p\<rparr>) s2 \<and>
      fst ` procfs_owns (node\<lparr>kn_ptr := Ptr_task p\<rparr>) s2 \<inter> fst ` U = {} \<and>
      held s2 (procfs_owns (node\<lparr>kn_ptr := Ptr_task p\<rparr>) s2 \<union> U) (k - procfs_need path)" for type obj
  proof -
    obtain p s2 where t: "new_task_info type obj s1 = Some (p, s2)" "p \<noteq> 0" "p \<notin> fst ` (node_blocks node \<union> U)"
      "keeps s1 s2" "held s2 (insert (p, 20) (node_blocks node \<union> U)) (k - ?n - 32)" "filesystems s2 = filesystems s1"
      "task_infos s2 = (task_infos s1)(p \<mapsto> \<lparr>ti_type = type, ti_hasOpened = 0, ti_obj = obj, ti_content = 0, ti_text = [], ti_size = 0\<rparr>)"
      using new_task_info_run [OF n(6) le(2)] by blast
    let ?nd = "node\<lparr>kn_ptr := Ptr_task p\<rparr>"
    have o: "procfs_owns ?nd s2 = insert (p, 20) (node_blocks node)" using t(7) by (simp add: procfs_owns_def info_blocks_def)
    have "p \<notin> set (node_ptrs node)" "p \<notin> fst ` U" using t(3) node_blocks_fst [of node] by auto
    then have "procfs_live fs ?nd s2" "fst ` procfs_owns ?nd s2 \<inter> fst ` U = {}"
      using n(3,4) np t(2,7) by (auto simp: procfs_live_def node_ptrs_def o node_blocks_fst)
    moreover have "k - procfs_need path = k - ?n - 32" by (simp add: procfs_need_def)
    moreover have "procfs_ok fs s2" using ok t(6) heap_only_kfs [OF n(7)] by (simp add: procfs_ok_def mounted_def)
    ultimately show ?thesis
      using t(1,5) o keeps_trans [OF heap_only_keeps [OF n(7)] t(4)] by (intro exI [of _ s2] exI [of _ p]) simp
  qed
  have look: "procfs_lookup fs path flags s = (let tpath = tl path in
     if length path = 1 then Some (Some node, s1)
     else if tpath = ''cpuinfo'' then do { (tki, s) \<leftarrow> new_task_info CPU_INFO 0 s1; Some (Some (node\<lparr>kn_ptr := Ptr_task tki\<rparr>), s) }
     else if tpath = ''meminfo'' then do { (tki, s) \<leftarrow> new_task_info MEM_INFO 0 s1; Some (Some (node\<lparr>kn_ptr := Ptr_task tki\<rparr>), s) }
     else do {
       let tk = task_lookup tpath s1;
       if tk = 0 then do { s \<leftarrow> inode_free node s1; Some (None, s) }
       else do { (tki, s) \<leftarrow> new_task_info TASK_INFO tk s1; Some (Some (node\<lparr>kn_ptr := Ptr_task tki\<rparr>), s) } })"
    using n(1) nm p by (simp add: procfs_lookup_def Let_def)
  have "(length path = 1 \<and> procfs_lookup fs path flags s = Some (Some node, s1)) \<or>
    (\<exists>type obj. procfs_lookup fs path flags s = do {
       (tki, s) \<leftarrow> new_task_info type obj s1; Some (Some (node\<lparr>kn_ptr := Ptr_task tki\<rparr>), s) }) \<or>
    procfs_lookup fs path flags s = do { s \<leftarrow> inode_free node s1; Some (None, s) }"
    unfolding look Let_def
    by (cases "length path = 1"; cases "tl path = ''cpuinfo''"; cases "tl path = ''meminfo''";
      cases "task_lookup (tl path) s1 = 0") (simp_all, blast+)
  then consider "length path = 1" "procfs_lookup fs path flags s = Some (Some node, s1)"
    | type obj where "procfs_lookup fs path flags s = do {
       (tki, s) \<leftarrow> new_task_info type obj s1; Some (Some (node\<lparr>kn_ptr := Ptr_task tki\<rparr>), s) }"
    | "procfs_lookup fs path flags s = do { s \<leftarrow> inode_free node s1; Some (None, s) }"
    by blast
  then show ?thesis
  proof cases
    case 1
    moreover have "procfs_owns node s1 = node_blocks node" "procfs_live fs node s1"
      using n(3-5) np by (simp_all add: procfs_owns_def procfs_live_def)
    moreover have "procfs_ok fs s1" using procfs_heap [OF n(7)] ok by blast
    ultimately show ?thesis
      using n(6) np heap_only_keeps [OF n(7)]
      by (auto simp: node_blocks_fst procfs_need_def intro: held_mono)
  next
    case 2
    then show ?thesis using found [of type obj] by fastforce
  next
    case 3
    obtain s2 where s2: "inode_free node s1 = Some s2" "held s2 U k" "heap_only s s2"
      using inode_free_ok [OF held(1) n(6,7,2)] by blast
    then show ?thesis using 3 procfs_heap [OF s2(3)] ok heap_only_keeps [OF s2(3)] by auto
  qed
qed

lemma procfs_close_run:
  assumes ok: "procfs_ok fs s" and live: "procfs_live fs node s" and held: "held s W j" "procfs_owns node s \<subseteq> W"
  shows "\<exists>s'. procfs_fs_close fs (Some node) s = Some (0, s') \<and> procfs_ok fs s' \<and> keeps s s' \<and>
     held s' (W - procfs_owns node s) j"
proof -
  have nm: "fs_named ''procfs'' fs s" using ok mounted_named by (auto simp: procfs_ok_def)
  have np: "distinct (node_ptrs node)" "0 \<notin> set (node_ptrs node)" using live by (simp_all add: procfs_live_def)
  show ?thesis
  proof (cases "kn_ptr node = Ptr_null")
    case True
    then have o: "procfs_owns node s = node_blocks node" by (simp add: procfs_owns_def)
    obtain s' where "inode_free node s = Some s'" "held s' (W - node_blocks node) j" "heap_only s s'"
      using inode_free_held [OF held(1) _ np] held(2) o by auto
    then show ?thesis
      using nm True o ok procfs_heap [of s s' fs node] heap_only_keeps [of s s'] by (auto simp: procfs_fs_close_def)
  next
    case False
    then obtain p tki where t: "kn_ptr node = Ptr_task p" "task_infos s p = Some tki" "p \<noteq> 0" "p \<notin> set (node_ptrs node)"
      "ti_hasOpened tki = 0 \<or> ti_hasOpened tki = 1 \<and> ti_content tki \<noteq> p \<and> ti_content tki \<noteq> 0 \<and>
         ti_content tki \<notin> set (node_ptrs node)"
      using live by (auto simp: procfs_live_def)
    let ?C = "if ti_hasOpened tki = 0 then {} else {(ti_content tki, 128 :: nat)}"
    have o: "procfs_owns node s = node_blocks node \<union> insert (p, 20) ?C" using t(1,2) by (simp add: procfs_owns_def info_blocks_def)
    have "\<exists>s1. (if ti_hasOpened tki \<noteq> 0 then pmm_free (ti_content tki) s else Some s) = Some s1 \<and>
        held s1 (W - ?C) j \<and> heap_only s s1"
      using hp.dealloc_ok [OF held(1), of "ti_content tki" 128] held o by (auto simp: hp.frame_refl)
    then obtain s1 where s1: "(if ti_hasOpened tki \<noteq> 0 then pmm_free (ti_content tki) s else Some s) = Some s1"
      "held s1 (W - ?C) j" "heap_only s s1" by blast
    have "(p, 20) \<in> W - ?C" using o held(2) t(5) by auto
    then obtain s2 where s2: "pmm_free p s1 = Some s2" "held s2 (W - ?C - {(p, 20)}) j" "heap_only s1 s2"
      using hp.dealloc_ok [OF s1(2)] by blast
    let ?s2 = "s2\<lparr>task_infos := (task_infos s2)(p := None)\<rparr>"
    have "node_blocks node \<subseteq> W - ?C - {(p, 20)}"
      using held(2) o t(4,5) not_node_block [of _ node] by (auto split: if_splits)
    then obtain s3 where s3: "inode_free node ?s2 = Some s3" "held s3 (W - ?C - {(p, 20)} - node_blocks node) j" "heap_only ?s2 s3"
      using inode_free_held [of ?s2 "W - ?C - {(p, 20)}" j node] np s2(2) by auto
    have "W - ?C - {(p, 20)} - node_blocks node = W - procfs_owns node s" unfolding o by auto
    moreover have "procfs_fs_close fs (Some node) s = Some (0, s3)"
      using nm t(1,2) s1(1) s2(1) s3(1) by (simp add: procfs_fs_close_def node_info_def split: if_splits)
    moreover have "keeps s s3"
      using heap_only_keeps [OF s1(3)] heap_only_keeps [OF s2(3)] heap_only_keeps [OF s3(3)] keeps_infos keeps_trans by metis
    moreover have "procfs_ok fs s3"
      using ok heap_only_kfs [OF s1(3)] heap_only_kfs [OF s2(3)] heap_only_kfs [OF s3(3)] by (simp add: procfs_ok_def mounted_def)
    ultimately show ?thesis using s3(2) by (metis (no_types))
  qed
qed

interpretation pfs: fs_api "kernel_env yield" fs "procfs_ok fs" "procfs_live fs" procfs_owns procfs_need for yield fs
proof
  fix s s' :: "'a kfs_st_scheme" and node
  assume "heap_only s s'"
  then show "procfs_ok fs s' = procfs_ok fs s \<and> procfs_live fs node s' = procfs_live fs node s \<and>
      procfs_owns node s' = procfs_owns node s" by (rule procfs_heap)
next
  fix s :: "'a kfs_st_scheme" and U k sub flags
  assume a: "procfs_ok fs s" "held s U k" "procfs_need sub \<le> k" "hd sub = CHR ''/''" "sub \<noteq> []"
  from procfs_lookup_run [OF a(1-3,5,4), of flags] obtain r s1 where r: "procfs_lookup fs sub flags s = Some (r, s1)"
    "procfs_ok fs s1" "keeps s s1" "case r of None \<Rightarrow> held s1 U k
      | Some node \<Rightarrow> procfs_live fs node s1 \<and> fst ` procfs_owns node s1 \<inter> fst ` U = {} \<and>
          held s1 (procfs_owns node s1 \<union> U) (k - procfs_need sub)" by blast
  then show "\<exists>r s1. fo_lookup (fs_ops (kernel_env yield) fs) fs sub flags s = Some (r, s1) \<and>
       procfs_ok fs s1 \<and> keeps s s1 \<and>
       (case r of None \<Rightarrow> held s1 U k
        | Some node \<Rightarrow> in_fs (kernel_env yield) node = fs \<and> procfs_live fs node s1 \<and>
            fst ` procfs_owns node s1 \<inter> fst ` U = {} \<and> held s1 (procfs_owns node s1 \<union> U) (k - procfs_need sub))"
    using a(1) procfs_live_env by (intro exI [of _ r] exI [of _ s1]) (auto simp: procfs_ok_def procfs_fsops_def split: option.splits)
next
  fix s :: "'a kfs_st_scheme" and node flags
  assume "procfs_ok fs s" "procfs_live fs node s"
  then show "\<exists>r. op_access (in_ops (kernel_env yield) node) (new_file node) flags s = Some (r, s)"
    using mounted_named by (auto simp: procfs_live_def procfs_inodeops_def procfs_access_def procfs_node_def procfs_ok_def new_file_def)
next
  fix s :: "'a kfs_st_scheme" and node W j
  assume a: "procfs_ok fs s" "procfs_live fs node s" "held s W j" "procfs_owns node s \<subseteq> W"
  from procfs_close_run [OF this] show "\<exists>s'. fo_close (fs_ops (kernel_env yield) fs) fs node s = Some (0, s') \<and> procfs_ok fs s' \<and>
      keeps s s' \<and> held s' (W - procfs_owns node s) j"
    using a(1) by (auto simp: procfs_ok_def procfs_fsops_def)
qed

end
