(* ===== verification/KfsUse.thy ===== *)
theory KfsUse
  imports KfsProps TtyProps
begin

text \<open>
  Calls of \<open>vfs.c\<close> that end in the device and the process file system: what the files below
  \<open>/proc\<close> and \<open>/dev\<close> deliver, and what the calls leave in the heap.
\<close>

section \<open>Asking for access\<close>

lemma access_restores_heap_run:
  assumes "vfs_idle s" "current_task s \<noteq> None"
    and "get_mount_fs (Some p) s = Some (Some (mn, sub), s)" "mn_fs mn \<noteq> 0" "sub \<noteq> []" "hd sub = CHR ''/''"
    and "devfs_ok (mn_fs mn) s \<or> procfs_ok (mn_fs mn) s" "held s U k" "procfs_need sub + 32 \<le> k"
  shows "\<exists>r s'. vfs_access (kernel_env yield) (Some p) flags s = Some (r, s') \<and> held s' U k \<and> keeps s s'"
  using assms(7)
proof
  assume ok: "devfs_ok (mn_fs mn) s"
  have "hp.need (node_sizes sub) + 32 \<le> k" using assms(9) by (simp add: procfs_need_def)
  from dfs.access_restores [OF assms(1,2) ok assms(3) refl assms(5,6,4,8) this, of yield flags] show ?thesis by blast
next
  assume ok: "procfs_ok (mn_fs mn) s"
  from pfs.access_restores [OF assms(1,2) ok assms(3) refl assms(5,6,4,8,9), of yield flags] show ?thesis by blast
qed

section \<open>The text of a process\<close>

definition task_text :: "task_t \<Rightarrow> string" where
  "task_text tk = ''Tid: '' @ digits 10 (unat (t_tid tk)) @ nl @ ''Name: '' @ t_name tk @ nl @
     ''CPU: '' @ digits 10 (t_cpu tk) @ nl"

lemma proc_sprintf_run:
  assumes "format fmt ap = Some t" "CHR 0x00 \<notin> set t" "length t < 128"
  shows "proc_sprintf fmt ap = Some t"
proof -
  have "sprintf (replicate 128 (CHR 0x00)) fmt ap = Some (length t, put_at 0 (t @ [CHR 0x00]) (replicate 128 (CHR 0x00)))"
    unfolding sprintf_def using assms by (intro vsnprintf_run) auto
  moreover have "takeWhile (\<lambda>c. c \<noteq> CHR 0x00) (put_at 0 (t @ [CHR 0x00]) (replicate 128 (CHR 0x00))) = t"
    using takeWhile_nul [OF assms(2), of "drop (length t + 1) (replicate 128 (CHR 0x00))"] by (simp add: put_at_def)
  ultimately show ?thesis by (simp add: proc_sprintf_def)
qed

lemma field_decimal:
  assumes "unat w < 2 ^ 31"
  shows "field (CHR ''d'') (A_word w) = Some (digits 10 (unat w))"
proof -
  have "sint w = int (unat w)"
  proof -
    have "int (unat w) < int (2 ^ 31)" using assms by (simp only: of_nat_less_iff)
    then have "uint w < 2 ^ 31" by simp
    moreover have "- (2 ^ 31) \<le> uint w" by (rule order_trans [OF _ uint_ge_0]) simp
    ultimately show ?thesis unfolding sint_uint by (subst signed_take_bit_int_eq_self) (use \<open>- (2 ^ 31) \<le> uint w\<close> in auto)
  qed
  moreover have "- (2 ^ 31) < int (unat w)" by (rule less_le_trans [OF _ of_nat_0_le_iff]) simp
  ultimately show ?thesis by (simp add: field_def magnitude_def sign_def)
qed

lemma format_task:
  assumes "unat (t_tid tk) < 2 ^ 31" "t_cpu tk < 2 ^ 31" "length (t_name tk) < BUFFER_SIZE"
  shows "format (''Tid: %d'' @ nl @ ''Name: %s'' @ nl @ ''CPU: %d'' @ nl)
     [A_word (t_tid tk), A_str (t_name tk), A_word (of_nat (t_cpu tk))] = Some (task_text tk)"
proof -
  have "length (digits 10 v) \<le> 10" if "v < 2 ^ 31" for v using digits_length [of v 10] that by simp
  then have "length (digits 10 (unat (t_tid tk))) < BUFFER_SIZE" "length (digits 10 (t_cpu tk)) < BUFFER_SIZE"
    using assms(1,2) by (fastforce simp: BUFFER_SIZE_def)+
  moreover have "unat (of_nat (t_cpu tk) :: u32) = t_cpu tk" using assms(2) by (intro unat_of_nat32) simp
  then have "field (CHR ''d'') (A_word (of_nat (t_cpu tk))) = Some (digits 10 (t_cpu tk))"
    using field_decimal [of "of_nat (t_cpu tk)"] assms(2) by simp
  moreover have "field (CHR ''s'') (A_str (t_name tk)) = Some (t_name tk)" by (simp add: field_def)
  ultimately show ?thesis
    using field_decimal [OF assms(1)] assms(3)
    by (simp add: nl_def task_text_def directive_def isdigit_def islower_def zero_fill_def)
qed

lemma task_text_nul: "CHR 0x00 \<notin> set (t_name tk) \<Longrightarrow> CHR 0x00 \<notin> set (task_text tk)"
  using digit_not_nul by (simp add: task_text_def nl_def)

section \<open>Opening, reading and closing a file of a process\<close>

text \<open>Reading piece after piece, each into a fresh zeroed buffer of one byte more.\<close>

fun read_chunks :: "kfile \<Rightarrow> nat list \<Rightarrow> 'a kfs_st_scheme \<Rightarrow> u8 list option" where
  "read_chunks f [] s = Some []"
| "read_chunks f (n # ns) s = do {
     ((r, buf), f, s) \<leftarrow> procfs_read f (replicate (n + 1) 0) n s;
     rest \<leftarrow> read_chunks f ns s;
     Some (take (nat r) buf @ rest) }"

definition proc_open :: "kfile \<Rightarrow> u32 \<Rightarrow> task_info \<Rightarrow> 'a kfs_st_scheme \<Rightarrow> bool" where
  "proc_open f p tki s \<longleftrightarrow> fs_named ''procfs'' (kn_fs (vf_inode f)) s \<and> vf_flags f = FILE_READ \<and>
     kn_ptr (vf_inode f) = Ptr_task p \<and> task_infos s p = Some tki \<and> ti_hasOpened tki = 1 \<and>
     ti_size tki = length (ti_text tki) \<and> CHR 0x00 \<notin> set (ti_text tki) \<and> vf_offset f \<le> ti_size tki"

lemma takeWhile_not_0:
  "0 \<notin> set xs \<Longrightarrow> takeWhile (\<lambda>b. b \<noteq> 0) (xs @ 0 # ys) = (xs :: u8 list)"
  by (induction xs) auto

lemma procfs_read_run:
  assumes o: "proc_open f p tki s" and n: "n = min sz (ti_size tki - vf_offset f)"
    and buf: "buf = pre @ suf" "length pre = n" "0 \<notin> set clean" "suf = clean @ 0 # stale"
  shows "procfs_read f buf sz s = Some ((int (n + (if n = 0 then 0 else length clean)),
     (if n = 0 then put_at 0 [0] buf else map byte_of (take n (drop (vf_offset f) (ti_text tki))) @ suf)),
     f\<lparr>vf_offset := vf_offset f + n + (if n = 0 then 0 else length clean)\<rparr>, s)"
proof -
  let ?t = "map byte_of (take n (drop (vf_offset f) (ti_text tki)))"
  have z: "0 \<notin> set ?t"
    using o by (auto simp: proc_open_def byte_of_eq_0 dest!: in_set_takeD in_set_dropD)
  have l: "length ?t = n" using o n by (simp add: proc_open_def)
  have m: "(if sz < ti_size tki - vf_offset f then sz else ti_size tki - vf_offset f) = n" using n by simp
  have s: "put_at 0 ?t buf = ?t @ suf" using buf(1,2) l by (simp add: put_at_def)
  have w: "takeWhile (\<lambda>b. b \<noteq> 0) (?t @ suf) = ?t @ clean"
    using takeWhile_not_0 [of "?t @ clean" stale] z buf(3) unfolding buf(4) by simp
  have sel: "fs_named ''procfs'' (kn_fs (vf_inode f)) s" "vf_flags f = FILE_READ" "kn_ptr (vf_inode f) = Ptr_task p"
    "task_infos s p = Some tki" "ti_hasOpened tki = 1" "vf_offset f \<le> ti_size tki" using o by (simp_all add: proc_open_def)
  have bl: "1 \<le> length buf" "n \<le> length buf" using buf by simp_all
  show ?thesis
  proof (cases "n = 0")
    case True
    then have "buf_store (if n = 0 then [0] else ?t) buf = Some (put_at 0 [0] buf)" using bl by (simp add: buf_store_def)
    moreover have "put_at 0 [0] buf = 0 # drop 1 buf" by (simp add: put_at_def)
    ultimately show ?thesis
      using sel by (simp add: procfs_read_def procfs_node_def node_info_def Let_def m True)
  next
    case False
    then have "buf_store (if n = 0 then [0] else ?t) buf = Some (?t @ suf)" using bl l s by (simp add: buf_store_def)
    moreover have "0 \<in> set (?t @ suf)" using buf(4) by simp
    moreover have "length (?t @ clean) = n + length clean" using l by simp
    ultimately show ?thesis
      using sel w False by (simp add: procfs_read_def procfs_node_def node_info_def Let_def m)
  qed
qed

lemma read_chunks_run:
  "proc_open f p tki s \<Longrightarrow>
   read_chunks f ns s = Some (map byte_of (take (sum_list ns) (drop (vf_offset f) (ti_text tki))))"
proof (induction ns arbitrary: f)
  case (Cons sz ns)
  let ?n = "min sz (ti_size tki - vf_offset f)"
  have len: "ti_size tki = length (ti_text tki)" using Cons.prems by (simp add: proc_open_def)
  have e: "replicate (sz + 1) (0 :: u8) = replicate ?n 0 @ (0 # replicate (sz - ?n) 0)"
    unfolding replicate_Suc [symmetric] replicate_add [symmetric] by simp
  obtain buf where r: "procfs_read f (replicate (sz + 1) 0) sz s = Some ((int ?n, buf), f\<lparr>vf_offset := vf_offset f + ?n\<rparr>, s)"
    "take ?n buf = map byte_of (take ?n (drop (vf_offset f) (ti_text tki)))"
    using procfs_read_run [where clean = "[]" and stale = "replicate (sz - ?n) 0", OF Cons.prems refl e] len by (cases "?n = 0") auto
  have o: "proc_open (f\<lparr>vf_offset := vf_offset f + ?n\<rparr>) p tki s" using Cons.prems by (auto simp: proc_open_def)
  show ?case
    using Cons.IH [OF o] r len
    by (simp add: take_add drop_drop add.commute min_def split: if_splits)
qed simp

lemma held_infos:
  "held (set_info p i s) U k = held (s :: 'a kfs_st_scheme) U k"
  by (simp add: set_info_def)

lemma procfs_lookup_task:
  assumes ok: "procfs_ok fs s" and held: "held s U k" "procfs_need (CHR ''/'' # name) \<le> k"
    and name: "name \<noteq> []" "name \<noteq> ''cpuinfo''" "name \<noteq> ''meminfo''" and tk: "task_lookup name s = tp" "tp \<noteq> 0"
  shows "\<exists>node p s1. procfs_lookup fs (CHR ''/'' # name) flags s = Some (Some node, s1) \<and> kn_ptr node = Ptr_task p \<and>
     task_infos s1 p = Some \<lparr>ti_type = TASK_INFO, ti_hasOpened = 0, ti_obj = tp, ti_content = 0, ti_text = [], ti_size = 0\<rparr> \<and>
     task_list s1 = task_list s"
proof -
  have "hp.need (node_sizes (CHR ''/'' # name)) \<le> k" "32 \<le> k - hp.need (node_sizes (CHR ''/'' # name))"
    using held(2) by (simp_all add: procfs_need_def)
  then obtain node s1 where n: "new_inode Procfs_ops fs (CHR ''/'' # name) s = Some (node, s1)"
    "held s1 (node_blocks node \<union> U) (k - hp.need (node_sizes (CHR ''/'' # name)))" "heap_only s s1"
    using new_inode_ok [OF held(1)] by blast
  obtain p s2 where p: "new_task_info TASK_INFO tp s1 = Some (p, s2)" "keeps s1 s2"
    "task_infos s2 = (task_infos s1)(p \<mapsto> \<lparr>ti_type = TASK_INFO, ti_hasOpened = 0, ti_obj = tp, ti_content = 0, ti_text = [], ti_size = 0\<rparr>)"
    using new_task_info_run [OF n(2) \<open>32 \<le> _\<close>] by blast
  have "task_lookup name s1 = tp" "task_list s2 = task_list s"
    using heap_only_kfs [OF n(3)] tk p(2) by (auto simp: task_lookup_def keeps_def same_vfs_def)
  moreover have "fs_named ''procfs'' fs s" using ok mounted_named by (auto simp: procfs_ok_def)
  ultimately have "procfs_lookup fs (CHR ''/'' # name) flags s = Some (Some (node\<lparr>kn_ptr := Ptr_task p\<rparr>), s2)"
    using n(1) p(1) name tk(2) by (simp add: procfs_lookup_def)
  then show ?thesis using p(3) \<open>task_list s2 = _\<close> by (intro exI [of _ "node\<lparr>kn_ptr := Ptr_task p\<rparr>"] exI [of _ p] exI [of _ s2]) simp
qed

lemma procfs_open_run:
  assumes ok: "procfs_ok fs s" and live: "procfs_live fs node s" and ptr: "kn_ptr node = Ptr_task p" "task_infos s p = Some tki"
    and unopened: "ti_hasOpened tki = 0" and held: "held s W j" "140 \<le> j" "procfs_owns node s \<subseteq> W"
    and ptxt: "proc_text tki s = Some ptxt" "CHR 0x00 \<notin> set ptxt"
    and stable: "\<And>s'. heap_only s s' \<Longrightarrow> proc_text tki s' = proc_text tki s"
  shows "\<exists>f s' c. procfs_open (new_file node) FILE_READ s = Some (0, f, s') \<and>
     proc_open f p (tki\<lparr>ti_content := c, ti_text := ptxt, ti_size := length ptxt, ti_hasOpened := 1\<rparr>) s' \<and> vf_inode f = node \<and>
     vf_offset f = 0 \<and> procfs_live fs node s' \<and> procfs_owns node s' = insert (c, 128) (procfs_owns node s) \<and>
     c \<notin> fst ` W \<and> held s' (insert (c, 128) W) (j - 140) \<and> procfs_ok fs s' \<and> keeps s s'"
proof -
  have fs: "kn_fs node = fs" "kn_table node = Procfs_ops" using procfs_live_env [OF live] by simp_all
  obtain c s1 where c: "pmm_alloc 128 s = Some (c, s1)" "c \<noteq> 0" "c \<notin> fst ` W" "held s1 (insert (c, 128) W) (j - 140)"
    "heap_only s s1"
    using hp.alloc_ok [OF held(1), of 128] held(2) by auto
  let ?tki = "tki\<lparr>ti_content := c, ti_text := ptxt, ti_size := length ptxt, ti_hasOpened := 1\<rparr>"
  let ?s = "set_info p ?tki s1"
  let ?f = "(new_file node)\<lparr>vf_offset := 0, vf_flags := FILE_READ\<rparr>"
  have nm: "fs_named ''procfs'' fs s" using ok mounted_named by (auto simp: procfs_ok_def)
  have "filesystems ?s = filesystems s" using heap_only_kfs [OF c(5)] by (simp add: set_info_def)
  then have nm': "fs_named ''procfs'' fs ?s" "procfs_ok fs ?s" using nm ok by (simp_all add: fs_named_def procfs_ok_def mounted_def)
  have ti: "task_infos ?s = (task_infos s)(p \<mapsto> ?tki)" using heap_only_kfs [OF c(5)] by (simp add: set_info_def)
  have "procfs_open (new_file node) FILE_READ s = Some (0, ?f, ?s)"
    using nm fs ptr unopened c(1,2) ptxt(1) stable [OF c(5)]
    by (simp add: procfs_open_def procfs_access_def procfs_node_def procfs_isRoot_def new_file_def flag_defs node_info_def)
  moreover have "proc_open ?f p ?tki ?s"
    using nm' fs ptr ti ptxt(2) by (simp add: proc_open_def new_file_def)
  moreover have "(p, 20) \<in> W" "node_blocks node \<subseteq> W" using held(3) ptr unopened by (auto simp: procfs_owns_def info_blocks_def)
  then have "c \<noteq> p" "c \<notin> set (node_ptrs node)" using c(3) node_blocks_fst [of node] by (force, blast)
  then have "procfs_live fs node ?s" using live ptr c(2) ti by (simp add: procfs_live_def)
  moreover have "procfs_owns node ?s = insert (c, 128) (procfs_owns node s)"
    using ptr ti unopened by (auto simp: procfs_owns_def info_blocks_def)
  moreover have "keeps s ?s" using keeps_trans [OF heap_only_keeps [OF c(5)]] by (simp add: set_info_def)
  ultimately show ?thesis using c(3,4) nm'(2) by (intro exI [of _ ?f] exI [of _ ?s] exI [of _ c]) (simp add: held_infos new_file_def)
qed

lemma procfs_file_close_run:
  assumes ok: "procfs_ok fs s" and live: "procfs_live fs node s" and o: "proc_open f p tki s" "vf_inode f = node"
    and held: "held s W j" "procfs_owns node s \<subseteq> W"
  shows "\<exists>f' s'. procfs_close f s = Some (0, f', s') \<and> vf_inode f' = node \<and> procfs_live fs node s' \<and> procfs_ok fs s' \<and> keeps s s' \<and>
     procfs_owns node s' = procfs_owns node s - {(ti_content tki, 128)} \<and> held s' (W - {(ti_content tki, 128)}) j"
proof -
  have nm: "fs_named ''procfs'' fs s" using ok mounted_named by (auto simp: procfs_ok_def)
  have ptr: "kn_ptr node = Ptr_task p" "task_infos s p = Some tki" "ti_hasOpened tki = 1"
    using o by (simp_all add: proc_open_def)
  have "(ti_content tki, 128) \<in> W" using held(2) ptr by (auto simp: procfs_owns_def info_blocks_def)
  then obtain s1 where s1: "pmm_free (ti_content tki) s = Some s1" "held s1 (W - {(ti_content tki, 128)}) j" "heap_only s s1"
    using hp.dealloc_ok [OF held(1)] by blast
  let ?tki = "tki\<lparr>ti_content := 0, ti_text := [], ti_size := 0, ti_hasOpened := 0\<rparr>"
  let ?s = "set_info p ?tki s1"
  have ti: "task_infos ?s = (task_infos s)(p \<mapsto> ?tki)" and "filesystems ?s = filesystems s"
    using heap_only_kfs [OF s1(3)] by (simp_all add: set_info_def)
  then have "procfs_ok fs ?s" using ok by (simp add: procfs_ok_def mounted_def)
  moreover have "procfs_close f s = Some (0, f, ?s)"
    using nm procfs_live_env [OF live] o(2) ptr s1(1)
    by (simp add: procfs_close_def procfs_node_def procfs_isRoot_def node_info_def)
  moreover have out: "p \<noteq> ti_content tki" "ti_content tki \<notin> set (node_ptrs node)" using live ptr by (auto simp: procfs_live_def)
  then have "procfs_owns node ?s = procfs_owns node s - {(ti_content tki, 128)}"
    using ptr ti not_node_block [OF out(2)] by (auto simp: procfs_owns_def info_blocks_def)
  moreover have "procfs_live fs node ?s" using live ptr ti by (auto simp: procfs_live_def)
  moreover have "keeps s ?s" using keeps_trans [OF heap_only_keeps [OF s1(3)]] by (simp add: set_info_def)
  ultimately show ?thesis using s1(2) o(2) by (intro exI [of _ f] exI [of _ ?s]) (simp add: held_infos)
qed

lemma proc_text_task:
  assumes "ti_type tki = TASK_INFO" "ti_obj tki = tp" "tp \<noteq> 0" "task_at tp s = Some tk"
    and "unat (t_tid tk) < 2 ^ 31" "t_cpu tk < 2 ^ 31" "CHR 0x00 \<notin> set (t_name tk)" "length (task_text tk) < 128"
  shows "proc_text tki s = Some (task_text tk)"
proof -
  have "length (t_name tk) < BUFFER_SIZE" using assms(8) by (simp add: task_text_def BUFFER_SIZE_def)
  then show ?thesis
    using assms proc_sprintf_run [OF format_task [OF assms(5,6)] task_text_nul [OF assms(7)] assms(8)]
    by (simp add: proc_text_def)
qed

lemma procfs_task_file_run:
  assumes ok: "procfs_ok fs s" and held: "held s U k" "procfs_need (CHR ''/'' # name) + 140 \<le> k"
    and name: "name \<noteq> []" "name \<noteq> ''cpuinfo''" "name \<noteq> ''meminfo''" and tk: "task_lookup name s \<noteq> 0"
    "task_at (task_lookup name s) s = Some tk" "unat (t_tid tk) < 2 ^ 31" "t_cpu tk < 2 ^ 31"
    "CHR 0x00 \<notin> set (t_name tk)" "length (task_text tk) < 128"
  shows "\<exists>node f s1 s2 f' s3 s4. procfs_lookup fs (CHR ''/'' # name) FILE_READ s = Some (Some node, s1) \<and>
     procfs_open (new_file node) FILE_READ s1 = Some (0, f, s2) \<and>
     (\<forall>ns. read_chunks f ns s2 = Some (map byte_of (take (sum_list ns) (task_text tk)))) \<and>
     procfs_close f s2 = Some (0, f', s3) \<and> procfs_fs_close fs (Some node) s3 = Some (0, s4) \<and>
     held s4 U k \<and> keeps s s4"
proof -
  let ?path = "CHR ''/'' # name" and ?tp = "task_lookup name s"
  let ?tki = "\<lparr>ti_type = TASK_INFO, ti_hasOpened = 0, ti_obj = ?tp, ti_content = 0, ti_text = [], ti_size = 0\<rparr>"
  have need: "procfs_need ?path \<le> k" "140 \<le> k - procfs_need ?path" using held(2) by simp_all
  obtain node p s1 where n: "procfs_lookup fs ?path FILE_READ s = Some (Some node, s1)" "kn_ptr node = Ptr_task p"
    "task_infos s1 p = Some ?tki" "task_list s1 = task_list s"
    using procfs_lookup_task [OF ok held(1) need(1) name refl tk(1)] by blast
  have l: "procfs_ok fs s1" "keeps s s1" "procfs_live fs node s1" "fst ` procfs_owns node s1 \<inter> fst ` U = {}"
    "held s1 (procfs_owns node s1 \<union> U) (k - procfs_need ?path)"
    using procfs_lookup_run [OF ok held(1) need(1), of FILE_READ] n(1) by auto
  have body: "proc_text ?tki s' = Some (task_text tk)" if "task_list s' = task_list s" for s'
    using tk that by (intro proc_text_task) (simp_all add: task_at_def)
  have "proc_text ?tki s' = proc_text ?tki s1" if "heap_only s1 s'" for s'
    using heap_only_kfs [OF that] n(4) by (simp add: body)
  then obtain f s2 c where o: "procfs_open (new_file node) FILE_READ s1 = Some (0, f, s2)"
    "proc_open f p (?tki\<lparr>ti_content := c, ti_text := task_text tk, ti_size := length (task_text tk), ti_hasOpened := 1\<rparr>) s2"
    "vf_inode f = node" "vf_offset f = 0" "procfs_live fs node s2" "procfs_owns node s2 = insert (c, 128) (procfs_owns node s1)"
    "c \<notin> fst ` (procfs_owns node s1 \<union> U)" "held s2 (insert (c, 128) (procfs_owns node s1 \<union> U)) (k - procfs_need ?path - 140)"
    "procfs_ok fs s2" "keeps s1 s2"
    using procfs_open_run [OF l(1,3) n(2,3) _ l(5) need(2) Un_upper1 body [OF n(4)] task_text_nul [OF tk(5)]] by auto
  have sub: "procfs_owns node s2 \<subseteq> insert (c, 128) (procfs_owns node s1 \<union> U)" using o(6) by auto
  obtain f' s3 where c: "procfs_close f s2 = Some (0, f', s3)" "procfs_live fs node s3" "procfs_ok fs s3" "keeps s2 s3"
    "procfs_owns node s3 = procfs_owns node s2 - {(c, 128)}"
    "held s3 (insert (c, 128) (procfs_owns node s1 \<union> U) - {(c, 128)}) (k - procfs_need ?path - 140)"
    using procfs_file_close_run [OF o(9,5,2,3,8) sub] by auto
  have out: "(c, 128) \<notin> procfs_owns node s1 \<union> U" using o(7) imageI [of "(c, 128)" _ fst] by (metis fst_conv)
  then have e: "insert (c, 128) (procfs_owns node s1 \<union> U) - {(c, 128)} = procfs_owns node s1 \<union> U"
    by (rule Diff_insert_absorb)
  have e2: "procfs_owns node s3 = procfs_owns node s1"
    unfolding c(5) o(6) by (rule Diff_insert_absorb) (use out in simp)
  obtain s4 where d: "procfs_fs_close fs (Some node) s3 = Some (0, s4)" "keeps s3 s4"
    "held s4 (procfs_owns node s1 \<union> U - procfs_owns node s1) (k - procfs_need ?path - 140)"
    using procfs_close_run [OF c(3,2) c(6) [unfolded e]] e2 by auto
  have "procfs_owns node s1 \<inter> U = {}" using l(4) by (metis disjoint_iff imageI)
  then have "procfs_owns node s1 \<union> U - procfs_owns node s1 = U" by auto
  moreover have k: "keeps s s4" using keeps_trans [OF l(2) keeps_trans [OF o(10) keeps_trans [OF c(4) d(2)]]] .
  ultimately have "held s4 U k" using d(3) held_area [OF held(1)] by (auto simp: keeps_def same_area_def)
  moreover have "read_chunks f ns s2 = Some (map byte_of (take (sum_list ns) (task_text tk)))" for ns
    using read_chunks_run [OF o(2), of ns] o(4) by simp
  ultimately show ?thesis using n(1) o(1) c(1) d(1) k by blast
qed

section \<open>Reading\<close>

lemma fd_call_run:
  assumes idle: "vfs_idle s" and ct: "current_task s = Some tk" and fd: "i < length (t_fildes tk)" "t_fildes tk ! i = tf"
    and tf: "tf \<noteq> 0" "files s tf = Some v" and f: "f v s = Some (r, v', s1)" "same_vfs s s1"
  shows "fd_call f (int i) s = Some (r, s1\<lparr>files := (files s1)(tf \<mapsto> v')\<rparr>)"
proof -
  have "on_file f tf s = Some (r, s1\<lparr>files := (files s1)(tf \<mapsto> v')\<rparr>)" using tf f by (simp add: on_file_def)
  then have "outside (on_file f tf) (V s) = Some (r, V (s1\<lparr>files := (files s1)(tf \<mapsto> v')\<rparr>))"
    by (rule outside_V [OF idle]) (use idle same_vfs_idle [OF f(2)] in simp)
  moreover have "vunlock (V (s1\<lparr>files := (files s1)(tf \<mapsto> v')\<rparr>)) = Some (s1\<lparr>files := (files s1)(tf \<mapsto> v')\<rparr>)"
    by (rule vunlock_V) (use idle same_vfs_idle [OF f(2)] in simp)
  ultimately show ?thesis
    using ct fd tf(1) vlock_idle [OF idle] by (simp add: fd_call_def get_file_def)
qed

lemma same_vfs_tty: "same_vfs s (upd_tty i f s)"
  by (simp add: same_vfs_def upd_tty_def)

lemma tty_inv_files [simp]: "tty_inv i e (s\<lparr>files := f\<rparr>) = tty_inv i e (s :: ('n, 'a) vfs_st_scheme)"
  by (simp add: tty_inv_def tty_ready_def sem_idle_def cli_ok_def hw_defs cur_addr_def tty_lock_def tty_cooked_def lock_of_def)

lemma tty_read_line_run:
  assumes idle: "vfs_idle s" and ct: "current_task s = Some tk" and fd: "i < length (t_fildes tk)" "t_fildes tk ! i = tf" "tf \<noteq> 0"
    and v: "files s tf = Some v" "vf_flags v = FILE_READ" "kn_table (vf_inode v) = Devfs_ops" "devfs_ok (kn_fs (vf_inode v)) s"
    and dv: "kn_ptr (vf_inode v) = Ptr_dev dv" "d_ops dv = Tty_ops" and tty: "tty_inv (d_id dv) (l # ls, p) s"
    and buf: "count \<le> length buf"
  shows "\<exists>s'. vfs_read (kernel_env yield) (int i) buf count s =
       Some ((int (length l) + 1, put_at 0 (map byte_of (take count (l @ [CHR 0x0A]))) buf), s') \<and>
     tty_inv (d_id dv) (ls, p) s' \<and> vfs_idle s'"
proof -
  obtain s1 f where r: "tty_read yield (d_id dv) count s = Some ((int (length l) + 1, take count (l @ [CHR 0x0A])), s1)"
    "tty_inv (d_id dv) (ls, p) s1" "s1 = upd_tty (d_id dv) f s"
    using read_run [OF tty, of yield count] by blast
  let ?buf = "put_at 0 (map byte_of (take count (l @ [CHR 0x0A]))) buf"
  let ?v = "v\<lparr>vf_offset := vf_offset v + nat (int (length l) + 1)\<rparr>"
  have "length (map byte_of (take count (l @ [CHR 0x0A]))) \<le> length buf" using buf by simp
  then have b: "buf_store (map byte_of (take count (l @ [CHR 0x0A]))) buf = Some ?buf" by (simp add: buf_store_def)
  have "fs_named ''devfs'' (kn_fs (vf_inode v)) s" using v(4) mounted_named by (auto simp: devfs_ok_def)
  then have d: "devfs_read yield v buf count s = Some ((int (length l) + 1, ?buf), ?v, s1)"
    using v(2) dv r(1) b by (simp add: devfs_read_def devfs_node_def node_device_def dev_read_def)
  have sv: "same_vfs s s1" unfolding r(3) by (rule same_vfs_tty)
  have "vfs_read (kernel_env yield) (int i) buf count s =
      Some ((int (length l) + 1, ?buf), s1\<lparr>files := (files s1)(tf \<mapsto> ?v)\<rparr>)"
    unfolding vfs_read_def
    by (rule fd_call_run [OF idle ct fd v(1) _ sv]) (use v(3) d in \<open>simp add: devfs_inodeops_def\<close>)
  then show ?thesis using r(2) idle same_vfs_idle [OF sv] by simp
qed

text \<open>A buffer that held other text: the result counts that text too.\<close>

lemma procfs_stale_run:
  assumes o: "proc_open f p tki s" and rest: "vf_offset f < ti_size tki" "ti_size tki - vf_offset f + length old \<le> sz"
    and old: "0 \<notin> set old" "old \<noteq> []" and pre: "length pre = ti_size tki - vf_offset f"
  shows "\<exists>f' buf. procfs_read f (pre @ old @ [0]) sz s = Some ((int (length (pre @ old)), buf), f', s) \<and>
     (\<forall>buf' sz'. procfs_read f' buf' sz' s = None)"
proof -
  let ?n = "ti_size tki - vf_offset f"
  have n: "?n = min sz ?n" using rest(2) by simp
  let ?f = "f\<lparr>vf_offset := vf_offset f + ?n + length old\<rparr>"
  have "procfs_read f (pre @ old @ [0]) sz s =
      Some ((int (?n + length old), map byte_of (take ?n (drop (vf_offset f) (ti_text tki))) @ old @ [0]), ?f, s)"
    using procfs_read_run [OF o n refl pre old(1), of "old @ [0]" "[]"] rest(1) by simp
  moreover have "\<forall>buf' sz'. procfs_read ?f buf' sz' s = None"
    using o old(2) rest(1) by (simp add: procfs_read_def procfs_node_def proc_open_def node_info_def)
  ultimately show ?thesis using pre by fastforce
qed

section \<open>Properties\<close>

text \<open>C15: Asking for access costs nothing: \<open>access\<close> on a path below \<open>/dev\<close> or \<open>/proc\<close> returns, and
  whether the file exists or not, the heap holds exactly the blocks it held before with the same room left
  (the inode, its tables and path, the process information and the temporary file are all given back), and
  descriptors, mounts, tasks and locks are unchanged.\<close>
theorem access_restores_heap:
  assumes "vfs_idle s" "current_task s \<noteq> None"
    and "get_mount_fs (Some p) s = Some (Some (mn, sub), s)" "mn_fs mn \<noteq> 0" "sub \<noteq> []" "hd sub = CHR ''/''"
    and "devfs_ok (mn_fs mn) s \<or> procfs_ok (mn_fs mn) s" "held s U k" "procfs_need sub + 32 \<le> k"
  shows "\<exists>r s'. vfs_access (kernel_env yield) (Some p) flags s = Some (r, s') \<and> held s' U k \<and> keeps s s'"
  using assms by (rule access_restores_heap_run)

text \<open>C19: A file of a process is a snapshot: looking up \<open>/name\<close> and opening it for reading makes the text with
  the number, name and processor of the task of that name; reads of any sizes into zeroed buffers deliver it
  piece after piece and then nothing; closing the file and the inode gives every block back to the heap.\<close>
theorem procfs_task_file:
  assumes "procfs_ok fs s" "held s U k" "procfs_need (CHR ''/'' # name) + 140 \<le> k"
    and "name \<noteq> []" "name \<noteq> ''cpuinfo''" "name \<noteq> ''meminfo''" "task_lookup name s \<noteq> 0"
    and "task_at (task_lookup name s) s = Some tk" "unat (t_tid tk) < 2 ^ 31" "t_cpu tk < 2 ^ 31"
    and "CHR 0x00 \<notin> set (t_name tk)" "length (task_text tk) < 128"
  shows "\<exists>node f s1 s2 f' s3 s4. procfs_lookup fs (CHR ''/'' # name) FILE_READ s = Some (Some node, s1) \<and>
     procfs_open (new_file node) FILE_READ s1 = Some (0, f, s2) \<and>
     (\<forall>ns. read_chunks f ns s2 = Some (map byte_of (take (sum_list ns) (task_text tk)))) \<and>
     procfs_close f s2 = Some (0, f', s3) \<and> procfs_fs_close fs (Some node) s3 = Some (0, s4) \<and>
     held s4 U k \<and> keeps s s4"
  using assms by (rule procfs_task_file_run)

text \<open>A read of a \<open>/proc\<close> file measures the caller's buffer: with fewer bytes left than the buffer holds and
  old non-zero bytes behind them, the result counts the old bytes too, the offset ends behind the file, and the
  next read of the file stops the kernel.\<close>
lemma procfs_read_stale:
  assumes "proc_open f p tki s" "vf_offset f < ti_size tki" "ti_size tki - vf_offset f + length old \<le> sz"
    and "0 \<notin> set old" "old \<noteq> []" "length pre = ti_size tki - vf_offset f"
  shows "\<exists>f' buf. procfs_read f (pre @ old @ [0]) sz s = Some ((int (length (pre @ old)), buf), f', s) \<and>
     (\<forall>buf' sz'. procfs_read f' buf' sz' s = None)"
  using assms by (rule procfs_stale_run)

text \<open>From the keyboard to \<open>read\<close>: when a line was finished on a terminal, \<open>read\<close> on a descriptor of
  its file below \<open>/dev\<close> returns, stores that line with its newline at the start of the caller's buffer (cut at
  the count asked for), leaves the bytes behind it alone, takes the line off the terminal's queue and
  releases the locks of the file system layer.\<close>
lemma read_terminal_line:
  assumes "vfs_idle s" "current_task s = Some tk" "i < length (t_fildes tk)" "t_fildes tk ! i = tf" "tf \<noteq> 0"
    and "files s tf = Some v" "vf_flags v = FILE_READ" "kn_table (vf_inode v) = Devfs_ops" "devfs_ok (kn_fs (vf_inode v)) s"
    and "kn_ptr (vf_inode v) = Ptr_dev dv" "d_ops dv = Tty_ops" "tty_inv (d_id dv) (l # ls, p) s" "count \<le> length buf"
  shows "\<exists>s'. vfs_read (kernel_env yield) (int i) buf count s =
       Some ((int (length l) + 1, put_at 0 (map byte_of (take count (l @ [CHR 0x0A]))) buf), s') \<and>
     tty_inv (d_id dv) (ls, p) s' \<and> vfs_idle s'"
  using assms by (rule tty_read_line_run)

section \<open>Concrete instances\<close>

definition demo_inode :: knode where
  "demo_inode = \<lparr>kn_addr = 1, kn_fs = 7, kn_refcnt = 0, kn_ptr = Ptr_dev \<lparr>d_name = ''tty1'', d_id = 1, d_ops = Tty_ops\<rparr>,
     kn_ops = 2, kn_table = Devfs_ops, kn_info = 3, kn_path = 4, kn_pathname = ''/tty1''\<rparr>"

definition demo_files :: "u32 \<Rightarrow> knode vfile option" where
  "demo_files = [5 \<mapsto> \<lparr>vf_refcnt = 0, vf_flags = FILE_READ, vf_inode = demo_inode, vf_offset = 0\<rparr>]"

definition demo_fs :: "u32 \<Rightarrow> filesystem option" where
  "demo_fs = [7 \<mapsto> \<lparr>fsys_name = ''devfs'', fsys_type = ''rwfs-devfs'', fsys_ptr = 0, fsys_ops = Devfs_ops, fsys_dev = None\<rparr>,
     9 \<mapsto> \<lparr>fsys_name = ''procfs'', fsys_type = ''rdonlyfs-procfs'', fsys_ptr = 0, fsys_ops = Procfs_ops, fsys_dev = None\<rparr>]"

definition demo_info :: task_info where
  "demo_info = \<lparr>ti_type = MEM_INFO, ti_hasOpened = 1, ti_obj = 0, ti_content = 60, ti_text = ''ab'', ti_size = 2\<rparr>"

text \<open>The terminal \<open>tty1\<close> is open as descriptor 0 of the running task.\<close>

definition demo_kfs :: kfs_st where
  "demo_kfs = pmm_init 0x100000 0x200000 (vfs_st.extend
     (dev_st.extend (dev_st.truncate (demo_dev\<lparr>devices := [Some \<lparr>d_name = ''tty1'', d_id = 1, d_ops = Tty_ops\<rparr>],
          task_list := upd_node 1 (\<lambda>t. t\<lparr>t_fildes := 5 # replicate 15 0\<rparr>) (task_list demo_kmt)\<rparr>))
        (vfs_st.fields [\<lparr>mn_path = ''/proc'', mn_fs = 9\<rparr>, \<lparr>mn_path = ''/dev'', mn_fs = 7\<rparr>] (spin_init '''') []
          (spin_init '''') (spin_init '''') demo_files))
     (kfs_st.fields demo_fs [50 \<mapsto> demo_info] (\<lambda>_. None)))"

lemmas demo_kfs_simps = demo_kfs_def pmm_init_def kmt.defs input_st.defs dev_st.defs vfs_st.defs kfs_st.defs demo_kmt_def
  demo_dev_def demo_input_def

lemma demo_kfs_sel:
  "mountlist demo_kfs = [\<lparr>mn_path = ''/proc'', mn_fs = 9\<rparr>, \<lparr>mn_path = ''/dev'', mn_fs = 7\<rparr>]"
  "mount_list_lock demo_kfs = spin_init ''''" "file_list_lock demo_kfs = spin_init ''''" "vfs_lock demo_kfs = spin_init ''''"
  "files demo_kfs = demo_files" "cur_cpu demo_kfs = 0" "cpu_cli demo_kfs = cpu_cli demo_kmt" "filesystems demo_kfs = demo_fs"
  "intr_on demo_kfs = intr_on demo_kmt" "current demo_kfs = current demo_kmt" "ttys demo_kfs i = demo_tty"
  "task_list demo_kfs = upd_node 1 (\<lambda>t. t\<lparr>t_fildes := 5 # replicate 15 0\<rparr>) (task_list demo_kmt)"
  "devices demo_kfs = [Some \<lparr>d_name = ''tty1'', d_id = 1, d_ops = Tty_ops\<rparr>]" "task_infos demo_kfs = [50 \<mapsto> demo_info]"
  by (simp_all add: demo_kfs_simps)

lemma demo_kfs_idle: "vfs_idle demo_kfs"
  by (simp add: vfs_idle_def demo_kfs_sel lock_free_init cli_ok_def hw_defs demo_kmt_def)

lemma demo_kfs_held: "held demo_kfs {} 1048564"
proof -
  have "pmm_ok demo_kfs [(False, 1048576, 1048564)]"
    unfolding demo_kfs_def
    by (rule pmm_init_heap [of "0x100000" "0x200000", simplified]) (simp add: demo_kfs_simps cli_ok_def hw_defs)
  then show ?thesis unfolding held_def by (intro exI [of _ "[(False, 1048576, 1048564)]"]) auto
qed

lemma demo_kfs_task: "current_task demo_kfs = Some ((tn_task (demo_node 1 ''idle-1'' 0 Working))\<lparr>t_fildes := 5 # replicate 15 0\<rparr>)"
  by (simp add: current_task_def cur_addr_def demo_kfs_sel node_at_def upd_node_def demo_kmt_def demo_node_def)

lemma demo_kfs_ok: "devfs_ok 7 demo_kfs" "procfs_ok 9 demo_kfs"
  by (simp_all add: devfs_ok_def procfs_ok_def mounted_def devs_ok_def demo_kfs_sel demo_fs_def)

lemma demo_kfs_mount: "get_mount_fs (Some ''/dev/tty1'') demo_kfs = Some (Some (\<lparr>mn_path = ''/dev'', mn_fs = 7\<rparr>, ''/tty1''), demo_kfs)"
  using demo_kfs_idle by (simp add: get_mount_eq vfs_idle_def find_mount_def demo_kfs_sel sub_path_def)

theorem access_restores_heap_witness:
  "\<exists>r s'. vfs_access (kernel_env Some) (Some ''/dev/tty1'') FILE_READ demo_kfs = Some (r, s') \<and> held s' {} 1048564"
proof -
  have "procfs_need ''/tty1'' + 32 \<le> 1048564" by (simp add: procfs_need_def hp.need_def node_sizes_def)
  then show ?thesis
    using access_restores_heap [OF demo_kfs_idle _ demo_kfs_mount _ _ _ _ demo_kfs_held] demo_kfs_task demo_kfs_ok by fastforce
qed

theorem procfs_task_file_witness:
  "\<exists>node f s1 s2. procfs_lookup 9 ''/shell-1'' FILE_READ demo_kfs = Some (Some node, s1) \<and>
     procfs_open (new_file node) FILE_READ s1 = Some (0, f, s2) \<and>
     read_chunks f [8, 9] s2 = Some (map byte_of (''Tid: 3'' @ nl @ ''Name: shel''))"
proof -
  let ?tk = "tn_task (demo_node 3 ''shell-1'' 0 Free)"
  have tk: "task_lookup ''shell-1'' demo_kfs = 103" "task_at 103 demo_kfs = Some ?tk"
    by (simp_all add: task_lookup_def task_at_def demo_kfs_sel demo_kmt_def upd_node_def demo_node_def)
  have ttext: "task_text ?tk = ''Tid: 3'' @ nl @ ''Name: shell-1'' @ nl @ ''CPU: 0'' @ nl"
    by (simp add: task_text_def demo_node_def digits.simps presentation_def)
  have "procfs_need (CHR ''/'' # ''shell-1'') + 140 \<le> 1048564" by (simp add: procfs_need_def hp.need_def node_sizes_def)
  from procfs_task_file [OF demo_kfs_ok(2) demo_kfs_held this, of ?tk] obtain node f s1 s2 where
    "procfs_lookup 9 ''/shell-1'' FILE_READ demo_kfs = Some (Some node, s1)"
    "procfs_open (new_file node) FILE_READ s1 = Some (0, f, s2)"
    "\<forall>ns. read_chunks f ns s2 = Some (map byte_of (take (sum_list ns) (task_text ?tk)))"
    using tk ttext by (auto simp: demo_node_def nl_def)
  moreover from this(3) have "read_chunks f [8, 9] s2 = Some (map byte_of (''Tid: 3'' @ nl @ ''Name: shel''))"
    unfolding ttext by (simp add: nl_def del: read_chunks.simps)
  ultimately show ?thesis by blast
qed

lemma procfs_read_stale_witness:
  "\<exists>f' buf. procfs_read \<lparr>vf_refcnt = 0, vf_flags = FILE_READ, vf_inode = demo_inode\<lparr>kn_fs := 9, kn_ptr := Ptr_task 50\<rparr>, vf_offset = 0\<rparr>
       [1, 1, 1, 1, 0] 4 demo_kfs = Some ((4, buf), f', demo_kfs) \<and> procfs_read f' buf 4 demo_kfs = None"
proof -
  let ?f = "\<lparr>vf_refcnt = 0, vf_flags = FILE_READ, vf_inode = demo_inode\<lparr>kn_fs := 9, kn_ptr := Ptr_task 50\<rparr>, vf_offset = 0\<rparr>"
  have "proc_open ?f 50 demo_info demo_kfs"
    by (simp add: proc_open_def fs_named_def demo_kfs_sel demo_fs_def demo_info_def)
  from procfs_read_stale [OF this, of "[1, 1]" 4 "[1, 1]"] show ?thesis by (auto simp: demo_info_def)
qed

lemma read_terminal_line_witness:
  "\<exists>s'. vfs_read (kernel_env Some) 0 [0, 0, 0] 3 demo_kfs = Some ((2, [97, 10, 0]), s')"
proof -
  let ?tk = "(tn_task (demo_node 1 ''idle-1'' 0 Working))\<lparr>t_fildes := 5 # replicate 15 0\<rparr>"
  have tty: "tty_inv 1 ([''a''], []) demo_kfs"
    using demo_dev_inv
    by (simp add: tty_inv_def tty_ready_def sem_idle_def cli_ok_def hw_defs cur_addr_def tty_lock_def tty_cooked_def lock_of_def
        demo_kfs_sel demo_dev_sel)
  show ?thesis
    using read_terminal_line [OF demo_kfs_idle demo_kfs_task, of 0 5 "the (demo_files 5)" "\<lparr>d_name = ''tty1'', d_id = 1, d_ops = Tty_ops\<rparr>"
        "''a''" "[]" "[]" 3 "[0, 0, 0]" Some] demo_kfs_ok(1) tty
    by (auto simp: demo_kfs_sel demo_files_def demo_inode_def byte_of_def put_at_def)
qed

end
