(* ===== verification/IoUse.thy ===== *)
theory IoUse
  imports IoProps KfsUse BlkFormat
begin

text \<open>
  Files of the block file system as sinks and sources: the laws of \<open>fd_sink\<close> and
  \<open>fd_source_end\<close> hold for the descriptors of \<open>vfs.c\<close> whose inode is one of
  \<open>blkfs.c\<close>; those of \<open>fd_source\<close> for the terminals.
\<close>

section \<open>The file system behind a mount\<close>

definition blk_view :: "u32 \<Rightarrow> 'a kfs_st_scheme \<Rightarrow> blkfs option" where
  "blk_view fs s = do {
     fsys \<leftarrow> filesystems s fs;
     d \<leftarrow> fsys_dev fsys;
     b \<leftarrow> blks s (fsys_ptr fsys);
     Some (b\<lparr>cur_cpu := cur_cpu s, n_cpu := n_cpu s, intr_on := intr_on s, cpu_cli := cpu_cli s, dev := rds s (d_id d)\<rparr>) }"

definition only_blks :: "'a kfs_st_scheme \<Rightarrow> 'a kfs_st_scheme \<Rightarrow> bool" where
  "only_blks s s' \<longleftrightarrow> (\<exists>r k. s' = s\<lparr>rds := r, blks := k\<rparr>)"

lemma only_blks_vfs: "only_blks s s' \<Longrightarrow> same_vfs s s'"
  by (auto simp: only_blks_def same_vfs_def)

lemma with_blk_run:
  assumes v: "blk_view fs s = Some b" and f: "f b = Some (r, b')" and o: "only_dev b b'"
  shows "\<exists>s'. with_blk f fs s = Some (r, s') \<and> blk_view fs s' = Some b' \<and> only_blks s s'"
proof -
  obtain fsys d k where d: "filesystems s fs = Some fsys" "fsys_dev fsys = Some d" "blks s (fsys_ptr fsys) = Some k"
    "b = k\<lparr>cur_cpu := cur_cpu s, n_cpu := n_cpu s, intr_on := intr_on s, cpu_cli := cpu_cli s, dev := rds s (d_id d)\<rparr>"
    using v by (auto simp: blk_view_def bind_eq_Some_conv)
  obtain x where b': "b' = b\<lparr>dev := x\<rparr>" using o unfolding only_dev_def by metis
  have sel: "intr_on b' = intr_on s" "cpu_cli b' = cpu_cli s" "cur_cpu b' = cur_cpu s" "n_cpu b' = n_cpu s"
    unfolding b' d(4) by simp_all
  let ?s = "s\<lparr>intr_on := intr_on b', cpu_cli := cpu_cli b', rds := (rds s)(d_id d := dev b'), blks := (blks s)(fsys_ptr fsys \<mapsto> b')\<rparr>"
  have "with_blk f fs s = Some (r, ?s)"
    using d f by (simp add: with_blk_def)
  moreover have "b'\<lparr>cur_cpu := cur_cpu s, n_cpu := n_cpu s, intr_on := intr_on s, cpu_cli := cpu_cli s, dev := dev b'\<rparr> = b'"
    using sel by (cases b') simp
  then have "blk_view fs ?s = Some b'" using d sel by (simp add: blk_view_def)
  moreover have "only_blks s ?s"
    unfolding only_blks_def sel by (intro exI [of _ "(rds s)(d_id d := dev b')"] exI [of _ "(blks s)(fsys_ptr fsys \<mapsto> b')"]) simp
  ultimately show ?thesis by blast
qed

lemma blk_view_io [simp]:
  "blk_view fs (s\<lparr>files := f\<rparr>) = blk_view fs (s :: 'a kfs_st_scheme)"
  "blk_view fs (t\<lparr>streams := g\<rparr>) = blk_view fs (t :: 'b io_st_scheme)"
  by (simp_all add: blk_view_def)

section \<open>Descriptors of files\<close>

definition fd_file :: "int \<Rightarrow> 'a kfs_st_scheme \<Rightarrow> kfile \<Rightarrow> bool" where
  "fd_file fd s v \<longleftrightarrow> (\<exists>tk tf. vfs_idle s \<and> current_task s = Some tk \<and> 0 \<le> fd \<and> nat fd < length (t_fildes tk) \<and>
     t_fildes tk ! nat fd = tf \<and> tf \<noteq> 0 \<and> files s tf = Some v)"

definition fd_addr :: "int \<Rightarrow> 'a kfs_st_scheme \<Rightarrow> u32" where
  "fd_addr fd s = (case current_task s of None \<Rightarrow> 0 | Some tk \<Rightarrow> t_fildes tk ! nat fd)"

text \<open>Only the file of one descriptor changes.\<close>

definition others_keep :: "int \<Rightarrow> 'a kfs_st_scheme \<Rightarrow> 'a kfs_st_scheme \<Rightarrow> bool" where
  "others_keep fd s s' \<longleftrightarrow> (\<forall>d. fd_addr d s' = fd_addr d s) \<and>
     (\<forall>d w. fd_file d s w \<and> fd_addr d s \<noteq> fd_addr fd s \<longrightarrow> fd_file d s' w)"

lemma fd_file_call:
  assumes "fd_file fd s v" "f v s = Some (r, v', s1)" "same_vfs s s1"
  shows "\<exists>tf. fd_call f fd s = Some (r, s1\<lparr>files := (files s1)(tf \<mapsto> v')\<rparr>) \<and>
     fd_file fd (s1\<lparr>files := (files s1)(tf \<mapsto> v')\<rparr>) v' \<and> others_keep fd s (s1\<lparr>files := (files s1)(tf \<mapsto> v')\<rparr>)"
proof -
  obtain tk tf where t: "vfs_idle s" "current_task s = Some tk" "0 \<le> fd" "nat fd < length (t_fildes tk)"
    "t_fildes tk ! nat fd = tf" "tf \<noteq> 0" "files s tf = Some v" using assms(1) by (auto simp: fd_file_def)
  let ?s = "s1\<lparr>files := (files s1)(tf \<mapsto> v')\<rparr>"
  have c: "fd_call f fd s = Some (r, ?s)"
    using fd_call_run [OF t(1,2,4,5,6,7), of f r v' s1] assms(2,3) t(3) by simp
  have idle: "vfs_idle ?s" using same_vfs_idle [OF assms(3)] t(1) by simp
  have "current_task ?s = current_task s1" by (simp add: current_task_def cur_addr_def)
  then have ct: "current_task ?s = current_task s" using same_vfs_task [OF assms(3)] by simp
  have "fd_file fd ?s v'" using t idle ct by (simp add: fd_file_def)
  moreover have "others_keep fd s ?s"
    using assms(3) t idle ct unfolding others_keep_def fd_file_def fd_addr_def by (auto simp: same_vfs_def)
  ultimately show ?thesis using c by blast
qed

lemma fd_addr_streams [simp]: "fd_addr fd (s\<lparr>streams := g\<rparr>) = fd_addr fd (s :: 'a io_st_scheme)"
  by (simp add: fd_addr_def current_task_def cur_addr_def)

lemma fd_file_streams [simp]: "fd_file fd (s\<lparr>streams := g\<rparr>) v = fd_file fd (s :: 'a io_st_scheme) v"
  by (simp add: fd_file_def vfs_idle_def cli_ok_def hw_defs current_task_def cur_addr_def)

definition on_blk :: "int \<Rightarrow> int \<Rightarrow> 'a kfs_st_scheme \<Rightarrow> kfile \<Rightarrow> blkfs_inode \<Rightarrow> blkfs \<Rightarrow> bool" where
  "on_blk fd flags s v node b \<longleftrightarrow> fd_file fd s v \<and> vf_flags v = flags \<and> kn_table (vf_inode v) = Blkfs_ops \<and>
     kn_ptr (vf_inode v) = Ptr_blk node \<and> blk_view (kn_fs (vf_inode v)) s = Some b \<and> fs_ok b \<and>
     data_blk b (in_block_id node) \<and> in_block_id node \<noteq> -1 \<and> ino_valid b (in_id node) \<and> unat (in_size node) \<le> 1024"

text \<open>What was written through a descriptor from the start of its file on; what is left to read.\<close>

definition blk_sink :: "int \<Rightarrow> 'a io_st_scheme \<Rightarrow> u8 list \<Rightarrow> bool" where
  "blk_sink fd s bs \<longleftrightarrow> (\<exists>v node b. on_blk fd FILE_WRITE s v node b \<and> vf_offset v = length bs \<and>
     length bs \<le> unat (in_size node) \<and> take (length bs) (blk_data b (in_block_id node)) = bs)"

definition blk_source :: "int \<Rightarrow> 'a io_st_scheme \<Rightarrow> u8 list \<Rightarrow> bool" where
  "blk_source fd s bs \<longleftrightarrow> (\<exists>v node b. on_blk fd FILE_READ s v node b \<and> vf_offset v \<le> unat (in_size node) \<and>
     bs = drop (vf_offset v) (take (unat (in_size node)) (blk_data b (in_block_id node))))"

lemma blk_streams:
  "blk_sink fd (s\<lparr>streams := g\<rparr>) bs = blk_sink fd s bs" "blk_source fd (s\<lparr>streams := g\<rparr>) bs = blk_source fd s bs"
  by (simp_all add: blk_sink_def blk_source_def on_blk_def)

lemma sint_small: "c \<le> 1024 \<Longrightarrow> sint (of_nat c :: u32) = int c"
  by (simp add: sint_uint unsigned_of_nat take_bit_nat_eq_self signed_take_bit_int_eq_self_iff)

lemma blk_file_sel:
  "kn_ptr (vf_inode v) = Ptr_blk node \<Longrightarrow> vn_ptr (f_inode (blk_file v)) = Some node"
  "f_flags (blk_file v) = vf_flags v" "f_offset (blk_file v) = vf_offset v"
  by (simp_all add: blk_file_def)

definition only_files :: "'a kfs_st_scheme \<Rightarrow> 'a kfs_st_scheme \<Rightarrow> bool" where
  "only_files s s' \<longleftrightarrow> (\<exists>r k f. s' = s\<lparr>rds := r, blks := k, files := f\<rparr>)"

lemma only_files_blks: "only_blks s s' \<Longrightarrow> only_files s (s'\<lparr>files := f\<rparr>)"
  by (auto simp: only_blks_def only_files_def)

lemma only_files_streams: "only_files s s' \<Longrightarrow> streams s' = streams s"
  by (auto simp: only_files_def)

lemma blk_write_step:
  assumes "on_blk fd FILE_WRITE s v node b" "vf_offset v + length cs \<le> 1024"
  defines "e \<equiv> vf_offset v + length cs"
  defines "node' \<equiv> if unat (in_size node) < e then node\<lparr>in_size := of_nat e\<rparr> else node"
  defines "xs \<equiv> put_at (vf_offset v) cs (blk_data b (in_block_id node))"
  defines "b1 \<equiv> set_data (in_block_id node) xs b"
  defines "b' \<equiv> if unat (in_size node) < e then set_ino (in_id node) node' b1 else b1"
  defines "v' \<equiv> v\<lparr>vf_offset := e, vf_inode := (vf_inode v)\<lparr>kn_ptr := Ptr_blk node'\<rparr>\<rparr>"
  shows "\<exists>s'. vfs_write (kernel_env yield) fd cs s = Some (int (length cs), s') \<and> on_blk fd FILE_WRITE s' v' node' b' \<and>
     others_keep fd s s' \<and> blk_view (kn_fs (vf_inode v)) s' = Some b' \<and> only_files s s'"
proof -
  note o = assms(1) [unfolded on_blk_def]
  let ?n = "of_nat (length cs) :: u32" and ?f = "blk_file v"
  have un: "unat ?n = length cs" using assms(2) by (intro unat_of_nat32) simp
  have wc: "write_count ?f ?n = length cs" using assms(2) un by (simp add: write_count_def blk_file_sel)
  have w: "\<exists>f'. inode_write ?f cs ?n b = Some (of_nat (length cs), f', b') \<and> of_blk_file f' v = v'"
    using inode_write_eq [of b ?f node ?n cs] o un wc assms(2)
    by (auto simp: blk_file_sel of_blk_file_def blk_ptr_def node'_def v'_def b'_def b1_def xs_def e_def)
  then obtain f' where f': "inode_write ?f cs ?n b = Some (of_nat (length cs), f', b')" "of_blk_file f' v = v'" by blast
  have od: "only_dev b b'" by (simp add: b'_def b1_def set_ino_def set_data_def)
  let ?call = "\<lambda>fs. do { (n, b, fs) \<leftarrow> inode_write ?f cs ?n fs; Some ((n, b), fs) }"
  obtain s1 where s1: "with_blk ?call (kn_fs (vf_inode v)) s = Some ((of_nat (length cs), f'), s1)"
    "blk_view (kn_fs (vf_inode v)) s1 = Some b'" "only_blks s s1"
    using with_blk_run [of "kn_fs (vf_inode v)" s b ?call, OF _ _ od] o f'(1) by auto
  have op: "op_write (in_ops (kernel_env yield) (vf_inode v)) v cs s = Some (int (length cs), v', s1)"
    using o s1(1) f'(2) assms(2) by (simp add: blkfs_inodeops_def sint_small)
  obtain tf where tf: "vfs_write (kernel_env yield) fd cs s = Some (int (length cs), s1\<lparr>files := (files s1)(tf \<mapsto> v')\<rparr>)"
    "fd_file fd (s1\<lparr>files := (files s1)(tf \<mapsto> v')\<rparr>) v'" "others_keep fd s (s1\<lparr>files := (files s1)(tf \<mapsto> v')\<rparr>)"
    using fd_file_call [where f = "\<lambda>f. op_write (in_ops (kernel_env yield) (vf_inode f)) f cs", OF _ op only_blks_vfs [OF s1(3)]] o
    unfolding vfs_write_def by blast
  have ue: "unat (of_nat e :: u32) = e" using assms(2) by (intro unat_of_nat32) (simp add: e_def)
  have "length xs = 1024" using assms(2) by (simp add: xs_def)
  then have "fs_ok b'" "data_blk b' (in_block_id node')" "ino_valid b' (in_id node')"
    using o by (auto simp: b'_def b1_def node'_def)
  moreover have "unat (in_size node') \<le> 1024" using o ue assms(2) by (auto simp: node'_def e_def)
  ultimately have "on_blk fd FILE_WRITE (s1\<lparr>files := (files s1)(tf \<mapsto> v')\<rparr>) v' node' b'"
    using tf(2) o s1(2) unfolding on_blk_def by (auto simp: v'_def node'_def)
  moreover note only_files_blks [OF s1(3)]
  ultimately show ?thesis using tf(1,3) s1(2) by auto
qed

text \<open>What the step leaves of the disk.\<close>

lemma blk_write_disk:
  assumes "on_blk fd flags s v node b" "vf_offset v + length cs \<le> 1024"
  defines "e \<equiv> vf_offset v + length cs"
  defines "node' \<equiv> if unat (in_size node) < e then node\<lparr>in_size := of_nat e\<rparr> else node"
  defines "xs \<equiv> put_at (vf_offset v) cs (blk_data b (in_block_id node))"
  defines "b1 \<equiv> set_data (in_block_id node) xs b"
  defines "b' \<equiv> if unat (in_size node) < e then set_ino (in_id node) node' b1 else b1"
  shows "blk_data b' (in_block_id node) = xs" "e \<le> unat (in_size node')" "in_block_id node' = in_block_id node"
    "k \<noteq> in_block_id node \<Longrightarrow> data_blk b k \<Longrightarrow> blk_data b' k = blk_data b k" "fs_ok b'"
    "data_blk b' = data_blk b" "ino_valid b' = ino_valid b"
proof -
  note o = assms(1) [unfolded on_blk_def]
  have g: "geom b" using o by (simp add: fs_ok_def)
  have len: "length xs = 1024" using assms(2) by (simp add: xs_def)
  show "blk_data b' (in_block_id node) = xs" using o g len by (auto simp: b'_def b1_def)
  have "unat (of_nat e :: u32) = e" using assms(2) by (intro unat_of_nat32) (simp add: e_def)
  then show "e \<le> unat (in_size node')" by (simp add: node'_def)
  show "in_block_id node' = in_block_id node" by (simp add: node'_def)
  show "k \<noteq> in_block_id node \<Longrightarrow> data_blk b k \<Longrightarrow> blk_data b' k = blk_data b k" using o g len by (auto simp: b'_def b1_def)
  show "fs_ok b'" using o len by (auto simp: b'_def b1_def)
  show "data_blk b' = data_blk b" "ino_valid b' = ino_valid b"
    by (auto simp: b'_def b1_def fun_eq_iff)
qed

lemma blk_write_ok:
  assumes "blk_sink fd s bs" "cs \<noteq> []" "length bs + length cs \<le> 1024"
  shows "\<exists>s'. vfs_write (kernel_env yield) fd cs s = Some (int (length cs), s') \<and> blk_sink fd s' (bs @ cs) \<and> streams s' = streams s"
proof -
  obtain v node b where o: "on_blk fd FILE_WRITE s v node b" "vf_offset v = length bs" "length bs \<le> unat (in_size node)"
    "take (length bs) (blk_data b (in_block_id node)) = bs" using assms(1) by (auto simp: blk_sink_def)
  have l: "vf_offset v + length cs \<le> 1024" using o(2) assms(3) by simp
  note d = blk_write_disk [OF o(1) l]
  have "take (length (bs @ cs)) (put_at (vf_offset v) cs (blk_data b (in_block_id node))) = bs @ cs"
    using o(2,4) assms(3) by (simp add: put_at_def)
  then show ?thesis
    using blk_write_step [OF o(1) l, of yield] d(1-3) o(2) only_files_streams unfolding blk_sink_def by fastforce
qed

lemma blk_read_step:
  assumes "on_blk fd FILE_READ s v node b" "vf_offset v \<le> unat (in_size node)" "length buf = 256"
  defines "bs \<equiv> drop (vf_offset v) (take (unat (in_size node)) (blk_data b (in_block_id node)))"
  defines "v' \<equiv> v\<lparr>vf_offset := vf_offset v + min 256 (length bs)\<rparr>"
  shows "\<exists>s'. vfs_read (kernel_env yield) fd buf 256 s = Some ((int (min 256 (length bs)), put_at 0 (take 256 bs) buf), s') \<and>
     on_blk fd FILE_READ s' v' node b \<and> others_keep fd s s' \<and> blk_view (kn_fs (vf_inode v)) s' = Some b \<and> only_files s s' \<and>
     vf_offset v' \<le> unat (in_size node) \<and>
     drop (vf_offset v') (take (unat (in_size node)) (blk_data b (in_block_id node))) = drop 256 bs"
proof -
  note o = assms(1) [unfolded on_blk_def]
  let ?f = "blk_file v" and ?off = "vf_offset v"
  let ?c = "min 256 (unat (in_size node) - ?off)"
  have lb: "length bs = unat (in_size node) - ?off" using o by (simp add: bs_def)
  have bytes: "bytes_at ?off ?c (blk_data b (in_block_id node)) = take 256 bs"
    unfolding bs_def bytes_at_def by (simp add: drop_take min.commute)
  have r: "inode_read ?f 256 b = Some (of_nat ?c, take 256 bs, ?f\<lparr>f_offset := ?off + ?c\<rparr>)"
    using inode_read_eq [of b ?f node 256] o assms(2) bytes by (simp add: blk_file_sel)
  let ?call = "\<lambda>fs. do { r \<leftarrow> inode_read ?f (of_nat 256) fs; Some (r, fs) }"
  obtain s1 where s1: "with_blk ?call (kn_fs (vf_inode v)) s = Some ((of_nat ?c, take 256 bs, ?f\<lparr>f_offset := ?off + ?c\<rparr>), s1)"
    "blk_view (kn_fs (vf_inode v)) s1 = Some b" "only_blks s s1"
    using with_blk_run [of "kn_fs (vf_inode v)" s b ?call _ b] o r by auto
  have bk: "of_blk_file (?f\<lparr>f_offset := ?off + ?c\<rparr>) v = v'"
    using o lb by (simp add: of_blk_file_def blk_file_def blk_ptr_def v'_def)
  have st: "buf_store (take 256 bs) buf = Some (put_at 0 (take 256 bs) buf)" using assms(3) by (simp add: buf_store_def)
  have si: "sint (of_nat ?c :: u32) = int ?c" by (rule sint_small) simp
  have op: "op_read (in_ops (kernel_env yield) (vf_inode v)) v buf 256 s = Some ((int ?c, put_at 0 (take 256 bs) buf), v', s1)"
    using o s1(1) bk st si by (simp add: blkfs_inodeops_def)
  obtain tf where tf: "vfs_read (kernel_env yield) fd buf 256 s = Some ((int ?c, put_at 0 (take 256 bs) buf), s1\<lparr>files := (files s1)(tf \<mapsto> v')\<rparr>)"
    "fd_file fd (s1\<lparr>files := (files s1)(tf \<mapsto> v')\<rparr>) v'" "others_keep fd s (s1\<lparr>files := (files s1)(tf \<mapsto> v')\<rparr>)"
    using fd_file_call [where f = "\<lambda>f. op_read (in_ops (kernel_env yield) (vf_inode f)) f buf 256", OF _ op only_blks_vfs [OF s1(3)]] o
    unfolding vfs_read_def by blast
  have "on_blk fd FILE_READ (s1\<lparr>files := (files s1)(tf \<mapsto> v')\<rparr>) v' node b"
    using tf(2) o s1(2) unfolding on_blk_def by (auto simp: v'_def)
  moreover have "drop (vf_offset v') (take (unat (in_size node)) (blk_data b (in_block_id node))) = drop 256 bs"
    unfolding v'_def lb unfolding bs_def using assms(2)
    by (cases "256 \<le> unat (in_size node) - ?off") (auto simp: add.commute min_def)
  moreover note only_files_blks [OF s1(3)]
  moreover have "vf_offset v' \<le> unat (in_size node)" using assms(2) lb by (simp add: v'_def)
  ultimately show ?thesis using tf(1,3) s1(2) lb by auto
qed

lemma blk_read_ok:
  assumes "blk_source fd s bs" "length buf = 256"
  shows "\<exists>s'. vfs_read (kernel_env yield) fd buf 256 s = Some ((int (min 256 (length bs)), put_at 0 (take 256 bs) buf), s') \<and>
     blk_source fd s' (drop 256 bs) \<and> streams s' = streams s"
proof -
  obtain v node b where o: "on_blk fd FILE_READ s v node b" "vf_offset v \<le> unat (in_size node)"
    "bs = drop (vf_offset v) (take (unat (in_size node)) (blk_data b (in_block_id node)))" using assms(1) by (auto simp: blk_source_def)
  show ?thesis
    using blk_read_step [OF o(1,2) assms(2), of yield] only_files_streams unfolding o(3) [symmetric] blk_source_def by fastforce
qed

interpretation blk_out: fd_sink "kernel_env yield" fd "blk_sink fd" 1024 for yield fd
  by unfold_locales (simp_all add: blk_write_ok blk_streams)

interpretation blk_in: fd_source_end "kernel_env yield" fd "blk_source fd" for yield fd
proof (unfold_locales)
  fix s :: "'a io_st_scheme" and bs and buf :: "u8 list"
  assume h: "blk_source fd s bs" "length buf = 256" 
  show "\<exists>n s'. vfs_read (kernel_env yield) fd buf 256 s = Some ((int n, put_at 0 (take n bs) buf), s') \<and> 0 < n \<and> n \<le> 256 \<and>
      n \<le> length bs \<and> blk_source fd s' (drop n bs) \<and> streams s' = streams s" if "bs \<noteq> []"
    using blk_read_ok [OF h, of yield] that by (intro exI [of _ "min 256 (length bs)"]) (auto simp: min_def)
qed (use blk_read_ok in \<open>fastforce simp: blk_streams\<close>)+

section \<open>Descriptors of terminals\<close>

lemma tty_inv_streams [simp]: "tty_inv i e (s\<lparr>streams := g\<rparr>) = tty_inv i e (s :: 'a io_st_scheme)"
  by (simp add: tty_inv_def tty_ready_def sem_idle_def cli_ok_def hw_defs cur_addr_def tty_lock_def tty_cooked_def lock_of_def)

definition tty_source :: "int \<Rightarrow> 'a io_st_scheme \<Rightarrow> u8 list \<Rightarrow> bool" where
  "tty_source fd s bs \<longleftrightarrow> (\<exists>v dv ls p. fd_file fd s v \<and> vf_flags v = FILE_READ \<and> kn_table (vf_inode v) = Devfs_ops \<and>
     devfs_ok (kn_fs (vf_inode v)) s \<and> kn_ptr (vf_inode v) = Ptr_dev dv \<and> d_ops dv = Tty_ops \<and>
     tty_inv (d_id dv) (ls, p) s \<and> (\<forall>l\<in>set ls. length l < 256) \<and> bs = map byte_of (concat (map (\<lambda>l. l @ nl) ls)))"

lemma devfs_ok_tty [simp]: "devfs_ok fs (upd_tty i f s) = devfs_ok fs s"
  by (simp add: devfs_ok_def mounted_def fs_named_def devs_ok_def upd_tty_def)

lemma devfs_ok_files [simp]: "devfs_ok fs (s\<lparr>files := f\<rparr>) = devfs_ok fs (s :: 'a kfs_st_scheme)"
  "devfs_ok fs (t\<lparr>streams := g\<rparr>) = devfs_ok fs (t :: 'b io_st_scheme)"
  by (simp_all add: devfs_ok_def mounted_def fs_named_def devs_ok_def)

lemma tty_fd_read:
  assumes v: "fd_file fd s v" "vf_flags v = FILE_READ" "kn_table (vf_inode v) = Devfs_ops" "devfs_ok (kn_fs (vf_inode v)) s"
    and dv: "kn_ptr (vf_inode v) = Ptr_dev dv" "d_ops dv = Tty_ops" and tty: "tty_inv (d_id dv) (l # ls, p) s"
    and l: "length l < 256" "length buf = 256"
  shows "\<exists>s' v'. vfs_read (kernel_env yield) fd buf 256 s = Some ((int (length l + 1), put_at 0 (map byte_of (l @ nl)) buf), s') \<and>
     fd_file fd s' v' \<and> (\<exists>n. v' = v\<lparr>vf_offset := n\<rparr>) \<and> devfs_ok (kn_fs (vf_inode v)) s' \<and> tty_inv (d_id dv) (ls, p) s' \<and>
     streams s' = streams (s :: 'a io_st_scheme)"
proof -
  have t: "take 256 (l @ nl) = l @ nl" using l(1) by (simp add: nl_def)
  obtain s1 f where r: "tty_read yield (d_id dv) 256 s = Some ((int (length l) + 1, l @ nl), s1)"
    "tty_inv (d_id dv) (ls, p) s1" "s1 = upd_tty (d_id dv) f s"
    using read_run [OF tty, of yield 256] t unfolding nl_def by auto
  let ?buf = "put_at 0 (map byte_of (l @ nl)) buf"
  let ?v = "v\<lparr>vf_offset := vf_offset v + nat (int (length l) + 1)\<rparr>"
  have b: "buf_store (map byte_of (l @ nl)) buf = Some ?buf" using l by (simp add: buf_store_def nl_def)
  have "fs_named ''devfs'' (kn_fs (vf_inode v)) s" using v(4) mounted_named by (auto simp: devfs_ok_def)
  then have d: "devfs_read yield v buf 256 s = Some ((int (length l) + 1, ?buf), ?v, s1)"
    using v(2) dv r(1) b by (simp add: devfs_read_def devfs_node_def node_device_def dev_read_def)
  have op: "op_read (in_ops (kernel_env yield) (vf_inode v)) v buf 256 s = Some ((int (length l + 1), ?buf), ?v, s1)"
    using v(3) d by (simp add: devfs_inodeops_def)
  have sv: "same_vfs s s1" unfolding r(3) by (rule same_vfs_tty)
  obtain tf where tf: "vfs_read (kernel_env yield) fd buf 256 s = Some ((int (length l + 1), ?buf), s1\<lparr>files := (files s1)(tf \<mapsto> ?v)\<rparr>)"
    "fd_file fd (s1\<lparr>files := (files s1)(tf \<mapsto> ?v)\<rparr>) ?v"
    using fd_file_call [where f = "\<lambda>f. op_read (in_ops (kernel_env yield) (vf_inode f)) f buf 256", OF v(1) op sv]
    unfolding vfs_read_def by blast
  have "devfs_ok (kn_fs (vf_inode v)) s1" using v(4) unfolding r(3) by simp
  moreover have "streams s1 = streams s" unfolding r(3) by (simp add: upd_tty_def)
  ultimately have "devfs_ok (kn_fs (vf_inode v)) s1" "streams s1 = streams s" by simp_all
  then show ?thesis using tf r(2) by (intro exI [of _ "s1\<lparr>files := (files s1)(tf \<mapsto> ?v)\<rparr>"] exI [of _ ?v]) auto
qed

interpretation tty_in: fd_source "kernel_env yield" fd "tty_source fd" for yield fd
proof (unfold_locales)
  fix s :: "'a io_st_scheme" and bs and buf :: "u8 list"
  assume h: "tty_source fd s bs" "bs \<noteq> []" "length buf = 256"
  obtain v dv ls p where o: "fd_file fd s v" "vf_flags v = FILE_READ" "kn_table (vf_inode v) = Devfs_ops"
     "devfs_ok (kn_fs (vf_inode v)) s" "kn_ptr (vf_inode v) = Ptr_dev dv" "d_ops dv = Tty_ops"
     "tty_inv (d_id dv) (ls, p) s" "\<forall>l\<in>set ls. length l < 256" "bs = map byte_of (concat (map (\<lambda>l. l @ nl) ls))"
    using h(1) by (auto simp: tty_source_def)
  then obtain l ls' where ls: "ls = l # ls'" using h(2) by (cases ls) auto
  have l: "length l < 256" using o(8) ls by simp
  let ?n = "length l + 1"
  have bs: "take ?n bs = map byte_of (l @ nl)" "drop ?n bs = map byte_of (concat (map (\<lambda>l. l @ nl) ls'))" "?n \<le> length bs"
    unfolding o(9) ls by (simp_all add: nl_def)
  obtain s' v' where r: "vfs_read (kernel_env yield) fd buf 256 s = Some ((int ?n, put_at 0 (take ?n bs) buf), s')"
     "fd_file fd s' v'" "\<exists>n. v' = v\<lparr>vf_offset := n\<rparr>" "devfs_ok (kn_fs (vf_inode v)) s'" "tty_inv (d_id dv) (ls', p) s'"
     "streams s' = streams s"
    using tty_fd_read [OF o(1-6) o(7) [unfolded ls] l h(3), of yield] bs(1) by auto
  have "tty_source fd s' (drop ?n bs)" unfolding tty_source_def bs(2) using r(2-5) o ls by fastforce
  then show "\<exists>n s'. vfs_read (kernel_env yield) fd buf 256 s = Some ((int n, put_at 0 (take n bs) buf), s') \<and> 0 < n \<and>
      n \<le> 256 \<and> n \<le> length bs \<and> tty_source fd s' (drop n bs) \<and> streams s' = streams s"
    using r(1,6) bs(3) l by (intro exI [of _ ?n] exI [of _ s']) auto
qed (simp add: tty_source_def)

section \<open>Properties\<close>

lemma lines_run:
  assumes "new_stream p fd s" "blk_sink fd s []" "\<forall>l\<in>set ls. text_line l" "length (line_bytes ls) \<le> 1024"
  shows "\<exists>s1 s2 v node b. put_lines (kernel_env yield) p ls s = Some s1 \<and> fsFlush (kernel_env yield) p s1 = Some s2 \<and>
     on_blk fd FILE_WRITE s2 v node b \<and>
     (\<forall>t q fd' w. on_blk fd' FILE_READ t w node b \<and> vf_offset w = 0 \<and> new_stream q fd' t \<longrightarrow>
        (\<exists>t'. get_lines (kernel_env yield) q (length ls) t = Some (ls, t')))"
proof -
  obtain s1 where s1: "put_lines (kernel_env yield) p ls s = Some s1" "blk_out.put fd p (line_bytes ls) s1"
    using blk_out.put_lines_ok [OF blk_out.put_new [OF assms(1,2)] assms(3)] assms(4) by fastforce
  obtain s2 where s2: "fsFlush (kernel_env yield) p s1 = Some s2" "blk_sink fd s2 (line_bytes ls)"
    using blk_out.flush_ok [OF s1(2) assms(4)] by blast
  obtain v node b where o: "on_blk fd FILE_WRITE s2 v node b" "length (line_bytes ls) \<le> unat (in_size node)"
    "take (length (line_bytes ls)) (blk_data b (in_block_id node)) = line_bytes ls"
    using s2(2) by (auto simp: blk_sink_def)
  have "\<exists>t'. get_lines (kernel_env yield) q (length ls) t = Some (ls, t')"
    if t: "on_blk fd' FILE_READ t w node b" "vf_offset w = 0" "new_stream q fd' t" for t q fd' w
  proof -
    let ?d = "take (unat (in_size node)) (blk_data b (in_block_id node))"
    have "?d = take (length (line_bytes ls)) ?d @ drop (length (line_bytes ls)) ?d"
      by (rule append_take_drop_id [symmetric])
    also have "take (length (line_bytes ls)) ?d = line_bytes ls" using o(2,3) by (simp add: min_def)
    finally have "blk_source fd' t (line_bytes ls @ drop (length (line_bytes ls)) ?d)"
      unfolding blk_source_def using t(1,2) by (intro exI [of _ w] exI [of _ node] exI [of _ b]) simp
    then show ?thesis using blk_in.get_lines_ok [OF blk_in.got_new [OF t(3)] assms(3)] by blast
  qed
  then show ?thesis using s1(1) s2(1) o(1) by blast
qed

lemma terminal_lines_run:
  assumes "new_stream p fd s" "fd_file fd s v" "vf_flags v = FILE_READ" "kn_table (vf_inode v) = Devfs_ops"
    and "devfs_ok (kn_fs (vf_inode v)) s" "kn_ptr (vf_inode v) = Ptr_dev dv" "d_ops dv = Tty_ops"
    and "tty_inv (d_id dv) (ls @ more_ls, part) s" "\<forall>l\<in>set (ls @ more_ls). text_line l"
  shows "\<exists>s'. get_lines (kernel_env yield) p (length ls) s = Some (ls, s')"
proof -
  have "tty_source fd s (line_bytes (ls @ more_ls))"
    unfolding tty_source_def line_bytes_def
    using assms by (intro exI [of _ v] exI [of _ dv] exI [of _ "ls @ more_ls"] exI [of _ part]) (use assms(9) in \<open>fastforce simp: text_line_def\<close>)+
  then have "tty_source fd s (line_bytes ls @ line_bytes more_ls)" by (simp add: line_bytes_def)
  then show ?thesis using tty_in.get_lines_ok [OF tty_in.got_new [OF assms(1)], of ls "line_bytes more_ls" yield] assms(9) by auto
qed

lemma close_unread_run:
  assumes "on_blk fd FILE_READ s v node b" "p \<noteq> 0" "streams s p = Some st" "fst_fd st = fd" "buf_ok (fst_buf st)"
    and "pending (fst_buf st) \<noteq> []"
  shows "fsFlush (kernel_env yield) p s = None \<and> fsClose (kernel_env yield) p s = None"
proof -
  note o = assms(1) [unfolded on_blk_def]
  let ?cs = "pending (fst_buf st)" and ?f = "blk_file v"
  have ne: "\<not> buffer_isempty (fst_buf st)" using assms(5,6) pending_empty by blast
  have w: "inode_write ?f ?cs (of_nat (length ?cs)) b = Some (-1, ?f, b)"
    using o by (simp add: inode_write_def blk_file_sel FILE_READ_def FILE_WRITE_def)
  let ?call = "\<lambda>fs. do { (n, b, fs) \<leftarrow> inode_write ?f ?cs (of_nat (length ?cs)) fs; Some ((n, b), fs) }"
  obtain s1 where s1: "with_blk ?call (kn_fs (vf_inode v)) s = Some ((-1, ?f), s1)" "only_blks s s1"
    using with_blk_run [of "kn_fs (vf_inode v)" s b ?call _ b] o w by auto
  have "op_write (in_ops (kernel_env yield) (vf_inode v)) v ?cs s = Some (-1, of_blk_file ?f v, s1)"
    using o s1(1) by (simp add: blkfs_inodeops_def)
  then obtain s2 where "vfs_write (kernel_env yield) fd ?cs s = Some (-1, s2)"
    using fd_file_call [where f = "\<lambda>f. op_write (in_ops (kernel_env yield) (vf_inode f)) f ?cs", OF _ _ only_blks_vfs [OF s1(2)]] o
    unfolding vfs_write_def by blast
  then have "fsFlush (kernel_env yield) p s = None"
    using assms(3,4) ne by (simp add: fsFlush_def pending_def Let_def)
  then show ?thesis using assms(2) by (simp add: fsClose_def)
qed

text \<open>C10: Streams are transparent: lines put into a new stream on an open file and flushed are in the file, and
  whatever stream is later opened for reading on that inode delivers exactly those lines. Both directions cross
  the boundaries of the 256 byte buffers and of the calls of the file system; \<open>fsPutLine\<close>, \<open>fsFlush\<close> and
  \<open>fsGetLine\<close> return.\<close>
theorem lines_roundtrip:
  assumes "new_stream p fd s" "blk_sink fd s []" "\<forall>l\<in>set ls. text_line l" "length (line_bytes ls) \<le> 1024"
  shows "\<exists>s1 s2 v node b. put_lines (kernel_env yield) p ls s = Some s1 \<and> fsFlush (kernel_env yield) p s1 = Some s2 \<and>
     on_blk fd FILE_WRITE s2 v node b \<and>
     (\<forall>t q fd' w. on_blk fd' FILE_READ t w node b \<and> vf_offset w = 0 \<and> new_stream q fd' t \<longrightarrow>
        (\<exists>t'. get_lines (kernel_env yield) q (length ls) t = Some (ls, t')))"
  using assms by (rule lines_run)

text \<open>C20: From the keyboard to the shell: the lines finished on a terminal are what \<open>fsGetLine\<close> on a stream of its
  device file returns, each call one line without its newline, in the order they were typed; the calls return
  as long as a finished line is there.\<close>
theorem terminal_lines:
  assumes "new_stream p fd s" "fd_file fd s v" "vf_flags v = FILE_READ" "kn_table (vf_inode v) = Devfs_ops"
    and "devfs_ok (kn_fs (vf_inode v)) s" "kn_ptr (vf_inode v) = Ptr_dev dv" "d_ops dv = Tty_ops"
    and "tty_inv (d_id dv) (ls @ more_ls, part) s" "\<forall>l\<in>set (ls @ more_ls). text_line l"
  shows "\<exists>s'. get_lines (kernel_env yield) p (length ls) s = Some (ls, s')"
  using assms by (rule terminal_lines_run)

text \<open>Closing a file before its end stops the kernel: \<open>fsClose\<close> flushes, and for a stream opened for
  reading with bytes left in its buffer that writes them back, which the file refuses, against the assertion
  in \<open>fsFlush\<close>.\<close>
lemma close_unread_stops:
  assumes "on_blk fd FILE_READ s v node b" "p \<noteq> 0" "streams s p = Some st" "fst_fd st = fd" "buf_ok (fst_buf st)"
    and "pending (fst_buf st) \<noteq> []"
  shows "fsFlush (kernel_env yield) p s = None \<and> fsClose (kernel_env yield) p s = None"
  using assms by (rule close_unread_run)

section \<open>Concrete instances\<close>

text \<open>Descriptor 0 is the terminal of \<open>demo_kfs\<close>, 1 writes and 2 reads the file \<open>node\<close>.\<close>

definition demo_fd :: "int \<Rightarrow> blkfs_inode \<Rightarrow> kfile" where
  "demo_fd flags node = \<lparr>vf_refcnt = 0, vf_flags = flags, vf_inode = demo_inode\<lparr>kn_fs := 11, kn_ptr := Ptr_blk node,
     kn_table := Blkfs_ops\<rparr>, vf_offset = 0\<rparr>"

definition demo_stream :: "int \<Rightarrow> filestream" where
  "demo_stream fd = \<lparr>fst_fd = fd, fst_line_buf = 0, fst_bufp = 20, fst_contentp = 30, fst_buf = buffer_init 256\<rparr>"

definition demo_io :: "blkfs \<Rightarrow> blkfs_inode \<Rightarrow> io_st" where
  "demo_io b node = kfs_st.extend (demo_kfs\<lparr>
       filesystems := demo_fs(11 \<mapsto> \<lparr>fsys_name = ''blkfs'', fsys_type = ''rwfs-blkfs'', fsys_ptr = 12, fsys_ops = Blkfs_ops,
         fsys_dev = Some \<lparr>d_name = ''ramdisk0'', d_id = 0, d_ops = Rd_ops\<rparr>\<rparr>),
       blks := [12 \<mapsto> b], rds := (\<lambda>_. dev b),
       files := demo_files(6 \<mapsto> demo_fd FILE_WRITE node, 7 \<mapsto> demo_fd FILE_READ node),
       task_list := upd_node 1 (\<lambda>t. t\<lparr>t_fildes := [5, 6, 7] @ replicate 13 0\<rparr>) (task_list demo_kmt)\<rparr>)
     (io_st.fields [20 \<mapsto> demo_stream 0, 21 \<mapsto> demo_stream 1,
       22 \<mapsto> (demo_stream 2)\<lparr>fst_buf := (buffer_init 256)\<lparr>buf_size := 1\<rparr>\<rparr>])"

lemma demo_io_sel:
  "cur_cpu (demo_io b node) = cur_cpu demo_kfs" "intr_on (demo_io b node) = intr_on demo_kfs" "cpu_cli (demo_io b node) = cpu_cli demo_kfs"
  "n_cpu (demo_io b node) = n_cpu demo_kfs"
  "vfs_lock (demo_io b node) = vfs_lock demo_kfs" "mount_list_lock (demo_io b node) = mount_list_lock demo_kfs"
  "file_list_lock (demo_io b node) = file_list_lock demo_kfs" "current (demo_io b node) = current demo_kfs"
  "ttys (demo_io b node) = ttys demo_kfs" "devices (demo_io b node) = devices demo_kfs"
  "task_list (demo_io b node) = upd_node 1 (\<lambda>t. t\<lparr>t_fildes := [5, 6, 7] @ replicate 13 0\<rparr>) (task_list demo_kmt)"
  "files (demo_io b node) = demo_files(6 \<mapsto> demo_fd FILE_WRITE node, 7 \<mapsto> demo_fd FILE_READ node)"
  "blks (demo_io b node) = [12 \<mapsto> b]" "rds (demo_io b node) = (\<lambda>_. dev b)"
  "filesystems (demo_io b node) = demo_fs(11 \<mapsto> \<lparr>fsys_name = ''blkfs'', fsys_type = ''rwfs-blkfs'', fsys_ptr = 12, fsys_ops = Blkfs_ops,
         fsys_dev = Some \<lparr>d_name = ''ramdisk0'', d_id = 0, d_ops = Rd_ops\<rparr>\<rparr>)"
  "streams (demo_io b node) = [20 \<mapsto> demo_stream 0, 21 \<mapsto> demo_stream 1,
       22 \<mapsto> (demo_stream 2)\<lparr>fst_buf := (buffer_init 256)\<lparr>buf_size := 1\<rparr>\<rparr>]"
  by (simp_all add: demo_io_def kfs_st.defs io_st.defs)

lemma demo_io_fd:
  assumes "(k, a) \<in> {(0, 5), (1, 6), (2, 7)}"
  shows "fd_file (int k) (demo_io b node) (the (files (demo_io b node) a))"
  using assms demo_kfs_idle
  by (auto simp: fd_file_def vfs_idle_def cli_ok_def hw_defs current_task_def cur_addr_def demo_io_sel demo_files_def node_at_def
      upd_node_def demo_kmt_def demo_node_def demo_kfs_sel)

lemma fs_ok_hw: "fs_ok (b\<lparr>cur_cpu := c, n_cpu := n, intr_on := i, cpu_cli := k\<rparr>) = fs_ok b"
  by (simp add: fs_ok_def geom_def hdrs_ok_def blk_hdr_def blk_valid_def data_blk_def)

lemma demo_io_blk:
  "\<exists>b node v. on_blk 1 FILE_WRITE (demo_io b node) (demo_fd FILE_WRITE node) node v \<and>
     on_blk 2 FILE_READ (demo_io b node) (demo_fd FILE_READ node) node v"
proof -
  obtain b :: blkfs and i where b: "fresh_fs b" "first_ino b = Some 1" "first_free b = Some i" "\<not> dir_full b (ino b 0)"
    using fresh_exists by auto
  have g: "geom b" "fs_ok b" using fresh_dir [OF b(1)] by (auto simp: fs_ok_def)
  note ii = first_free_data [OF g(1) b(3)]
  let ?node = "\<lparr>in_type = it_FILE, in_id = 1, in_block_id = of_nat i, in_refcnt = 1, in_size = 0\<rparr>"
  let ?v = "the (blk_view 11 (demo_io b ?node))"
  have v: "blk_view 11 (demo_io b ?node) = Some ?v" "fs_ok ?v" "data_blk ?v (of_nat i)" "ino_valid ?v 1"
    using g(2) ii first_ino_SomeD [OF g(1) b(2)]
    by (simp_all add: blk_view_def demo_io_sel fs_ok_hw data_blk_def ino_valid_def)
  have "of_nat i \<noteq> (-1 :: u32)" using ii by auto
  then show ?thesis
    using v demo_io_fd [of 1 6 b ?node] demo_io_fd [of 2 7 b ?node]
    by (intro exI [of _ b] exI [of _ ?node] exI [of _ ?v]) (simp add: on_blk_def demo_io_sel demo_fd_def)
qed

lemma reread:
  fixes s :: "'a io_st_scheme"
  assumes "on_blk fd FILE_WRITE s v node b"
  shows "\<exists>t w. on_blk fd FILE_READ t w node b \<and> vf_offset w = 0 \<and> new_stream 21 fd (t :: 'a io_st_scheme)"
proof -
  obtain tk tf where t: "vfs_idle s" "current_task s = Some tk" "0 \<le> fd" "nat fd < length (t_fildes tk)"
    "t_fildes tk ! nat fd = tf" "tf \<noteq> 0" using assms by (auto simp: on_blk_def fd_file_def)
  let ?w = "v\<lparr>vf_flags := FILE_READ, vf_offset := 0\<rparr>"
  let ?t = "s\<lparr>files := (files s)(tf \<mapsto> ?w), streams := [21 \<mapsto> demo_stream fd]\<rparr>"
  have "current_task ?t = current_task s" by (simp add: current_task_def cur_addr_def)
  then have "fd_file fd ?t ?w" using t by (simp add: fd_file_def vfs_idle_def cli_ok_def hw_defs)
  moreover have "new_stream 21 fd ?t" by (simp add: new_stream_def demo_stream_def)
  ultimately show ?thesis using assms unfolding on_blk_def by (intro exI [of _ ?t] exI [of _ ?w]) simp
qed

theorem lines_roundtrip_witness:
  "\<exists>b node s1 s2 t t'. put_lines (kernel_env Some) 21 [''ab'', ''c''] (demo_io b node) = Some s1 \<and>
     fsFlush (kernel_env Some) 21 s1 = Some s2 \<and> get_lines (kernel_env Some) 21 2 (t :: io_st) = Some ([''ab'', ''c''], t')"
proof -
  obtain b node v where o: "on_blk 1 FILE_WRITE (demo_io b node) (demo_fd FILE_WRITE node) node v" using demo_io_blk by blast
  have n: "new_stream 21 1 (demo_io b node)" by (simp add: new_stream_def demo_io_sel demo_stream_def)
  have k: "blk_sink 1 (demo_io b node) []"
    unfolding blk_sink_def using o
    by (intro exI [of _ "demo_fd FILE_WRITE node"] exI [of _ node] exI [of _ v]) (simp add: demo_fd_def)
  have h: "\<forall>l\<in>set [''ab'', ''c'']. text_line l" "length (line_bytes [''ab'', ''c'']) \<le> 1024"
    by (simp_all add: text_line_def nl_def)
  obtain s1 s2 v' node' b' where r: "put_lines (kernel_env Some) 21 [''ab'', ''c''] (demo_io b node) = Some s1"
    "fsFlush (kernel_env Some) 21 s1 = Some s2" "on_blk 1 FILE_WRITE s2 v' node' b'"
    "\<forall>(t :: io_st) q fd' w. on_blk fd' FILE_READ t w node' b' \<and> vf_offset w = 0 \<and> new_stream q fd' t \<longrightarrow>
        (\<exists>t'. get_lines (kernel_env Some) q (length [''ab'', ''c'']) t = Some ([''ab'', ''c''], t'))"
    using lines_roundtrip [OF n k h, of Some] by (elim exE conjE) (rule that)
  obtain t w where t: "on_blk 1 FILE_READ t w node' b'" "vf_offset w = 0" "new_stream 21 1 (t :: io_st)" using reread [OF r(3)] by blast
  have e: "length [''ab'', ''c''] = 2" by simp
  have "\<exists>t'. get_lines (kernel_env Some) 21 2 t = Some ([''ab'', ''c''], t')" using r(4) [unfolded e] t by blast
  then show ?thesis using r(1,2) by blast
qed

theorem terminal_lines_witness:
  "\<exists>b node s'. get_lines (kernel_env Some) 20 1 (demo_io b node) = Some ([''a''], s')"
proof -
  have tty: "tty_inv 1 ([''a''], []) (demo_io b node)" for b node
    using demo_dev_inv
    by (simp add: tty_inv_def tty_ready_def sem_idle_def cli_ok_def hw_defs cur_addr_def tty_lock_def tty_cooked_def lock_of_def
        demo_kfs_sel demo_dev_sel demo_io_sel)
  have d: "devfs_ok 7 (demo_io b node)" for b node
    using demo_kfs_ok(1) by (simp add: devfs_ok_def mounted_def devs_ok_def demo_io_sel demo_fs_def demo_kfs_sel)
  have n: "new_stream 20 0 (demo_io b node)" for b node by (simp add: new_stream_def demo_io_sel demo_stream_def)
  have f: "fd_file 0 (demo_io b node) (the (demo_files 5))" for b node
    using demo_io_fd [of 0 5 b node] by (simp add: demo_io_sel)
  show ?thesis
    using terminal_lines [OF n f, of undefined undefined "\<lparr>d_name = ''tty1'', d_id = 1, d_ops = Tty_ops\<rparr>" "[''a'']" "[]" "[]" Some] tty d
    by (auto simp: demo_files_def demo_inode_def text_line_def)
qed

lemma close_unread_stops_witness:
  "\<exists>b node. fsClose (kernel_env Some) 22 (demo_io b node) = None"
proof -
  obtain b node v where o: "on_blk 2 FILE_READ (demo_io b node) (demo_fd FILE_READ node) node v" using demo_io_blk by blast
  let ?st = "(demo_stream 2)\<lparr>fst_buf := (buffer_init 256)\<lparr>buf_size := 1\<rparr>\<rparr>"
  have ok: "buf_ok (fst_buf ?st)" by (simp add: buf_ok_def demo_stream_def buffer_init_def)
  have "pending (fst_buf ?st) \<noteq> []" unfolding pending_empty [OF ok] by (simp add: buffer_isempty_def buffer_init_def demo_stream_def)
  then show ?thesis using close_unread_stops [OF o, of 22 ?st Some] ok by (auto simp: demo_io_sel demo_stream_def)
qed

end
