(* ===== verification/ShellProps.thy ===== *)
theory ShellProps
  imports Shell IoUse
begin

text \<open>
  The shell: how a line becomes a command, and what \<open>cat\<close> does between two files.
\<close>

section \<open>Splitting\<close>

text \<open>A line as the words between its blanks, some of them empty.\<close>

fun unwords :: "string list \<Rightarrow> string" where
  "unwords [] = []"
| "unwords [w] = w"
| "unwords (w # ws) = w @ CHR '' '' # unwords ws"

fun take_items ::
  "string list \<Rightarrow> redirectio_type \<Rightarrow> command \<Rightarrow> 'a shell_st_scheme \<Rightarrow> ((redirectio_type \<times> command) \<times> 'a shell_st_scheme) option" where
  "take_items [] r cmd s = Some ((r, cmd), s)"
| "take_items (w # ws) r cmd s = do { ((r, cmd), s) \<leftarrow> take_item w r cmd s; take_items ws r cmd s }"

lemma str_index_word: "c \<notin> set w \<Longrightarrow> str_index c (w @ c # t) = Some (length w)"
  by (induction w) auto

lemma take_item_Some: "take_items [w] r cmd s = take_item w r cmd s"
  by (cases "take_item w r cmd s") auto

lemma parse_loop_words:
  "ws \<noteq> [] \<Longrightarrow> \<forall>w\<in>set ws. CHR '' '' \<notin> set w \<Longrightarrow> parse_loop (unwords ws) r cmd s = take_items ws r cmd s"
proof (induction ws arbitrary: r cmd s rule: unwords.induct)
  case (2 w)
  then show ?case unfolding take_item_Some by (subst parse_loop.simps) (use str_index_None [of "CHR '' ''" w] in simp)
next
  case (3 w v ws)
  have i: "str_index (CHR '' '') (unwords (w # v # ws)) = Some (length w)" using str_index_word 3(3) by simp
  show ?case
    by (subst parse_loop.simps, cases "take_item w r cmd s") (use i 3 in auto)
qed simp

section \<open>Blocks for strings\<close>

definition room :: "'a pmm_scheme \<Rightarrow> nat \<Rightarrow> bool" where
  "room s k \<longleftrightarrow> (\<exists>U. held s U k)"

lemma room_mono: "room s k \<Longrightarrow> j \<le> k \<Longrightarrow> room s j"
  unfolding room_def using held_mono by blast

lemma new_string_ok:
  assumes "held s U k" "n + 12 \<le> k" "length t < n" "n < 2 ^ 32"
  shows "\<exists>p s'. new_string n t s = Some ((p, t), s') \<and> held s' (insert (p, n) U) (k - 12 - n) \<and> (p, n) \<notin> U \<and> heap_only s s'"
proof -
  have n: "unat (of_nat n :: u32) = n" using assms(4) by (intro unat_of_nat32) simp
  obtain p s' where "pmm_alloc (of_nat n) s = Some (p, s')" "p \<noteq> 0" "p \<notin> fst ` U" "held s' (insert (p, n) U) (k - 12 - n)" "heap_only s s'"
    using pmm_alloc_held [OF assms(1), of "of_nat n"] assms(2) n by auto
  then show ?thesis using assms(3) by (auto simp: new_string_def image_iff)
qed

lemma string_room:
  assumes "room s k" "n + 12 \<le> k" "length t < n" "n < 2 ^ 32"
  shows "\<exists>p s'. new_string n t s = Some ((p, t), s') \<and> room s' (k - 12 - n) \<and> heap_only s s'"
  using assms new_string_ok unfolding room_def by blast

lemma heap_only_shell: "heap_only s s' \<Longrightarrow> shell s' = shell s"
  by (auto simp: heap_only_def)

text \<open>The text that \<open>path_expand\<close> makes.\<close>

definition expanded :: "string \<Rightarrow> string \<Rightarrow> string" where
  "expanded cwd path =
     (if path = ''.'' then cwd else if path = ''..'' then the (path_get_directory cwd)
      else if take 1 path = ''/'' then path else path_join cwd path)"

lemma directory_ok:
  assumes "room s k" "path \<noteq> []" "2 * (length path + 13) \<le> k" "length path < 1000"
  shows "\<exists>p s'. directory_of path s = Some ((p, the (path_get_directory path)), s') \<and> room s' (k - 2 * (length path + 13)) \<and> heap_only s s'"
proof -
  let ?n = "length path + 1"
  obtain U where U: "held s U k" using assms(1) by (auto simp: room_def)
  obtain d where d: "path_get_directory path = Some d" "length d \<le> length path"
    using assms(2) by (auto simp: path_get_directory_def Let_def)
  obtain p s1 where p: "new_string ?n path s = Some ((p, path), s1)" "held s1 (insert (p, ?n) U) (k - 12 - ?n)" "(p, ?n) \<notin> U" "heap_only s s1"
    using new_string_ok [OF U, of ?n path] assms(3,4) by auto
  have a: "?n + 12 \<le> k - 12 - ?n" using assms(3) by arith
  obtain q s2 where q: "new_string ?n d s1 = Some ((q, d), s2)" "held s2 (insert (q, ?n) (insert (p, ?n) U)) (k - 12 - ?n - 12 - ?n)" "heap_only s1 s2"
    using new_string_ok [OF p(2) a, of d] assms(4) d(2) by auto
  obtain s3 where s3: "pmm_free p s2 = Some s3" "held s3 (insert (q, ?n) (insert (p, ?n) U) - {(p, ?n)}) (k - 12 - ?n - 12 - ?n)" "heap_only s2 s3"
    using hp.dealloc_ok [OF q(2), of p ?n] by auto
  have "k - 12 - ?n - 12 - ?n = k - 2 * (length path + 13)" by simp
  moreover have "heap_only s s3" using p(4) q(3) s3(3) hp.frame_trans by blast
  ultimately show ?thesis
    using p(1) q(1) s3(1,2) d(1) unfolding room_def by (auto simp: directory_of_def copy_string_def string_create_copy_def)
qed

definition expand_cost :: "string \<Rightarrow> string \<Rightarrow> nat" where
  "expand_cost cwd path = 2 * length cwd + length path + 26"

lemma path_expand_ok:
  assumes "room s k" "sh_cwd (shell s) \<noteq> []" "expand_cost (sh_cwd (shell s)) path \<le> k"
    and "length (sh_cwd (shell s)) < 128" "length path < 32" "path \<noteq> []"
  shows "\<exists>p s'. path_expand path s = Some ((p, expanded (sh_cwd (shell s)) path), s') \<and>
     room s' (k - expand_cost (sh_cwd (shell s)) path) \<and> heap_only s s'"
proof -
  let ?c = "sh_cwd (shell s)"
  have copy: "\<exists>p s'. copy_string t s = Some ((p, t), s') \<and> room s' (k - expand_cost ?c path) \<and> heap_only s s'"
    if "length t \<le> length ?c \<or> t = path" for t
  proof -
    have "length t + 1 + 12 \<le> k" "k - expand_cost ?c path \<le> k - 12 - (length t + 1)" "length t + 1 < 2 ^ 32"
      using that assms(3-5) by (auto simp: expand_cost_def)
    then show ?thesis
      using string_room [OF assms(1), of "length t + 1" t] room_mono unfolding copy_string_def string_create_copy_def by fastforce
  qed
  have "\<exists>p s'. directory_of ?c s = Some ((p, the (path_get_directory ?c)), s') \<and> room s' (k - expand_cost ?c path) \<and> heap_only s s'"
    using directory_ok [OF assms(1,2)] assms(3,4) room_mono unfolding expand_cost_def by fastforce
  moreover have "\<exists>p s'. join_path ?c path s = Some ((p, path_join ?c path), s') \<and> room s' (k - expand_cost ?c path) \<and> heap_only s s'"
  proof -
    have l: "length (path_join ?c path) < length ?c + length path + 2" using assms(2,6) by (auto simp: path_join_def)
    have "k - expand_cost ?c path \<le> k - 12 - (length ?c + length path + 2)" by (simp add: expand_cost_def)
    then show ?thesis
      using string_room [OF assms(1) _ l] assms(3-5) room_mono unfolding join_path_def expand_cost_def by fastforce
  qed
  ultimately show ?thesis
    using copy [of ?c] copy [of path] unfolding path_expand_def expanded_def
    by (cases "path = ''.''"; cases "path = ''..''"; cases "take 1 path = ''/''") (simp_all only: if_True if_False simp_thms le_refl)
qed

section \<open>Parsing\<close>

definition symbols :: "string set" where "symbols = {''<'', ''>'', ''1>'', ''2>''}"

definition word :: "string \<Rightarrow> bool" where
  "word w \<longleftrightarrow> w \<noteq> [] \<and> CHR '' '' \<notin> set w \<and> length w < 32 \<and> w \<notin> symbols"

fun redirect :: "string \<Rightarrow> string option \<Rightarrow> string list" where
  "redirect redir None = []"
| "redirect redir (Some p) = [redir, p]"

lemma item_ok:
  assumes "room s k" "44 \<le> k" "length w < 32"
  shows "\<exists>p s'. new_string 32 w s = Some ((p, w), s') \<and> room s' (k - 44) \<and> heap_only s s'"
  using string_room [OF assms(1), of 32 w] assms(2,3) by auto

lemma take_head_item:
  assumes "room s k" "44 \<le> k" "word w" "c_head cmd = None"
  shows "\<exists>p s'. take_item w R_NONE cmd s = Some ((R_NONE, cmd\<lparr>c_head := Some (p, w)\<rparr>), s') \<and> room s' (k - 44) \<and> heap_only s s'"
  using item_ok [OF assms(1,2), of w] assms(3,4) by (auto simp: take_item_def word_def symbols_def parse_item_def)

lemma take_arg:
  assumes "room s k" "44 \<le> k" "word w" "c_head cmd \<noteq> None" "length (c_args cmd) < N_ARGS"
  shows "\<exists>p s'. take_item w R_NONE cmd s = Some ((R_NONE, cmd\<lparr>c_args := c_args cmd @ [(p, w)]\<rparr>), s') \<and> room s' (k - 44) \<and> heap_only s s'"
  using item_ok [OF assms(1,2), of w] assms(3-5) by (auto simp: take_item_def word_def symbols_def parse_item_def)

lemma take_args:
  "room s k \<Longrightarrow> 44 * length ws \<le> k \<Longrightarrow> \<forall>w\<in>set ws. word w \<Longrightarrow> c_head cmd \<noteq> None \<Longrightarrow> length (c_args cmd) + length ws \<le> N_ARGS \<Longrightarrow>
   \<exists>as s'. take_items ws R_NONE cmd s = Some ((R_NONE, cmd\<lparr>c_args := c_args cmd @ as\<rparr>), s') \<and> map snd as = ws \<and>
     room s' (k - 44 * length ws) \<and> heap_only s s'"
proof (induction ws arbitrary: cmd s k)
  case Nil
  then show ?case by (auto simp: heap_only_refl)
next
  case (Cons w ws)
  obtain p s1 where p: "take_item w R_NONE cmd s = Some ((R_NONE, cmd\<lparr>c_args := c_args cmd @ [(p, w)]\<rparr>), s1)"
    "room s1 (k - 44)" "heap_only s s1" using take_arg [OF Cons.prems(1), of w cmd] Cons.prems by auto
  let ?cmd = "cmd\<lparr>c_args := c_args cmd @ [(p, w)]\<rparr>"
  have "44 * length ws \<le> k - 44" "k - 44 - 44 * length ws = k - 44 * length (w # ws)" using Cons.prems(2) by auto
  then obtain as s2 where s2: "take_items ws R_NONE ?cmd s1 = Some ((R_NONE, ?cmd\<lparr>c_args := c_args ?cmd @ as\<rparr>), s2)"
    "map snd as = ws" "room s2 (k - 44 * length (w # ws))" "heap_only s1 s2"
    using Cons.IH [OF p(2), of ?cmd] Cons.prems(3-5) by auto
  have "heap_only s s2" using p(3) s2(4) heap_only_trans by blast
  then show ?case using p(1) s2 by (intro exI [of _ "(p, w) # as"] exI [of _ s2]) simp
qed

fun set_path :: "redirectio_type \<Rightarrow> kstr option \<Rightarrow> command \<Rightarrow> command" where
  "set_path R_STDIN p cmd = cmd\<lparr>c_stdin_path := p\<rparr>"
| "set_path R_STDOUT p cmd = cmd\<lparr>c_stdout_path := p\<rparr>"
| "set_path R_STDERR p cmd = cmd\<lparr>c_stderr_path := p\<rparr>"
| "set_path R_NONE p cmd = cmd"

fun old_path :: "redirectio_type \<Rightarrow> command \<Rightarrow> kstr option" where
  "old_path R_STDIN cmd = c_stdin_path cmd"
| "old_path R_STDOUT cmd = c_stdout_path cmd"
| "old_path R_STDERR cmd = c_stderr_path cmd"
| "old_path R_NONE cmd = None"

definition redirect_cost :: "string \<Rightarrow> nat" where "redirect_cost cwd = 88 + 2 * length cwd + 58"

text \<open>A working directory the code can work with.\<close>

definition cwd_ok :: "'a shell_st_scheme \<Rightarrow> bool" where
  "cwd_ok s \<longleftrightarrow> sh_cwd (shell s) \<noteq> [] \<and> length (sh_cwd (shell s)) < 128"

lemma take_redirect:
  assumes "room s k" "redirect_cost (sh_cwd (shell s)) \<le> k" "cwd_ok s" "\<forall>p. path = Some p \<longrightarrow> word p"
    and "(redir, r) \<in> {(''<'', R_STDIN), (''>'', R_STDOUT), (''2>'', R_STDERR)}" "old_path r cmd = None"
  shows "\<exists>q s'. take_items (redirect redir path) R_NONE cmd s = Some ((R_NONE, set_path r q cmd), s') \<and>
     map_option snd q = map_option (expanded (sh_cwd (shell s))) path \<and>
     room s' (k - redirect_cost (sh_cwd (shell s))) \<and> heap_only s s'"
proof (cases path)
  case None
  have "set_path r None cmd = cmd" using assms(5,6) by auto
  then show ?thesis using None assms(1) room_mono heap_only_refl by fastforce
next
  case (Some p)
  let ?c = "sh_cwd (shell s)"
  have w: "word p" using assms(4) Some by simp
  obtain a s1 where a: "new_string 32 redir s = Some ((a, redir), s1)" "room s1 (k - 44)" "heap_only s s1"
    using item_ok [OF assms(1), of redir] assms(2,5) by (auto simp: redirect_cost_def)
  have k: "44 \<le> k - 44" "length p < 32" using assms(2) w by (simp_all add: redirect_cost_def word_def)
  obtain b s2 where b: "new_string 32 p s1 = Some ((b, p), s2)" "room s2 (k - 88)" "heap_only s1 s2"
    using item_ok [OF a(2) k] by auto
  have sh: "shell s2 = shell s" using a(3) b(3) heap_only_shell by metis
  have l: "length p < 32" using w by (simp add: word_def)
  then have c: "expand_cost ?c p \<le> k - 88" "k - redirect_cost ?c \<le> k - 88 - expand_cost ?c p"
    using assms(2) by (auto simp: redirect_cost_def expand_cost_def)
  obtain q s3 where q: "path_expand p s2 = Some ((q, expanded ?c p), s3)" "room s3 (k - 88 - expand_cost ?c p)" "heap_only s2 s3"
    using path_expand_ok [OF b(2), of p] assms(3) c(1) w l unfolding sh by (auto simp: word_def cwd_ok_def)
  have "take_item redir R_NONE cmd s = Some ((r, cmd), s1)"
    using a(1) assms(5) by (auto simp: take_item_def parse_item_def)
  moreover have "take_item p r cmd s1 = Some ((R_NONE, set_path r (Some (q, expanded ?c p)) cmd), s3)"
    using b(1) q(1) w assms(5) by (auto simp: take_item_def parse_item_def word_def symbols_def)
  moreover have "heap_only s s3" using a(3) b(3) q(3) heap_only_trans by blast
  moreover have "room s3 (k - redirect_cost ?c)" using room_mono [OF q(2) c(2)] .
  ultimately show ?thesis
    using Some by (intro exI [of _ "Some (q, expanded ?c p)"] exI [of _ s3]) simp
qed

lemma take_items_append:
  "take_items (ws @ vs) r cmd s = do { ((r, cmd), s) \<leftarrow> take_items ws r cmd s; take_items vs r cmd s }"
proof (induction ws arbitrary: r cmd s)
  case (Cons w ws)
  then show ?case by (cases "take_item w r cmd s") auto
qed simp

definition redirects :: "string option \<Rightarrow> string option \<Rightarrow> string option \<Rightarrow> string list" where
  "redirects inp out err = redirect ''<'' inp @ redirect ''>'' out @ redirect ''2>'' err"

text \<open>The texts of a parsed command.\<close>

definition parsed :: "string \<Rightarrow> command \<Rightarrow> string option \<Rightarrow> string list \<Rightarrow> string option \<Rightarrow> string option \<Rightarrow> string option \<Rightarrow> bool" where
  "parsed cwd cmd head args inp out err \<longleftrightarrow> map_option snd (c_head cmd) = head \<and> map snd (c_args cmd) = args \<and>
     map_option snd (c_stdin_path cmd) = map_option (expanded cwd) inp \<and>
     map_option snd (c_stdout_path cmd) = map_option (expanded cwd) out \<and>
     map_option snd (c_stderr_path cmd) = map_option (expanded cwd) err"

lemma take_redirects:
  assumes "room s k" "3 * redirect_cost (sh_cwd (shell s)) \<le> k" "cwd_ok s"
    and "\<forall>p. inp = Some p \<or> out = Some p \<or> err = Some p \<longrightarrow> word p"
    and cmd: "parsed (sh_cwd (shell s)) cmd head args None None None"
  shows "\<exists>cmd' s'. take_items (redirects inp out err) R_NONE cmd s = Some ((R_NONE, cmd'), s') \<and> heap_only s s' \<and>
     parsed (sh_cwd (shell s)) cmd' head args inp out err"
proof -
  let ?c = "sh_cwd (shell s)" and ?k3 = "k - redirect_cost (sh_cwd (shell s))"
  have k: "redirect_cost ?c \<le> k" "redirect_cost ?c \<le> ?k3" "redirect_cost ?c \<le> ?k3 - redirect_cost ?c" using assms(2) by arith+
  have none: "c_stdin_path cmd = None" "c_stdout_path cmd = None" "c_stderr_path cmd = None"
    using cmd by (simp_all add: parsed_def)
  obtain q s3 where i: "take_items (redirect ''<'' inp) R_NONE cmd s = Some ((R_NONE, set_path R_STDIN q cmd), s3)"
    "map_option snd q = map_option (expanded ?c) inp" "room s3 ?k3" "heap_only s s3"
    using take_redirect [OF assms(1) k(1), of inp "''<''" R_STDIN cmd] assms(3,4) none by auto
  let ?c3 = "set_path R_STDIN q cmd"
  have sh3: "shell s3 = shell s" using i(4) by (rule heap_only_shell)
  obtain r s4 where o: "take_items (redirect ''>'' out) R_NONE ?c3 s3 = Some ((R_NONE, set_path R_STDOUT r ?c3), s4)"
    "map_option snd r = map_option (expanded ?c) out" "room s4 (?k3 - redirect_cost ?c)" "heap_only s3 s4"
    using take_redirect [OF i(3), of out "''>''" R_STDOUT ?c3] assms(3,4) k(2) none unfolding sh3
    by (auto simp: cwd_ok_def sh3)
  let ?c4 = "set_path R_STDOUT r ?c3"
  have sh4: "shell s4 = shell s" unfolding heap_only_shell [OF o(4)] by (rule sh3)
  obtain t s5 where e: "take_items (redirect ''2>'' err) R_NONE ?c4 s4 = Some ((R_NONE, set_path R_STDERR t ?c4), s5)"
    "map_option snd t = map_option (expanded ?c) err" "heap_only s4 s5"
    using take_redirect [OF o(3), of err "''2>''" R_STDERR ?c4] assms(3,4) k(3) none unfolding sh4
    by (auto simp: cwd_ok_def sh4)
  have "parsed ?c (set_path R_STDERR t ?c4) head args inp out err"
    using cmd i(2) o(2) e(2) by (simp add: parsed_def)
  moreover have "take_items (redirects inp out err) R_NONE cmd s = Some ((R_NONE, set_path R_STDERR t ?c4), s5)"
    using i(1) o(1) e(1) by (simp add: redirects_def take_items_append del: set_path.simps)
  ultimately show ?thesis using heap_only_trans [OF i(4) heap_only_trans [OF o(4) e(3)]] by blast
qed

definition parse_cost :: "string \<Rightarrow> nat \<Rightarrow> nat" where
  "parse_cost cwd n = 44 + 44 * n + 3 * redirect_cost cwd"

lemma redirects_word:
  assumes "\<forall>p. inp = Some p \<or> out = Some p \<or> err = Some p \<longrightarrow> word p" "w \<in> set (redirects inp out err)"
  shows "CHR '' '' \<notin> set w"
proof -
  have r: "v \<in> set (redirect y path) \<Longrightarrow> word v \<or> v = y" if "path = inp \<or> path = out \<or> path = err" for v y path
    using that assms(1) by (cases path) auto
  have "word w \<or> w \<in> {''<'', ''>'', ''2>''}" using assms(2) r [of inp w "''<''"] r [of out w "''>''"] r [of err w "''2>''"] by (auto simp: redirects_def)
  then show ?thesis by (auto simp: word_def)
qed

lemma command_parse_run:
  assumes "room s k" "parse_cost (sh_cwd (shell s)) (length args) \<le> k" "cwd_ok s"
    and "word head" "\<forall>w\<in>set args. word w" "length args < N_ARGS"
    and "\<forall>p. inp = Some p \<or> out = Some p \<or> err = Some p \<longrightarrow> word p"
  shows "\<exists>cmd s'. command_parse (unwords (head # args @ redirects inp out err)) s = Some (cmd, s') \<and> heap_only s s' \<and>
     parsed (sh_cwd (shell s)) cmd (Some head) args inp out err"
proof -
  let ?ws = "head # args @ redirects inp out err"
  note cost = assms(2) [unfolded parse_cost_def]
  obtain p s1 where h: "take_item head R_NONE no_command s = Some ((R_NONE, no_command\<lparr>c_head := Some (p, head)\<rparr>), s1)"
    "room s1 (k - 44)" "heap_only s s1"
    using take_head_item [OF assms(1) _ assms(4), of no_command] cost by (auto simp: no_command_def)
  let ?c1 = "no_command\<lparr>c_head := Some (p, head)\<rparr>"
  have k1: "44 * length args \<le> k - 44" using cost by arith
  obtain as s2 where a: "take_items args R_NONE ?c1 s1 = Some ((R_NONE, ?c1\<lparr>c_args := c_args ?c1 @ as\<rparr>), s2)" "map snd as = args"
    "room s2 (k - 44 - 44 * length args)" "heap_only s1 s2"
    using take_args [OF h(2) k1 assms(5), of ?c1] assms(6) by (auto simp: no_command_def)
  let ?c2 = "?c1\<lparr>c_args := c_args ?c1 @ as\<rparr>"
  have sh: "shell s2 = shell s" unfolding heap_only_shell [OF a(4)] by (rule heap_only_shell [OF h(3)])
  have k: "3 * redirect_cost (sh_cwd (shell s2)) \<le> k - 44 - 44 * length args" unfolding sh using cost by arith
  have "parsed (sh_cwd (shell s2)) ?c2 (Some head) args None None None" using a(2) by (simp add: parsed_def no_command_def)
  then obtain cmd s5 where r: "take_items (redirects inp out err) R_NONE ?c2 s2 = Some ((R_NONE, cmd), s5)" "heap_only s2 s5"
    "parsed (sh_cwd (shell s)) cmd (Some head) args inp out err"
    using take_redirects [OF a(3) k _ assms(7), of ?c2 "Some head" args] assms(3) unfolding sh by (auto simp: cwd_ok_def sh)
  have items: "take_items ?ws R_NONE no_command s = Some ((R_NONE, cmd), s5)"
    using h(1) a(1) r(1) by (simp add: take_items_append)
  have "\<forall>w\<in>set ?ws. CHR '' '' \<notin> set w" using assms(4,5) redirects_word [OF assms(7)] by (auto simp: word_def)
  then have "parse_loop (unwords ?ws) R_NONE no_command s = Some ((R_NONE, cmd), s5)"
    unfolding items [symmetric] by (intro parse_loop_words) auto
  moreover have "length (c_args cmd) < N_ARGS" using r(3) assms(6) by (auto simp: parsed_def)
  ultimately have "command_parse (unwords ?ws) s = Some (cmd, s5)" by (simp add: command_parse_def)
  then show ?thesis using r(3) heap_only_trans [OF h(3) heap_only_trans [OF a(4) r(2)]] by blast
qed

end
