(* ===== verification/ShellCat.thy ===== *)
theory ShellCat
  imports ShellProps
begin

text \<open>
  \<open>cat\<close> between two descriptors: a source that ends and a sink that do not disturb each other, as
  two files of one block file system are. Everything the source has left arrives in the sink, and the
  loop ends.
\<close>

section \<open>Copying\<close>

lemma put_byte: "char_of (nat (int (unat (x :: u8)) mod 256)) = char_of_byte x"
proof -
  have "unat x < 256" using unsigned_less [of x] by simp
  then show ?thesis by (simp add: char_of_byte_def nat_mod_distrib)
qed

lemma char_ff: "char_of_byte x = CHR 0xFF \<longleftrightarrow> x = 0xFF"
proof -
  have "byte_of (CHR 0xFF) = 0xFF" by (simp add: byte_of_def)
  then show ?thesis by (metis byte_of_char_of_byte char_of_byte_of)
qed

text \<open>\<open>both s rest done\<close>: the source has \<open>rest\<close> left, the sink was given \<open>done\<close>.\<close>

locale fd_copy =
  fixes E :: "'a senv" and fi fo :: int and both :: "'a shell_st_scheme \<Rightarrow> u8 list \<Rightarrow> u8 list \<Rightarrow> bool" and cap :: nat and h :: shell_data
  assumes source: "fd_source_end E fi (\<lambda>s rest. both s rest d)"
    and sink: "fd_sink E fo (\<lambda>s d. both s rest d) cap"
    and same_shell: "both s rest d \<Longrightarrow> shell s = h"
begin

sublocale src: fd_source_end E fi "\<lambda>s rest. both s rest d" for d
  by (rule source)

sublocale snk: fd_sink E fo "\<lambda>s d. both s rest d" cap for rest
  by (rule sink)

text \<open>Seen through the buffers of the streams \<open>i\<close> and \<open>out\<close>.\<close>

definition copying :: "u32 \<Rightarrow> u32 \<Rightarrow> u8 list \<Rightarrow> u8 list \<Rightarrow> 'a shell_st_scheme \<Rightarrow> bool" where
  "copying i out rest d s \<longleftrightarrow> i \<noteq> out \<and> i \<noteq> 0 \<and> out \<noteq> 0 \<and> (\<exists>st st' r e. streams s i = Some st \<and> fst_fd st = fi \<and> buf_ok (fst_buf st) \<and>
     streams s out = Some st' \<and> fst_fd st' = fo \<and> buf_ok (fst_buf st') \<and> buf_pos (fst_buf st') = 0 \<and>
     both s r e \<and> rest = pending (fst_buf st) @ r \<and> d = e @ pending (fst_buf st'))"

lemma copying_get:
  assumes "copying i out (x # rest) d s"
  shows "\<exists>s'. fsGetChar E i s = Some (int (unat x), s') \<and> copying i out rest d s'"
proof -
  obtain st st' r e where h: "i \<noteq> out" "i \<noteq> 0" "out \<noteq> 0" "streams s i = Some st" "fst_fd st = fi" "buf_ok (fst_buf st)"
    "streams s out = Some st'" "fst_fd st' = fo" "buf_ok (fst_buf st')" "buf_pos (fst_buf st') = 0" "both s r e"
    "x # rest = pending (fst_buf st) @ r" "d = e @ pending (fst_buf st')" using assms by (auto simp: copying_def)
  have "src.got e i (x # rest) s" using h unfolding src.got_def by auto
  then obtain s' where s': "fsGetChar E i s = Some (int (unat x), s')" "src.got e i rest s'" "streams s' out = Some st'"
    using src.get_char_ok h(1,7) by metis
  then show ?thesis using h unfolding src.got_def copying_def by blast
qed

lemma copying_end:
  assumes "copying i out [] d s"
  shows "\<exists>s'. fsGetChar E i s = Some (-1, s') \<and> copying i out [] d s'"
proof -
  obtain st st' r e where h: "i \<noteq> out" "i \<noteq> 0" "out \<noteq> 0" "streams s i = Some st" "fst_fd st = fi" "buf_ok (fst_buf st)"
    "streams s out = Some st'" "fst_fd st' = fo" "buf_ok (fst_buf st')" "buf_pos (fst_buf st') = 0" "both s r e"
    "[] = pending (fst_buf st) @ r" "d = e @ pending (fst_buf st')" using assms by (auto simp: copying_def)
  have "src.got e i [] s" using h unfolding src.got_def by auto
  then obtain s' where s': "fsGetChar E i s = Some (-1, s')" "src.got e i [] s'" "streams s' out = Some st'"
    using src.end_char h(1,7) by metis
  then show ?thesis using h unfolding src.got_def copying_def by blast
qed

lemma copying_put:
  assumes "copying i out rest d s" "length d \<le> cap" "c \<noteq> CHR 0xFF"
  shows "\<exists>s'. fsPutChar E out c s = Some s' \<and> copying i out rest (d @ [byte_of c]) s'"
proof -
  obtain st st' r e where h: "i \<noteq> out" "i \<noteq> 0" "out \<noteq> 0" "streams s i = Some st" "fst_fd st = fi" "buf_ok (fst_buf st)"
    "streams s out = Some st'" "fst_fd st' = fo" "buf_ok (fst_buf st')" "buf_pos (fst_buf st') = 0" "both s r e"
    "rest = pending (fst_buf st) @ r" "d = e @ pending (fst_buf st')" using assms by (auto simp: copying_def)
  have "snk.put r out d s" using h unfolding snk.put_def by auto
  then obtain s' where s': "fsPutChar E out c s = Some s'" "snk.put r out (d @ [byte_of c]) s'" "streams s' i = Some st"
    using snk.put_char_ok assms(2,3) h(1,4) by metis
  then show ?thesis using h unfolding snk.put_def copying_def by blast
qed

lemma copying_shell: "copying i out rest d s \<Longrightarrow> shell s = h"
  using same_shell by (auto simp: copying_def)

lemma cat_step:
  assumes "copying i out rest d s" "x \<noteq> 0xFF" "length d \<le> cap"
  shows "\<exists>s'. copying i out rest (d @ [x]) s' \<and> cat_loop E i out (-1) (int (unat x)) s =
     do { (ch, s) \<leftarrow> fsGetChar E i s'; cat_loop E i out (-1) ch s }"
proof -
  obtain s1 where s1: "fsPutChar E out (char_of_byte x) s = Some s1" "copying i out rest (d @ [x]) s1"
    using copying_put [OF assms(1,3), of "char_of_byte x"] assms(2) by (auto simp: char_ff)
  have "int (unat x) \<noteq> -1" by linarith
  then show ?thesis
    using s1 put_byte [of x] by (intro exI [of _ s1]) (subst cat_loop.simps, simp)
qed

lemma cat_loop_ok:
  "copying i out rest d s \<Longrightarrow> 0xFF \<notin> set (x # rest) \<Longrightarrow> length d + length rest < cap \<Longrightarrow>
   \<exists>s'. cat_loop E i out (-1) (int (unat x)) s = Some s' \<and> copying i out [] (d @ x # rest) s'"
proof (induction rest arbitrary: d s x)
  case Nil
  obtain s1 where s1: "copying i out [] (d @ [x]) s1"
    "cat_loop E i out (-1) (int (unat x)) s = do { (ch, s) \<leftarrow> fsGetChar E i s1; cat_loop E i out (-1) ch s }"
    using cat_step [OF Nil(1), of x] Nil(2,3) by auto
  obtain s2 where s2: "fsGetChar E i s1 = Some (-1, s2)" "copying i out [] (d @ [x]) s2" using copying_end [OF s1(1)] by blast
  have "cat_loop E i out (-1) (-1) s2 = Some s2" by (subst cat_loop.simps) simp
  then show ?case using s1(2) s2 by auto
next
  case (Cons y rest)
  obtain s1 where s1: "copying i out (y # rest) (d @ [x]) s1"
    "cat_loop E i out (-1) (int (unat x)) s = do { (ch, s) \<leftarrow> fsGetChar E i s1; cat_loop E i out (-1) ch s }"
    using cat_step [OF Cons.prems(1), of x] Cons.prems(2,3) by auto
  obtain s2 where s2: "fsGetChar E i s1 = Some (int (unat y), s2)" "copying i out rest (d @ [x]) s2" using copying_get [OF s1(1)] by blast
  obtain s3 where "cat_loop E i out (-1) (int (unat y)) s2 = Some s3" "copying i out [] ((d @ [x]) @ y # rest) s3"
    using Cons.IH [OF s2(2), of y] Cons.prems by auto
  then show ?case using s1(2) s2(1) by auto
qed

lemma copying_ff:
  assumes "copying i out rest d s" "length d < cap"
  shows "fsPutChar E out (CHR 0xFF) s = None"
proof -
  obtain st' r e where "out \<noteq> 0" "streams s out = Some st'" "fst_fd st' = fo" "buf_ok (fst_buf st')" "buf_pos (fst_buf st') = 0"
    "both s r e" "d = e @ pending (fst_buf st')" using assms by (auto simp: copying_def)
  then have "snk.put r out d s" unfolding snk.put_def by auto
  then show ?thesis using snk.put_char_ff assms(2) by blast
qed

lemma cat_loop_ff:
  "copying i out (xs @ 0xFF # rest) d s \<Longrightarrow> 0xFF \<notin> set xs \<Longrightarrow> length d + length xs < cap \<Longrightarrow>
   do { (ch, s) \<leftarrow> fsGetChar E i s; cat_loop E i out (-1) ch s } = None"
proof (induction xs arbitrary: d s)
  case Nil
  obtain s1 where s1: "fsGetChar E i s = Some (int (unat (0xFF :: u8)), s1)" "copying i out rest d s1"
    using copying_get Nil(1) by fastforce
  have "char_of_byte 0xFF = CHR 0xFF" by (simp add: char_ff)
  then have "cat_loop E i out (-1) (int (unat (0xFF :: u8))) s1 = None"
    using copying_ff [OF s1(2)] Nil(3) put_byte [of "0xFF"] by (subst cat_loop.simps) simp
  then show ?case using s1(1) by simp
next
  case (Cons x xs)
  obtain s1 where s1: "fsGetChar E i s = Some (int (unat x), s1)" "copying i out (xs @ 0xFF # rest) d s1"
    using copying_get Cons.prems(1) by fastforce
  obtain s2 where s2: "copying i out (xs @ 0xFF # rest) (d @ [x]) s2"
    "cat_loop E i out (-1) (int (unat x)) s1 = do { (ch, s) \<leftarrow> fsGetChar E i s2; cat_loop E i out (-1) ch s }"
    using cat_step [OF s1(2), of x] Cons.prems(2,3) by auto
  then show ?case using s1(1) Cons.IH [OF s2(1)] Cons.prems(2,3) by simp
qed

lemma cmd_cat_ff:
  assumes "copying i out rest [] s" "0xFF \<in> set rest" "length rest \<le> cap" "c_args cmd = []" "c_stdin cmd = i" "c_stdout cmd = out"
    and "sh_stdin h \<noteq> i"
  shows "cmd_cat E cmd s = None"
proof -
  obtain xs ys where r: "rest = xs @ 0xFF # ys" "0xFF \<notin> set xs" using split_list_first [OF assms(2)] by blast
  have n: "do { (ch, s) \<leftarrow> fsGetChar E i s; cat_loop E i out (-1) ch s } = None"
    using cat_loop_ff [of i out xs ys "[]" s] assms(1,3) r by simp
  obtain x rs where x: "rest = x # rs" using assms(2) by (cases rest) auto
  obtain s1 where "fsGetChar E i s = Some (int (unat x), s1)" "copying i out rs [] s1"
    using copying_get assms(1) unfolding x by blast
  then show ?thesis using n assms(4-7) copying_shell by (simp add: cmd_cat_def)
qed

lemma copying_flush:
  assumes "copying i out rest d s" "length d \<le> cap"
  shows "\<exists>s'. fsFlush E out s = Some s' \<and> (\<exists>r. both s' r d \<and> streams s' i = streams s i \<and> (\<exists>st. streams s i = Some st \<and> rest = pending (fst_buf st) @ r))"
proof -
  obtain st st' r e where h: "i \<noteq> out" "i \<noteq> 0" "out \<noteq> 0" "streams s i = Some st" "fst_fd st = fi" "buf_ok (fst_buf st)"
    "streams s out = Some st'" "fst_fd st' = fo" "buf_ok (fst_buf st')" "buf_pos (fst_buf st') = 0" "both s r e"
    "rest = pending (fst_buf st) @ r" "d = e @ pending (fst_buf st')" using assms by (auto simp: copying_def)
  have "snk.put r out d s" using h unfolding snk.put_def by auto
  then obtain s' where "fsFlush E out s = Some s'" "both s' r d" "\<forall>q. q \<noteq> out \<longrightarrow> streams s' q = streams s q"
    using snk.flush_ok assms(2) by blast
  then show ?thesis using h by auto
qed

text \<open>The command as a whole, for a redirected input.\<close>

lemma cmd_cat_ok:
  assumes "copying i out rest [] s" "0xFF \<notin> set rest" "length rest \<le> cap" "c_args cmd = []" "c_stdin cmd = i" "c_stdout cmd = out"
    and "sh_stdin h \<noteq> i"
  shows "\<exists>s'. cmd_cat E cmd s = Some (0, s') \<and> both s' [] rest"
proof -
  have "\<exists>s1 ch s2. fsGetChar E i s = Some (ch, s1) \<and> shell s1 = h \<and> cat_loop E i out (-1) ch s1 = Some s2 \<and> copying i out [] rest s2"
  proof (cases rest)
    case Nil
    obtain s1 where "fsGetChar E i s = Some (-1, s1)" "copying i out [] [] s1" using copying_end assms(1) unfolding Nil by blast
    moreover have "cat_loop E i out (-1) (-1) s1 = Some s1" by (subst cat_loop.simps) simp
    ultimately show ?thesis using Nil copying_shell by blast
  next
    case (Cons x xs)
    obtain s1 where s1: "fsGetChar E i s = Some (int (unat x), s1)" "copying i out xs [] s1" using copying_get assms(1) unfolding Cons by blast
    then show ?thesis using cat_loop_ok [OF s1(2), of x] copying_shell [OF s1(2)] assms(2,3) Cons by auto
  qed
  then obtain s1 ch s2 where s: "fsGetChar E i s = Some (ch, s1)" "shell s1 = h" "cat_loop E i out (-1) ch s1 = Some s2" "copying i out [] rest s2"
    by blast
  obtain s3 where "fsFlush E out s2 = Some s3" "both s3 [] rest" using copying_flush [OF s(4) assms(3)] by auto
  then show ?thesis using s assms(4-7) copying_shell [OF s(4)] by (simp add: cmd_cat_def)
qed

end

section \<open>Two files\<close>

text \<open>Files of one file system with a data block each.\<close>

definition two_files :: "shell_data \<Rightarrow> int \<Rightarrow> int \<Rightarrow> 'a shell_st_scheme \<Rightarrow> u8 list \<Rightarrow> u8 list \<Rightarrow> bool" where
  "two_files h fi fo s rest d \<longleftrightarrow> shell s = h \<and> fd_addr fi s \<noteq> fd_addr fo s \<and> (\<exists>v node v' node' b.
     on_blk fi FILE_READ s v node b \<and> on_blk fo FILE_WRITE s v' node' b \<and> kn_fs (vf_inode v) = kn_fs (vf_inode v') \<and>
     in_block_id node \<noteq> in_block_id node' \<and> vf_offset v \<le> unat (in_size node) \<and>
     rest = drop (vf_offset v) (take (unat (in_size node)) (blk_data b (in_block_id node))) \<and>
     vf_offset v' = length d \<and> length d \<le> unat (in_size node') \<and> take (length d) (blk_data b (in_block_id node')) = d)"

lemma two_files_streams: "two_files h fi fo (s\<lparr>streams := g\<rparr>) rest d = two_files h fi fo s rest d"
  by (simp add: two_files_def on_blk_def)

lemma only_files_shell: "only_files s s' \<Longrightarrow> shell s' = shell s"
  by (auto simp: only_files_def)

lemma on_blk_other:
  assumes "on_blk fd flags s v node b" "others_keep fd' s s'" "fd_addr fd s \<noteq> fd_addr fd' s" "blk_view (kn_fs (vf_inode v)) s' = Some b'"
    and "fs_ok b'" "data_blk b' = data_blk b" "ino_valid b' = ino_valid b"
  shows "on_blk fd flags s' v node b'"
  using assms unfolding on_blk_def others_keep_def by simp

lemma two_files_read:
  assumes "two_files h fi fo s rest d" "length buf = 256"
  shows "\<exists>s'. vfs_read (kernel_env yield) fi buf 256 s = Some ((int (min 256 (length rest)), put_at 0 (take 256 rest) buf), s') \<and>
     two_files h fi fo s' (drop 256 rest) d \<and> streams s' = streams s"
proof -
  obtain v node v' node' b where o: "shell s = h" "fd_addr fi s \<noteq> fd_addr fo s" "on_blk fi FILE_READ s v node b" "on_blk fo FILE_WRITE s v' node' b"
    "kn_fs (vf_inode v) = kn_fs (vf_inode v')" "in_block_id node \<noteq> in_block_id node'" "vf_offset v \<le> unat (in_size node)"
    "rest = drop (vf_offset v) (take (unat (in_size node)) (blk_data b (in_block_id node)))"
    "vf_offset v' = length d" "length d \<le> unat (in_size node')" "take (length d) (blk_data b (in_block_id node')) = d"
    using assms(1) by (auto simp: two_files_def)
  let ?v = "v\<lparr>vf_offset := vf_offset v + min 256 (length rest)\<rparr>"
  obtain s' where s': "vfs_read (kernel_env yield) fi buf 256 s = Some ((int (min 256 (length rest)), put_at 0 (take 256 rest) buf), s')"
    "on_blk fi FILE_READ s' ?v node b" "others_keep fi s s'" "blk_view (kn_fs (vf_inode v)) s' = Some b" "only_files s s'"
    "vf_offset ?v \<le> unat (in_size node)"
    "drop (vf_offset ?v) (take (unat (in_size node)) (blk_data b (in_block_id node))) = drop 256 rest"
    using blk_read_step [OF o(3,7) assms(2), of yield] unfolding o(8) [symmetric] by blast
  have w: "on_blk fo FILE_WRITE s' v' node' b"
    by (rule on_blk_other [OF o(4) s'(3)]) (use o(2,4,5) s'(4) in \<open>auto simp: on_blk_def\<close>)
  have "two_files h fi fo s' (drop 256 rest) d"
    unfolding two_files_def
    using o(1,2,5,6,9,10,11) s'(3) only_files_shell [OF s'(5)] s'(6,7)
    by (intro conjI exI [of _ ?v] exI [of _ node] exI [of _ v'] exI [of _ node'] exI [of _ b] s'(2) w) (simp_all add: others_keep_def)
  then show ?thesis using s'(1) only_files_streams [OF s'(5)] by blast
qed

lemma two_files_write:
  assumes "two_files h fi fo s rest d" "length d + length cs \<le> 1024"
  shows "\<exists>s'. vfs_write (kernel_env yield) fo cs s = Some (int (length cs), s') \<and> two_files h fi fo s' rest (d @ cs) \<and> streams s' = streams s"
proof -
  obtain v node v' node' b where o: "shell s = h" "fd_addr fi s \<noteq> fd_addr fo s" "on_blk fi FILE_READ s v node b" "on_blk fo FILE_WRITE s v' node' b"
    "kn_fs (vf_inode v) = kn_fs (vf_inode v')" "in_block_id node \<noteq> in_block_id node'" "vf_offset v \<le> unat (in_size node)"
    "rest = drop (vf_offset v) (take (unat (in_size node)) (blk_data b (in_block_id node)))"
    "vf_offset v' = length d" "length d \<le> unat (in_size node')" "take (length d) (blk_data b (in_block_id node')) = d"
    using assms(1) by (auto simp: two_files_def)
  have l: "vf_offset v' + length cs \<le> 1024" using o(9) assms(2) by simp
  note dk = blk_write_disk [OF o(4) l]
  obtain s' w node1 b1 where s': "vfs_write (kernel_env yield) fo cs s = Some (int (length cs), s')" "on_blk fo FILE_WRITE s' w node1 b1"
    "others_keep fo s s'" "blk_view (kn_fs (vf_inode v')) s' = Some b1" "only_files s s'"
    "blk_data b1 (in_block_id node') = put_at (vf_offset v') cs (blk_data b (in_block_id node'))" "vf_offset v' + length cs \<le> unat (in_size node1)"
    "in_block_id node1 = in_block_id node'" "blk_data b1 (in_block_id node) = blk_data b (in_block_id node)" "fs_ok b1"
    "data_blk b1 = data_blk b" "ino_valid b1 = ino_valid b" "vf_offset w = vf_offset v' + length cs" "kn_fs (vf_inode w) = kn_fs (vf_inode v')"
    using blk_write_step [OF o(4) l, of yield] dk(1-3) dk(4) [OF o(6)] dk(5-7) o(3) unfolding on_blk_def [of fi] by fastforce
  have r: "on_blk fi FILE_READ s' v node b1"
    by (rule on_blk_other [OF o(3) s'(3) o(2)]) (use s'(4,10-12) o(5) in auto)
  have t: "take (length (d @ cs)) (blk_data b1 (in_block_id node1)) = d @ cs"
    unfolding s'(8) s'(6) using o(9,11) assms(2) by (simp add: put_at_def)
  have "two_files h fi fo s' rest (d @ cs)"
    unfolding two_files_def
    using o(1,2,5-9) s'(3,7-9,13,14) only_files_shell [OF s'(5)]
    by (intro conjI exI [of _ v] exI [of _ node] exI [of _ w] exI [of _ node1] exI [of _ b1] s'(2) r t) (simp_all add: others_keep_def)
  then show ?thesis using s'(1) only_files_streams [OF s'(5)] by blast
qed

interpretation cp: fd_copy "kernel_env yield" fi fo "two_files h fi fo" 1024 h for yield fi fo h
proof (rule fd_copy.intro)
  show "fd_source_end (kernel_env yield) fi (\<lambda>s rest. two_files h fi fo s rest d)" for d
  proof (unfold_locales)
    fix s :: "'a shell_st_scheme" and rest and buf :: "u8 list"
    assume h: "two_files h fi fo s rest d" "length buf = 256"
    show "\<exists>n s'. vfs_read (kernel_env yield) fi buf 256 s = Some ((int n, put_at 0 (take n rest) buf), s') \<and> 0 < n \<and> n \<le> 256 \<and>
        n \<le> length rest \<and> two_files h fi fo s' (drop n rest) d \<and> streams s' = streams s" if "rest \<noteq> []"
      using two_files_read [OF h, of yield] that by (intro exI [of _ "min 256 (length rest)"]) (auto simp: min_def)
  qed (use two_files_read in \<open>fastforce simp: two_files_streams\<close>)+
  show "fd_sink (kernel_env yield) fo (\<lambda>s d. two_files h fi fo s rest d) 1024" for rest
    by unfold_locales (simp_all add: two_files_write two_files_streams)
qed (simp add: two_files_def)

lemma two_files_start:
  assumes "new_stream i fi s" "new_stream out fo s" "i \<noteq> out" "two_files h fi fo s rest []"
  shows "cp.copying fi fo h i out rest [] s"
  using assms unfolding cp.copying_def new_stream_def
  by (auto simp: buffer_init_def pending_def bytes_at_def buf_ok_def)

lemma cat_copies_run:
  assumes "new_stream i fi s" "new_stream out fo s" "i \<noteq> out" "two_files h fi fo s rest []" "0xFF \<notin> set rest"
    and "c_args cmd = []" "c_stdin cmd = i" "c_stdout cmd = out" "sh_stdin h \<noteq> i"
  shows "\<exists>s'. cmd_cat (kernel_env yield) cmd s = Some (0, s') \<and> two_files h fi fo s' [] rest"
proof -
  have "length rest \<le> 1024" using assms(4) by (auto simp: two_files_def on_blk_def)
  then show ?thesis using cp.cmd_cat_ok [OF two_files_start [OF assms(1-4)] assms(5)] assms(6-9) by blast
qed

lemma cat_ff_run:
  assumes "new_stream i fi s" "new_stream out fo s" "i \<noteq> out" "two_files h fi fo s rest []" "0xFF \<in> set rest"
    and "c_args cmd = []" "c_stdin cmd = i" "c_stdout cmd = out" "sh_stdin h \<noteq> i"
  shows "cmd_cat (kernel_env yield) cmd s = None"
proof -
  have "length rest \<le> 1024" using assms(4) by (auto simp: two_files_def on_blk_def)
  then show ?thesis using cp.cmd_cat_ff [OF two_files_start [OF assms(1-4)] assms(5)] assms(6-9) by blast
qed

section \<open>Properties\<close>

text \<open>C28: A command line is understood: the words of a line are taken as head, arguments and redirections, in the
  order typed; the paths of redirections are completed from the working directory; nothing but the heap
  changes. The parse returns whenever the heap has room for the blocks of its words.\<close>
theorem command_line_parsed:
  assumes "room s k" "parse_cost (sh_cwd (shell s)) (length args) \<le> k" "cwd_ok s"
    and "word head" "\<forall>w\<in>set args. word w" "length args < N_ARGS"
    and "\<forall>p. inp = Some p \<or> out = Some p \<or> err = Some p \<longrightarrow> word p"
  shows "\<exists>cmd s'. command_parse (unwords (head # args @ redirects inp out err)) s = Some (cmd, s') \<and> heap_only s s' \<and>
     parsed (sh_cwd (shell s)) cmd (Some head) args inp out err"
  using assms by (rule command_parse_run)

text \<open>C24: \<open>cat\<close> ends, and copies: with its input redirected from one file and its output to another of the
  same file system, the loop terminates at the end of the input, the command returns 0, and the output file
  begins with exactly the bytes of the input (none of which may be 0xFF).\<close>
theorem cat_copies:
  assumes "new_stream i fi s" "new_stream out fo s" "i \<noteq> out" "two_files h fi fo s rest []" "0xFF \<notin> set rest"
    and "c_args cmd = []" "c_stdin cmd = i" "c_stdout cmd = out" "sh_stdin h \<noteq> i"
  shows "\<exists>s'. cmd_cat (kernel_env yield) cmd s = Some (0, s') \<and> two_files h fi fo s' [] rest"
  using assms by (rule cat_copies_run)

text \<open>The byte 0xFF stops the kernel: \<open>buffer_push\<close> returns the character it stored, 0xFF reads as -1, the
  code for a full buffer, so \<open>fsPutChar\<close> flushes and tries again, and its assertion fails; \<open>cat\<close> of a file
  that holds the byte never returns.\<close>
lemma cat_ff_stops:
  assumes "new_stream i fi s" "new_stream out fo s" "i \<noteq> out" "two_files h fi fo s rest []" "0xFF \<in> set rest"
    and "c_args cmd = []" "c_stdin cmd = i" "c_stdout cmd = out" "sh_stdin h \<noteq> i"
  shows "cmd_cat (kernel_env yield) cmd s = None"
  using assms by (rule cat_ff_run)

section \<open>Concrete instances\<close>

definition demo_data :: shell_data where
  "demo_data = \<lparr>sh_name = ''tty-1'', sh_stdin = 20, sh_stdout = 19, sh_cwd = ''/home/''\<rparr>"

definition demo_sh :: "blkfs \<Rightarrow> blkfs_inode \<Rightarrow> blkfs_inode \<Rightarrow> shell_st" where
  "demo_sh b node node' = io_st.extend ((demo_io b node)\<lparr>
       files := demo_files(6 \<mapsto> demo_fd FILE_WRITE node', 7 \<mapsto> demo_fd FILE_READ node),
       streams := [21 \<mapsto> demo_stream 1, 22 \<mapsto> demo_stream 2]\<rparr>) (shell_st.fields demo_data)"

lemma demo_sh_sel:
  "cur_cpu (demo_sh b node node') = cur_cpu demo_kfs" "intr_on (demo_sh b node node') = intr_on demo_kfs"
  "cpu_cli (demo_sh b node node') = cpu_cli demo_kfs" "n_cpu (demo_sh b node node') = n_cpu demo_kfs"
  "vfs_lock (demo_sh b node node') = vfs_lock demo_kfs" "mount_list_lock (demo_sh b node node') = mount_list_lock demo_kfs"
  "file_list_lock (demo_sh b node node') = file_list_lock demo_kfs" "current (demo_sh b node node') = current demo_kfs"
  "task_list (demo_sh b node node') = upd_node 1 (\<lambda>t. t\<lparr>t_fildes := [5, 6, 7] @ replicate 13 0\<rparr>) (task_list demo_kmt)"
  "files (demo_sh b node node') = demo_files(6 \<mapsto> demo_fd FILE_WRITE node', 7 \<mapsto> demo_fd FILE_READ node)"
  "blks (demo_sh b node node') = [12 \<mapsto> b]" "rds (demo_sh b node node') = (\<lambda>_. dev b)"
  "filesystems (demo_sh b node node') = filesystems (demo_io b node)"
  "streams (demo_sh b node node') = [21 \<mapsto> demo_stream 1, 22 \<mapsto> demo_stream 2]" "shell (demo_sh b node node') = demo_data"
  by (simp_all add: demo_sh_def io_st.defs shell_st.defs demo_io_sel)

lemma demo_sh_fd:
  assumes "(k, a) \<in> {(1, 6), (2, 7)}"
  shows "fd_file (int k) (demo_sh b node node') (the (files (demo_sh b node node') a))" "fd_addr (int k) (demo_sh b node node') = a"
  using assms demo_kfs_idle
  by (auto simp: fd_file_def vfs_idle_def cli_ok_def hw_defs current_task_def cur_addr_def demo_sh_sel demo_files_def node_at_def
      upd_node_def demo_kmt_def demo_node_def demo_kfs_sel fd_addr_def)

lemma blk_data_hw: "blk_data (b\<lparr>cur_cpu := c, n_cpu := n, intr_on := i, cpu_cli := k\<rparr>) = blk_data b"
  by (simp add: blk_data_def fun_eq_iff)

lemma demo_sh_two:
  assumes "length bs = 3"
  shows "\<exists>b node node'. two_files demo_data 2 1 (demo_sh b node node') bs []"
proof -
  obtain b0 :: blkfs where b0: "fresh_fs b0" "total_block_num b0 = 4064" "unat (inode_block_num b0) \<le> 80"
    using fs_init_fresh [OF blank_fs_cli _ zero_rd_magic, of "''blkfs''"] by (auto simp: zero_rd_def)
  have g: "geom b0" "fs_ok b0" using fresh_dir [OF b0(1)] by (auto simp: fs_ok_def)
  let ?k = "100 :: u32" and ?k' = "101 :: u32"
  let ?xs = "bs @ replicate 1021 0"
  let ?b = "set_data ?k ?xs b0"
  let ?node = "\<lparr>in_type = it_FILE, in_id = 1, in_block_id = ?k, in_refcnt = 1, in_size = 3\<rparr>"
  let ?node' = "\<lparr>in_type = it_FILE, in_id = 2, in_block_id = ?k', in_refcnt = 1, in_size = 0\<rparr>"
  let ?s = "demo_sh ?b ?node ?node'"
  let ?v = "the (blk_view 11 ?s)"
  have d: "data_blk b0 ?k" "data_blk b0 ?k'" using b0(2,3) by (simp_all add: data_blk_def word_le_nat_alt word_less_nat_alt)
  have "0 < inode_block_num b0" using fresh_dir [OF b0(1)] by (simp add: root_ok_def)
  then have i: "ino_valid b0 1" "ino_valid b0 2" by (simp_all add: ino_valid_def)
  have v: "blk_view 11 ?s = Some ?v" "fs_ok ?v" "data_blk ?v ?k" "data_blk ?v ?k'" "ino_valid ?v 1" "ino_valid ?v 2" "blk_data ?v ?k = ?xs"
    using g d i assms
    by (simp_all add: blk_view_def demo_sh_sel demo_io_sel fs_ok_hw data_blk_def ino_valid_def blk_data_hw)
  have "on_blk 2 FILE_READ ?s (demo_fd FILE_READ ?node) ?node ?v" "on_blk 1 FILE_WRITE ?s (demo_fd FILE_WRITE ?node') ?node' ?v"
    using v(1-6) demo_sh_fd(1) [of 2 7 ?b ?node ?node'] demo_sh_fd(1) [of 1 6 ?b ?node ?node']
    by (simp_all add: on_blk_def demo_sh_sel demo_fd_def)
  then have "two_files demo_data 2 1 ?s bs []"
    unfolding two_files_def using v(7) assms demo_sh_fd(2) [of 2 7 ?b ?node ?node'] demo_sh_fd(2) [of 1 6 ?b ?node ?node']
    by (intro conjI exI [of _ "demo_fd FILE_READ ?node"] exI [of _ ?node] exI [of _ "demo_fd FILE_WRITE ?node'"] exI [of _ ?node'] exI [of _ ?v])
      (simp_all add: demo_sh_sel demo_fd_def)
  then show ?thesis by blast
qed

theorem cat_copies_witness:
  "\<exists>b node node' s'. cmd_cat (kernel_env Some) (no_command\<lparr>c_stdin := 22, c_stdout := 21\<rparr>) (demo_sh b node node') = Some (0, s') \<and>
     two_files demo_data 2 1 s' [] (map byte_of ''hi!'')"
proof -
  obtain b node node' where t: "two_files demo_data 2 1 (demo_sh b node node') (map byte_of ''hi!'') []" using demo_sh_two [of "map byte_of ''hi!''"] by auto
  have n: "new_stream 22 2 (demo_sh b node node')" "new_stream 21 1 (demo_sh b node node')"
    by (simp_all add: new_stream_def demo_sh_sel demo_stream_def)
  have "0xFF \<notin> set (map byte_of ''hi!'')" by (simp add: byte_of_def)
  then have "\<exists>s'. cmd_cat (kernel_env Some) (no_command\<lparr>c_stdin := 22, c_stdout := 21\<rparr>) (demo_sh b node node') = Some (0, s') \<and>
      two_files demo_data 2 1 s' [] (map byte_of ''hi!'')"
    using cat_copies [OF n _ t, of "no_command\<lparr>c_stdin := 22, c_stdout := 21\<rparr>" Some]
    by (simp add: no_command_def demo_data_def)
  then show ?thesis by blast
qed

lemma cat_ff_stops_witness:
  "\<exists>b node node'. two_files demo_data 2 1 (demo_sh b node node') [104, 0xFF, 33] [] \<and>
     cmd_cat (kernel_env Some) (no_command\<lparr>c_stdin := 22, c_stdout := 21\<rparr>) (demo_sh b node node') = None"
proof -
  obtain b node node' where t: "two_files demo_data 2 1 (demo_sh b node node') [104, 0xFF, 33] []"
    using demo_sh_two [of "[104, 0xFF, 33]"] by auto
  have n: "new_stream 22 2 (demo_sh b node node')" "new_stream 21 1 (demo_sh b node node')"
    by (simp_all add: new_stream_def demo_sh_sel demo_stream_def)
  have "cmd_cat (kernel_env Some) (no_command\<lparr>c_stdin := 22, c_stdout := 21\<rparr>) (demo_sh b node node') = None"
    using cat_ff_stops [OF n _ t, of "no_command\<lparr>c_stdin := 22, c_stdout := 21\<rparr>" Some]
    by (simp add: no_command_def demo_data_def)
  then show ?thesis using t by blast
qed

text \<open>The command line of the witness runs on the heap of \<open>demo_kfs\<close>.\<close>

definition demo_prompt :: shell_st where
  "demo_prompt = io_st.extend (kfs_st.extend demo_kfs (io_st.fields (\<lambda>_. None))) (shell_st.fields demo_data)"

lemma demo_prompt_room: "room demo_prompt 1048564"
proof -
  obtain ss where "pmm_ok demo_kfs ss" "\<exists>a j. (False, a, j) \<in> set ss \<and> 1048564 \<le> j"
    using demo_kfs_held by (auto simp: held_def)
  moreover have "pmm_ok demo_prompt ss = pmm_ok demo_kfs ss"
    by (simp add: demo_prompt_def pmm_ok_def heap_ok_def cli_ok_def hw_defs kfs_st.defs io_st.defs shell_st.defs)
  ultimately show ?thesis unfolding room_def held_def by blast
qed

theorem command_line_parsed_witness:
  "\<exists>cmd s'. command_parse ''cat a < in.txt > /tmp/out'' demo_prompt = Some (cmd, s') \<and>
     parsed ''/home/'' cmd (Some ''cat'') [''a''] (Some ''in.txt'') (Some ''/tmp/out'') None \<and>
     map_option snd (c_stdin_path cmd) = Some ''/home/in.txt''"
proof -
  have s: "shell demo_prompt = demo_data" by (simp add: demo_prompt_def io_st.defs shell_st.defs)
  have c: "parse_cost (sh_cwd (shell demo_prompt)) (length [''a'']) \<le> 1048564" "cwd_ok demo_prompt" "sh_cwd demo_data = ''/home/''"
    by (simp_all add: parse_cost_def redirect_cost_def demo_data_def cwd_ok_def s)
  have w: "word ''cat''" "\<forall>w\<in>set [''a'']. word w" "length [''a''] < N_ARGS"
    "\<forall>p. Some ''in.txt'' = Some p \<or> Some ''/tmp/out'' = Some p \<or> None = Some p \<longrightarrow> word p"
    by (auto simp: word_def symbols_def N_ARGS_def)
  have line: "unwords (''cat'' # [''a''] @ redirects (Some ''in.txt'') (Some ''/tmp/out'') None) = ''cat a < in.txt > /tmp/out''"
    by (simp add: redirects_def)
  have "expanded ''/home/'' ''in.txt'' = ''/home/in.txt''" by (simp add: expanded_def path_join_def)
  moreover obtain cmd s' where "command_parse ''cat a < in.txt > /tmp/out'' demo_prompt = Some (cmd, s')"
    "parsed ''/home/'' cmd (Some ''cat'') [''a''] (Some ''in.txt'') (Some ''/tmp/out'') None"
    using command_line_parsed [OF demo_prompt_room c(1,2) w] unfolding line s c(3) by blast
  ultimately show ?thesis by (auto simp: parsed_def)
qed

end
