(* ===== verification/SpinSys.thy ===== *)
theory SpinSys
  imports Spin
begin

text \<open>
  The spin lock of \<open>kmt.c\<close> used by all processors at once. Every access to the lock is one
  step of one processor, and the steps of the processors interleave in any order: the two reads of
  \<open>is_holding_spin\<close>, each round of the exchange, and the stores are separate steps. The
  interrupt nesting is that of \<open>pushcli\<close> and \<open>popcli\<close> on the processor's own
  entry.
\<close>

section \<open>The steps of a processor\<close>

text \<open>Where a processor is: outside, in \<open>spin_lock\<close>, in the critical section, in
  \<open>spin_unlock\<close>, or stopped by a failed check.\<close>

datatype spin_pc = Outside | Lock_push | Lock_read | Lock_cpu | Lock_pop bool | Spinning | Got | Critical
  | Un_push | Un_read | Un_cpu | Un_pop bool | Clear_cpu | Release | Pop | Stopped

record spin_sys =
  s_hw :: hw
  s_lk :: spinlock
  s_pc :: "nat \<Rightarrow> spin_pc"

definition goto :: "nat \<Rightarrow> spin_pc \<Rightarrow> spin_sys \<Rightarrow> spin_sys" where
  "goto c p s = s\<lparr>s_pc := (s_pc s)(c := p)\<rparr>"

text \<open>An operation of processor \<open>c\<close> on its interrupt state; a failed check stops it.\<close>

definition local_op :: "nat \<Rightarrow> (hw \<Rightarrow> hw option) \<Rightarrow> spin_pc \<Rightarrow> spin_sys \<Rightarrow> spin_sys" where
  "local_op c f p s = (case f ((s_hw s)\<lparr>cur_cpu := c\<rparr>) of
      None \<Rightarrow> goto c Stopped s | Some h \<Rightarrow> goto c p (s\<lparr>s_hw := h\<rparr>))"

definition spin_step :: "nat \<Rightarrow> spin_sys \<Rightarrow> spin_sys" where
  "spin_step c s = (case s_pc s c of
      Outside \<Rightarrow> local_op c pushcli Lock_push s
    | Lock_push \<Rightarrow> local_op c pushcli Lock_read s
    | Lock_read \<Rightarrow> goto c (if sl_locked (s_lk s) = 0 then Lock_pop False else Lock_cpu) s
    | Lock_cpu \<Rightarrow> goto c (Lock_pop (sl_cpu (s_lk s) = int c)) s
    | Lock_pop r \<Rightarrow> local_op c popcli (if r then Stopped else Spinning) s
    | Spinning \<Rightarrow> goto c (if sl_locked (s_lk s) \<noteq> 0 then Spinning else Got) (s\<lparr>s_lk := (s_lk s)\<lparr>sl_locked := 1\<rparr>\<rparr>)
    | Got \<Rightarrow> goto c Critical (s\<lparr>s_lk := (s_lk s)\<lparr>sl_cpu := int c\<rparr>\<rparr>)
    | Critical \<Rightarrow> goto c Un_push s
    | Un_push \<Rightarrow> local_op c pushcli Un_read s
    | Un_read \<Rightarrow> goto c (if sl_locked (s_lk s) = 0 then Un_pop False else Un_cpu) s
    | Un_cpu \<Rightarrow> goto c (Un_pop (sl_cpu (s_lk s) = int c)) s
    | Un_pop r \<Rightarrow> local_op c popcli (if r then Clear_cpu else Stopped) s
    | Clear_cpu \<Rightarrow> goto c Release (s\<lparr>s_lk := (s_lk s)\<lparr>sl_cpu := -1\<rparr>\<rparr>)
    | Release \<Rightarrow> goto c Pop (s\<lparr>s_lk := (s_lk s)\<lparr>sl_locked := 0\<rparr>\<rparr>)
    | Pop \<Rightarrow> local_op c popcli Outside s
    | Stopped \<Rightarrow> s)"

text \<open>The reachable states of \<open>n\<close> processors, whose interrupts are on or off at the
  start as \<open>on\<close> says.\<close>

definition spin_start :: "(nat \<Rightarrow> bool) \<Rightarrow> spin_sys" where
  "spin_start on = \<lparr>s_hw = \<lparr>cur_cpu = 0, n_cpu = 0, intr_on = on,
      cpu_cli = (\<lambda>_. \<lparr>cli_count = 0, cli_hasIF = 0\<rparr>)\<rparr>, s_lk = spin_init [], s_pc = (\<lambda>_. Outside)\<rparr>"

inductive reachable :: "(nat \<Rightarrow> bool) \<Rightarrow> nat \<Rightarrow> spin_sys \<Rightarrow> bool" for on n where
  start: "reachable on n (spin_start on)"
| step: "reachable on n s \<Longrightarrow> c < n \<Longrightarrow> reachable on n (spin_step c s)"

inductive_cases reachableE: "reachable on n s"

section \<open>The invariant\<close>

fun holds :: "spin_pc \<Rightarrow> bool" where
  "holds Got = True" | "holds Critical = True" | "holds Un_push = True" | "holds Un_read = True"
| "holds Un_cpu = True" | "holds (Un_pop r) = True" | "holds Clear_cpu = True" | "holds Release = True"
| "holds Outside = False" | "holds Lock_push = False" | "holds Lock_read = False" | "holds Lock_cpu = False"
| "holds (Lock_pop r) = False" | "holds Spinning = False" | "holds Pop = False" | "holds Stopped = False"

text \<open>How many \<open>pushcli\<close> are open.\<close>

fun depth :: "spin_pc \<Rightarrow> nat" where
  "depth Outside = 0" | "depth Lock_push = 1" | "depth Lock_read = 2" | "depth Lock_cpu = 2"
| "depth (Lock_pop r) = 2" | "depth Spinning = 1" | "depth Got = 1" | "depth Critical = 1"
| "depth Un_push = 1" | "depth Un_read = 2" | "depth Un_cpu = 2" | "depth (Un_pop r) = 2"
| "depth Clear_cpu = 1" | "depth Release = 1" | "depth Pop = 1" | "depth Stopped = 0"

fun running :: "spin_pc \<Rightarrow> bool" where
  "running Stopped = False" | "running (Lock_pop r) = (\<not> r)" | "running (Un_pop r) = r"
| "running Outside = True" | "running Lock_push = True" | "running Lock_read = True" | "running Lock_cpu = True"
| "running Spinning = True" | "running Got = True" | "running Critical = True" | "running Un_push = True"
| "running Un_read = True" | "running Un_cpu = True" | "running Clear_cpu = True" | "running Release = True"
| "running Pop = True"

definition cli_at :: "(nat \<Rightarrow> bool) \<Rightarrow> nat \<Rightarrow> hw \<Rightarrow> nat \<Rightarrow> bool" where
  "cli_at on k h c \<longleftrightarrow> cpu_cli h c = \<lparr>cli_count = int k, cli_hasIF = (if 0 < k \<and> on c then 1 else 0)\<rparr> \<and>
     intr_on h c = (k = 0 \<and> on c)"

text \<open>\<open>own\<close> is the processor that holds the lock.\<close>

definition spin_inv :: "(nat \<Rightarrow> bool) \<Rightarrow> nat option \<Rightarrow> spin_sys \<Rightarrow> bool" where
  "spin_inv on own s \<longleftrightarrow> (\<forall>c. holds (s_pc s c) \<longleftrightarrow> own = Some c) \<and>
     sl_locked (s_lk s) = (if own = None then 0 else 1) \<and>
     sl_cpu (s_lk s) = (case own of None \<Rightarrow> -1 | Some c \<Rightarrow> if s_pc s c \<in> {Got, Release} then -1 else int c) \<and>
     (\<forall>c. running (s_pc s c) \<and> cli_at on (depth (s_pc s c)) (s_hw s) c)"

lemma pushcli_at:
  "cli_at on k h c \<Longrightarrow> \<exists>h'. pushcli (h\<lparr>cur_cpu := c\<rparr>) = Some h' \<and> cli_at on (k + 1) h' c \<and>
     (\<forall>d j. d \<noteq> c \<longrightarrow> cli_at on j h' d = cli_at on j h d)"
  by (auto simp: cli_at_def pushcli_def hw_defs Let_def)

lemma popcli_at:
  "cli_at on (Suc k) h c \<Longrightarrow> \<exists>h'. popcli (h\<lparr>cur_cpu := c\<rparr>) = Some h' \<and> cli_at on k h' c \<and>
     (\<forall>d j. d \<noteq> c \<longrightarrow> cli_at on j h' d = cli_at on j h d)"
  by (cases k) (auto simp: cli_at_def popcli_def hw_defs Let_def)

lemma local_step:
  assumes inv: "spin_inv on own s" and f: "f ((s_hw s)\<lparr>cur_cpu := c\<rparr>) = Some h'"
    and at: "cli_at on (depth p) h' c" "\<forall>d j. d \<noteq> c \<longrightarrow> cli_at on j h' d = cli_at on j (s_hw s) d"
    and p: "running p" "holds p = holds (s_pc s c)" "p \<noteq> Got" "p \<noteq> Release" "s_pc s c \<noteq> Got" "s_pc s c \<noteq> Release"
  shows "spin_inv on own (local_op c f p s)"
proof -
  have "local_op c f p s = s\<lparr>s_hw := h', s_pc := (s_pc s)(c := p)\<rparr>"
    using f by (simp add: local_op_def goto_def)
  then show ?thesis using inv at p unfolding spin_inv_def by (auto split: option.split)
qed

lemma push_step:
  assumes inv: "spin_inv on own s" and p: "running p" "holds p = holds (s_pc s c)" "p \<noteq> Got" "p \<noteq> Release"
    "s_pc s c \<noteq> Got" "s_pc s c \<noteq> Release" "depth p = depth (s_pc s c) + 1"
  shows "spin_inv on own (local_op c pushcli p s)"
proof -
  have "cli_at on (depth (s_pc s c)) (s_hw s) c" using inv by (simp add: spin_inv_def)
  from pushcli_at [OF this] p(7) obtain h' where "pushcli ((s_hw s)\<lparr>cur_cpu := c\<rparr>) = Some h'"
    "cli_at on (depth p) h' c" "\<forall>d j. d \<noteq> c \<longrightarrow> cli_at on j h' d = cli_at on j (s_hw s) d"
    by auto
  then show ?thesis using local_step [OF inv] p by blast
qed

lemma pop_step:
  assumes inv: "spin_inv on own s" and p: "running p" "holds p = holds (s_pc s c)" "p \<noteq> Got" "p \<noteq> Release"
    "s_pc s c \<noteq> Got" "s_pc s c \<noteq> Release" "depth (s_pc s c) = Suc (depth p)"
  shows "spin_inv on own (local_op c popcli p s)"
proof -
  have "cli_at on (depth (s_pc s c)) (s_hw s) c" using inv by (simp add: spin_inv_def)
  then have "cli_at on (Suc (depth p)) (s_hw s) c" using p(7) by simp
  from popcli_at [OF this] obtain h' where "popcli ((s_hw s)\<lparr>cur_cpu := c\<rparr>) = Some h'"
    "cli_at on (depth p) h' c" "\<forall>d j. d \<noteq> c \<longrightarrow> cli_at on j h' d = cli_at on j (s_hw s) d" by blast
  then show ?thesis using local_step [OF inv] p by blast
qed

text \<open>The owner after a step of \<open>c\<close>.\<close>

definition owner_after :: "nat \<Rightarrow> nat option \<Rightarrow> spin_sys \<Rightarrow> nat option" where
  "owner_after c own s = (if s_pc s c = Spinning \<and> own = None then Some c
     else if s_pc s c = Release then None else own)"

lemma spin_step_inv:
  assumes inv: "spin_inv on own s"
  shows "spin_inv on (owner_after c own s) (spin_step c s)"
proof -
  have h: "holds (s_pc s d) \<longleftrightarrow> own = Some d" and r: "running (s_pc s d)"
    and k: "cli_at on (depth (s_pc s d)) (s_hw s) d" for d
    using inv by (simp_all add: spin_inv_def)
  have l: "sl_locked (s_lk s) = (if own = None then 0 else 1)"
    "sl_cpu (s_lk s) = (case own of None \<Rightarrow> -1 | Some c \<Rightarrow> if s_pc s c \<in> {Got, Release} then -1 else int c)"
    using inv by (simp_all add: spin_inv_def)
  show ?thesis
  proof (cases "s_pc s c")
    case Outside
    then show ?thesis using push_step [OF inv, of Lock_push c] by (simp add: spin_step_def owner_after_def)
  next
    case Lock_push
    then show ?thesis using push_step [OF inv, of Lock_read c] by (simp add: spin_step_def owner_after_def)
  next
    case (Lock_pop b)
    then have "b = False" using r [of c] by simp
    then show ?thesis using pop_step [OF inv, of Spinning c] Lock_pop by (simp add: spin_step_def owner_after_def)
  next
    case Un_push
    then show ?thesis using push_step [OF inv, of Un_read c] by (simp add: spin_step_def owner_after_def)
  next
    case (Un_pop b)
    then have "b = True" using r [of c] by simp
    then show ?thesis using pop_step [OF inv, of Clear_cpu c] Un_pop by (simp add: spin_step_def owner_after_def)
  next
    case Pop
    then show ?thesis using pop_step [OF inv, of Outside c] by (simp add: spin_step_def owner_after_def)
  next
    case Stopped
    then show ?thesis using r [of c] by simp
  next
    case Lock_read
    then have "own \<noteq> Some c" using h [of c] by simp
    then show ?thesis using inv Lock_read k [of c]
      unfolding spin_inv_def by (auto simp: spin_step_def owner_after_def goto_def split: option.split)
  next
    case Lock_cpu
    then have "own \<noteq> Some c" using h [of c] by simp
    then have "sl_cpu (s_lk s) \<noteq> int c" using l(2) by (auto split: option.splits)
    then show ?thesis using inv Lock_cpu k [of c] \<open>own \<noteq> Some c\<close>
      unfolding spin_inv_def by (auto simp: spin_step_def owner_after_def goto_def split: option.split)
  next
    case Spinning
    then have "own \<noteq> Some c" using h [of c] by simp
    then show ?thesis using inv Spinning k [of c] l
      unfolding spin_inv_def by (auto simp: spin_step_def owner_after_def goto_def split: option.split)
  next
    case Got
    then have "own = Some c" using h [of c] by simp
    then show ?thesis using inv Got k [of c]
      unfolding spin_inv_def by (auto simp: spin_step_def owner_after_def goto_def split: option.split)
  next
    case Critical
    then have "own = Some c" using h [of c] by simp
    then show ?thesis using inv Critical k [of c]
      unfolding spin_inv_def by (auto simp: spin_step_def owner_after_def goto_def split: option.split)
  next
    case Un_read
    then have "own = Some c" using h [of c] by simp
    then show ?thesis using inv Un_read k [of c]
      unfolding spin_inv_def by (auto simp: spin_step_def owner_after_def goto_def split: option.split)
  next
    case Un_cpu
    then have "own = Some c" using h [of c] by simp
    then show ?thesis using inv Un_cpu k [of c]
      unfolding spin_inv_def by (auto simp: spin_step_def owner_after_def goto_def split: option.split)
  next
    case Clear_cpu
    then have "own = Some c" using h [of c] by simp
    then show ?thesis using inv Clear_cpu k [of c]
      unfolding spin_inv_def by (auto simp: spin_step_def owner_after_def goto_def split: option.split)
  next
    case Release
    then have "own = Some c" using h [of c] by simp
    then show ?thesis using inv Release k [of c]
      unfolding spin_inv_def by (auto simp: spin_step_def owner_after_def goto_def split: option.split)
  qed
qed

lemma spin_start_inv: "spin_inv on None (spin_start on)"
  by (simp add: spin_inv_def spin_start_def spin_init_def cli_at_def)

lemma reachable_inv: "reachable on n s \<Longrightarrow> (\<exists>own. spin_inv on own s) \<and> (\<forall>c\<ge>n. s_pc s c = Outside)"
proof (induction rule: reachable.induct)
  case start
  then show ?case using spin_start_inv by (auto simp: spin_start_def)
next
  case (step s c)
  have "s_pc (spin_step c s) d = s_pc s d" if "d \<noteq> c" for d
    using that by (auto simp: spin_step_def local_op_def goto_def split: spin_pc.split option.split)
  then show ?case using step spin_step_inv by (metis leD)
qed

section \<open>Mutual exclusion\<close>

text \<open>How far a processor is from being outside.\<close>

fun todo :: "spin_pc \<Rightarrow> nat" where
  "todo Outside = 0" | "todo Pop = 1" | "todo Release = 2" | "todo Clear_cpu = 3" | "todo (Un_pop r) = 4"
| "todo Un_cpu = 5" | "todo Un_read = 6" | "todo Un_push = 7" | "todo Critical = 8" | "todo Got = 9"
| "todo Spinning = 10" | "todo (Lock_pop r) = 11" | "todo Lock_cpu = 12" | "todo Lock_read = 13"
| "todo Lock_push = 14" | "todo Stopped = 0"

lemma step_other: "d \<noteq> c \<Longrightarrow> s_pc (spin_step c s) d = s_pc s d"
  by (auto simp: spin_step_def local_op_def goto_def split: spin_pc.split option.split)

lemma step_todo:
  assumes inv: "spin_inv on own s" and own: "own = None \<or> own = Some c" and p: "s_pc s c \<noteq> Outside"
  shows "todo (s_pc (spin_step c s) c) < todo (s_pc s c)"
proof -
  have h: "holds (s_pc s c) \<longleftrightarrow> own = Some c" "sl_locked (s_lk s) = (if own = None then 0 else 1)"
    "running (s_pc s c)" using inv by (simp_all add: spin_inv_def)
  have "running (s_pc (spin_step c s) c)" using spin_step_inv [OF inv, of c] by (simp add: spin_inv_def)
  then show ?thesis
    using h own p by (cases "s_pc s c") (auto simp: spin_step_def local_op_def goto_def split: option.splits if_splits)
qed

lemma finish:
  "spin_inv on own s \<Longrightarrow> own = None \<or> own = Some c \<Longrightarrow>
   \<exists>k. spin_inv on None (fold spin_step (replicate k c) s) \<and> s_pc (fold spin_step (replicate k c) s) c = Outside \<and>
     (\<forall>d. d \<noteq> c \<longrightarrow> s_pc (fold spin_step (replicate k c) s) d = s_pc s d)"
proof (induction "todo (s_pc s c)" arbitrary: s own rule: less_induct)
  case less
  show ?case
  proof (cases "s_pc s c = Outside")
    case True
    then have "\<not> holds (s_pc s c)" by simp
    then have "own = None" using less.prems by (auto simp: spin_inv_def)
    then show ?thesis using less.prems(1) True by (intro exI [of _ 0]) simp
  next
    case False
    have "owner_after c own s = None \<or> owner_after c own s = Some c"
      using less.prems(2) by (auto simp: owner_after_def)
    from less.hyps [OF step_todo [OF less.prems False] spin_step_inv [OF less.prems(1)] this]
    obtain k where "spin_inv on None (fold spin_step (replicate k c) (spin_step c s))"
      "s_pc (fold spin_step (replicate k c) (spin_step c s)) c = Outside"
      "\<forall>d. d \<noteq> c \<longrightarrow> s_pc (fold spin_step (replicate k c) (spin_step c s)) d = s_pc s d"
      using step_other by metis
    then show ?thesis by (intro exI [of _ "Suc k"]) simp
  qed
qed

lemma finish_all:
  "spin_inv on None s \<Longrightarrow> \<exists>cs. set cs \<subseteq> {..<n} \<and> spin_inv on None (fold spin_step cs s) \<and>
     (\<forall>c<n. s_pc (fold spin_step cs s) c = Outside) \<and> (\<forall>c\<ge>n. s_pc (fold spin_step cs s) c = s_pc s c)"
proof (induction n)
  case 0
  then show ?case by (intro exI [of _ "[]"]) simp
next
  case (Suc n)
  then obtain cs where cs: "set cs \<subseteq> {..<n}" "spin_inv on None (fold spin_step cs s)"
    "\<forall>c<n. s_pc (fold spin_step cs s) c = Outside" "\<forall>c\<ge>n. s_pc (fold spin_step cs s) c = s_pc s c" by blast
  obtain k where k: "spin_inv on None (fold spin_step (replicate k n) (fold spin_step cs s))"
    "s_pc (fold spin_step (replicate k n) (fold spin_step cs s)) n = Outside"
    "\<forall>d. d \<noteq> n \<longrightarrow> s_pc (fold spin_step (replicate k n) (fold spin_step cs s)) d = s_pc (fold spin_step cs s) d"
    using finish [OF cs(2), of n] by blast
  have "\<forall>c<Suc n. s_pc (fold spin_step (cs @ replicate k n) s) c = Outside"
    using k cs(3) by (auto simp: less_Suc_eq)
  moreover have "\<forall>c\<ge>Suc n. s_pc (fold spin_step (cs @ replicate k n) s) c = s_pc s c"
    using k(3) cs(4) by auto
  moreover have "set (cs @ replicate k n) \<subseteq> {..<Suc n}" using cs(1) by auto
  ultimately show ?case using k(1) by (intro exI [of _ "cs @ replicate k n"]) simp
qed

lemma all_leave:
  assumes "reachable on n s"
  shows "\<exists>cs. set cs \<subseteq> {..<n} \<and> (\<forall>c. s_pc (fold spin_step cs s) c = Outside)"
proof -
  obtain own where inv: "spin_inv on own s" and out: "\<forall>c\<ge>n. s_pc s c = Outside"
    using reachable_inv [OF assms] by blast
  have h: "holds (s_pc s d) \<longleftrightarrow> own = Some d" for d using inv by (simp add: spin_inv_def)
  have "\<exists>k c. (c < n \<or> k = 0) \<and> spin_inv on None (fold spin_step (replicate k c) s) \<and>
      (\<forall>d. d \<noteq> c \<longrightarrow> s_pc (fold spin_step (replicate k c) s) d = s_pc s d)"
  proof (cases own)
    case None
    then show ?thesis using inv by (intro exI [of _ 0]) simp
  next
    case (Some c)
    then have "holds (s_pc s c)" using h by simp
    then have "c < n" using out by (metis holds.simps(9) not_less)
    then show ?thesis using finish [OF inv, of c] Some by blast
  qed
  then obtain k c where kc: "c < n \<or> k = 0" "spin_inv on None (fold spin_step (replicate k c) s)"
    "\<forall>d. d \<noteq> c \<longrightarrow> s_pc (fold spin_step (replicate k c) s) d = s_pc s d" by blast
  obtain cs where cs: "set cs \<subseteq> {..<n}"
    "\<forall>d<n. s_pc (fold spin_step cs (fold spin_step (replicate k c) s)) d = Outside"
    "\<forall>d\<ge>n. s_pc (fold spin_step cs (fold spin_step (replicate k c) s)) d = s_pc (fold spin_step (replicate k c) s) d"
    using finish_all [OF kc(2), of n] by blast
  have "s_pc (fold spin_step (replicate k c @ cs) s) d = Outside" for d
  proof (cases "d < n")
    case True then show ?thesis using cs(2) by simp
  next
    case False
    then have "s_pc (fold spin_step (replicate k c) s) d = Outside"
      using kc(1,3) out by (cases "k = 0") auto
    then show ?thesis using cs(3) False by simp
  qed
  moreover have "set (replicate k c @ cs) \<subseteq> {..<n}" using cs(1) kc(1) by (auto simp: set_replicate_conv_if)
  ultimately show ?thesis by blast
qed

text \<open>C3: The spin lock excludes: in every state that any interleaving of any number of processors
  can reach, at most one of them is between its successful exchange and its releasing store, no check of
  the lock or of the interrupt nesting ever fails, a processor in the critical section has its
  interrupts off and is the recorded holder, one that is outside has its interrupts as it had them at the
  start, and the lock is free when all are outside. And no state is a dead end: some further
  schedule of these processors brings all of them outside.\<close>
theorem spin_mutual_exclusion:
  assumes "reachable on n s"
  shows "(\<forall>c d. holds (s_pc s c) \<and> holds (s_pc s d) \<longrightarrow> c = d) \<and> (\<forall>c. s_pc s c \<noteq> Stopped) \<and>
     (\<forall>c. s_pc s c = Critical \<longrightarrow> \<not> intr_on (s_hw s) c \<and> sl_locked (s_lk s) = 1 \<and> sl_cpu (s_lk s) = int c) \<and>
     (\<forall>c. s_pc s c = Outside \<longrightarrow> intr_on (s_hw s) c = on c \<and> cli_count (cpu_cli (s_hw s) c) = 0) \<and>
     ((\<forall>c. s_pc s c = Outside) \<longrightarrow> lock_free (s_lk s)) \<and>
     (\<exists>cs. set cs \<subseteq> {..<n} \<and> (\<forall>c. s_pc (fold spin_step cs s) c = Outside))"
proof (intro conjI)
  obtain own where inv: "spin_inv on own s" and out: "\<forall>c\<ge>n. s_pc s c = Outside"
    using reachable_inv [OF assms] by blast
  have h: "holds (s_pc s d) \<longleftrightarrow> own = Some d" and r: "running (s_pc s d)"
    and k: "cli_at on (depth (s_pc s d)) (s_hw s) d" for d
    using inv by (simp_all add: spin_inv_def)
  have l: "sl_locked (s_lk s) = (if own = None then 0 else 1)"
    "sl_cpu (s_lk s) = (case own of None \<Rightarrow> -1 | Some c \<Rightarrow> if s_pc s c \<in> {Got, Release} then -1 else int c)"
    using inv by (simp_all add: spin_inv_def)
  show "\<forall>c d. holds (s_pc s c) \<and> holds (s_pc s d) \<longrightarrow> c = d" using h by auto
  show "\<forall>c. s_pc s c \<noteq> Stopped" using r by (metis running.simps(1))
  show "\<forall>c. s_pc s c = Critical \<longrightarrow> \<not> intr_on (s_hw s) c \<and> sl_locked (s_lk s) = 1 \<and> sl_cpu (s_lk s) = int c"
  proof (intro allI impI)
    fix c assume c: "s_pc s c = Critical"
    then have "own = Some c" using h [of c] by simp
    then show "\<not> intr_on (s_hw s) c \<and> sl_locked (s_lk s) = 1 \<and> sl_cpu (s_lk s) = int c"
      using l c k [of c] by (simp add: cli_at_def)
  qed
  show "\<forall>c. s_pc s c = Outside \<longrightarrow> intr_on (s_hw s) c = on c \<and> cli_count (cpu_cli (s_hw s) c) = 0"
  proof (intro allI impI)
    fix c assume c: "s_pc s c = Outside"
    show "intr_on (s_hw s) c = on c \<and> cli_count (cpu_cli (s_hw s) c) = 0"
      using k [of c] unfolding c by (simp add: cli_at_def)
  qed
  show "(\<forall>c. s_pc s c = Outside) \<longrightarrow> lock_free (s_lk s)"
  proof
    assume a: "\<forall>c. s_pc s c = Outside"
    then have "own = None" using h by (cases own) auto
    then show "lock_free (s_lk s)" using l by (simp add: lock_free_def)
  qed
  show "\<exists>cs. set cs \<subseteq> {..<n} \<and> (\<forall>c. s_pc (fold spin_step cs s) c = Outside)" using assms by (rule all_leave)
qed

text \<open>Two processors that enter at the same time: the second one spins.\<close>

definition demo_spin :: spin_sys where
  "demo_spin = fold spin_step [0, 1, 0, 1, 0, 0, 1, 1, 1, 0, 1, 0] (spin_start (\<lambda>_. True))"

lemma demo_spin_reachable: "reachable (\<lambda>_. True) 2 demo_spin"
  unfolding demo_spin_def by (simp add: reachable.intros)

theorem spin_mutual_exclusion_witness:
  "s_pc demo_spin 0 = Spinning \<and> s_pc demo_spin 1 = Critical \<and> sl_cpu (s_lk demo_spin) = 1 \<and> \<not> intr_on (s_hw demo_spin) 1"
proof -
  have p: "s_pc demo_spin 0 = Spinning" "s_pc demo_spin 1 = Critical"
    by (simp_all add: demo_spin_def spin_start_def spin_step_def local_op_def goto_def pushcli_def popcli_def
        hw_defs spin_init_def Let_def)
  have "\<forall>c. s_pc demo_spin c = Critical \<longrightarrow>
      \<not> intr_on (s_hw demo_spin) c \<and> sl_locked (s_lk demo_spin) = 1 \<and> sl_cpu (s_lk demo_spin) = int c"
    using spin_mutual_exclusion [OF demo_spin_reachable] by blast
  then have "\<not> intr_on (s_hw demo_spin) 1 \<and> sl_cpu (s_lk demo_spin) = int 1" using p(2) by blast
  then show ?thesis using p by simp
qed

end
