(* ===== verification/Kvdb.thy ===== *)
theory Kvdb
  imports Kstdio
begin

text \<open>
  The key-value store \<open>libkvdb/kvdb.c\<close>: an append-only file of records, searched from the start
  for the last complete record of a key. A file is its characters; the file system maps names to files,
  and \<open>ok\<close> says which names \<open>fopen\<close> can open. \<open>flock\<close>, \<open>sync\<close> and
  \<open>malloc\<close> succeed. A mutex that is already held blocks: with nobody else running the call does not
  return, which is \<open>None\<close>, as is a store outside of the value's buffer.
\<close>

section \<open>The C library\<close>

text \<open>\<open>fgets(s, n, file)\<close>: the characters read, what is left of the file, and whether the end of the
  file was hit; no characters at all give \<open>NULL\<close>.\<close>

fun read_line :: "nat \<Rightarrow> string \<Rightarrow> string \<times> string \<times> bool" where
  "read_line 0 s = ([], s, False)"
| "read_line (Suc n) [] = ([], [], True)"
| "read_line (Suc n) (c # s) =
     (if c = CHR 0x0A then ([c], s, False)
      else let (l, rest, eof) = read_line n s in (c # l, rest, eof))"

definition fgets :: "nat \<Rightarrow> string \<Rightarrow> string option \<times> string \<times> bool" where
  "fgets n s = (let (l, rest, eof) = read_line (n - 1) s in (if l = [] then None else Some l, rest, eof))"

definition cstring :: "string \<Rightarrow> string" where
  "cstring s = takeWhile (\<lambda>c. c \<noteq> CHR 0x00) s"

definition isspace :: "char \<Rightarrow> bool" where
  "isspace c \<longleftrightarrow> c \<in> {CHR 0x20, CHR 0x09, CHR 0x0A, CHR 0x0B, CHR 0x0C, CHR 0x0D}"

definition decimal :: "string \<Rightarrow> nat" where
  "decimal s = foldl (\<lambda>v c. v * 10 + (of_char c - 48)) 0 s"

text \<open>\<open>sscanf(buf, "%d:%[^\n]\n", &vlen, key)\<close> when it converts both. A number outside of
  \<open>int\<close> is undefined and taken as it is.\<close>

definition scan_header :: "string \<Rightarrow> (int \<times> string) option" where
  "scan_header buf = (let
      s = dropWhile isspace buf;
      neg = (s \<noteq> [] \<and> hd s = CHR ''-'');
      s = (if s \<noteq> [] \<and> (hd s = CHR ''-'' \<or> hd s = CHR ''+'') then tl s else s);
      ds = takeWhile isdigit s;
      s = dropWhile isdigit s
    in if ds = [] \<or> s = [] \<or> hd s \<noteq> CHR '':'' then None
       else let key = takeWhile (\<lambda>c. c \<noteq> CHR 0x0A) (tl s)
         in if key = [] then None else Some ((if neg then - int (decimal ds) else int (decimal ds)), key))"

section \<open>The store\<close>

record kvdb =
  db_state :: int
  db_locked :: bool
  db_filename :: string

definition Opened :: int where "Opened = 1"
definition Closed :: int where "Closed = 0"

type_synonym files = "string \<Rightarrow> string option"

lemma read_line_length: "read_line n s = (l, rest, eof) \<Longrightarrow> length l + length rest = length s"
  by (induction n s arbitrary: l rest eof rule: read_line.induct) (auto split: if_splits prod.splits)

lemma fgets_shorter: "fgets n s = (Some l, rest, eof) \<Longrightarrow> length rest < length s"
  using read_line_length [of "n - 1" s]
  by (auto simp: fgets_def neq_Nil_conv split: prod.splits if_splits)

lemma fgets_le: "fgets n s = (l, rest, eof) \<Longrightarrow> length rest \<le> length s"
  using read_line_length [of "n - 1" s]
  by (auto simp: fgets_def split: prod.splits if_splits)

text \<open>The value and end lines behind a header of the wanted key: what is found, and what is left.\<close>

definition read_record :: "int \<Rightarrow> string \<Rightarrow> (string option \<times> string \<times> bool) option" where
  "read_record vlen s = do {
     Assert (0 < vlen + 5);
     let (v, s, eof) = fgets (nat (vlen + 5)) s;
     (case v of
        None \<Rightarrow> Some (None, s, eof)
      | Some l \<Rightarrow> do {
          Assert (0 \<le> vlen);
          let value = take (nat vlen) (cstring l);
          let (e, s, eof) = fgets 10 s;
          (case e of
             None \<Rightarrow> Some (None, s, eof)
           | Some l \<Rightarrow> Some (if take 3 (cstring l) = ''END'' then Some value else None, s, eof)) }) }"

lemma read_record_le: "read_record vlen s = Some (v, rest, eof) \<Longrightarrow> length rest \<le> length s"
  by (auto simp: read_record_def split: prod.splits option.splits if_splits dest!: fgets_le)

function find_loop :: "string \<Rightarrow> string \<Rightarrow> bool \<Rightarrow> string option \<Rightarrow> string option option" where
  "find_loop target_key s eof res =
     (if eof then Some res
      else case fgets 500 s of
        (None, s', eof') \<Rightarrow> Some res
      | (Some buf, s', eof') \<Rightarrow>
          (case scan_header (cstring buf) of
             None \<Rightarrow> find_loop target_key s' eof' res
           | Some (vlen, key) \<Rightarrow>
               (if key \<noteq> target_key then find_loop target_key s' eof' res
                else case read_record vlen s' of
                  None \<Rightarrow> None
                | Some (v, s'', eof'') \<Rightarrow>
                    find_loop target_key s'' eof'' (case v of None \<Rightarrow> res | Some x \<Rightarrow> Some x))))"
  by pat_completeness auto
termination
  by (relation "measure (\<lambda>(k, s, eof, res). length s)")
    (auto dest!: fgets_shorter [OF sym] read_record_le dest: le_less_trans)

definition find_db :: "(string \<Rightarrow> bool) \<Rightarrow> kvdb \<Rightarrow> string \<Rightarrow> files \<Rightarrow> string option option" where
  "find_db ok db target_key w =
     (case w (db_filename db) of
        None \<Rightarrow> Some None
      | Some txt \<Rightarrow> if ok (db_filename db) then find_loop target_key txt False None else Some None)"

definition kvdb_open :: "(string \<Rightarrow> bool) \<Rightarrow> string \<Rightarrow> kvdb \<times> files \<Rightarrow> int \<times> kvdb \<times> files" where
  "kvdb_open ok filename = (\<lambda>(db, w).
     if db_state db = Opened then (-1, db, w)
     else let db = db\<lparr>db_locked := True\<rparr> in
       if 1024 \<le> length filename then (-1, db, w)
       else let db = db\<lparr>db_filename := filename\<rparr> in
         if \<not> ok filename then (-1, db, w)
         else let w = (if w filename = None then w(filename \<mapsto> []) else w)
           in (0, db\<lparr>db_state := Opened, db_locked := False\<rparr>, w))"

definition kvdb_close :: "kvdb \<times> files \<Rightarrow> (int \<times> kvdb \<times> files) option" where
  "kvdb_close = (\<lambda>(db, w).
     if db_state db \<noteq> Opened then Some (0, db, w)
     else if db_locked db then None
     else Some (0, db\<lparr>db_filename := [], db_state := Closed\<rparr>, w))"

text \<open>The record that \<open>kvdb_put\<close> appends.\<close>

definition rec_text :: "string \<Rightarrow> string \<Rightarrow> string" where
  "rec_text key value =
     [CHR 0x0A] @ digits 10 (length value) @ '':'' @ key @ [CHR 0x0A] @ value @ [CHR 0x0A] @ ''END'' @ [CHR 0x0A]"

text \<open>\<open>None\<close> for \<open>NULL\<close> among the arguments.\<close>

definition kvdb_put ::
  "(string \<Rightarrow> bool) \<Rightarrow> string option \<Rightarrow> string option \<Rightarrow> kvdb \<times> files \<Rightarrow> (int \<times> kvdb \<times> files) option" where
  "kvdb_put ok key value = (\<lambda>(db, w).
     case (key, value) of
       (Some key, Some value) \<Rightarrow>
         (if length key = 0 \<or> 128 < length key \<or> 16 * 1024 * 1024 < length value then Some (-1, db, w)
          else if db_locked db then None
          else let db = db\<lparr>db_locked := True\<rparr> in
            if \<not> ok (db_filename db) then Some (-1, db, w)
            else let old = (case w (db_filename db) of None \<Rightarrow> [] | Some c \<Rightarrow> c);
                w = w(db_filename db \<mapsto> old @ rec_text key value)
              in Some (0, db\<lparr>db_locked := False\<rparr>, w))
     | _ \<Rightarrow> Some (-1, db, w))"

definition kvdb_get :: "(string \<Rightarrow> bool) \<Rightarrow> string option \<Rightarrow> kvdb \<times> files \<Rightarrow> (string option \<times> kvdb \<times> files) option" where
  "kvdb_get ok key = (\<lambda>(db, w).
     case key of
       None \<Rightarrow> Some (None, db, w)
     | Some key \<Rightarrow>
         (if length key = 0 \<or> 128 < length key then Some (None, db, w)
          else if db_locked db then None
          else do { value \<leftarrow> find_db ok db key w; Some (value, db, w) }))"

declare find_loop.simps [simp del]

section \<open>Reading lines\<close>

lemma read_line_nl:
  "CHR 0x0A \<notin> set l \<Longrightarrow> length l < n \<Longrightarrow> read_line n (l @ CHR 0x0A # rest) = (l @ [CHR 0x0A], rest, False)"
proof (induction l arbitrary: n)
  case Nil
  then show ?case by (cases n) auto
next
  case (Cons c l)
  then show ?case by (cases n) auto
qed

lemma read_line_end: "CHR 0x0A \<notin> set l \<Longrightarrow> length l < n \<Longrightarrow> read_line n l = (l, [], True)"
proof (induction l arbitrary: n)
  case Nil
  then show ?case by (cases n) auto
next
  case (Cons c l)
  then show ?case by (cases n) auto
qed

lemma read_line_split: "read_line n s = (l, rest, eof) \<Longrightarrow> s = l @ rest"
  by (induction n s arbitrary: l rest eof rule: read_line.induct) (auto split: if_splits prod.splits)

lemma read_line_inside:
  "s \<noteq> [] \<Longrightarrow> last s = CHR 0x0A \<Longrightarrow>
   \<exists>l s2. read_line (Suc n) (s @ rest) = (l, s2 @ rest, False) \<and> l \<noteq> [] \<and> s = l @ s2"
proof (induction n arbitrary: s)
  case 0
  then obtain c s2 where "s = c # s2" by (cases s) auto
  then show ?case by (intro exI [of _ "[c]"] exI [of _ s2]) auto
next
  case (Suc n)
  then obtain c s2 where s: "s = c # s2" by (cases s) auto
  show ?case
  proof (cases "c = CHR 0x0A")
    case True
    then show ?thesis using s by (intro exI [of _ "[c]"] exI [of _ s2]) auto
  next
    case False
    then have "s2 \<noteq> []" "last s2 = CHR 0x0A" using Suc.prems s by (auto split: if_splits)
    from Suc.IH [OF this] obtain l t where "read_line (Suc n) (s2 @ rest) = (l, t @ rest, False)" "s2 = l @ t" by blast
    then show ?thesis using s False by (intro exI [of _ "c # l"] exI [of _ t]) auto
  qed
qed

lemma fgets_nl:
  "CHR 0x0A \<notin> set l \<Longrightarrow> length l + 1 < n \<Longrightarrow> fgets n (l @ CHR 0x0A # rest) = (Some (l @ [CHR 0x0A]), rest, False)"
  by (simp add: fgets_def read_line_nl)

lemma fgets_end:
  "CHR 0x0A \<notin> set l \<Longrightarrow> length l + 1 < n \<Longrightarrow> fgets n l = (if l = [] then None else Some l, [], True)"
  by (simp add: fgets_def read_line_end)

section \<open>Headers\<close>

lemma set_dropWhile_subset: "set (dropWhile P xs) \<subseteq> set xs"
  by (auto dest: set_dropWhileD)

lemma hd_not_in: "set xs \<subseteq> A \<Longrightarrow> c \<notin> A \<Longrightarrow> xs = [] \<or> hd xs \<noteq> c"
  by (cases xs) auto

lemma set_tl_subset: "set (tl xs) \<subseteq> set xs"
  by (cases xs) auto

lemma scan_colonless:
  assumes "CHR '':'' \<notin> set buf"
  shows "scan_header (cstring buf) = None"
proof -
  have c: "set (cstring buf) \<subseteq> set buf" by (auto simp: cstring_def dest: set_takeWhileD)
  let ?s = "dropWhile isspace (cstring buf)"
  let ?t = "if ?s \<noteq> [] \<and> (hd ?s = CHR ''-'' \<or> hd ?s = CHR ''+'') then tl ?s else ?s"
  have "set ?s \<subseteq> set buf" using c by (auto dest: set_dropWhileD)
  moreover have "set ?t \<subseteq> set ?s" using set_tl_subset [of ?s] by (simp split: if_split)
  ultimately have "set ?t \<subseteq> set buf" by (rule subset_trans [rotated])
  then have "set (dropWhile isdigit ?t) \<subseteq> set buf" by (rule subset_trans [OF set_dropWhile_subset])
  then have "dropWhile isdigit ?t = [] \<or> hd (dropWhile isdigit ?t) \<noteq> CHR '':''"
    using assms by (rule hd_not_in)
  then show ?thesis unfolding scan_header_def Let_def by (rule if_P [OF disjI2])
qed

lemma isdigit_presentation: "d < 10 \<Longrightarrow> isdigit (presentation ! d)"
  using presentation_digit [of d] by (simp add: isdigit_def)

lemma digits_isdigit: "\<forall>c\<in>set (digits 10 v). isdigit c"
proof (induction v rule: less_induct)
  case (less v)
  have "v div 10 < v" if "\<not> v < 10" using that by (intro div_less_dividend) auto
  then show ?case using isdigit_presentation [of "v mod 10"] less [of "v div 10"] by (subst digits.simps) auto
qed

lemma decimal_digits: "decimal (digits 10 v) = v"
proof (induction v rule: less_induct)
  case (less v)
  show ?case
  proof (cases "v < 10")
    case True
    then show ?thesis using presentation_digit(1) [of v] by (subst digits.simps) (simp add: decimal_def)
  next
    case False
    then have "digits 10 v = digits 10 (v div 10) @ [presentation ! (v mod 10)]" by (subst digits.simps) simp
    then show ?thesis using less [of "v div 10"] False presentation_digit(1) [of "v mod 10"] by (simp add: decimal_def)
  qed
qed

lemma isdigit_not: "isdigit c \<Longrightarrow> \<not> isspace c \<and> c \<noteq> CHR ''-'' \<and> c \<noteq> CHR ''+'' \<and> c \<noteq> CHR '':'' \<and> c \<noteq> CHR 0x0A \<and> c \<noteq> CHR 0x00"
  by (auto simp: isdigit_def isspace_def)

lemma scan_digits:
  assumes "ds \<noteq> []" "\<forall>c\<in>set ds. isdigit c"
  shows "scan_header (ds @ CHR '':'' # s) =
     (let key = takeWhile (\<lambda>c. c \<noteq> CHR 0x0A) s in if key = [] then None else Some (int (decimal ds), key))"
proof -
  obtain c cs where ds: "ds = c # cs" using assms(1) by (cases ds) auto
  have c: "\<not> isspace c" "c \<noteq> CHR ''-''" "c \<noteq> CHR ''+''" using assms(2) ds isdigit_not by auto
  have nc: "\<not> isdigit (CHR '':'')" by (simp add: isdigit_def)
  have "takeWhile isdigit (ds @ CHR '':'' # s) = ds" "dropWhile isdigit (ds @ CHR '':'' # s) = CHR '':'' # s"
    using assms(2) nc by (simp_all add: takeWhile_append2 dropWhile_append2)
  then show ?thesis using c ds unfolding scan_header_def Let_def by simp
qed

lemma cstring_id: "CHR 0x00 \<notin> set s \<Longrightarrow> cstring s = s"
  by (induction s) (auto simp: cstring_def)

text \<open>Keys and values that the file format can hold.\<close>

definition good_key :: "string \<Rightarrow> bool" where
  "good_key k \<longleftrightarrow> k \<noteq> [] \<and> length k \<le> 128 \<and> CHR 0x0A \<notin> set k \<and> CHR 0x00 \<notin> set k"

definition good_value :: "string \<Rightarrow> bool" where
  "good_value v \<longleftrightarrow> length v \<le> 16 * 1024 * 1024 \<and> CHR 0x0A \<notin> set v \<and> CHR 0x00 \<notin> set v \<and> CHR '':'' \<notin> set v"

definition header :: "nat \<Rightarrow> string \<Rightarrow> string" where
  "header n k = digits 10 n @ CHR '':'' # k"

lemma header_chars: "CHR 0x0A \<notin> set k \<Longrightarrow> CHR 0x0A \<notin> set (header n k)" "CHR 0x00 \<notin> set k \<Longrightarrow> CHR 0x00 \<notin> set (header n k)"
  using digits_isdigit [of n] isdigit_not by (auto simp: header_def)

lemma header_length: "good_value v \<Longrightarrow> length k \<le> 128 \<Longrightarrow> length (header (length v) k) + 1 < 500"
  using digits_length [of "length v" 8] by (simp add: header_def good_value_def)

lemma scan_header_key:
  assumes "CHR 0x00 \<notin> set k" "CHR 0x0A \<notin> set k"
  shows "scan_header (cstring (header n k)) = (if k = [] then None else Some (int n, k))"
    and "scan_header (cstring (header n k @ [CHR 0x0A])) = (if k = [] then None else Some (int n, k))"
proof -
  have t: "takeWhile (\<lambda>c. c \<noteq> CHR 0x0A) k = k" "takeWhile (\<lambda>c. c \<noteq> CHR 0x0A) (k @ [CHR 0x0A]) = k"
    using assms(2) by (auto simp: takeWhile_eq_all_conv takeWhile_tail)
  have z: "CHR 0x00 \<notin> set (header n k)" by (rule header_chars(2) [OF assms(1)])
  then have c: "cstring (header n k) = header n k" "cstring (header n k @ [CHR 0x0A]) = header n k @ [CHR 0x0A]"
    using cstring_id [of "header n k"] cstring_id [of "header n k @ [CHR 0x0A]"] by simp_all
  show "scan_header (cstring (header n k)) = (if k = [] then None else Some (int n, k))"
    "scan_header (cstring (header n k @ [CHR 0x0A])) = (if k = [] then None else Some (int n, k))"
    using scan_digits [of "digits 10 n" k] scan_digits [of "digits 10 n" "k @ [CHR 0x0A]"] digits_isdigit [of n] t
    unfolding c by (simp_all add: header_def decimal_digits Let_def)
qed

section \<open>Searching\<close>

lemma find_colonless: "CHR '':'' \<notin> set s \<Longrightarrow> find_loop k s eof res = Some res"
proof (induction "length s" arbitrary: s eof rule: less_induct)
  case less
  obtain b s' eof' where f: "fgets 500 s = (b, s', eof')" by (cases "fgets 500 s") auto
  show ?case
  proof (cases b)
    case None
    then show ?thesis using f by (subst find_loop.simps) simp
  next
    case (Some buf)
    then have "s = buf @ s'" using f read_line_split [of 499 s] by (auto simp: fgets_def split: prod.splits if_splits)
    then have c: "CHR '':'' \<notin> set buf" "CHR '':'' \<notin> set s'" using less.prems by auto
    have "find_loop k s' eof' res = Some res"
      using less.hyps c(2) fgets_shorter [of 500 s buf s' eof'] f Some by simp
    then show ?thesis using f Some scan_colonless [OF c(1)] by (subst find_loop.simps) simp
  qed
qed

lemma find_skip:
  "CHR '':'' \<notin> set s \<Longrightarrow> s = [] \<or> last s = CHR 0x0A \<Longrightarrow> find_loop k (s @ rest) False res = find_loop k rest False res"
proof (induction "length s" arbitrary: s rule: less_induct)
  case less
  show ?case
  proof (cases "s = []")
    case False
    then obtain l s2 where l: "read_line (Suc 498) (s @ rest) = (l, s2 @ rest, False)" "l \<noteq> []" "s = l @ s2"
      using read_line_inside [of s 498 rest] less.prems by blast
    have f: "fgets 500 (s @ rest) = (Some l, s2 @ rest, False)" using l by (simp add: fgets_def)
    have "find_loop k (s2 @ rest) False res = find_loop k rest False res"
      using l less.prems by (intro less.hyps) (auto simp: last_append split: if_splits)
    moreover have "scan_header (cstring l) = None" using l(3) less.prems(1) by (intro scan_colonless) simp
    ultimately show ?thesis using f by (subst find_loop.simps) simp
  qed simp
qed

lemma read_record_good:
  assumes "good_value v"
  shows "read_record (int (length v)) (v @ CHR 0x0A # ''END'' @ CHR 0x0A # rest) = Some (Some v, rest, False)"
proof -
  have v: "CHR 0x0A \<notin> set v" "CHR 0x00 \<notin> set v" using assms by (simp_all add: good_value_def)
  have n: "nat (int (length v) + 5) = length v + 5" by simp
  have "fgets (length v + 5) (v @ CHR 0x0A # ''END'' @ CHR 0x0A # rest) = (Some (v @ [CHR 0x0A]), ''END'' @ CHR 0x0A # rest, False)"
    using v by (intro fgets_nl) auto
  moreover have "fgets 10 (''END'' @ CHR 0x0A # rest) = (Some (''END'' @ [CHR 0x0A]), rest, False)" by (rule fgets_nl) auto
  moreover have "cstring (v @ [CHR 0x0A]) = v @ [CHR 0x0A]" "cstring (''END'' @ [CHR 0x0A]) = ''END'' @ [CHR 0x0A]"
    using v by (intro cstring_id, simp)+
  ultimately show ?thesis by (simp add: read_record_def n del: append_Cons)
qed

lemma rec_text_header: "rec_text k v = CHR 0x0A # header (length v) k @ CHR 0x0A # v @ CHR 0x0A # ''END'' @ [CHR 0x0A]"
  by (simp add: rec_text_def header_def)

lemma find_newline: "find_loop k (CHR 0x0A # rest) False res = find_loop k rest False res"
  using find_skip [of "[CHR 0x0A]" k rest res] by simp

lemma find_header:
  assumes "good_key k" "good_value v"
  shows "find_loop key (header (length v) k @ CHR 0x0A # rest) False res =
     (if k \<noteq> key then find_loop key rest False res
      else case read_record (int (length v)) rest of
        None \<Rightarrow> None
      | Some (x, s, eof) \<Rightarrow> find_loop key s eof (case x of None \<Rightarrow> res | Some x \<Rightarrow> Some x))"
proof -
  have k: "CHR 0x0A \<notin> set k" "CHR 0x00 \<notin> set k" "k \<noteq> []" "length k \<le> 128" using assms(1) by (simp_all add: good_key_def)
  have "fgets 500 (header (length v) k @ CHR 0x0A # rest) = (Some (header (length v) k @ [CHR 0x0A]), rest, False)"
    using header_chars(1) [OF k(1)] header_length [OF assms(2) k(4)] by (rule fgets_nl)
  then show ?thesis
    using scan_header_key(2) [OF k(2,1), of "length v"] k(3) by (subst find_loop.simps) simp
qed

lemma find_record:
  assumes "good_key k" "good_value v"
  shows "find_loop key (rec_text k v @ rest) False res = find_loop key rest False (if k = key then Some v else res)"
proof -
  have "find_loop key (rec_text k v @ rest) False res =
      find_loop key (header (length v) k @ CHR 0x0A # (v @ CHR 0x0A # ''END'' @ CHR 0x0A # rest)) False res"
    by (simp add: rec_text_header find_newline)
  also have "\<dots> = find_loop key rest False (if k = key then Some v else res)"
  proof (cases "k = key")
    case True
    then show ?thesis using find_header [OF assms] read_record_good [OF assms(2)] by simp
  next
    case False
    have "CHR '':'' \<notin> set (v @ CHR 0x0A # ''END'' @ [CHR 0x0A])" using assms(2) by (simp add: good_value_def)
    then have "find_loop key ((v @ CHR 0x0A # ''END'' @ [CHR 0x0A]) @ rest) False res = find_loop key rest False res"
      by (intro find_skip) simp_all
    then show ?thesis using find_header [OF assms] False by simp
  qed
  finally show ?thesis .
qed

section \<open>The log\<close>

definition log_text :: "(string \<times> string) list \<Rightarrow> string" where
  "log_text ps = concat (map (\<lambda>(k, v). rec_text k v) ps)"

definition good_log :: "(string \<times> string) list \<Rightarrow> bool" where
  "good_log ps \<longleftrightarrow> (\<forall>(k, v)\<in>set ps. good_key k \<and> good_value v)"

definition newest :: "(string \<times> string) list \<Rightarrow> string \<Rightarrow> string option" where
  "newest ps key = map_of (rev ps) key"

lemma log_snoc: "log_text (ps @ [(k, v)]) = log_text ps @ rec_text k v"
  by (simp add: log_text_def)

lemma newest_snoc: "newest (ps @ [(k, v)]) key = (if k = key then Some v else newest ps key)"
  by (simp add: newest_def)

lemma find_log:
  "good_log ps \<Longrightarrow> find_loop key (log_text ps @ rest) False None = find_loop key rest False (newest ps key)"
proof (induction ps arbitrary: rest rule: rev_induct)
  case Nil
  then show ?case by (simp add: log_text_def newest_def)
next
  case (snoc p ps)
  obtain k v where p: "p = (k, v)" by (cases p)
  have g: "good_log ps" "good_key k" "good_value v" using snoc.prems p by (auto simp: good_log_def)
  show ?case using snoc.IH [OF g(1), of "rec_text k v @ rest"] find_record [OF g(2,3)] p
    by (simp add: log_snoc newest_snoc)
qed


section \<open>Torn records\<close>

lemma find_end: "find_loop key [] eof res = Some res" "find_loop key s True res = Some res"
  by (rule find_colonless) (simp, subst find_loop.simps, simp)

lemma read_record_torn:
  assumes v: "good_value v" and w: "v @ CHR 0x0A # ''END'' @ [CHR 0x0A] = w @ u"
  shows "\<exists>x s eof. read_record (int (length v)) w = Some (x, s, eof) \<and> (x = None \<or> x = Some v) \<and> (s = [] \<or> eof)"
proof -
  have n: "nat (int (length v) + 5) = length v + 5" by simp
  have g: "CHR 0x0A \<notin> set v" "CHR 0x00 \<notin> set v" using v by (simp_all add: good_value_def)
  have none: "fgets m [] = (None, [], True)" if "1 < m" for m using fgets_end [of "[]" m] that by simp
  consider x where "v = w @ x" | e where "w = v @ CHR 0x0A # e" "''END'' @ [CHR 0x0A] = e @ u"
    using w by (auto simp: append_eq_append_conv2 append_eq_Cons_conv Cons_eq_append_conv)
  then show ?thesis
  proof cases
    case 1
    then have "fgets (length v + 5) w = (if w = [] then None else Some w, [], True)"
      using g by (intro fgets_end) auto
    then show ?thesis using none [of 10] by (cases "w = []") (auto simp: read_record_def n)
  next
    case 2
    have f: "fgets (length v + 5) w = (Some (v @ [CHR 0x0A]), e, False)" unfolding 2(1) using g by (intro fgets_nl) auto
    have c: "cstring (v @ [CHR 0x0A]) = v @ [CHR 0x0A]" using g by (intro cstring_id) simp
    show ?thesis
    proof (cases "CHR 0x0A \<in> set e")
      case True
      then have "e = ''END'' @ [CHR 0x0A]" using 2(2) by (auto simp: append_eq_Cons_conv Cons_eq_append_conv)
      then have "fgets 10 e = (Some (''END'' @ [CHR 0x0A]), [], False)" using fgets_nl [of "''END''" 10 "[]"] by simp
      then show ?thesis using f c by (auto simp: read_record_def n intro!: exI [of _ False])
    next
      case False
      have "length e \<le> 4" using arg_cong [OF 2(2), of length] by simp
      then have "fgets 10 e = (if e = [] then None else Some e, [], True)" using False by (intro fgets_end) auto
      then show ?thesis using f c by (cases "e = []") (auto simp: read_record_def n)
    qed
  qed
qed

lemma find_torn:
  assumes k: "good_key k" and v: "good_value v" and t: "rec_text k v = t @ u"
  shows "find_loop key t False res = Some res \<or> k = key \<and> find_loop key t False res = Some (Some v)"
proof -
  let ?H = "header (length v) k" and ?B = "v @ CHR 0x0A # ''END'' @ [CHR 0x0A]"
  have kk: "CHR 0x0A \<notin> set k" "CHR 0x00 \<notin> set k" "k \<noteq> []" "length k \<le> 128" using k by (simp_all add: good_key_def)
  show ?thesis
  proof (cases t)
    case Nil
    then show ?thesis by (simp add: find_end)
  next
    case (Cons c t1)
    then have c: "t = CHR 0x0A # t1" "?H @ CHR 0x0A # ?B = t1 @ u" using t by (auto simp: rec_text_header)
    consider x where "?H = t1 @ x" | w where "t1 = ?H @ CHR 0x0A # w" "?B = w @ u"
      using c(2) by (auto simp: append_eq_append_conv2 append_eq_Cons_conv Cons_eq_append_conv)
    then show ?thesis
    proof cases
      case (1 x)
      show ?thesis
      proof (cases "CHR '':'' \<in> set t1")
        case False
        then show ?thesis using find_colonless [of t1 key False res] by (simp add: c(1) find_newline)
      next
        case True
        have "CHR '':'' \<notin> set (digits 10 (length v))" using digits_isdigit isdigit_not by blast
        then obtain k1 where k1: "t1 = header (length v) k1" "k = k1 @ x"
          using 1 True by (auto simp: header_def append_eq_append_conv2 Cons_eq_append_conv)
        have k1s: "CHR 0x0A \<notin> set k1" "CHR 0x00 \<notin> set k1" "length k1 \<le> 128" using kk k1(2) by auto
        have "t1 \<noteq> []" by (simp add: k1(1) header_def)
        then have f: "fgets 500 t1 = (Some t1, [], True)"
          using fgets_end [of t1 500] header_chars(1) [OF k1s(1)] header_length [OF v k1s(3)] k1(1) by simp
        have r: "read_record (int (length v)) [] = Some (None, [], True)"
          using fgets_end [of "[]" "nat (int (length v) + 5)"] by (simp add: read_record_def)
        have "find_loop key t1 False res = Some res"
          using f r scan_header_key(1) [OF k1s(2,1), of "length v"]
          by (subst find_loop.simps) (simp add: k1(1) find_end)
        then show ?thesis by (simp add: c(1) find_newline)
      qed
    next
      case (2 w)
      have "CHR '':'' \<notin> set ?B" using v by (simp add: good_value_def)
      then have w: "CHR '':'' \<notin> set w" unfolding 2(2) by simp
      obtain y s eof where y: "read_record (int (length v)) w = Some (y, s, eof)" "y = None \<or> y = Some v" "s = [] \<or> eof"
        using read_record_torn [OF v 2(2)] by blast
      then have "find_loop key s eof res' = Some res'" for res' using find_end by auto
      then show ?thesis
        using find_header [OF k v, of key w res] y(1,2) find_colonless [OF w]
        by (auto simp: c(1) find_newline 2(1))
    qed
  qed
qed

section \<open>Results\<close>

definition is_open :: "(string \<Rightarrow> bool) \<Rightarrow> kvdb \<Rightarrow> bool" where
  "is_open ok db \<longleftrightarrow> db_state db = Opened \<and> \<not> db_locked db \<and> ok (db_filename db)"

text \<open>C9: The store is a log with atomic appends: on an open database whose file holds any sequence of
  records with keys and values without newlines and \<open>NUL\<close> (and values without colons),
  \<open>kvdb_put\<close> appends a record and \<open>kvdb_get\<close> returns the newest value of the key or
  \<open>NULL\<close> when there is none; and when a put is interrupted after any number of its characters, a
  later \<open>kvdb_get\<close> finds either the state before the put or the state after it.\<close>
theorem kvdb_log:
  assumes db: "is_open ok db" and w: "w (db_filename db) = Some (log_text ps)" "good_log ps"
    and kv: "good_key k" "good_value v" and key: "good_key key"
  shows "kvdb_put ok (Some k) (Some v) (db, w) = Some (0, db, w(db_filename db \<mapsto> log_text (ps @ [(k, v)]))) \<and>
     kvdb_get ok (Some key) (db, w) = Some (newest ps key, db, w) \<and>
     (\<forall>t u. rec_text k v = t @ u \<longrightarrow>
        (\<exists>r. kvdb_get ok (Some key) (db, w(db_filename db \<mapsto> log_text ps @ t)) =
             Some (r, db, w(db_filename db \<mapsto> log_text ps @ t)) \<and>
           (r = newest ps key \<or> r = newest (ps @ [(k, v)]) key)))"
proof (intro conjI allI impI)
  have o: "db_state db = Opened" "\<not> db_locked db" "ok (db_filename db)" "db\<lparr>db_locked := False\<rparr> = db"
    using db by (cases db, simp add: is_open_def)+
  have k: "k \<noteq> []" "length k \<le> 128" "key \<noteq> []" "length key \<le> 128" "length v \<le> 16 * 1024 * 1024"
    using kv key by (simp_all add: good_key_def good_value_def)
  show "kvdb_put ok (Some k) (Some v) (db, w) = Some (0, db, w(db_filename db \<mapsto> log_text (ps @ [(k, v)])))"
    using o k w(1) by (simp add: kvdb_put_def log_snoc)
  show "kvdb_get ok (Some key) (db, w) = Some (newest ps key, db, w)"
    using o k w find_log [OF w(2), of key "[]"] by (simp add: kvdb_get_def find_db_def find_end)
  fix t u assume t: "rec_text k v = t @ u"
  have "\<exists>r. find_loop key (log_text ps @ t) False None = Some r \<and> (r = newest ps key \<or> r = newest (ps @ [(k, v)]) key)"
    using find_torn [OF kv t, of key "newest ps key"] unfolding find_log [OF w(2)] by (auto simp: newest_snoc)
  then show "\<exists>r. kvdb_get ok (Some key) (db, w(db_filename db \<mapsto> log_text ps @ t)) =
        Some (r, db, w(db_filename db \<mapsto> log_text ps @ t)) \<and> (r = newest ps key \<or> r = newest (ps @ [(k, v)]) key)"
    using o k by (auto simp: kvdb_get_def find_db_def)
qed

definition demo_db :: kvdb where
  "demo_db = \<lparr>db_state = Opened, db_locked = False, db_filename = ''a.db''\<rparr>"

theorem kvdb_log_witness:
  "kvdb_get (\<lambda>_. True) (Some ''k'') (demo_db, [''a.db'' \<mapsto> log_text [(''k'', ''one''), (''k'', ''two'')]]) =
     Some (Some ''two'', demo_db, [''a.db'' \<mapsto> log_text [(''k'', ''one''), (''k'', ''two'')]])"
proof -
  have "is_open (\<lambda>_. True) demo_db" "good_log [(''k'', ''one''), (''k'', ''two'')]" "good_key ''k''" "good_value ''three''"
    by (simp_all add: is_open_def demo_db_def good_log_def good_key_def good_value_def)
  then show ?thesis
    using kvdb_log [of "\<lambda>_. True" demo_db "[''a.db'' \<mapsto> log_text [(''k'', ''one''), (''k'', ''two'')]]"
        "[(''k'', ''one''), (''k'', ''two'')]" "''k''" "''three''" "''k''"]
    by (simp add: demo_db_def newest_def)
qed

text \<open>A failed put keeps the mutex: \<open>kvdb_put\<close> on a closed database cannot open its file,
  returns -1 with the mutex held, and every later put or get with valid arguments on it blocks.\<close>
lemma kvdb_closed_blocks:
  assumes "kvdb_close (db, w) = Some (0, db', w)" "db_state db = Opened" "\<not> ok []"
    and "good_key k" "length v \<le> 16 * 1024 * 1024" "good_key k'" "length v' \<le> 16 * 1024 * 1024"
  shows "\<exists>db''. kvdb_put ok (Some k) (Some v) (db', w) = Some (-1, db'', w) \<and>
     kvdb_put ok (Some k') (Some v') (db'', w) = None \<and> kvdb_get ok (Some k') (db'', w) = None"
proof -
  have "db' = db\<lparr>db_filename := [], db_state := Closed\<rparr>" "\<not> db_locked db"
    using assms(1,2) by (auto simp: kvdb_close_def split: if_splits)
  then show ?thesis
    using assms(3-) by (auto simp: kvdb_put_def kvdb_get_def good_key_def)
qed

lemma kvdb_closed_blocks_witness:
  "\<exists>db''. kvdb_put (\<lambda>f. f \<noteq> []) (Some ''k'') (Some ''v'') (demo_db\<lparr>db_filename := [], db_state := Closed\<rparr>, Map.empty) =
       Some (-1, db'', Map.empty) \<and> kvdb_get (\<lambda>f. f \<noteq> []) (Some ''k'') (db'', Map.empty) = None"
  using kvdb_closed_blocks [of demo_db Map.empty "demo_db\<lparr>db_filename := [], db_state := Closed\<rparr>" "\<lambda>f. f \<noteq> []"
      "''k''" "''v''" "''k''" "''v''"]
  by (auto simp: kvdb_close_def demo_db_def good_key_def Opened_def)


end
