(* ===== verification/Game.thy ===== *)
theory Game
  imports Input
begin

text \<open>
  The game on the bare machine (\<open>amgame/src/game.c\<close>, \<open>amgame/include/game.h\<close>): blocks of
  seven colours on a board of four by four, pushed in one of four directions, where two blocks of one colour become
  one of the next. The random numbers are those of \<open>klib\<close> (\<open>stdlib.c\<close>). The keys pressed are
  a list, the rectangles drawn are the output; the sizes of the screen are arguments.
\<close>

section \<open>State\<close>

text \<open>\<open>dx\<close> and \<open>dy\<close> in the order L, T, R, D of the source.\<close>

datatype direction = L | T | R | D

fun dx :: "direction \<Rightarrow> int" where "dx L = -1" | "dx T = 0" | "dx R = 1" | "dx D = 0"
fun dy :: "direction \<Rightarrow> int" where "dy L = 0" | "dy T = -1" | "dy R = 0" | "dy D = 1"

datatype game_state = Ended | Running

type_synonym grid = "int \<times> int \<Rightarrow> u32"

record game =
  blocks :: grid
  rnd_next :: u32
  gstate :: game_state

definition cells :: "(int \<times> int) list" where
  "cells = [(0, 0), (0, 1), (0, 2), (0, 3), (1, 0), (1, 1), (1, 2), (1, 3),
     (2, 0), (2, 1), (2, 2), (2, 3), (3, 0), (3, 1), (3, 2), (3, 3)]"

text \<open>\<open>unsigned long\<close> is 32 bits wide on the target.\<close>

definition rand :: "game \<Rightarrow> nat \<times> game" where
  "rand s = (let n = rnd_next s * 1103515245 + 12345 in (unat (n div 65536) mod 32768, s\<lparr>rnd_next := n\<rparr>))"

definition srand :: "u32 \<Rightarrow> game \<Rightarrow> game" where
  "srand seed s = s\<lparr>rnd_next := seed\<rparr>"

section \<open>A round\<close>

text \<open>The block at \<open>(lx, ly)\<close> moves to \<open>(tx, ty)\<close> and on.\<close>

function slide :: "direction \<Rightarrow> grid \<Rightarrow> int \<Rightarrow> int \<Rightarrow> int \<Rightarrow> int \<Rightarrow> grid" where
  "slide d b lx ly tx ty =
     (if 0 \<le> tx \<and> tx < 4 \<and> 0 \<le> ty \<and> ty < 4 then
        if b (tx, ty) = 0
        then slide d (b((tx, ty) := b (lx, ly), (lx, ly) := b (tx, ty))) tx ty (tx + dx d) (ty + dy d)
        else if b (tx, ty) = b (lx, ly)
        then slide d (b((tx, ty) := b (tx, ty) + 1, (lx, ly) := 0)) tx ty (tx + dx d) (ty + dy d)
        else b
      else b)"
  by pat_completeness auto
termination
  by (relation "measure (\<lambda>(d, b, lx, ly, tx, ty). case d of L \<Rightarrow> nat (tx + 1) | T \<Rightarrow> nat (ty + 1) | R \<Rightarrow> nat (4 - tx) | D \<Rightarrow> nat (4 - ty))")
    (auto split: direction.splits)

declare slide.simps [simp del]

fun push_cells :: "direction \<Rightarrow> (int \<times> int) list \<Rightarrow> grid \<Rightarrow> grid" where
  "push_cells d [] b = b"
| "push_cells d ((x, y) # cs) b = push_cells d cs (if b (x, y) = 0 then b else slide d b x y (x + dx d) (y + dy d))"

text \<open>\<open>choice\<close> empty cells are passed over; \<open>None\<close> is \<open>_halt\<close>.\<close>

fun add_block :: "(int \<times> int) list \<Rightarrow> nat \<Rightarrow> grid \<Rightarrow> grid option" where
  "add_block [] choice b = None"
| "add_block (c # cs) choice b =
     (if b c = 0 then (if choice = 0 then Some (b(c := 1)) else add_block cs (choice - 1) b)
      else add_block cs choice b)"

text \<open>Whether a block was added, and \<open>*win\<close>.\<close>

definition goRound :: "direction \<Rightarrow> game \<Rightarrow> ((bool \<times> bool) \<times> game) option" where
  "goRound d s = do {
     let b = push_cells d cells (blocks s);
     let empties = length (filter (\<lambda>c. b c = 0) cells);
     let win = list_ex (\<lambda>c. 7 \<le> b c) cells;
     if empties = 0 then Some ((False, win), s\<lparr>blocks := b\<rparr>)
     else do {
       let (r, s) = rand (s\<lparr>blocks := b\<rparr>);
       b \<leftarrow> add_block cells (r mod empties) b;
       Some ((True, win), s\<lparr>blocks := b\<rparr>) } }"

section \<open>The game\<close>

text \<open>The row of the first block is drawn before its column, one of the orders the language allows.\<close>

definition gameStart :: "game \<Rightarrow> game" where
  "gameStart s =
     (let (i, s) = rand s; (j, s) = rand s
      in s\<lparr>blocks := (\<lambda>_. 0)((int (i mod 4), int (j mod 4)) := 1), gstate := Running\<rparr>)"

definition game_key :: "string \<Rightarrow> nat" where "game_key k = key_index k KEYS + 1"

definition key_direction :: "nat \<Rightarrow> direction option" where
  "key_direction key =
     (if key = game_key ''LEFT'' then Some L else if key = game_key ''UP'' then Some T
      else if key = game_key ''RIGHT'' then Some R else if key = game_key ''DOWN'' then Some D else None)"

record game_size =
  top_x :: int
  top_y :: int
  main_w :: int
  main_h :: int
  block_w :: int
  block_h :: int

definition initScreen :: "int \<Rightarrow> int \<Rightarrow> game_size" where
  "initScreen w h =
     (let sz = (if w = h then \<lparr>top_x = 0, top_y = 0, main_w = w, main_h = w, block_w = 0, block_h = 0\<rparr>
        else if w < h then \<lparr>top_x = 0, top_y = (h - w) div 2, main_w = w, main_h = w, block_w = 0, block_h = 0\<rparr>
        else \<lparr>top_x = (w - h) div 2, top_y = 0, main_w = h, main_h = h, block_w = 0, block_h = 0\<rparr>)
      in sz\<lparr>block_w := main_w sz div 4, block_h := main_h sz div 4\<rparr>)"

definition colors :: "u32 list" where
  "colors = [0xffffff, 0xff0000, 0xff7f00, 0xffff00, 0x00ff00, 0x00ffff, 0x0000ff, 0x8b00ff] @ replicate 12 0"

definition SIDE :: int where "SIDE = 4"

record game_rect =
  r_pixels :: "u32 list"
  r_x :: int
  r_y :: int

text \<open>C truncates; a quotient by zero, a cell off the board or a colour past the table is undefined.\<close>

definition c_div :: "int \<Rightarrow> int \<Rightarrow> int option" where
  "c_div a b = do { Assert (b \<noteq> 0); Some (sgn a * sgn b * (\<bar>a\<bar> div \<bar>b\<bar>)) }"

definition draw_tile :: "game_size \<Rightarrow> grid \<Rightarrow> int \<Rightarrow> int \<Rightarrow> game_rect option" where
  "draw_tile sz b x y = do {
     i \<leftarrow> c_div (x * SIDE - top_x sz) (block_w sz);
     j \<leftarrow> c_div (y * SIDE - top_y sz) (block_h sz);
     Assert (0 \<le> i \<and> i < 4 \<and> 0 \<le> j \<and> j < 4);
     Assert (unat (b (i, j)) < length colors);
     Some \<lparr>r_pixels = replicate (nat (SIDE * SIDE)) (colors ! unat (b (i, j))), r_x = x * SIDE, r_y = y * SIDE\<rparr> }"

fun draw_tiles :: "game_size \<Rightarrow> grid \<Rightarrow> (int \<times> int) list \<Rightarrow> game_rect list option" where
  "draw_tiles sz b [] = Some []"
| "draw_tiles sz b ((x, y) # ps) = do { r \<leftarrow> draw_tile sz b x y; rs \<leftarrow> draw_tiles sz b ps; Some (r # rs) }"

text \<open>The loops over the tiles: from the one that holds the corner to the last that begins inside.\<close>

definition tiles :: "int \<Rightarrow> int \<Rightarrow> int list" where
  "tiles lo n = [lo div SIDE..(lo + n + SIDE - 1) div SIDE - 1]"

definition splash :: "game_size \<Rightarrow> grid \<Rightarrow> game_rect list option" where
  "splash sz b = draw_tiles sz b (List.product (tiles (top_x sz) (main_w sz)) (tiles (top_y sz) (main_h sz)))"

text \<open>\<open>None\<close> when no key is left to read. The result is whether the player has won.\<close>

fun game_loop :: "game_size \<Rightarrow> nat list \<Rightarrow> game \<Rightarrow> game_rect list \<Rightarrow> (bool \<times> nat list \<times> game \<times> game_rect list) option" where
  "game_loop sz [] s out = None"
| "game_loop sz (key # keys) s out = do {
     ((flg, win), s) \<leftarrow> (case key_direction key of Some d \<Rightarrow> goRound d s | None \<Rightarrow> Some ((True, False), s));
     rs \<leftarrow> splash sz (blocks s);
     if win then Some (True, keys, s, out @ rs)
     else if \<not> flg then Some (False, keys, s, out @ rs)
     else game_loop sz keys s (out @ rs) }"

definition gameMain :: "game_size \<Rightarrow> nat list \<Rightarrow> game \<Rightarrow> (bool \<times> nat list \<times> game \<times> game_rect list) option" where
  "gameMain sz keys s =
     (if gstate s \<noteq> Running then Some (False, keys, s, [])
      else do { rs \<leftarrow> splash sz (blocks s); game_loop sz keys s rs })"

definition gameEnd :: "nat list \<Rightarrow> game \<Rightarrow> (bool \<times> nat list \<times> game) option" where
  "gameEnd keys s = (case keys of
       [] \<Rightarrow> None
     | key # keys \<Rightarrow> Some (key = game_key ''R'', keys, s\<lparr>gstate := Ended\<rparr>))"

text \<open>\<open>main\<close>: whether each game was won, until a key other than R ends the program.\<close>

partial_function (option) game_main :: "game_size \<Rightarrow> nat list \<Rightarrow> game \<Rightarrow> bool list \<Rightarrow> (bool list \<times> game) option" where
  "game_main sz keys s games = do {
     (won, keys, s, out) \<leftarrow> gameMain sz keys (gameStart s);
     (again, keys, s) \<leftarrow> gameEnd keys s;
     if again then game_main sz keys s (games @ [won]) else Some (games @ [won], s) }"

end
