(* ===== verification/GameProps.thy ===== *)
theory GameProps
  imports Game
begin

text \<open>
  The weight of the board: a block of colour \<open>v\<close> counts \<open>2 ^ (v - 1)\<close>, as merging two gives one of the
  next colour. A push keeps the weight, each round adds one block of weight one, so the number of rounds is
  the weight, and the weight is bounded as long as nobody has won.
\<close>

section \<open>The weight of a board\<close>

definition wt :: "u32 \<Rightarrow> nat" where
  "wt v = (if v = 0 then 0 else 2 ^ (unat v - 1))"

definition weight :: "grid \<Rightarrow> nat" where
  "weight b = sum_list (map (\<lambda>c. wt (b c)) cells)"

lemma cells_distinct [simp]: "distinct cells"
  by (simp add: cells_def)

lemma card_cells: "card (set cells) = 16"
  using distinct_card [OF cells_distinct] by (simp add: cells_def)

lemma in_cells: "(x, y) \<in> set cells \<longleftrightarrow> 0 \<le> x \<and> x < 4 \<and> 0 \<le> y \<and> y < 4"
proof -
  have "x \<in> {0, 1, 2, 3} \<longleftrightarrow> 0 \<le> x \<and> x < 4" for x :: int by auto
  moreover have "set cells = {0, 1, 2, 3} \<times> {0, 1, 2, 3}" by (auto simp: cells_def)
  ultimately show ?thesis by blast
qed

lemma weight_sum: "weight b = (\<Sum>c\<in>set cells. wt (b c))"
  by (simp add: weight_def sum_list_distinct_conv_sum_set)

lemma wt_0 [simp]: "wt 0 = 0" "wt 1 = 1"
  by (simp_all add: wt_def)

lemma weight_two:
  assumes "p \<in> set cells" "q \<in> set cells" "p \<noteq> q"
  shows "weight (b(p := v, q := w)) + wt (b p) + wt (b q) = weight b + wt v + wt w"
proof -
  let ?r = "set cells - {p} - {q}"
  have "weight c = wt (c p) + wt (c q) + (\<Sum>x\<in>?r. wt (c x))" for c
    unfolding weight_sum using assms by (simp add: sum.remove [of _ p] sum.remove [of _ q] add.assoc)
  moreover have "(\<Sum>x\<in>?r. wt ((b(p := v, q := w)) x)) = (\<Sum>x\<in>?r. wt (b x))" by (rule sum.cong) auto
  ultimately show ?thesis using assms(3) by simp
qed

lemma weight_ge: "p \<in> set cells \<Longrightarrow> wt (b p) \<le> weight b"
  unfolding weight_sum by (rule member_le_sum) auto

text \<open>A block on a light board is far from wrapping around.\<close>

lemma light:
  assumes "p \<in> set cells" "weight b < 2 ^ 30"
  shows "unat (b p) \<le> 30"
proof (cases "b p = 0")
  case False
  then have "2 ^ (unat (b p) - 1) < (2 :: nat) ^ 30" using weight_ge [OF assms(1), of b] assms(2) by (simp add: wt_def)
  then have "unat (b p) - 1 < 30" by (rule power_less_imp_less_exp [rotated]) simp
  then show ?thesis by simp
qed simp

lemma wt_merge:
  assumes "v \<noteq> 0" "unat v \<le> 30"
  shows "wt (v + 1) = wt v + wt v" "v + 1 \<noteq> 0"
proof -
  have u: "unat (v + 1) = unat v + 1" using assms(2) by (subst unat_word_ariths) simp
  then show "v + 1 \<noteq> 0" by auto
  then have "0 < unat v" using assms(1) by (simp add: unat_gt_0)
  then show "wt (v + 1) = wt v + wt v"
    using u assms(1) \<open>v + 1 \<noteq> 0\<close> by (simp add: wt_def power_eq_if)
qed

section \<open>Pushing\<close>

lemma slide_weight:
  "(lx, ly) \<in> set cells \<Longrightarrow> b (lx, ly) \<noteq> 0 \<Longrightarrow> tx = lx + dx d \<Longrightarrow> ty = ly + dy d \<Longrightarrow> weight b < 2 ^ 30 \<Longrightarrow>
   weight (slide d b lx ly tx ty) = weight b"
proof (induction d b lx ly tx ty rule: slide.induct)
  case (1 d b lx ly tx ty)
  show ?case
  proof (cases "0 \<le> tx \<and> tx < 4 \<and> 0 \<le> ty \<and> ty < 4")
    case False
    then show ?thesis by (subst slide.simps) auto
  next
    case in_board: True
    then have t: "(tx, ty) \<in> set cells" by (simp add: in_cells)
    have ne: "(tx, ty) \<noteq> (lx, ly)" using "1.prems"(3,4) by (cases d) auto
    let ?swap = "b((tx, ty) := b (lx, ly), (lx, ly) := b (tx, ty))"
    let ?merge = "b((tx, ty) := b (tx, ty) + 1, (lx, ly) := 0)"
    consider "b (tx, ty) = 0" | "b (tx, ty) \<noteq> 0" "b (tx, ty) = b (lx, ly)" | "b (tx, ty) \<noteq> 0" "b (tx, ty) \<noteq> b (lx, ly)" by blast
    then show ?thesis
    proof cases
      case 1
      have w: "weight ?swap = weight b" using weight_two [OF t "1.prems"(1) ne, of b "b (lx, ly)" "b (tx, ty)"] by simp
      have nz: "?swap (tx, ty) \<noteq> 0" using ne "1.prems"(2) by simp
      have "weight (slide d ?swap tx ty (tx + dx d) (ty + dy d)) = weight b"
        using "1.IH"(1) [OF in_board 1 t nz refl refl] "1.prems"(5) unfolding w .
      then show ?thesis using in_board 1 by (subst slide.simps) simp
    next
      case 2
      have u: "unat (b (tx, ty)) \<le> 30" using light [OF t "1.prems"(5)] .
      have w: "weight ?merge = weight b"
        using weight_two [OF t "1.prems"(1) ne, of b "b (tx, ty) + 1" 0] wt_merge [OF 2(1) u] 2(2) by simp
      have nz: "?merge (tx, ty) \<noteq> 0" using ne wt_merge(2) [OF 2(1) u] by simp
      have "weight (slide d ?merge tx ty (tx + dx d) (ty + dy d)) = weight b"
        using "1.IH"(2) [OF in_board 2 t nz refl refl] "1.prems"(5) unfolding w .
      then show ?thesis using in_board 2 by (subst slide.simps) simp
    next
      case 3
      then show ?thesis using in_board by (subst slide.simps) simp
    qed
  qed
qed

lemma push_weight:
  "set cs \<subseteq> set cells \<Longrightarrow> weight b < 2 ^ 30 \<Longrightarrow> weight (push_cells d cs b) = weight b"
proof (induction d cs b rule: push_cells.induct)
  case (2 d x y cs b)
  then show ?case using slide_weight [of x y b _ d] by (cases "b (x, y) = 0") auto
qed simp

section \<open>The new block\<close>

lemma add_block_ok:
  "choice < length (filter (\<lambda>c. b c = 0) cs) \<Longrightarrow> \<exists>c\<in>set cs. b c = 0 \<and> add_block cs choice b = Some (b(c := 1))"
proof (induction cs choice b rule: add_block.induct)
  case (2 c cs choice b)
  show ?case
  proof (cases "b c = 0 \<and> choice = 0")
    case True
    then show ?thesis by (intro bexI [of _ c]) (simp_all add: fun_eq_iff)
  next
    case False
    then show ?thesis using 2 by (cases "b c = 0") auto
  qed
qed simp

lemma weight_add: "c \<in> set cells \<Longrightarrow> b c = 0 \<Longrightarrow> weight (b(c := 1)) = weight b + 1"
proof -
  assume a: "c \<in> set cells" "b c = 0"
  have "weight d = wt (d c) + (\<Sum>x\<in>set cells - {c}. wt (d x))" for d
    unfolding weight_sum using a(1) by (simp add: sum.remove)
  moreover have "(\<Sum>x\<in>set cells - {c}. wt ((b(c := 1)) x)) = (\<Sum>x\<in>set cells - {c}. wt (b x))" by (rule sum.cong) auto
  ultimately show ?thesis using a(2) by simp
qed

text \<open>A round returns, whatever the board.\<close>

lemma goRound_run:
  "\<exists>ok win s'. goRound d s = Some ((ok, win), s') \<and> win = list_ex (\<lambda>c. 7 \<le> push_cells d cells (blocks s) c) cells \<and>
     (if ok then \<exists>c\<in>set cells. push_cells d cells (blocks s) c = 0 \<and> blocks s' = (push_cells d cells (blocks s))(c := 1)
      else blocks s' = push_cells d cells (blocks s) \<and> (\<forall>c\<in>set cells. blocks s' c \<noteq> 0)) \<and> gstate s' = gstate s"
proof (cases "length (filter (\<lambda>c. push_cells d cells (blocks s) c = 0) cells) = 0")
  case True
  then have "\<forall>c\<in>set cells. push_cells d cells (blocks s) c \<noteq> 0" by (simp add: filter_empty_conv)
  then show ?thesis using True by (auto simp: goRound_def Let_def)
next
  case False
  let ?b = "push_cells d cells (blocks s)"
  let ?r = "fst (rand (s\<lparr>blocks := ?b\<rparr>)) mod length (filter (\<lambda>c. ?b c = 0) cells)"
  have "?r < length (filter (\<lambda>c. ?b c = 0) cells)" using False by simp
  from add_block_ok [OF this] obtain c where "c \<in> set cells" "?b c = 0" "add_block cells ?r ?b = Some (?b(c := 1))" by blast
  then show ?thesis using False by (auto simp: goRound_def Let_def case_prod_beta rand_def)
qed

section \<open>The rounds of a game\<close>

text \<open>The state after so many rounds that added a block and did not win.\<close>

inductive rounds :: "nat \<Rightarrow> game \<Rightarrow> bool" where
  start: "rounds 0 (gameStart s)"
| round: "rounds n s \<Longrightarrow> goRound d s = Some ((True, False), s') \<Longrightarrow> rounds (Suc n) s'"

lemma start_weight: "weight (blocks (gameStart s)) = 1"
proof -
  obtain i j where b: "blocks (gameStart s) = (\<lambda>_. 0)((int (i mod 4), int (j mod 4)) := 1)"
    by (auto simp: gameStart_def Let_def case_prod_beta)
  have "i mod 4 < 4" "j mod 4 < 4" by simp_all
  then have "(int (i mod 4), int (j mod 4)) \<in> set cells" by (simp add: in_cells)
  moreover have "weight (\<lambda>_. 0) = 0" by (simp add: weight_sum)
  ultimately show ?thesis unfolding b using weight_add by simp
qed

definition small :: "grid \<Rightarrow> bool" where
  "small b \<longleftrightarrow> (\<forall>c\<in>set cells. unat (b c) < 7)"

lemma small_weight: "small b \<Longrightarrow> weight b \<le> 512"
proof -
  assume s: "small b"
  have "wt (b c) \<le> 32" if "c \<in> set cells" for c
  proof -
    have "unat (b c) - 1 \<le> 5" using s that by (auto simp: small_def)
    then have "(2 :: nat) ^ (unat (b c) - 1) \<le> 2 ^ 5" by (rule power_increasing) simp
    then show ?thesis by (simp add: wt_def)
  qed
  then have "weight b \<le> (\<Sum>c\<in>set cells. 32)" unfolding weight_sum by (rule sum_mono)
  then show ?thesis using card_cells by simp
qed

lemma rounds_inv: "rounds n s \<Longrightarrow> weight (blocks s) = n + 1 \<and> small (blocks s) \<and> gstate s = Running"
proof (induction rule: rounds.induct)
  case (start s)
  have "small (blocks (gameStart s))" by (auto simp: small_def gameStart_def Let_def case_prod_beta)
  moreover have "gstate (gameStart s) = Running" by (simp add: gameStart_def Let_def case_prod_beta)
  ultimately show ?case using start_weight by simp
next
  case (round n s d s')
  let ?b = "push_cells d cells (blocks s)"
  obtain c where c: "c \<in> set cells" "?b c = 0" "blocks s' = ?b(c := 1)" "\<not> list_ex (\<lambda>c. 7 \<le> ?b c) cells" "gstate s' = gstate s"
    using goRound_run [of d s] round(2) by auto
  have "weight (blocks s) < 2 ^ 30" using small_weight round.IH by fastforce
  then have "weight ?b = weight (blocks s)" by (intro push_weight) auto
  then have "weight (blocks s') = n + 1 + 1" unfolding c(3) using weight_add [of c ?b] c(1,2) round.IH by simp
  moreover have "small (blocks s')"
    using c(4) unfolding small_def c(3) by (auto simp: list_ex_iff not_le word_less_nat_alt)
  ultimately show ?case using round.IH c(5) by simp
qed

lemma rounds_end:
  assumes "rounds n s"
  shows "n < 512" "\<exists>ok win s'. goRound d s = Some ((ok, win), s')"
  using rounds_inv [OF assms] small_weight goRound_run [of d s] by fastforce+

section \<open>Drawing\<close>

text \<open>A screen on which the side of the board is a multiple of four, and not tiny.\<close>

definition fits :: "int \<Rightarrow> int \<Rightarrow> bool" where
  "fits w h \<longleftrightarrow> 16 \<le> min w h \<and> 4 dvd min w h"

lemma c_div_nonneg: "0 \<le> a \<Longrightarrow> 0 < b \<Longrightarrow> c_div a b = Some (a div b)"
  by (cases "a = 0") (auto simp: c_div_def)

lemma c_div_small: "- b < a \<Longrightarrow> a \<le> 0 \<Longrightarrow> 0 < b \<Longrightarrow> c_div a b = Some 0"
  by (auto simp: c_div_def)

lemma tile_index:
  assumes "x \<in> set (tiles lo m)" "0 \<le> lo" "m = 4 * q" "4 \<le> q"
  shows "\<exists>i. c_div (x * SIDE - lo) q = Some i \<and> 0 \<le> i \<and> i < 4"
proof -
  have x: "lo div 4 \<le> x" "x \<le> (lo + m + 3) div 4 - 1" using assms(1) by (simp_all add: tiles_def SIDE_def algebra_simps)
  then have r: "- 4 < x * 4 - lo" "x * 4 - lo < 4 * q" using assms(3) by linarith+
  show ?thesis
  proof (cases "0 \<le> x * 4 - lo")
    case True
    have "0 \<le> (x * 4 - lo) mod q" using assms(4) by simp
    then have "q * ((x * 4 - lo) div q) \<le> x * 4 - lo" using mult_div_mod_eq [of q "x * 4 - lo"] by linarith
    then have "q * ((x * 4 - lo) div q) < q * 4" using r(2) by simp
    then have "(x * 4 - lo) div q < 4" using assms(4) by (simp only: mult_less_cancel_left_pos)
    moreover have "0 \<le> (x * 4 - lo) div q" using True assms(4) by (simp add: pos_imp_zdiv_nonneg_iff)
    ultimately show ?thesis using c_div_nonneg [OF True, of q] assms(4) by (simp add: SIDE_def)
  next
    case False
    then show ?thesis using c_div_small [of q "x * 4 - lo"] r(1) assms(4) by (simp add: SIDE_def)
  qed
qed

lemma draw_tiles_ok: "(\<And>x y. (x, y) \<in> set ps \<Longrightarrow> \<exists>r. draw_tile sz b x y = Some r) \<Longrightarrow> \<exists>rs. draw_tiles sz b ps = Some rs"
proof (induction ps)
  case (Cons p ps)
  obtain x y where p: "p = (x, y)" by (cases p)
  obtain r where "draw_tile sz b x y = Some r" using Cons.prems [of x y] p by auto
  moreover obtain rs where "draw_tiles sz b ps = Some rs" using Cons.IH Cons.prems by auto
  ultimately show ?case using p by simp
qed simp

lemma splash_ok:
  assumes "fits w h" "weight b \<le> 513"
  shows "\<exists>rs. splash (initScreen w h) b = Some rs"
proof -
  obtain q where q: "min w h = 4 * q" "4 \<le> q" using assms(1) by (auto simp: fits_def dvd_def)
  let ?sz = "initScreen w h"
  have sz: "main_w ?sz = 4 * q" "main_h ?sz = 4 * q" "block_w ?sz = q" "block_h ?sz = q" "0 \<le> top_x ?sz" "0 \<le> top_y ?sz"
    using q(1) by (auto simp: initScreen_def Let_def min_def split: if_splits)
  have "\<exists>r. draw_tile ?sz b x y = Some r" if p: "(x, y) \<in> set (List.product (tiles (top_x ?sz) (main_w ?sz)) (tiles (top_y ?sz) (main_h ?sz)))" for x y
  proof -
    obtain i where i: "c_div (x * SIDE - top_x ?sz) q = Some i" "0 \<le> i" "i < 4" using tile_index [OF _ sz(5) sz(1) q(2)] p by auto
    obtain j where j: "c_div (y * SIDE - top_y ?sz) q = Some j" "0 \<le> j" "j < 4" using tile_index [OF _ sz(6) sz(2) q(2)] p by auto
    have "(i, j) \<in> set cells" using i j by (simp add: in_cells)
    then have "wt (b (i, j)) \<le> 513" using weight_ge [of "(i, j)" b] assms(2) by simp
    then have "unat (b (i, j)) < length colors"
    proof (cases "b (i, j) = 0")
      case False
      then have "2 ^ (unat (b (i, j)) - 1) \<le> (513 :: nat)" using \<open>wt _ \<le> 513\<close> by (simp add: wt_def)
      also have "\<dots> < 2 ^ 10" by simp
      finally have "unat (b (i, j)) - 1 < 10" by (rule power_less_imp_less_exp [rotated]) simp
      then show ?thesis by (simp add: colors_def)
    qed (simp add: colors_def)
    then show ?thesis using i j sz(3,4) by (simp add: draw_tile_def)
  qed
  then show ?thesis unfolding splash_def by (rule draw_tiles_ok)
qed

lemma game_run:
  assumes "rounds n s" "fits w h"
  shows "n < 512 \<and> weight (blocks s) = n + 1 \<and> small (blocks s) \<and>
     (\<forall>d. \<exists>ok win s' rs. goRound d s = Some ((ok, win), s') \<and> splash (initScreen w h) (blocks s') = Some rs)"
proof -
  note i = rounds_inv [OF assms(1)]
  have w: "weight (blocks s) \<le> 512" using i small_weight by blast
  have "\<exists>ok win s' rs. goRound d s = Some ((ok, win), s') \<and> splash (initScreen w h) (blocks s') = Some rs" for d
  proof -
    let ?b = "push_cells d cells (blocks s)"
    have p: "weight ?b = weight (blocks s)" by (rule push_weight) (use w in auto)
    obtain ok win s' where r: "goRound d s = Some ((ok, win), s')"
      "if ok then \<exists>c\<in>set cells. ?b c = 0 \<and> blocks s' = ?b(c := 1) else blocks s' = ?b \<and> (\<forall>c\<in>set cells. blocks s' c \<noteq> 0)" using goRound_run [of d s] by blast
    have "weight (blocks s') \<le> 513"
      using r(2) p w weight_add [of _ ?b] by (cases ok) auto
    then show ?thesis using r(1) splash_ok [OF assms(2)] by blast
  qed
  then show ?thesis using i w by auto
qed

text \<open>The first round never ends a game.\<close>

lemma first_round: "\<exists>s'. goRound d (gameStart s) = Some ((True, False), s')"
proof -
  let ?b = "push_cells d cells (blocks (gameStart s))"
  have w: "weight ?b = 1" using start_weight [of s] by (subst push_weight) simp_all
  have "unat (?b c) < 7" if "c \<in> set cells" for c
  proof (cases "?b c = 0")
    case False
    then have "(2 :: nat) ^ (unat (?b c) - 1) < 2 ^ 1" using weight_ge [OF that, of ?b] w by (simp add: wt_def)
    then have "unat (?b c) - 1 < 1" by (rule power_less_imp_less_exp [rotated]) simp
    then show ?thesis by simp
  qed simp
  then have win: "\<not> list_ex (\<lambda>c. 7 \<le> ?b c) cells" by (auto simp: list_ex_iff not_le word_less_nat_alt)
  have full: "\<not> (\<forall>c\<in>set cells. ?b c \<noteq> 0)"
  proof
    assume f: "\<forall>c\<in>set cells. ?b c \<noteq> 0"
    have "(\<Sum>c\<in>set cells. 1) \<le> weight ?b" unfolding weight_sum by (rule sum_mono) (use f in \<open>simp add: wt_def\<close>)
    then show False using w card_cells by simp
  qed
  obtain ok wn s' where r: "goRound d (gameStart s) = Some ((ok, wn), s')" "wn = list_ex (\<lambda>c. 7 \<le> ?b c) cells"
    "if ok then \<exists>c\<in>set cells. ?b c = 0 \<and> blocks s' = ?b(c := 1)
     else blocks s' = ?b \<and> (\<forall>c\<in>set cells. blocks s' c \<noteq> 0)" using goRound_run [of d "gameStart s"] by blast
  have "ok" using r(3) full by (cases ok) auto
  then show ?thesis using r(1,2) win by simp
qed

section \<open>Properties\<close>

text \<open>C32: The seven colours game always ends: after \<open>n\<close> rounds the weight of the board (a block of colour
  \<open>v\<close> counts \<open>2 ^ (v - 1)\<close>) is \<open>n + 1\<close>, nobody has won only while all colours are below
  the seventh, so there are fewer than 512 such rounds; every further round returns (the halt in \<open>goRound\<close> is
  never reached) and what it leaves can be drawn without leaving the board or the table of colours.\<close>
theorem game_ends:
  assumes "rounds n s" "fits w h"
  shows "n < 512 \<and> weight (blocks s) = n + 1 \<and> small (blocks s) \<and>
     (\<forall>d. \<exists>ok win s' rs. goRound d s = Some ((ok, win), s') \<and> splash (initScreen w h) (blocks s') = Some rs)"
  using assms by (rule game_run)

theorem game_ends_witness:
  "\<exists>s s'. goRound L (gameStart \<lparr>blocks = (\<lambda>_. 0), rnd_next = 1, gstate = Ended\<rparr>) = Some ((True, False), s) \<and>
     weight (blocks s) = 2 \<and> goRound R s \<noteq> None"
proof -
  let ?s = "gameStart \<lparr>blocks = (\<lambda>_. 0), rnd_next = 1, gstate = Ended\<rparr>"
  obtain s where s: "goRound L ?s = Some ((True, False), s)" using first_round by blast
  have "rounds (Suc 0) s" using rounds.round [OF rounds.start s] .
  moreover have "fits 400 300" by (simp add: fits_def)
  ultimately show ?thesis using s game_ends [of "Suc 0" s 400 300] by fastforce
qed

end
