(* ===== verification/Frecov.thy ===== *)
theory Frecov
  imports Prelude
begin

text \<open>
  Recovery of pictures from an image of a FAT32 file system (\<open>frecov/frecov.c\<close>). The image is the
  list of its bytes; a structure is read from it at an offset, byte for byte as the packed declarations lay
  it out, and reading outside of the image is undefined. The check sums come from an external program:
  \<open>sha1\<close>. \<open>qsort\<close> is the one of the C library, whose order of equal elements is open.
\<close>

section \<open>Reading the image\<close>

type_synonym u16 = "16 word"
type_synonym image = "u8 list"

definition bytes_from :: "image \<Rightarrow> nat \<Rightarrow> nat \<Rightarrow> u8 list option" where
  "bytes_from img p n = do { Assert (p + n \<le> length img); Some (bytes_at p n img) }"

fun le_nat :: "u8 list \<Rightarrow> nat" where
  "le_nat [] = 0"
| "le_nat (b # bs) = unat b + 256 * le_nat bs"

definition u16_at :: "u8 list \<Rightarrow> nat \<Rightarrow> u16" where "u16_at bs k = of_nat (le_nat (bytes_at k 2 bs))"
definition u32_at :: "u8 list \<Rightarrow> nat \<Rightarrow> u32" where "u32_at bs k = of_nat (le_nat (bytes_at k 4 bs))"

section \<open>Structures\<close>

definition DP_Sub :: u8 where "DP_Sub = 16"
definition DP_Long :: u8 where "DP_Long = 0x0f"

record PBR =
  oem_name :: "u8 list"
  bytes_per_sector :: u16
  sector_per_cluster :: u8
  reserved_sector_count :: u16
  fat_count :: u8
  root_dir_entry_count :: u16
  total_sector_16 :: u16
  media :: u8
  fat_size_16 :: u16
  sector_per_track :: u16
  heads_count :: u16
  hidden_sectors :: u32
  total_sector_32 :: u32
  fat_size_32 :: u32
  external_flags :: u16
  fs_version :: u16
  root_dir_cluster :: u32
  fs_info :: u16
  boot_record_backup :: u16
  driver_count :: u8
  boot_signature :: u8
  volume_id :: u32
  volume_label :: "u8 list"
  pbr_fs_type :: "u8 list"

definition detect_fat :: "image \<Rightarrow> PBR option" where
  "detect_fat img = do {
     bs \<leftarrow> bytes_from img 0 90;
     Some \<lparr>oem_name = bytes_at 3 8 bs, bytes_per_sector = u16_at bs 11, sector_per_cluster = bs ! 13,
       reserved_sector_count = u16_at bs 14, fat_count = bs ! 16, root_dir_entry_count = u16_at bs 17,
       total_sector_16 = u16_at bs 19, media = bs ! 21, fat_size_16 = u16_at bs 22, sector_per_track = u16_at bs 24,
       heads_count = u16_at bs 26, hidden_sectors = u32_at bs 28, total_sector_32 = u32_at bs 32, fat_size_32 = u32_at bs 36,
       external_flags = u16_at bs 40, fs_version = u16_at bs 42, root_dir_cluster = u32_at bs 44, fs_info = u16_at bs 48,
       boot_record_backup = u16_at bs 50, driver_count = bs ! 64, boot_signature = bs ! 66, volume_id = u32_at bs 67,
       volume_label = bytes_at 71 11 bs, pbr_fs_type = bytes_at 82 8 bs\<rparr> }"

text \<open>The products are unsigned: they wrap around at 32 bits.\<close>

definition get_fat_area_offset :: "PBR \<Rightarrow> u32 \<Rightarrow> u32" where
  "get_fat_area_offset pbr fat_id = ucast (bytes_per_sector pbr) * (ucast (reserved_sector_count pbr) + fat_id * fat_size_32 pbr)"

definition get_data_area_offset :: "PBR \<Rightarrow> u32" where
  "get_data_area_offset pbr =
     ucast (bytes_per_sector pbr) * (ucast (reserved_sector_count pbr) + ucast (fat_count pbr) * fat_size_32 pbr)"

definition get_cluster_offset :: "PBR \<Rightarrow> u32 \<Rightarrow> u32" where
  "get_cluster_offset pbr cluster_id =
     get_data_area_offset pbr + ucast (bytes_per_sector pbr) * ucast (sector_per_cluster pbr) * (cluster_id - 2)"

record ShortDirentry =
  sd_name :: "u8 list"
  sd_ext :: "u8 list"
  sd_prop :: u8
  sd_reserved :: u8
  create_time_ms :: u8
  create_time :: u16
  create_date :: u16
  access_date :: u16
  cluster_high :: u16
  modify_time :: u16
  modify_date :: u16
  cluster_low :: u16
  sd_size :: u32

definition short_entry :: "u8 list \<Rightarrow> ShortDirentry" where
  "short_entry bs = \<lparr>sd_name = bytes_at 0 8 bs, sd_ext = bytes_at 8 3 bs, sd_prop = bs ! 11, sd_reserved = bs ! 12,
     create_time_ms = bs ! 13, create_time = u16_at bs 14, create_date = u16_at bs 16, access_date = u16_at bs 18,
     cluster_high = u16_at bs 20, modify_time = u16_at bs 22, modify_date = u16_at bs 24, cluster_low = u16_at bs 26,
     sd_size = u32_at bs 28\<rparr>"

record LongDirentry =
  ld_prop :: u8
  ld_name1 :: "u8 list"
  ld_flag :: u8
  ld_reserved :: u8
  ld_checksum :: u8
  ld_name2 :: "u8 list"
  ld_cluster :: u16
  ld_name3 :: "u8 list"

definition long_entry :: "u8 list \<Rightarrow> LongDirentry" where
  "long_entry bs = \<lparr>ld_prop = bs ! 0, ld_name1 = bytes_at 1 10 bs, ld_flag = bs ! 11, ld_reserved = bs ! 12,
     ld_checksum = bs ! 13, ld_name2 = bytes_at 14 12 bs, ld_cluster = u16_at bs 26, ld_name3 = bytes_at 28 4 bs\<rparr>"

definition is_last_long_entry :: "LongDirentry \<Rightarrow> int" where
  "is_last_long_entry entry = (if bit (ld_prop entry) 6 then 1 else 0)"

text \<open>The shifts are done on \<open>int\<close>.\<close>

definition get_long_entry_index :: "LongDirentry \<Rightarrow> u8" where
  "get_long_entry_index entry = ucast (drop_bit 3 (push_bit 3 (ucast (ld_prop entry) :: u32)))"

definition get_cluster_index :: "ShortDirentry \<Rightarrow> u32" where
  "get_cluster_index entry = or (push_bit 16 (ucast (cluster_high entry))) (ucast (cluster_low entry))"

function count1 :: "u32 \<Rightarrow> nat" where
  "count1 x = (if x = 0 then 0 else unat (and x 1) + count1 (drop_bit 1 x))"
  by pat_completeness auto
termination
proof (relation "measure unat")
  fix x :: u32 assume "x \<noteq> 0"
  then have "0 < unat x" by (simp add: unat_gt_0)
  then show "(drop_bit 1 x, x) \<in> measure unat" by (simp add: drop_bit_eq_div unat_div)
qed simp

declare count1.simps [simp del]

section \<open>Directory entries\<close>

record RecoverFile =
  rf_name :: "u8 list"
  rf_size :: u32
  rf_cluster :: u32
  rf_shid :: u32

text \<open>The low bytes of the thirteen characters of a long entry, last first.\<close>

definition long_chars :: "LongDirentry \<Rightarrow> u8 list" where
  "long_chars lo = map (\<lambda>i. ld_name3 lo ! i) [2, 0] @ map (\<lambda>i. ld_name2 lo ! i) [10, 8, 6, 4, 2, 0] @
     map (\<lambda>i. ld_name1 lo ! i) [8, 6, 4, 2, 0]"

definition is_bmp :: "ShortDirentry \<Rightarrow> bool" where
  "is_bmp sh \<longleftrightarrow> sd_reserved sh = 0 \<and> count1 (ucast (sd_prop sh)) = 1 \<and> sd_ext sh = map byte_of ''BMP''"

text \<open>\<open>temp\<close> holds what was collected of a long name, and \<open>None\<close> when it overflows. The result
  is the position behind the entry, or -1.\<close>

partial_function (option) scan_entries ::
  "image \<Rightarrow> nat \<Rightarrow> u32 \<Rightarrow> u32 \<Rightarrow> u8 list \<Rightarrow> RecoverFile \<Rightarrow> (u32 \<times> RecoverFile) option" where
  "scan_entries img start pos sz temp file =
     (if \<not> pos < sz then Some (-1, file)
      else do {
        bs \<leftarrow> bytes_from img (start + unat pos) 32;
        let sh = short_entry bs;
        if sd_prop sh = DP_Long then do {
          let lo = long_entry bs;
          if ld_reserved lo \<noteq> 0 \<or> ld_cluster lo \<noteq> 0 then scan_entries img start (pos + 32) sz temp file
          else if temp = [] \<and> is_last_long_entry lo = 0 then scan_entries img start (pos + 32) sz temp file
          else do {
            Assert (length temp + 13 \<le> 512);
            scan_entries img start (pos + 32) sz (temp @ long_chars lo) file } }
        else if \<not> is_bmp sh then scan_entries img start (pos + 32) sz temp file
        else do {
          Assert (length temp < 512);
          let name = (if temp \<noteq> [] then rev temp @ [0] else sd_name sh @ [byte_of (CHR ''.'')] @ sd_ext sh @ [0]);
          Some (pos + 32, file\<lparr>rf_size := sd_size sh, rf_cluster := get_cluster_index sh, rf_name := name, rf_shid := pos\<rparr>) } })"

definition detect_next_direntry :: "image \<Rightarrow> nat \<Rightarrow> u32 \<Rightarrow> u32 \<Rightarrow> RecoverFile \<Rightarrow> (u32 \<times> RecoverFile) option" where
  "detect_next_direntry img start offset sz file = scan_entries img start offset sz [] file"

text \<open>The C string in an array of bytes.\<close>

definition c_text :: "u8 list \<Rightarrow> u8 list" where "c_text bs = takeWhile (\<lambda>b. b \<noteq> 0) bs"

section \<open>Recovery\<close>

record Answer =
  an_checksum :: string
  an_name :: "u8 list"
  an_rank :: nat

text \<open>The answers so far and the files written when \<open>tofile\<close> is set.\<close>

partial_function (option) recover_loop ::
  "(u8 list \<Rightarrow> string) \<Rightarrow> image \<Rightarrow> PBR \<Rightarrow> bool \<Rightarrow> nat \<Rightarrow> u32 \<Rightarrow> u32 \<Rightarrow> RecoverFile \<Rightarrow> Answer list \<Rightarrow> (u8 list \<times> u8 list) list \<Rightarrow>
   (Answer list \<times> (u8 list \<times> u8 list) list) option" where
  "recover_loop sha1 img pbr tofile start pos sz file ans out =
     (if \<not> pos < sz then Some (ans, out)
      else do {
        (pos, file) \<leftarrow> detect_next_direntry img start pos sz file;
        if pos = -1 then Some (ans, out)
        else if rf_size file = 0 \<or> rf_cluster file = 0 then recover_loop sha1 img pbr tofile start pos sz file ans out
        else do {
          data \<leftarrow> bytes_from img (unat (get_cluster_offset pbr (rf_cluster file))) (max 2 (unat (rf_size file)));
          Assert (data ! 0 = byte_of (CHR ''B'') \<and> data ! 1 = byte_of (CHR ''M''));
          let src = take (unat (rf_size file)) data;
          let out = (if tofile then out @ [(c_text (rf_name file), src)] else out);
          Assert (length ans < 10240);
          recover_loop sha1 img pbr tofile start pos sz file
            (ans @ [\<lparr>an_checksum = sha1 src, an_name = c_text (rf_name file),
              an_rank = (if byte_of (CHR ''~'') \<in> set (c_text (rf_name file)) then 1 else 0)\<rparr>]) out } })"

definition recover ::
  "(u8 list \<Rightarrow> string) \<Rightarrow> ((Answer \<Rightarrow> nat) \<Rightarrow> Answer list \<Rightarrow> Answer list) \<Rightarrow> image \<Rightarrow> PBR \<Rightarrow> bool \<Rightarrow> RecoverFile \<Rightarrow>
   ((string \<times> u8 list) list \<times> (u8 list \<times> u8 list) list) option" where
  "recover sha1 qsort img pbr tofile file = do {
     let data_offset = get_data_area_offset pbr;
     (ans, out) \<leftarrow> recover_loop sha1 img pbr tofile (unat data_offset) 0 (of_nat (length img) - data_offset) file [] [];
     Some (map (\<lambda>a. (an_checksum a, an_name a)) (qsort an_rank ans), out) }"

definition frecov_main ::
  "(u8 list \<Rightarrow> string) \<Rightarrow> ((Answer \<Rightarrow> nat) \<Rightarrow> Answer list \<Rightarrow> Answer list) \<Rightarrow> image \<Rightarrow> (string \<times> u8 list) list option" where
  "frecov_main sha1 qsort img = do {
     pbr \<leftarrow> detect_fat img;
     (lines, out) \<leftarrow> recover sha1 qsort img pbr False \<lparr>rf_name = replicate 512 0, rf_size = 0, rf_cluster = 0, rf_shid = 0\<rparr>;
     Some lines }"

end
