(* ===== verification/FrecovProps.thy ===== *)
theory FrecovProps
  imports Frecov
begin

text \<open>
  Long names: a name written the way VFAT does, into entries of thirteen characters in reverse order
  before the short entry of its file, is the name that is recovered.
\<close>

section \<open>Writing long names\<close>

text \<open>A character as two bytes; behind the name a zero, and ones up to a multiple of thirteen.\<close>

definition slots :: "u8 list \<Rightarrow> (u8 \<times> u8) list" where
  "slots name = map (\<lambda>c. (c, 0)) name @
     (if 13 dvd length name then [] else (0, 0) # replicate (12 - length name mod 13) (0xFF, 0xFF))"

definition pairs :: "(u8 \<times> u8) list \<Rightarrow> u8 list" where
  "pairs sl = concat (map (\<lambda>(l, h). [l, h]) sl)"

definition lfn_entry :: "u8 \<Rightarrow> u8 \<Rightarrow> (u8 \<times> u8) list \<Rightarrow> u8 list" where
  "lfn_entry ord ck sl = [ord] @ pairs (take 5 sl) @ [0x0F, 0, ck] @ pairs (take 6 (drop 5 sl)) @ [0, 0] @ pairs (drop 11 sl)"

definition chunk :: "'a list \<Rightarrow> nat \<Rightarrow> 'a list" where
  "chunk xs i = take 13 (drop (13 * i) xs)"

definition chunks :: "u8 list \<Rightarrow> nat" where "chunks name = length (slots name) div 13"

text \<open>The entries of a name, the last part first and marked.\<close>

definition lfn :: "u8 \<Rightarrow> u8 list \<Rightarrow> u8 list list" where
  "lfn ck name = map (\<lambda>i. lfn_entry (of_nat (i + 1) + (if i + 1 = chunks name then 0x40 else 0)) ck (chunk (slots name) i))
     (rev [0..<chunks name])"

section \<open>An entry of a long name\<close>

lemma lfn_entry_fields:
  assumes "length sl = 13"
  shows "length (lfn_entry ord ck sl) = 32" "sd_prop (short_entry (lfn_entry ord ck sl)) = DP_Long"
    "ld_reserved (long_entry (lfn_entry ord ck sl)) = 0" "ld_cluster (long_entry (lfn_entry ord ck sl)) = 0"
    "long_chars (long_entry (lfn_entry ord ck sl)) = rev (map fst sl)"
    "is_last_long_entry (long_entry (lfn_entry ord ck sl)) = (if bit ord 6 then 1 else 0)"
proof -
  obtain a b c d e f g h i j k l m where sl: "sl = [a, b, c, d, e, f, g, h, i, j, k, l, m]"
    using assms by (auto simp: length_Suc_conv eval_nat_numeral)
  have e: "lfn_entry ord ck sl = [ord, fst a, snd a, fst b, snd b, fst c, snd c, fst d, snd d, fst e, snd e, 0x0F, 0, ck,
     fst f, snd f, fst g, snd g, fst h, snd h, fst i, snd i, fst j, snd j, fst k, snd k, 0, 0, fst l, snd l, fst m, snd m]"
    unfolding sl lfn_entry_def pairs_def by (simp add: case_prod_beta)
  show "length (lfn_entry ord ck sl) = 32" unfolding e by simp
  show "sd_prop (short_entry (lfn_entry ord ck sl)) = DP_Long" unfolding e by (simp add: short_entry_def DP_Long_def)
  show "ld_reserved (long_entry (lfn_entry ord ck sl)) = 0" unfolding e by (simp add: long_entry_def)
  show "ld_cluster (long_entry (lfn_entry ord ck sl)) = 0" unfolding e by (simp add: long_entry_def u16_at_def bytes_at_def)
  show "long_chars (long_entry (lfn_entry ord ck sl)) = rev (map fst sl)"
    unfolding e unfolding sl by (simp add: long_entry_def long_chars_def bytes_at_def)
  show "is_last_long_entry (long_entry (lfn_entry ord ck sl)) = (if bit ord 6 then 1 else 0)"
    unfolding e by (simp add: long_entry_def is_last_long_entry_def)
qed

lemma concat_chunks: "length xs = 13 * n \<Longrightarrow> concat (map (chunk xs) [0..<n]) = xs"
proof (induction n arbitrary: xs)
  case (Suc n)
  have c: "chunk xs i = chunk (take (13 * n) xs) i" if "i \<in> set [0..<n]" for i
  proof -
    have "13 \<le> 13 * n - 13 * i" using that by simp
    then show ?thesis by (simp add: chunk_def drop_take min_absorb1)
  qed
  have "concat (map (chunk xs) [0..<n]) = concat (map (chunk (take (13 * n) xs)) [0..<n])"
    by (rule arg_cong [of _ _ concat], rule map_cong [OF refl c])
  also have "\<dots> = take (13 * n) xs" using Suc by simp
  finally show ?case using Suc.prems by (simp add: chunk_def [of xs n])
qed simp

lemma length_slots: "length (slots name) = 13 * chunks name"
proof -
  have "13 dvd length (slots name)"
  proof (cases "13 dvd length name")
    case False
    then have "length name mod 13 \<noteq> 0" by (simp add: dvd_eq_mod_eq_0)
    moreover have "length name mod 13 < 13" by simp
    ultimately have "length (slots name) = length name - length name mod 13 + 13" using False mod_less_eq_dividend [of "length name" 13]
      by (simp add: slots_def)
    then show ?thesis by (simp add: minus_mod_eq_mult_div)
  qed (simp add: slots_def)
  then show ?thesis by (simp add: chunks_def)
qed

lemma slots_name: "0 \<notin> set name \<Longrightarrow> c_text (map fst (slots name) @ [0]) = name"
proof -
  have "takeWhile (\<lambda>b. b \<noteq> 0) (name @ 0 # ys) = name" if "0 \<notin> set name" for ys
    using that by (induction name) auto
  moreover have "\<exists>ys. map fst (slots name) @ [0] = name @ 0 # ys" by (auto simp: slots_def o_def)
  ultimately show "0 \<notin> set name \<Longrightarrow> ?thesis" unfolding c_text_def by metis
qed

lemma chunk_length: "i < chunks name \<Longrightarrow> length (chunk (slots name) i) = 13"
  using length_slots [of name] by (simp add: chunk_def)

lemma concat_rev_rev: "concat (map (\<lambda>x. rev (f x)) (rev xs)) = rev (concat (map f xs))"
  by (induction xs) auto

section \<open>Scanning\<close>

text \<open>A position in the image, its entry, and what the loop does there.\<close>

definition entry_at :: "image \<Rightarrow> nat \<Rightarrow> u32 \<Rightarrow> u8 list \<Rightarrow> bool" where
  "entry_at img p pos e \<longleftrightarrow> bytes_from img (p + unat pos) 32 = Some e"

lemma scan_long:
  assumes "pos < sz" "entry_at img p pos e" "sd_prop (short_entry e) = DP_Long" "ld_reserved (long_entry e) = 0"
    "ld_cluster (long_entry e) = 0" "temp \<noteq> [] \<or> is_last_long_entry (long_entry e) \<noteq> 0" "length temp + 13 \<le> 512"
  shows "scan_entries img p pos sz temp file = scan_entries img p (pos + 32) sz (temp @ long_chars (long_entry e)) file"
  using assms by (subst scan_entries.simps) (auto simp: entry_at_def Let_def)

lemma scan_short:
  assumes "pos < sz" "entry_at img p pos e" "sd_prop (short_entry e) \<noteq> DP_Long" "is_bmp (short_entry e)" "temp \<noteq> []" "length temp < 512"
  shows "scan_entries img p pos sz temp file = Some (pos + 32, file\<lparr>rf_size := sd_size (short_entry e),
     rf_cluster := get_cluster_index (short_entry e), rf_name := rev temp @ [0], rf_shid := pos\<rparr>)"
  using assms by (subst scan_entries.simps) (simp add: entry_at_def Let_def)

text \<open>Positions of entries that follow each other.\<close>

lemma pos_step: "unat pos + 32 < 2 ^ 32 \<Longrightarrow> unat (pos + 32 :: u32) = unat pos + 32"
  by (subst unat_word_ariths) simp

lemma entry_in:
  assumes "img = pre @ concat (es @ e # fs) @ post" "\<forall>e\<in>set (es @ e # fs). length e = 32" "length pre = p + q"
    "q + 32 * length es = unat pos"
  shows "entry_at img p pos e"
proof -
  have l: "length (concat es) = 32 * length es" using assms(2) by (induction es) auto
  have "bytes_at (p + unat pos) 32 img = e"
    using assms(2-4) l unfolding assms(1) by (simp add: bytes_at_def)
  moreover have "p + unat pos + 32 \<le> length img" using assms(2-4) l unfolding assms(1) by simp
  ultimately show ?thesis by (simp add: entry_at_def bytes_from_def)
qed

definition long_ok :: "u8 list \<Rightarrow> bool" where
  "long_ok e \<longleftrightarrow> sd_prop (short_entry e) = DP_Long \<and> ld_reserved (long_entry e) = 0 \<and> ld_cluster (long_entry e) = 0 \<and>
     length (long_chars (long_entry e)) = 13"

lemma scan_longs:
  "img = pre @ concat (ds @ es @ fs) @ post \<Longrightarrow> \<forall>e\<in>set (ds @ es @ fs). length e = 32 \<Longrightarrow> length pre = p + q \<Longrightarrow>
   q + 32 * length ds = unat pos \<Longrightarrow> unat pos + 32 * length es \<le> unat sz \<Longrightarrow> \<forall>e\<in>set es. long_ok e \<Longrightarrow>
   temp \<noteq> [] \<or> es = [] \<or> is_last_long_entry (long_entry (hd es)) \<noteq> 0 \<Longrightarrow> length temp + 13 * length es \<le> 512 \<Longrightarrow>
   \<exists>pos'. unat pos' = unat pos + 32 * length es \<and> scan_entries img p pos sz temp file =
     scan_entries img p pos' sz (temp @ concat (map (\<lambda>e. long_chars (long_entry e)) es)) file"
proof (induction es arbitrary: ds pos temp)
  case (Cons e es)
  have "unat sz < 2 ^ 32" using unsigned_less [of sz] by simp
  then have lt: "unat pos + 32 < 2 ^ 32" using Cons.prems(5) by simp
  then have u: "unat (pos + 32) = unat pos + 32" by (rule pos_step)
  have at: "entry_at img p pos e" by (rule entry_in [of img pre ds e "es @ fs" post p q]) (use Cons.prems in auto)
  have ok: "long_ok e" using Cons.prems(6) by simp
  have "pos < sz" using Cons.prems(5) by (simp add: word_less_nat_alt)
  then have s: "scan_entries img p pos sz temp file = scan_entries img p (pos + 32) sz (temp @ long_chars (long_entry e)) file"
    using scan_long [OF _ at] ok Cons.prems(7,8) by (auto simp: long_ok_def)
  obtain pos' where p': "unat pos' = unat (pos + 32) + 32 * length es" "scan_entries img p (pos + 32) sz (temp @ long_chars (long_entry e)) file =
      scan_entries img p pos' sz ((temp @ long_chars (long_entry e)) @ concat (map (\<lambda>e. long_chars (long_entry e)) es)) file"
  proof -
    have a: "temp @ long_chars (long_entry e) \<noteq> [] \<or> es = [] \<or> is_last_long_entry (long_entry (hd es)) \<noteq> 0"
      using ok by (auto simp: long_ok_def)
    have b: "length (temp @ long_chars (long_entry e)) + 13 * length es \<le> 512" using Cons.prems(8) ok by (simp add: long_ok_def)
    have c: "img = pre @ concat ((ds @ [e]) @ es @ fs) @ post" "\<forall>e\<in>set ((ds @ [e]) @ es @ fs). length e = 32"
      "q + 32 * length (ds @ [e]) = unat (pos + 32)" "unat (pos + 32) + 32 * length es \<le> unat sz" "\<forall>e\<in>set es. long_ok e"
      using Cons.prems u by auto
    show ?thesis using Cons.IH [OF c(1,2) Cons.prems(3) c(3-5) a b] that by blast
  qed
  then show ?case using s u by (intro exI [of _ pos']) simp
qed auto

section \<open>A long name is found\<close>

lemma lfn_fields:
  "\<forall>e\<in>set (lfn ck name). length e = 32 \<and> long_ok e" "length (lfn ck name) = chunks name"
proof -
  show "\<forall>e\<in>set (lfn ck name). length e = 32 \<and> long_ok e"
    using lfn_entry_fields [OF chunk_length] by (auto simp: lfn_def long_ok_def chunk_length)
qed (simp add: lfn_def)

lemma lfn_chars: "concat (map (\<lambda>e. long_chars (long_entry e)) (lfn ck name)) = rev (map fst (slots name))"
proof -
  have "map (\<lambda>e. long_chars (long_entry e)) (lfn ck name) = map (\<lambda>i. rev (map fst (chunk (slots name) i))) (rev [0..<chunks name])"
    using lfn_entry_fields(5) [OF chunk_length] by (simp add: lfn_def o_def)
  then have "concat (map (\<lambda>e. long_chars (long_entry e)) (lfn ck name)) = rev (concat (map (\<lambda>i. map fst (chunk (slots name) i)) [0..<chunks name]))"
    by (simp only: concat_rev_rev)
  also have "concat (map (\<lambda>i. map fst (chunk (slots name) i)) [0..<chunks name]) = map fst (concat (map (chunk (slots name)) [0..<chunks name]))"
    by (simp add: map_concat o_def)
  also have "\<dots> = map fst (slots name)" using concat_chunks [OF length_slots] by simp
  finally show ?thesis .
qed

lemma lfn_first: "0 < chunks name \<Longrightarrow> chunks name \<le> 39 \<Longrightarrow> is_last_long_entry (long_entry (hd (lfn ck name))) \<noteq> 0"
proof -
  assume c: "0 < chunks name" "chunks name \<le> 39"
  let ?m = "chunks name - 1"
  have l: "length (chunk (slots name) ?m) = 13" by (rule chunk_length) (use c in simp)
  have "rev [0..<chunks name] = ?m # rev [0..<?m]" using c(1) by (metis Suc_diff_1 rev.simps(2) rev_append rev_rev_ident upt_Suc_append zero_le append_Cons append_Nil rev_singleton_conv)
  then have h: "hd (lfn ck name) = lfn_entry (of_nat (chunks name) + 0x40) ck (chunk (slots name) ?m)"
    using c(1) by (simp add: lfn_def)
  have "unat (of_nat (chunks name) + 0x40 :: u8) = chunks name + 64" using c(2)
    by (simp add: unat_word_ariths unat_of_nat)
  moreover have "(chunks name + 64) div 64 = 1" using c(2) by simp
  ultimately have "bit (unat (of_nat (chunks name) + 0x40 :: u8)) 6" by (simp add: bit_iff_odd)
  then have "bit (of_nat (chunks name) + 0x40 :: u8) 6" by (simp add: bit_unsigned_iff)
  then show ?thesis unfolding h using lfn_entry_fields(6) [OF l] by simp
qed

lemma slots_bound: "name \<noteq> [] \<Longrightarrow> length name \<le> 255 \<Longrightarrow> length (slots name) \<le> 267 \<and> 0 < length (slots name)"
proof -
  assume n: "name \<noteq> []" "length name \<le> 255"
  have "length (slots name) \<le> length name + 12" if "\<not> 13 dvd length name"
  proof -
    have "length name mod 13 < 13" "length name mod 13 \<noteq> 0" using that by (simp_all add: dvd_eq_mod_eq_0)
    then show ?thesis using that by (simp add: slots_def)
  qed
  then have "length (slots name) \<le> 267" using n(2) by (cases "13 dvd length name") (auto simp: slots_def)
  then show "length (slots name) \<le> 267 \<and> 0 < length (slots name)" using n(1) by (simp add: slots_def)
qed

lemma detect_run:
  assumes img: "img = pre @ concat (lfn ck name @ [short]) @ post" "length pre = p + unat pos"
    and name: "0 \<notin> set name" "name \<noteq> []" "length name \<le> 255"
    and short: "length short = 32" "is_bmp (short_entry short)" "sd_prop (short_entry short) \<noteq> DP_Long"
    and sz: "unat pos + 32 * (chunks name + 1) \<le> unat sz"
  shows "\<exists>pos' file'. detect_next_direntry img p pos sz file = Some (pos', file') \<and> c_text (rf_name file') = name \<and>
     rf_size file' = sd_size (short_entry short) \<and> rf_cluster file' = get_cluster_index (short_entry short) \<and>
     unat (rf_shid file') = unat pos + 32 * chunks name \<and> pos' = rf_shid file' + 32"
proof -
  let ?es = "lfn ck name" and ?t = "rev (map fst (slots name))"
  have n: "13 * chunks name \<le> 267" "0 < chunks name" using slots_bound [OF name(2,3)] unfolding length_slots by auto
  obtain pos' where p': "unat pos' = unat pos + 32 * length ?es"
    "scan_entries img p pos sz [] file = scan_entries img p pos' sz ([] @ concat (map (\<lambda>e. long_chars (long_entry e)) ?es)) file"
    using scan_longs [of img pre "[]" ?es "[short]" post p "unat pos" pos sz "[]" "file"] img lfn_fields [of ck name] short(1) sz n lfn_first
    by auto
  have at: "entry_at img p pos' short"
    by (rule entry_in [of img pre ?es short "[]" post p "unat pos"]) (use img lfn_fields [of ck name] short(1) p'(1) in auto)
  have t: "length ?t = 13 * chunks name" using length_slots by simp
  have "pos' < sz" using p'(1) sz lfn_fields(2) [of ck name] by (simp add: word_less_nat_alt)
  moreover have "?t \<noteq> []" "length ?t < 512" using t n by auto
  ultimately have "scan_entries img p pos' sz ?t file = Some (pos' + 32, file\<lparr>rf_size := sd_size (short_entry short),
     rf_cluster := get_cluster_index (short_entry short), rf_name := rev ?t @ [0], rf_shid := pos'\<rparr>)"
    using scan_short [OF _ at short(3,2)] by blast
  then show ?thesis
    using p' lfn_chars [of ck name] slots_name [OF name(1)] lfn_fields(2) [of ck name] by (simp add: detect_next_direntry_def)
qed

section \<open>Properties\<close>

text \<open>C34: A long file name survives: when the entries of a name of at most 255 characters, written the way
  VFAT lays them out, stand in front of the short entry of a BMP file, then the scan from there returns
  exactly that name (however many entries it needed) with the size and the first cluster of the short entry, and goes on behind it.\<close>
theorem detect_long_name:
  assumes "img = pre @ concat (lfn ck name @ [short]) @ post" "length pre = p + unat pos"
    and "0 \<notin> set name" "name \<noteq> []" "length name \<le> 255"
    and "length short = 32" "is_bmp (short_entry short)" "sd_prop (short_entry short) \<noteq> DP_Long"
    and "unat pos + 32 * (chunks name + 1) \<le> unat sz"
  shows "\<exists>pos' file'. detect_next_direntry img p pos sz file = Some (pos', file') \<and> c_text (rf_name file') = name \<and>
     rf_size file' = sd_size (short_entry short) \<and> rf_cluster file' = get_cluster_index (short_entry short) \<and>
     unat (rf_shid file') = unat pos + 32 * chunks name \<and> pos' = rf_shid file' + 32"
  using assms by (rule detect_run)

text \<open>A picture behind seven bytes of something else and an entry that is no file.\<close>

definition demo_name :: "u8 list" where "demo_name = map byte_of ''holiday picture 7.bmp''"

definition demo_short :: "u8 list" where
  "demo_short = map byte_of ''HOLIDA~1BMP'' @ [32, 0] @ [0, 0, 0, 0, 0, 0, 0, 0, 0] @ [1, 2, 3, 4, 7, 0, 66, 1, 0, 0]"

theorem detect_long_name_witness:
  "\<exists>pos' file'. detect_next_direntry (replicate 39 0 @ concat (lfn 99 demo_name @ [demo_short])) 7 32 320
       \<lparr>rf_name = [], rf_size = 0, rf_cluster = 0, rf_shid = 0\<rparr> = Some (pos', file') \<and>
     c_text (rf_name file') = demo_name \<and> unat (rf_size file') = 322 \<and> unat (rf_shid file') = 96"
proof -
  have l: "length demo_name = 21" by (simp add: demo_name_def)
  then have n: "demo_name \<noteq> []" "length demo_name \<le> 255" "chunks demo_name = 2"
    by (auto simp: chunks_def slots_def)
  have z: "0 \<notin> set demo_name" by (simp add: demo_name_def byte_of_def)
  have c: "count1 (ucast (32 :: u8)) = 1" by (simp add: count1.simps)
  have s: "length demo_short = 32" "is_bmp (short_entry demo_short)" "sd_prop (short_entry demo_short) \<noteq> DP_Long"
    using c by (simp_all add: demo_short_def byte_of_def short_entry_def is_bmp_def bytes_at_def DP_Long_def)
  have "bytes_at 28 4 demo_short = [66, 1, 0, 0]" by (simp add: demo_short_def bytes_at_def)
  then have b: "unat (sd_size (short_entry demo_short)) = 322" by (simp add: short_entry_def u32_at_def)
  show ?thesis
    using detect_long_name [of "replicate 39 0 @ concat (lfn 99 demo_name @ [demo_short])" "replicate 39 0" 99 demo_name demo_short "[]" 7 32 320
      "\<lparr>rf_name = [], rf_size = 0, rf_cluster = 0, rf_shid = 0\<rparr>"] n s z b
    by auto
qed

end
