(* ===== verification/Libco.thy ===== *)
theory Libco
  imports Prelude
begin

text \<open>
  Coroutines (\<open>libco/co.c\<close>, \<open>libco/co.h\<close>). A client program is what it does next: compute on the
  shared memory, start a coroutine, yield, wait, or return; it may run for ever. What \<open>getcontext\<close>,
  \<open>makecontext\<close> and \<open>swapcontext\<close> save is a context: whose stack it is and where on it execution
  goes on, in the client or behind the \<open>swapcontext\<close> of \<open>resume_co\<close>. \<open>rand()\<close> is an argument of a step.
\<close>

section \<open>Programs and contexts\<close>

codatatype 's prog =
    Return
  | Compute "'s \<Rightarrow> 's \<times> 's prog"
  | Start string "nat \<Rightarrow> 's prog" nat "nat option \<Rightarrow> 's prog"
  | Yield "'s prog"
  | Wait "nat option" "'s prog"

text \<open>Who called \<open>resume_co\<close>, with its coroutine and the rest of the client.\<close>

datatype 's site =
    From_start nat "nat option \<Rightarrow> 's prog"
  | From_yield "'s prog"
  | From_wait nat "'s prog"

datatype 's point =
    In_client "'s prog"
  | In_resume int "'s site"

text \<open>\<open>None\<close>: the stack of \<open>main\<close>.\<close>

record 's ucontext =
  stack_of :: "nat option"
  point :: "'s point"

datatype co_state = FREE | INIT | RUN | SUSPEND | BEWAIT

record 's co =
  co_func :: "nat \<Rightarrow> 's prog"
  co_arg :: nat
  costate :: co_state
  ctx :: "'s ucontext option"
  pctx :: "'s ucontext option"
  co_name :: string

definition MAX_CO :: nat where "MAX_CO = 256"

record 's machine =
  coroutines :: "nat \<Rightarrow> 's co"
  current_co :: int
  cpu :: "'s ucontext"
  memory :: 's

text \<open>A fault is a failed assertion or a context that was never made.\<close>

datatype 's outcome = Exit 's | Fault | Go "'s machine"

definition state_of :: "'s machine \<Rightarrow> nat \<Rightarrow> co_state" where
  "state_of m i = costate (coroutines m i)"

definition set_co :: "nat \<Rightarrow> ('s co \<Rightarrow> 's co) \<Rightarrow> 's machine \<Rightarrow> 's machine" where
  "set_co i f m = m\<lparr>coroutines := (coroutines m)(i := f (coroutines m i))\<rparr>"

definition set_state :: "nat \<Rightarrow> co_state \<Rightarrow> 's machine \<Rightarrow> 's machine" where
  "set_state i st = set_co i (\<lambda>c. c\<lparr>costate := st\<rparr>)"

section \<open>Operations\<close>

text \<open>\<open>None\<close> is -1.\<close>

definition get_co :: "'s machine \<Rightarrow> co_state \<Rightarrow> nat \<Rightarrow> nat option" where
  "get_co m st start = find (\<lambda>i. state_of m i = st) (map (\<lambda>i. (start + i) mod MAX_CO) [0..<MAX_CO])"

text \<open>\<open>makecontext\<close> with \<open>co_func_wrap\<close>, which calls the function first.\<close>

definition create_co :: "nat \<Rightarrow> string \<Rightarrow> (nat \<Rightarrow> 's prog) \<Rightarrow> nat \<Rightarrow> 's machine \<Rightarrow> (nat \<times> 's machine) option" where
  "create_co rnd name func arg m = do {
     i \<leftarrow> get_co m FREE (rnd mod MAX_CO);
     Some (i, set_co i (\<lambda>c. c\<lparr>costate := INIT, co_func := func, co_arg := arg, co_name := name,
       ctx := Some \<lparr>stack_of = Some i, point = In_client (func arg)\<rparr>\<rparr>) m) }"

definition resume_co :: "nat \<Rightarrow> 's site \<Rightarrow> 's machine \<Rightarrow> 's outcome" where
  "resume_co i site m =
     (if state_of m i = FREE \<or> state_of m i = RUN then Fault
      else let m = (if state_of m i = SUSPEND \<or> state_of m i = INIT then set_state i RUN m else m) in
        case ctx (coroutines m i) of None \<Rightarrow> Fault
        | Some c \<Rightarrow>
            let m = set_co i (\<lambda>c. c\<lparr>pctx := Some \<lparr>stack_of = stack_of (cpu m), point = In_resume (current_co m) site\<rparr>\<rparr>) m
            in Go (m\<lparr>current_co := int i, cpu := c\<rparr>))"

definition in_client :: "'s prog \<Rightarrow> 's machine \<Rightarrow> 's machine" where
  "in_client p m = m\<lparr>cpu := (cpu m)\<lparr>point := In_client p\<rparr>\<rparr>"

text \<open>Behind \<open>swapcontext\<close>: \<open>resume_co\<close> restores \<open>current_co\<close> and its caller returns.\<close>

fun return_to :: "'s site \<Rightarrow> 's prog" where
  "return_to (From_start i k) = k (Some i)"
| "return_to (From_yield k) = k"
| "return_to (From_wait i k) = k"

definition resumed :: "int \<Rightarrow> 's site \<Rightarrow> 's machine \<Rightarrow> 's outcome" where
  "resumed old site m = Go (in_client (return_to site) (m\<lparr>current_co := old\<rparr>))"

definition co_start :: "nat \<Rightarrow> string \<Rightarrow> (nat \<Rightarrow> 's prog) \<Rightarrow> nat \<Rightarrow> (nat option \<Rightarrow> 's prog) \<Rightarrow> 's machine \<Rightarrow> 's outcome" where
  "co_start rnd name func arg k m = (case create_co rnd name func arg m of
       None \<Rightarrow> Go (in_client (k None) m)
     | Some (i, m) \<Rightarrow> resume_co i (From_start i k) m)"

definition co_yield :: "nat \<Rightarrow> 's prog \<Rightarrow> 's machine \<Rightarrow> 's outcome" where
  "co_yield rnd k m =
     (if current_co m = -1 then Go (in_client k m)
      else let i = nat (current_co m) in
        if state_of m i = BEWAIT then (case get_co m SUSPEND (rnd mod MAX_CO) of
            None \<Rightarrow> Go (in_client k m)
          | Some other \<Rightarrow> resume_co other (From_yield k) m)
        else if state_of m i = RUN then
          let m = set_state i SUSPEND m;
              m = set_co i (\<lambda>c. c\<lparr>ctx := Some \<lparr>stack_of = stack_of (cpu m), point = In_client k\<rparr>\<rparr>) m
          in (case pctx (coroutines m i) of None \<Rightarrow> Fault | Some c \<Rightarrow> Go (m\<lparr>cpu := c\<rparr>))
        else Fault)"

text \<open>A null pointer and a pointer that \<open>co_start\<close> never returned fault.\<close>

definition co_wait :: "nat option \<Rightarrow> 's prog \<Rightarrow> 's machine \<Rightarrow> 's outcome" where
  "co_wait thd k m = (case thd of
       None \<Rightarrow> Fault
     | Some i \<Rightarrow>
         if \<not> i < MAX_CO then Fault
         else if state_of m i = FREE then Go (in_client k m)
         else resume_co i (From_wait i k) (set_state i BEWAIT m))"

text \<open>The function of a coroutine has returned: the rest of \<open>co_func_wrap\<close>, then \<open>uc_link\<close>.\<close>

definition co_func_end :: "nat \<Rightarrow> 's machine \<Rightarrow> 's outcome" where
  "co_func_end i m =
     (let m = (set_state i FREE m)\<lparr>current_co := -1\<rparr>
      in case pctx (coroutines m i) of None \<Rightarrow> Fault | Some c \<Rightarrow> Go (m\<lparr>cpu := c\<rparr>))"

definition co_init :: "'s prog \<Rightarrow> 's \<Rightarrow> 's machine" where
  "co_init main s = \<lparr>coroutines = (\<lambda>_. \<lparr>co_func = (\<lambda>_. Return), co_arg = 0, costate = FREE, ctx = None, pctx = None, co_name = []\<rparr>),
     current_co = -1, cpu = \<lparr>stack_of = None, point = In_client main\<rparr>, memory = s\<rparr>"

section \<open>Execution\<close>

definition exec_client :: "nat \<Rightarrow> 's prog \<Rightarrow> 's machine \<Rightarrow> 's outcome" where
  "exec_client rnd p m = (case p of
       Return \<Rightarrow> (case stack_of (cpu m) of None \<Rightarrow> Exit (memory m) | Some i \<Rightarrow> co_func_end i m)
     | Compute f \<Rightarrow> (case f (memory m) of (s, k) \<Rightarrow> Go (in_client k (m\<lparr>memory := s\<rparr>)))
     | Start name func arg k \<Rightarrow> co_start rnd name func arg k m
     | Yield k \<Rightarrow> co_yield rnd k m
     | Wait thd k \<Rightarrow> co_wait thd k m)"

definition exec :: "nat \<Rightarrow> 's machine \<Rightarrow> 's outcome" where
  "exec rnd m = (case point (cpu m) of
       In_client p \<Rightarrow> exec_client rnd p m
     | In_resume old site \<Rightarrow> resumed old site m)"

text \<open>A client waits only for coroutines that are finished or suspended.\<close>

definition waits_well :: "'s machine \<Rightarrow> bool" where
  "waits_well m \<longleftrightarrow> (case point (cpu m) of
       In_client (Wait thd k) \<Rightarrow> (case thd of None \<Rightarrow> False | Some i \<Rightarrow> i < MAX_CO \<and> state_of m i \<noteq> RUN \<and> state_of m i \<noteq> BEWAIT)
     | _ \<Rightarrow> True)"

inductive co_reach :: "'s machine \<Rightarrow> 's machine \<Rightarrow> bool" for start where
  refl: "co_reach start start"
| step: "co_reach start m \<Longrightarrow> waits_well m \<Longrightarrow> exec rnd m = Go m' \<Longrightarrow> co_reach start m'"

end
