(* ===== verification/LibcoProps.thy ===== *)
theory LibcoProps
  imports Libco
begin

text \<open>
  The coroutines that are running form a chain, from the one on the processor to \<open>main\<close>: each was resumed
  by the next, is waited for or free to go back, and all others are finished or suspended in a yield.
\<close>

section \<open>The chain\<close>

text \<open>How a coroutine in the given state was resumed, and what a return from there means.\<close>

fun called :: "'s site \<Rightarrow> nat \<Rightarrow> co_state \<Rightarrow> bool" where
  "called (From_start d k) c st \<longleftrightarrow> d = c \<and> st = RUN"
| "called (From_yield k) c st \<longleftrightarrow> st = RUN"
| "called (From_wait d k) c st \<longleftrightarrow> d = c \<and> st = BEWAIT"

fun may_return :: "'s machine \<Rightarrow> 's site \<Rightarrow> bool" where
  "may_return m (From_start d k) \<longleftrightarrow> state_of m d = FREE \<or> state_of m d = SUSPEND"
| "may_return m (From_yield k) \<longleftrightarrow> True"
| "may_return m (From_wait d k) \<longleftrightarrow> state_of m d = FREE"

fun linked :: "'s machine \<Rightarrow> int \<Rightarrow> nat option \<Rightarrow> nat list \<Rightarrow> bool" where
  "linked m cur st [] \<longleftrightarrow> cur = -1 \<and> st = None"
| "linked m cur st (c # cs) \<longleftrightarrow> cur = int c \<and> st = Some c \<and> c < MAX_CO \<and>
     (\<exists>u old site. pctx (coroutines m c) = Some u \<and> point u = In_resume old site \<and> called site c (state_of m c) \<and>
        linked m old (stack_of u) cs)"

definition resting :: "'s machine \<Rightarrow> nat \<Rightarrow> bool" where
  "resting m i \<longleftrightarrow> state_of m i = FREE \<or>
     state_of m i = SUSPEND \<and> (\<exists>p. ctx (coroutines m i) = Some \<lparr>stack_of = Some i, point = In_client p\<rparr>)"

definition co_inv :: "'s machine \<Rightarrow> nat list \<Rightarrow> bool" where
  "co_inv m cs \<longleftrightarrow> distinct cs \<and> (\<forall>i<MAX_CO. i \<notin> set cs \<longrightarrow> resting m i) \<and>
     (case point (cpu m) of
        In_client p \<Rightarrow> linked m (current_co m) (stack_of (cpu m)) cs
      | In_resume old site \<Rightarrow> linked m old (stack_of (cpu m)) cs \<and> may_return m site)"

lemma linked_cong: "(\<And>c. c \<in> set cs \<Longrightarrow> coroutines m' c = coroutines m c) \<Longrightarrow> linked m' cur st cs = linked m cur st cs"
  by (induction cs arbitrary: cur st) (auto simp: state_of_def)

lemma resting_cong: "coroutines m' i = coroutines m i \<Longrightarrow> resting m' i = resting m i"
  by (simp add: resting_def state_of_def)

lemma called_state: "called site c st \<Longrightarrow> st = RUN \<or> st = BEWAIT"
  by (cases site) auto

lemma linked_state: "linked m cur st cs \<Longrightarrow> c \<in> set cs \<Longrightarrow> state_of m c = RUN \<or> state_of m c = BEWAIT"
  by (induction cs arbitrary: cur st) (auto dest: called_state)

lemma in_client_inv: "co_inv m cs \<Longrightarrow> point (cpu m) = In_client p \<Longrightarrow> co_inv (in_client k m) cs"
  using linked_cong [of cs "in_client k m" m] resting_cong [of "in_client k m" _ m]
  by (simp add: co_inv_def in_client_def)

lemma set_co_simps [simp]:
  "coroutines (set_co i f m) j = (if j = i then f (coroutines m i) else coroutines m j)"
  "current_co (set_co i f m) = current_co m" "cpu (set_co i f m) = cpu m" "memory (set_co i f m) = memory m"
  by (auto simp: set_co_def)

lemma linked_set_co [simp]: "i \<notin> set cs \<Longrightarrow> linked (set_co i f m) cur st cs = linked m cur st cs"
  by (rule linked_cong) auto

lemma resting_set_co [simp]: "j \<noteq> i \<Longrightarrow> resting (set_co i f m) j = resting m j"
  by (rule resting_cong) simp

section \<open>Resuming\<close>

lemma resume_inv:
  assumes link: "linked m (current_co m) (stack_of (cpu m)) cs" "distinct cs"
    and rest: "\<And>j. j < MAX_CO \<Longrightarrow> j \<notin> set cs \<Longrightarrow> j \<noteq> i \<Longrightarrow> resting m j"
    and i: "i < MAX_CO" "i \<notin> set cs" "ctx (coroutines m i) = Some \<lparr>stack_of = Some i, point = In_client p\<rparr>"
    and st: "state_of m i = SUSPEND \<or> state_of m i = INIT \<or> state_of m i = BEWAIT"
    and site: "called site i (if state_of m i = BEWAIT then BEWAIT else RUN)"
  shows "\<exists>m'. resume_co i site m = Go m' \<and> co_inv m' (i # cs)"
proof -
  define c' where "c' = (if state_of m i = BEWAIT then coroutines m i else (coroutines m i)\<lparr>costate := RUN\<rparr>)\<lparr>pctx := Some \<lparr>stack_of = stack_of (cpu m), point = In_resume (current_co m) site\<rparr>\<rparr>"
  define m' where "m' = m\<lparr>coroutines := (coroutines m)(i := c'), current_co := int i,
     cpu := \<lparr>stack_of = Some i, point = In_client p\<rparr>\<rparr>"
  have "resume_co i site m = Go m'"
    using st i(3) by (auto simp: resume_co_def m'_def c'_def Let_def state_of_def set_state_def set_co_def)
  moreover have "coroutines m' j = coroutines m j" if "j \<noteq> i" for j using that by (simp add: m'_def)
  then have same: "linked m' cur s cs = linked m cur s cs" "j \<noteq> i \<Longrightarrow> resting m' j = resting m j" for cur s j
    using i(2) linked_cong [of cs m' m] resting_cong [of m' j m] by metis+
  have "co_inv m' (i # cs)"
  proof -
    have "state_of m' i = (if state_of m i = BEWAIT then BEWAIT else RUN)"
      "pctx (coroutines m' i) = Some \<lparr>stack_of = stack_of (cpu m), point = In_resume (current_co m) site\<rparr>"
      by (simp_all add: m'_def c'_def state_of_def)
    moreover have "current_co m' = int i" "cpu m' = \<lparr>stack_of = Some i, point = In_client p\<rparr>" by (simp_all add: m'_def)
    ultimately show ?thesis using link rest i(1,2) site same by (simp add: co_inv_def called_state)
  qed
  ultimately show ?thesis by blast
qed

text \<open>The first of the chain goes back to the next.\<close>

lemma pop_inv:
  assumes link: "linked m cur st (c # cs)" "distinct (c # cs)" "\<And>j. j < MAX_CO \<Longrightarrow> j \<notin> set (c # cs) \<Longrightarrow> resting m j"
    and u: "pctx (coroutines m c) = Some u"
    and m': "\<And>j. j \<noteq> c \<Longrightarrow> coroutines m' j = coroutines m j" "cpu m' = u" "resting m' c"
    and st: "state_of m' c = FREE \<or> state_of m' c = SUSPEND \<and> state_of m c = RUN"
  shows "co_inv m' cs"
proof -
  obtain old site where s: "point u = In_resume old site" "called site c (state_of m c)" "linked m old (stack_of u) cs"
    using link(1) u by auto
  have "may_return m' site" using s(2) st by (cases site) auto
  moreover have "linked m' old (stack_of u) cs = linked m old (stack_of u) cs"
  proof (rule linked_cong)
    show "coroutines m' d = coroutines m d" if "d \<in> set cs" for d
      by (rule m'(1)) (use that link(2) in auto)
  qed
  moreover have "resting m' j" if "j < MAX_CO" "j \<notin> set cs" for j
    using that m'(1,3) link(3) resting_cong [of m' j m] by (cases "j = c") auto
  ultimately show ?thesis using link(2) m'(2) s(1,3) by (simp add: co_inv_def)
qed

lemma get_co_some: "get_co m st start = Some i \<Longrightarrow> i < MAX_CO \<and> state_of m i = st"
proof -
  assume "get_co m st start = Some i"
  then have "i \<in> set (map (\<lambda>i. (start + i) mod MAX_CO) [0..<MAX_CO])" "state_of m i = st"
    unfolding get_co_def by (auto simp: find_Some_iff)
  then show ?thesis by (auto simp: MAX_CO_def)
qed

lemma get_co_first: "start < MAX_CO \<Longrightarrow> state_of m start = st \<Longrightarrow> get_co m st start = Some start"
proof -
  have "[0..<MAX_CO] = 0 # [1..<MAX_CO]" using upt_conv_Cons [of 0 MAX_CO] by (simp add: MAX_CO_def)
  then show "start < MAX_CO \<Longrightarrow> state_of m start = st \<Longrightarrow> get_co m st start = Some start" by (simp add: get_co_def)
qed

lemma get_co_none: "get_co m st start = None \<Longrightarrow> i < MAX_CO \<Longrightarrow> state_of m i \<noteq> st"
proof -
  assume n: "get_co m st start = None" and i: "i < MAX_CO"
  let ?k = "(i + (MAX_CO - start mod MAX_CO)) mod MAX_CO"
  define q r where "q = MAX_CO * (start div MAX_CO)" and "r = start mod MAX_CO"
  have "start = q + r" "r < MAX_CO" by (simp_all add: q_def r_def MAX_CO_def)
  then have "start + (i + (MAX_CO - r)) = i + (q + MAX_CO)" by simp
  then have "start + (i + (MAX_CO - start mod MAX_CO)) = i + MAX_CO * (start div MAX_CO + 1)"
    by (simp add: q_def r_def distrib_left)
  then have "(start + (i + (MAX_CO - start mod MAX_CO))) mod MAX_CO = i" using i by (simp only: mod_mult_self2 mod_less)
  then have "(start + ?k) mod MAX_CO = i" by (simp only: mod_add_right_eq)
  then have "i \<in> (\<lambda>i. (start + i) mod MAX_CO) ` {0..<MAX_CO}"
    by (intro image_eqI [of _ _ ?k]) (auto simp: MAX_CO_def)
  then have "i \<in> set (map (\<lambda>i. (start + i) mod MAX_CO) [0..<MAX_CO])" by (simp only: set_map set_upt)
  then show ?thesis using n unfolding get_co_def find_None_iff by blast
qed

section \<open>Every step keeps the chain\<close>

lemma start_inv:
  assumes "co_inv m cs" "point (cpu m) = In_client p"
  shows "\<exists>m' cs'. co_start rnd name func arg k m = Go m' \<and> co_inv m' cs'"
proof (cases "get_co m FREE (rnd mod MAX_CO)")
  case None
  then show ?thesis using in_client_inv [OF assms] by (auto simp: co_start_def create_co_def)
next
  case (Some i)
  define m1 where "m1 = set_co i (\<lambda>c. c\<lparr>costate := INIT, co_func := func, co_arg := arg, co_name := name,
       ctx := Some \<lparr>stack_of = Some i, point = In_client (func arg)\<rparr>\<rparr>) m"
  have s: "co_start rnd name func arg k m = resume_co i (From_start i k) m1"
    using Some by (simp add: co_start_def create_co_def m1_def)
  have i: "i < MAX_CO" "state_of m i = FREE" using get_co_some [OF Some] by auto
  have n: "i \<notin> set cs" using assms i linked_state by (fastforce simp: co_inv_def)
  have "\<exists>m'. resume_co i (From_start i k) m1 = Go m' \<and> co_inv m' (i # cs)"
  proof (rule resume_inv [OF _ _ _ i(1) n])
    show "linked m1 (current_co m1) (stack_of (cpu m1)) cs"
      using assms n by (auto simp: co_inv_def m1_def)
    show "resting m1 j" if "j < MAX_CO" "j \<notin> set cs" "j \<noteq> i" for j
      using assms(1) that by (simp add: co_inv_def m1_def)
  qed (use assms in \<open>auto simp: m1_def state_of_def co_inv_def\<close>)
  then show ?thesis using s by auto
qed

lemma wait_inv:
  assumes "co_inv m cs" "point (cpu m) = In_client (Wait thd k)" "waits_well m"
  shows "\<exists>m' cs'. co_wait thd k m = Go m' \<and> co_inv m' cs'"
proof -
  obtain i where i: "thd = Some i" "i < MAX_CO" "state_of m i \<noteq> RUN" "state_of m i \<noteq> BEWAIT"
    using assms(2,3) by (auto simp: waits_well_def split: option.splits)
  show ?thesis
  proof (cases "state_of m i = FREE")
    case True
    then show ?thesis using in_client_inv [OF assms(1,2)] i by (auto simp: co_wait_def)
  next
    case False
    have n: "i \<notin> set cs" using assms(1,2) i(3,4) linked_state by (fastforce simp: co_inv_def)
    then have r: "resting m i" using assms(1) i(2) by (simp add: co_inv_def)
    then obtain p where p: "ctx (coroutines m i) = Some \<lparr>stack_of = Some i, point = In_client p\<rparr>"
      using False by (auto simp: resting_def)
    define m1 where "m1 = set_state i BEWAIT m"
    have "\<exists>m'. resume_co i (From_wait i k) m1 = Go m' \<and> co_inv m' (i # cs)"
    proof (rule resume_inv [OF _ _ _ i(2) n])
      show "linked m1 (current_co m1) (stack_of (cpu m1)) cs"
        using assms n by (auto simp: co_inv_def m1_def set_state_def)
      show "resting m1 j" if "j < MAX_CO" "j \<notin> set cs" "j \<noteq> i" for j
        using assms(1) that by (simp add: co_inv_def m1_def set_state_def)
    qed (use assms p in \<open>auto simp: m1_def state_of_def co_inv_def set_state_def\<close>)
    then show ?thesis using i False by (auto simp: co_wait_def m1_def)
  qed
qed

lemma yield_inv:
  assumes "co_inv m cs" "point (cpu m) = In_client p"
  shows "\<exists>m' cs'. co_yield rnd k m = Go m' \<and> co_inv m' cs'"
proof (cases cs)
  case Nil
  then have "current_co m = -1" using assms by (simp add: co_inv_def)
  then show ?thesis using in_client_inv [OF assms] by (auto simp: co_yield_def)
next
  case (Cons c cs')
  have link: "linked m (current_co m) (stack_of (cpu m)) (c # cs')" "distinct (c # cs')"
    "\<And>j. j < MAX_CO \<Longrightarrow> j \<notin> set (c # cs') \<Longrightarrow> resting m j" using assms Cons by (auto simp: co_inv_def)
  have c: "current_co m = int c" "stack_of (cpu m) = Some c" "c < MAX_CO" using link(1) by auto
  show ?thesis
  proof (cases "state_of m c = BEWAIT")
    case True
    show ?thesis
    proof (cases "get_co m SUSPEND (rnd mod MAX_CO)")
      case None
      then show ?thesis using in_client_inv [OF assms] c True by (auto simp: co_yield_def)
    next
      case (Some i)
      have i: "i < MAX_CO" "state_of m i = SUSPEND" using get_co_some [OF Some] by auto
      then have n: "i \<notin> set (c # cs')" using linked_state [OF link(1)] by fastforce
      then obtain p' where "ctx (coroutines m i) = Some \<lparr>stack_of = Some i, point = In_client p'\<rparr>"
        using link(3) [OF i(1) n] i(2) by (auto simp: resting_def)
      then have "\<exists>m'. resume_co i (From_yield k) m = Go m' \<and> co_inv m' (i # c # cs')"
        using resume_inv [OF link(1,2) _ i(1) n] link(3) i(2) by simp
      then show ?thesis using Some c True by (auto simp: co_yield_def)
    qed
  next
    case False
    then have run: "state_of m c = RUN" using linked_state [OF link(1), of c] by auto
    obtain u where u: "pctx (coroutines m c) = Some u" using link(1) by auto
    define m1 where "m1 = (set_co c (\<lambda>x. x\<lparr>ctx := Some \<lparr>stack_of = stack_of (cpu m), point = In_client k\<rparr>\<rparr>) (set_state c SUSPEND m))\<lparr>cpu := u\<rparr>"
    have m1: "state_of m1 c = SUSPEND" "ctx (coroutines m1 c) = Some \<lparr>stack_of = Some c, point = In_client k\<rparr>"
      "cpu m1 = u" "\<And>j. j \<noteq> c \<Longrightarrow> coroutines m1 j = coroutines m j"
      using c(2) by (simp_all add: m1_def set_state_def state_of_def)
    then have "co_inv m1 cs'" using pop_inv [OF link u, of m1] run by (simp add: resting_def)
    moreover have "co_yield rnd k m = Go m1" using run c u by (simp add: co_yield_def m1_def set_state_def Let_def)
    ultimately show ?thesis by blast
  qed
qed

lemma end_inv:
  assumes "co_inv m cs" "point (cpu m) = In_client p" "stack_of (cpu m) = Some i"
  shows "\<exists>m' cs'. co_func_end i m = Go m' \<and> co_inv m' cs'"
proof -
  obtain cs' where cs: "cs = i # cs'" using assms by (cases cs) (auto simp: co_inv_def)
  have link: "linked m (current_co m) (stack_of (cpu m)) (i # cs')" "distinct (i # cs')"
    "\<And>j. j < MAX_CO \<Longrightarrow> j \<notin> set (i # cs') \<Longrightarrow> resting m j" using assms cs by (auto simp: co_inv_def)
  obtain u where u: "pctx (coroutines m i) = Some u" using link(1) by auto
  define m1 where "m1 = (set_state i FREE m)\<lparr>current_co := -1, cpu := u\<rparr>"
  have "state_of m1 i = FREE" "cpu m1 = u" "\<And>j. j \<noteq> i \<Longrightarrow> coroutines m1 j = coroutines m j"
    by (simp_all add: m1_def set_state_def state_of_def)
  then have "co_inv m1 cs'" using pop_inv [OF link u, of m1] by (simp add: resting_def)
  moreover have "co_func_end i m = Go m1" using u by (simp add: co_func_end_def m1_def set_state_def Let_def)
  ultimately show ?thesis by blast
qed

lemma resumed_inv:
  assumes "co_inv m cs" "point (cpu m) = In_resume old site"
  shows "\<exists>m'. resumed old site m = Go m' \<and> co_inv m' cs"
proof -
  let ?m = "in_client (return_to site) (m\<lparr>current_co := old\<rparr>)"
  have "linked ?m cur st cs = linked m cur st cs" "resting ?m j = resting m j" for cur st j
    using linked_cong [of cs ?m m] resting_cong [of ?m j m] by (simp_all add: in_client_def)
  then show ?thesis using assms by (simp add: resumed_def co_inv_def) (simp add: in_client_def)
qed

lemma compute_inv:
  assumes "co_inv m cs" "point (cpu m) = In_client p"
  shows "co_inv (in_client k (m\<lparr>memory := s\<rparr>)) cs"
proof -
  let ?m = "in_client k (m\<lparr>memory := s\<rparr>)"
  have "linked ?m cur st cs = linked m cur st cs" "resting ?m j = resting m j" for cur st j
    using linked_cong [of cs ?m m] resting_cong [of ?m j m] by (simp_all add: in_client_def)
  then show ?thesis using assms by (simp add: co_inv_def) (simp add: in_client_def)
qed

lemma exec_inv:
  assumes "co_inv m cs" "waits_well m"
  shows "(\<exists>m' cs'. exec rnd m = Go m' \<and> co_inv m' cs') \<or> exec rnd m = Exit (memory m) \<and> cs = []"
proof (cases "point (cpu m)")
  case (In_resume old site)
  then show ?thesis using resumed_inv [OF assms(1)] by (fastforce simp: exec_def)
next
  case (In_client p)
  note p = assms(1) In_client
  have e: "exec rnd m = exec_client rnd p m" using In_client by (simp add: exec_def)
  show ?thesis
  proof (cases p)
    case Return
    show ?thesis
    proof (cases "stack_of (cpu m)")
      case None
      then have "cs = []" using p by (cases cs) (auto simp: co_inv_def)
      then show ?thesis using e None Return by (simp add: exec_client_def)
    next
      case (Some i)
      then show ?thesis using e Return end_inv [OF p Some] by (simp add: exec_client_def)
    qed
  next
    case (Compute f)
    then show ?thesis using e compute_inv [OF p] by (auto simp: exec_client_def case_prod_beta)
  next
    case (Start name func arg k)
    then show ?thesis using e start_inv [OF p] by (simp add: exec_client_def)
  next
    case (Yield k)
    then show ?thesis using e yield_inv [OF p] by (simp add: exec_client_def)
  next
    case (Wait thd k)
    then show ?thesis using e wait_inv [of m cs thd k] p assms(2) by (simp add: exec_client_def)
  qed
qed

lemma init_inv: "co_inv (co_init main (s :: 's)) []"
  by (simp add: co_inv_def co_init_def resting_def state_of_def)

lemma reach_inv: "co_reach (co_init main s) m \<Longrightarrow> \<exists>cs. co_inv m cs"
proof (induction rule: co_reach.induct)
  case refl
  show ?case using init_inv [of main s] by auto
next
  case (step m rnd m')
  then show ?case using exec_inv by (metis outcome.distinct(3) outcome.inject(2))
qed

section \<open>Runs\<close>

text \<open>A run with the numbers drawn.\<close>

fun exec_all :: "nat list \<Rightarrow> 's machine \<Rightarrow> 's machine option" where
  "exec_all [] m = Some m"
| "exec_all (r # rs) m = (case exec r m of Go m' \<Rightarrow> exec_all rs m' | _ \<Rightarrow> None)"

fun all_wait_well :: "nat list \<Rightarrow> 's machine \<Rightarrow> bool" where
  "all_wait_well [] m \<longleftrightarrow> True"
| "all_wait_well (r # rs) m \<longleftrightarrow> waits_well m \<and> (case exec r m of Go m' \<Rightarrow> all_wait_well rs m' | _ \<Rightarrow> True)"

lemma exec_all_reach: "co_reach start m \<Longrightarrow> exec_all rs m = Some m' \<Longrightarrow> all_wait_well rs m \<Longrightarrow> co_reach start m'"
proof (induction rs arbitrary: m)
  case (Cons r rs)
  obtain m1 where m1: "exec r m = Go m1" "exec_all rs m1 = Some m'" using Cons.prems(2) by (auto split: outcome.splits)
  then show ?case using Cons.IH [of m1] co_reach.step [OF Cons.prems(1) _ m1(1)] Cons.prems(3) by simp
qed simp

lemma exec_all_append: "exec_all (rs @ qs) m = (case exec_all rs m of None \<Rightarrow> None | Some m' \<Rightarrow> exec_all qs m')"
  by (induction rs arbitrary: m) (auto split: outcome.splits)

lemmas exec_simps = exec_def exec_client_def co_start_def create_co_def co_yield_def co_wait_def co_func_end_def resumed_def
  resume_co_def in_client_def set_state_def set_co_def state_of_def waits_well_def co_init_def

lemma get_co_free: "(\<And>i. i < MAX_CO \<Longrightarrow> state_of m i \<noteq> st) \<Longrightarrow> get_co m st start = None"
  by (auto simp: get_co_def find_None_iff MAX_CO_def)

lemma get_co_at: "start < 256 \<Longrightarrow> state_of m start = st \<Longrightarrow> get_co m st start = Some start"
  by (rule get_co_first) (simp_all add: MAX_CO_def)

text \<open>A coroutine that counts between two yields; one that waits for it; and a \<open>main\<close> that waits as well.\<close>

definition counter :: "nat \<Rightarrow> nat prog" where
  "counter n = Yield (Compute (\<lambda>s. (s + n, Yield Return)))"

definition waiter :: "nat \<Rightarrow> nat prog" where
  "waiter a = Yield (Wait (Some a) Return)"

definition one_waiter :: "nat prog" where
  "one_waiter = Start ''counter'' counter 5 (\<lambda>a. Wait a Return)"

definition two_waiters :: "nat prog" where
  "two_waiters = Start ''counter'' counter 5 (\<lambda>a. Start ''waiter'' waiter 0 (\<lambda>b. Wait a Return))"

lemma linked_on: "linked m cur st cs \<Longrightarrow> st = Some i \<Longrightarrow> i \<in> set cs \<and> i < MAX_CO"
  by (cases cs) auto

lemma linked_cur: "linked m cur st cs \<Longrightarrow> cur = (case st of None \<Rightarrow> -1 | Some i \<Rightarrow> int i)"
  by (cases cs) auto

lemma inv_linked: "co_inv m cs \<Longrightarrow> \<exists>cur. linked m cur (stack_of (cpu m)) cs"
  by (auto simp: co_inv_def split: point.splits)

lemma inv_states:
  assumes "co_inv m cs" "i < MAX_CO"
  shows "if i \<in> set cs then state_of m i = RUN \<or> state_of m i = BEWAIT else resting m i"
  using assms inv_linked [OF assms(1)] linked_state by (fastforce simp: co_inv_def)

lemma well_formed_run:
  assumes "co_reach (co_init main s) m"
  shows "(\<forall>i. stack_of (cpu m) = Some i \<longrightarrow> i < MAX_CO \<and> (state_of m i = RUN \<or> state_of m i = BEWAIT)) \<and>
     (\<forall>p. point (cpu m) = In_client p \<longrightarrow> current_co m = (case stack_of (cpu m) of None \<Rightarrow> -1 | Some i \<Rightarrow> int i)) \<and>
     (\<forall>i<MAX_CO. state_of m i \<noteq> INIT \<and>
        (state_of m i = SUSPEND \<longrightarrow> (\<exists>p. ctx (coroutines m i) = Some \<lparr>stack_of = Some i, point = In_client p\<rparr>))) \<and>
     (waits_well m \<longrightarrow> (\<forall>rnd. (\<exists>m'. exec rnd m = Go m') \<or>
        exec rnd m = Exit (memory m) \<and> (\<forall>i<MAX_CO. state_of m i = FREE \<or> state_of m i = SUSPEND)))" (is "?stack \<and> ?cur \<and> ?states \<and> ?go")
proof (intro conjI)
  obtain cs where cs: "co_inv m cs" using reach_inv [OF assms] by blast
  obtain cur where l: "linked m cur (stack_of (cpu m)) cs" using inv_linked [OF cs] by blast
  show ?stack using linked_on [OF l] linked_state [OF l] by blast
  show ?cur using cs linked_cur by (auto simp: co_inv_def)
  have st: "state_of m i \<noteq> INIT \<and>
     (state_of m i = SUSPEND \<longrightarrow> (\<exists>p. ctx (coroutines m i) = Some \<lparr>stack_of = Some i, point = In_client p\<rparr>))" if "i < MAX_CO" for i
    using inv_states [OF cs that] by (cases "i \<in> set cs") (auto simp: resting_def)
  then show ?states by blast
  have "state_of m i = FREE \<or> state_of m i = SUSPEND" if "cs = []" "i < MAX_CO" for i
    using inv_states [OF cs that(2)] that(1) by (auto simp: resting_def)
  then show ?go using exec_inv [OF cs] by blast
qed

lemma wait_finished_run:
  assumes "co_reach (co_init main s) m" "point (cpu m) = In_resume old site"
  shows "(\<forall>i k. site = From_wait i k \<longrightarrow> state_of m i = FREE) \<and>
     (\<forall>i k. site = From_start i k \<longrightarrow> state_of m i = FREE \<or> state_of m i = SUSPEND) \<and>
     (\<exists>m'. exec rnd m = Go m' \<and> cpu m' = \<lparr>stack_of = stack_of (cpu m), point = In_client (return_to site)\<rparr> \<and>
        current_co m' = (case stack_of (cpu m) of None \<Rightarrow> -1 | Some i \<Rightarrow> int i))"
proof -
  obtain cs where cs: "co_inv m cs" using reach_inv [OF assms(1)] by blast
  then have "linked m old (stack_of (cpu m)) cs" "may_return m site" using assms(2) by (simp_all add: co_inv_def)
  then show ?thesis using assms(2) linked_cur by (auto simp: exec_def resumed_def in_client_def)
qed

lemma wait_twice_run:
  "\<exists>m. exec_all [0, 0, 0, 1, 0, 0, 0, 0, 1, 0, 0, 0, 0, 0, 0, 0] (co_init two_waiters 0) = Some m \<and> memory m = 10 \<and>
     exec_all [0, 0, 0, 0] m = Some m"
  unfolding two_waiters_def counter_def waiter_def co_init_def
  by (simp add: exec_simps get_co_at get_co_free) (simp add: MAX_CO_def)

text \<open>The run of one waiter up to the return of its \<open>co_wait\<close>.\<close>

lemma one_waiter_reach:
  "\<exists>m. co_reach (co_init one_waiter 0) m \<and> point (cpu m) = In_resume (-1) (From_wait 0 Return) \<and> memory m = 5 \<and>
     stack_of (cpu m) = None"
proof -
  let ?m = "co_init one_waiter 0"
  have "\<exists>m. exec_all [0, 0, 0, 0, 0, 0, 0] ?m = Some m \<and> point (cpu m) = In_resume (-1) (From_wait 0 Return) \<and> memory m = 5 \<and>
     stack_of (cpu m) = None \<and> all_wait_well [0, 0, 0, 0, 0, 0, 0] ?m"
    unfolding one_waiter_def counter_def co_init_def
    by (simp add: exec_simps get_co_at get_co_free) (simp add: MAX_CO_def)
  then show ?thesis using exec_all_reach [OF co_reach.refl] by blast
qed

section \<open>Properties\<close>

text \<open>C21: Every state that clients can reach, when they wait only for coroutines that are not already running or waited
  for, is well formed: the coroutine on the processor is one of the array or \<open>main\<close>, and is running or waited for;
  every suspended coroutine has a context of its own to go on with; no assertion fails and no invalid context is entered, whatever
  \<open>rand\<close> returns, and the program exits only when no coroutine is running.\<close>
theorem co_well_formed:
  assumes "co_reach (co_init main s) m"
  shows "(\<forall>i. stack_of (cpu m) = Some i \<longrightarrow> i < MAX_CO \<and> (state_of m i = RUN \<or> state_of m i = BEWAIT)) \<and>
     (\<forall>p. point (cpu m) = In_client p \<longrightarrow> current_co m = (case stack_of (cpu m) of None \<Rightarrow> -1 | Some i \<Rightarrow> int i)) \<and>
     (\<forall>i<MAX_CO. state_of m i \<noteq> INIT \<and>
        (state_of m i = SUSPEND \<longrightarrow> (\<exists>p. ctx (coroutines m i) = Some \<lparr>stack_of = Some i, point = In_client p\<rparr>))) \<and>
     (waits_well m \<longrightarrow> (\<forall>rnd. (\<exists>m'. exec rnd m = Go m') \<or>
        exec rnd m = Exit (memory m) \<and> (\<forall>i<MAX_CO. state_of m i = FREE \<or> state_of m i = SUSPEND)))"
  using assms by (rule well_formed_run)

theorem co_well_formed_witness:
  "\<exists>m m'. exec_all [0] (co_init one_waiter 0) = Some m \<and> exec 7 m = Go m' \<and> state_of m 0 = RUN"
proof -
  obtain m where m: "exec_all [0] (co_init one_waiter 0) = Some m" "all_wait_well [0] (co_init one_waiter 0)"
    "stack_of (cpu m) = Some 0" "point (cpu m) = In_client (counter 5)" "state_of m 0 = RUN"
    unfolding one_waiter_def co_init_def by (simp add: exec_simps get_co_at get_co_free)
  have r: "co_reach (co_init one_waiter 0) m" by (rule exec_all_reach [OF co_reach.refl m(1,2)])
  have w: "waits_well m" using m(4) by (simp add: waits_well_def counter_def)
  have "0 < MAX_CO" by (simp add: MAX_CO_def)
  then show ?thesis using co_well_formed [OF r] m(1,5) w by fastforce
qed

text \<open>C16: \<open>co_wait\<close> returns only when the coroutine it waits for has finished, and \<open>co_start\<close> when the new
  one has finished or yielded, whatever else the coroutines in between started, waited for or yielded to.\<close>
theorem co_wait_finished:
  assumes "co_reach (co_init main s) m" "point (cpu m) = In_resume old site"
  shows "(\<forall>i k. site = From_wait i k \<longrightarrow> state_of m i = FREE) \<and>
     (\<forall>i k. site = From_start i k \<longrightarrow> state_of m i = FREE \<or> state_of m i = SUSPEND) \<and>
     (\<exists>m'. exec rnd m = Go m' \<and> cpu m' = \<lparr>stack_of = stack_of (cpu m), point = In_client (return_to site)\<rparr> \<and>
        current_co m' = (case stack_of (cpu m) of None \<Rightarrow> -1 | Some i \<Rightarrow> int i))"
  using assms by (rule wait_finished_run)

theorem co_wait_finished_witness:
  "\<exists>m m'. co_reach (co_init one_waiter 0) m \<and> memory m = 5 \<and> state_of m 0 = FREE \<and> exec 3 m = Go m' \<and>
     cpu m' = \<lparr>stack_of = None, point = In_client Return\<rparr> \<and> current_co m' = -1"
proof -
  obtain m where m: "co_reach (co_init one_waiter 0) m" "point (cpu m) = In_resume (-1) (From_wait 0 Return)" "memory m = 5"
    "stack_of (cpu m) = None" using one_waiter_reach by blast
  show ?thesis using co_wait_finished [OF m(1,2), of 3] m by auto
qed


end
