(* ===== verification/Pstree.thy ===== *)
theory Pstree
  imports Kvdb
begin

text \<open>
  The tree of processes (\<open>pstree/pstree.c\<close>). What \<open>/proc\<close> holds is a parameter: the names
  of the directory and the text of each \<open>stat\<close> file. \<open>qsort\<close> is the one of the C library, an
  argument. The output is the list of its lines. \<open>None\<close> is a store outside of an array, or a stack that
  ran out: the nesting of \<open>showTree\<close> is bounded by fuel.
\<close>

section \<open>State\<close>

record Process =
  pid :: int
  comm :: string
  pstate :: char
  ppid :: int

record Options =
  show_pids :: bool
  show_version :: bool
  numeric_sort :: bool

text \<open>The static buffers of \<open>getProcess\<close>.\<close>

record stat_bufs =
  stat_buf :: string
  stat_tmp :: string

definition MAX_PROC :: nat where "MAX_PROC = 512"

type_synonym 'a qsort = "('a \<Rightarrow> 'a \<Rightarrow> int) \<Rightarrow> 'a list \<Rightarrow> 'a list"

section \<open>Reading /proc\<close>

definition getProcessFolders :: "string list option \<Rightarrow> string list option" where
  "getProcessFolders dir = (case dir of
       None \<Rightarrow> Some []
     | Some files \<Rightarrow> do {
         let ids = filter (\<lambda>f. \<not> (f \<noteq> [] \<and> hd f = CHR ''.'') \<and> list_all isdigit f) files;
         Assert (length ids \<le> MAX_PROC \<and> list_all (\<lambda>f. length f < 256) ids);
         Some ids })"

text \<open>\<open>%d\<close>: white space, a sign, digits.\<close>

definition scan_int :: "string \<Rightarrow> (int \<times> string) option" where
  "scan_int s = (let
      s = dropWhile isspace s;
      neg = (s \<noteq> [] \<and> hd s = CHR ''-'');
      s = (if s \<noteq> [] \<and> (hd s = CHR ''-'' \<or> hd s = CHR ''+'') then tl s else s);
      ds = takeWhile isdigit s
    in if ds = [] then None else Some (if neg then - int (decimal ds) else int (decimal ds), dropWhile isdigit s))"

text \<open>\<open>%s\<close>: white space, then all up to the next.\<close>

definition scan_word :: "string \<Rightarrow> (string \<times> string) option" where
  "scan_word s = (let s = dropWhile isspace s; w = takeWhile (\<lambda>c. \<not> isspace c) s
    in if w = [] then None else Some (w, dropWhile (\<lambda>c. \<not> isspace c) s))"

text \<open>\<open>sscanf(buf, "%d %s %c %d", ...)\<close>: what cannot be converted any more keeps its value.\<close>

definition scan_stat :: "string \<Rightarrow> string \<times> Process \<Rightarrow> string \<times> Process" where
  "scan_stat buf = (\<lambda>(tmp, out). case scan_int buf of
       None \<Rightarrow> (tmp, out)
     | Some (p, s) \<Rightarrow> (let out = out\<lparr>pid := p\<rparr> in case scan_word s of
         None \<Rightarrow> (tmp, out)
       | Some (tmp, s) \<Rightarrow> (case dropWhile isspace s of
           [] \<Rightarrow> (tmp, out)
         | c # s \<Rightarrow> (let out = out\<lparr>pstate := c\<rparr> in case scan_int s of
             None \<Rightarrow> (tmp, out)
           | Some (pp, s) \<Rightarrow> (tmp, out\<lparr>ppid := pp\<rparr>)))))"

definition getProcess ::
  "(string \<Rightarrow> string option) \<Rightarrow> string \<Rightarrow> stat_bufs \<times> Process \<Rightarrow> (int \<times> stat_bufs \<times> Process) option" where
  "getProcess stat i = (\<lambda>(b, out). case stat i of
       None \<Rightarrow> Some (-1, b, out)
     | Some file \<Rightarrow> do {
         let buf = (case fgets 1024 file of (None, rest, eof) \<Rightarrow> stat_buf b | (Some l, rest, eof) \<Rightarrow> cstring l);
         let (tmp, out) = scan_stat buf (stat_tmp b, out);
         Assert (2 \<le> length tmp \<and> length tmp < 128);
         Some (0, b\<lparr>stat_buf := buf, stat_tmp := tmp\<rparr>, out\<lparr>comm := butlast (tl tmp)\<rparr>) })"

fun load_procs :: "(string \<Rightarrow> string option) \<Rightarrow> string list \<Rightarrow> stat_bufs \<Rightarrow> Process list option" where
  "load_procs stat [] b = Some []"
| "load_procs stat (i # ids) b = do {
     (ok, b, out) \<leftarrow> getProcess stat i (b, \<lparr>pid = 0, comm = [], pstate = CHR 0x00, ppid = 0\<rparr>);
     let out = (if ok \<noteq> 0 then out\<lparr>pid := -1\<rparr> else out);
     ps \<leftarrow> load_procs stat ids b;
     Some (out # ps) }"

section \<open>The tree\<close>

text \<open>The sign of \<open>strcmp\<close>.\<close>

fun str_cmp :: "string \<Rightarrow> string \<Rightarrow> int" where
  "str_cmp [] [] = 0"
| "str_cmp [] (d # ds) = -1"
| "str_cmp (c # cs) [] = 1"
| "str_cmp (c # cs) (d # ds) =
     (if (of_char c :: nat) < of_char d then -1 else if (of_char d :: nat) < of_char c then 1 else str_cmp cs ds)"

definition cmpByName :: "Process list \<Rightarrow> nat \<Rightarrow> nat \<Rightarrow> int" where
  "cmpByName procs i j = str_cmp (comm (procs ! i)) (comm (procs ! j))"

definition cmpByPid :: "Process list \<Rightarrow> nat \<Rightarrow> nat \<Rightarrow> int" where
  "cmpByPid procs i j =
     (if pid (procs ! i) > pid (procs ! j) then 1 else if pid (procs ! i) < pid (procs ! j) then -1 else 0)"

definition tree_order :: "Options \<Rightarrow> Process list \<Rightarrow> nat \<Rightarrow> nat \<Rightarrow> int" where
  "tree_order cli procs = (if numeric_sort cli then cmpByPid procs else cmpByName procs)"

definition proc_line :: "Options \<Rightarrow> Process list \<Rightarrow> nat \<Rightarrow> nat \<Rightarrow> string" where
  "proc_line cli procs offset i = replicate offset CHR '' '' @ comm (procs ! i) @
     (if show_pids cli then ''('' @ sign (pid (procs ! i)) @ digits 10 (nat \<bar>pid (procs ! i)\<bar>) @ '')'' else [])"

definition children_of :: "Process list \<Rightarrow> nat \<Rightarrow> nat list" where
  "children_of procs i =
     filter (\<lambda>j. pid (procs ! j) \<noteq> -1 \<and> ppid (procs ! j) = pid (procs ! i)) [0..<length procs]"

fun show_all :: "(nat \<Rightarrow> string list option) \<Rightarrow> nat list \<Rightarrow> string list option" where
  "show_all f [] = Some []"
| "show_all f (i # is) = do { a \<leftarrow> f i; b \<leftarrow> show_all f is; Some (a @ b) }"

primrec showTree :: "nat qsort \<Rightarrow> Options \<Rightarrow> Process list \<Rightarrow> nat \<Rightarrow> nat \<Rightarrow> nat \<Rightarrow> string list option" where
  "showTree qsrt cli procs 0 offset rid = None"
| "showTree qsrt cli procs (Suc fuel) offset rid = do {
     below \<leftarrow> show_all (showTree qsrt cli procs fuel (offset + 4)) (qsrt (tree_order cli procs) (children_of procs rid));
     Some (proc_line cli procs offset rid # below) }"

definition show_roots :: "nat qsort \<Rightarrow> Options \<Rightarrow> Process list \<Rightarrow> nat \<Rightarrow> string list option" where
  "show_roots qsrt cli procs fuel =
     show_all (showTree qsrt cli procs fuel 0) (filter (\<lambda>i. ppid (procs ! i) = 0) [0..<length procs])"

definition parse_options :: "string list \<Rightarrow> Options" where
  "parse_options argv = \<lparr>show_pids = list_ex (\<lambda>a. a = ''-p'' \<or> a = ''--show-pids'') argv,
     show_version = list_ex (\<lambda>a. a = ''-V'' \<or> a = ''--version'') argv,
     numeric_sort = list_ex (\<lambda>a. a = ''-n'' \<or> a = ''--numeric-sort'') argv\<rparr>"

definition pstree_main ::
  "nat qsort \<Rightarrow> string list option \<Rightarrow> (string \<Rightarrow> string option) \<Rightarrow> nat \<Rightarrow> string list \<Rightarrow> string list option" where
  "pstree_main qsrt dir stat fuel argv = (let cli = parse_options argv in
     if show_version cli then Some [''pstree 1.0'', ''Copyright (C) 2019-2019 StardustDL'']
     else do {
       ids \<leftarrow> getProcessFolders dir;
       procs \<leftarrow> load_procs stat ids \<lparr>stat_buf = [], stat_tmp = []\<rparr>;
       show_roots qsrt cli procs fuel })"

end
