(* ===== verification/Sperf.thy ===== *)
theory Sperf
  imports Complex_Main Pstree
begin

text \<open>
  The profiler of system calls (\<open>sperf/sperf.c\<close>): it reads what \<open>strace -T\<close> prints and adds up the
  time of each call. A \<open>double\<close> is an exact rational number; \<open>atof\<close>, \<open>qsort\<close> and the clock are
  arguments. \<open>None\<close> is an access outside of an array or a failed assertion. What is shown is a list of tables.
\<close>

section \<open>Items\<close>

definition MAX_SYSCALL :: nat where "MAX_SYSCALL = 1024"

record syscallItem =
  call_name :: string
  totalTime :: rat

text \<open>The clock is read with a running number.\<close>

record sperf =
  calls :: "syscallItem list"
  lastTime :: nat
  readings :: nat
  name_buf :: string
  tables :: "(string \<times> rat option) list list"

fun add_to :: "string \<Rightarrow> rat \<Rightarrow> syscallItem list \<Rightarrow> syscallItem list option" where
  "add_to name rtime [] = None"
| "add_to name rtime (c # cs) =
     (if call_name c = name then Some (c\<lparr>totalTime := totalTime c + rtime\<rparr> # cs) else map_option ((#) c) (add_to name rtime cs))"

definition addItem :: "string \<Rightarrow> rat \<Rightarrow> sperf \<Rightarrow> sperf option" where
  "addItem name rtime s = (case add_to name rtime (calls s) of
       Some cs \<Rightarrow> Some (s\<lparr>calls := cs\<rparr>)
     | None \<Rightarrow> do {
         Assert (length (calls s) < MAX_SYSCALL);
         Some (s\<lparr>calls := calls s @ [\<lparr>call_name = name, totalTime = rtime\<rparr>]\<rparr>) })"

definition comparer :: "syscallItem \<Rightarrow> syscallItem \<Rightarrow> int" where
  "comparer a b = (if totalTime a > totalTime b then -1 else if totalTime a < totalTime b then 1
     else str_cmp (call_name a) (call_name b))"

text \<open>The rows of the table with their shares; no share when all the times are zero.\<close>

definition table_of :: "syscallItem qsort \<Rightarrow> syscallItem list \<Rightarrow> (string \<times> rat option) list" where
  "table_of qsrt cs = (let total = sum_list (map totalTime cs) in
     map (\<lambda>c. (call_name c, if total = 0 then None else Some (totalTime c / total * 100))) (qsrt comparer cs))"

definition read_clock :: "(nat \<Rightarrow> nat) \<Rightarrow> sperf \<Rightarrow> nat \<times> sperf" where
  "read_clock clock s = (clock (readings s), s\<lparr>readings := readings s + 1\<rparr>)"

definition show_table :: "syscallItem qsort \<Rightarrow> (nat \<Rightarrow> nat) \<Rightarrow> sperf \<Rightarrow> sperf" where
  "show_table qsrt clock s =
     (let (t, s) = read_clock clock (s\<lparr>tables := tables s @ [table_of qsrt (calls s)]\<rparr>) in s\<lparr>lastTime := t\<rparr>)"

section \<open>Lines\<close>

definition isalpha :: "char \<Rightarrow> bool" where
  "isalpha c \<longleftrightarrow> (65 :: nat) \<le> of_char c \<and> of_char c \<le> (90 :: nat) \<or> (97 :: nat) \<le> of_char c \<and> of_char c \<le> (122 :: nat)"

definition isUsefulLine :: "string \<Rightarrow> bool" where
  "isUsefulLine str \<longleftrightarrow> str \<noteq> [] \<and> isalpha (hd str) \<and> last str = CHR ''>''"

text \<open>The array of fifty characters and the name in it; without an opening bracket no end is set.\<close>

definition getData :: "(string \<Rightarrow> rat) \<Rightarrow> string \<Rightarrow> string \<Rightarrow> (string \<times> rat) option" where
  "getData atof str old = do {
     let name = takeWhile (\<lambda>c. c \<noteq> CHR ''('') str;
     Assert (length name < 50);
     Assert (9 \<le> length str);
     let arr = (if CHR ''('' \<in> set str then name @ [CHR 0x00] @ drop (length name + 1) old else str @ drop (length str) old);
     Some (arr,
       atof (takeWhile (\<lambda>c. c \<noteq> CHR ''>'') (drop (length str - 9) str))) }"

text \<open>\<open>scanf("%[^\n]\n", buffer)\<close>: one character at least, then the white space behind the line.\<close>

definition next_line :: "string \<Rightarrow> (string \<times> string) option" where
  "next_line inp = (let l = takeWhile (\<lambda>c. c \<noteq> CHR 0x0A) inp in
     if l = [] then None else Some (l, dropWhile isspace (drop (length l) inp)))"

lemma next_line_shorter: "next_line inp = Some (l, rest) \<Longrightarrow> length rest < length inp"
proof -
  assume "next_line inp = Some (l, rest)"
  then have l: "l = takeWhile (\<lambda>c. c \<noteq> CHR 0x0A) inp" "0 < length l" "rest = dropWhile isspace (drop (length l) inp)"
    by (auto simp: next_line_def Let_def split: if_splits)
  have "length rest \<le> length inp - length l" unfolding l(3) using length_dropWhile_le [of isspace "drop (length l) inp"] by simp
  moreover have "length l \<le> length inp" unfolding l(1) by (rule length_takeWhile_le)
  ultimately show ?thesis using l(2) by linarith
qed

definition use_line :: "syscallItem qsort \<Rightarrow> (string \<Rightarrow> rat) \<Rightarrow> (nat \<Rightarrow> nat) \<Rightarrow> string \<Rightarrow> sperf \<Rightarrow> sperf option" where
  "use_line qsrt atof clock line s = do {
     Assert (length line < 1024);
     s \<leftarrow> (if isUsefulLine line then do {
         (arr, rtime) \<leftarrow> getData atof line (name_buf s);
         addItem (cstring arr) rtime (s\<lparr>name_buf := arr\<rparr>) }
       else Some s);
     let (now, s) = read_clock clock s;
     Some (if 1 \<le> int now - int (lastTime s) then show_table qsrt clock s else s) }"

function read_trace :: "syscallItem qsort \<Rightarrow> (string \<Rightarrow> rat) \<Rightarrow> (nat \<Rightarrow> nat) \<Rightarrow> string \<Rightarrow> sperf \<Rightarrow> sperf option" where
  "read_trace qsrt atof clock inp s = (case next_line inp of
       None \<Rightarrow> Some s
     | Some (line, rest) \<Rightarrow> do { s \<leftarrow> use_line qsrt atof clock (cstring line) s; read_trace qsrt atof clock rest s })"
  by pat_completeness auto
termination
  by (relation "measure (\<lambda>(qsrt, atof, clock, inp, s). length inp)") (auto dest: next_line_shorter)

declare read_trace.simps [simp del]

definition initList :: "(nat \<Rightarrow> nat) \<Rightarrow> sperf" where
  "initList clock = \<lparr>calls = [], lastTime = clock 0, readings = 1, name_buf = replicate 50 (CHR 0x00), tables = []\<rparr>"

text \<open>\<open>parent\<close>, when \<open>strace\<close> has ended: the tables shown.\<close>

definition sperf_parent :: "syscallItem qsort \<Rightarrow> (string \<Rightarrow> rat) \<Rightarrow> (nat \<Rightarrow> nat) \<Rightarrow> string \<Rightarrow> (string \<times> rat option) list list option" where
  "sperf_parent qsrt atof clock inp = do {
     s \<leftarrow> read_trace qsrt atof clock inp (initList clock);
     Some (tables (show_table qsrt clock s)) }"

definition sperf_child :: "string list \<Rightarrow> string list" where
  "sperf_child argv = [''strace'', ''-T''] @ argv"

end
