(* ===== verification/PstreeProps.thy ===== *)
theory PstreeProps
  imports Pstree "HOL-Library.Multiset"
begin

text \<open>
  \<open>showTree\<close> prints the forest of the processes: an abstract tree with one node for a process, whose
  children are sorted as the options say.
\<close>

section \<open>Trees\<close>

datatype ptree = PNode (node: nat) (below: "ptree list")

fun render :: "Options \<Rightarrow> Process list \<Rightarrow> nat \<Rightarrow> ptree \<Rightarrow> string list" where
  "render cli procs offset (PNode i ts) = proc_line cli procs offset i # concat (map (render cli procs (offset + 4)) ts)"

fun nodes :: "ptree \<Rightarrow> nat list" where
  "nodes (PNode i ts) = i # concat (map nodes ts)"

fun family :: "Options \<Rightarrow> Process list \<Rightarrow> ptree \<Rightarrow> bool" where
  "family cli procs (PNode i ts) \<longleftrightarrow> mset (map node ts) = mset (children_of procs i) \<and>
     sorted_wrt (\<lambda>a b. tree_order cli procs a b \<le> 0) (map node ts) \<and> (\<forall>t\<in>set ts. family cli procs t)"

text \<open>What \<open>qsort\<close> promises for one comparison.\<close>

definition sorts :: "'a qsort \<Rightarrow> ('a \<Rightarrow> 'a \<Rightarrow> int) \<Rightarrow> bool" where
  "sorts qsrt cmp \<longleftrightarrow> (\<forall>xs. mset (qsrt cmp xs) = mset xs \<and> sorted_wrt (\<lambda>a b. cmp a b \<le> 0) (qsrt cmp xs))"

text \<open>Processes of one moment: parents are there and older, a process that could not be read has no parent.\<close>

definition snapshot :: "Process list \<Rightarrow> (nat \<Rightarrow> nat) \<Rightarrow> bool" where
  "snapshot procs age \<longleftrightarrow>
     (\<forall>i<length procs. (pid (procs ! i) = -1 \<and> ppid (procs ! i) = 0 \<or> 1 \<le> pid (procs ! i)) \<and>
        (ppid (procs ! i) = 0 \<or> (\<exists>j<length procs. pid (procs ! j) = ppid (procs ! i) \<and> 1 \<le> pid (procs ! j) \<and> age j < age i))) \<and>
     (\<forall>i<length procs. \<forall>j<length procs. pid (procs ! i) = pid (procs ! j) \<longrightarrow> pid (procs ! i) \<noteq> -1 \<longrightarrow> i = j)"

definition child :: "Process list \<Rightarrow> nat \<Rightarrow> nat \<Rightarrow> bool" where
  "child procs i j \<longleftrightarrow> i < length procs \<and> j \<in> set (children_of procs i)"

lemma child_iff: "child procs i j \<longleftrightarrow> i < length procs \<and> j < length procs \<and> pid (procs ! j) \<noteq> -1 \<and> ppid (procs ! j) = pid (procs ! i)"
  by (auto simp: child_def children_of_def)

lemma snapshot_parent: "snapshot procs age \<Longrightarrow> i < length procs \<Longrightarrow> ppid (procs ! i) \<noteq> 0 \<Longrightarrow>
   \<exists>j<length procs. pid (procs ! j) = ppid (procs ! i) \<and> 1 \<le> pid (procs ! j) \<and> age j < age i"
  unfolding snapshot_def by blast

lemma snapshot_pid: "snapshot procs age \<Longrightarrow> i < length procs \<Longrightarrow> pid (procs ! i) = -1 \<or> 1 \<le> pid (procs ! i)"
  unfolding snapshot_def by blast

lemma snapshot_inj: "snapshot procs age \<Longrightarrow> i < length procs \<Longrightarrow> j < length procs \<Longrightarrow> pid (procs ! i) = pid (procs ! j) \<Longrightarrow>
   pid (procs ! i) \<noteq> -1 \<Longrightarrow> i = j"
  unfolding snapshot_def by blast

lemma snapshot_ppid: "snapshot procs age \<Longrightarrow> i < length procs \<Longrightarrow> 0 \<le> ppid (procs ! i)"
  using snapshot_parent [of procs age i] by fastforce

lemma child_age:
  assumes "snapshot procs age" "child procs i j"
  shows "age i < age j" "1 \<le> pid (procs ! i)"
proof -
  have j: "i < length procs" "j < length procs" "pid (procs ! j) \<noteq> -1" "ppid (procs ! j) = pid (procs ! i)" using assms(2) by (auto simp: child_iff)
  then have "pid (procs ! i) \<noteq> 0" "pid (procs ! i) \<noteq> -1"
    using snapshot_pid [OF assms(1) j(1)] snapshot_ppid [OF assms(1) j(2)] by auto
  then obtain k where k: "k < length procs" "pid (procs ! k) = ppid (procs ! j)" "1 \<le> pid (procs ! k)" "age k < age j"
    using snapshot_parent [OF assms(1) j(2)] j(4) by auto
  then have "k = i" using snapshot_inj [OF assms(1) k(1) j(1)] j(4) by auto
  then show "age i < age j" "1 \<le> pid (procs ! i)" using k by auto
qed

lemma child_unique: "snapshot procs age \<Longrightarrow> child procs a x \<Longrightarrow> child procs b x \<Longrightarrow> a = b"
  using child_age(2) [of procs age a x] snapshot_inj [of procs age a b] by (simp add: child_iff)

lemma descendant_age: "(child procs)\<^sup>*\<^sup>* i j \<Longrightarrow> snapshot procs age \<Longrightarrow> i = j \<or> age i < age j"
  by (induction rule: rtranclp_induct) (auto dest: child_age(1) order_less_trans)

lemma descendants_comparable:
  "(child procs)\<^sup>*\<^sup>* a x \<Longrightarrow> snapshot procs age \<Longrightarrow> (child procs)\<^sup>*\<^sup>* b x \<Longrightarrow> (child procs)\<^sup>*\<^sup>* a b \<or> (child procs)\<^sup>*\<^sup>* b a"
proof (induction rule: rtranclp_induct)
  case (step y x)
  from step.prems(2) show ?case
  proof (cases rule: rtranclp.cases)
    case rtrancl_refl
    then show ?thesis using step.hyps by (meson rtranclp.rtrancl_into_rtrancl)
  next
    case (rtrancl_into_rtrancl y')
    then have "y' = y" using child_unique [OF step.prems(1)] step.hyps(2) by blast
    then show ?thesis using step.IH [OF step.prems(1)] rtrancl_into_rtrancl by blast
  qed
qed simp

lemma siblings_disjoint:
  assumes "snapshot procs age" "child procs i a" "child procs i b" "(child procs)\<^sup>*\<^sup>* a x" "(child procs)\<^sup>*\<^sup>* b x"
  shows "a = b"
proof -
  have no: "c = d" if "(child procs)\<^sup>*\<^sup>* c d" "child procs i c" "child procs i d" for c d
    using that(1)
  proof (cases rule: rtranclp.cases)
    case (rtrancl_into_rtrancl e)
    then have "(child procs)\<^sup>*\<^sup>* c i" using child_unique [OF assms(1) _ that(3)] by blast
    then show ?thesis using descendant_age [OF _ assms(1)] child_age(1) [OF assms(1) that(2)] by fastforce
  qed simp
  show ?thesis using descendants_comparable [OF assms(4,1,5)] no assms(2,3) by blast
qed

lemma distinct_concat_map: "distinct xs \<Longrightarrow> (\<And>x. x \<in> set xs \<Longrightarrow> distinct (f x)) \<Longrightarrow>
   (\<And>x y z. x \<in> set xs \<Longrightarrow> y \<in> set xs \<Longrightarrow> z \<in> set (f x) \<Longrightarrow> z \<in> set (f y) \<Longrightarrow> x = y) \<Longrightarrow> distinct (concat (map f xs))"
proof (induction xs)
  case (Cons x xs)
  have "set (f x) \<inter> set (concat (map f xs)) = {}" using Cons.prems(1,3) by fastforce
  moreover have "distinct (concat (map f xs))" using Cons by (metis distinct.simps(2) list.set_intros(2))
  ultimately show ?case using Cons.prems(2) by simp
qed simp

section \<open>The forest of the processes\<close>

primrec tree_of :: "nat qsort \<Rightarrow> Options \<Rightarrow> Process list \<Rightarrow> nat \<Rightarrow> nat \<Rightarrow> ptree" where
  "tree_of qsrt cli procs 0 i = PNode i []"
| "tree_of qsrt cli procs (Suc k) i = PNode i (map (tree_of qsrt cli procs k) (qsrt (tree_order cli procs) (children_of procs i)))"

lemma node_tree_of [simp]: "node (tree_of qsrt cli procs k i) = i"
  by (cases k) auto

lemma show_all_map: "(\<And>i. i \<in> set is \<Longrightarrow> f i = Some (g i)) \<Longrightarrow> show_all f is = Some (concat (map g is))"
  by (induction "is") auto

lemma sorts_set: "sorts qsrt cmp \<Longrightarrow> set (qsrt cmp xs) = set xs"
  unfolding sorts_def by (metis set_mset_mset)

lemma sorts_distinct: "sorts qsrt cmp \<Longrightarrow> distinct xs \<Longrightarrow> distinct (qsrt cmp xs)"
  unfolding sorts_def by (metis distinct_count_atmost_1 set_mset_mset)

lemma sorted_child: "sorts qsrt (tree_order cli procs) \<Longrightarrow> i < length procs \<Longrightarrow>
   j \<in> set (qsrt (tree_order cli procs) (children_of procs i)) \<longleftrightarrow> child procs i j"
  by (simp add: sorts_set child_def)

text \<open>Ages below \<open>m\<close>; \<open>m - age i\<close> levels are enough below a process.\<close>

lemma showTree_run:
  assumes "sorts qsrt (tree_order cli procs)" "snapshot procs age" "\<forall>i<length procs. age i < m"
  shows "i < length procs \<Longrightarrow> m - age i \<le> fuel \<Longrightarrow>
     showTree qsrt cli procs fuel offset i = Some (render cli procs offset (tree_of qsrt cli procs fuel i)) \<and>
     family cli procs (tree_of qsrt cli procs fuel i) \<and>
     set (nodes (tree_of qsrt cli procs fuel i)) = {j. (child procs)\<^sup>*\<^sup>* i j} \<and> distinct (nodes (tree_of qsrt cli procs fuel i))"
proof (induction fuel arbitrary: i offset)
  case 0
  then show ?case using assms(3) by fastforce
next
  case (Suc fuel)
  let ?cs = "qsrt (tree_order cli procs) (children_of procs i)"
  let ?t = "tree_of qsrt cli procs fuel"
  have c: "j \<in> set ?cs \<longleftrightarrow> child procs i j" for j using sorted_child [OF assms(1) Suc.prems(1)] .
  have ih: "showTree qsrt cli procs fuel off j = Some (render cli procs off (?t j)) \<and> family cli procs (?t j) \<and>
     set (nodes (?t j)) = {k. (child procs)\<^sup>*\<^sup>* j k} \<and> distinct (nodes (?t j))" if "j \<in> set ?cs" for j off
  proof (rule Suc.IH)
    show "j < length procs" using c that by (simp add: child_iff)
    show "m - age j \<le> fuel" using child_age(1) [OF assms(2), of i j] c that Suc.prems assms(3) by fastforce
  qed
  have "showTree qsrt cli procs (Suc fuel) offset i = Some (render cli procs offset (tree_of qsrt cli procs (Suc fuel) i))"
    using show_all_map [of ?cs "showTree qsrt cli procs fuel (offset + 4)" "\<lambda>j. render cli procs (offset + 4) (?t j)"] ih
    by (simp add: o_def)
  moreover have "family cli procs (tree_of qsrt cli procs (Suc fuel) i)"
    using ih assms(1) by (simp add: o_def sorts_def)
  moreover have "set (nodes (tree_of qsrt cli procs (Suc fuel) i)) = {j. (child procs)\<^sup>*\<^sup>* i j}"
  proof -
    have "set (nodes (tree_of qsrt cli procs (Suc fuel) i)) = insert i (\<Union>j\<in>{j. child procs i j}. {k. (child procs)\<^sup>*\<^sup>* j k})"
      using ih c by auto
    also have "\<dots> = {j. (child procs)\<^sup>*\<^sup>* i j}"
      by (auto intro: converse_rtranclp_into_rtranclp elim: converse_rtranclpE)
    finally show ?thesis .
  qed
  moreover have "distinct (nodes (tree_of qsrt cli procs (Suc fuel) i))"
  proof -
    have "distinct (children_of procs i)" by (simp add: children_of_def)
    then have "distinct ?cs" by (rule sorts_distinct [OF assms(1)])
    then have "distinct (concat (map (\<lambda>j. nodes (?t j)) ?cs))"
      by (rule distinct_concat_map) (use ih c siblings_disjoint [OF assms(2)] in auto)
    moreover have "i \<notin> set (nodes (?t j))" if "j \<in> set ?cs" for j
      using ih [OF that] c that child_age(1) [OF assms(2), of i j] descendant_age [of procs j i age] assms(2) by auto
    ultimately show ?thesis by (auto simp: o_def)
  qed
  ultimately show ?case by blast
qed

lemma root_unique: "snapshot procs age \<Longrightarrow> ppid (procs ! b) = 0 \<Longrightarrow> (child procs)\<^sup>*\<^sup>* a b \<Longrightarrow> a = b"
  by (erule rtranclp.cases) (auto simp: child_iff dest: snapshot_pid)

lemma from_root: "snapshot procs age \<Longrightarrow> i < length procs \<Longrightarrow>
   \<exists>r<length procs. ppid (procs ! r) = 0 \<and> (child procs)\<^sup>*\<^sup>* r i"
proof (induction "age i" arbitrary: i rule: less_induct)
  case less
  show ?case
  proof (cases "ppid (procs ! i) = 0")
    case False
    then obtain j where j: "j < length procs" "pid (procs ! j) = ppid (procs ! i)" "age j < age i"
      using snapshot_parent [OF less.prems] by blast
    have "pid (procs ! i) \<noteq> -1" using less.prems False unfolding snapshot_def by fastforce
    then have "child procs j i" using j less.prems(2) by (simp add: child_iff)
    then show ?thesis using less.hyps [OF j(3) less.prems(1) j(1)] by (meson rtranclp.rtrancl_into_rtrancl)
  qed (use less.prems in blast)
qed

lemma forest_run:
  assumes "sorts qsrt (tree_order cli procs)" "snapshot procs age" "\<forall>i<length procs. age i < m" "m \<le> fuel"
  shows "\<exists>ts. show_roots qsrt cli procs fuel = Some (concat (map (render cli procs 0) ts)) \<and>
     map node ts = filter (\<lambda>i. ppid (procs ! i) = 0) [0..<length procs] \<and> (\<forall>t\<in>set ts. family cli procs t) \<and>
     distinct (concat (map nodes ts)) \<and> set (concat (map nodes ts)) = {..<length procs}"
proof -
  let ?rs = "filter (\<lambda>i. ppid (procs ! i) = 0) [0..<length procs]"
  let ?t = "tree_of qsrt cli procs fuel"
  have t: "showTree qsrt cli procs fuel 0 i = Some (render cli procs 0 (?t i)) \<and> family cli procs (?t i) \<and>
     set (nodes (?t i)) = {j. (child procs)\<^sup>*\<^sup>* i j} \<and> distinct (nodes (?t i))" if "i \<in> set ?rs" for i
    by (rule showTree_run [OF assms(1-3)]) (use that assms(4) in auto)
  have "show_roots qsrt cli procs fuel = Some (concat (map (render cli procs 0) (map ?t ?rs)))"
    using show_all_map [of ?rs "showTree qsrt cli procs fuel 0" "\<lambda>i. render cli procs 0 (?t i)"] t by (simp add: show_roots_def o_def)
  moreover have "distinct (concat (map (\<lambda>i. nodes (?t i)) ?rs))"
  proof (rule distinct_concat_map)
    show "x = y" if "x \<in> set ?rs" "y \<in> set ?rs" "z \<in> set (nodes (?t x))" "z \<in> set (nodes (?t y))" for x y z
      using descendants_comparable [of procs x z age y] t [OF that(1)] t [OF that(2)] root_unique [OF assms(2)] that assms(2) by auto
  qed (use t in auto)
  moreover have "set (concat (map (\<lambda>i. nodes (?t i)) ?rs)) = {..<length procs}"
  proof -
    have in_range: "(child procs)\<^sup>*\<^sup>* r i \<Longrightarrow> r < length procs \<Longrightarrow> i < length procs" for r i
      by (induction rule: rtranclp_induct) (auto simp: child_iff)
    have "set (concat (map (\<lambda>i. nodes (?t i)) ?rs)) = (\<Union>r\<in>set ?rs. {j. (child procs)\<^sup>*\<^sup>* r j})" using t by auto
    then show ?thesis using from_root [OF assms(2)] in_range by auto
  qed
  ultimately show ?thesis using t by (intro exI [of _ "map ?t ?rs"]) (auto simp: o_def)
qed

section \<open>Stat files\<close>

text \<open>The line the kernel writes, up to the parent, and the fields behind it.\<close>

definition stat_line :: "nat \<Rightarrow> string \<Rightarrow> char \<Rightarrow> nat \<Rightarrow> string \<Rightarrow> string" where
  "stat_line p name st pp tail =
     digits 10 p @ '' ('' @ name @ '') '' @ [st] @ '' '' @ digits 10 pp @ '' '' @ tail"

definition stat_file :: "string \<Rightarrow> bool" where
  "stat_file l \<longleftrightarrow> length l + 1 < 1024 \<and> CHR 0x0A \<notin> set l \<and> CHR 0x00 \<notin> set l"

definition wordly :: "string \<Rightarrow> bool" where
  "wordly w \<longleftrightarrow> w \<noteq> [] \<and> (\<forall>c\<in>set w. \<not> isspace c) \<and> length w < 126"

lemma scan_int_digits:
  assumes "s = [] \<or> \<not> isdigit (hd s)"
  shows "scan_int (digits 10 v @ s) = Some (int v, s)" "scan_int (CHR '' '' # digits 10 v @ s) = Some (int v, s)"
proof -
  obtain c cs where d: "digits 10 v = c # cs" using digits_not_empty [of 10 v] by (cases "digits 10 v") auto
  have c: "\<not> isspace c" "c \<noteq> CHR ''-''" "c \<noteq> CHR ''+''" using digits_isdigit [of v] d isdigit_not by auto
  have "takeWhile isdigit (digits 10 v @ s) = digits 10 v" "dropWhile isdigit (digits 10 v @ s) = s"
    using digits_isdigit [of v] assms by (cases s; simp add: takeWhile_append2 dropWhile_append2)+
  then show "scan_int (digits 10 v @ s) = Some (int v, s)" using c decimal_digits [of v] d
    unfolding scan_int_def Let_def by simp
  moreover have "scan_int (CHR '' '' # x) = scan_int x" for x by (simp add: scan_int_def isspace_def)
  ultimately show "scan_int (CHR '' '' # digits 10 v @ s) = Some (int v, s)" by simp
qed

lemma scan_word_space: "w \<noteq> [] \<Longrightarrow> \<forall>c\<in>set w. \<not> isspace c \<Longrightarrow> s = [] \<or> isspace (hd s) \<Longrightarrow>
   scan_word (CHR '' '' # w @ s) = Some (w, s)"
proof -
  assume w: "w \<noteq> []" "\<forall>c\<in>set w. \<not> isspace c" "s = [] \<or> isspace (hd s)"
  obtain c cs where c: "w = c # cs" "\<not> isspace c" using w(1,2) by (cases w) auto
  have "isspace (CHR '' '')" by (simp add: isspace_def)
  then have "dropWhile isspace (CHR '' '' # w @ s) = w @ s" using c by simp
  moreover have "takeWhile (\<lambda>c. \<not> isspace c) (w @ s) = w" "dropWhile (\<lambda>c. \<not> isspace c) (w @ s) = s"
    using w(2,3) by (cases s; simp add: takeWhile_append2 dropWhile_append2)+
  ultimately show ?thesis using w(1) unfolding scan_word_def Let_def by simp
qed

lemma get_line:
  assumes "stat_file l" "stat i = Some (l @ CHR 0x0A # rest)" "scan_stat (l @ [CHR 0x0A]) (stat_tmp b, out) = (tmp, out')"
    "2 \<le> length tmp" "length tmp < 128"
  shows "getProcess stat i (b, out) = Some (0, b\<lparr>stat_buf := l @ [CHR 0x0A], stat_tmp := tmp\<rparr>, out'\<lparr>comm := butlast (tl tmp)\<rparr>)"
proof -
  have "cstring (l @ [CHR 0x0A]) = l @ [CHR 0x0A]" using assms(1) by (intro cstring_id) (auto simp: stat_file_def)
  then show ?thesis using assms fgets_nl [of l 1024 rest] by (simp add: getProcess_def stat_file_def)
qed

definition no_process :: Process where "no_process = \<lparr>pid = 0, comm = [], pstate = CHR 0x00, ppid = 0\<rparr>"

lemma plain_name_run:
  assumes "wordly name" "\<not> isspace st" "l = stat_line p name st pp tail" "stat_file l" "stat i = Some (l @ CHR 0x0A # rest)"
  shows "\<exists>b'. getProcess stat i (b, no_process) = Some (0, b', \<lparr>pid = int p, comm = name, pstate = st, ppid = int pp\<rparr>)"
proof -
  have sp: "isspace (CHR '' '')" "\<not> isdigit (CHR '' '')" by (simp_all add: isspace_def isdigit_def)
  let ?w = "''('' @ name @ '')''"
  have w: "?w \<noteq> []" "\<forall>c\<in>set ?w. \<not> isspace c" using assms(1) by (auto simp: wordly_def isspace_def)
  have "scan_stat (l @ [CHR 0x0A]) (stat_tmp b, no_process) = (?w, \<lparr>pid = int p, comm = [], pstate = st, ppid = int pp\<rparr>)"
    using scan_int_digits(1) [of "CHR '' '' # ?w @ CHR '' '' # st # CHR '' '' # digits 10 pp @ CHR '' '' # tail @ [CHR 0x0A]" p]
      scan_word_space [OF w, of "CHR '' '' # st # CHR '' '' # digits 10 pp @ CHR '' '' # tail @ [CHR 0x0A]"]
      scan_int_digits(2) [of "CHR '' '' # tail @ [CHR 0x0A]" pp] sp assms(2)
    by (simp add: scan_stat_def assms(3) stat_line_def no_process_def)
  then show ?thesis using get_line [of l stat i rest b no_process, OF assms(4,5)] assms(1) by (simp add: wordly_def)
qed

lemma spaced_name_run:
  assumes "wordly w1" "\<not> isspace c" "\<not> isspace d" "\<not> isdigit d" "d \<noteq> CHR ''-''" "d \<noteq> CHR ''+''"
    "l = stat_line p (w1 @ '' '' @ c # d # name) st pp tail" "stat_file l" "stat i = Some (l @ CHR 0x0A # rest)"
  shows "\<exists>b'. getProcess stat i (b, no_process) = Some (0, b', \<lparr>pid = int p, comm = butlast w1, pstate = c, ppid = 0\<rparr>)"
proof -
  have sp: "isspace (CHR '' '')" "\<not> isdigit (CHR '' '')" by (simp_all add: isspace_def isdigit_def)
  let ?w = "''('' @ w1" and ?r = "d # name @ '') '' @ [st] @ '' '' @ digits 10 pp @ '' '' @ tail @ [CHR 0x0A]"
  have w: "?w \<noteq> []" "\<forall>c\<in>set ?w. \<not> isspace c" using assms(1) by (auto simp: wordly_def isspace_def)
  have "scan_int ?r = None" using assms(3-6) by (simp add: scan_int_def)
  then have "scan_stat (l @ [CHR 0x0A]) (stat_tmp b, no_process) = (?w, \<lparr>pid = int p, comm = [], pstate = c, ppid = 0\<rparr>)"
    using scan_int_digits(1) [of "CHR '' '' # ?w @ CHR '' '' # c # ?r" p] scan_word_space [OF w, of "CHR '' '' # c # ?r"] sp assms(2)
    by (simp add: scan_stat_def assms(7) stat_line_def no_process_def)
  then show ?thesis using get_line [of l stat i rest b no_process, OF assms(8,9)] assms(1) by (cases w1) (auto simp: wordly_def)
qed

section \<open>Properties\<close>

text \<open>C35: \<open>pstree\<close> prints the forest of a snapshot of processes: whatever its nesting, it ends, every process is printed
  exactly once, indented four columns below its parent and under it, the roots are the processes without a parent, and the
  children of every process stand in the order of the options.\<close>
theorem pstree_forest:
  assumes "sorts qsrt (tree_order cli procs)" "snapshot procs age" "\<forall>i<length procs. age i < m" "m \<le> fuel"
  shows "\<exists>ts. show_roots qsrt cli procs fuel = Some (concat (map (render cli procs 0) ts)) \<and>
     map node ts = filter (\<lambda>i. ppid (procs ! i) = 0) [0..<length procs] \<and> (\<forall>t\<in>set ts. family cli procs t) \<and>
     distinct (concat (map nodes ts)) \<and> set (concat (map nodes ts)) = {..<length procs}"
  using assms by (rule forest_run)

text \<open>Sorting by insertion is one way to do what \<open>qsort\<close> promises.\<close>

fun put_in :: "('a \<Rightarrow> 'a \<Rightarrow> int) \<Rightarrow> 'a \<Rightarrow> 'a list \<Rightarrow> 'a list" where
  "put_in cmp x [] = [x]"
| "put_in cmp x (y # ys) = (if cmp x y \<le> 0 then x # y # ys else y # put_in cmp x ys)"

definition insertion :: "'a qsort" where
  "insertion cmp xs = foldr (put_in cmp) xs []"

lemma insertion_sorts:
  assumes "\<And>x y. 0 < cmp x y \<Longrightarrow> cmp y x \<le> 0" "\<And>x y z. cmp x y \<le> 0 \<Longrightarrow> cmp y z \<le> 0 \<Longrightarrow> cmp x z \<le> 0"
  shows "sorts insertion cmp"
proof -
  have m: "mset (put_in cmp x ys) = add_mset x (mset ys)" for x ys by (induction ys) auto
  have s: "sorted_wrt (\<lambda>a b. cmp a b \<le> 0) ys \<Longrightarrow> sorted_wrt (\<lambda>a b. cmp a b \<le> 0) (put_in cmp x ys)" for x ys
  proof (induction ys)
    case (Cons y ys)
    have "set (put_in cmp x ys) = insert x (set ys)" using m by (metis set_mset_add_mset_insert set_mset_mset)
    then show ?case using Cons assms(1) [of x y] by (auto intro: assms(2) [of x y])
  qed simp
  have "mset (foldr (put_in cmp) xs []) = mset xs \<and> sorted_wrt (\<lambda>a b. cmp a b \<le> 0) (foldr (put_in cmp) xs [])" for xs
    by (induction xs) (simp_all add: m s)
  then show ?thesis by (simp add: sorts_def insertion_def)
qed

definition demo_procs :: "Process list" where
  "demo_procs = [\<lparr>pid = 1, comm = ''init'', pstate = CHR ''S'', ppid = 0\<rparr>, \<lparr>pid = 40, comm = ''sh'', pstate = CHR ''S'', ppid = 1\<rparr>,
     \<lparr>pid = 7, comm = ''cron'', pstate = CHR ''S'', ppid = 1\<rparr>, \<lparr>pid = 41, comm = ''ls'', pstate = CHR ''R'', ppid = 40\<rparr>]"

theorem pstree_forest_witness:
  "\<exists>ts. show_roots insertion \<lparr>show_pids = False, show_version = False, numeric_sort = True\<rparr> demo_procs 9 =
      Some (concat (map (render \<lparr>show_pids = False, show_version = False, numeric_sort = True\<rparr> demo_procs 0) ts)) \<and>
     map node ts = [0] \<and> distinct (concat (map nodes ts)) \<and> set (concat (map nodes ts)) = {..<4}"
proof -
  let ?cli = "\<lparr>show_pids = False, show_version = False, numeric_sort = True\<rparr>"
  have "sorts insertion (tree_order ?cli demo_procs)"
    by (rule insertion_sorts) (auto simp: tree_order_def cmpByPid_def split: if_splits)
  moreover have "snapshot demo_procs (\<lambda>i. if i = 0 then 0 else if i = 3 then 2 else 1)"
    by (simp add: snapshot_def demo_procs_def All_less_Suc Ex_less_Suc eval_nat_numeral)
  moreover have "length demo_procs = 4" "filter (\<lambda>i. ppid (demo_procs ! i) = 0) [0..<length demo_procs] = [0]"
    by (simp_all add: demo_procs_def upt_rec)
  ultimately show ?thesis using pstree_forest [of insertion ?cli demo_procs _ 3 9] by fastforce
qed

text \<open>A process whose name holds a space is torn apart: \<open>pstree\<close> takes the part before the space, cut by one more
  character, for its name, the next character for its state, and no parent at all, so that it is printed as a root; a
  name without white space is read exactly.\<close>
lemma names_with_spaces:
  assumes "wordly name" "\<not> isspace st" "stat i = Some (stat_line p name st pp tail @ CHR 0x0A # rest)"
    and "stat_file (stat_line p name st pp tail)" "stat j = Some (stat_line q (name @ '' '' @ c # d # name') st pp tail @ CHR 0x0A # rest)"
    and "stat_file (stat_line q (name @ '' '' @ c # d # name') st pp tail)"
    and "\<not> isspace c" "\<not> isspace d" "\<not> isdigit d" "d \<noteq> CHR ''-''" "d \<noteq> CHR ''+''"
  shows "(\<exists>b'. getProcess stat i (b, no_process) = Some (0, b', \<lparr>pid = int p, comm = name, pstate = st, ppid = int pp\<rparr>)) \<and>
     (\<exists>b'. getProcess stat j (b, no_process) = Some (0, b', \<lparr>pid = int q, comm = butlast name, pstate = c, ppid = 0\<rparr>))"
  using plain_name_run [of name st _ p pp tail stat i rest b, OF assms(1,2) refl assms(4,3)]
    spaced_name_run [of name c d _ q name' st pp tail stat j rest b, OF assms(1,7-11) refl assms(6,5)] by blast

definition demo_stat :: "string \<Rightarrow> string option" where
  "demo_stat = [''7'' \<mapsto> stat_line 7 ''Web'' CHR ''S'' 640 ''640 0'' @ [CHR 0x0A],
     ''812'' \<mapsto> stat_line 812 ''Web Content'' CHR ''S'' 640 ''640 0'' @ [CHR 0x0A]]"

lemma names_with_spaces_witness:
  "\<exists>b b'. getProcess demo_stat ''812'' (b, no_process) = Some (0, b', \<lparr>pid = 812, comm = ''We'', pstate = CHR ''C'', ppid = 0\<rparr>)"
proof -
  have "stat_file (stat_line 7 ''Web'' CHR ''S'' 640 ''640 0'')" "stat_file (stat_line 812 ''Web Content'' CHR ''S'' 640 ''640 0'')"
    by (simp_all add: stat_file_def stat_line_def digits.simps presentation_def)
  moreover have "wordly ''Web''" "\<not> isspace (CHR ''S'')" "\<not> isspace (CHR ''C'')" "\<not> isspace (CHR ''o'')" "\<not> isdigit (CHR ''o'')"
    by (simp_all add: wordly_def isspace_def isdigit_def)
  moreover have "demo_stat ''7'' = Some (stat_line 7 ''Web'' CHR ''S'' 640 ''640 0'' @ [CHR 0x0A])"
    "demo_stat ''812'' = Some (stat_line 812 ''Web Content'' CHR ''S'' 640 ''640 0'' @ [CHR 0x0A])" by (simp_all add: demo_stat_def)
  ultimately show ?thesis
    using names_with_spaces [of "''Web''" "CHR ''S''" demo_stat "''7''" 7 640 "''640 0''" "[]" "''812''" 812 "CHR ''C''" "CHR ''o''" "''ntent''"
      "\<lparr>stat_buf = [], stat_tmp = []\<rparr>"] by auto
qed

end
