(* ===== verification/SperfProps.thy ===== *)
theory SperfProps
  imports Sperf PstreeProps
begin

text \<open>
  The table shown at the end: one row for each system call, with its share of the time, sorted.
\<close>

section \<open>Adding up\<close>

text \<open>A call and its time, and what was spent in the calls of a name.\<close>

type_synonym event = "string \<times> rat"

definition spent :: "event list \<Rightarrow> string \<Rightarrow> rat" where
  "spent evs n = sum_list (map snd (filter (\<lambda>e. fst e = n) evs))"

definition item_of :: "event list \<Rightarrow> string \<Rightarrow> syscallItem" where
  "item_of evs n = \<lparr>call_name = n, totalTime = spent evs n\<rparr>"

definition adds_up :: "syscallItem list \<Rightarrow> event list \<Rightarrow> bool" where
  "adds_up cs evs \<longleftrightarrow> distinct (map call_name cs) \<and> set (map call_name cs) = fst ` set evs \<and>
     (\<forall>c\<in>set cs. totalTime c = spent evs (call_name c))"

lemma adds_upD: "adds_up cs evs \<Longrightarrow> distinct (map call_name cs) \<and> set (map call_name cs) = fst ` set evs"
  unfolding adds_up_def by blast

lemma add_to_run: "distinct (map call_name cs) \<Longrightarrow> add_to name t cs = (if name \<in> call_name ` set cs
     then Some (map (\<lambda>c. if call_name c = name then c\<lparr>totalTime := totalTime c + t\<rparr> else c) cs) else None)"
proof (induction cs)
  case (Cons c cs)
  have "map (\<lambda>c. if call_name c = name then c\<lparr>totalTime := totalTime c + t\<rparr> else c) cs = cs" if "call_name c = name"
  proof (rule map_idI)
    fix x assume "x \<in> set cs"
    then have "call_name x \<noteq> name" using Cons.prems that by (metis distinct.simps(2) image_eqI list.map(2) set_map)
    then show "(if call_name x = name then x\<lparr>totalTime := totalTime x + t\<rparr> else x) = x" by simp
  qed
  then show ?case using Cons by auto
qed simp

lemma spent_snoc: "spent (evs @ [(n, t)]) m = spent evs m + (if m = n then t else 0)"
  by (simp add: spent_def)

lemma addItem_run:
  assumes "adds_up (calls s) evs" "card (insert name (fst ` set evs)) \<le> MAX_SYSCALL"
  shows "\<exists>cs. addItem name t s = Some (s\<lparr>calls := cs\<rparr>) \<and> adds_up cs (evs @ [(name, t)])"
proof (cases "name \<in> call_name ` set (calls s)")
  case True
  let ?cs = "map (\<lambda>c. if call_name c = name then c\<lparr>totalTime := totalTime c + t\<rparr> else c) (calls s)"
  have n: "map call_name ?cs = map call_name (calls s)" by simp
  have t: "totalTime c = spent (evs @ [(name, t)]) (call_name c)" if "c \<in> set ?cs" for c
    using that assms(1) by (auto simp: adds_up_def spent_snoc)
  have d: "distinct (map call_name (calls s))" "set (map call_name (calls s)) = fst ` set evs" using adds_upD [OF assms(1)] by blast+
  have "name \<in> fst ` set evs" using True d(2) by simp
  then have "fst ` set (evs @ [(name, t)]) = fst ` set evs" by (simp add: insert_absorb)
  then have c: "set (map call_name ?cs) = fst ` set (evs @ [(name, t)])" "distinct (map call_name ?cs)"
    unfolding n d(2) using d(1) by (simp_all only:)
  have "adds_up ?cs (evs @ [(name, t)])" unfolding adds_up_def by (intro conjI ballI c t)
  then show ?thesis using True d(1) by (intro exI [of _ ?cs]) (simp add: addItem_def add_to_run)
next
  case False
  have "\<forall>e\<in>set evs. fst e \<noteq> name" using False adds_upD [OF assms(1)] by auto
  then have "filter (\<lambda>e. fst e = name) evs = []" by (simp add: filter_empty_conv)
  then have "spent evs name = 0" by (simp add: spent_def)
  then have "adds_up (calls s @ [\<lparr>call_name = name, totalTime = t\<rparr>]) (evs @ [(name, t)])"
    using assms(1) False by (auto simp: adds_up_def spent_snoc)
  moreover have "length (calls s) < MAX_SYSCALL"
  proof -
    have "length (calls s) = card (fst ` set evs)" using assms(1) distinct_card [of "map call_name (calls s)"] by (simp add: adds_up_def)
    moreover have "name \<notin> fst ` set evs" using False assms(1) by (simp add: adds_up_def)
    ultimately show ?thesis using assms(2) by simp
  qed
  ultimately show ?thesis using False adds_upD [OF assms(1)]
    by (intro exI [of _ "calls s @ [\<lparr>call_name = name, totalTime = t\<rparr>]"]) (simp add: addItem_def add_to_run)
qed

lemma adds_up_mset: "adds_up cs evs \<Longrightarrow> mset cs = mset (map (item_of evs) (remdups (map fst evs)))"
proof -
  assume a: "adds_up cs evs"
  have "mset (map call_name cs) = mset (remdups (map fst evs))"
    using a by (intro set_eq_iff_mset_eq_distinct [THEN iffD1]) (auto simp: adds_up_def)
  moreover have "cs = map (item_of evs) (map call_name cs)"
    using a by (auto simp: adds_up_def item_of_def intro!: map_idI [symmetric])
  ultimately show ?thesis by (metis mset_map)
qed

lemma spent_total: "distinct ns \<Longrightarrow> fst ` set evs \<subseteq> set ns \<Longrightarrow> sum_list (map (spent evs) ns) = sum_list (map snd evs)"
proof (induction evs)
  case Nil
  then show ?case by (simp add: spent_def)
next
  case (Cons e evs)
  have "spent (e # evs) n = (if n = fst e then snd e else 0) + spent evs n" for n by (simp add: spent_def)
  then have "map (spent (e # evs)) ns = map (\<lambda>n. (if n = fst e then snd e else 0) + spent evs n) ns" by simp
  then have "sum_list (map (spent (e # evs)) ns) = sum_list (map (\<lambda>n. if n = fst e then snd e else 0) ns) + sum_list (map (spent evs) ns)"
    by (simp only: sum_list_addf)
  also have "sum_list (map (\<lambda>n. if n = fst e then snd e else 0) ns) = snd e"
    using Cons.prems by (simp add: sum_list_distinct_conv_sum_set)
  finally show ?case using Cons by simp
qed

section \<open>Lines of strace\<close>

lemma takeWhile_stop: "c \<notin> set xs \<Longrightarrow> takeWhile (\<lambda>d. d \<noteq> c) (xs @ c # ys) = xs"
  by (induction xs) auto

definition trace_line :: "string \<Rightarrow> string \<Rightarrow> string \<Rightarrow> string" where
  "trace_line name args time = name @ ''('' @ args @ '' <'' @ time @ ''>''"

definition good_call :: "string \<times> string \<times> string \<Rightarrow> bool" where
  "good_call = (\<lambda>(name, args, time). name \<noteq> [] \<and> isalpha (hd name) \<and> CHR ''('' \<notin> set name \<and> length name < 50 \<and>
     length time = 8 \<and> CHR ''>'' \<notin> set time \<and> CHR 0x0A \<notin> set (trace_line name args time) \<and>
     CHR 0x00 \<notin> set (trace_line name args time) \<and> length (trace_line name args time) < 1024)"

definition event_of :: "(string \<Rightarrow> rat) \<Rightarrow> string \<times> string \<times> string \<Rightarrow> event" where
  "event_of atof = (\<lambda>(name, args, time). (name, atof time))"

definition trace_text :: "(string \<times> string \<times> string) list \<Rightarrow> string" where
  "trace_text tr = concat (map (\<lambda>(name, args, time). trace_line name args time @ [CHR 0x0A]) tr)"

lemma alpha_not_space: "isalpha c \<Longrightarrow> \<not> isspace c"
  by (auto simp: isalpha_def isspace_def)

lemma trace_start: "list_all good_call tr \<Longrightarrow> trace_text tr = [] \<or> \<not> isspace (hd (trace_text tr))"
proof (cases tr)
  case (Cons e tr')
  moreover assume "list_all good_call tr"
  ultimately show ?thesis using alpha_not_space
    by (cases e) (auto simp: trace_text_def trace_line_def good_call_def)
qed (simp add: trace_text_def)

lemma getData_run:
  assumes "good_call (name, args, time)" "length old = 50"
  shows "\<exists>arr. getData atof (trace_line name args time) old = Some (arr, atof time) \<and> cstring arr = name \<and> length arr = 50"
proof -
  let ?l = "trace_line name args time"
  have n: "CHR ''('' \<notin> set name" "length name < 50" "CHR 0x00 \<notin> set name" and t: "length time = 8" "CHR ''>'' \<notin> set time"
    using assms(1) by (auto simp: good_call_def trace_line_def)
  have w: "takeWhile (\<lambda>c. c \<noteq> CHR ''('') ?l = name" using n(1) by (simp add: trace_line_def takeWhile_stop)
  have d: "drop (length ?l - 9) ?l = time @ ''>''"
  proof -
    have "?l = (name @ ''('' @ args @ '' <'') @ (time @ ''>'')" by (simp add: trace_line_def)
    moreover have "length ?l - 9 = length (name @ ''('' @ args @ '' <'')" using t(1) by (simp add: trace_line_def)
    ultimately show ?thesis by (metis append_eq_conv_conj)
  qed
  have "takeWhile (\<lambda>c. c \<noteq> CHR ''>'') (time @ ''>'') = time" using t(2) by (rule takeWhile_stop)
  moreover have "cstring (name @ CHR 0x00 # x) = name" for x
    using n(3) by (simp add: cstring_def takeWhile_stop)
  moreover have "CHR ''('' \<in> set ?l" "9 \<le> length ?l" using t(1) by (simp_all add: trace_line_def)
  ultimately show ?thesis using w d n(2) assms(2) by (simp add: getData_def)
qed

lemma useful: "good_call (name, args, time) \<Longrightarrow> isUsefulLine (trace_line name args time)"
  by (auto simp: good_call_def isUsefulLine_def trace_line_def)

lemma use_line_run:
  assumes "good_call (name, args, time)" "length (name_buf s) = 50" "adds_up (calls s) evs" "card (insert name (fst ` set evs)) \<le> MAX_SYSCALL"
  shows "\<exists>s'. use_line qsrt atof clock (trace_line name args time) s = Some s' \<and> adds_up (calls s') (evs @ [(name, atof time)]) \<and>
     length (name_buf s') = 50"
proof -
  obtain arr where a: "getData atof (trace_line name args time) (name_buf s) = Some (arr, atof time)" "cstring arr = name" "length arr = 50"
    using getData_run [OF assms(1,2)] by blast
  obtain cs where "addItem name (atof time) (s\<lparr>name_buf := arr\<rparr>) = Some (s\<lparr>name_buf := arr, calls := cs\<rparr>)" "adds_up cs (evs @ [(name, atof time)])"
    using addItem_run [of "s\<lparr>name_buf := arr\<rparr>" evs name "atof time"] assms(3,4) by auto
  moreover have "length (trace_line name args time) < 1024" using assms(1) by (simp add: good_call_def)
  ultimately show ?thesis using a useful [OF assms(1)]
    by (simp add: use_line_def read_clock_def show_table_def Let_def)
qed

lemma next_trace:
  assumes "good_call (name, args, time)" "list_all good_call tr"
  shows "next_line (trace_text ((name, args, time) # tr)) = Some (trace_line name args time, trace_text tr)"
    "cstring (trace_line name args time) = trace_line name args time"
proof -
  let ?l = "trace_line name args time"
  have n: "CHR 0x0A \<notin> set ?l" "CHR 0x00 \<notin> set ?l" "?l \<noteq> []" using assms(1) by (auto simp: good_call_def trace_line_def)
  have "takeWhile (\<lambda>c. c \<noteq> CHR 0x0A) (?l @ CHR 0x0A # x) = ?l" for x by (rule takeWhile_stop [OF n(1)])
  moreover have "dropWhile isspace (CHR 0x0A # trace_text tr) = trace_text tr"
    using trace_start [OF assms(2)] by (cases "trace_text tr") (auto simp: isspace_def)
  ultimately show "next_line (trace_text ((name, args, time) # tr)) = Some (?l, trace_text tr)"
    using n(3) by (simp add: next_line_def trace_text_def)
  show "cstring ?l = ?l" by (rule cstring_id [OF n(2)])
qed

lemma read_trace_run:
  "list_all good_call tr \<Longrightarrow> length (name_buf s) = 50 \<Longrightarrow> adds_up (calls s) evs \<Longrightarrow>
   card (fst ` set (evs @ map (event_of atof) tr)) \<le> MAX_SYSCALL \<Longrightarrow>
   \<exists>s'. read_trace qsrt atof clock (trace_text tr) s = Some s' \<and> adds_up (calls s') (evs @ map (event_of atof) tr)"
proof (induction tr arbitrary: s evs)
  case Nil
  then show ?case by (simp add: trace_text_def read_trace.simps next_line_def)
next
  case (Cons e tr)
  obtain name args time where e: "e = (name, args, time)" by (cases e)
  have g: "good_call (name, args, time)" "list_all good_call tr" using Cons.prems(1) e by auto
  have "card (insert name (fst ` set evs)) \<le> card (fst ` set (evs @ map (event_of atof) (e # tr)))"
    by (rule card_mono) (auto simp: e event_of_def)
  then have "card (insert name (fst ` set evs)) \<le> MAX_SYSCALL" using Cons.prems(4) by simp
  then obtain s1 where s1: "use_line qsrt atof clock (trace_line name args time) s = Some s1"
    "adds_up (calls s1) (evs @ [(name, atof time)])" "length (name_buf s1) = 50"
    using use_line_run [OF g(1) Cons.prems(2,3)] by blast
  have "evs @ map (event_of atof) (e # tr) = (evs @ [(name, atof time)]) @ map (event_of atof) tr" by (simp add: e event_of_def)
  then show ?case using Cons.IH [OF g(2) s1(3,2)] Cons.prems(4) s1(1) next_trace [OF g]
    by (subst read_trace.simps) (simp add: e)
qed

lemma sperf_run:
  assumes "list_all good_call tr" "card (fst ` set (map (event_of atof) tr)) \<le> MAX_SYSCALL" "sorts qsrt comparer"
  shows "\<exists>ts rows. sperf_parent qsrt atof clock (trace_text tr) = Some ts \<and> ts \<noteq> [] \<and>
     mset rows = mset (map (item_of (map (event_of atof) tr)) (remdups (map fst (map (event_of atof) tr)))) \<and>
     sorted_wrt (\<lambda>a b. comparer a b \<le> 0) rows \<and>
     last ts = map (\<lambda>c. (call_name c, let total = sum_list (map snd (map (event_of atof) tr)) in
       if total = 0 then None else Some (totalTime c / total * 100))) rows"
proof -
  let ?evs = "map (event_of atof) tr"
  have "adds_up (calls (initList clock)) []" "length (name_buf (initList clock)) = 50" by (simp_all add: adds_up_def initList_def)
  then obtain s where s: "read_trace qsrt atof clock (trace_text tr) (initList clock) = Some s" "adds_up (calls s) ?evs"
    using read_trace_run [OF assms(1), of "initList clock" "[]"] assms(2) by fastforce
  let ?rows = "qsrt comparer (calls s)"
  have m: "mset ?rows = mset (calls s)" "sorted_wrt (\<lambda>a b. comparer a b \<le> 0) ?rows" using assms(3) by (simp_all add: sorts_def)
  have "sum_list (map totalTime (calls s)) = sum_list (map snd ?evs)"
  proof -
    have d: "distinct (map call_name (calls s))" "set (map call_name (calls s)) = fst ` set ?evs" using adds_upD [OF s(2)] by blast+
    have "map totalTime (calls s) = map (spent ?evs) (map call_name (calls s))" using s(2) by (simp add: adds_up_def)
    then show ?thesis using spent_total [OF d(1), of ?evs] d(2) by (simp only: order_refl)
  qed
  then show ?thesis using s m adds_up_mset [OF s(2)]
    by (intro exI [of _ "tables s @ [table_of qsrt (calls s)]"] exI [of _ ?rows])
      (simp add: sperf_parent_def show_table_def read_clock_def table_of_def Let_def)
qed

section \<open>Properties\<close>


text \<open>Fractions of a second with six digits.\<close>

definition demo_atof :: "string \<Rightarrow> rat" where
  "demo_atof t = of_nat (decimal (drop 2 t)) / 1000000"

definition demo_trace :: "(string \<times> string \<times> string) list" where
  "demo_trace = [(''read'', ''3) = 7'', ''0.000030''), (''write'', ''1) = 7'', ''0.000050''), (''read'', ''3) = 0'', ''0.000020'')]"

lemma str_cmp_total: "0 < str_cmp a b \<Longrightarrow> str_cmp b a \<le> 0"
  by (induction a b rule: str_cmp.induct) (auto split: if_splits)

lemma str_cmp_trans: "str_cmp a b \<le> 0 \<Longrightarrow> str_cmp b c \<le> 0 \<Longrightarrow> str_cmp a c \<le> 0"
proof (induction a b arbitrary: c rule: str_cmp.induct)
  case (2 d ds)
  then show ?case by (cases c) auto
next
  case (4 x xs y ys)
  show ?case
  proof (cases c)
    case (Cons z zs)
    let ?x = "of_char x :: nat" and ?y = "of_char y :: nat" and ?z = "of_char z :: nat"
    have xy: "?x < ?y \<or> ?x = ?y \<and> str_cmp xs ys \<le> 0" using "4.prems"(1) by (simp split: if_splits)
    have yz: "?y < ?z \<or> ?y = ?z \<and> str_cmp ys zs \<le> 0" using "4.prems"(2) unfolding Cons by (simp split: if_splits)
    have "?x < ?z \<or> ?x = ?z \<and> str_cmp xs zs \<le> 0" using xy yz "4.IH" [of zs] by force
    then show ?thesis unfolding Cons by auto
  qed (use "4.prems" in simp)
qed auto


end
