(* ===== verification/Crepl.thy ===== *)
theory Crepl
  imports Kvdb
begin

text \<open>
  The interactive C (\<open>crepl/crepl.c\<close>). The compiler, which may accept a text or not, the loader, which
  runs the wrapper function of a compiled text, and the names of temporary files are parameters. The functions kept are
  the list of their lines; what is printed is a list of replies.
\<close>

datatype loaded = No_library | No_function | Value int

datatype reply = Added string | Compile_failed | No_file | Cannot_load | Cannot_find | Result string int

record crepl =
  contents :: "string list"
  replies :: "reply list"

definition appendContent :: "string \<Rightarrow> crepl \<Rightarrow> crepl" where
  "appendContent line s = s\<lparr>contents := contents s @ [line]\<rparr>"

definition say :: "reply \<Rightarrow> crepl \<Rightarrow> crepl" where
  "say r s = s\<lparr>replies := replies s @ [r]\<rparr>"

text \<open>The start of a file: the functions so far, a line each.\<close>

definition initTempFile :: "crepl \<Rightarrow> string" where
  "initTempFile s = concat (map (\<lambda>c. c @ [CHR 0x0A]) (contents s))"

definition wrap_name :: "string \<Rightarrow> string" where
  "wrap_name name = ''__expr_wrap_'' @ name"

definition appendWrapFunc :: "string \<Rightarrow> string \<Rightarrow> string \<Rightarrow> string" where
  "appendWrapFunc file expr name = file @ ''int '' @ wrap_name name @ ''() {'' @ [CHR 0x0A] @
     ''  return ('' @ expr @ '');'' @ [CHR 0x0A] @ ''}''"

text \<open>The line without its end and whether it defines a function, and the rest of the input.\<close>

definition strip_newlines :: "string \<Rightarrow> string" where
  "strip_newlines s = rev (dropWhile (\<lambda>c. c = CHR 0x0A) (rev s))"

definition getInput :: "string \<Rightarrow> ((string \<times> bool) \<times> string) option" where
  "getInput inp = (case fgets 1024 inp of
       (None, rest, eof) \<Rightarrow> None
     | (Some l, rest, eof) \<Rightarrow> (let str = strip_newlines (cstring l)
         in Some ((str, 4 \<le> length str \<and> take 4 str = ''int ''), rest)))"

definition execute ::
  "(string \<Rightarrow> bool) \<Rightarrow> (string \<Rightarrow> string \<Rightarrow> loaded) \<Rightarrow> string option \<Rightarrow> string \<Rightarrow> bool \<Rightarrow> crepl \<Rightarrow> crepl" where
  "execute gcc load temp str isfunc s = (case temp of
       None \<Rightarrow> say No_file s
     | Some name \<Rightarrow> (let file = initTempFile s in
         if isfunc then
           (if gcc (file @ str) then say (Added str) (appendContent str s) else say Compile_failed s)
         else let text1 = appendWrapFunc file str name in
           (if gcc text1 then (case load text1 (wrap_name name) of
               No_library \<Rightarrow> say Cannot_load s
             | No_function \<Rightarrow> say Cannot_find s
             | Value v \<Rightarrow> say (Result str v) s)
            else say Compile_failed s)))"

text \<open>The loop of \<open>main\<close>; \<open>mkstemp\<close> gives the names in turn.\<close>

function crepl_loop ::
  "(string \<Rightarrow> bool) \<Rightarrow> (string \<Rightarrow> string \<Rightarrow> loaded) \<Rightarrow> (nat \<Rightarrow> string option) \<Rightarrow> nat \<Rightarrow> string \<Rightarrow> crepl \<Rightarrow> crepl" where
  "crepl_loop gcc load temps k inp s = (case getInput inp of
       None \<Rightarrow> s
     | Some ((str, isfunc), rest) \<Rightarrow>
         crepl_loop gcc load temps (k + 1) rest (execute gcc load (temps k) str isfunc s))"
  by pat_completeness auto
termination
  by (relation "measure (\<lambda>(gcc, load, temps, k, inp, s). length inp)")
    (auto simp: getInput_def Let_def split: prod.splits option.splits dest: fgets_shorter)

declare crepl_loop.simps [simp del]

definition crepl_main :: "(string \<Rightarrow> bool) \<Rightarrow> (string \<Rightarrow> string \<Rightarrow> loaded) \<Rightarrow> (nat \<Rightarrow> string option) \<Rightarrow> string \<Rightarrow> crepl" where
  "crepl_main gcc load temps inp = crepl_loop gcc load temps 0 inp \<lparr>contents = [], replies = []\<rparr>"

end
