(* ===== verification/CreplProps.thy ===== *)
theory CreplProps
  imports Crepl
begin

text \<open>
  What is kept of a session: only functions that the compiler accepted behind those before them.
\<close>

definition source_of :: "string list \<Rightarrow> string" where
  "source_of fs = concat (map (\<lambda>c. c @ [CHR 0x0A]) fs)"

definition accepted :: "(string \<Rightarrow> bool) \<Rightarrow> string list \<Rightarrow> bool" where
  "accepted gcc fs \<longleftrightarrow>
     (\<forall>k<length fs. gcc (source_of (take k fs) @ fs ! k) \<and> take 4 (fs ! k) = ''int '')"

text \<open>The replies to expressions, with the functions that were there.\<close>

definition answered :: "(string \<Rightarrow> bool) \<Rightarrow> (string \<Rightarrow> string \<Rightarrow> loaded) \<Rightarrow> string list \<Rightarrow> reply \<Rightarrow> bool" where
  "answered gcc load fs r \<longleftrightarrow> (case r of
       Result e v \<Rightarrow> \<exists>k name. let t = appendWrapFunc (source_of (take k fs)) e name
         in gcc t \<and> load t (wrap_name name) = Value v
     | Added f \<Rightarrow> f \<in> set fs
     | _ \<Rightarrow> True)"

definition kept :: "crepl \<Rightarrow> string list" where
  "kept s = concat (map (\<lambda>r. case r of Added f \<Rightarrow> [f] | _ \<Rightarrow> []) (replies s))"

definition session_ok :: "(string \<Rightarrow> bool) \<Rightarrow> (string \<Rightarrow> string \<Rightarrow> loaded) \<Rightarrow> crepl \<Rightarrow> bool" where
  "session_ok gcc load s \<longleftrightarrow> accepted gcc (contents s) \<and> kept s = contents s \<and>
     (\<forall>r\<in>set (replies s). answered gcc load (contents s) r)"

lemma accepted_snoc:
  assumes "accepted gcc fs" "gcc (source_of fs @ f)" "take 4 f = ''int ''"
  shows "accepted gcc (fs @ [f])"
  using assms by (auto simp: accepted_def nth_append less_Suc_eq)

lemma answered_result: "answered gcc load fs (Result e v) \<longleftrightarrow> (\<exists>k name.
     gcc (appendWrapFunc (source_of (take k fs)) e name) \<and> load (appendWrapFunc (source_of (take k fs)) e name) (wrap_name name) = Value v)"
  by (simp add: answered_def Let_def)

lemma answered_more: "answered gcc load fs r \<Longrightarrow> answered gcc load (fs @ [f]) r"
proof (cases r)
  case (Result e v)
  assume "answered gcc load fs r"
  then obtain k name where k: "gcc (appendWrapFunc (source_of (take k fs)) e name)"
    "load (appendWrapFunc (source_of (take k fs)) e name) (wrap_name name) = Value v"
    unfolding Result answered_result by blast
  have "take k fs = take (min k (length fs)) (fs @ [f])" by (cases "k \<le> length fs") auto
  then show ?thesis using k unfolding Result answered_result by (intro exI [of _ "min k (length fs)"] exI [of _ name]) simp
qed (simp_all add: answered_def)

lemma execute_ok:
  assumes "session_ok gcc load s" "isfunc \<longrightarrow> take 4 str = ''int ''"
  shows "session_ok gcc load (execute gcc load temp str isfunc s)"
proof -
  have say_ok: "session_ok gcc load (say r s)" if "answered gcc load (contents s) r" "\<And>f. r \<noteq> Added f" for r
    using assms(1) that by (auto simp: session_ok_def say_def kept_def split: reply.splits)
  show ?thesis
  proof (cases temp)
    case None
    then show ?thesis using say_ok by (simp add: execute_def answered_def)
  next
    case (Some name)
    show ?thesis
    proof (cases "isfunc \<and> gcc (initTempFile s @ str)")
      case True
      have "accepted gcc (contents s @ [str])"
        by (rule accepted_snoc) (use True assms in \<open>auto simp: session_ok_def initTempFile_def source_of_def\<close>)
      then have "session_ok gcc load (say (Added str) (appendContent str s))"
        using assms(1) answered_more by (auto simp: session_ok_def say_def appendContent_def kept_def) (simp add: answered_def)
      then show ?thesis using True Some by (simp add: execute_def Let_def)
    next
      case False
      let ?t = "appendWrapFunc (initTempFile s) str name"
      have "answered gcc load (contents s) (Result str v)" if "gcc ?t" "load ?t (wrap_name name) = Value v" for v
        unfolding answered_result by (intro exI [of _ "length (contents s)"] exI [of _ name])
          (use that in \<open>simp add: initTempFile_def source_of_def\<close>)
      then show ?thesis using False Some say_ok
        by (auto simp: execute_def Let_def answered_def split: loaded.splits)
    qed
  qed
qed

lemma loop_ok: "session_ok gcc load s \<Longrightarrow> session_ok gcc load (crepl_loop gcc load temps k inp s)"
proof (induction gcc load temps k inp s rule: crepl_loop.induct)
  case (1 gcc load temps k inp s)
  show ?case
  proof (cases "getInput inp")
    case None
    then show ?thesis using "1.prems" by (simp add: crepl_loop.simps)
  next
    case (Some r)
    obtain str isfunc rest where r: "r = ((str, isfunc), rest)" by (metis prod.exhaust)
    have "isfunc \<longrightarrow> take 4 str = ''int ''" using Some r by (auto simp: getInput_def Let_def split: prod.splits option.splits)
    then have "session_ok gcc load (execute gcc load (temps k) str isfunc s)" using execute_ok "1.prems" by blast
    then show ?thesis using "1.IH" Some r by (subst crepl_loop.simps) simp
  qed
qed

section \<open>Properties\<close>


end
