(* ===== verification/Vme.thy ===== *)
theory Vme
  imports KMem
begin

text \<open>
  Address spaces of the machine layer (\<open>am/src/x86/qemu/vme.c\<close>, \<open>am/include/x86.h\<close>): page
  directories and page tables in the memory, one word for an entry. The pages come from the client's
  allocator: \<open>pool\<close> is the list of addresses it will return, \<open>released\<close> the pages given back. A panic is \<open>None\<close>.
  \<open>mmu\<close> is the processor's own walk of the tables.
\<close>

unbundle bit_operations_syntax

section \<open>Constants and state\<close>

definition PGSIZE :: nat where "PGSIZE = 4096"

definition PTE_P :: u32 where "PTE_P = 1"
definition PTE_W :: u32 where "PTE_W = 2"
definition PTE_U :: u32 where "PTE_U = 4"

definition PROT_NONE :: u32 where "PROT_NONE = 1"
definition PROT_WRITE :: u32 where "PROT_WRITE = 4"

definition PDX :: "u32 \<Rightarrow> u32" where "PDX va = drop_bit 22 va AND 0x3ff"
definition PTX :: "u32 \<Rightarrow> u32" where "PTX va = drop_bit 12 va AND 0x3ff"
definition PTE_ADDR :: "u32 \<Rightarrow> u32" where "PTE_ADDR pte = pte AND NOT 0xfff"
definition ROUNDDOWN :: "u32 \<Rightarrow> u32" where "ROUNDDOWN a = a AND NOT 0xfff"

record vm_area =
  area_start :: u32
  area_end :: u32
  physical :: bool

definition areas :: "vm_area list" where
  "areas = [\<lparr>area_start = 0, area_end = 0x20000000, physical = True\<rparr>,
     \<lparr>area_start = 0x40000000, area_end = 0x80000000, physical = False\<rparr>,
     \<lparr>area_start = 0xf0000000, area_end = 0, physical = True\<rparr>]"

definition uvm_area :: vm_area where "uvm_area = areas ! 1"

record vme =
  vmem :: mem
  pool :: "u32 list"
  released :: "u32 list"

text \<open>The entry number \<open>i\<close> of a directory or table.\<close>

definition slot :: "u32 \<Rightarrow> nat \<Rightarrow> u32" where "slot p i = p + of_nat (4 * i)"

section \<open>Pages\<close>

fun clear_page :: "nat \<Rightarrow> u32 \<Rightarrow> mem \<Rightarrow> mem" where
  "clear_page 0 p m = m"
| "clear_page (Suc n) p m = st32 (clear_page n p m) (slot p n) 0"

definition pgalloc :: "vme \<Rightarrow> (u32 \<times> vme) option" where
  "pgalloc s = (case pool s of
       [] \<Rightarrow> None
     | p # ps \<Rightarrow> do { Assert (p \<noteq> 0); Some (p, s\<lparr>vmem := clear_page (PGSIZE div 4) p (vmem s), pool := ps\<rparr>) })"

definition pgfree :: "u32 \<Rightarrow> vme \<Rightarrow> vme" where
  "pgfree p s = s\<lparr>released := released s @ [p]\<rparr>"

definition set32 :: "u32 \<Rightarrow> u32 \<Rightarrow> vme \<Rightarrow> vme" where
  "set32 a w s = s\<lparr>vmem := st32 (vmem s) a w\<rparr>"

section \<open>The kernel's page table\<close>

definition kmap_page :: "u32 \<Rightarrow> u32 \<Rightarrow> vme \<Rightarrow> vme option" where
  "kmap_page kpt pa s = do {
     let pde = slot kpt (unat (PDX pa));
     (ptab, s) \<leftarrow> (if \<not> bit (ld32 (vmem s) pde) 0 then do {
         (t, s) \<leftarrow> pgalloc s;
         Some (t, set32 pde (PTE_P OR PTE_W OR t) s) }
       else Some (PTE_ADDR (ld32 (vmem s) pde), s));
     Some (set32 (slot ptab (unat (PTX pa))) (PTE_P OR PTE_W OR pa) s) }"

partial_function (option) kmap_area :: "u32 \<Rightarrow> u32 \<Rightarrow> u32 \<Rightarrow> vme \<Rightarrow> vme option" where
  "kmap_area kpt pa stop s =
     (if pa = stop then Some s else do { s \<leftarrow> kmap_page kpt pa s; kmap_area kpt (pa + 4096) stop s })"

fun kmap_areas :: "u32 \<Rightarrow> vm_area list \<Rightarrow> vme \<Rightarrow> vme option" where
  "kmap_areas kpt [] s = Some s"
| "kmap_areas kpt (seg # segs) s = do {
     s \<leftarrow> (if physical seg then kmap_area kpt (area_start seg) (area_end seg) s else Some s);
     kmap_areas kpt segs s }"

definition vme_init :: "vme \<Rightarrow> (u32 \<times> vme) option" where
  "vme_init s = do {
     (kpt, s) \<leftarrow> pgalloc s;
     s \<leftarrow> kmap_areas kpt areas s;
     Some (kpt, s) }"

section \<open>Address spaces\<close>

fun copy_entries :: "nat \<Rightarrow> u32 \<Rightarrow> u32 \<Rightarrow> mem \<Rightarrow> mem" where
  "copy_entries 0 updir kpt m = m"
| "copy_entries (Suc n) updir kpt m = (let m = copy_entries n updir kpt m in st32 m (slot updir n) (ld32 m (slot kpt n)))"

definition protect :: "u32 \<Rightarrow> vme \<Rightarrow> (u32 \<times> vme) option" where
  "protect kpt s = do {
     (updir, s) \<leftarrow> pgalloc s;
     Some (updir, s\<lparr>vmem := copy_entries (PGSIZE div 4) updir kpt (vmem s)\<rparr>) }"

partial_function (option) unprotect_loop :: "u32 \<Rightarrow> u32 \<Rightarrow> vme \<Rightarrow> vme option" where
  "unprotect_loop updir va s =
     (if va = area_end uvm_area then Some s
      else let pde = ld32 (vmem s) (slot updir (unat (PDX va)));
               s = (if bit pde 0 then pgfree (PTE_ADDR pde) s else s)
        in unprotect_loop updir (va + push_bit 22 1) s)"

definition unprotect :: "u32 \<Rightarrow> vme \<Rightarrow> vme option" where
  "unprotect updir s = do { s \<leftarrow> unprotect_loop updir (area_start uvm_area) s; Some (pgfree updir s) }"

definition in_area :: "u32 \<Rightarrow> vm_area \<Rightarrow> bool" where
  "in_area ptr area \<longleftrightarrow> area_start area \<le> ptr \<and> ptr < area_end area"

definition map_page :: "u32 \<Rightarrow> u32 \<Rightarrow> u32 \<Rightarrow> u32 \<Rightarrow> vme \<Rightarrow> (int \<times> vme) option" where
  "map_page updir va pa prot s = do {
     Assert (\<not> (bit prot 0 \<and> prot \<noteq> PROT_NONE));
     Assert (va = ROUNDDOWN va \<and> pa = ROUNDDOWN pa);
     if \<not> in_area va uvm_area then Some (1, s)
     else do {
       let pde = slot updir (unat (PDX va));
       s \<leftarrow> (if \<not> bit (ld32 (vmem s) pde) 0 then do {
           (t, s) \<leftarrow> pgalloc s;
           Some (set32 pde (PTE_P OR PTE_W OR PTE_U OR t) s) }
         else Some s);
       let pte = slot (PTE_ADDR (ld32 (vmem s) pde)) (unat (PTX va));
       Some (0, set32 pte (if bit prot 0 then 0
         else PTE_P OR (if prot AND PROT_WRITE \<noteq> 0 then PTE_W else 0) OR PTE_U OR pa) s) } }"

section \<open>The walk of the processor\<close>

record translation =
  to_addr :: u32
  writable :: bool
  user :: bool

definition mmu :: "mem \<Rightarrow> u32 \<Rightarrow> u32 \<Rightarrow> translation option" where
  "mmu m pd va =
     (let pde = ld32 m (slot pd (unat (PDX va))); pte = ld32 m (slot (PTE_ADDR pde) (unat (PTX va)))
      in if bit pde 0 \<and> bit pte 0
         then Some \<lparr>to_addr = PTE_ADDR pte OR (va AND 0xfff), writable = bit pde 1 \<and> bit pte 1, user = bit pde 2 \<and> bit pte 2\<rparr>
         else None)"

end
