(* ===== verification/VmeProps.thy ===== *)
theory VmeProps
  imports Vme "HOL-Library.Multiset"
begin

text \<open>
  What the page tables mean: an address space is a map from pages to pages with their rights, and mapping a page
  is an update of that map.
\<close>

section \<open>Pages and slots\<close>

definition page :: "u32 \<Rightarrow> bool" where "page p \<longleftrightarrow> take_bit 12 p = 0"

lemma mask_12: "(0xfff :: u32) = mask 12" "(0x3ff :: u32) = mask 10"
  by (simp_all add: mask_eq_exp_minus_1)

lemma bit_PTE_ADDR: "bit (PTE_ADDR x) n \<longleftrightarrow> 12 \<le> n \<and> bit x n"
  by (auto simp: PTE_ADDR_def mask_12 bit_simps dest: bit_imp_le_length)

lemma page_bit: "page p \<Longrightarrow> n < 12 \<Longrightarrow> \<not> bit p n"
  unfolding page_def by (metis bit_0_eq bit_take_bit_iff bot_apply bot_bool_def)

lemma page_bit_ge: "page p \<Longrightarrow> bit p n \<Longrightarrow> 12 \<le> n"
  using page_bit [of p n] by (metis not_le)

lemma page_addr [simp]: "page (PTE_ADDR x)"
  unfolding page_def by (rule bit_word_eqI) (simp add: bit_take_bit_iff bit_PTE_ADDR)

lemma round_page: "ROUNDDOWN p = p \<longleftrightarrow> page p"
proof
  assume "ROUNDDOWN p = p"
  then show "page p" using page_addr [of p] by (simp add: ROUNDDOWN_def PTE_ADDR_def)
next
  assume p: "page p"
  have "PTE_ADDR p = p" by (rule bit_word_eqI) (use page_bit_ge [OF p] in \<open>auto simp: bit_PTE_ADDR\<close>)
  then show "ROUNDDOWN p = p" by (simp add: ROUNDDOWN_def PTE_ADDR_def)
qed

lemma addr_flags: "page p \<Longrightarrow> take_bit 12 f = f \<Longrightarrow> PTE_ADDR (f OR p) = p"
proof (rule bit_word_eqI)
  fix n assume p: "page p" and f: "take_bit 12 f = f"
  have "\<not> bit f n" if "12 \<le> n" using f that by (metis bit_take_bit_iff not_le)
  then show "bit (PTE_ADDR (f OR p)) n = bit p n" using page_bit_ge [OF p] by (auto simp: bit_PTE_ADDR bit_or_iff)
qed

lemma page_dvd: "page p \<longleftrightarrow> 4096 dvd unat p"
proof -
  have "unat (take_bit 12 p) = take_bit 12 (unat p)" by (rule unsigned_take_bit_eq)
  also have "\<dots> = unat p mod 4096" by (simp add: take_bit_eq_mod)
  finally have "unat (take_bit 12 p) = unat p mod 4096" .
  moreover have "take_bit 12 p = 0 \<longleftrightarrow> unat (take_bit 12 p) = 0" by (simp add: unat_eq_0)
  ultimately show ?thesis by (simp add: page_def dvd_eq_mod_eq_0)
qed

lemma unat_slot: "page p \<Longrightarrow> i < 1024 \<Longrightarrow> unat (slot p i) = unat p + 4 * i \<and> unat p + 4096 \<le> 2 ^ 32"
proof -
  assume p: "page p" and i: "i < 1024"
  obtain a where a: "unat p = 4096 * a" using p by (auto simp: page_dvd dvd_def)
  then have "a \<le> 1048575" using unat_lt_2p32 [of p] by simp
  then have "unat p + 4096 \<le> 2 ^ 32" using a by simp
  then show ?thesis using unat_add_of_nat [of p "4 * i"] i by (simp add: slot_def)
qed

lemma slot_apart:
  assumes "page p" "page q" "i < 1024" "j < 1024" "p \<noteq> q \<or> i \<noteq> j"
  shows "apart (slot p i) 4 (slot q j) 4"
proof -
  obtain a b where ab: "unat p = 4096 * a" "unat q = 4096 * b" using assms(1,2) by (auto simp: page_dvd dvd_def)
  have "a \<noteq> b \<or> i \<noteq> j" using assms(5) ab by (metis word_unat_eq_iff)
  moreover have "unat (slot p i) = 4096 * a + 4 * i" "unat (slot q j) = 4096 * b + 4 * j" "4096 * a + 4096 \<le> 2 ^ 32" "4096 * b + 4096 \<le> 2 ^ 32"
    using unat_slot [OF assms(1,3)] unat_slot [OF assms(2,4)] ab by simp_all
  ultimately show ?thesis using assms(3,4) unfolding apart_def by (cases a b rule: linorder_cases) auto
qed

lemma ld32_slot: "page p \<Longrightarrow> page q \<Longrightarrow> i < 1024 \<Longrightarrow> j < 1024 \<Longrightarrow>
   ld32 (st32 m (slot p i) w) (slot q j) = (if p = q \<and> i = j then w else ld32 m (slot q j))"
  using slot_apart [of p q i j] ld32_st32_apart by (cases "p = q \<and> i = j") auto

lemma index_less [simp]: "unat (PDX va) < 1024" "unat (PTX va) < 1024"
proof -
  have "unat (x AND mask 10 :: u32) < 1024" for x
    using take_bit_nat_less_exp [of 10 "unat x"] by (simp add: take_bit_eq_mask [symmetric] unsigned_take_bit_eq)
  then show "unat (PDX va) < 1024" "unat (PTX va) < 1024" by (simp_all add: PDX_def PTX_def mask_12(2) del: unsigned_and_eq)
qed

lemma same_page:
  assumes "PDX a = PDX b" "PTX a = PTX b"
  shows "PTE_ADDR a = PTE_ADDR b"
proof (rule bit_word_eqI)
  fix n assume "n < LENGTH(32)"
  then have n: "n < 32" by simp
  have d: "bit (PDX x) k \<longleftrightarrow> bit x (22 + k) \<and> k < 10" "bit (PTX x) k \<longleftrightarrow> bit x (12 + k) \<and> k < 10" for x k
    by (auto simp: PDX_def PTX_def mask_12 bit_simps)
  have ab: "bit (PDX a) k = bit (PDX b) k" "bit (PTX a) k = bit (PTX b) k" for k using assms by simp_all
  consider "n < 12" | k where "n = 12 + k" "k < 10" | k where "n = 22 + k" "k < 10"
    using n by (cases "n < 12"; cases "n < 22") (auto simp: not_less le_iff_add)
  then show "bit (PTE_ADDR a) n = bit (PTE_ADDR b) n"
    using ab unfolding d by cases (auto simp: bit_PTE_ADDR)
qed

lemma PDX_addr [simp]: "PDX (PTE_ADDR a) = PDX a" "PTX (PTE_ADDR a) = PTX a"
  by (rule bit_word_eqI; auto simp: PDX_def PTX_def mask_12 bit_simps bit_PTE_ADDR)+

section \<open>Address spaces\<close>

definition entry :: "mem \<Rightarrow> u32 \<Rightarrow> nat \<Rightarrow> u32" where "entry m pd i = ld32 m (slot pd i)"

text \<open>The directory, the tables it has, and the pages still to come are different pages; user tables admit
  the user and writing.\<close>

definition space :: "mem \<Rightarrow> u32 \<Rightarrow> u32 list \<Rightarrow> bool" where
  "space m pd ps \<longleftrightarrow> page pd \<and> distinct (pd # ps) \<and> (\<forall>p\<in>set ps. page p \<and> p \<noteq> 0) \<and>
     (\<forall>i<1024. bit (entry m pd i) 0 \<longrightarrow> PTE_ADDR (entry m pd i) \<notin> set (pd # ps)) \<and>
     (\<forall>i<1024. \<forall>j<1024. bit (entry m pd i) 0 \<longrightarrow> bit (entry m pd j) 0 \<longrightarrow> PTE_ADDR (entry m pd i) = PTE_ADDR (entry m pd j) \<longrightarrow> i = j) \<and>
     (\<forall>i. 256 \<le> i \<longrightarrow> i < 512 \<longrightarrow> bit (entry m pd i) 0 \<longrightarrow> bit (entry m pd i) 1 \<and> bit (entry m pd i) 2)"

lemma spaceD:
  assumes "space m pd ps"
  shows "page pd" "distinct (pd # ps)" "p \<in> set ps \<Longrightarrow> page p \<and> p \<noteq> 0"
    "i < 1024 \<Longrightarrow> bit (entry m pd i) 0 \<Longrightarrow> PTE_ADDR (entry m pd i) \<notin> set (pd # ps)"
    "i < 1024 \<Longrightarrow> j < 1024 \<Longrightarrow> bit (entry m pd i) 0 \<Longrightarrow> bit (entry m pd j) 0 \<Longrightarrow> PTE_ADDR (entry m pd i) = PTE_ADDR (entry m pd j) \<Longrightarrow> i = j"
    "256 \<le> i \<Longrightarrow> i < 512 \<Longrightarrow> bit (entry m pd i) 0 \<Longrightarrow> bit (entry m pd i) 1 \<and> bit (entry m pd i) 2"
  using assms unfolding space_def by blast+

lemma entry_st32: "page p \<Longrightarrow> page q \<Longrightarrow> i < 1024 \<Longrightarrow> j < 1024 \<Longrightarrow>
   entry (st32 m (slot p i) w) q j = (if p = q \<and> i = j then w else entry m q j)"
  by (simp add: entry_def ld32_slot)

lemma clear_entry: "n \<le> 1024 \<Longrightarrow> page p \<Longrightarrow> page q \<Longrightarrow> j < 1024 \<Longrightarrow>
   entry (clear_page n p m) q j = (if p = q \<and> j < n then 0 else entry m q j)"
  by (induction n) (auto simp: entry_st32 less_Suc_eq)

lemma mmu_entry: "mmu m pd va = (let pde = entry m pd (unat (PDX va)); pte = entry m (PTE_ADDR pde) (unat (PTX va))
   in if bit pde 0 \<and> bit pte 0
      then Some \<lparr>to_addr = PTE_ADDR pte OR (va AND 0xfff), writable = bit pde 1 \<and> bit pte 1, user = bit pde 2 \<and> bit pte 2\<rparr> else None)"
  by (simp add: mmu_def entry_def)

lemma mmu_cong:
  assumes "entry m' pd (unat (PDX va)) = entry m pd (unat (PDX va))"
    "bit (entry m pd (unat (PDX va))) 0 \<Longrightarrow>
     entry m' (PTE_ADDR (entry m pd (unat (PDX va)))) (unat (PTX va)) = entry m (PTE_ADDR (entry m pd (unat (PDX va)))) (unat (PTX va))"
  shows "mmu m' pd va = mmu m pd va"
  using assms unfolding mmu_entry by (auto simp: Let_def)

section \<open>A table for an entry\<close>

text \<open>The first half of \<open>map\<close> and of the loop of \<open>vme_init\<close>.\<close>

definition ensure :: "u32 \<Rightarrow> u32 \<Rightarrow> nat \<Rightarrow> vme \<Rightarrow> vme option" where
  "ensure f pd i s =
     (if \<not> bit (entry (vmem s) pd i) 0 then do { (t, s) \<leftarrow> pgalloc s; Some (set32 (slot pd i) (f OR t) s) } else Some s)"

definition ensured :: "nat \<Rightarrow> u32 \<Rightarrow> vme \<Rightarrow> vme \<Rightarrow> bool" where
  "ensured i pd s s' \<longleftrightarrow> bit (entry (vmem s') pd i) 0 \<and> space (vmem s') pd (pool s') \<and> released s' = released s \<and>
     (\<forall>j<1024. j \<noteq> i \<longrightarrow> entry (vmem s') pd j = entry (vmem s) pd j) \<and> (\<forall>va. mmu (vmem s') pd va = mmu (vmem s) pd va) \<and>
     (if bit (entry (vmem s) pd i) 0 then s' = s else pool s = PTE_ADDR (entry (vmem s') pd i) # pool s')"

lemma ensure_run:
  assumes sp: "space (vmem s) pd (pool s)" and i: "i < 1024" and room: "bit (entry (vmem s) pd i) 0 \<or> pool s \<noteq> []"
    and f: "take_bit 12 f = f" "bit f 0" "256 \<le> i \<Longrightarrow> i < 512 \<Longrightarrow> bit f 1 \<and> bit f 2"
  shows "\<exists>s'. ensure f pd i s = Some s' \<and> ensured i pd s s'"
proof (cases "bit (entry (vmem s) pd i) 0")
  case True
  then show ?thesis using sp by (simp add: ensure_def ensured_def)
next
  case False
  then obtain t ps where t: "pool s = t # ps" using room by (cases "pool s") auto
  note D = spaceD [OF sp]
  have pt: "page t" "t \<noteq> 0" "t \<noteq> pd" "page pd" "t \<notin> set ps" "distinct ps" "pd \<notin> set ps" using D(1,2) D(3) [of t] t by auto
  let ?m = "clear_page 1024 t (vmem s)"
  define s' where "s' = s\<lparr>vmem := st32 ?m (slot pd i) (f OR t), pool := ps\<rparr>"
  have a: "PTE_ADDR (f OR t) = t" by (rule addr_flags [OF pt(1) f(1)])
  have e: "entry (vmem s') pd j = (if j = i then f OR t else entry (vmem s) pd j)" if "j < 1024" for j
    using that i pt by (simp add: s'_def entry_st32 clear_entry)
  have eq: "entry (vmem s') q j = (if q = t then 0 else entry (vmem s) q j)" if "page q" "q \<noteq> pd" "j < 1024" for q j
    using that i pt by (simp add: s'_def entry_st32 clear_entry)
  have run: "ensure f pd i s = Some s'"
    using False t pt(2) by (simp add: ensure_def pgalloc_def set32_def s'_def PGSIZE_def)
  have "space (vmem s') pd ps"
    unfolding space_def
  proof (intro conjI allI impI)
    show "PTE_ADDR (entry (vmem s') pd j) \<notin> set (pd # ps)" if "j < 1024" "bit (entry (vmem s') pd j) 0" for j
      using that e [OF that(1)] a pt D(4) [of j] t by (cases "j = i") auto
    show "j = k" if "j < 1024" "k < 1024" "bit (entry (vmem s') pd j) 0" "bit (entry (vmem s') pd k) 0"
      "PTE_ADDR (entry (vmem s') pd j) = PTE_ADDR (entry (vmem s') pd k)" for j k
      using that e [OF that(1)] e [OF that(2)] a D(4) [of j] D(4) [of k] D(5) [of j k] t by (cases "j = i"; cases "k = i") auto
    show "bit (entry (vmem s') pd j) 1" "bit (entry (vmem s') pd j) 2" if "256 \<le> j" "j < 512" "bit (entry (vmem s') pd j) 0" for j
      using that e [of j] D(6) [of j] f(3) by (auto simp: bit_or_iff)
  qed (use pt D(3) t in auto)
  moreover have "mmu (vmem s') pd va = mmu (vmem s) pd va" for va
  proof (cases "unat (PDX va) = i")
    case True
    have "entry (vmem s') t (unat (PTX va)) = 0" using eq [of t] pt by simp
    then have "mmu (vmem s') pd va = None" using e [of i] i a True by (simp add: mmu_entry)
    then show ?thesis using False True by (simp add: mmu_entry)
  next
    case False
    show ?thesis
    proof (rule mmu_cong)
      let ?e = "entry (vmem s) pd (unat (PDX va))"
      show "entry (vmem s') pd (unat (PDX va)) = ?e" using e False by simp
      show "entry (vmem s') (PTE_ADDR ?e) (unat (PTX va)) = entry (vmem s) (PTE_ADDR ?e) (unat (PTX va))" if "bit ?e 0"
        using eq [of "PTE_ADDR ?e"] D(4) [OF _ that] t by auto
    qed
  qed
  moreover have "bit (entry (vmem s') pd i) 0" using e i f(2) by (simp add: bit_or_iff)
  ultimately have "ensured i pd s s'"
    using e i False a t by (simp add: ensured_def) (simp add: s'_def)
  then show ?thesis using run by blast
qed

section \<open>An entry of a table\<close>

lemma set_entry:
  fixes w :: u32
  assumes sp: "space m pd ps" and i: "i < 1024" "bit (entry m pd i) 0" and k: "k < 1024"
  defines "m' \<equiv> st32 m (slot (PTE_ADDR (entry m pd i)) k) w"
  shows "space m' pd ps" "\<forall>j<1024. entry m' pd j = entry m pd j"
    "mmu m' pd va = (if unat (PDX va) = i \<and> unat (PTX va) = k
       then (if bit w 0 then Some \<lparr>to_addr = PTE_ADDR w OR (va AND 0xfff), writable = bit (entry m pd i) 1 \<and> bit w 1,
          user = bit (entry m pd i) 2 \<and> bit w 2\<rparr> else None)
       else mmu m pd va)"
proof -
  let ?t = "PTE_ADDR (entry m pd i)"
  note D = spaceD [OF sp]
  have t: "?t \<noteq> pd" using D(4) [OF i] by simp
  show e: "\<forall>j<1024. entry m' pd j = entry m pd j" using t D(1) k by (simp add: m'_def entry_st32)
  then show "space m' pd ps" using sp unfolding space_def by simp
  have et: "entry m' q j = (if q = ?t \<and> j = k then w else entry m q j)" if "page q" "j < 1024" for q j
    using that k by (auto simp: m'_def entry_st32)
  let ?e = "entry m pd (unat (PDX va))"
  show "mmu m' pd va = (if unat (PDX va) = i \<and> unat (PTX va) = k
       then (if bit w 0 then Some \<lparr>to_addr = PTE_ADDR w OR (va AND 0xfff), writable = bit (entry m pd i) 1 \<and> bit w 1,
          user = bit (entry m pd i) 2 \<and> bit w 2\<rparr> else None)
       else mmu m pd va)"
  proof (cases "unat (PDX va) = i \<and> unat (PTX va) = k")
    case True
    then show ?thesis using e et [of ?t k] i k by (simp add: mmu_entry Let_def)
  next
    case False
    have "mmu m' pd va = mmu m pd va"
    proof (rule mmu_cong)
      show "entry m' pd (unat (PDX va)) = ?e" using e by simp
      show "entry m' (PTE_ADDR ?e) (unat (PTX va)) = entry m (PTE_ADDR ?e) (unat (PTX va))" if "bit ?e 0"
        using et [of "PTE_ADDR ?e" "unat (PTX va)"] False D(5) [OF _ i(1) that i(2)] by auto
    qed
    then show ?thesis using False by auto
  qed
qed

section \<open>Mapping a page\<close>

lemma user_index: "in_area va uvm_area \<Longrightarrow> 256 \<le> unat (PDX va) \<and> unat (PDX va) < 512"
proof -
  assume "in_area va uvm_area"
  then have "0x40000000 \<le> va" "va < 0x80000000" by (simp_all add: in_area_def uvm_area_def areas_def)
  then have r: "1073741824 \<le> unat va" "unat va < 2147483648" by (simp_all add: word_le_nat_alt word_less_nat_alt)
  have "unat (PDX va) = unat va div 4194304 mod 1024"
    unfolding PDX_def mask_12 by (simp only: take_bit_eq_mask [symmetric] unsigned_take_bit_eq unsigned_drop_bit_eq)
      (use unat_lt_2p32 [of va] in \<open>simp add: take_bit_eq_mod drop_bit_eq_div\<close>)
  moreover have "unat va div 4194304 \<le> 511" "256 \<le> unat va div 4194304" using r by linarith+
  ultimately show "256 \<le> unat (PDX va) \<and> unat (PDX va) < 512" by simp
qed

text \<open>What the client asked for.\<close>

definition mapped :: "u32 \<Rightarrow> u32 \<Rightarrow> u32 \<Rightarrow> translation option" where
  "mapped pa prot v = (if bit prot 0 then None
     else Some \<lparr>to_addr = pa OR (v AND 0xfff), writable = prot AND PROT_WRITE \<noteq> 0, user = True\<rparr>)"

lemma map_run:
  assumes sp: "space (vmem s) pd (pool s)" and va: "page va" "in_area va uvm_area" and pa: "page pa"
    and prot: "bit prot 0 \<longrightarrow> prot = PROT_NONE" and room: "bit (entry (vmem s) pd (unat (PDX va))) 0 \<or> pool s \<noteq> []"
  shows "\<exists>s'. map_page pd va pa prot s = Some (0, s') \<and> space (vmem s') pd (pool s') \<and> released s' = released s \<and>
     (\<forall>v. mmu (vmem s') pd v = (if PTE_ADDR v = va then mapped pa prot v else mmu (vmem s) pd v)) \<and>
     (\<forall>j<1024. j \<noteq> unat (PDX va) \<longrightarrow> entry (vmem s') pd j = entry (vmem s) pd j) \<and> bit (entry (vmem s') pd (unat (PDX va))) 0 \<and>
     (if bit (entry (vmem s) pd (unat (PDX va))) 0 then pool s' = pool s \<and> entry (vmem s') pd (unat (PDX va)) = entry (vmem s) pd (unat (PDX va))
      else pool s = PTE_ADDR (entry (vmem s') pd (unat (PDX va))) # pool s')"
proof -
  let ?i = "unat (PDX va)" and ?k = "unat (PTX va)" and ?f = "PTE_P OR PTE_W OR PTE_U"
  have i: "256 \<le> ?i" "?i < 512" using user_index [OF va(2)] by simp_all
  have f: "take_bit 12 ?f = ?f" "bit ?f 0" "bit ?f 1" "bit ?f 2" by (simp_all add: PTE_P_def PTE_W_def PTE_U_def)
  obtain s1 where s1: "ensure ?f pd ?i s = Some s1" "ensured ?i pd s s1" using ensure_run [OF sp _ room f(1,2)] f(3,4) by auto
  let ?w = "if bit prot 0 then 0 else PTE_P OR (if prot AND PROT_WRITE \<noteq> 0 then PTE_W else 0) OR PTE_U OR pa"
  let ?e = "entry (vmem s1) pd ?i"
  define s' where "s' = set32 (slot (PTE_ADDR ?e) ?k) ?w s1"
  have sp1: "space (vmem s1) pd (pool s1)" and e: "bit ?e 0" using s1(2) by (simp_all add: ensured_def)
  have rights: "bit ?e 1" "bit ?e 2" using spaceD(6) [OF sp1 i e] by simp_all
  have w: "bit ?w 0 = (\<not> bit prot 0)" "\<not> bit prot 0 \<Longrightarrow> PTE_ADDR ?w = pa" "\<not> bit prot 0 \<Longrightarrow> bit ?w 1 = (prot AND PROT_WRITE \<noteq> 0)"
    "\<not> bit prot 0 \<Longrightarrow> bit ?w 2"
  proof -
    let ?g = "PTE_P OR (if prot AND PROT_WRITE \<noteq> 0 then PTE_W else 0) OR PTE_U"
    have g: "take_bit 12 ?g = ?g" "bit ?g 0" "bit ?g 1 = (prot AND PROT_WRITE \<noteq> 0)" "bit ?g 2" by (simp_all add: PTE_P_def PTE_W_def PTE_U_def)
    have eq: "?w = (if bit prot 0 then 0 else ?g OR pa)" by (simp add: or.assoc)
    show "bit ?w 0 = (\<not> bit prot 0)" unfolding eq using g(2) by (simp add: bit_or_iff)
    show "\<not> bit prot 0 \<Longrightarrow> PTE_ADDR ?w = pa" unfolding eq using addr_flags [OF pa g(1)] by simp
    show "\<not> bit prot 0 \<Longrightarrow> bit ?w 1 = (prot AND PROT_WRITE \<noteq> 0)" unfolding eq using g(3) page_bit [OF pa, of 1] by (simp add: bit_or_iff)
    show "\<not> bit prot 0 \<Longrightarrow> bit ?w 2" unfolding eq using g(4) by (simp add: bit_or_iff)
  qed
  note S = set_entry [OF sp1 _ e index_less(2) [of va], of ?w]
  have "ROUNDDOWN va = va" "ROUNDDOWN pa = pa" using va(1) pa by (simp_all add: round_page)
  then have "map_page pd va pa prot s = do { s \<leftarrow> ensure ?f pd ?i s; Some (0, set32 (slot (PTE_ADDR (entry (vmem s) pd ?i)) ?k) ?w s) }"
    using va(2) prot by (simp add: map_page_def ensure_def entry_def Let_def or.assoc)
  then have "map_page pd va pa prot s = Some (0, s')" using s1(1) by (simp add: s'_def)
  moreover have "mmu (vmem s') pd v = (if PTE_ADDR v = va then mapped pa prot v else mmu (vmem s) pd v)" for v
  proof -
    have "PDX v = PDX va \<and> PTX v = PTX va \<longleftrightarrow> PTE_ADDR v = va"
      using same_page [of v va] PDX_addr [of v] va(1) round_page [of va] by (auto simp: ROUNDDOWN_def PTE_ADDR_def)
    then have "unat (PDX v) = ?i \<and> unat (PTX v) = ?k \<longleftrightarrow> PTE_ADDR v = va" by (simp only: word_unat_eq_iff [symmetric])
    then show ?thesis using S(3) [of v] s1(2) w rights by (simp add: s'_def set32_def ensured_def mapped_def)
  qed
  moreover have e': "\<forall>j<1024. entry (vmem s') pd j = entry (vmem s1) pd j" and "space (vmem s') pd (pool s')"
    and same: "pool s' = pool s1" "released s' = released s1" using S(1,2) i by (simp_all add: s'_def set32_def)
  moreover have "entry (vmem s') pd ?i = ?e" using e' i by simp
  ultimately show ?thesis using s1(2) e by (simp add: ensured_def split: if_splits)
qed

section \<open>A new address space\<close>

lemma copied_entry: "n \<le> 1024 \<Longrightarrow> page u \<Longrightarrow> page k \<Longrightarrow> page q \<Longrightarrow> u \<noteq> k \<Longrightarrow> j < 1024 \<Longrightarrow>
   entry (copy_entries n u k m) q j = (if q = u \<and> j < n then entry m k j else entry m q j)"
proof (induction n arbitrary: q j)
  case (Suc n)
  have "ld32 (copy_entries n u k m) (slot k n) = entry m k n"
    using Suc.IH [of k n] Suc.prems by (simp add: entry_def)
  then show ?case using Suc by (auto simp: Let_def entry_st32 less_Suc_eq)
qed simp

definition no_user :: "mem \<Rightarrow> u32 \<Rightarrow> bool" where
  "no_user m pd \<longleftrightarrow> (\<forall>i. 256 \<le> i \<longrightarrow> i < 512 \<longrightarrow> \<not> bit (entry m pd i) 0)"

lemma protect_run:
  assumes sp: "space (vmem s) kpt (pool s)" "no_user (vmem s) kpt" "pool s = u # ps"
  shows "\<exists>s'. protect kpt s = Some (u, s') \<and> pool s' = ps \<and> released s' = released s \<and> space (vmem s') u ps \<and>
     no_user (vmem s') u \<and> (\<forall>va. mmu (vmem s') u va = mmu (vmem s) kpt va)"
proof -
  note D = spaceD [OF sp(1), unfolded sp(3)]
  have u: "page u" "u \<noteq> 0" "u \<noteq> kpt" "page kpt" "u \<notin> set ps" "distinct ps" using D(1,2) D(3) [of u] by auto
  define s' where "s' = s\<lparr>vmem := copy_entries 1024 u kpt (clear_page 1024 u (vmem s)), pool := ps\<rparr>"
  have e: "entry (vmem s') u j = entry (vmem s) kpt j" if "j < 1024" for j
    using that u by (simp add: s'_def copied_entry clear_entry)
  have eq: "entry (vmem s') q j = entry (vmem s) q j" if "page q" "q \<noteq> u" "j < 1024" for q j
    using that u by (simp add: s'_def copied_entry clear_entry)
  have "space (vmem s') u ps"
    unfolding space_def
  proof (intro conjI allI impI)
    show "PTE_ADDR (entry (vmem s') u i) \<notin> set (u # ps)" if "i < 1024" "bit (entry (vmem s') u i) 0" for i
      using that e D(4) [of i] by auto
    show "i = j" if "i < 1024" "j < 1024" "bit (entry (vmem s') u i) 0" "bit (entry (vmem s') u j) 0"
      "PTE_ADDR (entry (vmem s') u i) = PTE_ADDR (entry (vmem s') u j)" for i j
      using that e D(5) [of i j] by auto
    show "bit (entry (vmem s') u i) 1" "bit (entry (vmem s') u i) 2" if "256 \<le> i" "i < 512" "bit (entry (vmem s') u i) 0" for i
      using that e [of i] sp(2) by (auto simp: no_user_def)
  qed (use u D(3) in auto)
  moreover have "mmu (vmem s') u va = mmu (vmem s) kpt va" for va
  proof -
    let ?e = "entry (vmem s) kpt (unat (PDX va))"
    have "bit ?e 0 \<Longrightarrow> entry (vmem s') (PTE_ADDR ?e) (unat (PTX va)) = entry (vmem s) (PTE_ADDR ?e) (unat (PTX va))"
      using eq [of "PTE_ADDR ?e"] D(4) [of "unat (PDX va)"] by auto
    then show ?thesis using e [of "unat (PDX va)"] by (auto simp: mmu_entry Let_def)
  qed
  moreover have "no_user (vmem s') u" using sp(2) e by (simp add: no_user_def)
  moreover have "protect kpt s = Some (u, s')"
    using sp(3) u(2) by (simp add: protect_def pgalloc_def s'_def PGSIZE_def)
  ultimately show ?thesis by (intro exI [of _ s']) (simp add: s'_def)
qed

section \<open>Giving it back\<close>

definition user_pages :: "nat \<Rightarrow> mem \<Rightarrow> u32 \<Rightarrow> u32 list" where
  "user_pages n m pd = map (\<lambda>i. PTE_ADDR (entry m pd i)) (filter (\<lambda>i. bit (entry m pd i) 0) [n..<512])"

lemma PDX_nth: "i < 1024 \<Longrightarrow> unat (PDX (push_bit 22 (of_nat i))) = i"
proof -
  assume i: "i < 1024"
  have "push_bit 22 (of_nat i) = (of_nat (i * 4194304) :: u32)" by (simp add: push_bit_eq_mult)
  moreover have "unat (of_nat (i * 4194304) :: u32) = i * 4194304" by (rule unat_of_nat32) (use i in simp)
  ultimately have "unat (push_bit 22 (of_nat i) :: u32) = i * 4194304" by simp
  then have "unat (PDX (push_bit 22 (of_nat i))) = i * 4194304 div 4194304 mod 1024"
    unfolding PDX_def mask_12 by (simp only: take_bit_eq_mask [symmetric] unsigned_take_bit_eq unsigned_drop_bit_eq)
      (use i in \<open>simp add: take_bit_eq_mod drop_bit_eq_div\<close>)
  then show ?thesis using i by simp
qed

lemma unprotect_loop_run:
  "i + k = 512 \<Longrightarrow> 256 \<le> i \<Longrightarrow> unprotect_loop pd (push_bit 22 (of_nat i)) s = Some (s\<lparr>released := released s @ user_pages i (vmem s) pd\<rparr>)"
proof (induction k arbitrary: i s)
  case 0
  then show ?case by (subst unprotect_loop.simps) (simp add: uvm_area_def areas_def user_pages_def)
next
  case (Suc k)
  have i: "i < 512" using Suc.prems by simp
  have "push_bit 22 (of_nat i) \<noteq> (0x80000000 :: u32)" using PDX_nth [of i] i by (auto simp: PDX_def)
  moreover have "push_bit 22 (of_nat i) + push_bit 22 1 = (push_bit 22 (of_nat (Suc i)) :: u32)" by (simp add: push_bit_eq_mult algebra_simps)
  moreover have "[i..<512] = i # [Suc i..<512]" using i by (simp add: upt_conv_Cons)
  ultimately show ?case using Suc.IH [of "Suc i"] Suc.prems PDX_nth [of i] i
    by (subst unprotect_loop.simps) (simp add: uvm_area_def areas_def user_pages_def pgfree_def entry_def Let_def)
qed

lemma unprotect_run: "unprotect pd s = Some (s\<lparr>released := released s @ user_pages 256 (vmem s) pd @ [pd]\<rparr>)"
proof -
  have "area_start uvm_area = push_bit 22 (of_nat 256)" by (simp add: uvm_area_def areas_def)
  then show ?thesis using unprotect_loop_run [of 256 256 pd s] by (simp add: unprotect_def pgfree_def)
qed

lemma user_pages_add:
  assumes "n \<le> i" "i < 512" "\<forall>j<1024. j \<noteq> i \<longrightarrow> entry m' pd j = entry m pd j" "\<not> bit (entry m pd i) 0" "bit (entry m' pd i) 0"
  shows "mset (user_pages n m' pd) = add_mset (PTE_ADDR (entry m' pd i)) (mset (user_pages n m pd))"
proof -
  have l: "[n..<512] = [n..<i] @ i # [Suc i..<512]" using assms(1,2) by (metis le_add_diff_inverse less_imp_le upt_add_eq_append upt_conv_Cons)
  have "map (\<lambda>j. PTE_ADDR (entry m' pd j)) (filter (\<lambda>j. bit (entry m' pd j) 0) xs) = map (\<lambda>j. PTE_ADDR (entry m pd j)) (filter (\<lambda>j. bit (entry m pd j) 0) xs)"
    if "\<forall>j\<in>set xs. j < 1024 \<and> j \<noteq> i" for xs using that assms(3) by (induction xs) auto
  from this [of "[n..<i]"] this [of "[Suc i..<512]"] show ?thesis using assms(2,4,5) by (simp add: user_pages_def l)
qed

lemma user_pages_none: "\<forall>i. n \<le> i \<longrightarrow> i < 512 \<longrightarrow> \<not> bit (entry m pd i) 0 \<Longrightarrow> user_pages n m pd = []"
  by (auto simp: user_pages_def filter_empty_conv)

lemma user_pages_cong: "\<forall>j<1024. entry m' pd j = entry m pd j \<Longrightarrow> user_pages n m' pd = user_pages n m pd"
proof -
  assume e: "\<forall>j<1024. entry m' pd j = entry m pd j"
  have "map (\<lambda>j. PTE_ADDR (entry m' pd j)) (filter (\<lambda>j. bit (entry m' pd j) 0) xs) = map (\<lambda>j. PTE_ADDR (entry m pd j)) (filter (\<lambda>j. bit (entry m pd j) 0) xs)"
    if "\<forall>j\<in>set xs. j < 1024" for xs using that e by (induction xs) auto
  then show ?thesis by (simp add: user_pages_def)
qed

section \<open>The life of an address space\<close>

type_synonym request = "u32 \<times> u32 \<times> u32"

fun map_all :: "u32 \<Rightarrow> request list \<Rightarrow> vme \<Rightarrow> vme option" where
  "map_all pd [] s = Some s"
| "map_all pd ((va, pa, prot) # rs) s = do { (r, s) \<leftarrow> map_page pd va pa prot s; Assert (r = 0); map_all pd rs s }"

fun remap :: "request list \<Rightarrow> (u32 \<Rightarrow> translation option) \<Rightarrow> u32 \<Rightarrow> translation option" where
  "remap [] t = t"
| "remap ((va, pa, prot) # rs) t = remap rs (\<lambda>v. if PTE_ADDR v = va then mapped pa prot v else t v)"

definition request_ok :: "request \<Rightarrow> bool" where
  "request_ok = (\<lambda>(va, pa, prot). page va \<and> in_area va uvm_area \<and> page pa \<and> (bit prot 0 \<longrightarrow> prot = PROT_NONE))"

lemma map_all_run:
  "space (vmem s) pd (pool s) \<Longrightarrow> list_all request_ok rs \<Longrightarrow> length rs \<le> length (pool s) \<Longrightarrow>
   \<exists>s'. map_all pd rs s = Some s' \<and> mmu (vmem s') pd = remap rs (mmu (vmem s) pd) \<and> released s' = released s \<and>
     mset (user_pages 256 (vmem s') pd) + mset (pool s') = mset (user_pages 256 (vmem s) pd) + mset (pool s)"
proof (induction rs arbitrary: s)
  case (Cons r rs)
  obtain va pa prot where r: "r = (va, pa, prot)" by (metis prod.exhaust)
  have ok: "page va" "in_area va uvm_area" "page pa" "bit prot 0 \<longrightarrow> prot = PROT_NONE" "list_all request_ok rs"
    using Cons.prems(2) r by (auto simp: request_ok_def)
  let ?i = "unat (PDX va)"
  have room: "bit (entry (vmem s) pd ?i) 0 \<or> pool s \<noteq> []" using Cons.prems(3) by auto
  obtain s1 where s1: "map_page pd va pa prot s = Some (0, s1)" "space (vmem s1) pd (pool s1)" "released s1 = released s"
    "\<forall>v. mmu (vmem s1) pd v = (if PTE_ADDR v = va then mapped pa prot v else mmu (vmem s) pd v)"
    "\<forall>j<1024. j \<noteq> ?i \<longrightarrow> entry (vmem s1) pd j = entry (vmem s) pd j" "bit (entry (vmem s1) pd ?i) 0"
    "if bit (entry (vmem s) pd ?i) 0 then pool s1 = pool s \<and> entry (vmem s1) pd ?i = entry (vmem s) pd ?i
     else pool s = PTE_ADDR (entry (vmem s1) pd ?i) # pool s1"
    using map_run [OF Cons.prems(1) ok(1-4) room] by blast
  have i: "256 \<le> ?i" "?i < 512" using user_index [OF ok(2)] by simp_all
  have pages: "mset (user_pages 256 (vmem s1) pd) + mset (pool s1) = mset (user_pages 256 (vmem s) pd) + mset (pool s)"
  proof (cases "bit (entry (vmem s) pd ?i) 0")
    case True
    then have "\<forall>j<1024. entry (vmem s1) pd j = entry (vmem s) pd j" using s1(5,7) by metis
    then have "user_pages 256 (vmem s1) pd = user_pages 256 (vmem s) pd" by (rule user_pages_cong)
    then show ?thesis using s1(7) True by simp
  next
    case False
    then show ?thesis using user_pages_add [OF i s1(5) _ s1(6)] s1(7) by simp
  qed
  have "length rs \<le> length (pool s1)" using s1(7) Cons.prems(3) by (auto split: if_splits)
  then obtain s2 where s2: "map_all pd rs s1 = Some s2" "mmu (vmem s2) pd = remap rs (mmu (vmem s1) pd)" "released s2 = released s1"
    "mset (user_pages 256 (vmem s2) pd) + mset (pool s2) = mset (user_pages 256 (vmem s1) pd) + mset (pool s1)"
    using Cons.IH [OF s1(2) ok(5)] by blast
  have "mmu (vmem s1) pd = (\<lambda>v. if PTE_ADDR v = va then mapped pa prot v else mmu (vmem s) pd v)" using s1(4) by blast
  then show ?case using s1(1,3) s2 pages r by simp
qed simp

lemma lifecycle_run:
  assumes "space (vmem s) kpt (pool s)" "no_user (vmem s) kpt" "list_all request_ok rs" "length rs < length (pool s)"
  shows "\<exists>pd s1 s2 s3. protect kpt s = Some (pd, s1) \<and> map_all pd rs s1 = Some s2 \<and> unprotect pd s2 = Some s3 \<and>
     mmu (vmem s2) pd = remap rs (mmu (vmem s) kpt) \<and> mset (released s3) + mset (pool s3) = mset (released s) + mset (pool s)"
proof -
  obtain u ps where u: "pool s = u # ps" using assms(4) by (cases "pool s") auto
  obtain s1 where s1: "protect kpt s = Some (u, s1)" "pool s1 = ps" "released s1 = released s" "space (vmem s1) u ps"
    "no_user (vmem s1) u" "\<forall>va. mmu (vmem s1) u va = mmu (vmem s) kpt va"
    using protect_run [OF assms(1,2) u] by blast
  obtain s2 where s2: "map_all u rs s1 = Some s2" "mmu (vmem s2) u = remap rs (mmu (vmem s1) u)" "released s2 = released s1"
    "mset (user_pages 256 (vmem s2) u) + mset (pool s2) = mset (user_pages 256 (vmem s1) u) + mset (pool s1)"
    using map_all_run [of s1 u rs] s1(2,4) assms(3,4) u by auto
  have "user_pages 256 (vmem s1) u = []" by (rule user_pages_none) (use s1(5) in \<open>simp add: no_user_def\<close>)
  then have "mset (user_pages 256 (vmem s2) u) + mset (pool s2) = mset ps" using s2(4) s1(2) by simp
  moreover have "mset (released s @ user_pages 256 (vmem s2) u @ [u]) + mset (pool s2) =
      mset (released s) + (mset (user_pages 256 (vmem s2) u) + mset (pool s2)) + {#u#}" by (simp add: union_assoc)
  ultimately have "mset (released s @ user_pages 256 (vmem s2) u @ [u]) + mset (pool s2) = mset (released s) + mset (u # ps)"
    by simp
  moreover have "mmu (vmem s1) u = mmu (vmem s) kpt" using s1(6) by blast
  ultimately show ?thesis using s1 s2 u unprotect_run [of u s2] by fastforce
qed

section \<open>The kernel's own space\<close>

lemma addr_offset: "PTE_ADDR v OR (v AND 0xfff) = v"
  by (rule bit_word_eqI) (auto simp: bit_PTE_ADDR mask_12 bit_simps)

text \<open>Entries that have no table yet; the pages to come are enough for them.\<close>

definition absent :: "mem \<Rightarrow> u32 \<Rightarrow> nat set" where
  "absent m pd = {i. i < 1024 \<and> \<not> bit (entry m pd i) 0}"

definition kspace :: "nat \<Rightarrow> u32 \<Rightarrow> vme \<Rightarrow> bool" where
  "kspace r pd s \<longleftrightarrow> space (vmem s) pd (pool s) \<and> (\<forall>i<1024. bit (entry (vmem s) pd i) 0 \<longrightarrow> bit (entry (vmem s) pd i) 1) \<and>
     card (absent (vmem s) pd) + r \<le> length (pool s)"

definition identity :: "u32 \<Rightarrow> translation option" where
  "identity v = Some \<lparr>to_addr = v, writable = True, user = False\<rparr>"

lemma ensure_flags:
  assumes "ensure f pd i s = Some s'" "page pd" "i < 1024" "\<not> bit (entry (vmem s) pd i) 0"
  shows "\<exists>t. entry (vmem s') pd i = f OR t"
  using assms by (auto simp: ensure_def set32_def entry_st32 split: bind_splits)

lemma kmap_page_run:
  assumes sp: "kspace r pd s" and pa: "page pa" and i: "\<not> (256 \<le> unat (PDX pa) \<and> unat (PDX pa) < 512)"
  shows "\<exists>s'. kmap_page pd pa s = Some s' \<and> kspace r pd s' \<and> released s' = released s \<and>
     (\<forall>v. mmu (vmem s') pd v = (if PTE_ADDR v = pa then identity v else mmu (vmem s) pd v)) \<and>
     (\<forall>j. 256 \<le> j \<longrightarrow> j < 512 \<longrightarrow> entry (vmem s') pd j = entry (vmem s) pd j)"
proof -
  let ?i = "unat (PDX pa)" and ?k = "unat (PTX pa)" and ?f = "PTE_P OR PTE_W" and ?w = "PTE_P OR PTE_W OR pa"
  have sp0: "space (vmem s) pd (pool s)" and card: "card (absent (vmem s) pd) + r \<le> length (pool s)"
    and wr: "\<forall>i<1024. bit (entry (vmem s) pd i) 0 \<longrightarrow> bit (entry (vmem s) pd i) 1" using sp by (simp_all add: kspace_def)
  have f: "take_bit 12 ?f = ?f" "bit ?f 0" "bit ?f 1" "\<not> bit ?f 2" by (simp_all add: PTE_P_def PTE_W_def)
  have fin: "finite (absent m pd)" for m by (simp add: absent_def)
  have room: "bit (entry (vmem s) pd ?i) 0 \<or> pool s \<noteq> []"
  proof (rule ccontr)
    assume "\<not> ?thesis"
    then have "?i \<in> absent (vmem s) pd" "length (pool s) = 0" by (simp_all add: absent_def)
    then show False using card fin [of "vmem s"] by (metis add_is_0 card_0_eq empty_iff le_zero_eq)
  qed
  obtain s1 where s1: "ensure ?f pd ?i s = Some s1" "ensured ?i pd s s1" using ensure_run [OF sp0 _ room f(1,2)] i by auto
  let ?e = "entry (vmem s1) pd ?i"
  define s' where "s' = set32 (slot (PTE_ADDR ?e) ?k) ?w s1"
  have sp1: "space (vmem s1) pd (pool s1)" and e: "bit ?e 0" and other: "\<forall>j<1024. j \<noteq> ?i \<longrightarrow> entry (vmem s1) pd j = entry (vmem s) pd j"
    using s1(2) by (simp_all add: ensured_def)
  have e1: "bit ?e 1"
  proof (cases "bit (entry (vmem s) pd ?i) 0")
    case True
    then show ?thesis using s1(2) wr by (auto simp: ensured_def)
  next
    case False
    then show ?thesis using ensure_flags [OF s1(1) spaceD(1) [OF sp0] _ False] f(3) by (auto simp: bit_or_iff)
  qed
  have w: "bit ?w 0" "PTE_ADDR ?w = pa" "bit ?w 1" "\<not> bit ?w 2"
    using addr_flags [OF pa f(1)] f page_bit [OF pa, of 2] by (simp_all add: or.assoc [symmetric] bit_or_iff)
  note S = set_entry [OF sp1 _ e index_less(2) [of pa], of ?w]
  have run: "kmap_page pd pa s = Some s'"
  proof (cases "bit (entry (vmem s) pd ?i) 0")
    case True
    then have "s1 = s" using s1(2) by (simp add: ensured_def)
    then show ?thesis using True by (simp add: kmap_page_def s'_def entry_def Let_def)
  next
    case False
    then obtain t s0 where t: "pgalloc s = Some (t, s0)" "s1 = set32 (slot pd ?i) (?f OR t) s0"
      using s1(1) by (auto simp: ensure_def split: bind_splits)
    have "t = hd (pool s)" using t(1) by (auto simp: pgalloc_def split: list.splits if_splits)
    moreover have "pool s = PTE_ADDR ?e # pool s1" using s1(2) False by (simp add: ensured_def)
    ultimately have "PTE_ADDR ?e = t" by simp
    then show ?thesis using False t by (simp add: kmap_page_def s'_def entry_def Let_def or.assoc)
  qed
  have m: "mmu (vmem s') pd v = (if PTE_ADDR v = pa then identity v else mmu (vmem s) pd v)" for v
  proof -
    have "PDX v = PDX pa \<and> PTX v = PTX pa \<longleftrightarrow> PTE_ADDR v = pa"
      using same_page [of v pa] PDX_addr [of v] pa round_page [of pa] by (auto simp: ROUNDDOWN_def PTE_ADDR_def)
    then have "unat (PDX v) = ?i \<and> unat (PTX v) = ?k \<longleftrightarrow> PTE_ADDR v = pa" by (simp only: word_unat_eq_iff [symmetric])
    then show ?thesis using S(3) [of v] s1(2) w e1 addr_offset [of v] by (auto simp: s'_def set32_def ensured_def identity_def)
  qed
  have e': "\<forall>j<1024. entry (vmem s') pd j = entry (vmem s1) pd j" "space (vmem s') pd (pool s')" "pool s' = pool s1" "released s' = released s1"
    using S(1,2) by (simp_all add: s'_def set32_def)
  have "card (absent (vmem s') pd) + r \<le> length (pool s')"
  proof (cases "bit (entry (vmem s) pd ?i) 0")
    case True
    then have "s1 = s" using s1(2) by (simp add: ensured_def)
    then have "absent (vmem s') pd = absent (vmem s) pd" using e'(1) by (auto simp: absent_def)
    then show ?thesis using card e'(3) \<open>s1 = s\<close> by simp
  next
    case False
    have "absent (vmem s') pd = absent (vmem s) pd - {?i}" using e'(1) other e by (auto simp: absent_def)
    moreover have "?i \<in> absent (vmem s) pd" using False by (simp add: absent_def)
    moreover have "length (pool s) = Suc (length (pool s'))" using s1(2) False e'(3) by (simp add: ensured_def)
    ultimately show ?thesis using card card_Suc_Diff1 [OF fin [of "vmem s"], of ?i] by simp
  qed
  moreover have "\<forall>j<1024. bit (entry (vmem s') pd j) 0 \<longrightarrow> bit (entry (vmem s') pd j) 1" using e'(1) other e1 wr by metis
  ultimately have "kspace r pd s'" using e'(2) by (simp add: kspace_def)
  moreover have "\<forall>j. 256 \<le> j \<longrightarrow> j < 512 \<longrightarrow> entry (vmem s') pd j = entry (vmem s) pd j"
  proof (intro allI impI)
    fix j :: nat assume j: "256 \<le> j" "j < 512"
    then have "j < 1024" "j \<noteq> ?i" using i by auto
    then show "entry (vmem s') pd j = entry (vmem s) pd j" using e'(1) other by simp
  qed
  moreover have "released s' = released s" using e'(4) s1(2) by (simp add: ensured_def)
  ultimately show ?thesis using run m by blast
qed

definition user_free :: "u32 \<Rightarrow> nat \<Rightarrow> bool" where
  "user_free a n \<longleftrightarrow> (\<forall>k<n. \<not> (256 \<le> unat (PDX (a + of_nat (4096 * k))) \<and> unat (PDX (a + of_nat (4096 * k))) < 512))"

lemma kmap_area_run:
  "n < 2 ^ 20 \<Longrightarrow> stop = pa + of_nat (4096 * n) \<Longrightarrow> page pa \<Longrightarrow> user_free pa n \<Longrightarrow> kspace r pd s \<Longrightarrow>
   \<exists>s'. kmap_area pd pa stop s = Some s' \<and> kspace r pd s' \<and> released s' = released s \<and>
     (\<forall>v. mmu (vmem s') pd v = (if \<exists>k<n. PTE_ADDR v = pa + of_nat (4096 * k) then identity v else mmu (vmem s) pd v)) \<and>
     (\<forall>j. 256 \<le> j \<longrightarrow> j < 512 \<longrightarrow> entry (vmem s') pd j = entry (vmem s) pd j)"
proof (induction n arbitrary: pa s)
  case 0
  then show ?case by (subst kmap_area.simps) simp
next
  case (Suc n)
  have "unat (of_nat (4096 * Suc n) :: u32) = 4096 * Suc n" by (rule unat_of_nat32) (use Suc.prems(1) in simp)
  then have "of_nat (4096 * Suc n) \<noteq> (0 :: u32)" by (metis mult_is_0 nat.distinct(1) numeral_neq_zero unat_0)
  then have ne: "pa \<noteq> stop" using Suc.prems(2) by simp
  have pg: "page (pa + 4096)" using Suc.prems(3) by (simp add: page_dvd unat_word_ariths dvd_mod)
  have uf: "user_free (pa + 4096) n"
    unfolding user_free_def
  proof (intro allI impI)
    fix k assume "k < n"
    then have "Suc k < Suc n" by simp
    moreover have "pa + 4096 + of_nat (4096 * k) = pa + (of_nat (4096 * Suc k) :: u32)" by simp
    ultimately show "\<not> (256 \<le> unat (PDX (pa + 4096 + of_nat (4096 * k))) \<and> unat (PDX (pa + 4096 + of_nat (4096 * k))) < 512)"
      using Suc.prems(4) unfolding user_free_def by metis
  qed
  have "\<not> (256 \<le> unat (PDX pa) \<and> unat (PDX pa) < 512)" using Suc.prems(4) by (auto simp: user_free_def dest: spec [of _ 0])
  then obtain s1 where s1: "kmap_page pd pa s = Some s1" "kspace r pd s1" "released s1 = released s"
    "\<forall>v. mmu (vmem s1) pd v = (if PTE_ADDR v = pa then identity v else mmu (vmem s) pd v)"
    "\<forall>j. 256 \<le> j \<longrightarrow> j < 512 \<longrightarrow> entry (vmem s1) pd j = entry (vmem s) pd j"
    using kmap_page_run [OF Suc.prems(5,3)] by blast
  have "stop = pa + 4096 + of_nat (4096 * n)" using Suc.prems(2) by simp
  then obtain s2 where s2: "kmap_area pd (pa + 4096) stop s1 = Some s2" "kspace r pd s2" "released s2 = released s1"
    "\<forall>v. mmu (vmem s2) pd v = (if \<exists>k<n. PTE_ADDR v = pa + 4096 + of_nat (4096 * k) then identity v else mmu (vmem s1) pd v)"
    "\<forall>j. 256 \<le> j \<longrightarrow> j < 512 \<longrightarrow> entry (vmem s2) pd j = entry (vmem s1) pd j"
    using Suc.IH [OF _ _ pg uf s1(2)] Suc.prems(1) by auto
  have "(\<exists>k<Suc n. PTE_ADDR v = pa + of_nat (4096 * k)) \<longleftrightarrow> PTE_ADDR v = pa \<or> (\<exists>k<n. PTE_ADDR v = pa + 4096 + of_nat (4096 * k))" for v
    by (simp add: Ex_less_Suc2 algebra_simps)
  then have m: "mmu (vmem s2) pd v = (if \<exists>k<Suc n. PTE_ADDR v = pa + of_nat (4096 * k) then identity v else mmu (vmem s) pd v)" for v
    using s2(4) s1(4) by metis
  have "kmap_area pd pa stop s = Some s2" using s1(1) s2(1) ne by (subst kmap_area.simps) simp
  then show ?case using m s2(2,3,5) s1(3,5) by auto
qed

lemma in_pages:
  assumes "page a" "unat a + 4096 * n \<le> 2 ^ 32"
  shows "(\<exists>k<n. PTE_ADDR v = a + of_nat (4096 * k)) \<longleftrightarrow> unat a \<le> unat v \<and> unat v < unat a + 4096 * n"
proof -
  have pv: "unat (PTE_ADDR v) = 4096 * (unat v div 4096)"
  proof -
    have "PTE_ADDR v = push_bit 12 (drop_bit 12 v)" by (rule bit_word_eqI) (auto simp: bit_PTE_ADDR bit_simps)
    then have "unat (PTE_ADDR v) = take_bit 32 (push_bit 12 (drop_bit 12 (take_bit 32 (unat v))))"
      by (simp only: unsigned_push_bit_eq unsigned_drop_bit_eq) simp
    then show ?thesis using unat_lt_2p32 [of v] by (simp add: take_bit_eq_mod push_bit_eq_mult drop_bit_eq_div)
  qed
  obtain b where b: "unat a = 4096 * b" using assms(1) by (auto simp: page_dvd dvd_def)
  have ua: "unat (a + of_nat (4096 * k)) = 4096 * (b + k)" if "k < n" for k
    using unat_add_of_nat [of a "4096 * k"] that assms(2) b by simp
  have "(\<exists>k<n. PTE_ADDR v = a + of_nat (4096 * k)) \<longleftrightarrow> (\<exists>k<n. 4096 * (unat v div 4096) = 4096 * (b + k))"
    unfolding word_unat_eq_iff pv using ua by auto
  also have "\<dots> \<longleftrightarrow> (\<exists>k<n. unat v div 4096 = b + k)" by (simp only: mult_cancel1) simp
  also have "\<dots> \<longleftrightarrow> b \<le> unat v div 4096 \<and> unat v div 4096 < b + n" by (auto simp: le_iff_add)
  also have "\<dots> \<longleftrightarrow> unat a \<le> unat v \<and> unat v < unat a + 4096 * n" unfolding b by (simp add: less_eq_div_iff_mult_less_eq div_less_iff_less_mult algebra_simps)
  finally show ?thesis .
qed

lemma PDX_nat: "unat (PDX v) = unat v div 4194304"
  unfolding PDX_def mask_12 by (simp only: take_bit_eq_mask [symmetric] unsigned_take_bit_eq unsigned_drop_bit_eq)
    (use unat_lt_2p32 [of v] in \<open>simp add: take_bit_eq_mod drop_bit_eq_div\<close>)

lemma user_free_area:
  assumes "unat a + 4096 * n \<le> 2 ^ 32" "unat a + 4096 * n \<le> 1073741824 \<or> 2147483648 \<le> unat a"
  shows "user_free a n"
  unfolding user_free_def
proof (intro allI impI)
  fix k assume k: "k < n"
  have "unat (a + of_nat (4096 * k)) = unat a + 4096 * k" using unat_add_of_nat [of a "4096 * k"] k assms(1) by simp
  then have "unat (PDX (a + of_nat (4096 * k))) = (unat a + 4096 * k) div 4194304" by (simp add: PDX_nat)
  then show "\<not> (256 \<le> unat (PDX (a + of_nat (4096 * k))) \<and> unat (PDX (a + of_nat (4096 * k))) < 512)"
    using k assms(2) by linarith
qed

lemma vme_init_run:
  assumes "distinct (pool s)" "\<forall>p\<in>set (pool s). page p \<and> p \<noteq> 0" "1025 + r \<le> length (pool s)"
  shows "\<exists>kpt s'. vme_init s = Some (kpt, s') \<and> r \<le> length (pool s') \<and> mset (released s') = mset (released s) \<and> space (vmem s') kpt (pool s') \<and> no_user (vmem s') kpt \<and> released s' = released s \<and>
     (\<forall>v. mmu (vmem s') kpt v = (if v < 0x20000000 \<or> 0xf0000000 \<le> v then identity v else None))"
proof -
  obtain k ps where k: "pool s = k # ps" using assms(3) by (cases "pool s") auto
  have pk: "page k" "k \<noteq> 0" using assms(2) k by auto
  define s0 where "s0 = s\<lparr>vmem := clear_page 1024 k (vmem s), pool := ps\<rparr>"
  have e0: "entry (vmem s0) k j = 0" if "j < 1024" for j using that pk by (simp add: s0_def clear_entry)
  have alloc: "pgalloc s = Some (k, s0)" using k pk by (simp add: pgalloc_def s0_def PGSIZE_def)
  have "card (absent (vmem s0) k) \<le> card {..<1024 :: nat}" by (rule card_mono) (auto simp: absent_def)
  then have ks: "kspace r k s0" using e0 assms k by (auto simp: kspace_def space_def s0_def)
  have m0: "mmu (vmem s0) k v = None" for v using e0 [of "unat (PDX v)"] by (simp add: mmu_entry)
  have a1: "page 0" "unat (0 :: u32) + 4096 * 131072 \<le> 2 ^ 32" by (simp_all add: page_def)
  have a2: "page 0xf0000000" "unat (0xf0000000 :: u32) + 4096 * 65536 \<le> 2 ^ 32" by (simp_all add: page_def)
  obtain s1 where s1: "kmap_area k 0 0x20000000 s0 = Some s1" "kspace r k s1" "released s1 = released s0"
    "\<forall>v. mmu (vmem s1) k v = (if \<exists>j<131072. PTE_ADDR v = 0 + of_nat (4096 * j) then identity v else mmu (vmem s0) k v)"
    "\<forall>j. 256 \<le> j \<longrightarrow> j < 512 \<longrightarrow> entry (vmem s1) k j = entry (vmem s0) k j"
    using kmap_area_run [of 131072 "0x20000000" 0 r k s0] a1 user_free_area [of 0 131072] ks by auto
  obtain s2 where s2: "kmap_area k 0xf0000000 0 s1 = Some s2" "kspace r k s2" "released s2 = released s1"
    "\<forall>v. mmu (vmem s2) k v = (if \<exists>j<65536. PTE_ADDR v = 0xf0000000 + of_nat (4096 * j) then identity v else mmu (vmem s1) k v)"
    "\<forall>j. 256 \<le> j \<longrightarrow> j < 512 \<longrightarrow> entry (vmem s2) k j = entry (vmem s1) k j"
    using kmap_area_run [of 65536 0 "0xf0000000" r k s1] a2 user_free_area [of "0xf0000000" 65536] s1(2) by auto
  have "vme_init s = Some (k, s2)" using alloc s1(1) s2(1) by (simp add: vme_init_def areas_def)
  moreover have "mmu (vmem s2) k v = (if v < 0x20000000 \<or> 0xf0000000 \<le> v then identity v else None)" for v
    using s2(4) s1(4) m0 in_pages [OF a1, of v] in_pages [OF a2, of v] unat_lt_2p32 [of v]
    by (auto simp: word_less_nat_alt word_le_nat_alt)
  moreover have "no_user (vmem s2) k" using s1(5) s2(5) e0 by (simp add: no_user_def)
  moreover have "space (vmem s2) k (pool s2)" using s2(2) by (simp add: kspace_def)
  moreover have "released s2 = released s" using s1(3) s2(3) by (simp add: s0_def)
  moreover have "r \<le> length (pool s2)" using s2(2) by (simp add: kspace_def)
  ultimately show ?thesis by auto
qed

section \<open>Properties\<close>

lemma life_run:
  assumes "distinct (pool s)" "list_all (\<lambda>p. page p \<and> p \<noteq> 0) (pool s)" "list_all request_ok rs" "1026 + length rs \<le> length (pool s)"
  shows "\<exists>kpt s0 pd s1 s2 s3. vme_init s = Some (kpt, s0) \<and> protect kpt s0 = Some (pd, s1) \<and> map_all pd rs s1 = Some s2 \<and>
     unprotect pd s2 = Some s3 \<and> mmu (vmem s2) pd = remap rs (\<lambda>v. if v < 0x20000000 \<or> 0xf0000000 \<le> v then identity v else None) \<and>
     mset (released s3) + mset (pool s3) = mset (released s0) + mset (pool s0)"
proof -
  obtain kpt s0 where s0: "vme_init s = Some (kpt, s0)" "Suc (length rs) \<le> length (pool s0)" "space (vmem s0) kpt (pool s0)" "no_user (vmem s0) kpt"
    "\<forall>v. mmu (vmem s0) kpt v = (if v < 0x20000000 \<or> 0xf0000000 \<le> v then identity v else None)"
    using vme_init_run [of s "Suc (length rs)"] assms by (auto simp: list_all_iff)
  then have "mmu (vmem s0) kpt = (\<lambda>v. if v < 0x20000000 \<or> 0xf0000000 \<le> v then identity v else None)" by blast
  then show ?thesis using lifecycle_run [OF s0(3,4) assms(3)] s0(1,2) by fastforce
qed

text \<open>C11: Address spaces of the machine layer mean what their client asked for: after \<open>vme_init\<close> and \<open>protect\<close>, any sequence of
  \<open>map\<close> calls makes the processor translate every address as the list of requests says, the last one for a page winning,
  with the kernel's and the devices' addresses mapped to themselves and closed to the user everywhere else; and \<open>unprotect\<close> gives back
  exactly the pages that the space took.\<close>
theorem address_space_life:
  assumes "distinct (pool s)" "list_all (\<lambda>p. page p \<and> p \<noteq> 0) (pool s)" "list_all request_ok rs" "1026 + length rs \<le> length (pool s)"
  shows "\<exists>kpt s0 pd s1 s2 s3. vme_init s = Some (kpt, s0) \<and> protect kpt s0 = Some (pd, s1) \<and> map_all pd rs s1 = Some s2 \<and>
     unprotect pd s2 = Some s3 \<and> mmu (vmem s2) pd = remap rs (\<lambda>v. if v < 0x20000000 \<or> 0xf0000000 \<le> v then identity v else None) \<and>
     mset (released s3) + mset (pool s3) = mset (released s0) + mset (pool s0)"
  using assms by (rule life_run)

definition demo_vme :: vme where
  "demo_vme = \<lparr>vmem = (\<lambda>_. 0), pool = map (\<lambda>i. of_nat (4096 * (i + 1))) [0..<2000], released = []\<rparr>"

lemma demo_pages: "distinct (pool demo_vme)" "list_all (\<lambda>p. page p \<and> p \<noteq> 0) (pool demo_vme)" "length (pool demo_vme) = 2000"
proof -
  have u: "unat (of_nat (4096 * (i + 1)) :: u32) = 4096 * (i + 1)" if "i < 2000" for i
    by (rule unat_of_nat32) (use that in simp)
  have "inj_on (\<lambda>i. of_nat (4096 * (i + 1)) :: u32) {0..<2000}"
    by (rule inj_on_inverseI [where g = "\<lambda>w. unat w div 4096 - 1"]) (use u in simp)
  then show "distinct (pool demo_vme)" by (simp add: demo_vme_def distinct_map del: of_nat_mult of_nat_add)
  have "page (of_nat (4096 * (i + 1))) \<and> of_nat (4096 * (i + 1)) \<noteq> (0 :: u32)" if "i < 2000" for i
    using u [OF that] unfolding page_dvd by (metis Suc_eq_plus1 dvd_triv_left mult_is_0 nat.distinct(1) numeral_neq_zero unat_0)
  then show "list_all (\<lambda>p. page p \<and> p \<noteq> 0) (pool demo_vme)" by (simp add: demo_vme_def list_all_iff del: of_nat_mult of_nat_add)
qed (simp add: demo_vme_def)

theorem address_space_life_witness:
  "\<exists>kpt s0 pd s1 s2. vme_init demo_vme = Some (kpt, s0) \<and> protect kpt s0 = Some (pd, s1) \<and>
     map_all pd [(0x40001000, 0x7000, 4), (0x40002000, 0x8000, 2), (0x40001000, 0, 1)] s1 = Some s2 \<and>
     mmu (vmem s2) pd 0x40002034 = Some \<lparr>to_addr = 0x8034, writable = False, user = True\<rparr> \<and> mmu (vmem s2) pd 0x40001000 = None \<and>
     mmu (vmem s2) pd 0x1234 = identity 0x1234"
proof -
  let ?rs = "[(0x40001000, 0x7000, 4), (0x40002000, 0x8000, 2), (0x40001000, 0, 1)] :: request list"
  have "list_all request_ok ?rs" by (simp add: request_ok_def page_def in_area_def uvm_area_def areas_def PROT_NONE_def)
  then obtain kpt s0 pd s1 s2 where l: "vme_init demo_vme = Some (kpt, s0)" "protect kpt s0 = Some (pd, s1)" "map_all pd ?rs s1 = Some s2"
    "mmu (vmem s2) pd = remap ?rs (\<lambda>v. if v < 0x20000000 \<or> 0xf0000000 \<le> v then identity v else None)"
    using address_space_life [of demo_vme ?rs] demo_pages by auto
  have "mmu (vmem s2) pd 0x40002034 = Some \<lparr>to_addr = 0x8034, writable = False, user = True\<rparr>"
    "mmu (vmem s2) pd 0x40001000 = None" "mmu (vmem s2) pd 0x1234 = identity 0x1234"
    unfolding l(4) by (simp_all add: mapped_def PTE_ADDR_def PROT_WRITE_def)
  then show ?thesis using l by blast
qed

end
