(* ===== verification/Cte.thy ===== *)
theory Cte
  imports Kmt Vme
begin

text \<open>
  Interrupts in the machine layer (\<open>am/src/x86/qemu/cte.c\<close>, \<open>cte_trap.S\<close>,
  \<open>am/include/x86.h\<close>): what the processor and the assembly stub push, the trap frame, the
  context that \<open>irq_handle\<close> builds from it, the event it makes for the handler, and the
  return to the context that the handler chose. The state is the processor's registers and the memory,
  so the overlap of stacks, frames and contexts is part of the model.
  The handler is an argument; \<open>fr\<close> is the address of \<open>irq_handle\<close>'s local variable.
  A panic is \<open>None\<close>.
\<close>

section \<open>State\<close>

record machine =
  mmem :: mem
  r_eax :: u32
  r_ecx :: u32
  r_edx :: u32
  r_ebx :: u32
  r_esp :: u32
  r_ebp :: u32
  r_esi :: u32
  r_edi :: u32
  r_eip :: u32
  r_eflags :: u32
  r_cs :: u32
  r_ds :: u32
  r_es :: u32
  r_ss :: u32
  r_cr2 :: u32
  r_cr3 :: u32
  tss_ss0 :: u32
  tss_esp0 :: u32
  cpu_prot :: u32
  eois :: nat

record trap_frame =
  tf_edi :: u32
  tf_esi :: u32
  tf_ebp :: u32
  tf_esp_ :: u32
  tf_ebx :: u32
  tf_edx :: u32
  tf_ecx :: u32
  tf_eax :: u32
  tf_es :: u32
  tf_ds :: u32
  tf_irq :: u32
  tf_err :: u32
  tf_eip :: u32
  tf_cs :: u32
  tf_eflags :: u32
  tf_esp :: u32
  tf_ss :: u32

definition load_frame :: "mem \<Rightarrow> u32 \<Rightarrow> trap_frame" where
  "load_frame m a = \<lparr>
     tf_edi = ld32 m a, tf_esi = ld32 m (a + 4), tf_ebp = ld32 m (a + 8),
     tf_esp_ = ld32 m (a + 12), tf_ebx = ld32 m (a + 16), tf_edx = ld32 m (a + 20),
     tf_ecx = ld32 m (a + 24), tf_eax = ld32 m (a + 28), tf_es = ld32 m (a + 32),
     tf_ds = ld32 m (a + 36), tf_irq = ld32 m (a + 40), tf_err = ld32 m (a + 44),
     tf_eip = ld32 m (a + 48), tf_cs = ld32 m (a + 52), tf_eflags = ld32 m (a + 56),
     tf_esp = ld32 m (a + 60), tf_ss = ld32 m (a + 64)\<rparr>"

definition load_context :: "mem \<Rightarrow> u32 \<Rightarrow> cpu_context" where
  "load_context m q = \<lparr>
     c_prot = ld32 m q, c_eax = ld32 m (q + 4), c_ebx = ld32 m (q + 8),
     c_ecx = ld32 m (q + 12), c_edx = ld32 m (q + 16), c_esi = ld32 m (q + 20),
     c_edi = ld32 m (q + 24), c_ebp = ld32 m (q + 28), c_esp3 = ld32 m (q + 32),
     c_eip = ld32 m (q + 36), c_eflags = ld32 m (q + 40), c_cs = ld32 m (q + 44),
     c_ds = ld32 m (q + 48), c_es = ld32 m (q + 52), c_ss = ld32 m (q + 56),
     c_ss0 = ld32 m (q + 60), c_esp0 = ld32 m (q + 64)\<rparr>"

definition DPL_USER :: u32 where "DPL_USER = 3"
definition FL_IF :: u32 where "FL_IF = 0x200"
definition PROT_READ :: u32 where "PROT_READ = 2"
definition EX_SYSCALL :: u32 where "EX_SYSCALL = 0x80"
definition T_IRQ0 :: u32 where "T_IRQ0 = 32"

section \<open>The stack\<close>

definition push :: "u32 \<Rightarrow> machine \<Rightarrow> machine" where
  "push w s = (let a = r_esp s - 4 in s\<lparr>mmem := st32 (mmem s) a w, r_esp := a\<rparr>)"

definition pop :: "machine \<Rightarrow> u32 \<times> machine" where
  "pop s = (ld32 (mmem s) (r_esp s), s\<lparr>r_esp := r_esp s + 4\<rparr>)"

section \<open>Entry\<close>

text \<open>The vectors of \<open>IRQS\<close>, the ones declared \<open>ERR\<close> among them, and the vectors
  for which the processor pushes an error code.\<close>

definition IRQS :: "u32 list" where
  "IRQS = [0, 1, 2, 3, 4, 5, 6, 7, 8, 9, 10, 11, 12, 13, 14, 15, 16, 19, 31,
     32, 33, 34, 35, 36, 37, 38, 39, 40, 41, 42, 43, 44, 45, 46, 47, 128]"

definition IRQS_ERR :: "u32 list" where "IRQS_ERR = [8, 10, 11, 12, 13, 14]"

definition error_code_vectors :: "u32 list" where "error_code_vectors = [8, 10, 11, 12, 13, 14, 17]"

definition user_mode :: "machine \<Rightarrow> bool" where "user_mode s \<longleftrightarrow> r_cs s AND DPL_USER \<noteq> 0"

text \<open>The processor: from user mode it switches to the stack of the task state segment.\<close>

definition hw_interrupt :: "u32 \<Rightarrow> u32 \<Rightarrow> machine \<Rightarrow> machine" where
  "hw_interrupt n err s =
     (let s1 = (if user_mode s
          then push (r_esp s) (push (r_ss s) (s\<lparr>r_esp := tss_esp0 s, r_ss := tss_ss0 s\<rparr>)) else s);
          s2 = push (r_eip s) (push (r_cs s) (push (r_eflags s) s1));
          s3 = (if n \<in> set error_code_vectors then push err s2 else s2)
      in s3\<lparr>r_cs := KSEL 1\<rparr>)"

text \<open>The stub of the vector.\<close>

definition irq_stub :: "u32 \<Rightarrow> machine \<Rightarrow> machine" where
  "irq_stub n s =
     (let s = s\<lparr>r_eflags := r_eflags s AND NOT FL_IF\<rparr>
      in if n \<in> set IRQS then push n (if n \<in> set IRQS_ERR then s else push 0 s)
         else push (-1) (push 0 s))"

definition pushal :: "machine \<Rightarrow> machine" where
  "pushal s = push (r_edi s) (push (r_esi s) (push (r_ebp s) (push (r_esp s)
     (push (r_ebx s) (push (r_edx s) (push (r_ecx s) (push (r_eax s) s)))))))"

text \<open>The address of the trap frame is the stack pointer after the pushes.\<close>

definition trap :: "machine \<Rightarrow> u32 \<times> machine" where
  "trap s =
     (let s = pushal (push (r_es s) (push (r_ds s) s));
          s = s\<lparr>r_eax := r_eax s AND NOT 0xffff OR KSEL 2\<rparr>;
          s = s\<lparr>r_ds := KSEL 2, r_es := KSEL 2\<rparr>
      in (r_esp s, push (r_esp s) s))"

section \<open>The handler\<close>

definition saved_context :: "trap_frame \<Rightarrow> u32 \<Rightarrow> u32 \<Rightarrow> cpu_context" where
  "saved_context t tf prot =
     (let ctx = \<lparr>c_prot = prot, c_eax = tf_eax t, c_ebx = tf_ebx t, c_ecx = tf_ecx t, c_edx = tf_edx t,
        c_esi = tf_esi t, c_edi = tf_edi t, c_ebp = tf_ebp t, c_esp3 = 0, c_eip = tf_eip t,
        c_eflags = tf_eflags t, c_cs = tf_cs t, c_ds = tf_ds t, c_es = tf_es t, c_ss = 0,
        c_ss0 = KSEL 2, c_esp0 = tf + 68\<rparr>
      in if tf_cs t AND DPL_USER \<noteq> 0 then ctx\<lparr>c_ss := tf_ss t, c_esp3 := tf_esp t\<rparr>
         else ctx\<lparr>c_esp0 := c_esp0 ctx - 4 * 2\<rparr>)"

definition irq_event :: "trap_frame \<Rightarrow> u32 \<Rightarrow> irq_ev" where
  "irq_event t cr2 =
     (let n = tf_irq t; ev = \<lparr>ev_event = EVENT_NULL, ev_cause = 0, ev_ref = 0\<rparr>
      in if n = T_IRQ0 + 0 then ev\<lparr>ev_event := EVENT_IRQ_TIMER\<rparr>
         else if n = T_IRQ0 + 1 then ev\<lparr>ev_event := EVENT_IRQ_IODEV\<rparr>
         else if n = EX_SYSCALL then
           (if tf_eax t = -1 then ev\<lparr>ev_event := EVENT_YIELD\<rparr> else ev\<lparr>ev_event := EVENT_SYSCALL\<rparr>)
         else if n \<in> set [0, 6, 7, 8, 10, 11, 12, 13] then ev\<lparr>ev_event := EVENT_ERROR\<rparr>
         else if n = 14 then
           (let c = (if tf_err t AND 1 \<noteq> 0 then PROT_NONE else 0);
                c = c OR (if tf_err t AND 2 \<noteq> 0 then PROT_WRITE else PROT_READ)
            in ev\<lparr>ev_event := EVENT_PAGEFAULT, ev_cause := c, ev_ref := cr2\<rparr>)
         else ev\<lparr>ev_event := EVENT_ERROR, ev_cause := tf_err t\<rparr>)"

text \<open>The first half of \<open>irq_handle\<close>: the context is stored, the interrupt acknowledged.\<close>

definition irq_save :: "u32 \<Rightarrow> u32 \<Rightarrow> machine \<Rightarrow> irq_ev \<times> machine" where
  "irq_save fr tf s =
     (let t = load_frame (mmem s) tf;
          s = s\<lparr>mmem := st_words (mmem s) fr (context_words (saved_context t tf (cpu_prot s)))\<rparr>;
          s = (if sint T_IRQ0 \<le> sint (tf_irq t) \<and> sint (tf_irq t) < sint (T_IRQ0 + 32)
               then s\<lparr>eois := eois s + 1\<rparr> else s)
      in (irq_event t (r_cr2 s), s))"

section \<open>Return\<close>

text \<open>The offsets of the fields of a context in the order in which they are pushed.\<close>

definition REGS_KERNEL :: "u32 list" where
  "REGS_KERNEL = [40, 44, 36, 48, 52, 4, 12, 16, 8, 64, 28, 20, 24]"

definition REGS_USER :: "u32 list" where "REGS_USER = 56 # 32 # REGS_KERNEL"

fun push_regs :: "u32 \<Rightarrow> u32 list \<Rightarrow> machine \<Rightarrow> machine" where
  "push_regs q [] s = s"
| "push_regs q (r # rs) s = push_regs q rs (push (ld32 (mmem s) (q + r)) s)"

definition popal :: "machine \<Rightarrow> machine" where
  "popal s =
     (let (edi, s) = pop s; (esi, s) = pop s; (ebp, s) = pop s; (skipped, s) = pop s;
          (ebx, s) = pop s; (edx, s) = pop s; (ecx, s) = pop s; (eax, s) = pop s
      in s\<lparr>r_edi := edi, r_esi := esi, r_ebp := ebp, r_ebx := ebx, r_edx := edx, r_ecx := ecx, r_eax := eax\<rparr>)"

definition iret :: "machine \<Rightarrow> machine" where
  "iret s =
     (let (eip, s) = pop s; (cs, s) = pop s; (eflags, s) = pop s;
          s = s\<lparr>r_eip := eip, r_cs := cs, r_eflags := eflags\<rparr>
      in if cs AND DPL_USER \<noteq> 0
         then (let (esp, s) = pop s; (ss, s) = pop s in s\<lparr>r_esp := esp, r_ss := ss\<rparr>) else s)"

definition restore :: "machine \<Rightarrow> machine" where
  "restore s = (let s = popal s; (es, s) = pop s; (ds, s) = pop s in iret (s\<lparr>r_es := es, r_ds := ds\<rparr>))"

text \<open>The page directory is the fourth word of an \<open>_AddressSpace\<close>.\<close>

definition return_to :: "u32 \<Rightarrow> machine \<Rightarrow> machine" where
  "return_to q s =
     (let c = load_context (mmem s) q; s = s\<lparr>cpu_prot := c_prot c\<rparr>
      in if c_cs c AND DPL_USER \<noteq> 0 then
           (let s = (if c_prot c \<noteq> 0 then s\<lparr>r_cr3 := ld32 (mmem s) (c_prot c + 12)\<rparr> else s);
                s = s\<lparr>tss_ss0 := c_ss0 c, tss_esp0 := c_esp0 c\<rparr>
            in restore (push_regs q REGS_USER (s\<lparr>r_esp := c_esp0 c\<rparr>)))
         else restore (push_regs q REGS_KERNEL (s\<lparr>r_esp := c_esp0 c\<rparr>)))"

text \<open>The user handler returns the address of a context, or 0.\<close>

type_synonym user_handler = "irq_ev \<Rightarrow> u32 \<Rightarrow> machine \<Rightarrow> u32 \<times> machine"

definition irq_handle :: "user_handler option \<Rightarrow> u32 \<Rightarrow> u32 \<Rightarrow> machine \<Rightarrow> machine option" where
  "irq_handle h fr tf s =
     (let (ev, s) = irq_save fr tf s
      in case h of
           None \<Rightarrow> Some (return_to fr s)
         | Some f \<Rightarrow> (let (q, s) = f ev fr s in if q = 0 then None else Some (return_to q s)))"

text \<open>An interrupt from its delivery to the return.\<close>

definition interrupt :: "user_handler option \<Rightarrow> u32 \<Rightarrow> u32 \<Rightarrow> u32 \<Rightarrow> machine \<Rightarrow> machine option" where
  "interrupt h fr n err s = (let (tf, s) = trap (irq_stub n (hw_interrupt n err s)) in irq_handle h fr tf s)"

text \<open>\<open>int $0x80\<close> with \<open>-1\<close> in \<open>eax\<close>.\<close>

definition am_yield :: "user_handler option \<Rightarrow> u32 \<Rightarrow> machine \<Rightarrow> machine option" where
  "am_yield h fr s = (if h = None then None else interrupt h fr EX_SYSCALL 0 (s\<lparr>r_eax := -1\<rparr>))"

end
