(* ===== verification/CteProps.thy ===== *)
theory CteProps
  imports Cte Sched
begin

text \<open>
  Correctness of the interrupt path: the context given to the handler is the interrupted one, and returning to a
  context loads exactly its registers, so that interrupted code goes on where it was, and the first context
  of a task enters it with its argument.
\<close>
unbundle bit_operations_syntax

section \<open>Words on the stack\<close>

lemma in_range_base:
  assumes "b + k = a" "in_range a n x" "unat k + n \<le> 2 ^ 32"
  shows "unat (x - b) = unat (x - a) + unat k"
proof -
  have e: "x - b = x - a + k" using assms(1) by (auto simp: algebra_simps)
  show ?thesis unfolding e using assms(2,3) unat_add_of_nat [of "x - a" "unat k"] by (simp add: in_range_def)
qed

lemma ld32_st32_above:
  assumes "4 \<le> unat k" "unat k + 4 \<le> 2 ^ 32"
  shows "ld32 (st32 m a w) (a + k) = ld32 m (a + k)"
proof (rule ld32_cong, rule st32_outside)
  fix x assume x: "in_range (a + k) 4 x"
  have "unat (x - a) = unat (x - (a + k)) + unat k"
    using x assms unat_add_of_nat [of k "unat (x - (a + k))"] by (simp add: in_range_def algebra_simps)
  then show "\<not> in_range a 4 x" using assms by (simp add: in_range_def)
qed

lemma push_sel [simp]:
  "mmem (push w s) = st32 (mmem s) (r_esp s - 4) w" "r_esp (push w s) = r_esp s - 4"
  "r_eax (push w s) = r_eax s" "r_ecx (push w s) = r_ecx s" "r_edx (push w s) = r_edx s"
  "r_ebx (push w s) = r_ebx s" "r_ebp (push w s) = r_ebp s" "r_esi (push w s) = r_esi s"
  "r_edi (push w s) = r_edi s" "r_eip (push w s) = r_eip s" "r_eflags (push w s) = r_eflags s"
  "r_cs (push w s) = r_cs s" "r_ds (push w s) = r_ds s" "r_es (push w s) = r_es s"
  "r_ss (push w s) = r_ss s" "r_cr2 (push w s) = r_cr2 s" "r_cr3 (push w s) = r_cr3 s"
  "tss_ss0 (push w s) = tss_ss0 s" "tss_esp0 (push w s) = tss_esp0 s"
  "cpu_prot (push w s) = cpu_prot s" "eois (push w s) = eois s"
  by (simp_all add: push_def Let_def)

text \<open>The context that stands for what the processor was doing.\<close>

definition interrupted_context :: "machine \<Rightarrow> cpu_context" where
  "interrupted_context s = \<lparr>c_prot = cpu_prot s, c_eax = r_eax s, c_ebx = r_ebx s, c_ecx = r_ecx s,
     c_edx = r_edx s, c_esi = r_esi s, c_edi = r_edi s, c_ebp = r_ebp s,
     c_esp3 = (if user_mode s then r_esp s else 0), c_eip = r_eip s, c_eflags = r_eflags s, c_cs = r_cs s,
     c_ds = r_ds s, c_es = r_es s, c_ss = (if user_mode s then r_ss s else 0), c_ss0 = KSEL 2,
     c_esp0 = (if user_mode s then tss_esp0 s else r_esp s)\<rparr>"


text \<open>The memory after pushing the words \<open>ws\<close> one after the other below \<open>e\<close>.\<close>

fun pushes :: "mem \<Rightarrow> u32 \<Rightarrow> u32 list \<Rightarrow> mem" where
  "pushes m e [] = m"
| "pushes m e (w # ws) = pushes (st32 m (e - 4) w) (e - 4) ws"

lemma pushes_snoc: "pushes m e (ws @ [w]) = st32 (pushes m e ws) (e - 4 * of_nat (length ws) - 4) w"
  by (induction ws arbitrary: m e) (simp_all add: algebra_simps)

lemma pushes_read:
  "i < length ws \<Longrightarrow> length ws < 2 ^ 29 \<Longrightarrow>
   ld32 (pushes m e ws) (e - 4 * of_nat (length ws) + 4 * of_nat i) = rev ws ! i"
proof (induction ws arbitrary: i rule: rev_induct)
  case (snoc w ws)
  let ?e = "e - 4 * of_nat (length ws) :: u32"
  show ?case
  proof (cases i)
    case 0 then show ?thesis by (simp add: pushes_snoc algebra_simps)
  next
    case (Suc j)
    define k :: u32 where "k = of_nat (4 + 4 * j)"
    have "unat k = 4 + 4 * j" unfolding k_def using snoc.prems Suc by (intro unat_of_nat32) simp
    then have "ld32 (st32 (pushes m e ws) (?e - 4) w) (?e - 4 + k) = ld32 (pushes m e ws) (?e - 4 + k)"
      using snoc.prems Suc by (intro ld32_st32_above) simp_all
    moreover have "?e - 4 + k = ?e + 4 * of_nat j" by (simp add: k_def)
    ultimately have "ld32 (st32 (pushes m e ws) (?e - 4) w) (?e + 4 * of_nat j) = ld32 (pushes m e ws) (?e + 4 * of_nat j)"
      by simp
    then show ?thesis using snoc.IH [of j] snoc.prems Suc by (simp add: pushes_snoc algebra_simps nth_append)
  qed
qed simp

definition stub_words :: "u32 \<Rightarrow> u32 \<Rightarrow> u32 list" where
  "stub_words n err = [if n \<in> set error_code_vectors then err else 0, if n \<in> set IRQS then n else -1]"

definition kernel_sp :: "machine \<Rightarrow> u32" where
  "kernel_sp s = (if user_mode s then tss_esp0 s else r_esp s)"


text \<open>A state that differs from \<open>s\<close> by pushing the words \<open>ws\<close> below \<open>e\<close>.\<close>

lemma push_upd [simp]:
  "push w (s\<lparr>r_cs := x\<rparr>) = (push w s)\<lparr>r_cs := x\<rparr>" "push w (s\<lparr>r_ss := x\<rparr>) = (push w s)\<lparr>r_ss := x\<rparr>"
  "push w (s\<lparr>r_eflags := x\<rparr>) = (push w s)\<lparr>r_eflags := x\<rparr>"
  by (simp_all add: push_def Let_def)

lemma push_pushes: "push w (s\<lparr>mmem := pushes m e ws, r_esp := e - 4 * of_nat (length ws)\<rparr>) =
    s\<lparr>mmem := pushes m e (ws @ [w]), r_esp := e - 4 * of_nat (length (ws @ [w]))\<rparr>"
  by (simp add: push_def pushes_snoc Let_def algebra_simps)

definition pile :: "u32 list \<Rightarrow> machine \<Rightarrow> machine" where
  "pile ws s = s\<lparr>mmem := pushes (mmem s) (r_esp s) ws, r_esp := r_esp s - 4 * of_nat (length ws)\<rparr>"

lemma pile_push: "push w (pile ws s) = pile (ws @ [w]) s"
  by (simp add: pile_def push_pushes)

lemma pushes_append: "pushes m e (ws @ vs) = pushes (pushes m e ws) (e - 4 * of_nat (length ws)) vs"
  by (induction ws arbitrary: m e) (simp_all add: algebra_simps)

lemma pile_pile: "pile vs (pile ws s) = pile (ws @ vs) s"
  by (simp add: pile_def pushes_append algebra_simps)

lemma push_pile: "push w s = pile [w] s"
  by (simp add: pile_def push_def Let_def)

lemma pile_sel [simp]:
  "mmem (pile ws s) = pushes (mmem s) (r_esp s) ws" "r_esp (pile ws s) = r_esp s - 4 * of_nat (length ws)"
  "r_eax (pile ws s) = r_eax s" "r_ecx (pile ws s) = r_ecx s" "r_edx (pile ws s) = r_edx s"
  "r_ebx (pile ws s) = r_ebx s" "r_ebp (pile ws s) = r_ebp s" "r_esi (pile ws s) = r_esi s"
  "r_edi (pile ws s) = r_edi s" "r_eip (pile ws s) = r_eip s" "r_eflags (pile ws s) = r_eflags s"
  "r_cs (pile ws s) = r_cs s" "r_ds (pile ws s) = r_ds s" "r_es (pile ws s) = r_es s"
  "r_ss (pile ws s) = r_ss s" "r_cr2 (pile ws s) = r_cr2 s" "cpu_prot (pile ws s) = cpu_prot s"
  "tss_esp0 (pile ws s) = tss_esp0 s" "tss_ss0 (pile ws s) = tss_ss0 s"
  by (simp_all add: pile_def)

lemma pile_upd [simp]:
  "pile ws (s\<lparr>r_cs := x\<rparr>) = (pile ws s)\<lparr>r_cs := x\<rparr>" "pile ws (s\<lparr>r_ss := x\<rparr>) = (pile ws s)\<lparr>r_ss := x\<rparr>"
  "pile ws (s\<lparr>r_eax := x\<rparr>) = (pile ws s)\<lparr>r_eax := x\<rparr>" "pile ws (s\<lparr>r_ds := x\<rparr>) = (pile ws s)\<lparr>r_ds := x\<rparr>"
  "pile ws (s\<lparr>r_es := x\<rparr>) = (pile ws s)\<lparr>r_es := x\<rparr>" "pile ws (s\<lparr>r_eflags := x\<rparr>) = (pile ws s)\<lparr>r_eflags := x\<rparr>"
  by (simp_all add: pile_def)

section \<open>Entry\<close>

text \<open>The state when the stub has run.\<close>

definition on_kernel_stack :: "machine \<Rightarrow> machine" where
  "on_kernel_stack s = (if user_mode s then s\<lparr>r_esp := tss_esp0 s, r_ss := tss_ss0 s\<rparr> else s)"

definition hw_words :: "machine \<Rightarrow> u32 list" where
  "hw_words s = (if user_mode s then [r_ss s, r_esp s] else []) @ [r_eflags s, r_cs s, r_eip s]"

lemma hw_run:
  "hw_interrupt n err s = pile (hw_words s @ (if n \<in> set error_code_vectors then [err] else [])) (on_kernel_stack s)
     \<lparr>r_cs := KSEL 1\<rparr>"
  by (simp add: hw_interrupt_def on_kernel_stack_def hw_words_def push_pile pile_pile Let_def)

lemma stub_run:
  assumes "n \<noteq> 17"
  shows "irq_stub n (hw_interrupt n err s) = pile (hw_words s @ stub_words n err) (on_kernel_stack s)
     \<lparr>r_cs := KSEL 1, r_eflags := r_eflags s AND NOT FL_IF\<rparr>"
proof -
  have e: "(n \<in> set error_code_vectors) = (n \<in> set IRQS \<and> n \<in> set IRQS_ERR)"
    using assms(1) by (auto simp: error_code_vectors_def IRQS_def IRQS_ERR_def)
  show ?thesis
    unfolding irq_stub_def hw_run stub_words_def Let_def
    by (auto simp: push_pile pile_pile on_kernel_stack_def e)
qed

definition trap_words :: "machine \<Rightarrow> u32 \<Rightarrow> u32 list" where
  "trap_words s e = [r_ds s, r_es s, r_eax s, r_ecx s, r_edx s, r_ebx s, e - 8, r_ebp s, r_esi s, r_edi s]"

lemma stub_trap_run:
  "trap (pile ws s\<lparr>r_cs := x, r_eflags := y\<rparr>) = (r_esp s - 4 * of_nat (length ws + 10),
     pile (ws @ trap_words s (r_esp s - 4 * of_nat (length ws)) @ [r_esp s - 4 * of_nat (length ws + 10)]) s
     \<lparr>r_cs := x, r_eflags := y, r_eax := r_eax s AND NOT 0xffff OR KSEL 2, r_ds := KSEL 2, r_es := KSEL 2\<rparr>)"
  unfolding trap_def pushal_def Let_def trap_words_def
  by (simp add: push_pile pile_pile algebra_simps)

lemma entry_run:
  assumes "n \<noteq> 17"
  shows "trap (irq_stub n (hw_interrupt n err s)) =
    (let k = on_kernel_stack s; e = r_esp k - 4 * of_nat (length (hw_words s) + 2); tf = e - 40
     in (tf, pile (hw_words s @ stub_words n err @ trap_words s e @ [tf]) k
       \<lparr>r_cs := KSEL 1, r_eflags := r_eflags s AND NOT FL_IF, r_eax := r_eax s AND NOT 0xffff OR KSEL 2,
        r_ds := KSEL 2, r_es := KSEL 2\<rparr>))"
  unfolding stub_run [OF assms] stub_trap_run
  by (simp add: stub_words_def trap_words_def Let_def on_kernel_stack_def algebra_simps)

lemma frame_read:
  assumes "n \<noteq> 17" and t: "trap (irq_stub n (hw_interrupt n err s)) = (tf, s1)"
    and i: "i < length (hw_words s) + 12"
  shows "ld32 (mmem s1) (tf + 4 * of_nat i) = rev (hw_words s @ stub_words n err @ trap_words s (tf + 40)) ! i"
proof -
  have l: "length (stub_words n err) = 2" "length (trap_words s e) = 10" for e by (simp_all add: stub_words_def trap_words_def)
  define k where "k = on_kernel_stack s"
  define ws where "ws = hw_words s @ stub_words n err @ trap_words s (tf + 40)"
  have h: "length (hw_words s) \<le> 5" by (simp add: hw_words_def)
  have lw: "length ws = length (hw_words s) + 12" using l by (simp add: ws_def)
  have tf: "tf = r_esp k - 4 * of_nat (length ws)" and m: "mmem s1 = pushes (mmem s) (r_esp k) (ws @ [tf])"
    using t unfolding entry_run [OF assms(1)] lw
    by (auto simp: Let_def k_def on_kernel_stack_def ws_def algebra_simps)
  have "ld32 (mmem s1) (r_esp k - 4 * of_nat (length (ws @ [tf])) + 4 * of_nat (Suc i)) = rev (ws @ [tf]) ! Suc i"
    unfolding m by (rule pushes_read) (use i lw h in simp_all)
  then show ?thesis unfolding ws_def [symmetric] by (simp add: tf algebra_simps)
qed

lemma trap_saves:
  assumes "n \<noteq> 17" and t: "trap (irq_stub n (hw_interrupt n err s)) = (tf, s1)"
  shows "saved_context (load_frame (mmem s1) tf) tf (cpu_prot s1) = interrupted_context s"
    "tf_irq (load_frame (mmem s1) tf) = (if n \<in> set IRQS then n else -1)"
proof -
  let ?ws = "rev (hw_words s @ stub_words n err @ trap_words s (tf + 40))"
  have h: "length (hw_words s) = (if user_mode s then 5 else 3)" by (simp add: hw_words_def)
  have r: "ld32 (mmem s1) tf = ?ws ! 0" "ld32 (mmem s1) (tf + 4) = ?ws ! 1" "ld32 (mmem s1) (tf + 8) = ?ws ! 2"
    "ld32 (mmem s1) (tf + 16) = ?ws ! 4" "ld32 (mmem s1) (tf + 20) = ?ws ! 5" "ld32 (mmem s1) (tf + 24) = ?ws ! 6"
    "ld32 (mmem s1) (tf + 28) = ?ws ! 7" "ld32 (mmem s1) (tf + 32) = ?ws ! 8" "ld32 (mmem s1) (tf + 36) = ?ws ! 9"
    "ld32 (mmem s1) (tf + 40) = ?ws ! 10" "ld32 (mmem s1) (tf + 48) = ?ws ! 12" "ld32 (mmem s1) (tf + 52) = ?ws ! 13"
    "ld32 (mmem s1) (tf + 56) = ?ws ! 14"
    using frame_read [OF assms, of 0] frame_read [OF assms, of 1] frame_read [OF assms, of 2]
      frame_read [OF assms, of 4] frame_read [OF assms, of 5] frame_read [OF assms, of 6]
      frame_read [OF assms, of 7] frame_read [OF assms, of 8] frame_read [OF assms, of 9]
      frame_read [OF assms, of 10] frame_read [OF assms, of 12] frame_read [OF assms, of 13] frame_read [OF assms, of 14] h
    by (simp_all split: if_splits)
  have u: "ld32 (mmem s1) (tf + 60) = ?ws ! 15" "ld32 (mmem s1) (tf + 64) = ?ws ! 16" if "user_mode s"
    using frame_read [OF assms, of 15] frame_read [OF assms, of 16] h that by simp_all
  have tf: "tf + 68 = tss_esp0 s" if "user_mode s"
    using t that unfolding entry_run [OF assms(1)] by (auto simp: Let_def on_kernel_stack_def hw_words_def)
  have tf': "tf + 60 = r_esp s" if "\<not> user_mode s"
    using t that unfolding entry_run [OF assms(1)] by (auto simp: Let_def on_kernel_stack_def hw_words_def)
  have p: "cpu_prot s1 = cpu_prot s"
    using t unfolding entry_run [OF assms(1)] by (auto simp: Let_def on_kernel_stack_def)
  show "tf_irq (load_frame (mmem s1) tf) = (if n \<in> set IRQS then n else -1)"
    by (simp add: load_frame_def r stub_words_def trap_words_def)
  note d = load_frame_def saved_context_def interrupted_context_def stub_words_def trap_words_def
      hw_words_def user_mode_def Let_def
  show "saved_context (load_frame (mmem s1) tf) tf (cpu_prot s1) = interrupted_context s"
  proof (cases "user_mode s")
    case True
    then show ?thesis using u [OF True] tf [OF True] by (simp add: d r p)
  next
    case False
    then show ?thesis using tf' [OF False] by (simp add: d r p add.commute [of 60])
  qed
qed

section \<open>Return\<close>

definition regs_of :: "cpu_context \<Rightarrow> u32 list" where
  "regs_of c = (if c_cs c AND DPL_USER \<noteq> 0 then [c_ss c, c_esp3 c] else []) @
     [c_eflags c, c_cs c, c_eip c, c_ds c, c_es c, c_eax c, c_ecx c, c_edx c, c_ebx c, c_esp0 c, c_ebp c, c_esi c, c_edi c]"

text \<open>The bytes that the return pushes over.\<close>

definition off_stack :: "cpu_context \<Rightarrow> u32 \<Rightarrow> bool" where
  "off_stack c q \<longleftrightarrow> 60 \<le> unat (q - (c_esp0 c - 60)) \<and> unat (q - (c_esp0 c - 60)) + 68 \<le> 2 ^ 32"

lemma push_regs_pile:
  assumes "\<And>r k. r \<in> set rs \<Longrightarrow> k < length rs \<Longrightarrow>
     4 \<le> unat (q + r - (r_esp s - 4 - 4 * of_nat k)) \<and> unat (q + r - (r_esp s - 4 - 4 * of_nat k)) + 4 \<le> 2 ^ 32"
  shows "push_regs q rs s = pile (map (\<lambda>r. ld32 (mmem s) (q + r)) rs) s"
  using assms
proof (induction rs arbitrary: s)
  case Nil then show ?case by (simp add: pile_def)
next
  case (Cons r rs)
  have e: "ld32 (st32 (mmem s) (r_esp s - 4) w) (q + r') = ld32 (mmem s) (q + r')" if "r' \<in> set rs" for r' w
    using Cons.prems [of r' 0] that ld32_st32_above [of "q + r' - (r_esp s - 4)" "mmem s" "r_esp s - 4" w] by simp
  have "push_regs q rs (push (ld32 (mmem s) (q + r)) s) =
      pile (map (\<lambda>x. ld32 (mmem (push (ld32 (mmem s) (q + r)) s)) (q + x)) rs) (push (ld32 (mmem s) (q + r)) s)"
  proof (rule Cons.IH)
    fix x k assume "x \<in> set rs" "k < length rs"
    then show "4 \<le> unat (q + x - (r_esp (push (ld32 (mmem s) (q + r)) s) - 4 - 4 * of_nat k)) \<and>
      unat (q + x - (r_esp (push (ld32 (mmem s) (q + r)) s) - 4 - 4 * of_nat k)) + 4 \<le> 2 ^ 32"
      using Cons.prems [of x "Suc k"] by (simp add: algebra_simps)
  qed
  also have "\<dots> = pile (map (\<lambda>r. ld32 (mmem s) (q + r)) rs) (push (ld32 (mmem s) (q + r)) s)"
    using e by (simp cong: map_cong)
  finally show ?case by (simp add: push_pile pile_pile)
qed

lemma pop_let: "(let (x, s) = pop s in f x s) = f (ld32 (mmem s) (r_esp s)) (s\<lparr>r_esp := r_esp s + 4\<rparr>)"
  by (simp add: pop_def)

lemma popal_run:
  "popal s = (let m = mmem s; e = r_esp s in s\<lparr>r_edi := ld32 m e, r_esi := ld32 m (e + 4), r_ebp := ld32 m (e + 8),
     r_ebx := ld32 m (e + 16), r_edx := ld32 m (e + 20), r_ecx := ld32 m (e + 24), r_eax := ld32 m (e + 28),
     r_esp := e + 32\<rparr>)"
  unfolding popal_def by (simp add: pop_let) (cases s, simp add: Let_def add.commute)

lemma restore_run:
  "restore s = (let m = mmem s; e = r_esp s; cs = ld32 m (e + 44);
      s1 = s\<lparr>r_edi := ld32 m e, r_esi := ld32 m (e + 4), r_ebp := ld32 m (e + 8), r_ebx := ld32 m (e + 16),
        r_edx := ld32 m (e + 20), r_ecx := ld32 m (e + 24), r_eax := ld32 m (e + 28), r_es := ld32 m (e + 32),
        r_ds := ld32 m (e + 36), r_eip := ld32 m (e + 40), r_cs := cs, r_eflags := ld32 m (e + 48)\<rparr>
    in if cs AND DPL_USER \<noteq> 0 then s1\<lparr>r_esp := ld32 m (e + 52), r_ss := ld32 m (e + 56)\<rparr>
       else s1\<lparr>r_esp := e + 52\<rparr>)"
  unfolding restore_def popal_run iret_def Let_def [of "popal s"] Let_def [of "s\<lparr>r_edi := x\<rparr>" for s x]
  by (simp add: pop_let) (cases s, simp add: Let_def add.commute pop_def)

lemma load_words:
  "ld32 m q = c_prot (load_context m q)" "ld32 m (q + 4) = c_eax (load_context m q)"
  "ld32 m (q + 8) = c_ebx (load_context m q)" "ld32 m (q + 12) = c_ecx (load_context m q)"
  "ld32 m (q + 16) = c_edx (load_context m q)" "ld32 m (q + 20) = c_esi (load_context m q)"
  "ld32 m (q + 24) = c_edi (load_context m q)" "ld32 m (q + 28) = c_ebp (load_context m q)"
  "ld32 m (q + 32) = c_esp3 (load_context m q)" "ld32 m (q + 36) = c_eip (load_context m q)"
  "ld32 m (q + 40) = c_eflags (load_context m q)" "ld32 m (q + 44) = c_cs (load_context m q)"
  "ld32 m (q + 48) = c_ds (load_context m q)" "ld32 m (q + 52) = c_es (load_context m q)"
  "ld32 m (q + 56) = c_ss (load_context m q)" "ld32 m (q + 60) = c_ss0 (load_context m q)"
  "ld32 m (q + 64) = c_esp0 (load_context m q)"
  by (simp_all add: load_context_def)

lemma off_stack_field:
  assumes "off_stack c q" "unat r + 4 \<le> 68" "k < 15"
  shows "4 \<le> unat (q + r - (c_esp0 c - 4 - 4 * of_nat k)) \<and> unat (q + r - (c_esp0 c - 4 - 4 * of_nat k)) + 4 \<le> 2 ^ 32"
proof -
  define d where "d = q - (c_esp0 c - 60)"
  define j :: u32 where "j = of_nat (56 - 4 * k)"
  have d: "60 \<le> unat d" "unat d + 68 \<le> 2 ^ 32" using assms(1) by (simp_all add: off_stack_def d_def)
  have j: "unat j = 56 - 4 * k" unfolding j_def by (rule unat_of_nat32) simp
  have "j = 56 - 4 * of_nat k" using assms(3) by (simp add: j_def of_nat_diff)
  then have "q + r - (c_esp0 c - 4 - 4 * of_nat k) = d + r - j" by (simp add: d_def algebra_simps)
  note e = this
  have "unat (d + r) = unat d + unat r" using d assms(2) unat_add_of_nat [of d "unat r"] by simp
  moreover have "unat (d + r - j) = unat (d + r) - unat j" using calculation d j by (simp add: unat_sub_if')
  ultimately show ?thesis unfolding e using d j assms(2) by (simp, arith)
qed

lemma return_run:
  assumes c: "load_context (mmem s) q = c" and off: "off_stack c q"
  shows "return_to q s = (let s1 = s\<lparr>cpu_prot := c_prot c, r_esp := c_esp0 c\<rparr>;
      s1 = (if c_cs c AND DPL_USER \<noteq> 0
        then s1\<lparr>r_cr3 := (if c_prot c \<noteq> 0 then ld32 (mmem s) (c_prot c + 12) else r_cr3 s), tss_ss0 := c_ss0 c,
          tss_esp0 := c_esp0 c\<rparr> else s1)
    in restore (pile (regs_of c) s1))"
proof -
  have u: "push_regs q REGS_USER s1 = pile (map (\<lambda>r. ld32 (mmem s) (q + r)) REGS_USER) s1"
    "push_regs q REGS_KERNEL s1 = pile (map (\<lambda>r. ld32 (mmem s) (q + r)) REGS_KERNEL) s1"
    if "mmem s1 = mmem s" "r_esp s1 = c_esp0 c" for s1
    unfolding that(1) [symmetric]
    by (rule push_regs_pile; unfold that(2); rule off_stack_field [OF off]; auto simp: REGS_USER_def REGS_KERNEL_def)+
  have w: "map (\<lambda>r. ld32 (mmem s) (q + r)) (if c_cs c AND DPL_USER \<noteq> 0 then REGS_USER else REGS_KERNEL) = regs_of c"
    by (simp add: REGS_USER_def REGS_KERNEL_def regs_of_def load_words(2-) c)
  show ?thesis
  proof (cases "c_cs c AND DPL_USER \<noteq> 0")
    case True
    then show ?thesis using w by (simp add: return_to_def c u Let_def) (cases s, simp)
  next
    case False
    then show ?thesis using w by (simp add: return_to_def c u Let_def)
  qed
qed

lemma pushes_outside:
  "\<not> in_range (e - 4 * of_nat (length ws)) (4 * length ws) x \<Longrightarrow> length ws < 2 ^ 29 \<Longrightarrow> pushes m e ws x = m x"
proof (induction ws rule: rev_induct)
  case (snoc w ws)
  let ?a = "e - 4 * of_nat (length ws) - 4"
  have n: "\<not> unat (x - ?a) < 4 * length ws + 4" using snoc.prems(1) by (simp add: in_range_def algebra_simps)
  have "x - ?a = x - (e - 4 * of_nat (length ws)) + 4" by (simp add: algebra_simps)
  moreover have "\<not> unat (x - (e - 4 * of_nat (length ws))) < 4 * length ws"
  proof
    assume l: "unat (x - (e - 4 * of_nat (length ws))) < 4 * length ws"
    then have "unat (x - (e - 4 * of_nat (length ws)) + 4) = unat (x - (e - 4 * of_nat (length ws))) + 4"
      using unat_add_of_nat [of "x - (e - 4 * of_nat (length ws))" 4] snoc.prems(2) by simp
    then show False using n l calculation by simp
  qed
  ultimately have "pushes m e ws x = m x" using snoc.IH snoc.prems(2) by (simp add: in_range_def)
  moreover have "\<not> in_range ?a 4 x" using n by (simp add: in_range_def)
  ultimately show ?case by (simp add: pushes_snoc st32_outside)
qed simp

definition runs :: "cpu_context \<Rightarrow> machine \<Rightarrow> bool" where
  "runs c s \<longleftrightarrow> r_eax s = c_eax c \<and> r_ebx s = c_ebx c \<and> r_ecx s = c_ecx c \<and> r_edx s = c_edx c \<and>
     r_esi s = c_esi c \<and> r_edi s = c_edi c \<and> r_ebp s = c_ebp c \<and> r_eip s = c_eip c \<and> r_eflags s = c_eflags c \<and>
     r_cs s = c_cs c \<and> r_ds s = c_ds c \<and> r_es s = c_es c \<and> cpu_prot s = c_prot c \<and>
     (if c_cs c AND DPL_USER \<noteq> 0
      then r_esp s = c_esp3 c \<and> r_ss s = c_ss c \<and> tss_esp0 s = c_esp0 c \<and> tss_ss0 s = c_ss0 c
      else r_esp s = c_esp0 c)"

lemma return_runs:
  assumes c: "load_context (mmem s) q = c" and off: "off_stack c q"
  shows "runs c (return_to q s)" "\<not> in_range (c_esp0 c - 60) 60 x \<Longrightarrow> mmem (return_to q s) x = mmem s x"
proof -
  have len: "length (regs_of c) = (if c_cs c AND DPL_USER \<noteq> 0 then 15 else 13)" by (simp add: regs_of_def)
  have r: "ld32 (pushes m e (regs_of c)) (e - 4 * of_nat (length (regs_of c)) + 4 * of_nat i) = rev (regs_of c) ! i"
    if "i < length (regs_of c)" for m e i
    using pushes_read [OF that] len by (simp split: if_splits)
  note i = this [of 0] this [of 1] this [of 2] this [of 4] this [of 5] this [of 6] this [of 7] this [of 8]
    this [of 9] this [of 10] this [of 11] this [of 12]
  note j = r [of 13] r [of 14]
  show "runs c (return_to q s)"
  proof (cases "c_cs c AND DPL_USER \<noteq> 0")
    case True
    have "length (regs_of c) = 15" using True len by simp
    from i [unfolded this] j [unfolded this] True show ?thesis
      unfolding return_run [OF c off] restore_run
      by (simp add: Let_def runs_def regs_of_def)
  next
    case False
    have "length (regs_of c) = 13" using False len by simp
    from i [unfolded this] False show ?thesis
      unfolding return_run [OF c off] restore_run
      by (simp add: Let_def runs_def regs_of_def)
  qed
  assume x: "\<not> in_range (c_esp0 c - 60) 60 x"
  have "\<not> in_range (c_esp0 c - 4 * of_nat (length (regs_of c))) (4 * length (regs_of c)) x"
  proof (cases "c_cs c AND DPL_USER \<noteq> 0")
    case True then show ?thesis using x by (simp add: len)
  next
    case False
    then have "\<not> in_range (c_esp0 c - 52) 52 x"
      using x in_range_base [of "c_esp0 c - 60" 8 "c_esp0 c - 52" 52 x] by (auto simp: in_range_def)
    then show ?thesis using False by (simp add: len)
  qed
  then have "pushes (mmem s) (c_esp0 c) (regs_of c) x = mmem s x" by (intro pushes_outside) (simp_all add: len)
  then show "mmem (return_to q s) x = mmem s x"
    unfolding return_run [OF c off] restore_run by (simp add: Let_def)
qed

lemma st_words_read:
  "i < length ws \<Longrightarrow> length ws < 2 ^ 29 \<Longrightarrow> ld32 (st_words m a ws) (a + 4 * of_nat i) = ws ! i"
proof (induction ws arbitrary: m a i)
  case (Cons w ws)
  show ?case
  proof (cases i)
    case 0
    have "\<not> in_range (a + 4) (4 * length ws) x" if x: "in_range a 4 x" for x
    proof
      assume r: "in_range (a + 4) (4 * length ws) x"
      have "unat (x - a) = unat (x - (a + 4)) + 4"
        using unat_add_of_nat [of "x - (a + 4)" 4] r Cons.prems(2) by (simp add: in_range_def)
      then show False using x by (simp add: in_range_def)
    qed
    then have "ld32 (st_words (st32 m a w) (a + 4) ws) a = ld32 (st32 m a w) a"
      using Cons.prems(2) by (intro ld32_cong st_words_outside) auto
    then show ?thesis using 0 by simp
  next
    case (Suc j)
    then show ?thesis using Cons.IH [of j "st32 m a w" "a + 4"] Cons.prems by (simp add: algebra_simps)
  qed
qed simp

lemma load_store_context: "load_context (st_words m a (context_words c)) a = c"
proof -
  let ?m = "st_words m a (context_words c)"
  have r: "ld32 ?m (a + 4 * of_nat i) = context_words c ! i" if "i < 17" for i
    using st_words_read [of i "context_words c"] that by (simp add: context_words_def)
  note r [of 0] r [of 1] r [of 2] r [of 3] r [of 4] r [of 5] r [of 6] r [of 7] r [of 8] r [of 9] r [of 10] r [of 11]
    r [of 12] r [of 13] r [of 14] r [of 15] r [of 16]
  then have "ld32 ?m a = c_prot c" "ld32 ?m (a + 4) = c_eax c" "ld32 ?m (a + 8) = c_ebx c" "ld32 ?m (a + 12) = c_ecx c"
    "ld32 ?m (a + 16) = c_edx c" "ld32 ?m (a + 20) = c_esi c" "ld32 ?m (a + 24) = c_edi c" "ld32 ?m (a + 28) = c_ebp c"
    "ld32 ?m (a + 32) = c_esp3 c" "ld32 ?m (a + 36) = c_eip c" "ld32 ?m (a + 40) = c_eflags c" "ld32 ?m (a + 44) = c_cs c"
    "ld32 ?m (a + 48) = c_ds c" "ld32 ?m (a + 52) = c_es c" "ld32 ?m (a + 56) = c_ss c" "ld32 ?m (a + 60) = c_ss0 c"
    "ld32 ?m (a + 64) = c_esp0 c"
    by (simp_all add: context_words_def)
  then show ?thesis by (cases c) (simp add: load_context_def)
qed

lemma irq_save_stores:
  assumes "n \<noteq> 17" "trap (irq_stub n (hw_interrupt n err s)) = (tf, s1)" "irq_save fr tf s1 = (ev, s2)"
  shows "load_context (mmem s2) fr = interrupted_context s"
  using assms(3) trap_saves(1) [OF assms(1,2)] load_store_context [of "mmem s1" fr "interrupted_context s"]
  by (auto simp: irq_save_def Let_def split: if_splits)

section \<open>The interrupt path\<close>

text \<open>C7: Interrupted code resumes where it was: when an interrupt (any vector but the alignment check, in kernel
  or in user mode) saved a context and at some later interrupt, of any other code, the handler returns the
  address of a copy of it that is not in the 60 bytes below its kernel stack pointer, then the return
  restores every register, the flags, the segments, the stack pointers and the address space of the
  interrupted code, and changes no memory but these 60 bytes.\<close>
theorem interrupted_code_resumes:
  assumes first: "n \<noteq> 17" "trap (irq_stub n (hw_interrupt n err s)) = (tf, s1)" "irq_save fr tf s1 = (ev, s2)"
    and later: "trap (irq_stub n' (hw_interrupt n' err' t)) = (tf', t1)" "irq_save fr' tf' t1 = (ev', t2)"
      "f ev' fr' t2 = (q, u)" "q \<noteq> 0"
    and kept: "load_context (mmem u) q = load_context (mmem s2) fr" "off_stack (load_context (mmem s2) fr) q"
  shows "\<exists>r. interrupt (Some f) fr' n' err' t = Some r \<and> runs (interrupted_context s) r \<and>
    (\<forall>x. \<not> in_range (kernel_sp s - 60) 60 x \<longrightarrow> mmem r x = mmem u x)"
proof -
  let ?c = "interrupted_context s"
  have c: "load_context (mmem u) q = ?c" "off_stack ?c q" using kept irq_save_stores [OF first] by simp_all
  have "interrupt (Some f) fr' n' err' t = Some (return_to q u)"
    using later by (simp add: interrupt_def irq_handle_def)
  moreover have "c_esp0 ?c = kernel_sp s" by (simp add: interrupted_context_def kernel_sp_def)
  ultimately show ?thesis using return_runs [OF c] by auto
qed

text \<open>Kernel code at 0x100000 with its stack below 0x20000, and a handler that returns the context it got.\<close>

definition demo_machine :: machine where
  "demo_machine = \<lparr>mmem = (\<lambda>_. 0), r_eax = 1, r_ecx = 2, r_edx = 3, r_ebx = 4, r_esp = 0x20000, r_ebp = 5, r_esi = 6,
     r_edi = 7, r_eip = 0x100000, r_eflags = 0x202, r_cs = 8, r_ds = 16, r_es = 16, r_ss = 16, r_cr2 = 0, r_cr3 = 0,
     tss_ss0 = 16, tss_esp0 = 0, cpu_prot = 0, eois = 0\<rparr>"

definition same_context :: user_handler where
  "same_context ev p s = (p, s)"

theorem interrupted_code_resumes_witness:
  "\<exists>r. interrupt (Some same_context) 0x10000 32 0 demo_machine = Some r \<and> r_eip r = 0x100000 \<and> r_esp r = 0x20000 \<and> r_eax r = 1"
proof -
  obtain tf s1 where a: "trap (irq_stub 32 (hw_interrupt 32 0 demo_machine)) = (tf, s1)" by fastforce
  obtain ev s2 where b: "irq_save 0x10000 tf s1 = (ev, s2)" by fastforce
  have c: "load_context (mmem s2) 0x10000 = interrupted_context demo_machine"
    using irq_save_stores [OF _ a b] by simp
  have "\<not> user_mode demo_machine" by (simp add: user_mode_def demo_machine_def DPL_USER_def)
  then have "off_stack (load_context (mmem s2) 0x10000) 0x10000"
    by (simp add: c off_stack_def interrupted_context_def) (simp add: demo_machine_def)
  from interrupted_code_resumes [OF _ a b a b _ _ refl this, of same_context]
  have "\<exists>r. interrupt (Some same_context) 0x10000 32 0 demo_machine = Some r \<and> runs (interrupted_context demo_machine) r"
    by (auto simp: same_context_def)
  then show ?thesis
    by (auto simp: runs_def interrupted_context_def demo_machine_def user_mode_def DPL_USER_def)
qed

text \<open>C33: The first context of a task starts it: when the handler returns a copy of a context that
  \<open>kcontext\<close> made, and the two words on top of the new stack are still there, the processor continues in kernel mode at
  the entry, with interrupts enabled, on the new stack, with the return address \<open>panic_on_return\<close> and the argument in the
  places where the calling convention has them.\<close>
theorem new_context_starts:
  assumes made: "kcontext por st en entry arg m = (ctx, m')"
    and stack: "ld32 (mmem u) (en - 8) = ld32 m' (en - 8)" "ld32 (mmem u) (en - 4) = ld32 m' (en - 4)"
    and later: "trap (irq_stub n (hw_interrupt n err t)) = (tf, t1)" "irq_save fr tf t1 = (ev, t2)"
      "f ev fr t2 = (q, u)" "q \<noteq> 0"
    and kept: "load_context (mmem u) q = ctx" "off_stack ctx q"
  shows "\<exists>r. interrupt (Some f) fr n err t = Some r \<and> r_eip r = entry \<and> r_esp r = en - 8 \<and>
    ld32 (mmem r) (r_esp r) = por \<and> ld32 (mmem r) (r_esp r + 4) = arg \<and> r_eflags r = FL_IF \<and> \<not> user_mode r"
proof -
  have e: "c_esp0 ctx = en - 8" "c_eip ctx = entry" "c_eflags ctx = FL_IF" "c_cs ctx = KSEL 1"
    and m': "m' = st_words (st_words m st (context_words ctx)) (en - 8) [por, arg]"
    using made by (auto simp: kcontext_def Let_def FL_IF_def)
  have w: "ld32 m' (en - 8) = por" "ld32 m' (en - 4) = arg"
    using st_words_read [of 0 "[por, arg]" _ "en - 8"] st_words_read [of 1 "[por, arg]" _ "en - 8"]
    unfolding m' by (simp_all add: algebra_simps)
  have k: "KSEL 1 AND DPL_USER = 0" by (simp add: KSEL_def DPL_USER_def)
  note r = return_runs [OF kept]
  have keep: "ld32 (mmem (return_to q u)) a = ld32 (mmem u) a" if "a = en - 8 \<or> a = en - 4" for a
  proof (rule ld32_cong, rule r(2))
    fix x assume x: "in_range a 4 x"
    show "\<not> in_range (c_esp0 ctx - 60) 60 x"
      using that x in_range_base [of "en - 68" 60 "en - 8" 4 x] in_range_base [of "en - 68" 64 "en - 4" 4 x]
      by (auto simp: e in_range_def)
  qed
  have "interrupt (Some f) fr n err t = Some (return_to q u)"
    using later by (simp add: interrupt_def irq_handle_def)
  moreover have "r_esp (return_to q u) = en - 8" "r_eip (return_to q u) = entry" "r_eflags (return_to q u) = FL_IF"
    "r_cs (return_to q u) = KSEL 1"
    using r(1) k by (simp_all add: runs_def e)
  ultimately show ?thesis using keep [of "en - 8"] keep [of "en - 4"] stack w k by (simp add: user_mode_def)
qed

definition demo_image :: "cpu_context \<times> mem" where
  "demo_image = kcontext 0x5000 0x30000 0x32000 0x123450 42 (\<lambda>_. 0)"

definition demo_switch :: user_handler where
  "demo_switch ev p s = (0x40000, s\<lparr>mmem := st_words (snd demo_image) 0x40000 (context_words (fst demo_image))\<rparr>)"

theorem new_context_starts_witness:
  "\<exists>r. interrupt (Some demo_switch) 0x10000 32 0 demo_machine = Some r \<and> r_eip r = 0x123450 \<and>
    ld32 (mmem r) (r_esp r + 4) = 42"
proof -
  obtain ctx m' where i: "demo_image = (ctx, m')" by fastforce
  then have k: "kcontext 0x5000 0x30000 0x32000 0x123450 42 (\<lambda>_. 0) = (ctx, m')" by (simp add: demo_image_def)
  let ?u = "st_words m' 0x40000 (context_words ctx)"
  have s: "ld32 ?u a = ld32 m' a" if "a \<in> {0x31ff8, 0x31ffc}" for a
  proof (rule ld32_cong, rule st_words_outside)
    fix x assume "in_range a 4 x"
    then show "\<not> in_range 0x40000 (4 * length (context_words ctx)) x"
      using that by (auto simp: in_range_iff context_words_def)
  qed (simp add: context_words_def)
  obtain tf s1 where a: "trap (irq_stub 32 (hw_interrupt 32 0 demo_machine)) = (tf, s1)" by fastforce
  obtain ev s2 where b: "irq_save 0x10000 tf s1 = (ev, s2)" by fastforce
  have f: "demo_switch ev 0x10000 s2 = (0x40000, s2\<lparr>mmem := ?u\<rparr>)" by (simp add: demo_switch_def i)
  have "c_esp0 ctx = 0x31ff8" using k by (auto simp: kcontext_def Let_def)
  then have o: "off_stack ctx 0x40000" by (simp add: off_stack_def)
  show ?thesis
    using new_context_starts [where f = demo_switch, OF k _ _ a b f _ _ o] s load_store_context [of m' "0x40000" ctx] by auto
qed

text \<open>The processor pushes an error code for an alignment check, the common stub pushes another: the
  frame is displaced, and the error code is taken for the interrupted address.\<close>

lemma alignment_check_displaced:
  assumes "trap (irq_stub 17 (hw_interrupt 17 err s)) = (tf, s1)"
  shows "tf_eip (load_frame (mmem s1) tf) = err"
proof -
  have "irq_stub 17 (hw_interrupt 17 err s) = pile (hw_words s @ [err, 0, -1]) (on_kernel_stack s)
     \<lparr>r_cs := KSEL 1, r_eflags := r_eflags s AND NOT FL_IF\<rparr>"
    by (simp add: irq_stub_def hw_run Let_def error_code_vectors_def IRQS_def push_pile pile_pile) (simp add: on_kernel_stack_def)
  note t = assms [unfolded this stub_trap_run]
  define k where "k = on_kernel_stack s"
  define ws where "ws = (hw_words s @ [err, 0, -1]) @ trap_words k (r_esp k - 4 * of_nat (length (hw_words s @ [err, 0, -1 :: u32]))) @ [tf]"
  have l: "length ws = length (hw_words s) + 14" "length (hw_words s) \<le> 5" by (simp_all add: ws_def trap_words_def hw_words_def)
  have m: "mmem s1 = pushes (mmem k) (r_esp k) ws" and tf: "tf = r_esp k - 4 * of_nat (length ws) + 4"
    using t l(1) by (auto simp: k_def ws_def algebra_simps)
  have "ld32 (mmem s1) (r_esp k - 4 * of_nat (length ws) + 4 * of_nat 13) = rev ws ! 13"
    unfolding m by (rule pushes_read) (use l in simp_all)
  moreover have "r_esp k - 4 * of_nat (length ws) + 4 * of_nat 13 = tf + 48" by (subst tf) simp
  moreover have "rev ws ! 13 = err" by (simp add: ws_def trap_words_def)
  ultimately have "ld32 (mmem s1) (tf + 48) = err" by metis
  then show ?thesis by (simp add: load_frame_def)
qed
end
