(* ===== verification/Loader.thy ===== *)
theory Loader
  imports KMem "HOL-Library.Signed_Division"
begin

text \<open>
  The boot loader (\<open>am/src/x86/qemu/boot/main.c\<close>): reading sectors from the disk through the ports
  of the disk controller, and loading the segments of the kernel's ELF image. The controller is modelled by
  the documented behaviour of its registers (28-bit block addresses, programmed input): writing the command
  0x20 makes the 128 words of the addressed sector available. \<open>polls\<close> are the values that the reads of
  the status register return; when there are no more the processor is still waiting, which is \<open>None\<close>.
  \<open>disk n\<close> is byte \<open>n\<close> of the disk.
\<close>

unbundle bit_operations_syntax

section \<open>State\<close>

record loader =
  lmem :: mem
  disk :: "nat \<Rightarrow> u8"
  polls :: "u8 list"
  port_count :: u8
  port_lba0 :: u8
  port_lba1 :: u8
  port_lba2 :: u8
  port_lba3 :: u8
  fifo :: "u32 list"

definition SECTSIZE :: int where "SECTSIZE = 512"

section \<open>The controller\<close>

definition lba :: "loader \<Rightarrow> nat" where
  "lba s = unat (port_lba0 s) + 256 * unat (port_lba1 s) + 65536 * unat (port_lba2 s) +
     16777216 * unat (port_lba3 s AND 0xf)"

definition disk_word :: "(nat \<Rightarrow> u8) \<Rightarrow> nat \<Rightarrow> u32" where
  "disk_word d n = un_le32 [d n, d (n + 1), d (n + 2), d (n + 3)]"

definition sector_words :: "(nat \<Rightarrow> u8) \<Rightarrow> nat \<Rightarrow> u32 list" where
  "sector_words d n = map (\<lambda>i. disk_word d (512 * n + 4 * i)) [0..<128]"

definition out_byte :: "nat \<Rightarrow> u8 \<Rightarrow> loader \<Rightarrow> loader" where
  "out_byte port v s =
     (if port = 0x1F2 then s\<lparr>port_count := v\<rparr>
      else if port = 0x1F3 then s\<lparr>port_lba0 := v\<rparr>
      else if port = 0x1F4 then s\<lparr>port_lba1 := v\<rparr>
      else if port = 0x1F5 then s\<lparr>port_lba2 := v\<rparr>
      else if port = 0x1F6 then s\<lparr>port_lba3 := v\<rparr>
      else if port = 0x1F7 \<and> v = 0x20
        then s\<lparr>fifo := concat (map (\<lambda>k. sector_words (disk s) (lba s + k)) [0..<unat (port_count s)])\<rparr>
      else s)"

definition in_long :: "loader \<Rightarrow> (u32 \<times> loader) option" where
  "in_long s = (case fifo s of [] \<Rightarrow> None | w # ws \<Rightarrow> Some (w, s\<lparr>fifo := ws\<rparr>))"

section \<open>Sectors\<close>

fun wait_ready :: "u8 list \<Rightarrow> u8 list option" where
  "wait_ready [] = None"
| "wait_ready (p # ps) = (if p AND 0xC0 \<noteq> 0x40 then wait_ready ps else Some ps)"

definition waitdisk :: "loader \<Rightarrow> loader option" where
  "waitdisk s = do { ps \<leftarrow> wait_ready (polls s); Some (s\<lparr>polls := ps\<rparr>) }"

fun read_words :: "nat \<Rightarrow> u32 \<Rightarrow> loader \<Rightarrow> loader option" where
  "read_words 0 a s = Some s"
| "read_words (Suc n) a s = do {
     (w, s) \<leftarrow> in_long s;
     read_words n (a + 4) (s\<lparr>lmem := st32 (lmem s) a w\<rparr>) }"

definition readsect :: "u32 \<Rightarrow> int \<Rightarrow> loader \<Rightarrow> loader option" where
  "readsect dst offset s = do {
     s \<leftarrow> waitdisk s;
     let s = out_byte 0x1F2 1 s;
     let s = out_byte 0x1F3 (word_of_int offset) s;
     let s = out_byte 0x1F4 (word_of_int (drop_bit 8 offset)) s;
     let s = out_byte 0x1F5 (word_of_int (drop_bit 16 offset)) s;
     let s = out_byte 0x1F6 (word_of_int (drop_bit 24 offset OR 0xE0)) s;
     let s = out_byte 0x1F7 0x20 s;
     s \<leftarrow> waitdisk s;
     read_words (nat (SECTSIZE div 4)) dst s }"

partial_function (option) readseg_loop :: "u32 \<Rightarrow> u32 \<Rightarrow> int \<Rightarrow> loader \<Rightarrow> loader option" where
  "readseg_loop pa epa offset s =
     (if pa < epa then do {
        s \<leftarrow> readsect pa offset s;
        readseg_loop (pa + 512) epa (offset + 1) s }
      else Some s)"

definition readseg :: "u32 \<Rightarrow> int \<Rightarrow> int \<Rightarrow> loader \<Rightarrow> loader option" where
  "readseg pa count offset s =
     (let epa = pa + word_of_int count;
          pa = pa - word_of_int (offset smod SECTSIZE);
          offset = offset sdiv SECTSIZE + 1
      in readseg_loop pa epa offset s)"

section \<open>The image\<close>

definition ld16 :: "mem \<Rightarrow> u32 \<Rightarrow> u32" where
  "ld16 m a = ucast (m a) OR push_bit 8 (ucast (m (a + 1)))"

record program_header =
  ph_off :: u32
  ph_paddr :: u32
  ph_filesz :: u32
  ph_memsz :: u32

definition program_header_at :: "mem \<Rightarrow> u32 \<Rightarrow> program_header" where
  "program_header_at m p = \<lparr>ph_off = ld32 m (p + 4), ph_paddr = ld32 m (p + 12), ph_filesz = ld32 m (p + 16),
     ph_memsz = ld32 m (p + 20)\<rparr>"

text \<open>The end of the loop is read from the program header in every round.\<close>

partial_function (option) zero_loop :: "u32 \<Rightarrow> u32 \<Rightarrow> u32 \<Rightarrow> mem \<Rightarrow> mem option" where
  "zero_loop ph pa i m =
     (if i < pa + ph_memsz (program_header_at m ph) then zero_loop ph pa (i + 1) (m(i := 0)) else Some m)"

definition load_segment :: "u32 \<Rightarrow> loader \<Rightarrow> loader option" where
  "load_segment ph s = do {
     let h = program_header_at (lmem s) ph;
     let pa = ph_paddr h;
     s \<leftarrow> readseg pa (sint (ph_filesz h)) (sint (ph_off h)) s;
     m \<leftarrow> zero_loop ph pa (pa + ph_filesz (program_header_at (lmem s) ph)) (lmem s);
     Some (s\<lparr>lmem := m\<rparr>) }"

partial_function (option) load_segments :: "u32 \<Rightarrow> u32 \<Rightarrow> loader \<Rightarrow> loader option" where
  "load_segments ph eph s =
     (if ph < eph then do { s \<leftarrow> load_segment ph s; load_segments (ph + 32) eph s } else Some s)"

datatype jump = To_ap u32 | To_kernel u32

definition bootmain :: "loader \<Rightarrow> (jump \<times> loader) option" where
  "bootmain s =
     (if ld32 (lmem s) 0x7000 = 1 then Some (To_ap (ld32 (lmem s) 0x7004), s)
      else do {
        let elf = 0x8000;
        s \<leftarrow> readseg elf 4096 0 s;
        let ph = elf + ld32 (lmem s) (elf + 28);
        let eph = ph + 32 * ld16 (lmem s) (elf + 44);
        s \<leftarrow> load_segments ph eph s;
        Some (To_kernel (ld32 (lmem s) (elf + 24)), s) })"

end
