(* ===== verification/LoaderProps.thy ===== *)
theory LoaderProps
  imports Loader
begin

text \<open>
  Correctness of the boot loader: a run of sectors is copied byte by byte, and an image whose segments fit is in
  memory as its program headers say when the kernel is entered.
\<close>

unbundle bit_operations_syntax

section \<open>Bytes placed in memory\<close>

definition place :: "mem \<Rightarrow> nat \<Rightarrow> nat \<Rightarrow> (nat \<Rightarrow> u8) \<Rightarrow> mem" where
  "place m lo n f = (\<lambda>x. if lo \<le> unat x \<and> unat x < lo + n then f (unat x - lo) else m x)"

lemma place_0 [simp]: "place m lo 0 f = m"
  by (auto simp: place_def fun_eq_iff)

lemma place_place: "place (place m lo n f) (lo + n) k g = place m lo (n + k) (\<lambda>i. if i < n then f i else g (i - n))"
  by (auto simp: place_def fun_eq_iff)

lemma place_cong: "(\<And>i. i < n \<Longrightarrow> f i = g i) \<Longrightarrow> place m lo n f = place m lo n g"
  by (auto simp: place_def fun_eq_iff)

lemma not_bit_u8 [simp]: "\<not> bit (w :: u8) (8 + n)" "\<not> bit w (16 + n)" "\<not> bit w (24 + n)"
  using bit_imp_le_length [of w] by fastforce+

lemma le32_un_le32: "le32 (un_le32 [a, b, c, d]) = [a, b, c, d]"
  unfolding le32_def un_le32_def by (auto intro!: bit_eqI simp: bit_simps)

lemma st32_place:
  assumes "unat a + 4 \<le> 2 ^ 32"
  shows "st32 m a w = place m (unat a) 4 (\<lambda>k. le32 w ! k)"
proof
  fix x
  show "st32 m a w x = place m (unat a) 4 (\<lambda>k. le32 w ! k) x"
  proof (cases "in_range a 4 x")
    case True
    then have "unat a \<le> unat x \<and> unat x < unat a + 4" using in_range_iff [OF assms] by simp
    moreover have "unat (x - a) = unat x - unat a" using calculation by (simp add: unat_sub_if')
    moreover have "unat (x - a) = 0 \<and> x = a \<or> unat (x - a) = 1 \<and> x = a + 1 \<or> unat (x - a) = 2 \<and> x = a + 2 \<or>
        unat (x - a) = 3 \<and> x = a + 3"
      using True by (auto simp: in_range_cases_4)
    ultimately show ?thesis by (auto simp: place_def st32_def)
  next
    case False
    then show ?thesis using in_range_iff [OF assms, of x] by (auto simp: place_def st32_outside)
  qed
qed

lemma read_words_place:
  "n = length ws \<Longrightarrow> unat a + 4 * n < 2 ^ 32 \<Longrightarrow> fifo s = ws @ rest \<Longrightarrow>
   read_words n a s = Some (s\<lparr>lmem := place (lmem s) (unat a) (4 * n) (\<lambda>k. le32 (ws ! (k div 4)) ! (k mod 4)), fifo := rest\<rparr>)"
proof (induction ws arbitrary: n a s)
  case (Cons w ws)
  let ?s = "s\<lparr>fifo := ws @ rest, lmem := st32 (lmem s) a w\<rparr>"
  have u: "unat (a + 4) = unat a + 4" using unat_add_of_nat [of a 4] Cons.prems by simp
  have "read_words n a s = read_words (length ws) (a + 4) ?s"
    using Cons.prems by (simp add: in_long_def)
  also have "\<dots> = Some (?s\<lparr>lmem := place (st32 (lmem s) a w) (unat a + 4) (4 * length ws) (\<lambda>k. le32 (ws ! (k div 4)) ! (k mod 4)),
      fifo := rest\<rparr>)"
    using Cons.IH [of "length ws" "a + 4" ?s] Cons.prems u by simp
  also have "place (st32 (lmem s) a w) (unat a + 4) (4 * length ws) (\<lambda>k. le32 (ws ! (k div 4)) ! (k mod 4)) =
      place (lmem s) (unat a) (4 * n) (\<lambda>k. le32 ((w # ws) ! (k div 4)) ! (k mod 4))"
    using Cons.prems(1,2) st32_place [of a "lmem s" w]
    by (auto simp: place_place intro!: place_cong) (auto simp: le_div_geq le_mod_geq)
  finally show ?case by simp
qed simp


section \<open>Sectors\<close>

text \<open>The number of times that the controller will report that it is ready.\<close>

definition ready :: "loader \<Rightarrow> nat" where
  "ready s = length (filter (\<lambda>p. p AND 0xC0 = 0x40) (polls s))"

lemma wait_ready_run:
  "0 < length (filter (\<lambda>p. p AND 0xC0 = 0x40) ps) \<Longrightarrow>
   \<exists>ps'. wait_ready ps = Some ps' \<and>
     length (filter (\<lambda>p. p AND 0xC0 = 0x40) ps) = Suc (length (filter (\<lambda>p. p AND 0xC0 = 0x40) ps'))"
  by (induction ps) auto

lemma waitdisk_run:
  assumes "0 < ready s"
  shows "\<exists>ps. waitdisk s = Some (s\<lparr>polls := ps\<rparr>) \<and> ready s = Suc (ready (s\<lparr>polls := ps\<rparr>))"
  using wait_ready_run [of "polls s"] assms by (auto simp: waitdisk_def ready_def)

lemma unat_byte: "unat (word_of_int (int n) :: u8) = n mod 256"
  by (simp add: unat_of_nat take_bit_eq_mod)

lemma digits:
  "(n :: nat) = r + 256 * a \<Longrightarrow> a = q + 256 * b \<Longrightarrow> b = p + 256 * c \<Longrightarrow> r + 256 * q + 65536 * p + 16777216 * c = n"
  by simp

lemma lba_ports:
  assumes "n < 2 ^ 28"
  shows "lba (s\<lparr>port_lba0 := word_of_int (int n), port_lba1 := word_of_int (drop_bit 8 (int n)),
    port_lba2 := word_of_int (drop_bit 16 (int n)), port_lba3 := word_of_int (drop_bit 24 (int n) OR 0xE0)\<rparr>) = n"
proof -
  have d: "drop_bit k (int n) = int (n div 2 ^ k)" for k by (simp add: drop_bit_eq_div zdiv_int)
  have "(word_of_int (drop_bit 24 (int n) OR 0xE0) :: u8) AND 0xF = word_of_int (drop_bit 24 (int n)) AND 0xF"
    by (simp add: of_int_or_eq bit.conj_disj_distrib2)
  also have "unat \<dots> = n div 2 ^ 24"
  proof -
    have "(word_of_int (drop_bit 24 (int n)) AND 0xF :: u8) = take_bit 4 (word_of_int (int (n div 2 ^ 24)))"
      by (simp add: take_bit_eq_mask mask_numeral d)
    then show ?thesis using assms by (simp add: unsigned_take_bit_eq unat_byte take_bit_eq_mod unat_mod unat_of_nat)
  qed
  finally have "unat ((word_of_int (drop_bit 24 (int n) OR 0xE0) :: u8) AND 0xF) = n div 2 ^ 24" .
  moreover have "n mod 256 + 256 * (n div 256 mod 256) + 65536 * (n div 65536 mod 256) + 16777216 * (n div 16777216) = n"
  proof -
    have "n div 65536 = n div 256 div 256" "n div 16777216 = n div 256 div 256 div 256"
      by (simp_all add: div_mult2_eq [symmetric])
    then show ?thesis
      using digits [of n "n mod 256" "n div 256" "n div 256 mod 256" "n div 256 div 256" "n div 256 div 256 mod 256"
        "n div 256 div 256 div 256"] by simp
  qed
  ultimately show ?thesis
    by (simp add: lba_def d unat_byte unat_of_nat take_bit_eq_mod)
qed

lemma disk_word_byte: "r < 4 \<Longrightarrow> le32 (disk_word d b) ! r = d (b + r)"
  by (auto simp: disk_word_def le32_un_le32 less_Suc_eq numeral_eq_Suc)

lemma sector_words_byte:
  assumes "k < 512"
  shows "le32 (sector_words d n ! (k div 4)) ! (k mod 4) = d (512 * n + k)"
proof -
  have "sector_words d n ! (k div 4) = disk_word d (512 * n + 4 * (k div 4))"
    using assms nth_upt [of 0 "k div 4" 128] by (simp add: sector_words_def less_mult_imp_div_less del: nth_upt)
  then show ?thesis using disk_word_byte [of "k mod 4" d "512 * n + 4 * (k div 4)"] by (simp add: add.assoc)
qed

lemma readsect_run:
  assumes "n < 2 ^ 28" "unat dst + 512 < 2 ^ 32" "2 \<le> ready s"
  shows "\<exists>s'. readsect dst (int n) s = Some s' \<and> lmem s' = place (lmem s) (unat dst) 512 (\<lambda>k. disk s (512 * n + k)) \<and>
    disk s' = disk s \<and> ready s = ready s' + 2"
proof -
  obtain ps where w: "waitdisk s = Some (s\<lparr>polls := ps\<rparr>)" "ready s = Suc (ready (s\<lparr>polls := ps\<rparr>))"
    using waitdisk_run [of s] assms(3) by auto
  let ?s = "s\<lparr>polls := ps, port_count := 1, port_lba0 := word_of_int (int n), port_lba1 := word_of_int (drop_bit 8 (int n)),
    port_lba2 := word_of_int (drop_bit 16 (int n)), port_lba3 := word_of_int (drop_bit 24 (int n) OR 0xE0)\<rparr>"
  let ?t = "?s\<lparr>fifo := sector_words (disk s) n\<rparr>"
  have l: "lba ?s = n" using lba_ports [OF assms(1), of "s\<lparr>polls := ps, port_count := 1\<rparr>"] by simp
  have "ready ?t = ready (s\<lparr>polls := ps\<rparr>)" by (simp add: ready_def)
  then obtain qs where v: "waitdisk ?t = Some (?t\<lparr>polls := qs\<rparr>)" "ready ?t = Suc (ready (?t\<lparr>polls := qs\<rparr>))"
    using waitdisk_run [of ?t] assms(3) w(2) by auto
  have f: "place m lo 512 (\<lambda>k. le32 (sector_words (disk s) n ! (k div 4)) ! (k mod 4)) =
      place m lo 512 (\<lambda>k. disk s (512 * n + k))" for m lo
    by (rule place_cong) (rule sector_words_byte)
  have r: "read_words 128 dst (?t\<lparr>polls := qs\<rparr>) = Some (?t\<lparr>polls := qs, lmem := place (lmem s) (unat dst) 512
      (\<lambda>k. disk s (512 * n + k)), fifo := []\<rparr>)"
    using read_words_place [of 128 "sector_words (disk s) n" dst "?t\<lparr>polls := qs\<rparr>" "[]"] assms(2)
    by (simp add: f) (simp add: sector_words_def)
  show ?thesis
    using w v r l by (auto simp: readsect_def out_byte_def SECTSIZE_def ready_def)
qed

section \<open>Runs of sectors\<close>

lemma readseg_loop_run:
  "unat epa \<le> unat pa + 512 * k \<Longrightarrow> unat pa + 512 * k < unat epa + 512 \<Longrightarrow> unat pa + 512 * k < 2 ^ 32 \<Longrightarrow>
   n + k \<le> 2 ^ 28 \<Longrightarrow> 2 * k \<le> ready s \<Longrightarrow>
   \<exists>s'. readseg_loop pa epa (int n) s = Some s' \<and> lmem s' = place (lmem s) (unat pa) (512 * k) (\<lambda>i. disk s (512 * n + i)) \<and>
     disk s' = disk s \<and> ready s = ready s' + 2 * k"
proof (induction k arbitrary: pa n s)
  case 0
  then have "\<not> pa < epa" by (simp add: word_less_nat_alt)
  then show ?case by (simp add: readseg_loop.simps)
next
  case (Suc k)
  have l: "pa < epa" using Suc.prems(2) by (simp add: word_less_nat_alt)
  have u: "unat (pa + 512) = unat pa + 512" using unat_add_of_nat [of pa 512] Suc.prems(3) by simp
  obtain s1 where s1: "readsect pa (int n) s = Some s1"
    "lmem s1 = place (lmem s) (unat pa) 512 (\<lambda>k. disk s (512 * n + k))" "disk s1 = disk s" "ready s = ready s1 + 2"
    using readsect_run [of n pa s] Suc.prems by auto
  have "\<exists>s'. readseg_loop (pa + 512) epa (int (Suc n)) s1 = Some s' \<and>
      lmem s' = place (lmem s1) (unat (pa + 512)) (512 * k) (\<lambda>i. disk s1 (512 * Suc n + i)) \<and>
      disk s' = disk s1 \<and> ready s1 = ready s' + 2 * k"
    by (rule Suc.IH) (use Suc.prems u s1(4) in simp_all)
  then obtain s' where s': "readseg_loop (pa + 512) epa (int (Suc n)) s1 = Some s'"
    "lmem s' = place (lmem s1) (unat pa + 512) (512 * k) (\<lambda>i. disk s (512 * Suc n + i))"
    "disk s' = disk s" "ready s1 = ready s' + 2 * k"
    using u s1(3) by auto
  have "readseg_loop pa epa (int n) s = Some s'"
    using l s1(1) s'(1) by (subst readseg_loop.simps) (simp add: add.commute)
  moreover have "lmem s' = place (lmem s) (unat pa) (512 * Suc k) (\<lambda>i. disk s (512 * n + i))"
    unfolding s'(2) s1(2) place_place by (simp add: place_def fun_eq_iff)
  ultimately show ?case using s' s1 by simp
qed

definition sectors :: "nat \<Rightarrow> nat \<Rightarrow> nat" where
  "sectors off sz = (off mod 512 + sz + 511) div 512"

lemma readseg_run:
  assumes "off mod 512 \<le> unat pa" "unat pa - off mod 512 + 512 * sectors off sz < 2 ^ 32"
    "off + sz < 2 ^ 31" "2 * sectors off sz \<le> ready s"
  shows "\<exists>s'. readseg pa (int sz) (int off) s = Some s' \<and>
    lmem s' = place (lmem s) (unat pa - off mod 512) (512 * sectors off sz) (\<lambda>i. disk s (512 * (off div 512 + 1) + i)) \<and>
    disk s' = disk s \<and> ready s = ready s' + 2 * sectors off sz"
proof -
  let ?k = "sectors off sz" and ?lo = "unat pa - off mod 512"
  have k: "off mod 512 + sz \<le> 512 * ?k" "512 * ?k < off mod 512 + sz + 512" unfolding sectors_def by simp_all
  have m: "int off smod 512 = int (off mod 512)" "int off sdiv 512 = int (off div 512)"
    by (cases "off = 0"; simp add: signed_modulo_int_def signed_divide_int_def zdiv_int zmod_int)+
  have lo: "unat (pa - of_nat (off mod 512)) = ?lo"
    using assms(1) unat_of_nat32 [of "off mod 512"] by (simp add: unat_sub_if')
  have hi: "unat (pa + of_nat sz) = unat pa + sz"
    using assms k unat_add_of_nat [of pa sz] by simp
  have "off div 512 + 1 + ?k \<le> 2 ^ 28"
  proof -
    have "512 * (off div 512) + off mod 512 = off" "(2 :: nat) ^ 31 = 2147483648" "(2 :: nat) ^ 28 = 268435456" by simp_all
    then show ?thesis using assms(3) k by linarith
  qed
  then have "\<exists>s'. readseg_loop (pa - word_of_int (int (off mod 512))) (pa + word_of_int (int sz)) (int (off div 512 + 1)) s = Some s' \<and>
     lmem s' = place (lmem s) (unat (pa - word_of_int (int (off mod 512)))) (512 * ?k) (\<lambda>i. disk s (512 * (off div 512 + 1) + i)) \<and>
     disk s' = disk s \<and> ready s = ready s' + 2 * ?k"
    using assms k by (intro readseg_loop_run) (auto simp: lo hi)
  then show ?thesis by (simp add: readseg_def SECTSIZE_def m lo Let_def add.commute)
qed

lemma zero_loop_run:
  "unat i + n = unat pa + unat z \<Longrightarrow> unat pa + unat z < 2 ^ 32 \<Longrightarrow> ph_memsz (program_header_at m ph) = z \<Longrightarrow>
   apart i n (ph + 20) 4 \<Longrightarrow> zero_loop ph pa i m = Some (place m (unat i) n (\<lambda>_. 0))"
proof (induction n arbitrary: i m)
  case 0
  then have "\<not> i < pa + z" using unat_add_of_nat [of pa "unat z"] by (simp add: word_less_nat_alt)
  then show ?case using 0 by (simp add: zero_loop.simps)
next
  case (Suc n)
  have l: "i < pa + z" using Suc.prems(1,2) unat_add_of_nat [of pa "unat z"] by (simp add: word_less_nat_alt)
  have u: "unat (i + 1) = unat i + 1" using unat_add_1 [of i] Suc.prems(1,2) by simp
  have a: "apart i 1 (ph + 20) 4" "apart (i + 1) n (ph + 20) 4" using Suc.prems(4) u by (auto simp: apart_def)
  have "ld32 (m(i := 0)) (ph + 20) = ld32 m (ph + 20)"
    by (rule ld32_outside [OF _ a(1)]) (auto simp: in_range_def)
  then have "ph_memsz (program_header_at (m(i := 0)) ph) = z"
    using Suc.prems(3) by (simp add: program_header_at_def)
  then have z: "zero_loop ph pa (i + 1) (m(i := 0)) = Some (place (m(i := 0)) (unat (i + 1)) n (\<lambda>_. 0))"
    using Suc.prems(1,2) u a(2) by (intro Suc.IH) (simp_all del: fun_upd_apply)
  have ne: "unat x \<noteq> unat i" if "x \<noteq> i" for x
  proof
    assume "unat x = unat i"
    then have "of_nat (unat x) = (of_nat (unat i) :: u32)" by simp
    then show False using that by simp
  qed
  have "place (m(i := 0)) (unat (i + 1)) n (\<lambda>_. 0) = place m (unat i) (Suc n) (\<lambda>_. 0)"
    unfolding u by (rule ext) (use ne in \<open>fastforce simp: place_def\<close>)
  with z show ?case using l Suc.prems(3) by (subst zero_loop.simps) simp
qed

section \<open>The image\<close>

text \<open>The program header at byte \<open>n\<close> of the image, which starts in sector 1, the bytes that loading its
  segment may write, and the demands on it: the file's part is inside of the memory's, the
  segment does not reach the ELF header at 0x8000, and nothing wraps around.\<close>

definition disk_header :: "(nat \<Rightarrow> u8) \<Rightarrow> nat \<Rightarrow> program_header" where
  "disk_header d n = \<lparr>ph_off = disk_word d (512 + n + 4), ph_paddr = disk_word d (512 + n + 12),
     ph_filesz = disk_word d (512 + n + 16), ph_memsz = disk_word d (512 + n + 20)\<rparr>"

definition seg_sectors :: "program_header \<Rightarrow> nat" where
  "seg_sectors h = sectors (unat (ph_off h)) (unat (ph_filesz h))"

definition seg_lo :: "program_header \<Rightarrow> nat" where
  "seg_lo h = unat (ph_paddr h) - unat (ph_off h) mod 512"

definition seg_hi :: "program_header \<Rightarrow> nat" where
  "seg_hi h = max (seg_lo h + 512 * seg_sectors h) (unat (ph_paddr h) + unat (ph_memsz h))"

definition seg_fits :: "program_header \<Rightarrow> bool" where
  "seg_fits h \<longleftrightarrow> ph_filesz h \<le> ph_memsz h \<and> unat (ph_off h) + unat (ph_filesz h) < 2 ^ 31 \<and>
     0x9000 + unat (ph_off h) mod 512 \<le> unat (ph_paddr h) \<and> seg_hi h < 2 ^ 32"

definition loaded :: "mem \<Rightarrow> (nat \<Rightarrow> u8) \<Rightarrow> program_header \<Rightarrow> bool" where
  "loaded m d h \<longleftrightarrow> (\<forall>x. unat (ph_paddr h) \<le> unat x \<and> unat x < unat (ph_paddr h) + unat (ph_memsz h) \<longrightarrow>
     m x = (let k = unat x - unat (ph_paddr h)
            in if k < unat (ph_filesz h) then d (512 + unat (ph_off h) + k) else 0))"

definition header_kept :: "mem \<Rightarrow> (nat \<Rightarrow> u8) \<Rightarrow> bool" where
  "header_kept m d \<longleftrightarrow> (\<forall>x. 0x8000 \<le> unat x \<and> unat x < 0x9000 \<longrightarrow> m x = d (512 + (unat x - 0x8000)))"

lemma header_word:
  assumes "header_kept m d" "n + 4 \<le> 4096"
  shows "ld32 m (0x8000 + of_nat n) = disk_word d (512 + n)"
proof -
  have "m (0x8000 + of_nat n + of_nat k) = d (512 + n + k)" if "k < 4" for k
  proof -
    have "unat (0x8000 + of_nat (n + k) :: u32) = 0x8000 + (n + k)"
      using unat_add_of_nat [of "0x8000" "n + k"] assms(2) that by simp
    then show ?thesis using assms that by (simp add: header_kept_def algebra_simps)
  qed
  from this [of 0] this [of 1] this [of 2] this [of 3] show ?thesis by (simp add: ld32_def disk_word_def)
qed

lemma header_at:
  assumes "header_kept m d" "n + 32 \<le> 4096"
  shows "program_header_at m (0x8000 + of_nat n) = disk_header d n"
  using header_word [OF assms(1), of "n + 4"] header_word [OF assms(1), of "n + 12"] header_word [OF assms(1), of "n + 16"]
    header_word [OF assms(1), of "n + 20"] assms(2)
  by (simp add: program_header_at_def disk_header_def algebra_simps)

lemma header_kept_place: "header_kept m d \<Longrightarrow> 0x9000 \<le> lo \<Longrightarrow> header_kept (place m lo n f) d"
  by (simp add: header_kept_def place_def)

lemma sector_shift: "r \<le> p \<Longrightarrow> p \<le> y \<Longrightarrow> 512 * q + r = e \<Longrightarrow> 512 * (q + 1) + (y - (p - r)) = 512 + e + (y - (p :: nat))"
  by simp

lemma sint_nonneg: "unat (w :: u32) < 2 ^ 31 \<Longrightarrow> sint w = int (unat w)"
proof -
  assume "unat w < 2 ^ 31"
  then have "int (unat w) < int (2 ^ 31)" by (simp only: of_nat_less_iff)
  then have "uint w < 2147483648" by simp
  moreover have "0 \<le> uint w" by simp
  ultimately have "- 2147483648 \<le> uint w \<and> uint w < 2147483648" by linarith
  then show ?thesis by (simp add: sint_uint signed_take_bit_int_eq_self_iff)
qed

lemma load_segment_run:
  assumes kept: "header_kept (lmem s) (disk s)" and n: "n + 32 \<le> 4096" and h: "h = disk_header (disk s) n"
    and fits: "seg_fits h" and r: "2 * seg_sectors h \<le> ready s"
  shows "\<exists>s'. load_segment (0x8000 + of_nat n) s = Some s' \<and> header_kept (lmem s') (disk s) \<and> disk s' = disk s \<and>
    ready s = ready s' + 2 * seg_sectors h \<and> loaded (lmem s') (disk s) h \<and>
    (\<forall>x. unat x < seg_lo h \<or> seg_hi h \<le> unat x \<longrightarrow> lmem s' x = lmem s x)"
proof -
  let ?pa = "ph_paddr h" and ?fs = "unat (ph_filesz h)" and ?ms = "unat (ph_memsz h)" and ?off = "unat (ph_off h)"
  have f: "?fs \<le> ?ms" "?off + ?fs < 2 ^ 31" "0x9000 + ?off mod 512 \<le> unat ?pa" "seg_hi h < 2 ^ 32"
    using fits by (simp_all add: seg_fits_def word_le_nat_alt)
  have hi: "seg_lo h + 512 * seg_sectors h \<le> seg_hi h" "unat ?pa + ?ms \<le> seg_hi h" by (simp_all add: seg_hi_def)
  have i: "sint (ph_filesz h) = int ?fs" "sint (ph_off h) = int ?off" 
    using f(2) sint_nonneg by simp_all
  obtain s1 where s1: "readseg ?pa (int ?fs) (int ?off) s = Some s1"
    "lmem s1 = place (lmem s) (seg_lo h) (512 * seg_sectors h) (\<lambda>i. disk s (512 * (?off div 512 + 1) + i))"
    "disk s1 = disk s" "ready s = ready s1 + 2 * seg_sectors h"
    using readseg_run [of ?off ?pa ?fs s] f hi r by (auto simp: seg_sectors_def seg_lo_def)
  have lo: "0x9000 \<le> seg_lo h" using f(3) by (simp add: seg_lo_def)
  have k1: "header_kept (lmem s1) (disk s)" unfolding s1(2) by (rule header_kept_place [OF kept lo])
  have p: "program_header_at (lmem s) (0x8000 + of_nat n) = h" "program_header_at (lmem s1) (0x8000 + of_nat n) = h"
    using header_at [OF kept n] header_at [OF k1 n] h by simp_all
  have u: "unat (?pa + ph_filesz h) = unat ?pa + ?fs" using unat_add_of_nat [of ?pa ?fs] f hi by simp
  have a: "unat (0x8000 + of_nat n + 20 :: u32) = 0x8014 + n"
    using unat_add_of_nat [of "0x8000" "n + 20"] n by (simp add: add.assoc [symmetric])
  have z: "zero_loop (0x8000 + of_nat n) ?pa (?pa + ph_filesz h) (lmem s1) =
      Some (place (lmem s1) (unat ?pa + ?fs) (?ms - ?fs) (\<lambda>_. 0))"
    unfolding u [symmetric] by (rule zero_loop_run) (use p u f hi a n in \<open>auto simp: apart_def\<close>)
  let ?m = "place (lmem s1) (unat ?pa + ?fs) (?ms - ?fs) (\<lambda>_. 0)"
  have "load_segment (0x8000 + of_nat n) s = Some (s1\<lparr>lmem := ?m\<rparr>)"
    using s1(1) z p by (simp add: load_segment_def i Let_def)
  moreover have "header_kept ?m (disk s)" by (rule header_kept_place [OF k1]) (use f in simp)
  moreover have "ready (s1\<lparr>lmem := ?m\<rparr>) = ready s1" by (simp add: ready_def)
  moreover have "loaded ?m (disk s) h"
  proof -
    have e: "512 * (?off div 512 + 1) + (y - seg_lo h) = 512 + ?off + (y - unat ?pa)" if "unat ?pa \<le> y" for y
      unfolding seg_lo_def by (rule sector_shift) (use that f(3) in simp_all)
    have "unat ?pa + ?fs \<le> seg_lo h + 512 * seg_sectors h"
      using f(3) unfolding seg_lo_def seg_sectors_def sectors_def by linarith
    then show ?thesis
      using f(1) e unfolding loaded_def s1(2) by (auto simp: place_def Let_def seg_lo_def)
  qed
  moreover have "\<forall>x. unat x < seg_lo h \<or> seg_hi h \<le> unat x \<longrightarrow> ?m x = lmem s x"
    using hi f(1) unfolding s1(2) by (auto simp: place_def seg_lo_def)
  ultimately show ?thesis using s1(3,4) by auto
qed


definition image_phoff :: "(nat \<Rightarrow> u8) \<Rightarrow> nat" where
  "image_phoff d = unat (disk_word d (512 + 28))"

definition image_phnum :: "(nat \<Rightarrow> u8) \<Rightarrow> nat" where
  "image_phnum d = unat (d (512 + 44)) + 256 * unat (d (512 + 45))"

definition image_segments :: "(nat \<Rightarrow> u8) \<Rightarrow> program_header list" where
  "image_segments d = map (\<lambda>i. disk_header d (image_phoff d + 32 * i)) [0..<image_phnum d]"

text \<open>A later segment does not write over an earlier one.\<close>

definition spares :: "program_header \<Rightarrow> program_header \<Rightarrow> bool" where
  "spares h h' \<longleftrightarrow> unat (ph_paddr h) + unat (ph_memsz h) \<le> seg_lo h' \<or> seg_hi h' \<le> unat (ph_paddr h)"

definition image_ok :: "(nat \<Rightarrow> u8) \<Rightarrow> bool" where
  "image_ok d \<longleftrightarrow> image_phoff d + 32 * image_phnum d \<le> 4096 \<and> list_all seg_fits (image_segments d) \<and>
     sorted_wrt spares (image_segments d)"

lemma loaded_kept:
  assumes "loaded m d h" "spares h h'" "\<And>x. unat x < seg_lo h' \<or> seg_hi h' \<le> unat x \<Longrightarrow> m' x = m x"
  shows "loaded m' d h"
  unfolding loaded_def
proof (intro allI impI)
  fix x :: u32 assume x: "unat (ph_paddr h) \<le> unat x \<and> unat x < unat (ph_paddr h) + unat (ph_memsz h)"
  then have "m' x = m x" using assms(2,3) by (auto simp: spares_def)
  then show "m' x = (let k = unat x - unat (ph_paddr h) in if k < unat (ph_filesz h) then d (512 + unat (ph_off h) + k) else 0)"
    using assms(1) x by (simp add: loaded_def)
qed

lemma load_segments_run:
  "b + 32 * n \<le> 4096 \<Longrightarrow> header_kept (lmem s) (disk s) \<Longrightarrow>
   hs = map (\<lambda>i. disk_header (disk s) (b + 32 * i)) [0..<n] \<Longrightarrow> list_all seg_fits hs \<Longrightarrow> sorted_wrt spares hs \<Longrightarrow>
   2 * sum_list (map seg_sectors hs) \<le> ready s \<Longrightarrow> list_all (\<lambda>g. loaded (lmem s) (disk s) g \<and> list_all (spares g) hs) gs \<Longrightarrow>
   \<exists>s'. load_segments (0x8000 + of_nat b) (0x8000 + of_nat (b + 32 * n)) s = Some s' \<and>
     header_kept (lmem s') (disk s) \<and> list_all (loaded (lmem s') (disk s)) (gs @ hs)"
proof (induction n arbitrary: b s hs gs)
  case 0
  then show ?case by (auto simp: load_segments.simps list_all_iff)
next
  case (Suc n)
  let ?h = "disk_header (disk s) b"
  obtain hs' where hs: "hs = ?h # hs'" and hs': "hs' = map (\<lambda>i. disk_header (disk s) (b + 32 + 32 * i)) [0..<n]"
    using Suc.prems(3) by (simp add: map_upt_Suc add.assoc del: upt_Suc)
  obtain s1 where s1: "load_segment (0x8000 + of_nat b) s = Some s1" "header_kept (lmem s1) (disk s)" "disk s1 = disk s"
    "ready s = ready s1 + 2 * seg_sectors ?h" "loaded (lmem s1) (disk s) ?h"
    "\<And>x. unat x < seg_lo ?h \<or> seg_hi ?h \<le> unat x \<Longrightarrow> lmem s1 x = lmem s x"
    using load_segment_run [OF Suc.prems(2) _ refl, of b] Suc.prems(1,4,6) unfolding hs by auto
  have gs: "list_all (\<lambda>g. loaded (lmem s1) (disk s1) g \<and> list_all (spares g) hs') (gs @ [?h])"
    using Suc.prems(5,7) s1(3,5,6) loaded_kept [of "lmem s" "disk s" _ ?h "lmem s1"] unfolding hs by (auto simp: list_all_iff)
  have "\<exists>s'. load_segments (0x8000 + of_nat (b + 32)) (0x8000 + of_nat (b + 32 + 32 * n)) s1 = Some s' \<and>
      header_kept (lmem s') (disk s1) \<and> list_all (loaded (lmem s') (disk s1)) ((gs @ [?h]) @ hs')"
    by (rule Suc.IH) (use Suc.prems(1,4,5,6) s1(2,3,4) gs hs hs' in simp_all)
  moreover have "unat (0x8000 + of_nat b :: u32) < unat (0x8000 + of_nat (b + 32 * Suc n) :: u32)"
    using unat_add_of_nat [of "0x8000" b] unat_add_of_nat [of "0x8000" "b + 32 * Suc n"] Suc.prems(1) by simp
  ultimately show ?case
    using s1(1,3) by (subst load_segments.simps) (simp add: hs word_less_nat_alt algebra_simps)
qed

text \<open>C12: The boot loader loads the kernel: for an image whose program headers lie in its first page, whose segments fit
  above that page and whose later segments do not write over earlier ones, with a disk that becomes ready
  often enough, \<open>bootmain\<close> jumps to the image's entry, and then every segment holds its bytes of the
  file followed by zeros.\<close>
theorem boot_loads_kernel:
  assumes image: "image_ok (disk s)" and cpu: "ld32 (lmem s) 0x7000 \<noteq> 1"
    and disk: "2 * (8 + sum_list (map seg_sectors (image_segments (disk s)))) \<le> ready s"
  shows "\<exists>s'. bootmain s = Some (To_kernel (disk_word (disk s) (512 + 24)), s') \<and>
    list_all (loaded (lmem s') (disk s)) (image_segments (disk s))"
proof -
  obtain s1 where s1: "readseg 0x8000 4096 0 s = Some s1"
    "lmem s1 = place (lmem s) 0x8000 4096 (\<lambda>i. disk s (512 + i))" "disk s1 = disk s" "ready s = ready s1 + 16"
    using readseg_run [of 0 "0x8000" 4096 s] disk by (auto simp: sectors_def)
  have k: "header_kept (lmem s1) (disk s)" unfolding s1(2) by (auto simp: header_kept_def place_def)
  have l: "image_phoff (disk s) + 32 * image_phnum (disk s) \<le> 4096" using image by (simp add: image_ok_def)
  have off: "ld32 (lmem s1) 0x801C = of_nat (image_phoff (disk s))"
    using header_word [OF k, of 28] by (simp add: image_phoff_def)
  have num: "ld16 (lmem s1) 0x802C = of_nat (image_phnum (disk s))"
  proof -
    have b: "lmem s1 0x802C = disk s (512 + 44)" "lmem s1 0x802D = disk s (512 + 45)" using k by (simp_all add: header_kept_def)
    have "(ucast (x :: u8) :: u32) OR push_bit 8 (ucast (y :: u8)) = ucast x + push_bit 8 (ucast y)" for x y
      by (rule disjunctive_add_eq_or [symmetric]) (auto intro!: bit_eqI simp: bit_simps, metis le_add_diff_inverse not_bit_u8(1))
    then show ?thesis by (simp add: ld16_def b image_phnum_def push_bit_eq_mult unsigned_ucast_eq)
  qed
  obtain s' where s': "load_segments (0x8000 + of_nat (image_phoff (disk s)))
      (0x8000 + of_nat (image_phoff (disk s) + 32 * image_phnum (disk s))) s1 = Some s'" "header_kept (lmem s') (disk s)"
    "list_all (loaded (lmem s') (disk s)) (image_segments (disk s))"
    using load_segments_run [OF l, of s1 "image_segments (disk s)" "[]"] image disk s1(3,4) k
    by (auto simp: image_ok_def image_segments_def)
  have "ld32 (lmem s') 0x8018 = disk_word (disk s) (512 + 24)" using header_word [OF s'(2), of 24] by simp
  then show ?thesis
    using s1(1) s'(1,3) cpu off num by (simp add: bootmain_def Let_def algebra_simps)
qed


text \<open>A disk with an image of one segment: 600 bytes of the file, 700 of memory, at 0x100000.\<close>

definition demo_disk :: "nat \<Rightarrow> u8" where
  "demo_disk n = (case map_of [(538, 0x10), (540, 52), (556, 1), (569, 0x10), (578, 0x10), (580, 0x58), (581, 2),
     (584, 0xBC), (585, 2), (4608, 0x55)] n of None \<Rightarrow> 0 | Some b \<Rightarrow> b)"

definition demo_loader :: loader where
  "demo_loader = \<lparr>lmem = (\<lambda>_. 0xFF), disk = demo_disk, polls = replicate 40 0x40, port_count = 0, port_lba0 = 0,
     port_lba1 = 0, port_lba2 = 0, port_lba3 = 0, fifo = []\<rparr>"

lemma demo_segments:
  "image_phoff demo_disk = 52" "image_phnum demo_disk = 1" "disk_word demo_disk (512 + 24) = 0x100000"
  "disk_header demo_disk 52 = \<lparr>ph_off = 0x1000, ph_paddr = 0x100000, ph_filesz = 600, ph_memsz = 700\<rparr>"
  by (simp_all add: image_phoff_def image_phnum_def disk_header_def disk_word_def demo_disk_def un_le32_def)

theorem boot_loads_kernel_witness:
  "\<exists>s'. bootmain demo_loader = Some (To_kernel 0x100000, s') \<and> lmem s' 0x100000 = 0x55 \<and> lmem s' 0x100258 = 0"
proof -
  have d: "disk demo_loader = demo_disk" "lmem demo_loader = (\<lambda>_. 0xFF)" "ready demo_loader = 40"
    by (simp_all add: demo_loader_def ready_def)
  have g: "image_segments demo_disk = [\<lparr>ph_off = 0x1000, ph_paddr = 0x100000, ph_filesz = 600, ph_memsz = 700\<rparr>]"
    by (simp add: image_segments_def demo_segments)
  have ok: "image_ok demo_disk"
    unfolding image_ok_def g by (simp add: demo_segments seg_fits_def seg_hi_def seg_lo_def seg_sectors_def sectors_def)
  obtain s' where s': "bootmain demo_loader = Some (To_kernel 0x100000, s')" "list_all (loaded (lmem s') demo_disk) (image_segments demo_disk)"
    using boot_loads_kernel [of demo_loader] ok
    by (auto simp: d g demo_segments [simplified] seg_sectors_def sectors_def ld32_def un_le32_def)
  then have l: "loaded (lmem s') demo_disk \<lparr>ph_off = 0x1000, ph_paddr = 0x100000, ph_filesz = 600, ph_memsz = 700\<rparr>"
    by (simp add: g)
  have "lmem s' 0x100000 = 0x55" using l [unfolded loaded_def, rule_format, of "0x100000"] by (simp add: demo_disk_def)
  moreover have "lmem s' 0x100258 = 0" using l [unfolded loaded_def, rule_format, of "0x100258"] by simp
  ultimately show ?thesis using s'(1) by blast
qed
end
