(* ===== verification/Keyboard.thy ===== *)
theory Keyboard
  imports Input
begin

text \<open>
  From the keyboard controller to the events of \<open>/dev/input\<close>: the scan codes of
  \<open>am/src/x86/qemu/devices/input.c\<close>, \<open>read_key\<close> of klib (\<open>io.c\<close>) and the inner
  loop of the keyboard task (\<open>devices/input/input.c\<close>). The controller is modelled by its documented
  registers: port 0x64 tells whether a byte is pending and whether it comes from the mouse, reading port 0x60
  takes it.
\<close>

unbundle bit_operations_syntax

section \<open>The controller\<close>

record kbd_ctl =
  pending :: "(bool \<times> u8) list"

definition inb64 :: "kbd_ctl \<Rightarrow> u8" where
  "inb64 k = (case pending k of [] \<Rightarrow> 0 | (mouse, b) # bs \<Rightarrow> (if mouse then 0x21 else 0x01))"

definition inb60 :: "kbd_ctl \<Rightarrow> u8 \<times> kbd_ctl" where
  "inb60 k = (case pending k of [] \<Rightarrow> (0, k) | (mouse, b) # bs \<Rightarrow> (b, k\<lparr>pending := bs\<rparr>))"

section \<open>Scan codes\<close>

definition scan_code :: "int list" where
  "scan_code = [0, 1, 59, 60, 61, 62, 63, 64, 65, 66, 67, 68, 87, 88,
     41, 2, 3, 4, 5, 6, 7, 8, 9, 10, 11, 12, 13, 14,
     15, 16, 17, 18, 19, 20, 21, 22, 23, 24, 25, 26, 27, 43,
     58, 30, 31, 32, 33, 34, 35, 36, 37, 38, 39, 40, 28,
     42, 44, 45, 46, 47, 48, 49, 50, 51, 52, 53, 54,
     29, 91, 56, 57, 56, 29,
     72, 80, 75, 77, 0, 0, 0, 0, 0, 0]"

record kbd_event =
  keydown :: int
  keycode :: nat

text \<open>The search for a code, from entry \<open>i\<close> of the table on.\<close>

fun scan_loop :: "int list \<Rightarrow> nat \<Rightarrow> int \<Rightarrow> kbd_event" where
  "scan_loop [] i code = \<lparr>keydown = 0, keycode = 0\<rparr>"
| "scan_loop (c # cs) i code =
     (if c = 0 then scan_loop cs (i + 1) code
      else if c = code then \<lparr>keydown = 1, keycode = i\<rparr>
      else if c + 128 = code then \<lparr>keydown = 0, keycode = i\<rparr>
      else scan_loop cs (i + 1) code)"

definition am_input_read :: "kbd_ctl \<Rightarrow> kbd_event \<times> kbd_ctl" where
  "am_input_read k =
     (let status = inb64 k; none = \<lparr>keydown = 0, keycode = 0\<rparr>
      in if status AND 0x1 = 0 then (none, k)
         else if status AND 0x20 \<noteq> 0 then (none, k)
         else (let (code, k) = inb60 k in (scan_loop scan_code 0 (uint code), k)))"

definition read_key :: "kbd_ctl \<Rightarrow> u32 \<times> kbd_ctl" where
  "read_key k =
     (let (key, k) = am_input_read k; ret = of_nat (keycode key)
      in (if keydown key \<noteq> 0 then ret OR 0x8000 else ret, k))"

text \<open>The inner loop of \<open>input_task\<close> on the controller.\<close>

partial_function (option) key_loop :: "kbd_ctl \<Rightarrow> 'a input_st_scheme \<Rightarrow> (kbd_ctl \<times> 'a input_st_scheme) option" where
  "key_loop k s =
     (let (code, k) = read_key k
      in if code \<noteq> 0 then do { s \<leftarrow> input_keydown code s; key_loop k s } else Some (k, s))"

section \<open>From scan codes to events\<close>

definition make_code :: "string \<Rightarrow> u8" where "make_code k = of_int (scan_code ! KEY k)"

definition break_code :: "string \<Rightarrow> u8" where "break_code k = make_code k + 128"

lemma letter_scan:
  "list_all (\<lambda>c. scan_loop scan_code 0 (uint (make_code [c])) = \<lparr>keydown = 1, keycode = KEY [c]\<rparr> \<and>
     scan_loop scan_code 0 (uint (break_code [c])) = \<lparr>keydown = 0, keycode = KEY [c]\<rparr>) letters"
  by code_simp

text \<open>All keys with a code but the right Alt and Ctrl, which share the codes of the left ones.\<close>

lemma scan_tables:
  "list_all (\<lambda>i. let c = scan_code ! i in c = 0 \<or> i = KEY ''RALT'' \<or> i = KEY ''RCTRL'' \<or>
     scan_loop scan_code 0 c = \<lparr>keydown = 1, keycode = i\<rparr> \<and>
     scan_loop scan_code 0 (c + 128) = \<lparr>keydown = 0, keycode = i\<rparr>) [0..<length scan_code]"
proof -
  have "list_all (\<lambda>i. let c = scan_code ! i in c = 0 \<or> i = 71 \<or> i = 72 \<or>
     scan_loop scan_code 0 c = \<lparr>keydown = 1, keycode = i\<rparr> \<and>
     scan_loop scan_code 0 (c + 128) = \<lparr>keydown = 0, keycode = i\<rparr>) [0..<length scan_code]"
    by code_simp
  moreover have "KEY ''RALT'' = 71" "KEY ''RCTRL'' = 72" by (simp_all add: KEY_def KEYS_def)
  ultimately show ?thesis by simp
qed

lemma right_keys_are_left:
  "scan_loop scan_code 0 (uint (make_code ''RALT'')) = \<lparr>keydown = 1, keycode = KEY ''LALT''\<rparr>"
  "scan_loop scan_code 0 (uint (make_code ''RCTRL'')) = \<lparr>keydown = 1, keycode = KEY ''LCTRL''\<rparr>"
  by code_simp+

lemma read_key_byte:
  "read_key (k\<lparr>pending := (False, b) # bs\<rparr>) =
    (let e = scan_loop scan_code 0 (uint b); ret = of_nat (keycode e)
     in (if keydown e \<noteq> 0 then ret OR 0x8000 else ret, k\<lparr>pending := bs\<rparr>))"
  by (simp add: read_key_def am_input_read_def inb64_def inb60_def Let_def)

lemma key_code_or:
  "list_all (\<lambda>n. (of_nat n :: u32) OR 0x8000 = 0x8000 + of_nat n \<and> (of_nat n :: u32) AND 0x8000 = 0) [0..<256]"
  by code_simp

lemma letter_release:
  assumes "c \<in> set letters" shows "input_keydown (of_nat (KEY [c])) s = Some s"
proof -
  note l = letter_char(5) [OF assms]
  have ne: "KEY [c] \<noteq> KEY k" if "k \<noteq> [c]" for k using KEY_inj [OF l, of k] that by simp
  have "(of_nat (KEY [c]) :: u32) AND 0x8000 = 0" using key_code_or KEY_less [OF l] unfolding list_all_iff by auto
  moreover have "unat (of_nat (KEY [c]) :: u32) = KEY [c]" using KEY_less [OF l] by (intro unat_of_nat32) simp
  ultimately show ?thesis using ne by (simp add: input_keydown_def)
qed

text \<open>What the controller delivers when letter keys are pressed and released one after the other, and the
  event of a letter key.\<close>

fun keystrokes :: "char list \<Rightarrow> (bool \<times> u8) list" where
  "keystrokes [] = []"
| "keystrokes (c # cs) = (False, make_code [c]) # (False, break_code [c]) # keystrokes cs"

definition letter_event :: "'a input_st_scheme \<Rightarrow> char \<Rightarrow> input_event" where
  "letter_event s c = \<lparr>ie_ctrl = 0, ie_alt = 0,
     ie_data = (if (is_down (shift_down s) = 1) \<noteq> (capslock s = 1) then char_int c else char_int c + 32)\<rparr>"

lemma letter_typed:
  assumes c: "c \<in> set letters" and ok: "input_ok s" "length (queued s) < NEVENTS - 1"
    and plain: "is_down (ctrl_down s) = 0" "is_down (alt_down s) = 0" "capslock s \<in> {0, 1}"
  shows "\<exists>s'. key_loop (k\<lparr>pending := (False, make_code [c]) # (False, break_code [c]) # bs\<rparr>) s = key_loop (k\<lparr>pending := bs\<rparr>) s' \<and>
    input_ok s' \<and> queued s' = queued s @ [letter_event s c] \<and>
    modifiers s' = modifiers s"
proof -
  obtain s' where s': "input_keydown (0x8000 + of_nat (KEY [c])) s = Some s'" "input_ok s'"
    "queued s' = queued s @ [letter_event s c]"
    "modifiers s' = modifiers s"
    using letter_key [OF ok c plain] unfolding letter_event_def by blast
  note l = letter_char(5) [OF c]
  have k: "0 < KEY [c]" "KEY [c] < 256" using KEY_less [OF l] by (simp_all add: KEY_def)
  then have "unat (of_nat (KEY [c]) :: u32) = KEY [c]" "unat (0x8000 + of_nat (KEY [c]) :: u32) = 0x8000 + KEY [c]"
    using unat_add_of_nat [of "0x8000" "KEY [c]"] by (simp_all add: unat_of_nat32)
  then have nz: "(of_nat (KEY [c]) :: u32) \<noteq> 0" "0x8000 + of_nat (KEY [c]) \<noteq> (0 :: u32)" using k by auto
  have scan: "scan_loop scan_code 0 (uint (make_code [c])) = \<lparr>keydown = 1, keycode = KEY [c]\<rparr>"
    "scan_loop scan_code 0 (uint (break_code [c])) = \<lparr>keydown = 0, keycode = KEY [c]\<rparr>"
    using letter_scan c unfolding list_all_iff by auto
  have o: "(of_nat (KEY [c]) :: u32) OR 0x8000 = 0x8000 + of_nat (KEY [c])"
    using key_code_or k unfolding list_all_iff by auto
  have "key_loop (k\<lparr>pending := (False, make_code [c]) # (False, break_code [c]) # bs\<rparr>) s =
      key_loop (k\<lparr>pending := (False, break_code [c]) # bs\<rparr>) s'"
    using nz s'(1) by (subst key_loop.simps) (simp add: read_key_byte scan o)
  also have "\<dots> = key_loop (k\<lparr>pending := bs\<rparr>) s'"
    using nz letter_release [OF c, of s'] by (subst key_loop.simps) (simp add: read_key_byte scan)
  finally show ?thesis using s' by blast
qed

text \<open>C37: Typing letters: when the controller holds the codes of letter keys being pressed and released, the
  keyboard task empties it and queues exactly the letters, in order, as small letters, or as capitals if
  exactly one of Shift and Caps Lock is in force.\<close>
theorem typed_letters:
  assumes "set cs \<subseteq> set letters" and ok: "input_ok s" "length (queued s) + length cs < NEVENTS"
    and plain: "is_down (ctrl_down s) = 0" "is_down (alt_down s) = 0" "capslock s \<in> {0, 1}"
  shows "\<exists>s'. key_loop (k\<lparr>pending := keystrokes cs\<rparr>) s =
      Some (k\<lparr>pending := []\<rparr>, s') \<and> input_ok s' \<and>
    queued s' = queued s @ map (letter_event s) cs"
  using assms
proof (induction cs arbitrary: s)
  case Nil
  then show ?case by (simp add: key_loop.simps read_key_def am_input_read_def inb64_def Let_def)
next
  case (Cons c cs)
  have room: "length (queued s) < NEVENTS - 1" using Cons.prems(3) by simp
  obtain s1 where s1: "key_loop (k\<lparr>pending := keystrokes (c # cs)\<rparr>) s =
      key_loop (k\<lparr>pending := keystrokes cs\<rparr>) s1" "input_ok s1"
    "queued s1 = queued s @ [letter_event s c]"
    "modifiers s1 = modifiers s"
    using letter_typed [of c s, where k = k and bs = "keystrokes cs"] Cons.prems room by auto
  have m: "capslock s1 = capslock s" "shift_down s1 = shift_down s" "ctrl_down s1 = ctrl_down s" "alt_down s1 = alt_down s"
    using s1(4) by (simp_all add: modifiers_def)
  then have "letter_event s1 = letter_event s" by (simp add: letter_event_def fun_eq_iff)
  with m show ?case using Cons.IH [of s1] Cons.prems s1(1,2,3) by auto
qed

theorem typed_letters_witness:
  "\<exists>s'. key_loop \<lparr>pending = [(False, 0x23), (False, 0xA3), (False, 0x17), (False, 0x97)]\<rparr> demo_input = Some (\<lparr>pending = []\<rparr>, s') \<and>
     map ie_data (queued s') = [104, 105]"
proof -
  have c: "make_code ''H'' = 0x23" "break_code ''H'' = 0xA3" "make_code ''I'' = 0x17" "break_code ''I'' = 0x97"
    "char_int (CHR ''H'') = 72" "char_int (CHR ''I'') = 73" by code_simp+
  have "length (queued demo_input) + length ''HI'' < NEVENTS" by (simp add: demo_input_empty NEVENTS_def)
  moreover have "set ''HI'' \<subseteq> set letters" by (simp add: letters_def)
  ultimately show ?thesis
    using typed_letters [where cs = "''HI''" and s = demo_input and k = "\<lparr>pending = []\<rparr>"] demo_input_ok
    by (auto simp: c demo_input_sel demo_input_empty is_down_def letter_event_def)
qed

text \<open>A byte of the mouse is never taken from the controller: the task reads no key behind it.\<close>

lemma mouse_blocks:
  "pending k = (True, b) # bs \<Longrightarrow> key_loop k s = Some (k, s)"
  by (simp add: key_loop.simps read_key_def am_input_read_def inb64_def Let_def)

end
