(* ===== verification/Mpe.thy ===== *)
theory Mpe
  imports KMem
begin

text \<open>
  Starting the processors (\<open>am/src/x86/qemu/mpe.c\<close>, \<open>devices/cpu.c\<close>): \<open>bootcpu_init\<close> counts the
  processors in the table that the firmware left in memory, and \<open>percpu_entry\<close> starts them one by one, each in the
  boot loader on the same stack at 0x7000, until the new processor has moved to a stack of its own and set a flag.
  The processors run in any order: a step of the system is a step of one of them. \<open>lapic_bootap\<close> is modelled by
  its effect, a processor that begins to run the boot loader.
\<close>

section \<open>The processor table\<close>

definition MAX_CPU :: nat where "MAX_CPU = 8"

definition MP_MAGIC :: u32 where "MP_MAGIC = 0x5f504d5f"

text \<open>The entries of the table: 20 bytes for a processor, whose type is 0, 8 bytes for anything else.\<close>

partial_function (option) count_loop :: "mem \<Rightarrow> u32 \<Rightarrow> u32 \<Rightarrow> nat \<Rightarrow> nat option" where
  "count_loop m p stop n =
     (if p < stop then
        (if m p = 0 then
           (let p = p + 12; n = n + 1 in if n > MAX_CPU then None else count_loop m (p + 8) stop n)
         else count_loop m (p + 8) stop n)
      else Some n)"

text \<open>\<open>MPConf\<close> has 44 bytes, its length in the two bytes from 4 on and the address of the interrupt controller at 36;
  \<open>conf\<close> is the second word of \<open>MPDesc\<close>. The result is the address of the controller and the number of processors.\<close>

definition count_cpus :: "mem \<Rightarrow> u32 \<Rightarrow> (u32 \<times> nat) option" where
  "count_cpus m conf = do {
     let len = ucast (m (conf + 4)) + 256 * ucast (m (conf + 5));
     n \<leftarrow> count_loop m (conf + 44) (conf + len) 0;
     Some (ld32 m (conf + 36), n) }"

function find_table :: "mem \<Rightarrow> nat \<Rightarrow> (u32 \<times> nat) option" where
  "find_table m st =
     (if st < 0xffffff then
        (if ld32 m (of_nat st) = MP_MAGIC then count_cpus m (ld32 m (of_nat st + 4)) else find_table m (st + 1))
      else None)"
  by auto
termination by (relation "measure (\<lambda>(m, st). 0xffffff - st)") auto

declare find_table.simps [simp del]

definition bootcpu_init :: "mem \<Rightarrow> (u32 \<times> nat) option" where
  "bootcpu_init m = find_table m 0xf0000"

section \<open>Starting the processors\<close>

text \<open>Where a processor is: the loop of \<open>percpu_entry\<close> for the first, with the number of the one being started; the
  boot loader and \<open>percpu_entry\<close>, both on the common stack, \<open>ap_entry\<close> and \<open>user_entry\<close> for the others. \<open>Lost\<close>: the boot
  loader did not find what it needs.\<close>

datatype boot_cpu = Store nat | Send nat | Spin nat | Bsp_user

datatype app_cpu = Off | In_loader | In_percpu | In_ap | Booted | Ap_user | Lost

datatype entry_fn = No_entry | Percpu_entry

record mpe =
  boot_is_ap :: int
  boot_entry :: entry_fn
  apboot_done :: int
  bsp :: boot_cpu
  app :: "nat \<Rightarrow> app_cpu"

definition mpe_start :: mpe where
  "mpe_start = \<lparr>boot_is_ap = 0, boot_entry = No_entry, apboot_done = 0, bsp = Store 1, app = (\<lambda>_. Off)\<rparr>"

definition atomic_xchg :: "int \<Rightarrow> mpe \<Rightarrow> int \<times> mpe" where
  "atomic_xchg v s = (apboot_done s, s\<lparr>apboot_done := v\<rparr>)"

definition lapic_bootap :: "nat \<Rightarrow> mpe \<Rightarrow> mpe" where
  "lapic_bootap cpu s = s\<lparr>app := (app s)(cpu := In_loader)\<rparr>"

definition bsp_step :: "nat \<Rightarrow> mpe \<Rightarrow> mpe" where
  "bsp_step ncpu s = (case bsp s of
       Store cpu \<Rightarrow>
         if cpu < ncpu then s\<lparr>boot_is_ap := 1, boot_entry := Percpu_entry, bsp := Send cpu\<rparr> else s\<lparr>bsp := Bsp_user\<rparr>
     | Send cpu \<Rightarrow> (lapic_bootap cpu s)\<lparr>bsp := Spin cpu\<rparr>
     | Spin cpu \<Rightarrow> (let (old, s) = atomic_xchg 0 s in if old \<noteq> 1 then s else s\<lparr>bsp := Store (cpu + 1)\<rparr>)
     | Bsp_user \<Rightarrow> s)"

definition app_step :: "nat \<Rightarrow> mpe \<Rightarrow> mpe" where
  "app_step c s = (case app s c of
       In_loader \<Rightarrow>
         if boot_is_ap s = 1 \<and> boot_entry s = Percpu_entry then s\<lparr>app := (app s)(c := In_percpu)\<rparr>
         else s\<lparr>app := (app s)(c := Lost)\<rparr>
     | In_percpu \<Rightarrow> s\<lparr>app := (app s)(c := In_ap)\<rparr>
     | In_ap \<Rightarrow> (let (old, s) = atomic_xchg 1 s in s\<lparr>app := (app s)(c := Booted)\<rparr>)
     | Booted \<Rightarrow> s\<lparr>app := (app s)(c := Ap_user)\<rparr>
     | Off \<Rightarrow> s | Ap_user \<Rightarrow> s | Lost \<Rightarrow> s)"

inductive mpe_step :: "nat \<Rightarrow> mpe \<Rightarrow> mpe \<Rightarrow> bool" for n where
  bsp: "mpe_step n s (bsp_step n s)"
| app: "c \<in> {1..<n} \<Longrightarrow> mpe_step n s (app_step c s)"

inductive_cases mpe_stepE: "mpe_step n s t"

definition on_common_stack :: "nat \<Rightarrow> mpe \<Rightarrow> nat set" where
  "on_common_stack n s = {c. c < n \<and> app s c \<in> {In_loader, In_percpu}}"

section \<open>The handshake\<close>

definition settled :: "app_cpu \<Rightarrow> bool" where
  "settled p \<longleftrightarrow> p = Booted \<or> p = Ap_user"

definition starting :: "app_cpu \<Rightarrow> bool" where
  "starting p \<longleftrightarrow> p = In_loader \<or> p = In_percpu \<or> p = In_ap"

definition mpe_inv :: "nat \<Rightarrow> mpe \<Rightarrow> bool" where
  "mpe_inv n s \<longleftrightarrow> (case bsp s of
       Store c \<Rightarrow> 1 \<le> c \<and> c \<le> n \<and> apboot_done s = 0 \<and> (\<forall>i. 1 \<le> i \<and> i < c \<longrightarrow> settled (app s i)) \<and> (\<forall>i. i < 1 \<or> c \<le> i \<longrightarrow> app s i = Off)
     | Send c \<Rightarrow> 1 \<le> c \<and> c < n \<and> apboot_done s = 0 \<and> boot_is_ap s = 1 \<and> boot_entry s = Percpu_entry \<and>
         (\<forall>i. 1 \<le> i \<and> i < c \<longrightarrow> settled (app s i)) \<and> (\<forall>i. i < 1 \<or> c \<le> i \<longrightarrow> app s i = Off)
     | Spin c \<Rightarrow> 1 \<le> c \<and> c < n \<and> boot_is_ap s = 1 \<and> boot_entry s = Percpu_entry \<and>
         (\<forall>i. 1 \<le> i \<and> i < c \<longrightarrow> settled (app s i)) \<and> (\<forall>i. i < 1 \<or> c < i \<longrightarrow> app s i = Off) \<and>
         (if apboot_done s = 1 then settled (app s c) else apboot_done s = 0 \<and> starting (app s c))
     | Bsp_user \<Rightarrow> (\<forall>i. 1 \<le> i \<and> i < n \<longrightarrow> settled (app s i)) \<and> (\<forall>i. i < 1 \<or> n \<le> i \<longrightarrow> app s i = Off))"

lemma bsp_inv: "mpe_inv n s \<Longrightarrow> mpe_inv n (bsp_step n s)"
  by (cases "bsp s") (auto simp: mpe_inv_def bsp_step_def lapic_bootap_def atomic_xchg_def Let_def starting_def settled_def less_Suc_eq)

lemma inv_place:
  assumes "mpe_inv n s"
  shows "settled (app s i) \<or> app s i = Off \<or> starting (app s i) \<and> bsp s = Spin i \<and> apboot_done s = 0"
proof -
  define k where "k = (case bsp s of Store c \<Rightarrow> c | Send c \<Rightarrow> c | Spin c \<Rightarrow> c | Bsp_user \<Rightarrow> n)"
  consider "i < 1" | "1 \<le> i" "i < k" | "i = k" "1 \<le> i" | "k < i" "1 \<le> i" by linarith
  then show ?thesis using assms by cases (cases "bsp s"; auto simp: mpe_inv_def k_def split: if_splits)+
qed

lemma starting_spins:
  assumes "mpe_inv n s" "starting (app s c)"
  shows "bsp s = Spin c" "apboot_done s = 0"
  using inv_place [OF assms(1), of c] assms(2) by (auto simp: starting_def settled_def)

lemma same_shape_inv:
  assumes "mpe_inv n s" "\<And>i. settled (f i) = settled (app s i)" "\<And>i. (f i = Off) = (app s i = Off)"
    "\<And>i. starting (f i) = starting (app s i)"
  shows "mpe_inv n (s\<lparr>app := f\<rparr>)"
  using assms(1) by (cases "bsp s") (simp_all add: mpe_inv_def assms(2-4))

lemma app_inv:
  assumes inv: "mpe_inv n s" shows "mpe_inv n (app_step c s)"
proof -
  note sp = starting_spins [OF inv, of c]
  have boot: "boot_is_ap s = 1 \<and> boot_entry s = Percpu_entry" if "starting (app s c)"
    using inv sp(1) [OF that] by (simp add: mpe_inv_def)
  show ?thesis
  proof (cases "app s c")
    case In_loader
    then have "app_step c s = s\<lparr>app := (app s)(c := In_percpu)\<rparr>" using boot by (simp add: app_step_def starting_def)
    then show ?thesis using In_loader by (auto intro!: same_shape_inv [OF inv] simp: settled_def starting_def split: if_splits)
  next
    case In_percpu
    then show ?thesis by (auto intro!: same_shape_inv [OF inv] simp: app_step_def settled_def starting_def split: if_splits)
  next
    case In_ap
    then have "bsp s = Spin c" using sp by (simp add: starting_def)
    then show ?thesis using In_ap inv by (auto simp: app_step_def mpe_inv_def atomic_xchg_def settled_def)
  next
    case Booted
    then show ?thesis by (auto intro!: same_shape_inv [OF inv] simp: app_step_def settled_def starting_def split: if_splits)
  qed (use inv in \<open>simp_all add: app_step_def\<close>)
qed

lemma mpe_start_inv: "0 < n \<Longrightarrow> mpe_inv n mpe_start"
  by (simp add: mpe_inv_def mpe_start_def)

lemma mpe_reachable_inv: "(mpe_step n)\<^sup>*\<^sup>* mpe_start s \<Longrightarrow> 0 < n \<Longrightarrow> mpe_inv n s"
  by (induction rule: rtranclp_induct) (auto simp: mpe_start_inv elim!: mpe_stepE intro: bsp_inv app_inv)

lemma common_stack:
  assumes "mpe_inv n s" shows "\<exists>c. on_common_stack n s \<subseteq> {c}"
proof (cases "bsp s")
  case (Spin c)
  then have "on_common_stack n s \<subseteq> {c}"
    using starting_spins [OF assms] by (auto simp: on_common_stack_def starting_def)
  then show ?thesis by blast
qed (use starting_spins [OF assms] in \<open>force simp: on_common_stack_def starting_def\<close>)+

lemma never_lost: "mpe_inv n s \<Longrightarrow> app s c \<noteq> Lost"
  using inv_place [of n s c] by (auto simp: starting_def settled_def)

text \<open>What is left to do.\<close>

fun app_left :: "app_cpu \<Rightarrow> nat" where
  "app_left Off = 5" | "app_left In_loader = 4" | "app_left In_percpu = 3" | "app_left In_ap = 2"
| "app_left Booted = 1" | "app_left Ap_user = 0" | "app_left Lost = 0"

fun bsp_left :: "nat \<Rightarrow> boot_cpu \<Rightarrow> nat" where
  "bsp_left n (Store c) = 3 * (n - c) + 1" | "bsp_left n (Send c) = 3 * (n - c)"
| "bsp_left n (Spin c) = 3 * (n - c) - 1" | "bsp_left n Bsp_user = 0"

definition mpe_left :: "nat \<Rightarrow> mpe \<Rightarrow> nat" where
  "mpe_left n s = bsp_left n (bsp s) + (\<Sum>i = 1..<n. app_left (app s i))"

definition all_running :: "nat \<Rightarrow> mpe \<Rightarrow> bool" where
  "all_running n s \<longleftrightarrow> bsp s = Bsp_user \<and> list_all (\<lambda>c. app s c = Ap_user) [1..<n]"


lemma app_left_less:
  assumes "c \<in> {1..<n}" "app_left p < app_left (app s c)"
  shows "(\<Sum>i = 1..<n. app_left (((app s)(c := p)) i)) < (\<Sum>i = 1..<n. app_left (app s i))"
  by (rule sum_strict_mono_ex1) (use assms in auto)

lemma app_moves:
  assumes "app s c = In_loader \<and> boot_is_ap s = 1 \<and> boot_entry s = Percpu_entry \<or> app s c = In_percpu \<or> app s c = In_ap \<or> app s c = Booted"
    "c \<in> {1..<n}"
  shows "mpe_left n (app_step c s) < mpe_left n s"
proof -
  have "\<exists>p. app (app_step c s) = (app s)(c := p) \<and> bsp (app_step c s) = bsp s \<and> app_left p < app_left (app s c)"
    using assms(1) by (auto simp: app_step_def atomic_xchg_def)
  then show ?thesis using app_left_less [OF assms(2), of _ s] by (auto simp: mpe_left_def)
qed

lemma spin_less: "c < n \<Longrightarrow> Suc (3 * (n - Suc c)) < 3 * (n - c) - Suc 0"
  by (cases "n - c") (simp_all add: Suc_diff_Suc [symmetric])

lemma mpe_progress:
  assumes inv: "mpe_inv n s" and left: "\<not> all_running n s"
  shows "\<exists>t. mpe_step n s t \<and> mpe_left n t < mpe_left n s"
proof (cases "bsp s")
  case (Store c)
  then have "mpe_left n (bsp_step n s) < mpe_left n s"
    by (auto simp: bsp_step_def mpe_left_def)
  then show ?thesis using mpe_step.bsp by blast
next
  case (Send c)
  then have c: "c \<in> {1..<n}" "app s c = Off" using inv by (auto simp: mpe_inv_def)
  have "(\<Sum>i = 1..<n. app_left (((app s)(c := In_loader)) i)) < (\<Sum>i = 1..<n. app_left (app s i))"
    by (rule app_left_less [OF c(1)]) (simp add: c(2))
  then have "mpe_left n (bsp_step n s) < mpe_left n s"
    using Send by (simp add: bsp_step_def mpe_left_def lapic_bootap_def)
  then show ?thesis using mpe_step.bsp by blast
next
  case (Spin c)
  then have c: "c \<in> {1..<n}" "boot_is_ap s = 1" "boot_entry s = Percpu_entry" using inv by (auto simp: mpe_inv_def)
  show ?thesis
  proof (cases "apboot_done s = 1")
    case True
    then have "mpe_left n (bsp_step n s) < mpe_left n s"
      using Spin c(1) spin_less [of c n] by (simp add: bsp_step_def mpe_left_def atomic_xchg_def)
    then show ?thesis using mpe_step.bsp by blast
  next
    case False
    then have "starting (app s c)" using inv Spin by (simp add: mpe_inv_def)
    then have "mpe_left n (app_step c s) < mpe_left n s" using c by (intro app_moves) (auto simp: starting_def)
    then show ?thesis using mpe_step.app [OF c(1)] by blast
  qed
next
  case Bsp_user
  then obtain c where c: "c \<in> {1..<n}" "app s c = Booted"
    using inv left by (auto simp: all_running_def list_all_iff mpe_inv_def settled_def)
  then show ?thesis using mpe_step.app [OF c(1)] app_moves [of s c n] by blast
qed

lemma mpe_completes:
  "mpe_inv n s \<Longrightarrow> \<exists>t. (mpe_step n)\<^sup>*\<^sup>* s t \<and> all_running n t"
proof (induction "mpe_left n s" arbitrary: s rule: less_induct)
  case less
  show ?case
  proof (cases "all_running n s")
    case False
    obtain t where t: "mpe_step n s t" "mpe_left n t < mpe_left n s" using mpe_progress [OF less.prems False] by blast
    moreover have "mpe_inv n t" using t(1) less.prems by (auto elim!: mpe_stepE intro: bsp_inv app_inv)
    ultimately show ?thesis using less.hyps by (meson converse_rtranclp_into_rtranclp)
  qed auto
qed

text \<open>C31: Starting the processors: however the processors' steps interleave, at most one of them is on the
  common stack, none enters the boot loader before what it needs is there, the first processor goes on to the
  program only when all others are initialised, and from every state on the way there is a continuation to the state
  in which all of them run the program.\<close>
theorem processors_start:
  assumes "0 < n" and "(mpe_step n)\<^sup>*\<^sup>* mpe_start s"
  shows "(\<exists>c. on_common_stack n s \<subseteq> {c}) \<and> list_all (\<lambda>c. app s c \<noteq> Lost) [0..<n] \<and>
    (bsp s = Bsp_user \<longrightarrow> list_all (\<lambda>c. app s c = Booted \<or> app s c = Ap_user) [1..<n]) \<and>
    (\<exists>t. (mpe_step n)\<^sup>*\<^sup>* s t \<and> all_running n t)"
proof -
  have inv: "mpe_inv n s" using mpe_reachable_inv [OF assms(2,1)] .
  then have "bsp s = Bsp_user \<longrightarrow> list_all (\<lambda>c. app s c = Booted \<or> app s c = Ap_user) [1..<n]"
    by (auto simp: mpe_inv_def list_all_iff settled_def)
  then show ?thesis using common_stack [OF inv] never_lost [OF inv] mpe_completes [OF inv] by (simp add: list_all_iff)
qed

theorem processors_start_witness:
  "\<exists>s. bsp s = Spin 1 \<and> (\<exists>t. (mpe_step 4)\<^sup>*\<^sup>* s t \<and> all_running 4 t)"
proof -
  let ?s = "bsp_step 4 (bsp_step 4 mpe_start)"
  have "(mpe_step 4)\<^sup>*\<^sup>* mpe_start ?s" by (meson mpe_step.bsp rtranclp.rtrancl_into_rtrancl rtranclp.rtrancl_refl)
  from processors_start [OF _ this]
  have "\<exists>t. (mpe_step 4)\<^sup>*\<^sup>* ?s t \<and> all_running 4 t" by simp
  moreover have "bsp ?s = Spin 1" by (simp add: bsp_step_def mpe_start_def lapic_bootap_def)
  ultimately show ?thesis by blast
qed

section \<open>Counting\<close>

text \<open>The table in memory: the types of its entries in order.\<close>

fun entries_at :: "mem \<Rightarrow> u32 \<Rightarrow> u32 \<Rightarrow> bool list \<Rightarrow> bool" where
  "entries_at m p stop [] \<longleftrightarrow> p = stop"
| "entries_at m p stop (cpu # es) \<longleftrightarrow> p < stop \<and> (m p = 0) = cpu \<and>
     entries_at m (p + (if cpu then 20 else 8)) stop es"

lemma count_loop_run:
  "entries_at m p stop es \<Longrightarrow> n + length (filter (\<lambda>x. x) es) \<le> MAX_CPU \<Longrightarrow>
   count_loop m p stop n = Some (n + length (filter (\<lambda>x. x) es))"
proof (induction es arbitrary: p n)
  case Nil then show ?case by (simp add: count_loop.simps)
next
  case (Cons cpu es)
  then show ?case by (subst count_loop.simps) (auto simp: Let_def add.assoc)
qed

lemma count_loop_panics:
  "entries_at m p stop es \<Longrightarrow> n \<le> MAX_CPU \<Longrightarrow> MAX_CPU < n + length (filter (\<lambda>x. x) es) \<Longrightarrow> count_loop m p stop n = None"
proof (induction es arbitrary: p n)
  case (Cons cpu es)
  then show ?case by (subst count_loop.simps) (auto simp: Let_def add.assoc)
qed simp

end
