(* ===== verification/Timer.thy ===== *)
theory Timer
  imports Prelude
begin

text \<open>
  The clock of the machine layer (\<open>am/src/x86/qemu/devices/timer.c\<close>): the date from the real-time clock, which
  answers in binary coded decimals, and the milliseconds since the start from the processor's counter. \<open>answers\<close> are
  the bytes that the reads of port 0x71 return, \<open>cycles\<close> the values that \<open>rdtsc\<close> returns; when there are no more the
  processor is still in a loop, and a division by zero is \<open>None\<close> too.
\<close>

unbundle bit_operations_syntax

section \<open>State\<close>

record timer =
  answers :: "u8 list"
  cycles :: "64 word list"
  freq_mhz :: u32
  uptsc :: "64 word"

record date =
  year :: int
  month :: int
  day :: int
  hour :: int
  minute :: int
  second :: int

section \<open>The real-time clock\<close>

definition read_rtc :: "int \<Rightarrow> timer \<Rightarrow> (int \<times> timer) option" where
  "read_rtc reg s = (case answers s of [] \<Rightarrow> None
     | v # vs \<Rightarrow> (let ret = uint v in Some ((ret AND 0xf) + drop_bit 4 ret * 10, s\<lparr>answers := vs\<rparr>)))"

definition rdtsc :: "timer \<Rightarrow> (64 word \<times> timer) option" where
  "rdtsc s = (case cycles s of [] \<Rightarrow> None | c # cs \<Rightarrow> Some (c, s\<lparr>cycles := cs\<rparr>))"

partial_function (option) wait_sec :: "timer \<Rightarrow> timer option" where
  "wait_sec s = do {
     (s1, s) \<leftarrow> read_rtc 0 s;
     (s2, s) \<leftarrow> read_rtc 0 s;
     if s1 \<noteq> s2 then Some s else wait_sec s }"

definition time_of_day :: "timer \<Rightarrow> (int \<times> timer) option" where
  "time_of_day t = do {
     (h, t) \<leftarrow> read_rtc 4 t;
     (m, t) \<leftarrow> read_rtc 2 t;
     (s, t) \<leftarrow> read_rtc 0 t;
     Some (h * 3600 + m * 60 + s, t) }"

definition estimate_freq :: "timer \<Rightarrow> (u32 \<times> timer) option" where
  "estimate_freq s = do {
     s \<leftarrow> wait_sec s;
     (tsc1, s) \<leftarrow> rdtsc s;
     (t1, s) \<leftarrow> time_of_day s;
     s \<leftarrow> wait_sec s;
     (tsc2, s) \<leftarrow> rdtsc s;
     (t2, s) \<leftarrow> time_of_day s;
     if t1 \<ge> t2 then Some (0, s)
     else (let freq = ucast (drop_bit 20 (tsc2 - tsc1)) in Some (freq div word_of_int (t2 - t1), s)) }"

partial_function (option) get_date :: "timer \<Rightarrow> (date \<times> timer) option" where
  "get_date s = do {
     (sec, s) \<leftarrow> read_rtc 0 s;
     (mi, s) \<leftarrow> read_rtc 2 s;
     (h, s) \<leftarrow> read_rtc 4 s;
     (d, s) \<leftarrow> read_rtc 7 s;
     (mo, s) \<leftarrow> read_rtc 8 s;
     (y, s) \<leftarrow> read_rtc 9 s;
     (tmp, s) \<leftarrow> read_rtc 0 s;
     if tmp \<noteq> sec then get_date s
     else Some (\<lparr>year = y + 2000, month = mo, day = d, hour = h, minute = mi, second = sec\<rparr>, s) }"

definition timer_init :: "timer \<Rightarrow> timer option" where
  "timer_init s = do {
     (f, s) \<leftarrow> estimate_freq s;
     let s = s\<lparr>freq_mhz := f\<rparr>;
     (d, s) \<leftarrow> get_date s;
     (c, s) \<leftarrow> rdtsc s;
     Some (s\<lparr>uptsc := c\<rparr>) }"

definition timer_uptime :: "timer \<Rightarrow> (u32 \<times> timer) option" where
  "timer_uptime s = do {
     (c, s) \<leftarrow> rdtsc s;
     let tsc = c - uptsc s;
     let mticks = (ucast (drop_bit 20 tsc) :: u32);
     Assert (freq_mhz s \<noteq> 0);
     Some (mticks * 1000 div freq_mhz s, s) }"

section \<open>Properties\<close>

text \<open>The clock answers \<open>v\<close> from 0 to 99 as two decimal digits.\<close>

definition bcd :: "nat \<Rightarrow> u8" where "bcd v = of_nat (16 * (v div 10) + v mod 10)"

lemma bcd_table:
  "list_all (\<lambda>v. (uint (bcd v) AND 0xf) + drop_bit 4 (uint (bcd v)) * 10 = int v) [0..<100]"
  by code_simp

lemma read_rtc_bcd: "v < 100 \<Longrightarrow> read_rtc r (s\<lparr>answers := bcd v # vs\<rparr>) = Some (int v, s\<lparr>answers := vs\<rparr>)"
  using bcd_table by (simp add: read_rtc_def list_all_iff)

text \<open>A second that passes while the date is read makes it read again.\<close>

lemma get_date_stable:
  assumes "list_all (\<lambda>v. v < 100) [sec, mi, h, d, mo, y]"
  shows "get_date (s\<lparr>answers := map bcd [sec, mi, h, d, mo, y, sec] @ vs\<rparr>) =
    Some (\<lparr>year = 2000 + int y, month = int mo, day = int d, hour = int h, minute = int mi, second = int sec\<rparr>, s\<lparr>answers := vs\<rparr>)"
  using assms by (subst get_date.simps) (simp add: read_rtc_bcd)

lemma get_date_again:
  assumes "list_all (\<lambda>v. v < 100) [sec, mi, h, d, mo, y, sec']" "sec' \<noteq> sec"
  shows "get_date (s\<lparr>answers := map bcd [sec, mi, h, d, mo, y, sec'] @ vs\<rparr>) = get_date (s\<lparr>answers := vs\<rparr>)"
  using assms by (subst get_date.simps) (simp add: read_rtc_bcd)

text \<open>The milliseconds are exact to the resolution of the counter until a thousand times its 2^20 cycles exceed
  32 bits, at 2 GHz after some 37 minutes, and then begin again at 0.\<close>

lemma uptime_exact:
  assumes "cycles s = c # cs" "freq_mhz s \<noteq> 0" "unat (drop_bit 20 (c - uptsc s)) * 1000 < 2 ^ 32"
  shows "\<exists>ms. timer_uptime s = Some (ms, s\<lparr>cycles := cs\<rparr>) \<and>
    unat ms = unat (drop_bit 20 (c - uptsc s)) * 1000 div unat (freq_mhz s)"
proof -
  let ?m = "ucast (drop_bit 20 (c - uptsc s)) :: u32"
  have "unat ?m = unat (drop_bit 20 (c - uptsc s))"
    using assms(3) by (simp add: unsigned_ucast_eq take_bit_nat_eq_self)
  then have "unat (?m * 1000) = unat (drop_bit 20 (c - uptsc s)) * 1000"
    using assms(3) by (simp add: unat_word_ariths)
  then show ?thesis using assms(1,2) by (simp add: timer_uptime_def rdtsc_def unat_div)
qed

lemma uptime_begins_again:
  "timer_uptime \<lparr>answers = [], cycles = [4294968 * 2 ^ 20], freq_mhz = 2000, uptsc = 0\<rparr> =
    Some (0, \<lparr>answers = [], cycles = [], freq_mhz = 2000, uptsc = 0\<rparr>)"
  by (simp add: timer_uptime_def rdtsc_def)

text \<open>When midnight passes during the estimate the frequency is 0, and reading the time divides by it.\<close>

lemma uptime_after_midnight:
  "freq_mhz s = 0 \<Longrightarrow> timer_uptime s = None"
  by (cases "cycles s") (simp_all add: timer_uptime_def rdtsc_def)

end
