(* ===== verification/Spec2Isabelle.thy ===== *)
theory Spec2Isabelle
  imports BlkFormat Dev ShellCat SpinSys Kvdb GameProps FrecovProps LibcoProps SperfProps CreplProps VmeProps
  CteProps LoaderProps Keyboard Mpe Timer
begin

text \<open>
  A verification library for the operating system of this repository, its C library and its user programs.

  \<^bold>\<open>The program.\<close> The kernel (\<open>src/kernel\<close>) runs on several processors of a 32-bit machine, on top of an abstract
  machine (\<open>src/abstract-machine/am\<close>) and a C library (\<open>libs/klib\<close>). \<open>os.c\<close> initialises the modules and dispatches
  interrupts to the handlers that \<open>kmt.c\<close> (tasks) and the keyboard device registered. \<open>pmm.c\<close> is the allocator all
  others take memory from; every module protects its state with a spin lock of \<open>kmt.c\<close>. The devices (RAM disk, keyboard, frame buffer,
  terminals) are reached through \<open>dev.c\<close>; the file systems \<open>blkfs.c\<close>, \<open>devfs.c\<close> and \<open>procfs.c\<close> through the tables of
  function pointers of \<open>vfs.c\<close>; the streams of \<open>io.c\<close> sit on descriptors, and \<open>shell.c\<close> on streams. Beside the kernel there are
  programs of their own: coroutines, a key-value store, a process tree, a profiler, an interactive C, a file
  recovery and a game.

  \<^bold>\<open>Conventions\<close> (\<open>Prelude\<close>, \<open>KMem\<close>). A C function is a function of the same name that returns \<open>Some\<close> of its result
  and the new state; \<open>None\<close> is a call that does not return normally: a failed assertion, a panic, a use of memory the language
  leaves undefined, or a loop without end. Error codes are results. Integers are words of their width, so that they wrap; \<open>int\<close> where the
  code compares small signed numbers. The kernel's state is one record that the components extend: \<open>hw\<close> (interrupt state and
  nesting, \<open>Spin\<close>), the heap (\<open>Pmm\<close>), handlers (\<open>Os\<close>), tasks (\<open>Kmt\<close>), keyboard (\<open>Input\<close>), devices (\<open>Devices\<close>), descriptors and
  mounts (\<open>Vfs\<close>), file systems (\<open>Kfs\<close>, \<open>Procfs\<close>, \<open>Kenv\<close>), streams (\<open>Io\<close>), shell (\<open>Shell\<close>), so an operation of a lower module runs
  unchanged in the state of a higher one. Loops are structural recursion or \<open>function\<close>s with a measure where they end, and \<open>partial_function\<close>s
  where they may not.

  \<^bold>\<open>The kernel, from below.\<close>
  \<open>Klib\<close>: \<open>klib/src/string.c\<close> on byte memory; each routine computes the list operation that the rest uses for it.
  \<open>Kstdio\<close>: \<open>stdio.c\<close>; \<open>vsnprintf\<close> produces the text that a recursive description of the format denotes.
  \<open>KString\<close>: \<open>string.c\<close>, \<open>buffer.c\<close>, \<open>path.c\<close>.
  \<open>Spin\<close>, \<open>SpinSys\<close>: \<open>pushcli\<close>, \<open>popcli\<close> and spin locks, first for one processor, then as steps of all processors in any
  order, with mutual exclusion by rule induction over the reachable states.
  \<open>Pmm\<close>, \<open>PmmUse\<close>, \<open>HeapApi\<close>: the free list in memory stands for a tiling of the heap into free and held segments; \<open>alloc\<close>
  and \<open>free\<close> are first fit and coalescing on tilings; clients see only which blocks they hold.
  \<open>Os\<close>, \<open>Kmt\<close>, \<open>Sched\<close>, \<open>Boot\<close>: handlers, tasks, semaphores, \<open>trap\<close> and \<open>os->init\<close>; scheduling is round robin and keeps one working task for a
  processor.
  \<open>Ring\<close>, \<open>Input\<close>, \<open>Video\<close>, \<open>Tty\<close>, \<open>TtyQueue\<close>, \<open>TtyScreen\<close>, \<open>TtyProps\<close>, \<open>Ramdisk\<close>, \<open>Devices\<close>, \<open>Dev\<close>: the devices; the keyboard's ring
  is a queue, a terminal delivers finished lines in order and shows what is written.
  \<open>VfsTypes\<close>, \<open>Blkfs\<close>, \<open>BlkStore\<close>, \<open>BlkDir\<close>, \<open>BlkFormat\<close>: the disk is bytes; it stands for an array of blocks, that for inodes and
  directories as finite maps, and the operations are updates of these.
  \<open>Vfs\<close>, \<open>VfsProps\<close>, \<open>FsApi\<close>, \<open>Kfs\<close>, \<open>Devfs\<close>, \<open>Procfs\<close>, \<open>Kenv\<close>, \<open>KfsProps\<close>, \<open>KfsUse\<close>: mounts, descriptors and the three file systems
  behind them, with the memory that a lookup takes and a close gives back.
  \<open>Io\<close>, \<open>IoProps\<close>, \<open>IoUse\<close>, \<open>Shell\<close>, \<open>ShellProps\<close>, \<open>ShellCat\<close>: streams are transparent buffers of a descriptor; a command line is parsed
  into its parts; \<open>cat\<close> from file to file ends and copies everything.
  \<open>Vme\<close>, \<open>VmeProps\<close>: the page tables of \<open>am/src/x86/qemu/vme.c\<close> in memory, and the processor's walk of them; mapping is an update of a
  map from addresses to translations.
  \<open>Cte\<close>, \<open>CteProps\<close>: the interrupt path of \<open>cte.c\<close> and \<open>cte_trap.S\<close> on registers and stacks in memory; saving and returning to a
  context are inverse, so tasks resume exactly, and a context of \<open>kcontext\<close> starts its task.
  \<open>Loader\<close>, \<open>LoaderProps\<close>: the boot loader \<open>boot/main.c\<close> on the registers of the disk controller; it places every segment of the image.
  \<open>Keyboard\<close>: scan codes (\<open>devices/input.c\<close>), \<open>read_key\<close> and the loop of the keyboard task, down to the events of \<open>Input\<close>.
  \<open>Mpe\<close>: counting the processors (\<open>devices/cpu.c\<close>) and starting them one by one (\<open>mpe.c\<close>), as steps of all of them in any order.
  \<open>Timer\<close>: \<open>devices/timer.c\<close>, with the point where its milliseconds begin again.

  \<^bold>\<open>The programs.\<close>
  \<open>Libco\<close>, \<open>LibcoProps\<close>: \<open>libco/co.c\<close>; contexts are places where execution goes on, clients are programs of calls, and the running
  coroutines form a chain in every reachable state.
  \<open>Kvdb\<close>: \<open>libkvdb/kvdb.c\<close>; the file is a log of records, also when a put is cut off.
  \<open>Pstree\<close>, \<open>PstreeProps\<close>: \<open>pstree/pstree.c\<close>; the output is a forest of the processes.
  \<open>Sperf\<close>, \<open>SperfProps\<close>: \<open>sperf/sperf.c\<close>; the last table adds up the times of the calls.
  \<open>Crepl\<close>, \<open>CreplProps\<close>: \<open>crepl/crepl.c\<close>; only functions that compiled are kept.
  \<open>Frecov\<close>, \<open>FrecovProps\<close>: \<open>frecov/frecov.c\<close>; long names of FAT32 are recovered exactly.
  \<open>Game\<close>, \<open>GameProps\<close>: \<open>amgame/src/game.c\<close> and \<open>rand\<close> of \<open>klib\<close>; the game ends.

  \<^bold>\<open>Interfaces.\<close> Where components rely on each other the contract is a locale, and its interpretation discharges the laws on the model:
  \<open>lock_field\<close> (a lock in a record: every module's lock), \<open>sem_field\<close> (a semaphore in a record), \<open>block_store\<close> (the disk as blocks),
  \<open>heap_api\<close> (the allocator), \<open>fs_api\<close> (lookup and close of a mounted file system: \<open>devfs\<close>, \<open>procfs\<close>), \<open>fd_sink\<close>,
  \<open>fd_source\<close>, \<open>fd_source_end\<close> (descriptors as ends of streams: files and terminals) and \<open>fd_copy\<close> (two of them at once).

  \<^bold>\<open>Bounds and fuel.\<close> \<open>parse_execute\<close> of the shell takes fuel for commands that run scripts that run commands, \<open>showTree\<close> for
  its nesting, where the oldest chain of processes is enough (\<open>pstree_forest\<close>). Everything else is total or a \<open>partial_function\<close>; a
  property of a loop that may not end states that it returns (\<open>cat_copies\<close>, \<open>lines_roundtrip\<close>, \<open>detect_long_name\<close>, \<open>address_space_life\<close>, \<open>boot_loads_kernel\<close>, \<open>typed_letters\<close>). The sizes of the code's arrays are kept, with the
  access behind them undefined; the heap and the disks may have any size that the properties' hypotheses admit.

  \<^bold>\<open>Parameters.\<close> What is not in the repository is an argument: \<open>qsort\<close>, \<open>atof\<close> and the clock of the host, \<open>/proc\<close>, \<open>gcc\<close> and the loader,
  \<open>sha1sum\<close>, \<open>rand\<close> of the host, the addresses the linker gives to functions, and the memory an allocator returns to \<open>vme.c\<close>. Hypotheses
  on them say what they document, and a witness for each property instantiates them.

  \<^bold>\<open>Not modelled.\<close> The rest of the abstract machine is inline assembly and port input and output (interrupt controllers, the display, tracing,
  descriptor tables); the models use its documented interface (interrupt state, processor number, exchange of a
  word). The processor and the controllers that the machine layer drives are modelled by their documented behaviour. Fonts are constant bitmaps. \<open>test.c\<close> and \<open>framework/main.c\<close>
  only call the modules. \<open>compiler-rt\<close>, \<open>fixmath\<close>, \<open>imgui\<close>, the benchmarks, the emulator \<open>litenes\<close> and the other
  demonstrations are third-party code, on which neither the kernel nor the programs modelled here depend. Messages printed for debugging are left out.
  Processors interleave only in \<open>SpinSys\<close> and \<open>Mpe\<close>; elsewhere an operation runs between two steps of the others, which its lock guarantees.
\<close>

end
